(* ===== verification/Capnp_Prelude.thy ===== *)
theory Capnp_Prelude
  imports Complex_Main "HOL-Library.Word"
begin

text \<open>
  The vocabulary the components share: the errors the TypeScript code throws, the result type
  and its sequencing, JavaScript numbers, and the generic lemmas on results and lists.

  An error keeps the message of the source as a template and the numbers interpolated into it,
  so that two branches that throw different messages are different values:
  \<open>ProtocolError ''x={}'' [3]\<close> stands for \<open>throw new ProtocolError(`x=${3}`)\<close>.
  \<open>PlainError\<close> is the class \<open>Error\<close>, \<open>RangeError\<close> is what a typed array or a DataView throws
  by itself, and \<open>Diverges\<close> is the value of a call that does not return.
\<close>

section \<open>Errors and results\<close>

datatype error =
    ProtocolError string "int list"
  | PlainError string "int list"
  | SessionError string "int list"
  | TransportError string "int list"
  | RangeError
  | Diverges

type_synonym 'a result = "error + 'a"

definition bindE :: "'e + 'a \<Rightarrow> ('a \<Rightarrow> 'e + 'b) \<Rightarrow> 'e + 'b" where
  "bindE m f = (case m of Inl e \<Rightarrow> Inl e | Inr x \<Rightarrow> f x)"


lemma bindE_Inl [simp]: "bindE (Inl e) f = Inl e"
  by (simp add: bindE_def)

lemma bindE_Inr [simp]: "bindE (Inr x) f = f x"
  by (simp add: bindE_def)

lemma bindE_eq_Inr: "bindE m f = Inr y \<longleftrightarrow> (\<exists>x. m = Inr x \<and> f x = Inr y)"
  by (cases m) auto

lemma bindE_eq_Inl: "bindE m f = Inl e \<longleftrightarrow> m = Inl e \<or> (\<exists>x. m = Inr x \<and> f x = Inl e)"
  by (cases m) auto

lemma bindE_InrE:
  assumes "bindE m f = Inr y"
  obtains x where "m = Inr x" and "f x = Inr y"
  using assms by (auto simp: bindE_eq_Inr)

lemma bindE_assoc: "bindE (bindE m f) g = bindE m (\<lambda>x. bindE (f x) g)"
  by (cases m) auto

lemma bindE_cong [fundef_cong]:
  "m = m' \<Longrightarrow> (\<And>x. m' = Inr x \<Longrightarrow> f x = f' x) \<Longrightarrow> bindE m f = bindE m' f'"
  by (cases m') auto

lemma if_Inl_eq_Inr [simp]:
  "(if b then Inl e else r) = Inr y \<longleftrightarrow> \<not> b \<and> r = Inr y"
  by simp

text \<open>A call returns, by a value or by an exception of the source.\<close>

definition returns :: "'a result \<Rightarrow> bool" where
  "returns r \<longleftrightarrow> r \<noteq> Inl Diverges"

named_theorems returning "operations that always return"

lemma returns_simps [simp]:
  "returns (Inr x)" "returns (Inl (ProtocolError s xs))" "returns (Inl (PlainError s xs))"
  "returns (Inl (SessionError s xs))" "returns (Inl (TransportError s xs))" "returns (Inl RangeError)"
  "\<not> returns (Inl Diverges)"
  by (simp_all add: returns_def)

lemma returns_bindE [returning]:
  "returns m \<Longrightarrow> (\<And>x. m = Inr x \<Longrightarrow> returns (f x)) \<Longrightarrow> returns (bindE m f)"
  by (cases m) (auto simp: returns_def)

lemma returns_if [returning]:
  "(b \<Longrightarrow> returns x) \<Longrightarrow> (\<not> b \<Longrightarrow> returns y) \<Longrightarrow> returns (if b then x else y)"
  by simp

lemma returns_option [returning]:
  "(v = None \<Longrightarrow> returns x) \<Longrightarrow> (\<And>a. v = Some a \<Longrightarrow> returns (f a)) \<Longrightarrow>
    returns (case v of None \<Rightarrow> x | Some a \<Rightarrow> f a)"
  by (cases v) auto

lemma returns_prod [returning]:
  "(\<And>a b. v = (a, b) \<Longrightarrow> returns (f a b)) \<Longrightarrow> returns (case v of (a, b) \<Rightarrow> f a b)"
  by (cases v) auto

lemma returns_Let [returning]: "returns (f a) \<Longrightarrow> returns (let x = a in f x)"
  by simp

text \<open>A loop that pushes one element per index.\<close>

fun collectE :: "('x \<Rightarrow> 'y result) \<Rightarrow> 'x list \<Rightarrow> 'y list result" where
  "collectE f [] = Inr []"
| "collectE f (x # xs) = bindE (f x) (\<lambda>y. bindE (collectE f xs) (\<lambda>ys. Inr (y # ys)))"

lemma collectE_map: "collectE f (map h xs) = collectE (\<lambda>x. f (h x)) xs"
  by (induction xs) simp_all

section \<open>JavaScript numbers\<close>

text \<open>
  A number the caller supplies may be any double: a rational, an infinity or NaN. The numbers
  the code computes by itself (lengths, indices, values read from bytes) are integers and are
  modelled as \<open>int\<close>; all of them stay below \<open>2 ^ 53\<close> for frames that fit in memory, where
  double arithmetic is exact.
\<close>

datatype number = Num rat | Infinity | NegInfinity | NaN

definition jint :: "int \<Rightarrow> number" where
  "jint i = Num (of_int i)"

fun isInteger :: "number \<Rightarrow> bool" where
  "isInteger (Num q) = (of_int \<lfloor>q\<rfloor> = q)"
| "isInteger _ = False"

fun isFinite :: "number \<Rightarrow> bool" where
  "isFinite (Num q) = True"
| "isFinite _ = False"

definition MAX_SAFE_INTEGER :: int where
  "MAX_SAFE_INTEGER = 2 ^ 53 - 1"

fun isSafeInteger :: "number \<Rightarrow> bool" where
  "isSafeInteger (Num q) = (of_int \<lfloor>q\<rfloor> = q \<and> \<bar>\<lfloor>q\<rfloor>\<bar> \<le> MAX_SAFE_INTEGER)"
| "isSafeInteger _ = False"

fun numLess :: "number \<Rightarrow> number \<Rightarrow> bool" where
  "numLess NaN _ = False"
| "numLess _ NaN = False"
| "numLess (Num p) (Num q) = (p < q)"
| "numLess (Num p) Infinity = True"
| "numLess (Num p) NegInfinity = False"
| "numLess Infinity _ = False"
| "numLess NegInfinity NegInfinity = False"
| "numLess NegInfinity _ = True"

fun toInt :: "number \<Rightarrow> int" where
  "toInt (Num q) = \<lfloor>q\<rfloor>"
| "toInt _ = 0"

text \<open>\<open>Math.max\<close> and \<open>Math.min\<close> of two numbers.\<close>

definition numMax :: "number \<Rightarrow> number \<Rightarrow> number" where
  "numMax a b = (if a = NaN \<or> b = NaN then NaN else if numLess a b then b else a)"

definition numMin :: "number \<Rightarrow> number \<Rightarrow> number" where
  "numMin a b = (if a = NaN \<or> b = NaN then NaN else if numLess b a then b else a)"

lemma isInteger_jint [simp]: "isInteger (jint i)"
  by (simp add: jint_def)

lemma isFinite_jint [simp]: "isFinite (jint i)"
  by (simp add: jint_def)

lemma toInt_jint [simp]: "toInt (jint i) = i"
  by (simp add: jint_def)

lemma isSafeInteger_jint [simp]: "isSafeInteger (jint i) \<longleftrightarrow> \<bar>i\<bar> \<le> MAX_SAFE_INTEGER"
  by (simp add: jint_def)

lemma numLess_jint [simp]: "numLess (jint i) (jint j) \<longleftrightarrow> i < j"
  by (simp add: jint_def)

lemma jint_inject [simp]: "jint i = jint j \<longleftrightarrow> i = j"
  by (simp add: jint_def)

lemma jint_not_inf [simp]:
  "jint i \<noteq> Infinity" "jint i \<noteq> NegInfinity" "jint i \<noteq> NaN" "Infinity \<noteq> jint i"
  by (simp_all add: jint_def)

lemma isInteger_iff: "isInteger v \<longleftrightarrow> (\<exists>i. v = jint i)"
proof (cases v)
  case (Num q)
  then show ?thesis
    by (auto simp: jint_def intro: exI [of _ "\<lfloor>q\<rfloor>"])
qed (auto simp: jint_def)

lemma isSafeInteger_iff: "isSafeInteger v \<longleftrightarrow> (\<exists>i. v = jint i \<and> \<bar>i\<bar> \<le> MAX_SAFE_INTEGER)"
proof (cases v)
  case (Num q)
  then show ?thesis
    by (auto simp: jint_def intro: exI [of _ "\<lfloor>q\<rfloor>"])
qed (auto simp: jint_def)

section \<open>Generic lemmas on lists and integers\<close>

lemma take_drop_append_left:
  "i + n \<le> length xs \<Longrightarrow> take n (drop i (xs @ ys)) = take n (drop i xs)"
  by simp

lemma take_drop_append_right:
  "length xs \<le> i \<Longrightarrow> take n (drop i (xs @ ys)) = take n (drop (i - length xs) ys)"
  by simp

text \<open>\<open>Math.ceil(a / b)\<close> for a non-negative integer and a positive one.\<close>

definition ceilDiv :: "int \<Rightarrow> int \<Rightarrow> int" where
  "ceilDiv a b = (a + b - 1) div b"

lemma ceilDiv_nonneg: "0 \<le> a \<Longrightarrow> 0 < b \<Longrightarrow> 0 \<le> ceilDiv a b"
  by (simp add: ceilDiv_def pos_imp_zdiv_nonneg_iff)

lemma ceilDiv_upper: "0 < b \<Longrightarrow> a \<le> ceilDiv a b * b"
proof -
  assume b: "0 < b"
  have "(a + b - 1) mod b < b" using b by simp
  moreover have "(a + b - 1) div b * b + (a + b - 1) mod b = a + b - 1" by simp
  ultimately show "a \<le> ceilDiv a b * b" unfolding ceilDiv_def by linarith
qed

lemma ceilDiv_lower: "0 < b \<Longrightarrow> ceilDiv a b * b < a + b"
proof -
  assume b: "0 < b"
  have "0 \<le> (a + b - 1) mod b" using b by simp
  moreover have "(a + b - 1) div b * b + (a + b - 1) mod b = a + b - 1" by simp
  ultimately show "ceilDiv a b * b < a + b" unfolding ceilDiv_def by linarith
qed

lemma ceilDiv_ceiling:
  assumes "0 < b"
  shows "ceilDiv a b = \<lceil>of_int a / (of_int b :: rat)\<rceil>"
proof -
  let ?c = "ceilDiv a b"
  have "a \<le> ?c * b" and "?c * b < a + b"
    using assms by (rule ceilDiv_upper, rule ceilDiv_lower)
  then have "(of_int a :: rat) \<le> of_int ?c * of_int b" and "of_int ?c * of_int b < (of_int a + of_int b :: rat)"
    by (metis of_int_le_iff of_int_mult, metis of_int_add of_int_less_iff of_int_mult)
  then have "\<lceil>of_int a / (of_int b :: rat)\<rceil> = ?c"
    using assms by (intro ceiling_unique) (simp_all add: field_simps)
  then show ?thesis by simp
qed

end
