(* ===== verification/Js_Bytes.thy ===== *)
theory Js_Bytes
  imports Capnp_Prelude
begin

unbundle bit_operations_syntax

text \<open>
  \<open>Uint8Array\<close> as a list of bytes and the \<open>DataView\<close> accessors the sources use on it, all
  little-endian. An access that is not wholly inside the view throws a \<open>RangeError\<close>, as the
  standard says. A write returns the updated bytes. The section on cells is the interface the
  builders and readers rely on: what a cell holds after a write, and that writes to disjoint
  cells do not disturb each other.
\<close>

type_synonym byte = "8 word"
type_synonym bytes = "byte list"

section \<open>Little-endian integers\<close>

fun le_nat :: "bytes \<Rightarrow> nat" where
  "le_nat [] = 0"
| "le_nat (b # bs) = unat b + 256 * le_nat bs"

fun le_bytes :: "nat \<Rightarrow> nat \<Rightarrow> bytes" where
  "le_bytes 0 v = []"
| "le_bytes (Suc n) v = word_of_nat (v mod 256) # le_bytes n (v div 256)"

lemma length_le_bytes [simp]: "length (le_bytes n v) = n"
  by (induction n arbitrary: v) auto

lemma unat_byte_mod: "unat (word_of_nat (v mod 256) :: byte) = v mod 256"
  by (simp add: unat_of_nat)

lemma le_nat_le_bytes: "le_nat (le_bytes n v) = v mod 256 ^ n"
proof (induction n arbitrary: v)
  case 0
  then show ?case by simp
next
  case (Suc n)
  have "v mod 256 + 256 * (v div 256 mod 256 ^ n) = v mod (256 * 256 ^ n)"
    by (simp add: mod_mult2_eq)
  with Suc show ?case by (simp add: unat_byte_mod)
qed

lemma le_nat_bound: "le_nat bs < 256 ^ length bs"
proof (induction bs)
  case Nil
  then show ?case by simp
next
  case (Cons b bs)
  have "unat b < 256" using unsigned_less [where 'a=nat, of b] by simp
  then have "unat b + 256 * le_nat bs < 256 * (le_nat bs + 1)" by simp
  also have "\<dots> \<le> 256 * 256 ^ length bs" using Cons by (intro mult_left_mono) auto
  finally show ?case by simp
qed

lemma le_bytes_le_nat: "le_bytes (length bs) (le_nat bs) = bs"
proof (induction bs)
  case Nil
  then show ?case by simp
next
  case (Cons b bs)
  have b: "unat b < 256" using unsigned_less [where 'a=nat, of b] by simp
  then have "(unat b + 256 * le_nat bs) div 256 = le_nat bs"
    and "(unat b + 256 * le_nat bs) mod 256 = unat b" by simp_all
  with Cons show ?case by simp
qed

lemma le_nat_zeros [simp]: "le_nat (replicate n 0) = 0"
  by (induction n) auto

lemma le_bytes_zero [simp]: "le_bytes n 0 = replicate n 0"
  by (induction n) auto

section \<open>Typed-array operations\<close>

text \<open>\<open>subarray\<close> and \<open>slice\<close> for in-range, ordered bounds; \<open>set\<close> at an offset.\<close>

definition subarray :: "bytes \<Rightarrow> int \<Rightarrow> int \<Rightarrow> bytes" where
  "subarray xs i j = take (nat (j - i)) (drop (nat i) xs)"

definition setBytes :: "bytes \<Rightarrow> bytes \<Rightarrow> int \<Rightarrow> bytes result" where
  "setBytes xs bs i =
     (if 0 \<le> i \<and> i + int (length bs) \<le> int (length xs)
      then Inr (take (nat i) xs @ bs @ drop (nat i + length bs) xs)
      else Inl RangeError)"

definition getLE :: "nat \<Rightarrow> bytes \<Rightarrow> int \<Rightarrow> nat result" where
  "getLE n xs i =
     (if 0 \<le> i \<and> i + int n \<le> int (length xs)
      then Inr (le_nat (take n (drop (nat i) xs)))
      else Inl RangeError)"

definition getUint8 :: "bytes \<Rightarrow> int \<Rightarrow> int result" where
  "getUint8 xs i = bindE (getLE 1 xs i) (\<lambda>v. Inr (int v))"

definition getUint16 :: "bytes \<Rightarrow> int \<Rightarrow> int result" where
  "getUint16 xs i = bindE (getLE 2 xs i) (\<lambda>v. Inr (int v))"

definition getUint32 :: "bytes \<Rightarrow> int \<Rightarrow> int result" where
  "getUint32 xs i = bindE (getLE 4 xs i) (\<lambda>v. Inr (int v))"

definition getBigUint64 :: "bytes \<Rightarrow> int \<Rightarrow> 64 word result" where
  "getBigUint64 xs i = bindE (getLE 8 xs i) (\<lambda>v. Inr (word_of_nat v))"

text \<open>The setters reduce their argument modulo the width, as \<open>ToUint16\<close> and its kin do.\<close>

definition setLE :: "nat \<Rightarrow> bytes \<Rightarrow> int \<Rightarrow> nat \<Rightarrow> bytes result" where
  "setLE n xs i v = setBytes xs (le_bytes n v) i"

definition setUint8 :: "bytes \<Rightarrow> int \<Rightarrow> int \<Rightarrow> bytes result" where
  "setUint8 xs i v = setLE 1 xs i (nat (v mod 2 ^ 8))"

definition setUint16 :: "bytes \<Rightarrow> int \<Rightarrow> int \<Rightarrow> bytes result" where
  "setUint16 xs i v = setLE 2 xs i (nat (v mod 2 ^ 16))"

definition setUint32 :: "bytes \<Rightarrow> int \<Rightarrow> int \<Rightarrow> bytes result" where
  "setUint32 xs i v = setLE 4 xs i (nat (v mod 2 ^ 32))"

definition setBigUint64 :: "bytes \<Rightarrow> int \<Rightarrow> 64 word \<Rightarrow> bytes result" where
  "setBigUint64 xs i v = setLE 8 xs i (unat v)"

section \<open>Reads and writes\<close>

lemma setBytes_length: "setBytes xs bs i = Inr ys \<Longrightarrow> length ys = length xs"
  by (auto simp: setBytes_def split: if_splits)

lemma setBytes_ok:
  "0 \<le> i \<Longrightarrow> i + int (length bs) \<le> int (length xs) \<Longrightarrow>
   setBytes xs bs i = Inr (take (nat i) xs @ bs @ drop (nat i + length bs) xs)"
  by (simp add: setBytes_def)

lemma setBytes_same:
  assumes "setBytes xs bs i = Inr ys"
  shows "take (length bs) (drop (nat i) ys) = bs"
  using assms by (auto simp: setBytes_def split: if_splits)

lemma setBytes_nth:
  assumes "setBytes xs bs i = Inr ys"
  shows "ys ! k = (if nat i \<le> k \<and> k < nat i + length bs then bs ! (k - nat i) else xs ! k)"
proof -
  from assms have i: "0 \<le> i" "i + int (length bs) \<le> int (length xs)"
    and ys: "ys = take (nat i) xs @ bs @ drop (nat i + length bs) xs"
    by (auto simp: setBytes_def split: if_splits)
  have len: "length (take (nat i) xs) = nat i" using i by simp
  have "nat i + length bs + (k - nat i - length bs) = k" if "\<not> k < nat i + length bs"
    using that by simp
  moreover have "nat i + length bs \<le> length xs" using i by linarith
  ultimately show ?thesis
    unfolding ys by (auto simp: nth_append len)
qed

lemma setBytes_other:
  assumes "setBytes xs bs i = Inr ys" and "k + n \<le> nat i \<or> nat i + length bs \<le> k"
  shows "take n (drop k ys) = take n (drop k xs)"
proof (rule nth_equalityI)
  show "length (take n (drop k ys)) = length (take n (drop k xs))"
    by (simp add: setBytes_length [OF assms(1)])
next
  fix j assume "j < length (take n (drop k ys))"
  then have j: "j < n" "k \<le> length xs" "k \<le> length ys"
    using setBytes_length [OF assms(1)] by auto
  with assms(2) have "ys ! (k + j) = xs ! (k + j)"
    by (auto simp: setBytes_nth [OF assms(1)])
  then show "take n (drop k ys) ! j = take n (drop k xs) ! j"
    using j by simp
qed

lemma getLE_ok:
  "0 \<le> i \<Longrightarrow> i + int n \<le> int (length xs) \<Longrightarrow> getLE n xs i = Inr (le_nat (take n (drop (nat i) xs)))"
  by (simp add: getLE_def)

lemma getLE_eq_Inr:
  "getLE n xs i = Inr v \<longleftrightarrow>
     0 \<le> i \<and> i + int n \<le> int (length xs) \<and> v = le_nat (take n (drop (nat i) xs))"
  by (auto simp: getLE_def)

lemma getLE_bound: "getLE n xs i = Inr v \<Longrightarrow> v < 256 ^ n"
proof -
  assume "getLE n xs i = Inr v"
  then have v: "v = le_nat (take n (drop (nat i) xs))" and "i + int n \<le> int (length xs)" "0 \<le> i"
    by (auto simp: getLE_eq_Inr)
  then have "length (take n (drop (nat i) xs)) = n" by simp
  then show ?thesis using le_nat_bound [of "take n (drop (nat i) xs)"] v by simp
qed

lemma setLE_length: "setLE n xs i v = Inr ys \<Longrightarrow> length ys = length xs"
  by (simp add: setLE_def setBytes_length)

lemma getLE_setLE_same:
  assumes "setLE n xs i v = Inr ys"
  shows "getLE n ys i = Inr (v mod 256 ^ n)"
proof -
  from assms have s: "setBytes xs (le_bytes n v) i = Inr ys" by (simp add: setLE_def)
  then have "0 \<le> i \<and> i + int n \<le> int (length ys)"
    using setBytes_length [OF s] by (auto simp: setBytes_def split: if_splits)
  moreover have "take n (drop (nat i) ys) = le_bytes n v"
    using setBytes_same [OF s] by simp
  ultimately show ?thesis by (simp add: getLE_def le_nat_le_bytes)
qed

lemma getLE_setBytes_other:
  assumes "setBytes xs bs i = Inr ys" and "k + int n \<le> i \<or> i + int (length bs) \<le> k"
  shows "getLE n ys k = getLE n xs k"
proof (cases "0 \<le> k \<and> k + int n \<le> int (length xs)")
  case True
  have "0 \<le> i" using assms(1) by (auto simp: setBytes_def split: if_splits)
  then have "nat k + n \<le> nat i \<or> nat i + length bs \<le> nat k" using assms(2) True by linarith
  then have "take n (drop (nat k) ys) = take n (drop (nat k) xs)"
    by (rule setBytes_other [OF assms(1)])
  then show ?thesis using setBytes_length [OF assms(1)] by (simp add: getLE_def)
next
  case False
  then show ?thesis using setBytes_length [OF assms(1)] by (auto simp: getLE_def)
qed

lemma getLE_setLE_other:
  "setLE m xs i v = Inr ys \<Longrightarrow> k + int n \<le> i \<or> i + int m \<le> k \<Longrightarrow> getLE n ys k = getLE n xs k"
  unfolding setLE_def by (erule getLE_setBytes_other) simp

lemma getLE_replicate_zero:
  "0 \<le> i \<Longrightarrow> i + int n \<le> int m \<Longrightarrow> getLE n (replicate m 0) i = Inr 0"
proof -
  assume a: "0 \<le> i" "i + int n \<le> int m"
  then have "take n (drop (nat i) (replicate m (0::byte))) = replicate n 0"
    by (simp add: min_def) linarith
  then show ?thesis using a by (simp add: getLE_def)
qed

lemma getLE_append_left:
  "i + int n \<le> int (length xs) \<Longrightarrow> getLE n (xs @ ys) i = getLE n xs i"
  by (cases "0 \<le> i") (auto simp: getLE_def nat_le_iff)

lemma getLE_append_right:
  "int (length xs) \<le> i \<Longrightarrow> getLE n (xs @ ys) i = getLE n ys (i - int (length xs))"
  by (auto simp: getLE_def nat_diff_distrib)

section \<open>Cells\<close>

text \<open>
  The contract of a fixed-width accessor pair of a \<open>DataView\<close>: a read after a write to the
  same offset returns the value the width can hold, a read elsewhere is not disturbed, the
  view keeps its length, and both succeed exactly inside the view.
\<close>

locale cell =
  fixes get :: "bytes \<Rightarrow> int \<Rightarrow> 'v result"
    and put :: "bytes \<Rightarrow> int \<Rightarrow> 'v \<Rightarrow> bytes result"
    and fits :: "'v \<Rightarrow> bool"
    and width :: nat
  assumes get_ok: "0 \<le> i \<and> i + int width \<le> int (length xs) \<longleftrightarrow> (\<exists>v. get xs i = Inr v)"
    and put_ok: "0 \<le> i \<and> i + int width \<le> int (length xs) \<longleftrightarrow> (\<exists>ys. put xs i v = Inr ys)"
    and put_length: "put xs i v = Inr ys \<Longrightarrow> length ys = length xs"
    and get_put_same: "put xs i v = Inr ys \<Longrightarrow> fits v \<Longrightarrow> get ys i = Inr v"
    and getLE_put_other:
      "put xs i v = Inr ys \<Longrightarrow> k + int n \<le> i \<or> i + int width \<le> k \<Longrightarrow> getLE n ys k = getLE n xs k"
    and get_getLE: "getLE width xs i = getLE width ys i \<Longrightarrow> get xs i = get ys i"
begin

lemma get_put_other:
  "put xs i v = Inr ys \<Longrightarrow> k + int width \<le> i \<or> i + int width \<le> k \<Longrightarrow> get ys k = get xs k"
proof (rule ccontr)
  assume p: "put xs i v = Inr ys" "k + int width \<le> i \<or> i + int width \<le> k" "get ys k \<noteq> get xs k"
  then have eq: "getLE width ys k = getLE width xs k" by (blast intro: getLE_put_other)
  then have "get ys k = get xs k"
    using get_getLE [of ys k xs] by simp
  with p(3) show False by simp
qed

text \<open>Two writes to disjoint cells are both visible afterwards.\<close>

lemma two_puts:
  assumes "put xs i v = Inr ys" and "put ys k w = Inr zs" and "i + int width \<le> k \<or> k + int width \<le> i"
    and "fits v" and "fits w"
  shows "get zs i = Inr v \<and> get zs k = Inr w"
  using get_put_same [OF assms(2) assms(5)] get_put_other [OF assms(2), of i]
    get_put_same [OF assms(1) assms(4)] assms(3) by auto

end

lemmas accessor_defs =
  getUint8_def getUint16_def getUint32_def getBigUint64_def
  setUint8_def setUint16_def setUint32_def setBigUint64_def

lemma setLE_ok: "(0 \<le> i \<and> i + int n \<le> int (length xs)) = (\<exists>ys. setLE n xs i v = Inr ys)"
  by (auto simp: setLE_def setBytes_def)

lemma number_cell:
  "cell (\<lambda>xs i. bindE (getLE n xs i) (\<lambda>v. Inr (int v)))
     (\<lambda>xs i v. setLE n xs i (nat (v mod 256 ^ n))) (\<lambda>v. 0 \<le> v \<and> v < 256 ^ n) n"
proof
  fix xs ys i v
  assume w: "setLE n xs i (nat (v mod 256 ^ n)) = Inr ys" and v: "0 \<le> v \<and> v < (256::int) ^ n"
  have "nat (v mod 256 ^ n) mod 256 ^ n = nat v"
    using v by (simp add: nat_less_iff)
  then show "bindE (getLE n ys i) (\<lambda>v. Inr (int v)) = Inr v"
    using getLE_setLE_same [OF w] v by simp
next
  fix xs i v ys k m
  assume "setLE n xs i (nat (v mod 256 ^ n)) = Inr ys" "k + int m \<le> i \<or> i + int n \<le> k"
  then show "getLE m ys k = getLE m xs k" by (rule getLE_setLE_other)
qed (auto simp: bindE_eq_Inr getLE_eq_Inr setLE_length simp flip: setLE_ok)

interpretation u8: cell getUint8 setUint8 "\<lambda>v. 0 \<le> v \<and> v < 2 ^ 8" 1
  using number_cell [of 1] unfolding getUint8_def [abs_def] setUint8_def [abs_def] by simp

interpretation u16: cell getUint16 setUint16 "\<lambda>v. 0 \<le> v \<and> v < 2 ^ 16" 2
  using number_cell [of 2] unfolding getUint16_def [abs_def] setUint16_def [abs_def] by simp

interpretation u32: cell getUint32 setUint32 "\<lambda>v. 0 \<le> v \<and> v < 2 ^ 32" 4
  using number_cell [of 4] unfolding getUint32_def [abs_def] setUint32_def [abs_def] by simp

interpretation u64: cell getBigUint64 setBigUint64 "\<lambda>v. True" 8
proof
  show "getBigUint64 xs i = getBigUint64 ys i" if "getLE 8 xs i = getLE 8 ys i" for xs ys i
    using that by (simp add: getBigUint64_def)
  show "getLE n ys k = getLE n xs k"
    if "setBigUint64 xs i v = Inr ys" "k + int n \<le> i \<or> i + int 8 \<le> k" for xs i v ys k n
    using that unfolding setBigUint64_def by (rule getLE_setLE_other)
  show "getBigUint64 ys i = Inr v" if "setBigUint64 xs i v = Inr ys" for xs i v ys
  proof -
    have "unat v < 256 ^ 8" using unsigned_less [where 'a=nat, of v] by simp
    then have "getLE 8 ys i = Inr (unat v)"
      using getLE_setLE_same [of 8 xs i "unat v" ys] that by (simp add: setBigUint64_def)
    then show ?thesis by (simp add: getBigUint64_def)
  qed
qed (auto simp: getBigUint64_def setBigUint64_def bindE_eq_Inr getLE_eq_Inr setLE_length
      simp flip: setLE_ok)

lemma get_set_returns [returning]:
  "returns (getUint8 xs i)" "returns (getUint16 xs i)" "returns (getUint32 xs i)" "returns (getBigUint64 xs i)"
  "returns (setBytes xs bs i)" "returns (setUint8 xs i v)" "returns (setUint16 xs i v)"
  "returns (setUint32 xs i v)" "returns (setBigUint64 xs i w)"
  by (simp_all add: getUint8_def getUint16_def getUint32_def getBigUint64_def getLE_def setBytes_def
      setUint8_def setUint16_def setUint32_def setBigUint64_def setLE_def)

lemma getUint16_range: "getUint16 xs i = Inr v \<Longrightarrow> 0 \<le> v \<and> v < 2 ^ 16"
  using getLE_bound [of 2 xs i] by (auto simp: getUint16_def bindE_eq_Inr)

lemma getUint32_range: "getUint32 xs i = Inr v \<Longrightarrow> 0 \<le> v \<and> v < 2 ^ 32"
  using getLE_bound [of 4 xs i] by (auto simp: getUint32_def bindE_eq_Inr)

section \<open>Evaluation\<close>

text \<open>Code equations that compute on \<open>int\<close>, whose numerals are binary, instead of on \<open>nat\<close>.\<close>

fun le_int :: "bytes \<Rightarrow> int" where
  "le_int [] = 0"
| "le_int (b # bs) = uint b + 256 * le_int bs"

fun int_bytes :: "nat \<Rightarrow> int \<Rightarrow> bytes" where
  "int_bytes 0 v = []"
| "int_bytes (Suc n) v = word_of_int (v mod 256) # int_bytes n (v div 256)"

lemma le_int: "int (le_nat bs) = le_int bs"
  by (induction bs) simp_all

lemma le_bytes_int: "le_bytes n v = int_bytes n (int v)"
proof (induction n arbitrary: v)
  case 0
  then show ?case by simp
next
  case (Suc n)
  have "(word_of_int (int v mod 256) :: byte) = word_of_int (int (v mod 256))" by (simp only: zmod_int of_nat_numeral)
  then show ?case using Suc by (simp add: zdiv_int)
qed

lemma get_code [code]:
  "getUint8 xs i = (if 0 \<le> i \<and> i + 1 \<le> int (length xs) then Inr (le_int (take 1 (drop (nat i) xs))) else Inl RangeError)"
  "getUint16 xs i = (if 0 \<le> i \<and> i + 2 \<le> int (length xs) then Inr (le_int (take 2 (drop (nat i) xs))) else Inl RangeError)"
  "getUint32 xs i = (if 0 \<le> i \<and> i + 4 \<le> int (length xs) then Inr (le_int (take 4 (drop (nat i) xs))) else Inl RangeError)"
  by (simp_all add: getUint8_def getUint16_def getUint32_def getLE_def le_int)

lemma get64_code [code]:
  "getBigUint64 xs i = (if 0 \<le> i \<and> i + 8 \<le> int (length xs)
     then Inr (word_of_int (le_int (take 8 (drop (nat i) xs)))) else Inl RangeError)"
  by (simp add: getBigUint64_def getLE_def flip: le_int)

lemma set_code [code]:
  "setUint8 xs i v = setBytes xs (int_bytes 1 (v mod 2 ^ 8)) i"
  "setUint16 xs i v = setBytes xs (int_bytes 2 (v mod 2 ^ 16)) i"
  "setUint32 xs i v = setBytes xs (int_bytes 4 (v mod 2 ^ 32)) i"
  "setBigUint64 xs i w = setBytes xs (int_bytes 8 (uint w)) i"
  by (simp_all add: setUint8_def setUint16_def setUint32_def setBigUint64_def setLE_def le_bytes_int)

end
