(* ===== verification/Wire_Segments.thy ===== *)
theory Wire_Segments
  imports Js_Bytes
begin

unbundle bit_operations_syntax

text \<open>
  \<open>src/rpc/wire/segments.ts\<close> and the constants and reference types of \<open>types.ts\<close>: the segment
  table of a framed message, its parser and the single-segment framer, bounds-checked word and
  field reads, and the integer checks of the encoders. A \<open>SegmentTable\<close> keeps the segments; its
  \<open>views\<close> are \<open>DataView\<close>s over the same bytes, so they are not stored twice.
\<close>

section \<open>Types and constants\<close>

definition WORD_BYTES :: int where [simp]: "WORD_BYTES = 8"
definition MASK_29 :: "64 word" where "MASK_29 = 0x1fffffff"
definition MASK_30 :: "64 word" where "MASK_30 = 0x3fffffff"
definition POINTER_OFFSET_MASK :: "64 word" where "POINTER_OFFSET_MASK = push_bit 2 MASK_30"

record SegmentTable =
  segments :: "bytes list"

record StructRef =
  sr_segmentId :: int
  sr_startWord :: int
  sr_dataWordCount :: int
  sr_pointerCount :: int

text \<open>\<open>table.segments[id]\<close>: \<open>undefined\<close> outside the array.\<close>

definition segmentAt :: "bytes list \<Rightarrow> int \<Rightarrow> bytes option" where
  "segmentAt segs i = (if 0 \<le> i \<and> i < int (length segs) then Some (segs ! nat i) else None)"

section \<open>Range checks\<close>

definition ensureRange :: "bytes \<Rightarrow> int \<Rightarrow> int \<Rightarrow> string \<Rightarrow> unit result" where
  "ensureRange segment byteOffset len context =
     (if byteOffset < 0 \<or> byteOffset + len > int (length segment)
      then Inl (ProtocolError (context @ '' out of range: offset={} len={} segment={}'')
                  [byteOffset, len, int (length segment)])
      else Inr ())"

definition ensureSegmentRange ::
  "SegmentTable \<Rightarrow> int \<Rightarrow> int \<Rightarrow> int \<Rightarrow> string \<Rightarrow> unit result" where
  "ensureSegmentRange table segmentId byteOffset len context =
     (case segmentAt (segments table) segmentId of
        None \<Rightarrow> Inl (ProtocolError (context @ '' references missing segment {}'') [segmentId])
      | Some seg \<Rightarrow>
          if byteOffset < 0 \<or> byteOffset + len > int (length seg)
          then Inl (ProtocolError
                 (context @ '' out of range: segment={} offset={} len={} segmentSize={}'')
                 [segmentId, byteOffset, len, int (length seg)])
          else Inr ())"

section \<open>Frame parsing\<close>

text \<open>
  The loop of \<open>segmentsFromFrame\<close>: \<open>n\<close> segments are left, \<open>i\<close> have been taken, the payload of
  the next one starts at \<open>cursor\<close>.
\<close>

fun readSegments :: "bytes \<Rightarrow> nat \<Rightarrow> int \<Rightarrow> int \<Rightarrow> bytes list \<Rightarrow> bytes list result" where
  "readSegments frame 0 i cursor acc = Inr acc"
| "readSegments frame (Suc n) i cursor acc =
     bindE (getUint32 frame (4 + i * 4)) (\<lambda>segmentWords.
       let segmentBytes = segmentWords * WORD_BYTES
       in if cursor + segmentBytes > int (length frame)
          then Inl (ProtocolError ''rpc frame segment payload is truncated'' [])
          else readSegments frame n (i + 1) (cursor + segmentBytes)
                 (acc @ [subarray frame cursor (cursor + segmentBytes)]))"

definition segmentsFromFrame :: "bytes \<Rightarrow> SegmentTable result" where
  "segmentsFromFrame frame =
     (if int (length frame) < 8 then Inl (ProtocolError ''rpc frame is too short'' [])
      else bindE (getUint32 frame 0) (\<lambda>c.
        let segmentCount = c + 1;
            headerU32Count = 1 + segmentCount;
            headerBytes = ceilDiv (headerU32Count * 4) WORD_BYTES * WORD_BYTES
        in if int (length frame) < headerBytes
           then Inl (ProtocolError ''rpc frame header is truncated'' [])
           else bindE (readSegments frame (nat segmentCount) 0 headerBytes [])
                  (\<lambda>segs. Inr \<lparr>segments = segs\<rparr>)))"

definition segmentFromFrame :: "bytes \<Rightarrow> bytes result" where
  "segmentFromFrame frame =
     bindE (segmentsFromFrame frame) (\<lambda>table.
       case segments table of
         [seg] \<Rightarrow> Inr seg
       | segs \<Rightarrow> Inl (ProtocolError ''expected single-segment payload message, got {}''
                       [int (length segs)]))"

definition frameFromSegment :: "bytes \<Rightarrow> bytes result" where
  "frameFromSegment segment =
     (if int (length segment) mod WORD_BYTES \<noteq> 0
      then Inl (ProtocolError ''segment length must be word-aligned, got {}'' [int (length segment)])
      else let words = int (length segment) div WORD_BYTES;
               out = replicate (8 + length segment) 0
           in bindE (setUint32 out 0 0) (\<lambda>out.
              bindE (setUint32 out 4 words) (\<lambda>out.
              setBytes out segment 8)))"

section \<open>Word-level reads and writes\<close>

definition readWord :: "bytes \<Rightarrow> int \<Rightarrow> 64 word result" where
  "readWord segment wordIndex =
     (let byteOffset = wordIndex * WORD_BYTES
      in bindE (ensureRange segment byteOffset WORD_BYTES ''readWord'') (\<lambda>_.
         getBigUint64 segment byteOffset))"

definition readWordFromTable :: "SegmentTable \<Rightarrow> int \<Rightarrow> int \<Rightarrow> string \<Rightarrow> 64 word result" where
  "readWordFromTable table segmentId wordIndex context =
     bindE (ensureSegmentRange table segmentId (wordIndex * WORD_BYTES) WORD_BYTES context) (\<lambda>_.
       case segmentAt (segments table) segmentId of
         None \<Rightarrow> Inl RangeError
       | Some seg \<Rightarrow> getBigUint64 seg (wordIndex * WORD_BYTES))"

definition writeWord :: "bytes \<Rightarrow> int \<Rightarrow> 64 word \<Rightarrow> bytes result" where
  "writeWord segment wordIndex value =
     (let byteOffset = wordIndex * WORD_BYTES
      in bindE (ensureRange segment byteOffset WORD_BYTES ''writeWord'') (\<lambda>_.
         setBigUint64 segment byteOffset value))"

section \<open>Struct field readers\<close>

text \<open>
  The three readers differ in the width and in the accessor. \<open>table.segments[id]\<close> is not
  checked by them: for a missing segment \<open>ensureRange\<close> fails on \<open>undefined\<close> (a \<open>TypeError\<close>,
  kept here as the plain error of an undefined read).
\<close>

definition undefinedRead :: error where
  "undefinedRead = PlainError ''cannot read properties of undefined'' []"

definition readFieldInStruct ::
  "(bytes \<Rightarrow> int \<Rightarrow> 'v result) \<Rightarrow> int \<Rightarrow> string \<Rightarrow> SegmentTable \<Rightarrow> StructRef \<Rightarrow> int \<Rightarrow> 'v result" where
  "readFieldInStruct get width name table structRef byteOffset =
     (if byteOffset < 0 \<or> byteOffset + width > sr_dataWordCount structRef * WORD_BYTES
      then Inl (ProtocolError (name @ '' out of range: {}'') [byteOffset])
      else let absolute = sr_startWord structRef * WORD_BYTES + byteOffset
           in case segmentAt (segments table) (sr_segmentId structRef) of
                None \<Rightarrow> Inl undefinedRead
              | Some seg \<Rightarrow> bindE (ensureRange seg absolute width name) (\<lambda>_. get seg absolute))"

definition readU16InStruct :: "SegmentTable \<Rightarrow> StructRef \<Rightarrow> int \<Rightarrow> int result" where
  "readU16InStruct = readFieldInStruct getUint16 2 ''readU16InStruct''"

definition readU32InStruct :: "SegmentTable \<Rightarrow> StructRef \<Rightarrow> int \<Rightarrow> int result" where
  "readU32InStruct = readFieldInStruct getUint32 4 ''readU32InStruct''"

definition readU64InStruct :: "SegmentTable \<Rightarrow> StructRef \<Rightarrow> int \<Rightarrow> 64 word result" where
  "readU64InStruct = readFieldInStruct getBigUint64 8 ''readU64InStruct''"

section \<open>Integer checks\<close>

definition ensureU16 :: "number \<Rightarrow> string \<Rightarrow> int result" where
  "ensureU16 value name =
     (if \<not> isInteger value \<or> numLess value (jint 0) \<or> numLess (jint 0xffff) value
      then Inl (ProtocolError (name @ '' must be a u16, got {}'') [toInt value])
      else Inr (toInt value))"

definition ensureU32 :: "number \<Rightarrow> string \<Rightarrow> int result" where
  "ensureU32 value name =
     (if \<not> isInteger value \<or> numLess value (jint 0) \<or> numLess (jint 0xffffffff) value
      then Inl (ProtocolError (name @ '' must be a u32, got {}'') [toInt value])
      else Inr (toInt value))"

text \<open>A bigint argument is an unbounded integer.\<close>

definition ensureU64 :: "int \<Rightarrow> string \<Rightarrow> int result" where
  "ensureU64 value name =
     (if value < 0 \<or> value > 0xffffffffffffffff
      then Inl (ProtocolError (name @ '' must be a u64, got {}'') [value])
      else Inr value)"

definition signed30 :: "64 word \<Rightarrow> int" where
  "signed30 value =
     (let raw = uint (value AND MASK_30)
      in if bit raw 29 then raw - 2 ^ 30 else raw)"

definition encodeSigned30 :: "int \<Rightarrow> 64 word result" where
  "encodeSigned30 value =
     (if value < - (2 ^ 29) \<or> value > 2 ^ 29 - 1
      then Inl (ProtocolError ''pointer offset out of signed30 range: {}'' [value])
      else Inr (word_of_int (if value < 0 then value + 2 ^ 30 else value) AND MASK_30))"

section \<open>Lemmas: integer checks\<close>

lemma ensureU16_jint [simp]:
  "ensureU16 (jint i) name =
     (if 0 \<le> i \<and> i \<le> 0xffff then Inr i else Inl (ProtocolError (name @ '' must be a u16, got {}'') [i]))"
  by (auto simp: ensureU16_def)

lemma ensureU32_jint [simp]:
  "ensureU32 (jint i) name =
     (if 0 \<le> i \<and> i \<le> 0xffffffff then Inr i
      else Inl (ProtocolError (name @ '' must be a u32, got {}'') [i]))"
  by (auto simp: ensureU32_def)

lemma ensureU16_Inr: "ensureU16 v name = Inr i \<longleftrightarrow> v = jint i \<and> 0 \<le> i \<and> i \<le> 0xffff"
proof (cases "isInteger v")
  case True
  then obtain j where "v = jint j" by (auto simp: isInteger_iff)
  then show ?thesis by auto
next
  case False
  then show ?thesis by (auto simp: ensureU16_def)
qed

lemma ensureU32_Inr: "ensureU32 v name = Inr i \<longleftrightarrow> v = jint i \<and> 0 \<le> i \<and> i \<le> 0xffffffff"
proof (cases "isInteger v")
  case True
  then obtain j where "v = jint j" by (auto simp: isInteger_iff)
  then show ?thesis by auto
next
  case False
  then show ?thesis by (auto simp: ensureU32_def)
qed

lemma ensureU64_Inr: "ensureU64 v name = Inr i \<longleftrightarrow> v = i \<and> 0 \<le> i \<and> i < 2 ^ 64"
  by (auto simp: ensureU64_def)

section \<open>Lemmas: signed 30-bit offsets\<close>

lemma MASK_30_mask: "MASK_30 = mask 30"
  by (simp add: MASK_30_def mask_eq_exp_minus_1)

lemma MASK_29_mask: "MASK_29 = mask 29"
  by (simp add: MASK_29_def mask_eq_exp_minus_1)

lemma uint_and_MASK_30: "uint (w AND MASK_30) = uint w mod 2 ^ 30"
  by (simp only: MASK_30_mask take_bit_eq_mask [symmetric] unsigned_take_bit_eq) (simp add: take_bit_eq_mod)

lemma uint_and_MASK_29: "uint (w AND MASK_29) = uint w mod 2 ^ 29"
  by (simp only: MASK_29_mask take_bit_eq_mask [symmetric] unsigned_take_bit_eq) (simp add: take_bit_eq_mod)

lemma bit_29_iff:
  assumes "0 \<le> r" "r < 2 ^ 30"
  shows "bit (r::int) 29 \<longleftrightarrow> 2 ^ 29 \<le> r"
proof -
  have "r div 2 ^ 29 < 2" using assms by simp
  moreover have "0 \<le> r div 2 ^ 29" using assms by (simp add: pos_imp_zdiv_nonneg_iff)
  ultimately have "r div 2 ^ 29 = 0 \<or> r div 2 ^ 29 = 1" by linarith
  moreover have "r div 2 ^ 29 = 0 \<longleftrightarrow> r < 2 ^ 29"
    using assms by (simp add: div_eq_0_iff) linarith
  ultimately show ?thesis by (auto simp: bit_iff_odd)
qed

lemma signed30_eq:
  "signed30 w = (let r = uint w mod 2 ^ 30 in if 2 ^ 29 \<le> r then r - 2 ^ 30 else r)"
  by (simp add: signed30_def uint_and_MASK_30 bit_29_iff Let_def)

lemma signed30_range: "- (2 ^ 29) \<le> signed30 w \<and> signed30 w < 2 ^ 29"
proof -
  have "0 \<le> uint w mod 2 ^ 30" "uint w mod 2 ^ 30 < 2 ^ 30" by simp_all
  then show ?thesis by (simp add: signed30_eq Let_def) linarith
qed

lemma encodeSigned30_Inr:
  "encodeSigned30 v = Inr w \<longleftrightarrow>
     - (2 ^ 29) \<le> v \<and> v < 2 ^ 29 \<and> w = word_of_int (v mod 2 ^ 30)"
proof -
  have "uint (word_of_int (if v < 0 then v + 2 ^ 30 else v) AND MASK_30 :: 64 word) =
      (if v < 0 then v + 2 ^ 30 else v) mod 2 ^ 64 mod 2 ^ 30"
    by (simp only: uint_and_MASK_30 uint_word_of_int) simp
  also have "\<dots> = (if v < 0 then v + 2 ^ 30 else v) mod 2 ^ 30"
    by (rule mod_mod_cancel) simp
  also have "\<dots> = v mod 2 ^ 30" by simp
  also have "\<dots> = v mod 2 ^ 30 mod 2 ^ 64"
  proof -
    have "0 \<le> v mod 2 ^ 30" "v mod 2 ^ 30 < 2 ^ 30" by simp_all
    then show ?thesis by (simp add: mod_pos_pos_trivial)
  qed
  also have "\<dots> = uint (word_of_int (v mod 2 ^ 30) :: 64 word)"
    by (simp only: uint_word_of_int) simp
  finally have "(word_of_int (if v < 0 then v + 2 ^ 30 else v) AND MASK_30 :: 64 word) =
      word_of_int (v mod 2 ^ 30)"
    by (simp only: word_uint_eq_iff)
  then show ?thesis
    by (auto simp: encodeSigned30_def)
qed

lemma signed30_encode:
  assumes "- (2 ^ 29) \<le> v" "v < 2 ^ 29"
  shows "signed30 (word_of_int (v mod 2 ^ 30)) = v"
proof -
  have "uint (word_of_int (v mod 2 ^ 30) :: 64 word) mod 2 ^ 30 = v mod 2 ^ 30"
    by (simp add: uint_word_of_int mod_mod_cancel)
  moreover have "v mod 2 ^ 30 = (if v < 0 then v + 2 ^ 30 else v)"
  proof (cases "v < 0")
    case True
    have "v mod 2 ^ 30 = (v + 2 ^ 30) mod 2 ^ 30" by simp
    also have "\<dots> = v + 2 ^ 30" using assms True by (intro mod_pos_pos_trivial) auto
    finally show ?thesis using True by simp
  next
    case False
    then show ?thesis using assms by (simp add: mod_pos_pos_trivial)
  qed
  ultimately show ?thesis using assms by (simp add: signed30_eq Let_def)
qed

end
