(* ===== verification/Pointer_Words.thy ===== *)
theory Pointer_Words
  imports Wire_Segments
begin

unbundle bit_operations_syntax

text \<open>
  The fields of a pointer word, as \<open>pointers.ts\<close>, \<open>frame_limits.ts\<close>, \<open>runtime_message.ts\<close> and
  \<open>runtime_codec.ts\<close> all compute them by shifts and masks, and the words the encoders build.
  A word built from fields gives the fields back, and replacing the offset leaves the rest alone.
\<close>

section \<open>Fields\<close>

definition pointerKind :: "64 word \<Rightarrow> int" where
  "pointerKind w = uint (w AND 0x3)"

definition farIsDouble :: "64 word \<Rightarrow> bool" where
  "farIsDouble w \<longleftrightarrow> drop_bit 2 w AND 0x1 = 1"

definition farPadWord :: "64 word \<Rightarrow> int" where
  "farPadWord w = uint (drop_bit 3 w AND MASK_29)"

definition farSegmentId :: "64 word \<Rightarrow> int" where
  "farSegmentId w = uint (drop_bit 32 w AND 0xffffffff)"

definition pointerOffset :: "64 word \<Rightarrow> int" where
  "pointerOffset w = signed30 (drop_bit 2 w AND MASK_30)"

definition structDataWords :: "64 word \<Rightarrow> int" where
  "structDataWords w = uint (drop_bit 32 w AND 0xffff)"

definition structPointerCount :: "64 word \<Rightarrow> int" where
  "structPointerCount w = uint (drop_bit 48 w AND 0xffff)"

definition listElementSize :: "64 word \<Rightarrow> int" where
  "listElementSize w = uint (drop_bit 32 w AND 0x7)"

definition listElementCount :: "64 word \<Rightarrow> int" where
  "listElementCount w = uint (drop_bit 35 w AND 0x1fffffff)"

definition tagElementCount :: "64 word \<Rightarrow> int" where
  "tagElementCount w = uint (drop_bit 2 w AND MASK_30)"

text \<open>\<open>(word & ~POINTER_OFFSET_MASK) | (enc << 2n)\<close>\<close>

definition withOffset :: "64 word \<Rightarrow> 64 word \<Rightarrow> 64 word" where
  "withOffset w enc = (w AND NOT POINTER_OFFSET_MASK) OR push_bit 2 enc"

section \<open>Arithmetic form\<close>

lemma word_masks:
  "(0x1::64 word) = mask 1" "(0x3::64 word) = mask 2" "(0x7::64 word) = mask 3"
  "(0xffff::64 word) = mask 16" "(0xffffffff::64 word) = mask 32"
  "(0x1fffffff::64 word) = mask 29" "(0x3fffffff::64 word) = mask 30"
  by (simp_all add: mask_eq_exp_minus_1)

lemma and_mask_take: "w AND mask n = take_bit n (w::64 word)"
  by (simp add: take_bit_eq_mask)

lemma uint_drop_take: "uint (take_bit m (drop_bit k w :: 64 word)) = uint w div 2 ^ k mod 2 ^ m"
proof -
  have "uint w mod 18446744073709551616 = uint w"
    using unsigned_less [of w, where 'a=int] by (intro mod_pos_pos_trivial) auto
  then show ?thesis
    by (simp only: unsigned_take_bit_eq unsigned_drop_bit_eq) (simp add: take_bit_eq_mod drop_bit_eq_div)
qed

lemma pointerKind_take: "pointerKind w = uint (take_bit 2 w)"
  unfolding pointerKind_def word_masks(2) and_mask_take ..

lemma farPadWord_take: "farPadWord w = uint (take_bit 29 (drop_bit 3 w))"
  unfolding farPadWord_def MASK_29_mask and_mask_take ..

lemma farSegmentId_take: "farSegmentId w = uint (take_bit 32 (drop_bit 32 w))"
  unfolding farSegmentId_def word_masks(5) and_mask_take ..

lemma pointerOffset_take: "pointerOffset w = signed30 (take_bit 30 (drop_bit 2 w))"
  unfolding pointerOffset_def MASK_30_mask and_mask_take ..

lemma structDataWords_take: "structDataWords w = uint (take_bit 16 (drop_bit 32 w))"
  unfolding structDataWords_def word_masks(4) and_mask_take ..

lemma structPointerCount_take: "structPointerCount w = uint (take_bit 16 (drop_bit 48 w))"
  unfolding structPointerCount_def word_masks(4) and_mask_take ..

lemma listElementSize_take: "listElementSize w = uint (take_bit 3 (drop_bit 32 w))"
  unfolding listElementSize_def word_masks(3) and_mask_take ..

lemma listElementCount_take: "listElementCount w = uint (take_bit 29 (drop_bit 35 w))"
  unfolding listElementCount_def word_masks(6) and_mask_take ..

lemma tagElementCount_take: "tagElementCount w = uint (take_bit 30 (drop_bit 2 w))"
  unfolding tagElementCount_def MASK_30_mask and_mask_take ..

lemmas field_takes = pointerKind_take farPadWord_take farSegmentId_take pointerOffset_take
  structDataWords_take structPointerCount_take listElementSize_take listElementCount_take
  tagElementCount_take

lemma uint_take_bit_bound: "uint (take_bit n (w::64 word)) < 2 ^ n"
  by (simp add: unsigned_take_bit_eq)

lemma uint_field_nonneg [simp]:
  "0 \<le> pointerKind w" "0 \<le> farPadWord w" "0 \<le> farSegmentId w" "0 \<le> structDataWords w"
  "0 \<le> structPointerCount w" "0 \<le> listElementSize w" "0 \<le> listElementCount w" "0 \<le> tagElementCount w"
  by (simp_all add: field_takes)

lemma pointerKind_bound: "pointerKind w < 4"
  using uint_take_bit_bound [of 2 w] by (simp add: pointerKind_take)

lemma farPadWord_bound: "farPadWord w < 2 ^ 29"
  using uint_take_bit_bound [of 29 "drop_bit 3 w"] by (simp add: farPadWord_take)

lemma structDataWords_bound: "structDataWords w < 2 ^ 16"
  using uint_take_bit_bound [of 16 "drop_bit 32 w"] by (simp add: structDataWords_take)

lemma structPointerCount_bound: "structPointerCount w < 2 ^ 16"
  using uint_take_bit_bound [of 16 "drop_bit 48 w"] by (simp add: structPointerCount_take)

lemma listElementSize_bound: "listElementSize w < 8"
  using uint_take_bit_bound [of 3 "drop_bit 32 w"] by (simp add: listElementSize_take)

lemma listElementCount_bound: "listElementCount w < 2 ^ 29"
  using uint_take_bit_bound [of 29 "drop_bit 35 w"] by (simp add: listElementCount_take)

lemma tagElementCount_bound: "tagElementCount w < 2 ^ 30"
  using uint_take_bit_bound [of 30 "drop_bit 2 w"] by (simp add: tagElementCount_take)

lemma pointerOffset_range: "- (2 ^ 29) \<le> pointerOffset w" "pointerOffset w < 2 ^ 29"
  using signed30_range unfolding pointerOffset_def by blast+

lemma pointerKind_cases:
  "pointerKind w = 0 \<or> pointerKind w = 1 \<or> pointerKind w = 2 \<or> pointerKind w = 3"
proof -
  have "0 \<le> pointerKind w" "pointerKind w < 4" by (simp_all add: pointerKind_bound)
  then show ?thesis by presburger
qed

lemma pointerKind_zero [simp]: "pointerKind 0 = 0"
  by (simp add: pointerKind_def)

section \<open>Words built from fields\<close>

definition structPointerWord :: "64 word \<Rightarrow> 64 word \<Rightarrow> 64 word \<Rightarrow> 64 word" where
  "structPointerWord off d p = push_bit 2 off OR push_bit 32 d OR push_bit 48 p"

definition listPointerWord :: "64 word \<Rightarrow> 64 word \<Rightarrow> 64 word \<Rightarrow> 64 word" where
  "listPointerWord off sz n = 0x1 OR push_bit 2 off OR push_bit 32 sz OR push_bit 35 n"

lemma bit_above:
  assumes "take_bit n w = (w :: 64 word)" "n \<le> k"
  shows "\<not> bit w k"
proof -
  have "bit w k \<longleftrightarrow> bit (take_bit n w) k" using assms by simp
  then show ?thesis using assms(2) by (simp add: bit_simps)
qed

lemma bit_below:
  assumes "take_bit n w = (w :: 64 word)"
  shows "bit w k \<Longrightarrow> k < n"
  using bit_above [OF assms, of k] by (cases "n \<le> k") auto

lemma structPointerWord_fields:
  assumes "take_bit 30 off = off" "take_bit 16 d = d" "take_bit 16 p = p"
  shows "pointerKind (structPointerWord off d p) = 0"
    "take_bit 30 (drop_bit 2 (structPointerWord off d p)) = off"
    "structDataWords (structPointerWord off d p) = uint d"
    "structPointerCount (structPointerWord off d p) = uint p"
proof -
  note below = bit_below [OF assms(1)] bit_below [OF assms(2)] bit_below [OF assms(3)]
  have "take_bit 2 (structPointerWord off d p) = 0"
    by (rule bit_word_eqI) (auto simp: structPointerWord_def bit_simps)
  then show "pointerKind (structPointerWord off d p) = 0" by (simp add: pointerKind_take)
  show "take_bit 30 (drop_bit 2 (structPointerWord off d p)) = off"
    by (rule bit_word_eqI) (auto simp: structPointerWord_def bit_simps dest: below)
  have "take_bit 16 (drop_bit 32 (structPointerWord off d p)) = d"
    by (rule bit_word_eqI) (auto simp: structPointerWord_def bit_simps dest: below)
  then show "structDataWords (structPointerWord off d p) = uint d" by (simp add: structDataWords_take)
  have "take_bit 16 (drop_bit 48 (structPointerWord off d p)) = p"
    by (rule bit_word_eqI) (auto simp: structPointerWord_def bit_simps dest: below)
  then show "structPointerCount (structPointerWord off d p) = uint p" by (simp add: structPointerCount_take)
qed

lemma listPointerWord_fields:
  assumes "take_bit 30 off = off" "take_bit 3 sz = sz" "take_bit 29 n = n"
  shows "pointerKind (listPointerWord off sz n) = 1"
    "take_bit 30 (drop_bit 2 (listPointerWord off sz n)) = off"
    "listElementSize (listPointerWord off sz n) = uint sz"
    "listElementCount (listPointerWord off sz n) = uint n"
proof -
  note below = bit_below [OF assms(1)] bit_below [OF assms(2)] bit_below [OF assms(3)]
  have one: "bit (1 :: 64 word) k \<longleftrightarrow> k = 0" for k by (cases k) (auto simp: bit_simps)
  have "take_bit 2 (listPointerWord off sz n) = 1"
    by (rule bit_word_eqI) (auto simp: listPointerWord_def bit_simps one)
  then show "pointerKind (listPointerWord off sz n) = 1" by (simp add: pointerKind_take)
  show "take_bit 30 (drop_bit 2 (listPointerWord off sz n)) = off"
    by (rule bit_word_eqI) (auto simp: listPointerWord_def bit_simps one dest: below)
  have "take_bit 3 (drop_bit 32 (listPointerWord off sz n)) = sz"
    by (rule bit_word_eqI) (auto simp: listPointerWord_def bit_simps one dest: below)
  then show "listElementSize (listPointerWord off sz n) = uint sz" by (simp add: listElementSize_take)
  have "take_bit 29 (drop_bit 35 (listPointerWord off sz n)) = n"
    by (rule bit_word_eqI) (auto simp: listPointerWord_def bit_simps one dest: below)
  then show "listElementCount (listPointerWord off sz n) = uint n" by (simp add: listElementCount_take)
qed

lemma withOffset_fields:
  assumes "take_bit 30 e = e"
  shows "pointerKind (withOffset w e) = pointerKind w"
    "take_bit 30 (drop_bit 2 (withOffset w e)) = e"
    "structDataWords (withOffset w e) = structDataWords w"
    "structPointerCount (withOffset w e) = structPointerCount w"
    "listElementSize (withOffset w e) = listElementSize w"
    "listElementCount (withOffset w e) = listElementCount w"
proof -
  note below = bit_below [OF assms]
  have m: "bit POINTER_OFFSET_MASK k \<longleftrightarrow> 2 \<le> k \<and> k < 32" for k
    by (auto simp: POINTER_OFFSET_MASK_def MASK_30_mask bit_simps)
  note ws = withOffset_def bit_simps m
  have "take_bit 2 (withOffset w e) = take_bit 2 w"
    by (rule bit_word_eqI) (auto simp: ws dest: below bit_imp_le_length)
  then show "pointerKind (withOffset w e) = pointerKind w" by (simp add: pointerKind_take)
  show "take_bit 30 (drop_bit 2 (withOffset w e)) = e"
    by (rule bit_word_eqI) (auto simp: ws dest: below bit_imp_le_length)
  have high: "drop_bit 32 (withOffset w e) = drop_bit 32 w"
    by (rule bit_word_eqI) (auto simp: ws dest: below bit_imp_le_length)
  then have "drop_bit 16 (drop_bit 32 (withOffset w e)) = drop_bit 16 (drop_bit 32 w)"
    and "drop_bit 3 (drop_bit 32 (withOffset w e)) = drop_bit 3 (drop_bit 32 w)"
    by (simp_all only:)
  then have "drop_bit 48 (withOffset w e) = drop_bit 48 w" "drop_bit 35 (withOffset w e) = drop_bit 35 w"
    by (simp_all only: drop_bit_drop_bit) simp_all
  with high show "structDataWords (withOffset w e) = structDataWords w"
    "structPointerCount (withOffset w e) = structPointerCount w"
    "listElementSize (withOffset w e) = listElementSize w"
    "listElementCount (withOffset w e) = listElementCount w"
    by (simp_all add: structDataWords_take structPointerCount_take listElementSize_take listElementCount_take)
qed

text \<open>An encoded offset fits its field and reads back.\<close>

lemma encodeSigned30_fits:
  assumes "encodeSigned30 v = Inr e"
  shows "take_bit 30 e = e" and "signed30 e = v"
proof -
  have r: "- (2 ^ 29) \<le> v" "v < 2 ^ 29" and e: "e = word_of_int (v mod 2 ^ 30)"
    using assms by (simp_all add: encodeSigned30_Inr)
  show "signed30 e = v" unfolding e using r by (rule signed30_encode)
  have "uint (take_bit 30 e) = uint e"
    unfolding e by (simp only: unsigned_take_bit_eq) (simp add: take_bit_eq_mod uint_word_of_int mod_mod_cancel)
  then show "take_bit 30 e = e" by (simp only: word_uint_eq_iff)
qed

lemma pointerOffset_structPointerWord:
  assumes "encodeSigned30 v = Inr e" "take_bit 16 d = d" "take_bit 16 p = p"
  shows "pointerOffset (structPointerWord e d p) = v"
  using structPointerWord_fields(2) [OF encodeSigned30_fits(1) [OF assms(1)] assms(2,3)] encodeSigned30_fits(2) [OF assms(1)]
  by (simp add: pointerOffset_take)

lemma pointerOffset_listPointerWord:
  assumes "encodeSigned30 v = Inr e" "take_bit 3 sz = sz" "take_bit 29 n = n"
  shows "pointerOffset (listPointerWord e sz n) = v"
  using listPointerWord_fields(2) [OF encodeSigned30_fits(1) [OF assms(1)] assms(2,3)] encodeSigned30_fits(2) [OF assms(1)]
  by (simp add: pointerOffset_take)

lemma pointerOffset_withOffset:
  assumes "encodeSigned30 v = Inr e"
  shows "pointerOffset (withOffset w e) = v"
  using withOffset_fields(2) [OF encodeSigned30_fits(1) [OF assms]] encodeSigned30_fits(2) [OF assms]
  by (simp add: pointerOffset_take)

lemma take_bit_word_of_int:
  assumes "0 \<le> v" "v < 2 ^ n"
  shows "take_bit n (word_of_int v :: 64 word) = word_of_int v"
proof -
  have "v mod 2 ^ 64 mod 2 ^ n = v mod 2 ^ 64"
  proof -
    have "0 \<le> v mod 2 ^ 64" by simp
    moreover have "v mod 2 ^ 64 \<le> v" using assms(1) by (rule zmod_le_nonneg_dividend)
    ultimately show ?thesis using assms(2) by (intro mod_pos_pos_trivial) linarith+
  qed
  then have "uint (take_bit n (word_of_int v :: 64 word)) = uint (word_of_int v :: 64 word)"
    by (simp only: unsigned_take_bit_eq uint_word_of_int) (simp add: take_bit_eq_mod)
  then show ?thesis by (simp only: word_uint_eq_iff)
qed

section \<open>Pointers from numbers\<close>

definition structPtr :: "int \<Rightarrow> int \<Rightarrow> int \<Rightarrow> 64 word" where
  "structPtr off d p = structPointerWord (word_of_int (off mod 2 ^ 30)) (word_of_int d) (word_of_int p)"

definition listPtr :: "int \<Rightarrow> int \<Rightarrow> int \<Rightarrow> 64 word" where
  "listPtr off sz n = listPointerWord (word_of_int (off mod 2 ^ 30)) (word_of_int sz) (word_of_int n)"

definition inOffsetRange :: "int \<Rightarrow> bool" where
  "inOffsetRange v \<longleftrightarrow> - (2 ^ 29) \<le> v \<and> v < 2 ^ 29"

lemma encodeSigned30_in_range [simp]:
  "inOffsetRange v \<Longrightarrow> encodeSigned30 v = Inr (word_of_int (v mod 2 ^ 30))"
  by (simp add: encodeSigned30_Inr inOffsetRange_def)

lemma uint_word_of_int_small:
  "0 \<le> v \<Longrightarrow> v < 2 ^ n \<Longrightarrow> n \<le> 64 \<Longrightarrow> uint (word_of_int v :: 64 word) = v"
proof -
  assume a: "0 \<le> v" "v < 2 ^ n" "n \<le> 64"
  then have "(2::int) ^ n \<le> 2 ^ 64" by (intro power_increasing) simp_all
  then show ?thesis using a by (simp add: uint_word_of_int mod_pos_pos_trivial)
qed

lemma structPtr_fields:
  assumes "inOffsetRange off" "0 \<le> d" "d < 2 ^ 16" "0 \<le> p" "p < 2 ^ 16"
  shows "pointerKind (structPtr off d p) = 0" "pointerOffset (structPtr off d p) = off"
    "structDataWords (structPtr off d p) = d" "structPointerCount (structPtr off d p) = p"
proof -
  have e: "encodeSigned30 off = Inr (word_of_int (off mod 2 ^ 30))" using assms(1) by simp
  note t = encodeSigned30_fits(1) [OF e] take_bit_word_of_int [OF assms(2,3)] take_bit_word_of_int [OF assms(4,5)]
  show "pointerKind (structPtr off d p) = 0" "pointerOffset (structPtr off d p) = off"
    "structDataWords (structPtr off d p) = d" "structPointerCount (structPtr off d p) = p"
    using structPointerWord_fields [OF t] pointerOffset_structPointerWord [OF e t(2,3)]
      uint_word_of_int_small [OF assms(2,3)] uint_word_of_int_small [OF assms(4,5)]
    by (simp_all add: structPtr_def)
qed

text \<open>The tag of a composite list has the element count in the place of the offset.\<close>

lemma tagPtr_fields:
  assumes "0 \<le> n" "n < 2 ^ 29" "0 \<le> d" "d < 2 ^ 16" "0 \<le> p" "p < 2 ^ 16"
  shows "pointerKind (structPtr n d p) = 0" "tagElementCount (structPtr n d p) = n"
    "structDataWords (structPtr n d p) = d" "structPointerCount (structPtr n d p) = p"
proof -
  have r: "inOffsetRange n" using assms by (simp add: inOffsetRange_def)
  note f = structPtr_fields [OF r assms(3-6)]
  show "pointerKind (structPtr n d p) = 0" "structDataWords (structPtr n d p) = d" "structPointerCount (structPtr n d p) = p"
    using f by simp_all
  have e: "encodeSigned30 n = Inr (word_of_int (n mod 2 ^ 30))" using r by simp
  have n: "n mod 2 ^ 30 = n" using assms by (simp add: mod_pos_pos_trivial)
  note t = encodeSigned30_fits(1) [OF e] take_bit_word_of_int [OF assms(3,4)] take_bit_word_of_int [OF assms(5,6)]
  have "take_bit 30 (drop_bit 2 (structPtr n d p)) = word_of_int (n mod 2 ^ 30)"
    using structPointerWord_fields(2) [OF t] by (simp add: structPtr_def)
  then show "tagElementCount (structPtr n d p) = n"
    using assms uint_word_of_int_small [of n 30] by (simp add: tagElementCount_take n)
qed

lemma listPtr_fields:
  assumes "inOffsetRange off" "0 \<le> sz" "sz < 2 ^ 3" "0 \<le> n" "n < 2 ^ 29"
  shows "pointerKind (listPtr off sz n) = 1" "pointerOffset (listPtr off sz n) = off"
    "listElementSize (listPtr off sz n) = sz" "listElementCount (listPtr off sz n) = n"
proof -
  have e: "encodeSigned30 off = Inr (word_of_int (off mod 2 ^ 30))" using assms(1) by simp
  note t = encodeSigned30_fits(1) [OF e] take_bit_word_of_int [OF assms(2,3)] take_bit_word_of_int [OF assms(4,5)]
  show "pointerKind (listPtr off sz n) = 1" "pointerOffset (listPtr off sz n) = off"
    "listElementSize (listPtr off sz n) = sz" "listElementCount (listPtr off sz n) = n"
    using listPointerWord_fields [OF t] pointerOffset_listPointerWord [OF e t(2,3)]
      uint_word_of_int_small [OF assms(2,3)] uint_word_of_int_small [OF assms(4,5)]
    by (simp_all add: listPtr_def)
qed

lemma listPtr_nonzero: "listPtr off sz n \<noteq> 0"
proof
  assume "listPtr off sz n = 0"
  then have "bit (listPtr off sz n) 0 = False" by simp
  then show False by (simp add: listPtr_def listPointerWord_def bit_simps)
qed

text \<open>The masks of the pointer writers, on numbers that fit.\<close>

lemma and_mask_small:
  "0 \<le> v \<Longrightarrow> v < 2 ^ 16 \<Longrightarrow> v AND 0xffff = (v :: int)"
  "0 \<le> v \<Longrightarrow> v < 2 ^ 3 \<Longrightarrow> v AND 0x7 = (v :: int)"
  "0 \<le> v \<Longrightarrow> v < 2 ^ 29 \<Longrightarrow> v AND 0x1fffffff = (v :: int)"
  "0 \<le> v \<Longrightarrow> v < 2 ^ 30 \<Longrightarrow> v AND 0x3fffffff = (v :: int)"
  using take_bit_eq_mask [of 16 v] take_bit_eq_mask [of 3 v] take_bit_eq_mask [of 29 v] take_bit_eq_mask [of 30 v]
  by (simp_all add: mask_eq_exp_minus_1 take_bit_int_eq_self)

end
