(* ===== verification/Pointer_Spec.thy ===== *)
theory Pointer_Spec
  imports Pointer_Words
begin

text \<open>
  What a pointer means, independently of the code that follows it: the word at a location of a
  list of segments, and the relation \<open>resolves\<close> of the encoding specification (a far pointer
  leads to a landing pad; a double-far one to a tag word and a target). The locale
  \<open>word_source\<close> is the interface of the three readers of the sources: reading a word
  succeeds exactly when the location lies in its segment, whatever the context label.
\<close>

definition wordAt :: "bytes list \<Rightarrow> int \<Rightarrow> int \<Rightarrow> 64 word option" where
  "wordAt segs s i =
     (case segmentAt segs s of
        None \<Rightarrow> None
      | Some seg \<Rightarrow>
          if 0 \<le> i \<and> i * 8 + 8 \<le> int (length seg)
          then Some (word_of_nat (le_nat (take 8 (drop (nat (i * 8)) seg)))) else None)"

lemma wordAt_code [code]:
  "wordAt segs s i =
     (case segmentAt segs s of
        None \<Rightarrow> None
      | Some seg \<Rightarrow>
          if 0 \<le> i \<and> i * 8 + 8 \<le> int (length seg)
          then Some (word_of_int (le_int (take 8 (drop (nat (i * 8)) seg)))) else None)"
  by (simp add: wordAt_def split: option.split flip: le_int)

text \<open>
  \<open>resolves segs n s i s' p w\<close>: after \<open>n\<close> single-far hops the pointer at word \<open>i\<close> of segment
  \<open>s\<close> has the value \<open>w\<close>, and its offset counts from the word after \<open>p\<close> of segment \<open>s'\<close>.
\<close>

inductive resolves :: "bytes list \<Rightarrow> nat \<Rightarrow> int \<Rightarrow> int \<Rightarrow> int \<Rightarrow> int \<Rightarrow> 64 word \<Rightarrow> bool" for segs where
  direct: "wordAt segs s i = Some w \<Longrightarrow> pointerKind w \<noteq> 2 \<Longrightarrow> resolves segs 0 s i s i w"
| single: "wordAt segs s i = Some v \<Longrightarrow> pointerKind v = 2 \<Longrightarrow> \<not> farIsDouble v \<Longrightarrow>
    resolves segs n (farSegmentId v) (farPadWord v) s' p w \<Longrightarrow> resolves segs (Suc n) s i s' p w"
| double: "wordAt segs s i = Some v \<Longrightarrow> pointerKind v = 2 \<Longrightarrow> farIsDouble v \<Longrightarrow>
    wordAt segs (farSegmentId v) (farPadWord v) = Some pad \<Longrightarrow> pointerKind pad = 2 \<Longrightarrow>
    \<not> farIsDouble pad \<Longrightarrow> wordAt segs (farSegmentId pad) (farPadWord pad) \<noteq> None \<Longrightarrow>
    wordAt segs (farSegmentId v) (farPadWord v + 1) = Some w \<Longrightarrow>
    resolves segs 0 s i (farSegmentId pad) (farPadWord pad - 1) w"

inductive_cases resolvesE: "resolves segs n s i s' p w"
inductive_simps resolves_iff: "resolves segs n s i s' p w"

lemma resolves_det:
  "resolves segs n s i s' p w \<Longrightarrow> resolves segs m s i t q v \<Longrightarrow> n = m \<and> s' = t \<and> p = q \<and> w = v"
proof (induction arbitrary: m rule: resolves.induct)
  case (single s i v' n s' p w)
  from single.prems single.hyps show ?case
    by (cases rule: resolvesE) (use single.IH in auto)
qed (auto elim: resolvesE)

text \<open>The resolutions that use single-far pointers only.\<close>

inductive follows :: "bytes list \<Rightarrow> nat \<Rightarrow> int \<Rightarrow> int \<Rightarrow> int \<Rightarrow> int \<Rightarrow> 64 word \<Rightarrow> bool" for segs where
  here: "wordAt segs s i = Some w \<Longrightarrow> pointerKind w \<noteq> 2 \<Longrightarrow> follows segs 0 s i s i w"
| hop: "wordAt segs s i = Some v \<Longrightarrow> pointerKind v = 2 \<Longrightarrow> \<not> farIsDouble v \<Longrightarrow>
    follows segs n (farSegmentId v) (farPadWord v) s' p w \<Longrightarrow> follows segs (Suc n) s i s' p w"

inductive_cases followsE: "follows segs n s i s' p w"

lemma follows_resolves: "follows segs n s i s' p w \<Longrightarrow> resolves segs n s i s' p w"
  by (induction rule: follows.induct) (auto intro: resolves.intros)

text \<open>
  What a resolved pointer refers to: the words of its target, which must lie in the segment, and
  the pointer slots inside it.
\<close>

definition wordsFit :: "bytes list \<Rightarrow> int \<Rightarrow> int \<Rightarrow> int \<Rightarrow> bool" where
  "wordsFit segs s start n \<longleftrightarrow>
     (\<exists>seg. segmentAt segs s = Some seg \<and> 0 \<le> start \<and> 0 \<le> n \<and> (start + n) * 8 \<le> int (length seg))"

definition flatListWords :: "int \<Rightarrow> int \<Rightarrow> int" where
  "flatListWords sz n =
     (if sz = 1 then ceilDiv n 64 else if sz = 2 then ceilDiv n 8 else if sz = 3 then ceilDiv n 4
      else if sz = 4 then ceilDiv n 2 else if sz = 5 \<or> sz = 6 then n else 0)"

definition targetFits :: "bytes list \<Rightarrow> int \<Rightarrow> int \<Rightarrow> 64 word \<Rightarrow> bool" where
  "targetFits segs s p w =
     (let start = p + 1 + pointerOffset w; sz = listElementSize w; n = listElementCount w
      in if pointerKind w = 3 then True
         else if pointerKind w = 0 then wordsFit segs s start (structDataWords w + structPointerCount w)
         else if pointerKind w \<noteq> 1 then False
         else if sz \<noteq> 7 then wordsFit segs s start (flatListWords sz n)
         else (case wordAt segs s start of
                 None \<Rightarrow> False
               | Some tag \<Rightarrow> pointerKind tag = 0 \<and> wordsFit segs s (start + 1) n \<and>
                   (structDataWords tag + structPointerCount tag) * tagElementCount tag \<le> n))"

definition targetSlots :: "bytes list \<Rightarrow> int \<Rightarrow> int \<Rightarrow> 64 word \<Rightarrow> int set" where
  "targetSlots segs s p w =
     (let start = p + 1 + pointerOffset w
      in if w = 0 then {}
         else if pointerKind w = 0
         then {start + structDataWords w ..< start + structDataWords w + structPointerCount w}
         else if pointerKind w = 1 \<and> listElementSize w = 6 then {start ..< start + listElementCount w}
         else if pointerKind w = 1 \<and> listElementSize w = 7 then
           (case wordAt segs s start of
              None \<Rightarrow> {}
            | Some tag \<Rightarrow>
                {start + 1 + k * (structDataWords tag + structPointerCount tag) + structDataWords tag + j | k j.
                   0 \<le> k \<and> k < tagElementCount tag \<and> 0 \<le> j \<and> j < structPointerCount tag})
         else {})"

lemma wordAt_bounds:
  "wordAt segs s i = Some w \<Longrightarrow> \<exists>seg. segmentAt segs s = Some seg \<and> 0 \<le> i \<and> i * 8 + 8 \<le> int (length seg)"
  by (auto simp: wordAt_def split: option.splits if_splits)

lemma wordAt_eq_Some_iff:
  "(\<exists>w. wordAt segs s i = Some w) \<longleftrightarrow>
     (\<exists>seg. segmentAt segs s = Some seg \<and> 0 \<le> i \<and> i * 8 + 8 \<le> int (length seg))"
  by (auto simp: wordAt_def split: option.splits)

lemma wordAt_getBigUint64:
  "segmentAt segs s = Some seg \<Longrightarrow> wordAt segs s i = Some w \<longleftrightarrow> getBigUint64 seg (i * 8) = Inr w"
  by (auto simp: wordAt_def getBigUint64_def bindE_eq_Inr getLE_eq_Inr)

lemma segmentAt_Some: "segmentAt segs s = Some seg \<longleftrightarrow> 0 \<le> s \<and> s < int (length segs) \<and> seg = segs ! nat s"
  by (auto simp: segmentAt_def)

lemma segmentAt_0 [simp]: "segmentAt (seg # segs) 0 = Some seg"
  by (simp add: segmentAt_def)

section \<open>The interface of a word reader\<close>

locale word_source =
  fixes segs :: "'t \<Rightarrow> bytes list"
    and rd :: "'t \<Rightarrow> int \<Rightarrow> int \<Rightarrow> string \<Rightarrow> 64 word result"
  assumes rd_Inr: "rd t s i ctx = Inr w \<longleftrightarrow> wordAt (segs t) s i = Some w"
begin

lemma rd_context: "rd t s i ctx = Inr w \<Longrightarrow> rd t s i ctx' = Inr w"
  by (simp add: rd_Inr)

lemma rd_in_segment:
  "rd t s i ctx = Inr w \<Longrightarrow> \<exists>seg. segmentAt (segs t) s = Some seg \<and> 0 \<le> i \<and> i * 8 + 8 \<le> int (length seg)"
  using wordAt_bounds by (simp add: rd_Inr)

lemma rd_Inl: "(\<exists>e. rd t s i ctx = Inl e) \<longleftrightarrow> wordAt (segs t) s i = None"
proof (cases "wordAt (segs t) s i")
  case None
  then show ?thesis using rd_Inr [of t s i ctx] by (cases "rd t s i ctx") auto
next
  case (Some w)
  then have "rd t s i ctx = Inr w" by (simp add: rd_Inr)
  then show ?thesis using Some by simp
qed

lemma rd_total_in_range:
  assumes "segmentAt (segs t) s = Some seg" "0 \<le> i" "i * 8 + 8 \<le> int (length seg)"
  shows "\<exists>w. rd t s i ctx = Inr w"
  using assms wordAt_eq_Some_iff [of "segs t" s i] by (simp add: rd_Inr)

end

end
