(* ===== verification/Js_Text.thy ===== *)
theory Js_Text
  imports Js_Bytes
begin

text \<open>
  JavaScript strings as lists of UTF-16 code units, and the two platform routines the sources
  call on them: \<open>TextEncoder.encode\<close> (unpaired surrogates become U+FFFD) and
  \<open>TextDecoder.decode\<close> (the UTF-8 decoder of the Encoding standard with the default options:
  malformed input becomes U+FFFD, a leading byte order mark is dropped). Decoding gives back
  an encoded well-formed string that does not start with a byte order mark.
\<close>

type_synonym js_string = "nat list"

text \<open>A literal as the code units of a string.\<close>

definition lit :: "string \<Rightarrow> js_string" where
  "lit s = map of_char s"

definition isHigh :: "nat \<Rightarrow> bool" where "isHigh u \<longleftrightarrow> 0xD800 \<le> u \<and> u \<le> 0xDBFF"
definition isLow :: "nat \<Rightarrow> bool" where "isLow u \<longleftrightarrow> 0xDC00 \<le> u \<and> u \<le> 0xDFFF"

section \<open>Code units and scalar values\<close>

text \<open>The scalar values of a string, as the conversion of a \<open>USVString\<close> gives them.\<close>

fun scalars :: "js_string \<Rightarrow> nat list" where
  "scalars [] = []"
| "scalars [u] = [if isHigh u \<or> isLow u then 0xFFFD else u]"
| "scalars (u # v # us) =
     (if isHigh u \<and> isLow v then (0x10000 + (u - 0xD800) * 0x400 + (v - 0xDC00)) # scalars us
      else (if isHigh u \<or> isLow u then 0xFFFD else u) # scalars (v # us))"

definition units :: "nat \<Rightarrow> js_string" where
  "units c = (if c < 0x10000 then [c] else [0xD800 + (c - 0x10000) div 0x400, 0xDC00 + (c - 0x10000) mod 0x400])"

definition scalar :: "nat \<Rightarrow> bool" where
  "scalar c \<longleftrightarrow> c < 0xD800 \<or> (0xE000 \<le> c \<and> c < 0x110000)"

section \<open>UTF-8\<close>

definition utf8_char :: "nat \<Rightarrow> nat list" where
  "utf8_char c =
     (if c < 0x80 then [c]
      else if c < 0x800 then [0xC0 + c div 64, 0x80 + c mod 64]
      else if c < 0x10000 then [0xE0 + c div 4096, 0x80 + c div 64 mod 64, 0x80 + c mod 64]
      else [0xF0 + c div 262144, 0x80 + c div 4096 mod 64, 0x80 + c div 64 mod 64, 0x80 + c mod 64])"

definition textEncode :: "js_string \<Rightarrow> bytes" where
  "textEncode s = map word_of_nat (concat (map utf8_char (scalars s)))"

text \<open>
  The state of the decoder between two bytes: the code point collected so far, the bytes still
  needed and the range the next one must lie in.
\<close>

datatype u8state = U8 nat nat nat nat

definition u8start :: u8state where "u8start = U8 0 0 0x80 0xBF"

definition u8lead :: "nat \<Rightarrow> nat list \<times> u8state" where
  "u8lead b =
     (if b < 0x80 then ([b], u8start)
      else if 0xC2 \<le> b \<and> b \<le> 0xDF then ([], U8 (b - 0xC0) 1 0x80 0xBF)
      else if 0xE0 \<le> b \<and> b \<le> 0xEF then
        ([], U8 (b - 0xE0) 2 (if b = 0xE0 then 0xA0 else 0x80) (if b = 0xED then 0x9F else 0xBF))
      else if 0xF0 \<le> b \<and> b \<le> 0xF4 then
        ([], U8 (b - 0xF0) 3 (if b = 0xF0 then 0x90 else 0x80) (if b = 0xF4 then 0x8F else 0xBF))
      else ([0xFFFD], u8start))"

fun u8step :: "u8state \<Rightarrow> nat \<Rightarrow> nat list \<times> u8state" where
  "u8step (U8 cp n lo hi) b =
     (if n = 0 then u8lead b
      else if b < lo \<or> hi < b then (case u8lead b of (out, st) \<Rightarrow> (0xFFFD # out, st))
      else if n = 1 then ([cp * 64 + (b - 0x80)], u8start)
      else ([], U8 (cp * 64 + (b - 0x80)) (n - 1) 0x80 0xBF))"

fun u8end :: "u8state \<Rightarrow> nat list" where
  "u8end (U8 cp n lo hi) = (if n = 0 then [] else [0xFFFD])"

fun u8run :: "u8state \<Rightarrow> nat list \<Rightarrow> nat list" where
  "u8run st [] = u8end st"
| "u8run st (b # bs) = (case u8step st b of (out, st') \<Rightarrow> out @ u8run st' bs)"

definition dropBom :: "nat list \<Rightarrow> nat list" where
  "dropBom bs = (if take 3 bs = [0xEF, 0xBB, 0xBF] then drop 3 bs else bs)"

definition textDecode :: "bytes \<Rightarrow> js_string" where
  "textDecode bs = concat (map units (u8run u8start (dropBom (map unat bs))))"

text \<open>
  The decoder with \<open>fatal: true\<close> and \<open>ignoreBOM: true\<close>: malformed input is an error and nothing
  is dropped.
\<close>

fun u8bad :: "u8state \<Rightarrow> nat \<Rightarrow> bool" where
  "u8bad (U8 cp n lo hi) b =
     (if n = 0 then 0x80 \<le> b \<and> \<not> (0xC2 \<le> b \<and> b \<le> 0xF4) else b < lo \<or> hi < b)"

fun u8clean :: "u8state \<Rightarrow> nat list \<Rightarrow> bool" where
  "u8clean st [] = (u8end st = [])"
| "u8clean st (b # bs) = (\<not> u8bad st b \<and> u8clean (snd (u8step st b)) bs)"

definition textDecodeStrict :: "bytes \<Rightarrow> js_string option" where
  "textDecodeStrict bs =
     (if u8clean u8start (map unat bs) then Some (concat (map units (u8run u8start (map unat bs)))) else None)"

section \<open>Decoding what was encoded\<close>

lemma u8run_char:
  assumes "scalar c"
  shows "u8run u8start (utf8_char c @ bs) = c # u8run u8start bs \<and>
    u8clean u8start (utf8_char c @ bs) = u8clean u8start bs"
proof -
  consider (one) "c < 0x80" | (two) "0x80 \<le> c" "c < 0x800" | (three) "0x800 \<le> c" "c < 0x10000"
    | (four) "0x10000 \<le> c" "c < 0x110000"
    using assms unfolding scalar_def by linarith
  then show ?thesis
  proof cases
    case one
    then show ?thesis by (simp add: utf8_char_def u8start_def u8lead_def)
  next
    case two
    define a b where "a = c div 64" and "b = c mod 64"
    have a: "2 \<le> a" "a \<le> 31" and b: "b < 64" and c: "a * 64 + b = c"
      using two by (simp_all add: a_def b_def)
    show ?thesis using two a b c
      by (simp add: utf8_char_def u8start_def u8lead_def flip: a_def b_def)
  next
    case three
    define a b d where abd: "a = c div 4096" "b = c div 64 mod 64" "d = c mod 64"
    have a: "a \<le> 15" and b: "b < 64" and d: "d < 64" using three by (simp_all add: abd)
    have "c div 64 div 64 = a" by (simp add: div_mult2_eq abd)
    then have e: "c div 64 = a * 64 + b" using div_mult_mod_eq [of "c div 64" 64] by (simp add: abd)
    have "c div 64 * 64 + d = c" by (simp add: abd(3))
    then have c: "a * 4096 + b * 64 + d = c" unfolding e by (simp add: algebra_simps)
    have e0: "a = 0 \<Longrightarrow> 32 \<le> b" using c three d by linarith
    have ed: "a = 13 \<Longrightarrow> b \<le> 31" using c three b d assms unfolding scalar_def by linarith
    show ?thesis using three a b d c e0 ed
      by (auto simp: utf8_char_def u8start_def u8lead_def simp flip: abd)
  next
    case four
    define z a b d where abd: "z = c div 262144" "a = c div 4096 mod 64" "b = c div 64 mod 64" "d = c mod 64"
    have z: "z \<le> 4" and a: "a < 64" and b: "b < 64" and d: "d < 64" using four by (simp_all add: abd)
    have "c div 4096 div 64 = z" by (simp add: div_mult2_eq abd)
    then have "c div 4096 = z * 64 + a" using div_mult_mod_eq [of "c div 4096" 64] by (simp add: abd)
    moreover have "c div 64 div 64 = c div 4096" by (simp add: div_mult2_eq)
    ultimately have e: "c div 64 = (z * 64 + a) * 64 + b"
      using div_mult_mod_eq [of "c div 64" 64] by (simp add: abd(3))
    have "c div 64 * 64 + d = c" by (simp add: abd(4))
    then have c: "z * 262144 + a * 4096 + b * 64 + d = c" unfolding e by (simp add: algebra_simps)
    have f0: "z = 0 \<Longrightarrow> 16 \<le> a" using c four b d by linarith
    have f4: "z = 4 \<Longrightarrow> a \<le> 15" using c four b d by linarith
    show ?thesis using four z a b d c f0 f4
      by (auto simp: utf8_char_def u8start_def u8lead_def simp flip: abd)
  qed
qed

lemma u8run_chars:
  "\<forall>c \<in> set cs. scalar c \<Longrightarrow>
    u8run u8start (concat (map utf8_char cs)) = cs \<and> u8clean u8start (concat (map utf8_char cs))"
  by (induction cs) (simp_all add: u8run_char, simp add: u8start_def)

lemma utf8_char_byte: "scalar c \<Longrightarrow> b \<in> set (utf8_char c) \<Longrightarrow> b < 256"
  by (auto simp: utf8_char_def scalar_def split: if_splits)

text \<open>Well-formed strings: every surrogate belongs to a pair.\<close>

fun wfString :: "js_string \<Rightarrow> bool" where
  "wfString [] = True"
| "wfString [u] = (scalar u \<and> u < 0x10000)"
| "wfString (u # v # us) =
     (if isHigh u then isLow v \<and> wfString us else scalar u \<and> u < 0x10000 \<and> wfString (v # us))"

lemma scalars_wf: "wfString s \<Longrightarrow> (\<forall>c \<in> set (scalars s). scalar c) \<and> concat (map units (scalars s)) = s"
proof (induction s rule: scalars.induct)
  case 1
  then show ?case by simp
next
  case (2 u)
  then show ?case by (auto simp: scalar_def isHigh_def isLow_def units_def)
next
  case (3 u v us)
  show ?case
  proof (cases "isHigh u")
    case True
    with 3 have v: "isLow v" and IH: "\<forall>c \<in> set (scalars us). scalar c" "concat (map units (scalars us)) = us"
      by auto
    let ?x = "(u - 0xD800) * 0x400 + (v - 0xDC00)"
    have lo: "v - 0xDC00 < 0x400" and hi: "u - 0xD800 < 0x400"
      using True v by (auto simp: isHigh_def isLow_def)
    then have dm: "?x div 0x400 = u - 0xD800" "?x mod 0x400 = v - 0xDC00" by simp_all
    have "?x < 0x100000" using lo hi by linarith
    then have "scalar (0x10000 + ?x)" by (simp add: scalar_def)
    moreover have "units (0x10000 + ?x) = [u, v]"
      using True v dm by (simp add: units_def isHigh_def isLow_def)
    ultimately show ?thesis using True v IH by (simp add: add.assoc)
  next
    case False
    with 3 show ?thesis by (auto simp: scalar_def isHigh_def isLow_def units_def)
  qed
qed

definition noBom :: "js_string \<Rightarrow> bool" where
  "noBom s \<longleftrightarrow> (case s of [] \<Rightarrow> True | u # _ \<Rightarrow> u \<noteq> 0xFEFF)"

lemma utf8_not_bom:
  assumes "scalar c" "c \<noteq> 0xFEFF"
  shows "dropBom (utf8_char c @ bs) = utf8_char c @ bs"
proof -
  have "c = 0xFEFF" if t: "take 3 (utf8_char c @ bs) = [0xEF, 0xBB, 0xBF]"
  proof -
    have "0x800 \<le> c"
    proof (rule ccontr)
      assume "\<not> 0x800 \<le> c"
      then have "c div 64 < 32" by simp
      with t show False by (auto simp: utf8_char_def numeral_3_eq_3 split: if_splits)
    qed
    moreover have "c < 0x10000"
    proof (rule ccontr)
      assume "\<not> c < 0x10000"
      with t show False by (simp add: utf8_char_def numeral_3_eq_3)
    qed
    ultimately have e: "0xE0 + c div 4096 = 0xEF" "0x80 + c div 64 mod 64 = 0xBB" "0x80 + c mod 64 = 0xBF"
      using t by (simp_all add: utf8_char_def numeral_3_eq_3)
    have "c div 64 div 64 = c div 4096" by (simp add: div_mult2_eq)
    then have "c div 64 = 15 * 64 + 59"
      using e div_mult_mod_eq [of "c div 64" 64] by simp
    then show ?thesis using e div_mult_mod_eq [of c 64] by simp
  qed
  then show ?thesis using assms by (auto simp: dropBom_def)
qed

lemma textEncode_bytes:
  assumes "wfString s"
  shows "map unat (textEncode s) = concat (map utf8_char (scalars s))"
proof -
  have "unat (word_of_nat b :: byte) = b" if "b \<in> set (concat (map utf8_char (scalars s)))" for b
    using that scalars_wf [OF assms] utf8_char_byte by (fastforce simp: unat_of_nat)
  then show ?thesis
    unfolding textEncode_def by (simp only: list.map_comp) (intro map_idI, simp only: o_apply)
qed

lemma textDecodeStrict_textEncode:
  assumes "wfString s"
  shows "textDecodeStrict (textEncode s) = Some s"
  using scalars_wf [OF assms] u8run_chars [of "scalars s"]
  by (simp add: textDecodeStrict_def textEncode_bytes [OF assms])

lemma textDecode_textEncode:
  assumes "wfString s" "noBom s"
  shows "textDecode (textEncode s) = s"
proof -
  let ?cs = "scalars s" and ?bs = "concat (map utf8_char (scalars s))"
  have sc: "\<forall>c \<in> set ?cs. scalar c" and un: "concat (map units ?cs) = s"
    using scalars_wf [OF assms(1)] by auto
  note bytes = textEncode_bytes [OF assms(1)]
  have "dropBom ?bs = ?bs"
  proof (cases ?cs)
    case Nil
    then show ?thesis by (simp add: dropBom_def)
  next
    case (Cons c cs)
    have "c \<noteq> 0xFEFF"
    proof
      assume "c = 0xFEFF"
      then have "s = 0xFEFF # concat (map units cs)" using un Cons by (simp add: units_def)
      then show False using assms(2) by (simp add: noBom_def)
    qed
    then show ?thesis using Cons sc by (simp add: utf8_not_bom)
  qed
  then show ?thesis by (simp add: textDecode_def bytes u8run_chars [OF sc] un)
qed

end
