(* ===== verification/Wire_Pointers.thy ===== *)
theory Wire_Pointers
  imports Pointer_Spec Js_Text
begin

text \<open>
  \<open>src/rpc/wire/pointers.ts\<close>, the resolving and decoding half: far pointers, the two rebasing
  functions, the index of a pointer word in a struct, and the decoders of struct, byte-list,
  struct-list and text pointers. A pointer that decodes to \<open>null\<close> is \<open>None\<close>.
\<close>

definition FAR_POINTER_HOP_LIMIT :: nat where "FAR_POINTER_HOP_LIMIT = 8"

record PointerLocation =
  pl_segmentId :: int
  pl_wordIndex :: int

record ResolvedPointer =
  rp_segmentId :: int
  rp_pointerWord :: int
  rp_word :: "64 word"

record ByteListRef =
  bl_segmentId :: int
  bl_startWord :: int
  bl_elementCount :: int

record StructListRef =
  sl_segmentId :: int
  sl_elementsStartWord :: int
  sl_elementCount :: int
  sl_dataWordCount :: int
  sl_pointerCount :: int

section \<open>Far pointers\<close>

text \<open>The two-word landing pad of a double-far pointer.\<close>

definition resolveDoubleFar :: "SegmentTable \<Rightarrow> int \<Rightarrow> int \<Rightarrow> ResolvedPointer result" where
  "resolveDoubleFar table landingSegmentId landingPadWord =
     bindE (ensureSegmentRange table landingSegmentId (landingPadWord * WORD_BYTES) (2 * WORD_BYTES)
              ''double-far landing pad'') (\<lambda>_.
     bindE (readWordFromTable table landingSegmentId landingPadWord ''double-far landing pad[0]'') (\<lambda>pad0.
     if pointerKind pad0 \<noteq> 2
     then Inl (ProtocolError ''double-far landing pad[0] must be far pointer, got kind={}'' [pointerKind pad0])
     else if farIsDouble pad0
     then Inl (ProtocolError ''double-far landing pad[0] must be a single-far pointer'' [])
     else
       let targetSegment = farSegmentId pad0; targetWord = farPadWord pad0
       in bindE (ensureSegmentRange table targetSegment (targetWord * WORD_BYTES) WORD_BYTES
                   ''double-far target word'') (\<lambda>_.
          bindE (readWordFromTable table landingSegmentId (landingPadWord + 1) ''double-far landing pad[1]'')
            (\<lambda>tagWord. Inr \<lparr>rp_segmentId = targetSegment, rp_pointerWord = targetWord - 1,
                            rp_word = tagWord\<rparr>))))"

text \<open>The hop loop, \<open>n\<close> iterations left.\<close>

fun resolveHops :: "SegmentTable \<Rightarrow> nat \<Rightarrow> int \<Rightarrow> int \<Rightarrow> 64 word \<Rightarrow> ResolvedPointer result" where
  "resolveHops table 0 curSegment curWord word =
     Inl (ProtocolError ''far pointer chain exceeded maximum hop count'' [])"
| "resolveHops table (Suc n) curSegment curWord word =
     (if pointerKind word \<noteq> 2
      then Inr \<lparr>rp_segmentId = curSegment, rp_pointerWord = curWord, rp_word = word\<rparr>
      else if \<not> farIsDouble word
      then bindE (readWordFromTable table (farSegmentId word) (farPadWord word) ''single-far landing pointer'')
             (resolveHops table n (farSegmentId word) (farPadWord word))
      else resolveDoubleFar table (farSegmentId word) (farPadWord word))"

definition resolvePointer :: "SegmentTable \<Rightarrow> int \<Rightarrow> int \<Rightarrow> ResolvedPointer result" where
  "resolvePointer table segmentId pointerWord =
     bindE (readWordFromTable table segmentId pointerWord ''resolvePointer'')
       (resolveHops table FAR_POINTER_HOP_LIMIT segmentId pointerWord)"

section \<open>Rebasing\<close>

definition rebasePointerWord :: "64 word \<Rightarrow> int \<Rightarrow> int \<Rightarrow> string \<Rightarrow> 64 word result" where
  "rebasePointerWord pointerWord fromPointerWord toPointerWord context =
     (if pointerWord = 0 then Inr 0
      else let kind = pointerKind pointerWord
      in if kind = 0 \<or> kind = 1 then
           let offset = pointerOffset pointerWord;
               targetWord = fromPointerWord + 1 + offset;
               rebasedOffset = targetWord - (toPointerWord + 1)
           in bindE (encodeSigned30 rebasedOffset) (\<lambda>e. Inr (withOffset pointerWord e))
         else if kind = 2 then Inl (ProtocolError (context @ '' does not support far pointers yet'') [])
         else Inr pointerWord)"

definition rebaseCopiedRootPointer :: "64 word \<Rightarrow> int \<Rightarrow> int \<Rightarrow> string \<Rightarrow> 64 word result" where
  "rebaseCopiedRootPointer sourceRootPointer copiedStartWord destinationPointerWord context =
     (if sourceRootPointer = 0 then Inr 0
      else let kind = pointerKind sourceRootPointer
      in if kind = 0 \<or> kind = 1 then
           let sourceOffset = pointerOffset sourceRootPointer;
               sourceTargetWord = 1 + sourceOffset;
               destinationTargetWord = copiedStartWord + sourceTargetWord;
               destinationOffset = destinationTargetWord - (destinationPointerWord + 1)
           in bindE (encodeSigned30 destinationOffset) (\<lambda>e. Inr (withOffset sourceRootPointer e))
         else if kind = 2 then Inl (ProtocolError (context @ '' does not support far pointers yet'') [])
         else Inr sourceRootPointer)"

section \<open>Decoders\<close>

definition pointerWordIndex :: "StructRef \<Rightarrow> int \<Rightarrow> PointerLocation result" where
  "pointerWordIndex structRef pointerOffs =
     (if pointerOffs < 0 \<or> pointerOffs \<ge> sr_pointerCount structRef
      then Inl (ProtocolError ''pointer offset out of range: {}'' [pointerOffs])
      else Inr \<lparr>pl_segmentId = sr_segmentId structRef,
                pl_wordIndex = sr_startWord structRef + sr_dataWordCount structRef + pointerOffs\<rparr>)"

definition decodeStructPointer :: "SegmentTable \<Rightarrow> PointerLocation \<Rightarrow> StructRef option result" where
  "decodeStructPointer table loc =
     bindE (resolvePointer table (pl_segmentId loc) (pl_wordIndex loc)) (\<lambda>resolved.
       let w = rp_word resolved in
       if w = 0 then Inr None
       else if pointerKind w \<noteq> 0
       then Inl (ProtocolError ''expected struct pointer, got kind={}'' [pointerKind w])
       else
         let offsetWords = pointerOffset w;
             dataWordCount = structDataWords w;
             pointerCount = structPointerCount w;
             startWord = rp_pointerWord resolved + 1 + offsetWords;
             words = dataWordCount + pointerCount;
             outOfRange = Inl (ProtocolError ''struct pointer target out of range'' [])
         in case segmentAt (segments table) (rp_segmentId resolved) of
              None \<Rightarrow> outOfRange
            | Some seg \<Rightarrow>
                if startWord < 0 \<or> (startWord + words) * WORD_BYTES > int (length seg) then outOfRange
                else Inr (Some \<lparr>sr_segmentId = rp_segmentId resolved, sr_startWord = startWord,
                                sr_dataWordCount = dataWordCount, sr_pointerCount = pointerCount\<rparr>))"

definition decodeByteListPointer :: "SegmentTable \<Rightarrow> PointerLocation \<Rightarrow> ByteListRef option result" where
  "decodeByteListPointer table loc =
     bindE (resolvePointer table (pl_segmentId loc) (pl_wordIndex loc)) (\<lambda>resolved.
       let w = rp_word resolved in
       if w = 0 then Inr None
       else if pointerKind w \<noteq> 1
       then Inl (ProtocolError ''expected list pointer, got kind={}'' [pointerKind w])
       else
         let offsetWords = pointerOffset w;
             elementSize = listElementSize w;
             elementCount = listElementCount w
         in if elementSize \<noteq> 2
            then Inl (ProtocolError ''expected byte list element size, got {}'' [elementSize])
            else
              let startWord = rp_pointerWord resolved + 1 + offsetWords;
                  wordCount = ceilDiv elementCount WORD_BYTES;
                  outOfRange = Inl (ProtocolError ''byte list pointer target out of range'' [])
              in case segmentAt (segments table) (rp_segmentId resolved) of
                   None \<Rightarrow> outOfRange
                 | Some seg \<Rightarrow>
                     if startWord < 0 \<or> (startWord + wordCount) * WORD_BYTES > int (length seg)
                     then outOfRange
                     else Inr (Some \<lparr>bl_segmentId = rp_segmentId resolved, bl_startWord = startWord,
                                     bl_elementCount = elementCount\<rparr>))"

definition decodeStructListPointer :: "SegmentTable \<Rightarrow> PointerLocation \<Rightarrow> StructListRef option result" where
  "decodeStructListPointer table loc =
     bindE (resolvePointer table (pl_segmentId loc) (pl_wordIndex loc)) (\<lambda>resolved.
       let w = rp_word resolved in
       if w = 0 then Inr None
       else if pointerKind w \<noteq> 1
       then Inl (ProtocolError ''expected list pointer, got kind={}'' [pointerKind w])
       else if listElementSize w \<noteq> 7
       then Inl (ProtocolError ''expected inline composite list pointer, got elementSize={}'' [listElementSize w])
       else
         let tagWord = rp_pointerWord resolved + 1 + pointerOffset w
         in bindE (readWordFromTable table (rp_segmentId resolved) tagWord ''inline composite tag'') (\<lambda>tag.
            if pointerKind tag \<noteq> 0
            then Inl (ProtocolError ''invalid inline composite tag kind={}'' [pointerKind tag])
            else Inr (Some \<lparr>sl_segmentId = rp_segmentId resolved, sl_elementsStartWord = tagWord + 1,
                            sl_elementCount = tagElementCount tag, sl_dataWordCount = structDataWords tag,
                            sl_pointerCount = structPointerCount tag\<rparr>)))"

text \<open>The bytes of a text, without the terminator when it is there.\<close>

definition textPayload :: "bytes \<Rightarrow> bytes" where
  "textPayload bs = (if bs \<noteq> [] \<and> last bs = 0 then butlast bs else bs)"

definition readTextFromPointer :: "SegmentTable \<Rightarrow> PointerLocation \<Rightarrow> js_string option result" where
  "readTextFromPointer table loc =
     bindE (decodeByteListPointer table loc) (\<lambda>r.
       case r of
         None \<Rightarrow> Inr None
       | Some lst \<Rightarrow>
           (case segmentAt (segments table) (bl_segmentId lst) of
              None \<Rightarrow> Inl undefinedRead
            | Some seg \<Rightarrow>
                let start = bl_startWord lst * WORD_BYTES; end' = start + bl_elementCount lst
                in bindE (ensureRange seg start (bl_elementCount lst) ''readTextFromPointer'') (\<lambda>_.
                   Inr (Some (textDecode (textPayload (subarray seg start end')))))))"

section \<open>Reading a word of the table\<close>

lemma ensureSegmentRange_Inr:
  "ensureSegmentRange table s off n ctx = Inr u \<longleftrightarrow>
     (\<exists>seg. segmentAt (segments table) s = Some seg \<and> 0 \<le> off \<and> off + n \<le> int (length seg))"
  by (auto simp: ensureSegmentRange_def split: option.splits)

lemma readWordFromTable_Inr:
  "readWordFromTable table s i ctx = Inr w \<longleftrightarrow> wordAt (segments table) s i = Some w"
proof (cases "segmentAt (segments table) s")
  case None
  then show ?thesis by (simp add: readWordFromTable_def ensureSegmentRange_def wordAt_def)
next
  case (Some seg)
  then show ?thesis
    by (auto simp: readWordFromTable_def ensureSegmentRange_def wordAt_getBigUint64 [OF Some]
        getBigUint64_def bindE_eq_Inr getLE_eq_Inr)
qed

interpretation table: word_source segments readWordFromTable
  by unfold_locales (rule readWordFromTable_Inr)

section \<open>Resolving against the specification\<close>

lemma resolveDoubleFar_Inr:
  "resolveDoubleFar table s i = Inr r \<longleftrightarrow>
     (\<exists>pad. wordAt (segments table) s i = Some pad \<and> pointerKind pad = 2 \<and> \<not> farIsDouble pad \<and>
        wordAt (segments table) (farSegmentId pad) (farPadWord pad) \<noteq> None \<and>
        wordAt (segments table) s (i + 1) = Some (rp_word r) \<and>
        rp_segmentId r = farSegmentId pad \<and> rp_pointerWord r = farPadWord pad - 1)"
    (is "?l \<longleftrightarrow> ?r")
proof
  assume ?l
  then show ?r
    using wordAt_eq_Some_iff [of "segments table"]
    by (force simp: resolveDoubleFar_def bindE_eq_Inr Let_def readWordFromTable_Inr ensureSegmentRange_Inr)
next
  assume ?r
  then obtain pad where pad: "wordAt (segments table) s i = Some pad" "pointerKind pad = 2" "\<not> farIsDouble pad"
    and tgt: "wordAt (segments table) (farSegmentId pad) (farPadWord pad) \<noteq> None"
    and tag: "wordAt (segments table) s (i + 1) = Some (rp_word r)"
    and r: "rp_segmentId r = farSegmentId pad" "rp_pointerWord r = farPadWord pad - 1"
    by blast
  have rd: "\<And>ctx. readWordFromTable table s i ctx = Inr pad" "\<And>ctx. readWordFromTable table s (i + 1) ctx = Inr (rp_word r)"
    using pad tag by (simp_all add: readWordFromTable_Inr)
  have rng: "ensureSegmentRange table s (i * 8) 16 ctx = Inr ()" for ctx
    using wordAt_bounds [OF pad(1)] wordAt_bounds [OF tag] by (force simp: ensureSegmentRange_Inr)
  have rng': "ensureSegmentRange table (farSegmentId pad) (farPadWord pad * 8) 8 ctx = Inr ()" for ctx
    using tgt wordAt_bounds by (fastforce simp: ensureSegmentRange_Inr)
  show ?l using pad r by (cases r) (simp add: resolveDoubleFar_def rd rng rng' Let_def)
qed

lemma resolveHops_Inr:
  assumes "wordAt (segments table) s i = Some w"
  shows "resolveHops table n s i w = Inr r \<longleftrightarrow>
    (\<exists>k < n. resolves (segments table) k s i (rp_segmentId r) (rp_pointerWord r) (rp_word r))"
  using assms
proof (induction n arbitrary: s i w)
  case 0
  then show ?case by simp
next
  case (Suc n)
  have less: "(\<exists>k < Suc n. P k) \<longleftrightarrow> P 0 \<or> (\<exists>k < n. P (Suc k))" for P
    by (metis Suc_less_eq less_Suc_eq_0_disj zero_less_Suc)
  show ?case
  proof (cases "pointerKind w = 2 \<and> \<not> farIsDouble w")
    case True
    show ?thesis
    proof (cases "wordAt (segments table) (farSegmentId w) (farPadWord w)")
      case None
      then show ?thesis using True Suc.prems
        by (auto simp: bindE_eq_Inr readWordFromTable_Inr resolves_iff [of _ _ s i] elim: resolvesE)
    next
      case (Some v)
      have "readWordFromTable table (farSegmentId w) (farPadWord w) ctx = Inr v" for ctx
        using Some by (simp add: readWordFromTable_Inr)
      then show ?thesis using True Suc.prems Suc.IH [OF Some]
        unfolding less by (auto simp: resolves_iff [of _ _ s i])
    qed
  next
    case False
    then show ?thesis using Suc.prems unfolding less
      by (cases r) (auto simp: resolves_iff [of _ _ s i] resolveDoubleFar_Inr)
  qed
qed

lemma resolvePointer_Inr:
  "resolvePointer table s i = Inr r \<longleftrightarrow>
    (\<exists>k < FAR_POINTER_HOP_LIMIT.
       resolves (segments table) k s i (rp_segmentId r) (rp_pointerWord r) (rp_word r))"
proof (cases "wordAt (segments table) s i")
  case None
  then have "resolvePointer table s i \<noteq> Inr r"
    by (auto simp: resolvePointer_def bindE_eq_Inr readWordFromTable_Inr)
  then show ?thesis using None by (auto elim: resolvesE)
next
  case (Some w)
  then show ?thesis using resolveHops_Inr [OF Some]
    by (auto simp: resolvePointer_def bindE_eq_Inr readWordFromTable_Inr)
qed

section \<open>Rebasing keeps the target\<close>

definition offsetKind :: "64 word \<Rightarrow> bool" where
  "offsetKind w \<longleftrightarrow> w \<noteq> 0 \<and> (pointerKind w = 0 \<or> pointerKind w = 1)"

lemma rebasePointerWord_Inr:
  assumes "rebasePointerWord w from to ctx = Inr w'"
  shows "w' = w \<and> \<not> offsetKind w \<and> pointerKind w \<noteq> 2 \<or>
    offsetKind w \<and> (\<exists>e. encodeSigned30 (from + pointerOffset w - to) = Inr e \<and> w' = withOffset w e)"
  using assms
  by (auto simp: rebasePointerWord_def offsetKind_def Let_def bindE_eq_Inr algebra_simps split: if_splits)

lemma withOffset_target:
  assumes "encodeSigned30 v = Inr e"
  shows "pointerOffset (withOffset w e) = v" "pointerKind (withOffset w e) = pointerKind w"
    "structDataWords (withOffset w e) = structDataWords w"
    "structPointerCount (withOffset w e) = structPointerCount w"
    "listElementSize (withOffset w e) = listElementSize w"
    "listElementCount (withOffset w e) = listElementCount w"
  using withOffset_fields [OF encodeSigned30_fits(1) [OF assms]] pointerOffset_withOffset [OF assms] by simp_all

section \<open>What a decoded reference guarantees\<close>

lemma decodeStructPointer_in_segment:
  assumes "decodeStructPointer table loc = Inr (Some sr)"
  shows "\<exists>seg. segmentAt (segments table) (sr_segmentId sr) = Some seg \<and> 0 \<le> sr_startWord sr \<and>
    0 \<le> sr_dataWordCount sr \<and> sr_dataWordCount sr < 2 ^ 16 \<and>
    0 \<le> sr_pointerCount sr \<and> sr_pointerCount sr < 2 ^ 16 \<and>
    (sr_startWord sr + sr_dataWordCount sr + sr_pointerCount sr) * 8 \<le> int (length seg)"
  using assms structDataWords_bound structPointerCount_bound
  by (auto simp: decodeStructPointer_def bindE_eq_Inr Let_def split: if_splits option.splits)

lemma decodeByteListPointer_in_segment:
  assumes "decodeByteListPointer table loc = Inr (Some bl)"
  shows "\<exists>seg. segmentAt (segments table) (bl_segmentId bl) = Some seg \<and> 0 \<le> bl_startWord bl \<and>
    0 \<le> bl_elementCount bl \<and> bl_startWord bl * 8 + bl_elementCount bl \<le> int (length seg)"
proof -
  from assms obtain r where r: "resolvePointer table (pl_segmentId loc) (pl_wordIndex loc) = Inr r"
    by (auto simp: decodeByteListPointer_def bindE_eq_Inr)
  with assms have w: "bl_elementCount bl = listElementCount (rp_word r)"
    and ex: "\<exists>seg. segmentAt (segments table) (bl_segmentId bl) = Some seg \<and> 0 \<le> bl_startWord bl \<and>
      (bl_startWord bl + ceilDiv (listElementCount (rp_word r)) 8) * 8 \<le> int (length seg)"
    by (auto simp: decodeByteListPointer_def Let_def split: if_splits option.splits)
  from ex obtain seg where seg: "segmentAt (segments table) (bl_segmentId bl) = Some seg"
    and start: "0 \<le> bl_startWord bl"
    and le: "(bl_startWord bl + ceilDiv (listElementCount (rp_word r)) 8) * 8 \<le> int (length seg)"
    by blast
  have "listElementCount (rp_word r) \<le> ceilDiv (listElementCount (rp_word r)) 8 * 8"
    by (rule ceilDiv_upper) simp
  then show ?thesis using w seg start le by (intro exI [of _ seg]) (simp add: algebra_simps)
qed

text \<open>The reads that succeed on a struct that was decoded: every pointer slot and every field.\<close>

lemma struct_pointer_slot_readable:
  assumes "decodeStructPointer table loc = Inr (Some sr)" "0 \<le> i" "i < sr_pointerCount sr"
  shows "\<exists>l w. pointerWordIndex sr i = Inr l \<and>
    readWordFromTable table (pl_segmentId l) (pl_wordIndex l) ctx = Inr w"
proof -
  from decodeStructPointer_in_segment [OF assms(1)] obtain seg where
    seg: "segmentAt (segments table) (sr_segmentId sr) = Some seg" and b: "0 \<le> sr_startWord sr"
    "0 \<le> sr_dataWordCount sr"
    "(sr_startWord sr + sr_dataWordCount sr + sr_pointerCount sr) * 8 \<le> int (length seg)" by auto
  have "\<exists>w. readWordFromTable table (sr_segmentId sr) (sr_startWord sr + sr_dataWordCount sr + i) ctx = Inr w"
    using seg by (rule table.rd_total_in_range) (use b assms in auto)
  then show ?thesis using assms by (simp add: pointerWordIndex_def)
qed

lemma readFieldInStruct_total:
  assumes "decodeStructPointer table loc = Inr (Some sr)" "0 \<le> off" "off + n \<le> sr_dataWordCount sr * 8"
    and get: "\<And>seg i. 0 \<le> i \<Longrightarrow> i + n \<le> int (length seg) \<Longrightarrow> \<exists>v. get seg i = Inr v"
  shows "\<exists>v. readFieldInStruct get n name table sr off = Inr v"
proof -
  from decodeStructPointer_in_segment [OF assms(1)] obtain seg where
    seg: "segmentAt (segments table) (sr_segmentId sr) = Some seg" and b: "0 \<le> sr_startWord sr"
    "0 \<le> sr_pointerCount sr"
    "(sr_startWord sr + sr_dataWordCount sr + sr_pointerCount sr) * 8 \<le> int (length seg)" by auto
  have "0 \<le> sr_startWord sr * 8 + off" "sr_startWord sr * 8 + off + n \<le> int (length seg)"
    using b assms(2,3) by auto
  then show ?thesis
    using get [of "sr_startWord sr * 8 + off" seg] assms(2,3) seg
    by (auto simp: readFieldInStruct_def ensureRange_def Let_def)
qed

end
