(* ===== verification/Frame_Layout.thy ===== *)
theory Frame_Layout
  imports Wire_Segments
begin

text \<open>
  The stream framing of a message as a specification: a table of \<open>u32\<close> values (the number of
  segments minus one, then one word count per segment, padded to a word), then the segments.
  The three parsers of the sources (\<open>segmentsFromFrame\<close>, \<open>parseFrame\<close>, the \<open>MessageReader\<close>
  constructor) and the incremental framer are related to it.
\<close>

definition frameHeader :: "nat list \<Rightarrow> bytes" where
  "frameHeader ws =
     le_bytes 4 (length ws - 1) @ concat (map (le_bytes 4) ws)
       @ (if even (length ws) then replicate 4 0 else [])"

definition segWords :: "bytes \<Rightarrow> nat" where
  "segWords s = length s div 8"

definition frameOf :: "bytes list \<Rightarrow> bytes" where
  "frameOf segs = frameHeader (map segWords segs) @ concat segs"

definition alignedSeg :: "bytes \<Rightarrow> bool" where
  "alignedSeg s \<longleftrightarrow> length s mod 8 = 0 \<and> segWords s < 2 ^ 32"

definition wfSegs :: "bytes list \<Rightarrow> bool" where
  "wfSegs segs \<longleftrightarrow> segs \<noteq> [] \<and> length segs \<le> 2 ^ 32 \<and> (\<forall>s \<in> set segs. alignedSeg s)"

definition headerLen :: "nat \<Rightarrow> nat" where
  "headerLen n = 4 * (1 + n + (if even n then 1 else 0))"

lemma alignedSeg_length: "alignedSeg s \<Longrightarrow> length s = 8 * segWords s"
  by (auto simp: alignedSeg_def segWords_def)

lemma length_concat_le_bytes: "length (concat (map (le_bytes 4) ws)) = 4 * length ws"
  by (induction ws) auto

lemma length_frameHeader [simp]: "length (frameHeader ws) = headerLen (length ws)"
  by (simp add: frameHeader_def headerLen_def length_concat_le_bytes)

lemma headerLen_ceil:
  "ceilDiv ((1 + int n) * 4) 8 * 8 = int (headerLen n)"
proof (cases "even n")
  case True
  then obtain k where n: "n = 2 * k" by (elim evenE)
  have "(int k * 8 + 11) div 8 = int k + 1" by simp
  then show ?thesis by (simp add: n ceilDiv_def headerLen_def algebra_simps)
next
  case False
  then obtain k where n: "n = 2 * k + 1" by (elim oddE)
  have "(int k * 8 + 15) div 8 = int k + 1" by simp
  then show ?thesis by (simp add: n ceilDiv_def headerLen_def algebra_simps)
qed

lemma headerLen_ge: "8 \<le> headerLen n"
  by (cases n) (auto simp: headerLen_def)

lemma headerLen_aligned: "headerLen n mod 8 = 0"
  unfolding headerLen_def by (cases "even n") (auto elim!: evenE oddE simp: algebra_simps)

lemma frame_count:
  assumes "ws \<noteq> []" "length ws \<le> 2 ^ 32"
  shows "getUint32 (frameHeader ws @ body) 0 = Inr (int (length ws) - 1)"
proof -
  have "length ws - 1 < 256 ^ 4" using assms by (cases ws) auto
  then have "le_nat (le_bytes 4 (length ws - 1)) = length ws - 1" by (simp add: le_nat_le_bytes)
  then have "getLE 4 (frameHeader ws @ body) 0 = Inr (length ws - 1)"
    by (simp add: getLE_def frameHeader_def)
  then show ?thesis using assms by (cases ws) (simp_all add: getUint32_def)
qed

lemma drop_concat_le_bytes:
  "i \<le> length ws \<Longrightarrow> drop (4 * i) (concat (map (le_bytes 4) ws)) = concat (map (le_bytes 4) (drop i ws))"
proof (induction ws arbitrary: i)
  case Nil
  then show ?case by simp
next
  case (Cons w ws)
  then show ?case by (cases i) auto
qed

lemma frame_size_entry:
  assumes "i < length ws" "ws ! i < 2 ^ 32"
  shows "getUint32 (frameHeader ws @ body) (4 + int i * 4) = Inr (int (ws ! i))"
proof -
  let ?f = "frameHeader ws @ body"
  have n: "nat (4 + int i * 4) = 4 + 4 * i" by simp
  have "drop (4 + 4 * i) ?f =
      concat (map (le_bytes 4) (drop i ws)) @ (if even (length ws) then replicate 4 0 else []) @ body"
    using assms by (simp add: frameHeader_def drop_concat_le_bytes length_concat_le_bytes)
  also have "drop i ws = ws ! i # drop (Suc i) ws" using assms by (simp add: Cons_nth_drop_Suc)
  finally have "take 4 (drop (4 + 4 * i) ?f) = le_bytes 4 (ws ! i)" by simp
  then have "le_nat (take 4 (drop (4 + 4 * i) ?f)) = ws ! i"
    using assms by (simp add: le_nat_le_bytes)
  moreover have "4 + int i * 4 + 4 \<le> int (length ?f)" using assms by (simp add: headerLen_def)
  ultimately show ?thesis by (simp add: getUint32_def getLE_def n)
qed

section \<open>\<open>readSegments\<close> against the layout\<close>

lemma readSegments_layout:
  assumes "\<And>k. k < length segs \<Longrightarrow> getUint32 frame (4 + (i + int k) * 4) = Inr (int (segWords (segs ! k)))"
    and "0 \<le> cursor" and "drop (nat cursor) frame = concat segs @ rest"
    and "\<forall>s \<in> set segs. alignedSeg s" and "nat cursor \<le> length frame"
  shows "readSegments frame (length segs) i cursor acc = Inr (acc @ segs)"
  using assms
proof (induction segs arbitrary: i cursor acc)
  case Nil
  then show ?case by simp
next
  case (Cons s segs)
  have len: "length s = 8 * segWords s" using Cons.prems(4) by (simp add: alignedSeg_length)
  have get: "getUint32 frame (4 + i * 4) = Inr (int (segWords s))"
    using Cons.prems(1) [of 0] by simp
  have total: "length frame - nat cursor = length s + length (concat segs) + length rest"
    using arg_cong [OF Cons.prems(3), of length] by simp
  then have fits: "cursor + int (segWords s) * 8 \<le> int (length frame)"
    using Cons.prems(2,5) len by linarith
  have sub: "subarray frame cursor (cursor + int (segWords s) * 8) = s"
    using Cons.prems(3) len by (simp add: subarray_def nat_mult_distrib)
  have nc: "nat (cursor + int (segWords s) * 8) = nat cursor + length s"
    using Cons.prems(2) len by (simp add: nat_add_distrib nat_mult_distrib)
  have "drop (nat cursor + length s) frame = drop (length s) (drop (nat cursor) frame)"
    by (simp add: add.commute)
  then have rest: "drop (nat (cursor + int (segWords s) * 8)) frame = concat segs @ rest"
    by (simp add: nc Cons.prems(3))
  have "readSegments frame (length segs) (i + 1) (cursor + int (segWords s) * 8) (acc @ [s])
      = Inr ((acc @ [s]) @ segs)"
  proof (rule Cons.IH)
    show "getUint32 frame (4 + (i + 1 + int k) * 4) = Inr (int (segWords (segs ! k)))"
      if "k < length segs" for k
      using Cons.prems(1) [of "Suc k"] that by (simp add: algebra_simps)
  qed (use Cons.prems rest nc fits total in \<open>auto simp: nat_le_iff\<close>)
  then show ?case using get fits sub by (simp add: Let_def)
qed

lemma segmentsFromFrame_frameOf:
  assumes "wfSegs segs"
  shows "segmentsFromFrame (frameOf segs @ rest) = Inr \<lparr>segments = segs\<rparr>"
proof -
  let ?f = "frameOf segs @ rest" and ?ws = "map segWords segs"
  have ne: "segs \<noteq> []" and le: "length segs \<le> 2 ^ 32" and al: "\<forall>s \<in> set segs. alignedSeg s"
    using assms by (auto simp: wfSegs_def)
  have f: "?f = frameHeader ?ws @ (concat segs @ rest)" by (simp add: frameOf_def)
  have cnt: "getUint32 ?f 0 = Inr (int (length segs) - 1)"
    unfolding f using frame_count [of ?ws "concat segs @ rest"] ne le by simp
  have hdr: "8 * ceilDiv (4 + int (length segs) * 4) 8 = int (headerLen (length segs))"
    using headerLen_ceil [of "length segs"] by (simp add: algebra_simps)
  have flen: "length ?f = headerLen (length segs) + length (concat segs @ rest)"
    unfolding f by simp
  have "readSegments ?f (length segs) 0 (int (headerLen (length segs))) [] = Inr ([] @ segs)"
  proof (rule readSegments_layout)
    show "getUint32 ?f (4 + (0 + int k) * 4) = Inr (int (segWords (segs ! k)))"
      if "k < length segs" for k
      unfolding f using frame_size_entry [of k ?ws] that al by (simp add: alignedSeg_def)
    show "drop (nat (int (headerLen (length segs)))) ?f = concat segs @ rest"
      unfolding f by simp
  qed (use al flen in auto)
  moreover have "\<not> int (length ?f) < 8"
    using headerLen_ge [of "length segs"] flen by linarith
  ultimately show ?thesis
    using flen by (simp add: segmentsFromFrame_def cnt hdr algebra_simps Let_def)
qed

lemma readSegments_sound:
  assumes "readSegments frame n i cursor acc = Inr out" "0 \<le> cursor" "cursor \<le> int (length frame)"
  shows "\<exists>segs rest. out = acc @ segs \<and> length segs = n \<and> (\<forall>s \<in> set segs. alignedSeg s)
           \<and> drop (nat cursor) frame = concat segs @ rest"
  using assms
proof (induction n arbitrary: i cursor acc)
  case 0
  then show ?case by simp
next
  case (Suc n)
  from Suc.prems(1) obtain w where w: "getUint32 frame (4 + i * 4) = Inr w"
    and fits: "cursor + w * 8 \<le> int (length frame)"
    and rec: "readSegments frame n (i + 1) (cursor + w * 8) (acc @ [subarray frame cursor (cursor + w * 8)]) = Inr out"
    by (auto simp: bindE_eq_Inr Let_def split: if_splits)
  have wr: "0 \<le> w" "w < 2 ^ 32" using getUint32_range [OF w] by auto
  let ?s = "subarray frame cursor (cursor + w * 8)"
  have ls: "length ?s = nat (w * 8)"
    using fits Suc.prems(2,3) wr by (simp add: subarray_def min_def) linarith
  then have al: "alignedSeg ?s"
    using wr by (simp add: alignedSeg_def segWords_def nat_mult_distrib nat_less_iff)
  obtain segs rest where IH: "out = (acc @ [?s]) @ segs" "length segs = n" "\<forall>s \<in> set segs. alignedSeg s"
    "drop (nat (cursor + w * 8)) frame = concat segs @ rest"
    using Suc.IH [OF rec] fits Suc.prems(2) wr by auto
  have "?s = take (nat (w * 8)) (drop (nat cursor) frame)" by (simp add: subarray_def)
  then have "drop (nat cursor) frame = ?s @ drop (length ?s) (drop (nat cursor) frame)"
    using append_take_drop_id [of "nat (w * 8)" "drop (nat cursor) frame"] ls by simp
  also have "drop (length ?s) (drop (nat cursor) frame) = drop (nat (cursor + w * 8)) frame"
    using ls Suc.prems(2) wr by (simp add: nat_add_distrib add.commute)
  finally have "drop (nat cursor) frame = concat (?s # segs) @ rest" using IH by simp
  then show ?case using IH al by (intro exI [of _ "?s # segs"] exI [of _ rest]) simp
qed


text \<open>
  What \<open>segmentsFromFrame\<close> accepts: whole words per segment, in order, after a header of the
  right length. Bytes after the last segment are ignored.
\<close>

definition alignedTable :: "SegmentTable \<Rightarrow> bool" where
  "alignedTable t \<longleftrightarrow> segments t \<noteq> [] \<and> (\<forall>s \<in> set (segments t). alignedSeg s)"

lemma segmentsFromFrame_sound:
  assumes "segmentsFromFrame frame = Inr t"
  shows "alignedTable t \<and>
    (\<exists>rest. drop (headerLen (length (segments t))) frame = concat (segments t) @ rest)"
proof -
  from assms obtain c where c: "getUint32 frame 0 = Inr c"
    and hd: "\<not> int (length frame) < ceilDiv ((1 + (c + 1)) * 4) 8 * 8"
    and rs: "readSegments frame (nat (c + 1)) 0 (ceilDiv ((1 + (c + 1)) * 4) 8 * 8) [] = Inr (segments t)"
    by (auto simp: segmentsFromFrame_def bindE_eq_Inr Let_def split: if_splits)
  have c0: "0 \<le> c" using getUint32_range [OF c] by simp
  have h: "ceilDiv ((1 + (c + 1)) * 4) 8 * 8 = int (headerLen (nat (c + 1)))"
    using headerLen_ceil [of "nat (c + 1)"] c0 by simp
  have "int (headerLen (nat (c + 1))) \<le> int (length frame)" using hd unfolding h by simp
  then obtain rest where r: "length (segments t) = nat (c + 1)" "\<forall>s \<in> set (segments t). alignedSeg s"
    "drop (headerLen (nat (c + 1))) frame = concat (segments t) @ rest"
    using readSegments_sound [OF rs [unfolded h]] by auto
  then have "segments t \<noteq> []" using c0 by auto
  with r show ?thesis by (auto simp: alignedTable_def)
qed

lemma frameHeader_single: "frameHeader [n] = replicate 4 0 @ le_bytes 4 n"
  by (simp add: frameHeader_def)

lemma setUint32_zeros:
  assumes "8 \<le> n"
  shows "setUint32 (replicate n 0) 0 0 = Inr (replicate n 0)"
proof -
  have "replicate 4 0 @ replicate (n - 4) 0 = (replicate n 0 :: bytes)"
    using assms by (simp only: replicate_add [symmetric]) simp
  then show ?thesis using assms by (simp add: setUint32_def setLE_def setBytes_def del: replicate.simps)
qed

lemma setUint32_second:
  assumes "w < 2 ^ 32"
  shows "setUint32 (replicate (8 + n) 0) 4 (int w) =
    Inr (replicate 4 0 @ le_bytes 4 w @ replicate n 0)"
  using assms
  by (simp add: setUint32_def setLE_def setBytes_def nat_mod_distrib nat_power_eq del: replicate.simps le_bytes.simps)

lemma setBytes_tail:
  assumes "length h = 8" "length s = n"
  shows "setBytes (h @ replicate n 0) s 8 = Inr (h @ s)"
  using assms by (simp add: setBytes_def)

lemma write_single_frame:
  assumes "length s = 8 * w" "w < 2 ^ 32"
  shows "bindE (setUint32 (replicate (8 + length s) 0) 0 0) (\<lambda>out.
      bindE (setUint32 out 4 (int w)) (\<lambda>out. setBytes out s 8)) = Inr (frameOf [s])"
proof -
  have sw: "segWords s = w" using assms(1) by (simp add: segWords_def)
  have "setBytes (replicate 4 0 @ le_bytes 4 w @ replicate (length s) 0) s 8
      = Inr (replicate 4 0 @ le_bytes 4 w @ s)"
    using setBytes_tail [of "replicate 4 0 @ le_bytes 4 w" s] by simp
  then show ?thesis
    by (simp only: bindE_Inr setUint32_second [OF assms(2)] frameOf_def frameHeader_single sw
        list.map concat.simps append_Nil2 append_assoc setUint32_zeros le_add1)
qed

lemma frameFromSegment_frameOf:
  assumes "alignedSeg s"
  shows "frameFromSegment s = Inr (frameOf [s])"
proof -
  have len: "length s = 8 * segWords s" and w: "segWords s < 2 ^ 32"
    using alignedSeg_length [OF assms] assms by (simp_all only: alignedSeg_def)
  then have "int (length s) div 8 = int (segWords s)" "\<not> int (length s) mod 8 \<noteq> 0"
    by simp_all
  then show ?thesis
    unfolding frameFromSegment_def WORD_BYTES_def Let_def
    by (simp only: if_False write_single_frame [OF len w])
qed

lemma segmentFromFrame_frameFromSegment:
  assumes "alignedSeg s"
  shows "bindE (frameFromSegment s) segmentFromFrame = Inr s"
proof -
  have "wfSegs [s]" using assms by (simp add: wfSegs_def)
  then have "segmentsFromFrame (frameOf [s]) = Inr \<lparr>segments = [s]\<rparr>"
    using segmentsFromFrame_frameOf [of "[s]" "[]"] by simp
  then show ?thesis
    by (simp add: frameFromSegment_frameOf [OF assms] segmentFromFrame_def)
qed

end
