(* ===== verification/Frame_Limits.thy ===== *)
theory Frame_Limits
  imports Wire_Pointers Frame_Layout
begin

unbundle bit_operations_syntax

text \<open>
  \<open>src/rpc/wire/frame_limits.ts\<close>: the frame parser that enforces the configured limits and the
  walk over the pointer tree that enforces the nesting depth. The file has its own copies of the
  word reader and of the far-pointer resolver; they are modelled from it, not shared with
  \<open>pointers.ts\<close>.
\<close>

section \<open>Options\<close>

definition DEFAULT_MAX_SEGMENT_COUNT :: int where "DEFAULT_MAX_SEGMENT_COUNT = 512"
definition DEFAULT_MAX_FRAME_BYTES :: int where "DEFAULT_MAX_FRAME_BYTES = 64 * 1024 * 1024"
definition DEFAULT_MAX_TRAVERSAL_WORDS :: int where "DEFAULT_MAX_TRAVERSAL_WORDS = 64 * 1024 * 1024 div 8"
definition DEFAULT_MAX_NESTING_DEPTH :: int where "DEFAULT_MAX_NESTING_DEPTH = 64"

record CapnpFrameLimitsOptions =
  lo_maxSegmentCount :: "number option"
  lo_maxFrameBytes :: "number option"
  lo_maxTraversalWords :: "number option"
  lo_maxNestingDepth :: "number option"

text \<open>\<open>option ?? default\<close>\<close>

definition orDefault :: "number option \<Rightarrow> int \<Rightarrow> number" where
  "orDefault v d = (case v of None \<Rightarrow> jint d | Some n \<Rightarrow> n)"

definition assertNonNegativeInteger :: "number option \<Rightarrow> string \<Rightarrow> unit result" where
  "assertNonNegativeInteger value name =
     (case value of
        None \<Rightarrow> Inr ()
      | Some v \<Rightarrow>
          if \<not> isInteger v \<or> numLess v (jint 0)
          then Inl (ProtocolError (name @ '' must be a non-negative integer'') []) else Inr ())"

section \<open>Words and pointers of a parsed frame\<close>

definition asSigned30 :: "64 word \<Rightarrow> int" where
  "asSigned30 raw = (let value = uint (raw AND MASK_30) in if value AND 2 ^ 29 \<noteq> 0 then value - 2 ^ 30 else value)"

definition wordsForFlatList :: "int \<Rightarrow> int \<Rightarrow> int result" where
  "wordsForFlatList elementSize elementCount =
     (if elementSize = 0 then Inr 0
      else if elementSize = 1 then Inr (ceilDiv elementCount 64)
      else if elementSize = 2 then Inr (ceilDiv elementCount WORD_BYTES)
      else if elementSize = 3 then Inr (ceilDiv elementCount 4)
      else if elementSize = 4 then Inr (ceilDiv elementCount 2)
      else if elementSize = 5 then Inr elementCount
      else if elementSize = 6 then Inr elementCount
      else Inl (ProtocolError ''invalid list pointer elementSize={}'' [elementSize]))"

text \<open>
  \<open>segmentWords\<close> is the quotient \<open>byteLength / 8\<close> as a double; the comparison with it is the
  comparison of the byte counts.
\<close>

definition requireWordRange :: "bytes list \<Rightarrow> int \<Rightarrow> int \<Rightarrow> int \<Rightarrow> string \<Rightarrow> unit result" where
  "requireWordRange segs segmentId startWord wordCount context =
     (case segmentAt segs segmentId of
        None \<Rightarrow> Inl (ProtocolError (context @ '' references missing segment {}'') [segmentId])
      | Some segment \<Rightarrow>
          if startWord < 0 \<or> wordCount < 0
          then Inl (ProtocolError (context @ '' has invalid word bounds'') [])
          else if (startWord + wordCount) * WORD_BYTES > int (length segment)
          then Inl (ProtocolError (context @ '' out of range: segment={} start={} words={} segmentWords={}'')
                 [segmentId, startWord, wordCount, int (length segment) div WORD_BYTES])
          else Inr ())"

definition readWordAt :: "bytes list \<Rightarrow> int \<Rightarrow> int \<Rightarrow> string \<Rightarrow> 64 word result" where
  "readWordAt segs segmentId wordIndex context =
     bindE (requireWordRange segs segmentId wordIndex 1 context) (\<lambda>_.
       case segmentAt segs segmentId of
         None \<Rightarrow> Inl undefinedRead
       | Some segment \<Rightarrow> getBigUint64 segment (wordIndex * WORD_BYTES))"

text \<open>
  \<open>resolvePointer\<close> of this file. After a double-far landing pad the loop goes on with the tag
  word as the current word and the target itself as its position.
\<close>

definition POINTER_HOP_LIMIT :: nat where "POINTER_HOP_LIMIT = 8"

definition limitsLandingPad :: "bytes list \<Rightarrow> int \<Rightarrow> int \<Rightarrow> (int \<times> int \<times> 64 word) result" where
  "limitsLandingPad segs landingSegmentId landingPadWord =
     bindE (requireWordRange segs landingSegmentId landingPadWord 2 ''double-far landing pad'') (\<lambda>_.
     bindE (readWordAt segs landingSegmentId landingPadWord ''double-far landing pad[0]'') (\<lambda>pad0.
     if pointerKind pad0 \<noteq> 2
     then Inl (ProtocolError ''double-far landing pad[0] must be far pointer, got kind={}'' [pointerKind pad0])
     else if farIsDouble pad0
     then Inl (ProtocolError ''double-far landing pad[0] must be a single-far pointer'' [])
     else
       bindE (requireWordRange segs (farSegmentId pad0) (farPadWord pad0) 1 ''double-far target pointer base'') (\<lambda>_.
       bindE (readWordAt segs landingSegmentId (landingPadWord + 1) ''double-far landing pad[1]'') (\<lambda>word.
       Inr (farSegmentId pad0, farPadWord pad0, word)))))"

fun limitsResolveHops :: "bytes list \<Rightarrow> nat \<Rightarrow> int \<Rightarrow> int \<Rightarrow> 64 word \<Rightarrow> ResolvedPointer result" where
  "limitsResolveHops segs 0 currentSegmentId currentPointerWord word =
     Inl (ProtocolError ''far pointer chain exceeded maximum hop count'' [])"
| "limitsResolveHops segs (Suc n) currentSegmentId currentPointerWord word =
     (if pointerKind word \<noteq> 2
      then Inr \<lparr>rp_segmentId = currentSegmentId, rp_pointerWord = currentPointerWord, rp_word = word\<rparr>
      else if \<not> farIsDouble word
      then bindE (readWordAt segs (farSegmentId word) (farPadWord word) ''single-far landing pointer'')
             (limitsResolveHops segs n (farSegmentId word) (farPadWord word))
      else bindE (limitsLandingPad segs (farSegmentId word) (farPadWord word))
             (\<lambda>(s, p, w). limitsResolveHops segs n s p w))"

definition limitsResolvePointer :: "bytes list \<Rightarrow> int \<Rightarrow> int \<Rightarrow> ResolvedPointer result" where
  "limitsResolvePointer segs segmentId pointerWord =
     bindE (readWordAt segs segmentId pointerWord ''pointer word'')
       (limitsResolveHops segs POINTER_HOP_LIMIT segmentId pointerWord)"

section \<open>Parsing with limits\<close>

record ParsedCapnpFrame =
  pf_segments :: "bytes list"
  pf_totalWords :: int

fun readWordCounts :: "bytes \<Rightarrow> nat \<Rightarrow> int \<Rightarrow> int list result" where
  "readWordCounts frame 0 i = Inr []"
| "readWordCounts frame (Suc n) i =
     bindE (getUint32 frame (4 + i * 4)) (\<lambda>words.
     bindE (readWordCounts frame n (i + 1)) (\<lambda>ws. Inr (words # ws)))"

fun sliceSegments :: "bytes \<Rightarrow> int \<Rightarrow> int list \<Rightarrow> bytes list" where
  "sliceSegments frame cursor [] = []"
| "sliceSegments frame cursor (words # ws) =
     subarray frame cursor (cursor + words * WORD_BYTES) # sliceSegments frame (cursor + words * WORD_BYTES) ws"

definition parseFrame :: "bytes \<Rightarrow> CapnpFrameLimitsOptions \<Rightarrow> ParsedCapnpFrame result" where
  "parseFrame frame limits =
     (if int (length frame) < 4 then Inl (ProtocolError ''capnp frame is too short'' [])
      else
        bindE (assertNonNegativeInteger (lo_maxSegmentCount limits) ''maxSegmentCount'') (\<lambda>_.
        bindE (assertNonNegativeInteger (lo_maxFrameBytes limits) ''maxFrameBytes'') (\<lambda>_.
        bindE (assertNonNegativeInteger (lo_maxTraversalWords limits) ''maxTraversalWords'') (\<lambda>_.
        bindE (assertNonNegativeInteger (lo_maxNestingDepth limits) ''maxNestingDepth'') (\<lambda>_.
        bindE (getUint32 frame 0) (\<lambda>c.
        let segmentCount = c + 1;
            maxSegmentCount = orDefault (lo_maxSegmentCount limits) DEFAULT_MAX_SEGMENT_COUNT
        in if numLess maxSegmentCount (jint segmentCount)
           then Inl (ProtocolError ''capnp frame segment count {} exceeds configured limit {}''
                  [segmentCount, toInt maxSegmentCount])
           else
        let headerWords = 1 + segmentCount + (if segmentCount mod 2 = 0 then 1 else 0);
            headerBytes = headerWords * 4
        in if int (length frame) < headerBytes
           then Inl (ProtocolError ''capnp frame header is truncated'' [])
           else
        bindE (readWordCounts frame (nat segmentCount) 0) (\<lambda>segmentWords.
        let totalWords = sum_list segmentWords;
            maxTraversalWords = orDefault (lo_maxTraversalWords limits) DEFAULT_MAX_TRAVERSAL_WORDS
        in if numLess maxTraversalWords (jint totalWords)
           then Inl (ProtocolError ''capnp frame traversal words {} exceeds configured limit {}''
                  [totalWords, toInt maxTraversalWords])
           else
        let totalBytes = headerBytes + totalWords * WORD_BYTES;
            maxFrameBytes = orDefault (lo_maxFrameBytes limits) DEFAULT_MAX_FRAME_BYTES
        in if numLess maxFrameBytes (jint totalBytes)
           then Inl (ProtocolError ''capnp frame size {} exceeds configured limit {}''
                  [totalBytes, toInt maxFrameBytes])
           else if int (length frame) < totalBytes
           then Inl (ProtocolError ''capnp frame payload is truncated'' [])
           else if int (length frame) > totalBytes
           then Inl (ProtocolError ''capnp frame has trailing bytes: declared={} actual={}''
                  [totalBytes, int (length frame)])
           else Inr \<lparr>pf_segments = sliceSegments frame headerBytes segmentWords,
                     pf_totalWords = totalWords\<rparr>)))))))"

section \<open>The pointer walk\<close>

record PointerState =
  ps_segmentId :: int
  ps_pointerWord :: int
  ps_depth :: int

definition stateKey :: "PointerState \<Rightarrow> int" where
  "stateKey st = push_bit 40 (ps_segmentId st) OR push_bit 8 (ps_pointerWord st) OR ps_depth st"

text \<open>The pointers \<open>first, first + 1, \<dots>\<close> of a segment, as states of one depth.\<close>

definition pointersFrom :: "int \<Rightarrow> int \<Rightarrow> int \<Rightarrow> int \<Rightarrow> PointerState list" where
  "pointersFrom segmentId first count depth =
     map (\<lambda>i. \<lparr>ps_segmentId = segmentId, ps_pointerWord = first + i, ps_depth = depth\<rparr>) [0..count - 1]"

text \<open>
  The body of the loop after the \<open>seen\<close> check: the states it pushes, in the order it pushes them.
\<close>

definition visitPointer :: "bytes list \<Rightarrow> int \<Rightarrow> PointerState \<Rightarrow> PointerState list result" where
  "visitPointer segs maxDepth state =
     bindE (limitsResolvePointer segs (ps_segmentId state) (ps_pointerWord state)) (\<lambda>resolved.
     let word = rp_word resolved; seg = rp_segmentId resolved; kind = pointerKind word;
         nextDepth = ps_depth state + 1
     in if word = 0 then Inr []
        else if ps_depth state > maxDepth
        then Inl (ProtocolError ''capnp frame nesting depth {} exceeds configured limit {}''
               [ps_depth state, maxDepth])
        else if kind = 3 then Inr []
        else if kind = 0 then
          (let offsetWords = asSigned30 (drop_bit 2 word AND MASK_30);
               dataWordCount = structDataWords word;
               pointerCount = structPointerCount word;
               startWord = rp_pointerWord resolved + 1 + offsetWords
           in bindE (requireWordRange segs seg startWord (dataWordCount + pointerCount) ''struct pointer target'')
                (\<lambda>_. Inr (pointersFrom seg (startWord + dataWordCount) pointerCount nextDepth)))
        else if kind \<noteq> 1 then Inl (ProtocolError ''invalid pointer kind={}'' [kind])
        else
          (let offsetWords = asSigned30 (drop_bit 2 word AND MASK_30);
               elementSize = listElementSize word;
               elementCount = listElementCount word;
               startWord = rp_pointerWord resolved + 1 + offsetWords
           in if elementSize = 7 then
                bindE (requireWordRange segs seg startWord 1 ''inline composite list tag'') (\<lambda>_.
                bindE (readWordAt segs seg startWord ''inline composite list tag'') (\<lambda>tag.
                if pointerKind tag \<noteq> 0
                then Inl (ProtocolError ''invalid inline composite list tag kind={}'' [pointerKind tag])
                else
                  let inlineElementCount = tagElementCount tag;
                      inlineDataWords = structDataWords tag;
                      inlinePointerCount = structPointerCount tag;
                      strideWords = inlineDataWords + inlinePointerCount;
                      requiredWords = strideWords * inlineElementCount
                  in if requiredWords > elementCount
                     then Inl (ProtocolError ''inline composite list payload exceeds declared word count'' [])
                     else
                  bindE (requireWordRange segs seg (startWord + 1) elementCount ''inline composite list payload'')
                    (\<lambda>_. Inr (if inlinePointerCount > 0
                       then concat (map (\<lambda>k. pointersFrom seg
                              (startWord + 1 + k * strideWords + inlineDataWords) inlinePointerCount nextDepth)
                              [0..inlineElementCount - 1])
                       else []))))
              else
                bindE (wordsForFlatList elementSize elementCount) (\<lambda>wordCount.
                bindE (requireWordRange segs seg startWord wordCount ''list pointer target'') (\<lambda>_.
                Inr (if elementSize = 6 then pointersFrom seg startWord elementCount nextDepth else [])))))"

text \<open>
  The loop, with the top of the stack at the head of the list. \<open>None\<close> is a loop that does not
  end; that it never is one is proved below.
\<close>

partial_function (option) walkPending ::
  "bytes list \<Rightarrow> int \<Rightarrow> PointerState list \<Rightarrow> int set \<Rightarrow> unit result option" where
  "walkPending segs maxDepth pending seen =
     (case pending of
        [] \<Rightarrow> Some (Inr ())
      | state # rest \<Rightarrow>
          if stateKey state \<in> seen then walkPending segs maxDepth rest seen
          else (case visitPointer segs maxDepth state of
                  Inl e \<Rightarrow> Some (Inl e)
                | Inr pushed \<Rightarrow> walkPending segs maxDepth (rev pushed @ rest) (insert (stateKey state) seen)))"

declare walkPending.simps [code]

definition enforceNestingDepth :: "bytes list \<Rightarrow> int \<Rightarrow> unit result" where
  "enforceNestingDepth segs maxDepth =
     (if segs = [] \<or> int (length (segs ! 0)) < WORD_BYTES then Inr ()
      else case walkPending segs maxDepth [\<lparr>ps_segmentId = 0, ps_pointerWord = 0, ps_depth = 1\<rparr>] {} of
             None \<Rightarrow> Inl Diverges
           | Some r \<Rightarrow> r)"

definition validateCapnpFrame :: "bytes \<Rightarrow> CapnpFrameLimitsOptions \<Rightarrow> unit result" where
  "validateCapnpFrame frame limits =
     bindE (parseFrame frame limits) (\<lambda>parsed.
     let maxNestingDepth = orDefault (lo_maxNestingDepth limits) DEFAULT_MAX_NESTING_DEPTH
     in bindE (enforceNestingDepth (pf_segments parsed) (toInt maxNestingDepth)) (\<lambda>_.
     let maxTraversalWords = orDefault (lo_maxTraversalWords limits) DEFAULT_MAX_TRAVERSAL_WORDS
     in if numLess maxTraversalWords (jint (pf_totalWords parsed))
        then Inl (ProtocolError ''capnp frame traversal words {} exceeds configured limit {}''
               [pf_totalWords parsed, toInt maxTraversalWords])
        else Inr ()))"

section \<open>Readers and range checks\<close>

lemma requireWordRange_Inr:
  "requireWordRange segs s start n ctx = Inr u \<longleftrightarrow> wordsFit segs s start n"
  by (auto simp: requireWordRange_def wordsFit_def split: option.splits)

lemma readWordAt_Inr: "readWordAt segs s i ctx = Inr w \<longleftrightarrow> wordAt segs s i = Some w"
proof (cases "segmentAt segs s")
  case None
  then show ?thesis by (simp add: readWordAt_def requireWordRange_def wordAt_def)
next
  case (Some seg)
  then show ?thesis
    by (auto simp: readWordAt_def requireWordRange_def wordAt_getBigUint64 [OF Some]
        getBigUint64_def bindE_eq_Inr getLE_eq_Inr)
qed

interpretation limits: word_source "\<lambda>segs. segs" readWordAt
  by unfold_locales (rule readWordAt_Inr)

lemma asSigned30_signed30: "asSigned30 raw = signed30 raw"
  unfolding asSigned30_def signed30_def Let_def and_exp_eq_0_iff_not_bit not_not ..

lemma asSigned30_offset: "asSigned30 (drop_bit 2 w AND MASK_30) = pointerOffset w"
  by (simp add: asSigned30_signed30 pointerOffset_def)

lemma wordsForFlatList_eq:
  "wordsForFlatList sz n =
     (if 0 \<le> sz \<and> sz \<le> 6 then Inr (flatListWords sz n)
      else Inl (ProtocolError ''invalid list pointer elementSize={}'' [sz]))"
proof -
  have "sz = 0 \<or> sz = 1 \<or> sz = 2 \<or> sz = 3 \<or> sz = 4 \<or> sz = 5 \<or> sz = 6" if "0 \<le> sz \<and> sz \<le> 6"
    using that by linarith
  then show ?thesis by (auto simp: wordsForFlatList_def flatListWords_def)
qed

lemma limits_readers_return [returning]:
  "returns (requireWordRange segs s start n ctx)" "returns (readWordAt segs s i ctx)"
  "returns (wordsForFlatList sz n)"
  by (auto simp: requireWordRange_def readWordAt_def wordsForFlatList_def undefinedRead_def
      intro!: returning)

lemma limitsResolveHops_returns [returning]: "returns (limitsResolveHops segs n s i w)"
proof (induction n arbitrary: s i w)
  case (Suc n)
  have "returns (limitsLandingPad segs a b)" for a b
    by (auto simp: limitsLandingPad_def intro!: returning)
  then show ?case using Suc by (auto intro!: returning)
qed simp

lemma limitsResolvePointer_returns [returning]: "returns (limitsResolvePointer segs s i)"
  by (auto simp: limitsResolvePointer_def intro!: returning)

section \<open>Resolution\<close>

text \<open>On chains of single-far pointers the resolver of this file is the specification.\<close>

lemma limitsResolveHops_follows:
  assumes "follows segs k s i s' p w" "wordAt segs s i = Some v" "k < n"
  shows "limitsResolveHops segs n s i v = Inr \<lparr>rp_segmentId = s', rp_pointerWord = p, rp_word = w\<rparr>"
  using assms
proof (induction arbitrary: n v rule: follows.induct)
  case (here s i w)
  then show ?case by (cases n) auto
next
  case (hop s i u k s' p w)
  then obtain m where n: "n = Suc m" "k < m" by (cases n) auto
  obtain x where x: "wordAt segs (farSegmentId u) (farPadWord u) = Some x"
    using hop.hyps(4) by (auto elim: followsE)
  then have "readWordAt segs (farSegmentId u) (farPadWord u) ctx = Inr x" for ctx
    by (simp add: readWordAt_Inr)
  then show ?case using hop n x by simp
qed

lemma limitsResolvePointer_follows:
  assumes "follows segs k s i s' p w" "k < POINTER_HOP_LIMIT"
  shows "limitsResolvePointer segs s i = Inr \<lparr>rp_segmentId = s', rp_pointerWord = p, rp_word = w\<rparr>"
proof -
  obtain v where v: "wordAt segs s i = Some v" using assms(1) by (auto elim: followsE)
  then have "readWordAt segs s i ctx = Inr v" for ctx by (simp add: readWordAt_Inr)
  then show ?thesis
    using limitsResolveHops_follows [OF assms(1) v assms(2)] by (simp add: limitsResolvePointer_def)
qed

text \<open>Both resolvers of the sources give the same answer there.\<close>

lemma resolvers_agree:
  assumes "follows (segments table) k s i s' p w" "k < FAR_POINTER_HOP_LIMIT"
  shows "resolvePointer table s i = limitsResolvePointer (segments table) s i"
proof -
  let ?r = "\<lparr>rp_segmentId = s', rp_pointerWord = p, rp_word = w\<rparr>"
  have "resolves (segments table) k s i (rp_segmentId ?r) (rp_pointerWord ?r) (rp_word ?r)"
    using follows_resolves [OF assms(1)] by simp
  then have "resolvePointer table s i = Inr ?r" unfolding resolvePointer_Inr using assms(2) by blast
  then show ?thesis
    using limitsResolvePointer_follows [OF assms(1)] assms(2)
    by (simp add: FAR_POINTER_HOP_LIMIT_def POINTER_HOP_LIMIT_def)
qed

section \<open>Parsing\<close>

lemma readWordCounts_length: "readWordCounts frame n i = Inr ws \<Longrightarrow> length ws = n"
  by (induction n arbitrary: i ws) (auto simp: bindE_eq_Inr)

lemma readWordCounts_range:
  "readWordCounts frame n i = Inr ws \<Longrightarrow> \<forall>w \<in> set ws. 0 \<le> w \<and> w < 2 ^ 32"
proof (induction n arbitrary: i ws)
  case (Suc n)
  then obtain w vs where "getUint32 frame (4 + i * 4) = Inr w" "readWordCounts frame n (i + 1) = Inr vs"
    "ws = w # vs" by (auto simp: bindE_eq_Inr)
  then show ?case using Suc.IH [of "i + 1" vs] getUint32_range by auto
qed simp

lemma readSegments_slices:
  assumes "readWordCounts frame n i = Inr ws" "cursor + sum_list ws * 8 \<le> int (length frame)"
  shows "readSegments frame n i cursor acc = Inr (acc @ sliceSegments frame cursor ws)"
  using assms
proof (induction n arbitrary: i ws cursor acc)
  case (Suc n)
  then obtain w vs where w: "getUint32 frame (4 + i * 4) = Inr w" and vs: "readWordCounts frame n (i + 1) = Inr vs"
    and ws: "ws = w # vs" by (auto simp: bindE_eq_Inr)
  have nn: "0 \<le> sum_list vs" using readWordCounts_range [OF vs] by (intro sum_list_nonneg) auto
  have tot: "cursor + w * 8 + sum_list vs * 8 \<le> int (length frame)"
    using Suc.prems(2) by (simp add: ws algebra_simps)
  then have "\<not> cursor + w * 8 > int (length frame)" using nn by linarith
  then show ?case using w Suc.IH [OF vs tot] by (simp add: ws Let_def)
qed auto

lemma sum_list_sliceSegments:
  assumes "0 \<le> cursor" "\<forall>w \<in> set ws. 0 \<le> w \<and> w < 2 ^ 32" "cursor + sum_list ws * 8 \<le> int (length frame)"
  shows "map (\<lambda>s. int (length s)) (sliceSegments frame cursor ws) = map (\<lambda>w. w * 8) ws \<and>
    (\<forall>s \<in> set (sliceSegments frame cursor ws). alignedSeg s)"
  using assms
proof (induction ws arbitrary: cursor)
  case (Cons w ws)
  have nn: "0 \<le> sum_list ws" using Cons.prems by (intro sum_list_nonneg) auto
  have tot: "cursor + w * 8 + sum_list ws * 8 \<le> int (length frame)"
    using Cons.prems(3) by (simp add: algebra_simps)
  have len: "length (subarray frame cursor (cursor + w * 8)) = nat (w * 8)"
    using Cons.prems(1,2) tot nn by (simp add: subarray_def min_def) linarith
  moreover have "alignedSeg (subarray frame cursor (cursor + w * 8))"
    using Cons.prems(2) len by (simp add: alignedSeg_def segWords_def nat_mult_distrib nat_less_iff)
  ultimately show ?case using Cons.IH [of "cursor + w * 8"] Cons.prems(1,2) tot by simp
qed simp

lemma headerBytes_headerLen:
  assumes "0 \<le> c"
  shows "(1 + (c + 1) + (if (c + 1) mod 2 = 0 then 1 else 0)) * 4 = int (headerLen (nat (c + 1)))"
proof -
  have "even (nat (c + 1)) \<longleftrightarrow> (c + 1) mod 2 = 0" using assms by (simp add: even_nat_iff) presburger
  then show ?thesis using assms by (simp add: headerLen_def)
qed

text \<open>What an accepted frame is, and that the other parser reads the same segments from it.\<close>

lemma parseFrame_InrE:
  assumes "parseFrame frame limits = Inr p"
  obtains c ws where "getUint32 frame 0 = Inr c" "readWordCounts frame (nat (c + 1)) 0 = Inr ws"
    "pf_totalWords p = sum_list ws"
    "pf_segments p = sliceSegments frame (int (headerLen (nat (c + 1)))) ws"
    "int (length frame) = int (headerLen (nat (c + 1))) + sum_list ws * 8"
    "\<not> numLess (orDefault (lo_maxSegmentCount limits) DEFAULT_MAX_SEGMENT_COUNT) (jint (c + 1))"
    "\<not> numLess (orDefault (lo_maxTraversalWords limits) DEFAULT_MAX_TRAVERSAL_WORDS) (jint (sum_list ws))"
    "\<not> numLess (orDefault (lo_maxFrameBytes limits) DEFAULT_MAX_FRAME_BYTES) (jint (int (length frame)))"
    "assertNonNegativeInteger (lo_maxNestingDepth limits) ''maxNestingDepth'' = Inr ()"
proof -
  from assms obtain c where c: "getUint32 frame 0 = Inr c"
    by (auto simp: parseFrame_def bindE_eq_Inr split: if_splits)
  have h: "(1 + (c + 1) + (if (c + 1) mod 2 = 0 then 1 else 0)) * 4 = int (headerLen (nat (c + 1)))"
    using getUint32_range [OF c] by (intro headerBytes_headerLen) simp
  from assms obtain ws where ws: "readWordCounts frame (nat (c + 1)) 0 = Inr ws"
    by (auto simp: parseFrame_def bindE_eq_Inr Let_def c split: if_splits)
  have "pf_totalWords p = sum_list ws \<and>
    pf_segments p = sliceSegments frame (int (headerLen (nat (c + 1)))) ws \<and>
    int (length frame) = int (headerLen (nat (c + 1))) + sum_list ws * 8 \<and>
    \<not> numLess (orDefault (lo_maxSegmentCount limits) DEFAULT_MAX_SEGMENT_COUNT) (jint (c + 1)) \<and>
    \<not> numLess (orDefault (lo_maxTraversalWords limits) DEFAULT_MAX_TRAVERSAL_WORDS) (jint (sum_list ws)) \<and>
    \<not> numLess (orDefault (lo_maxFrameBytes limits) DEFAULT_MAX_FRAME_BYTES) (jint (int (length frame))) \<and>
    assertNonNegativeInteger (lo_maxNestingDepth limits) ''maxNestingDepth'' = Inr ()"
    using assms unfolding parseFrame_def bindE_eq_Inr Let_def
    by (auto simp only: if_Inl_eq_Inr c ws h bindE_Inr bindE_eq_Inr sum.inject WORD_BYTES_def
        ParsedCapnpFrame.select_convs) auto
  with c ws that show thesis by blast
qed

lemma parseFrame_segments:
  assumes "parseFrame frame limits = Inr p"
  shows "segmentsFromFrame frame = Inr \<lparr>segments = pf_segments p\<rparr>"
    and "\<forall>s \<in> set (pf_segments p). alignedSeg s"
    and "pf_totalWords p = sum_list (map (\<lambda>s. int (segWords s)) (pf_segments p))"
    and "pf_segments p \<noteq> []"
proof -
  from parseFrame_InrE [OF assms] obtain c ws where c: "getUint32 frame 0 = Inr c"
    and ws: "readWordCounts frame (nat (c + 1)) 0 = Inr ws" and tot: "pf_totalWords p = sum_list ws"
    and segs: "pf_segments p = sliceSegments frame (int (headerLen (nat (c + 1)))) ws"
    and len: "int (length frame) = int (headerLen (nat (c + 1))) + sum_list ws * 8" by metis
  have c0: "0 \<le> c" using getUint32_range [OF c] by simp
  have rng: "\<forall>w \<in> set ws. 0 \<le> w \<and> w < 2 ^ 32" by (rule readWordCounts_range [OF ws])
  then have nn: "0 \<le> sum_list ws" by (intro sum_list_nonneg) auto
  have h: "ceilDiv ((1 + (c + 1)) * 4) 8 * 8 = int (headerLen (nat (c + 1)))"
    using headerLen_ceil [of "nat (c + 1)"] c0 by simp
  have long: "\<not> int (length frame) < 8" using len nn headerLen_ge [of "nat (c + 1)"] by linarith
  have "readSegments frame (nat (c + 1)) 0 (int (headerLen (nat (c + 1)))) [] = Inr ([] @ pf_segments p)"
    unfolding segs by (rule readSegments_slices [OF ws]) (use len in simp)
  then show "segmentsFromFrame frame = Inr \<lparr>segments = pf_segments p\<rparr>"
    using long len nn unfolding segmentsFromFrame_def Let_def by (simp add: c h [simplified])
  have sl: "map (\<lambda>s. int (length s)) (pf_segments p) = map (\<lambda>w. w * 8) ws \<and>
      (\<forall>s \<in> set (pf_segments p). alignedSeg s)"
    unfolding segs by (rule sum_list_sliceSegments) (use rng len in auto)
  then show "\<forall>s \<in> set (pf_segments p). alignedSeg s" by blast
  have "map (\<lambda>s. int (segWords s)) (pf_segments p) = map (\<lambda>n. n div 8) (map (\<lambda>s. int (length s)) (pf_segments p))"
    by (simp add: segWords_def of_nat_div)
  also have "\<dots> = ws" using sl by (simp add: map_idI)
  finally show "pf_totalWords p = sum_list (map (\<lambda>s. int (segWords s)) (pf_segments p))"
    by (simp add: tot)
  have "length (pf_segments p) = length ws" using sl by (metis length_map)
  then show "pf_segments p \<noteq> []" using readWordCounts_length [OF ws] c0 by auto
qed

lemma readWordCounts_layout:
  assumes "\<And>k. k < length segs \<Longrightarrow> getUint32 frame (4 + (i + int k) * 4) = Inr (int (segWords (segs ! k)))"
  shows "readWordCounts frame (length segs) i = Inr (map (\<lambda>s. int (segWords s)) segs)"
  using assms
proof (induction segs arbitrary: i)
  case (Cons s segs)
  have "getUint32 frame (4 + i * 4) = Inr (int (segWords s))" using Cons.prems [of 0] by simp
  moreover have "readWordCounts frame (length segs) (i + 1) = Inr (map (\<lambda>s. int (segWords s)) segs)"
  proof (rule Cons.IH)
    show "getUint32 frame (4 + (i + 1 + int k) * 4) = Inr (int (segWords (segs ! k)))" if "k < length segs" for k
      using Cons.prems [of "Suc k"] that by (simp add: algebra_simps)
  qed
  ultimately show ?case by simp
qed simp

lemma sum_segWords:
  "\<forall>s \<in> set segs. alignedSeg s \<Longrightarrow> sum_list (map (\<lambda>s. int (segWords s)) segs) * 8 = int (length (concat segs))"
  by (induction segs) (auto simp: alignedSeg_length algebra_simps)

definition withinLimits :: "CapnpFrameLimitsOptions \<Rightarrow> bytes list \<Rightarrow> bool" where
  "withinLimits limits segs \<longleftrightarrow>
     (\<forall>opt \<in> {lo_maxSegmentCount limits, lo_maxFrameBytes limits, lo_maxTraversalWords limits,
              lo_maxNestingDepth limits}. assertNonNegativeInteger opt ''x'' = Inr ()) \<and>
     \<not> numLess (orDefault (lo_maxSegmentCount limits) DEFAULT_MAX_SEGMENT_COUNT) (jint (int (length segs))) \<and>
     \<not> numLess (orDefault (lo_maxTraversalWords limits) DEFAULT_MAX_TRAVERSAL_WORDS)
         (jint (sum_list (map (\<lambda>s. int (segWords s)) segs))) \<and>
     \<not> numLess (orDefault (lo_maxFrameBytes limits) DEFAULT_MAX_FRAME_BYTES) (jint (int (length (frameOf segs))))"

lemma assertNonNegativeInteger_name:
  "assertNonNegativeInteger v a = Inr u \<longleftrightarrow> assertNonNegativeInteger v b = Inr u"
  by (auto simp: assertNonNegativeInteger_def split: option.splits)

lemma sliceSegments_layout:
  assumes "\<forall>s \<in> set segs. alignedSeg s" "0 \<le> cursor" "drop (nat cursor) frame = concat segs"
  shows "sliceSegments frame cursor (map (\<lambda>s. int (segWords s)) segs) = segs"
  using assms
proof (induction segs arbitrary: cursor)
  case (Cons s segs)
  have len: "length s = 8 * segWords s" using Cons.prems(1) by (simp add: alignedSeg_length)
  have sub: "subarray frame cursor (cursor + int (segWords s) * 8) = s"
    using Cons.prems len by (simp add: subarray_def nat_mult_distrib)
  have nc: "nat (cursor + int (segWords s) * 8) = nat cursor + length s"
    using Cons.prems(2) len by (simp add: nat_add_distrib nat_mult_distrib)
  have "drop (nat cursor + length s) frame = drop (length s) (drop (nat cursor) frame)"
    by (simp add: add.commute)
  then have "drop (nat (cursor + int (segWords s) * 8)) frame = concat segs"
    by (simp add: nc Cons.prems(3))
  then show ?case using Cons sub by simp
qed simp

lemma parseFrame_frameOf:
  assumes "wfSegs segs" "withinLimits limits segs"
  shows "parseFrame (frameOf segs) limits =
    Inr \<lparr>pf_segments = segs, pf_totalWords = sum_list (map (\<lambda>s. int (segWords s)) segs)\<rparr>"
proof -
  let ?f = "frameOf segs" and ?ws = "map segWords segs" and ?n = "int (length segs)"
  have ne: "segs \<noteq> []" and le: "length segs \<le> 2 ^ 32" and al: "\<forall>s \<in> set segs. alignedSeg s"
    using assms(1) by (auto simp: wfSegs_def)
  have as: "assertNonNegativeInteger (lo_maxSegmentCount limits) nm = Inr ()"
    "assertNonNegativeInteger (lo_maxFrameBytes limits) nm = Inr ()"
    "assertNonNegativeInteger (lo_maxTraversalWords limits) nm = Inr ()"
    "assertNonNegativeInteger (lo_maxNestingDepth limits) nm = Inr ()" for nm
    using assms(2) assertNonNegativeInteger_name [of _ nm "()" "''x''"] by (auto simp: withinLimits_def)
  have cnt: "getUint32 ?f 0 = Inr (?n - 1)"
    unfolding frameOf_def using frame_count [of ?ws "concat segs"] ne le by simp
  have h: "(1 + ?n + (if ?n mod 2 = 0 then 1 else 0)) * 4 = int (headerLen (length segs))"
  proof -
    have "0 \<le> ?n - 1" using ne by (cases segs) auto
    from headerBytes_headerLen [OF this] show ?thesis by (simp only: diff_add_cancel nat_int)
  qed
  have rc: "readWordCounts ?f (length segs) 0 = Inr (map (\<lambda>s. int (segWords s)) segs)"
  proof (rule readWordCounts_layout)
    show "getUint32 ?f (4 + (0 + int k) * 4) = Inr (int (segWords (segs ! k)))" if "k < length segs" for k
      unfolding frameOf_def using frame_size_entry [of k ?ws] that al by (simp add: alignedSeg_def)
  qed
  have flen: "length ?f = headerLen (length segs) + length (concat segs)" by (simp add: frameOf_def)
  have sl: "sliceSegments ?f (int (headerLen (length segs))) (map (\<lambda>s. int (segWords s)) segs) = segs"
    by (rule sliceSegments_layout [OF al]) (simp_all add: frameOf_def)
  have sums: "sum_list (map (\<lambda>s. int (segWords s)) segs) * 8 = int (length (concat segs))"
    by (rule sum_segWords [OF al])
  have long: "\<not> int (length ?f) < 4" using flen headerLen_ge [of "length segs"] by linarith
  have lim: "\<not> numLess (orDefault (lo_maxSegmentCount limits) DEFAULT_MAX_SEGMENT_COUNT) (jint ?n)"
    "\<not> numLess (orDefault (lo_maxTraversalWords limits) DEFAULT_MAX_TRAVERSAL_WORDS)
       (jint (sum_list (map (\<lambda>s. int (segWords s)) segs)))"
    "\<not> numLess (orDefault (lo_maxFrameBytes limits) DEFAULT_MAX_FRAME_BYTES) (jint (int (length ?f)))"
    using assms(2) by (simp_all add: withinLimits_def)
  have n: "?n - 1 + 1 = ?n" "nat ?n = length segs" by simp_all
  have fl: "int (headerLen (length segs)) + int (length (concat segs)) = int (length ?f)"
    "\<not> int (length ?f) < int (headerLen (length segs))" using flen by simp_all
  show ?thesis
    unfolding parseFrame_def Let_def WORD_BYTES_def
    by (simp only: long if_False as bindE_Inr cnt n lim h rc sums fl sl less_irrefl)
qed

end
