(* ===== verification/Frame_Walk.thy ===== *)
theory Frame_Walk
  imports Frame_Limits
begin

unbundle bit_operations_syntax

text \<open>
  The pointer walk of \<open>frame_limits.ts\<close>: it always ends, and a frame it accepts has no pointer
  below the configured depth, none that leads outside its segment and none of an invalid kind,
  among the pointers that can be reached from the root over direct and single-far pointers.
  The argument needs the key of a state to determine it, which holds for depths below 256.
\<close>

section \<open>States and keys\<close>

text \<open>The states the walk can meet: a word of a segment, at a depth up to one past the limit.\<close>

definition walkStates :: "bytes list \<Rightarrow> int \<Rightarrow> PointerState set" where
  "walkStates segs maxDepth =
     {st. (\<exists>seg. segmentAt segs (ps_segmentId st) = Some seg \<and> 0 \<le> ps_pointerWord st \<and>
             ps_pointerWord st * 8 + 8 \<le> int (length seg)) \<and>
          1 \<le> ps_depth st \<and> (ps_depth st = 1 \<or> ps_depth st \<le> maxDepth + 1)}"

lemma walkStates_finite: "finite (walkStates segs maxDepth)"
proof -
  let ?L = "Max (insert 0 (length ` set segs))"
  let ?mk = "\<lambda>(s, p, d). \<lparr>ps_segmentId = s, ps_pointerWord = p, ps_depth = d\<rparr>"
  have "walkStates segs maxDepth \<subseteq>
      ?mk ` ({0..int (length segs)} \<times> {0..int ?L} \<times> {1..max 1 (maxDepth + 1)})"
  proof
    fix st assume "st \<in> walkStates segs maxDepth"
    then obtain seg where seg: "segmentAt segs (ps_segmentId st) = Some seg"
      and p: "0 \<le> ps_pointerWord st" "ps_pointerWord st * 8 + 8 \<le> int (length seg)"
      and d: "1 \<le> ps_depth st" "ps_depth st \<le> max 1 (maxDepth + 1)"
      by (auto simp: walkStates_def)
    have "seg \<in> set segs" using seg by (auto simp: segmentAt_Some)
    then have "length seg \<le> ?L" by (intro Max_ge) auto
    then have "ps_pointerWord st \<le> int ?L" using p by linarith
    moreover have "0 \<le> ps_segmentId st" "ps_segmentId st \<le> int (length segs)"
      using seg by (auto simp: segmentAt_Some)
    ultimately show "st \<in> ?mk ` ({0..int (length segs)} \<times> {0..int ?L} \<times> {1..max 1 (maxDepth + 1)})"
      using p d by (intro image_eqI [of _ _ "(ps_segmentId st, ps_pointerWord st, ps_depth st)"]) auto
  qed
  then show ?thesis by (rule finite_subset) auto
qed

lemma stateKey_fields:
  assumes "0 \<le> ps_pointerWord st" "ps_pointerWord st < 2 ^ 32" "0 \<le> ps_depth st" "ps_depth st < 2 ^ 8"
  shows "drop_bit 40 (stateKey st) = ps_segmentId st"
    "take_bit 32 (drop_bit 8 (stateKey st)) = ps_pointerWord st"
    "take_bit 8 (stateKey st) = ps_depth st"
proof -
  let ?p = "ps_pointerWord st" and ?d = "ps_depth st"
  have p: "take_bit 32 ?p = ?p" and d: "take_bit 8 ?d = ?d"
    using assms by (simp_all add: take_bit_int_eq_self)
  have pb: "bit ?p k \<Longrightarrow> k < 32" for k by (metis bit_take_bit_iff p)
  have db: "bit ?d k \<Longrightarrow> k < 8" for k by (metis bit_take_bit_iff d)
  note ws = stateKey_def bit_simps
  show "drop_bit 40 (stateKey st) = ps_segmentId st"
    by (rule bit_eqI) (auto simp: ws dest: pb db)
  show "take_bit 32 (drop_bit 8 (stateKey st)) = ?p"
    by (rule bit_eqI) (auto simp: ws dest: pb db)
  show "take_bit 8 (stateKey st) = ?d"
    by (rule bit_eqI) (auto simp: ws dest: pb db)
qed

lemma stateKey_inj:
  assumes "\<forall>s \<in> set segs. length s div 8 \<le> 2 ^ 32" "maxDepth < 255"
  shows "inj_on stateKey (walkStates segs maxDepth)"
proof (rule inj_onI)
  fix a b assume a: "a \<in> walkStates segs maxDepth" and b: "b \<in> walkStates segs maxDepth"
    and eq: "stateKey a = stateKey b"
  have bnd: "0 \<le> ps_pointerWord st" "ps_pointerWord st < 2 ^ 32" "0 \<le> ps_depth st" "ps_depth st < 2 ^ 8"
    if st: "st \<in> walkStates segs maxDepth" for st
  proof -
    from st obtain seg where seg: "segmentAt segs (ps_segmentId st) = Some seg"
      and p: "ps_pointerWord st * 8 + 8 \<le> int (length seg)" by (auto simp: walkStates_def)
    have "seg \<in> set segs" using seg by (auto simp: segmentAt_Some)
    then have "int (length seg) div 8 \<le> 2 ^ 32" using assms(1) by (simp flip: of_nat_div) force
    moreover have "ps_pointerWord st + 1 \<le> int (length seg) div 8" using p by linarith
    ultimately show "ps_pointerWord st < 2 ^ 32" by linarith
  qed (use st assms(2) in \<open>auto simp: walkStates_def\<close>)
  have "ps_segmentId a = ps_segmentId b" "ps_pointerWord a = ps_pointerWord b" "ps_depth a = ps_depth b"
    using stateKey_fields [OF bnd [OF a]] stateKey_fields [OF bnd [OF b]] eq by simp_all
  then show "a = b" by simp
qed

section \<open>What a visit pushes\<close>

lemma set_pointersFrom:
  "set (pointersFrom s first n d) =
     {st. ps_segmentId st = s \<and> ps_depth st = d \<and> first \<le> ps_pointerWord st \<and> ps_pointerWord st < first + n}"
proof -
  have "st \<in> set (pointersFrom s first n d)"
    if "ps_segmentId st = s" "ps_depth st = d" "first \<le> ps_pointerWord st" "ps_pointerWord st < first + n" for st
    unfolding pointersFrom_def set_map
    by (rule image_eqI [of _ _ "ps_pointerWord st - first"]) (use that in auto)
  then show ?thesis by (auto simp: pointersFrom_def)
qed

lemma composite_slot_bound:
  assumes "(k::int) < n" "0 \<le> k" "0 \<le> d" "0 \<le> j" "j < p" "(d + p) * n \<le> tot"
  shows "k * (d + p) + d + j + 1 \<le> tot"
proof -
  have "(k + 1) * (d + p) \<le> n * (d + p)" using assms by (intro mult_right_mono) auto
  then show ?thesis using assms by (simp add: algebra_simps)
qed

text \<open>A successful visit: the pointer resolved, its target fits and its slots are pushed.\<close>

lemma visitPointer_Inr:
  assumes "visitPointer segs maxDepth st = Inr pushed"
  obtains r where "limitsResolvePointer segs (ps_segmentId st) (ps_pointerWord st) = Inr r"
    "rp_word r = 0 \<or> ps_depth st \<le> maxDepth \<and> targetFits segs (rp_segmentId r) (rp_pointerWord r) (rp_word r)"
    "set pushed = {q. ps_segmentId q = rp_segmentId r \<and> ps_depth q = ps_depth st + 1 \<and>
       ps_pointerWord q \<in> targetSlots segs (rp_segmentId r) (rp_pointerWord r) (rp_word r)}"
proof -
  from assms obtain r where r: "limitsResolvePointer segs (ps_segmentId st) (ps_pointerWord st) = Inr r"
    by (auto simp: visitPointer_def bindE_eq_Inr)
  let ?w = "rp_word r" and ?s = "rp_segmentId r" and ?d = "ps_depth st + 1"
  let ?start = "rp_pointerWord r + 1 + pointerOffset ?w"
  let ?slots = "targetSlots segs ?s (rp_pointerWord r) ?w"
  let ?Q = "{q :: PointerState. ps_segmentId q = ?s \<and> ps_depth q = ?d \<and> ps_pointerWord q \<in> ?slots}"
  have "(?w = 0 \<or> ps_depth st \<le> maxDepth \<and> targetFits segs ?s (rp_pointerWord r) ?w) \<and> set pushed = ?Q"
  proof (cases "?w = 0 \<or> pointerKind ?w \<noteq> 1 \<or> listElementSize ?w \<noteq> 7")
    case True
    have sz: "0 \<le> listElementSize ?w" "listElementSize ?w < 8" by (simp_all add: listElementSize_bound)
    show ?thesis
      using assms True r sz unfolding visitPointer_def
      by (auto simp: Let_def bindE_eq_Inr asSigned30_offset requireWordRange_Inr wordsForFlatList_eq
          targetFits_def targetSlots_def set_pointersFrom split: if_splits)
  next
    case False
    then have w: "?w \<noteq> 0" "pointerKind ?w = 1" "listElementSize ?w = 7" by auto
    from assms w r obtain tag where tag: "wordAt segs ?s ?start = Some tag" "pointerKind tag = 0"
      and fit: "(structDataWords tag + structPointerCount tag) * tagElementCount tag \<le> listElementCount ?w"
      "wordsFit segs ?s (?start + 1) (listElementCount ?w)" "ps_depth st \<le> maxDepth"
      and pushed: "pushed = (if structPointerCount tag > 0
        then concat (map (\<lambda>k. pointersFrom ?s
            (?start + 1 + k * (structDataWords tag + structPointerCount tag) + structDataWords tag)
            (structPointerCount tag) ?d) [0..tagElementCount tag - 1]) else [])"
      unfolding visitPointer_def
      by (auto simp: Let_def bindE_eq_Inr asSigned30_offset requireWordRange_Inr readWordAt_Inr split: if_splits)
    have "set pushed = ?Q"
    proof (intro set_eqI iffI)
      fix q assume "q \<in> set pushed"
      then obtain k where k: "0 \<le> k" "k < tagElementCount tag"
        and q: "q \<in> set (pointersFrom ?s
            (?start + 1 + k * (structDataWords tag + structPointerCount tag) + structDataWords tag)
            (structPointerCount tag) ?d)"
        by (auto simp: pushed split: if_splits)
      let ?j = "ps_pointerWord q -
        (?start + 1 + k * (structDataWords tag + structPointerCount tag) + structDataWords tag)"
      have "0 \<le> ?j" "?j < structPointerCount tag" using q by (auto simp: set_pointersFrom)
      then have "\<exists>k j. ps_pointerWord q =
          ?start + 1 + k * (structDataWords tag + structPointerCount tag) + structDataWords tag + j \<and>
          0 \<le> k \<and> k < tagElementCount tag \<and> 0 \<le> j \<and> j < structPointerCount tag"
        using k by (intro exI [of _ k] exI [of _ ?j]) simp
      then have "ps_pointerWord q \<in> ?slots" by (simp add: targetSlots_def w tag)
      then show "q \<in> ?Q" using q by (simp add: set_pointersFrom)
    next
      fix q assume "q \<in> ?Q"
      then obtain k j where kj: "0 \<le> k" "k < tagElementCount tag" "0 \<le> j" "j < structPointerCount tag"
        and q: "ps_segmentId q = ?s" "ps_depth q = ?d" "ps_pointerWord q =
          ?start + 1 + k * (structDataWords tag + structPointerCount tag) + structDataWords tag + j"
        using w tag by (auto simp: targetSlots_def)
      have "q \<in> set (pointersFrom ?s
            (?start + 1 + k * (structDataWords tag + structPointerCount tag) + structDataWords tag)
            (structPointerCount tag) ?d)"
        using kj q by (simp add: set_pointersFrom)
      moreover have "k \<in> set [0..tagElementCount tag - 1]" using kj by simp
      ultimately show "q \<in> set pushed" using kj by (auto simp: pushed)
    qed
    moreover have "targetFits segs ?s (rp_pointerWord r) ?w"
      using w tag fit by (simp add: targetFits_def)
    ultimately show ?thesis using fit by blast
  qed
  with r that show thesis by blast
qed

lemma targetSlots_in_segment:
  assumes "targetFits segs s p w" "q \<in> targetSlots segs s p w"
  shows "\<exists>seg. segmentAt segs s = Some seg \<and> 0 \<le> q \<and> q * 8 + 8 \<le> int (length seg)"
proof (cases "pointerKind w = 1 \<and> listElementSize w = 7")
  case True
  let ?start = "p + 1 + pointerOffset w"
  from assms True obtain tag k j where tag: "wordAt segs s ?start = Some tag"
    and fits: "wordsFit segs s (?start + 1) (listElementCount w)"
    and le: "(structDataWords tag + structPointerCount tag) * tagElementCount tag \<le> listElementCount w"
    and kj: "0 \<le> k" "k < tagElementCount tag" "0 \<le> j" "j < structPointerCount tag"
    and q: "q = ?start + 1 + k * (structDataWords tag + structPointerCount tag) + structDataWords tag + j"
    by (auto simp: targetFits_def targetSlots_def Let_def split: if_splits option.splits)
  let ?m = "k * (structDataWords tag + structPointerCount tag) + structDataWords tag + j"
  have "?m + 1 \<le> listElementCount w"
    using composite_slot_bound [OF kj(2,1) _ kj(3,4) le] by simp
  moreover have "0 \<le> ?m" using kj by simp
  moreover have "q = ?start + 1 + ?m" by (simp add: q)
  ultimately show ?thesis using fits unfolding wordsFit_def by (elim exE conjE) (intro exI conjI, auto)
next
  case False
  then show ?thesis using assms
    by (auto simp: targetFits_def targetSlots_def wordsFit_def flatListWords_def Let_def split: if_splits)
      (use uint_field_nonneg(4) [of w] in linarith)
qed

lemma visitPointer_states:
  assumes "visitPointer segs maxDepth st = Inr pushed" "st \<in> walkStates segs maxDepth"
  shows "set pushed \<subseteq> walkStates segs maxDepth"
proof
  fix q assume q: "q \<in> set pushed"
  from assms(1) obtain r where "limitsResolvePointer segs (ps_segmentId st) (ps_pointerWord st) = Inr r"
    and fit: "rp_word r = 0 \<or> ps_depth st \<le> maxDepth \<and>
      targetFits segs (rp_segmentId r) (rp_pointerWord r) (rp_word r)"
    and set: "set pushed = {q. ps_segmentId q = rp_segmentId r \<and> ps_depth q = ps_depth st + 1 \<and>
       ps_pointerWord q \<in> targetSlots segs (rp_segmentId r) (rp_pointerWord r) (rp_word r)}"
    by (rule visitPointer_Inr)
  have slot: "ps_pointerWord q \<in> targetSlots segs (rp_segmentId r) (rp_pointerWord r) (rp_word r)"
    and s: "ps_segmentId q = rp_segmentId r" and d: "ps_depth q = ps_depth st + 1"
    using q set by auto
  have "rp_word r \<noteq> 0" using slot by (auto simp: targetSlots_def)
  with fit have le: "ps_depth st \<le> maxDepth"
    and tf: "targetFits segs (rp_segmentId r) (rp_pointerWord r) (rp_word r)" by auto
  have "1 \<le> ps_depth st" using assms(2) by (simp add: walkStates_def)
  then show "q \<in> walkStates segs maxDepth"
    using targetSlots_in_segment [OF tf slot] le d s by (simp add: walkStates_def)
qed

section \<open>The walk ends, and what it has seen\<close>

text \<open>The states of \<open>V\<close> were visited with success and all they pushed has a key in \<open>K\<close>.\<close>

definition visited :: "bytes list \<Rightarrow> int \<Rightarrow> PointerState set \<Rightarrow> int set \<Rightarrow> bool" where
  "visited segs maxDepth V K \<longleftrightarrow>
     (\<forall>st \<in> V. \<exists>pushed. visitPointer segs maxDepth st = Inr pushed \<and> stateKey ` set pushed \<subseteq> K)"

definition walkOutcome ::
  "bytes list \<Rightarrow> int \<Rightarrow> PointerState list \<Rightarrow> int set \<Rightarrow> unit result option \<Rightarrow> bool" where
  "walkOutcome segs maxDepth pending seen out \<longleftrightarrow>
     (\<exists>r. out = Some r \<and> returns r \<and>
       (r = Inr () \<longrightarrow> (\<exists>V \<subseteq> walkStates segs maxDepth.
          stateKey ` set pending \<subseteq> seen \<union> stateKey ` V \<and> visited segs maxDepth V (seen \<union> stateKey ` V))))"

lemma walkOutcome_Nil: "walkOutcome segs maxDepth [] seen (Some (Inr ()))"
  by (auto simp: walkOutcome_def visited_def)

lemma walkOutcome_skip:
  "stateKey st \<in> seen \<Longrightarrow> walkOutcome segs maxDepth rest seen out \<Longrightarrow>
   walkOutcome segs maxDepth (st # rest) seen out"
  by (simp add: walkOutcome_def)

lemma walkOutcome_error: "e \<noteq> Diverges \<Longrightarrow> walkOutcome segs maxDepth pending seen (Some (Inl e))"
  by (simp add: walkOutcome_def returns_def)

lemma walkOutcome_visit:
  assumes "walkOutcome segs maxDepth (rev pushed @ rest) (insert (stateKey st) seen) out"
    and "visitPointer segs maxDepth st = Inr pushed" "st \<in> walkStates segs maxDepth"
  shows "walkOutcome segs maxDepth (st # rest) seen out"
proof -
  from assms(1) obtain r where out: "out = Some r" "returns r"
    and ok: "r = Inr () \<longrightarrow> (\<exists>V \<subseteq> walkStates segs maxDepth.
      stateKey ` set (rev pushed @ rest) \<subseteq> insert (stateKey st) seen \<union> stateKey ` V \<and>
      visited segs maxDepth V (insert (stateKey st) seen \<union> stateKey ` V))"
    by (auto simp: walkOutcome_def)
  have "\<exists>V \<subseteq> walkStates segs maxDepth. stateKey ` set (st # rest) \<subseteq> seen \<union> stateKey ` V \<and>
      visited segs maxDepth V (seen \<union> stateKey ` V)" if "r = Inr ()"
  proof -
    from ok that obtain V where V: "V \<subseteq> walkStates segs maxDepth"
      and keys: "stateKey ` set (rev pushed @ rest) \<subseteq> insert (stateKey st) seen \<union> stateKey ` V"
      and vis: "visited segs maxDepth V (insert (stateKey st) seen \<union> stateKey ` V)" by blast
    have eqs: "insert (stateKey st) seen \<union> stateKey ` V = seen \<union> stateKey ` insert st V" by auto
    have "visited segs maxDepth (insert st V) (seen \<union> stateKey ` insert st V)"
      using vis keys assms(2) unfolding eqs by (auto simp: visited_def)
    moreover have "stateKey ` set (st # rest) \<subseteq> seen \<union> stateKey ` insert st V"
      using keys by auto
    ultimately show ?thesis using V assms(3) by (intro exI [of _ "insert st V"]) auto
  qed
  then show ?thesis using out by (simp add: walkOutcome_def)
qed

lemma visitPointer_returns [returning]: "returns (visitPointer segs maxDepth st)"
  by (simp add: visitPointer_def Let_def) (intro returning; simp)

lemma walkPending_outcome:
  assumes "set pending \<subseteq> walkStates segs maxDepth" "seen \<subseteq> stateKey ` walkStates segs maxDepth"
  shows "walkOutcome segs maxDepth pending seen (walkPending segs maxDepth pending seen)"
  using assms
proof (induction "card (stateKey ` walkStates segs maxDepth - seen)" arbitrary: pending seen rule: less_induct)
  case less
  note outer = less.hyps
  let ?W = "walkStates segs maxDepth"
  from less.prems show ?case
  proof (induction pending)
    case Nil
    show ?case by (subst walkPending.simps) (simp add: walkOutcome_Nil)
  next
    case (Cons st rest)
    have st: "st \<in> ?W" and rest: "set rest \<subseteq> ?W" using Cons.prems by auto
    show ?case
    proof (cases "stateKey st \<in> seen")
      case True
      then show ?thesis using Cons.IH [OF rest Cons.prems(2)]
        by (subst walkPending.simps) (simp add: walkOutcome_skip)
    next
      case False
      show ?thesis
      proof (cases "visitPointer segs maxDepth st")
        case (Inl e)
        then have "e \<noteq> Diverges" using visitPointer_returns [of segs maxDepth st]
          by (simp add: returns_def)
        then show ?thesis using False Inl by (subst walkPending.simps) (simp add: walkOutcome_error)
      next
        case (Inr pushed)
        let ?seen = "insert (stateKey st) seen" and ?p = "rev pushed @ rest"
        have "stateKey ` ?W - ?seen \<subset> stateKey ` ?W - seen" using st False by blast
        then have "card (stateKey ` ?W - ?seen) < card (stateKey ` ?W - seen)"
          by (intro psubset_card_mono) (simp_all add: walkStates_finite)
        moreover have "set ?p \<subseteq> ?W" using rest visitPointer_states [OF Inr st] by auto
        moreover have "?seen \<subseteq> stateKey ` ?W" using Cons.prems(2) st by blast
        ultimately have "walkOutcome segs maxDepth ?p ?seen (walkPending segs maxDepth ?p ?seen)"
          by (rule outer)
        then have "walkOutcome segs maxDepth (st # rest) seen (walkPending segs maxDepth ?p ?seen)"
          by (rule walkOutcome_visit [OF _ Inr st])
        then show ?thesis using False Inr by (subst walkPending.simps) simp
      qed
    qed
  qed
qed

lemma rootState:
  assumes "segs \<noteq> []" "\<not> int (length (segs ! 0)) < 8"
  shows "\<lparr>ps_segmentId = 0, ps_pointerWord = 0, ps_depth = 1\<rparr> \<in> walkStates segs maxDepth"
  using assms by (auto simp: walkStates_def segmentAt_def)

lemma enforceNestingDepth_outcome:
  assumes "segs \<noteq> []" "\<not> int (length (segs ! 0)) < 8"
  shows "walkOutcome segs maxDepth [\<lparr>ps_segmentId = 0, ps_pointerWord = 0, ps_depth = 1\<rparr>] {}
    (Some (enforceNestingDepth segs maxDepth))"
proof -
  let ?root = "\<lparr>ps_segmentId = 0, ps_pointerWord = 0, ps_depth = 1\<rparr>"
  have o: "walkOutcome segs maxDepth [?root] {} (walkPending segs maxDepth [?root] {})"
    by (rule walkPending_outcome) (simp_all add: rootState [OF assms])
  then obtain r where "walkPending segs maxDepth [?root] {} = Some r" by (auto simp: walkOutcome_def)
  then show ?thesis using o assms by (simp add: enforceNestingDepth_def)
qed

lemma enforceNestingDepth_returns [returning]: "returns (enforceNestingDepth segs maxDepth)"
proof (cases "segs = [] \<or> int (length (segs ! 0)) < 8")
  case True
  then show ?thesis by (auto simp: enforceNestingDepth_def)
next
  case False
  then show ?thesis using enforceNestingDepth_outcome [of segs maxDepth]
    by (auto simp: walkOutcome_def)
qed

section \<open>What an accepted frame guarantees\<close>

text \<open>
  The pointers that can be reached from the root over direct and single-far pointers, with their
  depth; the walk of the sources gives up on a chain of eight or more far pointers.
\<close>

inductive reachable :: "bytes list \<Rightarrow> int \<Rightarrow> int \<Rightarrow> int \<Rightarrow> bool" for segs where
  root: "reachable segs 0 0 1"
| slot: "reachable segs s i d \<Longrightarrow> follows segs n s i s' p w \<Longrightarrow> n < 8 \<Longrightarrow>
    q \<in> targetSlots segs s' p w \<Longrightarrow> reachable segs s' q (d + 1)"

lemma enforceNestingDepth_reachable:
  assumes ok: "enforceNestingDepth segs maxDepth = Inr ()" and ne: "segs \<noteq> []" "\<not> int (length (segs ! 0)) < 8"
    and small: "\<forall>s \<in> set segs. length s div 8 \<le> 2 ^ 32" "maxDepth < 255"
    and reach: "reachable segs s i d"
  shows "\<exists>pushed. \<lparr>ps_segmentId = s, ps_pointerWord = i, ps_depth = d\<rparr> \<in> walkStates segs maxDepth \<and>
    visitPointer segs maxDepth \<lparr>ps_segmentId = s, ps_pointerWord = i, ps_depth = d\<rparr> = Inr pushed"
proof -
  let ?W = "walkStates segs maxDepth"
  let ?mk = "\<lambda>s i d. \<lparr>ps_segmentId = s, ps_pointerWord = i, ps_depth = d\<rparr>"
  from enforceNestingDepth_outcome [OF ne, of maxDepth] ok
  obtain V where V: "V \<subseteq> ?W" and rootK: "stateKey (?mk 0 0 1) \<in> stateKey ` V"
    and vis: "visited segs maxDepth V (stateKey ` V)"
    by (auto simp: walkOutcome_def)
  note inj = stateKey_inj [OF small]
  have mem: "st \<in> V" if "st \<in> ?W" "stateKey st \<in> stateKey ` V" for st
    using that V inj by (auto dest: inj_onD)
  have "?mk s i d \<in> V" using reach
  proof (induction rule: reachable.induct)
    case root
    show ?case by (rule mem [OF rootState [OF ne] rootK])
  next
    case (slot s i d n s' p w q)
    from vis slot.IH obtain pushed where v: "visitPointer segs maxDepth (?mk s i d) = Inr pushed"
      and keys: "stateKey ` set pushed \<subseteq> stateKey ` V" by (auto simp: visited_def)
    have res: "limitsResolvePointer segs s i = Inr \<lparr>rp_segmentId = s', rp_pointerWord = p, rp_word = w\<rparr>"
      using limitsResolvePointer_follows [OF slot.hyps(2)] slot.hyps(3) by (simp add: POINTER_HOP_LIMIT_def)
    from v obtain r where r: "limitsResolvePointer segs (ps_segmentId (?mk s i d)) (ps_pointerWord (?mk s i d)) = Inr r"
      and set: "set pushed = {t. ps_segmentId t = rp_segmentId r \<and> ps_depth t = ps_depth (?mk s i d) + 1 \<and>
        ps_pointerWord t \<in> targetSlots segs (rp_segmentId r) (rp_pointerWord r) (rp_word r)}"
      by (rule visitPointer_Inr)
    have "?mk s' q (d + 1) \<in> set pushed" using r res set slot.hyps(4) by auto
    moreover have "set pushed \<subseteq> ?W" using visitPointer_states [OF v] slot.IH V by blast
    ultimately show ?case using keys mem by blast
  qed
  then show ?thesis using V vis by (auto simp: visited_def)
qed

lemma enforceNestingDepth_sound:
  assumes ok: "enforceNestingDepth segs maxDepth = Inr ()" and ne: "segs \<noteq> []" "\<not> int (length (segs ! 0)) < 8"
    and small: "\<forall>s \<in> set segs. length s div 8 \<le> 2 ^ 32" "maxDepth < 255"
    and reach: "reachable segs s i d" and f: "follows segs n s i s' p w" "n < 8" and nz: "w \<noteq> 0"
  shows "d \<le> maxDepth \<and> targetFits segs s' p w"
proof -
  let ?st = "\<lparr>ps_segmentId = s, ps_pointerWord = i, ps_depth = d\<rparr>"
  from enforceNestingDepth_reachable [OF ok ne small reach] obtain pushed where
    v: "visitPointer segs maxDepth ?st = Inr pushed" by auto
  then obtain r where "limitsResolvePointer segs (ps_segmentId ?st) (ps_pointerWord ?st) = Inr r"
    and "rp_word r = 0 \<or> ps_depth ?st \<le> maxDepth \<and> targetFits segs (rp_segmentId r) (rp_pointerWord r) (rp_word r)"
    by (rule visitPointer_Inr)
  moreover have "limitsResolvePointer segs s i = Inr \<lparr>rp_segmentId = s', rp_pointerWord = p, rp_word = w\<rparr>"
    using limitsResolvePointer_follows [OF f(1)] f(2) by (simp add: POINTER_HOP_LIMIT_def)
  ultimately show ?thesis using nz by auto
qed

end
