(* ===== verification/Frame_Framer.thy ===== *)
theory Frame_Framer
  imports Frame_Limits
begin

text \<open>
  \<open>src/rpc/wire/framer.ts\<close>: the incremental frame assembler. Its buffer may be longer than its
  contents, and the total size of the frame at the front is cached once known. The abstract
  framer of the second half keeps the buffered bytes only; the class refines it, and so no byte
  is lost, duplicated or reordered whatever the chunks are.
\<close>

record FramerOptions = CapnpFrameLimitsOptions +
  fo_maxBufferedBytes :: "number option"

record CapnpFrameFramer =
  fr_options :: FramerOptions
  fr_buffer :: bytes
  fr_length :: int
  fr_expectedTotal :: "int option"

section \<open>The class\<close>

definition newFramer :: "FramerOptions \<Rightarrow> CapnpFrameFramer result" where
  "newFramer options =
     (let maxBufferedBytes =
            (case fo_maxBufferedBytes options of
               Some v \<Rightarrow> v
             | None \<Rightarrow> numMax (jint DEFAULT_MAX_FRAME_BYTES)
                         (orDefault (lo_maxFrameBytes options) DEFAULT_MAX_FRAME_BYTES))
      in if maxBufferedBytes \<noteq> Infinity \<and> (\<not> isSafeInteger maxBufferedBytes \<or> numLess maxBufferedBytes (jint 0))
         then Inl (ProtocolError ''maxBufferedBytes must be a non-negative safe integer or Infinity'' [])
         else Inr \<lparr>fr_options = options\<lparr>fo_maxBufferedBytes := Some maxBufferedBytes\<rparr>,
                   fr_buffer = [], fr_length = 0, fr_expectedTotal = None\<rparr>)"

definition assertFrameBytes :: "FramerOptions \<Rightarrow> int \<Rightarrow> unit result" where
  "assertFrameBytes options totalBytes =
     (let maxFrameBytes = orDefault (lo_maxFrameBytes options) DEFAULT_MAX_FRAME_BYTES
      in if numLess maxFrameBytes (jint totalBytes)
         then Inl (ProtocolError ''capnp frame size {} exceeds configured limit {}''
                [totalBytes, toInt maxFrameBytes])
         else Inr ())"

definition assertBufferedBytes :: "FramerOptions \<Rightarrow> int \<Rightarrow> unit result" where
  "assertBufferedBytes options totalBytes =
     (case fo_maxBufferedBytes options of
        None \<Rightarrow> Inr ()
      | Some maxBufferedBytes \<Rightarrow>
          if numLess maxBufferedBytes (jint totalBytes)
          then Inl (ProtocolError ''capnp framer buffer size {} exceeds configured limit {}''
                 [totalBytes, toInt maxBufferedBytes])
          else Inr ())"

text \<open>The capacity of a grown buffer: \<open>Math.min(maxBufferedBytes, Math.max(needed, 2 * capacity))\<close>.\<close>

definition grownCapacity :: "FramerOptions \<Rightarrow> int \<Rightarrow> int \<Rightarrow> int" where
  "grownCapacity options needed capacity =
     (case fo_maxBufferedBytes options of
        None \<Rightarrow> 0
      | Some m \<Rightarrow> toInt (numMin m (jint (max needed (capacity * 2)))))"

definition push :: "CapnpFrameFramer \<Rightarrow> bytes \<Rightarrow> CapnpFrameFramer result" where
  "push framer data =
     (if length data = 0 then Inr framer
      else
        let needed = fr_length framer + int (length data)
        in bindE (assertBufferedBytes (fr_options framer) needed) (\<lambda>_.
           bindE (if needed > int (length (fr_buffer framer))
                  then setBytes (replicate (nat (grownCapacity (fr_options framer) needed
                                   (int (length (fr_buffer framer))))) 0)
                         (subarray (fr_buffer framer) 0 (fr_length framer)) 0
                  else Inr (fr_buffer framer)) (\<lambda>buffer.
           bindE (setBytes buffer data (fr_length framer)) (\<lambda>buffer'.
           Inr (framer\<lparr>fr_buffer := buffer', fr_length := needed\<rparr>)))))"

text \<open>
  The total size of the frame at the front of the contents, \<open>None\<close> while its header is not
  complete: the body of \<open>updateExpectedTotal\<close>.
\<close>

definition frameTotal :: "FramerOptions \<Rightarrow> bytes \<Rightarrow> int option result" where
  "frameTotal options contents =
     (if int (length contents) < 4 then Inr None
      else bindE (getUint32 contents 0) (\<lambda>segmentCountMinusOne.
        let segmentCount = segmentCountMinusOne + 1;
            maxSegmentCount = orDefault (lo_maxSegmentCount options) DEFAULT_MAX_SEGMENT_COUNT
        in if segmentCount < 1 then Inl (ProtocolError ''invalid capnp frame segment count'' [])
           else if numLess maxSegmentCount (jint segmentCount)
           then Inl (ProtocolError ''capnp frame segment count {} exceeds configured limit {}''
                  [segmentCount, toInt maxSegmentCount])
           else
             let paddingWords = (if segmentCount mod 2 = 0 then 1 else 0);
                 headerWords = 1 + segmentCount + paddingWords;
                 headerBytes = headerWords * 4
             in if int (length contents) < headerBytes then Inr None
                else bindE (readWordCounts contents (nat segmentCount) 0) (\<lambda>counts.
                  let totalWords = sum_list counts;
                      maxTraversalWords = orDefault (lo_maxTraversalWords options) DEFAULT_MAX_TRAVERSAL_WORDS
                  in if numLess maxTraversalWords (jint totalWords)
                     then Inl (ProtocolError ''capnp frame traversal words {} exceeds configured limit {}''
                            [totalWords, toInt maxTraversalWords])
                     else
                       let bodyBytes = totalWords * 8; totalBytes = headerBytes + bodyBytes
                       in bindE (assertFrameBytes options totalBytes) (\<lambda>_.
                          bindE (assertBufferedBytes options totalBytes) (\<lambda>_.
                          Inr (Some totalBytes))))))"

definition contents :: "CapnpFrameFramer \<Rightarrow> bytes" where
  "contents framer = subarray (fr_buffer framer) 0 (fr_length framer)"

definition updateExpectedTotal :: "CapnpFrameFramer \<Rightarrow> CapnpFrameFramer result" where
  "updateExpectedTotal framer =
     (if fr_expectedTotal framer \<noteq> None then Inr framer
      else bindE (frameTotal (fr_options framer) (contents framer)) (\<lambda>t.
           Inr (framer\<lparr>fr_expectedTotal := t\<rparr>)))"

definition limitsOf :: "FramerOptions \<Rightarrow> CapnpFrameLimitsOptions" where
  "limitsOf options = CapnpFrameLimitsOptions.truncate options"

text \<open>
  \<open>popFrame\<close>: the result with the state it leaves, since the frame is consumed before it is
  validated.
\<close>

definition popFrame :: "CapnpFrameFramer \<Rightarrow> bytes option result \<times> CapnpFrameFramer" where
  "popFrame framer0 =
     (case updateExpectedTotal framer0 of
        Inl e \<Rightarrow> (Inl e, framer0)
      | Inr framer \<Rightarrow>
          (case fr_expectedTotal framer of
             None \<Rightarrow> (Inr None, framer)
           | Some frameLen \<Rightarrow>
               if fr_length framer < frameLen then (Inr None, framer)
               else
                 let remaining = fr_length framer - frameLen;
                     frame = subarray (fr_buffer framer) 0 frameLen;
                     buffer = (if remaining = 0 then []
                               else subarray (fr_buffer framer) frameLen (fr_length framer)
                                      @ drop (nat remaining) (fr_buffer framer));
                     framer' = framer\<lparr>fr_buffer := buffer, fr_length := remaining, fr_expectedTotal := None\<rparr>
                 in (if lo_maxNestingDepth (fr_options framer) \<noteq> None
                     then bindE (validateCapnpFrame frame (limitsOf (fr_options framer))) (\<lambda>_. Inr (Some frame))
                     else Inr (Some frame), framer')))"

section \<open>Invariant\<close>

definition bufferLimit :: "FramerOptions \<Rightarrow> bool" where
  "bufferLimit options \<longleftrightarrow>
     (\<exists>m. fo_maxBufferedBytes options = Some m \<and> (m = Infinity \<or> (\<exists>i. m = jint i \<and> 0 \<le> i)))"

definition framerInv :: "CapnpFrameFramer \<Rightarrow> bool" where
  "framerInv f \<longleftrightarrow>
     bufferLimit (fr_options f) \<and> 0 \<le> fr_length f \<and> fr_length f \<le> int (length (fr_buffer f)) \<and>
     (\<forall>t. fr_expectedTotal f = Some t \<longrightarrow> frameTotal (fr_options f) (contents f) = Inr (Some t))"

lemma newFramer_inv: "newFramer options = Inr f \<Longrightarrow> framerInv f \<and> contents f = []"
  by (auto simp: newFramer_def framerInv_def contents_def subarray_def bufferLimit_def isSafeInteger_iff
      Let_def split: if_splits)

lemma length_contents: "framerInv f \<Longrightarrow> int (length (contents f)) = fr_length f"
  by (auto simp: framerInv_def contents_def subarray_def)

text \<open>More bytes do not change the total that a complete header gives.\<close>

lemma getUint32_append: "getUint32 xs i = Inr v \<Longrightarrow> getUint32 (xs @ ys) i = Inr v"
  by (auto simp: getUint32_def bindE_eq_Inr getLE_eq_Inr)

lemma readWordCounts_append:
  "readWordCounts xs n i = Inr ws \<Longrightarrow> readWordCounts (xs @ ys) n i = Inr ws"
  by (induction n arbitrary: i ws) (auto simp: bindE_eq_Inr getUint32_append)

lemma frameTotal_append:
  assumes "frameTotal options xs = Inr (Some t)"
  shows "frameTotal options (xs @ ys) = Inr (Some t)"
proof -
  from assms obtain c where c: "getUint32 xs 0 = Inr c" and l4: "\<not> int (length xs) < 4"
    by (auto simp: frameTotal_def bindE_eq_Inr split: if_splits)
  from assms obtain ws where ws: "readWordCounts xs (nat (c + 1)) 0 = Inr ws"
    by (auto simp: frameTotal_def bindE_eq_Inr c Let_def split: if_splits)
  from assms have "\<not> int (length xs) < (1 + (c + 1) + (if (c + 1) mod 2 = 0 then 1 else 0)) * 4"
    by (auto simp: frameTotal_def c Let_def split: if_splits)
  then have "\<not> int (length (xs @ ys)) < (1 + (c + 1) + (if (c + 1) mod 2 = 0 then 1 else 0)) * 4"
    by simp
  moreover have "\<not> int (length (xs @ ys)) < 4" using l4 by simp
  ultimately show ?thesis
    using assms l4 unfolding frameTotal_def Let_def
    by (simp only: getUint32_append [OF c] readWordCounts_append [OF ws] c ws bindE_Inr if_False
        split: if_splits) simp_all
qed

section \<open>The abstract framer\<close>

definition specPush :: "FramerOptions \<Rightarrow> bytes \<Rightarrow> bytes \<Rightarrow> bytes result" where
  "specPush options q data =
     (if data = [] then Inr q
      else bindE (assertBufferedBytes options (int (length (q @ data)))) (\<lambda>_. Inr (q @ data)))"

definition specPop :: "FramerOptions \<Rightarrow> bytes \<Rightarrow> bytes option result \<times> bytes" where
  "specPop options q =
     (case frameTotal options q of
        Inl e \<Rightarrow> (Inl e, q)
      | Inr None \<Rightarrow> (Inr None, q)
      | Inr (Some t) \<Rightarrow>
          if int (length q) < t then (Inr None, q)
          else (bindE (if lo_maxNestingDepth options \<noteq> None
                       then validateCapnpFrame (take (nat t) q) (limitsOf options) else Inr ())
                  (\<lambda>_. Inr (Some (take (nat t) q))), drop (nat t) q))"

lemma grownCapacity_enough:
  assumes "bufferLimit options" "assertBufferedBytes options needed = Inr u" "0 \<le> needed"
  shows "needed \<le> grownCapacity options needed cap"
proof -
  from assms(1) obtain m where m: "fo_maxBufferedBytes options = Some m"
    and c: "m = Infinity \<or> (\<exists>i. m = jint i \<and> 0 \<le> i)" by (auto simp: bufferLimit_def)
  from c show ?thesis
  proof
    assume "m = Infinity"
    moreover have "numMin Infinity (jint k) = jint k" for k by (simp add: numMin_def jint_def)
    ultimately show ?thesis by (simp add: grownCapacity_def m)
  next
    assume "\<exists>i. m = jint i \<and> 0 \<le> i"
    then obtain i where "m = jint i" by blast
    then show ?thesis using assms(2) by (auto simp: grownCapacity_def assertBufferedBytes_def numMin_def m)
  qed
qed

lemma push_refines:
  assumes inv: "framerInv f"
  shows "case push f data of
      Inl e \<Rightarrow> specPush (fr_options f) (contents f) data = Inl e
    | Inr f' \<Rightarrow> framerInv f' \<and> fr_options f' = fr_options f \<and>
        specPush (fr_options f) (contents f) data = Inr (contents f')"
proof (cases "data = []")
  case True
  then show ?thesis using inv by (simp add: push_def specPush_def)
next
  case False
  let ?o = "fr_options f" and ?needed = "fr_length f + int (length data)"
  have len: "int (length (contents f)) = fr_length f" by (rule length_contents [OF inv])
  have n0: "0 \<le> fr_length f" "fr_length f \<le> int (length (fr_buffer f))" using inv by (auto simp: framerInv_def)
  show ?thesis
  proof (cases "assertBufferedBytes ?o ?needed")
    case (Inl e)
    then show ?thesis using False len by (simp add: push_def specPush_def Let_def)
  next
    case (Inr u)
    define base where "base = (if ?needed > int (length (fr_buffer f))
      then contents f @ replicate (nat (grownCapacity ?o ?needed (int (length (fr_buffer f)))) - length (contents f)) 0
      else fr_buffer f)"
    have cap: "?needed \<le> grownCapacity ?o ?needed (int (length (fr_buffer f)))"
      using inv n0 by (intro grownCapacity_enough [OF _ Inr]) (auto simp: framerInv_def)
    have grow: "(if ?needed > int (length (fr_buffer f))
        then setBytes (replicate (nat (grownCapacity ?o ?needed (int (length (fr_buffer f))))) 0)
               (subarray (fr_buffer f) 0 (fr_length f)) 0
        else Inr (fr_buffer f)) = Inr base"
      using cap len n0 by (auto simp: base_def setBytes_def contents_def)
    have base: "take (nat (fr_length f)) base = contents f" "?needed \<le> int (length base)"
      using cap len n0 by (auto simp: base_def contents_def subarray_def min_def)
    define buf where "buf = take (nat (fr_length f)) base @ data @ drop (nat (fr_length f) + length data) base"
    have w: "setBytes base data (fr_length f) = Inr buf"
      using n0 base(2) by (simp add: setBytes_def buf_def)
    let ?f' = "f\<lparr>fr_buffer := buf, fr_length := ?needed\<rparr>"
    have p: "push f data = Inr ?f'"
      unfolding push_def Let_def using False Inr grow w by (simp only: length_0_conv if_False bindE_Inr)
    have "nat ?needed = nat (fr_length f) + length data" using n0 by simp
    moreover have "contents ?f' = subarray buf 0 ?needed" by (simp add: contents_def)
    ultimately have c: "contents ?f' = contents f @ data"
      using len n0 by (simp add: subarray_def buf_def base(1))
    have "framerInv ?f'"
      using inv n0 base(2) frameTotal_append [of ?o "contents f" _ data]
      by (auto simp: framerInv_def c [simplified]) (simp add: buf_def)
    then show ?thesis using p c False Inr len by (simp add: specPush_def)
  qed
qed

lemma updateExpectedTotal_refines:
  assumes "framerInv f"
  shows "updateExpectedTotal f =
    bindE (frameTotal (fr_options f) (contents f)) (\<lambda>t. Inr (f\<lparr>fr_expectedTotal := t\<rparr>))"
proof (cases "fr_expectedTotal f")
  case (Some t)
  then have "f\<lparr>fr_expectedTotal := Some t\<rparr> = f" by simp
  then show ?thesis using assms Some by (simp add: updateExpectedTotal_def framerInv_def)
qed (simp add: updateExpectedTotal_def)

lemma frameTotal_pos: "frameTotal options xs = Inr (Some t) \<Longrightarrow> 8 \<le> t"
proof -
  assume a: "frameTotal options xs = Inr (Some t)"
  then obtain c where c: "getUint32 xs 0 = Inr c" by (auto simp: frameTotal_def bindE_eq_Inr split: if_splits)
  from a obtain ws where ws: "readWordCounts xs (nat (c + 1)) 0 = Inr ws"
    by (auto simp: frameTotal_def bindE_eq_Inr c Let_def split: if_splits)
  have c0: "0 \<le> c" using getUint32_range [OF c] by simp
  have "0 \<le> sum_list ws" using readWordCounts_range [OF ws] by (intro sum_list_nonneg) auto
  moreover have "t = int (headerLen (nat (c + 1))) + sum_list ws * 8"
    unfolding headerBytes_headerLen [OF c0, symmetric]
    using a by (auto simp: frameTotal_def bindE_eq_Inr c ws Let_def split: if_splits)
  ultimately show "8 \<le> t" using headerLen_ge [of "nat (c + 1)"] by linarith
qed

lemma popFrame_refines:
  assumes inv: "framerInv f" and pop: "popFrame f = (r, f')"
  shows "framerInv f' \<and> fr_options f' = fr_options f \<and> specPop (fr_options f) (contents f) = (r, contents f')"
proof -
  let ?o = "fr_options f"
  have len: "int (length (contents f)) = fr_length f" by (rule length_contents [OF inv])
  have n0: "0 \<le> fr_length f" "fr_length f \<le> int (length (fr_buffer f))" "bufferLimit ?o"
    using inv by (auto simp: framerInv_def)
  have ct: "contents (f\<lparr>fr_expectedTotal := t\<rparr>) = contents f" for t by (simp add: contents_def)
  show ?thesis
  proof (cases "frameTotal ?o (contents f)")
    case (Inl e)
    then have "r = Inl e" "f' = f" using pop by (simp_all add: popFrame_def updateExpectedTotal_refines [OF inv])
    then show ?thesis using inv Inl by (simp add: specPop_def)
  next
    case (Inr t)
    note up = updateExpectedTotal_refines [OF inv, unfolded Inr, simplified]
    show ?thesis
    proof (cases t)
      case None
      then have "r = Inr None" "f' = f\<lparr>fr_expectedTotal := None\<rparr>"
        using pop by (simp_all add: popFrame_def up)
      then show ?thesis using Inr None n0 by (simp add: specPop_def framerInv_def ct)
    next
      case (Some n)
      show ?thesis
      proof (cases "fr_length f < n")
        case True
        then have "r = Inr None" "f' = f\<lparr>fr_expectedTotal := Some n\<rparr>"
          using pop Some by (simp_all add: popFrame_def up)
        then show ?thesis using Inr Some True n0 len by (simp add: specPop_def framerInv_def ct)
      next
        case False
        have n8: "8 \<le> n" using frameTotal_pos Inr Some by blast
        let ?rem = "fr_length f - n"
        let ?buf = "if ?rem = 0 then [] else subarray (fr_buffer f) n (fr_length f) @ drop (nat ?rem) (fr_buffer f)"
        let ?g = "f\<lparr>fr_buffer := ?buf, fr_length := ?rem, fr_expectedTotal := None\<rparr>"
        have frame: "subarray (fr_buffer f) 0 n = take (nat n) (contents f)"
          using False n0 by (simp add: contents_def subarray_def min_def nat_le_eq_zle)
        have rest: "subarray (fr_buffer f) n (fr_length f) = drop (nat n) (contents f)"
          using False n0 n8 by (simp add: contents_def subarray_def drop_take nat_diff_distrib)
        have lr: "length (subarray (fr_buffer f) n (fr_length f)) = nat ?rem"
          using len n8 by (simp add: rest)
        have fits: "?rem \<le> int (length ?buf)" using lr False by simp
        have "contents ?g = subarray ?buf 0 ?rem" by (simp add: contents_def)
        also have "\<dots> = subarray (fr_buffer f) n (fr_length f)"
          using lr by (auto simp: subarray_def)
        finally have cg: "contents ?g = drop (nat n) (contents f)" by (simp add: rest)
        have r: "r = bindE (if lo_maxNestingDepth ?o \<noteq> None
              then validateCapnpFrame (take (nat n) (contents f)) (limitsOf ?o) else Inr ())
              (\<lambda>_. Inr (Some (take (nat n) (contents f))))" and g: "f' = ?g"
          using pop Some False unfolding popFrame_def up
          by (auto simp: Let_def frame up split: if_splits)
        have "framerInv ?g" using fits False n0 by (simp add: framerInv_def)
        then show ?thesis using Inr Some False len r g cg by (simp add: specPop_def)
      qed
    qed
  qed
qed

section \<open>Streams\<close>

text \<open>A history of calls, up to the first one that throws: the frames popped and the last state.\<close>

datatype framer_call = Push bytes | Pop

fun runFramer :: "CapnpFrameFramer \<Rightarrow> framer_call list \<Rightarrow> (bytes list \<times> CapnpFrameFramer) result" where
  "runFramer f [] = Inr ([], f)"
| "runFramer f (Push data # calls) = bindE (push f data) (\<lambda>f'. runFramer f' calls)"
| "runFramer f (Pop # calls) =
     (case popFrame f of
        (Inl e, f') \<Rightarrow> Inl e
      | (Inr None, f') \<Rightarrow> runFramer f' calls
      | (Inr (Some frame), f') \<Rightarrow> bindE (runFramer f' calls) (\<lambda>(out, g). Inr (frame # out, g)))"

fun pushed :: "framer_call list \<Rightarrow> bytes" where
  "pushed [] = []"
| "pushed (Push data # calls) = data @ pushed calls"
| "pushed (Pop # calls) = pushed calls"

lemma push_Inr:
  assumes "framerInv f" "push f data = Inr f'"
  shows "framerInv f' \<and> fr_options f' = fr_options f \<and> contents f' = contents f @ data"
  using push_refines [OF assms(1), of data] assms(2)
  by (auto simp: specPush_def bindE_eq_Inr split: if_splits)

lemma popFrame_Some:
  assumes "framerInv f" "popFrame f = (Inr (Some frame), f')"
  shows "framerInv f' \<and> fr_options f' = fr_options f \<and> contents f = frame @ contents f' \<and>
    frameTotal (fr_options f) (contents f) = Inr (Some (int (length frame)))"
proof -
  have ref: "framerInv f'" "fr_options f' = fr_options f"
    "specPop (fr_options f) (contents f) = (Inr (Some frame), contents f')"
    using popFrame_refines [OF assms] by auto
  then obtain t where t: "frameTotal (fr_options f) (contents f) = Inr (Some t)"
    and le: "\<not> int (length (contents f)) < t"
    and fr: "frame = take (nat t) (contents f)" "contents f' = drop (nat t) (contents f)"
    by (auto simp: specPop_def bindE_eq_Inr split: sum.splits option.splits if_splits)
  have "t = int (length frame)" using le fr frameTotal_pos [OF t] by simp
  then show ?thesis using ref t fr by simp
qed

lemma popFrame_None:
  assumes "framerInv f" "popFrame f = (Inr None, f')"
  shows "framerInv f' \<and> fr_options f' = fr_options f \<and> contents f' = contents f"
  using popFrame_refines [OF assms]
  by (auto simp: specPop_def bindE_eq_Inr split: sum.splits option.splits if_splits)

lemma runFramer_stream:
  assumes "framerInv f" "runFramer f calls = Inr (out, g)"
  shows "framerInv g \<and> fr_options g = fr_options f \<and> concat out @ contents g = contents f @ pushed calls"
  using assms
proof (induction f calls arbitrary: out g rule: runFramer.induct)
  case (1 f)
  then show ?case by simp
next
  case (2 f data calls)
  then obtain f' where f': "push f data = Inr f'" "runFramer f' calls = Inr (out, g)"
    by (auto simp: bindE_eq_Inr)
  note step = push_Inr [OF 2(2) f'(1)]
  have "framerInv g \<and> fr_options g = fr_options f' \<and> concat out @ contents g = contents f' @ pushed calls"
    by (rule 2(1) [OF f'(1) _ f'(2)]) (use step in blast)
  then show ?case using step by simp
next
  case (3 f calls)
  obtain r f' where p: "popFrame f = (r, f')" by (cases "popFrame f")
  from 3(4) p obtain a where Inr: "r = Inr a" by (cases r) auto
  show ?case
  proof (cases a)
    case None
    with p Inr have pop: "popFrame f = (Inr None, f')" by simp
    note step = popFrame_None [OF 3(3) pop]
    have run: "runFramer f' calls = Inr (out, g)" using 3(4) pop by simp
    have "framerInv g \<and> fr_options g = fr_options f' \<and> concat out @ contents g = contents f' @ pushed calls"
      by (rule 3(1) [OF pop [symmetric] refl refl _ run]) (use step in blast)
    then show ?thesis using step by simp
  next
    case (Some frame)
    with p Inr have pop: "popFrame f = (Inr (Some frame), f')" by simp
    note step = popFrame_Some [OF 3(3) pop]
    obtain out' where run: "runFramer f' calls = Inr (out', g)" and out: "out = frame # out'"
      using 3(4) pop by (auto simp: bindE_eq_Inr)
    have "framerInv g \<and> fr_options g = fr_options f' \<and> concat out' @ contents g = contents f' @ pushed calls"
      by (rule 3(2) [OF pop [symmetric] refl refl _ run]) (use step in blast)
    then show ?thesis using step out by simp
  qed
qed

text \<open>What the options accept of one message.\<close>

definition framerAccepts :: "FramerOptions \<Rightarrow> bytes list \<Rightarrow> bool" where
  "framerAccepts options segs \<longleftrightarrow>
     frameTotal options (frameOf segs) = Inr (Some (int (length (frameOf segs)))) \<and>
     (lo_maxNestingDepth options \<noteq> None \<longrightarrow> validateCapnpFrame (frameOf segs) (limitsOf options) = Inr ())"

lemma frameTotal_frameOf:
  assumes "wfSegs segs"
    and "\<not> numLess (orDefault (lo_maxSegmentCount options) DEFAULT_MAX_SEGMENT_COUNT) (jint (int (length segs)))"
    and "\<not> numLess (orDefault (lo_maxTraversalWords options) DEFAULT_MAX_TRAVERSAL_WORDS)
           (jint (sum_list (map (\<lambda>s. int (segWords s)) segs)))"
    and "assertFrameBytes options (int (length (frameOf segs))) = Inr ()"
    and "assertBufferedBytes options (int (length (frameOf segs))) = Inr ()"
  shows "frameTotal options (frameOf segs) = Inr (Some (int (length (frameOf segs))))"
proof -
  let ?f = "frameOf segs" and ?n = "int (length segs)"
  have ne: "segs \<noteq> []" and al: "\<forall>s \<in> set segs. alignedSeg s" using assms(1) by (auto simp: wfSegs_def)
  have cnt: "getUint32 ?f 0 = Inr (?n - 1)"
    unfolding frameOf_def using frame_count [of "map segWords segs" "concat segs"] assms(1)
    by (simp add: wfSegs_def)
  have "0 \<le> ?n - 1" using ne by (cases segs) auto
  from headerBytes_headerLen [OF this]
  have h: "(1 + ?n + (if ?n mod 2 = 0 then 1 else 0)) * 4 = int (headerLen (length segs))"
    by (simp only: diff_add_cancel nat_int)
  have rc: "readWordCounts ?f (length segs) 0 = Inr (map (\<lambda>s. int (segWords s)) segs)"
  proof (rule readWordCounts_layout)
    show "getUint32 ?f (4 + (0 + int k) * 4) = Inr (int (segWords (segs ! k)))" if "k < length segs" for k
      unfolding frameOf_def using frame_size_entry [of k "map segWords segs"] that al
      by (simp add: alignedSeg_def)
  qed
  have flen: "length ?f = headerLen (length segs) + length (concat segs)" by (simp add: frameOf_def)
  have sums: "sum_list (map (\<lambda>s. int (segWords s)) segs) * 8 = int (length (concat segs))"
    by (rule sum_segWords [OF al])
  have fl: "int (headerLen (length segs)) + int (length (concat segs)) = int (length ?f)"
    "\<not> int (length ?f) < int (headerLen (length segs))" "\<not> int (length ?f) < 4"
    using flen headerLen_ge [of "length segs"] by simp_all
  have n: "?n - 1 + 1 = ?n" "nat ?n = length segs" "\<not> ?n < 1" using \<open>0 \<le> ?n - 1\<close> by simp_all
  show ?thesis
    unfolding frameTotal_def Let_def
    by (simp only: fl if_False bindE_Inr cnt n assms(2,3) h rc sums assms(4,5))
qed

lemma popFrame_front:
  assumes inv: "framerInv f" and acc: "framerAccepts (fr_options f) segs"
    and c: "contents f = frameOf segs @ rest"
  shows "\<exists>f'. popFrame f = (Inr (Some (frameOf segs)), f')"
proof -
  obtain r f' where p: "popFrame f = (r, f')" by (cases "popFrame f")
  have "frameTotal (fr_options f) (frameOf segs @ rest) = Inr (Some (int (length (frameOf segs))))"
    using acc by (intro frameTotal_append) (simp add: framerAccepts_def)
  then show ?thesis
    using popFrame_refines [OF inv p] acc p by (auto simp: specPop_def c framerAccepts_def split: if_splits)
qed

text \<open>Whatever the chunks and whenever frames are popped, the frames are those of the stream.\<close>

lemma runFramer_frames:
  assumes "framerInv f" "runFramer f calls = Inr (out, g)"
    and "contents f @ pushed calls = concat (map frameOf msgs) @ rest"
    and "\<forall>segs \<in> set msgs. framerAccepts (fr_options f) segs"
  shows "take (length msgs) out = take (length out) (map frameOf msgs)"
  using assms
proof (induction f calls arbitrary: out g msgs rule: runFramer.induct)
  case (1 f)
  then show ?case by simp
next
  case (2 f data calls)
  then obtain f' where f': "push f data = Inr f'" "runFramer f' calls = Inr (out, g)"
    by (auto simp: bindE_eq_Inr)
  note step = push_Inr [OF 2(2) f'(1)]
  have str: "contents f' @ pushed calls = concat (map frameOf msgs) @ rest" using 2(4) step by simp
  show ?case
    by (rule 2(1) [OF f'(1) _ f'(2) str]) (use 2(5) step in auto)
next
  case (3 f calls)
  obtain r f' where p: "popFrame f = (r, f')" by (cases "popFrame f")
  from 3(4) p obtain a where Inr: "r = Inr a" by (cases r) auto
  show ?case
  proof (cases a)
    case None
    with p Inr have pop: "popFrame f = (Inr None, f')" by simp
    note step = popFrame_None [OF 3(3) pop]
    have run: "runFramer f' calls = Inr (out, g)" using 3(4) pop by simp
    have str: "contents f' @ pushed calls = concat (map frameOf msgs) @ rest" using 3(5) step by simp
    show ?thesis
      by (rule 3(1) [OF pop [symmetric] refl refl _ run str]) (use 3(6) step in auto)
  next
    case (Some frame)
    with p Inr have pop: "popFrame f = (Inr (Some frame), f')" by simp
    note step = popFrame_Some [OF 3(3) pop]
    obtain out' where run: "runFramer f' calls = Inr (out', g)" and out: "out = frame # out'"
      using 3(4) pop by (auto simp: bindE_eq_Inr)
    show ?thesis
    proof (cases msgs)
      case Nil
      then show ?thesis by simp
    next
      case msgs: (Cons m ms)
      have whole: "contents f @ pushed calls = frameOf m @ concat (map frameOf ms) @ rest"
        using 3(5) by (simp add: msgs)
      have "frameTotal (fr_options f) (frameOf m @ concat (map frameOf ms) @ rest)
          = Inr (Some (int (length (frameOf m))))"
        using 3(6) by (intro frameTotal_append) (simp add: msgs framerAccepts_def)
      moreover have "frameTotal (fr_options f) (contents f @ pushed calls) = Inr (Some (int (length frame)))"
        using step by (intro frameTotal_append) blast
      ultimately have "length frame = length (frameOf m)" by (simp add: whole)
      then have fr: "frame = frameOf m" and str: "contents f' @ pushed calls = concat (map frameOf ms) @ rest"
        using whole step by auto
      have "take (length ms) out' = take (length out') (map frameOf ms)"
        by (rule 3(2) [OF pop [symmetric] refl refl _ run str]) (use 3(6) msgs step in auto)
      then show ?thesis using fr out msgs by simp
    qed
  qed
qed

lemma runFramer_nonempty:
  assumes "framerInv f" "runFramer f calls = Inr (out, g)"
  shows "\<forall>frame \<in> set out. frame \<noteq> []"
  using assms
proof (induction f calls arbitrary: out g rule: runFramer.induct)
  case (1 f)
  then show ?case by simp
next
  case (2 f data calls)
  then show ?case using push_Inr [OF 2(2)] by (auto simp: bindE_eq_Inr)
next
  case (3 f calls)
  obtain r f' where p: "popFrame f = (r, f')" by (cases "popFrame f")
  from 3(4) p obtain a where r: "r = Inr a" by (cases r) auto
  show ?case
  proof (cases a)
    case None
    with p r have pop: "popFrame f = (Inr None, f')" by simp
    show ?thesis using 3(1) [OF p [symmetric] r None _] 3(4) popFrame_None [OF 3(3) pop] pop by simp
  next
    case (Some frame)
    with p r have pop: "popFrame f = (Inr (Some frame), f')" by simp
    note step = popFrame_Some [OF 3(3) pop]
    then have "frame \<noteq> []" using frameTotal_pos [of "fr_options f" "contents f"] by fastforce
    moreover obtain out' where "runFramer f' calls = Inr (out', g)" "out = frame # out'"
      using 3(4) pop by (auto simp: bindE_eq_Inr)
    ultimately show ?thesis using 3(2) [OF p [symmetric] r Some _] step by simp
  qed
qed

lemma runFramer_all_frames:
  assumes inv: "framerInv f" and run: "runFramer f calls = Inr (out, g)"
    and str: "contents f @ pushed calls = concat (map frameOf msgs)"
    and acc: "\<forall>segs \<in> set msgs. framerAccepts (fr_options f) segs"
  shows "out = take (length out) (map frameOf msgs) \<and>
    contents g = concat (drop (length out) (map frameOf msgs))"
proof -
  have all: "concat out @ contents g = concat (map frameOf msgs)" using runFramer_stream [OF inv run] str by simp
  have pre: "take (length msgs) out = take (length out) (map frameOf msgs)"
    by (rule runFramer_frames [OF inv run _ acc, of "[]"]) (simp add: str)
  have "out = take (length msgs) out"
  proof (cases "length out \<le> length msgs")
    case False
    then have "concat (map frameOf msgs) = concat (take (length msgs) out)" using pre by simp
    also have "concat (take (length msgs) out) @ concat (drop (length msgs) out) = concat out"
      by (simp flip: concat_append)
    ultimately have "concat (drop (length msgs) out) = []" using all by (metis append_assoc append_self_conv append_is_Nil_conv)
    moreover have "\<forall>frame \<in> set (drop (length msgs) out). frame \<noteq> []"
      using runFramer_nonempty [OF inv run] by (auto dest: in_set_dropD)
    ultimately have "drop (length msgs) out = []" by (cases "drop (length msgs) out") auto
    then show ?thesis by simp
  qed simp
  with pre have o: "out = take (length out) (map frameOf msgs)" by simp
  have "concat (take (length out) (map frameOf msgs)) @ concat (drop (length out) (map frameOf msgs)) =
      concat (map frameOf msgs)" by (simp only: append_take_drop_id flip: concat_append)
  then have "concat out @ concat (drop (length out) (map frameOf msgs)) = concat out @ contents g" using o all by simp
  then show ?thesis using o by simp
qed

lemma drainFramer:
  assumes "framerInv f" "contents f = concat (map frameOf msgs)"
    and "\<forall>segs \<in> set msgs. framerAccepts (fr_options f) segs"
  shows "\<exists>g. runFramer f (replicate (length msgs) Pop) = Inr (map frameOf msgs, g) \<and> contents g = []"
  using assms
proof (induction msgs arbitrary: f)
  case (Cons m ms)
  then obtain f' where pop: "popFrame f = (Inr (Some (frameOf m)), f')"
    using popFrame_front [of f m "concat (map frameOf ms)"] by auto
  note ps = popFrame_Some [OF Cons.prems(1) pop]
  have "\<exists>g. runFramer f' (replicate (length ms) Pop) = Inr (map frameOf ms, g) \<and> contents g = []"
    by (rule Cons.IH) (use ps Cons.prems in auto)
  then show ?case using pop by auto
qed simp

end
