(* ===== verification/Frame_Properties.thy ===== *)
theory Frame_Properties
  imports Frame_Walk Frame_Framer
begin

unbundle bit_operations_syntax

text \<open>
  Properties of the wire layer below messages: framing, the streaming framer, pointer resolution
  and the validation of untrusted frames.
\<close>

section \<open>Frames and segments\<close>

definition twoSegments :: "bytes list" where
  "twoSegments = [[1, 2, 3, 4, 5, 6, 7, 8], []]"

lemma twoSegments_wf: "wfSegs twoSegments"
  by (simp add: twoSegments_def wfSegs_def alignedSeg_def segWords_def)

text \<open>C21: \<open>segmentsFromFrame\<close> inverts framing. The segments of a frame laid out as the Cap'n Proto
  stream encoding says (count, sizes, padding to a word, payload) are read back exactly, whatever
  bytes follow the frame.\<close>

theorem segments_roundtrip:
  assumes "wfSegs segs"
  shows "segmentsFromFrame (frameOf segs @ rest) = Inr \<lparr>segments = segs\<rparr>"
  by (rule segmentsFromFrame_frameOf [OF assms])

theorem segments_roundtrip_witness:
  "segmentsFromFrame (frameOf twoSegments @ [9]) = Inr \<lparr>segments = twoSegments\<rparr>"
  by (rule segments_roundtrip [OF twoSegments_wf])

section \<open>Pointers\<close>

text \<open>C20: \<open>resolvePointer\<close> computes the specification of far-pointer resolution: it returns a
  location and a word exactly when the pointer chain reaches them by the rules (a direct pointer,
  a single-far landing pad, a double-far pad with its tag) in fewer than eight single-far hops.\<close>

theorem resolvePointer_spec:
  "resolvePointer table s i = Inr r \<longleftrightarrow>
    (\<exists>k < FAR_POINTER_HOP_LIMIT.
       resolves (segments table) k s i (rp_segmentId r) (rp_pointerWord r) (rp_word r))"
  by (rule resolvePointer_Inr)

text \<open>A struct reference that \<open>decodeStructPointer\<close> returned is safe to use: every pointer slot it
  declares can be located and read, and every 4-byte field inside its data section can be read.\<close>

theorem decoded_struct_readable:
  assumes "decodeStructPointer table loc = Inr (Some sr)"
  shows "(\<forall>k. 0 \<le> k \<and> k < sr_pointerCount sr \<longrightarrow>
      (\<exists>l w. pointerWordIndex sr k = Inr l \<and> readWordFromTable table (pl_segmentId l) (pl_wordIndex l) ctx = Inr w)) \<and>
    (\<forall>off. 0 \<le> off \<and> off + 4 \<le> sr_dataWordCount sr * 8 \<longrightarrow> (\<exists>v. readU32InStruct table sr off = Inr v))"
proof (intro conjI allI impI)
  fix k assume "0 \<le> k \<and> k < sr_pointerCount sr"
  then show "\<exists>l w. pointerWordIndex sr k = Inr l \<and> readWordFromTable table (pl_segmentId l) (pl_wordIndex l) ctx = Inr w"
    using struct_pointer_slot_readable [OF assms] by blast
next
  fix off assume off: "0 \<le> off \<and> off + 4 \<le> sr_dataWordCount sr * 8"
  have "\<exists>v. getUint32 seg i = Inr v" if "0 \<le> i" "i + 4 \<le> int (length seg)" for seg i
    using that by (simp add: getUint32_def getLE_def)
  then show "\<exists>v. readU32InStruct table sr off = Inr v"
    unfolding readU32InStruct_def using off by (intro readFieldInStruct_total [OF assms]) auto
qed

definition structTable :: SegmentTable where
  "structTable = \<lparr>segments = [[0, 0, 0, 0, 1, 0, 1, 0] @ replicate 16 0]\<rparr>"

theorem decoded_struct_readable_witness:
  "(\<exists>l w. pointerWordIndex \<lparr>sr_segmentId = 0, sr_startWord = 1, sr_dataWordCount = 1, sr_pointerCount = 1\<rparr> 0 = Inr l \<and>
      readWordFromTable structTable (pl_segmentId l) (pl_wordIndex l) ''x'' = Inr w) \<and>
   (\<exists>v. readU32InStruct structTable \<lparr>sr_segmentId = 0, sr_startWord = 1, sr_dataWordCount = 1, sr_pointerCount = 1\<rparr> 4 = Inr v)"
proof -
  have "decodeStructPointer structTable \<lparr>pl_segmentId = 0, pl_wordIndex = 0\<rparr> =
      Inr (Some \<lparr>sr_segmentId = 0, sr_startWord = 1, sr_dataWordCount = 1, sr_pointerCount = 1\<rparr>)" by code_simp
  from decoded_struct_readable [OF this, of "''x''"] show ?thesis by auto
qed

section \<open>Validation\<close>

text \<open>C33: A frame that \<open>parseFrame\<close> accepts is read by \<open>segmentsFromFrame\<close> as the same segments, which
  are whole words, and the traversal total it reports is the number of their words.\<close>

theorem parseFrame_agrees:
  assumes "parseFrame frame limits = Inr p"
  shows "segmentsFromFrame frame = Inr \<lparr>segments = pf_segments p\<rparr> \<and> pf_segments p \<noteq> [] \<and>
    (\<forall>s \<in> set (pf_segments p). alignedSeg s) \<and>
    pf_totalWords p = sum_list (map (\<lambda>s. int (segWords s)) (pf_segments p))"
  using parseFrame_segments [OF assms] by blast

definition noLimits :: CapnpFrameLimitsOptions where
  "noLimits = \<lparr>lo_maxSegmentCount = None, lo_maxFrameBytes = None, lo_maxTraversalWords = None, lo_maxNestingDepth = None\<rparr>"

lemma twoSegments_limits: "withinLimits noLimits twoSegments"
  by (simp add: withinLimits_def noLimits_def twoSegments_def orDefault_def assertNonNegativeInteger_def
      DEFAULT_MAX_SEGMENT_COUNT_def DEFAULT_MAX_TRAVERSAL_WORDS_def DEFAULT_MAX_FRAME_BYTES_def segWords_def
      frameOf_def headerLen_def)

theorem parseFrame_agrees_witness:
  "segmentsFromFrame (frameOf twoSegments) = Inr \<lparr>segments = twoSegments\<rparr>"
  using parseFrame_agrees [OF parseFrame_frameOf [OF twoSegments_wf twoSegments_limits]] by simp

text \<open>C40: The pointer walk of \<open>enforceNestingDepth\<close> ends on every input, cyclic pointers included: it
  accepts or throws.\<close>

theorem enforceNestingDepth_ends: "returns (enforceNestingDepth segs maxDepth)"
  by (rule enforceNestingDepth_returns)

text \<open>C19: What the walk accepts is safe to traverse: with a depth limit below 255, every pointer
  reachable from the root by direct and single-far pointers is no deeper than the limit, and its
  target (struct, list, inline composite with its tag and elements) lies inside its segment.\<close>

theorem enforceNestingDepth_safe:
  assumes "enforceNestingDepth segs maxDepth = Inr ()" "segs \<noteq> []" "8 \<le> length (segs ! 0)"
    and "\<forall>s \<in> set segs. length s div 8 \<le> 2 ^ 32" "maxDepth < 255"
    and "reachable segs s i d" "follows segs n s i s' p w" "n < 8" "w \<noteq> 0"
  shows "d \<le> maxDepth \<and> targetFits segs s' p w"
proof -
  have "\<not> int (length (segs ! 0)) < 8" using assms(3) by simp
  from enforceNestingDepth_sound [OF assms(1,2) this assms(4-9)] show ?thesis .
qed

theorem enforceNestingDepth_safe_witness:
  "1 \<le> (1 :: int) \<and> targetFits (segments structTable) 0 0 0x1000100000000"
proof -
  have run: "enforceNestingDepth (segments structTable) 1 = Inr ()" by code_simp
  have w: "wordAt (segments structTable) 0 0 = Some 0x1000100000000" "pointerKind 0x1000100000000 \<noteq> 2" by code_simp+
  have nz: "(0x1000100000000 :: 64 word) \<noteq> 0" by simp
  show ?thesis
    using enforceNestingDepth_safe [OF run _ _ _ _ reachable.root follows.here [OF w] _ nz]
    by (simp add: structTable_def)
qed

text \<open>The key under which the walk remembers a pointer separates all states as long as the depth
  fits its eight bits, and no longer at depth 256.\<close>

lemma stateKey_collides:
  "stateKey \<lparr>ps_segmentId = 0, ps_pointerWord = 2, ps_depth = 256\<rparr> =
   stateKey \<lparr>ps_segmentId = 0, ps_pointerWord = 3, ps_depth = 256\<rparr>"
  by code_simp

text \<open>A struct behind a double-far pointer: the pad in segment 1 names word 0 of segment 2.\<close>

definition doubleFar :: "bytes list" where
  "doubleFar =
     [[6, 0, 0, 0, 1, 0, 0, 0],
      [2, 0, 0, 0, 2, 0, 0, 0, 0, 0, 0, 0, 1, 0, 0, 0],
      [7, 0, 0, 0, 0, 0, 0, 0]]"

text \<open>The validator and the decoder disagree on the double-far pointer of this message:
  \<open>decodeStructPointer\<close> resolves it to its struct and reads it, \<open>validateCapnpFrame\<close> looks one word
  after the content and rejects the frame.\<close>

lemma double_far_rejected:
  "validateCapnpFrame (frameOf doubleFar) noLimits =
     Inl (ProtocolError ''struct pointer target out of range: segment={} start={} words={} segmentWords={}'' [2, 1, 1, 1]) \<and>
   decodeStructPointer \<lparr>segments = doubleFar\<rparr> \<lparr>pl_segmentId = 0, pl_wordIndex = 0\<rparr> =
     Inr (Some \<lparr>sr_segmentId = 2, sr_startWord = 0, sr_dataWordCount = 1, sr_pointerCount = 0\<rparr>) \<and>
   readU32InStruct \<lparr>segments = doubleFar\<rparr>
     \<lparr>sr_segmentId = 2, sr_startWord = 0, sr_dataWordCount = 1, sr_pointerCount = 0\<rparr> 0 = Inr 7"
  by code_simp

end
