(* ===== verification/Framer_Properties.thy ===== *)
theory Framer_Properties
  imports Frame_Framer
begin

text \<open>
  Properties of the streaming framer, for every framer that a history of calls leads to: each call
  refines its specification on the buffered bytes, and whole histories keep the stream.
\<close>

definition openOptions :: FramerOptions where
  "openOptions = \<lparr>lo_maxSegmentCount = None, lo_maxFrameBytes = None, lo_maxTraversalWords = None,
     lo_maxNestingDepth = Some (jint 4), fo_maxBufferedBytes = Some (jint 100)\<rparr>"

definition openFramer :: CapnpFrameFramer where
  "openFramer = \<lparr>fr_options = openOptions, fr_buffer = [], fr_length = 0, fr_expectedTotal = None\<rparr>"

lemma openFramer: "newFramer openOptions = Inr openFramer"
  by code_simp

definition sampleMessages :: "bytes list list" where
  "sampleMessages = [[[0, 0, 0, 0, 0, 0, 0, 0]], [[0, 0, 0, 0, 1, 0, 0, 0, 5, 6, 7, 8, 9, 10, 11, 12], []]]"

definition sampleCalls :: "framer_call list" where
  "sampleCalls =
     [Push (take 5 (concat (map frameOf sampleMessages))), Pop, Push (drop 5 (concat (map frameOf sampleMessages))), Pop]"

definition sampleFramer :: CapnpFrameFramer where
  "sampleFramer = (case runFramer openFramer sampleCalls of Inr (out, g) \<Rightarrow> g | Inl e \<Rightarrow> openFramer)"

lemma sampleRun: "runFramer openFramer sampleCalls = Inr ([frameOf (sampleMessages ! 0)], sampleFramer)"
  by code_simp

lemma samplePushed: "pushed sampleCalls = concat (map frameOf sampleMessages)"
  by (simp add: sampleCalls_def)

lemma sampleAccepted: "list_all (framerAccepts openOptions) sampleMessages"
  by code_simp

text \<open>C32: \<open>push\<close> refines its specification in every reachable state: it appends exactly the chunk to
  the buffered bytes, growing the buffer when needed, or throws the buffer-limit error and nothing
  else.\<close>

theorem push_appends:
  assumes "newFramer options = Inr f0" "runFramer f0 calls = Inr (out, f)"
  shows "bindE (push f data) (\<lambda>g. Inr (contents g)) = specPush (fr_options f0) (contents f) data"
proof -
  have "framerInv f" "fr_options f = fr_options f0"
    using runFramer_stream [OF _ assms(2)] newFramer_inv [OF assms(1)] by blast+
  then show ?thesis using push_refines [of f data] by (cases "push f data") auto
qed

theorem push_appends_witness:
  "bindE (push sampleFramer [1, 2]) (\<lambda>g. Inr (contents g)) = specPush openOptions (contents sampleFramer) [1, 2]"
  using push_appends [OF openFramer sampleRun, of "[1, 2]"] by (simp add: openFramer_def)

text \<open>C31: \<open>popFrame\<close> refines its specification in every reachable state: with the header complete and
  within the limits, and the whole frame buffered, it takes exactly the frame off the front (and
  throws after that if the frame fails validation); otherwise nothing is consumed. The cached
  total never changes the result.\<close>

theorem pop_takes_frame:
  assumes "newFramer options = Inr f0" "runFramer f0 calls = Inr (out, f)"
  shows "map_prod id contents (popFrame f) = specPop (fr_options f0) (contents f)"
proof -
  have inv: "framerInv f" "fr_options f = fr_options f0"
    using runFramer_stream [OF _ assms(2)] newFramer_inv [OF assms(1)] by blast+
  show ?thesis using popFrame_refines [OF inv(1)] inv(2) by (cases "popFrame f") auto
qed

theorem pop_takes_frame_witness:
  "map_prod id contents (popFrame sampleFramer) = (Inr (Some (frameOf (sampleMessages ! 1))), [])"
proof -
  have "specPop openOptions (contents sampleFramer) = (Inr (Some (frameOf (sampleMessages ! 1))), [])"
    by code_simp
  then show ?thesis using pop_takes_frame [OF openFramer sampleRun] by (simp add: openFramer_def)
qed

text \<open>C18: Reassembly does not depend on how the stream is cut into chunks or on when frames are
  popped: the frames popped are a prefix of the messages sent, and popping as many times as
  messages are missing yields exactly the rest and empties the buffer.\<close>

theorem framer_reassembles:
  assumes "newFramer options = Inr f0" "runFramer f0 calls = Inr (out, f)"
    and "pushed calls = concat (map frameOf msgs)" "list_all (framerAccepts (fr_options f0)) msgs"
  shows "out = take (length out) (map frameOf msgs) \<and>
    (\<exists>g. runFramer f (replicate (length msgs - length out) Pop) = Inr (drop (length out) (map frameOf msgs), g) \<and>
      contents g = [])"
proof -
  have inv0: "framerInv f0" "contents f0 = []" using newFramer_inv [OF assms(1)] by auto
  have inv: "framerInv f" "fr_options f = fr_options f0" using runFramer_stream [OF inv0(1) assms(2)] by auto
  have acc: "\<forall>segs \<in> set msgs. framerAccepts (fr_options f0) segs" using assms(4) by (simp add: list_all_iff)
  note parts = runFramer_all_frames [OF inv0(1) assms(2) _ acc, unfolded inv0(2), simplified, OF assms(3)]
  have "\<exists>g. runFramer f (replicate (length (drop (length out) msgs)) Pop) =
      Inr (map frameOf (drop (length out) msgs), g) \<and> contents g = []"
    by (rule drainFramer) (use inv parts acc in \<open>auto simp: drop_map dest: in_set_dropD\<close>)
  then show ?thesis using parts by (simp add: drop_map)
qed

theorem framer_reassembles_witness:
  "\<exists>g. runFramer sampleFramer [Pop] = Inr ([frameOf (sampleMessages ! 1)], g) \<and> contents g = []"
proof -
  have "list_all (framerAccepts (fr_options openFramer)) sampleMessages"
    using sampleAccepted by (simp add: openFramer_def)
  from framer_reassembles [OF openFramer sampleRun samplePushed this]
  show ?thesis by (simp add: sampleMessages_def)
qed

end
