(* ===== verification/Word_Memory.thy ===== *)
theory Word_Memory
  imports Pointer_Spec
begin

unbundle bit_operations_syntax

text \<open>
  A segment seen as a list of 64-bit words. The builders of the sources write fields of 2, 4 and
  8 bytes inside words and the readers read them back; here both are bit fields of a word, so
  that what an encoder leaves in a segment is a list of words and a decoder reads it by \<open>nth\<close>.
\<close>

section \<open>Words and bytes\<close>

definition wordBytes :: "64 word \<Rightarrow> bytes" where
  "wordBytes w = le_bytes 8 (unat w)"

definition bytesOf :: "64 word list \<Rightarrow> bytes" where
  "bytesOf ws = concat (map wordBytes ws)"

fun toWords :: "nat \<Rightarrow> bytes \<Rightarrow> 64 word list" where
  "toWords 0 bs = []"
| "toWords (Suc n) bs = word_of_nat (le_nat (take 8 bs)) # toWords n (drop 8 bs)"

lemma wordBytes_code [code]: "wordBytes w = int_bytes 8 (uint w)"
  by (simp add: wordBytes_def le_bytes_int)

lemma toWords_code [code]:
  "toWords 0 bs = []"
  "toWords (Suc n) bs = word_of_int (le_int (take 8 bs)) # toWords n (drop 8 bs)"
  by (simp_all flip: le_int)

lemma length_wordBytes [simp]: "length (wordBytes w) = 8"
  by (simp add: wordBytes_def)

lemma length_bytesOf [simp]: "length (bytesOf ws) = 8 * length ws"
  by (induction ws) (simp_all add: bytesOf_def)

lemma bytesOf_simps [simp]:
  "bytesOf [] = []" "bytesOf (w # ws) = wordBytes w @ bytesOf ws" "bytesOf (us @ ws) = bytesOf us @ bytesOf ws"
  by (simp_all add: bytesOf_def)

lemma wordBytes_zero [simp]: "wordBytes 0 = replicate 8 0"
  by (simp add: wordBytes_def)

lemma bytesOf_zeros: "bytesOf (replicate n 0) = replicate (8 * n) 0"
proof (induction n)
  case (Suc n)
  have "replicate (8 * Suc n) (0 :: byte) = replicate 8 0 @ replicate (8 * n) 0"
    by (simp only: mult_Suc_right replicate_add)
  then show ?case using Suc by (simp only: replicate_Suc bytesOf_simps wordBytes_zero)
qed simp

lemma unat_mod_64: "unat (w::64 word) mod 256 ^ 8 = unat w"
  using unsigned_less [of w, where 'a=nat] by simp

lemma le_nat_wordBytes: "le_nat (wordBytes w) = unat w"
  by (simp only: wordBytes_def le_nat_le_bytes unat_mod_64)

lemma wordBytes_of_nat: "length bs = 8 \<Longrightarrow> wordBytes (word_of_nat (le_nat bs)) = bs"
proof -
  assume l: "length bs = 8"
  then have "le_nat bs < 2 ^ 64" using le_nat_bound [of bs] by simp
  then have "unat (word_of_nat (le_nat bs) :: 64 word) = le_nat bs" by (simp add: unat_of_nat)
  then show ?thesis using le_bytes_le_nat [of bs] l by (simp add: wordBytes_def)
qed

lemma toWords_bytesOf: "toWords (length ws) (bytesOf ws @ rest) = ws"
  by (induction ws) (simp_all add: le_nat_wordBytes)

lemma bytesOf_toWords: "length bs = 8 * n \<Longrightarrow> bytesOf (toWords n bs) = bs"
  by (induction n arbitrary: bs) (simp_all add: wordBytes_of_nat)

lemma length_toWords [simp]: "length (toWords n bs) = n"
  by (induction n arbitrary: bs) simp_all

lemma bytesOf_inject [simp]: "bytesOf us = bytesOf ws \<longleftrightarrow> us = ws"
proof
  assume e: "bytesOf us = bytesOf ws"
  have "8 * length us = 8 * length ws" using arg_cong [OF e, of length] by (simp only: length_bytesOf)
  then have "length us = length ws" by simp
  then show "us = ws" using toWords_bytesOf [of us "[]"] toWords_bytesOf [of ws "[]"] e by simp
qed simp

lemma bytesOf_drop: "drop (8 * i) (bytesOf ws) = bytesOf (drop i ws)"
proof (induction ws arbitrary: i)
  case (Cons w ws)
  then show ?case by (cases i) simp_all
qed simp

lemma bytesOf_take: "take (8 * i) (bytesOf ws) = bytesOf (take i ws)"
proof (induction ws arbitrary: i)
  case (Cons w ws)
  then show ?case by (cases i) simp_all
qed simp

lemma bytesOf_split:
  assumes "i < length ws"
  shows "bytesOf ws = bytesOf (take i ws) @ wordBytes (ws ! i) @ bytesOf (drop (Suc i) ws)"
  using assms id_take_nth_drop [of i ws] bytesOf_simps by metis

section \<open>Bit fields\<close>

definition getField :: "nat \<Rightarrow> nat \<Rightarrow> 64 word \<Rightarrow> 64 word" where
  "getField n off w = take_bit (8 * n) (drop_bit (8 * off) w)"

definition putField :: "nat \<Rightarrow> nat \<Rightarrow> 64 word \<Rightarrow> 64 word \<Rightarrow> 64 word" where
  "putField n off v w = (w AND NOT (push_bit (8 * off) (mask (8 * n)))) OR push_bit (8 * off) (take_bit (8 * n) v)"

lemma bit_putField:
  "k < 64 \<Longrightarrow> bit (putField n off v w) k \<longleftrightarrow>
    (if 8 * off \<le> k \<and> k < 8 * off + 8 * n then bit v (k - 8 * off) else bit w k)"
  by (auto simp: putField_def bit_simps)

lemma getField_putField_same: "off + n \<le> 8 \<Longrightarrow> getField n off (putField n off v w) = take_bit (8 * n) v"
  unfolding getField_def by (rule bit_word_eqI) (auto simp: bit_simps bit_putField)

lemma getField_putField_other:
  "off + n \<le> off' \<or> off' + m \<le> off \<Longrightarrow> off' + m \<le> 8 \<Longrightarrow>
    getField m off' (putField n off v w) = getField m off' w"
  unfolding getField_def by (rule bit_word_eqI) (auto simp: bit_simps bit_putField)

lemma getField_zero [simp]: "getField n off 0 = 0"
  by (simp add: getField_def)

lemma putField_full: "putField 8 0 v w = v"
  by (rule bit_word_eqI) (simp add: bit_putField)

lemma getField_full: "getField 8 0 w = w"
  by (rule bit_word_eqI) (simp add: getField_def bit_simps)

lemma le_bytes_append: "le_bytes (a + b) v = le_bytes a v @ le_bytes b (v div 256 ^ a)"
  by (induction a arbitrary: v) (simp_all add: div_mult2_eq)

lemma le_bytes_cong: "v mod 256 ^ n = u mod 256 ^ n \<Longrightarrow> le_bytes n v = le_bytes n u"
  by (metis le_bytes_le_nat le_nat_le_bytes length_le_bytes)

lemma le_bytes_mod: "le_bytes n (v mod 256 ^ n) = le_bytes n v"
  by (rule le_bytes_cong) simp

lemma pow256: "(256::nat) ^ n = 2 ^ (8 * n)"
  by (simp add: power_mult)

lemma unat_field: "unat (getField n off w) = unat w div 256 ^ off mod 256 ^ n"
proof -
  have "unat w mod 2 ^ 64 = unat w" using unat_mod_64 [of w] by simp
  then have "unat (drop_bit (8 * off) w) = unat w div 2 ^ (8 * off)"
    unfolding unsigned_drop_bit_eq by (simp add: drop_bit_eq_div take_bit_eq_mod)
  then show ?thesis
    unfolding getField_def pow256 unsigned_take_bit_eq by (simp only: take_bit_eq_mod)
qed

lemma slice_wordBytes:
  assumes "off + n \<le> 8"
  shows "take n (drop off (wordBytes w)) = le_bytes n (unat (getField n off w))"
proof -
  have "8 = off + (n + (8 - off - n))" using assms by simp
  then have "wordBytes w = le_bytes off (unat w) @ le_bytes n (unat w div 256 ^ off) @
      le_bytes (8 - off - n) (unat w div 256 ^ off div 256 ^ n)"
    unfolding wordBytes_def by (metis le_bytes_append)
  then show ?thesis by (simp add: unat_field le_bytes_mod)
qed

lemma le_nat_slice: "off + n \<le> 8 \<Longrightarrow> le_nat (take n (drop off (wordBytes w))) = unat (getField n off w)"
proof -
  assume a: "off + n \<le> 8"
  have "unat (getField n off w) < 256 ^ n" by (simp add: unat_field)
  then show ?thesis by (simp add: slice_wordBytes [OF a] le_nat_le_bytes)
qed

text \<open>Overwriting \<open>n\<close> bytes inside a word is writing the field.\<close>

lemma overwrite_wordBytes:
  assumes "off + n \<le> 8"
  shows "take off (wordBytes w) @ le_bytes n v @ drop (off + n) (wordBytes w) =
    wordBytes (putField n off (word_of_nat v) w)"
proof -
  let ?p = "putField n off (word_of_nat v) w"
  have split: "wordBytes x = take off (wordBytes x) @ take n (drop off (wordBytes x)) @ drop (off + n) (wordBytes x)" for x
    by (metis append_take_drop_id drop_drop add.commute)
  have lo: "take off (wordBytes ?p) = take off (wordBytes w)"
    using slice_wordBytes [of 0 off ?p] slice_wordBytes [of 0 off w] assms
    by (simp add: getField_putField_other)
  have hi: "drop (off + n) (wordBytes ?p) = drop (off + n) (wordBytes w)"
    using slice_wordBytes [of "off + n" "8 - off - n" ?p] slice_wordBytes [of "off + n" "8 - off - n" w] assms
    by (simp add: getField_putField_other)
  have "unat (take_bit (8 * n) (word_of_nat v :: 64 word)) mod 256 ^ n = v mod 256 ^ n"
  proof -
    have "(256::nat) ^ n dvd 2 ^ 64"
      unfolding pow256 using assms by (intro le_imp_power_dvd) simp
    then have "v mod 2 ^ 64 mod 256 ^ n = v mod 256 ^ n" by (rule mod_mod_cancel)
    moreover have "unat (take_bit (8 * n) (word_of_nat v :: 64 word)) = v mod 2 ^ 64 mod 256 ^ n"
      unfolding unsigned_take_bit_eq pow256 by (simp add: take_bit_eq_mod unat_of_nat)
    ultimately show ?thesis by simp
  qed
  then have mid: "take n (drop off (wordBytes ?p)) = le_bytes n v"
    unfolding slice_wordBytes [OF assms] getField_putField_same [OF assms] by (rule le_bytes_cong)
  show ?thesis using split [of ?p, unfolded lo mid hi] by (rule sym)
qed

section \<open>Reading and writing a segment\<close>

lemma drop_bytesOf_word:
  assumes "i < length ws" "off \<le> 8"
  shows "drop (8 * i + off) (bytesOf ws) = drop off (wordBytes (ws ! i)) @ bytesOf (drop (Suc i) ws)"
proof -
  have "drop (8 * i + off) (bytesOf ws) = drop off (drop (8 * i) (bytesOf ws))"
    by (simp add: add.commute)
  also have "drop (8 * i) (bytesOf ws) = wordBytes (ws ! i) @ bytesOf (drop (Suc i) ws)"
    using assms(1) by (simp add: bytesOf_drop Cons_nth_drop_Suc [symmetric])
  finally show ?thesis using assms(2) by simp
qed

lemma getLE_bytesOf:
  assumes "i < length ws" "off + n \<le> 8"
  shows "getLE n (bytesOf ws @ rest) (8 * int i + int off) = Inr (unat (getField n off (ws ! i)))"
proof -
  have "nat (8 * int i + int off) = 8 * i + off" by simp
  moreover have "8 * i + off + n \<le> length (bytesOf ws)" using assms by simp
  moreover from this have "take n (drop (8 * i + off) (bytesOf ws @ rest)) = take n (drop (8 * i + off) (bytesOf ws))"
    by (rule take_drop_append_left)
  ultimately show ?thesis
    using assms by (simp add: getLE_def drop_bytesOf_word le_nat_slice)
qed

lemma setLE_bytesOf:
  assumes "i < length ws" "off + n \<le> 8"
  shows "setLE n (bytesOf ws @ rest) (8 * int i + int off) v =
    Inr (bytesOf (ws[i := putField n off (word_of_nat v) (ws ! i)]) @ rest)"
proof -
  let ?w = "ws ! i" and ?A = "bytesOf (take i ws)" and ?B = "bytesOf (drop (Suc i) ws) @ rest"
  have b: "bytesOf ws @ rest = ?A @ wordBytes ?w @ ?B"
    using bytesOf_split [OF assms(1)] by simp
  have A: "length ?A = 8 * i" using assms(1) by simp
  have k: "nat (8 * int i + int off) = 8 * i + off" by simp
  have fits: "8 * i + off + n \<le> length (bytesOf ws @ rest)" using assms by simp
  have "take (8 * i + off) (bytesOf ws @ rest) = ?A @ take off (wordBytes ?w)"
    unfolding b using A assms(2) by simp
  moreover have "drop (8 * i + off + n) (bytesOf ws @ rest) = drop (off + n) (wordBytes ?w) @ ?B"
    unfolding b using A assms(2) by simp
  ultimately have "setLE n (bytesOf ws @ rest) (8 * int i + int off) v =
      Inr (?A @ (take off (wordBytes ?w) @ le_bytes n v @ drop (off + n) (wordBytes ?w)) @ ?B)"
    using fits by (simp add: setLE_def setBytes_def k del: append_take_drop_id)
  also have "\<dots> = Inr (bytesOf (ws[i := putField n off (word_of_nat v) ?w]) @ rest)"
    unfolding overwrite_wordBytes [OF assms(2)] using assms(1)
    by (simp add: upd_conv_take_nth_drop)
  finally show ?thesis .
qed

lemma wordAt_bytesOf:
  "wordAt [bytesOf ws] 0 i = (if 0 \<le> i \<and> i < int (length ws) then Some (ws ! nat i) else None)"
proof (cases "0 \<le> i \<and> i < int (length ws)")
  case True
  then obtain k where k: "i = int k" "k < length ws" using zero_le_imp_eq_int by force
  have "getLE 8 (bytesOf ws @ []) (8 * int k + int 0) = Inr (unat (getField 8 0 (ws ! k)))"
    using k by (intro getLE_bytesOf) auto
  then have "getBigUint64 (bytesOf ws) (int k * 8) = Inr (ws ! k)"
    by (simp add: getBigUint64_def getField_full mult.commute)
  then show ?thesis using k by (simp add: wordAt_getBigUint64)
next
  case False
  then show ?thesis by (auto simp: wordAt_def)
qed

end
