(* ===== verification/Word_Builder.thy ===== *)
theory Word_Builder
  imports Word_Memory "HOL-Library.While_Combinator"
begin

unbundle bit_operations_syntax

text \<open>
  What the three growable single-segment buffers of the sources share: the doubling loop of
  \<open>ensureCapacity\<close>, and the interface \<open>word_builder\<close> of a buffer that allocates words at its end
  and writes words in range. The state of each buffer is a function of the words written so far
  (its capacity is the least power of two that holds them), so the laws are equations on the
  state \<open>conc ws\<close> that holds the words \<open>ws\<close>.
\<close>

section \<open>Growing\<close>

text \<open>\<open>while (next < requiredBytes) next *= 2\<close>; \<open>None\<close> when the loop does not end.\<close>

definition doubleUntil :: "int \<Rightarrow> int \<Rightarrow> int option" where
  "doubleUntil requiredBytes next = while_option (\<lambda>n. n < requiredBytes) (\<lambda>n. n * 2) next"

definition growBytes :: "bytes \<Rightarrow> int \<Rightarrow> bytes result" where
  "growBytes bs requiredBytes =
     (if requiredBytes \<le> int (length bs) then Inr bs
      else case doubleUntil requiredBytes (int (length bs)) of
             None \<Rightarrow> Inl Diverges
           | Some next \<Rightarrow> setBytes (replicate (nat next) 0) bs 0)"

definition capWords :: "nat \<Rightarrow> nat" where
  "capWords n = 2 ^ (LEAST k. n \<le> 2 ^ k)"

lemma capWords_exp: "\<exists>k. n \<le> (2::nat) ^ k"
  by (rule exI [of _ n]) (simp add: less_imp_le)

lemma capWords_ge: "n \<le> capWords n"
  unfolding capWords_def by (rule LeastI_ex [OF capWords_exp])

lemma capWords_mono_exp: "m \<le> n \<Longrightarrow> (LEAST k. m \<le> (2::nat) ^ k) \<le> (LEAST k. n \<le> 2 ^ k)"
  by (rule Least_le) (use LeastI_ex [OF capWords_exp, of n] in linarith)

lemma capWords_least: "j < (LEAST k. n \<le> (2::nat) ^ k) \<Longrightarrow> 2 ^ j < n"
  using not_less_Least [of j "\<lambda>k. n \<le> (2::nat) ^ k"] by simp

lemma capWords_1 [simp]: "capWords (Suc 0) = 1"
proof -
  have "(LEAST k. Suc 0 \<le> (2::nat) ^ k) = 0" by (rule Least_equality) simp_all
  then show ?thesis by (simp only: capWords_def) simp
qed

lemma doubleUntil_pow:
  assumes "j \<le> (LEAST k. n \<le> (2::nat) ^ k)"
  shows "doubleUntil (8 * int n) (8 * 2 ^ j) = Some (8 * int (capWords n))"
  using assms
proof (induction "(LEAST k. n \<le> (2::nat) ^ k) - j" arbitrary: j)
  case 0
  then have "capWords n = 2 ^ j" by (simp add: capWords_def)
  moreover from this capWords_ge [of n] have "\<not> 8 * (2::int) ^ j < 8 * int n"
    by (metis mult_le_cancel_left_pos not_less of_nat_le_iff of_nat_numeral of_nat_power zero_less_numeral)
  ultimately show ?case by (subst doubleUntil_def, subst while_option_unfold) simp
next
  case (Suc d)
  then have "2 ^ j < n" by (intro capWords_least) simp
  then have "8 * (2::int) ^ j < 8 * int n"
    by (metis mult_less_cancel_left_pos of_nat_less_iff of_nat_numeral of_nat_power zero_less_numeral)
  then have "doubleUntil (8 * int n) (8 * 2 ^ j) = doubleUntil (8 * int n) (8 * 2 ^ Suc j)"
    by (subst doubleUntil_def, subst while_option_unfold) (simp add: doubleUntil_def)
  also have "\<dots> = Some (8 * int (capWords n))" using Suc by (intro Suc.hyps(1)) simp_all
  finally show ?case .
qed

text \<open>The buffer that holds \<open>ws\<close>, and what growing it for more words gives.\<close>

definition heapOf :: "64 word list \<Rightarrow> bytes" where
  "heapOf ws = bytesOf ws @ replicate (8 * (capWords (length ws) - length ws)) 0"

lemma length_heapOf [simp]: "length (heapOf ws) = 8 * capWords (length ws)"
  using capWords_ge [of "length ws"] by (simp add: heapOf_def)

lemma take_heapOf [simp]: "take (8 * length ws) (heapOf ws) = bytesOf ws"
  by (simp add: heapOf_def)

lemma replicate_mult_add: "replicate (8 * a) (0::byte) @ replicate (8 * b) 0 = replicate (8 * (a + b)) 0"
  by (simp only: replicate_add [symmetric] distrib_left)

lemma growBytes_heapOf:
  "growBytes (heapOf ws) (8 * int (length ws + n)) = Inr (heapOf (ws @ replicate n 0))"
proof (cases "8 * int (length ws + n) \<le> int (length (heapOf ws))")
  case True
  let ?m = "length ws"
  have le: "?m + n \<le> capWords ?m" using True by simp
  have "capWords (?m + n) = capWords ?m"
  proof -
    have "(LEAST k. ?m + n \<le> (2::nat) ^ k) \<le> (LEAST k. ?m \<le> 2 ^ k)"
      by (rule Least_le) (use le in \<open>simp add: capWords_def\<close>)
    then show ?thesis using capWords_mono_exp [of ?m "?m + n"] by (simp add: capWords_def)
  qed
  moreover have "capWords ?m - ?m = n + (capWords ?m - (?m + n))" using le by simp
  ultimately have "heapOf (ws @ replicate n 0) = heapOf ws"
    by (simp add: heapOf_def bytesOf_zeros replicate_mult_add)
  then show ?thesis using True by (simp only: growBytes_def if_True)
next
  case False
  let ?m = "length ws"
  have "doubleUntil (8 * int (?m + n)) (8 * 2 ^ (LEAST k. ?m \<le> (2::nat) ^ k)) = Some (8 * int (capWords (?m + n)))"
    by (rule doubleUntil_pow) (simp add: capWords_mono_exp)
  then have d: "doubleUntil (8 * int (?m + n)) (int (length (heapOf ws))) = Some (8 * int (capWords (?m + n)))"
    by (simp add: capWords_def)
  have le: "capWords ?m \<le> capWords (?m + n)"
    unfolding capWords_def by (intro power_increasing capWords_mono_exp) simp_all
  have ge: "?m + n \<le> capWords (?m + n)" "?m \<le> capWords ?m" by (rule capWords_ge)+
  have nn: "nat (8 * int (capWords (?m + n))) = 8 * capWords (?m + n)" by simp
  have "setBytes (replicate (nat (8 * int (capWords (?m + n)))) 0) (heapOf ws) 0 =
      Inr (heapOf ws @ replicate (8 * capWords (?m + n) - 8 * capWords ?m) 0)"
    using le unfolding nn by (simp add: setBytes_def)
  also have "8 * capWords (?m + n) - 8 * capWords ?m = 8 * (capWords (?m + n) - capWords ?m)"
    by (simp add: diff_mult_distrib2)
  also have "heapOf ws @ replicate (8 * (capWords (?m + n) - capWords ?m)) 0 = heapOf (ws @ replicate n 0)"
    using ge le by (simp add: heapOf_def bytesOf_zeros replicate_mult_add)
  finally show ?thesis using False d by (simp only: growBytes_def if_False option.case)
qed

lemma heapOf_update:
  assumes "i < length ws" "off + n \<le> 8"
  shows "setLE n (heapOf ws) (8 * int i + int off) v = Inr (heapOf (ws[i := putField n off (word_of_nat v) (ws ! i)]))"
  unfolding heapOf_def setLE_bytesOf [OF assms] by simp

section \<open>The interface of a builder\<close>

text \<open>Writing the words \<open>vs\<close> one by one from a position on, with the builder's word writer.\<close>

fun writeWords :: "('b \<Rightarrow> int \<Rightarrow> 64 word \<Rightarrow> 'b result) \<Rightarrow> 'b \<Rightarrow> int \<Rightarrow> 64 word list \<Rightarrow> 'b result" where
  "writeWords writeTo b i [] = Inr b"
| "writeWords writeTo b i (v # vs) = bindE (writeTo b i v) (\<lambda>b'. writeWords writeTo b' (i + 1) vs)"

locale word_builder =
  fixes conc :: "64 word list \<Rightarrow> 'b"
    and alloc :: "'b \<Rightarrow> int \<Rightarrow> (int \<times> 'b) result"
    and writeTo :: "'b \<Rightarrow> int \<Rightarrow> 64 word \<Rightarrow> 'b result"
  assumes alloc_conc: "alloc (conc ws) (int n) = Inr (int (length ws), conc (ws @ replicate n 0))"
    and write_conc: "i < length ws \<Longrightarrow> writeTo (conc ws) (int i) w = Inr (conc (ws[i := w]))"
begin

lemma writeWords_conc:
  "i + length vs \<le> length ws \<Longrightarrow>
    writeWords writeTo (conc ws) (int i) vs = Inr (conc (take i ws @ vs @ drop (i + length vs) ws))"
proof (induction vs arbitrary: ws i)
  case (Cons v vs)
  have "writeWords writeTo (conc (ws[i := v])) (int (Suc i)) vs =
      Inr (conc (take (Suc i) (ws[i := v]) @ vs @ drop (Suc i + length vs) (ws[i := v])))"
    using Cons.IH [of "Suc i" "ws[i := v]"] Cons.prems by simp
  moreover have "take (Suc i) (ws[i := v]) = take i ws @ [v]"
    using Cons.prems by (simp add: take_Suc_conv_app_nth)
  ultimately show ?case using Cons.prems by (simp add: write_conc add.commute)
qed simp

lemma alloc_then_writeWords:
  "bindE (alloc (conc ws) (int (length vs))) (\<lambda>(start, b). writeWords writeTo b start vs) = Inr (conc (ws @ vs))"
  using writeWords_conc [of "length ws" vs "ws @ replicate (length vs) 0"] by (simp add: alloc_conc)

end

section \<open>Bytes in fresh words\<close>

definition padWords :: "nat \<Rightarrow> bytes \<Rightarrow> 64 word list" where
  "padWords n bs = toWords n (bs @ replicate (8 * n - length bs) 0)"

lemma length_padWords [simp]: "length (padWords n bs) = n"
  by (simp add: padWords_def)

lemma bytesOf_padWords: "length bs \<le> 8 * n \<Longrightarrow> bytesOf (padWords n bs) = bs @ replicate (8 * n - length bs) 0"
  by (simp add: padWords_def bytesOf_toWords)

lemma setBytes_fresh:
  assumes "length bs \<le> 8 * n"
  shows "setBytes (heapOf (ws @ replicate n 0 @ us)) bs (8 * int (length ws)) = Inr (heapOf (ws @ padWords n bs @ us))"
proof -
  let ?z = "replicate (8 * (capWords (length ws + (n + length us)) - (length ws + (n + length us)))) (0::byte)"
  have "heapOf (ws @ replicate n 0 @ us) = bytesOf ws @ replicate (8 * n) 0 @ bytesOf us @ ?z"
    by (simp add: heapOf_def bytesOf_zeros)
  moreover have "heapOf (ws @ padWords n bs @ us) = bytesOf ws @ (bs @ replicate (8 * n - length bs) 0) @ bytesOf us @ ?z"
    using assms by (simp add: heapOf_def bytesOf_padWords)
  ultimately show ?thesis using assms by (simp add: setBytes_def nat_mult_distrib)
qed

text \<open>The bytes of a block written by \<open>writeBytes\<close>.\<close>

lemma slice_words:
  assumes "length bs \<le> 8 * m" "n \<le> 8 * m"
  shows "subarray (bytesOf (us @ padWords m bs @ ws)) (int (length us) * 8) (int (length us) * 8 + int n) =
    take n (bs @ replicate (8 * m - length bs) 0)"
proof -
  have k: "nat (int (length us) * 8) = length (bytesOf us)" by simp
  have "drop (nat (int (length us) * 8)) (bytesOf (us @ padWords m bs @ ws)) = bytesOf (padWords m bs) @ bytesOf ws"
    unfolding k bytesOf_simps by simp
  then show ?thesis using assms by (simp add: subarray_def bytesOf_padWords)
qed

lemma text_words: "length bs \<le> 8 * nat (ceilDiv (int (length bs) + 1) 8)"
  "length bs + 1 \<le> 8 * nat (ceilDiv (int (length bs) + 1) 8)"
  "nat (ceilDiv (int (length bs) + 1) 8) \<le> length bs + 1"
proof -
  have "int (length bs) + 1 \<le> ceilDiv (int (length bs) + 1) 8 * 8" by (rule ceilDiv_upper) simp
  moreover have "ceilDiv (int (length bs) + 1) 8 * 8 < int (length bs) + 1 + 8" by (rule ceilDiv_lower) simp
  ultimately show "length bs \<le> 8 * nat (ceilDiv (int (length bs) + 1) 8)"
    "length bs + 1 \<le> 8 * nat (ceilDiv (int (length bs) + 1) 8)"
    "nat (ceilDiv (int (length bs) + 1) 8) \<le> length bs + 1" by linarith+
qed

end
