(* ===== verification/Wire_Builder.thy ===== *)
theory Wire_Builder
  imports Word_Builder Frame_Layout
begin

unbundle bit_operations_syntax

text \<open>
  \<open>RpcWireMessageBuilder\<close> of \<open>src/rpc/wire/encode.ts\<close>. Its cached \<open>DataView\<close> is a view of the
  current bytes (it is dropped whenever they are replaced) and is not part of the state here.
  Word and byte positions are integers, as all callers pass; \<open>allocWords\<close> checks its argument
  and takes any number.
\<close>

record RpcWireMessageBuilder =
  rb_bytes :: bytes
  rb_words :: int

definition newRpcWireMessageBuilder :: RpcWireMessageBuilder where
  "newRpcWireMessageBuilder = \<lparr>rb_bytes = replicate (nat WORD_BYTES) 0, rb_words = 1\<rparr>"

definition rbAllocWords :: "RpcWireMessageBuilder \<Rightarrow> number \<Rightarrow> (int \<times> RpcWireMessageBuilder) result" where
  "rbAllocWords b count =
     (if \<not> isInteger count \<or> numLess count (jint 0)
      then Inl (ProtocolError ''allocWords requires non-negative integer, got {}'' [toInt count])
      else let start = rb_words b; words = rb_words b + toInt count
           in bindE (growBytes (rb_bytes b) (words * WORD_BYTES)) (\<lambda>bs.
              Inr (start, b\<lparr>rb_bytes := bs, rb_words := words\<rparr>)))"

definition rbRequireWordRange :: "RpcWireMessageBuilder \<Rightarrow> int \<Rightarrow> int \<Rightarrow> string \<Rightarrow> unit result" where
  "rbRequireWordRange b wordIndex count context =
     (if wordIndex < 0 \<or> count < 0 \<or> wordIndex + count > rb_words b
      then Inl (ProtocolError (context @ '' out of range: word={} count={} words={}'')
             [wordIndex, count, rb_words b])
      else Inr ())"

definition rbRequireByteInWordRange :: "RpcWireMessageBuilder \<Rightarrow> int \<Rightarrow> int \<Rightarrow> int \<Rightarrow> string \<Rightarrow> unit result" where
  "rbRequireByteInWordRange b wordIndex byteOffset len context =
     bindE (rbRequireWordRange b wordIndex 1 context) (\<lambda>_.
       if byteOffset < 0 \<or> byteOffset + len > WORD_BYTES
       then Inl (ProtocolError (context @ '' byte offset out of range'') []) else Inr ())"

definition rbRequireByteRange :: "RpcWireMessageBuilder \<Rightarrow> int \<Rightarrow> int \<Rightarrow> string \<Rightarrow> unit result" where
  "rbRequireByteRange b byteOffset len context =
     (let end' = byteOffset + len
      in if byteOffset < 0 \<or> len < 0 \<or> end' > rb_words b * WORD_BYTES
         then Inl (ProtocolError (context @ '' out of range: offset={} len={} bytes={}'')
                [byteOffset, len, rb_words b * WORD_BYTES])
         else Inr ())"

definition rbWriteWord :: "RpcWireMessageBuilder \<Rightarrow> int \<Rightarrow> 64 word \<Rightarrow> RpcWireMessageBuilder result" where
  "rbWriteWord b wordIndex value =
     bindE (rbRequireWordRange b wordIndex 1 ''writeWord'') (\<lambda>_.
     bindE (setBigUint64 (rb_bytes b) (wordIndex * WORD_BYTES) value) (\<lambda>bs. Inr (b\<lparr>rb_bytes := bs\<rparr>)))"

definition rbWriteU16 :: "RpcWireMessageBuilder \<Rightarrow> int \<Rightarrow> int \<Rightarrow> int \<Rightarrow> RpcWireMessageBuilder result" where
  "rbWriteU16 b wordIndex byteOffset value =
     bindE (rbRequireByteInWordRange b wordIndex byteOffset 2 ''writeU16'') (\<lambda>_.
     bindE (setUint16 (rb_bytes b) (wordIndex * WORD_BYTES + byteOffset) value) (\<lambda>bs. Inr (b\<lparr>rb_bytes := bs\<rparr>)))"

definition rbWriteU32 :: "RpcWireMessageBuilder \<Rightarrow> int \<Rightarrow> int \<Rightarrow> int \<Rightarrow> RpcWireMessageBuilder result" where
  "rbWriteU32 b wordIndex byteOffset value =
     bindE (rbRequireByteInWordRange b wordIndex byteOffset 4 ''writeU32'') (\<lambda>_.
     bindE (setUint32 (rb_bytes b) (wordIndex * WORD_BYTES + byteOffset) (value mod 2 ^ 32)) (\<lambda>bs.
     Inr (b\<lparr>rb_bytes := bs\<rparr>)))"

definition rbWriteU64 :: "RpcWireMessageBuilder \<Rightarrow> int \<Rightarrow> int \<Rightarrow> 64 word \<Rightarrow> RpcWireMessageBuilder result" where
  "rbWriteU64 b wordIndex byteOffset value =
     bindE (rbRequireByteInWordRange b wordIndex byteOffset 8 ''writeU64'') (\<lambda>_.
     bindE (setBigUint64 (rb_bytes b) (wordIndex * WORD_BYTES + byteOffset) value) (\<lambda>bs. Inr (b\<lparr>rb_bytes := bs\<rparr>)))"

definition rbWriteBytes :: "RpcWireMessageBuilder \<Rightarrow> int \<Rightarrow> int \<Rightarrow> bytes \<Rightarrow> RpcWireMessageBuilder result" where
  "rbWriteBytes b wordIndex byteOffset value =
     (let absolute = wordIndex * WORD_BYTES + byteOffset
      in bindE (rbRequireByteRange b absolute (int (length value)) ''writeBytes'') (\<lambda>_.
         bindE (setBytes (rb_bytes b) value absolute) (\<lambda>bs. Inr (b\<lparr>rb_bytes := bs\<rparr>))))"

definition rbCopyWords :: "RpcWireMessageBuilder \<Rightarrow> int \<Rightarrow> bytes \<Rightarrow> RpcWireMessageBuilder result" where
  "rbCopyWords b wordIndex value =
     (if int (length value) mod WORD_BYTES \<noteq> 0
      then Inl (ProtocolError ''copyWords requires word-aligned input, got {}'' [int (length value)])
      else let wordCount = int (length value) div WORD_BYTES
           in bindE (rbRequireWordRange b wordIndex wordCount ''copyWords'') (\<lambda>_.
              bindE (setBytes (rb_bytes b) value (wordIndex * WORD_BYTES)) (\<lambda>bs. Inr (b\<lparr>rb_bytes := bs\<rparr>))))"

definition rbSetStructPointer ::
  "RpcWireMessageBuilder \<Rightarrow> int \<Rightarrow> int \<Rightarrow> int \<Rightarrow> int \<Rightarrow> RpcWireMessageBuilder result" where
  "rbSetStructPointer b pointerWord targetWord dataWordCount pointerCount =
     (let offset = targetWord - (pointerWord + 1)
      in bindE (encodeSigned30 offset) (\<lambda>enc.
         rbWriteWord b pointerWord
           (structPointerWord enc (word_of_int (dataWordCount AND 0xffff)) (word_of_int (pointerCount AND 0xffff)))))"

definition rbSetListPointer ::
  "RpcWireMessageBuilder \<Rightarrow> int \<Rightarrow> int \<Rightarrow> int \<Rightarrow> int \<Rightarrow> RpcWireMessageBuilder result" where
  "rbSetListPointer b pointerWord targetWord elementSize count =
     (let offset = targetWord - (pointerWord + 1)
      in bindE (encodeSigned30 offset) (\<lambda>enc.
         rbWriteWord b pointerWord
           (listPointerWord enc (word_of_int (elementSize AND 0x7)) (word_of_int (count AND 0x1fffffff)))))"

definition rbToMessageBytes :: "RpcWireMessageBuilder \<Rightarrow> bytes result" where
  "rbToMessageBytes b =
     (let segmentBytes = rb_words b * WORD_BYTES;
          out = replicate (nat (8 + segmentBytes)) 0
      in bindE (setUint32 out 0 0) (\<lambda>out.
         bindE (setUint32 out 4 (rb_words b)) (\<lambda>out.
         setBytes out (subarray (rb_bytes b) 0 segmentBytes) 8)))"

section \<open>The state as the words written\<close>

definition rb :: "64 word list \<Rightarrow> RpcWireMessageBuilder" where
  "rb ws = \<lparr>rb_bytes = heapOf ws, rb_words = int (length ws)\<rparr>"

lemma newRpcWireMessageBuilder_rb: "newRpcWireMessageBuilder = rb [0]"
  by (simp add: newRpcWireMessageBuilder_def rb_def heapOf_def)

lemma rbAllocWords_rb [simp]:
  "rbAllocWords (rb ws) (jint (int n)) = Inr (int (length ws), rb (ws @ replicate n 0))"
  using growBytes_heapOf [of ws n] by (simp add: rbAllocWords_def rb_def Let_def algebra_simps)

lemma rbWriteWord_rb [simp]:
  assumes "i < length ws"
  shows "rbWriteWord (rb ws) (int i) w = Inr (rb (ws[i := w]))"
  using heapOf_update [OF assms, of 0 8 "unat w"] assms
  by (simp add: rbWriteWord_def rbRequireWordRange_def setBigUint64_def putField_full rb_def mult.commute)

lemma rbWriteWord_out:
  "\<not> (0 \<le> i \<and> i < int (length ws)) \<Longrightarrow>
   rbWriteWord (rb ws) i w = Inl (ProtocolError ''writeWord out of range: word={} count={} words={}'' [i, 1, int (length ws)])"
  by (auto simp: rbWriteWord_def rbRequireWordRange_def rb_def)

interpretation rpcBuilder: word_builder rb "\<lambda>b n. rbAllocWords b (jint n)" rbWriteWord
  by unfold_locales simp_all

lemma rbWriteU16_rb:
  assumes "i < length ws" "off + 2 \<le> 8"
  shows "rbWriteU16 (rb ws) (int i) (int off) v = Inr (rb (ws[i := putField 2 off (word_of_int (v mod 2 ^ 16)) (ws ! i)]))"
proof -
  have "(word_of_nat (nat (v mod 2 ^ 16)) :: 64 word) = word_of_int (v mod 2 ^ 16)" by (simp add: of_nat_nat)
  then show ?thesis
    using heapOf_update [OF assms, of "nat (v mod 2 ^ 16)"] assms
    by (simp add: rbWriteU16_def rbRequireByteInWordRange_def rbRequireWordRange_def setUint16_def rb_def mult.commute)
qed

lemma rbWriteU32_rb:
  assumes "i < length ws" "off + 4 \<le> 8"
  shows "rbWriteU32 (rb ws) (int i) (int off) v = Inr (rb (ws[i := putField 4 off (word_of_int (v mod 2 ^ 32)) (ws ! i)]))"
proof -
  have "(word_of_nat (nat (v mod 2 ^ 32)) :: 64 word) = word_of_int (v mod 2 ^ 32)" by (simp add: of_nat_nat)
  then show ?thesis
    using heapOf_update [OF assms, of "nat (v mod 2 ^ 32)"] assms
    by (simp add: rbWriteU32_def rbRequireByteInWordRange_def rbRequireWordRange_def setUint32_def rb_def mult.commute)
qed

lemma rbWriteU64_rb:
  assumes "i < length ws"
  shows "rbWriteU64 (rb ws) (int i) 0 v = Inr (rb (ws[i := v]))"
  using heapOf_update [OF assms, of 0 8 "unat v"] assms
  by (simp add: rbWriteU64_def rbRequireByteInWordRange_def rbRequireWordRange_def setBigUint64_def putField_full rb_def mult.commute)

lemma rbSetStructPointer_rb:
  assumes "i < length ws" "inOffsetRange (t - (int i + 1))" "0 \<le> d" "d < 2 ^ 16" "0 \<le> p" "p < 2 ^ 16"
  shows "rbSetStructPointer (rb ws) (int i) t d p = Inr (rb (ws[i := structPtr (t - (int i + 1)) d p]))"
  using assms by (simp add: rbSetStructPointer_def and_mask_small structPtr_def Let_def)

lemma rbSetListPointer_rb:
  assumes "i < length ws" "inOffsetRange (t - (int i + 1))" "0 \<le> sz" "sz < 2 ^ 3" "0 \<le> n" "n < 2 ^ 29"
  shows "rbSetListPointer (rb ws) (int i) t sz n = Inr (rb (ws[i := listPtr (t - (int i + 1)) sz n]))"
  using assms by (simp add: rbSetListPointer_def and_mask_small listPtr_def Let_def)

lemma rbWriteBytes_rb:
  assumes "length bs \<le> 8 * n"
  shows "rbWriteBytes (rb (ws @ replicate n 0 @ us)) (int (length ws)) 0 bs = Inr (rb (ws @ padWords n bs @ us))"
  using setBytes_fresh [OF assms, of ws us] assms
  by (simp add: rbWriteBytes_def rbRequireByteRange_def rb_def mult.commute Let_def)

lemma rbToMessageBytes_rb:
  assumes "length ws < 2 ^ 32"
  shows "rbToMessageBytes (rb ws) = Inr (frameOf [bytesOf ws])"
proof -
  have "subarray (heapOf ws) 0 (int (length ws) * 8) = bytesOf ws"
    using take_heapOf [of ws] by (simp add: subarray_def nat_mult_distrib mult.commute)
  moreover have "nat (8 + int (length ws) * 8) = 8 + length (bytesOf ws)" by simp
  ultimately show ?thesis
    using write_single_frame [of "bytesOf ws" "length ws"] assms
    by (simp add: rbToMessageBytes_def rb_def Let_def del: replicate.simps)
qed

lemma alignedSeg_bytesOf: "length ws < 2 ^ 32 \<Longrightarrow> alignedSeg (bytesOf ws)"
  by (simp add: alignedSeg_def segWords_def)

lemma segmentsFromFrame_bytesOf:
  "length ws < 2 ^ 32 \<Longrightarrow> segmentsFromFrame (frameOf [bytesOf ws]) = Inr \<lparr>segments = [bytesOf ws]\<rparr>"
  using segmentsFromFrame_frameOf [of "[bytesOf ws]" "[]"] by (simp add: wfSegs_def alignedSeg_bytesOf)

end
