(* ===== verification/Rpc_Messages.thy ===== *)
theory Rpc_Messages
  imports Wire_Builder Wire_Pointers
begin

text \<open>
  The messages of \<open>src/rpc/wire/types.ts\<close> and the constants of the schema the sources import
  from \<open>src/rpc/gen/capnp/rpc_wire_constants.ts\<close>. The records are over the type of their
  numbers: \<open>number\<close> in a request the caller makes, \<open>int\<close> in what a decoder returns. An optional
  property is an option, the union of call targets a datatype.
\<close>

section \<open>Constants\<close>

abbreviation (input) "RPC_MESSAGE_TAG_CALL \<equiv> 2 :: int"
abbreviation (input) "RPC_MESSAGE_TAG_RETURN \<equiv> 3 :: int"
abbreviation (input) "RPC_MESSAGE_TAG_FINISH \<equiv> 4 :: int"
abbreviation (input) "RPC_MESSAGE_TAG_RELEASE \<equiv> 6 :: int"
abbreviation (input) "RPC_MESSAGE_TAG_BOOTSTRAP \<equiv> 8 :: int"
abbreviation (input) "RPC_CALL_TARGET_TAG_IMPORTED_CAP \<equiv> 0 :: int"
abbreviation (input) "RPC_CALL_TARGET_TAG_PROMISED_ANSWER \<equiv> 1 :: int"
abbreviation (input) "RPC_PROMISED_ANSWER_OP_TAG_NOOP \<equiv> 0 :: int"
abbreviation (input) "RPC_PROMISED_ANSWER_OP_TAG_GET_POINTER_FIELD \<equiv> 1 :: int"
abbreviation (input) "RETURN_TAG_RESULTS \<equiv> 0 :: int"
abbreviation (input) "RETURN_TAG_EXCEPTION \<equiv> 1 :: int"
abbreviation (input) "CAP_DESCRIPTOR_TAG_SENDER_HOSTED \<equiv> 1 :: int"
abbreviation (input) "CAP_DESCRIPTOR_TAG_THIRD_PARTY_HOSTED \<equiv> 5 :: int"
abbreviation (input) "MESSAGE_DATA_WORD_COUNT \<equiv> 1 :: int"
abbreviation (input) "MESSAGE_POINTER_COUNT \<equiv> 1 :: int"
abbreviation (input) "MESSAGE_UNION_TAG_BYTE_OFFSET \<equiv> 0 :: int"
abbreviation (input) "MESSAGE_VARIANT_POINTER_INDEX \<equiv> 0 :: int"
abbreviation (input) "BOOTSTRAP_DATA_WORD_COUNT \<equiv> 1 :: int"
abbreviation (input) "BOOTSTRAP_POINTER_COUNT \<equiv> 1 :: int"
abbreviation (input) "BOOTSTRAP_QUESTION_ID_BYTE_OFFSET \<equiv> 0 :: int"
abbreviation (input) "CALL_DATA_WORD_COUNT \<equiv> 3 :: int"
abbreviation (input) "CALL_POINTER_COUNT \<equiv> 3 :: int"
abbreviation (input) "CALL_QUESTION_ID_BYTE_OFFSET \<equiv> 0 :: int"
abbreviation (input) "CALL_INTERFACE_ID_BYTE_OFFSET \<equiv> 8 :: int"
abbreviation (input) "CALL_METHOD_ID_BYTE_OFFSET \<equiv> 4 :: int"
abbreviation (input) "CALL_SEND_RESULTS_TO_TAG_BYTE_OFFSET \<equiv> 6 :: int"
abbreviation (input) "CALL_SEND_RESULTS_TO_TAG_CALLER \<equiv> 0 :: int"
abbreviation (input) "CALL_TARGET_POINTER_INDEX \<equiv> 0 :: int"
abbreviation (input) "CALL_PARAMS_POINTER_INDEX \<equiv> 1 :: int"
abbreviation (input) "MESSAGE_TARGET_DATA_WORD_COUNT \<equiv> 1 :: int"
abbreviation (input) "MESSAGE_TARGET_POINTER_COUNT \<equiv> 1 :: int"
abbreviation (input) "MESSAGE_TARGET_TAG_BYTE_OFFSET \<equiv> 4 :: int"
abbreviation (input) "MESSAGE_TARGET_IMPORTED_CAP_BYTE_OFFSET \<equiv> 0 :: int"
abbreviation (input) "MESSAGE_TARGET_PROMISED_ANSWER_POINTER_INDEX \<equiv> 0 :: int"
abbreviation (input) "PROMISED_ANSWER_DATA_WORD_COUNT \<equiv> 1 :: int"
abbreviation (input) "PROMISED_ANSWER_POINTER_COUNT \<equiv> 1 :: int"
abbreviation (input) "PROMISED_ANSWER_QUESTION_ID_BYTE_OFFSET \<equiv> 0 :: int"
abbreviation (input) "PROMISED_ANSWER_TRANSFORM_POINTER_INDEX \<equiv> 0 :: int"
abbreviation (input) "PROMISED_ANSWER_OP_DATA_WORD_COUNT \<equiv> 1 :: int"
abbreviation (input) "PROMISED_ANSWER_OP_POINTER_COUNT \<equiv> 0 :: int"
abbreviation (input) "PROMISED_ANSWER_OP_TAG_BYTE_OFFSET \<equiv> 0 :: int"
abbreviation (input) "PROMISED_ANSWER_OP_GET_POINTER_FIELD_BYTE_OFFSET \<equiv> 2 :: int"
abbreviation (input) "RETURN_DATA_WORD_COUNT \<equiv> 2 :: int"
abbreviation (input) "RETURN_POINTER_COUNT \<equiv> 1 :: int"
abbreviation (input) "RETURN_ANSWER_ID_BYTE_OFFSET \<equiv> 0 :: int"
abbreviation (input) "RETURN_FLAGS_BYTE_OFFSET \<equiv> 4 :: int"
abbreviation (input) "RETURN_RELEASE_PARAM_CAPS_FLAG_MASK \<equiv> 1 :: int"
abbreviation (input) "RETURN_NO_FINISH_NEEDED_FLAG_MASK \<equiv> 2 :: int"
abbreviation (input) "RETURN_TAG_BYTE_OFFSET \<equiv> 6 :: int"
abbreviation (input) "RETURN_VARIANT_POINTER_INDEX \<equiv> 0 :: int"
abbreviation (input) "PAYLOAD_DATA_WORD_COUNT \<equiv> 0 :: int"
abbreviation (input) "PAYLOAD_POINTER_COUNT \<equiv> 2 :: int"
abbreviation (input) "PAYLOAD_CONTENT_POINTER_INDEX \<equiv> 0 :: int"
abbreviation (input) "PAYLOAD_CAP_TABLE_POINTER_INDEX \<equiv> 1 :: int"
abbreviation (input) "FINISH_DATA_WORD_COUNT \<equiv> 1 :: int"
abbreviation (input) "FINISH_POINTER_COUNT \<equiv> 0 :: int"
abbreviation (input) "FINISH_QUESTION_ID_BYTE_OFFSET \<equiv> 0 :: int"
abbreviation (input) "FINISH_FLAGS_BYTE_OFFSET \<equiv> 4 :: int"
abbreviation (input) "FINISH_RELEASE_RESULT_CAPS_FLAG_MASK \<equiv> 1 :: int"
abbreviation (input) "FINISH_REQUIRE_EARLY_CANCELLATION_WORKAROUND_FLAG_MASK \<equiv> 2 :: int"
abbreviation (input) "RELEASE_DATA_WORD_COUNT \<equiv> 1 :: int"
abbreviation (input) "RELEASE_POINTER_COUNT \<equiv> 0 :: int"
abbreviation (input) "RELEASE_ID_BYTE_OFFSET \<equiv> 0 :: int"
abbreviation (input) "RELEASE_REFERENCE_COUNT_BYTE_OFFSET \<equiv> 4 :: int"
abbreviation (input) "EXCEPTION_DATA_WORD_COUNT \<equiv> 1 :: int"
abbreviation (input) "EXCEPTION_POINTER_COUNT \<equiv> 3 :: int"
abbreviation (input) "EXCEPTION_REASON_POINTER_INDEX \<equiv> 0 :: int"
abbreviation (input) "CAP_DESCRIPTOR_DATA_WORD_COUNT \<equiv> 1 :: int"
abbreviation (input) "CAP_DESCRIPTOR_POINTER_COUNT \<equiv> 1 :: int"
abbreviation (input) "CAP_DESCRIPTOR_TAG_BYTE_OFFSET \<equiv> 0 :: int"
abbreviation (input) "CAP_DESCRIPTOR_ID_BYTE_OFFSET \<equiv> 4 :: int"

definition EMPTY_STRUCT_MESSAGE :: bytes where
  "EMPTY_STRUCT_MESSAGE = [0, 0, 0, 0, 1, 0, 0, 0, 0, 0, 0, 0, 0, 0, 0, 0]"

section \<open>Messages\<close>

record 'n RpcBootstrapRequest =
  bq_questionId :: 'n

record 'n RpcFinishRequest =
  fq_questionId :: 'n
  fq_releaseResultCaps :: bool
  fq_requireEarlyCancellation :: bool

record 'n RpcReleaseRequest =
  rq_id :: 'n
  rq_referenceCount :: 'n

record 'n RpcPromisedAnswerOp =
  op_tag :: 'n
  op_pointerIndex :: "'n option"

record 'n RpcPromisedAnswerTarget =
  pa_questionId :: 'n
  pa_transform :: "'n RpcPromisedAnswerOp list option"

datatype 'n RpcCallTarget =
    ImportedCap 'n
  | PromisedAnswer "'n RpcPromisedAnswerTarget"

record 'n RpcCapDescriptor =
  cd_tag :: 'n
  cd_id :: 'n
  cd_vineId :: "'n option"
  cd_contact :: "bytes option"

record RpcCallFrameRequest =
  cf_questionId :: number
  cf_interfaceId :: int
  cf_methodId :: number
  cf_targetImportedCap :: "number option"
  cf_target :: "number RpcCallTarget option"
  cf_paramsContent :: "bytes option"
  cf_paramsCapTable :: "number RpcCapDescriptor list option"

record RpcCallRequest =
  cr_questionId :: int
  cr_interfaceId :: "64 word"
  cr_methodId :: int
  cr_target :: "int RpcCallTarget"
  cr_targetImportedCap :: "int option"
  cr_paramsContent :: bytes
  cr_paramsCapTable :: "int RpcCapDescriptor list"

record FinishFrameRequest =
  ff_questionId :: number
  ff_releaseResultCaps :: "bool option"
  ff_requireEarlyCancellation :: "bool option"

record RpcReturnResultsFrameRequest =
  rf_answerId :: number
  rf_content :: "bytes option"
  rf_capTable :: "number RpcCapDescriptor list option"
  rf_releaseParamCaps :: "bool option"
  rf_noFinishNeeded :: "bool option"

record RpcReturnExceptionFrameRequest =
  re_answerId :: number
  re_reason :: js_string
  re_releaseParamCaps :: "bool option"
  re_noFinishNeeded :: "bool option"

record ReturnFlags =
  fl_releaseParamCaps :: bool
  fl_noFinishNeeded :: bool

text \<open>The answer id, the flags, and what the kind of return has.\<close>

datatype RpcReturnMessage =
    ReturnResults int bytes "int RpcCapDescriptor list" ReturnFlags
  | ReturnException int js_string ReturnFlags
  | ReturnCanceled int ReturnFlags

definition orElse :: "'a option \<Rightarrow> 'a \<Rightarrow> 'a" where
  "orElse v d = (case v of Some x \<Rightarrow> x | None \<Rightarrow> d)"

lemma orElse_simps [simp]: "orElse None d = d" "orElse (Some x) d = x"
  by (simp_all add: orElse_def)

end
