(* ===== verification/Runtime_Message.thy ===== *)
theory Runtime_Message
  imports Word_Builder Frame_Limits
begin

unbundle bit_operations_syntax

text \<open>
  \<open>MessageBuilder\<close> and \<open>MessageReader\<close> of \<open>src/encoding/runtime_message.ts\<close>. The float accessors
  are not modelled. The reader keeps the target of a double-far pointer in the resolved pointer
  (\<open>contentWord\<close>), since a zero tag word there is an empty struct and not a null pointer.
\<close>

section \<open>MessageBuilder\<close>

record MessageBuilder =
  mb_bytes :: bytes
  mb_words :: int

definition newMessageBuilder :: MessageBuilder where
  "newMessageBuilder = \<lparr>mb_bytes = replicate (nat WORD_BYTES) 0, mb_words = 1\<rparr>"

definition mbAllocWords :: "MessageBuilder \<Rightarrow> number \<Rightarrow> (int \<times> MessageBuilder) result" where
  "mbAllocWords b count =
     (if \<not> isInteger count \<or> numLess count (jint 0)
      then Inl (PlainError ''allocWords requires a non-negative integer'' [])
      else let start = mb_words b; words = mb_words b + toInt count
           in bindE (growBytes (mb_bytes b) (words * WORD_BYTES)) (\<lambda>bs.
              Inr (start, b\<lparr>mb_bytes := bs, mb_words := words\<rparr>)))"

definition mbPointerWordIndex :: "int \<Rightarrow> int \<Rightarrow> int \<Rightarrow> int" where
  "mbPointerWordIndex structWord dataWordCount pointerOffs = structWord + dataWordCount + pointerOffs"

definition mbRequireWordRange :: "MessageBuilder \<Rightarrow> int \<Rightarrow> int \<Rightarrow> string \<Rightarrow> unit result" where
  "mbRequireWordRange b wordIndex count context =
     (if wordIndex < 0 \<or> count < 0 \<or> wordIndex + count > mb_words b
      then Inl (PlainError (context @ '' out of range: word={} count={} words={}'')
             [wordIndex, count, mb_words b])
      else Inr ())"

definition mbRequireByteRange :: "MessageBuilder \<Rightarrow> int \<Rightarrow> int \<Rightarrow> string \<Rightarrow> unit result" where
  "mbRequireByteRange b byteOffset len context =
     (let mx = mb_words b * WORD_BYTES
      in if byteOffset < 0 \<or> len < 0 \<or> byteOffset + len > mx
         then Inl (PlainError (context @ '' out of range: offset={} len={} max={}'') [byteOffset, len, mx])
         else Inr ())"

definition mbWriteWord :: "MessageBuilder \<Rightarrow> int \<Rightarrow> 64 word \<Rightarrow> MessageBuilder result" where
  "mbWriteWord b wordIndex w =
     bindE (mbRequireWordRange b wordIndex 1 ''writeWord'') (\<lambda>_.
     bindE (setBigUint64 (mb_bytes b) (wordIndex * WORD_BYTES) w) (\<lambda>bs. Inr (b\<lparr>mb_bytes := bs\<rparr>)))"

text \<open>
  The scalar writers: a range check, then the accessor. The signed ones reduce their argument
  with \<open>| 0\<close>, which the accessor's own reduction modulo the width makes the same bits.
\<close>

definition mbWriteScalar ::
  "(bytes \<Rightarrow> int \<Rightarrow> 'v \<Rightarrow> bytes result) \<Rightarrow> int \<Rightarrow> string \<Rightarrow> MessageBuilder \<Rightarrow> int \<Rightarrow> 'v \<Rightarrow> MessageBuilder result" where
  "mbWriteScalar put width name b byteOffset value =
     bindE (mbRequireByteRange b byteOffset width name) (\<lambda>_.
     bindE (put (mb_bytes b) byteOffset value) (\<lambda>bs. Inr (b\<lparr>mb_bytes := bs\<rparr>)))"

definition mbWriteUint8 :: "MessageBuilder \<Rightarrow> int \<Rightarrow> int \<Rightarrow> MessageBuilder result" where
  "mbWriteUint8 b off v = mbWriteScalar setUint8 1 ''writeUint8'' b off (v AND 0xff)"

definition mbWriteInt8 :: "MessageBuilder \<Rightarrow> int \<Rightarrow> int \<Rightarrow> MessageBuilder result" where
  "mbWriteInt8 b off v = mbWriteScalar setUint8 1 ''writeInt8'' b off v"

definition mbWriteUint16 :: "MessageBuilder \<Rightarrow> int \<Rightarrow> int \<Rightarrow> MessageBuilder result" where
  "mbWriteUint16 b off v = mbWriteScalar setUint16 2 ''writeUint16'' b off (v AND 0xffff)"

definition mbWriteInt16 :: "MessageBuilder \<Rightarrow> int \<Rightarrow> int \<Rightarrow> MessageBuilder result" where
  "mbWriteInt16 b off v = mbWriteScalar setUint16 2 ''writeInt16'' b off v"

definition mbWriteUint32 :: "MessageBuilder \<Rightarrow> int \<Rightarrow> int \<Rightarrow> MessageBuilder result" where
  "mbWriteUint32 b off v = mbWriteScalar setUint32 4 ''writeUint32'' b off (v mod 2 ^ 32)"

definition mbWriteInt32 :: "MessageBuilder \<Rightarrow> int \<Rightarrow> int \<Rightarrow> MessageBuilder result" where
  "mbWriteInt32 b off v = mbWriteScalar setUint32 4 ''writeInt32'' b off v"

definition mbWriteBigUint64 :: "MessageBuilder \<Rightarrow> int \<Rightarrow> int \<Rightarrow> MessageBuilder result" where
  "mbWriteBigUint64 b off v =
     mbWriteScalar setBigUint64 8 ''writeBigUint64'' b off (word_of_int v)"

definition mbWriteBigInt64 :: "MessageBuilder \<Rightarrow> int \<Rightarrow> int \<Rightarrow> MessageBuilder result" where
  "mbWriteBigInt64 b off v =
     mbWriteScalar setBigUint64 8 ''writeBigInt64'' b off (word_of_int v)"

definition mbSetBool :: "MessageBuilder \<Rightarrow> int \<Rightarrow> nat \<Rightarrow> bool \<Rightarrow> MessageBuilder result" where
  "mbSetBool b byteOffset bitOffset value =
     bindE (mbRequireByteRange b byteOffset 1 ''setBool'') (\<lambda>_.
     let bitm = push_bit bitOffset 1
     in bindE (getUint8 (mb_bytes b) byteOffset) (\<lambda>current.
        bindE (setUint8 (mb_bytes b) byteOffset (if value then current OR bitm else current AND NOT bitm))
          (\<lambda>bs. Inr (b\<lparr>mb_bytes := bs\<rparr>))))"

text \<open>
  \<open>encodeSigned30\<close> of \<open>runtime_model.ts\<close> differs from the wire one in the class of its error.
\<close>

definition rtEncodeSigned30 :: "int \<Rightarrow> 64 word result" where
  "rtEncodeSigned30 value =
     (if value < - (2 ^ 29) \<or> value > 2 ^ 29 - 1
      then Inl (PlainError ''pointer offset is out of signed 30-bit range: {}'' [value])
      else Inr (word_of_int (if value < 0 then value + 2 ^ 30 else value) AND MASK_30))"

definition mbSetStructPointer :: "MessageBuilder \<Rightarrow> int \<Rightarrow> int \<Rightarrow> int \<Rightarrow> int \<Rightarrow> MessageBuilder result" where
  "mbSetStructPointer b pointerWord targetWord dataWordCount pointerCount =
     (let offset = (if dataWordCount = 0 \<and> pointerCount = 0 then -1 else targetWord - (pointerWord + 1))
      in bindE (rtEncodeSigned30 offset) (\<lambda>enc.
         mbWriteWord b pointerWord
           (structPointerWord enc (word_of_int (dataWordCount AND 0xffff)) (word_of_int (pointerCount AND 0xffff)))))"

definition mbSetListPointer :: "MessageBuilder \<Rightarrow> int \<Rightarrow> int \<Rightarrow> int \<Rightarrow> int \<Rightarrow> MessageBuilder result" where
  "mbSetListPointer b pointerWord targetWord elementSize count =
     (let offset = targetWord - (pointerWord + 1)
      in bindE (rtEncodeSigned30 offset) (\<lambda>enc.
         mbWriteWord b pointerWord
           (listPointerWord enc (word_of_int (elementSize AND 0x7)) (word_of_int (count AND 0x1fffffff)))))"

definition bytesToWords :: "int \<Rightarrow> int" where
  "bytesToWords n = ceilDiv n WORD_BYTES"

definition mbWriteTextPointer :: "MessageBuilder \<Rightarrow> int \<Rightarrow> js_string \<Rightarrow> MessageBuilder result" where
  "mbWriteTextPointer b pointerWord value =
     (let encoded = textEncode value; byteCount = int (length encoded) + 1
      in bindE (mbAllocWords b (jint (bytesToWords byteCount))) (\<lambda>(targetWord, b).
         let startByte = targetWord * WORD_BYTES
         in bindE (mbRequireByteRange b startByte byteCount ''writeTextPointer'') (\<lambda>_.
            bindE (setBytes (mb_bytes b) encoded startByte) (\<lambda>bs.
            bindE (setUint8 bs (startByte + int (length encoded)) 0) (\<lambda>bs.
            mbSetListPointer (b\<lparr>mb_bytes := bs\<rparr>) pointerWord targetWord 2 byteCount)))))"

definition mbWriteDataPointer :: "MessageBuilder \<Rightarrow> int \<Rightarrow> bytes \<Rightarrow> MessageBuilder result" where
  "mbWriteDataPointer b pointerWord value =
     bindE (mbAllocWords b (jint (bytesToWords (int (length value))))) (\<lambda>(targetWord, b).
       let startByte = targetWord * WORD_BYTES
       in bindE (mbRequireByteRange b startByte (int (length value)) ''writeDataPointer'') (\<lambda>_.
          bindE (setBytes (mb_bytes b) value startByte) (\<lambda>bs.
          mbSetListPointer (b\<lparr>mb_bytes := bs\<rparr>) pointerWord targetWord 2 (int (length value)))))"

definition mbToMessageBytes :: "MessageBuilder \<Rightarrow> bytes result" where
  "mbToMessageBytes b =
     (let segmentBytes = mb_words b * WORD_BYTES;
          out = replicate (nat (8 + segmentBytes)) 0
      in bindE (setUint32 out 0 0) (\<lambda>out.
         bindE (setUint32 out 4 (mb_words b)) (\<lambda>out.
         setBytes out (subarray (mb_bytes b) 0 segmentBytes) 8)))"

section \<open>MessageReader\<close>

record MessageReader =
  mr_segments :: "bytes list"

fun takeSegments :: "bytes \<Rightarrow> int \<Rightarrow> int list \<Rightarrow> bytes list result" where
  "takeSegments bs cursor [] = Inr []"
| "takeSegments bs cursor (sizeWords # sizes) =
     (let segmentBytes = sizeWords * WORD_BYTES
      in if cursor + segmentBytes > int (length bs)
         then Inl (PlainError ''segment payload is truncated'' [])
         else bindE (takeSegments bs (cursor + segmentBytes) sizes)
                (\<lambda>segs. Inr (subarray bs cursor (cursor + segmentBytes) # segs)))"

definition newMessageReader :: "bytes \<Rightarrow> MessageReader result" where
  "newMessageReader bs =
     (if int (length bs) < 8 then Inl (PlainError ''message is too short'' [])
      else bindE (getUint32 bs 0) (\<lambda>c.
        let segmentCount = c + 1;
            headerWords = 1 + segmentCount + (if segmentCount mod 2 = 0 then 1 else 0);
            headerBytes = headerWords * 4
        in if int (length bs) < headerBytes then Inl (PlainError ''segment table is truncated'' [])
           else bindE (readWordCounts bs (nat segmentCount) 0) (\<lambda>sizes.
                bindE (takeSegments bs headerBytes sizes) (\<lambda>segs. Inr \<lparr>mr_segments = segs\<rparr>))))"

record RuntimePointer =
  up_segmentId :: int
  up_pointerWord :: int
  up_word :: "64 word"
  up_contentWord :: "int option"

datatype ListRef =
    FlatList int int int int
  | InlineComposite int int int int int int

definition mrSegment :: "MessageReader \<Rightarrow> int \<Rightarrow> bytes result" where
  "mrSegment r segmentId =
     (case segmentAt (mr_segments r) segmentId of
        None \<Rightarrow> Inl (PlainError ''missing segment {}'' [segmentId])
      | Some seg \<Rightarrow> Inr seg)"

definition mrRequireWordRange :: "MessageReader \<Rightarrow> int \<Rightarrow> int \<Rightarrow> int \<Rightarrow> string \<Rightarrow> unit result" where
  "mrRequireWordRange r segmentId wordIndex count context =
     bindE (mrSegment r segmentId) (\<lambda>seg.
       if wordIndex < 0 \<or> count < 0 \<or> (wordIndex + count) * WORD_BYTES > int (length seg)
       then Inl (PlainError (context @ '' out of range: segment={} word={} count={} words={}'')
              [segmentId, wordIndex, count, int (length seg) div WORD_BYTES])
       else Inr ())"

definition mrReadWord :: "MessageReader \<Rightarrow> int \<Rightarrow> int \<Rightarrow> 64 word result" where
  "mrReadWord r segmentId wordIndex =
     bindE (mrRequireWordRange r segmentId wordIndex 1 ''readWord'') (\<lambda>_.
     bindE (mrSegment r segmentId) (\<lambda>seg. getBigUint64 seg (wordIndex * WORD_BYTES)))"

text \<open>The landing pad of a double-far pointer.\<close>

definition mrDoubleFar :: "MessageReader \<Rightarrow> int \<Rightarrow> int \<Rightarrow> RuntimePointer result" where
  "mrDoubleFar r landingSegmentId landingPadWord =
     bindE (mrRequireWordRange r landingSegmentId landingPadWord 2 ''double-far landing pad'') (\<lambda>_.
     bindE (mrReadWord r landingSegmentId landingPadWord) (\<lambda>pad0.
     if pointerKind pad0 \<noteq> 2
     then Inl (PlainError ''double-far landing pad[0] must be far pointer, got kind {}'' [pointerKind pad0])
     else if farIsDouble pad0
     then Inl (PlainError ''double-far landing pad[0] must be single-far pointer'' [])
     else bindE (mrReadWord r landingSegmentId (landingPadWord + 1)) (\<lambda>tag.
       Inr \<lparr>up_segmentId = farSegmentId pad0, up_pointerWord = farPadWord pad0 - 1,
            up_word = tag, up_contentWord = Some (farPadWord pad0)\<rparr>)))"

fun mrResolveHops :: "MessageReader \<Rightarrow> nat \<Rightarrow> int \<Rightarrow> int \<Rightarrow> 64 word \<Rightarrow> RuntimePointer result" where
  "mrResolveHops r 0 currentSegmentId currentPointerWord word =
     Inl (PlainError ''far pointer chain exceeded maximum hop count'' [])"
| "mrResolveHops r (Suc n) currentSegmentId currentPointerWord word =
     (if pointerKind word \<noteq> 2
      then Inr \<lparr>up_segmentId = currentSegmentId, up_pointerWord = currentPointerWord, up_word = word,
                up_contentWord = None\<rparr>
      else if \<not> farIsDouble word
      then bindE (mrReadWord r (farSegmentId word) (farPadWord word))
             (mrResolveHops r n (farSegmentId word) (farPadWord word))
      else mrDoubleFar r (farSegmentId word) (farPadWord word))"

definition readResolvedPointer :: "MessageReader \<Rightarrow> int \<Rightarrow> int \<Rightarrow> RuntimePointer result" where
  "readResolvedPointer r segmentId pointerWord =
     bindE (mrReadWord r segmentId pointerWord) (mrResolveHops r 8 segmentId pointerWord)"

definition readStructPointer :: "MessageReader \<Rightarrow> int \<Rightarrow> int \<Rightarrow> StructRef option result" where
  "readStructPointer r segmentId pointerWord =
     bindE (readResolvedPointer r segmentId pointerWord) (\<lambda>resolved.
       let w = up_word resolved in
       if w = 0 \<and> up_contentWord resolved = None then Inr None
       else if pointerKind w \<noteq> 0 then Inl (PlainError ''expected struct pointer, got kind {}'' [pointerKind w])
       else
         let offsetWords = pointerOffset w
         in if up_contentWord resolved \<noteq> None \<and> offsetWords \<noteq> 0
            then Inl (ProtocolError ''double-far struct tag must have zero offset'' [])
            else
              let dataWordCount = structDataWords w;
                  pointerCount = structPointerCount w;
                  targetWord = (case up_contentWord resolved of
                                  Some c \<Rightarrow> c
                                | None \<Rightarrow> up_pointerWord resolved + 1 + offsetWords)
              in bindE (mrRequireWordRange r (up_segmentId resolved) targetWord
                          (dataWordCount + pointerCount) ''struct pointer target'') (\<lambda>_.
                 Inr (Some \<lparr>sr_segmentId = up_segmentId resolved, sr_startWord = targetWord,
                           sr_dataWordCount = dataWordCount, sr_pointerCount = pointerCount\<rparr>)))"

definition readRootStruct :: "MessageReader \<Rightarrow> StructRef result" where
  "readRootStruct r =
     bindE (readStructPointer r 0 0) (\<lambda>root.
       case root of None \<Rightarrow> Inl (PlainError ''root pointer is null'' []) | Some sr \<Rightarrow> Inr sr)"

definition mrFlatListWords :: "int \<Rightarrow> int \<Rightarrow> int result" where
  "mrFlatListWords elementSize count =
     (if elementSize = 0 then Inr 0
      else if elementSize = 1 then Inr (ceilDiv count 64)
      else if elementSize = 2 then Inr (bytesToWords count)
      else if elementSize = 3 then Inr (bytesToWords (count * 2))
      else if elementSize = 4 then Inr (bytesToWords (count * 4))
      else if elementSize = 5 \<or> elementSize = 6 then Inr count
      else Inl (PlainError ''unsupported list element size: {}'' [elementSize]))"

definition readListPointer :: "MessageReader \<Rightarrow> int \<Rightarrow> int \<Rightarrow> ListRef option result" where
  "readListPointer r segmentId pointerWord =
     bindE (readResolvedPointer r segmentId pointerWord) (\<lambda>resolved.
       let w = up_word resolved; seg = up_segmentId resolved in
       if w = 0 \<and> up_contentWord resolved = None then Inr None
       else if pointerKind w \<noteq> 1 then Inl (PlainError ''expected list pointer, got kind {}'' [pointerKind w])
       else
         let elementSize = listElementSize w;
             count = listElementCount w;
             targetWord = up_pointerWord resolved + 1 + pointerOffset w
         in if elementSize = 7 then
              bindE (mrRequireWordRange r seg targetWord 1 ''inline composite tag'') (\<lambda>_.
              bindE (mrReadWord r seg targetWord) (\<lambda>tag.
              if pointerKind tag \<noteq> 0
              then Inl (PlainError ''invalid inline composite tag kind {}'' [pointerKind tag])
              else
                let elementCount = tagElementCount tag;
                    dataWordCount = structDataWords tag;
                    pointerCount = structPointerCount tag;
                    stride = dataWordCount + pointerCount
                in if stride * elementCount > count
                   then Inl (PlainError ''inline composite payload exceeds declared word count'' [])
                   else bindE (mrRequireWordRange r seg (targetWord + 1) count ''inline composite payload'') (\<lambda>_.
                     Inr (Some (InlineComposite seg targetWord elementCount dataWordCount pointerCount count)))))
            else
              bindE (mrFlatListWords elementSize count) (\<lambda>words.
              bindE (mrRequireWordRange r seg targetWord words ''list payload'') (\<lambda>_.
              Inr (Some (FlatList seg targetWord elementSize count)))))"

definition mrPointerWordIndex :: "StructRef \<Rightarrow> int \<Rightarrow> int result" where
  "mrPointerWordIndex structRef pointerOffs =
     (if pointerOffs < 0 \<or> pointerOffs \<ge> sr_pointerCount structRef
      then Inl (PlainError ''pointer offset out of range: {}'' [pointerOffs])
      else Inr (sr_startWord structRef + sr_dataWordCount structRef + pointerOffs))"

section \<open>Data accessors of the reader\<close>

text \<open>
  \<open>byteOffset\<close> is the absolute offset in the segment; the second check bounds the access by
  \<open>maxLen\<close> bytes from the start of the word that holds \<open>byteOffset\<close>.
\<close>

definition requireDataByteRange :: "MessageReader \<Rightarrow> int \<Rightarrow> int \<Rightarrow> int \<Rightarrow> int \<Rightarrow> string \<Rightarrow> unit result" where
  "requireDataByteRange r segmentId byteOffset len maxLen context =
     bindE (mrSegment r segmentId) (\<lambda>segment.
       if byteOffset < 0 \<or> len < 0 \<or> byteOffset + len > int (length segment)
       then Inl (PlainError (context @ '' segment range error: segment={} offset={} len={} segmentBytes={}'')
              [segmentId, byteOffset, len, int (length segment)])
       else if byteOffset + len > byteOffset div WORD_BYTES * WORD_BYTES + maxLen
       then Inl (PlainError (context @ '' struct/list bounds exceeded'') [])
       else Inr ())"

definition readScalarAt ::
  "(bytes \<Rightarrow> int \<Rightarrow> 'v result) \<Rightarrow> int \<Rightarrow> MessageReader \<Rightarrow> int \<Rightarrow> int \<Rightarrow> int \<Rightarrow> string \<Rightarrow> 'v result" where
  "readScalarAt get width r segmentId byteOffset maxLen context =
     bindE (requireDataByteRange r segmentId byteOffset width maxLen context) (\<lambda>_.
     bindE (mrSegment r segmentId) (\<lambda>segment. get segment byteOffset))"

text \<open>The signed accessors of a \<open>DataView\<close>: two's complement of the unsigned value.\<close>

definition asIntN :: "nat \<Rightarrow> int \<Rightarrow> int" where
  "asIntN n v = (let u = v mod 2 ^ n in if 2 ^ (n - 1) \<le> u then u - 2 ^ n else u)"

definition getSigned :: "nat \<Rightarrow> (bytes \<Rightarrow> int \<Rightarrow> int result) \<Rightarrow> bytes \<Rightarrow> int \<Rightarrow> int result" where
  "getSigned n get seg off = bindE (get seg off) (\<lambda>v. Inr (asIntN n v))"

definition getBig :: "bytes \<Rightarrow> int \<Rightarrow> int result" where
  "getBig seg off = bindE (getBigUint64 seg off) (\<lambda>w. Inr (uint w))"

definition readUint8At where "readUint8At = readScalarAt getUint8 1"
definition readInt8At where "readInt8At = readScalarAt (getSigned 8 getUint8) 1"
definition readUint16At where "readUint16At = readScalarAt getUint16 2"
definition readInt16At where "readInt16At = readScalarAt (getSigned 16 getUint16) 2"
definition readUint32At where "readUint32At = readScalarAt getUint32 4"
definition readInt32At where "readInt32At = readScalarAt (getSigned 32 getUint32) 4"
definition readBigUint64At where "readBigUint64At = readScalarAt getBig 8"
definition readBigInt64At where "readBigInt64At = readScalarAt (getSigned 64 getBig) 8"

text \<open>The accessors of a struct pass the absolute offset and the size of the data section.\<close>

definition inStruct ::
  "(MessageReader \<Rightarrow> int \<Rightarrow> int \<Rightarrow> int \<Rightarrow> string \<Rightarrow> 'v result) \<Rightarrow> string \<Rightarrow> MessageReader \<Rightarrow> StructRef \<Rightarrow> int \<Rightarrow> 'v result" where
  "inStruct readAt name r structRef byteOffset =
     readAt r (sr_segmentId structRef) (sr_startWord structRef * WORD_BYTES + byteOffset)
       (sr_dataWordCount structRef * WORD_BYTES) name"

definition readUint8InStruct where "readUint8InStruct = inStruct readUint8At ''readUint8InStruct''"
definition readInt8InStruct where "readInt8InStruct = inStruct readInt8At ''readInt8InStruct''"
definition readUint16InStruct where "readUint16InStruct = inStruct readUint16At ''readUint16InStruct''"
definition readInt16InStruct where "readInt16InStruct = inStruct readInt16At ''readInt16InStruct''"
definition readUint32InStruct where "readUint32InStruct = inStruct readUint32At ''readUint32InStruct''"
definition readInt32InStruct where "readInt32InStruct = inStruct readInt32At ''readInt32InStruct''"
definition readBigUint64InStruct where "readBigUint64InStruct = inStruct readBigUint64At ''readBigUint64InStruct''"
definition readBigInt64InStruct where "readBigInt64InStruct = inStruct readBigInt64At ''readBigInt64InStruct''"

definition readBool :: "MessageReader \<Rightarrow> StructRef \<Rightarrow> int \<Rightarrow> bool result" where
  "readBool r structRef bitOffset =
     bindE (readUint8InStruct r structRef (bitOffset div 8)) (\<lambda>value.
       Inr (value AND push_bit (nat (bitOffset mod 8)) 1 \<noteq> 0))"

definition readBytes :: "MessageReader \<Rightarrow> int \<Rightarrow> int \<Rightarrow> int \<Rightarrow> bytes result" where
  "readBytes r segmentId byteOffset len =
     bindE (mrSegment r segmentId) (\<lambda>segment.
       if byteOffset < 0 \<or> len < 0 \<or> byteOffset + len > int (length segment)
       then Inl (PlainError ''readBytes out of range: segment={} offset={} len={}'' [segmentId, byteOffset, len])
       else Inr (subarray segment byteOffset (byteOffset + len)))"

definition readTextPointer :: "MessageReader \<Rightarrow> int \<Rightarrow> int \<Rightarrow> js_string option result" where
  "readTextPointer r segmentId pointerWord =
     bindE (readListPointer r segmentId pointerWord) (\<lambda>lst.
       case lst of
         None \<Rightarrow> Inr None
       | Some (FlatList seg start elementSize elementCount) \<Rightarrow>
           if elementSize \<noteq> 2 then Inl (PlainError ''expected byte list pointer for text'' [])
           else bindE (readBytes r seg (start * WORD_BYTES) elementCount) (\<lambda>bs.
             if bs = [] \<or> last bs \<noteq> 0
             then Inl (ProtocolError ''Text pointer must include a trailing NUL byte'' [])
             else case textDecodeStrict (butlast bs) of
                    None \<Rightarrow> Inl (ProtocolError ''Text pointer contains invalid UTF-8'' [])
                  | Some s \<Rightarrow> Inr (Some s))
       | Some (InlineComposite _ _ _ _ _ _) \<Rightarrow> Inl (PlainError ''expected byte list pointer for text'' []))"

definition readDataPointer :: "MessageReader \<Rightarrow> int \<Rightarrow> int \<Rightarrow> bytes option result" where
  "readDataPointer r segmentId pointerWord =
     bindE (readListPointer r segmentId pointerWord) (\<lambda>lst.
       case lst of
         None \<Rightarrow> Inr None
       | Some (FlatList seg start elementSize elementCount) \<Rightarrow>
           if elementSize \<noteq> 2 then Inl (PlainError ''expected byte list pointer for data'' [])
           else bindE (readBytes r seg (start * WORD_BYTES) elementCount) (\<lambda>bs. Inr (Some bs))
       | Some (InlineComposite _ _ _ _ _ _) \<Rightarrow> Inl (PlainError ''expected byte list pointer for data'' []))"

section \<open>The builder's state as the words written\<close>

definition mb :: "64 word list \<Rightarrow> MessageBuilder" where
  "mb ws = \<lparr>mb_bytes = heapOf ws, mb_words = int (length ws)\<rparr>"

lemma newMessageBuilder_mb: "newMessageBuilder = mb [0]"
  by (simp add: newMessageBuilder_def mb_def heapOf_def)

lemma mbAllocWords_mb [simp]:
  "mbAllocWords (mb ws) (jint (int n)) = Inr (int (length ws), mb (ws @ replicate n 0))"
  using growBytes_heapOf [of ws n] by (simp add: mbAllocWords_def mb_def Let_def algebra_simps)

lemma mbWriteWord_mb [simp]:
  assumes "i < length ws"
  shows "mbWriteWord (mb ws) (int i) w = Inr (mb (ws[i := w]))"
  using heapOf_update [OF assms, of 0 8 "unat w"] assms
  by (simp add: mbWriteWord_def mbRequireWordRange_def setBigUint64_def putField_full mb_def mult.commute)

lemma mbWriteWord_out:
  "\<not> (0 \<le> i \<and> i < int (length ws)) \<Longrightarrow> \<exists>e. mbWriteWord (mb ws) i w = Inl e"
  by (auto simp: mbWriteWord_def mbRequireWordRange_def mb_def)

interpretation runtimeBuilder: word_builder mb "\<lambda>b n. mbAllocWords b (jint n)" mbWriteWord
  by unfold_locales simp_all

lemma rtEncodeSigned30_in_range [simp]:
  "inOffsetRange v \<Longrightarrow> rtEncodeSigned30 v = Inr (word_of_int (v mod 2 ^ 30))"
proof -
  assume v: "inOffsetRange v"
  then have "encodeSigned30 v = Inr (word_of_int (v mod 2 ^ 30))" by simp
  then show ?thesis using v by (simp add: rtEncodeSigned30_def encodeSigned30_def inOffsetRange_def split: if_splits)
qed

text \<open>The offset the struct-pointer writer stores.\<close>

definition structOffset :: "int \<Rightarrow> int \<Rightarrow> int \<Rightarrow> int \<Rightarrow> int" where
  "structOffset i t d p = (if d = 0 \<and> p = 0 then -1 else t - (i + 1))"

lemma mbSetStructPointer_mb:
  assumes "i < length ws" "inOffsetRange (structOffset (int i) t d p)" "0 \<le> d" "d < 2 ^ 16" "0 \<le> p" "p < 2 ^ 16"
  shows "mbSetStructPointer (mb ws) (int i) t d p = Inr (mb (ws[i := structPtr (structOffset (int i) t d p) d p]))"
  using assms by (simp add: mbSetStructPointer_def and_mask_small structPtr_def structOffset_def Let_def)

lemma mbSetListPointer_mb:
  assumes "i < length ws" "inOffsetRange (t - (int i + 1))" "0 \<le> sz" "sz < 2 ^ 3" "0 \<le> n" "n < 2 ^ 29"
  shows "mbSetListPointer (mb ws) (int i) t sz n = Inr (mb (ws[i := listPtr (t - (int i + 1)) sz n]))"
  using assms by (simp add: mbSetListPointer_def and_mask_small listPtr_def Let_def)

lemma mbToMessageBytes_mb:
  assumes "length ws < 2 ^ 32"
  shows "mbToMessageBytes (mb ws) = Inr (frameOf [bytesOf ws])"
proof -
  have "subarray (heapOf ws) 0 (int (length ws) * 8) = bytesOf ws"
    using take_heapOf [of ws] by (simp add: subarray_def nat_mult_distrib mult.commute)
  moreover have "nat (8 + int (length ws) * 8) = 8 + length (bytesOf ws)" by simp
  ultimately show ?thesis
    using write_single_frame [of "bytesOf ws" "length ws"] assms
    by (simp add: mbToMessageBytes_def mb_def Let_def del: replicate.simps)
qed

section \<open>Lemmas: the reader\<close>

lemma mrSegment_Inr: "mrSegment r s = Inr seg \<longleftrightarrow> segmentAt (mr_segments r) s = Some seg"
  by (auto simp: mrSegment_def split: option.splits)

lemma mrRequireWordRange_Inr: "mrRequireWordRange r s i n ctx = Inr u \<longleftrightarrow> wordsFit (mr_segments r) s i n"
  by (auto simp: mrRequireWordRange_def wordsFit_def bindE_eq_Inr mrSegment_Inr)

lemma mrReadWord_Inr: "mrReadWord r s i = Inr w \<longleftrightarrow> wordAt (mr_segments r) s i = Some w"
proof (cases "segmentAt (mr_segments r) s")
  case None
  then show ?thesis by (simp add: mrReadWord_def mrRequireWordRange_def mrSegment_def wordAt_def)
next
  case (Some seg)
  then have "mrSegment r s = Inr seg" by (simp add: mrSegment_Inr)
  then show ?thesis using Some
    by (auto simp: mrReadWord_def mrRequireWordRange_def wordAt_getBigUint64 [OF Some] getBigUint64_def
        bindE_eq_Inr getLE_eq_Inr)
qed

interpretation reader: word_source mr_segments "\<lambda>r s i ctx. mrReadWord r s i"
  by unfold_locales (rule mrReadWord_Inr)

lemma mrResolveHops_follows:
  assumes "follows (mr_segments r) k s i s' p w" "wordAt (mr_segments r) s i = Some v" "k < n"
  shows "mrResolveHops r n s i v =
    Inr \<lparr>up_segmentId = s', up_pointerWord = p, up_word = w, up_contentWord = None\<rparr>"
  using assms
proof (induction arbitrary: n v rule: follows.induct)
  case (here s i w)
  then show ?case by (cases n) auto
next
  case (hop s i u k s' p w)
  then obtain m where n: "n = Suc m" "k < m" by (cases n) auto
  obtain x where x: "wordAt (mr_segments r) (farSegmentId u) (farPadWord u) = Some x"
    using hop.hyps(4) by (auto elim: followsE)
  then have "mrReadWord r (farSegmentId u) (farPadWord u) = Inr x" by (simp add: mrReadWord_Inr)
  then show ?case using hop n x by simp
qed

lemma readResolvedPointer_follows:
  assumes "follows (mr_segments r) k s i s' p w" "k < 8"
  shows "readResolvedPointer r s i =
    Inr \<lparr>up_segmentId = s', up_pointerWord = p, up_word = w, up_contentWord = None\<rparr>"
proof -
  obtain v where v: "wordAt (mr_segments r) s i = Some v" using assms(1) by (auto elim: followsE)
  then have "mrReadWord r s i = Inr v" by (simp add: mrReadWord_Inr)
  then show ?thesis
    using mrResolveHops_follows [OF assms(1) v assms(2)] by (simp add: readResolvedPointer_def)
qed

lemma readResolvedPointer_direct:
  assumes "wordAt (mr_segments r) s i = Some w" "pointerKind w \<noteq> 2"
  shows "readResolvedPointer r s i =
    Inr \<lparr>up_segmentId = s, up_pointerWord = i, up_word = w, up_contentWord = None\<rparr>"
  by (rule readResolvedPointer_follows [OF follows.here [OF assms]]) simp

lemma mrFlatListWords_eq:
  "mrFlatListWords sz n =
     (if 0 \<le> sz \<and> sz \<le> 6 then Inr (flatListWords sz n)
      else Inl (PlainError ''unsupported list element size: {}'' [sz]))"
proof -
  have "ceilDiv (n * 2) 8 = ceilDiv n 4" "ceilDiv (n * 4) 8 = ceilDiv n 2"
    by (simp_all add: ceilDiv_def)
  moreover have "sz = 0 \<or> sz = 1 \<or> sz = 2 \<or> sz = 3 \<or> sz = 4 \<or> sz = 5 \<or> sz = 6" if "0 \<le> sz \<and> sz \<le> 6"
    using that by linarith
  ultimately show ?thesis by (auto simp: mrFlatListWords_def flatListWords_def bytesToWords_def)
qed

text \<open>The constructor and \<open>segmentsFromFrame\<close> read the same segments.\<close>

lemma takeSegments_slices:
  assumes "cursor + sum_list ws * 8 \<le> int (length bs)" "\<forall>w \<in> set ws. 0 \<le> w"
  shows "takeSegments bs cursor ws = Inr (sliceSegments bs cursor ws)"
  using assms
proof (induction ws arbitrary: cursor)
  case (Cons w ws)
  have nn: "0 \<le> sum_list ws" using Cons.prems by (intro sum_list_nonneg) auto
  have tot: "cursor + w * 8 + sum_list ws * 8 \<le> int (length bs)"
    using Cons.prems(1) by (simp add: algebra_simps)
  then have "\<not> cursor + w * 8 > int (length bs)" using nn by linarith
  then show ?case using Cons.IH [OF tot] Cons.prems by (simp add: Let_def)
qed simp

lemma newMessageReader_frameOf:
  assumes "wfSegs segs"
  shows "newMessageReader (frameOf segs) = Inr \<lparr>mr_segments = segs\<rparr>"
proof -
  let ?f = "frameOf segs" and ?ws = "map segWords segs" and ?n = "int (length segs)"
  have ne: "segs \<noteq> []" and le: "length segs \<le> 2 ^ 32" and al: "\<forall>s \<in> set segs. alignedSeg s"
    using assms by (auto simp: wfSegs_def)
  have cnt: "getUint32 ?f 0 = Inr (?n - 1)"
    unfolding frameOf_def using frame_count [of ?ws "concat segs"] ne le by simp
  have "0 \<le> ?n - 1" using ne by (cases segs) auto
  from headerBytes_headerLen [OF this]
  have h: "(1 + ?n + (if ?n mod 2 = 0 then 1 else 0)) * 4 = int (headerLen (length segs))"
    by (simp only: diff_add_cancel nat_int)
  have rc: "readWordCounts ?f (length segs) 0 = Inr (map (\<lambda>s. int (segWords s)) segs)"
  proof (rule readWordCounts_layout)
    show "getUint32 ?f (4 + (0 + int k) * 4) = Inr (int (segWords (segs ! k)))" if "k < length segs" for k
      unfolding frameOf_def using frame_size_entry [of k ?ws] that al by (simp add: alignedSeg_def)
  qed
  have flen: "length ?f = headerLen (length segs) + length (concat segs)" by (simp add: frameOf_def)
  have "takeSegments ?f (int (headerLen (length segs))) (map (\<lambda>s. int (segWords s)) segs) =
      Inr (sliceSegments ?f (int (headerLen (length segs))) (map (\<lambda>s. int (segWords s)) segs))"
    by (rule takeSegments_slices) (simp_all add: sum_segWords [OF al] flen)
  also have "sliceSegments ?f (int (headerLen (length segs))) (map (\<lambda>s. int (segWords s)) segs) = segs"
    by (rule sliceSegments_layout [OF al]) (simp_all add: frameOf_def)
  finally have ts: "takeSegments ?f (int (headerLen (length segs))) (map (\<lambda>s. int (segWords s)) segs) = Inr segs" .
  have fl: "\<not> int (length ?f) < int (headerLen (length segs))" "\<not> int (length ?f) < 8"
    using flen headerLen_ge [of "length segs"] by simp_all
  have n: "?n - 1 + 1 = ?n" "nat ?n = length segs" by simp_all
  show ?thesis
    unfolding newMessageReader_def Let_def
    by (simp only: fl if_False bindE_Inr cnt n h rc ts)
qed

lemma newMessageReader_bytesOf:
  "length ws < 2 ^ 32 \<Longrightarrow> newMessageReader (frameOf [bytesOf ws]) = Inr \<lparr>mr_segments = [bytesOf ws]\<rparr>"
  by (rule newMessageReader_frameOf) (simp add: wfSegs_def alignedSeg_def segWords_def)

end
