(* ===== verification/Wire_Values.thy ===== *)
theory Wire_Values
  imports Runtime_Message
begin

unbundle bit_operations_syntax

text \<open>
  The value a pointer stands for, free of offsets, segments and far pointers. \<open>reads r s i v\<close>
  says that a \<open>MessageReader\<close> reads the value \<open>v\<close> at a pointer slot of a message; \<open>flat m L i v\<close>
  says that one segment, of which the words \<open>m\<close> are known and that has \<open>L\<close> words, holds \<open>v\<close>
  at word \<open>i\<close> without far pointers. A flat value stays when words are added, wherever the block
  is moved, and the reader reads it.
\<close>

text \<open>
  A composite list keeps its tag, the number of payload words, the payload with its pointer slots
  blanked, and the values of the slots in order.
\<close>

datatype wire_value =
    NullV
  | CapV "64 word"
  | StructV "64 word list" "wire_value list"
  | FlatV int int "64 word list"
  | PtrListV "wire_value list"
  | CompositeV "64 word" "64 word list" "wire_value list"

text \<open>The pointer slots of a composite payload, as offsets from its first word.\<close>

definition compositeSlots :: "64 word \<Rightarrow> int list" where
  "compositeSlots tag =
     concat (map (\<lambda>i. map (\<lambda>j. i * (structDataWords tag + structPointerCount tag) + structDataWords tag + j)
       [0..structPointerCount tag - 1]) [0..tagElementCount tag - 1])"

definition isSlot :: "64 word \<Rightarrow> int \<Rightarrow> bool" where
  "isSlot tag k \<longleftrightarrow> 0 < structPointerCount tag \<and>
     k div (structDataWords tag + structPointerCount tag) < tagElementCount tag \<and>
     structDataWords tag \<le> k mod (structDataWords tag + structPointerCount tag)"

definition blankSlots :: "64 word \<Rightarrow> 64 word list \<Rightarrow> 64 word list" where
  "blankSlots tag ws = map (\<lambda>k. if isSlot tag (int k) then 0 else ws ! k) [0..<length ws]"

lemma compositeSlots_product:
  "compositeSlots tag =
     map (\<lambda>(i, j). i * (structDataWords tag + structPointerCount tag) + structDataWords tag + j)
       (List.product [0..tagElementCount tag - 1] [0..structPointerCount tag - 1])"
  by (simp add: compositeSlots_def product_concat_map map_concat comp_def)

lemma slot_div_mod:
  assumes "0 \<le> j" "j < (p::int)" "0 \<le> d"
  shows "(i * (d + p) + d + j) div (d + p) = i" "(i * (d + p) + d + j) mod (d + p) = d + j"
proof -
  have "i * (d + p) + d + j = (d + j) + i * (d + p)" by simp
  moreover have "0 \<le> d + j" "d + j < d + p" using assms by simp_all
  ultimately show "(i * (d + p) + d + j) div (d + p) = i" "(i * (d + p) + d + j) mod (d + p) = d + j"
    using assms by (simp_all only: div_mult_self1 mod_mult_self1) (simp_all add: div_pos_pos_trivial mod_pos_pos_trivial)
qed

lemma compositeSlots_member:
  assumes "x \<in> set (compositeSlots tag)"
    and "(structDataWords tag + structPointerCount tag) * tagElementCount tag \<le> n"
  shows "0 \<le> x" "x < n" "isSlot tag x"
proof -
  let ?d = "structDataWords tag" and ?p = "structPointerCount tag"
  from assms(1) obtain i j where ij: "0 \<le> i" "i < tagElementCount tag" "0 \<le> j" "j < ?p"
    and x: "x = i * (?d + ?p) + ?d + j" by (auto simp: compositeSlots_product)
  show "0 \<le> x" using ij by (simp add: x)
  have "(i + 1) * (?d + ?p) \<le> tagElementCount tag * (?d + ?p)"
    using ij by (intro mult_right_mono) auto
  then show "x < n" using ij assms(2) by (simp add: x algebra_simps)
  show "isSlot tag x"
    using ij slot_div_mod [of j ?p ?d i] by (simp add: isSlot_def x)
qed

lemma compositeSlots_distinct: "distinct (compositeSlots tag)"
proof -
  let ?d = "structDataWords tag" and ?p = "structPointerCount tag"
  have "inj_on (\<lambda>(i, j). i * (?d + ?p) + ?d + j)
      (set (List.product [0..tagElementCount tag - 1] [0..?p - 1]))"
  proof (rule inj_onI)
    fix x y
    assume mem: "x \<in> set (List.product [0..tagElementCount tag - 1] [0..?p - 1])"
      "y \<in> set (List.product [0..tagElementCount tag - 1] [0..?p - 1])"
      and e: "(\<lambda>(i, j). i * (?d + ?p) + ?d + j) x = (\<lambda>(i, j). i * (?d + ?p) + ?d + j) y"
    obtain i j i' j' where xy: "x = (i, j)" "y = (i', j')" by (cases x, cases y)
    have a: "0 \<le> j" "j < ?p" "0 \<le> j'" "j' < ?p" using mem xy by auto
    have dv: "(i * (?d + ?p) + ?d + j) div (?d + ?p) = i" "(i' * (?d + ?p) + ?d + j') div (?d + ?p) = i'"
      using a by (intro slot_div_mod; simp)+
    have eq: "i * (?d + ?p) + ?d + j = i' * (?d + ?p) + ?d + j'" using e xy by simp
    then have "i = i'" using dv by (simp only:)
    then show "x = y" using eq xy by simp
  qed
  then show ?thesis by (simp add: compositeSlots_product distinct_map distinct_product)
qed

lemma blankSlots_cong:
  "length us = length us' \<Longrightarrow> (\<And>k. k < length us \<Longrightarrow> \<not> isSlot tag (int k) \<Longrightarrow> us ! k = us' ! k) \<Longrightarrow>
    blankSlots tag us = blankSlots tag us'"
  by (auto simp: blankSlots_def)

section \<open>What the reader reads\<close>

text \<open>\<open>n\<close> words from word \<open>i\<close> on of a segment.\<close>

definition wordsAt :: "MessageReader \<Rightarrow> int \<Rightarrow> int \<Rightarrow> 64 word list \<Rightarrow> bool" where
  "wordsAt r s i ws \<longleftrightarrow> (\<forall>k < length ws. mrReadWord r s (i + int k) = Inr (ws ! k))"

inductive reads :: "MessageReader \<Rightarrow> int \<Rightarrow> int \<Rightarrow> wire_value \<Rightarrow> bool" for r where
  null: "readResolvedPointer r s i = Inr u \<Longrightarrow> up_word u = 0 \<Longrightarrow> up_contentWord u = None \<Longrightarrow> reads r s i NullV"
| cap: "readResolvedPointer r s i = Inr u \<Longrightarrow> pointerKind (up_word u) = 3 \<Longrightarrow> reads r s i (CapV (up_word u))"
| struct: "readStructPointer r s i = Inr (Some sr) \<Longrightarrow>
    length ws = nat (sr_dataWordCount sr) \<Longrightarrow> wordsAt r (sr_segmentId sr) (sr_startWord sr) ws \<Longrightarrow>
    length vs = nat (sr_pointerCount sr) \<Longrightarrow>
    (\<And>k. k < length vs \<Longrightarrow>
      reads r (sr_segmentId sr) (sr_startWord sr + sr_dataWordCount sr + int k) (vs ! k)) \<Longrightarrow>
    reads r s i (StructV ws vs)"
| flatList: "readListPointer r s i = Inr (Some (FlatList g t sz n)) \<Longrightarrow> sz \<noteq> 6 \<Longrightarrow>
    length ws = nat (flatListWords sz n) \<Longrightarrow> wordsAt r g t ws \<Longrightarrow> reads r s i (FlatV sz n ws)"
| ptrList: "readListPointer r s i = Inr (Some (FlatList g t 6 n)) \<Longrightarrow> length vs = nat n \<Longrightarrow>
    (\<And>k. k < length vs \<Longrightarrow> reads r g (t + int k) (vs ! k)) \<Longrightarrow> reads r s i (PtrListV vs)"
| composite: "readListPointer r s i = Inr (Some (InlineComposite g t ec dw pc n)) \<Longrightarrow>
    mrReadWord r g t = Inr tag \<Longrightarrow> length ws = nat n \<Longrightarrow> wordsAt r g (t + 1) ws \<Longrightarrow>
    length vs = length (compositeSlots tag) \<Longrightarrow>
    (\<And>k. k < length vs \<Longrightarrow> reads r g (t + 1 + compositeSlots tag ! k) (vs ! k)) \<Longrightarrow>
    reads r s i (CompositeV tag (blankSlots tag ws) vs)"

section \<open>Flat values\<close>

definition memOf :: "64 word list \<Rightarrow> int \<Rightarrow> 64 word option" where
  "memOf ws k = (if 0 \<le> k \<and> k < int (length ws) then Some (ws ! nat k) else None)"

definition known :: "(int \<Rightarrow> 64 word option) \<Rightarrow> int \<Rightarrow> 64 word list \<Rightarrow> bool" where
  "known m t ws \<longleftrightarrow> (\<forall>k < length ws. m (t + int k) = Some (ws ! k))"

definition fitsIn :: "int \<Rightarrow> int \<Rightarrow> int \<Rightarrow> bool" where
  "fitsIn L t n \<longleftrightarrow> 0 \<le> t \<and> t + n \<le> L"

inductive flat :: "(int \<Rightarrow> 64 word option) \<Rightarrow> int \<Rightarrow> int \<Rightarrow> wire_value \<Rightarrow> bool" for m L where
  null: "m i = Some 0 \<Longrightarrow> flat m L i NullV"
| cap: "m i = Some w \<Longrightarrow> pointerKind w = 3 \<Longrightarrow> flat m L i (CapV w)"
| struct: "m i = Some w \<Longrightarrow> w \<noteq> 0 \<Longrightarrow> pointerKind w = 0 \<Longrightarrow> t = i + 1 + pointerOffset w \<Longrightarrow>
    fitsIn L t (structDataWords w + structPointerCount w) \<Longrightarrow>
    length ws = nat (structDataWords w) \<Longrightarrow> known m t ws \<Longrightarrow> length vs = nat (structPointerCount w) \<Longrightarrow>
    (\<And>k. k < length vs \<Longrightarrow> flat m L (t + structDataWords w + int k) (vs ! k)) \<Longrightarrow> flat m L i (StructV ws vs)"
| flatList: "m i = Some w \<Longrightarrow> pointerKind w = 1 \<Longrightarrow> t = i + 1 + pointerOffset w \<Longrightarrow>
    listElementSize w < 6 \<Longrightarrow> fitsIn L t (flatListWords (listElementSize w) (listElementCount w)) \<Longrightarrow>
    length ws = nat (flatListWords (listElementSize w) (listElementCount w)) \<Longrightarrow> known m t ws \<Longrightarrow>
    flat m L i (FlatV (listElementSize w) (listElementCount w) ws)"
| ptrList: "m i = Some w \<Longrightarrow> pointerKind w = 1 \<Longrightarrow> t = i + 1 + pointerOffset w \<Longrightarrow>
    listElementSize w = 6 \<Longrightarrow> fitsIn L t (listElementCount w) \<Longrightarrow> length vs = nat (listElementCount w) \<Longrightarrow>
    (\<And>k. k < length vs \<Longrightarrow> flat m L (t + int k) (vs ! k)) \<Longrightarrow> flat m L i (PtrListV vs)"
| composite: "m i = Some w \<Longrightarrow> pointerKind w = 1 \<Longrightarrow> t = i + 1 + pointerOffset w \<Longrightarrow>
    listElementSize w = 7 \<Longrightarrow> m t = Some tag \<Longrightarrow> pointerKind tag = 0 \<Longrightarrow>
    (structDataWords tag + structPointerCount tag) * tagElementCount tag \<le> listElementCount w \<Longrightarrow>
    fitsIn L t (1 + listElementCount w) \<Longrightarrow> length ws = nat (listElementCount w) \<Longrightarrow> known m (t + 1) ws \<Longrightarrow>
    length vs = length (compositeSlots tag) \<Longrightarrow>
    (\<And>k. k < length vs \<Longrightarrow> flat m L (t + 1 + compositeSlots tag ! k) (vs ! k)) \<Longrightarrow>
    flat m L i (CompositeV tag (blankSlots tag ws) vs)"

lemma flat_mono:
  assumes "flat m L i v" "\<And>k w. m k = Some w \<Longrightarrow> m' k = Some w" "L \<le> L'"
  shows "flat m' L' i v"
  using assms(1)
proof (induction rule: flat.induct)
  case (null i)
  then show ?case using assms by (intro flat.null) auto
next
  case (cap i w)
  then show ?case using assms by (intro flat.cap) auto
next
  case (struct i w t ws vs)
  then show ?case using assms by (intro flat.struct [of m' i w]) (auto simp: fitsIn_def known_def)
next
  case (flatList i w t ws)
  then show ?case using assms by (intro flat.flatList) (auto simp: fitsIn_def known_def)
next
  case (ptrList i w t vs)
  then show ?case using assms by (intro flat.ptrList [of m' i w]) (auto simp: fitsIn_def known_def)
next
  case (composite i w t tag ws vs)
  then show ?case using assms by (intro flat.composite [of m' i w t tag]) (auto simp: fitsIn_def known_def)
qed

lemma flat_shift:
  assumes "flat m L i v" "0 \<le> B"
  shows "flat (\<lambda>k. m (k - B)) (L + B) (i + B) v"
  using assms(1)
proof (induction rule: flat.induct)
  case (null i)
  then show ?case by (intro flat.null) auto
next
  case (cap i w)
  then show ?case by (intro flat.cap) auto
next
  case (struct i w t ws vs)
  then show ?case using assms(2)
    by (intro flat.struct [of _ "i + B" w "t + B"]) (auto simp: fitsIn_def known_def algebra_simps)
next
  case (flatList i w t ws)
  then show ?case using assms(2)
    by (intro flat.flatList [of _ _ _ "t + B"]) (auto simp: fitsIn_def known_def algebra_simps)
next
  case (ptrList i w t vs)
  then show ?case using assms(2)
    by (intro flat.ptrList [of _ "i + B" w "t + B"]) (auto simp: fitsIn_def known_def algebra_simps)
next
  case (composite i w t tag ws vs)
  then show ?case using assms(2)
    by (intro flat.composite [of _ "i + B" w "t + B" tag]) (auto simp: fitsIn_def known_def algebra_simps)
qed

section \<open>The reader reads flat values\<close>

definition readerOf :: "64 word list \<Rightarrow> MessageReader" where
  "readerOf ws = \<lparr>mr_segments = [bytesOf ws]\<rparr>"

lemma mrReadWord_readerOf: "mrReadWord (readerOf ws) 0 i = Inr w \<longleftrightarrow> memOf ws i = Some w"
  by (simp add: mrReadWord_Inr readerOf_def wordAt_bytesOf memOf_def)

lemma mrRequireWordRange_readerOf:
  "0 \<le> n \<Longrightarrow> fitsIn (int (length ws)) t n \<Longrightarrow> mrRequireWordRange (readerOf ws) 0 t n ctx = Inr ()"
  by (auto simp: mrRequireWordRange_def mrSegment_def readerOf_def fitsIn_def)

lemma resolved_readerOf:
  assumes "memOf ws i = Some w" "pointerKind w \<noteq> 2"
  shows "readResolvedPointer (readerOf ws) 0 i =
    Inr \<lparr>up_segmentId = 0, up_pointerWord = i, up_word = w, up_contentWord = None\<rparr>"
proof (rule readResolvedPointer_direct)
  show "wordAt (mr_segments (readerOf ws)) 0 i = Some w"
    using assms(1) mrReadWord_readerOf mrReadWord_Inr by blast
qed (rule assms(2))

lemma wordsAt_readerOf: "known (memOf ws) t us \<Longrightarrow> wordsAt (readerOf ws) 0 t us"
  by (simp add: wordsAt_def known_def mrReadWord_readerOf)

lemma flatListWords_nonneg: "0 \<le> n \<Longrightarrow> 0 \<le> flatListWords sz n"
  by (simp add: flatListWords_def ceilDiv_nonneg)

lemma flat_reads:
  assumes "flat (memOf ws) (int (length ws)) i v"
  shows "reads (readerOf ws) 0 i v"
  using assms
proof (induction rule: flat.induct)
  case (null i)
  then show ?case using resolved_readerOf [OF null] by (intro reads.null) auto
next
  case (cap i w)
  then show ?case using resolved_readerOf [OF cap(1)] reads.cap by fastforce
next
  case (struct i w t us vs)
  have "readStructPointer (readerOf ws) 0 i = Inr (Some \<lparr>sr_segmentId = 0, sr_startWord = t,
      sr_dataWordCount = structDataWords w, sr_pointerCount = structPointerCount w\<rparr>)"
    using struct.hyps mrRequireWordRange_readerOf [of "structDataWords w + structPointerCount w" ws t]
    by (simp add: readStructPointer_def resolved_readerOf)
  then show ?case
    by (rule reads.struct) (use struct in \<open>auto simp: wordsAt_readerOf\<close>)
next
  case (flatList i w t us)
  have sz: "0 \<le> listElementSize w" by simp
  have "readListPointer (readerOf ws) 0 i = Inr (Some (FlatList 0 t (listElementSize w) (listElementCount w)))"
    using flatList.hyps sz mrRequireWordRange_readerOf [OF flatListWords_nonneg flatList.hyps(5)] listPtr_nonzero
    by (auto simp: readListPointer_def resolved_readerOf mrFlatListWords_eq Let_def pointerKind_zero)
  then show ?case
    by (rule reads.flatList) (use flatList in \<open>auto simp: wordsAt_readerOf\<close>)
next
  case (ptrList i w t vs)
  have "w \<noteq> 0" using ptrList.hyps(2) by auto
  moreover have "flatListWords 6 (listElementCount w) = listElementCount w" by (simp add: flatListWords_def)
  ultimately have "readListPointer (readerOf ws) 0 i = Inr (Some (FlatList 0 t 6 (listElementCount w)))"
    using ptrList.hyps mrRequireWordRange_readerOf [of "listElementCount w" ws t]
    by (auto simp: readListPointer_def resolved_readerOf mrFlatListWords_eq Let_def)
  then show ?case
    by (rule reads.ptrList) (use ptrList in auto)
next
  case (composite i w t tag us vs)
  have "w \<noteq> 0" using composite.hyps(2) by auto
  moreover have "mrReadWord (readerOf ws) 0 t = Inr tag"
    using composite.hyps by (simp add: mrReadWord_readerOf)
  moreover have "fitsIn (int (length ws)) t 1" "fitsIn (int (length ws)) (t + 1) (listElementCount w)"
    using composite.hyps(8) uint_field_nonneg(7) [of w] unfolding fitsIn_def by linarith+
  ultimately have "readListPointer (readerOf ws) 0 i = Inr (Some (InlineComposite 0 t (tagElementCount tag)
      (structDataWords tag) (structPointerCount tag) (listElementCount w)))"
    using composite.hyps mrRequireWordRange_readerOf [of 1 ws t]
      mrRequireWordRange_readerOf [of "listElementCount w" ws "t + 1"]
    by (auto simp: readListPointer_def resolved_readerOf Let_def)
  then show ?case
    by (rule reads.composite) (use composite in \<open>auto simp: wordsAt_readerOf mrReadWord_readerOf\<close>)
qed

section \<open>A pointer has one value\<close>

lemma struct_pointer_kind:
  assumes "readStructPointer r s i = Inr (Some sr)"
  obtains u where "readResolvedPointer r s i = Inr u" "pointerKind (up_word u) = 0"
    "up_word u = 0 \<Longrightarrow> up_contentWord u \<noteq> None"
  using assms by (auto simp: readStructPointer_def bindE_eq_Inr Let_def split: if_splits)

lemma list_pointer_kind:
  assumes "readListPointer r s i = Inr (Some l)"
  obtains u where "readResolvedPointer r s i = Inr u" "pointerKind (up_word u) = 1"
  using assms by (auto simp: readListPointer_def bindE_eq_Inr Let_def split: if_splits)

lemma wordsAt_unique: "wordsAt r s i ws \<Longrightarrow> wordsAt r s i us \<Longrightarrow> length ws = length us \<Longrightarrow> ws = us"
  by (auto simp: wordsAt_def intro: nth_equalityI)

lemma reads_unique:
  assumes "reads r s i v" "reads r s i v'"
  shows "v = v'"
  using assms
proof (induction arbitrary: v' rule: reads.induct)
  case (null s i u)
  from null(4) show ?case
    by cases (use null(1-3) in \<open>auto simp: pointerKind_zero elim!: struct_pointer_kind list_pointer_kind\<close>)
next
  case (cap s i u)
  from cap(3) show ?case
    by cases (use cap(1,2) in \<open>auto simp: pointerKind_zero elim!: struct_pointer_kind list_pointer_kind\<close>)
next
  case (struct s i sr ws vs)
  from struct(7) show ?case
  proof cases
    case (struct sr' ws' vs')
    have sr: "sr' = sr" using struct(2) \<open>readStructPointer r s i = Inr (Some sr)\<close> by simp
    have "ws = ws'" using struct.hyps struct wordsAt_unique sr by metis
    moreover have "vs = vs'"
      by (rule nth_equalityI) (use struct.hyps(4) struct.IH struct sr in auto)
    ultimately show ?thesis using struct(1) by simp
  qed (use struct(1) in \<open>auto simp: pointerKind_zero elim!: struct_pointer_kind list_pointer_kind\<close>)
next
  case (flatList s i g t sz n ws)
  from flatList(5) show ?case
    by cases (use flatList(1-4) wordsAt_unique in \<open>auto simp: pointerKind_zero elim!: struct_pointer_kind list_pointer_kind\<close>)
next
  case (ptrList s i g t n vs)
  from ptrList(5) show ?case
  proof cases
    case (ptrList g' t' n' vs')
    then have e: "g' = g" "t' = t" "n' = n" using \<open>readListPointer r s i = Inr (Some (FlatList g t 6 n))\<close> by simp_all
    have "vs = vs'" by (rule nth_equalityI) (use ptrList.hyps(2) ptrList.IH ptrList e in auto)
    then show ?thesis using ptrList(1) by simp
  qed (use ptrList(1) in \<open>auto simp: pointerKind_zero elim!: struct_pointer_kind list_pointer_kind\<close>)
next
  case (composite s i g t ec dw pc n tag ws vs)
  note rd = composite.hyps(1)
  from composite(8) show ?case
  proof cases
    case (composite g' t' ec' dw' pc' n' tag' ws' vs')
    have e: "g' = g" "t' = t" "n' = n" using composite(2) rd by simp_all
    then have tg: "tag' = tag" using composite \<open>mrReadWord r g t = Inr tag\<close> by simp
    have "ws = ws'" using composite.hyps(3,4) composite e wordsAt_unique by metis
    moreover have "vs = vs'" by (rule nth_equalityI) (use composite.hyps(5) composite.IH composite e tg in auto)
    ultimately show ?thesis using composite(1) tg by simp
  qed (use composite(1) in \<open>auto simp: pointerKind_zero elim!: struct_pointer_kind list_pointer_kind\<close>)
qed
end
