(* ===== verification/Any_Pointer_Copy.thy ===== *)
theory Any_Pointer_Copy
  imports Wire_Values
begin

unbundle bit_operations_syntax

text \<open>
  The budgeted deep copy of \<open>src/encoding/runtime_codec.ts\<close>: \<open>AnyPointerCopyBudget\<close>,
  \<open>deepCopyAnyPointer\<close>, \<open>decodeAnyPointerMessageFromReader\<close> and
  \<open>encodeAnyPointerMessageIntoBuilder\<close>. The depth check bounds the recursion. What a copy
  succeeds on is read from its output as the same value, and its output has no far pointers.
\<close>

section \<open>The budget\<close>

record AnyPointerCopyOptions =
  ao_maxWork :: "number option"
  ao_maxOutputWords :: "number option"
  ao_maxDepth :: "number option"

text \<open>The options of a caller that passes none.\<close>

definition noCopyOptions :: AnyPointerCopyOptions where
  "noCopyOptions = \<lparr>ao_maxWork = None, ao_maxOutputWords = None, ao_maxDepth = None\<rparr>"

record AnyPointerCopyBudget =
  cb_work :: int
  cb_outputWords :: int
  cb_maxDepth :: int

definition chargeWork :: "AnyPointerCopyBudget \<Rightarrow> int \<Rightarrow> AnyPointerCopyBudget result" where
  "chargeWork budget amount =
     (if amount > cb_work budget then Inl (ProtocolError ''AnyPointer copy work limit exceeded'' [])
      else Inr (budget\<lparr>cb_work := cb_work budget - amount\<rparr>))"

definition chargeOutput :: "AnyPointerCopyBudget \<Rightarrow> int \<Rightarrow> AnyPointerCopyBudget result" where
  "chargeOutput budget amount =
     (if amount > cb_outputWords budget then Inl (ProtocolError ''AnyPointer copy output word limit exceeded'' [])
      else Inr (budget\<lparr>cb_outputWords := cb_outputWords budget - amount\<rparr>))"

definition checkBudget :: "number \<Rightarrow> string \<Rightarrow> unit result" where
  "checkBudget value name =
     (if \<not> isSafeInteger value \<or> numLess value (jint 0)
      then Inl (ProtocolError (''AnyPointer copy '' @ name @ '' must be a non-negative safe integer'') [])
      else Inr ())"

definition newAnyPointerCopyBudget :: "AnyPointerCopyOptions \<Rightarrow> AnyPointerCopyBudget result" where
  "newAnyPointerCopyBudget options =
     (let work = orDefault (ao_maxWork options) (8 * 1024 * 1024);
          outputWords = orDefault (ao_maxOutputWords options) (8 * 1024 * 1024);
          maxDepth = orDefault (ao_maxDepth options) 64
      in bindE (checkBudget work ''maxWork'') (\<lambda>_.
         bindE (checkBudget outputWords ''maxOutputWords'') (\<lambda>_.
         bindE (checkBudget maxDepth ''maxDepth'') (\<lambda>_.
         chargeOutput \<lparr>cb_work = toInt work, cb_outputWords = toInt outputWords, cb_maxDepth = toInt maxDepth\<rparr> 1))))"

section \<open>Copying\<close>

text \<open>A counting loop with a state.\<close>

fun loopE :: "('x \<Rightarrow> 's \<Rightarrow> 's result) \<Rightarrow> 'x list \<Rightarrow> 's \<Rightarrow> 's result" where
  "loopE f [] st = Inr st"
| "loopE f (x # xs) st = bindE (f x st) (loopE f xs)"

lemma loopE_cong [fundef_cong]:
  "xs = ys \<Longrightarrow> st = st' \<Longrightarrow> (\<And>x s. x \<in> set ys \<Longrightarrow> f x s = g x s) \<Longrightarrow> loopE f xs st = loopE g ys st'"
proof (induction ys arbitrary: xs st st')
  case (Cons y ys)
  then have "loopE f ys s = loopE g ys s" for s by auto
  then show ?case using Cons.prems by (auto intro!: bindE_cong)
qed simp

definition listDataWordsForAnyPointerCopy :: "int \<Rightarrow> int \<Rightarrow> int result" where
  "listDataWordsForAnyPointerCopy elementSize elementCount =
     (if elementSize = 0 then Inr 0
      else if elementSize = 1 then Inr (ceilDiv elementCount 64)
      else if elementSize = 2 then Inr (bytesToWords elementCount)
      else if elementSize = 3 then Inr (bytesToWords (elementCount * 2))
      else if elementSize = 4 then Inr (bytesToWords (elementCount * 4))
      else if elementSize = 5 \<or> elementSize = 6 then Inr elementCount
      else Inl (PlainError ''unsupported list element size for anyPointer copy: {}'' [elementSize]))"

definition copyWordsForAnyPointer ::
  "MessageReader \<Rightarrow> int \<Rightarrow> int \<Rightarrow> int \<Rightarrow> MessageBuilder \<Rightarrow> int \<Rightarrow> MessageBuilder result" where
  "copyWordsForAnyPointer r srcSegmentId srcStartWord wordCount b dstStartWord =
     loopE (\<lambda>i b. bindE (mrReadWord r srcSegmentId (srcStartWord + i)) (\<lambda>w.
                  mbWriteWord b (dstStartWord + i) w)) [0..wordCount - 1] b"

type_synonym copy_state = "MessageBuilder \<times> AnyPointerCopyBudget"

function (sequential) deepCopyAnyPointer ::
  "MessageReader \<Rightarrow> int \<Rightarrow> int \<Rightarrow> int \<Rightarrow> int \<Rightarrow> int \<Rightarrow> copy_state \<Rightarrow> copy_state result" where
  "deepCopyAnyPointer r srcSegmentId srcPointerWord dstPointerWord maxDepth depth (b, budget) =
     (if depth > maxDepth
      then Inl (ProtocolError ''AnyPointer copy nesting depth limit exceeded'' [])
      else
        bindE (chargeWork budget 1) (\<lambda>budget.
        bindE (readResolvedPointer r srcSegmentId srcPointerWord) (\<lambda>resolved.
        let word = up_word resolved; kind = pointerKind word in
        if word = 0 \<and> up_contentWord resolved = None
        then bindE (mbWriteWord b dstPointerWord 0) (\<lambda>b. Inr (b, budget))
        else if kind = 3 then bindE (mbWriteWord b dstPointerWord word) (\<lambda>b. Inr (b, budget))
        else if kind = 0 then
          bindE (readStructPointer r srcSegmentId srcPointerWord) (\<lambda>ref.
          case ref of
            None \<Rightarrow> Inl undefinedRead
          | Some ref \<Rightarrow>
              bindE (chargeWork budget (sr_dataWordCount ref)) (\<lambda>budget.
              bindE (chargeOutput budget (sr_dataWordCount ref + sr_pointerCount ref)) (\<lambda>budget.
              bindE (mbAllocWords b (jint (sr_dataWordCount ref + sr_pointerCount ref))) (\<lambda>(start, b).
              bindE (mbSetStructPointer b dstPointerWord start (sr_dataWordCount ref) (sr_pointerCount ref)) (\<lambda>b.
              bindE (copyWordsForAnyPointer r (sr_segmentId ref) (sr_startWord ref) (sr_dataWordCount ref) b start) (\<lambda>b.
              loopE (\<lambda>i. deepCopyAnyPointer r (sr_segmentId ref)
                           (sr_startWord ref + sr_dataWordCount ref + i)
                           (start + sr_dataWordCount ref + i) maxDepth (depth + 1))
                [0..sr_pointerCount ref - 1] (b, budget)))))))
        else if kind \<noteq> 1
        then Inl (ProtocolError ''AnyPointer copy received unresolved far pointer'' [])
        else
          bindE (readListPointer r srcSegmentId srcPointerWord) (\<lambda>lst.
          case lst of
            None \<Rightarrow> Inl undefinedRead
          | Some (InlineComposite seg tagWord elementCount dataWordCount pointerCount wordsInElements) \<Rightarrow>
              bindE (chargeWork budget elementCount) (\<lambda>budget.
              bindE (chargeWork budget wordsInElements) (\<lambda>budget.
              bindE (chargeOutput budget (1 + wordsInElements)) (\<lambda>budget.
              bindE (mbAllocWords b (jint (1 + wordsInElements))) (\<lambda>(start, b).
              bindE (mbSetListPointer b dstPointerWord start 7 wordsInElements) (\<lambda>b.
              bindE (copyWordsForAnyPointer r seg tagWord (1 + wordsInElements) b start) (\<lambda>b.
              let stride = dataWordCount + pointerCount
              in if pointerCount \<noteq> 0
                 then loopE (\<lambda>i. loopE (\<lambda>j.
                        let offset = 1 + i * stride + dataWordCount + j
                        in deepCopyAnyPointer r seg (tagWord + offset) (start + offset) maxDepth (depth + 1))
                        [0..pointerCount - 1]) [0..elementCount - 1] (b, budget)
                 else Inr (b, budget)))))))
          | Some (FlatList seg startWord elementSize elementCount) \<Rightarrow>
              bindE (chargeWork budget elementCount) (\<lambda>budget.
              bindE (listDataWordsForAnyPointerCopy elementSize elementCount) (\<lambda>words.
              bindE (chargeWork budget words) (\<lambda>budget.
              bindE (chargeOutput budget words) (\<lambda>budget.
              bindE (mbAllocWords b (jint words)) (\<lambda>(start, b).
              bindE (mbSetListPointer b dstPointerWord start elementSize elementCount) (\<lambda>b.
              if elementSize = 6
              then loopE (\<lambda>i. deepCopyAnyPointer r seg (startWord + i) (start + i) maxDepth (depth + 1))
                     [0..elementCount - 1] (b, budget)
              else bindE (copyWordsForAnyPointer r seg startWord words b start) (\<lambda>b. Inr (b, budget))))))))))))"
  by pat_completeness auto
termination
  by (relation "measure (\<lambda>(r, s, p, d, maxDepth, depth, st). nat (maxDepth + 1 - depth))") auto

declare deepCopyAnyPointer.simps [simp del]

definition decodeAnyPointerMessageFromReader ::
  "MessageReader \<Rightarrow> int \<Rightarrow> int \<Rightarrow> AnyPointerCopyOptions \<Rightarrow> bytes result" where
  "decodeAnyPointerMessageFromReader r segmentId pointerWord options =
     bindE (newAnyPointerCopyBudget options) (\<lambda>budget.
     bindE (deepCopyAnyPointer r segmentId pointerWord 0 (cb_maxDepth budget) 0 (newMessageBuilder, budget))
       (\<lambda>(b, _). mbToMessageBytes b))"

definition rebaseCopiedAnyPointerRootPointer :: "64 word \<Rightarrow> int \<Rightarrow> int \<Rightarrow> 64 word result" where
  "rebaseCopiedAnyPointerRootPointer sourceRootPointer copiedStartWord destinationPointerWord =
     (if sourceRootPointer = 0 then Inr 0
      else let kind = pointerKind sourceRootPointer
      in if kind = 0 \<or> kind = 1 then
           let sourceOffset = pointerOffset sourceRootPointer;
               sourceTargetWord = 1 + sourceOffset;
               destinationTargetWord = copiedStartWord + sourceTargetWord;
               destinationOffset = destinationTargetWord - (destinationPointerWord + 1)
           in bindE (rtEncodeSigned30 destinationOffset) (\<lambda>e. Inr (withOffset sourceRootPointer e))
         else if kind = 2
         then Inl (PlainError ''anyPointer message encoding does not support far-pointer roots'' [])
         else Inr sourceRootPointer)"

text \<open>
  The builder is any object with the two operations of its interface; they are parameters here
  as they are there.
\<close>

definition encodeAnyPointerMessageIntoBuilder ::
  "('b \<Rightarrow> int \<Rightarrow> (int \<times> 'b) result) \<Rightarrow> ('b \<Rightarrow> int \<Rightarrow> 64 word \<Rightarrow> 'b result) \<Rightarrow>
   'b \<Rightarrow> int \<Rightarrow> bytes \<Rightarrow> AnyPointerCopyOptions \<Rightarrow> 'b result" where
  "encodeAnyPointerMessageIntoBuilder alloc writeTo b pointerWord message options =
     bindE (newMessageReader message) (\<lambda>r.
     bindE (decodeAnyPointerMessageFromReader r 0 0 options) (\<lambda>flatMessage.
     let flatSegment = drop 8 flatMessage;
         segmentWordCount = length flatSegment div 8;
         segmentWords = toWords segmentWordCount flatSegment
     in case segmentWords of
          [] \<Rightarrow> writeTo b pointerWord 0
        | sourceRootPointer # _ \<Rightarrow>
            if sourceRootPointer = 0 then writeTo b pointerWord 0
            else bindE (alloc b (int segmentWordCount)) (\<lambda>(copiedStartWord, b).
                 bindE (writeWords writeTo b copiedStartWord segmentWords) (\<lambda>b.
                 bindE (rebaseCopiedAnyPointerRootPointer sourceRootPointer copiedStartWord pointerWord) (\<lambda>w.
                 writeTo b pointerWord w)))))"

section \<open>Loops\<close>

lemma loopE_append: "loopE f (xs @ ys) st = bindE (loopE f xs st) (loopE f ys)"
  by (induction xs arbitrary: st) (auto simp: bindE_assoc intro!: bindE_cong)

lemma loopE_map: "loopE f (map h xs) st = loopE (\<lambda>x. f (h x)) xs st"
  by (induction xs arbitrary: st) (auto intro!: bindE_cong)

lemma loopE_product:
  "loopE (\<lambda>i. loopE (f i) js) is st = loopE (\<lambda>(i, j). f i j) (List.product is js) st"
proof (induction "is" arbitrary: st)
  case (Cons i "is")
  have "loopE (f i) js st = loopE (\<lambda>(i, j). f i j) (map (Pair i) js) st" by (simp add: loopE_map)
  then show ?case using Cons by (simp add: loopE_append cong: bindE_cong)
qed simp

lemma upto_map: "[0..int n - 1] = map int [0..<n]"
proof (induction n)
  case (Suc n)
  have "[0..int n] = [0..int n - 1] @ [int n]" by (simp add: upto_rec2)
  then show ?case using Suc by simp
qed simp

lemma copyWords_mb:
  assumes "copyWordsForAnyPointer r g t (int n) (mb ws) (int d) = Inr b'" "d + n \<le> length ws"
  shows "\<exists>us. length us = n \<and> wordsAt r g t us \<and> b' = mb (take d ws @ us @ drop (d + n) ws)"
  using assms
proof (induction n arbitrary: b')
  case 0
  then show ?case by (simp add: copyWordsForAnyPointer_def wordsAt_def)
next
  case (Suc n)
  let ?f = "\<lambda>i b. bindE (mrReadWord r g (t + i)) (\<lambda>w. mbWriteWord b (int d + i) w)"
  have "loopE ?f (map int [0..<Suc n]) (mb ws) = Inr b'"
    using Suc.prems(1) unfolding copyWordsForAnyPointer_def upto_map .
  then obtain b1 where b1: "loopE ?f (map int [0..<n]) (mb ws) = Inr b1" and last: "?f (int n) b1 = Inr b'"
    by (auto simp: loopE_append bindE_eq_Inr)
  have "copyWordsForAnyPointer r g t (int n) (mb ws) (int d) = Inr b1"
    unfolding copyWordsForAnyPointer_def upto_map by (rule b1)
  then obtain us where us: "length us = n" "wordsAt r g t us" "b1 = mb (take d ws @ us @ drop (d + n) ws)"
    using Suc.IH Suc.prems(2) by auto
  from last obtain w where w: "mrReadWord r g (t + int n) = Inr w" and wr: "mbWriteWord b1 (int (d + n)) w = Inr b'"
    by (auto simp: bindE_eq_Inr)
  let ?ws = "take d ws @ us @ drop (d + n) ws"
  have lt: "d + n < length ?ws" using us(1) Suc.prems(2) by simp
  have "?ws[d + n := w] = take d ws @ (us @ [w]) @ drop (d + Suc n) ws"
  proof -
    have "drop (d + n) ws = ws ! (d + n) # drop (d + Suc n) ws"
      using Suc.prems(2) by (simp add: Cons_nth_drop_Suc)
    then show ?thesis using us(1) Suc.prems(2) by (simp add: list_update_append)
  qed
  then have "b' = mb (take d ws @ (us @ [w]) @ drop (d + Suc n) ws)"
    using wr mbWriteWord_mb [OF lt, of w] us(3) by simp
  moreover have "wordsAt r g t (us @ [w])"
    using us(1,2) w by (auto simp: wordsAt_def nth_append less_Suc_eq)
  ultimately show ?case using us(1) by (intro exI [of _ "us @ [w]"]) simp
qed

section \<open>What one copy does\<close>

definition outBlock :: "nat \<Rightarrow> 64 word list \<Rightarrow> 64 word list \<Rightarrow> int \<Rightarrow> 64 word option" where
  "outBlock dst ws ws' = memOf ws' |` ({int dst} \<union> {int (length ws)..<int (length ws')})"

definition accounted :: "64 word list \<Rightarrow> AnyPointerCopyBudget \<Rightarrow> 64 word list \<Rightarrow> AnyPointerCopyBudget \<Rightarrow> bool" where
  "accounted ws bud ws' bud' \<longleftrightarrow>
     int (length ws') + cb_outputWords bud' = int (length ws) + cb_outputWords bud \<and>
     (0 \<le> cb_outputWords bud \<longrightarrow> 0 \<le> cb_outputWords bud')"

definition copied ::
  "MessageReader \<Rightarrow> int \<Rightarrow> int \<Rightarrow> nat \<Rightarrow> 64 word list \<Rightarrow> 64 word list \<Rightarrow> wire_value \<Rightarrow> bool" where
  "copied r s i dst ws ws' v \<longleftrightarrow>
     length ws \<le> length ws' \<and> (\<forall>k < length ws. k \<noteq> dst \<longrightarrow> ws' ! k = ws ! k) \<and>
     reads r s i v \<and> flat (outBlock dst ws ws') (int (length ws')) (int dst) v"

text \<open>The same for a list of slots, at the offsets \<open>xs\<close> from a source and a destination word.\<close>

definition copiedAll ::
  "MessageReader \<Rightarrow> int \<Rightarrow> int \<Rightarrow> int \<Rightarrow> int list \<Rightarrow> 64 word list \<Rightarrow> 64 word list \<Rightarrow> wire_value list \<Rightarrow> bool" where
  "copiedAll r g src dst xs ws ws' vs \<longleftrightarrow>
     length vs = length xs \<and> length ws \<le> length ws' \<and>
     (\<forall>k < length ws. int k - dst \<notin> set xs \<longrightarrow> ws' ! k = ws ! k) \<and>
     (\<forall>n < length xs. reads r g (src + xs ! n) (vs ! n) \<and>
        flat (outBlock (nat (dst + xs ! n)) ws ws') (int (length ws')) (dst + xs ! n) (vs ! n))"

lemma memOf_Some: "memOf ws k = Some w \<longleftrightarrow> 0 \<le> k \<and> k < int (length ws) \<and> w = ws ! nat k"
  by (auto simp: memOf_def)

lemma outBlock_Some:
  "outBlock dst ws ws' k = Some w \<longleftrightarrow>
     (k = int dst \<or> int (length ws) \<le> k) \<and> 0 \<le> k \<and> k < int (length ws') \<and> w = ws' ! nat k"
  by (auto simp: outBlock_def restrict_map_def memOf_def)

text \<open>The body \<open>f\<close> of a loop copies the slot at each of the offsets.\<close>

definition copies ::
  "(int \<Rightarrow> copy_state \<Rightarrow> copy_state result) \<Rightarrow> MessageReader \<Rightarrow> int \<Rightarrow> int \<Rightarrow> int \<Rightarrow> int list \<Rightarrow> bool" where
  "copies f r g src dst xs \<longleftrightarrow>
     (\<forall>x ws bud b' bud'. x \<in> set xs \<longrightarrow> 0 \<le> dst + x \<longrightarrow> dst + x < int (length ws) \<longrightarrow>
        f x (mb ws, bud) = Inr (b', bud') \<longrightarrow>
        (\<exists>ws' v. b' = mb ws' \<and> copied r g (src + x) (nat (dst + x)) ws ws' v \<and> accounted ws bud ws' bud'))"

lemma copiesD:
  "copies f r g src dst xs \<Longrightarrow> x \<in> set xs \<Longrightarrow> 0 \<le> dst + x \<Longrightarrow> dst + x < int (length ws) \<Longrightarrow>
    f x (mb ws, bud) = Inr (b', bud') \<Longrightarrow>
    \<exists>ws' v. b' = mb ws' \<and> copied r g (src + x) (nat (dst + x)) ws ws' v \<and> accounted ws bud ws' bud'"
  unfolding copies_def by blast

lemma copy_loop:
  assumes step: "copies f r g src dst xs"
    and run: "loopE f xs (mb ws, bud) = Inr (b', bud')"
    and rng: "\<forall>x \<in> set xs. 0 \<le> dst + x \<and> dst + x < int (length ws)" and dist: "distinct xs"
  shows "\<exists>ws' vs. b' = mb ws' \<and> copiedAll r g src dst xs ws ws' vs \<and> accounted ws bud ws' bud'"
  using assms
proof (induction xs arbitrary: ws bud)
  case Nil
  then show ?case by (auto simp: copiedAll_def accounted_def)
next
  case (Cons x xs)
  from Cons.prems(2) obtain b1 bud1 where f: "f x (mb ws, bud) = Inr (b1, bud1)"
    and rest: "loopE f xs (b1, bud1) = Inr (b', bud')" by (auto simp: bindE_eq_Inr)
  from copiesD [OF Cons.prems(1) _ _ _ f] Cons.prems(3) obtain ws1 v where b1: "b1 = mb ws1"
    and c1: "copied r g (src + x) (nat (dst + x)) ws ws1 v" and a1: "accounted ws bud ws1 bud1" by auto
  have len1: "length ws \<le> length ws1" using c1 by (simp add: copied_def)
  have "\<exists>ws' vs. b' = mb ws' \<and> copiedAll r g src dst xs ws1 ws' vs \<and> accounted ws1 bud1 ws' bud'"
  proof (rule Cons.IH)
    show "loopE f xs (mb ws1, bud1) = Inr (b', bud')" using rest b1 by simp
    show "copies f r g src dst xs" using Cons.prems(1) by (simp add: copies_def)
  qed (use Cons.prems len1 in \<open>auto intro: order_less_le_trans\<close>)
  then obtain ws2 vs where b': "b' = mb ws2" and c2: "copiedAll r g src dst xs ws1 ws2 vs"
    and a2: "accounted ws1 bud1 ws2 bud'" by auto
  have len2: "length ws1 \<le> length ws2" using c2 by (simp add: copiedAll_def)
  have x: "0 \<le> dst + x" "dst + x < int (length ws)" "x \<notin> set xs" using Cons.prems by auto
  have same: "ws2 ! k = ws1 ! k" if "k < length ws1" "int k - dst \<notin> set xs" for k
    using c2 that by (simp add: copiedAll_def)
  have low: "int k - dst \<notin> set xs" if "length ws \<le> k" for k
    using Cons.prems(3) that by force
  have head: "flat (outBlock (nat (dst + x)) ws ws2) (int (length ws2)) (dst + x) v"
  proof (rule flat_mono)
    show "flat (outBlock (nat (dst + x)) ws ws1) (int (length ws1)) (dst + x) v"
      using c1 x by (simp add: copied_def)
    fix k w assume "outBlock (nat (dst + x)) ws ws1 k = Some w"
    then have k: "k = dst + x \<or> int (length ws) \<le> k" "0 \<le> k" "k < int (length ws1)" "w = ws1 ! nat k"
      using x by (auto simp: outBlock_Some)
    have "int (nat k) - dst \<notin> set xs"
    proof (cases "k = dst + x")
      case False
      then have "length ws \<le> nat k" using k by linarith
      then show ?thesis by (rule low)
    qed (use x in simp)
    then have "ws2 ! nat k = ws1 ! nat k" using k by (intro same) auto
    then show "outBlock (nat (dst + x)) ws ws2 k = Some w" using k len2 x by (auto simp: outBlock_Some)
  qed (use len2 in simp)
  have tail: "flat (outBlock (nat (dst + xs ! n)) ws ws2) (int (length ws2)) (dst + xs ! n) (vs ! n)"
    if "n < length xs" for n
  proof (rule flat_mono)
    show "flat (outBlock (nat (dst + xs ! n)) ws1 ws2) (int (length ws2)) (dst + xs ! n) (vs ! n)"
      using c2 that by (simp add: copiedAll_def)
  qed (use len1 in \<open>auto simp: outBlock_Some\<close>)
  have "copiedAll r g src dst (x # xs) ws ws2 (v # vs)"
    unfolding copiedAll_def
  proof (intro conjI allI impI)
    show "ws2 ! k = ws ! k" if "k < length ws" "int k - dst \<notin> set (x # xs)" for k
    proof -
      have "k \<noteq> nat (dst + x)" using that x by auto
      then have "ws1 ! k = ws ! k" using c1 that by (simp add: copied_def)
      then show ?thesis using same [of k] that len1 by simp
    qed
    fix n assume n: "n < length (x # xs)"
    show "reads r g (src + (x # xs) ! n) ((v # vs) ! n)"
      using n c1 c2 by (cases n) (auto simp: copied_def copiedAll_def)
    show "flat (outBlock (nat (dst + (x # xs) ! n)) ws ws2) (int (length ws2)) (dst + (x # xs) ! n) ((v # vs) ! n)"
      using n head tail by (cases n) auto
  qed (use c2 len1 len2 in \<open>simp_all add: copiedAll_def\<close>)
  moreover have "accounted ws bud ws2 bud'" using a1 a2 by (auto simp: accounted_def)
  ultimately show ?case using b' by blast
qed

section \<open>The writers, from their success\<close>

lemma rtEncodeSigned30_Inr: "rtEncodeSigned30 v = Inr e \<Longrightarrow> inOffsetRange v \<and> e = word_of_int (v mod 2 ^ 30)"
proof -
  assume a: "rtEncodeSigned30 v = Inr e"
  then have r: "inOffsetRange v" by (auto simp: rtEncodeSigned30_def inOffsetRange_def split: if_splits)
  then show ?thesis using a by simp
qed

lemma mbSetStructPointer_Inr:
  assumes "mbSetStructPointer (mb ws) (int i) t d p = Inr b'" "i < length ws"
    "0 \<le> d" "d < 2 ^ 16" "0 \<le> p" "p < 2 ^ 16"
  shows "inOffsetRange (structOffset (int i) t d p) \<and> b' = mb (ws[i := structPtr (structOffset (int i) t d p) d p])"
proof -
  obtain e where "rtEncodeSigned30 (structOffset (int i) t d p) = Inr e"
    using assms(1) by (auto simp: mbSetStructPointer_def structOffset_def bindE_eq_Inr Let_def split: if_splits)
  then have r: "inOffsetRange (structOffset (int i) t d p)" using rtEncodeSigned30_Inr by blast
  then show ?thesis using mbSetStructPointer_mb [OF assms(2) r assms(3-6)] assms(1) by simp
qed

lemma mbSetListPointer_Inr:
  assumes "mbSetListPointer (mb ws) (int i) t sz n = Inr b'" "i < length ws"
    "0 \<le> sz" "sz < 2 ^ 3" "0 \<le> n" "n < 2 ^ 29"
  shows "inOffsetRange (t - (int i + 1)) \<and> b' = mb (ws[i := listPtr (t - (int i + 1)) sz n])"
proof -
  obtain e where "rtEncodeSigned30 (t - (int i + 1)) = Inr e"
    using assms(1) by (auto simp: mbSetListPointer_def bindE_eq_Inr Let_def)
  then have r: "inOffsetRange (t - (int i + 1))" using rtEncodeSigned30_Inr by blast
  then show ?thesis using mbSetListPointer_mb [OF assms(2) r assms(3-6)] assms(1) by simp
qed

text \<open>A copied pointer: what the destination block holds around its slots.\<close>

lemma copiedAll_outside:
  assumes "copiedAll r g src dst xs ws ws' vs" "k < length ws" "int k - dst \<notin> set xs"
  shows "ws' ! k = ws ! k"
  using assms by (simp add: copiedAll_def)

lemma copiedAll_flat:
  assumes "copiedAll r g src (int (length ws0) + c) xs ws ws' vs" "n < length xs" "length ws0 \<le> length ws"
    "0 \<le> c" "\<forall>x \<in> set xs. 0 \<le> x"
  shows "flat (outBlock d ws0 ws') (int (length ws')) (int (length ws0) + c + xs ! n) (vs ! n)"
proof (rule flat_mono)
  show "flat (outBlock (nat (int (length ws0) + c + xs ! n)) ws ws') (int (length ws')) (int (length ws0) + c + xs ! n) (vs ! n)"
    using assms(1,2) by (simp add: copiedAll_def)
  have "0 \<le> xs ! n" using assms(2,5) by (meson nth_mem)
  then show "outBlock (nat (int (length ws0) + c + xs ! n)) ws ws' k = Some w \<Longrightarrow> outBlock d ws0 ws' k = Some w" for k w
    using assms(3,4) by (auto simp: outBlock_Some)
qed simp

lemma struct_copied:
  assumes ref: "readStructPointer r s i = Inr (Some sr)"
    and d: "sr_dataWordCount sr = int d" "d < 2 ^ 16" and p: "sr_pointerCount sr = int p" "p < 2 ^ 16"
    and dst: "dst < length ws"
    and set: "mbSetStructPointer (mb (ws @ replicate (d + p) 0)) (int dst) (int (length ws)) (int d) (int p) = Inr b2"
    and copy: "copyWordsForAnyPointer r (sr_segmentId sr) (sr_startWord sr) (int d) b2 (int (length ws)) = Inr b3"
    and step: "copies f r (sr_segmentId sr) (sr_startWord sr + int d) (int (length ws) + int d) [0..int p - 1]"
    and run: "loopE f [0..int p - 1] (b3, bud) = Inr (b', bud')"
  shows "\<exists>ws' v. b' = mb ws' \<and> copied r s i dst ws ws' v \<and> accounted (ws @ replicate (d + p) 0) bud ws' bud'"
proof -
  let ?L = "length ws" and ?off = "structOffset (int dst) (int (length ws)) (int d) (int p)"
  let ?P = "structPtr ?off (int d) (int p)"
  have b2: "b2 = mb ((ws @ replicate (d + p) 0)[dst := ?P])" and off: "inOffsetRange ?off"
    using mbSetStructPointer_Inr [OF set] dst d(2) p(2) by auto
  let ?ws2 = "(ws @ replicate (d + p) 0)[dst := ?P]"
  obtain us where us: "length us = d" "wordsAt r (sr_segmentId sr) (sr_startWord sr) us"
    and b3: "b3 = mb (take ?L ?ws2 @ us @ drop (?L + d) ?ws2)"
    using copyWords_mb [of r "sr_segmentId sr" "sr_startWord sr" d ?ws2 ?L b3] copy by (auto simp: b2)
  let ?ws3 = "ws[dst := ?P] @ us @ replicate p 0"
  have e3: "take ?L ?ws2 @ us @ drop (?L + d) ?ws2 = ?ws3"
    using dst by (simp add: list_update_append1)
  have "loopE f [0..int p - 1] (mb ?ws3, bud) = Inr (b', bud')" using run b3 e3 by simp
  moreover have "\<forall>x \<in> set [0..int p - 1]. 0 \<le> int ?L + int d + x \<and> int ?L + int d + x < int (length ?ws3)"
    using us(1) by auto
  ultimately obtain ws' vs where b': "b' = mb ws'"
    and all: "copiedAll r (sr_segmentId sr) (sr_startWord sr + int d) (int ?L + int d) [0..int p - 1] ?ws3 ws' vs"
    and acc: "accounted ?ws3 bud ws' bud'"
    using copy_loop [OF step] distinct_upto by blast
  have lvs: "length vs = p" and len: "length ?ws3 \<le> length ws'" using all by (auto simp: copiedAll_def)
  have len3: "length ?ws3 = ?L + d + p" using us(1) by simp
  have keep: "ws' ! k = ?ws3 ! k" if "k < ?L + d" for k
    by (rule copiedAll_outside [OF all]) (use that len3 in auto)
  have P: "pointerKind ?P = 0" "pointerOffset ?P = ?off" "structDataWords ?P = int d" "structPointerCount ?P = int p"
    using structPtr_fields [OF off] d(2) p(2) by auto
  have nz: "?P \<noteq> 0"
  proof
    assume z: "?P = 0"
    have "structDataWords 0 = 0" "structPointerCount 0 = 0" "pointerOffset 0 = 0"
      by (simp_all add: structDataWords_def structPointerCount_def pointerOffset_def signed30_def)
    then show False using P z by (auto simp: structOffset_def split: if_splits)
  qed
  have "flat (outBlock dst ws ws') (int (length ws')) (int dst) (StructV us vs)"
  proof (rule flat.struct)
    show "outBlock dst ws ws' (int dst) = Some ?P"
      using keep [of dst] dst len len3 by (auto simp: outBlock_Some nth_append)
    show "int dst + 1 + ?off = int dst + 1 + pointerOffset ?P" by (simp add: P)
    show "fitsIn (int (length ws')) (int dst + 1 + ?off) (structDataWords ?P + structPointerCount ?P)"
      unfolding P(3,4) using len len3 dst by (auto simp: fitsIn_def structOffset_def)
    show "length us = nat (structDataWords ?P)" by (simp add: P us)
    show "known (outBlock dst ws ws') (int dst + 1 + ?off) us"
    proof (cases "d = 0 \<and> p = 0")
      case False
      have "ws' ! nat (int ?L + int k) = us ! k" if "k < d" for k
        using keep [of "?L + k"] that us(1) by (simp add: nat_add_distrib nth_append)
      then show ?thesis using False us(1) len len3
        by (auto simp: known_def outBlock_Some structOffset_def)
    qed (use us in \<open>simp add: known_def\<close>)
    show "length vs = nat (structPointerCount ?P)" by (simp add: P lvs)
    fix k assume k: "k < length vs"
    then have "p \<noteq> 0" using lvs by simp
    then have t: "int dst + 1 + ?off = int ?L" by (simp add: structOffset_def)
    have "flat (outBlock dst ws ws') (int (length ws')) (int ?L + int d + [0..int p - 1] ! k) (vs ! k)"
      by (rule copiedAll_flat [OF all]) (use k lvs len3 in auto)
    then show "flat (outBlock dst ws ws') (int (length ws')) (int dst + 1 + ?off + structDataWords ?P + int k) (vs ! k)"
      using k lvs by (simp only: t P) simp
  qed (use P nz in auto)
  moreover have "reads r s i (StructV us vs)"
  proof (rule reads.struct [OF ref])
    fix k assume k: "k < length vs"
    then have "reads r (sr_segmentId sr) (sr_startWord sr + int d + [0..int p - 1] ! k) (vs ! k)"
      using all lvs by (simp add: copiedAll_def)
    then show "reads r (sr_segmentId sr) (sr_startWord sr + sr_dataWordCount sr + int k) (vs ! k)"
      using k lvs d by simp
  qed (use us d p lvs in auto)
  ultimately have "copied r s i dst ws ws' (StructV us vs)"
    unfolding copied_def using keep len len3 by (auto simp: nth_append)
  moreover have "accounted (ws @ replicate (d + p) 0) bud ws' bud'" using acc len3 by (simp add: accounted_def)
  ultimately show ?thesis using b' by blast
qed

lemma listPtr_copied_fields:
  assumes "inOffsetRange off" "0 \<le> sz" "sz < 8" "0 \<le> n" "n < 2 ^ 29"
  shows "pointerKind (listPtr off sz n) = 1" "pointerOffset (listPtr off sz n) = off"
    "listElementSize (listPtr off sz n) = sz" "listElementCount (listPtr off sz n) = n"
  using listPtr_fields [OF assms(1,2) _ assms(4,5)] assms(3) by auto

lemma composite_copied:
  assumes ref: "readListPointer r s i = Inr (Some (InlineComposite g t ec dw pc (int n)))"
    and tag: "mrReadWord r g t = Inr tag" "pointerKind tag = 0"
      "(structDataWords tag + structPointerCount tag) * tagElementCount tag \<le> int n" and n: "int n < 2 ^ 29"
    and dst: "dst < length ws"
    and set: "mbSetListPointer (mb (ws @ replicate (1 + n) 0)) (int dst) (int (length ws)) 7 (int n) = Inr b2"
    and copy: "copyWordsForAnyPointer r g t (int (1 + n)) b2 (int (length ws)) = Inr b3"
    and step: "copies f r g (t + 1) (int (length ws) + 1) (compositeSlots tag)"
    and run: "loopE f (compositeSlots tag) (b3, bud) = Inr (b', bud')"
  shows "\<exists>ws' v. b' = mb ws' \<and> copied r s i dst ws ws' v \<and> accounted (ws @ replicate (1 + n) 0) bud ws' bud'"
proof -
  let ?L = "length ws" and ?off = "int (length ws) - (int dst + 1)" and ?xs = "compositeSlots tag"
  let ?P = "listPtr ?off 7 (int n)"
  have b2: "b2 = mb ((ws @ replicate (1 + n) 0)[dst := ?P])" and off: "inOffsetRange ?off"
    using mbSetListPointer_Inr [OF set] dst n by auto
  let ?ws2 = "(ws @ replicate (1 + n) 0)[dst := ?P]"
  obtain tus where tus: "length tus = 1 + n" "wordsAt r g t tus"
    and b3: "b3 = mb (take ?L ?ws2 @ tus @ drop (?L + (1 + n)) ?ws2)"
    using copyWords_mb [of r g t "1 + n" ?ws2 ?L b3] copy by (auto simp: b2)
  then obtain us where us: "tus = tag # us" "length us = n"
    using tag(1) by (cases tus) (auto simp: wordsAt_def)
  have wus: "wordsAt r g (t + 1) us"
    unfolding wordsAt_def
  proof (intro allI impI)
    fix k assume "k < length us"
    then have "Suc k < length (tag # us)" by simp
    then have "mrReadWord r g (t + int (Suc k)) = Inr ((tag # us) ! Suc k)"
      using tus(2) unfolding us(1) wordsAt_def by blast
    then show "mrReadWord r g (t + 1 + int k) = Inr (us ! k)" by (simp add: algebra_simps)
  qed
  let ?ws3 = "ws[dst := ?P] @ tag # us"
  have e3: "take ?L ?ws2 @ tus @ drop (?L + (1 + n)) ?ws2 = ?ws3"
    using dst us by (simp add: list_update_append1)
  have mem: "0 \<le> x \<and> x < int n \<and> isSlot tag x" if "x \<in> set ?xs" for x
    using compositeSlots_member [OF that tag(3)] by blast
  have "loopE f ?xs (mb ?ws3, bud) = Inr (b', bud')" using run b3 e3 by simp
  moreover have "\<forall>x \<in> set ?xs. 0 \<le> int ?L + 1 + x \<and> int ?L + 1 + x < int (length ?ws3)"
    using us mem by fastforce
  ultimately obtain ws' vs where b': "b' = mb ws'"
    and all: "copiedAll r g (t + 1) (int ?L + 1) ?xs ?ws3 ws' vs" and acc: "accounted ?ws3 bud ws' bud'"
    using copy_loop [OF step] compositeSlots_distinct by blast
  have lvs: "length vs = length ?xs" and len: "length ?ws3 \<le> length ws'" using all by (auto simp: copiedAll_def)
  have len3: "length ?ws3 = ?L + 1 + n" using us by simp
  have low: "ws' ! k = ?ws3 ! k" if "k \<le> ?L" for k
    by (rule copiedAll_outside [OF all]) (use that len3 mem in force)+
  have off_slot: "ws' ! (?L + 1 + k) = us ! k" if "k < n" "\<not> isSlot tag (int k)" for k
  proof -
    have "ws' ! (?L + 1 + k) = ?ws3 ! (?L + 1 + k)"
      by (rule copiedAll_outside [OF all]) (use that len3 mem in auto)
    then show ?thesis by (simp add: nth_append)
  qed
  have P: "pointerKind ?P = 1" "pointerOffset ?P = ?off" "listElementSize ?P = 7" "listElementCount ?P = int n"
    using listPtr_copied_fields [OF off, of 7 "int n"] n by auto
  let ?us' = "take n (drop (?L + 1) ws')"
  have us': "length ?us' = n" "\<And>k. k < n \<Longrightarrow> ?us' ! k = ws' ! (?L + 1 + k)" using len len3 by auto
  have blank: "blankSlots tag ?us' = blankSlots tag us"
    by (rule blankSlots_cong) (use us us' off_slot in auto)
  have "flat (outBlock dst ws ws') (int (length ws')) (int dst) (CompositeV tag (blankSlots tag us) vs)"
    unfolding blank [symmetric]
  proof (rule flat.composite)
    show "outBlock dst ws ws' (int dst) = Some ?P"
      using low [of dst] dst len len3 by (auto simp: outBlock_Some nth_append)
    show "int ?L = int dst + 1 + pointerOffset ?P" by (simp add: P)
    show "outBlock dst ws ws' (int ?L) = Some tag"
      using low [of ?L] len len3 by (auto simp: outBlock_Some nth_append)
    show "(structDataWords tag + structPointerCount tag) * tagElementCount tag \<le> listElementCount ?P"
      using tag(3) by (simp add: P)
    show "fitsIn (int (length ws')) (int ?L) (1 + listElementCount ?P)"
      unfolding P using len len3 by (simp add: fitsIn_def)
    show "known (outBlock dst ws ws') (int ?L + 1) ?us'"
      using us' len len3 by (auto simp: known_def outBlock_Some nat_add_distrib)
    fix k assume k: "k < length vs"
    show "flat (outBlock dst ws ws') (int (length ws')) (int ?L + 1 + ?xs ! k) (vs ! k)"
      by (rule copiedAll_flat [OF all]) (use k lvs len3 mem in auto)
  qed (use P tag us' lvs in auto)
  moreover have "reads r s i (CompositeV tag (blankSlots tag us) vs)"
  proof (rule reads.composite [OF ref tag(1) _ wus])
    fix k assume "k < length vs"
    then show "reads r g (t + 1 + ?xs ! k) (vs ! k)" using all lvs by (simp add: copiedAll_def)
  qed (use us lvs in auto)
  ultimately have "copied r s i dst ws ws' (CompositeV tag (blankSlots tag us) vs)"
    unfolding copied_def using low len len3 by (auto simp: nth_append)
  moreover have "accounted (ws @ replicate (1 + n) 0) bud ws' bud'" using acc len3 by (simp add: accounted_def)
  ultimately show ?thesis using b' by blast
qed

lemma flat_list_copied:
  assumes ref: "readListPointer r s i = Inr (Some (FlatList g t sz n))"
    and sz: "0 \<le> sz" "sz < 6" and n: "0 \<le> n" "n < 2 ^ 29" and w: "flatListWords sz n = int m"
    and dst: "dst < length ws"
    and set: "mbSetListPointer (mb (ws @ replicate m 0)) (int dst) (int (length ws)) sz n = Inr b2"
    and copy: "copyWordsForAnyPointer r g t (int m) b2 (int (length ws)) = Inr b'"
  shows "\<exists>ws' v. b' = mb ws' \<and> copied r s i dst ws ws' v \<and> accounted (ws @ replicate m 0) bud ws' bud"
proof -
  let ?L = "length ws" and ?off = "int (length ws) - (int dst + 1)"
  let ?P = "listPtr ?off sz n"
  have b2: "b2 = mb ((ws @ replicate m 0)[dst := ?P])" and off: "inOffsetRange ?off"
    using mbSetListPointer_Inr [OF set] dst n sz by auto
  let ?ws2 = "(ws @ replicate m 0)[dst := ?P]"
  obtain us where us: "length us = m" "wordsAt r g t us"
    and b': "b' = mb (take ?L ?ws2 @ us @ drop (?L + m) ?ws2)"
    using copyWords_mb [of r g t m ?ws2 ?L b'] copy by (auto simp: b2)
  let ?ws' = "ws[dst := ?P] @ us"
  have e: "take ?L ?ws2 @ us @ drop (?L + m) ?ws2 = ?ws'" using dst by (simp add: list_update_append1)
  have P: "pointerKind ?P = 1" "pointerOffset ?P = ?off" "listElementSize ?P = sz" "listElementCount ?P = n"
    using listPtr_copied_fields [OF off, of sz n] n sz by auto
  have "flat (outBlock dst ws ?ws') (int (length ?ws')) (int dst) (FlatV (listElementSize ?P) (listElementCount ?P) us)"
  proof (rule flat.flatList)
    show "outBlock dst ws ?ws' (int dst) = Some ?P" using dst by (auto simp: outBlock_Some nth_append)
    show "int ?L = int dst + 1 + pointerOffset ?P" by (simp add: P)
    show "fitsIn (int (length ?ws')) (int ?L) (flatListWords (listElementSize ?P) (listElementCount ?P))"
      unfolding P w using us by (simp add: fitsIn_def)
    show "known (outBlock dst ws ?ws') (int ?L) us"
      using us by (auto simp: known_def outBlock_Some nat_add_distrib nth_append)
  qed (use P sz us w in auto)
  moreover have "reads r s i (FlatV sz n us)"
    by (rule reads.flatList [OF ref]) (use sz us w in auto)
  ultimately have "copied r s i dst ws ?ws' (FlatV sz n us)"
    unfolding copied_def P by (auto simp: nth_append)
  then show ?thesis using b' e us by (intro exI [of _ ?ws'] exI [of _ "FlatV sz n us"]) (simp add: accounted_def)
qed

lemma ptr_list_copied:
  assumes ref: "readListPointer r s i = Inr (Some (FlatList g t 6 (int n)))" and n: "int n < 2 ^ 29"
    and dst: "dst < length ws"
    and set: "mbSetListPointer (mb (ws @ replicate n 0)) (int dst) (int (length ws)) 6 (int n) = Inr b2"
    and step: "copies f r g t (int (length ws)) [0..int n - 1]"
    and run: "loopE f [0..int n - 1] (b2, bud) = Inr (b', bud')"
  shows "\<exists>ws' v. b' = mb ws' \<and> copied r s i dst ws ws' v \<and> accounted (ws @ replicate n 0) bud ws' bud'"
proof -
  let ?L = "length ws" and ?off = "int (length ws) - (int dst + 1)"
  let ?P = "listPtr ?off 6 (int n)"
  have b2: "b2 = mb ((ws @ replicate n 0)[dst := ?P])" and off: "inOffsetRange ?off"
    using mbSetListPointer_Inr [OF set] dst n by auto
  let ?ws2 = "(ws @ replicate n 0)[dst := ?P]"
  have len2: "length ?ws2 = ?L + n" by simp
  have "loopE f [0..int n - 1] (mb ?ws2, bud) = Inr (b', bud')" using run b2 by simp
  moreover have "\<forall>x \<in> set [0..int n - 1]. 0 \<le> int ?L + x \<and> int ?L + x < int (length ?ws2)" by auto
  ultimately obtain ws' vs where b': "b' = mb ws'"
    and all: "copiedAll r g t (int ?L) [0..int n - 1] ?ws2 ws' vs" and acc: "accounted ?ws2 bud ws' bud'"
    using copy_loop [OF step] distinct_upto by blast
  have lvs: "length vs = n" and len: "length ?ws2 \<le> length ws'" using all by (auto simp: copiedAll_def)
  have keep: "ws' ! k = ?ws2 ! k" if "k < ?L" for k
    by (rule copiedAll_outside [OF all]) (use that in auto)
  have P: "pointerKind ?P = 1" "pointerOffset ?P = ?off" "listElementSize ?P = 6" "listElementCount ?P = int n"
    using listPtr_copied_fields [OF off, of 6 "int n"] n by auto
  have "flat (outBlock dst ws ws') (int (length ws')) (int dst) (PtrListV vs)"
  proof (rule flat.ptrList)
    show "outBlock dst ws ws' (int dst) = Some ?P"
      using keep [of dst] dst len by (auto simp: outBlock_Some nth_append)
    show "int ?L = int dst + 1 + pointerOffset ?P" by (simp add: P)
    show "fitsIn (int (length ws')) (int ?L) (listElementCount ?P)"
      unfolding P using len by (simp add: fitsIn_def)
    fix k assume k: "k < length vs"
    have "flat (outBlock dst ws ws') (int (length ws')) (int ?L + 0 + [0..int n - 1] ! k) (vs ! k)"
      by (rule copiedAll_flat) (use all k lvs in auto)
    then show "flat (outBlock dst ws ws') (int (length ws')) (int ?L + int k) (vs ! k)" using k lvs by simp
  qed (use P lvs in auto)
  moreover have "reads r s i (PtrListV vs)"
  proof (rule reads.ptrList [OF ref])
    fix k assume k: "k < length vs"
    then have "reads r g (t + [0..int n - 1] ! k) (vs ! k)" using all lvs by (simp add: copiedAll_def)
    then show "reads r g (t + int k) (vs ! k)" using k lvs by simp
  qed (use lvs in simp)
  ultimately have "copied r s i dst ws ws' (PtrListV vs)"
    unfolding copied_def using keep len by (auto simp: nth_append)
  moreover have "accounted (ws @ replicate n 0) bud ws' bud'" using acc len2 by (simp add: accounted_def)
  ultimately show ?thesis using b' by blast
qed

section \<open>A successful copy is faithful\<close>

lemma readStructPointer_bounds:
  assumes "readStructPointer r s i = Inr (Some sr)"
  shows "\<exists>d p. sr_dataWordCount sr = int d \<and> d < 2 ^ 16 \<and> sr_pointerCount sr = int p \<and> p < 2 ^ 16"
proof -
  obtain w where "sr_dataWordCount sr = structDataWords w" "sr_pointerCount sr = structPointerCount w"
    using assms by (auto simp: readStructPointer_def bindE_eq_Inr Let_def split: if_splits)
  then show ?thesis using structDataWords_bound [of w] structPointerCount_bound [of w]
      uint_field_nonneg [of w]
    by (intro exI [of _ "nat (structDataWords w)"] exI [of _ "nat (structPointerCount w)"]) auto
qed

lemma readListPointer_flat:
  assumes "readListPointer r s i = Inr (Some (FlatList g t sz n))"
  shows "0 \<le> sz" "sz < 7" "0 \<le> n" "n < 2 ^ 29"
proof -
  obtain w where w: "sz = listElementSize w" "n = listElementCount w" "listElementSize w \<noteq> 7"
    using assms by (auto simp: readListPointer_def bindE_eq_Inr Let_def split: if_splits)
  then show "0 \<le> sz" "sz < 7" "0 \<le> n" "n < 2 ^ 29"
    using listElementSize_bound [of w] listElementCount_bound [of w] by auto
qed

lemma readListPointer_composite:
  assumes "readListPointer r s i = Inr (Some (InlineComposite g t ec dw pc n))"
  shows "\<exists>tag m. n = int m \<and> int m < 2 ^ 29 \<and> mrReadWord r g t = Inr tag \<and> pointerKind tag = 0 \<and>
    ec = tagElementCount tag \<and> dw = structDataWords tag \<and> pc = structPointerCount tag \<and>
    (dw + pc) * ec \<le> n"
proof -
  obtain w tag where w: "n = listElementCount w" "mrReadWord r g t = Inr tag" "pointerKind tag = 0"
     "ec = tagElementCount tag" "dw = structDataWords tag" "pc = structPointerCount tag" "(dw + pc) * ec \<le> n"
    using assms by (auto simp: readListPointer_def bindE_eq_Inr Let_def split: if_splits)
  then show ?thesis using listElementCount_bound [of w]
    by (intro exI [of _ tag] exI [of _ "nat n"]) auto
qed

lemma compositeLoop:
  assumes "pc = structPointerCount tag" "dw = structDataWords tag" "ec = tagElementCount tag"
  shows "(if pc \<noteq> 0
          then loopE (\<lambda>i. loopE (\<lambda>j.
             let offset = 1 + i * (dw + pc) + dw + j in f (t + offset) (start + offset))
             [0..pc - 1]) [0..ec - 1] st
          else Inr st) =
         loopE (\<lambda>x. f (t + 1 + x) (start + 1 + x)) (compositeSlots tag) st"
proof (cases "pc = 0")
  case True
  then have "compositeSlots tag = []" using assms by (simp add: compositeSlots_def)
  then show ?thesis using True by simp
next
  case False
  have "loopE (\<lambda>i. loopE (\<lambda>j. let offset = 1 + i * (dw + pc) + dw + j in f (t + offset) (start + offset))
      [0..pc - 1]) [0..ec - 1] st =
    loopE (\<lambda>(i, j). let offset = 1 + i * (dw + pc) + dw + j in f (t + offset) (start + offset))
      (List.product [0..ec - 1] [0..pc - 1]) st"
    by (rule loopE_product)
  also have "\<dots> = loopE (\<lambda>x. f (t + 1 + x) (start + 1 + x)) (compositeSlots tag) st"
    using assms by (simp add: compositeSlots_product loopE_map case_prod_unfold Let_def algebra_simps)
  finally show ?thesis using False by simp
qed

lemma listWords_copy:
  "listDataWordsForAnyPointerCopy sz n = Inr m \<Longrightarrow> 0 \<le> sz \<Longrightarrow> sz < 7 \<Longrightarrow> m = flatListWords sz n"
  using mrFlatListWords_eq [of sz n]
  by (auto simp: listDataWordsForAnyPointerCopy_def mrFlatListWords_def split: if_splits)

lemma chargeWork_Inr: "chargeWork b n = Inr b' \<Longrightarrow> cb_outputWords b' = cb_outputWords b"
  by (auto simp: chargeWork_def split: if_splits)

lemma chargeOutput_Inr:
  "chargeOutput b n = Inr b' \<Longrightarrow> cb_outputWords b' = cb_outputWords b - n \<and> 0 \<le> cb_outputWords b'"
  by (auto simp: chargeOutput_def split: if_splits)

lemma accounted_alloc:
  assumes "accounted (ws @ replicate m 0) bud1 ws' bud'"
    "cb_outputWords bud1 = cb_outputWords bud - int m" "0 \<le> cb_outputWords bud1"
  shows "accounted ws bud ws' bud'"
  using assms by (auto simp: accounted_def)

lemma alloc_sum: "mbAllocWords (mb ws) (jint (int d + int p)) = Inr (int (length ws), mb (ws @ replicate (d + p) 0))"
  using mbAllocWords_mb [of ws "d + p"] by simp

lemma alloc_tag: "mbAllocWords (mb ws) (jint (1 + int n)) = Inr (int (length ws), mb (ws @ replicate (1 + n) 0))"
  using mbAllocWords_mb [of ws "1 + n"] by simp

text \<open>The claim at one depth, and the loop body it makes.\<close>

definition faithful :: "MessageReader \<Rightarrow> (int \<Rightarrow> int \<Rightarrow> int \<Rightarrow> copy_state \<Rightarrow> copy_state result) \<Rightarrow> bool" where
  "faithful r f \<longleftrightarrow>
     (\<forall>s i dst ws bud b' bud'. f s i (int dst) (mb ws, bud) = Inr (b', bud') \<longrightarrow> dst < length ws \<longrightarrow>
        (\<exists>ws' v. b' = mb ws' \<and> copied r s i dst ws ws' v \<and> accounted ws bud ws' bud'))"

lemma faithful_copies:
  assumes "faithful r f"
  shows "copies (\<lambda>x. f g (src + x) (dst + x)) r g src dst xs"
  unfolding copies_def
proof (intro allI impI)
  fix x ws bud b' bud'
  assume a: "x \<in> set xs" "0 \<le> dst + x" "dst + x < int (length ws)" "f g (src + x) (dst + x) (mb ws, bud) = Inr (b', bud')"
  then have "f g (src + x) (int (nat (dst + x))) (mb ws, bud) = Inr (b', bud')" "nat (dst + x) < length ws" by auto
  then show "\<exists>ws' v. b' = mb ws' \<and> copied r g (src + x) (nat (dst + x)) ws ws' v \<and> accounted ws bud ws' bud'"
    using assms unfolding faithful_def by blast
qed

lemma struct_case:
  assumes f: "faithful r f" and ref: "readStructPointer r s i = Inr (Some ref)" and dst: "dst < length ws"
    and run: "bindE (chargeOutput budget (sr_dataWordCount ref + sr_pointerCount ref)) (\<lambda>budget.
              bindE (mbAllocWords (mb ws) (jint (sr_dataWordCount ref + sr_pointerCount ref))) (\<lambda>(start, b).
              bindE (mbSetStructPointer b (int dst) start (sr_dataWordCount ref) (sr_pointerCount ref)) (\<lambda>b.
              bindE (copyWordsForAnyPointer r (sr_segmentId ref) (sr_startWord ref) (sr_dataWordCount ref) b start) (\<lambda>b.
              loopE (\<lambda>i. f (sr_segmentId ref) (sr_startWord ref + sr_dataWordCount ref + i)
                           (start + sr_dataWordCount ref + i))
                [0..sr_pointerCount ref - 1] (b, budget))))) = Inr (b', bud')"
  shows "\<exists>ws' v. b' = mb ws' \<and> copied r s i dst ws ws' v \<and> accounted ws budget ws' bud'"
proof -
  obtain d p where d: "sr_dataWordCount ref = int d" "d < 2 ^ 16" and p: "sr_pointerCount ref = int p" "p < 2 ^ 16"
    using readStructPointer_bounds [OF ref] by blast
  obtain bud1 b2 b3 where c: "chargeOutput budget (int d + int p) = Inr bud1"
    and set: "mbSetStructPointer (mb (ws @ replicate (d + p) 0)) (int dst) (int (length ws)) (int d) (int p) = Inr b2"
    and copy: "copyWordsForAnyPointer r (sr_segmentId ref) (sr_startWord ref) (int d) b2 (int (length ws)) = Inr b3"
    and loop: "loopE (\<lambda>i. f (sr_segmentId ref) (sr_startWord ref + int d + i) (int (length ws) + int d + i))
                [0..int p - 1] (b3, bud1) = Inr (b', bud')"
    using run unfolding d(1) p(1) alloc_sum by (auto simp: bindE_eq_Inr)
  obtain ws' v where *: "b' = mb ws'" "copied r s i dst ws ws' v" "accounted (ws @ replicate (d + p) 0) bud1 ws' bud'"
    using struct_copied [OF ref d p dst set copy faithful_copies [OF f] loop] by blast
  have "accounted ws budget ws' bud'" by (rule accounted_alloc [OF *(3)]) (use chargeOutput_Inr [OF c] in auto)
  then show ?thesis using * by blast
qed

lemma composite_case:
  assumes f: "faithful r f" and dst: "dst < length ws"
    and ref: "readListPointer r s i = Inr (Some (InlineComposite g t ec dw pc n))"
    and run: "bindE (chargeOutput budget (1 + n)) (\<lambda>budget.
              bindE (mbAllocWords (mb ws) (jint (1 + n))) (\<lambda>(start, b).
              bindE (mbSetListPointer b (int dst) start 7 n) (\<lambda>b.
              bindE (copyWordsForAnyPointer r g t (1 + n) b start) (\<lambda>b.
              let stride = dw + pc
              in if pc \<noteq> 0
                 then loopE (\<lambda>i. loopE (\<lambda>j.
                        let offset = 1 + i * stride + dw + j in f g (t + offset) (start + offset))
                        [0..pc - 1]) [0..ec - 1] (b, budget)
                 else Inr (b, budget))))) = Inr (b', bud')"
  shows "\<exists>ws' v. b' = mb ws' \<and> copied r s i dst ws ws' v \<and> accounted ws budget ws' bud'"
proof -
  obtain tag m where m: "n = int m" "int m < 2 ^ 29" and tag: "mrReadWord r g t = Inr tag" "pointerKind tag = 0"
    and e: "ec = tagElementCount tag" "dw = structDataWords tag" "pc = structPointerCount tag" "(dw + pc) * ec \<le> n"
    using readListPointer_composite [OF ref] by blast
  obtain bud1 b2 b3 where c: "chargeOutput budget (1 + int m) = Inr bud1"
    and set: "mbSetListPointer (mb (ws @ replicate (1 + m) 0)) (int dst) (int (length ws)) 7 (int m) = Inr b2"
    and copy: "copyWordsForAnyPointer r g t (int (1 + m)) b2 (int (length ws)) = Inr b3"
    and loop: "loopE (\<lambda>x. f g (t + 1 + x) (int (length ws) + 1 + x)) (compositeSlots tag) (b3, bud1) = Inr (b', bud')"
    using run unfolding m(1) alloc_tag Let_def [of "dw + pc"] compositeLoop [OF e(3,2,1)]
    by (auto simp: bindE_eq_Inr)
  have fit: "(structDataWords tag + structPointerCount tag) * tagElementCount tag \<le> int m" using e m by simp
  obtain ws' v where *: "b' = mb ws'" "copied r s i dst ws ws' v" "accounted (ws @ replicate (1 + m) 0) bud1 ws' bud'"
    using composite_copied [OF ref [unfolded m(1)] tag fit m(2) dst set copy faithful_copies [OF f] loop] by blast
  have "accounted ws budget ws' bud'" by (rule accounted_alloc [OF *(3)]) (use chargeOutput_Inr [OF c] in auto)
  then show ?thesis using * by blast
qed

lemma list_case:
  assumes f: "faithful r f" and dst: "dst < length ws"
    and ref: "readListPointer r s i = Inr (Some (FlatList g t sz n))"
    and words: "listDataWordsForAnyPointerCopy sz n = Inr words"
    and run: "bindE (chargeOutput budget words) (\<lambda>budget.
              bindE (mbAllocWords (mb ws) (jint words)) (\<lambda>(start, b).
              bindE (mbSetListPointer b (int dst) start sz n) (\<lambda>b.
              if sz = 6 then loopE (\<lambda>i. f g (t + i) (start + i)) [0..n - 1] (b, budget)
              else bindE (copyWordsForAnyPointer r g t words b start) (\<lambda>b. Inr (b, budget))))) = Inr (b', bud')"
  shows "\<exists>ws' v. b' = mb ws' \<and> copied r s i dst ws ws' v \<and> accounted ws budget ws' bud'"
proof -
  note sz = readListPointer_flat [OF ref]
  have w: "words = flatListWords sz n" using listWords_copy [OF words] sz by simp
  define m where "m = nat words"
  have m: "flatListWords sz n = int m" using flatListWords_nonneg [OF sz(3), of sz] by (simp add: m_def w)
  obtain bud1 b2 where c: "chargeOutput budget (int m) = Inr bud1"
    and set: "mbSetListPointer (mb (ws @ replicate m 0)) (int dst) (int (length ws)) sz n = Inr b2"
    and rest: "(if sz = 6 then loopE (\<lambda>i. f g (t + i) (int (length ws) + i)) [0..n - 1] (b2, bud1)
              else bindE (copyWordsForAnyPointer r g t (int m) b2 (int (length ws))) (\<lambda>b. Inr (b, bud1))) = Inr (b', bud')"
    using run unfolding w m by (auto simp: bindE_eq_Inr simp del: bindE_Inr)
  have "\<exists>ws' v. b' = mb ws' \<and> copied r s i dst ws ws' v \<and> accounted (ws @ replicate m 0) bud1 ws' bud'"
  proof (cases "sz = 6")
    case True
    have n: "n = int m" using m True by (simp add: flatListWords_def)
    show ?thesis
      by (rule ptr_list_copied [where f = "\<lambda>i. f g (t + i) (int (length ws) + i)", OF _ _ dst _ faithful_copies [OF f]])
        (use ref set rest True n sz in auto)
  next
    case False
    then have s6: "sz < 6" using sz by simp
    from rest False have copy: "copyWordsForAnyPointer r g t (int m) b2 (int (length ws)) = Inr b'" "bud' = bud1"
      by (auto simp: bindE_eq_Inr)
    show ?thesis using flat_list_copied [OF ref sz(1) s6 sz(3,4) m dst set copy(1)] copy(2) by simp
  qed
  then obtain ws' v where *: "b' = mb ws'" "copied r s i dst ws ws' v" "accounted (ws @ replicate m 0) bud1 ws' bud'"
    by blast
  have "accounted ws budget ws' bud'" by (rule accounted_alloc [OF *(3)]) (use chargeOutput_Inr [OF c] in auto)
  then show ?thesis using * by blast
qed

lemma copied_word:
  assumes "mbWriteWord (mb ws) (int dst) w = Inr b'" "dst < length ws" "reads r s i v"
    "\<And>m L. m (int dst) = Some w \<Longrightarrow> flat m L (int dst) v"
  shows "\<exists>ws' v. b' = mb ws' \<and> copied r s i dst ws ws' v \<and> accounted ws bud ws' bud"
proof -
  have "flat (outBlock dst ws (ws[dst := w])) (int (length ws)) (int dst) v"
    by (rule assms(4)) (use assms(2) in \<open>simp add: outBlock_Some\<close>)
  then have "copied r s i dst ws (ws[dst := w]) v" using assms(3) by (simp add: copied_def)
  then show ?thesis using assms(1,2) by (intro exI [of _ "ws[dst := w]"] exI [of _ v]) (simp add: accounted_def)
qed

lemma accounted_work: "accounted ws bud1 ws' bud' \<Longrightarrow> cb_outputWords bud1 = cb_outputWords bud \<Longrightarrow> accounted ws bud ws' bud'"
  by (simp add: accounted_def)

lemma deepCopy_step:
  assumes f: "faithful r (\<lambda>s i d. deepCopyAnyPointer r s i d M (depth + 1))"
    and run: "deepCopyAnyPointer r s i (int dst) M depth (mb ws, bud) = Inr (b', bud')" and dst: "dst < length ws"
  shows "\<exists>ws' v. b' = mb ws' \<and> copied r s i dst ws ws' v \<and> accounted ws bud ws' bud'"
proof -
  from run obtain bud1 u where c1: "chargeWork bud 1 = Inr bud1" and u: "readResolvedPointer r s i = Inr u"
    and lim: "\<not> M < depth"
    by (subst (asm) deepCopyAnyPointer.simps) (auto simp: bindE_eq_Inr split: if_splits)
  note run1 = run [unfolded deepCopyAnyPointer.simps c1 u, simplified Let_def]
  have "\<exists>ws' v. b' = mb ws' \<and> copied r s i dst ws ws' v \<and> accounted ws bud1 ws' bud'"
  proof -
    consider (null) "up_word u = 0" "up_contentWord u = None" | (cap) "pointerKind (up_word u) = 3"
      | (struct) "\<not> (up_word u = 0 \<and> up_contentWord u = None)" "pointerKind (up_word u) = 0"
      | (list) "pointerKind (up_word u) = 1"
      | (far) "\<not> (up_word u = 0 \<and> up_contentWord u = None)" "pointerKind (up_word u) \<noteq> 0"
          "pointerKind (up_word u) \<noteq> 1" "pointerKind (up_word u) \<noteq> 3"
      by metis
    then show ?thesis
    proof cases
      case null
      then have w: "mbWriteWord (mb ws) (int dst) 0 = Inr b'" "bud' = bud1"
        using run1 by (auto simp: bindE_eq_Inr split: if_splits)
      show ?thesis unfolding w(2)
        by (rule copied_word [OF w(1) dst reads.null [OF u null] flat.null])
    next
      case cap
      then have w: "mbWriteWord (mb ws) (int dst) (up_word u) = Inr b'" "bud' = bud1"
        using run1 by (auto simp: bindE_eq_Inr pointerKind_zero simp del: mbWriteWord_mb split: if_splits)
      show ?thesis unfolding w(2)
        by (rule copied_word [OF w(1) dst reads.cap [OF u cap]]) (simp add: flat.cap cap)
    next
      case struct
      then obtain ref bud2 where ref: "readStructPointer r s i = Inr (Some ref)"
        and c2: "chargeWork bud1 (sr_dataWordCount ref) = Inr bud2"
        and rest: "bindE (chargeOutput bud2 (sr_dataWordCount ref + sr_pointerCount ref)) (\<lambda>budget.
              bindE (mbAllocWords (mb ws) (jint (sr_dataWordCount ref + sr_pointerCount ref))) (\<lambda>(start, b).
              bindE (mbSetStructPointer b (int dst) start (sr_dataWordCount ref) (sr_pointerCount ref)) (\<lambda>b.
              bindE (copyWordsForAnyPointer r (sr_segmentId ref) (sr_startWord ref) (sr_dataWordCount ref) b start) (\<lambda>b.
              loopE (\<lambda>i. deepCopyAnyPointer r (sr_segmentId ref) (sr_startWord ref + sr_dataWordCount ref + i)
                           (start + sr_dataWordCount ref + i) M (depth + 1))
                [0..sr_pointerCount ref - 1] (b, budget))))) = Inr (b', bud')"
        using run1 by (auto simp: bindE_eq_Inr [of "chargeWork a b" for a b] bindE_eq_Inr [of "readStructPointer a b c" for a b c]
            simp del: mbWriteWord_mb split: if_splits option.splits)
      show ?thesis
        using struct_case [OF f ref dst rest] accounted_work chargeWork_Inr [OF c2] by metis
    next
      case list
      then obtain lst where ref: "readListPointer r s i = Inr (Some lst)"
        using run1 by (auto simp: bindE_eq_Inr [of "readListPointer a b c" for a b c] pointerKind_zero
            simp del: mbWriteWord_mb split: if_splits option.splits)
      have ne: "up_word u \<noteq> 0" using list by auto
      show ?thesis
      proof (cases lst)
        case (InlineComposite g t ec dw pc n)
        with run1 obtain bud2 bud3 where c: "chargeWork bud1 ec = Inr bud2" "chargeWork bud2 n = Inr bud3"
          and rest: "bindE (chargeOutput bud3 (1 + n)) (\<lambda>budget.
              bindE (mbAllocWords (mb ws) (jint (1 + n))) (\<lambda>(start, b).
              bindE (mbSetListPointer b (int dst) start 7 n) (\<lambda>b.
              bindE (copyWordsForAnyPointer r g t (1 + n) b start) (\<lambda>b.
              let stride = dw + pc
              in if pc \<noteq> 0
                 then loopE (\<lambda>i. loopE (\<lambda>j.
                        let offset = 1 + i * stride + dw + j in
                        deepCopyAnyPointer r g (t + offset) (start + offset) M (depth + 1))
                        [0..pc - 1]) [0..ec - 1] (b, budget)
                 else Inr (b, budget))))) = Inr (b', bud')"
          unfolding Let_def by (simp add: lim ref list ne bindE_eq_Inr [of "chargeWork a b" for a b] Let_def) blast
        show ?thesis
          using composite_case [OF f dst ref [unfolded InlineComposite] rest] accounted_work
            chargeWork_Inr [OF c(1)] chargeWork_Inr [OF c(2)] by metis
      next
        case (FlatList g t sz n)
        with run1 obtain bud2 bud3 words where c: "chargeWork bud1 n = Inr bud2" "chargeWork bud2 words = Inr bud3"
          and words: "listDataWordsForAnyPointerCopy sz n = Inr words"
          and rest: "bindE (chargeOutput bud3 words) (\<lambda>budget.
              bindE (mbAllocWords (mb ws) (jint words)) (\<lambda>(start, b).
              bindE (mbSetListPointer b (int dst) start sz n) (\<lambda>b.
              if sz = 6 then loopE (\<lambda>i. deepCopyAnyPointer r g (t + i) (start + i) M (depth + 1)) [0..n - 1] (b, budget)
              else bindE (copyWordsForAnyPointer r g t words b start) (\<lambda>b. Inr (b, budget))))) = Inr (b', bud')"
          by (auto simp: lim ref list ne bindE_eq_Inr [of "chargeWork a b" for a b]
              bindE_eq_Inr [of "listDataWordsForAnyPointerCopy a b" for a b])
        show ?thesis
          using list_case [OF f dst ref [unfolded FlatList] words rest] accounted_work
            chargeWork_Inr [OF c(1)] chargeWork_Inr [OF c(2)] by metis
      qed
    next
      case far
      then show ?thesis using run1 by (auto split: if_splits)
    qed
  qed
  then show ?thesis using accounted_work chargeWork_Inr [OF c1] by metis
qed

lemma deepCopy_faithful: "faithful r (\<lambda>s i d. deepCopyAnyPointer r s i d M depth)"
proof (induction "nat (M + 1 - depth)" arbitrary: depth rule: less_induct)
  case less
  show ?case
  proof (cases "depth > M")
    case True
    then show ?thesis by (simp add: faithful_def deepCopyAnyPointer.simps)
  next
    case False
    then have "nat (M + 1 - (depth + 1)) < nat (M + 1 - depth)" by simp
    from deepCopy_step [OF less [OF this]] show ?thesis unfolding faithful_def by blast
  qed
qed

end
