(* ===== verification/Copy_Limits.thy ===== *)
theory Copy_Limits
  imports Any_Pointer_Copy
begin

text \<open>
  The other half of the deep copy: what it costs. \<open>workOf\<close>, \<open>outputOf\<close> and \<open>depthOf\<close> are the
  work, the output words and the nesting depth of a value as the budget charges them, and a value
  that the reader reads and whose costs fit the budget is always copied, spending exactly that.
\<close>

section \<open>The cost of a value\<close>

primrec workOf :: "wire_value \<Rightarrow> nat" where
  "workOf NullV = 1"
| "workOf (CapV w) = 1"
| "workOf (StructV ws vs) = 1 + length ws + sum_list (map workOf vs)"
| "workOf (FlatV sz n ws) = 1 + nat n + length ws"
| "workOf (PtrListV vs) = 1 + length vs + length vs + sum_list (map workOf vs)"
| "workOf (CompositeV tag ws vs) = 1 + nat (tagElementCount tag) + length ws + sum_list (map workOf vs)"

primrec outputOf :: "wire_value \<Rightarrow> nat" where
  "outputOf NullV = 0"
| "outputOf (CapV w) = 0"
| "outputOf (StructV ws vs) = length ws + length vs + sum_list (map outputOf vs)"
| "outputOf (FlatV sz n ws) = length ws"
| "outputOf (PtrListV vs) = length vs + sum_list (map outputOf vs)"
| "outputOf (CompositeV tag ws vs) = 1 + length ws + sum_list (map outputOf vs)"

definition deepest :: "nat list \<Rightarrow> nat" where
  "deepest ds = foldr (\<lambda>d m. max (Suc d) m) ds 0"

primrec depthOf :: "wire_value \<Rightarrow> nat" where
  "depthOf NullV = 0"
| "depthOf (CapV w) = 0"
| "depthOf (StructV ws vs) = deepest (map depthOf vs)"
| "depthOf (FlatV sz n ws) = 0"
| "depthOf (PtrListV vs) = deepest (map depthOf vs)"
| "depthOf (CompositeV tag ws vs) = deepest (map depthOf vs)"

lemma deepest_member: "d \<in> set ds \<Longrightarrow> Suc d \<le> deepest ds"
  by (induction ds) (auto simp: deepest_def)

definition spent :: "AnyPointerCopyBudget \<Rightarrow> nat \<Rightarrow> nat \<Rightarrow> AnyPointerCopyBudget" where
  "spent bud work out =
     bud\<lparr>cb_work := cb_work bud - int work, cb_outputWords := cb_outputWords bud - int out\<rparr>"

lemma spent_spent [simp]: "spent (spent bud a b) c d = spent bud (a + c) (b + d)"
  by (simp add: spent_def)

lemma spent_fields [simp]:
  "cb_work (spent bud a b) = cb_work bud - int a" "cb_outputWords (spent bud a b) = cb_outputWords bud - int b"
  by (simp_all add: spent_def)

lemma spent_zero [simp]: "spent bud 0 0 = bud"
  by (simp add: spent_def)

lemma charge_spent:
  "int n \<le> cb_work bud \<Longrightarrow> chargeWork bud (int n) = Inr (spent bud n 0)"
  "int n \<le> cb_outputWords bud \<Longrightarrow> chargeOutput bud (int n) = Inr (spent bud 0 n)"
  by (simp_all add: chargeWork_def chargeOutput_def spent_def)

section \<open>One copy and loops of copies\<close>

definition affords :: "64 word list \<Rightarrow> AnyPointerCopyBudget \<Rightarrow> nat \<Rightarrow> nat \<Rightarrow> bool" where
  "affords ws bud work out \<longleftrightarrow>
     int work \<le> cb_work bud \<and> int out \<le> cb_outputWords bud \<and> int (length ws) + int out \<le> 2 ^ 29"

definition copiesWithin :: "(copy_state \<Rightarrow> copy_state result) \<Rightarrow> 64 word list \<Rightarrow> AnyPointerCopyBudget \<Rightarrow> nat \<Rightarrow> nat \<Rightarrow> bool" where
  "copiesWithin f ws bud work out \<longleftrightarrow>
     (\<exists>ws'. f (mb ws, bud) = Inr (mb ws', spent bud work out) \<and> length ws' = length ws + out)"

lemma loop_within:
  assumes "length vs = length xs"
    and "\<And>n ws bud. n < length xs \<Longrightarrow> N \<le> length ws \<Longrightarrow> affords ws bud (workOf (vs ! n)) (outputOf (vs ! n)) \<Longrightarrow>
      copiesWithin (f (xs ! n)) ws bud (workOf (vs ! n)) (outputOf (vs ! n))"
    and "N \<le> length ws" "affords ws bud (sum_list (map workOf vs)) (sum_list (map outputOf vs))"
  shows "copiesWithin (loopE f xs) ws bud (sum_list (map workOf vs)) (sum_list (map outputOf vs))"
  using assms
proof (induction xs arbitrary: vs ws bud)
  case Nil
  then show ?case by (auto simp: copiesWithin_def)
next
  case (Cons x xs)
  then obtain v vs' where vs: "vs = v # vs'" by (cases vs) auto
  have "affords ws bud (workOf v) (outputOf v)" using Cons.prems(4) by (simp add: vs affords_def)
  then obtain ws1 where f: "f x (mb ws, bud) = Inr (mb ws1, spent bud (workOf v) (outputOf v))"
    and l1: "length ws1 = length ws + outputOf v"
    using Cons.prems(2) [of 0 ws bud] Cons.prems(3) by (auto simp: vs copiesWithin_def)
  have "copiesWithin (loopE f xs) ws1 (spent bud (workOf v) (outputOf v))
      (sum_list (map workOf vs')) (sum_list (map outputOf vs'))"
  proof (rule Cons.IH)
    fix n us b
    assume "n < length xs" "N \<le> length us" "affords us b (workOf (vs' ! n)) (outputOf (vs' ! n))"
    then show "copiesWithin (f (xs ! n)) us b (workOf (vs' ! n)) (outputOf (vs' ! n))"
      using Cons.prems(2) [of "Suc n" us b] by (simp add: vs)
  qed (use Cons.prems l1 in \<open>auto simp: vs affords_def\<close>)
  then show ?case using f l1 by (auto simp: copiesWithin_def vs)
qed

lemma copyWords_succeeds:
  assumes "wordsAt r g t us" "d + length us \<le> length ws"
  shows "\<exists>ws'. copyWordsForAnyPointer r g t (int (length us)) (mb ws) (int d) = Inr (mb ws') \<and> length ws' = length ws"
proof -
  have "\<exists>ws'. loopE (\<lambda>i b. bindE (mrReadWord r g (t + i)) (\<lambda>w. mbWriteWord b (int d + i) w)) (map int [0..<n]) (mb ws) =
      Inr (mb ws') \<and> length ws' = length ws" if "n \<le> length us" for n
    using that
  proof (induction n)
    case (Suc n)
    then obtain ws' where IH: "loopE (\<lambda>i b. bindE (mrReadWord r g (t + i)) (\<lambda>w. mbWriteWord b (int d + i) w))
        (map int [0..<n]) (mb ws) = Inr (mb ws')" "length ws' = length ws" by auto
    have "mrReadWord r g (t + int n) = Inr (us ! n)" using assms(1) Suc.prems by (simp add: wordsAt_def)
    moreover have "mbWriteWord (mb ws') (int d + int n) (us ! n) = Inr (mb (ws'[d + n := us ! n]))"
      using mbWriteWord_mb [of "d + n" ws' "us ! n"] Suc.prems assms(2) IH(2) by simp
    ultimately show ?case using IH by (auto simp: loopE_append)
  qed auto
  then show ?thesis by (simp add: copyWordsForAnyPointer_def upto_map)
qed

lemma struct_offset_range:
  "dst < length ws \<Longrightarrow> int (length ws) \<le> 2 ^ 29 \<Longrightarrow> inOffsetRange (structOffset (int dst) (int (length ws)) d p)"
  "dst < length ws \<Longrightarrow> int (length ws) \<le> 2 ^ 29 \<Longrightarrow> inOffsetRange (int (length ws) - (int dst + 1))"
  by (auto simp: inOffsetRange_def structOffset_def)

lemma struct_within:
  assumes ref: "readStructPointer r s i = Inr (Some sr)"
    and us: "length us = nat (sr_dataWordCount sr)" "wordsAt r (sr_segmentId sr) (sr_startWord sr) us"
    and vs: "length vs = nat (sr_pointerCount sr)"
    and sub: "\<And>k d ws bud. k < length vs \<Longrightarrow> d < length ws \<Longrightarrow> affords ws bud (workOf (vs ! k)) (outputOf (vs ! k)) \<Longrightarrow>
      copiesWithin (deepCopyAnyPointer r (sr_segmentId sr) (sr_startWord sr + sr_dataWordCount sr + int k) (int d) M (depth + 1))
        ws bud (workOf (vs ! k)) (outputOf (vs ! k))"
    and depth: "depth \<le> M" and dst: "dst < length ws"
    and fit: "affords ws bud (workOf (StructV us vs)) (outputOf (StructV us vs))"
  shows "copiesWithin (deepCopyAnyPointer r s i (int dst) M depth) ws bud (workOf (StructV us vs)) (outputOf (StructV us vs))"
proof -
  obtain d p where d: "sr_dataWordCount sr = int d" "d < 2 ^ 16" and p: "sr_pointerCount sr = int p" "p < 2 ^ 16"
    using readStructPointer_bounds [OF ref] by blast
  obtain u where u: "readResolvedPointer r s i = Inr u" "pointerKind (up_word u) = 0"
    "\<not> (up_word u = 0 \<and> up_contentWord u = None)" using ref by (rule struct_pointer_kind) auto
  have l: "length us = d" "length vs = p" using us vs d p by simp_all
  let ?L = "length ws"
  define bud1 bud2 bud3 where "bud1 = spent bud 1 0" and "bud2 = spent bud (1 + d) 0" and "bud3 = spent bud (1 + d) (d + p)"
  note b = this
  let ?ws1 = "(ws @ replicate (d + p) 0)[dst := structPtr (structOffset (int dst) (int ?L) (int d) (int p)) (int d) (int p)]"
  have a: "int (1 + d) \<le> cb_work bud" "int (d + p) \<le> cb_outputWords bud" "int ?L \<le> 2 ^ 29"
    using fit l by (simp_all add: affords_def)
  have c1: "chargeWork bud 1 = Inr bud1" using a charge_spent(1) [of 1 bud] by (simp add: b)
  have c2: "chargeWork bud1 (int d) = Inr bud2" using a charge_spent(1) [of d bud1] by (simp add: b)
  have c3: "chargeOutput bud2 (int d + int p) = Inr bud3" using a charge_spent(2) [of "d + p" bud2] by (simp add: b)
  have st: "mbSetStructPointer (mb (ws @ replicate (d + p) 0)) (int dst) (int ?L) (int d) (int p) = Inr (mb ?ws1)"
    by (rule mbSetStructPointer_mb) (use dst a d p in \<open>auto intro!: struct_offset_range\<close>)
  obtain ws2 where cp: "copyWordsForAnyPointer r (sr_segmentId sr) (sr_startWord sr) (int d) (mb ?ws1) (int ?L) = Inr (mb ws2)"
    and l2: "length ws2 = ?L + d + p" using copyWords_succeeds [OF us(2), of ?L ?ws1] l by auto
  have loop: "copiesWithin (loopE (\<lambda>i. deepCopyAnyPointer r (sr_segmentId sr) (sr_startWord sr + int d + i)
        (int ?L + int d + i) M (depth + 1)) [0..int p - 1]) ws2 bud3 (sum_list (map workOf vs)) (sum_list (map outputOf vs))"
  proof (rule loop_within [where N = "?L + d + p"])
    fix n us' b
    assume n: "n < length [0..int p - 1]" and le: "?L + d + p \<le> length us'"
      and aff: "affords us' b (workOf (vs ! n)) (outputOf (vs ! n))"
    have e: "[0..int p - 1] ! n = int n" "int ?L + int d + int n = int (?L + d + n)" using n by simp_all
    show "copiesWithin (deepCopyAnyPointer r (sr_segmentId sr) (sr_startWord sr + int d + [0..int p - 1] ! n)
        (int ?L + int d + [0..int p - 1] ! n) M (depth + 1)) us' b (workOf (vs ! n)) (outputOf (vs ! n))"
      unfolding e using sub [of n "?L + d + n" us' b] n le aff d l by simp
  qed (use l l2 fit in \<open>auto simp: affords_def b\<close>)
  have "deepCopyAnyPointer r s i (int dst) M depth (mb ws, bud) =
      loopE (\<lambda>i. deepCopyAnyPointer r (sr_segmentId sr) (sr_startWord sr + int d + i)
        (int ?L + int d + i) M (depth + 1)) [0..int p - 1] (mb ws2, bud3)"
    using depth u(3) by (subst deepCopyAnyPointer.simps) (auto simp: c1 u ref d p c2 c3 alloc_sum st cp Let_def)
  then show ?thesis using loop l l2 by (auto simp: copiesWithin_def b algebra_simps)
qed

lemma composite_within:
  assumes ref: "readListPointer r s i = Inr (Some (InlineComposite g t ec dw pc n))"
    and tag: "mrReadWord r g t = Inr tag"
    and us: "length us = nat n" "wordsAt r g (t + 1) us"
    and vs: "length vs = length (compositeSlots tag)"
    and sub: "\<And>k d ws bud. k < length vs \<Longrightarrow> d < length ws \<Longrightarrow> affords ws bud (workOf (vs ! k)) (outputOf (vs ! k)) \<Longrightarrow>
      copiesWithin (deepCopyAnyPointer r g (t + 1 + compositeSlots tag ! k) (int d) M (depth + 1))
        ws bud (workOf (vs ! k)) (outputOf (vs ! k))"
    and depth: "depth \<le> M" and dst: "dst < length ws"
    and fit: "affords ws bud (workOf (CompositeV tag us' vs)) (outputOf (CompositeV tag us' vs))" "length us' = length us"
  shows "copiesWithin (deepCopyAnyPointer r s i (int dst) M depth) ws bud
    (workOf (CompositeV tag us' vs)) (outputOf (CompositeV tag us' vs))"
proof -
  obtain tag' m where m: "n = int m" "int m < 2 ^ 29" and tag': "mrReadWord r g t = Inr tag'" "pointerKind tag' = 0"
    and e: "ec = tagElementCount tag'" "dw = structDataWords tag'" "pc = structPointerCount tag'" "(dw + pc) * ec \<le> n"
    using readListPointer_composite [OF ref] by blast
  have tg: "tag' = tag" using tag tag'(1) by simp
  obtain u where u: "readResolvedPointer r s i = Inr u" "pointerKind (up_word u) = 1"
    using ref by (rule list_pointer_kind)
  have ne: "up_word u \<noteq> 0" using u(2) by auto
  define c where "c = nat ec"
  have ec: "ec = int c" using e(1) by (simp add: c_def tagElementCount_def)
  have l: "length us = m" "length us' = m" "nat (tagElementCount tag) = c" using us m fit(2) e(1) tg by (simp_all add: c_def)
  let ?L = "length ws"
  define bud1 bud2 bud3 bud4 where "bud1 = spent bud 1 0" and "bud2 = spent bud (1 + c) 0"
    and "bud3 = spent bud (1 + c + m) 0" and "bud4 = spent bud (1 + c + m) (1 + m)"
  note b = this
  let ?off = "int ?L - (int dst + 1)"
  define blank where "blank = replicate (1 + m) (0 :: 64 word)"
  let ?ws1 = "(ws @ blank)[dst := listPtr ?off 7 (int m)]"
  have al: "mbAllocWords (mb ws) (jint (1 + int m)) = Inr (int ?L, mb (ws @ blank))"
    unfolding blank_def by (rule alloc_tag)
  have a: "int (1 + c + m) \<le> cb_work bud" "int (1 + m) \<le> cb_outputWords bud" "int ?L \<le> 2 ^ 29"
    using fit(1) l by (simp_all add: affords_def)
  have c1: "chargeWork bud 1 = Inr bud1" using a charge_spent(1) [of 1 bud] by (simp add: b)
  have c2: "chargeWork bud1 ec = Inr bud2" using a charge_spent(1) [of c bud1] by (simp add: b ec)
  have c3: "chargeWork bud2 (int m) = Inr bud3" using a charge_spent(1) [of m bud2] by (simp add: b)
  have c4: "chargeOutput bud3 (1 + int m) = Inr bud4" using a charge_spent(2) [of "1 + m" bud3] by (simp add: b)
  have st: "mbSetListPointer (mb (ws @ blank)) (int dst) (int ?L) 7 (int m) = Inr (mb ?ws1)"
    by (rule mbSetListPointer_mb) (use dst a m in \<open>auto intro!: struct_offset_range simp: blank_def\<close>)
  have tus: "wordsAt r g t (tag # us)"
    using tag us(2) by (auto simp: wordsAt_def nth_Cons algebra_simps split: nat.split)
  obtain ws2 where cp: "copyWordsForAnyPointer r g t (1 + int m) (mb ?ws1) (int ?L) = Inr (mb ws2)"
    and l2: "length ws2 = ?L + 1 + m" using copyWords_succeeds [OF tus, of ?L ?ws1] l by (auto simp: blank_def)
  have mem: "0 \<le> x \<and> x < int m" if "x \<in> set (compositeSlots tag)" for x
    using compositeSlots_member [OF that, of "int m"] e m tg by simp
  have loop: "copiesWithin (loopE (\<lambda>x. deepCopyAnyPointer r g (t + 1 + x) (int ?L + 1 + x) M (depth + 1))
      (compositeSlots tag)) ws2 bud4 (sum_list (map workOf vs)) (sum_list (map outputOf vs))"
  proof (rule loop_within [where N = "?L + 1 + m"])
    fix k us0 b0
    assume k: "k < length (compositeSlots tag)" and le: "?L + 1 + m \<le> length us0"
      and aff: "affords us0 b0 (workOf (vs ! k)) (outputOf (vs ! k))"
    have x: "0 \<le> compositeSlots tag ! k" "compositeSlots tag ! k < int m" using mem k by auto
    then have e: "int ?L + 1 + compositeSlots tag ! k = int (?L + 1 + nat (compositeSlots tag ! k))"
      "?L + 1 + nat (compositeSlots tag ! k) < length us0" using le by auto
    show "copiesWithin (deepCopyAnyPointer r g (t + 1 + compositeSlots tag ! k)
        (int ?L + 1 + compositeSlots tag ! k) M (depth + 1)) us0 b0 (workOf (vs ! k)) (outputOf (vs ! k))"
      unfolding e(1) by (rule sub) (use k vs e aff in simp_all)
  qed (use vs l l2 fit in \<open>auto simp: affords_def b\<close>)
  have "deepCopyAnyPointer r s i (int dst) M depth (mb ws, bud) =
      loopE (\<lambda>x. deepCopyAnyPointer r g (t + 1 + x) (int ?L + 1 + x) M (depth + 1)) (compositeSlots tag) (mb ws2, bud4)"
    using depth ne u(2) compositeLoop [OF e(3,2,1), of "\<lambda>x y. deepCopyAnyPointer r g x y M (depth + 1)" t "int ?L" "(mb ws2, bud4)"]
    by (subst deepCopyAnyPointer.simps) (simp add: c1 u ref m(1) c2 c3 c4 al st cp tg)
  then show ?thesis using loop l l2 by (auto simp: copiesWithin_def b algebra_simps)
qed

text \<open>A flat list up to its payload; what follows depends on the element size.\<close>

lemma flat_prefix:
  assumes ref: "readListPointer r s i = Inr (Some (FlatList g t sz n))" and m: "flatListWords sz n = int m"
    and depth: "depth \<le> M" and dst: "dst < length ws" and fit: "affords ws bud (1 + nat n + m) m"
  shows "deepCopyAnyPointer r s i (int dst) M depth (mb ws, bud) =
    (if sz = 6
     then loopE (\<lambda>i. deepCopyAnyPointer r g (t + i) (int (length ws) + i) M (depth + 1)) [0..n - 1]
            (mb ((ws @ replicate m 0)[dst := listPtr (int (length ws) - (int dst + 1)) sz n]), spent bud (1 + nat n + m) m)
     else bindE (copyWordsForAnyPointer r g t (int m)
            (mb ((ws @ replicate m 0)[dst := listPtr (int (length ws) - (int dst + 1)) sz n])) (int (length ws)))
            (\<lambda>b. Inr (b, spent bud (1 + nat n + m) m)))"
proof -
  note sz = readListPointer_flat [OF ref]
  obtain u where u: "readResolvedPointer r s i = Inr u" "pointerKind (up_word u) = 1"
    using ref by (rule list_pointer_kind)
  have ne: "up_word u \<noteq> 0" using u(2) by auto
  have words: "listDataWordsForAnyPointerCopy sz n = Inr (int m)"
    using listWords_copy [of sz n] sz m by (auto simp: listDataWordsForAnyPointerCopy_def)
  let ?L = "length ws"
  define bud1 bud2 bud3 bud4 where "bud1 = spent bud 1 0" and "bud2 = spent bud (1 + nat n) 0"
    and "bud3 = spent bud (1 + nat n + m) 0" and "bud4 = spent bud (1 + nat n + m) m"
  note b = this
  have a: "int (1 + nat n + m) \<le> cb_work bud" "int m \<le> cb_outputWords bud" "int ?L \<le> 2 ^ 29"
    using fit by (simp_all add: affords_def)
  have "int 1 \<le> cb_work bud" using a(1) by linarith
  then have c1: "chargeWork bud 1 = Inr bud1" using charge_spent(1) [of 1 bud] by (simp add: b)
  have c2: "chargeWork bud1 n = Inr bud2" using a sz charge_spent(1) [of "nat n" bud1] by (simp add: b)
  have c3: "chargeWork bud2 (int m) = Inr bud3" using a charge_spent(1) [of m bud2] by (simp add: b)
  have c4: "chargeOutput bud3 (int m) = Inr bud4" using a charge_spent(2) [of m bud3] by (simp add: b)
  define ws1 where "ws1 = (ws @ replicate m 0)[dst := listPtr (int ?L - (int dst + 1)) sz n]"
  have st: "mbSetListPointer (mb (ws @ replicate m 0)) (int dst) (int ?L) sz n = Inr (mb ws1)"
    unfolding ws1_def by (rule mbSetListPointer_mb) (use dst a sz in \<open>auto intro!: struct_offset_range\<close>)
  show ?thesis
    using depth ne u(2) unfolding ws1_def [symmetric] b(4) [symmetric]
    by (subst deepCopyAnyPointer.simps) (simp add: c1 u ref words c2 c3 c4 st)
qed

lemma flat_within:
  assumes ref: "readListPointer r s i = Inr (Some (FlatList g t sz n))" "sz \<noteq> 6"
    and us: "length us = nat (flatListWords sz n)" "wordsAt r g t us"
    and depth: "depth \<le> M" and dst: "dst < length ws" and fit: "affords ws bud (1 + nat n + length us) (length us)"
  shows "copiesWithin (deepCopyAnyPointer r s i (int dst) M depth) ws bud (1 + nat n + length us) (length us)"
proof -
  have m: "flatListWords sz n = int (length us)"
    using us flatListWords_nonneg [of n sz] readListPointer_flat(3) [OF ref(1)] by simp
  let ?ws1 = "(ws @ replicate (length us) 0)[dst := listPtr (int (length ws) - (int dst + 1)) sz n]"
  obtain ws2 where "copyWordsForAnyPointer r g t (int (length us)) (mb ?ws1) (int (length ws)) = Inr (mb ws2)"
    and "length ws2 = length ?ws1" using copyWords_succeeds [OF us(2), of "length ws" ?ws1] by auto
  then show ?thesis
    using flat_prefix [OF ref(1) m depth dst fit] ref(2) by (auto simp: copiesWithin_def)
qed

lemma ptrList_within:
  assumes ref: "readListPointer r s i = Inr (Some (FlatList g t 6 n))"
    and vs: "length vs = nat n"
    and sub: "\<And>k d ws bud. k < length vs \<Longrightarrow> d < length ws \<Longrightarrow> affords ws bud (workOf (vs ! k)) (outputOf (vs ! k)) \<Longrightarrow>
      copiesWithin (deepCopyAnyPointer r g (t + int k) (int d) M (depth + 1)) ws bud (workOf (vs ! k)) (outputOf (vs ! k))"
    and depth: "depth \<le> M" and dst: "dst < length ws"
    and fit: "affords ws bud (workOf (PtrListV vs)) (outputOf (PtrListV vs))"
  shows "copiesWithin (deepCopyAnyPointer r s i (int dst) M depth) ws bud (workOf (PtrListV vs)) (outputOf (PtrListV vs))"
proof -
  define m where "m = nat n"
  have n: "n = int m" using readListPointer_flat(3) [OF ref] by (simp add: m_def)
  have m: "flatListWords 6 n = int m" by (simp add: flatListWords_def n)
  have l: "length vs = m" using vs by (simp add: m_def)
  let ?L = "length ws" and ?bud = "spent bud (1 + nat n + m) m"
  define ws1 where "ws1 = (ws @ replicate m 0)[dst := listPtr (int ?L - (int dst + 1)) 6 n]"
  have l1: "length ws1 = ?L + m" by (simp add: ws1_def)
  have fit': "affords ws bud (1 + nat n + m) m" using fit l n by (simp add: affords_def)
  have "copiesWithin (loopE (\<lambda>i. deepCopyAnyPointer r g (t + i) (int ?L + i) M (depth + 1)) [0..n - 1])
      ws1 ?bud (sum_list (map workOf vs)) (sum_list (map outputOf vs))"
  proof (rule loop_within [where N = "?L + m"])
    fix k us0 b0
    assume k: "k < length [0..n - 1]" and le: "?L + m \<le> length us0"
      and aff: "affords us0 b0 (workOf (vs ! k)) (outputOf (vs ! k))"
    have e: "[0..n - 1] ! k = int k" "int ?L + int k = int (?L + k)" "k < m" using k n by simp_all
    show "copiesWithin (deepCopyAnyPointer r g (t + [0..n - 1] ! k) (int ?L + [0..n - 1] ! k) M (depth + 1))
        us0 b0 (workOf (vs ! k)) (outputOf (vs ! k))"
      unfolding e(1,2) by (rule sub) (use e le l aff in simp_all)
  qed (use l l1 n fit in \<open>auto simp: affords_def\<close>)
  then show ?thesis
    using flat_prefix [OF ref m depth dst fit'] l l1 n by (auto simp: copiesWithin_def ws1_def algebra_simps)
qed

section \<open>Whatever is read is copied\<close>

lemma deepCopy_within:
  assumes "reads r s i v" "dst < length ws" "depth + int (depthOf v) \<le> M" "affords ws bud (workOf v) (outputOf v)"
  shows "copiesWithin (deepCopyAnyPointer r s i (int dst) M depth) ws bud (workOf v) (outputOf v)"
  using assms
proof (induction arbitrary: dst ws bud depth rule: reads.induct)
  case (null s i u)
  then have "chargeWork bud 1 = Inr (spent bud 1 0)" using charge_spent(1) [of 1 bud] by (simp add: affords_def)
  then show ?case using null by (auto simp: copiesWithin_def deepCopyAnyPointer.simps)
next
  case (cap s i u)
  then have "chargeWork bud 1 = Inr (spent bud 1 0)" using charge_spent(1) [of 1 bud] by (simp add: affords_def)
  moreover have "up_word u \<noteq> 0" using cap by auto
  ultimately show ?case using cap by (auto simp: copiesWithin_def deepCopyAnyPointer.simps)
next
  case (struct s i sr us vs)
  show ?case
  proof (rule struct_within [OF struct.hyps(1-4)])
    fix k d ws' bud'
    assume k: "k < length vs" and d: "d < length ws'" and aff: "affords ws' bud' (workOf (vs ! k)) (outputOf (vs ! k))"
    have "Suc (depthOf (vs ! k)) \<le> depthOf (StructV us vs)" using k by (auto intro!: deepest_member)
    then show "copiesWithin (deepCopyAnyPointer r (sr_segmentId sr) (sr_startWord sr + sr_dataWordCount sr + int k)
        (int d) M (depth + 1)) ws' bud' (workOf (vs ! k)) (outputOf (vs ! k))"
      using struct.prems(2) by (intro struct.IH [OF k d _ aff]) simp
  qed (use struct.prems in auto)
next
  case (flatList s i g t sz n us)
  then show ?case using flat_within [OF flatList.hyps(1-4)] by simp
next
  case (ptrList s i g t n vs)
  show ?case
  proof (rule ptrList_within [OF ptrList.hyps(1,2)])
    fix k d ws' bud'
    assume k: "k < length vs" and d: "d < length ws'" and aff: "affords ws' bud' (workOf (vs ! k)) (outputOf (vs ! k))"
    have "Suc (depthOf (vs ! k)) \<le> depthOf (PtrListV vs)" using k by (auto intro!: deepest_member)
    then show "copiesWithin (deepCopyAnyPointer r g (t + int k) (int d) M (depth + 1)) ws' bud'
        (workOf (vs ! k)) (outputOf (vs ! k))"
      using ptrList.prems(2) by (intro ptrList.IH [OF k d _ aff]) simp
  qed (use ptrList.prems in auto)
next
  case (composite s i g t ec dw pc n tag us vs)
  show ?case
  proof (rule composite_within [OF composite.hyps(1-5)])
    fix k d ws' bud'
    assume k: "k < length vs" and d: "d < length ws'" and aff: "affords ws' bud' (workOf (vs ! k)) (outputOf (vs ! k))"
    have "Suc (depthOf (vs ! k)) \<le> depthOf (CompositeV tag (blankSlots tag us) vs)"
      using k by (auto intro!: deepest_member)
    then show "copiesWithin (deepCopyAnyPointer r g (t + 1 + compositeSlots tag ! k) (int d) M (depth + 1)) ws' bud'
        (workOf (vs ! k)) (outputOf (vs ! k))"
      using composite.prems(2) by (intro composite.IH [OF k d _ aff]) simp
  qed (use composite.prems in \<open>auto simp: blankSlots_def\<close>)
qed

text \<open>What the options allow of a value.\<close>

definition withinCopyLimits :: "AnyPointerCopyOptions \<Rightarrow> wire_value \<Rightarrow> bool" where
  "withinCopyLimits options v \<longleftrightarrow>
     (case newAnyPointerCopyBudget options of
        Inl e \<Rightarrow> False
      | Inr bud \<Rightarrow> int (workOf v) \<le> cb_work bud \<and> int (outputOf v) \<le> cb_outputWords bud \<and>
          int (depthOf v) \<le> cb_maxDepth bud \<and> int (outputOf v) < 2 ^ 29)"

lemma decodeAnyPointer_succeeds:
  assumes "reads r s i v" "withinCopyLimits options v"
  shows "\<exists>ws. decodeAnyPointerMessageFromReader r s i options = Inr (frameOf [bytesOf ws]) \<and>
    length ws = 1 + outputOf v"
proof -
  obtain bud where bud: "newAnyPointerCopyBudget options = Inr bud"
    and lim: "int (workOf v) \<le> cb_work bud" "int (outputOf v) \<le> cb_outputWords bud"
      "int (depthOf v) \<le> cb_maxDepth bud" "int (outputOf v) < 2 ^ 29"
    using assms(2) by (auto simp: withinCopyLimits_def split: sum.splits)
  have "copiesWithin (deepCopyAnyPointer r s i (int 0) (cb_maxDepth bud) 0) [0] bud (workOf v) (outputOf v)"
    by (rule deepCopy_within [OF assms(1)]) (use lim in \<open>auto simp: affords_def\<close>)
  then obtain ws where run: "deepCopyAnyPointer r s i 0 (cb_maxDepth bud) 0 (mb [0], bud) =
      Inr (mb ws, spent bud (workOf v) (outputOf v))" and l: "length ws = 1 + outputOf v"
    by (auto simp: copiesWithin_def)
  have "mbToMessageBytes (mb ws) = Inr (frameOf [bytesOf ws])" using lim(4) l by (intro mbToMessageBytes_mb) simp
  then show ?thesis
    using run l by (auto simp: decodeAnyPointerMessageFromReader_def bud newMessageBuilder_mb)
qed

end
