(* ===== verification/Any_Pointer_Messages.thy ===== *)
theory Any_Pointer_Messages
  imports Copy_Limits Wire_Builder
begin

text \<open>
  The two entry points of the deep copy: \<open>decodeAnyPointerMessageFromReader\<close> keeps the value it
  copies and its output budget, and \<open>encodeAnyPointerMessageIntoBuilder\<close> puts the value of a
  message into any builder with the two operations of its interface.
\<close>

section \<open>Out of a reader\<close>

definition outputLimit :: "AnyPointerCopyOptions \<Rightarrow> int" where
  "outputLimit options = toInt (orDefault (ao_maxOutputWords options) (8 * 1024 * 1024))"

lemma newBudget_output:
  assumes "newAnyPointerCopyBudget options = Inr bud"
  shows "cb_outputWords bud = outputLimit options - 1" "0 \<le> cb_outputWords bud"
  using assms by (auto simp: newAnyPointerCopyBudget_def outputLimit_def Let_def bindE_eq_Inr dest!: chargeOutput_Inr)

lemma decodeAnyPointer_keeps_value:
  assumes run: "decodeAnyPointerMessageFromReader r s i options = Inr message" and lim: "outputLimit options < 2 ^ 32"
  shows "\<exists>ws v. message = frameOf [bytesOf ws] \<and> ws \<noteq> [] \<and> int (length ws) \<le> outputLimit options \<and>
    reads r s i v \<and> flat (memOf ws) (int (length ws)) 0 v"
proof -
  obtain bud b bud' where bud: "newAnyPointerCopyBudget options = Inr bud"
    and copy: "deepCopyAnyPointer r s i 0 (cb_maxDepth bud) 0 (newMessageBuilder, bud) = Inr (b, bud')"
    and out: "mbToMessageBytes b = Inr message"
    using run by (auto simp: decodeAnyPointerMessageFromReader_def bindE_eq_Inr)
  have "deepCopyAnyPointer r s i (int 0) (cb_maxDepth bud) 0 (mb [0], bud) = Inr (b, bud')"
    using copy by (simp add: newMessageBuilder_mb)
  then obtain ws v where b: "b = mb ws" and c: "copied r s i 0 [0] ws v" and a: "accounted [0] bud ws bud'"
    using deepCopy_faithful [of r "cb_maxDepth bud" 0] unfolding faithful_def by (metis length_Cons zero_less_Suc)
  have len: "int (length ws) \<le> outputLimit options" "ws \<noteq> []"
    using a c newBudget_output [OF bud] by (auto simp: accounted_def copied_def)
  then have "message = frameOf [bytesOf ws]" using out mbToMessageBytes_mb [of ws] lim by (simp add: b)
  moreover have "flat (memOf ws) (int (length ws)) (int 0) v"
  proof (rule flat_mono)
    show "flat (outBlock 0 [0] ws) (int (length ws)) (int 0) v" using c by (simp add: copied_def)
  qed (auto simp: outBlock_Some memOf_Some)
  ultimately show ?thesis using len c by (auto simp: copied_def)
qed

section \<open>Into a builder\<close>

lemma rebaseAny_Inr:
  assumes "rebaseCopiedAnyPointerRootPointer w start j = Inr w'" "w \<noteq> 0"
  shows "w' = w \<and> pointerKind w = 3 \<or>
    (pointerKind w = 0 \<or> pointerKind w = 1) \<and>
    (\<exists>e. encodeSigned30 (start + pointerOffset w - j) = Inr e \<and> w' = withOffset w e)"
proof -
  have enc: "rtEncodeSigned30 v = Inr e \<Longrightarrow> encodeSigned30 v = Inr e" for v e
    using rtEncodeSigned30_Inr [of v e] by simp
  have "pointerKind w = 0 \<or> pointerKind w = 1 \<or> pointerKind w = 2 \<or> pointerKind w = 3"
    using pointerKind_bound [of w] uint_field_nonneg(1) [of w] by linarith
  then show ?thesis using assms enc
    by (auto simp: rebaseCopiedAnyPointerRootPointer_def Let_def bindE_eq_Inr algebra_simps split: if_splits)
qed

text \<open>A root pointer rebased to another word points at the same value.\<close>

lemma flat_rebased:
  assumes fl: "flat m L i v" and w: "m i = Some w" "w \<noteq> 0"
    and rb: "w' = w \<and> pointerKind w = 3 \<or>
      (pointerKind w = 0 \<or> pointerKind w = 1) \<and>
      (\<exists>e. encodeSigned30 (i + pointerOffset w - j) = Inr e \<and> w' = withOffset w e)"
    and m': "m' j = Some w'" and ne: "v \<noteq> StructV [] []"
    and sub: "\<And>k v. flat m L k v \<Longrightarrow> flat m' L k v"
    and eq: "\<And>k u. m k = Some u \<Longrightarrow> m' k = Some u"
  shows "flat m' L j v"
proof (cases "pointerKind w = 3")
  case True
  then have "w' = w" using rb by auto
  moreover have "v = CapV w" using fl w True by (cases rule: flat.cases) auto
  ultimately show ?thesis using m' True by (simp add: flat.cap)
next
  case False
  then obtain e where e: "encodeSigned30 (i + pointerOffset w - j) = Inr e" and w': "w' = withOffset w e" using rb by auto
  note f = withOffset_target [OF e, of w, folded w']
  have t: "i + 1 + pointerOffset w = j + 1 + pointerOffset w'" using f by simp
  show ?thesis using fl
  proof (cases rule: flat.cases)
    case null
    then show ?thesis using w by simp
  next
    case (cap u)
    then show ?thesis using w False by simp
  next
    case (flatList u t' ws)
    then have [simp]: "u = w" using w by simp
    show ?thesis unfolding flatList(1) \<open>u = w\<close> f(5) [symmetric] f(6) [symmetric]
      by (rule flat.flatList [of m' j w' t']) (use flatList f t m' in \<open>auto simp: known_def intro!: eq\<close>)
  next
    case (ptrList u t' vs)
    then have [simp]: "u = w" using w by simp
    show ?thesis unfolding ptrList(1)
      by (rule flat.ptrList [of m' j w' t']) (use ptrList f t m' sub in auto)
  next
    case (composite u t' tag ws vs)
    then have [simp]: "u = w" using w by simp
    show ?thesis unfolding composite(1)
      by (rule flat.composite [of m' j w' t' tag]) (use composite f t m' sub in \<open>auto simp: known_def intro!: eq\<close>)
  next
    case (struct u t' ws vs)
    then have [simp]: "u = w" using w by simp
    have "w' \<noteq> 0"
    proof
      assume z: "w' = 0"
      have "structDataWords (0 :: 64 word) = 0" "structPointerCount (0 :: 64 word) = 0"
        by (simp_all add: structDataWords_def structPointerCount_def)
      then show False using f z struct ne by auto
    qed
    then show ?thesis unfolding struct(1)
      by (intro flat.struct [of m' j w' t']) (use struct f t m' sub in \<open>auto simp: known_def intro!: eq\<close>)
  qed
qed

lemma drop_frame_single: "drop 8 (frameOf [bytesOf ws]) = bytesOf ws"
  by (simp add: frameOf_def frameHeader_def segWords_def)

definition embeds :: "64 word list \<Rightarrow> 64 word list \<Rightarrow> nat \<Rightarrow> wire_value \<Rightarrow> bool" where
  "embeds ws ws' j v \<longleftrightarrow>
     length ws \<le> length ws' \<and> (\<forall>k < length ws. k \<noteq> j \<longrightarrow> ws' ! k = ws ! k) \<and>
     (v \<noteq> StructV [] [] \<longrightarrow> flat (outBlock j ws ws') (int (length ws')) (int j) v)"

lemma embeds_null:
  assumes "j < length ws" "flat m L 0 v" "m 0 = Some 0"
  shows "embeds ws (ws[j := 0]) j v"
proof -
  have "v = NullV" using assms(2,3) by (cases rule: flat.cases) auto
  then show ?thesis using assms(1) by (auto simp: embeds_def outBlock_Some intro!: flat.null)
qed

lemma embeds_words:
  assumes j: "j < length ws" and fl: "flat (memOf us) (int (length us)) 0 v" and us: "us = w # rest" "w \<noteq> 0"
    and rb: "rebaseCopiedAnyPointerRootPointer w (int (length ws)) (int j) = Inr w'"
  shows "embeds ws ((ws @ us)[j := w']) j v"
proof -
  let ?L = "int (length ws)" and ?ws' = "(ws @ us)[j := w']"
  let ?m = "outBlock j ws ?ws'"
  have sub: "?m k = Some u" if "memOf us (k - ?L) = Some u" for k u
  proof -
    have k: "?L \<le> k" "k - ?L < int (length us)" "u = us ! nat (k - ?L)" using that by (auto simp: memOf_Some)
    then have n: "nat k = length ws + nat (k - ?L)" by linarith
    have "(ws @ us) ! nat k = us ! nat (k - ?L)" unfolding n by simp
    then show ?thesis using k j by (auto simp: outBlock_Some nth_list_update)
  qed
  have len: "int (length us) + ?L = int (length ?ws')" by simp
  have "flat (\<lambda>k. memOf us (k - ?L)) (int (length us) + ?L) (0 + ?L) v"
    by (rule flat_shift [OF fl]) simp
  then have shifted: "flat (\<lambda>k. memOf us (k - ?L)) (int (length ?ws')) ?L v" by (simp add: add.commute)
  have "flat ?m (int (length ?ws')) (int j) v" if ne: "v \<noteq> StructV [] []"
  proof (rule flat_rebased [OF shifted _ us(2)])
    show "memOf us (?L - ?L) = Some w" by (simp add: us memOf_def)
    show "w' = w \<and> pointerKind w = 3 \<or> (pointerKind w = 0 \<or> pointerKind w = 1) \<and>
      (\<exists>e. encodeSigned30 (?L + pointerOffset w - int j) = Inr e \<and> w' = withOffset w e)"
      by (rule rebaseAny_Inr [OF rb us(2)])
    show "?m (int j) = Some w'" using j by (auto simp: outBlock_Some)
    show "flat ?m (int (length ?ws')) k u" if "flat (\<lambda>k. memOf us (k - ?L)) (int (length ?ws')) k u" for k u
      using that by (rule flat_mono) (auto intro: sub)
  qed (use ne sub in auto)
  then show ?thesis using j by (auto simp: embeds_def nth_list_update nth_append)
qed

text \<open>The root word of a flat message can be moved to any slot near it.\<close>

lemma rebase_succeeds:
  assumes fl: "flat (memOf us) (int (length us)) 0 v" and us: "us = w # rest" "w \<noteq> 0"
    and L: "int L + int (length us) \<le> 2 ^ 29" and j: "j < L"
  shows "\<exists>w'. rebaseCopiedAnyPointerRootPointer w (int L) (int j) = Inr w'"
proof -
  have w: "memOf us 0 = Some w" by (simp add: us memOf_def)
  have far: "inOffsetRange (int L + (1 + pointerOffset w) - (int j + 1))"
    if "fitsIn (int (length us)) (0 + 1 + pointerOffset w) n" "0 \<le> n" for n
    using that L j by (auto simp: fitsIn_def inOffsetRange_def)
  have "pointerKind w = 3 \<or> (pointerKind w = 0 \<or> pointerKind w = 1) \<and>
      inOffsetRange (int L + (1 + pointerOffset w) - (int j + 1))"
    using fl
  proof cases
    case null
    then show ?thesis using w us by simp
  next
    case (cap u)
    then show ?thesis using w by simp
  next
    case (struct u t ws vs)
    then show ?thesis using w far [of "structDataWords w + structPointerCount w"] by simp
  next
    case (flatList u t ws)
    then show ?thesis using w far flatListWords_nonneg [of "listElementCount w" "listElementSize w"] by simp
  next
    case (ptrList u t vs)
    then show ?thesis using w far [of "listElementCount w"] by simp
  next
    case (composite u t tag ws vs)
    then show ?thesis using w far [of "1 + listElementCount w"] uint_field_nonneg(7) [of w] by simp
  qed
  then show ?thesis using us(2) by (auto simp: rebaseCopiedAnyPointerRootPointer_def Let_def)
qed

context word_builder begin

lemma encodeAny_conc:
  assumes run: "encodeAnyPointerMessageIntoBuilder alloc writeTo (conc ws) (int j) message options = Inr b'"
    and j: "j < length ws" and lim: "outputLimit options < 2 ^ 32"
  shows "\<exists>r v ws'. newMessageReader message = Inr r \<and> reads r 0 0 v \<and> b' = conc ws' \<and>
    int (length ws') \<le> int (length ws) + outputLimit options \<and> embeds ws ws' j v"
proof -
  obtain r out where r: "newMessageReader message = Inr r"
    and dec: "decodeAnyPointerMessageFromReader r 0 0 options = Inr out"
    using run by (auto simp: encodeAnyPointerMessageIntoBuilder_def bindE_eq_Inr)
  obtain us v where out: "out = frameOf [bytesOf us]" and us: "us \<noteq> []" "int (length us) \<le> outputLimit options"
    and v: "reads r 0 0 v" "flat (memOf us) (int (length us)) 0 v"
    using decodeAnyPointer_keeps_value [OF dec lim] by blast
  obtain w rest where w: "us = w # rest" using us by (cases us) auto
  have seg: "drop 8 out = bytesOf us" "length (bytesOf us) div 8 = length us" "toWords (length us) (bytesOf us) = us"
    using toWords_bytesOf [of us "[]"] by (simp_all add: out drop_frame_single)
  have run': "(if w = 0 then writeTo (conc ws) (int j) 0
     else bindE (alloc (conc ws) (int (length us))) (\<lambda>(start, b).
        bindE (writeWords writeTo b start us) (\<lambda>b.
        bindE (rebaseCopiedAnyPointerRootPointer w start (int j)) (\<lambda>w. writeTo b (int j) w)))) = Inr b'"
    using run unfolding encodeAnyPointerMessageIntoBuilder_def r
    by (simp only: bindE_Inr dec Let_def seg) (simp only: w list.case)
  have "\<exists>ws'. b' = conc ws' \<and> int (length ws') \<le> int (length ws) + outputLimit options \<and> embeds ws ws' j v"
  proof (cases "w = 0")
    case True
    have m: "memOf us 0 = Some 0" by (simp add: w True memOf_def)
    have "b' = conc (ws[j := 0])" using run' j True by (simp add: write_conc)
    then show ?thesis using embeds_null [OF j v(2) m] us by (intro exI [of _ "ws[j := 0]"]) auto
  next
    case False
    have wr: "writeWords writeTo (conc (ws @ replicate (length us) 0)) (int (length ws)) us = Inr (conc (ws @ us))"
      using writeWords_conc [of "length ws" us "ws @ replicate (length us) 0"] by simp
    from run' False have "bindE (rebaseCopiedAnyPointerRootPointer w (int (length ws)) (int j))
        (\<lambda>w. writeTo (conc (ws @ us)) (int j) w) = Inr b'"
      by (simp add: alloc_conc wr)
    then obtain w' where rb: "rebaseCopiedAnyPointerRootPointer w (int (length ws)) (int j) = Inr w'"
      and b': "b' = conc ((ws @ us)[j := w'])"
      using j by (auto simp: bindE_eq_Inr write_conc)
    show ?thesis using embeds_words [OF j v(2) w False rb] b' us by auto
  qed
  then show ?thesis using r v by blast
qed

lemma encodeAny_succeeds:
  assumes r: "newMessageReader message = Inr r" and v: "reads r 0 0 v" and lim: "withinCopyLimits options v"
    and j: "j < length ws" and small: "int (length ws) + 1 + int (outputOf v) \<le> 2 ^ 29"
    and out: "outputLimit options < 2 ^ 32"
  shows "\<exists>b'. encodeAnyPointerMessageIntoBuilder alloc writeTo (conc ws) (int j) message options = Inr b'"
proof -
  obtain us where dec: "decodeAnyPointerMessageFromReader r 0 0 options = Inr (frameOf [bytesOf us])"
    and l: "length us = 1 + outputOf v" using decodeAnyPointer_succeeds [OF v lim] by blast
  obtain us' v' where "frameOf [bytesOf us] = frameOf [bytesOf us']" and v': "reads r 0 0 v'" 
    and fl: "flat (memOf us') (int (length us')) 0 v'" using decodeAnyPointer_keeps_value [OF dec out] by blast
  then have "bytesOf us = bytesOf us'" using drop_frame_single by metis
  then have us': "us' = us" using toWords_bytesOf [of us "[]"] toWords_bytesOf [of us' "[]"]
    by (metis append_Nil2 length_bytesOf mult_left_cancel zero_neq_numeral)
  have seg: "drop 8 (frameOf [bytesOf us]) = bytesOf us" "length (bytesOf us) div 8 = length us"
    "toWords (length us) (bytesOf us) = us"
    using toWords_bytesOf [of us "[]"] by (simp_all add: drop_frame_single)
  obtain w rest where w: "us = w # rest" using l by (cases us) auto
  have unf: "encodeAnyPointerMessageIntoBuilder alloc writeTo (conc ws) (int j) message options =
      (if w = 0 then writeTo (conc ws) (int j) 0
       else bindE (alloc (conc ws) (int (length us))) (\<lambda>(start, b).
          bindE (writeWords writeTo b start us) (\<lambda>b.
          bindE (rebaseCopiedAnyPointerRootPointer w start (int j)) (\<lambda>w. writeTo b (int j) w))))"
    unfolding encodeAnyPointerMessageIntoBuilder_def r
    by (simp only: bindE_Inr dec Let_def seg) (simp only: w list.case)
  show ?thesis
  proof (cases "w = 0")
    case True
    then show ?thesis using unf j by (simp add: write_conc)
  next
    case False
    obtain w' where "rebaseCopiedAnyPointerRootPointer w (int (length ws)) (int j) = Inr w'"
      using rebase_succeeds [OF fl [unfolded us'] w False _ j] small l by auto
    moreover have "writeWords writeTo (conc (ws @ replicate (length us) 0)) (int (length ws)) us = Inr (conc (ws @ us))"
      using writeWords_conc [of "length ws" us "ws @ replicate (length us) 0"] by simp
    ultimately show ?thesis using unf False j by (simp add: alloc_conc write_conc)
  qed
qed

end

end
