(* ===== verification/Wire_Encode.thy ===== *)
theory Wire_Encode
  imports Rpc_Messages Any_Pointer_Messages
begin

unbundle bit_operations_syntax

text \<open>
  The encoders of \<open>src/rpc/wire/encode.ts\<close>. Each one checks its arguments, allocates the structs
  of its message in a new builder, writes their fields and returns the framed bytes. The builder
  is passed from one call to the next; a thrown error discards it, as in the source.
\<close>

section \<open>Helpers\<close>

text \<open>An error whose name has numbers interpolated before the value.\<close>

fun withArgs :: "int list \<Rightarrow> 'a result \<Rightarrow> 'a result" where
  "withArgs xs (Inl (ProtocolError s ys)) = Inl (ProtocolError s (xs @ ys))"
| "withArgs xs r = r"

fun errorMessage :: "error \<Rightarrow> string \<times> int list" where
  "errorMessage (ProtocolError s xs) = (s, xs)"
| "errorMessage (PlainError s xs) = (s, xs)"
| "errorMessage (SessionError s xs) = (s, xs)"
| "errorMessage (TransportError s xs) = (s, xs)"
| "errorMessage RangeError = ('''', [])"
| "errorMessage Diverges = ('''', [])"

text \<open>\<open>catch\<close>: a call that does not return throws nothing to catch.\<close>

definition catchE :: "'a result \<Rightarrow> (error \<Rightarrow> 'a result) \<Rightarrow> 'a result" where
  "catchE r handler = (case r of Inl e \<Rightarrow> if e = Diverges then Inl e else handler e | Inr x \<Rightarrow> Inr x)"

lemma catchE_Inr [simp]: "catchE (Inr x) h = Inr x"
  by (simp add: catchE_def)

definition normalizePayloadContent :: "bytes option \<Rightarrow> string \<Rightarrow> bytes result" where
  "normalizePayloadContent content fieldName =
     (case content of
        None \<Rightarrow> Inr EMPTY_STRUCT_MESSAGE
      | Some content \<Rightarrow>
          if content = [] then Inl (ProtocolError (fieldName @ '' must be a framed Cap'n Proto message'') [])
          else Inr content)"

definition inlineCompositeTag :: "number \<Rightarrow> number \<Rightarrow> number \<Rightarrow> 64 word result" where
  "inlineCompositeTag elementCount dataWordCount pointerCount =
     bindE (ensureU32 elementCount ''elementCount'') (\<lambda>c.
     let count = c AND 0x3fffffff in
     bindE (ensureU16 dataWordCount ''dataWordCount'') (\<lambda>data.
     bindE (ensureU16 pointerCount ''pointerCount'') (\<lambda>ptrs.
     Inr (push_bit 2 (word_of_int count) OR push_bit 32 (word_of_int data) OR push_bit 48 (word_of_int ptrs)))))"

definition pointerSlot :: "int \<Rightarrow> int \<Rightarrow> int \<Rightarrow> int" where
  "pointerSlot structWord dataWordCount pointerIndex = structWord + dataWordCount + pointerIndex"

definition encodeThirdParty ::
  "RpcWireMessageBuilder \<Rightarrow> int \<Rightarrow> int \<Rightarrow> number RpcCapDescriptor \<Rightarrow> RpcWireMessageBuilder result" where
  "encodeThirdParty b elemWord i entry =
     bindE (withArgs [i] (ensureU32 (orElse (cd_vineId entry) (jint 0)) ''capTable[{}].vineId'')) (\<lambda>vineId.
     case cd_contact entry of
       None \<Rightarrow> Inl (ProtocolError ''capTable[{}]: thirdPartyHosted requires contact bytes'' [i])
     | Some contact \<Rightarrow>
         bindE (rbAllocWords b (jint 2)) (\<lambda>(nested, b).
         bindE (rbSetStructPointer b (elemWord + CAP_DESCRIPTOR_DATA_WORD_COUNT) nested 1 1) (\<lambda>b.
         bindE (rbWriteU32 b nested 0 vineId) (\<lambda>b.
         let contactWordCount = (int (length contact) + 7) div 8 in
         bindE (rbAllocWords b (jint contactWordCount)) (\<lambda>(contactTarget, b).
         bindE (rbWriteBytes b contactTarget 0 contact) (\<lambda>b.
         rbSetListPointer b (nested + 1) contactTarget 2 (int (length contact))))))))"

definition encodeCapDescriptor ::
  "int \<Rightarrow> int \<times> number RpcCapDescriptor \<Rightarrow> RpcWireMessageBuilder \<Rightarrow> RpcWireMessageBuilder result" where
  "encodeCapDescriptor tagWord = (\<lambda>(i, entry) b.
     let strideWords = CAP_DESCRIPTOR_DATA_WORD_COUNT + CAP_DESCRIPTOR_POINTER_COUNT;
         elemWord = tagWord + 1 + i * strideWords
     in bindE (withArgs [i] (ensureU16 (cd_tag entry) ''capTable[{}].tag'')) (\<lambda>tag.
        bindE (rbWriteU16 b elemWord CAP_DESCRIPTOR_TAG_BYTE_OFFSET tag) (\<lambda>b.
        bindE (withArgs [i] (ensureU32 (cd_id entry) ''capTable[{}].id'')) (\<lambda>id'.
        bindE (rbWriteU32 b elemWord CAP_DESCRIPTOR_ID_BYTE_OFFSET id') (\<lambda>b.
        if cd_tag entry = jint CAP_DESCRIPTOR_TAG_THIRD_PARTY_HOSTED
        then encodeThirdParty b elemWord i entry
        else Inr b)))))"

text \<open>The entries of a list with their indices.\<close>

definition indexed :: "'a list \<Rightarrow> (int \<times> 'a) list" where
  "indexed xs = zip [0..int (length xs) - 1] xs"

definition encodeCapTable ::
  "RpcWireMessageBuilder \<Rightarrow> int \<Rightarrow> number RpcCapDescriptor list option \<Rightarrow> RpcWireMessageBuilder result" where
  "encodeCapTable b tablePointerWord capTable =
     (let entries = orElse capTable [];
          count = int (length entries);
          strideWords = CAP_DESCRIPTOR_DATA_WORD_COUNT + CAP_DESCRIPTOR_POINTER_COUNT
      in bindE (rbAllocWords b (jint (1 + count * strideWords))) (\<lambda>(tagWord, b).
         bindE (rbSetListPointer b tablePointerWord tagWord 7 (count * strideWords)) (\<lambda>b.
         bindE (inlineCompositeTag (jint count) (jint CAP_DESCRIPTOR_DATA_WORD_COUNT)
                  (jint CAP_DESCRIPTOR_POINTER_COUNT)) (\<lambda>tag.
         bindE (rbWriteWord b tagWord tag) (\<lambda>b.
         loopE (encodeCapDescriptor tagWord) (indexed entries) b)))))"

definition encodeReturnFlags ::
  "RpcWireMessageBuilder \<Rightarrow> int \<Rightarrow> bool \<Rightarrow> bool \<Rightarrow> RpcWireMessageBuilder result" where
  "encodeReturnFlags b returnWord releaseParamCaps noFinishNeeded =
     (let flags = 0;
          flags = (if \<not> releaseParamCaps then flags OR RETURN_RELEASE_PARAM_CAPS_FLAG_MASK else flags);
          flags = (if noFinishNeeded then flags OR RETURN_NO_FINISH_NEEDED_FLAG_MASK else flags)
      in rbWriteU32 b returnWord RETURN_FLAGS_BYTE_OFFSET flags)"

definition writePayloadContentPointer ::
  "RpcWireMessageBuilder \<Rightarrow> int \<Rightarrow> bytes option \<Rightarrow> string \<Rightarrow> RpcWireMessageBuilder result" where
  "writePayloadContentPointer b contentPointerWord content fieldName =
     bindE (normalizePayloadContent content fieldName) (\<lambda>payload.
     catchE (encodeAnyPointerMessageIntoBuilder (\<lambda>b n. rbAllocWords b (jint n)) rbWriteWord
               b contentPointerWord payload noCopyOptions)
       (\<lambda>e. case errorMessage e of (s, xs) \<Rightarrow>
          Inl (ProtocolError (fieldName @ '' is not a valid framed Cap'n Proto message: '' @ s) xs)))"

definition normalizePromisedAnswerOp ::
  "number RpcPromisedAnswerOp \<Rightarrow> string \<Rightarrow> int \<Rightarrow> number RpcPromisedAnswerOp result" where
  "normalizePromisedAnswerOp op name i =
     (if op_tag op = jint RPC_PROMISED_ANSWER_OP_TAG_NOOP
      then Inr \<lparr>op_tag = jint RPC_PROMISED_ANSWER_OP_TAG_NOOP, op_pointerIndex = None\<rparr>
      else if op_tag op = jint RPC_PROMISED_ANSWER_OP_TAG_GET_POINTER_FIELD then
        (case op_pointerIndex op of
           None \<Rightarrow> Inl (ProtocolError (name @ ''.pointerIndex is required for getPointerField'') [i])
         | Some p \<Rightarrow>
             bindE (withArgs [i] (ensureU16 p (name @ ''.pointerIndex''))) (\<lambda>p.
             Inr \<lparr>op_tag = jint RPC_PROMISED_ANSWER_OP_TAG_GET_POINTER_FIELD, op_pointerIndex = Some (jint p)\<rparr>))
      else Inl (ProtocolError (name @ ''.tag is unsupported: {}'') [i, toInt (op_tag op)]))"

fun mapE :: "('x \<Rightarrow> 'y result) \<Rightarrow> 'x list \<Rightarrow> 'y list result" where
  "mapE f [] = Inr []"
| "mapE f (x # xs) = bindE (f x) (\<lambda>y. bindE (mapE f xs) (\<lambda>ys. Inr (y # ys)))"

definition normalizeCallTarget :: "RpcCallFrameRequest \<Rightarrow> number RpcCallTarget result" where
  "normalizeCallTarget request =
     (case cf_target request of
        Some (ImportedCap cap) \<Rightarrow>
          bindE (ensureU32 cap ''target.importedCap'') (\<lambda>c. Inr (ImportedCap (jint c)))
      | Some (PromisedAnswer pa) \<Rightarrow>
          bindE (ensureU32 (pa_questionId pa) ''target.promisedAnswer.questionId'') (\<lambda>q.
          bindE (case pa_transform pa of
                   None \<Rightarrow> Inr None
                 | Some ops \<Rightarrow>
                     bindE (mapE (\<lambda>(index, op). normalizePromisedAnswerOp op
                              ''target.promisedAnswer.transform[{}]'' index) (indexed ops)) (\<lambda>ops. Inr (Some ops)))
            (\<lambda>transform. Inr (PromisedAnswer \<lparr>pa_questionId = jint q, pa_transform = transform\<rparr>)))
      | None \<Rightarrow>
          (case cf_targetImportedCap request of
             None \<Rightarrow> Inl (ProtocolError ''encodeCallRequestFrame requires either target or targetImportedCap'' [])
           | Some cap \<Rightarrow> bindE (ensureU32 cap ''targetImportedCap'') (\<lambda>c. Inr (ImportedCap (jint c)))))"

definition encodePromisedAnswerOp ::
  "int \<Rightarrow> int \<times> number RpcPromisedAnswerOp \<Rightarrow> RpcWireMessageBuilder \<Rightarrow> RpcWireMessageBuilder result" where
  "encodePromisedAnswerOp tagWord = (\<lambda>(i, op) b.
     bindE (normalizePromisedAnswerOp op ''promisedAnswer.transform[{}]'' i) (\<lambda>normalized.
     let elemWord = tagWord + 1 + i in
     bindE (ensureU16 (op_tag normalized) ''promisedAnswer op tag'') (\<lambda>tag.
     bindE (rbWriteU16 b elemWord PROMISED_ANSWER_OP_TAG_BYTE_OFFSET tag) (\<lambda>b.
     if op_tag normalized = jint RPC_PROMISED_ANSWER_OP_TAG_GET_POINTER_FIELD then
       bindE (ensureU16 (orElse (op_pointerIndex normalized) NaN) ''promisedAnswer op pointerIndex'') (\<lambda>p.
       rbWriteU16 b elemWord PROMISED_ANSWER_OP_GET_POINTER_FIELD_BYTE_OFFSET p)
     else Inr b))))"

definition encodePromisedAnswerTransform ::
  "RpcWireMessageBuilder \<Rightarrow> int \<Rightarrow> number RpcPromisedAnswerOp list option \<Rightarrow> RpcWireMessageBuilder result" where
  "encodePromisedAnswerTransform b pointerWord transform =
     (let ops = orElse transform [] in
      if ops = [] then rbWriteWord b pointerWord 0
      else
        bindE (rbAllocWords b (jint (1 + int (length ops)))) (\<lambda>(tagWord, b).
        bindE (rbSetListPointer b pointerWord tagWord 7 (int (length ops))) (\<lambda>b.
        bindE (inlineCompositeTag (jint (int (length ops))) (jint PROMISED_ANSWER_OP_DATA_WORD_COUNT)
                 (jint PROMISED_ANSWER_OP_POINTER_COUNT)) (\<lambda>tag.
        bindE (rbWriteWord b tagWord tag) (\<lambda>b.
        loopE (encodePromisedAnswerOp tagWord) (indexed ops) b)))))"

section \<open>Frames\<close>

definition encodeBootstrapRequestFrame :: "number RpcBootstrapRequest \<Rightarrow> bytes result" where
  "encodeBootstrapRequestFrame request =
     bindE (ensureU32 (bq_questionId request) ''questionId'') (\<lambda>questionId.
     bindE (rbAllocWords newRpcWireMessageBuilder (jint (MESSAGE_DATA_WORD_COUNT + MESSAGE_POINTER_COUNT))) (\<lambda>(messageWord, b).
     bindE (rbSetStructPointer b 0 messageWord MESSAGE_DATA_WORD_COUNT MESSAGE_POINTER_COUNT) (\<lambda>b.
     bindE (rbWriteU16 b messageWord MESSAGE_UNION_TAG_BYTE_OFFSET RPC_MESSAGE_TAG_BOOTSTRAP) (\<lambda>b.
     bindE (rbAllocWords b (jint (BOOTSTRAP_DATA_WORD_COUNT + BOOTSTRAP_POINTER_COUNT))) (\<lambda>(bootstrapWord, b).
     bindE (rbSetStructPointer b (pointerSlot messageWord MESSAGE_DATA_WORD_COUNT MESSAGE_VARIANT_POINTER_INDEX)
              bootstrapWord BOOTSTRAP_DATA_WORD_COUNT BOOTSTRAP_POINTER_COUNT) (\<lambda>b.
     bindE (rbWriteU32 b bootstrapWord BOOTSTRAP_QUESTION_ID_BYTE_OFFSET questionId) (\<lambda>b.
     rbToMessageBytes b)))))))"

definition encodeFinishFrame :: "FinishFrameRequest \<Rightarrow> bytes result" where
  "encodeFinishFrame request =
     bindE (ensureU32 (ff_questionId request) ''questionId'') (\<lambda>questionId.
     let releaseResultCaps = orElse (ff_releaseResultCaps request) True;
         requireEarlyCancellation = orElse (ff_requireEarlyCancellation request) False in
     bindE (rbAllocWords newRpcWireMessageBuilder (jint (MESSAGE_DATA_WORD_COUNT + MESSAGE_POINTER_COUNT))) (\<lambda>(messageWord, b).
     bindE (rbSetStructPointer b 0 messageWord MESSAGE_DATA_WORD_COUNT MESSAGE_POINTER_COUNT) (\<lambda>b.
     bindE (rbWriteU16 b messageWord MESSAGE_UNION_TAG_BYTE_OFFSET RPC_MESSAGE_TAG_FINISH) (\<lambda>b.
     bindE (rbAllocWords b (jint (FINISH_DATA_WORD_COUNT + FINISH_POINTER_COUNT))) (\<lambda>(finishWord, b).
     bindE (rbSetStructPointer b (pointerSlot messageWord MESSAGE_DATA_WORD_COUNT MESSAGE_VARIANT_POINTER_INDEX)
              finishWord FINISH_DATA_WORD_COUNT FINISH_POINTER_COUNT) (\<lambda>b.
     bindE (rbWriteU32 b finishWord FINISH_QUESTION_ID_BYTE_OFFSET questionId) (\<lambda>b.
     let flags = 0;
         flags = (if \<not> releaseResultCaps then flags OR FINISH_RELEASE_RESULT_CAPS_FLAG_MASK else flags);
         flags = (if \<not> requireEarlyCancellation
                  then flags OR FINISH_REQUIRE_EARLY_CANCELLATION_WORKAROUND_FLAG_MASK else flags) in
     bindE (rbWriteU32 b finishWord FINISH_FLAGS_BYTE_OFFSET flags) (\<lambda>b.
     rbToMessageBytes b))))))))"

definition encodeReleaseFrame :: "number RpcReleaseRequest \<Rightarrow> bytes result" where
  "encodeReleaseFrame request =
     bindE (ensureU32 (rq_id request) ''id'') (\<lambda>id'.
     bindE (ensureU32 (rq_referenceCount request) ''referenceCount'') (\<lambda>referenceCount.
     bindE (rbAllocWords newRpcWireMessageBuilder (jint (MESSAGE_DATA_WORD_COUNT + MESSAGE_POINTER_COUNT))) (\<lambda>(messageWord, b).
     bindE (rbSetStructPointer b 0 messageWord MESSAGE_DATA_WORD_COUNT MESSAGE_POINTER_COUNT) (\<lambda>b.
     bindE (rbWriteU16 b messageWord MESSAGE_UNION_TAG_BYTE_OFFSET RPC_MESSAGE_TAG_RELEASE) (\<lambda>b.
     bindE (rbAllocWords b (jint (RELEASE_DATA_WORD_COUNT + RELEASE_POINTER_COUNT))) (\<lambda>(releaseWord, b).
     bindE (rbSetStructPointer b (pointerSlot messageWord MESSAGE_DATA_WORD_COUNT MESSAGE_VARIANT_POINTER_INDEX)
              releaseWord RELEASE_DATA_WORD_COUNT RELEASE_POINTER_COUNT) (\<lambda>b.
     bindE (rbWriteU32 b releaseWord RELEASE_ID_BYTE_OFFSET id') (\<lambda>b.
     bindE (rbWriteU32 b releaseWord RELEASE_REFERENCE_COUNT_BYTE_OFFSET referenceCount) (\<lambda>b.
     rbToMessageBytes b)))))))))"

definition encodeReturnResultsFrame :: "RpcReturnResultsFrameRequest \<Rightarrow> bytes result" where
  "encodeReturnResultsFrame request =
     bindE (ensureU32 (rf_answerId request) ''answerId'') (\<lambda>answerId.
     let releaseParamCaps = orElse (rf_releaseParamCaps request) True;
         noFinishNeeded = orElse (rf_noFinishNeeded request) False in
     bindE (rbAllocWords newRpcWireMessageBuilder (jint (MESSAGE_DATA_WORD_COUNT + MESSAGE_POINTER_COUNT))) (\<lambda>(messageWord, b).
     bindE (rbSetStructPointer b 0 messageWord MESSAGE_DATA_WORD_COUNT MESSAGE_POINTER_COUNT) (\<lambda>b.
     bindE (rbWriteU16 b messageWord MESSAGE_UNION_TAG_BYTE_OFFSET RPC_MESSAGE_TAG_RETURN) (\<lambda>b.
     bindE (rbAllocWords b (jint (RETURN_DATA_WORD_COUNT + RETURN_POINTER_COUNT))) (\<lambda>(returnWord, b).
     bindE (rbSetStructPointer b (pointerSlot messageWord MESSAGE_DATA_WORD_COUNT MESSAGE_VARIANT_POINTER_INDEX)
              returnWord RETURN_DATA_WORD_COUNT RETURN_POINTER_COUNT) (\<lambda>b.
     bindE (rbWriteU32 b returnWord RETURN_ANSWER_ID_BYTE_OFFSET answerId) (\<lambda>b.
     bindE (encodeReturnFlags b returnWord releaseParamCaps noFinishNeeded) (\<lambda>b.
     bindE (rbWriteU16 b returnWord RETURN_TAG_BYTE_OFFSET RETURN_TAG_RESULTS) (\<lambda>b.
     bindE (rbAllocWords b (jint (PAYLOAD_DATA_WORD_COUNT + PAYLOAD_POINTER_COUNT))) (\<lambda>(payloadWord, b).
     bindE (rbSetStructPointer b (pointerSlot returnWord RETURN_DATA_WORD_COUNT RETURN_VARIANT_POINTER_INDEX)
              payloadWord PAYLOAD_DATA_WORD_COUNT PAYLOAD_POINTER_COUNT) (\<lambda>b.
     bindE (writePayloadContentPointer b
              (pointerSlot payloadWord PAYLOAD_DATA_WORD_COUNT PAYLOAD_CONTENT_POINTER_INDEX)
              (rf_content request) ''content'') (\<lambda>b.
     bindE (encodeCapTable b (pointerSlot payloadWord PAYLOAD_DATA_WORD_COUNT PAYLOAD_CAP_TABLE_POINTER_INDEX)
              (rf_capTable request)) (\<lambda>b.
     rbToMessageBytes b)))))))))))))"

definition encodeBootstrapResponseFrame :: "number \<Rightarrow> number \<Rightarrow> bytes result" where
  "encodeBootstrapResponseFrame answerId capabilityIndex =
     bindE (ensureU32 capabilityIndex ''capabilityIndex'') (\<lambda>capability.
     encodeReturnResultsFrame
       \<lparr>rf_answerId = answerId, rf_content = None,
        rf_capTable = Some [\<lparr>cd_tag = jint CAP_DESCRIPTOR_TAG_SENDER_HOSTED, cd_id = jint capability,
                             cd_vineId = None, cd_contact = None\<rparr>],
        rf_releaseParamCaps = None, rf_noFinishNeeded = None\<rparr>)"

definition encodeReturnExceptionFrame :: "RpcReturnExceptionFrameRequest \<Rightarrow> bytes result" where
  "encodeReturnExceptionFrame request =
     bindE (ensureU32 (re_answerId request) ''answerId'') (\<lambda>answerId.
     let releaseParamCaps = orElse (re_releaseParamCaps request) True;
         noFinishNeeded = orElse (re_noFinishNeeded request) False;
         reasonBytes = textEncode (re_reason request) in
     bindE (rbAllocWords newRpcWireMessageBuilder (jint (MESSAGE_DATA_WORD_COUNT + MESSAGE_POINTER_COUNT))) (\<lambda>(messageWord, b).
     bindE (rbSetStructPointer b 0 messageWord MESSAGE_DATA_WORD_COUNT MESSAGE_POINTER_COUNT) (\<lambda>b.
     bindE (rbWriteU16 b messageWord MESSAGE_UNION_TAG_BYTE_OFFSET RPC_MESSAGE_TAG_RETURN) (\<lambda>b.
     bindE (rbAllocWords b (jint (RETURN_DATA_WORD_COUNT + RETURN_POINTER_COUNT))) (\<lambda>(returnWord, b).
     bindE (rbSetStructPointer b (pointerSlot messageWord MESSAGE_DATA_WORD_COUNT MESSAGE_VARIANT_POINTER_INDEX)
              returnWord RETURN_DATA_WORD_COUNT RETURN_POINTER_COUNT) (\<lambda>b.
     bindE (rbWriteU32 b returnWord RETURN_ANSWER_ID_BYTE_OFFSET answerId) (\<lambda>b.
     bindE (encodeReturnFlags b returnWord releaseParamCaps noFinishNeeded) (\<lambda>b.
     bindE (rbWriteU16 b returnWord RETURN_TAG_BYTE_OFFSET RETURN_TAG_EXCEPTION) (\<lambda>b.
     bindE (rbAllocWords b (jint (EXCEPTION_DATA_WORD_COUNT + EXCEPTION_POINTER_COUNT))) (\<lambda>(exWord, b).
     bindE (rbSetStructPointer b (pointerSlot returnWord RETURN_DATA_WORD_COUNT RETURN_VARIANT_POINTER_INDEX)
              exWord EXCEPTION_DATA_WORD_COUNT EXCEPTION_POINTER_COUNT) (\<lambda>b.
     let textElementCount = int (length reasonBytes) + 1;
         textWordCount = ceilDiv textElementCount WORD_BYTES in
     bindE (rbAllocWords b (jint textWordCount)) (\<lambda>(textWord, b).
     bindE (rbSetListPointer b (pointerSlot exWord EXCEPTION_DATA_WORD_COUNT EXCEPTION_REASON_POINTER_INDEX)
              textWord 2 textElementCount) (\<lambda>b.
     bindE (rbWriteBytes b textWord 0 reasonBytes) (\<lambda>b.
     rbToMessageBytes b))))))))))))))"

definition encodeCallTarget ::
  "RpcWireMessageBuilder \<Rightarrow> int \<Rightarrow> number RpcCallTarget \<Rightarrow> RpcWireMessageBuilder result" where
  "encodeCallTarget b targetWord target =
     (case target of
        ImportedCap cap \<Rightarrow>
          bindE (rbWriteU32 b targetWord MESSAGE_TARGET_IMPORTED_CAP_BYTE_OFFSET (toInt cap)) (\<lambda>b.
          rbWriteU16 b targetWord MESSAGE_TARGET_TAG_BYTE_OFFSET RPC_CALL_TARGET_TAG_IMPORTED_CAP)
      | PromisedAnswer pa \<Rightarrow>
          bindE (rbWriteU16 b targetWord MESSAGE_TARGET_TAG_BYTE_OFFSET RPC_CALL_TARGET_TAG_PROMISED_ANSWER) (\<lambda>b.
          bindE (rbAllocWords b (jint (PROMISED_ANSWER_DATA_WORD_COUNT + PROMISED_ANSWER_POINTER_COUNT))) (\<lambda>(promisedWord, b).
          bindE (rbSetStructPointer b
                   (pointerSlot targetWord MESSAGE_TARGET_DATA_WORD_COUNT MESSAGE_TARGET_PROMISED_ANSWER_POINTER_INDEX)
                   promisedWord PROMISED_ANSWER_DATA_WORD_COUNT PROMISED_ANSWER_POINTER_COUNT) (\<lambda>b.
          bindE (rbWriteU32 b promisedWord PROMISED_ANSWER_QUESTION_ID_BYTE_OFFSET (toInt (pa_questionId pa))) (\<lambda>b.
          encodePromisedAnswerTransform b
            (pointerSlot promisedWord PROMISED_ANSWER_DATA_WORD_COUNT PROMISED_ANSWER_TRANSFORM_POINTER_INDEX)
            (pa_transform pa))))))"

definition encodeCallRequestFrame :: "RpcCallFrameRequest \<Rightarrow> bytes result" where
  "encodeCallRequestFrame request =
     bindE (ensureU32 (cf_questionId request) ''questionId'') (\<lambda>questionId.
     bindE (ensureU64 (cf_interfaceId request) ''interfaceId'') (\<lambda>interfaceId.
     bindE (ensureU16 (cf_methodId request) ''methodId'') (\<lambda>methodId.
     bindE (normalizeCallTarget request) (\<lambda>target.
     bindE (rbAllocWords newRpcWireMessageBuilder (jint (MESSAGE_DATA_WORD_COUNT + MESSAGE_POINTER_COUNT))) (\<lambda>(messageWord, b).
     bindE (rbSetStructPointer b 0 messageWord MESSAGE_DATA_WORD_COUNT MESSAGE_POINTER_COUNT) (\<lambda>b.
     bindE (rbWriteU16 b messageWord MESSAGE_UNION_TAG_BYTE_OFFSET RPC_MESSAGE_TAG_CALL) (\<lambda>b.
     bindE (rbAllocWords b (jint (CALL_DATA_WORD_COUNT + CALL_POINTER_COUNT))) (\<lambda>(callWord, b).
     bindE (rbSetStructPointer b (pointerSlot messageWord MESSAGE_DATA_WORD_COUNT MESSAGE_VARIANT_POINTER_INDEX)
              callWord CALL_DATA_WORD_COUNT CALL_POINTER_COUNT) (\<lambda>b.
     bindE (rbWriteU32 b callWord CALL_QUESTION_ID_BYTE_OFFSET questionId) (\<lambda>b.
     bindE (rbWriteU16 b callWord CALL_METHOD_ID_BYTE_OFFSET methodId) (\<lambda>b.
     bindE (rbWriteU16 b callWord CALL_SEND_RESULTS_TO_TAG_BYTE_OFFSET CALL_SEND_RESULTS_TO_TAG_CALLER) (\<lambda>b.
     bindE (rbWriteU64 b (callWord + CALL_INTERFACE_ID_BYTE_OFFSET div WORD_BYTES)
              (CALL_INTERFACE_ID_BYTE_OFFSET mod WORD_BYTES) (word_of_int interfaceId)) (\<lambda>b.
     bindE (rbAllocWords b (jint (MESSAGE_TARGET_DATA_WORD_COUNT + MESSAGE_TARGET_POINTER_COUNT))) (\<lambda>(targetWord, b).
     bindE (rbSetStructPointer b (pointerSlot callWord CALL_DATA_WORD_COUNT CALL_TARGET_POINTER_INDEX)
              targetWord MESSAGE_TARGET_DATA_WORD_COUNT MESSAGE_TARGET_POINTER_COUNT) (\<lambda>b.
     bindE (encodeCallTarget b targetWord target) (\<lambda>b.
     bindE (rbAllocWords b (jint (PAYLOAD_DATA_WORD_COUNT + PAYLOAD_POINTER_COUNT))) (\<lambda>(payloadWord, b).
     bindE (rbSetStructPointer b (pointerSlot callWord CALL_DATA_WORD_COUNT CALL_PARAMS_POINTER_INDEX)
              payloadWord PAYLOAD_DATA_WORD_COUNT PAYLOAD_POINTER_COUNT) (\<lambda>b.
     bindE (writePayloadContentPointer b
              (pointerSlot payloadWord PAYLOAD_DATA_WORD_COUNT PAYLOAD_CONTENT_POINTER_INDEX)
              (cf_paramsContent request) ''paramsContent'') (\<lambda>b.
     bindE (encodeCapTable b (pointerSlot payloadWord PAYLOAD_DATA_WORD_COUNT PAYLOAD_CAP_TABLE_POINTER_INDEX)
              (cf_paramsCapTable request)) (\<lambda>b.
     rbToMessageBytes b))))))))))))))))))))"

end
