(* ===== verification/Wire_Decode.thy ===== *)
theory Wire_Decode
  imports Rpc_Messages Any_Pointer_Messages
begin

unbundle bit_operations_syntax

text \<open>
  The decoders of \<open>src/rpc/wire/decode.ts\<close>. Each one parses the segment table, follows the root
  pointer to the message struct, checks the union tag and reads the variant; the content of a
  payload is copied out by the budgeted deep copy of a \<open>MessageReader\<close> on the same frame.
\<close>

section \<open>Helpers\<close>

text \<open>\<open>asProtocolError\<close> on the errors a callee throws; a call that does not return is not caught.\<close>

fun asProtocolError :: "error \<Rightarrow> string \<Rightarrow> error" where
  "asProtocolError (ProtocolError s xs) context = ProtocolError s xs"
| "asProtocolError (PlainError s xs) context = ProtocolError (context @ '': '' @ s) xs"
| "asProtocolError (SessionError s xs) context = ProtocolError (context @ '': '' @ s) xs"
| "asProtocolError (TransportError s xs) context = ProtocolError (context @ '': '' @ s) xs"
| "asProtocolError RangeError context = ProtocolError (context @ '': '') []"
| "asProtocolError Diverges context = Diverges"

definition rethrow :: "'a result \<Rightarrow> string \<Rightarrow> 'a result" where
  "rethrow r context = (case r of Inl e \<Rightarrow> Inl (asProtocolError e context) | Inr x \<Rightarrow> Inr x)"

lemma rethrow_Inr [simp]: "rethrow (Inr x) context = Inr x"
  by (simp add: rethrow_def)

definition decodeThirdPartyHostedDescriptor :: "SegmentTable \<Rightarrow> StructRef \<Rightarrow> (int \<times> bytes) result" where
  "decodeThirdPartyHostedDescriptor table itemRef =
     bindE (pointerWordIndex itemRef 0) (\<lambda>loc.
     bindE (decodeStructPointer table loc) (\<lambda>nested.
     case nested of
       None \<Rightarrow> Inl (ProtocolError ''thirdPartyHosted descriptor pointer is null'' [])
     | Some nested \<Rightarrow>
         bindE (readU32InStruct table nested 0) (\<lambda>vineId.
         bindE (pointerWordIndex nested 0) (\<lambda>loc.
         bindE (decodeByteListPointer table loc) (\<lambda>contactList.
         case contactList of
           None \<Rightarrow> Inl (ProtocolError ''thirdPartyHosted contact pointer is null'' [])
         | Some contactList \<Rightarrow>
             (case segmentAt (segments table) (bl_segmentId contactList) of
                None \<Rightarrow> Inl undefinedRead
              | Some seg \<Rightarrow>
                  let start = bl_startWord contactList * 8
                  in Inr (vineId, subarray seg start (start + bl_elementCount contactList))))))))"

definition decodeCapDescriptor :: "SegmentTable \<Rightarrow> StructRef \<Rightarrow> int RpcCapDescriptor result" where
  "decodeCapDescriptor table itemRef =
     bindE (readU16InStruct table itemRef CAP_DESCRIPTOR_TAG_BYTE_OFFSET) (\<lambda>tag.
     bindE (readU32InStruct table itemRef CAP_DESCRIPTOR_ID_BYTE_OFFSET) (\<lambda>id'.
     if tag = CAP_DESCRIPTOR_TAG_THIRD_PARTY_HOSTED
     then bindE (decodeThirdPartyHostedDescriptor table itemRef) (\<lambda>(vineId, contact).
          Inr \<lparr>cd_tag = tag, cd_id = id', cd_vineId = Some vineId, cd_contact = Some contact\<rparr>)
     else Inr \<lparr>cd_tag = tag, cd_id = id', cd_vineId = None, cd_contact = None\<rparr>))"

text \<open>The struct of element \<open>i\<close> of a list.\<close>

definition listItem :: "StructListRef \<Rightarrow> int \<Rightarrow> StructRef" where
  "listItem lst i =
     (let stride = sl_dataWordCount lst + sl_pointerCount lst
      in \<lparr>sr_segmentId = sl_segmentId lst, sr_startWord = sl_elementsStartWord lst + i * stride,
          sr_dataWordCount = sl_dataWordCount lst, sr_pointerCount = sl_pointerCount lst\<rparr>)"

definition decodeCapTableFromPayload :: "SegmentTable \<Rightarrow> PointerLocation \<Rightarrow> int RpcCapDescriptor list result" where
  "decodeCapTableFromPayload table payloadPointerLoc =
     bindE (decodeStructListPointer table payloadPointerLoc) (\<lambda>capList.
     case capList of
       None \<Rightarrow> Inr []
     | Some capList \<Rightarrow>
         collectE (\<lambda>i. decodeCapDescriptor table (listItem capList i)) [0..sl_elementCount capList - 1])"

definition decodePromisedAnswerOp :: "SegmentTable \<Rightarrow> StructRef \<Rightarrow> int RpcPromisedAnswerOp result" where
  "decodePromisedAnswerOp table elemRef =
     bindE (readU16InStruct table elemRef PROMISED_ANSWER_OP_TAG_BYTE_OFFSET) (\<lambda>tag.
     if tag = RPC_PROMISED_ANSWER_OP_TAG_NOOP
     then Inr \<lparr>op_tag = RPC_PROMISED_ANSWER_OP_TAG_NOOP, op_pointerIndex = None\<rparr>
     else if tag = RPC_PROMISED_ANSWER_OP_TAG_GET_POINTER_FIELD
     then bindE (readU16InStruct table elemRef PROMISED_ANSWER_OP_GET_POINTER_FIELD_BYTE_OFFSET) (\<lambda>p.
          Inr \<lparr>op_tag = RPC_PROMISED_ANSWER_OP_TAG_GET_POINTER_FIELD, op_pointerIndex = Some p\<rparr>)
     else Inl (ProtocolError ''unsupported promisedAnswer op tag: {}'' [tag]))"

definition decodePromisedAnswerTransform :: "SegmentTable \<Rightarrow> PointerLocation \<Rightarrow> int RpcPromisedAnswerOp list result" where
  "decodePromisedAnswerTransform table loc =
     bindE (decodeStructListPointer table loc) (\<lambda>lst.
     case lst of
       None \<Rightarrow> Inr []
     | Some lst \<Rightarrow>
         collectE (\<lambda>i. decodePromisedAnswerOp table (listItem lst i)) [0..sl_elementCount lst - 1])"

definition decodeCallTarget :: "SegmentTable \<Rightarrow> StructRef \<Rightarrow> int RpcCallTarget result" where
  "decodeCallTarget table target =
     bindE (readU16InStruct table target MESSAGE_TARGET_TAG_BYTE_OFFSET) (\<lambda>targetTag.
     if targetTag = RPC_CALL_TARGET_TAG_IMPORTED_CAP
     then bindE (readU32InStruct table target MESSAGE_TARGET_IMPORTED_CAP_BYTE_OFFSET) (\<lambda>c. Inr (ImportedCap c))
     else if targetTag = RPC_CALL_TARGET_TAG_PROMISED_ANSWER
     then
       bindE (pointerWordIndex target MESSAGE_TARGET_PROMISED_ANSWER_POINTER_INDEX) (\<lambda>loc.
       bindE (decodeStructPointer table loc) (\<lambda>promisedRef.
       case promisedRef of
         None \<Rightarrow> Inl (ProtocolError ''call target promisedAnswer pointer is null'' [])
       | Some promisedRef \<Rightarrow>
           bindE (readU32InStruct table promisedRef PROMISED_ANSWER_QUESTION_ID_BYTE_OFFSET) (\<lambda>questionId.
           bindE (pointerWordIndex promisedRef PROMISED_ANSWER_TRANSFORM_POINTER_INDEX) (\<lambda>loc.
           bindE (decodePromisedAnswerTransform table loc) (\<lambda>transform.
           Inr (PromisedAnswer \<lparr>pa_questionId = questionId, pa_transform = Some transform\<rparr>))))))
     else Inl (ProtocolError ''unsupported call target tag: {}'' [targetTag]))"

definition decodeReturnFlags :: "SegmentTable \<Rightarrow> StructRef \<Rightarrow> ReturnFlags result" where
  "decodeReturnFlags table ret =
     bindE (readU32InStruct table ret RETURN_FLAGS_BYTE_OFFSET) (\<lambda>flags.
     Inr \<lparr>fl_releaseParamCaps = (flags AND RETURN_RELEASE_PARAM_CAPS_FLAG_MASK = 0),
          fl_noFinishNeeded = (flags AND RETURN_NO_FINISH_NEEDED_FLAG_MASK \<noteq> 0)\<rparr>)"

section \<open>Frames\<close>

definition rootLocation :: PointerLocation where
  "rootLocation = \<lparr>pl_segmentId = 0, pl_wordIndex = 0\<rparr>"

text \<open>A struct pointer that must not be null.\<close>

definition requireStruct :: "SegmentTable \<Rightarrow> PointerLocation \<Rightarrow> string \<Rightarrow> StructRef result" where
  "requireStruct table loc message =
     bindE (decodeStructPointer table loc) (\<lambda>ref.
       case ref of None \<Rightarrow> Inl (ProtocolError message []) | Some ref \<Rightarrow> Inr ref)"

text \<open>The message struct, once its union tag is the expected one, and the struct it points to.\<close>

definition messageVariant ::
  "SegmentTable \<Rightarrow> int \<Rightarrow> string \<Rightarrow> string \<Rightarrow> StructRef result" where
  "messageVariant table expected wrongTag nullVariant =
     bindE (requireStruct table rootLocation ''rpc message root pointer is null'') (\<lambda>root.
     bindE (readU16InStruct table root MESSAGE_UNION_TAG_BYTE_OFFSET) (\<lambda>tag.
     if tag \<noteq> expected then Inl (ProtocolError wrongTag [])
     else bindE (pointerWordIndex root MESSAGE_VARIANT_POINTER_INDEX) (\<lambda>loc.
          requireStruct table loc nullVariant)))"

definition decodeRpcMessageTag :: "bytes \<Rightarrow> int result" where
  "decodeRpcMessageTag frame =
     bindE (segmentsFromFrame frame) (\<lambda>table.
     bindE (requireStruct table rootLocation ''rpc message root pointer is null'') (\<lambda>root.
     readU16InStruct table root MESSAGE_UNION_TAG_BYTE_OFFSET))"

definition decodeBootstrapRequestFrame :: "bytes \<Rightarrow> int RpcBootstrapRequest result" where
  "decodeBootstrapRequestFrame frame =
     bindE (segmentsFromFrame frame) (\<lambda>table.
     bindE (messageVariant table RPC_MESSAGE_TAG_BOOTSTRAP
              ''rpc message is not bootstrap'' ''bootstrap payload pointer is null'') (\<lambda>bootstrap.
     bindE (readU32InStruct table bootstrap BOOTSTRAP_QUESTION_ID_BYTE_OFFSET) (\<lambda>questionId.
     Inr \<lparr>bq_questionId = questionId\<rparr>)))"

definition decodePayload ::
  "SegmentTable \<Rightarrow> MessageReader \<Rightarrow> PointerLocation \<Rightarrow> string \<Rightarrow> (bytes \<times> int RpcCapDescriptor list) result" where
  "decodePayload table r loc context =
     bindE (decodeStructPointer table loc) (\<lambda>payload.
     case payload of
       None \<Rightarrow> Inr (EMPTY_STRUCT_MESSAGE, [])
     | Some payload \<Rightarrow>
         bindE (pointerWordIndex payload PAYLOAD_CONTENT_POINTER_INDEX) (\<lambda>contentPointer.
         bindE (rethrow (decodeAnyPointerMessageFromReader r (pl_segmentId contentPointer)
                           (pl_wordIndex contentPointer)
                           \<lparr>ao_maxWork = None, ao_maxOutputWords = None, ao_maxDepth = None\<rparr>) context) (\<lambda>content.
         bindE (pointerWordIndex payload PAYLOAD_CAP_TABLE_POINTER_INDEX) (\<lambda>capPointer.
         bindE (decodeCapTableFromPayload table capPointer) (\<lambda>capTable.
         Inr (content, capTable))))))"

definition decodeCallRequestFrame :: "bytes \<Rightarrow> RpcCallRequest result" where
  "decodeCallRequestFrame frame =
     bindE (segmentsFromFrame frame) (\<lambda>table.
     bindE (newMessageReader frame) (\<lambda>runtimeReader.
     bindE (messageVariant table RPC_MESSAGE_TAG_CALL
              ''rpc message is not call'' ''call payload pointer is null'') (\<lambda>call.
     bindE (pointerWordIndex call CALL_TARGET_POINTER_INDEX) (\<lambda>loc.
     bindE (requireStruct table loc ''call target pointer is null'') (\<lambda>target.
     bindE (decodeCallTarget table target) (\<lambda>callTarget.
     bindE (pointerWordIndex call CALL_PARAMS_POINTER_INDEX) (\<lambda>loc.
     bindE (decodePayload table runtimeReader loc ''invalid call params content pointer'') (\<lambda>(content, capTable).
     bindE (readU32InStruct table call CALL_QUESTION_ID_BYTE_OFFSET) (\<lambda>questionId.
     bindE (readU64InStruct table call CALL_INTERFACE_ID_BYTE_OFFSET) (\<lambda>interfaceId.
     bindE (readU16InStruct table call CALL_METHOD_ID_BYTE_OFFSET) (\<lambda>methodId.
     Inr \<lparr>cr_questionId = questionId, cr_interfaceId = interfaceId, cr_methodId = methodId,
          cr_target = callTarget,
          cr_targetImportedCap = (case callTarget of ImportedCap c \<Rightarrow> Some c | PromisedAnswer _ \<Rightarrow> None),
          cr_paramsContent = content, cr_paramsCapTable = capTable\<rparr>)))))))))))"

definition decodeFinishFrame :: "bytes \<Rightarrow> int RpcFinishRequest result" where
  "decodeFinishFrame frame =
     bindE (segmentsFromFrame frame) (\<lambda>table.
     bindE (messageVariant table RPC_MESSAGE_TAG_FINISH
              ''rpc message is not finish'' ''finish payload pointer is null'') (\<lambda>finish.
     bindE (readU32InStruct table finish FINISH_FLAGS_BYTE_OFFSET) (\<lambda>flags.
     bindE (readU32InStruct table finish FINISH_QUESTION_ID_BYTE_OFFSET) (\<lambda>questionId.
     Inr \<lparr>fq_questionId = questionId,
          fq_releaseResultCaps = (flags AND FINISH_RELEASE_RESULT_CAPS_FLAG_MASK = 0),
          fq_requireEarlyCancellation =
            (flags AND FINISH_REQUIRE_EARLY_CANCELLATION_WORKAROUND_FLAG_MASK = 0)\<rparr>))))"

definition decodeReleaseFrame :: "bytes \<Rightarrow> int RpcReleaseRequest result" where
  "decodeReleaseFrame frame =
     bindE (segmentsFromFrame frame) (\<lambda>table.
     bindE (messageVariant table RPC_MESSAGE_TAG_RELEASE
              ''rpc message is not release'' ''release payload pointer is null'') (\<lambda>release.
     bindE (readU32InStruct table release RELEASE_ID_BYTE_OFFSET) (\<lambda>id'.
     bindE (readU32InStruct table release RELEASE_REFERENCE_COUNT_BYTE_OFFSET) (\<lambda>referenceCount.
     Inr \<lparr>rq_id = id', rq_referenceCount = referenceCount\<rparr>))))"

definition decodeReturnFrame :: "bytes \<Rightarrow> RpcReturnMessage result" where
  "decodeReturnFrame frame =
     bindE (segmentsFromFrame frame) (\<lambda>table.
     bindE (newMessageReader frame) (\<lambda>runtimeReader.
     bindE (messageVariant table RPC_MESSAGE_TAG_RETURN
              ''rpc message is not return'' ''return payload pointer is null'') (\<lambda>ret.
     bindE (readU32InStruct table ret RETURN_ANSWER_ID_BYTE_OFFSET) (\<lambda>answerId.
     bindE (readU16InStruct table ret RETURN_TAG_BYTE_OFFSET) (\<lambda>tag.
     bindE (decodeReturnFlags table ret) (\<lambda>returnFlags.
     if tag = 2 then Inr (ReturnCanceled answerId returnFlags)
     else if tag = RETURN_TAG_EXCEPTION then
       bindE (pointerWordIndex ret RETURN_VARIANT_POINTER_INDEX) (\<lambda>loc.
       bindE (requireStruct table loc ''return.exception payload pointer is null'') (\<lambda>ex.
       bindE (pointerWordIndex ex EXCEPTION_REASON_POINTER_INDEX) (\<lambda>loc.
       bindE (readTextFromPointer table loc) (\<lambda>reason.
       Inr (ReturnException answerId (orElse reason []) returnFlags)))))
     else if tag = RETURN_TAG_RESULTS then
       bindE (pointerWordIndex ret RETURN_VARIANT_POINTER_INDEX) (\<lambda>loc.
       bindE (decodePayload table runtimeReader loc ''invalid return results content pointer'') (\<lambda>(content, capTable).
       Inr (ReturnResults answerId content capTable returnFlags)))
     else Inl (ProtocolError ''unsupported return tag: {}'' [tag])))))))"

end
