(* ===== verification/Word_Frame.thy ===== *)
theory Word_Frame
  imports Wire_Encode Wire_Decode
begin

unbundle bit_operations_syntax

text \<open>
  Frames of one segment, as the encoders make them: the builder and the decoders computed on the
  list of words of the segment. Positions are the integers the code computes with.
\<close>

section \<open>Fields\<close>

lemma field_put_same:
  assumes "off + n \<le> 8" "0 \<le> v" "v < 2 ^ (8 * n)"
  shows "uint (getField n off (putField n off (word_of_int v) w)) = v"
proof -
  have "uint (take_bit (8 * n) (word_of_int v :: 64 word)) = take_bit (8 * n) (v mod 2 ^ 64)"
    unfolding unsigned_take_bit_eq by (simp add: uint_word_of_int)
  also have "\<dots> = v mod 2 ^ 64" using assms(2,3)
  proof -
    have "(2::int) ^ (8 * n) \<le> 2 ^ 64" using assms(1) by (intro power_increasing) simp_all
    then have "v mod 2 ^ 64 = v" using assms(2,3) by (simp add: mod_pos_pos_trivial)
    then show ?thesis using assms(2,3) by (simp add: take_bit_int_eq_self_iff)
  qed
  also have "\<dots> = v"
  proof -
    have "(2::int) ^ (8 * n) \<le> 2 ^ 64" using assms(1) by (intro power_increasing) simp_all
    then show ?thesis using assms(2,3) by (simp add: mod_pos_pos_trivial)
  qed
  finally show ?thesis by (simp only: getField_putField_same [OF assms(1)])
qed

lemma field_put_other:
  "off + n \<le> off' \<or> off' + m \<le> off \<Longrightarrow> off' + m \<le> 8 \<Longrightarrow>
    uint (getField m off' (putField n off v w)) = uint (getField m off' w)"
  by (simp add: getField_putField_other)

section \<open>Writing\<close>

lemma rb_alloc: "0 \<le> n \<Longrightarrow> rbAllocWords (rb ws) (jint n) = Inr (int (length ws), rb (ws @ replicate (nat n) 0))"
  using rbAllocWords_rb [of ws "nat n"] by simp

lemma rb_u16:
  assumes "0 \<le> i" "i < int (length ws)" "0 \<le> off" "off + 2 \<le> 8" "0 \<le> v" "v < 2 ^ 16"
  shows "rbWriteU16 (rb ws) i off v = Inr (rb (ws[nat i := putField 2 (nat off) (word_of_int v) (ws ! nat i)]))"
proof -
  have "v mod 2 ^ 16 = v" using assms by (simp add: mod_pos_pos_trivial)
  then show ?thesis using rbWriteU16_rb [of "nat i" ws "nat off" v] assms by simp
qed

lemma rb_u32:
  assumes "0 \<le> i" "i < int (length ws)" "0 \<le> off" "off + 4 \<le> 8" "0 \<le> v" "v < 2 ^ 32"
  shows "rbWriteU32 (rb ws) i off v = Inr (rb (ws[nat i := putField 4 (nat off) (word_of_int v) (ws ! nat i)]))"
proof -
  have "v mod 2 ^ 32 = v" using assms by (simp add: mod_pos_pos_trivial)
  then show ?thesis using rbWriteU32_rb [of "nat i" ws "nat off" v] assms by simp
qed

lemma rb_u64: "0 \<le> i \<Longrightarrow> i < int (length ws) \<Longrightarrow> rbWriteU64 (rb ws) i 0 v = Inr (rb (ws[nat i := v]))"
  using rbWriteU64_rb [of "nat i" ws v] by simp

lemma rb_word: "0 \<le> i \<Longrightarrow> i < int (length ws) \<Longrightarrow> rbWriteWord (rb ws) i v = Inr (rb (ws[nat i := v]))"
  using rbWriteWord_rb [of "nat i" ws v] by simp

lemma rb_struct:
  assumes "0 \<le> i" "i < int (length ws)" "inOffsetRange (t - (i + 1))" "0 \<le> d" "d < 2 ^ 16" "0 \<le> p" "p < 2 ^ 16"
  shows "rbSetStructPointer (rb ws) i t d p = Inr (rb (ws[nat i := structPtr (t - (i + 1)) d p]))"
  using rbSetStructPointer_rb [of "nat i" ws t d p] assms by simp

lemma rb_list:
  assumes "0 \<le> i" "i < int (length ws)" "inOffsetRange (t - (i + 1))" "0 \<le> sz" "sz < 8" "0 \<le> n" "n < 2 ^ 29"
  shows "rbSetListPointer (rb ws) i t sz n = Inr (rb (ws[nat i := listPtr (t - (i + 1)) sz n]))"
  using rbSetListPointer_rb [of "nat i" ws t sz n] assms by simp

lemmas rb_writes = rb_alloc rb_u16 rb_u32 rb_u64 rb_word rb_struct rb_list

section \<open>Reading\<close>

definition wordTable :: "64 word list \<Rightarrow> SegmentTable" where
  "wordTable ws = \<lparr>segments = [bytesOf ws]\<rparr>"

definition loc0 :: "int \<Rightarrow> PointerLocation" where
  "loc0 i = \<lparr>pl_segmentId = 0, pl_wordIndex = i\<rparr>"

definition struct0 :: "int \<Rightarrow> int \<Rightarrow> int \<Rightarrow> StructRef" where
  "struct0 s d p = \<lparr>sr_segmentId = 0, sr_startWord = s, sr_dataWordCount = d, sr_pointerCount = p\<rparr>"

lemma rootLocation_loc0: "rootLocation = loc0 0"
  by (simp add: rootLocation_def loc0_def)

lemma segmentAt_wordTable [simp]: "segmentAt (segments (wordTable ws)) 0 = Some (bytesOf ws)"
  by (simp add: wordTable_def segmentAt_def)

lemma segmentsFromFrame_words:
  "length ws < 2 ^ 32 \<Longrightarrow> segmentsFromFrame (frameOf [bytesOf ws]) = Inr (wordTable ws)"
  by (simp add: segmentsFromFrame_bytesOf wordTable_def)

lemma newMessageReader_words:
  "length ws < 2 ^ 32 \<Longrightarrow> newMessageReader (frameOf [bytesOf ws]) = Inr (readerOf ws)"
  by (simp add: newMessageReader_bytesOf readerOf_def)

lemma readWord_words:
  "0 \<le> i \<Longrightarrow> i < int (length ws) \<Longrightarrow> readWordFromTable (wordTable ws) 0 i ctx = Inr (ws ! nat i)"
  by (simp add: readWordFromTable_Inr wordTable_def wordAt_bytesOf)

lemma resolvePointer_words:
  assumes "0 \<le> i" "i < int (length ws)" "pointerKind (ws ! nat i) \<noteq> 2"
  shows "resolvePointer (wordTable ws) 0 i =
    Inr \<lparr>rp_segmentId = 0, rp_pointerWord = i, rp_word = ws ! nat i\<rparr>"
  using assms by (simp add: resolvePointer_def readWord_words FAR_POINTER_HOP_LIMIT_def numeral_eq_Suc)

lemma struct_at:
  assumes "0 \<le> i" "i < int (length ws)" "ws ! nat i = structPtr off d p" "inOffsetRange off"
    "0 \<le> d" "d < 2 ^ 16" "0 \<le> p" "p < 2 ^ 16" "0 < d \<or> 0 < p" "0 \<le> i + 1 + off" "i + 1 + off + d + p \<le> int (length ws)"
  shows "decodeStructPointer (wordTable ws) (loc0 i) = Inr (Some (struct0 (i + 1 + off) d p))"
proof -
  note f = structPtr_fields [OF assms(4-8)]
  have "structPtr off d p \<noteq> 0"
  proof
    assume "structPtr off d p = 0"
    then have "d = structDataWords 0" "p = structPointerCount 0" using f by simp_all
    then show False using assms(9) by (simp add: structDataWords_def structPointerCount_def)
  qed
  then show ?thesis using assms f resolvePointer_words [of i ws]
    by (simp add: decodeStructPointer_def loc0_def struct0_def Let_def)
qed

lemma null_struct_at:
  "0 \<le> i \<Longrightarrow> i < int (length ws) \<Longrightarrow> ws ! nat i = 0 \<Longrightarrow> decodeStructPointer (wordTable ws) (loc0 i) = Inr None"
  using resolvePointer_words [of i ws] by (simp add: decodeStructPointer_def loc0_def pointerKind_zero)

lemma word_end: "i < n \<Longrightarrow> 8 * (int i + 1) \<le> 8 * int n"
  by simp

lemma field_at:
  assumes "0 \<le> s" "0 \<le> off" "off + int n \<le> d * 8" "nat (off mod 8) + n \<le> 8" "s + off div 8 < int (length ws)" "0 < n"
  shows "ensureRange (bytesOf ws) (s * 8 + off) (int n) ctx = Inr ()"
    "getLE n (bytesOf ws) (s * 8 + off) = Inr (unat (getField n (nat (off mod 8)) (ws ! nat (s + off div 8))))"
proof -
  let ?i = "nat (s + off div 8)" and ?o = "nat (off mod 8)"
  have e: "s * 8 + off = 8 * int ?i + int ?o"
    using assms by (simp add: algebra_simps)
  have i: "?i < length ws" using assms by (simp add: nat_less_iff)
  show "getLE n (bytesOf ws) (s * 8 + off) = Inr (unat (getField n ?o (ws ! ?i)))"
    using getLE_bytesOf [OF i assms(4), of "[]"] by (simp only: e append_Nil2)
  have "s * 8 + off + int n \<le> int (length (bytesOf ws))" 
  proof -
    have "8 * (int ?i + 1) \<le> 8 * int (length ws)" using i by (rule word_end)
    moreover have "int ?o + int n \<le> 8" using assms(4) by linarith
    ultimately show ?thesis unfolding e length_bytesOf by simp
  qed
  then show "ensureRange (bytesOf ws) (s * 8 + off) (int n) ctx = Inr ()"
    using assms by (simp add: ensureRange_def)
qed

lemma u16_at:
  assumes "0 \<le> s" "0 \<le> off" "off + 2 \<le> d * 8" "off mod 8 + 2 \<le> 8" "s + off div 8 < int (length ws)"
  shows "readU16InStruct (wordTable ws) (struct0 s d p) off =
    Inr (uint (getField 2 (nat (off mod 8)) (ws ! nat (s + off div 8))))"
  using assms field_at [of s off 2 d ws] nat_le_iff
  by (simp add: readU16InStruct_def readFieldInStruct_def struct0_def getUint16_def)

lemma u32_at:
  assumes "0 \<le> s" "0 \<le> off" "off + 4 \<le> d * 8" "off mod 8 + 4 \<le> 8" "s + off div 8 < int (length ws)"
  shows "readU32InStruct (wordTable ws) (struct0 s d p) off =
    Inr (uint (getField 4 (nat (off mod 8)) (ws ! nat (s + off div 8))))"
  using assms field_at [of s off 4 d ws]
  by (simp add: readU32InStruct_def readFieldInStruct_def struct0_def getUint32_def)

lemma u64_at:
  assumes "0 \<le> s" "0 \<le> off" "off + 8 \<le> d * 8" "off mod 8 = 0" "s + off div 8 < int (length ws)"
  shows "readU64InStruct (wordTable ws) (struct0 s d p) off = Inr (ws ! nat (s + off div 8))"
  using assms field_at [of s off 8 d ws]
  by (simp add: readU64InStruct_def readFieldInStruct_def struct0_def getBigUint64_def getField_full)

lemma slot_at: "0 \<le> k \<Longrightarrow> k < p \<Longrightarrow> pointerWordIndex (struct0 s d p) k = Inr (loc0 (s + d + k))"
  by (simp add: pointerWordIndex_def struct0_def loc0_def)

section \<open>Lists\<close>

lemma listPtr_at:
  assumes "0 \<le> i" "i < int (length ws)" "ws ! nat i = listPtr off sz n" "inOffsetRange off"
    "0 \<le> sz" "sz < 8" "0 \<le> n" "n < 2 ^ 29"
  shows "resolvePointer (wordTable ws) 0 i =
    Inr \<lparr>rp_segmentId = 0, rp_pointerWord = i, rp_word = listPtr off sz n\<rparr>"
  using resolvePointer_words [of i ws] listPtr_copied_fields [OF assms(4-8)] assms(1-3) by simp

lemma bytes_at:
  assumes "0 \<le> i" "i < int (length ws)" "ws ! nat i = listPtr off 2 n" "inOffsetRange off"
    "0 \<le> n" "n < 2 ^ 29" "0 \<le> i + 1 + off" "i + 1 + off + ceilDiv n 8 \<le> int (length ws)"
  shows "decodeByteListPointer (wordTable ws) (loc0 i) =
    Inr (Some \<lparr>bl_segmentId = 0, bl_startWord = i + 1 + off, bl_elementCount = n\<rparr>)"
proof -
  note f = listPtr_copied_fields [OF assms(4) _ _ assms(5,6), of 2]
  have "listPtr off 2 n \<noteq> 0" using f(1) by auto
  then show ?thesis using assms f listPtr_at [OF assms(1-4) _ _ assms(5,6)]
    by (simp add: decodeByteListPointer_def loc0_def Let_def)
qed

lemma composites_at:
  assumes "0 \<le> i" "i < int (length ws)" "ws ! nat i = listPtr off 7 n" "inOffsetRange off"
    "0 \<le> n" "n < 2 ^ 29" "0 \<le> i + 1 + off" "i + 1 + off < int (length ws)"
    "ws ! nat (i + 1 + off) = tag" "pointerKind tag = 0"
  shows "decodeStructListPointer (wordTable ws) (loc0 i) =
    Inr (Some \<lparr>sl_segmentId = 0, sl_elementsStartWord = i + 2 + off, sl_elementCount = tagElementCount tag,
               sl_dataWordCount = structDataWords tag, sl_pointerCount = structPointerCount tag\<rparr>)"
proof -
  note f = listPtr_copied_fields [OF assms(4) _ _ assms(5,6), of 7]
  have "listPtr off 7 n \<noteq> 0" using f(1) by auto
  then show ?thesis using assms f listPtr_at [OF assms(1-4) _ _ assms(5,6)] readWord_words [of "i + 1 + off" ws]
    by (simp add: decodeStructListPointer_def loc0_def Let_def)
qed

lemma null_composites_at:
  "0 \<le> i \<Longrightarrow> i < int (length ws) \<Longrightarrow> ws ! nat i = 0 \<Longrightarrow> decodeStructListPointer (wordTable ws) (loc0 i) = Inr None"
  using resolvePointer_words [of i ws] by (simp add: decodeStructListPointer_def loc0_def pointerKind_zero)

end
