(* ===== verification/Wire_Router.thy ===== *)
theory Wire_Router
  imports Wire_Decode
begin

text \<open>
  \<open>src/rpc/wire/router.ts\<close>: the union of decoded messages, its dispatch to handlers, and the
  capability a bootstrap return carries. The result of a dispatch is \<open>None\<close> for \<open>undefined\<close>.
\<close>

abbreviation (input) "RPC_MESSAGE_TAG_RESOLVE \<equiv> 5 :: int"
abbreviation (input) "RPC_MESSAGE_TAG_DISEMBARGO \<equiv> 13 :: int"
abbreviation (input) "CAP_DESCRIPTOR_TAG_RECEIVER_HOSTED \<equiv> 3 :: int"

datatype RpcMessage =
    BootstrapMessage "int RpcBootstrapRequest"
  | CallMessage RpcCallRequest
  | ReturnMessage RpcReturnMessage
  | FinishMessage "int RpcFinishRequest"
  | ReleaseMessage "int RpcReleaseRequest"
  | ResolveMessage bytes
  | DisembargoMessage bytes

record 'r RpcMessageHandlers =
  on_bootstrap :: "int RpcBootstrapRequest \<Rightarrow> 'r"
  on_call :: "RpcCallRequest \<Rightarrow> 'r"
  on_return :: "RpcReturnMessage \<Rightarrow> 'r"
  on_finish :: "int RpcFinishRequest \<Rightarrow> 'r"
  on_release :: "int RpcReleaseRequest \<Rightarrow> 'r"
  on_resolve :: "(bytes \<Rightarrow> 'r) option"
  on_disembargo :: "(bytes \<Rightarrow> 'r) option"

definition decodeRpcMessage :: "bytes \<Rightarrow> RpcMessage result" where
  "decodeRpcMessage frame =
     bindE (decodeRpcMessageTag frame) (\<lambda>numericTag.
     if numericTag = RPC_MESSAGE_TAG_BOOTSTRAP
     then bindE (decodeBootstrapRequestFrame frame) (\<lambda>d. Inr (BootstrapMessage d))
     else if numericTag = RPC_MESSAGE_TAG_CALL
     then bindE (decodeCallRequestFrame frame) (\<lambda>d. Inr (CallMessage d))
     else if numericTag = RPC_MESSAGE_TAG_RETURN
     then bindE (decodeReturnFrame frame) (\<lambda>d. Inr (ReturnMessage d))
     else if numericTag = RPC_MESSAGE_TAG_FINISH
     then bindE (decodeFinishFrame frame) (\<lambda>d. Inr (FinishMessage d))
     else if numericTag = RPC_MESSAGE_TAG_RELEASE
     then bindE (decodeReleaseFrame frame) (\<lambda>d. Inr (ReleaseMessage d))
     else if numericTag = RPC_MESSAGE_TAG_RESOLVE then Inr (ResolveMessage frame)
     else if numericTag = RPC_MESSAGE_TAG_DISEMBARGO then Inr (DisembargoMessage frame)
     else Inl (ProtocolError ''unknown rpc message tag: {}'' [numericTag]))"

fun dispatchRpcMessage :: "RpcMessage \<Rightarrow> 'r RpcMessageHandlers \<Rightarrow> 'r option" where
  "dispatchRpcMessage (BootstrapMessage d) handlers = Some (on_bootstrap handlers d)"
| "dispatchRpcMessage (CallMessage d) handlers = Some (on_call handlers d)"
| "dispatchRpcMessage (ReturnMessage d) handlers = Some (on_return handlers d)"
| "dispatchRpcMessage (FinishMessage d) handlers = Some (on_finish handlers d)"
| "dispatchRpcMessage (ReleaseMessage d) handlers = Some (on_release handlers d)"
| "dispatchRpcMessage (ResolveMessage d) handlers = map_option (\<lambda>h. h d) (on_resolve handlers)"
| "dispatchRpcMessage (DisembargoMessage d) handlers = map_option (\<lambda>h. h d) (on_disembargo handlers)"

text \<open>The reason of a failed return stands in the error as its code units.\<close>

definition bootstrapFailed :: "js_string \<Rightarrow> error" where
  "bootstrapFailed reason = ProtocolError ''bootstrap failed: {reason}'' (map int reason)"

definition canceledReason :: js_string where
  "canceledReason = map of_char ''rpc call canceled''"

definition hostedCap :: "int RpcCapDescriptor \<Rightarrow> bool" where
  "hostedCap item \<longleftrightarrow>
     cd_tag item = CAP_DESCRIPTOR_TAG_SENDER_HOSTED \<or> cd_tag item = CAP_DESCRIPTOR_TAG_RECEIVER_HOSTED"

fun extractBootstrapCapabilityIndex :: "RpcReturnMessage \<Rightarrow> int result" where
  "extractBootstrapCapabilityIndex (ReturnException _ reason _) = Inl (bootstrapFailed reason)"
| "extractBootstrapCapabilityIndex (ReturnCanceled _ _) = Inl (bootstrapFailed canceledReason)"
| "extractBootstrapCapabilityIndex (ReturnResults _ _ capTable _) =
     (case find hostedCap capTable of
        None \<Rightarrow> Inl (ProtocolError ''bootstrap result did not include a hosted capability'' [])
      | Some cap \<Rightarrow> Inr (cd_id cap))"

section \<open>Tags\<close>

text \<open>Each decoder checks the union tag that the router looks at.\<close>

lemma messageVariant_tag:
  assumes "messageVariant table tag wrong null = Inr s" "segmentsFromFrame frame = Inr table"
  shows "decodeRpcMessageTag frame = Inr tag"
  using assms by (auto simp: messageVariant_def decodeRpcMessageTag_def bindE_eq_Inr split: if_splits)

lemma decoder_tags:
  "decodeBootstrapRequestFrame frame = Inr b \<Longrightarrow> decodeRpcMessageTag frame = Inr 8"
  "decodeCallRequestFrame frame = Inr c \<Longrightarrow> decodeRpcMessageTag frame = Inr 2"
  "decodeReturnFrame frame = Inr r \<Longrightarrow> decodeRpcMessageTag frame = Inr 3"
  "decodeFinishFrame frame = Inr f \<Longrightarrow> decodeRpcMessageTag frame = Inr 4"
  "decodeReleaseFrame frame = Inr l \<Longrightarrow> decodeRpcMessageTag frame = Inr 6"
  unfolding decodeBootstrapRequestFrame_def decodeCallRequestFrame_def decodeReturnFrame_def
    decodeFinishFrame_def decodeReleaseFrame_def
  by (auto simp only: bindE_eq_Inr intro: messageVariant_tag)

lemma routed:
  "decodeBootstrapRequestFrame frame = Inr b \<Longrightarrow> decodeRpcMessage frame = Inr (BootstrapMessage b)"
  "decodeCallRequestFrame frame = Inr c \<Longrightarrow> decodeRpcMessage frame = Inr (CallMessage c)"
  "decodeReturnFrame frame = Inr r \<Longrightarrow> decodeRpcMessage frame = Inr (ReturnMessage r)"
  "decodeFinishFrame frame = Inr f \<Longrightarrow> decodeRpcMessage frame = Inr (FinishMessage f)"
  "decodeReleaseFrame frame = Inr l \<Longrightarrow> decodeRpcMessage frame = Inr (ReleaseMessage l)"
  by (simp_all add: decodeRpcMessage_def decoder_tags)

end
