(* ===== verification/Wire_Roundtrip.thy ===== *)
theory Wire_Roundtrip
  imports Word_Frame Wire_Router
begin

unbundle bit_operations_syntax

text \<open>
  What the encoders write, word by word, and what the decoders read back. An encoder's frame is
  \<open>frameOf [bytesOf ws]\<close> for an explicit list \<open>ws\<close>, on which the decoders compute.
\<close>

named_theorems building "the builder computed on words"

lemmas [building] = newRpcWireMessageBuilder_rb pointerSlot_def inOffsetRange_def

lemma list_numeral [building]:
  "replicate (numeral k) x = x # replicate (pred_numeral k) x"
  "(x # xs)[numeral k := y] = x # xs[pred_numeral k := y]"
  by (simp_all add: numeral_eq_Suc)

section \<open>Bootstrap, finish and release\<close>

definition bootstrapWords :: "int \<Rightarrow> 64 word list" where
  "bootstrapWords q = [structPtr 0 1 1, putField 2 0 8 0, structPtr 0 1 1, putField 4 0 (word_of_int q) 0, 0]"

lemma encodeBootstrap_words:
  "0 \<le> q \<Longrightarrow> q < 2 ^ 32 \<Longrightarrow>
    encodeBootstrapRequestFrame \<lparr>bq_questionId = jint q\<rparr> = Inr (frameOf [bytesOf (bootstrapWords q)])"
  by (simp add: encodeBootstrapRequestFrame_def building rb_writes bootstrapWords_def rbToMessageBytes_rb Let_def)

lemma rootStruct_words:
  assumes "ws ! 0 = structPtr 0 1 1" "3 \<le> length ws"
  shows "requireStruct (wordTable ws) rootLocation ctx = Inr (struct0 1 1 1)"
proof -
  have "ws \<noteq> []" using assms(2) by auto
  then show ?thesis using assms struct_at [of 0 ws 0 1 1]
    by (simp add: requireStruct_def rootLocation_loc0 inOffsetRange_def)
qed

text \<open>A frame whose root is the message struct at word 1, with its variant after it.\<close>

lemma messageVariant_words:
  assumes "ws ! 0 = structPtr 0 1 1" "ws ! 1 = putField 2 0 (word_of_int tag) 0" "ws ! 2 = structPtr 0 d p"
    "0 \<le> d" "d < 2 ^ 16" "0 \<le> p" "p < 2 ^ 16" "0 < d \<or> 0 < p" "3 + d + p \<le> int (length ws)" "0 \<le> tag" "tag < 2 ^ 16"
  shows "messageVariant (wordTable ws) tag wrong null = Inr (struct0 3 d p)"
proof -
  have "requireStruct (wordTable ws) rootLocation ctx = Inr (struct0 1 1 1)" for ctx
    by (rule rootStruct_words) (use assms in auto)
  moreover have "requireStruct (wordTable ws) (loc0 2) ctx = Inr (struct0 3 d p)" for ctx
    using assms struct_at [of 2 ws 0 d p] by (simp add: requireStruct_def inOffsetRange_def)
  moreover have "readU16InStruct (wordTable ws) (struct0 1 1 1) 0 = Inr tag"
    using assms u16_at [of 1 0 1 ws 1] field_put_same [of 0 2 tag 0] by simp
  ultimately show ?thesis by (simp add: messageVariant_def slot_at)
qed

lemma decodeTag_words:
  assumes "ws ! 0 = structPtr 0 1 1" "ws ! 1 = putField 2 0 (word_of_int tag) 0"
    "3 \<le> length ws" "0 \<le> tag" "tag < 2 ^ 16" "length ws < 2 ^ 32"
  shows "decodeRpcMessageTag (frameOf [bytesOf ws]) = Inr tag"
proof -
  have "requireStruct (wordTable ws) rootLocation ctx = Inr (struct0 1 1 1)" for ctx
    by (rule rootStruct_words) (use assms in auto)
  moreover have "readU16InStruct (wordTable ws) (struct0 1 1 1) 0 = Inr tag"
    using assms u16_at [of 1 0 1 ws 1] field_put_same [of 0 2 tag 0] by simp
  ultimately show ?thesis using assms by (simp add: decodeRpcMessageTag_def segmentsFromFrame_words)
qed

lemma decodeBootstrap_words:
  assumes "0 \<le> q" "q < 2 ^ 32"
  shows "decodeBootstrapRequestFrame (frameOf [bytesOf (bootstrapWords q)]) = Inr \<lparr>bq_questionId = q\<rparr>"
proof -
  let ?ws = "bootstrapWords q"
  have "messageVariant (wordTable ?ws) 8 w n = Inr (struct0 3 1 1)" for w n
    by (rule messageVariant_words) (simp_all add: bootstrapWords_def)
  moreover have "readU32InStruct (wordTable ?ws) (struct0 3 1 1) 0 = Inr q"
    using assms u32_at [of 3 0 1 ?ws 1] field_put_same [of 0 4 q 0] by (simp add: bootstrapWords_def)
  moreover have "length ?ws < 2 ^ 32" by (simp add: bootstrapWords_def)
  ultimately show ?thesis by (simp add: decodeBootstrapRequestFrame_def segmentsFromFrame_words)
qed

definition finishFlags :: "bool \<Rightarrow> bool \<Rightarrow> int" where
  "finishFlags releaseCaps early = (if releaseCaps then 0 else 1) + (if early then 0 else 2)"

definition finishWords :: "int \<Rightarrow> int \<Rightarrow> 64 word list" where
  "finishWords q flags = [structPtr 0 1 1, putField 2 0 4 0, structPtr 0 1 0,
     putField 4 4 (word_of_int flags) (putField 4 0 (word_of_int q) 0)]"

lemma finishFlags_bits:
  "finishFlags r e AND 1 = 0 \<longleftrightarrow> r" "finishFlags r e AND 2 = 0 \<longleftrightarrow> e"
  "0 \<le> finishFlags r e" "finishFlags r e < 4"
  by (cases r; cases e; simp add: finishFlags_def)+

lemma encodeFinish_words:
  assumes "0 \<le> q" "q < 2 ^ 32"
  shows "encodeFinishFrame \<lparr>ff_questionId = jint q, ff_releaseResultCaps = r, ff_requireEarlyCancellation = e\<rparr> =
    Inr (frameOf [bytesOf (finishWords q (finishFlags (orElse r True) (orElse e False)))])"
  using assms by (cases "orElse r True"; cases "orElse e False";
    simp add: encodeFinishFrame_def building rb_writes finishWords_def finishFlags_def rbToMessageBytes_rb Let_def)

lemma decodeFinish_words:
  assumes "0 \<le> q" "q < 2 ^ 32"
  shows "decodeFinishFrame (frameOf [bytesOf (finishWords q (finishFlags r e))]) =
    Inr \<lparr>fq_questionId = q, fq_releaseResultCaps = r, fq_requireEarlyCancellation = e\<rparr>"
proof -
  let ?f = "finishFlags r e"
  let ?ws = "finishWords q ?f"
  have "messageVariant (wordTable ?ws) 4 w n = Inr (struct0 3 1 0)" for w n
    by (rule messageVariant_words) (simp_all add: finishWords_def)
  moreover have "readU32InStruct (wordTable ?ws) (struct0 3 1 0) 0 = Inr q"
    using assms u32_at [of 3 0 1 ?ws 0] field_put_same [of 0 4 q 0] by (simp add: finishWords_def field_put_other)
  moreover have "readU32InStruct (wordTable ?ws) (struct0 3 1 0) 4 = Inr ?f"
    using u32_at [of 3 4 1 ?ws 0] field_put_same [of 4 4 ?f] finishFlags_bits(3,4) [of r e] by (simp add: finishWords_def)
  moreover have "length ?ws < 2 ^ 32" by (simp add: finishWords_def)
  ultimately show ?thesis by (simp add: decodeFinishFrame_def segmentsFromFrame_words finishFlags_bits)
qed

definition releaseWords :: "int \<Rightarrow> int \<Rightarrow> 64 word list" where
  "releaseWords i n = [structPtr 0 1 1, putField 2 0 6 0, structPtr 0 1 0,
     putField 4 4 (word_of_int n) (putField 4 0 (word_of_int i) 0)]"

lemma encodeRelease_words:
  assumes "0 \<le> i" "i < 2 ^ 32" "0 \<le> n" "n < 2 ^ 32"
  shows "encodeReleaseFrame \<lparr>rq_id = jint i, rq_referenceCount = jint n\<rparr> = Inr (frameOf [bytesOf (releaseWords i n)])"
  using assms by (simp add: encodeReleaseFrame_def building rb_writes releaseWords_def rbToMessageBytes_rb Let_def)

lemma decodeRelease_words:
  assumes "0 \<le> i" "i < 2 ^ 32" "0 \<le> n" "n < 2 ^ 32"
  shows "decodeReleaseFrame (frameOf [bytesOf (releaseWords i n)]) = Inr \<lparr>rq_id = i, rq_referenceCount = n\<rparr>"
proof -
  let ?ws = "releaseWords i n"
  have "messageVariant (wordTable ?ws) 6 w u = Inr (struct0 3 1 0)" for w u
    by (rule messageVariant_words) (simp_all add: releaseWords_def)
  moreover have "readU32InStruct (wordTable ?ws) (struct0 3 1 0) 0 = Inr i"
    using assms u32_at [of 3 0 1 ?ws 0] field_put_same [of 0 4 i 0] by (simp add: releaseWords_def field_put_other)
  moreover have "readU32InStruct (wordTable ?ws) (struct0 3 1 0) 4 = Inr n"
    using assms u32_at [of 3 4 1 ?ws 0] field_put_same [of 4 4 n] by (simp add: releaseWords_def)
  moreover have "length ?ws < 2 ^ 32" by (simp add: releaseWords_def)
  ultimately show ?thesis by (simp add: decodeReleaseFrame_def segmentsFromFrame_words)
qed

section \<open>A return with an exception\<close>

definition returnFlags :: "bool \<Rightarrow> bool \<Rightarrow> int" where
  "returnFlags releaseParamCaps noFinishNeeded =
     (if releaseParamCaps then 0 else 1) + (if noFinishNeeded then 2 else 0)"

definition returnWord :: "int \<Rightarrow> int \<Rightarrow> int \<Rightarrow> 64 word" where
  "returnWord a flags tag =
     putField 2 6 (word_of_int tag) (putField 4 4 (word_of_int flags) (putField 4 0 (word_of_int a) 0))"

lemma encodeReturnFlags_rb:
  assumes "0 \<le> i" "i < int (length ws)"
  shows "encodeReturnFlags (rb ws) i r f =
    Inr (rb (ws[nat i := putField 4 4 (word_of_int (returnFlags r f)) (ws ! nat i)]))"
  using assms by (cases r; cases f; simp add: encodeReturnFlags_def returnFlags_def rb_u32 Let_def)

text \<open>The flags share their word with the union tag, which stands above their two bits.\<close>

lemma flags_below_tag:
  "k < 16 \<Longrightarrow> bit (uint (getField 4 4 (returnWord a flags tag))) k \<longleftrightarrow> bit (word_of_int flags :: 64 word) k"
  by (auto simp: getField_def returnWord_def bit_simps bit_putField unsigned_take_bit_eq unsigned_drop_bit_eq)

lemma mask_as_bit: "(x::int) AND 1 = 0 \<longleftrightarrow> \<not> bit x 0" "x AND 2 = 0 \<longleftrightarrow> \<not> bit x 1"
  using bit_iff_and_push_bit_not_eq_0 [of x 0] bit_iff_and_push_bit_not_eq_0 [of x 1] by simp_all

lemma decodeReturnFlags_words:
  assumes "0 \<le> s" "s + 1 < int (length ws)" "ws ! nat s = returnWord a (returnFlags r f) tag"
  shows "decodeReturnFlags (wordTable ws) (struct0 s 2 p) = Inr \<lparr>fl_releaseParamCaps = r, fl_noFinishNeeded = f\<rparr>"
proof -
  have "readU32InStruct (wordTable ws) (struct0 s 2 p) 4 = Inr (uint (getField 4 4 (returnWord a (returnFlags r f) tag)))"
    using assms u32_at [of s 4 2 ws p] by simp
  moreover have "bit (word_of_int (returnFlags r f) :: 64 word) 0 \<longleftrightarrow> \<not> r"
    "bit (word_of_int (returnFlags r f) :: 64 word) 1 \<longleftrightarrow> f"
    by (cases r; cases f; simp add: returnFlags_def)+
  ultimately show ?thesis by (simp add: decodeReturnFlags_def mask_as_bit flags_below_tag)
qed

lemma returnWord_fields:
  assumes "0 \<le> a" "a < 2 ^ 32" "0 \<le> tag" "tag < 2 ^ 16"
  shows "uint (getField 4 0 (returnWord a flags tag)) = a" "uint (getField 2 6 (returnWord a flags tag)) = tag"
  using assms field_put_same [of 0 4 a] field_put_same [of 6 2 tag] by (simp_all add: returnWord_def field_put_other)

definition returnPrefix :: "int \<Rightarrow> int \<Rightarrow> int \<Rightarrow> 64 word list" where
  "returnPrefix a flags tag = [structPtr 0 1 1, putField 2 0 3 0, structPtr 0 2 1, returnWord a flags tag, 0]"

definition exceptionWords :: "int \<Rightarrow> int \<Rightarrow> bytes \<Rightarrow> 64 word list" where
  "exceptionWords a flags reason =
     returnPrefix a flags 1 @ [structPtr 0 1 3, 0, listPtr 2 2 (int (length reason) + 1), 0, 0] @
     padWords (nat (ceilDiv (int (length reason) + 1) 8)) reason"

lemma rb_bytes_end:
  "length bs \<le> 8 * n \<Longrightarrow> k = int (length ws) \<Longrightarrow>
    rbWriteBytes (rb (ws @ replicate n 0)) k 0 bs = Inr (rb (ws @ padWords n bs))"
  using rbWriteBytes_rb [of bs n ws "[]"] by simp

lemma encodeException_words:
  assumes a: "0 \<le> a" "a < 2 ^ 32" and len: "int (length (textEncode reason)) + 1 < 2 ^ 29"
  shows "encodeReturnExceptionFrame
      \<lparr>re_answerId = jint a, re_reason = reason, re_releaseParamCaps = r, re_noFinishNeeded = f\<rparr> =
    Inr (frameOf [bytesOf (exceptionWords a (returnFlags (orElse r True) (orElse f False)) (textEncode reason))])"
proof -
  let ?bs = "textEncode reason" and ?fl = "returnFlags (orElse r True) (orElse f False)"
  let ?n = "int (length ?bs) + 1"
  let ?m = "nat (ceilDiv ?n 8)"
  let ?pre = "returnPrefix a ?fl 1 @ [structPtr 0 1 3, 0, listPtr 2 2 ?n, 0, 0]"
  have m: "0 \<le> ceilDiv ?n 8" by (simp add: ceilDiv_nonneg)
  note t = text_words [of ?bs]
  have small: "length (exceptionWords a ?fl ?bs) < 2 ^ 32"
    using t(3) len by (simp add: exceptionWords_def returnPrefix_def)
  have bytes: "rbWriteBytes (rb (?pre @ replicate ?m 0)) 10 0 ?bs = Inr (rb (?pre @ padWords ?m ?bs))"
    by (rule rb_bytes_end) (use t in \<open>simp_all add: returnPrefix_def\<close>)
  have out: "rbToMessageBytes (rb (?pre @ padWords ?m ?bs)) =
      Inr (frameOf [bytesOf (exceptionWords a ?fl ?bs)])"
    using rbToMessageBytes_rb [OF small] by (simp add: exceptionWords_def)
  have "encodeReturnExceptionFrame
      \<lparr>re_answerId = jint a, re_reason = reason, re_releaseParamCaps = r, re_noFinishNeeded = f\<rparr> =
    bindE (rbWriteBytes (rb (?pre @ replicate ?m 0)) 10 0 ?bs) rbToMessageBytes"
    using a len m
    by (simp add: encodeReturnExceptionFrame_def building rb_writes encodeReturnFlags_rb returnPrefix_def returnWord_def Let_def)
  then show ?thesis by (simp only: bytes bindE_Inr out)
qed

lemma exceptionWords_text:
  assumes "int (length bs) + 1 < 2 ^ 29"
  shows "readTextFromPointer (wordTable (exceptionWords a fl bs)) (loc0 7) = Inr (Some (textDecode bs))"
proof -
  let ?ws = "exceptionWords a fl bs" and ?n = "int (length bs) + 1"
  let ?m = "nat (ceilDiv ?n 8)"
  let ?pre = "returnPrefix a fl 1 @ [structPtr 0 1 3, 0, listPtr 2 2 ?n, 0, 0]"
  note t = text_words [of bs]
  have m: "0 \<le> ceilDiv ?n 8" by (simp add: ceilDiv_nonneg)
  have len: "length ?ws = 10 + ?m" by (simp add: exceptionWords_def returnPrefix_def)
  have dec: "decodeByteListPointer (wordTable ?ws) (loc0 7) =
      Inr (Some \<lparr>bl_segmentId = 0, bl_startWord = 10, bl_elementCount = ?n\<rparr>)"
    using bytes_at [of 7 ?ws 2 ?n] assms m len
    by (simp add: inOffsetRange_def exceptionWords_def returnPrefix_def)
  have "subarray (bytesOf ?ws) 80 (80 + ?n) = take (length bs + 1) (bs @ replicate (8 * ?m - length bs) 0)"
    using slice_words [OF t(1,2), of ?pre "[]"] by (simp add: exceptionWords_def returnPrefix_def)
  also have "\<dots> = bs @ [0]"
  proof -
    have "8 * ?m - length bs = Suc (8 * ?m - length bs - 1)" using t(2) by simp
    then have "replicate (8 * ?m - length bs) (0 :: byte) = 0 # replicate (8 * ?m - length bs - 1) 0"
      by (metis replicate_Suc)
    then show ?thesis by simp
  qed
  finally have sub: "subarray (bytesOf ?ws) 80 (80 + ?n) = bs @ [0]" .
  have "80 + (int l + 1) \<le> int (8 * (10 + k))" if "l + 1 \<le> 8 * k" for l k :: nat using that by simp
  from this [OF t(2)] have "80 + ?n \<le> int (length (bytesOf ?ws))" unfolding length_bytesOf len .
  then have "ensureRange (bytesOf ?ws) 80 ?n ctx = Inr ()" for ctx by (simp add: ensureRange_def)
  then show ?thesis using dec sub by (simp add: readTextFromPointer_def textPayload_def Let_def)
qed

lemma decodeException_words:
  assumes "0 \<le> a" "a < 2 ^ 32" "int (length bs) + 1 < 2 ^ 29"
  shows "decodeReturnFrame (frameOf [bytesOf (exceptionWords a (returnFlags r f) bs)]) =
    Inr (ReturnException a (textDecode bs) \<lparr>fl_releaseParamCaps = r, fl_noFinishNeeded = f\<rparr>)"
proof -
  let ?fl = "returnFlags r f"
  let ?ws = "exceptionWords a ?fl bs"
  have "length ?ws < 2 ^ 32"
    using text_words(3) [of bs] assms by (simp add: exceptionWords_def returnPrefix_def)
  note t = segmentsFromFrame_words [OF this] newMessageReader_words [OF this]
  have "messageVariant (wordTable ?ws) 3 w n = Inr (struct0 3 2 1)" for w n
    by (rule messageVariant_words) (simp_all add: exceptionWords_def returnPrefix_def)
  moreover have "readU32InStruct (wordTable ?ws) (struct0 3 2 1) 0 = Inr a"
    using assms u32_at [of 3 0 2 ?ws 1] returnWord_fields [of a 1 ?fl]
    by (simp add: exceptionWords_def returnPrefix_def)
  moreover have "readU16InStruct (wordTable ?ws) (struct0 3 2 1) 6 = Inr 1"
    using assms u16_at [of 3 6 2 ?ws 1] returnWord_fields [of a 1 ?fl]
    by (simp add: exceptionWords_def returnPrefix_def)
  moreover have "decodeReturnFlags (wordTable ?ws) (struct0 3 2 1) = Inr \<lparr>fl_releaseParamCaps = r, fl_noFinishNeeded = f\<rparr>"
    by (rule decodeReturnFlags_words) (simp_all add: exceptionWords_def returnPrefix_def)
  moreover have "requireStruct (wordTable ?ws) (loc0 5) ctx = Inr (struct0 6 1 3)" for ctx
    using struct_at [of 5 ?ws 0 1 3] by (simp add: requireStruct_def inOffsetRange_def exceptionWords_def returnPrefix_def)
  ultimately show ?thesis
    using exceptionWords_text [OF assms(3), of a ?fl] t by (simp add: decodeReturnFrame_def slot_at)
qed

end
