(* ===== verification/Cap_Tables.thy ===== *)
theory Cap_Tables
  imports Wire_Roundtrip
begin

unbundle bit_operations_syntax

text \<open>
  Capability tables and promised-answer transforms: the words the encoders' loops write, and the
  decoders on them. A table is a tag word and two words per descriptor; the vine id and the
  contact of a third-party descriptor stand in blocks after the table.
\<close>

section \<open>The words of a table\<close>

definition isThirdParty :: "number RpcCapDescriptor \<Rightarrow> bool" where
  "isThirdParty e \<longleftrightarrow> cd_tag e = jint CAP_DESCRIPTOR_TAG_THIRD_PARTY_HOSTED"

definition isU :: "nat \<Rightarrow> number \<Rightarrow> bool" where
  "isU n v \<longleftrightarrow> (\<exists>i. v = jint i \<and> 0 \<le> i \<and> i < 2 ^ n)"

definition validCap :: "number RpcCapDescriptor \<Rightarrow> bool" where
  "validCap e \<longleftrightarrow> isU 16 (cd_tag e) \<and> isU 32 (cd_id e) \<and>
     (isThirdParty e \<longrightarrow> isU 32 (orElse (cd_vineId e) (jint 0)) \<and> cd_contact e \<noteq> None)"

definition contactWords :: "bytes \<Rightarrow> nat" where
  "contactWords c = nat ((int (length c) + 7) div 8)"

definition thirdBlock :: "number RpcCapDescriptor \<Rightarrow> 64 word list" where
  "thirdBlock e =
     (if isThirdParty e
      then let c = orElse (cd_contact e) [] in
        [putField 4 0 (word_of_int (toInt (orElse (cd_vineId e) (jint 0)))) 0, listPtr 0 2 (int (length c))] @
        padWords (contactWords c) c
      else [])"

definition capWord :: "number RpcCapDescriptor \<Rightarrow> 64 word" where
  "capWord e = putField 4 4 (word_of_int (toInt (cd_id e))) (putField 2 0 (word_of_int (toInt (cd_tag e))) 0)"

text \<open>The elements from word \<open>k\<close> on, the blocks from word \<open>t\<close> on.\<close>

fun capElems :: "int \<Rightarrow> int \<Rightarrow> number RpcCapDescriptor list \<Rightarrow> 64 word list" where
  "capElems k t [] = []"
| "capElems k t (e # es) =
     [capWord e, if isThirdParty e then structPtr (t - (k + 2)) 1 1 else 0] @
     capElems (k + 2) (t + int (length (thirdBlock e))) es"

definition thirdBlocks :: "number RpcCapDescriptor list \<Rightarrow> 64 word list" where
  "thirdBlocks es = concat (map thirdBlock es)"

lemma thirdBlocks_simps [simp]: "thirdBlocks [] = []" "thirdBlocks (e # es) = thirdBlock e @ thirdBlocks es"
  by (simp_all add: thirdBlocks_def)

lemma length_capElems [simp]: "length (capElems k t es) = 2 * length es"
  by (induction es arbitrary: k t) simp_all

definition decodedCap :: "number RpcCapDescriptor \<Rightarrow> int RpcCapDescriptor" where
  "decodedCap e =
     \<lparr>cd_tag = toInt (cd_tag e), cd_id = toInt (cd_id e),
      cd_vineId = (if isThirdParty e then Some (toInt (orElse (cd_vineId e) (jint 0))) else None),
      cd_contact = (if isThirdParty e then cd_contact e else None)\<rparr>"

lemma contactWords_fit: "length c \<le> 8 * contactWords c" "contactWords c \<le> length c"
proof -
  have "contactWords c = (length c + 7) div 8"
    unfolding contactWords_def by (metis nat_int of_nat_add of_nat_numeral zdiv_int)
  then show "length c \<le> 8 * contactWords c" "contactWords c \<le> length c" by linarith+
qed

lemma ceilDiv_contact: "ceilDiv (int (length c)) 8 = int (contactWords c)"
  by (simp add: ceilDiv_def contactWords_def add.commute)

section \<open>The encoder's loop\<close>

lemma isU_ensure:
  "isU 16 v \<Longrightarrow> ensureU16 v name = Inr (toInt v)" "isU 32 v \<Longrightarrow> ensureU32 v name = Inr (toInt v)"
  by (auto simp: isU_def)

lemma isU_range: "isU n v \<Longrightarrow> 0 \<le> toInt v \<and> toInt v < 2 ^ n"
  by (auto simp: isU_def)

text \<open>The writers at a word given by what stands before it.\<close>

lemma rb_mid:
  assumes "i = int (length us)"
  shows "0 \<le> v \<Longrightarrow> v < 2 ^ 16 \<Longrightarrow> off + 2 \<le> 8 \<Longrightarrow>
      rbWriteU16 (rb (us @ y # vs)) i (int off) v = Inr (rb (us @ putField 2 off (word_of_int v) y # vs))"
    "0 \<le> v \<Longrightarrow> v < 2 ^ 32 \<Longrightarrow> off + 4 \<le> 8 \<Longrightarrow>
      rbWriteU32 (rb (us @ y # vs)) i (int off) v = Inr (rb (us @ putField 4 off (word_of_int v) y # vs))"
    "rbWriteWord (rb (us @ y # vs)) i w = Inr (rb (us @ w # vs))"
    "inOffsetRange (t - (i + 1)) \<Longrightarrow> 0 \<le> d \<Longrightarrow> d < 2 ^ 16 \<Longrightarrow> 0 \<le> p \<Longrightarrow> p < 2 ^ 16 \<Longrightarrow>
      rbSetStructPointer (rb (us @ y # vs)) i t d p = Inr (rb (us @ structPtr (t - (i + 1)) d p # vs))"
    "inOffsetRange (t - (i + 1)) \<Longrightarrow> 0 \<le> sz \<Longrightarrow> sz < 8 \<Longrightarrow> 0 \<le> n \<Longrightarrow> n < 2 ^ 29 \<Longrightarrow>
      rbSetListPointer (rb (us @ y # vs)) i t sz n = Inr (rb (us @ listPtr (t - (i + 1)) sz n # vs))"
  using assms by (simp_all add: rb_u16 rb_u32 rb_word rb_struct rb_list)

lemma encodeThirdParty_rb:
  assumes third: "isThirdParty e" and valid: "validCap e" and small: "length (pre @ w # 0 # zs) < 2 ^ 28"
    and contact: "int (length (orElse (cd_contact e) [])) < 2 ^ 29"
  shows "encodeThirdParty (rb (pre @ w # 0 # zs)) (int (length pre)) i e =
    Inr (rb (pre @ w # structPtr (int (length zs)) 1 1 # zs @ thirdBlock e))"
proof -
  obtain c where c: "cd_contact e = Some c" using valid third by (auto simp: validCap_def)
  let ?v = "toInt (orElse (cd_vineId e) (jint 0))" and ?z = "int (length zs)" and ?p = "int (length pre)"
  let ?V = "putField 4 0 (word_of_int ?v) 0" and ?S = "structPtr (int (length zs)) 1 1"
  have vine: "ensureU32 (orElse (cd_vineId e) (jint 0)) name = Inr ?v" for name
    using valid third by (auto simp: validCap_def intro: isU_ensure)
  have v: "0 \<le> ?v" "?v < 2 ^ 32" using valid third isU_range [of 32] by (auto simp: validCap_def)
  have cw: "(int (length c) + 7) div 8 = int (contactWords c)" by (simp add: contactWords_def)
  have s0: "rbAllocWords (rb (pre @ w # 0 # zs)) (jint 2) = Inr (?p + ?z + 2, rb (pre @ w # 0 # zs @ [0, 0]))"
    by (simp add: rb_alloc numeral_2_eq_2 algebra_simps)
  have s1: "rbSetStructPointer (rb (pre @ w # 0 # zs @ [0, 0])) (?p + 1) (?p + ?z + 2) 1 1 =
      Inr (rb (pre @ w # ?S # zs @ [0, 0]))"
    using small rb_mid(4) [of "?p + 1" "pre @ [w]" "?p + ?z + 2" 1 1 0 "zs @ [0, 0]"]
    by (simp add: inOffsetRange_def)
  have s2: "rbWriteU32 (rb (pre @ w # ?S # zs @ [0, 0])) (?p + ?z + 2) 0 ?v = Inr (rb (pre @ w # ?S # zs @ [?V, 0]))"
    using v rb_mid(2) [of "?p + ?z + 2" "pre @ w # ?S # zs" ?v 0 0 "[0]"] by simp
  have s3: "rbAllocWords (rb (pre @ w # ?S # zs @ [?V, 0])) (jint (int (contactWords c))) =
      Inr (?p + ?z + 4, rb (pre @ w # ?S # zs @ [?V, 0] @ replicate (contactWords c) 0))"
    by (simp add: algebra_simps)
  have s4: "rbWriteBytes (rb (pre @ w # ?S # zs @ [?V, 0] @ replicate (contactWords c) 0)) (?p + ?z + 4) 0 c =
      Inr (rb (pre @ w # ?S # zs @ [?V, 0] @ padWords (contactWords c) c))"
    using rb_bytes_end [OF contactWords_fit(1), of "?p + ?z + 4" "pre @ w # ?S # zs @ [?V, 0]" c] by simp
  have s5: "rbSetListPointer (rb (pre @ w # ?S # zs @ [?V, 0] @ padWords (contactWords c) c)) (?p + ?z + 3) (?p + ?z + 4) 2 (int (length c)) =
      Inr (rb (pre @ w # ?S # zs @ [?V, listPtr 0 2 (int (length c))] @ padWords (contactWords c) c))"
    using contact rb_mid(5) [of "?p + ?z + 3" "pre @ w # ?S # zs @ [?V]" "?p + ?z + 4" 2 "int (length c)" 0 "padWords (contactWords c) c"]
    by (simp add: c inOffsetRange_def)
  have n3: "?p + ?z + 2 + 1 = ?p + ?z + 3" by simp
  show ?thesis
    using s5 third
    by (simp add: encodeThirdParty_def vine c s0 s1 s2 cw s3 s4 [simplified] n3 Let_def thirdBlock_def del: rbAllocWords_rb)
qed

definition contactsFit :: "number RpcCapDescriptor list \<Rightarrow> bool" where
  "contactsFit es \<longleftrightarrow> (\<forall>e \<in> set es. validCap e \<and> int (length (orElse (cd_contact e) [])) < 2 ^ 29)"

lemma encodeCapDescriptor_rb:
  assumes valid: "contactsFit [e]" and k: "tagWord + 1 + i * 2 = int (length pre)"
    and small: "length (pre @ 0 # 0 # zs) < 2 ^ 28"
  shows "encodeCapDescriptor tagWord (i, e) (rb (pre @ 0 # 0 # zs)) =
    Inr (rb (pre @ capElems (int (length pre)) (int (length (pre @ 0 # 0 # zs))) [e] @ zs @ thirdBlock e))"
proof -
  have v: "validCap e" and c: "int (length (orElse (cd_contact e) [])) < 2 ^ 29" using valid by (auto simp: contactsFit_def)
  have tag: "ensureU16 (cd_tag e) name = Inr (toInt (cd_tag e))" and id': "ensureU32 (cd_id e) name = Inr (toInt (cd_id e))" for name
    using v isU_ensure by (auto simp: validCap_def)
  have r: "0 \<le> toInt (cd_tag e)" "toInt (cd_tag e) < 2 ^ 16" "0 \<le> toInt (cd_id e)" "toInt (cd_id e) < 2 ^ 32"
    using v isU_range [of 16 "cd_tag e"] isU_range [of 32 "cd_id e"] by (auto simp: validCap_def)
  let ?k = "int (length pre)" and ?T = "putField 2 0 (word_of_int (toInt (cd_tag e))) 0"
  have s1: "rbWriteU16 (rb (pre @ 0 # 0 # zs)) ?k 0 (toInt (cd_tag e)) = Inr (rb (pre @ ?T # 0 # zs))"
    using rb_mid(1) [OF refl r(1,2), of 0 pre 0 "0 # zs"] by simp
  have s2: "rbWriteU32 (rb (pre @ ?T # 0 # zs)) ?k 4 (toInt (cd_id e)) = Inr (rb (pre @ capWord e # 0 # zs))"
    using rb_mid(2) [OF refl r(3,4), of 4 pre ?T "0 # zs"] by (simp add: capWord_def)
  have s3: "isThirdParty e \<Longrightarrow> encodeThirdParty (rb (pre @ capWord e # 0 # zs)) ?k i e =
      Inr (rb (pre @ capWord e # structPtr (int (length zs)) 1 1 # zs @ thirdBlock e))"
    by (rule encodeThirdParty_rb) (use v c small in auto)
  have s4: "\<not> isThirdParty e \<Longrightarrow> thirdBlock e = []" by (simp add: thirdBlock_def)
  have s5: "cd_tag e = jint 5 \<longleftrightarrow> isThirdParty e" by (simp add: isThirdParty_def)
  show ?thesis
    by (simp add: encodeCapDescriptor_def k tag id' s1 s2 s3 s4 s5 Let_def)
qed

lemma upto_Suc: "[i..i + int (Suc n) - 1] = i # [i + 1..i + 1 + int n - 1]"
  by (simp add: upto_rec1 algebra_simps)

lemma encodeCaps_rb:
  assumes "contactsFit es" "tagWord + 1 + i * 2 = int (length pre)"
    "length pre + 2 * length es + length zs + length (thirdBlocks es) < 2 ^ 28"
  shows "loopE (encodeCapDescriptor tagWord) (zip [i..i + int (length es) - 1] es) (rb (pre @ replicate (2 * length es) 0 @ zs)) =
    Inr (rb (pre @ capElems (int (length pre)) (int (length pre + 2 * length es + length zs)) es @ zs @ thirdBlocks es))"
  using assms
proof (induction es arbitrary: i pre zs)
  case (Cons e es)
  let ?n = "length es" and ?zs = "replicate (2 * length es) 0 @ zs"
  let ?pre = "pre @ capElems (int (length pre)) (int (length (pre @ 0 # 0 # ?zs))) [e]"
  have fit: "contactsFit [e]" "contactsFit es" using Cons.prems(1) by (auto simp: contactsFit_def)
  have step: "encodeCapDescriptor tagWord (i, e) (rb (pre @ 0 # 0 # ?zs)) = Inr (rb (?pre @ ?zs @ thirdBlock e))"
    using encodeCapDescriptor_rb [OF fit(1) Cons.prems(2), of ?zs] Cons.prems(3) by (simp del: capElems.simps)
  have IH: "loopE (encodeCapDescriptor tagWord) (zip [i + 1..i + 1 + int ?n - 1] es)
      (rb (?pre @ replicate (2 * ?n) 0 @ zs @ thirdBlock e)) =
    Inr (rb (?pre @ capElems (int (length ?pre)) (int (length ?pre + 2 * ?n + length (zs @ thirdBlock e))) es @
      (zs @ thirdBlock e) @ thirdBlocks es))"
    by (rule Cons.IH) (use fit Cons.prems in \<open>simp_all add: algebra_simps\<close>)
  have "replicate (2 * length (e # es)) (0 :: 64 word) = 0 # 0 # replicate (2 * ?n) 0" by simp
  then show ?case unfolding list.size(4) upto_Suc [of i "length es", simplified]
    using step IH by (simp add: upto_Suc [simplified] algebra_simps)
qed (simp add: indexed_def)

section \<open>The tag word\<close>

lemma compositeTag:
  assumes "0 \<le> n" "n < 2 ^ 29" "0 \<le> d" "d < 2 ^ 16" "0 \<le> p" "p < 2 ^ 16"
  shows "inlineCompositeTag (jint n) (jint d) (jint p) = Inr (structPtr n d p)"
    "pointerKind (structPtr n d p) = 0" "tagElementCount (structPtr n d p) = n"
    "structDataWords (structPtr n d p) = d" "structPointerCount (structPtr n d p) = p"
  using assms tagPtr_fields [OF assms]
  by (simp_all add: inlineCompositeTag_def structPtr_def structPointerWord_def mod_pos_pos_trivial and_mask_small(4) Let_def)

section \<open>Encoding a table\<close>

lemma indexed_zip: "indexed es = zip [0..0 + int (length es) - 1] es"
  by (simp add: indexed_def)

definition capTableWords :: "int \<Rightarrow> number RpcCapDescriptor list \<Rightarrow> 64 word list" where
  "capTableWords t es =
     structPtr (int (length es)) 1 1 #
     capElems (t + 1) (t + 1 + 2 * int (length es)) es @ thirdBlocks es"

lemma encodeCapTable_rb:
  assumes fit: "contactsFit (orElse ct [])"
    and small: "length us + length vs + length (capTableWords 0 (orElse ct [])) + 1 < 2 ^ 28"
  shows "encodeCapTable (rb (us @ y # vs)) (int (length us)) ct =
    Inr (rb (us @ listPtr (int (length vs)) 7 (2 * int (length (orElse ct []))) # vs @
      capTableWords (int (length us) + int (length vs) + 1) (orElse ct [])))"
proof -
  let ?es = "orElse ct []" and ?u = "int (length us)" and ?v = "int (length vs)"
  let ?n = "length ?es" and ?L = "listPtr (int (length vs)) 7 (2 * int (length (orElse ct [])))"
  have nn: "nat (1 + int ?n * 2) = Suc (2 * ?n)" by (simp add: nat_eq_iff)
  have s0: "rbAllocWords (rb (us @ y # vs)) (jint (1 + int ?n * 2)) =
      Inr (?u + ?v + 1, rb (us @ y # vs @ 0 # replicate (2 * ?n) 0))"
    using rb_alloc [of "1 + int ?n * 2" "us @ y # vs"] by (simp add: nn)
  have s1: "rbSetListPointer (rb (us @ y # vs @ 0 # replicate (2 * ?n) 0)) ?u (?u + ?v + 1) 7 (int ?n * 2) =
      Inr (rb (us @ ?L # vs @ 0 # replicate (2 * ?n) 0))"
    using small rb_mid(5) [OF refl, of "?u + ?v + 1" us 7 "int ?n * 2" y "vs @ 0 # replicate (2 * ?n) 0"]
    by (simp add: inOffsetRange_def capTableWords_def mult.commute)
  have n: "int ?n < 2 ^ 29" using small by (simp add: capTableWords_def)
  have s2: "inlineCompositeTag (jint (int ?n)) (jint 1) (jint 1) = Inr (structPtr (int ?n) 1 1)"
    using n by (intro compositeTag(1)) simp_all
  have s3: "rbWriteWord (rb (us @ ?L # vs @ 0 # replicate (2 * ?n) 0)) (?u + ?v + 1) (structPtr (int ?n) 1 1) =
      Inr (rb ((us @ ?L # vs @ [structPtr (int ?n) 1 1]) @ replicate (2 * ?n) 0 @ []))"
    using rb_mid(3) [of "?u + ?v + 1" "us @ ?L # vs" 0 "replicate (2 * ?n) 0"] by simp
  have s4: "loopE (encodeCapDescriptor (?u + ?v + 1)) (indexed ?es)
      (rb ((us @ ?L # vs @ [structPtr (int ?n) 1 1]) @ replicate (2 * ?n) 0 @ [])) =
    Inr (rb (us @ ?L # vs @ capTableWords (?u + ?v + 1) ?es))"
    unfolding indexed_zip
    using encodeCaps_rb [OF fit, of "?u + ?v + 1" 0 "us @ ?L # vs @ [structPtr (int ?n) 1 1]" "[]"] small
    by (simp add: capTableWords_def algebra_simps)
  show ?thesis
    unfolding encodeCapTable_def Let_def
    by (simp only: s0 s1 s2 s3 s4 bindE_Inr prod.case one_add_one mult_1_right)
qed

section \<open>Decoding a table\<close>

lemma capWord_fields:
  assumes "validCap e"
  shows "uint (getField 2 0 (capWord e)) = toInt (cd_tag e)" "uint (getField 4 4 (capWord e)) = toInt (cd_id e)"
  using assms isU_range [of 16 "cd_tag e"] isU_range [of 32 "cd_id e"]
  by (simp_all add: capWord_def field_put_same field_put_other validCap_def)

lemma decodeThirdParty_words:
  assumes valid: "validCap e" and third: "isThirdParty e" and contact: "int (length (orElse (cd_contact e) [])) < 2 ^ 29"
    and ws: "ws = pre @ structPtr (int (length mid)) 1 1 # mid @ thirdBlock e @ post" and small: "length ws < 2 ^ 28"
  shows "decodeThirdPartyHostedDescriptor (wordTable ws) (struct0 (int (length pre) - 1) 1 1) =
    Inr (toInt (orElse (cd_vineId e) (jint 0)), orElse (cd_contact e) [])"
proof -
  let ?v = "toInt (orElse (cd_vineId e) (jint 0))" and ?c = "orElse (cd_contact e) []"
  let ?t = "int (length pre) + 1 + int (length mid)" and ?n = "int (length (orElse (cd_contact e) []))"
  let ?us = "pre @ structPtr (int (length mid)) 1 1 # mid"
  have block: "thirdBlock e = [putField 4 0 (word_of_int ?v) 0, listPtr 0 2 ?n] @ padWords (contactWords ?c) ?c"
    using third by (simp add: thirdBlock_def Let_def)
  have t: "nat ?t = length ?us" "nat (?t + 1) = Suc (length ?us)" by simp_all
  have w0: "ws ! length pre = structPtr (int (length mid)) 1 1" by (simp add: ws)
  have ws': "ws = ?us @ putField 4 0 (word_of_int ?v) 0 # listPtr 0 2 ?n # padWords (contactWords ?c) ?c @ post"
    by (simp add: ws block)
  have w1: "ws ! nat ?t = putField 4 0 (word_of_int ?v) 0" unfolding t(1) ws' by (rule nth_append_length)
  have w2: "ws ! nat (?t + 1) = listPtr 0 2 ?n"
    unfolding t(2) ws' using nth_append_length [of "?us @ [putField 4 0 (word_of_int ?v) 0]"] by simp
  have len: "?t + 2 + int (contactWords ?c) \<le> int (length ws)" by (simp add: ws')
  have v: "0 \<le> ?v" "?v < 2 ^ 32" using valid third isU_range [of 32] by (auto simp: validCap_def)
  have s1: "decodeStructPointer (wordTable ws) (loc0 (int (length pre))) = Inr (Some (struct0 ?t 1 1))"
    using struct_at [of "int (length pre)" ws "int (length mid)" 1 1] w0 len small by (simp add: inOffsetRange_def)
  have s2: "readU32InStruct (wordTable ws) (struct0 ?t 1 1) 0 = Inr ?v"
    using u32_at [of ?t 0 1 ws 1] w1 len v field_put_same [of 0 4 ?v 0] by simp
  have s3: "decodeByteListPointer (wordTable ws) (loc0 (?t + 1)) =
      Inr (Some \<lparr>bl_segmentId = 0, bl_startWord = ?t + 2, bl_elementCount = ?n\<rparr>)"
    using bytes_at [of "?t + 1" ws 0 ?n] w2 len contact by (simp add: inOffsetRange_def ceilDiv_contact)
  have s4: "subarray (bytesOf ws) ((?t + 2) * 8) ((?t + 2) * 8 + ?n) = ?c"
  proof -
    have e: "?t + 2 = int (length (?us @ [putField 4 0 (word_of_int ?v) 0, listPtr 0 2 ?n]))" by simp
    show ?thesis unfolding e ws'
      using slice_words [OF contactWords_fit(1) contactWords_fit(1), of "?us @ [putField 4 0 (word_of_int ?v) 0, listPtr 0 2 ?n]" ?c post]
      by simp
  qed
  have sl1: "pointerWordIndex (struct0 (int (length pre) - 1) 1 1) 0 = Inr (loc0 (int (length pre)))"
    and sl2: "pointerWordIndex (struct0 ?t 1 1) 0 = Inr (loc0 (?t + 1))" by (simp_all add: slot_at)
  show ?thesis
    by (simp only: decodeThirdPartyHostedDescriptor_def sl1 sl2 s1 s2 s3 bindE_Inr option.case
        segmentAt_wordTable StructRef.simps ByteListRef.simps Let_def s4)
qed

lemma decodeCap_words:
  assumes fit: "contactsFit [e]" and small: "length ws < 2 ^ 28"
    and ws: "ws = pre @ capElems k (int (length pre) + 2 + int (length mid)) [e] @ mid @ thirdBlock e @ post"
    and k: "k = int (length pre)"
  shows "decodeCapDescriptor (wordTable ws) (struct0 k 1 1) = Inr (decodedCap e)"
proof -
  have valid: "validCap e" and contact: "int (length (orElse (cd_contact e) [])) < 2 ^ 29"
    using fit by (auto simp: contactsFit_def)
  have w0: "ws ! nat k = capWord e" and len: "k + 1 < int (length ws)" by (simp_all add: ws k)
  have u16: "readU16InStruct (wordTable ws) (struct0 k 1 1) 0 = Inr (toInt (cd_tag e))"
    using u16_at [of k 0 1 ws 1] w0 len k capWord_fields [OF valid] by simp
  have u32: "readU32InStruct (wordTable ws) (struct0 k 1 1) 4 = Inr (toInt (cd_id e))"
    using u32_at [of k 4 1 ws 1] w0 len k capWord_fields [OF valid] by simp
  have tag: "toInt (cd_tag e) = 5 \<longleftrightarrow> isThirdParty e"
    using valid by (auto simp: validCap_def isU_def isThirdParty_def)
  show ?thesis
  proof (cases "isThirdParty e")
    case True
    obtain c where c: "cd_contact e = Some c" using True valid by (auto simp: validCap_def)
    have "decodeThirdPartyHostedDescriptor (wordTable ws) (struct0 (int (length (pre @ [capWord e])) - 1) 1 1) =
        Inr (toInt (orElse (cd_vineId e) (jint 0)), orElse (cd_contact e) [])"
      by (rule decodeThirdParty_words [OF valid True contact _ small]) (use True in \<open>simp add: ws k\<close>)
    then show ?thesis using True tag by (simp add: decodeCapDescriptor_def u16 [unfolded k] u32 [unfolded k] decodedCap_def c k)
  next
    case False
    then show ?thesis using tag by (simp add: decodeCapDescriptor_def u16 u32 decodedCap_def)
  qed
qed

lemma upto_shift: "[1..int n] = map ((+) 1) [0..int n - 1]"
proof -
  have "map ((+) 1) (map int [0..<n]) = map int (map Suc [0..<n])" by simp
  also have "\<dots> = map int [1..<Suc n]" by (simp only: map_Suc_upt One_nat_def)
  also have "\<dots> = [1..int n]"
  proof (induction n)
    case (Suc n)
    have "[1..int (Suc n)] = [1..int n] @ [int (Suc n)]" by (simp add: upto_rec2)
    then show ?case using Suc by (simp del: upt_Suc add: upt_Suc_append)
  qed simp
  finally show ?thesis by (simp add: upto_map)
qed

lemma decodeCaps_words:
  assumes "contactsFit es" "length ws < 2 ^ 28" "k = int (length pre)"
    "ws = pre @ capElems k (k + 2 * int (length es) + int (length mid)) es @ mid @ thirdBlocks es @ post"
  shows "collectE (\<lambda>i. decodeCapDescriptor (wordTable ws) (struct0 (k + i * 2) 1 1)) [0..int (length es) - 1] =
    Inr (map decodedCap es)"
  using assms
proof (induction es arbitrary: k pre mid)
  case (Cons e es)
  let ?t = "k + 2 * int (length (e # es)) + int (length mid)"
  let ?el = "capElems (k + 2) (?t + int (length (thirdBlock e))) es"
  have fit: "contactsFit [e]" "contactsFit es" using Cons.prems(1) by (auto simp: contactsFit_def)
  have t: "?t = int (length pre) + 2 + int (length (?el @ mid))" using Cons.prems(3) by simp
  have head: "decodeCapDescriptor (wordTable ws) (struct0 k 1 1) = Inr (decodedCap e)"
    by (rule decodeCap_words [OF fit(1) Cons.prems(2) _ Cons.prems(3), where mid = "?el @ mid" and post = "thirdBlocks es @ post"])
      (use Cons.prems(3,4) in simp)
  have "collectE (\<lambda>i. decodeCapDescriptor (wordTable ws) (struct0 (k + 2 + i * 2) 1 1)) [0..int (length es) - 1] =
      Inr (map decodedCap es)"
    by (rule Cons.IH [OF fit(2) Cons.prems(2), where pre = "pre @ capElems k ?t [e]" and mid = "mid @ thirdBlock e"])
      (use Cons.prems(3,4) in \<open>simp_all add: algebra_simps\<close>)
  moreover have "[0..int (length (e # es)) - 1] = 0 # map ((+) 1) [0..int (length es) - 1]"
    using upto_shift [of "length es"] by (simp add: upto_rec1)
  ultimately show ?case using head by (simp add: collectE_map algebra_simps)
qed simp

end
