(* ===== verification/Payload_Roundtrip.thy ===== *)
theory Payload_Roundtrip
  imports Cap_Tables
begin

unbundle bit_operations_syntax

text \<open>
  Payloads: the content pointer and the capability table, and the frames that carry them.
\<close>

section \<open>A table in a segment\<close>

lemma decodeCapTable_words:
  assumes fit: "contactsFit es" and small: "length ws < 2 ^ 28"
    and ws: "ws = us @ listPtr (int (length vs)) 7 (2 * int (length es)) # vs @
      capTableWords (int (length us) + int (length vs) + 1) es"
  shows "decodeCapTableFromPayload (wordTable ws) (loc0 (int (length us))) = Inr (map decodedCap es)"
proof -
  let ?u = "int (length us)" and ?v = "int (length vs)" and ?n = "int (length es)"
  let ?L = "listPtr ?v 7 (2 * ?n)"
  let ?pre = "us @ ?L # vs @ [structPtr ?n 1 1]"
  have len: "length ws = length us + 1 + length vs + 1 + 2 * length es + length (thirdBlocks es)"
    by (simp add: ws capTableWords_def)
  have n: "?n < 2 ^ 29" using small len by simp
  note tag = compositeTag [of ?n 1 1, OF _ n]
  have ws': "ws = ?pre @ capElems (?u + ?v + 2) (?u + ?v + 2 + 2 * ?n) es @ [] @ thirdBlocks es @ []"
    by (simp add: ws capTableWords_def add.assoc)
  have w1: "ws ! length us = ?L" by (simp add: ws)
  have "nat (?u + 1 + ?v) = length (us @ ?L # vs)" by simp
  then have w2: "ws ! nat (?u + 1 + ?v) = structPtr ?n 1 1"
    using ws' nth_append_length [of "us @ ?L # vs" "structPtr ?n 1 1"] by simp
  have dec: "decodeStructListPointer (wordTable ws) (loc0 ?u) =
      Inr (Some \<lparr>sl_segmentId = 0, sl_elementsStartWord = ?u + 2 + ?v, sl_elementCount = ?n,
                 sl_dataWordCount = 1, sl_pointerCount = 1\<rparr>)"
    using composites_at [of ?u ws ?v "2 * ?n" "structPtr ?n 1 1"] w1 w2 len small tag
    by (simp add: inOffsetRange_def)
  have item: "listItem \<lparr>sl_segmentId = 0, sl_elementsStartWord = ?u + 2 + ?v, sl_elementCount = ?n,
      sl_dataWordCount = 1, sl_pointerCount = 1\<rparr> i = struct0 (?u + ?v + 2 + i * 2) 1 1" for i
    by (simp add: listItem_def struct0_def)
  have "collectE (\<lambda>i. decodeCapDescriptor (wordTable ws) (struct0 (?u + ?v + 2 + i * 2) 1 1)) [0..?n - 1] =
      Inr (map decodedCap es)"
    by (rule decodeCaps_words [OF fit small _, where pre = ?pre and mid = "[]" and post = "[]"])
      (use ws' in \<open>simp_all add: add.assoc\<close>)
  then show ?thesis by (simp add: decodeCapTableFromPayload_def dec item)
qed

section \<open>A null content\<close>

lemma EMPTY_STRUCT_words: "EMPTY_STRUCT_MESSAGE = frameOf [bytesOf [0]]"
  by code_simp

lemma copy_null:
  assumes "memOf ws i = Some 0" "0 \<le> depth" "depth \<le> M" "1 \<le> cb_work bud" "d < length us"
  shows "deepCopyAnyPointer (readerOf ws) 0 i (int d) M depth (mb us, bud) =
    Inr (mb (us[d := 0]), bud\<lparr>cb_work := cb_work bud - 1\<rparr>)"
  using assms resolved_readerOf [of ws i 0]
  by (simp add: deepCopyAnyPointer.simps chargeWork_def pointerKind_zero Let_def)

lemma decodeAny_null:
  assumes "memOf ws i = Some 0"
  shows "decodeAnyPointerMessageFromReader (readerOf ws) 0 i noCopyOptions = Inr EMPTY_STRUCT_MESSAGE"
proof -
  have "newAnyPointerCopyBudget noCopyOptions =
      Inr \<lparr>cb_work = 8 * 1024 * 1024, cb_outputWords = 8 * 1024 * 1024 - 1, cb_maxDepth = 64\<rparr>"
    by (simp add: newAnyPointerCopyBudget_def noCopyOptions_def orDefault_def checkBudget_def MAX_SAFE_INTEGER_def
        chargeOutput_def Let_def)
  then show ?thesis
    using copy_null [OF assms, of 0 64 "\<lparr>cb_work = 8 * 1024 * 1024, cb_outputWords = 8 * 1024 * 1024 - 1, cb_maxDepth = 64\<rparr>" 0 "[0]"]
    by (simp add: decodeAnyPointerMessageFromReader_def newMessageBuilder_mb mbToMessageBytes_mb EMPTY_STRUCT_words)
qed

lemma writePayload_none:
  assumes "0 \<le> j" "j < int (length ws)" "ws ! nat j = 0"
  shows "writePayloadContentPointer (rb ws) j None name = Inr (rb ws)"
proof -
  have "newMessageReader EMPTY_STRUCT_MESSAGE = Inr (readerOf [0])"
    using newMessageReader_words [of "[0]"] by (simp add: EMPTY_STRUCT_words)
  moreover have "decodeAnyPointerMessageFromReader (readerOf [0]) 0 0 noCopyOptions = Inr EMPTY_STRUCT_MESSAGE"
    by (rule decodeAny_null) (simp add: memOf_def)
  moreover have "toWords (length (drop 8 EMPTY_STRUCT_MESSAGE) div 8) (drop 8 EMPTY_STRUCT_MESSAGE) = [0]"
    by (simp add: EMPTY_STRUCT_MESSAGE_def)
  moreover have "rbWriteWord (rb ws) j 0 = Inr (rb ws)"
    using assms rb_word [of j ws 0] list_update_id [of ws "nat j"] by simp
  ultimately show ?thesis
    by (simp add: writePayloadContentPointer_def normalizePayloadContent_def encodeAnyPointerMessageIntoBuilder_def Let_def)
qed

section \<open>Writing a payload\<close>

definition contentValue :: "bytes option \<Rightarrow> wire_value \<Rightarrow> bool" where
  "contentValue content v \<longleftrightarrow>
     (case content of None \<Rightarrow> v = NullV | Some m \<Rightarrow> \<exists>r. newMessageReader m = Inr r \<and> reads r 0 0 v)"

lemma outputLimit_default: "outputLimit noCopyOptions = 2 ^ 23"
  by (simp add: outputLimit_def noCopyOptions_def orDefault_def)

lemma writePayload_rb:
  assumes run: "writePayloadContentPointer (rb ws) (int j) content name = Inr b'" and j: "j < length ws" "ws ! j = 0"
  shows "\<exists>ws' v. b' = rb ws' \<and> contentValue content v \<and> embeds ws ws' j v \<and> length ws' \<le> length ws + 2 ^ 23 \<and>
    (content = None \<longrightarrow> ws' = ws)"
proof (cases content)
  case None
  have "embeds ws (ws[j := 0]) j NullV"
    by (rule embeds_null [OF j(1), of "\<lambda>_. Some 0" 1]) (simp_all add: flat.null)
  then have "embeds ws ws j NullV" using j list_update_id [of ws j] by simp
  moreover have "b' = rb ws" using run None writePayload_none [of "int j" ws name] j by simp
  ultimately show ?thesis using None by (auto simp: contentValue_def)
next
  case (Some m)
  then have enc: "encodeAnyPointerMessageIntoBuilder (\<lambda>b n. rbAllocWords b (jint n)) rbWriteWord (rb ws) (int j) m noCopyOptions = Inr b'"
    using run by (auto simp: writePayloadContentPointer_def normalizePayloadContent_def catchE_def
        split: if_splits sum.splits prod.splits)
  obtain r v ws' where *: "newMessageReader m = Inr r" "reads r 0 0 v" "b' = rb ws'"
      "int (length ws') \<le> int (length ws) + 2 ^ 23" "embeds ws ws' j v"
    using rpcBuilder.encodeAny_conc [OF enc j(1)] by (auto simp: outputLimit_default)
  then have "length ws' \<le> length ws + 2 ^ 23" by simp
  then show ?thesis using * Some by (intro exI [of _ ws'] exI [of _ v]) (simp add: contentValue_def)
qed

text \<open>The segment once the payload at word \<open>p\<close> has its content and its table.\<close>

definition payloadAt :: "64 word list \<Rightarrow> int \<Rightarrow> wire_value \<Rightarrow> int RpcCapDescriptor list \<Rightarrow> bool" where
  "payloadAt ws p v caps \<longleftrightarrow> 0 \<le> p \<and> p + 1 < int (length ws) \<and>
     (v \<noteq> StructV [] [] \<longrightarrow> flat (memOf ws) (int (length ws)) p v) \<and>
     decodeCapTableFromPayload (wordTable ws) (loc0 (p + 1)) = Inr caps"

lemma payload_written:
  assumes content: "writePayloadContentPointer (rb (pre @ [0, 0] @ post)) (int (length pre)) content name = Inr b1"
    and table: "encodeCapTable b1 (int (length pre) + 1) ct = Inr b2"
    and fit: "contactsFit (orElse ct [])"
    and small: "length pre + length post + length (capTableWords 0 (orElse ct [])) < 2 ^ 27"
  shows "\<exists>ws v. b2 = rb ws \<and> length ws < 2 ^ 28 \<and> length pre + 2 + length post \<le> length ws \<and>
    (\<forall>k < length pre + 2 + length post. k \<noteq> length pre \<longrightarrow> k \<noteq> length pre + 1 \<longrightarrow> ws ! k = (pre @ [0, 0] @ post) ! k) \<and>
    contentValue content v \<and> payloadAt ws (int (length pre)) v (map decodedCap (orElse ct [])) \<and>
    (content = None \<longrightarrow> memOf ws (int (length pre)) = Some 0)"
proof -
  let ?ws = "pre @ [0, 0] @ post" and ?j = "length pre" and ?es = "orElse ct []"
  obtain ws1 v where b1: "b1 = rb ws1" and v: "contentValue content v" and emb: "embeds ?ws ws1 ?j v"
    and len1: "length ws1 \<le> length ?ws + 2 ^ 23" and none: "content = None \<longrightarrow> ws1 = ?ws"
    using writePayload_rb [OF content] by auto
  have le: "length ?ws \<le> length ws1" using emb by (simp add: embeds_def)
  let ?us = "take (?j + 1) ws1" and ?vs = "drop (?j + 2) ws1"
  have us: "length ?us = ?j + 1" using le by simp
  have vs: "length ?vs = length ws1 - (?j + 2)" by simp
  have split: "ws1 = ?us @ ws1 ! (?j + 1) # ?vs"
    using le id_take_nth_drop [of "?j + 1" ws1] by simp
  have cap: "length (capTableWords t ?es) = length (capTableWords 0 ?es)" for t by (simp add: capTableWords_def)
  let ?L = "listPtr (int (length ?vs)) 7 (2 * int (length ?es))"
  define W where "W = ?us @ ?L # ?vs @ capTableWords (int (length ?us) + int (length ?vs) + 1) ?es"
  have small': "length ?us + length ?vs + length (capTableWords 0 ?es) + 1 < 2 ^ 28"
    using small len1 le us vs by simp
  have b2: "b2 = rb W"
  proof -
    have "encodeCapTable (rb (?us @ ws1 ! (?j + 1) # ?vs)) (int (length ?us)) ct = Inr (rb W)"
      unfolding W_def by (rule encodeCapTable_rb [OF fit small'])
    moreover have "encodeCapTable (rb ws1) (int (length ?us)) ct = Inr b2"
      using table b1 us by (simp add: add.commute)
    ultimately show ?thesis unfolding split [symmetric] by (metis sum.inject(2))
  qed
  have len3: "length W = length ws1 + length (capTableWords 0 ?es)"
    unfolding W_def using le us vs cap [of "int (length ?us) + int (length ?vs) + 1"]
    by (simp only: length_append list.size(4))
  have keep: "W ! k = ws1 ! k" if k: "k < length ws1" "k \<noteq> ?j + 1" for k
  proof (cases "k < ?j + 1")
    case True
    then show ?thesis unfolding W_def using us by (simp only: nth_append) simp
  next
    case False
    then have "?j + 2 \<le> k" using k by simp
    then obtain i where i: "k = ?j + 2 + i" by (rule less_eqE)
    then have i': "k = Suc (length ?us) + i" using us by simp
    have "i < length ?vs" using i k by simp
    then have "W ! k = ?vs ! i" unfolding i' W_def by (simp add: nth_append)
    then show ?thesis using i k by simp
  qed
  have s28: "length W < 2 ^ 28" using small' us vs le len3 by simp
  have dec: "decodeCapTableFromPayload (wordTable W) (loc0 (int (length ?us))) = Inr (map decodedCap ?es)"
    using s28 unfolding W_def by (rule decodeCapTable_words [OF fit _ refl])
  have fl: "flat (memOf W) (int (length W)) (int ?j) v" if "v \<noteq> StructV [] []"
  proof (rule flat_mono)
    show "flat (outBlock ?j ?ws ws1) (int (length ws1)) (int ?j) v" using emb that by (simp add: embeds_def)
    fix k w assume "outBlock ?j ?ws ws1 k = Some w"
    then have k: "k = int ?j \<or> int (length ?ws) \<le> k" "0 \<le> k" "k < int (length ws1)" "w = ws1 ! nat k"
      by (auto simp: outBlock_Some)
    then have "W ! nat k = ws1 ! nat k" by (intro keep) auto
    then show "memOf W k = Some w" using k len3 by (simp only: memOf_Some) simp
  qed (use len3 in simp)
  have other: "W ! k = ?ws ! k" if "k < ?j + 2 + length post" "k \<noteq> ?j" "k \<noteq> ?j + 1" for k
    using keep [of k] that emb le by (simp add: embeds_def)
  have "memOf W (int ?j) = Some 0" if "content = None"
  proof -
    have "W ! ?j = ?ws ! ?j" using keep [of ?j] none that by simp
    then show ?thesis using le len3 by (simp only: memOf_Some) simp
  qed
  moreover have "payloadAt W (int ?j) v (map decodedCap ?es)"
    unfolding payloadAt_def using dec fl le len3 us by (simp add: add.commute)
  ultimately show ?thesis using b2 s28 other v le len3 by (intro exI [of _ W] exI [of _ v]) simp
qed

lemma decodePayload_words:
  assumes p: "payloadAt ws p v caps" and ptr: "ws ! nat i = structPtr off 0 2" "0 \<le> i" "i < int (length ws)"
    and off: "inOffsetRange off" "p = i + 1 + off"
  shows "decodePayload (wordTable ws) (readerOf ws) (loc0 i) ctx =
    bindE (rethrow (decodeAnyPointerMessageFromReader (readerOf ws) 0 p noCopyOptions) ctx) (\<lambda>c. Inr (c, caps))"
proof -
  have b: "0 \<le> p" "p + 1 < int (length ws)"
    and t: "decodeCapTableFromPayload (wordTable ws) (loc0 (p + 1)) = Inr caps"
    using p by (auto simp: payloadAt_def)
  have s: "decodeStructPointer (wordTable ws) (loc0 i) = Inr (Some (struct0 p 0 2))"
    using struct_at [OF ptr(2,3,1) off(1)] off b by simp
  show ?thesis
    using t by (simp add: decodePayload_def s slot_at noCopyOptions_def) (simp add: loc0_def)
qed

section \<open>A return with results\<close>

lemma encodeResults_words:
  assumes "0 \<le> a" "a < 2 ^ 32"
  shows "encodeReturnResultsFrame \<lparr>rf_answerId = jint a, rf_content = content, rf_capTable = ct,
      rf_releaseParamCaps = r, rf_noFinishNeeded = f\<rparr> =
    bindE (writePayloadContentPointer
        (rb (returnPrefix a (returnFlags (orElse r True) (orElse f False)) 0 @ [structPtr 0 0 2, 0, 0])) 6 content ''content'') (\<lambda>b.
    bindE (encodeCapTable b 7 ct) rbToMessageBytes)"
  using assms
  by (simp add: encodeReturnResultsFrame_def building rb_writes encodeReturnFlags_rb returnPrefix_def returnWord_def Let_def)

lemma returnResults_encoded:
  assumes enc: "encodeReturnResultsFrame \<lparr>rf_answerId = jint a, rf_content = content, rf_capTable = ct,
      rf_releaseParamCaps = r, rf_noFinishNeeded = f\<rparr> = Inr frame"
    and a: "0 \<le> a" "a < 2 ^ 32" and fit: "contactsFit (orElse ct [])"
    and small: "length (capTableWords 0 (orElse ct [])) < 2 ^ 26"
  shows "\<exists>ws v. frame = frameOf [bytesOf ws] \<and> contentValue content v \<and>
    payloadAt ws 6 v (map decodedCap (orElse ct [])) \<and> (content = None \<longrightarrow> memOf ws 6 = Some 0) \<and>
    decodeReturnFrame frame =
      bindE (rethrow (decodeAnyPointerMessageFromReader (readerOf ws) 0 6 noCopyOptions)
               ''invalid return results content pointer'') (\<lambda>c.
      Inr (ReturnResults a c (map decodedCap (orElse ct []))
             \<lparr>fl_releaseParamCaps = orElse r True, fl_noFinishNeeded = orElse f False\<rparr>))"
proof -
  let ?fl = "returnFlags (orElse r True) (orElse f False)" and ?caps = "map decodedCap (orElse ct [])"
  let ?pre = "returnPrefix a ?fl 0 @ [structPtr 0 0 2]"
  obtain b1 b2 where "writePayloadContentPointer (rb (?pre @ [0, 0] @ [])) 6 content ''content'' = Inr b1"
    "encodeCapTable b1 7 ct = Inr b2" and out: "rbToMessageBytes b2 = Inr frame"
    using enc unfolding encodeResults_words [OF a] by (auto simp: bindE_eq_Inr)
  then have w: "writePayloadContentPointer (rb (?pre @ [0, 0] @ [])) (int (length ?pre)) content ''content'' = Inr b1"
    and c: "encodeCapTable b1 (int (length ?pre) + 1) ct = Inr b2" by (simp_all add: returnPrefix_def)
  have lp: "length ?pre = 6" "int (length ?pre) = 6" by (simp_all add: returnPrefix_def)
  have "length ?pre + length [] + length (capTableWords 0 (orElse ct [])) < 2 ^ 27" using small lp by simp
  from payload_written [OF w c fit this] obtain ws v where b2: "b2 = rb ws" and len: "length ws < 2 ^ 28" "8 \<le> length ws"
    and keep8: "\<forall>k < 8. k \<noteq> 6 \<longrightarrow> k \<noteq> 7 \<longrightarrow> ws ! k = (?pre @ [0, 0] @ []) ! k" and v: "contentValue content v"
    and pay: "payloadAt ws 6 v ?caps" and null: "content = None \<longrightarrow> memOf ws 6 = Some 0"
    unfolding lp by auto
  have keep: "ws ! k = ?pre ! k" if "k < 6" for k
    using keep8 that lp by (simp add: nth_append)
  have len32: "length ws < 2 ^ 32" using len by simp
  have frame: "frame = frameOf [bytesOf ws]" using out rbToMessageBytes_rb [OF len32] b2 by simp
  have w: "ws ! 0 = structPtr 0 1 1" "ws ! 1 = putField 2 0 3 0" "ws ! 2 = structPtr 0 2 1"
    "ws ! 3 = returnWord a ?fl 0" "ws ! 5 = structPtr 0 0 2"
    using keep by (simp_all add: returnPrefix_def)
  have "messageVariant (wordTable ws) 3 wrong n = Inr (struct0 3 2 1)" for wrong n
    by (rule messageVariant_words) (use w len in simp_all)
  moreover have "readU32InStruct (wordTable ws) (struct0 3 2 1) 0 = Inr a"
    using a len w u32_at [of 3 0 2 ws 1] returnWord_fields [of a 0 ?fl] by simp
  moreover have "readU16InStruct (wordTable ws) (struct0 3 2 1) 6 = Inr 0"
    using a len w u16_at [of 3 6 2 ws 1] returnWord_fields [of a 0 ?fl] by simp
  moreover have "decodeReturnFlags (wordTable ws) (struct0 3 2 1) =
      Inr \<lparr>fl_releaseParamCaps = orElse r True, fl_noFinishNeeded = orElse f False\<rparr>"
    by (rule decodeReturnFlags_words) (use w len in simp_all)
  moreover have "decodePayload (wordTable ws) (readerOf ws) (loc0 5) ctx =
      bindE (rethrow (decodeAnyPointerMessageFromReader (readerOf ws) 0 6 noCopyOptions) ctx) (\<lambda>c. Inr (c, ?caps))" for ctx
    by (rule decodePayload_words [OF pay, of 5 0]) (use w len in \<open>simp_all add: inOffsetRange_def\<close>)
  ultimately have "decodeReturnFrame frame =
      bindE (rethrow (decodeAnyPointerMessageFromReader (readerOf ws) 0 6 noCopyOptions)
               ''invalid return results content pointer'') (\<lambda>c.
      Inr (ReturnResults a c ?caps \<lparr>fl_releaseParamCaps = orElse r True, fl_noFinishNeeded = orElse f False\<rparr>))"
    unfolding frame
    by (simp add: decodeReturnFrame_def segmentsFromFrame_words [OF len32] newMessageReader_words [OF len32] slot_at bindE_assoc)
  then show ?thesis using frame v pay null by blast
qed

section \<open>Payloads within the limits\<close>

text \<open>A content that the default copy limits admit; an empty struct is lost by the copy.\<close>

definition contentFits :: "bytes option \<Rightarrow> wire_value \<Rightarrow> bool" where
  "contentFits content v \<longleftrightarrow> contentValue content v \<and> v \<noteq> StructV [] [] \<and> withinCopyLimits noCopyOptions v"

lemma contentValue_unique: "contentValue content v \<Longrightarrow> contentValue content v' \<Longrightarrow> v = v'"
  using reads_unique by (fastforce simp: contentValue_def split: option.splits)

lemma noCopyOptions_budget:
  "newAnyPointerCopyBudget noCopyOptions =
     Inr \<lparr>cb_work = 8 * 1024 * 1024, cb_outputWords = 8 * 1024 * 1024 - 1, cb_maxDepth = 64\<rparr>"
  by (simp add: newAnyPointerCopyBudget_def noCopyOptions_def orDefault_def checkBudget_def MAX_SAFE_INTEGER_def
      chargeOutput_def Let_def)

lemma default_limits:
  "withinCopyLimits noCopyOptions v \<longleftrightarrow> workOf v \<le> 2 ^ 23 \<and> outputOf v < 2 ^ 23 \<and> depthOf v \<le> 64"
  by (auto simp: withinCopyLimits_def noCopyOptions_budget)

lemma decodeAny_flat:
  assumes "flat (memOf ws) (int (length ws)) p v" "withinCopyLimits noCopyOptions v"
  shows "\<exists>m r. decodeAnyPointerMessageFromReader (readerOf ws) 0 p noCopyOptions = Inr m \<and>
    newMessageReader m = Inr r \<and> reads r 0 0 v"
proof -
  have lim: "outputLimit noCopyOptions < 2 ^ 32" by (simp add: outputLimit_default)
  have rd: "reads (readerOf ws) 0 p v" by (rule flat_reads [OF assms(1)])
  obtain us where dec: "decodeAnyPointerMessageFromReader (readerOf ws) 0 p noCopyOptions = Inr (frameOf [bytesOf us])"
    using decodeAnyPointer_succeeds [OF rd assms(2)] by blast
  obtain us' v' where us': "frameOf [bytesOf us] = frameOf [bytesOf us']" "int (length us') \<le> outputLimit noCopyOptions"
    "reads (readerOf ws) 0 p v'" "flat (memOf us') (int (length us')) 0 v'"
    using decodeAnyPointer_keeps_value [OF dec lim] by blast
  have "length us' < 2 ^ 32" using us'(2) by (simp add: outputLimit_default)
  then have "newMessageReader (frameOf [bytesOf us]) = Inr (readerOf us')"
    by (simp add: us'(1) newMessageReader_words)
  moreover have "reads (readerOf us') 0 0 v" using flat_reads [OF us'(4)] reads_unique [OF rd us'(3)] by simp
  ultimately show ?thesis using dec by blast
qed

lemma writePayload_succeeds:
  assumes "contentFits content v" "j < length ws" "ws ! j = 0" "length ws < 2 ^ 28"
  shows "\<exists>b'. writePayloadContentPointer (rb ws) (int j) content name = Inr b'"
proof (cases content)
  case None
  then show ?thesis using writePayload_none [of "int j" ws name] assms by simp
next
  case (Some m)
  then obtain r where r: "newMessageReader m = Inr r" "reads r 0 0 v"
    using assms(1) by (auto simp: contentFits_def contentValue_def)
  have lim: "withinCopyLimits noCopyOptions v" using assms(1) by (simp add: contentFits_def)
  have "\<exists>b'. encodeAnyPointerMessageIntoBuilder (\<lambda>b n. rbAllocWords b (jint n)) rbWriteWord (rb ws) (int j) m noCopyOptions = Inr b'"
    by (rule rpcBuilder.encodeAny_succeeds [OF r lim assms(2)])
      (use lim assms(4) in \<open>simp_all add: default_limits outputLimit_default\<close>)
  moreover have "m \<noteq> []" using r(1) by (auto simp: newMessageReader_def)
  ultimately show ?thesis using Some by (auto simp: writePayloadContentPointer_def normalizePayloadContent_def)
qed

lemma payload_succeeds:
  assumes content: "contentFits content v" and fit: "contactsFit (orElse ct [])"
    and small: "length pre + length post + length (capTableWords 0 (orElse ct [])) < 2 ^ 27"
  shows "\<exists>b1 ws. writePayloadContentPointer (rb (pre @ [0, 0] @ post)) (int (length pre)) content name = Inr b1 \<and>
    encodeCapTable b1 (int (length pre) + 1) ct = Inr (rb ws) \<and> length ws < 2 ^ 28"
proof -
  let ?ws = "pre @ [0, 0] @ post" and ?j = "length pre"
  obtain b1 where w: "writePayloadContentPointer (rb ?ws) (int ?j) content name = Inr b1"
    using writePayload_succeeds [OF content, of ?j ?ws name] small by auto
  obtain ws1 v' where b1: "b1 = rb ws1" and emb: "embeds ?ws ws1 ?j v'" and len1: "length ws1 \<le> length ?ws + 2 ^ 23"
    using writePayload_rb [OF w] by auto
  have le: "length ?ws \<le> length ws1" using emb by (simp add: embeds_def)
  let ?us = "take (?j + 1) ws1" and ?vs = "drop (?j + 2) ws1"
  have us: "length ?us = ?j + 1" using le by simp
  have split: "ws1 = ?us @ ws1 ! (?j + 1) # ?vs" using le id_take_nth_drop [of "?j + 1" ws1] by simp
  have small': "length ?us + length ?vs + length (capTableWords 0 (orElse ct [])) + 1 < 2 ^ 28"
    using small len1 le us by simp
  have "\<exists>ws2. encodeCapTable (rb ws1) (int (length ?us)) ct = Inr (rb ws2)"
    using encodeCapTable_rb [OF fit small'] split by metis
  then obtain ws2 where c: "encodeCapTable b1 (int ?j + 1) ct = Inr (rb ws2)" using b1 us by (auto simp: add.commute)
  obtain ws where "rb ws2 = rb ws" "length ws < 2 ^ 28" using payload_written [OF w c fit small] by blast
  then show ?thesis using w c by auto
qed

lemma noContent: "contentFits None NullV"
  by (simp add: contentFits_def contentValue_def default_limits)

lemma results_roundtrip:
  assumes a: "0 \<le> a" "a < 2 ^ 32" and fit: "contactsFit (orElse ct [])"
    and small: "length (capTableWords 0 (orElse ct [])) < 2 ^ 26" and v: "contentFits content v"
  shows "\<exists>frame m r. encodeReturnResultsFrame \<lparr>rf_answerId = jint a, rf_content = content, rf_capTable = ct,
      rf_releaseParamCaps = rp, rf_noFinishNeeded = nf\<rparr> = Inr frame \<and>
    decodeReturnFrame frame = Inr (ReturnResults a m (map decodedCap (orElse ct []))
      \<lparr>fl_releaseParamCaps = orElse rp True, fl_noFinishNeeded = orElse nf False\<rparr>) \<and>
    newMessageReader m = Inr r \<and> reads r 0 0 v"
proof -
  let ?pre = "returnPrefix a (returnFlags (orElse rp True) (orElse nf False)) 0 @ [structPtr 0 0 2]"
  have lp: "int (length ?pre) = 6" "length ?pre = 6" by (simp_all add: returnPrefix_def)
  have "length ?pre + length [] + length (capTableWords 0 (orElse ct [])) < 2 ^ 27" using small lp by simp
  from payload_succeeds [OF v fit this] obtain b1 us
    where w: "writePayloadContentPointer (rb (?pre @ [0, 0] @ [])) 6 content ''content'' = Inr b1"
    and c: "encodeCapTable b1 7 ct = Inr (rb us)" and us: "length us < 2 ^ 28"
    unfolding lp(1) by fastforce
  have "rbToMessageBytes (rb us) = Inr (frameOf [bytesOf us])" using us by (intro rbToMessageBytes_rb) simp
  then have enc: "encodeReturnResultsFrame \<lparr>rf_answerId = jint a, rf_content = content, rf_capTable = ct,
      rf_releaseParamCaps = rp, rf_noFinishNeeded = nf\<rparr> = Inr (frameOf [bytesOf us])"
    unfolding encodeResults_words [OF a] using w c by simp
  obtain ws v' where v': "contentValue content v'" and pay: "payloadAt ws 6 v' (map decodedCap (orElse ct []))"
    and dec: "decodeReturnFrame (frameOf [bytesOf us]) =
      bindE (rethrow (decodeAnyPointerMessageFromReader (readerOf ws) 0 6 noCopyOptions)
               ''invalid return results content pointer'') (\<lambda>c.
      Inr (ReturnResults a c (map decodedCap (orElse ct []))
             \<lparr>fl_releaseParamCaps = orElse rp True, fl_noFinishNeeded = orElse nf False\<rparr>))"
    using returnResults_encoded [OF enc a fit small] by blast
  have "v' = v" using contentValue_unique v' v by (auto simp: contentFits_def)
  then have "flat (memOf ws) (int (length ws)) 6 v" using pay v by (simp add: payloadAt_def contentFits_def)
  moreover have "withinCopyLimits noCopyOptions v" using v by (simp add: contentFits_def)
  ultimately obtain m r where "decodeAnyPointerMessageFromReader (readerOf ws) 0 6 noCopyOptions = Inr m"
    "newMessageReader m = Inr r" "reads r 0 0 v" using decodeAny_flat by blast
  then show ?thesis using enc dec by (auto simp: rethrow_def)
qed

end
