(* ===== verification/Value_Samples.thy ===== *)
theory Value_Samples
  imports Payload_Roundtrip
begin

text \<open>
  A message of one struct with a data word and a null pointer, which the witnesses copy and send.
\<close>

section \<open>A sample message\<close>

definition sampleWords :: "64 word list" where
  "sampleWords = [structPtr 0 1 1, 7, 0]"

definition sampleValue :: wire_value where
  "sampleValue = StructV [7] [NullV]"

lemma sampleFlat: "flat (memOf sampleWords) (int (length sampleWords)) 0 sampleValue"
proof -
  note f = structPtr_fields [of 0 1 1, simplified inOffsetRange_def, simplified]
  have nz: "structPtr 0 1 1 \<noteq> 0"
  proof
    assume "structPtr 0 1 1 = 0"
    then have "structDataWords (0 :: 64 word) = 1" using f by simp
    then show False by (simp add: structDataWords_def)
  qed
  show ?thesis unfolding sampleValue_def
    by (rule flat.struct [of _ _ "structPtr 0 1 1" 1])
      (use nz f in \<open>auto simp: sampleWords_def memOf_def inOffsetRange_def fitsIn_def known_def intro!: flat.null\<close>)
qed

lemma sampleReads: "reads (readerOf sampleWords) 0 0 sampleValue"
  by (rule flat_reads [OF sampleFlat])

lemma sampleReader: "newMessageReader (frameOf [bytesOf sampleWords]) = Inr (readerOf sampleWords)"
  by (rule newMessageReader_words) (simp add: sampleWords_def)

lemma sampleLimits: "withinCopyLimits noCopyOptions sampleValue"
  by (simp add: default_limits sampleValue_def deepest_def)

text \<open>As the content of a payload.\<close>

lemma sampleContent: "contentFits (Some (frameOf [bytesOf sampleWords])) sampleValue"
  using sampleReader sampleReads sampleLimits by (auto simp: contentFits_def contentValue_def sampleValue_def)

end
