(* ===== verification/Runtime_Roundtrip.thy ===== *)
theory Runtime_Roundtrip
  imports Wire_Values
begin

text \<open>
  Text and data pointers written through a \<open>MessageBuilder\<close> and read through a \<open>MessageReader\<close>,
  on the words of the segment.
\<close>

section \<open>Writing bytes\<close>

lemma setUint8_zero:
  assumes "setUint8 xs i 0 = Inr ys" "xs ! nat i = 0"
  shows "ys = xs"
proof (rule nth_equalityI)
  show "length ys = length xs" using assms(1) by (simp add: setUint8_def setLE_def setBytes_length)
  fix k assume "k < length ys"
  show "ys ! k = xs ! k"
    using setBytes_nth [of xs "[0]" i ys k] assms by (cases "k = nat i") (auto simp: setUint8_def setLE_def)
qed

lemma heapOf_pad_nth:
  assumes "length bs < 8 * n"
  shows "heapOf (ws @ padWords n bs) ! (8 * length ws + length bs) = 0"
  using assms by (simp add: heapOf_def bytesOf_padWords nth_append)

lemma setUint8_terminator:
  assumes "length bs + 1 \<le> 8 * n"
  shows "setUint8 (heapOf (ws @ padWords n bs)) (int (length ws) * 8 + int (length bs)) 0 =
    Inr (heapOf (ws @ padWords n bs))"
proof -
  let ?xs = "heapOf (ws @ padWords n bs)" and ?i = "int (length ws) * 8 + int (length bs)"
  have le: "8 * (length ws + n) \<le> length ?xs" using capWords_ge [of "length ws + n"] by simp
  have "?i + 1 \<le> int (length ?xs)"
  proof -
    have "8 * length ws + length bs + 1 \<le> length ?xs" using le assms by simp
    then show ?thesis by simp
  qed
  then obtain ys where ys: "setUint8 ?xs ?i 0 = Inr ys"
    by (simp add: setUint8_def setLE_def setBytes_def)
  have "nat ?i = 8 * length ws + length bs" by simp
  then have "?xs ! nat ?i = 0" using heapOf_pad_nth [of bs n ws] assms by simp
  then show ?thesis using setUint8_zero [OF ys] ys by simp
qed

definition bytePointerWords :: "64 word list \<Rightarrow> nat \<Rightarrow> bytes \<Rightarrow> int \<Rightarrow> 64 word list" where
  "bytePointerWords ws j bs n =
     (ws @ padWords (nat (ceilDiv n 8)) bs)[j := listPtr (int (length ws) - (int j + 1)) 2 n]"

lemma mbAlloc_int: "0 \<le> n \<Longrightarrow> mbAllocWords (mb ws) (jint n) = Inr (int (length ws), mb (ws @ replicate (nat n) 0))"
  using mbAllocWords_mb [of ws "nat n"] by simp

lemma mbRequireByteRange_mb:
  assumes "0 \<le> i" "0 \<le> n" "i + n \<le> int (length ws) * 8"
  shows "mbRequireByteRange (mb ws) i n ctx = Inr ()"
  using assms by (simp add: mbRequireByteRange_def mb_def)

lemma setBytes_end:
  assumes "length bs \<le> 8 * n"
  shows "setBytes (mb_bytes (mb (ws @ replicate n 0))) bs (int (length ws) * 8) = Inr (heapOf (ws @ padWords n bs))"
  using setBytes_fresh [OF assms, of ws "[]"] by (simp add: mb_def mult.commute)

lemma mbWriteTextPointer_mb:
  assumes j: "j < length ws" and r: "inOffsetRange (int (length ws) - (int j + 1))"
    and n: "int (length (textEncode s)) + 1 < 2 ^ 29"
  shows "mbWriteTextPointer (mb ws) (int j) s =
    Inr (mb (bytePointerWords ws j (textEncode s) (int (length (textEncode s)) + 1)))"
proof -
  let ?bs = "textEncode s" and ?n = "int (length (textEncode s)) + 1"
  let ?m = "nat (ceilDiv ?n 8)"
  note t = text_words [of ?bs]
  have nn: "0 \<le> ceilDiv ?n 8" by (simp add: ceilDiv_nonneg)
  have "int (length ws) * 8 + ?n \<le> int (length (ws @ replicate ?m 0)) * 8"
  proof -
    have "8 * length ws + (length ?bs + 1) \<le> 8 * (length ws + ?m)" using t(2) by simp
    then have "int (8 * length ws + (length ?bs + 1)) \<le> int (8 * (length ws + ?m))" by (simp only: of_nat_le_iff)
    then show ?thesis by simp
  qed
  then have rng: "mbRequireByteRange (mb (ws @ replicate ?m 0)) (int (length ws) * 8) ?n ctx = Inr ()" for ctx
    by (intro mbRequireByteRange_mb) simp_all
  have st: "mb (ws @ replicate ?m 0)\<lparr>mb_bytes := heapOf (ws @ padWords ?m ?bs)\<rparr> = mb (ws @ padWords ?m ?bs)"
    by (simp add: mb_def)
  have j': "j < length (ws @ padWords ?m ?bs)" using j by simp
  show ?thesis
    unfolding mbWriteTextPointer_def Let_def bytesToWords_def mbAlloc_int [OF nn] bindE_Inr prod.case rng
      setBytes_end [OF t(1)] setUint8_terminator [OF t(2)] st
    using mbSetListPointer_mb [OF j' r, of 2 ?n] n nn
    by (simp add: bytePointerWords_def mbAlloc_int rng setBytes_end [OF t(1)] setUint8_terminator [OF t(2)] st)
qed

lemma mbWriteDataPointer_mb:
  assumes j: "j < length ws" and r: "inOffsetRange (int (length ws) - (int j + 1))"
    and n: "int (length bs) < 2 ^ 29"
  shows "mbWriteDataPointer (mb ws) (int j) bs = Inr (mb (bytePointerWords ws j bs (int (length bs))))"
proof -
  let ?n = "int (length bs)"
  let ?m = "nat (ceilDiv ?n 8)"
  have nn: "0 \<le> ceilDiv ?n 8" by (simp add: ceilDiv_nonneg)
  have "?n \<le> ceilDiv ?n 8 * 8" by (rule ceilDiv_upper) simp
  then have t: "length bs \<le> 8 * ?m" using nn by linarith
  have "int (length ws) * 8 + ?n \<le> int (length (ws @ replicate ?m 0)) * 8"
  proof -
    have "8 * length ws + length bs \<le> 8 * (length ws + ?m)" using t by simp
    then have "int (8 * length ws + length bs) \<le> int (8 * (length ws + ?m))" by (simp only: of_nat_le_iff)
    then show ?thesis by simp
  qed
  then have rng: "mbRequireByteRange (mb (ws @ replicate ?m 0)) (int (length ws) * 8) ?n ctx = Inr ()" for ctx
    by (intro mbRequireByteRange_mb) simp_all
  have st: "mb (ws @ replicate ?m 0)\<lparr>mb_bytes := heapOf (ws @ padWords ?m bs)\<rparr> = mb (ws @ padWords ?m bs)"
    by (simp add: mb_def)
  have j': "j < length (ws @ padWords ?m bs)" using j by simp
  show ?thesis
    using mbSetListPointer_mb [OF j' r, of 2 ?n] n nn
    by (simp add: mbWriteDataPointer_def Let_def bytesToWords_def bytePointerWords_def mbAlloc_int [OF nn] rng
        setBytes_end [OF t] st)
qed

section \<open>Reading them back\<close>

lemma bytePointerWords_simps:
  assumes "j < length ws"
  shows "length (bytePointerWords ws j bs n) = length ws + nat (ceilDiv n 8)"
    "bytePointerWords ws j bs n ! j = listPtr (int (length ws) - (int j + 1)) 2 n"
    "bytePointerWords ws j bs n =
       ws[j := listPtr (int (length ws) - (int j + 1)) 2 n] @ padWords (nat (ceilDiv n 8)) bs"
  using assms by (simp_all add: bytePointerWords_def list_update_append nth_append)

lemma readListPointer_bytes:
  assumes j: "j < length ws" and r: "inOffsetRange (int (length ws) - (int j + 1))" and n: "0 \<le> n" "n < 2 ^ 29"
  shows "readListPointer (readerOf (bytePointerWords ws j bs n)) 0 (int j) =
    Inr (Some (FlatList 0 (int (length ws)) 2 n))"
proof -
  let ?ws = "bytePointerWords ws j bs n" and ?w = "listPtr (int (length ws) - (int j + 1)) 2 n"
  have nn: "0 \<le> ceilDiv n 8" using n by (simp add: ceilDiv_nonneg)
  note f = listPtr_fields [OF r _ _ n, of 2, simplified]
  have m: "memOf ?ws (int j) = Some ?w" using j by (simp add: memOf_def bytePointerWords_simps(1,2))
  have fl: "flatListWords 2 n = ceilDiv n 8" by (simp add: flatListWords_def)
  have "fitsIn (int (length ?ws)) (int (length ws)) (ceilDiv n 8)"
    using j nn by (simp add: fitsIn_def bytePointerWords_simps(1))
  note req = mrRequireWordRange_readerOf [OF nn this]
  show ?thesis
    using resolved_readerOf [OF m] f listPtr_nonzero
    by (simp add: readListPointer_def mrFlatListWords_eq fl req Let_def)
qed

lemma readBytes_words:
  assumes "j < length ws" "length bs \<le> 8 * nat (ceilDiv (int n) 8)" "n \<le> 8 * nat (ceilDiv (int n) 8)"
  shows "readBytes (readerOf (bytePointerWords ws j bs (int n))) 0 (int (length ws) * 8) (int n) =
    Inr (take n (bs @ replicate (8 * nat (ceilDiv (int n) 8) - length bs) 0))"
proof -
  let ?m = "nat (ceilDiv (int n) 8)" and ?us = "ws[j := listPtr (int (length ws) - (int j + 1)) 2 (int n)]"
  have w: "bytePointerWords ws j bs (int n) = ?us @ padWords ?m bs @ []" using assms by (simp add: bytePointerWords_simps(3))
  have s: "subarray (bytesOf (?us @ padWords ?m bs @ [])) (int (length ws) * 8) (int (length ws) * 8 + int n) =
      take n (bs @ replicate (8 * ?m - length bs) 0)"
    using slice_words [OF assms(2,3), of ?us "[]"] by simp
  have "int (8 * length ws + n) \<le> int (length (bytesOf (?us @ padWords ?m bs @ [])))"
    using assms(3) by (simp only: of_nat_le_iff length_bytesOf) simp
  then have "\<not> int (length ws) * 8 + int n > int (length (bytesOf (?us @ padWords ?m bs @ [])))" by simp
  moreover have "mrSegment (readerOf (?us @ padWords ?m bs @ [])) 0 = Inr (bytesOf (?us @ padWords ?m bs @ []))"
    by (simp add: mrSegment_def readerOf_def segmentAt_def)
  ultimately show ?thesis unfolding w by (simp only: readBytes_def bindE_Inr s if_False) simp
qed

lemma readTextPointer_words:
  assumes j: "j < length ws" and r: "inOffsetRange (int (length ws) - (int j + 1))"
    and s: "wfString s" and n: "int (length (textEncode s)) + 1 < 2 ^ 29"
  shows "readTextPointer (readerOf (bytePointerWords ws j (textEncode s) (int (length (textEncode s)) + 1))) 0 (int j) =
    Inr (Some s)"
proof -
  let ?bs = "textEncode s" and ?n = "int (length (textEncode s)) + 1"
  let ?m = "nat (ceilDiv ?n 8)"
  note t = text_words [of ?bs]
  have "8 * ?m - length ?bs = Suc (8 * ?m - length ?bs - 1)" using t(2) by simp
  then have "replicate (8 * ?m - length ?bs) (0 :: byte) = 0 # replicate (8 * ?m - length ?bs - 1) 0"
    by (metis replicate_Suc)
  then have tk: "take (length ?bs + 1) (?bs @ replicate (8 * ?m - length ?bs) 0) = ?bs @ [0]" by simp
  have "int (length ?bs + 1) = ?n" by simp
  then have rd: "readBytes (readerOf (bytePointerWords ws j ?bs ?n)) 0 (int (length ws) * 8) ?n = Inr (?bs @ [0])"
    using readBytes_words [OF j, of ?bs "length ?bs + 1"] t(1,2) tk by (simp only:)
  show ?thesis
    using readListPointer_bytes [OF j r _ n, of ?bs] rd textDecodeStrict_textEncode [OF s]
    by (simp add: readTextPointer_def)
qed

lemma readDataPointer_words:
  assumes j: "j < length ws" and r: "inOffsetRange (int (length ws) - (int j + 1))" and n: "int (length bs) < 2 ^ 29"
  shows "readDataPointer (readerOf (bytePointerWords ws j bs (int (length bs)))) 0 (int j) = Inr (Some bs)"
proof -
  let ?n = "int (length bs)"
  have nn: "0 \<le> ceilDiv ?n 8" by (simp add: ceilDiv_nonneg)
  have "?n \<le> ceilDiv ?n 8 * 8" by (rule ceilDiv_upper) simp
  then have t: "length bs \<le> 8 * nat (ceilDiv ?n 8)" using nn by linarith
  show ?thesis
    using readListPointer_bytes [OF j r _ n, of bs] readBytes_words [OF j t t]
    by (simp add: readDataPointer_def)
qed

end
