(* ===== verification/Value_Properties.thy ===== *)
theory Value_Properties
  imports Value_Samples Any_Pointer_Messages Runtime_Roundtrip
begin

unbundle bit_operations_syntax

text \<open>
  Properties of \<open>MessageBuilder\<close>, \<open>MessageReader\<close> and the budgeted AnyPointer copy, stated with the
  value that the reader reads at a pointer.
\<close>

section \<open>The budgeted copy\<close>

text \<open>C16: The copy is sound. A message that \<open>decodeAnyPointerMessageFromReader\<close> returns stays within the
  output limit and its root reads the value the source pointer reads, far pointers and segments
  resolved.\<close>

theorem copy_keeps_value:
  assumes "decodeAnyPointerMessageFromReader r s i options = Inr message" "outputLimit options < 2 ^ 32"
  shows "\<exists>v r'. reads r s i v \<and> newMessageReader message = Inr r' \<and> reads r' 0 0 v \<and>
    int (length message) \<le> 8 + 8 * outputLimit options"
proof -
  obtain ws v where ws: "message = frameOf [bytesOf ws]" "int (length ws) \<le> outputLimit options"
    "reads r s i v" "flat (memOf ws) (int (length ws)) 0 v"
    using decodeAnyPointer_keeps_value [OF assms] by blast
  have "length ws < 2 ^ 32" using ws(2) assms(2) by simp
  then have "newMessageReader message = Inr (readerOf ws)" by (simp add: ws newMessageReader_words)
  moreover have "length message = 8 + 8 * length ws"
    by (simp add: ws frameOf_def frameHeader_def)
  ultimately show ?thesis using ws flat_reads by auto
qed

theorem copy_keeps_value_witness:
  "\<exists>message v r'. reads (readerOf sampleWords) 0 0 v \<and> newMessageReader message = Inr r' \<and> reads r' 0 0 v"
proof -
  obtain ws where "decodeAnyPointerMessageFromReader (readerOf sampleWords) 0 0 noCopyOptions = Inr (frameOf [bytesOf ws])"
    using decodeAnyPointer_succeeds [OF sampleReads sampleLimits] by blast
  from copy_keeps_value [OF this] show ?thesis by (auto simp: outputLimit_default)
qed

text \<open>C17: The copy is complete. A value that the reader reads and whose work, output and nesting fit the
  options is always copied, whatever the segments and pointers it is made of, and the message
  returned has exactly one root word and the output words of the value.\<close>

theorem copy_succeeds:
  assumes "reads r s i v" "withinCopyLimits options v" "outputLimit options < 2 ^ 32"
  shows "\<exists>message r'. decodeAnyPointerMessageFromReader r s i options = Inr message \<and>
    newMessageReader message = Inr r' \<and> reads r' 0 0 v \<and> length message = 8 + 8 * (1 + outputOf v)"
proof -
  obtain ws where dec: "decodeAnyPointerMessageFromReader r s i options = Inr (frameOf [bytesOf ws])"
    and l: "length ws = 1 + outputOf v" using decodeAnyPointer_succeeds [OF assms(1,2)] by blast
  obtain us u where us: "frameOf [bytesOf ws] = frameOf [bytesOf us]" "int (length us) \<le> outputLimit options"
    "reads r s i u" "flat (memOf us) (int (length us)) 0 u"
    using decodeAnyPointer_keeps_value [OF dec assms(3)] by blast
  have "length us < 2 ^ 32" using us(2) assms(3) by simp
  then have "newMessageReader (frameOf [bytesOf ws]) = Inr (readerOf us)" by (simp add: us(1) newMessageReader_words)
  moreover have "reads (readerOf us) 0 0 v" using flat_reads [OF us(4)] reads_unique [OF assms(1) us(3)] by simp
  moreover have "length (frameOf [bytesOf ws]) = 8 + 8 * (1 + outputOf v)"
    using l by (simp add: frameOf_def frameHeader_def)
  ultimately show ?thesis using dec by blast
qed

theorem copy_succeeds_witness:
  "\<exists>message r'. decodeAnyPointerMessageFromReader (readerOf sampleWords) 0 0 noCopyOptions = Inr message \<and>
    newMessageReader message = Inr r' \<and> reads r' 0 0 sampleValue"
  using copy_succeeds [OF sampleReads sampleLimits] by (auto simp: outputLimit_default)

text \<open>C22: A message embedded into a \<open>MessageBuilder\<close> and sent is read back. With the limits respected,
  \<open>encodeAnyPointerMessageIntoBuilder\<close> succeeds, changes no word written before other than the
  slot, and the finished message reads the value of the source at the slot (an empty struct
  excepted).\<close>

theorem embedded_message_read_back:
  assumes "newMessageReader message = Inr r" "reads r 0 0 v" "v \<noteq> StructV [] []"
    and "withinCopyLimits options v" "j < length ws" "int (length ws) + outputLimit options \<le> 2 ^ 29"
  shows "\<exists>b out r'. encodeAnyPointerMessageIntoBuilder (\<lambda>b n. mbAllocWords b (jint n)) mbWriteWord
      (mb ws) (int j) message options = Inr b \<and> mbToMessageBytes b = Inr out \<and> newMessageReader out = Inr r' \<and>
    reads r' 0 (int j) v \<and> (\<forall>k < length ws. k \<noteq> j \<longrightarrow> mrReadWord r' 0 (int k) = Inr (ws ! k))"
proof -
  have out: "outputLimit options < 2 ^ 32" using assms(6) by simp
  have "int (outputOf v) + 1 \<le> outputLimit options"
    using assms(4) newBudget_output [of options] by (auto simp: withinCopyLimits_def split: sum.splits)
  then have room: "int (length ws) + 1 + int (outputOf v) \<le> 2 ^ 29" using assms(6) by linarith
  obtain b where enc: "encodeAnyPointerMessageIntoBuilder (\<lambda>b n. mbAllocWords b (jint n)) mbWriteWord
      (mb ws) (int j) message options = Inr b"
    using runtimeBuilder.encodeAny_succeeds [OF assms(1,2,4,5) room out] by blast
  obtain r0 v' ws' where *: "newMessageReader message = Inr r0" "reads r0 0 0 v'" "b = mb ws'"
    and len: "int (length ws') \<le> int (length ws) + outputLimit options" and emb: "embeds ws ws' j v'"
    using runtimeBuilder.encodeAny_conc [OF enc assms(5) out] by blast
  have v: "v' = v" using *(1,2) assms(1,2) reads_unique by auto
  have small: "length ws' < 2 ^ 32" using len assms(6) by simp
  have "flat (memOf ws') (int (length ws')) (int j) v"
    by (rule flat_mono [of "outBlock j ws ws'" "int (length ws')"])
      (use emb assms(3) v in \<open>auto simp: embeds_def outBlock_Some memOf_Some\<close>)
  then have "reads (readerOf ws') 0 (int j) v" by (rule flat_reads)
  moreover have "mrReadWord (readerOf ws') 0 (int k) = Inr (ws ! k)" if "k < length ws" "k \<noteq> j" for k
    using emb that by (simp add: mrReadWord_readerOf memOf_Some embeds_def)
  ultimately show ?thesis
    using enc *(3) mbToMessageBytes_mb [OF small] newMessageReader_words [OF small] by blast
qed

theorem embedded_message_read_back_witness:
  "\<exists>b out r'. encodeAnyPointerMessageIntoBuilder (\<lambda>b n. mbAllocWords b (jint n)) mbWriteWord
      (mb [0, 5]) (int 0) (frameOf [bytesOf sampleWords]) noCopyOptions = Inr b \<and>
    mbToMessageBytes b = Inr out \<and> newMessageReader out = Inr r' \<and> reads r' 0 0 sampleValue \<and>
    mrReadWord r' 0 1 = Inr 5"
proof -
  have "sampleValue \<noteq> StructV [] []" by (simp add: sampleValue_def)
  from embedded_message_read_back [OF sampleReader sampleReads this sampleLimits, of 0 "[0, 5]"]
  obtain b out r' where *: "encodeAnyPointerMessageIntoBuilder (\<lambda>b n. mbAllocWords b (jint n)) mbWriteWord
      (mb [0, 5]) (int 0) (frameOf [bytesOf sampleWords]) noCopyOptions = Inr b" "mbToMessageBytes b = Inr out"
    "newMessageReader out = Inr r'" "reads r' 0 (int 0) sampleValue"
    and k: "\<forall>k < length [0, 5 :: 64 word]. k \<noteq> 0 \<longrightarrow> mrReadWord r' 0 (int k) = Inr ([0, 5] ! k)"
    by (auto simp: outputLimit_default)
  have "mrReadWord r' 0 1 = Inr 5" using k [rule_format, of 1] by simp
  then show ?thesis using * by auto
qed

text \<open>An empty struct is lost by the same function. A message whose root is a non-null pointer to an
  empty struct, embedded right after its slot, is stored as the null pointer: the reader finds a
  struct in the source and nothing in the copy.\<close>

theorem empty_struct_becomes_null:
  "bindE (newMessageReader (frameOf [bytesOf [0xFFFFFFFC]])) (\<lambda>r. readStructPointer r 0 0) =
     Inr (Some \<lparr>sr_segmentId = 0, sr_startWord = 0, sr_dataWordCount = 0, sr_pointerCount = 0\<rparr>) \<and>
   bindE (encodeAnyPointerMessageIntoBuilder (\<lambda>b n. mbAllocWords b (jint n)) mbWriteWord
      newMessageBuilder 0 (frameOf [bytesOf [0xFFFFFFFC]]) noCopyOptions) (\<lambda>b.
   bindE (mbToMessageBytes b) (\<lambda>out. bindE (newMessageReader out) (\<lambda>r. readStructPointer r 0 0))) = Inr None"
  by code_simp

section \<open>Text and data\<close>

text \<open>Text written with \<open>writeTextPointer\<close> and sent is read back by \<open>readTextPointer\<close>, for every string
  without lone surrogates that fits a list pointer: UTF-8, the NUL terminator, padding and the
  pointer included.\<close>

theorem text_roundtrip:
  assumes "wfString s" "int (length (textEncode s)) + 1 < 2 ^ 29" "j < length ws" "length ws \<le> 2 ^ 29"
  shows "bindE (mbWriteTextPointer (mb ws) (int j) s) (\<lambda>b. bindE (mbToMessageBytes b) (\<lambda>out.
    bindE (newMessageReader out) (\<lambda>r. readTextPointer r 0 (int j)))) = Inr (Some s)"
proof -
  have r: "inOffsetRange (int (length ws) - (int j + 1))" using assms(3,4) by (simp add: inOffsetRange_def)
  let ?ws = "bytePointerWords ws j (textEncode s) (int (length (textEncode s)) + 1)"
  have "length ?ws < 2 ^ 32"
    using assms text_words(3) [of "textEncode s"] by (simp add: bytePointerWords_simps(1))
  then show ?thesis
    using mbWriteTextPointer_mb [OF assms(3) r assms(2)] readTextPointer_words [OF assms(3) r assms(1,2)]
    by (simp add: mbToMessageBytes_mb newMessageReader_words)
qed

theorem text_roundtrip_witness:
  "bindE (mbWriteTextPointer (mb [0]) (int 0) [0x48, 0xE9, 0xD83D, 0xDE00]) (\<lambda>b. bindE (mbToMessageBytes b) (\<lambda>out.
    bindE (newMessageReader out) (\<lambda>r. readTextPointer r 0 (int 0)))) = Inr (Some [0x48, 0xE9, 0xD83D, 0xDE00])"
proof (rule text_roundtrip)
  show "wfString [0x48, 0xE9, 0xD83D, 0xDE00]" by (simp add: scalar_def isHigh_def isLow_def)
  show "int (length (textEncode [0x48, 0xE9, 0xD83D, 0xDE00])) + 1 < 2 ^ 29" by (simp add: textEncode_def utf8_char_def)
qed simp_all

section \<open>Bounds of struct fields\<close>

text \<open>The field accessors of \<open>MessageReader\<close> bound an access by the word it starts in, not by the
  struct: a field at byte 8 of a struct with one data word, which the struct does not have, is
  read from the word after the struct.\<close>

theorem field_past_struct_read:
  "bindE (newMessageReader (frameOf [bytesOf [structPtr 0 1 0, 7, 9]])) (\<lambda>r.
     bindE (readRootStruct r) (\<lambda>s. Inr (s, readUint16InStruct r s 8))) =
   Inr (\<lparr>sr_segmentId = 0, sr_startWord = 1, sr_dataWordCount = 1, sr_pointerCount = 0\<rparr>, Inr 9)"
  by code_simp

end
