(* ===== verification/Call_Roundtrip.thy ===== *)
theory Call_Roundtrip
  imports Payload_Roundtrip
begin

unbundle bit_operations_syntax

text \<open>
  Call frames: the target (an imported capability or a promised answer with its transform), the
  parameters, and what the decoder reads of them.
\<close>

section \<open>Operations of a promised answer\<close>

definition normalOp :: "number RpcPromisedAnswerOp \<Rightarrow> bool" where
  "normalOp op \<longleftrightarrow> op = \<lparr>op_tag = jint 0, op_pointerIndex = None\<rparr> \<or>
     (\<exists>p. op = \<lparr>op_tag = jint 1, op_pointerIndex = Some (jint p)\<rparr> \<and> 0 \<le> p \<and> p < 2 ^ 16)"

definition decodedOp :: "number RpcPromisedAnswerOp \<Rightarrow> int RpcPromisedAnswerOp" where
  "decodedOp op = \<lparr>op_tag = toInt (op_tag op),
     op_pointerIndex = (if op_tag op = jint 1 then map_option toInt (op_pointerIndex op) else None)\<rparr>"

definition opWord :: "number RpcPromisedAnswerOp \<Rightarrow> 64 word" where
  "opWord op =
     (if op_tag op = jint 1
      then putField 2 2 (word_of_int (toInt (orElse (op_pointerIndex op) NaN))) (putField 2 0 1 0)
      else putField 2 0 0 0)"

lemma normalize_normal: "normalizePromisedAnswerOp op name i = Inr op' \<Longrightarrow> normalOp op'"
  by (auto simp: normalizePromisedAnswerOp_def normalOp_def bindE_eq_Inr ensureU16_Inr split: if_splits option.splits
      elim!: withArgs.elims)

lemma normalize_decoded: "normalizePromisedAnswerOp op name i = Inr op' \<Longrightarrow> decodedOp op' = decodedOp op"
  by (auto simp: normalizePromisedAnswerOp_def decodedOp_def bindE_eq_Inr ensureU16_Inr split: if_splits option.splits
      elim!: withArgs.elims)

lemma normalize_idem: "normalOp op \<Longrightarrow> normalizePromisedAnswerOp op name i = Inr op"
  by (auto simp: normalizePromisedAnswerOp_def normalOp_def)

lemma encodeOp_rb:
  assumes "normalOp op" "t + 1 + i = int (length pre)"
  shows "encodePromisedAnswerOp t (i, op) (rb (pre @ 0 # zs)) = Inr (rb (pre @ opWord op # zs))"
proof -
  have k: "t + 1 + i = int (length pre)" by (rule assms(2))
  consider "op = \<lparr>op_tag = jint 0, op_pointerIndex = None\<rparr>"
    | p where "op = \<lparr>op_tag = jint 1, op_pointerIndex = Some (jint p)\<rparr>" "0 \<le> p" "p < 2 ^ 16"
    using assms(1) by (auto simp: normalOp_def)
  then show ?thesis
  proof cases
    case 1
    have "rbWriteU16 (rb (pre @ 0 # zs)) (int (length pre)) 0 0 = Inr (rb (pre @ putField 2 0 0 0 # zs))"
      using rb_mid(1) [of "int (length pre)" pre 0 0 0 zs] by simp
    then show ?thesis using 1
      by (simp add: encodePromisedAnswerOp_def normalize_idem normalOp_def opWord_def k Let_def)
  next
    case 2
    have "rbWriteU16 (rb (pre @ 0 # zs)) (int (length pre)) 0 1 = Inr (rb (pre @ putField 2 0 1 0 # zs))"
      using rb_mid(1) [of "int (length pre)" pre 1 0 0 zs] by simp
    moreover have "rbWriteU16 (rb (pre @ putField 2 0 1 0 # zs)) (int (length pre)) 2 p =
        Inr (rb (pre @ putField 2 2 (word_of_int p) (putField 2 0 1 0) # zs))"
      using rb_mid(1) [of "int (length pre)" pre p 2 "putField 2 0 1 0" zs] 2 by simp
    ultimately show ?thesis using 2
      by (simp add: encodePromisedAnswerOp_def normalize_idem normalOp_def opWord_def k Let_def)
  qed
qed

lemma encodeOps_rb:
  assumes "\<forall>op \<in> set ops. normalOp op" "t + 1 + i = int (length pre)"
  shows "loopE (encodePromisedAnswerOp t) (zip [i..i + int (length ops) - 1] ops) (rb (pre @ replicate (length ops) 0 @ zs)) =
    Inr (rb (pre @ map opWord ops @ zs))"
  using assms
proof (induction ops arbitrary: i pre)
  case (Cons op ops)
  have "encodePromisedAnswerOp t (i, op) (rb (pre @ 0 # replicate (length ops) 0 @ zs)) =
      Inr (rb (pre @ opWord op # replicate (length ops) 0 @ zs))"
    by (rule encodeOp_rb) (use Cons.prems in auto)
  moreover have "loopE (encodePromisedAnswerOp t) (zip [i + 1..i + 1 + int (length ops) - 1] ops)
      (rb ((pre @ [opWord op]) @ replicate (length ops) 0 @ zs)) = Inr (rb ((pre @ [opWord op]) @ map opWord ops @ zs))"
    by (rule Cons.IH) (use Cons.prems in auto)
  ultimately show ?case unfolding list.size(4) by (simp add: upto_Suc [simplified] algebra_simps)
qed simp

lemma decodeOp_words:
  assumes "normalOp op" "ws = pre @ opWord op # post" "k = int (length pre)"
  shows "decodePromisedAnswerOp (wordTable ws) (struct0 k 1 0) = Inr (decodedOp op)"
proof -
  have w: "ws ! nat k = opWord op" "k < int (length ws)" "0 \<le> k" by (simp_all add: assms(2,3))
  note u = u16_at [of k _ 1 ws 0, OF w(3)]
  consider "op = \<lparr>op_tag = jint 0, op_pointerIndex = None\<rparr>"
    | p where "op = \<lparr>op_tag = jint 1, op_pointerIndex = Some (jint p)\<rparr>" "0 \<le> p" "p < 2 ^ 16"
    using assms(1) by (auto simp: normalOp_def)
  then show ?thesis
  proof cases
    case 1
    have "readU16InStruct (wordTable ws) (struct0 k 1 0) 0 = Inr 0"
      using u [of 0] w 1 field_put_same [of 0 2 0 0] by (simp add: opWord_def)
    then show ?thesis using 1 by (simp add: decodePromisedAnswerOp_def decodedOp_def)
  next
    case 2
    have "readU16InStruct (wordTable ws) (struct0 k 1 0) 0 = Inr 1"
      using u [of 0] w 2 field_put_same [of 0 2 1 0] by (simp add: opWord_def field_put_other)
    moreover have "readU16InStruct (wordTable ws) (struct0 k 1 0) 2 = Inr p"
      using u [of 2] w 2 field_put_same [of 2 2 p] by (simp add: opWord_def)
    ultimately show ?thesis using 2 by (simp add: decodePromisedAnswerOp_def decodedOp_def)
  qed
qed

lemma decodeOps_words:
  assumes "\<forall>op \<in> set ops. normalOp op" "ws = pre @ map opWord ops @ post" "k = int (length pre)"
  shows "collectE (\<lambda>i. decodePromisedAnswerOp (wordTable ws) (struct0 (k + i) 1 0)) [0..int (length ops) - 1] =
    Inr (map decodedOp ops)"
  using assms
proof (induction ops arbitrary: k pre)
  case (Cons op ops)
  have "decodePromisedAnswerOp (wordTable ws) (struct0 k 1 0) = Inr (decodedOp op)"
    by (rule decodeOp_words) (use Cons.prems in auto)
  moreover have "collectE (\<lambda>i. decodePromisedAnswerOp (wordTable ws) (struct0 (k + 1 + i) 1 0)) [0..int (length ops) - 1] =
      Inr (map decodedOp ops)"
    by (rule Cons.IH [where pre = "pre @ [opWord op]"]) (use Cons.prems in auto)
  moreover have "[0..int (length (op # ops)) - 1] = 0 # map ((+) 1) [0..int (length ops) - 1]"
    using upto_shift [of "length ops"] by (simp add: upto_rec1)
  ultimately show ?case by (simp add: collectE_map algebra_simps)
qed simp

section \<open>Targets\<close>

definition targetOps :: "number RpcPromisedAnswerTarget \<Rightarrow> number RpcPromisedAnswerOp list" where
  "targetOps pa = orElse (pa_transform pa) []"

fun normalTarget :: "number RpcCallTarget \<Rightarrow> bool" where
  "normalTarget (ImportedCap v) = isU 32 v"
| "normalTarget (PromisedAnswer pa) =
     (isU 32 (pa_questionId pa) \<and> (\<forall>op \<in> set (targetOps pa). normalOp op) \<and> length (targetOps pa) < 2 ^ 26)"

fun decodedTarget :: "number RpcCallTarget \<Rightarrow> int RpcCallTarget" where
  "decodedTarget (ImportedCap v) = ImportedCap (toInt v)"
| "decodedTarget (PromisedAnswer pa) =
     PromisedAnswer \<lparr>pa_questionId = toInt (pa_questionId pa), pa_transform = Some (map decodedOp (targetOps pa))\<rparr>"

definition transformWords :: "number RpcPromisedAnswerOp list \<Rightarrow> 64 word list" where
  "transformWords ops =
     (if ops = [] then [0]
      else [listPtr 0 7 (int (length ops)), structPtr (int (length ops)) 1 0] @ map opWord ops)"

fun targetWords :: "number RpcCallTarget \<Rightarrow> 64 word list" where
  "targetWords (ImportedCap v) = [putField 2 4 0 (putField 4 0 (word_of_int (toInt v)) 0), 0]"
| "targetWords (PromisedAnswer pa) =
     [putField 2 4 1 0, structPtr 0 1 1, putField 4 0 (word_of_int (toInt (pa_questionId pa))) 0] @
     transformWords (targetOps pa)"

lemma encodeTransform_rb:
  assumes "\<forall>op \<in> set (orElse transform []). normalOp op" "length (orElse transform []) < 2 ^ 26"
  shows "encodePromisedAnswerTransform (rb (pre @ [0])) (int (length pre)) transform =
    Inr (rb (pre @ transformWords (orElse transform [])))"
proof (cases "orElse transform [] = []")
  case True
  then show ?thesis
    using rb_mid(3) [of "int (length pre)" pre 0 "[]" 0] by (simp add: encodePromisedAnswerTransform_def transformWords_def)
next
  case False
  let ?ops = "orElse transform []" and ?p = "int (length pre)"
  let ?n = "length ?ops"
  let ?L = "listPtr 0 7 (int ?n)" and ?T = "structPtr (int ?n) 1 0"
  have nn: "nat (1 + int ?n) = Suc ?n" by simp
  have s0: "rbAllocWords (rb (pre @ [0])) (jint (1 + int ?n)) = Inr (?p + 1, rb (pre @ 0 # 0 # replicate ?n 0))"
    using rb_alloc [of "1 + int ?n" "pre @ [0]"] by (simp add: nn)
  have s1: "rbSetListPointer (rb (pre @ 0 # 0 # replicate ?n 0)) ?p (?p + 1) 7 (int ?n) = Inr (rb (pre @ ?L # 0 # replicate ?n 0))"
    using assms(2) rb_mid(5) [OF refl, of "?p + 1" pre 7 "int ?n" 0 "0 # replicate ?n 0"] by (simp add: inOffsetRange_def)
  have s2: "inlineCompositeTag (jint (int ?n)) (jint 1) (jint 0) = Inr ?T"
    using assms(2) by (intro compositeTag(1)) simp_all
  have s3: "rbWriteWord (rb (pre @ ?L # 0 # replicate ?n 0)) (?p + 1) ?T = Inr (rb (pre @ ?L # ?T # replicate ?n 0))"
    using rb_mid(3) [of "?p + 1" "pre @ [?L]" 0 "replicate ?n 0" ?T] by simp
  have s4: "loopE (encodePromisedAnswerOp (?p + 1)) (indexed ?ops) (rb (pre @ ?L # ?T # replicate ?n 0)) =
      Inr (rb (pre @ transformWords ?ops))"
    using encodeOps_rb [OF assms(1), of "?p + 1" 0 "pre @ [?L, ?T]" "[]"] False
    by (simp add: indexed_zip transformWords_def)
  show ?thesis using False by (simp add: encodePromisedAnswerTransform_def s0 s1 s2 s3 s4 Let_def)
qed

lemma encodeTarget_rb:
  assumes "normalTarget tgt"
  shows "encodeCallTarget (rb (pre @ [0, 0])) (int (length pre)) tgt = Inr (rb (pre @ targetWords tgt))"
proof (cases tgt)
  case (ImportedCap v)
  have r: "0 \<le> toInt v" "toInt v < 2 ^ 32" using assms isU_range [of 32 v] by (simp_all add: ImportedCap)
  let ?C = "putField 4 0 (word_of_int (toInt v)) 0"
  have s0: "rbWriteU32 (rb (pre @ [0, 0])) (int (length pre)) 0 (toInt v) = Inr (rb (pre @ [?C, 0]))"
    using rb_mid(2) [OF refl r, of 0 pre 0 "[0]"] by simp
  have s1: "rbWriteU16 (rb (pre @ [?C, 0])) (int (length pre)) 4 0 = Inr (rb (pre @ [putField 2 4 0 ?C, 0]))"
    using rb_mid(1) [of "int (length pre)" pre 0 4 ?C "[0]"] by simp
  show ?thesis by (simp add: encodeCallTarget_def ImportedCap s0 s1)
next
  case (PromisedAnswer pa)
  let ?p = "int (length pre)" and ?q = "toInt (pa_questionId pa)"
  let ?A = "putField 2 4 1 0" and ?Q = "putField 4 0 (word_of_int ?q) 0"
  have r: "0 \<le> ?q" "?q < 2 ^ 32" using assms isU_range [of 32 "pa_questionId pa"] by (simp_all add: PromisedAnswer)
  have s0: "rbWriteU16 (rb (pre @ [0, 0])) ?p 4 1 = Inr (rb (pre @ [?A, 0]))"
    using rb_mid(1) [of ?p pre 1 4 0 "[0]"] by simp
  have s1: "rbAllocWords (rb (pre @ [?A, 0])) (jint 2) = Inr (?p + 2, rb (pre @ [?A, 0, 0, 0]))"
    using rb_alloc [of 2 "pre @ [?A, 0]"] by (simp add: numeral_2_eq_2)
  have s2: "rbSetStructPointer (rb (pre @ [?A, 0, 0, 0])) (?p + 1) (?p + 2) 1 1 = Inr (rb (pre @ [?A, structPtr 0 1 1, 0, 0]))"
    using rb_mid(4) [of "?p + 1" "pre @ [?A]" "?p + 2" 1 1 0 "[0, 0]"] by (simp add: inOffsetRange_def)
  have s3: "rbWriteU32 (rb (pre @ [?A, structPtr 0 1 1, 0, 0])) (?p + 2) 0 ?q = Inr (rb (pre @ [?A, structPtr 0 1 1, ?Q, 0]))"
    using rb_mid(2) [OF _ r, of "?p + 2" "pre @ [?A, structPtr 0 1 1]" 0 0 "[0]"] by simp
  have s4: "encodePromisedAnswerTransform (rb (pre @ [?A, structPtr 0 1 1, ?Q, 0])) (?p + 3) (pa_transform pa) =
      Inr (rb (pre @ [?A, structPtr 0 1 1, ?Q] @ transformWords (targetOps pa)))"
    using encodeTransform_rb [of "pa_transform pa" "pre @ [?A, structPtr 0 1 1, ?Q]"] assms
    by (simp add: PromisedAnswer targetOps_def add.commute)
  show ?thesis using s4 [unfolded add.commute [of ?p 3]]
    by (simp add: encodeCallTarget_def PromisedAnswer s0 s1 s2 s3 pointerSlot_def del: rbAllocWords_rb)
qed

lemma decodeTransform_words:
  assumes ops: "\<forall>op \<in> set ops. normalOp op" "length ops < 2 ^ 26"
    and ws: "ws = pre @ transformWords ops @ post" and k: "k = int (length pre)"
  shows "decodePromisedAnswerTransform (wordTable ws) (loc0 k) = Inr (map decodedOp ops)"
proof (cases "ops = []")
  case True
  then have "ws ! nat k = 0" "k < int (length ws)" by (simp_all add: ws k transformWords_def)
  then show ?thesis using null_composites_at [of k ws] k True by (simp add: decodePromisedAnswerTransform_def)
next
  case False
  let ?n = "int (length ops)"
  have ws': "ws = pre @ listPtr 0 7 ?n # structPtr ?n 1 0 # map opWord ops @ post"
    using False by (simp add: ws transformWords_def)
  have w: "ws ! nat k = listPtr 0 7 ?n" "ws ! nat (k + 1) = structPtr ?n 1 0" "k + 2 \<le> int (length ws)" "0 \<le> k"
  proof -
    have "nat (k + 1) = length (pre @ [listPtr 0 7 ?n])" by (simp add: k)
    then show "ws ! nat (k + 1) = structPtr ?n 1 0"
      using nth_append_length [of "pre @ [listPtr 0 7 ?n]" "structPtr ?n 1 0" "map opWord ops @ post"] by (simp add: ws')
  qed (simp_all add: ws' k)
  have n: "?n < 2 ^ 29" using ops(2) by simp
  note tag = compositeTag [of ?n 1 0, OF _ n]
  have dec: "decodeStructListPointer (wordTable ws) (loc0 k) =
      Inr (Some \<lparr>sl_segmentId = 0, sl_elementsStartWord = k + 2, sl_elementCount = ?n,
                 sl_dataWordCount = 1, sl_pointerCount = 0\<rparr>)"
    using composites_at [of k ws 0 ?n "structPtr ?n 1 0"] w n tag by (simp add: inOffsetRange_def)
  have item: "listItem \<lparr>sl_segmentId = 0, sl_elementsStartWord = k + 2, sl_elementCount = ?n,
      sl_dataWordCount = 1, sl_pointerCount = 0\<rparr> i = struct0 (k + 2 + i) 1 0" for i
    by (simp add: listItem_def struct0_def)
  have "collectE (\<lambda>i. decodePromisedAnswerOp (wordTable ws) (struct0 (k + 2 + i) 1 0)) [0..?n - 1] = Inr (map decodedOp ops)"
    by (rule decodeOps_words [OF ops(1), where pre = "pre @ [listPtr 0 7 ?n, structPtr ?n 1 0]" and post = post])
      (simp_all add: ws' k)
  then show ?thesis by (simp add: decodePromisedAnswerTransform_def dec item)
qed

lemma decodeTarget_words:
  assumes norm: "normalTarget tgt" and ws: "ws = pre @ targetWords tgt @ post" and k: "k = int (length pre)"
  shows "decodeCallTarget (wordTable ws) (struct0 k 1 1) = Inr (decodedTarget tgt)"
proof (cases tgt)
  case (ImportedCap v)
  have r: "0 \<le> toInt v" "toInt v < 2 ^ 32" using norm isU_range [of 32 v] by (simp_all add: ImportedCap)
  have w: "ws ! nat k = putField 2 4 0 (putField 4 0 (word_of_int (toInt v)) 0)" "k < int (length ws)" "0 \<le> k"
    by (simp_all add: ws k ImportedCap)
  have "readU16InStruct (wordTable ws) (struct0 k 1 1) 4 = Inr 0"
    using w u16_at [of k 4 1 ws 1] field_put_same [of 4 2 0] by simp
  moreover have "readU32InStruct (wordTable ws) (struct0 k 1 1) 0 = Inr (toInt v)"
    using w r u32_at [of k 0 1 ws 1] field_put_same [of 0 4 "toInt v" 0] by (simp add: field_put_other)
  ultimately show ?thesis by (simp add: decodeCallTarget_def ImportedCap)
next
  case (PromisedAnswer pa)
  let ?q = "toInt (pa_questionId pa)" and ?A = "putField 2 4 1 0" 
  let ?Q = "putField 4 0 (word_of_int ?q) 0"
  have r: "0 \<le> ?q" "?q < 2 ^ 32" using norm isU_range [of 32 "pa_questionId pa"] by (simp_all add: PromisedAnswer)
  have ws': "ws = (pre @ [?A, structPtr 0 1 1, ?Q]) @ transformWords (targetOps pa) @ post"
    by (simp add: ws PromisedAnswer)
  have len: "k + 4 \<le> int (length ws)" "0 \<le> k" by (simp_all add: ws' k transformWords_def)
  have "ws ! (length pre + j) = [?A, structPtr 0 1 1, ?Q] ! j" if "j < 3" for j
    using that by (cases j) (auto simp: ws' nth_append nth_Cons' numeral_3_eq_3)
  from this [of 0] this [of 1] this [of 2]
  have w: "ws ! nat k = ?A" "ws ! nat (k + 1) = structPtr 0 1 1" "ws ! nat (k + 2) = ?Q"
    by (simp_all add: k nat_add_distrib)
  have "readU16InStruct (wordTable ws) (struct0 k 1 1) 4 = Inr 1"
    using w len u16_at [of k 4 1 ws 1] field_put_same [of 4 2 1 0] by simp
  moreover have "decodeStructPointer (wordTable ws) (loc0 (k + 1)) = Inr (Some (struct0 (k + 2) 1 1))"
    using w len struct_at [of "k + 1" ws 0 1 1] by (simp add: inOffsetRange_def add.commute)
  moreover have "readU32InStruct (wordTable ws) (struct0 (k + 2) 1 1) 0 = Inr ?q"
    using w len r u32_at [of "k + 2" 0 1 ws 1] field_put_same [of 0 4 ?q 0] by simp
  moreover have "decodePromisedAnswerTransform (wordTable ws) (loc0 (3 + k)) = Inr (map decodedOp (targetOps pa))"
    by (rule decodeTransform_words [OF _ _ ws']) (use norm in \<open>simp_all add: PromisedAnswer k\<close>)
  ultimately show ?thesis by (simp add: decodeCallTarget_def PromisedAnswer slot_at)
qed

section \<open>The target of a request\<close>

definition requestTarget :: "RpcCallFrameRequest \<Rightarrow> number RpcCallTarget" where
  "requestTarget request =
     (case cf_target request of
        Some tgt \<Rightarrow> tgt
      | None \<Rightarrow> ImportedCap (orElse (cf_targetImportedCap request) NaN))"

lemma mapE_normalize:
  "mapE (\<lambda>(i, op). normalizePromisedAnswerOp op name i) (zip is ops) = Inr ops' \<Longrightarrow> length is = length ops \<Longrightarrow>
    (\<forall>op \<in> set ops'. normalOp op) \<and> map decodedOp ops' = map decodedOp ops \<and> length ops' = length ops"
proof (induction "is" ops arbitrary: ops' rule: list_induct2')
  case (4 i "is" op ops)
  then show ?case by (auto simp: bindE_eq_Inr normalize_normal normalize_decoded)
qed auto

lemma normalizeCallTarget_Inr:
  assumes "normalizeCallTarget request = Inr tgt" "\<And>pa. requestTarget request = PromisedAnswer pa \<Longrightarrow> length (targetOps pa) < 2 ^ 26"
  shows "normalTarget tgt \<and> decodedTarget tgt = decodedTarget (requestTarget request)"
proof (cases "cf_target request")
  case None
  then show ?thesis using assms(1)
    by (auto simp: normalizeCallTarget_def requestTarget_def bindE_eq_Inr ensureU32_Inr isU_def split: option.splits)
next
  case (Some t)
  show ?thesis
  proof (cases t)
    case (ImportedCap v)
    then show ?thesis using assms(1) Some
      by (auto simp: normalizeCallTarget_def requestTarget_def bindE_eq_Inr ensureU32_Inr isU_def)
  next
    case (PromisedAnswer pa)
    show ?thesis
    proof (cases "pa_transform pa")
      case None
      then show ?thesis using assms(1) Some PromisedAnswer
        by (auto simp: normalizeCallTarget_def requestTarget_def bindE_eq_Inr ensureU32_Inr isU_def targetOps_def)
    next
      case (Some ops)
      then obtain q ops' where *: "ensureU32 (pa_questionId pa) ''target.promisedAnswer.questionId'' = Inr q"
        "mapE (\<lambda>(index, op). normalizePromisedAnswerOp op ''target.promisedAnswer.transform[{}]'' index) (indexed ops) = Inr ops'"
        "tgt = PromisedAnswer \<lparr>pa_questionId = jint q, pa_transform = Some ops'\<rparr>"
        using assms(1) \<open>cf_target request = Some t\<close> PromisedAnswer
        by (auto simp: normalizeCallTarget_def bindE_eq_Inr)
      have "(\<forall>op \<in> set ops'. normalOp op) \<and> map decodedOp ops' = map decodedOp ops \<and> length ops' = length ops"
        using *(2) unfolding indexed_def by (rule mapE_normalize) simp
      then show ?thesis using * Some assms(2) [of pa] \<open>cf_target request = Some t\<close> PromisedAnswer
        by (auto simp: requestTarget_def ensureU32_Inr isU_def targetOps_def)
    qed
  qed
qed

section \<open>Call frames\<close>

definition callHead :: "int \<Rightarrow> 64 word \<Rightarrow> int \<Rightarrow> int \<Rightarrow> 64 word list" where
  "callHead q iface m off =
     [structPtr 0 1 1, putField 2 0 2 0, structPtr 0 3 3,
      putField 2 6 0 (putField 2 4 (word_of_int m) (putField 4 0 (word_of_int q) 0)), iface, 0,
      structPtr 2 1 1, structPtr off 0 2, 0]"

lemma length_callHead [simp]: "length (callHead q iface m off) = 9"
  by (simp add: callHead_def)

lemma targetWords_short: "normalTarget tgt \<Longrightarrow> length (targetWords tgt) < 2 ^ 27 \<and> 2 \<le> length (targetWords tgt)"
  by (cases tgt) (auto simp: transformWords_def)

lemma encodeCall_words:
  assumes q: "0 \<le> q" "q < 2 ^ 32" and i: "0 \<le> i" "i < 2 ^ 64" and m: "0 \<le> m" "m < 2 ^ 16"
    and req: "cf_questionId request = jint q" "cf_interfaceId request = i" "cf_methodId request = jint m"
    and tgt: "normalizeCallTarget request = Inr tgt" "normalTarget tgt"
  shows "encodeCallRequestFrame request =
    bindE (writePayloadContentPointer
        (rb ((callHead q (word_of_int i) m (int (length (targetWords tgt)) + 1) @ targetWords tgt) @ [0, 0] @ []))
        (9 + int (length (targetWords tgt))) (cf_paramsContent request) ''paramsContent'') (\<lambda>b.
    bindE (encodeCapTable b (9 + int (length (targetWords tgt)) + 1) (cf_paramsCapTable request)) rbToMessageBytes)"
proof -
  let ?n = "int (length (targetWords tgt))"
  let ?H = "[structPtr 0 1 1, putField 2 0 2 0, structPtr 0 3 3,
      putField 2 6 0 (putField 2 4 (word_of_int m) (putField 4 0 (word_of_int q) 0)), word_of_int i, 0, structPtr 2 1 1]"
  have s1: "encodeCallTarget (rb (?H @ [0, 0] @ [0, 0])) 9 tgt = Inr (rb (?H @ [0, 0] @ targetWords tgt))"
    using encodeTarget_rb [OF tgt(2), of "?H @ [0, 0]"] by simp
  have s2: "rbAllocWords (rb (?H @ [0, 0] @ targetWords tgt)) (jint 2) = Inr (9 + ?n, rb (?H @ 0 # 0 # targetWords tgt @ [0, 0]))"
    using rb_alloc [of 2 "?H @ [0, 0] @ targetWords tgt"] by (simp add: numeral_2_eq_2)
  have s3: "rbSetStructPointer (rb (?H @ 0 # 0 # targetWords tgt @ [0, 0])) 7 (9 + ?n) 0 2 =
      Inr (rb (?H @ structPtr (?n + 1) 0 2 # 0 # targetWords tgt @ [0, 0]))"
    using rb_mid(4) [of 7 ?H "9 + ?n" 0 2 0 "0 # targetWords tgt @ [0, 0]"] targetWords_short [OF tgt(2)]
    by (simp add: inOffsetRange_def add.commute)
  have pre: "bindE (rbAllocWords newRpcWireMessageBuilder (jint 2)) f =
      f (1, rb [0, 0, 0])" for f :: "int \<times> RpcWireMessageBuilder \<Rightarrow> bytes result"
    by (simp add: newRpcWireMessageBuilder_rb rb_alloc numeral_2_eq_2)
  show ?thesis
    using q i m s1 [simplified] s2 [simplified] s3 [simplified]
    by (simp add: encodeCallRequestFrame_def req tgt(1) ensureU64_def building rb_writes callHead_def Let_def)
qed

definition decodedCall :: "RpcCallFrameRequest \<Rightarrow> bytes \<Rightarrow> RpcCallRequest" where
  "decodedCall request content =
     \<lparr>cr_questionId = toInt (cf_questionId request), cr_interfaceId = word_of_int (cf_interfaceId request),
      cr_methodId = toInt (cf_methodId request), cr_target = decodedTarget (requestTarget request),
      cr_targetImportedCap = (case requestTarget request of ImportedCap c \<Rightarrow> Some (toInt c) | PromisedAnswer _ \<Rightarrow> None),
      cr_paramsContent = content,
      cr_paramsCapTable = map decodedCap (orElse (cf_paramsCapTable request) [])\<rparr>"

definition requestFits :: "RpcCallFrameRequest \<Rightarrow> bool" where
  "requestFits request \<longleftrightarrow>
     contactsFit (orElse (cf_paramsCapTable request) []) \<and>
     length (capTableWords 0 (orElse (cf_paramsCapTable request) [])) < 2 ^ 25 \<and>
     (\<forall>pa. requestTarget request = PromisedAnswer pa \<longrightarrow> length (targetOps pa) < 2 ^ 24)"

lemma decodedTarget_imported:
  "(case decodedTarget t of ImportedCap c \<Rightarrow> Some c | PromisedAnswer _ \<Rightarrow> None) =
   (case t of ImportedCap c \<Rightarrow> Some (toInt c) | PromisedAnswer _ \<Rightarrow> None)"
  by (cases t) simp_all

lemma call_encoded:
  assumes enc: "encodeCallRequestFrame request = Inr frame" and fits: "requestFits request"
  shows "\<exists>ws v p. frame = frameOf [bytesOf ws] \<and> length ws < 2 ^ 28 \<and> contentValue (cf_paramsContent request) v \<and>
    payloadAt ws p v (map decodedCap (orElse (cf_paramsCapTable request) [])) \<and>
    (cf_paramsContent request = None \<longrightarrow> memOf ws p = Some 0) \<and>
    decodeCallRequestFrame frame =
      bindE (rethrow (decodeAnyPointerMessageFromReader (readerOf ws) 0 p noCopyOptions)
               ''invalid call params content pointer'') (\<lambda>c. Inr (decodedCall request c))"
proof -
  let ?ct = "cf_paramsCapTable request"
  let ?caps = "map decodedCap (orElse ?ct [])"
  obtain q m tgt where req: "cf_questionId request = jint q" "0 \<le> q" "q < 2 ^ 32" "cf_methodId request = jint m" "0 \<le> m" "m < 2 ^ 16"
    and i: "0 \<le> cf_interfaceId request" "cf_interfaceId request < 2 ^ 64" and tgt: "normalizeCallTarget request = Inr tgt"
    using enc by (auto simp: encodeCallRequestFrame_def bindE_eq_Inr ensureU32_Inr ensureU16_Inr ensureU64_Inr)
  have ops: "length (targetOps pa) < 2 ^ 26" if "requestTarget request = PromisedAnswer pa" for pa
    using fits that by (fastforce simp: requestFits_def)
  have norm: "normalTarget tgt" "decodedTarget tgt = decodedTarget (requestTarget request)"
    using normalizeCallTarget_Inr [OF tgt ops] by auto
  have short: "length (targetWords tgt) < 2 ^ 25"
  proof (cases tgt)
    case (PromisedAnswer pa)
    then obtain pa' where pa': "requestTarget request = PromisedAnswer pa'" "map decodedOp (targetOps pa) = map decodedOp (targetOps pa')"
      using norm(2) by (cases "requestTarget request") auto
    then have "length (targetOps pa) = length (targetOps pa')" using map_eq_imp_length_eq by blast
    then have "length (targetOps pa) < 2 ^ 24" using fits pa'(1) by (simp add: requestFits_def)
    then show ?thesis by (simp add: PromisedAnswer transformWords_def)
  qed simp
  let ?n = "int (length (targetWords tgt))" and ?i = "word_of_int (cf_interfaceId request) :: 64 word"
  let ?pre = "callHead q ?i m (?n + 1) @ targetWords tgt"
  have lp: "int (length ?pre) = 9 + ?n" "length ?pre = 9 + length (targetWords tgt)" by simp_all
  obtain b1 b2 where w: "writePayloadContentPointer (rb (?pre @ [0, 0] @ [])) (int (length ?pre)) (cf_paramsContent request) ''paramsContent'' = Inr b1"
    and c: "encodeCapTable b1 (int (length ?pre) + 1) ?ct = Inr b2" and out: "rbToMessageBytes b2 = Inr frame"
    using enc unfolding encodeCall_words [OF req(2,3) i req(5,6) req(1) refl req(4) tgt norm(1)] lp
    by (auto simp: bindE_eq_Inr)
  have fit: "contactsFit (orElse ?ct [])" using fits by (simp add: requestFits_def)
  have "length ?pre + length [] + length (capTableWords 0 (orElse ?ct [])) < 2 ^ 27"
    using fits short by (simp add: requestFits_def)
  from payload_written [OF w c fit this] obtain ws v where b2: "b2 = rb ws" and len: "length ws < 2 ^ 28" "length ?pre + 2 \<le> length ws"
    and keep: "\<forall>k < length ?pre + 2. k \<noteq> length ?pre \<longrightarrow> k \<noteq> length ?pre + 1 \<longrightarrow> ws ! k = (?pre @ [0, 0] @ []) ! k"
    and v: "contentValue (cf_paramsContent request) v" and pay: "payloadAt ws (9 + ?n) v ?caps"
    and null: "cf_paramsContent request = None \<longrightarrow> memOf ws (9 + ?n) = Some 0"
    unfolding lp by auto
  have len32: "length ws < 2 ^ 32" using len by simp
  have frame: "frame = frameOf [bytesOf ws]" using out rbToMessageBytes_rb [OF len32] b2 by simp
  have lws: "9 + length (targetWords tgt) + 2 \<le> length ws" using len(2) lp by simp
  have two: "2 \<le> length (targetWords tgt)" using targetWords_short [OF norm(1)] by simp
  have keep': "ws ! k = ?pre ! k" if "k < length ?pre" for k
    using keep that lp by (simp only: nth_append) simp
  have "take (length ?pre) ws = ?pre"
    using keep' lws lp by (intro nth_equalityI) auto
  then have split: "ws = callHead q ?i m (?n + 1) @ targetWords tgt @ drop (length ?pre) ws"
    by (metis append_assoc append_take_drop_id)
  have head: "ws ! k = callHead q ?i m (?n + 1) ! k" if "k < 9" for k
    using keep' [of k] that by (simp add: nth_append)
  have hd: "ws ! 0 = structPtr 0 1 1" "ws ! 1 = putField 2 0 2 0" "ws ! 2 = structPtr 0 3 3"
    "ws ! 3 = putField 2 6 0 (putField 2 4 (word_of_int m) (putField 4 0 (word_of_int q) 0))" "ws ! 4 = ?i"
    "ws ! 6 = structPtr 2 1 1" "ws ! 7 = structPtr (?n + 1) 0 2"
    using head by (simp_all add: callHead_def)
  have big: "13 \<le> length ws" using lws two by simp
  have s1: "messageVariant (wordTable ws) 2 wrong n = Inr (struct0 3 3 3)" for wrong n
    by (rule messageVariant_words) (use hd big in simp_all)
  have s2: "requireStruct (wordTable ws) (loc0 6) ctx = Inr (struct0 9 1 1)" for ctx
    using struct_at [of 6 ws 2 1 1] hd big by (simp add: requireStruct_def inOffsetRange_def)
  have s3: "decodeCallTarget (wordTable ws) (struct0 9 1 1) = Inr (decodedTarget (requestTarget request))"
    using decodeTarget_words [OF norm(1) split, of 9] norm(2) by simp
  have s4: "decodePayload (wordTable ws) (readerOf ws) (loc0 7) ctx =
      bindE (rethrow (decodeAnyPointerMessageFromReader (readerOf ws) 0 (9 + ?n) noCopyOptions) ctx) (\<lambda>c. Inr (c, ?caps))" for ctx
    by (rule decodePayload_words [OF pay, of 7 "?n + 1"]) (use hd big short in \<open>simp_all add: inOffsetRange_def\<close>)
  have s5: "readU32InStruct (wordTable ws) (struct0 3 3 3) 0 = Inr q"
    using u32_at [of 3 0 3 ws 3] hd big req field_put_same [of 0 4 q 0] by (simp add: field_put_other)
  have s6: "readU64InStruct (wordTable ws) (struct0 3 3 3) 8 = Inr ?i"
    using u64_at [of 3 8 3 ws 3] hd big by simp
  have s7: "readU16InStruct (wordTable ws) (struct0 3 3 3) 4 = Inr m"
    using u16_at [of 3 4 3 ws 3] hd big req field_put_same [of 4 2 m] by (simp add: field_put_other)
  have "decodeCallRequestFrame frame =
      bindE (rethrow (decodeAnyPointerMessageFromReader (readerOf ws) 0 (9 + ?n) noCopyOptions)
               ''invalid call params content pointer'') (\<lambda>c. Inr (decodedCall request c))"
    unfolding frame
    by (simp add: decodeCallRequestFrame_def segmentsFromFrame_words [OF len32] newMessageReader_words [OF len32] slot_at
        bindE_assoc s1 s2 s3 s4 s5 s6 s7 decodedCall_def req decodedTarget_imported)
  then show ?thesis using frame len(1) v pay null
    by (intro exI [of _ ws] exI [of _ v] exI [of _ "9 + ?n"] conjI)
qed

section \<open>Valid requests\<close>

text \<open>A request whose numbers are in range, whose table and target fit and whose content is admitted.\<close>

definition validRequest :: "RpcCallFrameRequest \<Rightarrow> wire_value \<Rightarrow> bool" where
  "validRequest request v \<longleftrightarrow>
     isU 32 (cf_questionId request) \<and> 0 \<le> cf_interfaceId request \<and> cf_interfaceId request < 2 ^ 64 \<and>
     isU 16 (cf_methodId request) \<and> (\<exists>tgt. normalizeCallTarget request = Inr tgt) \<and>
     requestFits request \<and> contentFits (cf_paramsContent request) v"

lemma target_normalized:
  assumes "normalizeCallTarget request = Inr tgt" "requestFits request"
  shows "normalTarget tgt" "length (targetWords tgt) < 2 ^ 25"
proof -
  have "length (targetOps pa) < 2 ^ 26" if "requestTarget request = PromisedAnswer pa" for pa
    using assms(2) that by (fastforce simp: requestFits_def)
  then have norm: "normalTarget tgt" "decodedTarget tgt = decodedTarget (requestTarget request)"
    using normalizeCallTarget_Inr [OF assms(1)] by auto
  show "normalTarget tgt" by (rule norm(1))
  show "length (targetWords tgt) < 2 ^ 25"
  proof (cases tgt)
    case (PromisedAnswer pa)
    then obtain pa' where pa': "requestTarget request = PromisedAnswer pa'" "map decodedOp (targetOps pa) = map decodedOp (targetOps pa')"
      using norm(2) by (cases "requestTarget request") auto
    then have "length (targetOps pa) = length (targetOps pa')" using map_eq_imp_length_eq by blast
    then have "length (targetOps pa) < 2 ^ 24" using assms(2) pa'(1) by (simp add: requestFits_def)
    then show ?thesis by (simp add: PromisedAnswer transformWords_def)
  qed simp
qed

lemma call_roundtrip:
  assumes "validRequest request v"
  shows "\<exists>frame m r. encodeCallRequestFrame request = Inr frame \<and>
    decodeCallRequestFrame frame = Inr (decodedCall request m) \<and> newMessageReader m = Inr r \<and> reads r 0 0 v"
proof -
  let ?ct = "cf_paramsCapTable request"
  obtain q m tgt where q: "cf_questionId request = jint q" "0 \<le> q" "q < 2 ^ 32"
    and m: "cf_methodId request = jint m" "0 \<le> m" "m < 2 ^ 16" and tgt: "normalizeCallTarget request = Inr tgt"
    using assms by (auto simp: validRequest_def isU_def)
  have i: "0 \<le> cf_interfaceId request" "cf_interfaceId request < 2 ^ 64" and fits: "requestFits request"
    and v: "contentFits (cf_paramsContent request) v" using assms by (auto simp: validRequest_def)
  note t = target_normalized [OF tgt fits]
  let ?pre = "callHead q (word_of_int (cf_interfaceId request)) m (int (length (targetWords tgt)) + 1) @ targetWords tgt"
  have lp: "int (length ?pre) = 9 + int (length (targetWords tgt))" by simp
  have fit: "contactsFit (orElse ?ct [])" using fits by (simp add: requestFits_def)
  have "length ?pre + length [] + length (capTableWords 0 (orElse ?ct [])) < 2 ^ 27"
    using fits t(2) by (simp add: requestFits_def)
  from payload_succeeds [OF v fit this] obtain b1 us
    where w: "writePayloadContentPointer (rb (?pre @ [0, 0] @ [])) (9 + int (length (targetWords tgt)))
        (cf_paramsContent request) ''paramsContent'' = Inr b1"
    and c: "encodeCapTable b1 (9 + int (length (targetWords tgt)) + 1) ?ct = Inr (rb us)" and us: "length us < 2 ^ 28"
    unfolding lp by metis
  have "rbToMessageBytes (rb us) = Inr (frameOf [bytesOf us])" using us by (intro rbToMessageBytes_rb) simp
  then have enc: "encodeCallRequestFrame request = Inr (frameOf [bytesOf us])"
    unfolding encodeCall_words [OF q(2,3) i m(2,3) q(1) refl m(1) tgt t(1)] using w c by simp
  obtain ws v' p where v': "contentValue (cf_paramsContent request) v'"
    and pay: "payloadAt ws p v' (map decodedCap (orElse ?ct []))"
    and dec: "decodeCallRequestFrame (frameOf [bytesOf us]) =
      bindE (rethrow (decodeAnyPointerMessageFromReader (readerOf ws) 0 p noCopyOptions)
               ''invalid call params content pointer'') (\<lambda>c. Inr (decodedCall request c))"
    using call_encoded [OF enc fits] by blast
  have "v' = v" using contentValue_unique v' v by (auto simp: contentFits_def)
  then have "flat (memOf ws) (int (length ws)) p v" using pay v by (simp add: payloadAt_def contentFits_def)
  moreover have "withinCopyLimits noCopyOptions v" using v by (simp add: contentFits_def)
  ultimately obtain c r where "decodeAnyPointerMessageFromReader (readerOf ws) 0 p noCopyOptions = Inr c"
    "newMessageReader c = Inr r" "reads r 0 0 v" using decodeAny_flat by blast
  then show ?thesis using enc dec by (auto simp: rethrow_def)
qed

end
