(* ===== verification/Rpc_Properties.thy ===== *)
theory Rpc_Properties
  imports Call_Roundtrip Wire_Router
begin

unbundle bit_operations_syntax

text \<open>
  Properties of the RPC frames: what an encoder writes, the router and the decoders read.
\<close>

section \<open>The router\<close>

text \<open>C30: The router and the decoders agree: \<open>decodeRpcMessage\<close> yields a message of a kind exactly when the
  decoder of that kind accepts the frame, with its result, so that a frame is a message of at
  most one kind.\<close>

theorem router_agrees:
  "(decodeRpcMessage frame = Inr (BootstrapMessage b) \<longleftrightarrow> decodeBootstrapRequestFrame frame = Inr b) \<and>
   (decodeRpcMessage frame = Inr (CallMessage c) \<longleftrightarrow> decodeCallRequestFrame frame = Inr c) \<and>
   (decodeRpcMessage frame = Inr (ReturnMessage r) \<longleftrightarrow> decodeReturnFrame frame = Inr r) \<and>
   (decodeRpcMessage frame = Inr (FinishMessage f) \<longleftrightarrow> decodeFinishFrame frame = Inr f) \<and>
   (decodeRpcMessage frame = Inr (ReleaseMessage l) \<longleftrightarrow> decodeReleaseFrame frame = Inr l)"
proof -
  have "decodeRpcMessage frame = Inr (BootstrapMessage b) \<Longrightarrow> decodeBootstrapRequestFrame frame = Inr b"
    "decodeRpcMessage frame = Inr (CallMessage c) \<Longrightarrow> decodeCallRequestFrame frame = Inr c"
    "decodeRpcMessage frame = Inr (ReturnMessage r) \<Longrightarrow> decodeReturnFrame frame = Inr r"
    "decodeRpcMessage frame = Inr (FinishMessage f) \<Longrightarrow> decodeFinishFrame frame = Inr f"
    "decodeRpcMessage frame = Inr (ReleaseMessage l) \<Longrightarrow> decodeReleaseFrame frame = Inr l"
    by (auto simp: decodeRpcMessage_def bindE_eq_Inr split: if_splits)
  then show ?thesis using routed by blast
qed

section \<open>Control messages\<close>

section \<open>Returns\<close>

text \<open>C15: A return with results round trips. For every content whose value the default copy limits admit
  (or none) and every capability table the wire can carry, encoding succeeds and the router reads
  back the answer id, the table with every descriptor, the flags, and a content message whose
  root reads the value sent.\<close>

theorem results_read_back:
  assumes "0 \<le> a" "a < 2 ^ 32" "contactsFit (orElse caps [])" "length (capTableWords 0 (orElse caps [])) < 2 ^ 26"
    and "contentFits content v"
  shows "\<exists>frame m r. encodeReturnResultsFrame \<lparr>rf_answerId = jint a, rf_content = content, rf_capTable = caps,
      rf_releaseParamCaps = rp, rf_noFinishNeeded = nf\<rparr> = Inr frame \<and>
    decodeRpcMessage frame = Inr (ReturnMessage (ReturnResults a m (map decodedCap (orElse caps []))
      \<lparr>fl_releaseParamCaps = orElse rp True, fl_noFinishNeeded = orElse nf False\<rparr>)) \<and>
    newMessageReader m = Inr r \<and> reads r 0 0 v"
  using results_roundtrip [OF assms] routed(3) by blast

definition hostedEntry :: "number RpcCapDescriptor" where
  "hostedEntry = \<lparr>cd_tag = jint 1, cd_id = jint 5, cd_vineId = None, cd_contact = None\<rparr>"

definition thirdPartyEntry :: "number RpcCapDescriptor" where
  "thirdPartyEntry = \<lparr>cd_tag = jint 5, cd_id = jint 6, cd_vineId = Some (jint 9), cd_contact = Some [1, 2, 3]\<rparr>"

lemma sampleTable: "contactsFit [hostedEntry, thirdPartyEntry]"
  "length (capTableWords 0 [hostedEntry, thirdPartyEntry]) < 100"
  by (simp_all add: contactsFit_def hostedEntry_def thirdPartyEntry_def validCap_def isU_def isThirdParty_def
      capTableWords_def thirdBlock_def contactWords_def)

theorem results_read_back_witness:
  "\<exists>frame m r. encodeReturnResultsFrame \<lparr>rf_answerId = jint 4, rf_content = None,
      rf_capTable = Some [hostedEntry, thirdPartyEntry], rf_releaseParamCaps = None, rf_noFinishNeeded = Some True\<rparr> = Inr frame \<and>
    decodeRpcMessage frame = Inr (ReturnMessage (ReturnResults 4 m (map decodedCap [hostedEntry, thirdPartyEntry])
      \<lparr>fl_releaseParamCaps = True, fl_noFinishNeeded = True\<rparr>)) \<and>
    newMessageReader m = Inr r \<and> reads r 0 0 NullV"
  using results_read_back [of 4 "Some [hostedEntry, thirdPartyEntry]" None NullV None "Some True"] sampleTable noContent
  by simp

section \<open>Calls\<close>

text \<open>C4: A call round trips. For every valid request (imported capability or promised-answer target with
  its transform, interface and method ids, capability table, content within the copy limits)
  encoding succeeds and the router reads back every field, with a content message whose root
  reads the value sent.\<close>

theorem call_read_back:
  assumes "validRequest request v"
  shows "\<exists>frame m r. encodeCallRequestFrame request = Inr frame \<and>
    decodeRpcMessage frame = Inr (CallMessage (decodedCall request m)) \<and> newMessageReader m = Inr r \<and> reads r 0 0 v"
  using call_roundtrip [OF assms] routed(2) by blast

definition pipelinedCall :: RpcCallFrameRequest where
  "pipelinedCall =
     \<lparr>cf_questionId = jint 3, cf_interfaceId = 2 ^ 63 + 1, cf_methodId = jint 7, cf_targetImportedCap = None,
      cf_target = Some (PromisedAnswer \<lparr>pa_questionId = jint 2,
        pa_transform = Some [\<lparr>op_tag = jint 0, op_pointerIndex = None\<rparr>, \<lparr>op_tag = jint 1, op_pointerIndex = Some (jint 4)\<rparr>]\<rparr>),
      cf_paramsContent = None, cf_paramsCapTable = Some [hostedEntry, thirdPartyEntry]\<rparr>"

lemma pipelinedCall_valid: "validRequest pipelinedCall NullV"
proof -
  have "\<exists>tgt. normalizeCallTarget pipelinedCall = Inr tgt" by (rule exI) code_simp
  moreover have "requestFits pipelinedCall"
    using sampleTable by (simp add: requestFits_def pipelinedCall_def requestTarget_def targetOps_def)
  ultimately show ?thesis using noContent by (simp add: validRequest_def) (simp add: pipelinedCall_def isU_def)
qed

theorem call_read_back_witness:
  "\<exists>frame m r. encodeCallRequestFrame pipelinedCall = Inr frame \<and>
    decodeRpcMessage frame = Inr (CallMessage (decodedCall pipelinedCall m)) \<and> newMessageReader m = Inr r \<and> reads r 0 0 NullV"
  by (rule call_read_back [OF pipelinedCall_valid])

end
