(* ===== verification/Server_Capabilities.thy ===== *)
theory Server_Capabilities
  imports Wire_Router Wire_Encode "HOL-Library.AList"
begin

text \<open>
  The capability registry of \<open>RpcServerBridge\<close> (\<open>src/rpc/server/bridge.ts\<close>): which dispatch an
  export index stands for, how many wire references the peer holds on it and how many answers
  hold it, with the operations that count references. A JavaScript \<open>Map\<close> is an association list
  in insertion order: \<open>AList.update\<close> and \<open>AList.delete\<close> are its \<open>set\<close> and \<open>delete\<close>. A dispatch
  object is the two interface properties the bridge reads and a name for its handler.
  Export indexes are integers.
\<close>

section \<open>Types\<close>

record 'h RpcServerDispatch =
  sd_interfaceId :: int
  sd_interfaceIds :: "int list option"
  sd_handler :: 'h

record 'h RegisteredDispatch =
  rd_dispatch :: "'h RpcServerDispatch"
  rd_refCount :: int
  rd_bootstrapGrantClaimed :: bool
  rd_answerHoldCount :: int

record RpcCallResponse =
  rs_content :: "bytes option"
  rs_capTable :: "number RpcCapDescriptor list option"
  rs_releaseParamCaps :: "bool option"
  rs_noFinishNeeded :: "bool option"

datatype RpcDispatchOutcome =
    OutResults RpcCallResponse
  | OutException js_string "bool option"

type_synonym 'h registry = "(int \<times> 'h RegisteredDispatch) list"

section \<open>Text of messages\<close>

text \<open>An integer as the code units of a string.\<close>

fun digits :: "nat \<Rightarrow> js_string" where
  "digits n = (if n < 10 then [48 + n] else digits (n div 10) @ [48 + n mod 10])"

declare digits.simps [simp del]

definition jsInt :: "int \<Rightarrow> js_string" where
  "jsInt i = (if i < 0 then 45 # digits (nat (- i)) else digits (nat i))"

section \<open>Reference counts\<close>

definition retainCapability :: "'h registry \<Rightarrow> int \<Rightarrow> number \<Rightarrow> 'h registry result" where
  "retainCapability reg capabilityIndex referenceCount =
     (if \<not> isInteger referenceCount \<or> toInt referenceCount \<le> 0
      then Inl (ProtocolError ''referenceCount must be a positive integer'' [])
      else case map_of reg capabilityIndex of
        None \<Rightarrow> Inl (ProtocolError ''unknown capability {}'' [capabilityIndex])
      | Some rd \<Rightarrow> Inr (AList.update capabilityIndex
          (rd\<lparr>rd_refCount := rd_refCount rd + toInt referenceCount\<rparr>) reg))"

definition releaseCapability :: "'h registry \<Rightarrow> int \<Rightarrow> number \<Rightarrow> (bool \<times> 'h registry) result" where
  "releaseCapability reg capabilityIndex referenceCount =
     (if \<not> isInteger referenceCount \<or> toInt referenceCount \<le> 0
      then Inl (ProtocolError ''referenceCount must be a positive integer'' [])
      else case map_of reg capabilityIndex of
        None \<Rightarrow> Inr (False, reg)
      | Some rd \<Rightarrow>
          if toInt referenceCount > rd_refCount rd
          then Inl (ProtocolError ''release referenceCount {} exceeds current refCount {} for capability {}''
                 [toInt referenceCount, rd_refCount rd, capabilityIndex])
          else
            let rd = rd\<lparr>rd_refCount := rd_refCount rd - toInt referenceCount\<rparr>
            in if rd_refCount rd \<le> 0 \<and> rd_answerHoldCount rd \<le> 0
               then Inr (False, AList.delete capabilityIndex reg)
               else Inr (True, AList.update capabilityIndex rd reg))"

section \<open>Capabilities of answers\<close>

text \<open>
  A result table entry names an export when its id is one: \<open>Map.get\<close> of a number that is not an
  integer finds nothing.
\<close>

definition capAt :: "'h registry \<Rightarrow> number \<Rightarrow> (int \<times> 'h RegisteredDispatch) option" where
  "capAt reg n = (if isInteger n then map_option (Pair (toInt n)) (map_of reg (toInt n)) else None)"

text \<open>
  One round of the loop of \<open>trackReturnedCapabilities\<close>: a hosted descriptor of a registered export
  gives the peer a wire reference, except the one a bootstrap was registered with, and the answer a
  hold.
\<close>

definition trackDescriptor ::
  "'h registry \<Rightarrow> number RpcCapDescriptor \<Rightarrow> bool \<Rightarrow> 'h registry \<times> int list" where
  "trackDescriptor reg descriptor bootstrap =
     (if cd_tag descriptor \<noteq> jint CAP_DESCRIPTOR_TAG_SENDER_HOSTED then (reg, [])
      else case capAt reg (cd_id descriptor) of
        None \<Rightarrow> (reg, [])
      | Some (i, rd) \<Rightarrow>
          let grants = \<not> bootstrap \<or> rd_bootstrapGrantClaimed rd \<or> rd_refCount rd = 0
          in (AList.update i
                (rd\<lparr>rd_refCount := (if grants then rd_refCount rd + 1 else rd_refCount rd),
                    rd_bootstrapGrantClaimed := bootstrap \<or> rd_bootstrapGrantClaimed rd,
                    rd_answerHoldCount := rd_answerHoldCount rd + 1\<rparr>) reg, [i]))"

fun trackReturnedCapabilities ::
  "'h registry \<Rightarrow> number RpcCapDescriptor list \<Rightarrow> bool \<Rightarrow> int list \<Rightarrow> 'h registry \<times> int list" where
  "trackReturnedCapabilities reg [] bootstrap held = (reg, held)"
| "trackReturnedCapabilities reg (descriptor # rest) bootstrap held =
     (case trackDescriptor reg descriptor bootstrap of
        (reg, new) \<Rightarrow> trackReturnedCapabilities reg rest bootstrap (held @ new))"

text \<open>\<open>releaseAnswerHeldCapabilities\<close>: one held index, and the loop over them.\<close>

definition releaseHold :: "bool \<Rightarrow> int \<Rightarrow> 'h registry \<Rightarrow> 'h registry" where
  "releaseHold releaseWireRefs i reg =
     (case map_of reg i of
        None \<Rightarrow> reg
      | Some rd \<Rightarrow>
          let rd = rd\<lparr>rd_answerHoldCount := max (rd_answerHoldCount rd - 1) 0\<rparr>;
              rd = (if releaseWireRefs \<and> rd_refCount rd > 0
                    then rd\<lparr>rd_refCount := rd_refCount rd - 1\<rparr> else rd)
          in if rd_refCount rd \<le> 0 \<and> rd_answerHoldCount rd \<le> 0
             then AList.delete i reg else AList.update i rd reg)"

definition releaseHeld :: "'h registry \<Rightarrow> int list \<Rightarrow> bool \<Rightarrow> 'h registry" where
  "releaseHeld reg held releaseWireRefs = fold (releaseHold releaseWireRefs) held reg"

section \<open>Promised answers\<close>

definition isGetField :: "int RpcPromisedAnswerOp \<Rightarrow> bool" where
  "isGetField op \<longleftrightarrow> op_tag op = RPC_PROMISED_ANSWER_OP_TAG_GET_POINTER_FIELD"

text \<open>The loop over the transform: the pointer index it selects, \<open>None\<close> for the multi-step error.\<close>

fun selectPointer :: "int RpcPromisedAnswerOp list \<Rightarrow> nat \<Rightarrow> int \<Rightarrow> int option" where
  "selectPointer [] getPointerFieldCount pointerIndex = Some pointerIndex"
| "selectPointer (op # ops) getPointerFieldCount pointerIndex =
     (if isGetField op
      then if getPointerFieldCount + 1 > 1 then None
           else selectPointer ops (getPointerFieldCount + 1) (orElse (op_pointerIndex op) 0)
      else selectPointer ops getPointerFieldCount pointerIndex)"

text \<open>\<open>Inl\<close> is the message of the error that is thrown.\<close>

fun resolvePromisedAnswerCapability ::
  "RpcDispatchOutcome \<Rightarrow> int RpcPromisedAnswerOp list option \<Rightarrow> js_string + number" where
  "resolvePromisedAnswerCapability (OutException reason _) transform =
     Inl (lit ''promisedAnswer target question resolved with exception: '' @ reason)"
| "resolvePromisedAnswerCapability (OutResults response) transform =
     (let capTable = orElse (rs_capTable response) []; ops = orElse transform []
      in if ops = []
         then if capTable = []
              then Inl (lit ''promisedAnswer target resolved but result has no capabilities in cap table'')
              else Inr (cd_id (capTable ! 0))
         else case selectPointer ops 0 0 of
             None \<Rightarrow> Inl (lit ''multi-step promisedAnswer transforms (multiple getPointerField operations) are not yet supported; got ''
                       @ jsInt (int (length (filter isGetField ops))) @ lit '' getPointerField steps'')
           | Some pointerIndex \<Rightarrow>
               if pointerIndex \<ge> int (length capTable)
               then Inl (lit ''promisedAnswer transform getPointerField('' @ jsInt pointerIndex
                       @ lit '') is out of range; cap table has '' @ jsInt (int (length capTable)) @ lit '' entries'')
               else Inr (cd_id (capTable ! nat pointerIndex)))"

section \<open>Dispatch\<close>

definition accepts :: "'h RpcServerDispatch \<Rightarrow> int \<Rightarrow> bool" where
  "accepts dispatch interfaceId =
     (case sd_interfaceIds dispatch of
        Some ids \<Rightarrow> interfaceId \<in> set ids
      | None \<Rightarrow> sd_interfaceId dispatch = interfaceId)"

fun joined :: "js_string \<Rightarrow> js_string list \<Rightarrow> js_string" where
  "joined sep [] = []"
| "joined sep [s] = s"
| "joined sep (s # t # rest) = s @ sep @ joined sep (t # rest)"

definition expectedInterfaces :: "'h RpcServerDispatch \<Rightarrow> js_string" where
  "expectedInterfaces dispatch =
     (case sd_interfaceIds dispatch of
        Some (i # ids) \<Rightarrow> joined (lit '','') (map jsInt (i # ids))
      | _ \<Rightarrow> jsInt (sd_interfaceId dispatch))"

text \<open>
  A middleware is its three hooks. The hooks are code of the user: functions that give a value or
  throw an error with the given message.
\<close>

record RpcServerMiddleware =
  mw_onIncomingFrame :: "(bytes \<Rightarrow> error + bytes option) option"
  mw_onDispatch :: "(int \<Rightarrow> bytes \<Rightarrow> js_string + bytes option) option"
  mw_onResponse :: "(RpcCallResponse \<Rightarrow> js_string + RpcCallResponse) option"

fun incomingChain :: "RpcServerMiddleware list \<Rightarrow> bytes \<Rightarrow> bytes option result" where
  "incomingChain [] frame = Inr (Some frame)"
| "incomingChain (mw # mws) frame =
     (case mw_onIncomingFrame mw of
        None \<Rightarrow> incomingChain mws frame
      | Some hook \<Rightarrow> bindE (hook frame) (\<lambda>f. case f of None \<Rightarrow> Inr None | Some f \<Rightarrow> incomingChain mws f))"

fun dispatchChain :: "RpcServerMiddleware list \<Rightarrow> int \<Rightarrow> bytes \<Rightarrow> js_string + bytes option" where
  "dispatchChain [] methodId params = Inr (Some params)"
| "dispatchChain (mw # mws) methodId params =
     (case mw_onDispatch mw of
        None \<Rightarrow> dispatchChain mws methodId params
      | Some hook \<Rightarrow> (case hook methodId params of
            Inl reason \<Rightarrow> Inl reason
          | Inr None \<Rightarrow> Inr None
          | Inr (Some p) \<Rightarrow> dispatchChain mws methodId p))"

text \<open>
  The \<open>onResponse\<close> chain: a hook that throws makes the outcome an exception, with the ownership
  decision of the last response.
\<close>

fun responseChain :: "RpcServerMiddleware list \<Rightarrow> RpcCallResponse \<Rightarrow> RpcDispatchOutcome" where
  "responseChain [] response = OutResults response"
| "responseChain (mw # mws) response =
     (case mw_onResponse mw of
        None \<Rightarrow> responseChain mws response
      | Some hook \<Rightarrow> (case hook response of
            Inl reason \<Rightarrow> OutException reason (rs_releaseParamCaps response)
          | Inr response' \<Rightarrow> responseChain mws response'))"

definition emptyResponse :: RpcCallResponse where
  "emptyResponse = \<lparr>rs_content = None, rs_capTable = None, rs_releaseParamCaps = None, rs_noFinishNeeded = None\<rparr>"

text \<open>
  The end of \<open>dispatchToCapability\<close>: the handler has returned a response (or thrown an error with
  the given message), having called \<open>retainParamCaps\<close> or not.
\<close>

definition handlerOutcome ::
  "RpcServerMiddleware list \<Rightarrow> js_string + RpcCallResponse \<Rightarrow> bool \<Rightarrow> RpcDispatchOutcome" where
  "handlerOutcome mws result retainParamCapsRequested =
     (case result of
        Inl reason \<Rightarrow> OutException reason (if retainParamCapsRequested then Some False else None)
      | Inr response \<Rightarrow>
          responseChain mws
            (if retainParamCapsRequested \<and> rs_releaseParamCaps response = None
             then response\<lparr>rs_releaseParamCaps := Some False\<rparr> else response))"

text \<open>The start of it (an id that is not an integer, which no Return can carry, is printed as one): the outcome when the handler is not reached, or the parameters to call it with.\<close>

definition enterCapability ::
  "RpcServerMiddleware list \<Rightarrow> 'h registry \<Rightarrow> number \<Rightarrow> RpcCallRequest \<Rightarrow> RpcDispatchOutcome + (int \<times> 'h \<times> bytes)" where
  "enterCapability mws reg capability call =
     (case capAt reg capability of
        None \<Rightarrow> Inl (OutException (lit ''unknown capability index: '' @ jsInt (toInt capability)) None)
      | Some (i, rd) \<Rightarrow>
          if \<not> accepts (rd_dispatch rd) (uint (cr_interfaceId call))
          then Inl (OutException (lit ''interface mismatch for capability '' @ jsInt i @ lit '': expected ''
                 @ expectedInterfaces (rd_dispatch rd) @ lit '' got '' @ jsInt (uint (cr_interfaceId call))) None)
          else case dispatchChain mws (cr_methodId call) (cr_paramsContent call) of
              Inl reason \<Rightarrow> Inl (OutException reason None)
            | Inr None \<Rightarrow> Inl (OutResults emptyResponse)
            | Inr (Some params) \<Rightarrow> Inr (i, sd_handler (rd_dispatch rd), params))"

end
