(* ===== verification/Server_Bridge.thy ===== *)
theory Server_Bridge
  imports Server_Capabilities
begin

text \<open>
  \<open>RpcServerBridge\<close> of \<open>src/rpc/server/bridge.ts\<close> as a state machine. An answer table entry is
  an object with an identity, since a coroutine keeps its entry after the table has dropped it: the
  state has a store of entries, and the table maps question ids into it. A call that awaits (its
  handler, the answer it is pipelined on, or the next microtask) is a pending stage under its
  entry, and an event is one of the runs of code between awaits: a frame that arrives, a handler
  that settles, a timer that fires, a method that is called. The limits are integers, 0
  standing for \<open>Infinity\<close>, which the code treats like it.
\<close>

section \<open>State\<close>

record AnswerTableEntry =
  ae_inputFrameBytes :: int
  ae_promise :: "RpcDispatchOutcome option"
  ae_aborted :: bool
  ae_outcome :: "RpcDispatchOutcome option"
  ae_finished :: bool
  ae_evictionTimer :: "nat option"
  ae_pipelineRefCount :: int
  ae_evictionAttempts :: int
  ae_heldCapabilityIndexes :: "int list option"

datatype 'h Stage =
    AwaitBootstrap int
  | AwaitTarget RpcCallRequest nat
  | AwaitHandler RpcCallRequest int 'h bytes "nat option"
  | AwaitSettle RpcCallRequest RpcDispatchOutcome

record RpcServerBridgeOptions =
  bo_maxRetainedInputFrameBytes :: "number option"
  bo_nextCapabilityIndex :: "int option"
  bo_maxAnswerTableSize :: "int option"
  bo_answerEvictionTimeoutMs :: "int option"
  bo_maxEvictionRetries :: "int option"
  bo_onBootstrap :: bool
  bo_middleware :: "RpcServerMiddleware list"

record 'h RpcServerBridge =
  sb_nextCapabilityIndex :: int
  sb_closed :: bool
  sb_retainedInputFrameBytes :: int
  sb_rejectedInputFrames :: int
  sb_maxRetainedInputFrameBytes :: "int option"
  sb_dispatchByCapability :: "'h registry"
  sb_onBootstrap :: bool
  sb_answerTable :: "(int \<times> nat) list"
  sb_maxAnswerTableSize :: int
  sb_answerEvictionTimeoutMs :: int
  sb_maxEvictionRetries :: int
  sb_middleware :: "RpcServerMiddleware list"
  sb_entries :: "nat \<Rightarrow> AnswerTableEntry"
  sb_nextEntry :: nat
  sb_pending :: "(nat \<times> 'h Stage) list"
  sb_timers :: "(nat \<times> int \<times> nat) list"
  sb_nextTimer :: nat

definition newEntry :: "int \<Rightarrow> AnswerTableEntry" where
  "newEntry inputFrameBytes =
     \<lparr>ae_inputFrameBytes = inputFrameBytes, ae_promise = None, ae_aborted = False, ae_outcome = None,
      ae_finished = False, ae_evictionTimer = None, ae_pipelineRefCount = 0, ae_evictionAttempts = 0,
      ae_heldCapabilityIndexes = None\<rparr>"

definition newRpcServerBridge :: "RpcServerBridgeOptions \<Rightarrow> 'h RpcServerBridge result" where
  "newRpcServerBridge options =
     bindE (case bo_maxRetainedInputFrameBytes options of
         Some n \<Rightarrow> if \<not> isSafeInteger n \<or> numLess n (jint 1)
                   then Inl (ProtocolError ''maxRetainedInputFrameBytes must be a positive safe integer'' [])
                   else Inr (Some (toInt n))
       | None \<Rightarrow> Inr None) (\<lambda>maxInputBytes.
     Inr \<lparr>sb_nextCapabilityIndex = orElse (bo_nextCapabilityIndex options) 0, sb_closed = False,
          sb_retainedInputFrameBytes = 0, sb_rejectedInputFrames = 0,
          sb_maxRetainedInputFrameBytes = maxInputBytes, sb_dispatchByCapability = [],
          sb_onBootstrap = bo_onBootstrap options, sb_answerTable = [],
          sb_maxAnswerTableSize = orElse (bo_maxAnswerTableSize options) 4096,
          sb_answerEvictionTimeoutMs = orElse (bo_answerEvictionTimeoutMs options) 0,
          sb_maxEvictionRetries = orElse (bo_maxEvictionRetries options) 10,
          sb_middleware = bo_middleware options, sb_entries = (\<lambda>_. newEntry 0), sb_nextEntry = 0,
          sb_pending = [], sb_timers = [], sb_nextTimer = 0\<rparr>)"

section \<open>Capabilities\<close>

definition exportCapability ::
  "'h RpcServerBridge \<Rightarrow> 'h RpcServerDispatch \<Rightarrow> int option \<Rightarrow> number option \<Rightarrow> int result \<times> 'h RpcServerBridge" where
  "exportCapability s dispatch index referenceCount =
     (if sb_closed s then (Inl (SessionError ''rpc server bridge is closed'' []), s)
      else
        let capabilityIndex = orElse index (sb_nextCapabilityIndex s);
            s = (if index = None then s\<lparr>sb_nextCapabilityIndex := capabilityIndex + 1\<rparr> else s);
            referenceCount = orElse referenceCount (jint 1)
        in if map_of (sb_dispatchByCapability s) capabilityIndex \<noteq> None
           then (Inl (ProtocolError ''capability {} already has a registered server dispatch'' [capabilityIndex]), s)
           else if \<not> isInteger referenceCount \<or> toInt referenceCount < 0
           then (Inl (ProtocolError ''referenceCount must be a non-negative integer'' []), s)
           else (Inr capabilityIndex,
             s\<lparr>sb_dispatchByCapability := AList.update capabilityIndex
                 \<lparr>rd_dispatch = dispatch, rd_refCount = toInt referenceCount,
                  rd_bootstrapGrantClaimed = False, rd_answerHoldCount = 0\<rparr> (sb_dispatchByCapability s)\<rparr>))"

definition onRegistry :: "'h RpcServerBridge \<Rightarrow> ('a \<times> 'h registry) result \<Rightarrow> 'a result \<times> 'h RpcServerBridge" where
  "onRegistry s r = (case r of Inl e \<Rightarrow> (Inl e, s) | Inr (v, reg) \<Rightarrow> (Inr v, s\<lparr>sb_dispatchByCapability := reg\<rparr>))"

section \<open>Entries and timers\<close>

definition setEntry :: "'h RpcServerBridge \<Rightarrow> nat \<Rightarrow> (AnswerTableEntry \<Rightarrow> AnswerTableEntry) \<Rightarrow> 'h RpcServerBridge" where
  "setEntry s entry f = s\<lparr>sb_entries := (sb_entries s)(entry := f (sb_entries s entry))\<rparr>"

definition removeAnswer :: "'h RpcServerBridge \<Rightarrow> int \<Rightarrow> 'h RpcServerBridge" where
  "removeAnswer s questionId = s\<lparr>sb_answerTable := AList.delete questionId (sb_answerTable s)\<rparr>"

definition clearEvictionTimer :: "'h RpcServerBridge \<Rightarrow> nat \<Rightarrow> 'h RpcServerBridge" where
  "clearEvictionTimer s entry =
     (case ae_evictionTimer (sb_entries s entry) of
        None \<Rightarrow> s
      | Some timer \<Rightarrow> s\<lparr>sb_timers := AList.delete timer (sb_timers s)\<rparr>)"

definition exceptionFrame :: "int \<Rightarrow> js_string \<Rightarrow> bool option \<Rightarrow> bool option \<Rightarrow> bytes result" where
  "exceptionFrame answerId reason releaseParamCaps noFinishNeeded =
     encodeReturnExceptionFrame \<lparr>re_answerId = jint answerId, re_reason = reason,
       re_releaseParamCaps = releaseParamCaps, re_noFinishNeeded = noFinishNeeded\<rparr>"

definition acceptAnswer :: "'h RpcServerBridge \<Rightarrow> int \<Rightarrow> int \<Rightarrow> 'h RpcServerBridge" where
  "acceptAnswer s questionId inputFrameBytes =
     s\<lparr>sb_retainedInputFrameBytes := sb_retainedInputFrameBytes s + inputFrameBytes,
       sb_answerTable := AList.update questionId (sb_nextEntry s) (sb_answerTable s),
       sb_entries := (sb_entries s)(sb_nextEntry s := newEntry inputFrameBytes),
       sb_nextEntry := sb_nextEntry s + 1\<rparr>"

text \<open>The new entry, or the frame that refuses the question.\<close>

definition registerAnswerEntry ::
  "'h RpcServerBridge \<Rightarrow> int \<Rightarrow> int \<Rightarrow> (bytes result + nat) \<times> 'h RpcServerBridge" where
  "registerAnswerEntry s questionId inputFrameBytes =
     (if sb_closed s then (Inl (exceptionFrame questionId (lit ''rpc server bridge is closed'') None None), s)
      else if map_of (sb_answerTable s) questionId \<noteq> None
      then (Inl (exceptionFrame questionId (lit ''duplicate questionId '' @ jsInt questionId
              @ lit '': question is already in progress'') None None), s)
      else if sb_maxAnswerTableSize s > 0 \<and> int (length (sb_answerTable s)) \<ge> sb_maxAnswerTableSize s
      then (Inl (exceptionFrame questionId (lit ''answer table is full ('' @ jsInt (sb_maxAnswerTableSize s)
              @ lit '' entries); cannot accept new questions'') None None), s)
      else case sb_maxRetainedInputFrameBytes s of
        None \<Rightarrow> (Inr (sb_nextEntry s), acceptAnswer s questionId inputFrameBytes)
      | Some limit \<Rightarrow>
          if inputFrameBytes > limit - sb_retainedInputFrameBytes s
          then (Inl (exceptionFrame questionId (lit ''input frame byte budget exceeded ('' @ jsInt limit
                  @ lit '' bytes)'') None None),
                s\<lparr>sb_rejectedInputFrames := sb_rejectedInputFrames s + 1\<rparr>)
          else (Inr (sb_nextEntry s), acceptAnswer s questionId inputFrameBytes))"

definition scheduleEviction :: "'h RpcServerBridge \<Rightarrow> int \<Rightarrow> nat \<Rightarrow> 'h RpcServerBridge" where
  "scheduleEviction s questionId entry =
     (if sb_answerEvictionTimeoutMs s \<le> 0 then s
      else setEntry (s\<lparr>sb_timers := AList.update (sb_nextTimer s) (questionId, entry) (sb_timers s),
                       sb_nextTimer := sb_nextTimer s + 1\<rparr>)
             entry (ae_evictionTimer_update (\<lambda>_. Some (sb_nextTimer s))))"

definition trackAnswer :: "'h RpcServerBridge \<Rightarrow> nat \<Rightarrow> number RpcCapDescriptor list \<Rightarrow> bool \<Rightarrow> 'h RpcServerBridge" where
  "trackAnswer s entry capTable bootstrap =
     (case trackReturnedCapabilities (sb_dispatchByCapability s) capTable bootstrap [] of
        (reg, held) \<Rightarrow>
          let s = s\<lparr>sb_dispatchByCapability := reg\<rparr>
          in if held = [] then s else setEntry s entry (ae_heldCapabilityIndexes_update (\<lambda>_. Some held)))"

definition releaseAnswerHeldCapabilities :: "'h RpcServerBridge \<Rightarrow> nat \<Rightarrow> bool \<Rightarrow> 'h RpcServerBridge" where
  "releaseAnswerHeldCapabilities s entry releaseWireRefs =
     (case ae_heldCapabilityIndexes (sb_entries s entry) of
        None \<Rightarrow> s
      | Some held \<Rightarrow>
          (setEntry s entry (ae_heldCapabilityIndexes_update (\<lambda>_. None)))
            \<lparr>sb_dispatchByCapability := releaseHeld (sb_dispatchByCapability s) held releaseWireRefs\<rparr>)"

text \<open>The callback of the eviction timer.\<close>

definition evictionTimer :: "'h RpcServerBridge \<Rightarrow> int \<Rightarrow> nat \<Rightarrow> 'h RpcServerBridge" where
  "evictionTimer s questionId entry =
     (if map_of (sb_answerTable s) questionId \<noteq> Some entry then s
      else if ae_pipelineRefCount (sb_entries s entry) > 0
      then let s = setEntry s entry (\<lambda>e. e\<lparr>ae_evictionAttempts := ae_evictionAttempts e + 1\<rparr>)
           in if sb_maxEvictionRetries s > 0
                 \<and> ae_evictionAttempts (sb_entries s entry) > sb_maxEvictionRetries s
              then removeAnswer (releaseAnswerHeldCapabilities s entry False) questionId
              else scheduleEviction s questionId entry
      else removeAnswer (releaseAnswerHeldCapabilities s entry False) questionId)"

definition closeBridge :: "'h RpcServerBridge \<Rightarrow> 'h RpcServerBridge" where
  "closeBridge s =
     (if sb_closed s then s
      else let entries = map snd (sb_answerTable s)
           in (fold (\<lambda>entry s. setEntry (clearEvictionTimer s entry) entry
                       (\<lambda>e. e\<lparr>ae_finished := True, ae_aborted := True\<rparr>)) entries
                 (s\<lparr>sb_closed := True\<rparr>))
                \<lparr>sb_answerTable := [], sb_dispatchByCapability := []\<rparr>)"

end
