(* ===== verification/Server_Calls.thy ===== *)
theory Server_Calls
  imports Server_Bridge Wire_Decode
begin

text \<open>
  The calls of \<open>RpcServerBridge\<close>: from the frame that arrives, over the stages of the dispatch, to
  the Return frame, with bootstrap answers, Finish, Release and the calls the WASM peer hands to the
  host. \<open>bridgeStep\<close> is one run of code between awaits.
\<close>

section \<open>Stages\<close>

definition setStage :: "'h RpcServerBridge \<Rightarrow> nat \<Rightarrow> 'h Stage \<Rightarrow> 'h RpcServerBridge" where
  "setStage s entry stage = s\<lparr>sb_pending := AList.update entry stage (sb_pending s)\<rparr>"

definition dropStage :: "'h RpcServerBridge \<Rightarrow> nat \<Rightarrow> 'h RpcServerBridge" where
  "dropStage s entry = s\<lparr>sb_pending := AList.delete entry (sb_pending s)\<rparr>"

definition addPipelineRef :: "'h RpcServerBridge \<Rightarrow> nat \<Rightarrow> int \<Rightarrow> 'h RpcServerBridge" where
  "addPipelineRef s entry n = setEntry s entry (\<lambda>e. e\<lparr>ae_pipelineRefCount := ae_pipelineRefCount e + n\<rparr>)"

text \<open>The end of a pipelined dispatch gives its reference on the target back.\<close>

definition dropPipelineRef :: "'h RpcServerBridge \<Rightarrow> nat option \<Rightarrow> 'h RpcServerBridge" where
  "dropPipelineRef s target = (case target of None \<Rightarrow> s | Some t \<Rightarrow> addPipelineRef s t (- 1))"

definition dispatchToCapability ::
  "'h RpcServerBridge \<Rightarrow> nat \<Rightarrow> RpcCallRequest \<Rightarrow> number \<Rightarrow> nat option \<Rightarrow> 'h RpcServerBridge" where
  "dispatchToCapability s entry call capability target =
     (case enterCapability (sb_middleware s) (sb_dispatchByCapability s) capability call of
        Inl outcome \<Rightarrow> setStage (dropPipelineRef s target) entry (AwaitSettle call outcome)
      | Inr (i, handler, params) \<Rightarrow> setStage s entry (AwaitHandler call i handler params target))"

definition transformOf :: "RpcCallRequest \<Rightarrow> int RpcPromisedAnswerOp list option" where
  "transformOf call = (case cr_target call of PromisedAnswer pa \<Rightarrow> pa_transform pa | _ \<Rightarrow> None)"

text \<open>A pipelined call whose target has the given outcome, or that was cancelled while waiting.\<close>

definition targetResolved ::
  "'h RpcServerBridge \<Rightarrow> nat \<Rightarrow> RpcCallRequest \<Rightarrow> nat \<Rightarrow> RpcDispatchOutcome \<Rightarrow> 'h RpcServerBridge" where
  "targetResolved s entry call target targetOutcome =
     (if ae_aborted (sb_entries s entry)
      then setStage (dropPipelineRef s (Some target)) entry
             (AwaitSettle call (OutException (lit ''pipelined call canceled'') None))
      else case resolvePromisedAnswerCapability targetOutcome (transformOf call) of
          Inl reason \<Rightarrow> setStage (dropPipelineRef s (Some target)) entry (AwaitSettle call (OutException reason None))
        | Inr capability \<Rightarrow> dispatchToCapability s entry call capability (Some target))"

definition dispatchCall :: "'h RpcServerBridge \<Rightarrow> nat \<Rightarrow> RpcCallRequest \<Rightarrow> 'h RpcServerBridge" where
  "dispatchCall s entry call =
     (case cr_target call of
        ImportedCap capability \<Rightarrow> dispatchToCapability s entry call (jint capability) None
      | PromisedAnswer pa \<Rightarrow>
          (case map_of (sb_answerTable s) (pa_questionId pa) of
             None \<Rightarrow> setStage s entry (AwaitSettle call (OutException
                 (lit ''promisedAnswer references unknown question '' @ jsInt (pa_questionId pa)) None))
           | Some target \<Rightarrow>
               let s = addPipelineRef s target 1
               in case ae_outcome (sb_entries s target) of
                    Some outcome \<Rightarrow> targetResolved s entry call target outcome
                  | None \<Rightarrow> setStage s entry (AwaitTarget call target)))"

definition resolveEntry :: "RpcDispatchOutcome \<Rightarrow> AnswerTableEntry \<Rightarrow> AnswerTableEntry" where
  "resolveEntry outcome e = (if ae_promise e = None then e\<lparr>ae_promise := Some outcome\<rparr> else e)"

text \<open>
  The rest of \<open>completeCall\<close>, once the dispatch has its outcome: the Return frame, or \<open>None\<close> when
  the answer is no longer wanted.
\<close>

definition completeCall ::
  "'h RpcServerBridge \<Rightarrow> nat \<Rightarrow> RpcCallRequest \<Rightarrow> RpcDispatchOutcome \<Rightarrow> bytes option result \<times> 'h RpcServerBridge" where
  "completeCall s0 entry call outcome =
     (let s = setEntry s0 entry (\<lambda>e. resolveEntry outcome (e\<lparr>ae_outcome := Some outcome\<rparr>));
          s = s\<lparr>sb_retainedInputFrameBytes := sb_retainedInputFrameBytes s - ae_inputFrameBytes (sb_entries s entry)\<rparr>;
          q = cr_questionId call
      in if map_of (sb_answerTable s) q \<noteq> Some entry \<or> ae_finished (sb_entries s entry) then (Inr None, s)
         else
           let s = scheduleEviction s q entry
           in case outcome of
                OutException reason releaseParamCaps \<Rightarrow>
                  (bindE (exceptionFrame q reason releaseParamCaps None) (\<lambda>f. Inr (Some f)), s)
              | OutResults response \<Rightarrow>
                  (bindE (encodeReturnResultsFrame \<lparr>rf_answerId = jint q, rf_content = rs_content response,
                      rf_capTable = rs_capTable response, rf_releaseParamCaps = rs_releaseParamCaps response,
                      rf_noFinishNeeded = rs_noFinishNeeded response\<rparr>) (\<lambda>f. Inr (Some f)),
                   trackAnswer s entry (orElse (rs_capTable response) []) False))"

section \<open>Bootstrap answers\<close>

definition asNumbers :: "int RpcCapDescriptor \<Rightarrow> number RpcCapDescriptor" where
  "asNumbers d = \<lparr>cd_tag = jint (cd_tag d), cd_id = jint (cd_id d), cd_vineId = map_option jint (cd_vineId d),
                  cd_contact = cd_contact d\<rparr>"

fun bootstrapOutcome :: "RpcReturnMessage \<Rightarrow> RpcDispatchOutcome" where
  "bootstrapOutcome (ReturnException _ reason _) = OutException reason None"
| "bootstrapOutcome (ReturnCanceled _ _) = OutException canceledReason None"
| "bootstrapOutcome (ReturnResults _ content capTable _) =
     OutResults \<lparr>rs_content = Some content, rs_capTable = Some (map asNumbers capTable),
                 rs_releaseParamCaps = None, rs_noFinishNeeded = None\<rparr>"

fun answerIdOf :: "RpcReturnMessage \<Rightarrow> int" where
  "answerIdOf (ReturnResults a _ _ _) = a"
| "answerIdOf (ReturnException a _ _) = a"
| "answerIdOf (ReturnCanceled a _) = a"

fun returnedCaps :: "RpcReturnMessage \<Rightarrow> number RpcCapDescriptor list" where
  "returnedCaps (ReturnResults _ _ capTable _) = map asNumbers capTable"
| "returnedCaps _ = []"

definition completeBootstrapAnswer ::
  "'h RpcServerBridge \<Rightarrow> nat \<Rightarrow> RpcReturnMessage \<Rightarrow> 'h RpcServerBridge" where
  "completeBootstrapAnswer s0 entry response =
     (let outcome = bootstrapOutcome response;
          s = setEntry s0 entry (\<lambda>e. resolveEntry outcome (e\<lparr>ae_outcome := Some outcome\<rparr>));
          q = answerIdOf response
      in if map_of (sb_answerTable s) q \<noteq> Some entry \<or> ae_finished (sb_entries s entry) then s
         else scheduleEviction (trackAnswer s entry (returnedCaps response) True) q entry)"

text \<open>
  \<open>onBootstrap\<close> has given a capability index, or thrown: what follows the await. The text of an
  error of the encoder is its template.
\<close>

definition errorText :: "error \<Rightarrow> js_string" where
  "errorText e = lit (fst (errorMessage e))"

definition bootstrapFailure ::
  "'h RpcServerBridge \<Rightarrow> nat \<Rightarrow> int \<Rightarrow> js_string \<Rightarrow> 'h RpcServerBridge" where
  "bootstrapFailure s entry questionId reason =
     setEntry (removeAnswer s questionId) entry (resolveEntry (OutException reason None))"

definition bootstrapSettled ::
  "'h RpcServerBridge \<Rightarrow> nat \<Rightarrow> int \<Rightarrow> js_string + number \<Rightarrow> bytes option result \<times> 'h RpcServerBridge" where
  "bootstrapSettled s entry questionId result =
     (case result of
        Inl reason \<Rightarrow> (Inl (PlainError ''onBootstrap: {reason}'' (map int reason)), bootstrapFailure s entry questionId reason)
      | Inr capability \<Rightarrow>
          (case encodeBootstrapResponseFrame (jint questionId) capability of
             Inl e \<Rightarrow> (Inl e, bootstrapFailure s entry questionId (errorText e))
           | Inr response \<Rightarrow>
               (case decodeReturnFrame response of
                  Inl e \<Rightarrow> (Inl e, bootstrapFailure s entry questionId (errorText e))
                | Inr message \<Rightarrow> (Inr (Some response), completeBootstrapAnswer s entry message))))"

definition observeBootstrapResponse :: "'h RpcServerBridge \<Rightarrow> bytes \<Rightarrow> unit result \<times> 'h RpcServerBridge" where
  "observeBootstrapResponse s frame =
     (case decodeReturnFrame frame of
        Inl e \<Rightarrow> (Inl e, s)
      | Inr response \<Rightarrow>
          (case registerAnswerEntry s (answerIdOf response) 0 of
             (Inl errorFrame, s) \<Rightarrow>
               (bindE errorFrame (\<lambda>f. bindE (decodeReturnFrame f) (\<lambda>failure.
                  Inl (ProtocolError ''{reason}'' (case bootstrapOutcome failure of
                      OutException reason _ \<Rightarrow> map int reason | OutResults _ \<Rightarrow> [])))), s)
           | (Inr entry, s) \<Rightarrow> (Inr (), completeBootstrapAnswer s entry response)))"

section \<open>Frames\<close>

datatype bridge_output =
    Suspended
  | Replied "bytes option result"
  | Done "unit result"
  | Exported "int result"
  | Released "bool result"

text \<open>A Finish for the question: cancel the pending call, end the holds of the answer, drop it.\<close>

definition finishAnswer :: "'h RpcServerBridge \<Rightarrow> int RpcFinishRequest \<Rightarrow> 'h RpcServerBridge" where
  "finishAnswer s finish =
     (case map_of (sb_answerTable s) (fq_questionId finish) of
        None \<Rightarrow> removeAnswer s (fq_questionId finish)
      | Some entry \<Rightarrow>
          let s = clearEvictionTimer s entry;
              s = setEntry s entry (\<lambda>e. e\<lparr>ae_aborted := (ae_aborted e \<or> ae_outcome e = None), ae_finished := True\<rparr>);
              s = releaseAnswerHeldCapabilities s entry (fq_releaseResultCaps finish)
          in removeAnswer s (fq_questionId finish))"

definition handleCall :: "'h RpcServerBridge \<Rightarrow> RpcCallRequest \<Rightarrow> int \<Rightarrow> bridge_output \<times> 'h RpcServerBridge" where
  "handleCall s call inputFrameBytes =
     (case registerAnswerEntry s (cr_questionId call) inputFrameBytes of
        (Inl errorFrame, s) \<Rightarrow> (Replied (bindE errorFrame (\<lambda>f. Inr (Some f))), s)
      | (Inr entry, s) \<Rightarrow> (Suspended, dispatchCall s entry call))"

definition handleBootstrap :: "'h RpcServerBridge \<Rightarrow> int \<Rightarrow> bridge_output \<times> 'h RpcServerBridge" where
  "handleBootstrap s questionId =
     (if \<not> sb_onBootstrap s
      then (Replied (Inl (ProtocolError ''bootstrap not configured'' [questionId])), s)
      else case registerAnswerEntry s questionId 0 of
          (Inl errorFrame, s) \<Rightarrow> (Replied (bindE errorFrame (\<lambda>f. Inr (Some f))), s)
        | (Inr entry, s) \<Rightarrow> (Suspended, setStage s entry (AwaitBootstrap questionId)))"

text \<open>A step of the code that may throw before it changes the state.\<close>

definition orThrow :: "'h RpcServerBridge \<Rightarrow> 'a result \<Rightarrow> ('a \<Rightarrow> bridge_output \<times> 'h RpcServerBridge) \<Rightarrow> bridge_output \<times> 'h RpcServerBridge" where
  "orThrow s r f = (case r of Inl e \<Rightarrow> (Replied (Inl e), s) | Inr x \<Rightarrow> f x)"

definition handleDecoded :: "'h RpcServerBridge \<Rightarrow> bytes \<Rightarrow> int \<Rightarrow> bridge_output \<times> 'h RpcServerBridge" where
  "handleDecoded s frame tag =
     (if tag = RPC_MESSAGE_TAG_RELEASE
      then orThrow s (decodeReleaseFrame frame) (\<lambda>release.
             case onRegistry s (releaseCapability (sb_dispatchByCapability s) (rq_id release)
                    (jint (rq_referenceCount release))) of
               (r, s) \<Rightarrow> (Replied (bindE r (\<lambda>_. Inr None)), s))
      else if tag = RPC_MESSAGE_TAG_FINISH
      then orThrow s (decodeFinishFrame frame) (\<lambda>finish. (Replied (Inr None), finishAnswer s finish))
      else if tag = RPC_MESSAGE_TAG_RETURN \<or> tag = RPC_MESSAGE_TAG_RESOLVE \<or> tag = RPC_MESSAGE_TAG_DISEMBARGO
      then (Replied (Inr None), s)
      else if tag = RPC_MESSAGE_TAG_BOOTSTRAP
      then orThrow s (decodeBootstrapRequestFrame frame) (\<lambda>bootstrap. handleBootstrap s (bq_questionId bootstrap))
      else if tag \<noteq> RPC_MESSAGE_TAG_CALL
      then (Replied (Inl (ProtocolError ''unsupported rpc message tag for server bridge: {}'' [tag])), s)
      else orThrow s (decodeCallRequestFrame frame) (\<lambda>call. handleCall s call (int (length frame))))"

definition handleFrame :: "'h RpcServerBridge \<Rightarrow> bytes \<Rightarrow> bridge_output \<times> 'h RpcServerBridge" where
  "handleFrame s frame =
     (if sb_closed s then (Replied (Inl (SessionError ''rpc server bridge is closed'' [])), s)
      else orThrow s (incomingChain (sb_middleware s) frame) (\<lambda>f. case f of
          None \<Rightarrow> (Replied (Inr None), s)
        | Some currentFrame \<Rightarrow>
            orThrow s (decodeRpcMessageTag currentFrame) (handleDecoded s currentFrame)))"

section \<open>Statistics\<close>

record RpcServerBridgeStats =
  bs_pendingAnswers :: int
  bs_completedAnswers :: int
  bs_answersWithEvictionTimers :: int
  bs_totalPipelineRefCount :: int
  bs_maxPipelineRefCount :: int
  bs_evictionAttempts :: int
  bs_totalCapabilityReferences :: int
  bs_answerHeldCapabilityReferences :: int

text \<open>The computed part of the \<open>stats\<close> getter; the rest of it are fields of the state.\<close>

definition bridgeStats :: "'h RpcServerBridge \<Rightarrow> RpcServerBridgeStats" where
  "bridgeStats s =
     (let entries = map (\<lambda>(q, entry). sb_entries s entry) (sb_answerTable s);
          caps = map snd (sb_dispatchByCapability s)
      in \<lparr>bs_pendingAnswers = int (length (filter (\<lambda>e. ae_outcome e = None \<and> \<not> ae_finished e) entries)),
          bs_completedAnswers = int (length (filter (\<lambda>e. ae_outcome e \<noteq> None \<and> \<not> ae_finished e) entries)),
          bs_answersWithEvictionTimers = int (length (filter (\<lambda>e. ae_evictionTimer e \<noteq> None) entries)),
          bs_totalPipelineRefCount = sum_list (map ae_pipelineRefCount entries),
          bs_maxPipelineRefCount = fold max (map ae_pipelineRefCount entries) 0,
          bs_evictionAttempts = sum_list (map ae_evictionAttempts entries),
          bs_totalCapabilityReferences = sum_list (map rd_refCount caps),
          bs_answerHeldCapabilityReferences = sum_list (map rd_answerHoldCount caps)\<rparr>)"

section \<open>Steps\<close>

datatype 'h bridge_event =
    ExportCapability "'h RpcServerDispatch" "int option" "number option"
  | RetainCapability int number
  | ReleaseCapability int number
  | HandleFrame bytes
  | ObserveBootstrapResponse bytes
  | BootstrapSettled nat "js_string + number"
  | TargetSettled nat
  | HandlerSettled nat "js_string + RpcCallResponse" bool
  | OutcomeSettled nat
  | EvictionTimer nat
  | CloseBridge

text \<open>The run of code an event starts; \<open>None\<close> when nothing waits for the event.\<close>

fun bridgeStep :: "'h RpcServerBridge \<Rightarrow> 'h bridge_event \<Rightarrow> (bridge_output \<times> 'h RpcServerBridge) option" where
  "bridgeStep s (ExportCapability dispatch index n) = Some (apfst Exported (exportCapability s dispatch index n))"
| "bridgeStep s (RetainCapability i n) =
     Some (apfst Done (onRegistry s (bindE (retainCapability (sb_dispatchByCapability s) i n) (\<lambda>reg. Inr ((), reg)))))"
| "bridgeStep s (ReleaseCapability i n) =
     Some (apfst Released (onRegistry s (releaseCapability (sb_dispatchByCapability s) i n)))"
| "bridgeStep s (HandleFrame frame) = Some (handleFrame s frame)"
| "bridgeStep s (ObserveBootstrapResponse frame) = Some (apfst Done (observeBootstrapResponse s frame))"
| "bridgeStep s (BootstrapSettled entry result) =
     (case map_of (sb_pending s) entry of
        Some (AwaitBootstrap q) \<Rightarrow> Some (apfst Replied (bootstrapSettled (dropStage s entry) entry q result))
      | _ \<Rightarrow> None)"
| "bridgeStep s (TargetSettled entry) =
     (case map_of (sb_pending s) entry of
        Some (AwaitTarget call target) \<Rightarrow>
          (if ae_aborted (sb_entries s entry)
           then Some (Suspended, targetResolved s entry call target (OutException [] None))
           else case ae_promise (sb_entries s target) of
               Some outcome \<Rightarrow> Some (Suspended, targetResolved s entry call target outcome)
             | None \<Rightarrow> None)
      | _ \<Rightarrow> None)"
| "bridgeStep s (HandlerSettled entry result retain) =
     (case map_of (sb_pending s) entry of
        Some (AwaitHandler call i handler params target) \<Rightarrow>
          Some (apfst Replied (completeCall (dropPipelineRef (dropStage s entry) target) entry call
                  (handlerOutcome (sb_middleware s) result retain)))
      | _ \<Rightarrow> None)"
| "bridgeStep s (OutcomeSettled entry) =
     (case map_of (sb_pending s) entry of
        Some (AwaitSettle call outcome) \<Rightarrow> Some (apfst Replied (completeCall (dropStage s entry) entry call outcome))
      | _ \<Rightarrow> None)"
| "bridgeStep s (EvictionTimer timer) =
     (case map_of (sb_timers s) timer of
        Some (q, entry) \<Rightarrow> Some (Suspended, evictionTimer (s\<lparr>sb_timers := AList.delete timer (sb_timers s)\<rparr>) q entry)
      | None \<Rightarrow> None)"
| "bridgeStep s CloseBridge = Some (Done (Inr ()), closeBridge s)"

text \<open>The states a bridge can be in.\<close>

inductive bridgeReachable :: "RpcServerBridgeOptions \<Rightarrow> 'h RpcServerBridge \<Rightarrow> bool" for options where
  created: "newRpcServerBridge options = Inr s \<Longrightarrow> bridgeReachable options s"
| stepped: "bridgeReachable options s \<Longrightarrow> bridgeStep s event = Some (out, s') \<Longrightarrow> bridgeReachable options s'"

text \<open>A sequence of events, each of which something waits for, with the outputs.\<close>

fun bridgeRun :: "'h RpcServerBridge \<Rightarrow> 'h bridge_event list \<Rightarrow> (bridge_output list \<times> 'h RpcServerBridge) option" where
  "bridgeRun s [] = Some ([], s)"
| "bridgeRun s (event # events) =
     (case bridgeStep s event of
        None \<Rightarrow> None
      | Some (out, s') \<Rightarrow> map_option (apfst ((#) out)) (bridgeRun s' events))"

lemma bridgeRun_reachable:
  "bridgeReachable options s \<Longrightarrow> bridgeRun s events = Some (outs, s') \<Longrightarrow> bridgeReachable options s'"
  by (induction events arbitrary: s outs) (auto split: option.splits dest: stepped)

end
