(* ===== verification/Server_References.thy ===== *)
theory Server_References
  imports Server_Calls
begin

text \<open>
  Reference accounting of the bridge. In every reachable state the hold count of an export is the
  number of times the answers hold it, so that a capability an answer has returned stays
  dispatchable for as long as the answer holds it, and an export whose last reference and last hold
  go is dropped.
\<close>

section \<open>The view of the state that counts\<close>

definition heldBy :: "'h RpcServerBridge \<Rightarrow> nat \<Rightarrow> int list" where
  "heldBy s entry = orElse (ae_heldCapabilityIndexes (sb_entries s entry)) []"

definition capView :: "'h RpcServerBridge \<Rightarrow> 'h registry \<times> (nat \<Rightarrow> int list) \<times> nat \<times> bool" where
  "capView s = (sb_dispatchByCapability s, heldBy s, sb_nextEntry s, sb_closed s)"

named_theorems cap_view "operations that leave the references alone"

lemma setEntry_view:
  "(\<And>e. ae_heldCapabilityIndexes (f e) = ae_heldCapabilityIndexes e) \<Longrightarrow> capView (setEntry s entry f) = capView s"
  by (auto simp: capView_def heldBy_def setEntry_def)

lemma views [cap_view]:
  "capView (setStage s entry stage) = capView s"
  "capView (dropStage s entry) = capView s"
  "capView (removeAnswer s q) = capView s"
  "capView (clearEvictionTimer s entry) = capView s"
  "capView (addPipelineRef s entry n) = capView s"
  "capView (dropPipelineRef s target) = capView s"
  "capView (scheduleEviction s q entry) = capView s"
  "capView (s\<lparr>sb_timers := ts\<rparr>) = capView s"
  "capView (s\<lparr>sb_retainedInputFrameBytes := n\<rparr>) = capView s"
  "capView (s\<lparr>sb_rejectedInputFrames := n\<rparr>) = capView s"
  by (auto simp: capView_def heldBy_def setStage_def dropStage_def removeAnswer_def clearEvictionTimer_def
      addPipelineRef_def dropPipelineRef_def scheduleEviction_def setEntry_def split: option.splits)

lemma dispatch_view [cap_view]:
  "capView (dispatchToCapability s entry call capability target) = capView s"
  "capView (targetResolved s entry call t outcome) = capView s"
  "capView (dispatchCall s entry call) = capView s"
proof -
  show d: "capView (dispatchToCapability s entry call capability target) = capView s" for s :: "'h RpcServerBridge" and capability target
    by (auto simp: dispatchToCapability_def cap_view split: sum.splits)
  show r: "capView (targetResolved s entry call t outcome) = capView s" for s :: "'h RpcServerBridge" and t outcome
    by (auto simp: targetResolved_def cap_view d split: sum.splits)
  show "capView (dispatchCall s entry call) = capView s"
    by (auto simp: dispatchCall_def cap_view d r Let_def split: RpcCallTarget.splits option.splits)
qed

section \<open>Counts\<close>

definition holdOf :: "'h registry \<Rightarrow> int \<Rightarrow> int" where
  "holdOf reg k = (case map_of reg k of None \<Rightarrow> 0 | Some rd \<Rightarrow> rd_answerHoldCount rd)"

definition heldCount :: "(nat \<Rightarrow> int list) \<Rightarrow> nat \<Rightarrow> int \<Rightarrow> int" where
  "heldCount held n k = (\<Sum>entry<n. int (count_list (held entry) k))"

lemma heldCount_update:
  "x < n \<Longrightarrow> heldCount (held(x := v)) n k =
    heldCount held n k - int (count_list (held x) k) + int (count_list v k)"
proof -
  assume "x < n"
  then have x: "x \<in> {..<n}" "finite {..<n}" by simp_all
  have "(\<Sum>e\<in>{..<n} - {x}. int (count_list ((held(x := v)) e) k)) = (\<Sum>e\<in>{..<n} - {x}. int (count_list (held e) k))"
    by (rule sum.cong) auto
  then show ?thesis
    unfolding heldCount_def using sum.remove [OF x(2,1), of "\<lambda>e. int (count_list ((held(x := v)) e) k)"]
      sum.remove [OF x(2,1), of "\<lambda>e. int (count_list (held e) k)"] by simp
qed

lemma heldCount_nonneg: "0 \<le> heldCount held n k"
  by (simp add: heldCount_def sum_nonneg)

lemma heldCount_ge: "x < n \<Longrightarrow> int (count_list (held x) k) \<le> heldCount held n k"
  unfolding heldCount_def by (rule member_le_sum) auto

lemma heldCount_fresh: "held n = [] \<Longrightarrow> heldCount held (Suc n) k = heldCount held n k"
  by (simp add: heldCount_def)

lemma heldCount_cong: "(\<And>e. e < n \<Longrightarrow> held e = held' e) \<Longrightarrow> heldCount held n k = heldCount held' n k"
  by (simp add: heldCount_def)

definition registryOk :: "'h registry \<Rightarrow> bool" where
  "registryOk reg \<longleftrightarrow> distinct (map fst reg) \<and> (\<forall>k rd. map_of reg k = Some rd \<longrightarrow> 0 \<le> rd_refCount rd)"

definition referencesOk :: "'h registry \<times> (nat \<Rightarrow> int list) \<times> nat \<times> bool \<Rightarrow> bool" where
  "referencesOk v = (case v of (reg, held, n, shut) \<Rightarrow>
     registryOk reg \<and> (shut \<longrightarrow> reg = []) \<and> (\<not> shut \<longrightarrow> (\<forall>k. holdOf reg k = heldCount held n k)))"

lemma registryOk_refs: "registryOk reg \<Longrightarrow> map_of reg k = Some rd \<Longrightarrow> 0 \<le> rd_refCount rd"
  by (simp only: registryOk_def)

lemma registryOk_update:
  assumes "registryOk reg" "0 \<le> rd_refCount rd"
  shows "registryOk (AList.update k rd reg)"
proof -
  have "0 \<le> rd_refCount rd'" if "map_of (AList.update k rd reg) j = Some rd'" for j rd'
    using that assms registryOk_refs [OF assms(1)] by (auto simp: update_conv split: if_splits)
  then show ?thesis using assms(1) by (simp only: registryOk_def distinct_update) blast
qed

lemma registryOk_delete:
  assumes "registryOk reg"
  shows "registryOk (AList.delete k reg)"
proof -
  have "0 \<le> rd_refCount rd'" if "map_of (AList.delete k reg) j = Some rd'" for j rd'
    using that assms registryOk_refs [OF assms(1)] by (auto simp: delete_conv' split: if_splits)
  then show ?thesis using assms by (simp only: registryOk_def distinct_delete) blast
qed

lemma holdOf_update: "holdOf (AList.update k rd reg) j = (if j = k then rd_answerHoldCount rd else holdOf reg j)"
  by (simp add: holdOf_def update_conv)

lemma holdOf_delete: "holdOf (AList.delete k reg) j = (if j = k then 0 else holdOf reg j)"
  by (simp add: holdOf_def delete_conv')

lemma holdOf_at: "map_of reg k = Some rd \<Longrightarrow> holdOf reg k = rd_answerHoldCount rd"
  by (simp add: holdOf_def)

section \<open>Registry operations\<close>

lemma retain_ok:
  assumes "retainCapability reg i n = Inr reg'" "registryOk reg"
  shows "registryOk reg' \<and> (\<forall>k. holdOf reg' k = holdOf reg k)"
proof (cases "map_of reg i")
  case None
  then show ?thesis using assms by (simp add: retainCapability_def split: if_splits)
next
  case (Some rd)
  define rd' where "rd' = rd\<lparr>rd_refCount := rd_refCount rd + toInt n\<rparr>"
  have "reg' = AList.update i rd' reg" "0 < toInt n"
    using assms(1) Some by (auto simp: retainCapability_def rd'_def split: if_splits)
  then show ?thesis using registryOk_update [OF assms(2), of rd' i] registryOk_refs [OF assms(2) Some]
    by (simp add: holdOf_update rd'_def holdOf_at [OF Some])
qed

lemma release_ok:
  assumes "releaseCapability reg i n = Inr (kept, reg')" "registryOk reg" "\<And>k. 0 \<le> holdOf reg k"
  shows "registryOk reg' \<and> (\<forall>k. holdOf reg' k = holdOf reg k)"
proof (cases "map_of reg i")
  case None
  then show ?thesis using assms by (simp add: releaseCapability_def split: if_splits)
next
  case (Some rd)
  define rd' where "rd' = rd\<lparr>rd_refCount := rd_refCount rd - toInt n\<rparr>"
  have "reg' = (if rd_refCount rd' \<le> 0 \<and> rd_answerHoldCount rd' \<le> 0 then AList.delete i reg else AList.update i rd' reg)"
      "toInt n \<le> rd_refCount rd"
    using assms(1) Some by (auto simp: releaseCapability_def rd'_def Let_def split: if_splits)
  then show ?thesis using registryOk_update [OF assms(2), of rd' i] registryOk_delete [OF assms(2), of i]
      assms(3) [of i] holdOf_at [OF Some]
    by (simp add: holdOf_update holdOf_delete rd'_def)
qed

lemma capAt_Some: "capAt reg n = Some (i, rd) \<longleftrightarrow> n = jint i \<and> map_of reg i = Some rd"
  by (auto simp: capAt_def isInteger_iff split: if_splits)

lemma trackDescriptor_ok:
  assumes "trackDescriptor reg descriptor bootstrap = (reg', new)" "registryOk reg"
  shows "registryOk reg' \<and> (\<forall>k. holdOf reg' k = holdOf reg k + int (count_list new k))"
proof (cases "cd_tag descriptor \<noteq> jint CAP_DESCRIPTOR_TAG_SENDER_HOSTED \<or> capAt reg (cd_id descriptor) = None")
  case True
  then show ?thesis using assms by (auto simp: trackDescriptor_def split: if_splits)
next
  case False
  then obtain i rd where at: "cd_tag descriptor = jint CAP_DESCRIPTOR_TAG_SENDER_HOSTED"
      "capAt reg (cd_id descriptor) = Some (i, rd)" by auto
  then have rd: "map_of reg i = Some rd" by (simp add: capAt_Some)
  define rd' where "rd' = rd\<lparr>rd_refCount := (if \<not> bootstrap \<or> rd_bootstrapGrantClaimed rd \<or> rd_refCount rd = 0
      then rd_refCount rd + 1 else rd_refCount rd), rd_bootstrapGrantClaimed := bootstrap \<or> rd_bootstrapGrantClaimed rd,
      rd_answerHoldCount := rd_answerHoldCount rd + 1\<rparr>"
  have "reg' = AList.update i rd' reg" "new = [i]"
    using assms(1) at by (simp_all add: trackDescriptor_def Let_def rd'_def)
  then show ?thesis using registryOk_update [OF assms(2), of rd' i] registryOk_refs [OF assms(2) rd] holdOf_at [OF rd]
    by (simp add: holdOf_update rd'_def)
qed

lemma track_ok:
  assumes "trackReturnedCapabilities reg caps bootstrap held = (reg', held')" "registryOk reg"
  shows "registryOk reg' \<and> (\<forall>k. holdOf reg' k = holdOf reg k + int (count_list held' k) - int (count_list held k))"
  using assms
proof (induction caps arbitrary: reg held)
  case (Cons descriptor caps)
  obtain reg1 new where t: "trackDescriptor reg descriptor bootstrap = (reg1, new)" by fastforce
  show ?case using Cons.IH [of reg1 "held @ new"] Cons.prems trackDescriptor_ok [OF t] by (simp add: t)
qed simp

lemma releaseHold_ok:
  assumes "registryOk reg" "1 \<le> holdOf reg i"
  shows "registryOk (releaseHold wire i reg) \<and> (\<forall>k. holdOf (releaseHold wire i reg) k = holdOf reg k - (if k = i then 1 else 0))"
proof -
  obtain rd where rd: "map_of reg i = Some rd" "1 \<le> rd_answerHoldCount rd"
    using assms(2) by (simp add: holdOf_def split: option.splits)
  define rd' where "rd' = rd\<lparr>rd_answerHoldCount := rd_answerHoldCount rd - 1,
    rd_refCount := (if wire \<and> rd_refCount rd > 0 then rd_refCount rd - 1 else rd_refCount rd)\<rparr>"
  have "releaseHold wire i reg = (if rd_refCount rd' \<le> 0 \<and> rd_answerHoldCount rd' \<le> 0
      then AList.delete i reg else AList.update i rd' reg)"
    using rd by (auto simp: releaseHold_def Let_def rd'_def)
  moreover have "0 \<le> rd_refCount rd'" using registryOk_refs [OF assms(1) rd(1)] by (simp add: rd'_def)
  ultimately show ?thesis
    using registryOk_update [OF assms(1), of rd' i] registryOk_delete [OF assms(1), of i] rd holdOf_at [OF rd(1)]
    by (simp add: holdOf_update holdOf_delete rd'_def)
qed

lemma releaseHeld_ok:
  assumes "registryOk reg" "\<And>k. int (count_list held k) \<le> holdOf reg k"
  shows "registryOk (releaseHeld reg held wire) \<and> (\<forall>k. holdOf (releaseHeld reg held wire) k = holdOf reg k - int (count_list held k))"
  using assms
proof (induction held arbitrary: reg)
  case (Cons i held)
  have "1 \<le> holdOf reg i" using Cons.prems(2) [of i] by simp
  note r = releaseHold_ok [OF Cons.prems(1) this, of wire]
  have "int (count_list held k) \<le> holdOf (releaseHold wire i reg) k" for k
    using r Cons.prems(2) [of k] by (simp split: if_splits)
  then show ?case using Cons.IH [of "releaseHold wire i reg"] r by (simp add: releaseHeld_def)
qed (simp add: releaseHeld_def)

section \<open>Operations of the bridge\<close>

lemma referencesOk_tuple: "referencesOk (reg, held, n, shut) \<longleftrightarrow> registryOk reg \<and> (shut \<longrightarrow> reg = []) \<and>
    (\<not> shut \<longrightarrow> (\<forall>k. holdOf reg k = heldCount held n k))"
  by (simp add: referencesOk_def)

lemma heldBy_registry [simp]: "heldBy (s\<lparr>sb_dispatchByCapability := reg\<rparr>) = heldBy s"
  by (simp add: heldBy_def fun_eq_iff)

lemma capView_split: "referencesOk (capView s) \<longleftrightarrow> registryOk (sb_dispatchByCapability s) \<and>
    (sb_closed s \<longrightarrow> sb_dispatchByCapability s = []) \<and>
    (\<not> sb_closed s \<longrightarrow> (\<forall>k. holdOf (sb_dispatchByCapability s) k = heldCount (heldBy s) (sb_nextEntry s) k))"
  by (simp add: referencesOk_def capView_def)

lemma holdOf_Nil [simp]: "holdOf [] k = 0"
  by (simp add: holdOf_def)

lemma hold_nonneg: "referencesOk (capView s) \<Longrightarrow> 0 \<le> holdOf (sb_dispatchByCapability s) k"
  by (cases "sb_closed s") (auto simp: capView_split heldCount_nonneg)

lemma export_ok:
  assumes "exportCapability s dispatch index n = (r, s')" "referencesOk (capView s)"
  shows "referencesOk (capView s')"
proof -
  define i where "i = orElse index (sb_nextCapabilityIndex s)"
  define rd where "rd = \<lparr>rd_dispatch = dispatch, rd_refCount = toInt (orElse n (jint 1)),
    rd_bootstrapGrantClaimed = False, rd_answerHoldCount = 0\<rparr>"
  have view: "capView s' = capView s \<or> \<not> sb_closed s \<and> map_of (sb_dispatchByCapability s) i = None \<and> 0 \<le> rd_refCount rd \<and>
      capView s' = (AList.update i rd (sb_dispatchByCapability s), heldBy s, sb_nextEntry s, sb_closed s)"
    using assms(1) by (auto simp: exportCapability_def i_def rd_def capView_def heldBy_def Let_def split: if_splits)
  then show ?thesis
  proof
    assume v: "\<not> sb_closed s \<and> map_of (sb_dispatchByCapability s) i = None \<and> 0 \<le> rd_refCount rd \<and>
      capView s' = (AList.update i rd (sb_dispatchByCapability s), heldBy s, sb_nextEntry s, sb_closed s)"
    then have "holdOf (AList.update i rd (sb_dispatchByCapability s)) k = holdOf (sb_dispatchByCapability s) k" for k
      by (auto simp: holdOf_update rd_def) (simp add: holdOf_def)
    then show ?thesis using v assms(2) registryOk_update [of "sb_dispatchByCapability s" rd i]
      by (simp add: referencesOk_tuple capView_split)
  qed (simp add: assms(2))
qed

lemma onRegistry_ok:
  assumes "\<And>v reg. r = Inr (v, reg) \<Longrightarrow> registryOk reg \<and> (\<forall>k. holdOf reg k = holdOf (sb_dispatchByCapability s) k)"
    and "\<And>v reg. r = Inr (v, reg) \<Longrightarrow> sb_dispatchByCapability s = [] \<Longrightarrow> reg = []"
    and "referencesOk (capView s)"
  shows "referencesOk (capView (snd (onRegistry s r)))"
  using assms by (auto simp: onRegistry_def capView_split split: sum.splits prod.splits)

lemma retain_step_ok:
  "referencesOk (capView s) \<Longrightarrow> referencesOk (capView (snd (onRegistry s
    (bindE (retainCapability (sb_dispatchByCapability s) i n) (\<lambda>reg. Inr ((), reg))))))"
  using retain_ok [of "sb_dispatchByCapability s" i n]
  by (intro onRegistry_ok) (auto simp: bindE_eq_Inr capView_split retainCapability_def split: if_splits)

lemma release_step_ok:
  assumes "referencesOk (capView s)"
  shows "referencesOk (capView (snd (onRegistry s (releaseCapability (sb_dispatchByCapability s) i n))))"
proof (rule onRegistry_ok)
  fix v reg assume r: "releaseCapability (sb_dispatchByCapability s) i n = Inr (v, reg)"
  show "registryOk reg \<and> (\<forall>k. holdOf reg k = holdOf (sb_dispatchByCapability s) k)"
    using release_ok [OF r _ hold_nonneg] assms by (simp add: capView_split)
  show "sb_dispatchByCapability s = [] \<Longrightarrow> reg = []"
    using r by (simp add: releaseCapability_def split: if_splits)
qed (rule assms)

lemma trackAnswer_ok:
  assumes "referencesOk (capView s)" "\<not> sb_closed s" "entry < sb_nextEntry s" "heldBy s entry = []"
  shows "referencesOk (capView (trackAnswer s entry caps bootstrap))"
proof -
  obtain reg held where t: "trackReturnedCapabilities (sb_dispatchByCapability s) caps bootstrap [] = (reg, held)" by fastforce
  have view: "capView (trackAnswer s entry caps bootstrap) = (reg, (heldBy s)(entry := held), sb_nextEntry s, sb_closed s)"
    using assms(4) by (auto simp: trackAnswer_def t capView_def heldBy_def setEntry_def Let_def)
  show ?thesis using assms track_ok [OF t] heldCount_update [OF assms(3), of "heldBy s" held]
    by (simp add: view referencesOk_tuple capView_split)
qed

lemma releaseAnswer_ok:
  assumes "referencesOk (capView s)" "\<not> sb_closed s" "entry < sb_nextEntry s"
  shows "referencesOk (capView (releaseAnswerHeldCapabilities s entry wire))"
proof -
  have view: "capView (releaseAnswerHeldCapabilities s entry wire) =
      (releaseHeld (sb_dispatchByCapability s) (heldBy s entry) wire, (heldBy s)(entry := []), sb_nextEntry s, sb_closed s)"
    by (auto simp: releaseAnswerHeldCapabilities_def capView_def heldBy_def setEntry_def releaseHeld_def split: option.splits)
  have "int (count_list (heldBy s entry) k) \<le> holdOf (sb_dispatchByCapability s) k" for k
    using assms heldCount_ge [OF assms(3), of "heldBy s" k] by (simp add: capView_split)
  from releaseHeld_ok [OF _ this, of wire] show ?thesis
    using assms heldCount_update [OF assms(3), of "heldBy s" "[]"] by (simp add: view referencesOk_tuple capView_split)
qed

lemma register_ok:
  assumes "registerAnswerEntry s q n = (r, s')" "referencesOk (capView s)"
  shows "referencesOk (capView s')"
proof -
  have "capView s' = capView s \<or> capView s' = (sb_dispatchByCapability s, (heldBy s)(sb_nextEntry s := []), Suc (sb_nextEntry s), sb_closed s)"
    using assms(1) by (auto simp: registerAnswerEntry_def acceptAnswer_def newEntry_def capView_def heldBy_def
        split: if_splits option.splits)
  moreover have "heldCount ((heldBy s)(sb_nextEntry s := [])) (Suc (sb_nextEntry s)) k = heldCount (heldBy s) (sb_nextEntry s) k" for k
    by (simp add: heldCount_fresh) (rule heldCount_cong, simp)
  ultimately show ?thesis using assms(2) by (elim disjE) (simp_all add: capView_split [of s] referencesOk_tuple)
qed

section \<open>Entries of the table and of pending calls\<close>

definition tableOk :: "'h RpcServerBridge \<Rightarrow> bool" where
  "tableOk s \<longleftrightarrow> distinct (map fst (sb_answerTable s)) \<and> snd ` set (sb_answerTable s) \<subseteq> {..<sb_nextEntry s} \<and>
     (sb_closed s \<longrightarrow> sb_answerTable s = [])"

definition pendingOk :: "'h RpcServerBridge \<Rightarrow> bool" where
  "pendingOk s \<longleftrightarrow> distinct (map fst (sb_pending s)) \<and>
     fst ` set (sb_pending s) \<subseteq> {entry. entry < sb_nextEntry s \<and> heldBy s entry = []}"

definition bridgeOk :: "'h RpcServerBridge \<Rightarrow> bool" where
  "bridgeOk s \<longleftrightarrow> referencesOk (capView s) \<and> tableOk s \<and> pendingOk s"

lemma capView_eq: "capView s' = capView s \<longleftrightarrow> sb_dispatchByCapability s' = sb_dispatchByCapability s \<and>
    heldBy s' = heldBy s \<and> sb_nextEntry s' = sb_nextEntry s \<and> sb_closed s' = sb_closed s"
  by (auto simp: capView_def)

lemma table_lookup: "tableOk s \<Longrightarrow> map_of (sb_answerTable s) q = Some entry \<Longrightarrow> entry < sb_nextEntry s \<and> \<not> sb_closed s"
  by (auto simp: tableOk_def dest!: map_of_SomeD intro: rev_image_eqI)

lemma pending_lookup: "pendingOk s \<Longrightarrow> map_of (sb_pending s) entry = Some stage \<Longrightarrow> entry < sb_nextEntry s \<and> heldBy s entry = []"
  by (auto simp: pendingOk_def dest!: map_of_SomeD intro: rev_image_eqI)

lemma keys_update: "fst ` set (AList.update k v al) = insert k (fst ` set al)"
  by (simp add: dom_update)

lemma keys_delete: "fst ` set (AList.delete k al) = fst ` set al - {k}"
  by (simp add: set_map [symmetric] delete_keys del: set_map)

lemma values_update: "snd ` set (AList.update k v al) \<subseteq> insert v (snd ` set al)"
  by (induction al) auto

lemma values_delete: "snd ` set (AList.delete k al) \<subseteq> snd ` set al"
  by (auto simp: AList.delete_eq)

text \<open>What the parts of a step do to the table and to the pending calls.\<close>

lemma neutral_tables [simp]:
  "sb_answerTable (setStage s entry stage) = sb_answerTable s"
  "sb_answerTable (dropStage s entry) = sb_answerTable s"
  "sb_answerTable (setEntry s entry f) = sb_answerTable s"
  "sb_answerTable (clearEvictionTimer s entry) = sb_answerTable s"
  "sb_answerTable (addPipelineRef s entry n) = sb_answerTable s"
  "sb_answerTable (dropPipelineRef s t) = sb_answerTable s"
  "sb_answerTable (scheduleEviction s q entry) = sb_answerTable s"
  "sb_answerTable (trackAnswer s entry caps b) = sb_answerTable s"
  "sb_answerTable (releaseAnswerHeldCapabilities s entry w) = sb_answerTable s"
  "sb_answerTable (removeAnswer s q) = AList.delete q (sb_answerTable s)"
  by (auto simp: setStage_def dropStage_def setEntry_def clearEvictionTimer_def addPipelineRef_def dropPipelineRef_def
      scheduleEviction_def trackAnswer_def releaseAnswerHeldCapabilities_def removeAnswer_def Let_def
      split: option.splits prod.splits)

lemma neutral_pending [simp]:
  "sb_pending (setStage s entry stage) = AList.update entry stage (sb_pending s)"
  "sb_pending (dropStage s entry) = AList.delete entry (sb_pending s)"
  "sb_pending (setEntry s entry f) = sb_pending s"
  "sb_pending (clearEvictionTimer s entry) = sb_pending s"
  "sb_pending (addPipelineRef s entry n) = sb_pending s"
  "sb_pending (dropPipelineRef s t) = sb_pending s"
  "sb_pending (scheduleEviction s q entry) = sb_pending s"
  "sb_pending (trackAnswer s entry caps b) = sb_pending s"
  "sb_pending (releaseAnswerHeldCapabilities s entry w) = sb_pending s"
  "sb_pending (removeAnswer s q) = sb_pending s"
  by (auto simp: setStage_def dropStage_def setEntry_def clearEvictionTimer_def addPipelineRef_def dropPipelineRef_def
      scheduleEviction_def trackAnswer_def releaseAnswerHeldCapabilities_def removeAnswer_def Let_def
      split: option.splits prod.splits)

lemma dispatchToCapability_parts:
  "sb_answerTable (dispatchToCapability s entry call c t) = sb_answerTable s"
  "\<exists>stage. sb_pending (dispatchToCapability s entry call c t) = AList.update entry stage (sb_pending s)"
  by (auto simp: dispatchToCapability_def split: sum.splits)

lemma targetResolved_parts:
  "sb_answerTable (targetResolved s entry call t outcome) = sb_answerTable s"
  "\<exists>stage. sb_pending (targetResolved s entry call t outcome) = AList.update entry stage (sb_pending s)"
  by (auto simp: targetResolved_def dispatchToCapability_parts split: sum.splits)

lemma dispatchCall_parts:
  "sb_answerTable (dispatchCall s entry call) = sb_answerTable s"
  "\<exists>stage. sb_pending (dispatchCall s entry call) = AList.update entry stage (sb_pending s)"
proof -
  have "sb_answerTable (dispatchCall s entry call) = sb_answerTable s \<and>
      (\<exists>stage. sb_pending (dispatchCall s entry call) = AList.update entry stage (sb_pending s))"
  proof (cases "cr_target call")
    case (ImportedCap c)
    then show ?thesis using dispatchToCapability_parts [of s entry call] by (simp add: dispatchCall_def)
  next
    case (PromisedAnswer pa)
    then show ?thesis
      using targetResolved_parts [of "addPipelineRef s t 1" entry call t for t]
      by (auto simp: dispatchCall_def Let_def split: option.splits)
  qed
  then show "sb_answerTable (dispatchCall s entry call) = sb_answerTable s"
    "\<exists>stage. sb_pending (dispatchCall s entry call) = AList.update entry stage (sb_pending s)" by auto
qed

lemma bridgeOk_stage:
  assumes "bridgeOk s" "entry < sb_nextEntry s" "heldBy s entry = []" "capView s' = capView s"
    and "sb_answerTable s' = sb_answerTable s" "\<exists>stage. sb_pending s' = AList.update entry stage (sb_pending s)"
  shows "bridgeOk s'"
proof -
  obtain stage where p: "sb_pending s' = AList.update entry stage (sb_pending s)" using assms(6) by auto
  have "distinct (map fst (sb_pending s'))" using assms(1) by (simp add: p distinct_update bridgeOk_def pendingOk_def)
  moreover have "fst ` set (sb_pending s') = insert entry (fst ` set (sb_pending s))" by (simp add: p keys_update)
  ultimately show ?thesis using assms(1-5) capView_eq [THEN iffD1, OF assms(4)] by (simp add: bridgeOk_def tableOk_def pendingOk_def)
qed

lemma bridgeOk_neutral:
  assumes "bridgeOk s" "capView s' = capView s" "sb_pending s' = sb_pending s"
    and "sb_answerTable s' = sb_answerTable s \<or> (\<exists>q. sb_answerTable s' = AList.delete q (sb_answerTable s))"
  shows "bridgeOk s'"
proof -
  have "tableOk s'"
    using assms(4)
  proof
    assume "\<exists>q. sb_answerTable s' = AList.delete q (sb_answerTable s)"
    then obtain q where "sb_answerTable s' = AList.delete q (sb_answerTable s)" ..
    then show ?thesis
      using assms(1) capView_eq [THEN iffD1, OF assms(2)] subset_trans [OF values_delete [of q "sb_answerTable s"]]
      by (simp add: bridgeOk_def tableOk_def distinct_delete)
  qed (use assms(1) capView_eq [THEN iffD1, OF assms(2)] in \<open>simp add: bridgeOk_def tableOk_def\<close>)
  then show ?thesis using assms(1-3) capView_eq [THEN iffD1, OF assms(2)] by (simp add: bridgeOk_def pendingOk_def)
qed

lemma dropStage_ok:
  "bridgeOk s \<Longrightarrow> bridgeOk (dropStage s entry) \<and> entry \<notin> fst ` set (sb_pending (dropStage s entry))"
  using cap_view(2) [of s entry] capView_eq [THEN iffD1, OF cap_view(2) [of s entry]]
  by (simp add: bridgeOk_def tableOk_def pendingOk_def distinct_delete keys_delete) blast

lemma setEntry_ok:
  "bridgeOk s \<Longrightarrow> (\<And>e. ae_heldCapabilityIndexes (f e) = ae_heldCapabilityIndexes e) \<Longrightarrow> bridgeOk (setEntry s entry f)"
  by (rule bridgeOk_neutral) (auto simp: setEntry_view)

lemma scheduleEviction_ok: "bridgeOk s \<Longrightarrow> bridgeOk (scheduleEviction s q entry)"
  by (rule bridgeOk_neutral) (auto simp: cap_view)

lemma removeAnswer_ok: "bridgeOk s \<Longrightarrow> bridgeOk (removeAnswer s q)"
  by (rule bridgeOk_neutral) (auto simp: cap_view)

lemma held_parts:
  "sb_closed (trackAnswer s entry caps b) = sb_closed s"
  "sb_nextEntry (trackAnswer s entry caps b) = sb_nextEntry s"
  "x \<noteq> entry \<Longrightarrow> heldBy (trackAnswer s entry caps b) x = heldBy s x"
  "sb_closed (releaseAnswerHeldCapabilities s entry w) = sb_closed s"
  "sb_nextEntry (releaseAnswerHeldCapabilities s entry w) = sb_nextEntry s"
  "heldBy (releaseAnswerHeldCapabilities s entry w) x = (if x = entry then [] else heldBy s x)"
  by (auto simp: trackAnswer_def releaseAnswerHeldCapabilities_def setEntry_def heldBy_def Let_def
      split: option.splits prod.splits)

lemma trackAnswer_bridge_ok:
  assumes "bridgeOk s" "map_of (sb_answerTable s) q = Some entry" "heldBy s entry = []" "entry \<notin> fst ` set (sb_pending s)"
  shows "bridgeOk (trackAnswer s entry caps b)"
proof -
  have "entry < sb_nextEntry s \<and> \<not> sb_closed s"
    using assms(1,2) table_lookup by (auto simp: bridgeOk_def)
  moreover have "fst ` set (sb_pending s) \<subseteq> {x. x < sb_nextEntry s \<and> heldBy (trackAnswer s entry caps b) x = []}"
  proof
    fix x assume "x \<in> fst ` set (sb_pending s)"
    then show "x \<in> {x. x < sb_nextEntry s \<and> heldBy (trackAnswer s entry caps b) x = []}"
      using assms(1,4) held_parts(3) [of x entry s caps b] by (cases "x = entry") (auto simp: bridgeOk_def pendingOk_def)
  qed
  ultimately show ?thesis using assms trackAnswer_ok [of s entry caps b]
    by (simp add: bridgeOk_def tableOk_def pendingOk_def held_parts)
qed

lemma releaseAnswer_bridge_ok:
  assumes "bridgeOk s" "map_of (sb_answerTable s) q = Some entry"
  shows "bridgeOk (releaseAnswerHeldCapabilities s entry w)"
proof -
  have "entry < sb_nextEntry s \<and> \<not> sb_closed s"
    using assms table_lookup by (auto simp: bridgeOk_def)
  moreover have "fst ` set (sb_pending s) \<subseteq> {x. x < sb_nextEntry s \<and> heldBy (releaseAnswerHeldCapabilities s entry w) x = []}"
    using assms(1) by (auto simp: bridgeOk_def pendingOk_def held_parts)
  ultimately show ?thesis using assms releaseAnswer_ok [of s entry w]
    by (simp add: bridgeOk_def tableOk_def pendingOk_def held_parts)
qed

lemma register_bridge_ok:
  assumes "registerAnswerEntry s q n = (r, s')" "bridgeOk s"
  shows "bridgeOk s' \<and> (\<forall>entry. r = Inr entry \<longrightarrow> entry < sb_nextEntry s' \<and> heldBy s' entry = [] \<and>
    map_of (sb_answerTable s') q = Some entry \<and> entry \<notin> fst ` set (sb_pending s'))"
proof (cases r)
  case (Inl f)
  then have "capView s' = capView s" "sb_pending s' = sb_pending s" "sb_answerTable s' = sb_answerTable s"
    using assms(1) by (auto simp: registerAnswerEntry_def cap_view split: if_splits option.splits)
  then show ?thesis using assms(2) Inl bridgeOk_neutral by blast
next
  case (Inr entry)
  then have s': "s' = acceptAnswer s q n" "entry = sb_nextEntry s" "\<not> sb_closed s"
    using assms(1) by (auto simp: registerAnswerEntry_def split: if_splits option.splits)
  then have parts: "sb_nextEntry s' = Suc (sb_nextEntry s)" "sb_pending s' = sb_pending s" "sb_closed s' = sb_closed s"
      "sb_answerTable s' = AList.update q entry (sb_answerTable s)" "heldBy s' = (heldBy s)(entry := [])"
    by (auto simp: acceptAnswer_def heldBy_def newEntry_def fun_eq_iff)
  have refs: "referencesOk (capView s')" using register_ok [OF assms(1)] assms(2) by (simp add: bridgeOk_def)
  have "snd ` set (sb_answerTable s') \<subseteq> insert entry {..<sb_nextEntry s}"
    using assms(2) values_update [of q entry "sb_answerTable s"] by (simp add: bridgeOk_def tableOk_def parts) blast
  then have "tableOk s'" using assms(2) s'(2,3)
    by (auto simp: bridgeOk_def tableOk_def parts distinct_update)
  moreover have "pendingOk s'" using assms(2) by (auto simp: bridgeOk_def pendingOk_def parts less_Suc_eq)
  moreover have "entry \<notin> fst ` set (sb_pending s')" using assms(2) s'(2) by (auto simp: bridgeOk_def pendingOk_def parts)
  ultimately show ?thesis using refs Inr s'(2) by (simp add: bridgeOk_def parts update_conv)
qed

lemma completeCall_ok:
  assumes "bridgeOk s" "heldBy s entry = []" "entry \<notin> fst ` set (sb_pending s)"
  shows "bridgeOk (snd (completeCall s entry call outcome))"
proof -
  define s1 where "s1 = setEntry s entry (\<lambda>e. resolveEntry outcome (e\<lparr>ae_outcome := Some outcome\<rparr>))"
  define s2 where "s2 = s1\<lparr>sb_retainedInputFrameBytes := sb_retainedInputFrameBytes s1 - ae_inputFrameBytes (sb_entries s1 entry)\<rparr>"
  define s3 where "s3 = scheduleEviction s2 (cr_questionId call) entry"
  have "bridgeOk s1" unfolding s1_def by (rule setEntry_ok [OF assms(1)]) (simp add: resolveEntry_def)
  moreover have "heldBy s1 = heldBy s" "sb_pending s1 = sb_pending s"
    by (auto simp: s1_def setEntry_def heldBy_def resolveEntry_def)
  ultimately have s2: "bridgeOk s2" "heldBy s2 entry = []" "entry \<notin> fst ` set (sb_pending s2)"
    using assms bridgeOk_neutral [of s1 s2] capView_eq [of s2 s1]
    by (simp_all add: s2_def cap_view)
  then have s3: "bridgeOk s3" "heldBy s3 entry = []" "entry \<notin> fst ` set (sb_pending s3)"
    "sb_answerTable s3 = sb_answerTable s2"
    using capView_eq [THEN iffD1, OF cap_view(7) [of s2 "cr_questionId call" entry]]
    by (simp_all add: s3_def scheduleEviction_ok)
  show ?thesis
  proof (cases "map_of (sb_answerTable s2) (cr_questionId call) \<noteq> Some entry \<or> ae_finished (sb_entries s2 entry)")
    case True
    then show ?thesis using s2 by (simp add: completeCall_def s1_def s2_def Let_def)
  next
    case False
    then have "snd (completeCall s entry call outcome) = (case outcome of OutException _ _ \<Rightarrow> s3
        | OutResults response \<Rightarrow> trackAnswer s3 entry (orElse (rs_capTable response) []) False)"
      by (simp add: completeCall_def s1_def s2_def s3_def Let_def split: RpcDispatchOutcome.splits)
    then show ?thesis using s3 False trackAnswer_bridge_ok [OF s3(1) _ s3(2,3), of "cr_questionId call"]
      by (simp split: RpcDispatchOutcome.splits)
  qed
qed

lemma completeBootstrap_ok:
  assumes "bridgeOk s" "heldBy s entry = []" "entry \<notin> fst ` set (sb_pending s)"
  shows "bridgeOk (completeBootstrapAnswer s entry response)"
proof -
  define outcome where "outcome = bootstrapOutcome response"
  define s1 where "s1 = setEntry s entry (\<lambda>e. resolveEntry outcome (e\<lparr>ae_outcome := Some outcome\<rparr>))"
  have "bridgeOk s1" unfolding s1_def by (rule setEntry_ok [OF assms(1)]) (simp add: resolveEntry_def)
  moreover have "heldBy s1 = heldBy s" "sb_pending s1 = sb_pending s" "sb_answerTable s1 = sb_answerTable s"
    by (auto simp: s1_def setEntry_def heldBy_def resolveEntry_def)
  ultimately show ?thesis
    using assms trackAnswer_bridge_ok [of s1 "answerIdOf response" entry "returnedCaps response" True]
    by (auto simp: completeBootstrapAnswer_def s1_def [symmetric] outcome_def [symmetric] Let_def intro!: scheduleEviction_ok)
qed

lemma clearTimer_ok: "bridgeOk s \<Longrightarrow> bridgeOk (clearEvictionTimer s entry)"
  by (rule bridgeOk_neutral) (auto simp: cap_view)

lemma finishAnswer_ok:
  assumes "bridgeOk s"
  shows "bridgeOk (finishAnswer s finish)"
proof (cases "map_of (sb_answerTable s) (fq_questionId finish)")
  case None
  then show ?thesis using assms by (simp add: finishAnswer_def removeAnswer_ok)
next
  case (Some entry)
  define s1 where "s1 = setEntry (clearEvictionTimer s entry) entry
    (\<lambda>e. e\<lparr>ae_aborted := (ae_aborted e \<or> ae_outcome e = None), ae_finished := True\<rparr>)"
  have "bridgeOk s1" unfolding s1_def by (rule setEntry_ok [OF clearTimer_ok [OF assms]]) simp
  moreover have "sb_answerTable s1 = sb_answerTable s" by (simp add: s1_def)
  ultimately show ?thesis using Some
    by (simp add: finishAnswer_def s1_def [symmetric] Let_def removeAnswer_ok releaseAnswer_bridge_ok)
qed

lemma evictionTimer_ok:
  assumes "bridgeOk s"
  shows "bridgeOk (evictionTimer s q entry)"
proof (cases "map_of (sb_answerTable s) q = Some entry")
  case True
  define s1 where "s1 = setEntry s entry (\<lambda>e. e\<lparr>ae_evictionAttempts := ae_evictionAttempts e + 1\<rparr>)"
  have s1: "bridgeOk s1" unfolding s1_def by (rule setEntry_ok [OF assms]) simp
  have "map_of (sb_answerTable s1) q = Some entry" using True by (simp add: s1_def)
  then show ?thesis using True s1 assms
    by (auto simp: evictionTimer_def s1_def [symmetric] Let_def intro!: removeAnswer_ok releaseAnswer_bridge_ok scheduleEviction_ok)
qed (simp add: evictionTimer_def assms)

lemma close_fold:
  "capView (fold (\<lambda>entry s. setEntry (clearEvictionTimer s entry) entry (\<lambda>e. e\<lparr>ae_finished := True, ae_aborted := True\<rparr>)) entries s) = capView s \<and>
   sb_pending (fold (\<lambda>entry s. setEntry (clearEvictionTimer s entry) entry (\<lambda>e. e\<lparr>ae_finished := True, ae_aborted := True\<rparr>)) entries s) = sb_pending s"
  by (induction entries arbitrary: s) (auto simp: setEntry_view cap_view)

lemma closeBridge_ok:
  assumes "bridgeOk s"
  shows "bridgeOk (closeBridge s)"
proof (cases "sb_closed s")
  case False
  define s1 where "s1 = fold (\<lambda>entry s. setEntry (clearEvictionTimer s entry) entry
    (\<lambda>e. e\<lparr>ae_finished := True, ae_aborted := True\<rparr>)) (map snd (sb_answerTable s)) (s\<lparr>sb_closed := True\<rparr>)"
  have "capView s1 = capView (s\<lparr>sb_closed := True\<rparr>)" "sb_pending s1 = sb_pending s"
    unfolding s1_def by (simp_all add: close_fold)
  moreover have "heldBy (s\<lparr>sb_closed := True\<rparr>) = heldBy s" by (simp add: heldBy_def fun_eq_iff)
  ultimately have "heldBy s1 = heldBy s" "sb_nextEntry s1 = sb_nextEntry s" "sb_closed s1" "sb_pending s1 = sb_pending s"
    by (simp_all add: capView_eq)
  moreover have "closeBridge s = s1\<lparr>sb_answerTable := [], sb_dispatchByCapability := []\<rparr>"
    using False by (simp add: closeBridge_def s1_def Let_def)
  moreover have "heldBy (s1\<lparr>sb_answerTable := [], sb_dispatchByCapability := []\<rparr>) = heldBy s1"
    by (simp add: heldBy_def fun_eq_iff)
  ultimately show ?thesis using assms
    by (simp add: bridgeOk_def tableOk_def pendingOk_def capView_split registryOk_def)
qed (simp add: closeBridge_def assms)

lemma bootstrapSettled_ok:
  assumes "bridgeOk s" "heldBy s entry = []" "entry \<notin> fst ` set (sb_pending s)"
  shows "bridgeOk (snd (bootstrapSettled s entry q r))"
proof -
  have "bridgeOk (bootstrapFailure s entry q reason)" for reason
    unfolding bootstrapFailure_def
    by (rule setEntry_ok [OF removeAnswer_ok [OF assms(1)]]) (simp add: resolveEntry_def)
  then show ?thesis using completeBootstrap_ok [OF assms] by (auto simp: bootstrapSettled_def split: sum.splits)
qed

lemma observe_ok: "bridgeOk s \<Longrightarrow> bridgeOk (snd (observeBootstrapResponse s frame))"
  using register_bridge_ok [of s] completeBootstrap_ok
  by (simp add: observeBootstrapResponse_def split: sum.splits prod.splits) blast

lemma stage_ok:
  assumes "bridgeOk s" "entry < sb_nextEntry s" "heldBy s entry = []"
  shows "bridgeOk (setStage s entry stage)" "bridgeOk (dispatchCall s entry call)"
    "bridgeOk (targetResolved s entry call t outcome)"
  by (rule bridgeOk_stage [OF assms]; simp add: cap_view dispatchCall_parts targetResolved_parts; blast)+

lemma registry_step_ok:
  assumes "bridgeOk s" "referencesOk (capView (snd (onRegistry s r)))"
  shows "bridgeOk (snd (onRegistry s r))"
  using assms by (auto simp: onRegistry_def bridgeOk_def tableOk_def pendingOk_def split: sum.splits prod.splits)

lemma handleDecoded_ok:
  assumes "bridgeOk s"
  shows "bridgeOk (snd (handleDecoded s frame tag))"
proof -
  have reg: "bridgeOk s' \<and> (\<forall>entry. r = Inr entry \<longrightarrow> entry < sb_nextEntry s' \<and> heldBy s' entry = [])"
    if "registerAnswerEntry s q n = (r, s')" for r s' q n
    using register_bridge_ok [OF that assms] by blast
  have call: "bridgeOk (snd (handleCall s c n))" for c n
    using reg by (auto simp: handleCall_def stage_ok split: prod.splits sum.splits)
  have boot: "bridgeOk (snd (handleBootstrap s q))" for q
    using reg assms by (auto simp: handleBootstrap_def stage_ok split: prod.splits sum.splits)
  have rel: "bridgeOk (snd (case onRegistry s (releaseCapability (sb_dispatchByCapability s) i n) of (r, s) \<Rightarrow> (f r, s)))"
    for i n and f :: "bool result \<Rightarrow> bridge_output"
    using registry_step_ok [OF assms release_step_ok, of i n] assms
    by (cases "onRegistry s (releaseCapability (sb_dispatchByCapability s) i n)") (simp add: bridgeOk_def)
  show ?thesis
    using assms call boot rel finishAnswer_ok by (auto simp: handleDecoded_def orThrow_def split: sum.splits)
qed

lemma handleFrame_ok: "bridgeOk s \<Longrightarrow> bridgeOk (snd (handleFrame s frame))"
  by (auto simp: handleFrame_def orThrow_def handleDecoded_ok split: sum.splits option.splits)

lemma exportCapability_ok:
  assumes "bridgeOk s"
  shows "bridgeOk (snd (exportCapability s dispatch index n))"
proof -
  obtain r s' where e: "exportCapability s dispatch index n = (r, s')" by fastforce
  then have "sb_pending s' = sb_pending s" "sb_answerTable s' = sb_answerTable s" "sb_nextEntry s' = sb_nextEntry s"
      "sb_closed s' = sb_closed s" "heldBy s' = heldBy s"
    by (auto simp: exportCapability_def Let_def heldBy_def fun_eq_iff split: if_splits)
  then show ?thesis using assms export_ok [OF e] by (simp add: e bridgeOk_def tableOk_def pendingOk_def)
qed

lemma pending_ok:
  "bridgeOk s \<Longrightarrow> map_of (sb_pending s) entry = Some stage \<Longrightarrow> entry < sb_nextEntry s \<and> heldBy s entry = []"
  using pending_lookup by (auto simp: bridgeOk_def)

lemma dropped_ok:
  assumes "bridgeOk s" "map_of (sb_pending s) entry = Some stage"
  shows "bridgeOk (dropPipelineRef (dropStage s entry) t)" "heldBy (dropPipelineRef (dropStage s entry) t) entry = []"
    "entry \<notin> fst ` set (sb_pending (dropPipelineRef (dropStage s entry) t))"
    "bridgeOk (dropStage s entry)" "heldBy (dropStage s entry) entry = []" "entry \<notin> fst ` set (sb_pending (dropStage s entry))"
proof -
  have v: "capView (dropPipelineRef (dropStage s entry) t) = capView s" "capView (dropStage s entry) = capView s"
    by (simp_all add: cap_view)
  show d: "bridgeOk (dropStage s entry)" "entry \<notin> fst ` set (sb_pending (dropStage s entry))"
    using dropStage_ok [OF assms(1)] by auto
  show "bridgeOk (dropPipelineRef (dropStage s entry) t)"
    by (rule bridgeOk_neutral [OF d(1)]) (auto simp: cap_view)
  show "heldBy (dropPipelineRef (dropStage s entry) t) entry = []" "heldBy (dropStage s entry) entry = []"
    using v pending_ok [OF assms] by (simp_all add: capView_eq)
  show "entry \<notin> fst ` set (sb_pending (dropPipelineRef (dropStage s entry) t))" using d by simp
qed

lemma bridgeStep_ok:
  assumes "bridgeOk s" "bridgeStep s event = Some (out, s')"
  shows "bridgeOk s'"
proof (cases event)
  case (ExportCapability dispatch index n)
  then show ?thesis using assms exportCapability_ok [OF assms(1), of dispatch index n] by (auto simp: apfst_def map_prod_def split: prod.splits)
next
  case (RetainCapability i n)
  then show ?thesis using assms registry_step_ok [OF assms(1) retain_step_ok, of i n] by (auto simp: bridgeOk_def apfst_def map_prod_def split: prod.splits)
next
  case (ReleaseCapability i n)
  then show ?thesis using assms registry_step_ok [OF assms(1) release_step_ok, of i n] by (auto simp: bridgeOk_def apfst_def map_prod_def split: prod.splits)
next
  case (HandleFrame frame)
  then show ?thesis using assms handleFrame_ok [OF assms(1), of frame] by simp
next
  case (ObserveBootstrapResponse frame)
  then show ?thesis using assms observe_ok [OF assms(1), of frame] by (auto simp: apfst_def map_prod_def split: prod.splits)
next
  case (BootstrapSettled entry r)
  then show ?thesis using assms bootstrapSettled_ok [OF dropped_ok(4-6) [OF assms(1)]]
    by (auto simp: apfst_def map_prod_def split: prod.splits option.splits Stage.splits) (metis snd_conv)
next
  case (TargetSettled entry)
  then show ?thesis using assms stage_ok(3) [OF assms(1)] pending_ok [OF assms(1)]
    by (auto split: option.splits Stage.splits if_splits)
next
  case (HandlerSettled entry r retain)
  then show ?thesis using assms completeCall_ok [OF dropped_ok(1-3) [OF assms(1)]]
    by (auto simp: apfst_def map_prod_def split: prod.splits option.splits Stage.splits) (metis snd_conv)
next
  case (OutcomeSettled entry)
  then show ?thesis using assms completeCall_ok [OF dropped_ok(4-6) [OF assms(1)]]
    by (auto simp: apfst_def map_prod_def split: prod.splits option.splits Stage.splits) (metis snd_conv)
next
  case (EvictionTimer timer)
  have "bridgeOk (s\<lparr>sb_timers := ts\<rparr>)" for ts by (rule bridgeOk_neutral [OF assms(1)]) (auto simp: cap_view)
  then show ?thesis using EvictionTimer assms by (auto simp: evictionTimer_ok split: option.splits)
next
  case CloseBridge
  then show ?thesis using assms by (auto simp: closeBridge_ok)
qed

lemma reachable_ok: "bridgeReachable options s \<Longrightarrow> bridgeOk s"
proof (induction rule: bridgeReachable.induct)
  case (created s)
  then show ?case
    by (auto simp: newRpcServerBridge_def bindE_eq_Inr bridgeOk_def tableOk_def pendingOk_def capView_split registryOk_def heldCount_def)
qed (rule bridgeStep_ok)

end
