(* ===== verification/Server_Load.thy ===== *)
theory Server_Load
  imports Server_References
begin

text \<open>
  What the bridge retains. The retained input bytes are those of the calls in flight and stay within
  the budget, the answer table stays within its size, and the pipeline count of an answer is the
  number of calls that wait for it or run on a capability of it.
\<close>

section \<open>The view of the state that is counted\<close>

definition inputOf :: "'h RpcServerBridge \<Rightarrow> nat \<Rightarrow> int" where
  "inputOf s entry = ae_inputFrameBytes (sb_entries s entry)"

definition pipelineOf :: "'h RpcServerBridge \<Rightarrow> nat \<Rightarrow> int" where
  "pipelineOf s entry = ae_pipelineRefCount (sb_entries s entry)"

definition loadView :: "'h RpcServerBridge \<Rightarrow> (nat \<Rightarrow> int) \<times> (nat \<Rightarrow> int) \<times> int \<times> int option \<times> nat \<times> int" where
  "loadView s = (inputOf s, pipelineOf s, sb_retainedInputFrameBytes s, sb_maxRetainedInputFrameBytes s,
     sb_nextEntry s, sb_maxAnswerTableSize s)"

fun stageTarget :: "'h Stage \<Rightarrow> nat option" where
  "stageTarget (AwaitBootstrap q) = None"
| "stageTarget (AwaitTarget call target) = Some target"
| "stageTarget (AwaitHandler call i h params target) = target"
| "stageTarget (AwaitSettle call outcome) = None"

definition inFlight :: "(nat \<times> 'h Stage) list \<Rightarrow> nat \<Rightarrow> nat set" where
  "inFlight pending target = {entry. \<exists>stage. map_of pending entry = Some stage \<and> stageTarget stage = Some target}"

definition withinBudget :: "'h RpcServerBridge \<Rightarrow> bool" where
  "withinBudget s \<longleftrightarrow> (\<forall>limit. sb_maxRetainedInputFrameBytes s = Some limit \<longrightarrow> sb_retainedInputFrameBytes s \<le> limit)"

definition bytesOk :: "'h RpcServerBridge \<Rightarrow> bool" where
  "bytesOk s \<longleftrightarrow> sb_retainedInputFrameBytes s = (\<Sum>entry \<in> dom (map_of (sb_pending s)). inputOf s entry) \<and>
     (\<forall>entry. 0 \<le> inputOf s entry) \<and> withinBudget s"

definition pipelinesOk :: "'h RpcServerBridge \<Rightarrow> bool" where
  "pipelinesOk s \<longleftrightarrow> (\<forall>target. pipelineOf s target = int (card (inFlight (sb_pending s) target))) \<and>
     (\<forall>target. inFlight (sb_pending s) target \<noteq> {} \<longrightarrow> target < sb_nextEntry s)"

definition sizeOk :: "'h RpcServerBridge \<Rightarrow> bool" where
  "sizeOk s \<longleftrightarrow> (sb_maxAnswerTableSize s > 0 \<longrightarrow> int (length (sb_answerTable s)) \<le> sb_maxAnswerTableSize s)"

lemma setEntry_load:
  "(\<And>e. ae_inputFrameBytes (f e) = ae_inputFrameBytes e \<and> ae_pipelineRefCount (f e) = ae_pipelineRefCount e) \<Longrightarrow>
    loadView (setEntry s entry f) = loadView s"
  by (auto simp: loadView_def inputOf_def pipelineOf_def setEntry_def)

lemma load_views:
  "loadView (setStage s entry stage) = loadView s"
  "loadView (dropStage s entry) = loadView s"
  "loadView (removeAnswer s q) = loadView s"
  "loadView (clearEvictionTimer s entry) = loadView s"
  "loadView (scheduleEviction s q entry) = loadView s"
  "loadView (trackAnswer s entry caps b) = loadView s"
  "loadView (releaseAnswerHeldCapabilities s entry w) = loadView s"
  "loadView (s\<lparr>sb_timers := ts\<rparr>) = loadView s"
  "loadView (s\<lparr>sb_rejectedInputFrames := n\<rparr>) = loadView s"
  "loadView (s\<lparr>sb_dispatchByCapability := reg\<rparr>) = loadView s"
  by (auto simp: loadView_def inputOf_def pipelineOf_def setStage_def dropStage_def removeAnswer_def clearEvictionTimer_def
      scheduleEviction_def trackAnswer_def releaseAnswerHeldCapabilities_def setEntry_def Let_def fun_eq_iff
      split: option.splits prod.splits)

lemma loadView_eq: "loadView s' = loadView s \<longleftrightarrow> inputOf s' = inputOf s \<and> pipelineOf s' = pipelineOf s \<and>
    sb_retainedInputFrameBytes s' = sb_retainedInputFrameBytes s \<and>
    sb_maxRetainedInputFrameBytes s' = sb_maxRetainedInputFrameBytes s \<and> sb_nextEntry s' = sb_nextEntry s \<and>
    sb_maxAnswerTableSize s' = sb_maxAnswerTableSize s"
  by (auto simp: loadView_def)

lemma addPipelineRef_load:
  "inputOf (addPipelineRef s t n) = inputOf s" "pipelineOf (addPipelineRef s t n) = (pipelineOf s)(t := pipelineOf s t + n)"
  "sb_retainedInputFrameBytes (addPipelineRef s t n) = sb_retainedInputFrameBytes s"
  "sb_maxRetainedInputFrameBytes (addPipelineRef s t n) = sb_maxRetainedInputFrameBytes s"
  "sb_nextEntry (addPipelineRef s t n) = sb_nextEntry s" "sb_maxAnswerTableSize (addPipelineRef s t n) = sb_maxAnswerTableSize s"
  by (auto simp: addPipelineRef_def setEntry_def inputOf_def pipelineOf_def fun_eq_iff)

lemma withinBudget_view: "loadView s' = loadView s \<Longrightarrow> withinBudget s' = withinBudget s"
  by (simp add: loadView_eq withinBudget_def)

lemma withinBudget_parts [simp]:
  "withinBudget (setStage s entry stage) = withinBudget s"
  "withinBudget (dropStage s entry) = withinBudget s"
  "withinBudget (addPipelineRef s t n) = withinBudget s"
  by (simp_all add: withinBudget_def setStage_def dropStage_def addPipelineRef_def setEntry_def)

lemma sizeOk_parts [simp]:
  "sizeOk (setStage s entry stage) = sizeOk s"
  "sizeOk (dropStage s entry) = sizeOk s"
  "sizeOk (addPipelineRef s t n) = sizeOk s"
  by (simp_all add: sizeOk_def setStage_def dropStage_def addPipelineRef_def setEntry_def)

section \<open>Stages\<close>

lemma finite_inFlight: "finite (inFlight pending t)"
  by (rule finite_subset [OF _ finite_dom_map_of [of pending]]) (auto simp: inFlight_def)

lemma inFlight_update:
  "inFlight (AList.update entry stage pending) t =
    (if stageTarget stage = Some t then insert entry (inFlight pending t) else inFlight pending t - {entry})"
  by (auto simp: inFlight_def update_conv split: if_splits)

lemma inFlight_delete: "inFlight (AList.delete entry pending) t = inFlight pending t - {entry}"
  by (auto simp: inFlight_def delete_conv' split: if_splits)

definition atStage :: "(nat \<times> 'h Stage) list \<Rightarrow> nat \<Rightarrow> nat option" where
  "atStage pending entry = (case map_of pending entry of Some stage \<Rightarrow> stageTarget stage | None \<Rightarrow> None)"

lemma in_inFlight: "entry \<in> inFlight pending t \<longleftrightarrow> atStage pending entry = Some t"
  by (auto simp: inFlight_def atStage_def split: option.splits)

text \<open>The pipeline references, when one call changes its stage: one more on the new target, one less on the old.\<close>

definition refs :: "nat option \<Rightarrow> nat \<Rightarrow> int" where
  "refs t x = (if t = Some x then 1 else 0)"

lemma card_update:
  "int (card (inFlight (AList.update entry stage pending) t)) =
    int (card (inFlight pending t)) - refs (atStage pending entry) t + refs (stageTarget stage) t"
proof (cases "entry \<in> inFlight pending t")
  case True
  then have "0 < card (inFlight pending t)" using finite_inFlight card_gt_0_iff by blast
  then show ?thesis using True in_inFlight [of entry pending t]
    by (auto simp: inFlight_update refs_def finite_inFlight insert_absorb)
next
  case False
  then show ?thesis using in_inFlight [of entry pending t] by (auto simp: inFlight_update refs_def finite_inFlight)
qed

lemma card_delete:
  "int (card (inFlight (AList.delete entry pending) t)) = int (card (inFlight pending t)) - refs (atStage pending entry) t"
proof (cases "entry \<in> inFlight pending t")
  case True
  then have "0 < card (inFlight pending t)" using finite_inFlight card_gt_0_iff by blast
  then show ?thesis using True in_inFlight [of entry pending t]
    by (auto simp: inFlight_delete refs_def finite_inFlight)
next
  case False
  then show ?thesis using in_inFlight [of entry pending t] by (auto simp: inFlight_delete refs_def)
qed

section \<open>Running code\<close>

text \<open>
  While the code of a call runs, its entry is counted by itself: \<open>loadRunning s entry n target\<close> says
  that the other calls in flight account for everything but the \<open>n\<close> bytes and the reference on
  \<open>target\<close> of this one.
\<close>

definition limitsOk :: "'h RpcServerBridge \<Rightarrow> bool" where
  "limitsOk s \<longleftrightarrow> (\<forall>entry. 0 \<le> inputOf s entry) \<and> sizeOk s \<and> withinBudget s"

text \<open>A bootstrap question takes no input bytes.\<close>

definition bootstrapsFree :: "'h RpcServerBridge \<Rightarrow> nat set \<Rightarrow> bool" where
  "bootstrapsFree s but \<longleftrightarrow>
     (\<forall>entry q. entry \<notin> but \<longrightarrow> map_of (sb_pending s) entry = Some (AwaitBootstrap q) \<longrightarrow> inputOf s entry = 0)"

definition loadRunning :: "'h RpcServerBridge \<Rightarrow> nat \<Rightarrow> int \<Rightarrow> nat option \<Rightarrow> bool" where
  "loadRunning s entry n target \<longleftrightarrow> limitsOk s \<and> bootstrapsFree s {entry} \<and>
     sb_retainedInputFrameBytes s = (\<Sum>x \<in> dom (map_of (sb_pending s)) - {entry}. inputOf s x) + n \<and>
     (\<forall>t. pipelineOf s t = int (card (inFlight (AList.delete entry (sb_pending s)) t)) + refs target t) \<and>
     (\<forall>t. inFlight (AList.delete entry (sb_pending s)) t \<noteq> {} \<or> target = Some t \<longrightarrow> t < sb_nextEntry s)"

definition loadOk :: "'h RpcServerBridge \<Rightarrow> bool" where
  "loadOk s \<longleftrightarrow> bytesOk s \<and> pipelinesOk s \<and> sizeOk s \<and> bootstrapsFree s {}"

lemma card_stage:
  "int (card (inFlight (AList.update entry stage pending) t)) =
    int (card (inFlight (AList.delete entry pending) t)) + refs (stageTarget stage) t"
  by (simp add: card_update card_delete)

lemma loadOk_stage:
  assumes "loadRunning s entry (inputOf s entry) (stageTarget stage)" "\<And>q. stage = AwaitBootstrap q \<Longrightarrow> inputOf s entry = 0"
  shows "loadOk (setStage s entry stage)"
proof -
  let ?s = "setStage s entry stage"
  have v: "inputOf ?s = inputOf s" "pipelineOf ?s = pipelineOf s" "sb_retainedInputFrameBytes ?s = sb_retainedInputFrameBytes s"
    "sb_maxRetainedInputFrameBytes ?s = sb_maxRetainedInputFrameBytes s" "sb_nextEntry ?s = sb_nextEntry s"
    "sb_maxAnswerTableSize ?s = sb_maxAnswerTableSize s"
    using load_views(1) [of s entry stage] by (simp_all add: loadView_eq)
  have "(\<Sum>x \<in> insert entry (dom (map_of (sb_pending s))). inputOf s x) =
      inputOf s entry + (\<Sum>x \<in> dom (map_of (sb_pending s)) - {entry}. inputOf s x)"
    by (rule sum.insert_remove) (simp add: finite_dom_map_of)
  moreover have "dom (map_of (sb_pending ?s)) = insert entry (dom (map_of (sb_pending s)))"
    by (auto simp: update_conv)
  moreover have "t < sb_nextEntry s" if "inFlight (sb_pending ?s) t \<noteq> {}" for t
    using that assms(1) by (auto simp: loadRunning_def inFlight_update inFlight_delete split: if_splits)
  moreover have "bootstrapsFree ?s {}"
    using assms by (auto simp: loadRunning_def bootstrapsFree_def v update_conv)
  ultimately show ?thesis using assms(1)
    by (simp add: loadRunning_def limitsOk_def loadOk_def bytesOk_def pipelinesOk_def v card_stage)
qed

lemma loadRunning_pending:
  assumes "loadOk s" "map_of (sb_pending s) entry = Some stage"
  shows "loadRunning s entry (inputOf s entry) (stageTarget stage)"
proof -
  have at: "atStage (sb_pending s) entry = stageTarget stage" by (simp add: atStage_def assms(2))
  have d: "entry \<in> dom (map_of (sb_pending s))" "finite (dom (map_of (sb_pending s)))"
    using assms(2) by (auto simp: finite_dom_map_of)
  have "t < sb_nextEntry s" if "inFlight (AList.delete entry (sb_pending s)) t \<noteq> {} \<or> stageTarget stage = Some t" for t
  proof -
    have "inFlight (sb_pending s) t \<noteq> {}"
      using that in_inFlight [of entry "sb_pending s" t] at by (auto simp: inFlight_delete)
    then show ?thesis using assms(1) by (simp add: loadOk_def pipelinesOk_def)
  qed
  then show ?thesis using assms(1) sum.remove [OF d(2,1), of "inputOf s"] at
    by (simp add: loadOk_def loadRunning_def limitsOk_def bytesOk_def pipelinesOk_def card_delete bootstrapsFree_def)
qed

lemma loadRunning_view:
  assumes "loadView s' = loadView s" "sb_answerTable s' = sb_answerTable s" "sb_pending s' = sb_pending s"
  shows "loadRunning s' entry n target = loadRunning s entry n target"
  using assms(2,3) loadView_eq [THEN iffD1, OF assms(1)] withinBudget_view [OF assms(1)]
  by (simp add: loadRunning_def limitsOk_def sizeOk_def bootstrapsFree_def)

lemma loadOk_neutral:
  assumes "loadOk s" "loadView s' = loadView s" "sb_pending s' = sb_pending s"
    and "sb_answerTable s' = sb_answerTable s \<or> (\<exists>q. sb_answerTable s' = AList.delete q (sb_answerTable s))"
  shows "loadOk s'"
proof -
  have "length (sb_answerTable s') \<le> length (sb_answerTable s)" using assms(4) length_delete_le by auto
  then have "sizeOk s'" using assms(1) loadView_eq [THEN iffD1, OF assms(2)] by (auto simp: loadOk_def sizeOk_def)
  then show ?thesis using assms(1,3) loadView_eq [THEN iffD1, OF assms(2)] withinBudget_view [OF assms(2)]
    by (simp add: loadOk_def bytesOk_def pipelinesOk_def bootstrapsFree_def)
qed

lemma dropPipelineRef_running:
  assumes "loadRunning s entry n target"
  shows "loadRunning (dropPipelineRef s target) entry n None"
proof (cases target)
  case (Some t)
  then show ?thesis using assms
    by (auto simp: dropPipelineRef_def loadRunning_def limitsOk_def addPipelineRef_load refs_def bootstrapsFree_def)
qed (use assms in \<open>simp add: dropPipelineRef_def\<close>)

lemma dropPipelineRef_input: "inputOf (dropPipelineRef s target) = inputOf s"
  by (simp add: dropPipelineRef_def addPipelineRef_load split: option.splits)

lemma dispatchToCapability_load:
  assumes "loadRunning s entry (inputOf s entry) target"
  shows "loadOk (dispatchToCapability s entry call capability target)"
  using assms dropPipelineRef_running [OF assms]
  by (auto simp: dispatchToCapability_def dropPipelineRef_input intro!: loadOk_stage split: sum.splits)

lemma targetResolved_load:
  assumes "loadRunning s entry (inputOf s entry) (Some target)"
  shows "loadOk (targetResolved s entry call target outcome)"
  using assms dropPipelineRef_running [OF assms]
  by (auto simp: targetResolved_def dropPipelineRef_input intro!: loadOk_stage dispatchToCapability_load split: sum.splits)

lemma addPipelineRef_running:
  assumes "loadRunning s entry n None" "target < sb_nextEntry s"
  shows "loadRunning (addPipelineRef s target 1) entry n (Some target)"
  using assms by (auto simp: loadRunning_def limitsOk_def addPipelineRef_load refs_def bootstrapsFree_def)

lemma dispatchCall_load:
  assumes "loadRunning s entry (inputOf s entry) None" "tableOk s"
  shows "loadOk (dispatchCall s entry call)"
proof (cases "cr_target call")
  case (ImportedCap c)
  then show ?thesis using assms by (simp add: dispatchCall_def dispatchToCapability_load)
next
  case (PromisedAnswer pa)
  show ?thesis
  proof (cases "map_of (sb_answerTable s) (pa_questionId pa)")
    case None
    then show ?thesis using assms PromisedAnswer by (auto simp: dispatchCall_def intro!: loadOk_stage)
  next
    case (Some t)
    then have "loadRunning (addPipelineRef s t 1) entry (inputOf (addPipelineRef s t 1) entry) (Some t)"
      using addPipelineRef_running [OF assms(1), of t] table_lookup [OF assms(2)] by (simp add: addPipelineRef_load)
    then show ?thesis using Some PromisedAnswer
      by (auto simp: dispatchCall_def Let_def intro!: loadOk_stage targetResolved_load split: option.splits)
  qed
qed

lemma running_done:
  assumes "loadRunning s entry 0 None" "entry \<notin> fst ` set (sb_pending s)"
  shows "loadOk s"
proof -
  have "entry \<notin> dom (map_of (sb_pending s))" using assms(2) by (simp add: dom_map_of_conv_image_fst)
  then show ?thesis using assms
    by (auto simp: loadRunning_def limitsOk_def loadOk_def bytesOk_def pipelinesOk_def refs_def bootstrapsFree_def)
qed

lemma dom_delete_minus: "dom (map_of (AList.delete entry p)) - {entry} = dom (map_of p) - {entry}"
  by (auto simp: delete_conv' split: if_splits)

lemma dropStage_running:
  assumes "loadRunning s entry n target"
  shows "loadRunning (dropStage s entry) entry n target"
proof -
  have "loadView (dropStage s entry) = loadView s" by (rule load_views)
  then show ?thesis using assms
    by (simp add: loadView_eq loadRunning_def limitsOk_def delete_idem dom_delete_minus bootstrapsFree_def delete_conv')
qed

section \<open>Steps\<close>

lemma length_update_fresh: "map_of al k = None \<Longrightarrow> length (AList.update k v al) = Suc (length al)"
  by (induction al) (auto split: if_splits)

lemma register_load:
  assumes "registerAnswerEntry s q n = (r, s')" "loadOk s" "pendingOk s" "0 \<le> n"
  shows "case r of Inl f \<Rightarrow> loadOk s' | Inr entry \<Rightarrow> inputOf s' entry = n \<and> loadRunning s' entry n None"
proof (cases r)
  case (Inl f)
  then have "loadView s' = loadView s" "sb_pending s' = sb_pending s" "sb_answerTable s' = sb_answerTable s"
    using assms(1) by (auto simp: registerAnswerEntry_def load_views split: if_splits option.splits)
  then have "loadOk s'" using assms(2) loadOk_neutral by blast
  then show ?thesis using Inl by simp
next
  case (Inr entry)
  then have s': "s' = acceptAnswer s q n" and entry: "entry = sb_nextEntry s" "map_of (sb_answerTable s) q = None"
      "sb_maxAnswerTableSize s > 0 \<longrightarrow> int (length (sb_answerTable s)) < sb_maxAnswerTableSize s"
    using assms(1) by (auto simp: registerAnswerEntry_def split: if_splits option.splits)
  have budget: "withinBudget s'"
    using assms(1) Inr by (auto simp: registerAnswerEntry_def acceptAnswer_def withinBudget_def split: if_splits option.splits)
  have parts: "sb_nextEntry s' = Suc (sb_nextEntry s)" "sb_pending s' = sb_pending s"
      "sb_retainedInputFrameBytes s' = sb_retainedInputFrameBytes s + n"
      "sb_answerTable s' = AList.update q entry (sb_answerTable s)" "sb_maxAnswerTableSize s' = sb_maxAnswerTableSize s"
      "inputOf s' = (inputOf s)(entry := n)" "pipelineOf s' = (pipelineOf s)(entry := 0)"
    using entry(1) by (auto simp: s' acceptAnswer_def inputOf_def pipelineOf_def newEntry_def fun_eq_iff)
  have fresh: "entry \<notin> dom (map_of (sb_pending s))"
    using assms(3) entry(1) by (auto simp: pendingOk_def dom_map_of_conv_image_fst)
  then have same: "dom (map_of (sb_pending s)) - {entry} = dom (map_of (sb_pending s))" by blast
  have sums: "(\<Sum>x \<in> dom (map_of (sb_pending s)). inputOf s' x) = (\<Sum>x \<in> dom (map_of (sb_pending s)). inputOf s x)"
    by (rule sum.cong) (use fresh in \<open>auto simp: parts\<close>)
  have unused: "inFlight (sb_pending s) entry = {}"
    using assms(2) entry(1) by (auto simp: loadOk_def pipelinesOk_def)
  have "AList.delete entry (sb_pending s) = sb_pending s"
    using fresh by (simp add: dom_map_of_conv_image_fst)
  then have "loadRunning s' entry n None"
    using assms(2,4) budget unused sums entry(2,3)
    by (auto simp: loadRunning_def limitsOk_def sizeOk_def loadOk_def bytesOk_def pipelinesOk_def parts same refs_def
        length_update_fresh less_SucI bootstrapsFree_def)
  then show ?thesis using Inr by (simp add: parts)
qed

lemma setOutcome_load: "loadView (setEntry s entry (\<lambda>e. resolveEntry outcome (e\<lparr>ae_outcome := Some outcome\<rparr>))) = loadView s"
  by (rule setEntry_load) (simp add: resolveEntry_def)

lemma completeCall_load:
  assumes "loadRunning s entry (inputOf s entry) None" "entry \<notin> fst ` set (sb_pending s)"
  shows "loadOk (snd (completeCall s entry call outcome))"
proof -
  define s1 where "s1 = setEntry s entry (\<lambda>e. resolveEntry outcome (e\<lparr>ae_outcome := Some outcome\<rparr>))"
  define s2 where "s2 = s1\<lparr>sb_retainedInputFrameBytes := sb_retainedInputFrameBytes s1 - inputOf s1 entry\<rparr>"
  define s3 where "s3 = scheduleEviction s2 (cr_questionId call) entry"
  have view: "loadView s1 = loadView s" unfolding s1_def by (rule setOutcome_load)
  have s1: "loadRunning s1 entry (inputOf s entry) None" "sb_pending s1 = sb_pending s"
    using loadRunning_view [OF view] assms(1) by (simp_all add: s1_def)
  have parts: "inputOf s2 = inputOf s" "pipelineOf s2 = pipelineOf s1" "sb_pending s2 = sb_pending s"
      "sb_answerTable s2 = sb_answerTable s1"
    using s1(2) view by (simp_all add: s2_def inputOf_def pipelineOf_def loadView_eq fun_eq_iff)
  have "withinBudget s1 \<longrightarrow> 0 \<le> inputOf s1 entry \<longrightarrow> withinBudget s2"
    by (auto simp: withinBudget_def s2_def)
  then have "loadRunning s2 entry 0 None"
    using s1 view parts by (auto simp: loadRunning_def limitsOk_def loadView_eq sizeOk_def bootstrapsFree_def) (auto simp: s2_def loadView_eq)
  then have "loadOk s2" by (rule running_done) (simp add: parts assms(2))
  then have "loadOk s3" unfolding s3_def by (rule loadOk_neutral) (auto simp: load_views)
  moreover from this have "loadOk (trackAnswer s3 entry caps False)" for caps
    by (rule loadOk_neutral) (auto simp: load_views)
  ultimately show ?thesis using \<open>loadOk s2\<close>
    by (auto simp: completeCall_def s1_def [symmetric] inputOf_def [symmetric] s2_def [symmetric] s3_def [symmetric]
        Let_def split: RpcDispatchOutcome.splits)
qed

lemma setEntry_loadOk:
  "loadOk s \<Longrightarrow> (\<And>e. ae_inputFrameBytes (f e) = ae_inputFrameBytes e \<and> ae_pipelineRefCount (f e) = ae_pipelineRefCount e) \<Longrightarrow>
    loadOk (setEntry s entry f)"
  by (rule loadOk_neutral) (auto simp: setEntry_load)

lemma neutral_loadOk:
  assumes "loadOk s"
  shows "loadOk (scheduleEviction s q entry)" "loadOk (removeAnswer s q)" "loadOk (clearEvictionTimer s entry)"
    "loadOk (trackAnswer s entry caps b)" "loadOk (releaseAnswerHeldCapabilities s entry w)"
    "loadOk (s\<lparr>sb_timers := ts\<rparr>)" "loadOk (s\<lparr>sb_dispatchByCapability := reg\<rparr>)"
  by (rule loadOk_neutral [OF assms]; auto simp: load_views)+

lemma completeBootstrap_load: "loadOk s \<Longrightarrow> loadOk (completeBootstrapAnswer s entry response)"
proof -
  assume s: "loadOk s"
  define outcome where "outcome = bootstrapOutcome response"
  define s1 where "s1 = setEntry s entry (\<lambda>e. resolveEntry outcome (e\<lparr>ae_outcome := Some outcome\<rparr>))"
  have "loadOk s1" unfolding s1_def by (rule loadOk_neutral [OF s setOutcome_load]) auto
  then show ?thesis
    by (auto simp: completeBootstrapAnswer_def s1_def [symmetric] outcome_def [symmetric] Let_def intro!: neutral_loadOk)
qed

lemma bootstrapSettled_load: "loadOk s \<Longrightarrow> loadOk (snd (bootstrapSettled s entry q r))"
  by (auto simp: bootstrapSettled_def bootstrapFailure_def resolveEntry_def
      intro!: completeBootstrap_load setEntry_loadOk neutral_loadOk split: sum.splits)

lemma finishAnswer_load: "loadOk s \<Longrightarrow> loadOk (finishAnswer s finish)"
  by (auto simp: finishAnswer_def Let_def intro!: setEntry_loadOk neutral_loadOk split: option.splits)

lemma evictionTimer_load: "loadOk s \<Longrightarrow> loadOk (evictionTimer s q entry)"
  by (auto simp: evictionTimer_def Let_def intro!: setEntry_loadOk neutral_loadOk)

lemma close_fold_load:
  "loadOk s \<Longrightarrow> loadOk (fold (\<lambda>entry s. setEntry (clearEvictionTimer s entry) entry
      (\<lambda>e. e\<lparr>ae_finished := True, ae_aborted := True\<rparr>)) entries s)"
proof (induction entries arbitrary: s)
  case (Cons entry entries)
  have "loadOk (setEntry (clearEvictionTimer s entry) entry (\<lambda>e. e\<lparr>ae_finished := True, ae_aborted := True\<rparr>))"
    by (rule setEntry_loadOk [OF neutral_loadOk(3) [OF Cons.prems]]) simp
  then show ?case using Cons.IH by simp
qed simp

lemma closeBridge_load:
  assumes "loadOk (s :: 'h RpcServerBridge)"
  shows "loadOk (closeBridge s)"
proof -
  have "loadOk (s\<lparr>sb_closed := True\<rparr>)"
    by (rule loadOk_neutral [OF assms]) (auto simp: loadView_def inputOf_def pipelineOf_def fun_eq_iff)
  moreover have "loadOk (s'\<lparr>sb_answerTable := [], sb_dispatchByCapability := []\<rparr>)" if "loadOk s'" for s' :: "'h RpcServerBridge"
    using that by (auto simp: loadOk_def bytesOk_def pipelinesOk_def sizeOk_def withinBudget_def inputOf_def pipelineOf_def bootstrapsFree_def)
  ultimately show ?thesis using assms close_fold_load [of "s\<lparr>sb_closed := True\<rparr>"] by (simp add: closeBridge_def Let_def)
qed

lemma onRegistry_load: "loadOk s \<Longrightarrow> loadOk (snd (onRegistry s r))"
  by (auto simp: onRegistry_def intro!: neutral_loadOk split: sum.splits prod.splits)

lemma exportCapability_load:
  assumes "loadOk s"
  shows "loadOk (snd (exportCapability s dispatch index n))"
  by (rule loadOk_neutral [OF assms])
    (auto simp: exportCapability_def Let_def loadView_def inputOf_def pipelineOf_def fun_eq_iff split: if_splits)

lemma handleDecoded_load:
  assumes "loadOk (s :: 'h RpcServerBridge)" "bridgeOk s"
  shows "loadOk (snd (handleDecoded s frame tag))"
proof -
  have ok: "pendingOk s" using assms(2) by (simp add: bridgeOk_def)
  have call: "loadOk (snd (handleCall s call (int n)))" for call n
  proof (cases "registerAnswerEntry s (cr_questionId call) (int n)")
    case (Pair r s')
    have "tableOk s'" using register_bridge_ok [OF Pair assms(2)] by (simp add: bridgeOk_def)
    then show ?thesis using register_load [OF Pair assms(1) ok] Pair
      by (auto simp: handleCall_def dispatchCall_load split: sum.splits)
  qed
  have boot: "loadOk (snd (handleBootstrap s q))" for q
  proof (cases "registerAnswerEntry s q 0")
    case (Pair r s')
    then show ?thesis using register_load [OF Pair assms(1) ok] assms(1)
      by (auto simp: handleBootstrap_def split: sum.splits intro!: loadOk_stage)
  qed
  have rel: "loadOk (snd (case onRegistry s r of (v, s) \<Rightarrow> (f v, s)))" for r :: "(bool \<times> 'h registry) result" and f :: "bool result \<Rightarrow> bridge_output"
    using onRegistry_load [OF assms(1), of r] by (cases "onRegistry s r") simp
  show ?thesis
    using assms(1) call boot rel finishAnswer_load [OF assms(1)] by (auto simp: handleDecoded_def orThrow_def split: sum.splits)
qed

lemma observe_load:
  assumes "loadOk s" "bridgeOk s"
  shows "loadOk (snd (observeBootstrapResponse s frame))"
proof (cases "decodeReturnFrame frame")
  case (Inr response)
  have ok: "pendingOk s" using assms(2) by (simp add: bridgeOk_def)
  show ?thesis
  proof (cases "registerAnswerEntry s (answerIdOf response) 0")
    case (Pair r s')
    then have "loadOk s'"
      using register_load [OF Pair assms(1) ok] register_bridge_ok [OF Pair assms(2)] running_done
      by (auto split: sum.splits)
    then show ?thesis using Inr Pair by (auto simp: observeBootstrapResponse_def completeBootstrap_load split: sum.splits)
  qed
qed (simp add: observeBootstrapResponse_def assms)

lemma dropped_load:
  assumes "loadOk s" "map_of (sb_pending s) entry = Some stage"
  shows "loadRunning (dropPipelineRef (dropStage s entry) (stageTarget stage)) entry (inputOf s entry) None"
  using dropPipelineRef_running [OF dropStage_running [OF loadRunning_pending [OF assms]]] .

lemma dropped_input: "inputOf (dropPipelineRef (dropStage s entry) t) = inputOf s"
  using load_views(2) [of s entry] by (simp add: dropPipelineRef_input loadView_eq)

lemma bridgeStep_load:
  assumes "loadOk (s :: 'h RpcServerBridge)" "bridgeOk s" "bridgeStep s event = Some (out, s')"
  shows "loadOk s'"
proof (cases event)
  case (ExportCapability dispatch index n)
  then show ?thesis using assms(3) exportCapability_load [OF assms(1), of dispatch index n] by (auto simp: apfst_def map_prod_def split: prod.splits)
next
  case (RetainCapability i n)
  then show ?thesis using assms(3) onRegistry_load [OF assms(1),
      of "bindE (retainCapability (sb_dispatchByCapability s) i n) (\<lambda>reg. Inr ((), reg))"]
    by (auto simp: apfst_def map_prod_def split: prod.splits)
next
  case (ReleaseCapability i n)
  then show ?thesis using assms(3) onRegistry_load [OF assms(1), of "releaseCapability (sb_dispatchByCapability s) i n"]
    by (auto simp: apfst_def map_prod_def split: prod.splits)
next
  case (HandleFrame frame)
  then show ?thesis using assms handleDecoded_load [OF assms(1,2)]
    by (auto simp: handleFrame_def orThrow_def split: if_splits sum.splits option.splits) (metis snd_conv)
next
  case (ObserveBootstrapResponse frame)
  then show ?thesis using assms observe_load [OF assms(1,2), of frame] by (auto simp: apfst_def map_prod_def split: prod.splits)
next
  case (BootstrapSettled entry r)
  then obtain q where q: "map_of (sb_pending s) entry = Some (AwaitBootstrap q)"
      "s' = snd (bootstrapSettled (dropStage s entry) entry q r)"
    using assms(3) by (auto simp: apfst_def map_prod_def split: prod.splits option.splits Stage.splits)
  have "inputOf s entry = 0" using assms(1) q(1) by (auto simp: loadOk_def bootstrapsFree_def)
  then have "loadRunning (dropStage s entry) entry 0 None"
    using dropped_load [OF assms(1) q(1)] by (simp add: dropPipelineRef_def)
  from running_done [OF this dropped_ok(6) [OF assms(2) q(1)]] show ?thesis
    using q(2) by (simp add: bootstrapSettled_load)
next
  case (TargetSettled entry)
  then show ?thesis using assms loadRunning_pending [OF assms(1)]
    by (fastforce intro: targetResolved_load split: option.splits Stage.splits if_splits)
next
  case (HandlerSettled entry r retain)
  then obtain call i handler params target where q: "map_of (sb_pending s) entry = Some (AwaitHandler call i handler params target)"
      "s' = snd (completeCall (dropPipelineRef (dropStage s entry) target) entry call (handlerOutcome (sb_middleware s) r retain))"
    using assms(3) by (auto simp: apfst_def map_prod_def split: prod.splits option.splits Stage.splits)
  show ?thesis using completeCall_load [OF _ dropped_ok(3) [OF assms(2) q(1)], of target] dropped_load [OF assms(1) q(1)] q(2)
    by (simp add: dropped_input)
next
  case (OutcomeSettled entry)
  then obtain call outcome where q: "map_of (sb_pending s) entry = Some (AwaitSettle call outcome)"
      "s' = snd (completeCall (dropStage s entry) entry call outcome)"
    using assms(3) by (auto simp: apfst_def map_prod_def split: prod.splits option.splits Stage.splits)
  show ?thesis using completeCall_load [OF _ dropped_ok(6) [OF assms(2) q(1)]] dropped_load [OF assms(1) q(1)] q(2)
      dropped_input [of s entry None] by (simp add: dropPipelineRef_def)
next
  case (EvictionTimer timer)
  then show ?thesis using assms by (auto simp: evictionTimer_load neutral_loadOk split: option.splits)
next
  case CloseBridge
  then show ?thesis using assms by (auto simp: closeBridge_load)
qed

lemma reachable_load: "bridgeReachable options s \<Longrightarrow> loadOk s"
proof (induction rule: bridgeReachable.induct)
  case (created s)
  then show ?case
    by (auto simp: newRpcServerBridge_def bindE_eq_Inr loadOk_def bytesOk_def pipelinesOk_def sizeOk_def withinBudget_def
        bootstrapsFree_def inputOf_def pipelineOf_def newEntry_def inFlight_def isSafeInteger_iff split: option.splits if_splits)
next
  case (stepped s event out s')
  then show ?case using bridgeStep_load reachable_ok by blast
qed

end
