(* ===== verification/Server_Path.thy ===== *)
theory Server_Path
  imports Server_Load Call_Roundtrip
begin

text \<open>
  The path of a call through the bridge, from its frame to its handler and from the handler to the
  Return frame.
\<close>

section \<open>From the frame to the handler\<close>

text \<open>The bridge takes a question with \<open>n\<close> bytes of input.\<close>

definition admits :: "'h RpcServerBridge \<Rightarrow> int \<Rightarrow> int \<Rightarrow> bool" where
  "admits s q n \<longleftrightarrow> \<not> sb_closed s \<and> map_of (sb_answerTable s) q = None \<and>
     (sb_maxAnswerTableSize s > 0 \<longrightarrow> int (length (sb_answerTable s)) < sb_maxAnswerTableSize s) \<and>
     (\<forall>limit. sb_maxRetainedInputFrameBytes s = Some limit \<longrightarrow> sb_retainedInputFrameBytes s + n \<le> limit)"

lemma register_admits: "admits s q n \<Longrightarrow> registerAnswerEntry s q n = (Inr (sb_nextEntry s), acceptAnswer s q n)"
  by (auto simp: admits_def registerAnswerEntry_def split: option.splits)

lemma handleFrame_call:
  "\<not> sb_closed s \<Longrightarrow> sb_middleware s = [] \<Longrightarrow> decodeCallRequestFrame frame = Inr call \<Longrightarrow>
    handleFrame s frame = handleCall s call (int (length frame))"
  by (simp add: handleFrame_def orThrow_def decoder_tags handleDecoded_def)

lemma acceptAnswer_parts [simp]:
  "sb_dispatchByCapability (acceptAnswer s q n) = sb_dispatchByCapability s"
  "sb_middleware (acceptAnswer s q n) = sb_middleware s"
  "sb_answerTable (acceptAnswer s q n) = AList.update q (sb_nextEntry s) (sb_answerTable s)"
  by (simp_all add: acceptAnswer_def)

lemma call_started:
  assumes "validRequest request v" "requestTarget request = ImportedCap (jint i)"
    and "map_of (sb_dispatchByCapability s) i = Some rd" "accepts (rd_dispatch rd) (cf_interfaceId request)"
    and "sb_middleware s = []"
    and "\<And>frame. encodeCallRequestFrame request = Inr frame \<Longrightarrow> admits s (toInt (cf_questionId request)) (int (length frame))"
  shows "\<exists>frame s' params r. encodeCallRequestFrame request = Inr frame \<and> handleFrame s frame = (Suspended, s') \<and>
    map_of (sb_answerTable s') (toInt (cf_questionId request)) = Some (sb_nextEntry s) \<and>
    map_of (sb_pending s') (sb_nextEntry s) =
      Some (AwaitHandler (decodedCall request params) i (sd_handler (rd_dispatch rd)) params None) \<and>
    newMessageReader params = Inr r \<and> reads r 0 0 v \<and>
    sb_middleware s' = sb_middleware s \<and> \<not> ae_finished (sb_entries s' (sb_nextEntry s))"
proof -
  let ?q = "toInt (cf_questionId request)"
  obtain frame m r where f: "encodeCallRequestFrame request = Inr frame"
      "decodeCallRequestFrame frame = Inr (decodedCall request m)" "newMessageReader m = Inr r" "reads r 0 0 v"
    using call_roundtrip [OF assms(1)] by blast
  have adm: "admits s ?q (int (length frame))" using assms(6) f(1) by blast
  have iface: "uint (cr_interfaceId (decodedCall request m)) = cf_interfaceId request"
    using assms(1) by (simp add: validRequest_def decodedCall_def uint_word_of_int)
  have parts: "cr_questionId (decodedCall request m) = ?q" "cr_target (decodedCall request m) = ImportedCap i"
      "cr_paramsContent (decodedCall request m) = m"
    using assms(2) by (simp_all add: decodedCall_def)
  have "handleFrame s frame = handleCall s (decodedCall request m) (int (length frame))"
    using f(2) adm assms(5) by (intro handleFrame_call) (auto simp: admits_def)
  also have "\<dots> = (Suspended, setStage (acceptAnswer s ?q (int (length frame))) (sb_nextEntry s)
      (AwaitHandler (decodedCall request m) i (sd_handler (rd_dispatch rd)) m None))"
    using assms(3-5) adm iface parts
    by (simp add: handleCall_def register_admits dispatchCall_def dispatchToCapability_def enterCapability_def capAt_def)
  finally show ?thesis using f by (auto simp: update_conv setStage_def acceptAnswer_def newEntry_def)
qed

section \<open>From the handler to the Return\<close>

lemma trackDescriptor_holds:
  assumes "trackDescriptor reg d b = (reg', new)"
  shows "dom (map_of reg') = dom (map_of reg)"
    and "cd_tag d = jint 1 \<Longrightarrow> cd_id d = jint j \<Longrightarrow> map_of reg j \<noteq> None \<Longrightarrow> j \<in> set new"
  using assms by (auto simp: trackDescriptor_def capAt_def update_conv Let_def split: if_splits option.splits)

lemma track_holds:
  assumes "trackReturnedCapabilities reg caps b held = (reg', held')"
  shows "set held \<subseteq> set held' \<and> (\<forall>d j. d \<in> set caps \<longrightarrow> cd_tag d = jint 1 \<longrightarrow> cd_id d = jint j \<longrightarrow>
    map_of reg j \<noteq> None \<longrightarrow> j \<in> set held')"
  using assms
proof (induction caps arbitrary: reg held)
  case (Cons d caps)
  obtain reg1 new where t: "trackDescriptor reg d b = (reg1, new)" by fastforce
  have dom: "map_of reg1 j \<noteq> None \<longleftrightarrow> map_of reg j \<noteq> None" for j
    using trackDescriptor_holds(1) [OF t] by (auto simp: dom_def set_eq_iff)
  show ?case using Cons.IH [of reg1 "held @ new"] Cons.prems trackDescriptor_holds(2) [OF t] dom
    by (auto simp: t)
qed simp

lemma trackAnswer_holds:
  "d \<in> set caps \<Longrightarrow> cd_tag d = jint 1 \<Longrightarrow> cd_id d = jint j \<Longrightarrow> map_of (sb_dispatchByCapability s) j \<noteq> None \<Longrightarrow>
    j \<in> set (heldBy (trackAnswer s entry caps b) entry)"
proof -
  assume a: "d \<in> set caps" "cd_tag d = jint 1" "cd_id d = jint j" "map_of (sb_dispatchByCapability s) j \<noteq> None"
  obtain reg held where t: "trackReturnedCapabilities (sb_dispatchByCapability s) caps b [] = (reg, held)" by fastforce
  have "j \<in> set held" using track_holds [OF t] a by blast
  then show ?thesis by (auto simp: trackAnswer_def t heldBy_def setEntry_def Let_def)
qed

text \<open>The end of a call whose answer is still wanted.\<close>

lemma completeCall_wanted:
  assumes "map_of (sb_answerTable s) (cr_questionId call) = Some entry" "\<not> ae_finished (sb_entries s entry)"
  shows "\<exists>s'. completeCall s entry call (OutResults response) =
      (bindE (encodeReturnResultsFrame \<lparr>rf_answerId = jint (cr_questionId call), rf_content = rs_content response,
         rf_capTable = rs_capTable response, rf_releaseParamCaps = rs_releaseParamCaps response,
         rf_noFinishNeeded = rs_noFinishNeeded response\<rparr>) (\<lambda>f. Inr (Some f)),
       trackAnswer s' entry (orElse (rs_capTable response) []) False) \<and>
    sb_dispatchByCapability s' = sb_dispatchByCapability s \<and> sb_answerTable s' = sb_answerTable s \<and>
    sb_closed s' = sb_closed s \<and> sb_pending s' = sb_pending s \<and> (sb_answerEvictionTimeoutMs s \<le> 0 \<longrightarrow> sb_timers s' = sb_timers s)"
proof -
  define s1 where "s1 = setEntry s entry (\<lambda>e. resolveEntry (OutResults response) (e\<lparr>ae_outcome := Some (OutResults response)\<rparr>))"
  define s2 where "s2 = s1\<lparr>sb_retainedInputFrameBytes := sb_retainedInputFrameBytes s1 - ae_inputFrameBytes (sb_entries s1 entry)\<rparr>"
  have "sb_answerTable s2 = sb_answerTable s" "sb_dispatchByCapability s2 = sb_dispatchByCapability s"
      "sb_answerTable s1 = sb_answerTable s" "ae_finished (sb_entries s1 entry) = ae_finished (sb_entries s entry)"
    by (auto simp: s2_def s1_def setEntry_def resolveEntry_def)
  moreover have "sb_dispatchByCapability (scheduleEviction s2 q entry) = sb_dispatchByCapability s2 \<and>
      sb_closed (scheduleEviction s2 q entry) = sb_closed s2" for q
    using capView_eq [THEN iffD1, OF cap_view(7) [of s2 q entry]] by simp
  moreover have "sb_pending s2 = sb_pending s" "sb_timers s2 = sb_timers s" "sb_closed s2 = sb_closed s"
      "sb_answerEvictionTimeoutMs s2 = sb_answerEvictionTimeoutMs s"
    by (auto simp: s2_def s1_def setEntry_def)
  moreover have "sb_answerEvictionTimeoutMs s2 \<le> 0 \<Longrightarrow> scheduleEviction s2 q entry = s2" for q
    by (simp add: scheduleEviction_def)
  ultimately show ?thesis using assms
    by (intro exI [of _ "scheduleEviction s2 (cr_questionId call) entry"])
      (simp add: completeCall_def s1_def [symmetric] s2_def [symmetric] Let_def)
qed

lemma dropped_parts:
  "sb_answerTable (dropPipelineRef (dropStage s entry) t) = sb_answerTable s"
  "sb_dispatchByCapability (dropPipelineRef (dropStage s entry) t) = sb_dispatchByCapability s"
  "ae_finished (sb_entries (dropPipelineRef (dropStage s entry) t) x) = ae_finished (sb_entries s x)"
  "sb_timers (dropPipelineRef (dropStage s entry) t) = sb_timers s"
  "sb_closed (dropPipelineRef (dropStage s entry) t) = sb_closed s"
  "sb_answerEvictionTimeoutMs (dropPipelineRef (dropStage s entry) t) = sb_answerEvictionTimeoutMs s"
  by (auto simp: dropPipelineRef_def dropStage_def addPipelineRef_def setEntry_def split: option.splits)

lemma trackAnswer_timers: "sb_timers (trackAnswer s entry caps b) = sb_timers s"
  by (simp add: trackAnswer_def setEntry_def Let_def split: prod.splits)

lemma handler_settled:
  assumes "map_of (sb_pending s) entry = Some (AwaitHandler call i handler params target)"
    and "map_of (sb_answerTable s) (cr_questionId call) = Some entry" "\<not> ae_finished (sb_entries s entry)"
    and "sb_middleware s = []"
    and "0 \<le> cr_questionId call" "cr_questionId call < 2 ^ 32"
    and "contactsFit (orElse (rs_capTable response) [])" "length (capTableWords 0 (orElse (rs_capTable response) [])) < 2 ^ 26"
    and "contentFits (rs_content response) v"
  shows "\<exists>reply s' content r. bridgeStep s (HandlerSettled entry (Inr response) retain) = Some (Replied (Inr (Some reply)), s') \<and>
    decodeReturnFrame reply = Inr (ReturnResults (cr_questionId call) content
      (map decodedCap (orElse (rs_capTable response) []))
      \<lparr>fl_releaseParamCaps = orElse (rs_releaseParamCaps response) (\<not> retain), fl_noFinishNeeded = orElse (rs_noFinishNeeded response) False\<rparr>) \<and>
    newMessageReader content = Inr r \<and> reads r 0 0 v \<and>
    (\<forall>d j. d \<in> set (orElse (rs_capTable response) []) \<longrightarrow> cd_tag d = jint CAP_DESCRIPTOR_TAG_SENDER_HOSTED \<longrightarrow>
       cd_id d = jint j \<longrightarrow> map_of (sb_dispatchByCapability s) j \<noteq> None \<longrightarrow> j \<in> set (heldBy s' entry)) \<and>
    sb_closed s' = sb_closed s \<and> sb_answerTable s' = sb_answerTable s \<and> sb_pending s' = AList.delete entry (sb_pending s) \<and>
    (sb_answerEvictionTimeoutMs s \<le> 0 \<longrightarrow> sb_timers s' = sb_timers s)"
proof -
  let ?s = "dropPipelineRef (dropStage s entry) target" and ?q = "cr_questionId call"
  define response' where "response' = (if retain \<and> rs_releaseParamCaps response = None
    then response\<lparr>rs_releaseParamCaps := Some False\<rparr> else response)"
  have same: "rs_content response' = rs_content response" "rs_capTable response' = rs_capTable response"
      "rs_noFinishNeeded response' = rs_noFinishNeeded response"
      "orElse (rs_releaseParamCaps response') True = orElse (rs_releaseParamCaps response) (\<not> retain)"
    by (cases "rs_releaseParamCaps response"; simp add: response'_def)+
  have out: "handlerOutcome (sb_middleware s) (Inr response) retain = OutResults response'"
    using assms(4) by (simp add: handlerOutcome_def response'_def)
  obtain s' where c: "completeCall ?s entry call (OutResults response') =
      (bindE (encodeReturnResultsFrame \<lparr>rf_answerId = jint ?q, rf_content = rs_content response',
         rf_capTable = rs_capTable response', rf_releaseParamCaps = rs_releaseParamCaps response',
         rf_noFinishNeeded = rs_noFinishNeeded response'\<rparr>) (\<lambda>f. Inr (Some f)),
       trackAnswer s' entry (orElse (rs_capTable response') []) False)"
    and s': "sb_dispatchByCapability s' = sb_dispatchByCapability s" "sb_answerTable s' = sb_answerTable s"
      "sb_pending s' = AList.delete entry (sb_pending s)" "sb_answerEvictionTimeoutMs s \<le> 0 \<longrightarrow> sb_timers s' = sb_timers s"
      "sb_closed s' = sb_closed s"
    using completeCall_wanted [of ?s call entry response'] assms(2,3) by (auto simp: dropped_parts)
  obtain reply content r where enc: "encodeReturnResultsFrame \<lparr>rf_answerId = jint ?q, rf_content = rs_content response',
         rf_capTable = rs_capTable response', rf_releaseParamCaps = rs_releaseParamCaps response',
         rf_noFinishNeeded = rs_noFinishNeeded response'\<rparr> = Inr reply"
    and dec: "decodeReturnFrame reply = Inr (ReturnResults ?q content (map decodedCap (orElse (rs_capTable response') []))
      \<lparr>fl_releaseParamCaps = orElse (rs_releaseParamCaps response') True, fl_noFinishNeeded = orElse (rs_noFinishNeeded response') False\<rparr>)"
      "newMessageReader content = Inr r" "reads r 0 0 v"
    using results_roundtrip [OF assms(5-6), of "rs_capTable response'" "rs_content response'" v
        "rs_releaseParamCaps response'" "rs_noFinishNeeded response'"] assms(7-9) same by auto
  show ?thesis
    using assms(1) c enc dec out trackAnswer_holds [of _ "orElse (rs_capTable response) []" _ s' entry False] s' same
    by (auto simp: trackAnswer_timers held_parts)
qed

text \<open>What a handler settles with that can be put into a Return: an error whose text fits, or a response whose
  table and content fit.\<close>

definition sendable_outcome :: "js_string + RpcCallResponse \<Rightarrow> wire_value \<Rightarrow> bool" where
  "sendable_outcome result v \<longleftrightarrow>
     (case result of
        Inl reason \<Rightarrow> int (length (textEncode reason)) + 1 < 2 ^ 29
      | Inr response \<Rightarrow> contactsFit (orElse (rs_capTable response) []) \<and>
          length (capTableWords 0 (orElse (rs_capTable response) [])) < 2 ^ 26 \<and> contentFits (rs_content response) v)"

lemma handler_threw:
  assumes "map_of (sb_pending s) entry = Some (AwaitHandler call i handler params target)"
    and "map_of (sb_answerTable s) (cr_questionId call) = Some entry" "\<not> ae_finished (sb_entries s entry)"
    and "0 \<le> cr_questionId call" "cr_questionId call < 2 ^ 32" "int (length (textEncode reason)) + 1 < 2 ^ 29"
  shows "\<exists>reply s' flags. bridgeStep s (HandlerSettled entry (Inl reason) retain) = Some (Replied (Inr (Some reply)), s') \<and>
    decodeReturnFrame reply = Inr (ReturnException (cr_questionId call) (textDecode (textEncode reason)) flags) \<and>
    sb_closed s' = sb_closed s"
proof -
  let ?s = "dropPipelineRef (dropStage s entry) target" and ?q = "cr_questionId call"
  obtain release where out: "handlerOutcome (sb_middleware s) (Inl reason) retain = OutException reason release"
    by (simp add: handlerOutcome_def)
  define s1 where "s1 = setEntry ?s entry (\<lambda>e. resolveEntry (OutException reason release) (e\<lparr>ae_outcome := Some (OutException reason release)\<rparr>))"
  define s2 where "s2 = s1\<lparr>sb_retainedInputFrameBytes := sb_retainedInputFrameBytes s1 - ae_inputFrameBytes (sb_entries s1 entry)\<rparr>"
  have "sb_answerTable s1 = sb_answerTable s" "ae_finished (sb_entries s1 entry) = ae_finished (sb_entries s entry)"
      "sb_closed s2 = sb_closed s"
    by (auto simp: s2_def s1_def setEntry_def resolveEntry_def dropped_parts)
  moreover have "sb_closed (scheduleEviction s2 ?q entry) = sb_closed s2"
    using capView_eq [THEN iffD1, OF cap_view(7) [of s2 ?q entry]] by simp
  ultimately have c: "completeCall ?s entry call (OutException reason release) =
      (bindE (exceptionFrame ?q reason release None) (\<lambda>f. Inr (Some f)), scheduleEviction s2 ?q entry)"
      "sb_closed (scheduleEviction s2 ?q entry) = sb_closed s"
    using assms(2,3) by (simp_all add: completeCall_def s1_def [symmetric] s2_def [symmetric] Let_def)
  have "exceptionFrame ?q reason release None =
      Inr (frameOf [bytesOf (exceptionWords ?q (returnFlags (orElse release True) False) (textEncode reason))])"
    using encodeException_words [OF assms(4-6), of release None] by (simp add: exceptionFrame_def)
  then show ?thesis
    using c out assms(1) decodeException_words [OF assms(4-6), of "orElse release True" False] by simp
qed

lemma cancelFrame:
  assumes "0 \<le> q" "q < 2 ^ 32"
  shows "\<exists>frame message. exceptionFrame q (lit ''rpc call canceled'') release (Some True) = Inr frame \<and>
    decodeReturnFrame frame = Inr message \<and> answerIdOf message = q"
proof -
  let ?r = "lit ''rpc call canceled''"
  have "int (length (textEncode ?r)) + 1 < 2 ^ 29"
    by (simp add: lit_def textEncode_def utf8_char_def isHigh_def isLow_def)
  then show ?thesis
    using encodeException_words [OF assms, of ?r release "Some True"]
      decodeException_words [OF assms, of "textEncode ?r" "orElse release True" True]
    by (simp add: exceptionFrame_def)
qed

lemma completeCall_finished:
  assumes "ae_finished (sb_entries s entry)"
  shows "\<exists>s'. completeCall s entry call outcome = (Inr None, s') \<and> ae_finished (sb_entries s' entry) \<and> sb_closed s' = sb_closed s"
  using assms by (simp add: completeCall_def Let_def setEntry_def resolveEntry_def)

end
