(* ===== verification/Server_Samples.thy ===== *)
theory Server_Samples
  imports Server_Load Call_Roundtrip
begin

text \<open>
  States of the bridge and a history of events the witnesses use.
\<close>

section \<open>Sample states\<close>

definition sampleDispatch :: "nat RpcServerDispatch" where
  "sampleDispatch = \<lparr>sd_interfaceId = 9, sd_interfaceIds = None, sd_handler = 5\<rparr>"

definition sampleExport :: "nat RegisteredDispatch" where
  "sampleExport = \<lparr>rd_dispatch = sampleDispatch, rd_refCount = 1, rd_bootstrapGrantClaimed = False, rd_answerHoldCount = 1\<rparr>"

definition sampleBridge :: "(int \<times> nat) list \<Rightarrow> (nat \<times> nat Stage) list \<Rightarrow> (nat \<Rightarrow> AnswerTableEntry) \<Rightarrow> nat RpcServerBridge" where
  "sampleBridge table pending entries =
     \<lparr>sb_nextCapabilityIndex = 8, sb_closed = False, sb_retainedInputFrameBytes = 0, sb_rejectedInputFrames = 0,
      sb_maxRetainedInputFrameBytes = None, sb_dispatchByCapability = [(7, sampleExport)], sb_onBootstrap = True,
      sb_answerTable = table, sb_maxAnswerTableSize = 4096, sb_answerEvictionTimeoutMs = 0, sb_maxEvictionRetries = 10,
      sb_middleware = [], sb_entries = entries, sb_nextEntry = 4, sb_pending = pending, sb_timers = [], sb_nextTimer = 0\<rparr>"

definition sampleCall :: RpcCallRequest where
  "sampleCall = \<lparr>cr_questionId = 1, cr_interfaceId = 9, cr_methodId = 0, cr_target = ImportedCap 7,
     cr_targetImportedCap = Some 7, cr_paramsContent = [], cr_paramsCapTable = []\<rparr>"

definition sampleResponse :: RpcCallResponse where
  "sampleResponse = \<lparr>rs_content = None,
     rs_capTable = Some [\<lparr>cd_tag = jint 1, cd_id = jint 7, cd_vineId = None, cd_contact = None\<rparr>],
     rs_releaseParamCaps = None, rs_noFinishNeeded = Some True\<rparr>"

lemma sampleResponse_fits:
  "contactsFit (orElse (rs_capTable sampleResponse) [])" "length (capTableWords 0 (orElse (rs_capTable sampleResponse) [])) < 2 ^ 26"
  "contentFits (rs_content sampleResponse) NullV"
  by (simp_all add: sampleResponse_def noContent contactsFit_def validCap_def isU_def isThirdParty_def capTableWords_def thirdBlock_def)

abbreviation (input) "running \<equiv> AwaitHandler sampleCall 7 (5 :: nat) [] None"

definition sampleRequest :: RpcCallFrameRequest where
  "sampleRequest = \<lparr>cf_questionId = jint 1, cf_interfaceId = 9, cf_methodId = jint 0, cf_targetImportedCap = Some (jint 7),
     cf_target = None, cf_paramsContent = None, cf_paramsCapTable = None\<rparr>"

lemma sampleRequest_valid: "validRequest sampleRequest NullV"
proof -
  have "\<exists>tgt. normalizeCallTarget sampleRequest = Inr tgt" by (rule exI) code_simp
  moreover have "requestFits sampleRequest"
    by (simp add: requestFits_def sampleRequest_def requestTarget_def contactsFit_def capTableWords_def thirdBlock_def)
  ultimately show ?thesis using noContent by (simp add: validRequest_def) (simp add: sampleRequest_def isU_def)
qed

text \<open>
  A history: an export is bootstrapped and a call pipelined on the bootstrap answer runs on it, with
  the eviction timer of the answer set. The frames are those the encoders give.
\<close>

definition sampleOptions :: RpcServerBridgeOptions where
  "sampleOptions = \<lparr>bo_maxRetainedInputFrameBytes = Some (jint 1000), bo_nextCapabilityIndex = None,
     bo_maxAnswerTableSize = None, bo_answerEvictionTimeoutMs = Some 50, bo_maxEvictionRetries = None,
     bo_onBootstrap = True, bo_middleware = []\<rparr>"

definition sampleBootstrapFrame :: bytes where
  "sampleBootstrapFrame =
     [0, 0, 0, 0, 5, 0, 0, 0, 0, 0, 0, 0, 1, 0, 1, 0, 8, 0, 0, 0, 0, 0, 0, 0, 0, 0, 0, 0, 1, 0, 1, 0, 1, 0, 0, 0, 0, 0, 0, 0,
      0, 0, 0, 0, 0, 0, 0, 0]"

definition samplePipelinedFrame :: bytes where
  "samplePipelinedFrame =
     [0, 0, 0, 0, 16, 0, 0, 0, 0, 0, 0, 0, 1, 0, 1, 0, 2, 0, 0, 0, 0, 0, 0, 0, 0, 0, 0, 0, 3, 0, 3, 0,
      2, 0, 0, 0, 0, 0, 0, 0, 9, 0, 0, 0, 0, 0, 0, 0, 0, 0, 0, 0, 0, 0, 0, 0, 8, 0, 0, 0, 1, 0, 1, 0,
      20, 0, 0, 0, 0, 0, 2, 0, 0, 0, 0, 0, 0, 0, 0, 0, 0, 0, 0, 0, 1, 0, 0, 0, 0, 0, 0, 0, 1, 0, 1, 0,
      1, 0, 0, 0, 0, 0, 0, 0, 0, 0, 0, 0, 0, 0, 0, 0, 0, 0, 0, 0, 0, 0, 0, 0, 1, 0, 0, 0, 7, 0, 0, 0,
      0, 0, 0, 0, 1, 0, 1, 0]"

lemma sampleHistory_run:
  "map_option (\<lambda>(outs, s). (sb_closed s, sb_nextEntry s, sb_retainedInputFrameBytes s, map (heldBy s) [0, 1],
      map (\<lambda>(x, stage). (x, stageTarget stage)) (sb_pending s), sb_timers s, sb_answerTable s, sb_maxEvictionRetries s,
      ae_evictionAttempts (sb_entries s 0), ae_pipelineRefCount (sb_entries s 0)))
     (case newRpcServerBridge sampleOptions of
        Inl e \<Rightarrow> None
      | Inr s \<Rightarrow> bridgeRun s [ExportCapability sampleDispatch (Some 7) None, HandleFrame sampleBootstrapFrame,
          BootstrapSettled 0 (Inr (jint 7)), HandleFrame samplePipelinedFrame]) =
   Some (False, 2, 136, [[7], []], [(1, Some 0)], [(0, 1, 0)], [(1, 0), (2, 1)], 10, 0, 1)"
  by code_simp

lemma sampleHistory:
  "\<exists>s :: nat RpcServerBridge. bridgeReachable sampleOptions s \<and> \<not> sb_closed s \<and> sb_nextEntry s = 2 \<and>
    sb_retainedInputFrameBytes s = 136 \<and> heldBy s 0 = [7] \<and>
    map_of (map (\<lambda>(x, stage). (x, stageTarget stage)) (sb_pending s)) = [1 \<mapsto> Some 0] \<and>
    map_of (sb_timers s) 0 = Some (1, 0) \<and> sb_maxEvictionRetries s = 10 \<and> ae_evictionAttempts (sb_entries s 0) = 0 \<and>
    sb_answerTable s = [(1, 0), (2, 1)]"
proof -
  obtain s0 :: "nat RpcServerBridge" where s0: "newRpcServerBridge sampleOptions = Inr s0"
    using sampleHistory_run by (cases "newRpcServerBridge sampleOptions :: nat RpcServerBridge result") auto
  then obtain outs s where run: "bridgeRun s0 [ExportCapability sampleDispatch (Some 7) None, HandleFrame sampleBootstrapFrame,
          BootstrapSettled 0 (Inr (jint 7)), HandleFrame samplePipelinedFrame] = Some (outs, s)"
    using sampleHistory_run by (fastforce simp del: bridgeRun.simps)
  have "bridgeReachable sampleOptions s" using bridgeRun_reachable [OF created [OF s0] run] .
  then show ?thesis using sampleHistory_run by (intro exI [of _ s]) (simp add: s0 run del: bridgeRun.simps)
qed

end
