(* ===== verification/Server_Host.thy ===== *)
theory Server_Host
  imports Server_Calls
begin

text \<open>
  The calls the WASM peer hands to the host (\<open>pumpWasmHostCalls\<close> of \<open>src/rpc/server/bridge.ts\<close>):
  taken into the same answer table, dispatched by the same stages, and answered through the ABI of
  the module. The ABI is not part of the repository's TypeScript: a host says which of its calls
  exist, and its relay of a Return frame is a function that gives the message of an error when the
  module refuses the frame.
\<close>

record RpcServerWasmHost =
  wh_respondHostCallReturnFrame :: "(bytes \<Rightarrow> js_string option) option"
  wh_supportsHostCallReturnFrame :: "bool option"
  wh_supportsParamCapRetention :: "bool option"

record WasmHostCallRecord =
  hc_questionId :: int
  hc_frame :: bytes

datatype host_action =
    RespondReturnFrame bytes
  | RespondResults int bytes
  | RespondException int js_string

fun flagsOf :: "RpcReturnMessage \<Rightarrow> ReturnFlags" where
  "flagsOf (ReturnResults _ _ _ flags) = flags"
| "flagsOf (ReturnException _ _ flags) = flags"
| "flagsOf (ReturnCanceled _ flags) = flags"

definition requestsRetention :: "bytes \<Rightarrow> bool" where
  "requestsRetention responseFrame =
     (case decodeReturnFrame responseFrame of
        Inl e \<Rightarrow> False
      | Inr message \<Rightarrow> \<not> fl_releaseParamCaps (flagsOf message))"

definition noRetention :: js_string where
  "noRetention = lit ''wasm module does not support retaining host-call param caps (releaseParamCaps=false); rebuild the runtime module with host-call param-cap retention''"

text \<open>\<open>respondWasmHostCallFrame\<close>: the ABI calls it makes, and the error it throws.\<close>

definition respondWasmHostCallFrame ::
  "RpcServerWasmHost \<Rightarrow> RpcCallRequest \<Rightarrow> bytes \<Rightarrow> host_action list \<times> error option" where
  "respondWasmHostCallFrame host call responseFrame =
     (let q = cr_questionId call in
      case (if orElse (wh_supportsHostCallReturnFrame host) True then wh_respondHostCallReturnFrame host else None) of
        Some relay \<Rightarrow>
          if wh_supportsParamCapRetention host = Some False \<and> requestsRetention responseFrame
          then ([RespondException q noRetention], None)
          else (case relay responseFrame of
              None \<Rightarrow> ([RespondReturnFrame responseFrame], None)
            | Some reason \<Rightarrow> ([RespondReturnFrame responseFrame, RespondException q reason],
                Some (PlainError ''relay: {reason}'' (map int reason))))
      | None \<Rightarrow>
          (case decodeReturnFrame responseFrame of
             Inl e \<Rightarrow> ([], Some e)
           | Inr (ReturnException _ reason _) \<Rightarrow> ([RespondException q reason], None)
           | Inr (ReturnCanceled _ _) \<Rightarrow> ([RespondException q canceledReason], None)
           | Inr (ReturnResults _ content capTable flags) \<Rightarrow>
               if capTable \<noteq> []
               then ([RespondException q (lit ''wasm host-call bridge does not support response cap tables yet'')], None)
               else if \<not> fl_releaseParamCaps flags \<or> fl_noFinishNeeded flags
               then ([RespondException q (lit ''wasm host-call bridge does not support non-default return flags yet'')], None)
               else ([RespondResults q content], None)))"

definition orThrown :: "bytes result \<Rightarrow> (bytes \<Rightarrow> host_action list \<times> error option) \<Rightarrow> host_action list \<times> error option" where
  "orThrown r f = (case r of Inl e \<Rightarrow> ([], Some e) | Inr frame \<Rightarrow> f frame)"

text \<open>
  \<open>handleWasmHostCall\<close> up to its await: the entry of the call, or the answer that ends it at once.
  The text of a decoding error is its template.
\<close>

definition handleWasmHostCall ::
  "RpcServerWasmHost \<Rightarrow> 'h RpcServerBridge \<Rightarrow> WasmHostCallRecord \<Rightarrow>
    (nat option \<times> host_action list \<times> error option) \<times> 'h RpcServerBridge" where
  "handleWasmHostCall host s hostCall =
     (case decodeCallRequestFrame (hc_frame hostCall) of
        Inl e \<Rightarrow> ((None, [RespondException (hc_questionId hostCall) (errorText e)], None), s)
      | Inr call \<Rightarrow>
          if cr_questionId call \<noteq> hc_questionId hostCall
          then ((None, [RespondException (hc_questionId hostCall)
                   (lit ''host call questionId mismatch: metadata='' @ jsInt (hc_questionId hostCall) @ lit '' frame=''
                      @ jsInt (cr_questionId call))], None), s)
          else (case registerAnswerEntry s (cr_questionId call) (int (length (hc_frame hostCall))) of
              (Inl errorFrame, s) \<Rightarrow> ((None, orThrown errorFrame (respondWasmHostCallFrame host call)), s)
            | (Inr entry, s) \<Rightarrow> ((Some entry, [], None), dispatchCall s entry call)))"

text \<open>
  \<open>respond\<close>: what follows the completion of the call. \<open>reply\<close> is the value of \<open>completeCall\<close> and
  \<open>s\<close> the state after it.
\<close>

definition respondHostCall ::
  "RpcServerWasmHost \<Rightarrow> 'h RpcServerBridge \<Rightarrow> nat \<Rightarrow> RpcCallRequest \<Rightarrow> bytes option result \<Rightarrow> host_action list \<times> error option" where
  "respondHostCall host s entry call reply =
     (case reply of
        Inl e \<Rightarrow> ([], Some e)
      | Inr responseFrame \<Rightarrow>
          if sb_closed s then ([], None)
          else (case responseFrame of
              Some frame \<Rightarrow> respondWasmHostCallFrame host call frame
            | None \<Rightarrow>
                if ae_finished (sb_entries s entry)
                then orThrown (exceptionFrame (cr_questionId call) (lit ''rpc call canceled'')
                    (case ae_outcome (sb_entries s entry) of
                       Some (OutResults response) \<Rightarrow> rs_releaseParamCaps response
                     | Some (OutException _ release) \<Rightarrow> release
                     | None \<Rightarrow> None) (Some True))
                  (respondWasmHostCallFrame host call)
                else ([], None)))"

text \<open>The listener of \<open>attachAnswerCancellation\<close>; the result is whether it sends a canceled Return.\<close>

definition answerFinished :: "'h RpcServerBridge \<Rightarrow> int \<Rightarrow> bool \<times> 'h RpcServerBridge" where
  "answerFinished s answerId =
     (case map_of (sb_answerTable s) answerId of
        None \<Rightarrow> (False, s)
      | Some entry \<Rightarrow>
          if ae_finished (sb_entries s entry) then (False, s)
          else (True, setEntry s entry (\<lambda>e. e\<lparr>ae_finished := True, ae_aborted := True\<rparr>)))"

section \<open>Answers\<close>

text \<open>The action that ends the question for the module.\<close>

fun terminal :: "int \<Rightarrow> host_action \<Rightarrow> bool" where
  "terminal q (RespondReturnFrame frame) = (\<exists>message. decodeReturnFrame frame = Inr message \<and> answerIdOf message = q)"
| "terminal q (RespondResults q' _) = (q' = q)"
| "terminal q (RespondException q' _) = (q' = q)"

lemma respond_terminal:
  assumes "decodeReturnFrame frame = Inr message" "answerIdOf message = cr_questionId call"
  shows "\<exists>actions e. respondWasmHostCallFrame host call frame = (actions, e) \<and> actions \<noteq> [] \<and>
    terminal (cr_questionId call) (last actions) \<and> (e = None \<longrightarrow> length actions = 1)"
  using assms by (cases message) (auto simp: respondWasmHostCallFrame_def Let_def split: option.splits)

end
