(* ===== verification/Server_Properties.thy ===== *)
theory Server_Properties
  imports Server_Path Server_Samples Server_Host
begin

text \<open>
  Properties of the server bridge: the path of a call from its frame to its Return, the
  accounting of capabilities and of retained input over every history of events, and what two gaps
  in the code lead to.
\<close>

section \<open>The path of a call\<close>

text \<open>C9: A call reaches its handler. A valid request for an exported capability whose dispatch accepts the
  interface, sent to a bridge that has room for the question, is taken into the answer table and
  started on the handler of that dispatch, with parameters that read the value the caller sent.\<close>

theorem call_reaches_handler:
  assumes "validRequest request v" "requestTarget request = ImportedCap (jint i)"
    and "map_of (sb_dispatchByCapability s) i = Some rd" "accepts (rd_dispatch rd) (cf_interfaceId request)"
    and "sb_middleware s = []"
    and "\<And>frame. encodeCallRequestFrame request = Inr frame \<Longrightarrow> admits s (toInt (cf_questionId request)) (int (length frame))"
  shows "\<exists>frame s' params r. encodeCallRequestFrame request = Inr frame \<and> handleFrame s frame = (Suspended, s') \<and>
    map_of (sb_answerTable s') (toInt (cf_questionId request)) = Some (sb_nextEntry s) \<and>
    map_of (sb_pending s') (sb_nextEntry s) =
      Some (AwaitHandler (decodedCall request params) i (sd_handler (rd_dispatch rd)) params None) \<and>
    newMessageReader params = Inr r \<and> reads r 0 0 v"
  using call_started [OF assms] by blast

theorem call_reaches_handler_witness:
  "\<exists>frame s' params r. encodeCallRequestFrame sampleRequest = Inr frame \<and>
    handleFrame (sampleBridge [] [] (\<lambda>_. newEntry 0)) frame = (Suspended, s') \<and>
    map_of (sb_answerTable s') 1 = Some 4 \<and>
    map_of (sb_pending s') 4 = Some (AwaitHandler (decodedCall sampleRequest params) 7 5 params None) \<and>
    newMessageReader params = Inr r \<and> reads r 0 0 NullV"
  using call_reaches_handler [OF sampleRequest_valid, of 7 "sampleBridge [] [] (\<lambda>_. newEntry 0)" sampleExport]
  by (simp add: sampleRequest_def requestTarget_def sampleBridge_def sampleExport_def sampleDispatch_def accepts_def admits_def)

text \<open>C10: A handler's response is delivered. When the handler of a call that is still in the answer table
  settles and no hook changes its response, the bridge replies with a Return for the question of the
  call that carries the table and flags of the response (param caps kept when it asked to retain them) and a
  content of the same value, and the answer holds every exported capability the table names.\<close>

theorem handler_answered:
  assumes "map_of (sb_pending s) entry = Some (AwaitHandler call i handler params target)"
    and "map_of (sb_answerTable s) (cr_questionId call) = Some entry" "\<not> ae_finished (sb_entries s entry)"
    and "sb_middleware s = []"
    and "0 \<le> cr_questionId call" "cr_questionId call < 2 ^ 32"
    and "contactsFit (orElse (rs_capTable response) [])" "length (capTableWords 0 (orElse (rs_capTable response) [])) < 2 ^ 26"
    and "contentFits (rs_content response) v"
  shows "\<exists>reply s' content r. bridgeStep s (HandlerSettled entry (Inr response) retain) = Some (Replied (Inr (Some reply)), s') \<and>
    decodeReturnFrame reply = Inr (ReturnResults (cr_questionId call) content
      (map decodedCap (orElse (rs_capTable response) []))
      \<lparr>fl_releaseParamCaps = orElse (rs_releaseParamCaps response) (\<not> retain), fl_noFinishNeeded = orElse (rs_noFinishNeeded response) False\<rparr>) \<and>
    newMessageReader content = Inr r \<and> reads r 0 0 v \<and>
    (\<forall>d j. d \<in> set (orElse (rs_capTable response) []) \<longrightarrow> cd_tag d = jint CAP_DESCRIPTOR_TAG_SENDER_HOSTED \<longrightarrow>
       cd_id d = jint j \<longrightarrow> map_of (sb_dispatchByCapability s) j \<noteq> None \<longrightarrow> j \<in> set (heldBy s' entry))"
  using handler_settled [OF assms] by blast

theorem handler_answered_witness:
  "\<exists>reply s' content r. bridgeStep (sampleBridge [(1, 0)] [(0, running)] (\<lambda>_. newEntry 0)) (HandlerSettled 0 (Inr sampleResponse) True) =
      Some (Replied (Inr (Some reply)), s') \<and>
    decodeReturnFrame reply = Inr (ReturnResults 1 content (map decodedCap (orElse (rs_capTable sampleResponse) []))
      \<lparr>fl_releaseParamCaps = False, fl_noFinishNeeded = True\<rparr>) \<and>
    newMessageReader content = Inr r \<and> reads r 0 0 NullV \<and> 7 \<in> set (heldBy s' 0)"
proof -
  let ?s = "sampleBridge [(1, 0)] [(0, running)] (\<lambda>_. newEntry 0)"
  have "map_of (sb_pending ?s) 0 = Some running" "map_of (sb_answerTable ?s) (cr_questionId sampleCall) = Some 0"
    "\<not> ae_finished (sb_entries ?s 0)" "sb_middleware ?s = []" "0 \<le> cr_questionId sampleCall" "cr_questionId sampleCall < 2 ^ 32"
    "map_of (sb_dispatchByCapability ?s) 7 \<noteq> None" "orElse (rs_releaseParamCaps sampleResponse) False = False"
    "orElse (rs_noFinishNeeded sampleResponse) False" "cr_questionId sampleCall = 1"
    by (simp_all add: sampleBridge_def sampleCall_def newEntry_def sampleResponse_def)
  with handler_answered [OF this(1-6) sampleResponse_fits, of True] show ?thesis
    by (fastforce simp: sampleResponse_def)
qed



section \<open>Promise pipelining\<close>

text \<open>C23: A call pipelined on an answer goes to the capability the answer holds. When the answer it waits
  for resolves with a table, the call (not cancelled meanwhile) starts on the handler of the
  capability its transform selects: the first entry for no transform, the indexed entry for one
  pointer field.\<close>

theorem pipelined_call_dispatched:
  assumes "map_of (sb_pending s) entry = Some (AwaitTarget call target)" "\<not> ae_aborted (sb_entries s entry)"
    and "ae_promise (sb_entries s target) = Some (OutResults response)"
    and "transformOf call = None \<and> n = 0 \<or>
      (\<exists>op. transformOf call = Some [op] \<and> isGetField op \<and> orElse (op_pointerIndex op) 0 = int n)"
    and "n < length (orElse (rs_capTable response) [])" "cd_id (orElse (rs_capTable response) [] ! n) = jint i"
    and "map_of (sb_dispatchByCapability s) i = Some rd" "accepts (rd_dispatch rd) (uint (cr_interfaceId call))"
    and "sb_middleware s = []"
  shows "\<exists>s'. bridgeStep s (TargetSettled entry) = Some (Suspended, s') \<and>
    map_of (sb_pending s') entry =
      Some (AwaitHandler call i (sd_handler (rd_dispatch rd)) (cr_paramsContent call) (Some target))"
proof -
  have "orElse (rs_capTable response) [] \<noteq> []" using assms(5) by auto
  then have "resolvePromisedAnswerCapability (OutResults response) (transformOf call) = Inr (jint i)"
    using assms(4-6) by (auto simp: Let_def)
  then show ?thesis using assms(1-3,7-9)
    by (simp add: targetResolved_def dispatchToCapability_def enterCapability_def capAt_def update_conv)
qed

theorem pipelined_call_dispatched_witness:
  "\<exists>s'. bridgeStep (sampleBridge [(1, 0)]
        [(1, AwaitTarget (sampleCall\<lparr>cr_target := PromisedAnswer \<lparr>pa_questionId = 1,
           pa_transform = Some [\<lparr>op_tag = 1, op_pointerIndex = None\<rparr>]\<rparr>\<rparr>) 0)]
        (\<lambda>_. (newEntry 0)\<lparr>ae_promise := Some (OutResults sampleResponse)\<rparr>)) (TargetSettled 1) = Some (Suspended, s') \<and>
    map_of (sb_pending s') 1 = Some (AwaitHandler (sampleCall\<lparr>cr_target := PromisedAnswer \<lparr>pa_questionId = 1,
           pa_transform = Some [\<lparr>op_tag = 1, op_pointerIndex = None\<rparr>]\<rparr>\<rparr>) 7 5 [] (Some 0))"
  using pipelined_call_dispatched [of "sampleBridge [(1, 0)]
        [(1, AwaitTarget (sampleCall\<lparr>cr_target := PromisedAnswer \<lparr>pa_questionId = 1,
           pa_transform = Some [\<lparr>op_tag = 1, op_pointerIndex = None\<rparr>]\<rparr>\<rparr>) 0)]
        (\<lambda>_. (newEntry 0)\<lparr>ae_promise := Some (OutResults sampleResponse)\<rparr>)" 1
      "sampleCall\<lparr>cr_target := PromisedAnswer \<lparr>pa_questionId = 1, pa_transform = Some [\<lparr>op_tag = 1, op_pointerIndex = None\<rparr>]\<rparr>\<rparr>" 0
      sampleResponse 0 7 sampleExport]
  by (simp add: sampleBridge_def sampleCall_def newEntry_def sampleResponse_def sampleExport_def sampleDispatch_def
      accepts_def transformOf_def isGetField_def)

section \<open>Accounting\<close>

text \<open>C5: In every history of events the hold count of an exported capability is the number of times the
  answers hold it. So a capability an answer holds stays registered, with its dispatch, until the
  answer lets go of it, whatever the peer releases meanwhile.\<close>

theorem holds_exact:
  assumes "bridgeReachable options s" "\<not> sb_closed s"
  shows "(\<forall>i rd. map_of (sb_dispatchByCapability s) i = Some rd \<longrightarrow>
      0 \<le> rd_refCount rd \<and> rd_answerHoldCount rd = (\<Sum>entry\<in>{..<sb_nextEntry s}. int (count_list (heldBy s entry) i))) \<and>
    (\<forall>entry i. entry < sb_nextEntry s \<longrightarrow> i \<in> set (heldBy s entry) \<longrightarrow> map_of (sb_dispatchByCapability s) i \<noteq> None)"
proof -
  have ok: "registryOk (sb_dispatchByCapability s)"
      "\<And>i. holdOf (sb_dispatchByCapability s) i = heldCount (heldBy s) (sb_nextEntry s) i"
    using reachable_ok [OF assms(1)] assms(2) by (auto simp: bridgeOk_def capView_split)
  have "map_of (sb_dispatchByCapability s) i \<noteq> None" if "entry < sb_nextEntry s" "i \<in> set (heldBy s entry)" for entry i
  proof -
    have "0 < count_list (heldBy s entry) i" using that(2) count_list_0_iff [of "heldBy s entry" i] by auto
    then have "0 < holdOf (sb_dispatchByCapability s) i"
      using heldCount_ge [OF that(1), of "heldBy s" i] ok(2) [of i] by linarith
    then show ?thesis by (cases "map_of (sb_dispatchByCapability s) i") (simp_all add: holdOf_def)
  qed
  then show ?thesis using ok registryOk_refs [OF ok(1)] holdOf_at by (fastforce simp: heldCount_def)
qed

theorem holds_exact_witness:
  "\<exists>s :: nat RpcServerBridge. bridgeReachable sampleOptions s \<and> heldBy s 0 = [7] \<and> map_of (sb_dispatchByCapability s) 7 \<noteq> None"
proof -
  obtain s :: "nat RpcServerBridge" where s: "bridgeReachable sampleOptions s" "\<not> sb_closed s" "sb_nextEntry s = 2" "heldBy s 0 = [7]"
    using sampleHistory by blast
  then have "map_of (sb_dispatchByCapability s) 7 \<noteq> None"
    using holds_exact [OF s(1,2), THEN conjunct2, rule_format, of 0 7] by simp
  then show ?thesis using s by blast
qed

text \<open>C26: Every history keeps the limits of the bridge: the answer table within its size, the retained input
  within the byte budget, and the retained bytes are exactly those of the calls in flight, so none
  are left when no call is.\<close>

theorem bridge_within_limits:
  assumes "bridgeReachable options s"
  shows "(sb_maxAnswerTableSize s > 0 \<longrightarrow> int (length (sb_answerTable s)) \<le> sb_maxAnswerTableSize s) \<and>
    (\<forall>limit. sb_maxRetainedInputFrameBytes s = Some limit \<longrightarrow> sb_retainedInputFrameBytes s \<le> limit) \<and>
    sb_retainedInputFrameBytes s = (\<Sum>entry \<in> dom (map_of (sb_pending s)). ae_inputFrameBytes (sb_entries s entry))"
  using reachable_load [OF assms] unfolding loadOk_def sizeOk_def bytesOk_def withinBudget_def inputOf_def by blast

theorem bridge_within_limits_witness:
  "\<exists>s :: nat RpcServerBridge. bridgeReachable sampleOptions s \<and> sb_retainedInputFrameBytes s = 136 \<and>
    (\<Sum>entry \<in> dom (map_of (sb_pending s)). ae_inputFrameBytes (sb_entries s entry)) = 136"
proof -
  obtain s :: "nat RpcServerBridge" where "bridgeReachable sampleOptions s" "sb_retainedInputFrameBytes s = 136"
    using sampleHistory by blast
  then show ?thesis using bridge_within_limits [of sampleOptions s] by auto
qed

text \<open>C25: Eviction does not cut pipelined calls off. In every history the pipeline count of an answer is the
  number of calls that wait for it or run on a capability of it, and while there is one, an eviction
  timer leaves the answer and the registry as they are, unless its retries are used up.\<close>

theorem eviction_waits_for_pipelines:
  assumes "bridgeReachable options s"
  shows "(\<forall>entry. ae_pipelineRefCount (sb_entries s entry) =
      int (card {x. \<exists>stage. map_of (sb_pending s) x = Some stage \<and> stageTarget stage = Some entry})) \<and>
    (\<forall>timer q entry x stage. map_of (sb_timers s) timer = Some (q, entry) \<longrightarrow>
      map_of (sb_pending s) x = Some stage \<longrightarrow> stageTarget stage = Some entry \<longrightarrow>
      (sb_maxEvictionRetries s > 0 \<longrightarrow> ae_evictionAttempts (sb_entries s entry) < sb_maxEvictionRetries s) \<longrightarrow>
      (\<exists>s'. bridgeStep s (EvictionTimer timer) = Some (Suspended, s') \<and>
        sb_answerTable s' = sb_answerTable s \<and> sb_dispatchByCapability s' = sb_dispatchByCapability s))"
proof (intro conjI allI impI)
  have count: "ae_pipelineRefCount (sb_entries s entry) = int (card (inFlight (sb_pending s) entry))" for entry
    using reachable_load [OF assms] by (simp add: loadOk_def pipelinesOk_def pipelineOf_def)
  show "ae_pipelineRefCount (sb_entries s entry) =
      int (card {x. \<exists>stage. map_of (sb_pending s) x = Some stage \<and> stageTarget stage = Some entry})" for entry
    by (simp add: count inFlight_def)
  fix timer q entry x stage
  assume a: "map_of (sb_timers s) timer = Some (q, entry)" "map_of (sb_pending s) x = Some stage" "stageTarget stage = Some entry"
    "sb_maxEvictionRetries s > 0 \<longrightarrow> ae_evictionAttempts (sb_entries s entry) < sb_maxEvictionRetries s"
  then have "x \<in> inFlight (sb_pending s) entry" by (auto simp: inFlight_def)
  then have "0 < ae_pipelineRefCount (sb_entries s entry)"
    using finite_inFlight [of "sb_pending s" entry] by (auto simp: count card_gt_0_iff)
  then show "\<exists>s'. bridgeStep s (EvictionTimer timer) = Some (Suspended, s') \<and>
        sb_answerTable s' = sb_answerTable s \<and> sb_dispatchByCapability s' = sb_dispatchByCapability s"
    using a(1,4) by (auto simp: evictionTimer_def scheduleEviction_def setEntry_def Let_def)
qed

theorem eviction_waits_for_pipelines_witness:
  "\<exists>(s :: nat RpcServerBridge) s'. bridgeReachable sampleOptions s \<and> bridgeStep s (EvictionTimer 0) = Some (Suspended, s') \<and>
    sb_answerTable s' = [(1, 0), (2, 1)]"
proof -
  obtain s :: "nat RpcServerBridge" where s: "bridgeReachable sampleOptions s" "map_of (sb_timers s) 0 = Some (1, 0)"
      "sb_maxEvictionRetries s = 10" "ae_evictionAttempts (sb_entries s 0) = 0" "sb_answerTable s = [(1, 0), (2, 1)]"
      "map_of (map (\<lambda>(x, stage). (x, stageTarget stage)) (sb_pending s)) = [1 \<mapsto> Some 0]"
    using sampleHistory by blast
  from s(6) obtain stage where "map_of (sb_pending s) 1 = Some stage" "stageTarget stage = Some 0"
    by (auto simp: map_of_map dest!: fun_cong [of _ _ "1 :: nat"])
  then show ?thesis using eviction_waits_for_pipelines [OF s(1), THEN conjunct2, rule_format, of 0 1 0 1 stage] s by auto
qed

section \<open>Two gaps\<close>

text \<open>C37: A failing bootstrap drops another answer. When \<open>onBootstrap\<close> throws after the peer has finished the
  bootstrap question and used its id for a call, the code deletes the answer of that id without
  checking that it is its own: the call stays without a Return although its handler succeeds.\<close>

theorem bootstrap_failure_drops_call:
  assumes "map_of (sb_pending s) boot = Some (AwaitBootstrap q)"
    and "map_of (sb_pending s) entry = Some (AwaitHandler call i handler params target)"
    and "cr_questionId call = q" "map_of (sb_answerTable s) q = Some entry"
  shows "\<exists>s1 e s2. bridgeStep s (BootstrapSettled boot (Inl reason)) = Some (Replied (Inl e), s1) \<and>
    map_of (sb_answerTable s1) q = None \<and>
    bridgeStep s1 (HandlerSettled entry result retain) = Some (Replied (Inr None), s2)"
proof -
  have "boot \<noteq> entry" using assms(1,2) by auto
  then show ?thesis using assms
    by (auto simp: bootstrapSettled_def bootstrapFailure_def completeCall_def delete_conv' Let_def setEntry_def dropped_parts)
qed

theorem bootstrap_failure_drops_call_witness:
  "\<exists>s1 e s2. bridgeStep (sampleBridge [(1, 1)] [(0, AwaitBootstrap 1), (1, running)] (\<lambda>_. newEntry 0))
      (BootstrapSettled 0 (Inl [])) = Some (Replied (Inl e), s1) \<and> map_of (sb_answerTable s1) 1 = None \<and>
    bridgeStep s1 (HandlerSettled 1 (Inr sampleResponse) False) = Some (Replied (Inr None), s2)"
  using bootstrap_failure_drops_call [of "sampleBridge [(1, 1)] [(0, AwaitBootstrap 1), (1, running)] (\<lambda>_. newEntry 0)"
      0 1 1 sampleCall 7 5 "[]" None "[]"]
  by (simp add: sampleBridge_def sampleCall_def)

text \<open>A Return that says no Finish is needed leaves its answer behind. The client does not send a Finish for
  it, but the answer, with the capabilities it holds, stays in the table, and without an eviction
  timeout nothing is left that removes it: each such call takes one of the table's places for good.\<close>

theorem no_finish_needed_leaks:
  assumes "map_of (sb_pending s) entry = Some (AwaitHandler call i handler params target)"
    and "map_of (sb_answerTable s) (cr_questionId call) = Some entry" "\<not> ae_finished (sb_entries s entry)"
    and "sb_middleware s = []" "sb_answerEvictionTimeoutMs s \<le> 0" "rs_noFinishNeeded response = Some True"
    and "0 \<le> cr_questionId call" "cr_questionId call < 2 ^ 32"
    and "contactsFit (orElse (rs_capTable response) [])" "length (capTableWords 0 (orElse (rs_capTable response) [])) < 2 ^ 26"
    and "contentFits (rs_content response) v"
  shows "\<exists>reply s' content caps flags. bridgeStep s (HandlerSettled entry (Inr response) retain) = Some (Replied (Inr (Some reply)), s') \<and>
    decodeReturnFrame reply = Inr (ReturnResults (cr_questionId call) content caps flags) \<and> fl_noFinishNeeded flags \<and>
    map_of (sb_answerTable s') (cr_questionId call) = Some entry \<and> entry \<notin> fst ` set (sb_pending s') \<and>
    sb_timers s' = sb_timers s"
proof -
  obtain reply s' content r where "bridgeStep s (HandlerSettled entry (Inr response) retain) = Some (Replied (Inr (Some reply)), s')"
    and dec: "decodeReturnFrame reply = Inr (ReturnResults (cr_questionId call) content (map decodedCap (orElse (rs_capTable response) []))
      \<lparr>fl_releaseParamCaps = orElse (rs_releaseParamCaps response) (\<not> retain), fl_noFinishNeeded = orElse (rs_noFinishNeeded response) False\<rparr>)"
    and "sb_answerTable s' = sb_answerTable s" "sb_pending s' = AList.delete entry (sb_pending s)" "sb_timers s' = sb_timers s"
    using handler_settled [OF assms(1-4,7-11), of retain] assms(5) by blast
  then show ?thesis using assms(2,6) by (simp add: keys_delete)
qed

theorem no_finish_needed_leaks_witness:
  "\<exists>reply s' content caps flags. bridgeStep (sampleBridge [(1, 0)] [(0, running)] (\<lambda>_. newEntry 0))
      (HandlerSettled 0 (Inr sampleResponse) False) = Some (Replied (Inr (Some reply)), s') \<and>
    decodeReturnFrame reply = Inr (ReturnResults (cr_questionId sampleCall) content caps flags) \<and> fl_noFinishNeeded flags \<and>
    map_of (sb_answerTable s') (cr_questionId sampleCall) = Some 0 \<and> 0 \<notin> fst ` set (sb_pending s') \<and>
    sb_timers s' = sb_timers (sampleBridge [(1, 0)] [(0, running)] (\<lambda>_. newEntry 0))"
  by (rule no_finish_needed_leaks [OF _ _ _ _ _ _ _ _ sampleResponse_fits])
    (simp_all add: sampleBridge_def sampleCall_def newEntry_def sampleResponse_def)

end
