(* ===== verification/Js_Value.thy ===== *)
theory Js_Value
  imports Js_Text
begin

text \<open>
  The JavaScript values that the struct codec of \<open>src/encoding\<close> takes as \<open>unknown\<close>, with the
  coercions of \<open>runtime_model.ts\<close> that read them and the two binary formats of a \<open>DataView\<close>.
  An object is the list of its own properties in insertion order; arrays and byte arrays have no
  named properties here, and nothing is looked up in a prototype. A float is a \<open>number\<close>: the sign
  of zero and the payload of NaN are not kept.
\<close>

section \<open>Values\<close>

datatype js_value =
    JUndefined
  | JNull
  | JBool bool
  | JNumber number
  | JBigInt int
  | JString js_string
  | JBytes bytes
  | JArray "js_value list"
  | JObject "(js_string \<times> js_value) list"

type_synonym js_record = "(js_string \<times> js_value) list"

text \<open>\<open>record[name]\<close> and \<open>record[name] = v\<close>.\<close>

definition getProp :: "js_record \<Rightarrow> js_string \<Rightarrow> js_value" where
  "getProp props name = (case map_of props name of None \<Rightarrow> JUndefined | Some v \<Rightarrow> v)"

fun setProp :: "js_record \<Rightarrow> js_string \<Rightarrow> js_value \<Rightarrow> js_record" where
  "setProp [] name v = [(name, v)]"
| "setProp ((n, u) # props) name v =
     (if n = name then (n, v) # props else (n, u) # setProp props name v)"

lemma map_of_setProp: "map_of (setProp props name v) = (map_of props)(name \<mapsto> v)"
  by (induction props name v rule: setProp.induct) auto

lemma getProp_setProp:
  "getProp (setProp props name v) n = (if n = name then v else getProp props n)"
  by (simp add: getProp_def map_of_setProp)

lemma map_of_size: "map_of props name = Some v \<Longrightarrow> size v < size_list (size_prod (\<lambda>_. 0) size) props"
proof (induction props)
  case (Cons p props)
  then show ?case by (cases p) (auto split: if_splits)
qed simp

lemma getProp_size: "getProp props name \<noteq> JUndefined \<Longrightarrow>
    size (getProp props name) < size_list (size_prod (\<lambda>_. 0) size) props"
  by (auto simp: getProp_def map_of_size split: option.splits)

section \<open>Conversions of numbers and strings\<close>

text \<open>\<open>Math.trunc\<close>.\<close>

fun truncNum :: "number \<Rightarrow> int" where
  "truncNum (Num q) = (if q < 0 then - \<lfloor>- q\<rfloor> else \<lfloor>q\<rfloor>)"
| "truncNum _ = 0"

lemma truncNum_jint [simp]: "truncNum (jint i) = i"
  by (simp add: jint_def flip: of_int_minus)

text \<open>The white space and line ends that \<open>BigInt(string)\<close> trims.\<close>

definition isSpace :: "nat \<Rightarrow> bool" where
  "isSpace u \<longleftrightarrow> u \<in> {9, 10, 11, 12, 13, 0x20, 0xA0, 0x1680, 0x2028, 0x2029, 0x202F, 0x205F, 0x3000, 0xFEFF}
     \<or> 0x2000 \<le> u \<and> u \<le> 0x200A"

definition trim :: "js_string \<Rightarrow> js_string" where
  "trim s = rev (dropWhile isSpace (rev (dropWhile isSpace s)))"

definition digitOf :: "nat \<Rightarrow> nat option" where
  "digitOf u = (if 48 \<le> u \<and> u \<le> 57 then Some (u - 48)
     else if 97 \<le> u \<and> u \<le> 102 then Some (u - 87)
     else if 65 \<le> u \<and> u \<le> 70 then Some (u - 55) else None)"

fun readDigits :: "nat \<Rightarrow> nat \<Rightarrow> js_string \<Rightarrow> nat option" where
  "readDigits radix acc [] = Some acc"
| "readDigits radix acc (u # s) =
     (case digitOf u of
        Some d \<Rightarrow> if d < radix then readDigits radix (acc * radix + d) s else None
      | None \<Rightarrow> None)"

definition readNatural :: "nat \<Rightarrow> js_string \<Rightarrow> int option" where
  "readNatural radix s = (if s = [] then None else map_option int (readDigits radix 0 s))"

text \<open>\<open>BigInt(string)\<close>; \<open>None\<close> is its \<open>SyntaxError\<close>.\<close>

definition stringToBigInt :: "js_string \<Rightarrow> int option" where
  "stringToBigInt str =
     (case trim str of
        [] \<Rightarrow> Some 0
      | s \<Rightarrow>
          if hd s = 48 \<and> tl s \<noteq> [] \<and> hd (tl s) \<in> {120, 88} then readNatural 16 (drop 2 s)
          else if hd s = 48 \<and> tl s \<noteq> [] \<and> hd (tl s) \<in> {111, 79} then readNatural 8 (drop 2 s)
          else if hd s = 48 \<and> tl s \<noteq> [] \<and> hd (tl s) \<in> {98, 66} then readNatural 2 (drop 2 s)
          else if hd s = 43 then readNatural 10 (tl s)
          else if hd s = 45 then map_option uminus (readNatural 10 (tl s))
          else readNatural 10 s)"

section \<open>Coercions\<close>

fun asRecord :: "js_value \<Rightarrow> js_record" where
  "asRecord (JObject props) = props"
| "asRecord _ = []"

fun asBoolean :: "js_value \<Rightarrow> bool" where
  "asBoolean (JBool b) = b"
| "asBoolean _ = False"

fun asNumber :: "js_value \<Rightarrow> number" where
  "asNumber (JNumber x) = (if isFinite x then x else jint 0)"
| "asNumber _ = jint 0"

fun asBigInt :: "js_value \<Rightarrow> int" where
  "asBigInt (JBigInt i) = i"
| "asBigInt (JNumber x) = (if isFinite x then truncNum x else 0)"
| "asBigInt (JString s) = (if s = [] then 0 else case stringToBigInt s of Some i \<Rightarrow> i | None \<Rightarrow> 0)"
| "asBigInt _ = 0"

fun asString :: "js_value \<Rightarrow> js_string" where
  "asString (JString s) = s"
| "asString _ = []"

fun asUint8Array :: "js_value \<Rightarrow> bytes" where
  "asUint8Array (JBytes bs) = bs"
| "asUint8Array _ = []"

fun asArray :: "js_value \<Rightarrow> js_value list" where
  "asArray (JArray vs) = vs"
| "asArray _ = []"

lemma asRecord_size: "size_list (size_prod (\<lambda>_. 0) size) (asRecord v) \<le> size v"
  by (cases v) auto

lemma asArray_size: "size_list size (asArray v) \<le> size v"
  by (cases v) auto

section \<open>Floats\<close>

definition ratPow2 :: "int \<Rightarrow> rat" where
  "ratPow2 e = (if 0 \<le> e then 2 ^ nat e else 1 / 2 ^ nat (- e))"

function bitLength :: "int \<Rightarrow> int" where
  "bitLength n = (if n \<le> 0 then 0 else 1 + bitLength (n div 2))"
  by pat_completeness auto
termination
  by (relation "measure nat") auto

declare bitLength.simps [simp del]

text \<open>The exponent of a positive rational: \<open>2 ^ ratLog2 a \<le> a < 2 ^ (ratLog2 a + 1)\<close>.\<close>

definition ratLog2 :: "rat \<Rightarrow> int" where
  "ratLog2 a = (case quotient_of a of (p, q) \<Rightarrow>
     let e = bitLength p - bitLength q
     in if ratPow2 e \<le> a then e else e - 1)"

definition roundEven :: "rat \<Rightarrow> int" where
  "roundEven q = (let f = \<lfloor>q\<rfloor>; d = q - of_int f
     in if d < 1 / 2 then f else if d > 1 / 2 then f + 1 else if even f then f else f + 1)"

text \<open>
  The bits of a number in a format of \<open>eb\<close> exponent bits and \<open>mb\<close> fraction bits, rounded to the
  nearest value and to even at a tie, and the number some bits stand for. Subnormal magnitudes use
  the smallest exponent, so that \<open>(e - emin) * 2 ^ mb + m\<close> are the bits in both ranges and a
  fraction rounded up carries into the exponent.
\<close>

definition magnitudeBits :: "nat \<Rightarrow> nat \<Rightarrow> rat \<Rightarrow> int" where
  "magnitudeBits eb mb a =
     (if a = 0 then 0
      else let emin = 2 - 2 ^ (eb - 1); e = max emin (ratLog2 a);
               bits = (e - emin) * 2 ^ mb + roundEven (a / ratPow2 (e - int mb))
           in min bits ((2 ^ eb - 1) * 2 ^ mb))"

fun floatBits :: "nat \<Rightarrow> nat \<Rightarrow> number \<Rightarrow> int" where
  "floatBits eb mb NaN = (2 ^ eb - 1) * 2 ^ mb + 2 ^ (mb - 1)"
| "floatBits eb mb Infinity = (2 ^ eb - 1) * 2 ^ mb"
| "floatBits eb mb NegInfinity = 2 ^ (eb + mb) + (2 ^ eb - 1) * 2 ^ mb"
| "floatBits eb mb (Num q) = (if q < 0 then 2 ^ (eb + mb) else 0) + magnitudeBits eb mb \<bar>q\<bar>"

definition bitsFloat :: "nat \<Rightarrow> nat \<Rightarrow> int \<Rightarrow> number" where
  "bitsFloat eb mb bits =
     (let negative = bits div 2 ^ (eb + mb) mod 2 = 1;
          x = bits div 2 ^ mb mod 2 ^ eb; frac = bits mod 2 ^ mb; emin = 2 - 2 ^ (eb - 1)
      in if x = 2 ^ eb - 1 then if frac \<noteq> 0 then NaN else if negative then NegInfinity else Infinity
         else let a = (if x = 0 then of_int frac * ratPow2 (emin - int mb)
                       else of_int (2 ^ mb + frac) * ratPow2 (x - 1 + emin - int mb))
              in Num (if negative then - a else a))"

definition getFloat32 :: "bytes \<Rightarrow> int \<Rightarrow> number result" where
  "getFloat32 bs off = bindE (getUint32 bs off) (\<lambda>bits. Inr (bitsFloat 8 23 bits))"

definition getFloat64 :: "bytes \<Rightarrow> int \<Rightarrow> number result" where
  "getFloat64 bs off = bindE (getBigUint64 bs off) (\<lambda>w. Inr (bitsFloat 11 52 (uint w)))"

definition setFloat32 :: "bytes \<Rightarrow> int \<Rightarrow> number \<Rightarrow> bytes result" where
  "setFloat32 bs off x = setUint32 bs off (floatBits 8 23 x)"

definition setFloat64 :: "bytes \<Rightarrow> int \<Rightarrow> number \<Rightarrow> bytes result" where
  "setFloat64 bs off x = setBigUint64 bs off (word_of_int (floatBits 11 52 x))"

end
