(* ===== verification/Codec_Types.thy ===== *)
theory Codec_Types
  imports Js_Value Runtime_Message
begin

unbundle bit_operations_syntax

text \<open>
  The descriptors of \<open>src/encoding/runtime_model.ts\<close>: what a generated module says about the
  layout of a struct, the helpers that read it, and the values of capability and any-pointer
  fields. The closure \<open>get\<close> of a struct type is a number here, and a schema maps the numbers
  to the descriptors the closures return, so recursive types are numbers that occur in their own
  descriptor. The float accessors of \<open>runtime_message.ts\<close> are at the end.
\<close>

section \<open>Descriptors\<close>

datatype TypeDescriptor =
    TVoid | TBool
  | TInt8 | TInt16 | TInt32 | TInt64
  | TUint8 | TUint16 | TUint32 | TUint64
  | TFloat32 | TFloat64
  | TEnum "js_string list" "(js_string \<times> int) list"
  | TStruct nat
  | TList TypeDescriptor
  | TText | TData | TInterface | TAnyPointer

datatype FieldDescriptor =
    Slot (fd_name: js_string) (fd_offset: int) (fd_type: TypeDescriptor)
      (fd_defaultMask: "int option") (fd_discriminantValue: "int option")
  | Group (fd_name: js_string) (fd_group: nat) (fd_discriminantValue: "int option")

record StructUnionDescriptor =
  un_discriminantOffset :: int
  un_defaultDiscriminant :: int
  un_byName :: "(js_string \<times> int) list"
  un_byDiscriminant :: "(int \<times> js_string) list"

record StructDescriptor =
  ds_name :: js_string
  ds_dataWordCount :: int
  ds_pointerCount :: int
  ds_fields :: "FieldDescriptor list"
  ds_createDefault :: js_record
  ds_union :: "StructUnionDescriptor option"

type_synonym schema = "nat \<Rightarrow> StructDescriptor"

section \<open>Sizes\<close>

fun isDataType :: "TypeDescriptor \<Rightarrow> bool" where
  "isDataType (TStruct n) = False"
| "isDataType (TList t) = False"
| "isDataType TText = False"
| "isDataType TData = False"
| "isDataType TInterface = False"
| "isDataType TAnyPointer = False"
| "isDataType _ = True"

definition isPointerType :: "TypeDescriptor \<Rightarrow> bool" where
  "isPointerType type = (\<not> isDataType type)"

fun dataByteOffset :: "TypeDescriptor \<Rightarrow> int \<Rightarrow> int" where
  "dataByteOffset TInt8 offs = offs"
| "dataByteOffset TUint8 offs = offs"
| "dataByteOffset TInt16 offs = offs * 2"
| "dataByteOffset TUint16 offs = offs * 2"
| "dataByteOffset (TEnum byOrdinal toOrdinal) offs = offs * 2"
| "dataByteOffset TInt32 offs = offs * 4"
| "dataByteOffset TUint32 offs = offs * 4"
| "dataByteOffset TFloat32 offs = offs * 4"
| "dataByteOffset TInt64 offs = offs * 8"
| "dataByteOffset TUint64 offs = offs * 8"
| "dataByteOffset TFloat64 offs = offs * 8"
| "dataByteOffset _ offs = offs"

text \<open>\<open>listElementSize\<close> of a type; the wire decoders have a function of that name on pointer words.\<close>

fun typeElementSize :: "TypeDescriptor \<Rightarrow> int" where
  "typeElementSize TVoid = 0"
| "typeElementSize TBool = 1"
| "typeElementSize TInt8 = 2"
| "typeElementSize TUint8 = 2"
| "typeElementSize TInt16 = 3"
| "typeElementSize TUint16 = 3"
| "typeElementSize (TEnum byOrdinal toOrdinal) = 3"
| "typeElementSize TInt32 = 4"
| "typeElementSize TUint32 = 4"
| "typeElementSize TFloat32 = 4"
| "typeElementSize TInt64 = 5"
| "typeElementSize TUint64 = 5"
| "typeElementSize TFloat64 = 5"
| "typeElementSize (TStruct n) = 7"
| "typeElementSize _ = 6"

section \<open>Capabilities and any-pointers\<close>

datatype AnyPointerValue =
    ApNull
  | ApInterface int
  | ApMessage bytes

fun isIndex :: "js_value \<Rightarrow> bool" where
  "isIndex (JNumber x) = (isInteger x \<and> 0 \<le> toInt x)"
| "isIndex _ = False"

fun indexOf :: "js_value \<Rightarrow> int" where
  "indexOf (JNumber x) = toInt x"
| "indexOf _ = 0"

definition capabilityIndexFrom :: "js_value \<Rightarrow> int option result" where
  "capabilityIndexFrom value =
     (if value = JNull \<or> value = JUndefined then Inr None
      else if isIndex value then Inr (Some (indexOf value))
      else let index = getProp (asRecord value) (lit ''capabilityIndex'')
           in if isIndex index then Inr (Some (indexOf index))
              else Inl (PlainError ''invalid capability pointer value'' []))"

definition indexPointer :: "js_value \<Rightarrow> AnyPointerValue result" where
  "indexPointer value =
     bindE (capabilityIndexFrom value) (\<lambda>index.
       Inr (case index of None \<Rightarrow> ApNull | Some i \<Rightarrow> ApInterface i))"

definition asAnyPointerValue :: "js_value \<Rightarrow> AnyPointerValue result" where
  "asAnyPointerValue value =
     (case value of
        JUndefined \<Rightarrow> Inr ApNull
      | JNull \<Rightarrow> Inr ApNull
      | JBytes message \<Rightarrow> Inr (ApMessage message)
      | _ \<Rightarrow>
          let props = asRecord value; kind = getProp props (lit ''kind'')
          in if kind = JString (lit ''null'') then Inr ApNull
             else if kind = JString (lit ''interface'') then indexPointer (getProp props (lit ''capabilityIndex''))
             else if kind = JString (lit ''message'')
             then (case getProp props (lit ''message'') of
                     JBytes message \<Rightarrow> Inr (ApMessage message)
                   | _ \<Rightarrow> Inl (PlainError ''invalid anyPointer message payload'' []))
             else indexPointer value)"

definition encodeCapabilityPointerWord :: "int \<Rightarrow> 64 word result" where
  "encodeCapabilityPointerWord capabilityIndex =
     (if capabilityIndex < 0
      then Inl (PlainError ''capabilityIndex must be a non-negative integer'' [])
      else if capabilityIndex > 0xffffffff
      then Inl (PlainError ''capabilityIndex is out of 32-bit range'' [])
      else Inr (3 OR push_bit 32 (word_of_int capabilityIndex)))"

definition decodeCapabilityPointerWord :: "64 word \<Rightarrow> int result" where
  "decodeCapabilityPointerWord word =
     (if pointerKind word \<noteq> 3 then Inl (PlainError ''expected capability pointer kind=3'' [])
      else Inr (uint (drop_bit 32 word AND 0xffffffff)))"

text \<open>The objects the decoders return: \<open>{ capabilityIndex }\<close> and the any-pointer values.\<close>

definition capabilityValue :: "int \<Rightarrow> js_value" where
  "capabilityValue i = JObject [(lit ''capabilityIndex'', JNumber (jint i))]"

fun anyPointerObject :: "AnyPointerValue \<Rightarrow> js_value" where
  "anyPointerObject ApNull = JObject [(lit ''kind'', JString (lit ''null''))]"
| "anyPointerObject (ApInterface i) =
     JObject [(lit ''kind'', JString (lit ''interface'')), (lit ''capabilityIndex'', JNumber (jint i))]"
| "anyPointerObject (ApMessage message) =
     JObject [(lit ''kind'', JString (lit ''message'')), (lit ''message'', JBytes message)]"

lemma capabilityIndexFrom_nonneg: "capabilityIndexFrom v = Inr (Some i) \<Longrightarrow> 0 \<le> i"
proof -
  have "0 \<le> indexOf x" if "isIndex x" for x using that by (cases x) auto
  then show "capabilityIndexFrom v = Inr (Some i) \<Longrightarrow> 0 \<le> i"
    by (auto simp: capabilityIndexFrom_def Let_def split: if_splits)
qed

lemma asAnyPointerValue_nonneg: "asAnyPointerValue v = Inr (ApInterface i) \<Longrightarrow> 0 \<le> i"
  using capabilityIndexFrom_nonneg
  by (auto simp: asAnyPointerValue_def indexPointer_def bindE_eq_Inr Let_def
      split: js_value.splits if_splits option.splits)

section \<open>Defaults, enums and unions\<close>

definition enumOrdinal :: "(js_string \<times> int) list \<Rightarrow> js_value \<Rightarrow> int" where
  "enumOrdinal toOrdinal value =
     (case value of
        JString s \<Rightarrow> (case map_of toOrdinal s of Some ordinal \<Rightarrow> ordinal | None \<Rightarrow> 0)
      | _ \<Rightarrow> 0)"

definition enumValue :: "js_string list \<Rightarrow> int \<Rightarrow> js_string" where
  "enumValue byOrdinal ordinal =
     (if 0 \<le> ordinal \<and> ordinal < int (length byOrdinal) then byOrdinal ! nat ordinal
      else case byOrdinal of [] \<Rightarrow> [] | s # _ \<Rightarrow> s)"

fun defaultValueForType :: "schema \<Rightarrow> TypeDescriptor \<Rightarrow> js_value" where
  "defaultValueForType env TVoid = JUndefined"
| "defaultValueForType env TBool = JBool False"
| "defaultValueForType env TInt64 = JBigInt 0"
| "defaultValueForType env TUint64 = JBigInt 0"
| "defaultValueForType env (TEnum byOrdinal toOrdinal) =
     (case byOrdinal of [] \<Rightarrow> JUndefined | s # _ \<Rightarrow> JString s)"
| "defaultValueForType env TText = JString []"
| "defaultValueForType env TData = JBytes []"
| "defaultValueForType env (TList t) = JArray []"
| "defaultValueForType env (TStruct n) = JObject (ds_createDefault (env n))"
| "defaultValueForType env TInterface = JNull"
| "defaultValueForType env TAnyPointer = anyPointerObject ApNull"
| "defaultValueForType env _ = JNumber (jint 0)"

definition isPresentField :: "js_record \<Rightarrow> js_string \<Rightarrow> bool" where
  "isPresentField props name = (getProp props name \<noteq> JUndefined)"

text \<open>The loop of \<open>resolveActiveDiscriminant\<close> over the fields.\<close>

fun presentDiscriminant :: "js_record \<Rightarrow> FieldDescriptor list \<Rightarrow> int option" where
  "presentDiscriminant props [] = None"
| "presentDiscriminant props (f # fs) =
     (case fd_discriminantValue f of
        None \<Rightarrow> presentDiscriminant props fs
      | Some d \<Rightarrow> if isPresentField props (fd_name f) then Some d else presentDiscriminant props fs)"

definition namedDiscriminant :: "StructUnionDescriptor \<Rightarrow> js_record \<Rightarrow> int option" where
  "namedDiscriminant un props =
     (case getProp props (lit ''which'') of
        JString which \<Rightarrow> map_of (un_byName un) which
      | _ \<Rightarrow> None)"

definition resolveActiveDiscriminant :: "StructDescriptor \<Rightarrow> js_record \<Rightarrow> int option" where
  "resolveActiveDiscriminant desc props =
     (case ds_union desc of
        None \<Rightarrow> None
      | Some un \<Rightarrow>
          (case namedDiscriminant un props of
             Some d \<Rightarrow> Some d
           | None \<Rightarrow>
               (case presentDiscriminant props (ds_fields desc) of
                  Some d \<Rightarrow> Some d
                | None \<Rightarrow> Some (un_defaultDiscriminant un))))"

text \<open>The condition on which the loops over the fields skip one.\<close>

definition inactive :: "int option \<Rightarrow> FieldDescriptor \<Rightarrow> bool" where
  "inactive activeDiscriminant f =
     (case (fd_discriminantValue f, activeDiscriminant) of
        (Some d, Some a) \<Rightarrow> d \<noteq> a
      | _ \<Rightarrow> False)"

section \<open>Float accessors\<close>

definition mbWriteFloat32 :: "MessageBuilder \<Rightarrow> int \<Rightarrow> number \<Rightarrow> MessageBuilder result" where
  "mbWriteFloat32 b off v = mbWriteScalar setFloat32 4 ''writeFloat32'' b off v"

definition mbWriteFloat64 :: "MessageBuilder \<Rightarrow> int \<Rightarrow> number \<Rightarrow> MessageBuilder result" where
  "mbWriteFloat64 b off v = mbWriteScalar setFloat64 8 ''writeFloat64'' b off v"

definition readFloat32At where "readFloat32At = readScalarAt getFloat32 4"
definition readFloat64At where "readFloat64At = readScalarAt getFloat64 8"
definition readFloat32InStruct where "readFloat32InStruct = inStruct readFloat32At ''readFloat32InStruct''"
definition readFloat64InStruct where "readFloat64InStruct = inStruct readFloat64At ''readFloat64InStruct''"

definition readResolvedPointerWord :: "MessageReader \<Rightarrow> int \<Rightarrow> int \<Rightarrow> 64 word result" where
  "readResolvedPointerWord r segmentId pointerWord =
     bindE (readResolvedPointer r segmentId pointerWord) (\<lambda>resolved. Inr (up_word resolved))"

end
