(* ===== verification/Codec_Encode.thy ===== *)
theory Codec_Encode
  imports Codec_Types Any_Pointer_Messages
begin

unbundle bit_operations_syntax

text \<open>
  The encoder of \<open>src/encoding/runtime_codec.ts\<close>: a struct value is written field by field into
  a \<open>MessageBuilder\<close>, following its descriptor. The functions are driven by the value, so they
  end on every value however the schema recurses.
\<close>

section \<open>Data fields\<close>

fun typeKind :: "TypeDescriptor \<Rightarrow> string" where
  "typeKind TVoid = ''void''"
| "typeKind TBool = ''bool''"
| "typeKind TInt8 = ''int8''"
| "typeKind TInt16 = ''int16''"
| "typeKind TInt32 = ''int32''"
| "typeKind TInt64 = ''int64''"
| "typeKind TUint8 = ''uint8''"
| "typeKind TUint16 = ''uint16''"
| "typeKind TUint32 = ''uint32''"
| "typeKind TUint64 = ''uint64''"
| "typeKind TFloat32 = ''float32''"
| "typeKind TFloat64 = ''float64''"
| "typeKind (TEnum byOrdinal toOrdinal) = ''enum''"
| "typeKind (TStruct n) = ''struct''"
| "typeKind (TList t) = ''list''"
| "typeKind TText = ''text''"
| "typeKind TData = ''data''"
| "typeKind TInterface = ''interface''"
| "typeKind TAnyPointer = ''anyPointer''"

text \<open>\<open>BigInt\<close> of a number throws a \<open>RangeError\<close> on a fraction.\<close>

definition toBigInt :: "number \<Rightarrow> int result" where
  "toBigInt x = (if isInteger x then Inr (toInt x) else Inl RangeError)"

fun numberOrZero :: "js_value \<Rightarrow> number" where
  "numberOrZero (JNumber x) = x"
| "numberOrZero _ = jint 0"

fun scalarBits :: "TypeDescriptor \<Rightarrow> js_value \<Rightarrow> int result" where
  "scalarBits TFloat32 value = Inr (floatBits 8 23 (numberOrZero value))"
| "scalarBits TFloat64 value = Inr (floatBits 11 52 (numberOrZero value))"
| "scalarBits (TEnum byOrdinal toOrdinal) value = Inr (enumOrdinal toOrdinal value)"
| "scalarBits TInt64 value = Inr (asBigInt value)"
| "scalarBits TUint64 value = Inr (asBigInt value)"
| "scalarBits _ value = toBigInt (asNumber value)"

definition encodeDataWithDefault ::
  "MessageBuilder \<Rightarrow> int \<Rightarrow> int \<Rightarrow> TypeDescriptor \<Rightarrow> js_value \<Rightarrow> int \<Rightarrow> MessageBuilder result" where
  "encodeDataWithDefault b structWord offs type value msk =
     (let base = structWord * WORD_BYTES
      in if type = TBool
         then mbSetBool b (base + offs div 8) (nat (offs mod 8)) (asBoolean value \<noteq> (msk \<noteq> 0))
         else let width = dataByteOffset type 1; place = base + dataByteOffset type offs
              in bindE (scalarBits type value) (\<lambda>raw.
                 let bits = (raw mod 2 ^ nat (width * 8)) XOR msk
                 in if width = 1 then mbWriteUint8 b place bits
                    else if width = 2 then mbWriteUint16 b place bits
                    else if width = 4 then mbWriteUint32 b place bits
                    else if width = 8 then mbWriteBigUint64 b place bits
                    else Inl (ProtocolError (''invalid scalar default type: '' @ typeKind type) [])))"

text \<open>The writer of one scalar at a byte offset, of a field without default and of a list element.\<close>

fun writeScalar :: "TypeDescriptor \<Rightarrow> MessageBuilder \<Rightarrow> int \<Rightarrow> js_value \<Rightarrow> MessageBuilder result" where
  "writeScalar TInt8 b off value = mbWriteInt8 b off (truncNum (asNumber value))"
| "writeScalar TInt16 b off value = mbWriteInt16 b off (truncNum (asNumber value))"
| "writeScalar TInt32 b off value = mbWriteInt32 b off (truncNum (asNumber value))"
| "writeScalar TInt64 b off value = mbWriteBigInt64 b off (asBigInt value)"
| "writeScalar TUint8 b off value = mbWriteUint8 b off (truncNum (asNumber value))"
| "writeScalar TUint16 b off value = mbWriteUint16 b off (truncNum (asNumber value))"
| "writeScalar TUint32 b off value = mbWriteUint32 b off (truncNum (asNumber value))"
| "writeScalar TUint64 b off value = mbWriteBigUint64 b off (asBigInt value)"
| "writeScalar TFloat32 b off value = mbWriteFloat32 b off (asNumber value)"
| "writeScalar TFloat64 b off value = mbWriteFloat64 b off (asNumber value)"
| "writeScalar (TEnum byOrdinal toOrdinal) b off value = mbWriteUint16 b off (enumOrdinal toOrdinal value)"
| "writeScalar type b off value =
     Inl (PlainError (''unexpected pointer type in data field: '' @ typeKind type) [])"

definition encodeDataField ::
  "MessageBuilder \<Rightarrow> int \<Rightarrow> int \<Rightarrow> TypeDescriptor \<Rightarrow> js_value \<Rightarrow> int \<Rightarrow> MessageBuilder result" where
  "encodeDataField b structWord offs type value defaultMask =
     (if defaultMask \<noteq> 0 then encodeDataWithDefault b structWord offs type value defaultMask
      else let base = structWord * WORD_BYTES
           in if type = TVoid then Inr b
              else if type = TBool
              then mbSetBool b (base + offs div 8) (nat (offs mod 8)) (asBoolean value)
              else writeScalar type b (base + dataByteOffset type offs) value)"

definition maskOf :: "int option \<Rightarrow> int" where
  "maskOf defaultMask = (case defaultMask of None \<Rightarrow> 0 | Some m \<Rightarrow> m)"

section \<open>Lists of scalars\<close>

text \<open>The loop over the elements: \<open>put b i value\<close> writes element \<open>i\<close>.\<close>

fun writeEach ::
  "(MessageBuilder \<Rightarrow> int \<Rightarrow> js_value \<Rightarrow> MessageBuilder result) \<Rightarrow> MessageBuilder \<Rightarrow> int \<Rightarrow> js_value list
    \<Rightarrow> MessageBuilder result" where
  "writeEach put b i [] = Inr b"
| "writeEach put b i (v # vs) = bindE (put b i v) (\<lambda>b. writeEach put b (i + 1) vs)"

text \<open>The bytes of one element of a list of element size 2 to 5.\<close>

definition elementBytes :: "int \<Rightarrow> int" where
  "elementBytes elementSize = 2 ^ nat (elementSize - 2)"

definition encodeScalarList ::
  "MessageBuilder \<Rightarrow> int \<Rightarrow> TypeDescriptor \<Rightarrow> js_value list \<Rightarrow> MessageBuilder result" where
  "encodeScalarList b pointerWord elementType values =
     (let elementSize = typeElementSize elementType; len = int (length values)
      in if elementSize = 1 then
           bindE (mbAllocWords b (jint (ceilDiv len 64))) (\<lambda>(startWord, b).
           let baseByte = startWord * WORD_BYTES
           in bindE (writeEach (\<lambda>b i v. mbSetBool b (baseByte + i div 8) (nat (i mod 8)) (asBoolean v)) b 0 values)
                (\<lambda>b. mbSetListPointer b pointerWord startWord 1 len))
         else if 2 \<le> elementSize \<and> elementSize \<le> 5 then
           let width = elementBytes elementSize
           in bindE (mbAllocWords b (jint (bytesToWords (len * width)))) (\<lambda>(startWord, b).
              let baseByte = startWord * WORD_BYTES
              in bindE (writeEach (\<lambda>b i v. writeScalar elementType b (baseByte + i * width) v) b 0 values)
                   (\<lambda>b. mbSetListPointer b pointerWord startWord elementSize len))
         else Inl (PlainError ''unsupported list element size for encode: {}'' [elementSize]))"

definition compositeTagWord :: "int \<Rightarrow> StructDescriptor \<Rightarrow> 64 word" where
  "compositeTagWord len desc =
     push_bit 2 (word_of_int len) OR push_bit 32 (word_of_int (ds_dataWordCount desc)) OR
       push_bit 48 (word_of_int (ds_pointerCount desc))"

section \<open>Structs and pointers\<close>

text \<open>
  The source passes \<open>asRecord(fieldValue)\<close> for a group; \<open>encodeStructAt\<close> applies \<open>asRecord\<close> to
  its argument again, so the value itself stands for it here.
\<close>

text \<open>The any-pointer writer the codec passes to the message copier: the builder itself.\<close>

definition builderAlloc :: "MessageBuilder \<Rightarrow> int \<Rightarrow> (int \<times> MessageBuilder) result" where
  "builderAlloc b n = mbAllocWords b (jint n)"

function encodeStructAt ::
    "schema \<Rightarrow> MessageBuilder \<Rightarrow> StructDescriptor \<Rightarrow> int \<Rightarrow> js_value \<Rightarrow> MessageBuilder result"
and encodeFields ::
    "schema \<Rightarrow> MessageBuilder \<Rightarrow> StructDescriptor \<Rightarrow> int \<Rightarrow> int option \<Rightarrow> FieldDescriptor list \<Rightarrow> js_record
      \<Rightarrow> MessageBuilder result"
and encodePointerField ::
    "schema \<Rightarrow> MessageBuilder \<Rightarrow> int \<Rightarrow> TypeDescriptor \<Rightarrow> js_value \<Rightarrow> MessageBuilder result"
and encodeListField ::
    "schema \<Rightarrow> MessageBuilder \<Rightarrow> int \<Rightarrow> TypeDescriptor \<Rightarrow> js_value list \<Rightarrow> MessageBuilder result"
and encodeElements ::
    "schema \<Rightarrow> MessageBuilder \<Rightarrow> StructDescriptor \<Rightarrow> int \<Rightarrow> js_value list \<Rightarrow> MessageBuilder result"
and encodeSlots ::
    "schema \<Rightarrow> MessageBuilder \<Rightarrow> int \<Rightarrow> TypeDescriptor \<Rightarrow> js_value list \<Rightarrow> MessageBuilder result"
where
  "encodeStructAt env b desc structWord value =
     (let props = asRecord value; activeDiscriminant = resolveActiveDiscriminant desc props
      in bindE (case (ds_union desc, activeDiscriminant) of
                  (Some un, Some d) \<Rightarrow>
                    mbWriteUint16 b (structWord * WORD_BYTES + un_discriminantOffset un * 2) d
                | _ \<Rightarrow> Inr b) (\<lambda>b.
         encodeFields env b desc structWord activeDiscriminant (ds_fields desc) props))"
| "encodeFields env b desc structWord activeDiscriminant [] props = Inr b"
| "encodeFields env b desc structWord activeDiscriminant (f # fs) props =
     (if inactive activeDiscriminant f
      then encodeFields env b desc structWord activeDiscriminant fs props
      else let fieldValue = getProp props (fd_name f)
           in if fieldValue = JUndefined
              then encodeFields env b desc structWord activeDiscriminant fs props
              else bindE
                (case f of
                   Group name n d \<Rightarrow> encodeStructAt env b (env n) structWord fieldValue
                 | Slot name offs type msk d \<Rightarrow>
                     if isDataType type then encodeDataField b structWord offs type fieldValue (maskOf msk)
                     else encodePointerField env b
                            (mbPointerWordIndex structWord (ds_dataWordCount desc) offs) type fieldValue)
                (\<lambda>b. encodeFields env b desc structWord activeDiscriminant fs props))"
| "encodePointerField env b pointerWord type value =
     (if value = JUndefined \<or> value = JNull then mbWriteWord b pointerWord 0
      else case type of
        TText \<Rightarrow> mbWriteTextPointer b pointerWord (asString value)
      | TData \<Rightarrow> mbWriteDataPointer b pointerWord (asUint8Array value)
      | TStruct n \<Rightarrow>
          bindE (mbAllocWords b (jint (ds_dataWordCount (env n) + ds_pointerCount (env n)))) (\<lambda>(structWord, b).
          bindE (mbSetStructPointer b pointerWord structWord (ds_dataWordCount (env n)) (ds_pointerCount (env n)))
            (\<lambda>b. encodeStructAt env b (env n) structWord value))
      | TList element \<Rightarrow> encodeListField env b pointerWord element (asArray value)
      | TInterface \<Rightarrow>
          bindE (capabilityIndexFrom value) (\<lambda>capabilityIndex.
          case capabilityIndex of
            None \<Rightarrow> mbWriteWord b pointerWord 0
          | Some i \<Rightarrow> bindE (encodeCapabilityPointerWord i) (mbWriteWord b pointerWord))
      | TAnyPointer \<Rightarrow>
          bindE (asAnyPointerValue value) (\<lambda>pointer.
          case pointer of
            ApNull \<Rightarrow> mbWriteWord b pointerWord 0
          | ApInterface i \<Rightarrow> bindE (encodeCapabilityPointerWord i) (mbWriteWord b pointerWord)
          | ApMessage message \<Rightarrow>
              encodeAnyPointerMessageIntoBuilder builderAlloc mbWriteWord b pointerWord message noCopyOptions)
      | _ \<Rightarrow> Inl (PlainError (''unexpected data type in pointer field: '' @ typeKind type) []))"
| "encodeListField env b pointerWord elementType values =
     (if elementType = TVoid
      then mbSetListPointer b pointerWord (pointerWord + 1) 0 (int (length values))
      else case elementType of
        TStruct n \<Rightarrow>
          let desc = env n; stride = ds_dataWordCount desc + ds_pointerCount desc;
              wordsInElements = stride * int (length values)
          in bindE (mbAllocWords b (jint (1 + wordsInElements))) (\<lambda>(startWord, b).
             bindE (mbWriteWord b startWord (compositeTagWord (int (length values)) desc)) (\<lambda>b.
             bindE (encodeElements env b desc (startWord + 1) values) (\<lambda>b.
             mbSetListPointer b pointerWord startWord 7 wordsInElements)))
      | _ \<Rightarrow>
          if isPointerType elementType
          then bindE (mbAllocWords b (jint (int (length values)))) (\<lambda>(startWord, b).
               bindE (encodeSlots env b startWord elementType values) (\<lambda>b.
               mbSetListPointer b pointerWord startWord 6 (int (length values))))
          else encodeScalarList b pointerWord elementType values)"
| "encodeElements env b desc elementWord [] = Inr b"
| "encodeElements env b desc elementWord (v # vs) =
     bindE (encodeStructAt env b desc elementWord v) (\<lambda>b.
     encodeElements env b desc (elementWord + (ds_dataWordCount desc + ds_pointerCount desc)) vs)"
| "encodeSlots env b slotWord elementType [] = Inr b"
| "encodeSlots env b slotWord elementType (v # vs) =
     bindE (encodePointerField env b slotWord elementType v) (\<lambda>b.
     encodeSlots env b (slotWord + 1) elementType vs)"
  by pat_completeness auto
termination
  by (relation "measures [\<lambda>x. case x of
      Inl (Inl (e, b, d, w, v)) \<Rightarrow> size v
    | Inl (Inr (Inl (e, b, d, w, a, fs, props))) \<Rightarrow> size_list (size_prod (\<lambda>_. 0) size) props
    | Inl (Inr (Inr (e, b, w, t, v))) \<Rightarrow> size v
    | Inr (Inl (e, b, w, t, vs)) \<Rightarrow> size_list size vs
    | Inr (Inr (Inl (e, b, d, w, vs))) \<Rightarrow> size_list size vs
    | Inr (Inr (Inr (e, b, w, t, vs))) \<Rightarrow> size_list size vs,
  \<lambda>x. case x of Inl (Inl _) \<Rightarrow> 1 | Inl (Inr (Inl _)) \<Rightarrow> 0 | Inl (Inr (Inr _)) \<Rightarrow> 3
    | Inr (Inl _) \<Rightarrow> 2 | Inr (Inr _) \<Rightarrow> 0,
  \<lambda>x. case x of Inl (Inr (Inl (e, b, d, w, a, fs, props))) \<Rightarrow> length fs | _ \<Rightarrow> 0]")
    (auto dest: getProp_size intro: le_neq_implies_less asRecord_size asArray_size)

declare encodeStructAt.simps [simp del] encodeFields.simps [simp del] encodePointerField.simps [simp del]
  encodeListField.simps [simp del] encodeElements.simps [simp del] encodeSlots.simps [simp del]

definition encodeStructMessage :: "schema \<Rightarrow> StructDescriptor \<Rightarrow> js_value \<Rightarrow> bytes result" where
  "encodeStructMessage env desc value =
     bindE (mbAllocWords newMessageBuilder (jint (ds_dataWordCount desc + ds_pointerCount desc)))
       (\<lambda>(structWord, b).
     bindE (mbSetStructPointer b 0 structWord (ds_dataWordCount desc) (ds_pointerCount desc)) (\<lambda>b.
     bindE (encodeStructAt env b desc structWord value) mbToMessageBytes))"

end
