(* ===== verification/Codec_Spec.thy ===== *)
theory Codec_Spec
  imports Codec_Encode
begin

unbundle bit_operations_syntax

text \<open>
  What the codec promises, without bytes: \<open>received\<close> is the value the decoder makes of the message
  the encoder makes of a value, computed on the value and its descriptor alone, and \<open>words\<close> is the
  size of that message. A scalar is cut to its width, an absent field has the value of its zero
  bits, a null pointer leaves the default of the struct. \<open>None\<close> marks what cannot be sent or is
  not covered: an invalid capability, an any-pointer holding a message, ill-formed text, an absent
  group, a list longer than a pointer can count.
\<close>

section \<open>Scalars\<close>

definition dataWidth :: "TypeDescriptor \<Rightarrow> nat" where
  "dataWidth type = (if type = TVoid then 0 else if type = TBool then 1 else 8 * nat (dataByteOffset type 1))"

definition dataStart :: "TypeDescriptor \<Rightarrow> int \<Rightarrow> nat" where
  "dataStart type offs = (if type = TBool then nat offs else 8 * nat (dataByteOffset type offs))"

text \<open>The value that some bits of the width of the type stand for, and the bits of a value.\<close>

fun valueOfBits :: "TypeDescriptor \<Rightarrow> int \<Rightarrow> js_value" where
  "valueOfBits TBool bits = JBool (bits \<noteq> 0)"
| "valueOfBits TInt8 bits = JNumber (jint (asIntN 8 bits))"
| "valueOfBits TInt16 bits = JNumber (jint (asIntN 16 bits))"
| "valueOfBits TInt32 bits = JNumber (jint (asIntN 32 bits))"
| "valueOfBits TInt64 bits = JBigInt (asIntN 64 bits)"
| "valueOfBits TUint8 bits = JNumber (jint bits)"
| "valueOfBits TUint16 bits = JNumber (jint bits)"
| "valueOfBits TUint32 bits = JNumber (jint bits)"
| "valueOfBits TUint64 bits = JBigInt bits"
| "valueOfBits TFloat32 bits = JNumber (bitsFloat 8 23 bits)"
| "valueOfBits TFloat64 bits = JNumber (bitsFloat 11 52 bits)"
| "valueOfBits (TEnum byOrdinal toOrdinal) bits = JString (enumValue byOrdinal bits)"
| "valueOfBits _ bits = JUndefined"

text \<open>A float field with a default keeps infinities and NaN; without one they are sent as 0.\<close>

fun plainBits :: "TypeDescriptor \<Rightarrow> bool \<Rightarrow> js_value \<Rightarrow> int" where
  "plainBits TBool masked value = of_bool (asBoolean value)"
| "plainBits TInt64 masked value = asBigInt value"
| "plainBits TUint64 masked value = asBigInt value"
| "plainBits TFloat32 masked value = floatBits 8 23 (if masked then numberOrZero value else asNumber value)"
| "plainBits TFloat64 masked value = floatBits 11 52 (if masked then numberOrZero value else asNumber value)"
| "plainBits (TEnum byOrdinal toOrdinal) masked value = enumOrdinal toOrdinal value"
| "plainBits _ masked value = truncNum (asNumber value)"

definition bitsOfValue :: "TypeDescriptor \<Rightarrow> bool \<Rightarrow> js_value \<Rightarrow> int" where
  "bitsOfValue type masked value = plainBits type masked value mod 2 ^ dataWidth type"

definition receivedScalar :: "TypeDescriptor \<Rightarrow> bool \<Rightarrow> js_value \<Rightarrow> js_value" where
  "receivedScalar type masked value = valueOfBits type (bitsOfValue type masked value)"

text \<open>With a default the encoder converts numbers with \<open>BigInt\<close>, which refuses fractions.\<close>

definition sendableScalar :: "TypeDescriptor \<Rightarrow> bool \<Rightarrow> js_value \<Rightarrow> bool" where
  "sendableScalar type masked value \<longleftrightarrow>
     (masked \<and> type \<in> {TInt8, TInt16, TInt32, TUint8, TUint16, TUint32} \<longrightarrow> isInteger (asNumber value))"

section \<open>Pointers\<close>

definition fitsList :: "js_value list \<Rightarrow> bool" where
  "fitsList vs \<longleftrightarrow> length vs < 2 ^ 29"

definition receivedIndex :: "int \<Rightarrow> js_value option" where
  "receivedIndex i = (if i < 2 ^ 32 then Some (capabilityValue i) else None)"

text \<open>What a null pointer is decoded to in a list of pointers.\<close>

fun nullValue :: "schema \<Rightarrow> TypeDescriptor \<Rightarrow> js_value" where
  "nullValue env TText = JString []"
| "nullValue env TData = JBytes []"
| "nullValue env (TStruct n) = JObject (ds_createDefault (env n))"
| "nullValue env (TList t) = JArray []"
| "nullValue env TAnyPointer = anyPointerObject ApNull"
| "nullValue env _ = JNull"

text \<open>\<open>None\<close>: not sendable; \<open>Some None\<close>: a null pointer.\<close>

definition receivedLeaf :: "TypeDescriptor \<Rightarrow> js_value \<Rightarrow> js_value option option" where
  "receivedLeaf type value =
     (case type of
        TText \<Rightarrow>
          let s = asString value
          in if wfString s \<and> length (textEncode s) + 1 < 2 ^ 29 then Some (Some (JString s)) else None
      | TData \<Rightarrow>
          let bs = asUint8Array value in if length bs < 2 ^ 29 then Some (Some (JBytes bs)) else None
      | TInterface \<Rightarrow>
          (case capabilityIndexFrom value of
             Inr (Some i) \<Rightarrow> if i < 2 ^ 32 then Some (Some (capabilityValue i)) else None
           | Inr None \<Rightarrow> Some None
           | Inl e \<Rightarrow> None)
      | TAnyPointer \<Rightarrow>
          (case asAnyPointerValue value of
             Inr ApNull \<Rightarrow> Some None
           | Inr (ApInterface i) \<Rightarrow>
               if i < 2 ^ 32 then Some (Some (anyPointerObject (ApInterface i))) else None
           | _ \<Rightarrow> None)
      | _ \<Rightarrow> None)"

function receivedStruct :: "schema \<Rightarrow> StructDescriptor \<Rightarrow> js_value \<Rightarrow> js_record option"
and receivedFields ::
  "schema \<Rightarrow> int option \<Rightarrow> FieldDescriptor list \<Rightarrow> js_record \<Rightarrow> js_record \<Rightarrow> js_record option"
and receivedPointer :: "schema \<Rightarrow> TypeDescriptor \<Rightarrow> js_value \<Rightarrow> js_value option option"
and receivedList :: "schema \<Rightarrow> TypeDescriptor \<Rightarrow> js_value list \<Rightarrow> js_value list option"
where
  "receivedStruct env desc value =
     (let props = asRecord value; activeDiscriminant = resolveActiveDiscriminant desc props
      in receivedFields env activeDiscriminant (ds_fields desc) props
           (case (ds_union desc, activeDiscriminant) of
              (Some un, Some d) \<Rightarrow>
                (case map_of (un_byDiscriminant un) d of
                   Some tag \<Rightarrow> setProp (ds_createDefault desc) (lit ''which'') (JString tag)
                 | None \<Rightarrow> ds_createDefault desc)
            | _ \<Rightarrow> ds_createDefault desc))"
| "receivedFields env activeDiscriminant [] props out = Some out"
| "receivedFields env activeDiscriminant (f # fs) props out =
     (if inactive activeDiscriminant f then receivedFields env activeDiscriminant fs props out
      else let value = getProp props (fd_name f)
      in case f of
        Group name n d \<Rightarrow>
          if value = JUndefined then None
          else (case receivedStruct env (env n) value of
                  None \<Rightarrow> None
                | Some g \<Rightarrow> receivedFields env activeDiscriminant fs props (setProp out name (JObject g)))
      | Slot name offs type msk d \<Rightarrow>
          if isDataType type
          then if sendableScalar type (maskOf msk \<noteq> 0) value
               then receivedFields env activeDiscriminant fs props
                      (setProp out name (if value = JUndefined then valueOfBits type (maskOf msk)
                                         else receivedScalar type (maskOf msk \<noteq> 0) value))
               else None
          else if value = JUndefined then receivedFields env activeDiscriminant fs props out
          else (case receivedPointer env type value of
                  None \<Rightarrow> None
                | Some None \<Rightarrow> receivedFields env activeDiscriminant fs props out
                | Some (Some v) \<Rightarrow> receivedFields env activeDiscriminant fs props (setProp out name v)))"
| "receivedPointer env type value =
     (if value = JUndefined \<or> value = JNull then Some None
      else case type of
        TStruct n \<Rightarrow> map_option (\<lambda>props. Some (JObject props)) (receivedStruct env (env n) value)
      | TList element \<Rightarrow>
          if fitsList (asArray value)
          then map_option (\<lambda>vs. Some (JArray vs)) (receivedList env element (asArray value))
          else None
      | _ \<Rightarrow> receivedLeaf type value)"
| "receivedList env type [] = Some []"
| "receivedList env type (v # vs) =
     (case (case type of
              TStruct n \<Rightarrow> map_option JObject (receivedStruct env (env n) v)
            | _ \<Rightarrow>
                if isDataType type then Some (receivedScalar type False v)
                else map_option (\<lambda>r. case r of None \<Rightarrow> nullValue env type | Some x \<Rightarrow> x) (receivedPointer env type v)) of
        None \<Rightarrow> None
      | Some x \<Rightarrow> map_option (\<lambda>xs. x # xs) (receivedList env type vs))"
  by pat_completeness auto
termination
  by (relation "measures [\<lambda>x. case x of
      Inl (Inl (e, d, v)) \<Rightarrow> size v
    | Inl (Inr (e, a, fs, props, out)) \<Rightarrow> size_list (size_prod (\<lambda>_. 0) size) props
    | Inr (Inl (e, t, v)) \<Rightarrow> size v
    | Inr (Inr (e, t, vs)) \<Rightarrow> size_list size vs,
  \<lambda>x. case x of Inl (Inl _) \<Rightarrow> 1 | Inl (Inr _) \<Rightarrow> 0 | Inr (Inl _) \<Rightarrow> 2 | Inr (Inr _) \<Rightarrow> 0,
  \<lambda>x. case x of Inl (Inr (e, a, fs, props, out)) \<Rightarrow> length fs | _ \<Rightarrow> 0]")
    (auto dest: getProp_size intro: le_neq_implies_less asRecord_size asArray_size)

declare receivedStruct.simps [simp del] receivedFields.simps [simp del] receivedPointer.simps [simp del]
  receivedList.simps [simp del]

section \<open>Sizes\<close>

definition structSize :: "StructDescriptor \<Rightarrow> nat" where
  "structSize desc = nat (ds_dataWordCount desc) + nat (ds_pointerCount desc)"

text \<open>The words a value needs after its pointer or beside its struct.\<close>

function structWords :: "schema \<Rightarrow> StructDescriptor \<Rightarrow> js_value \<Rightarrow> nat"
and fieldWords :: "schema \<Rightarrow> int option \<Rightarrow> FieldDescriptor list \<Rightarrow> js_record \<Rightarrow> nat"
and pointerWords :: "schema \<Rightarrow> TypeDescriptor \<Rightarrow> js_value \<Rightarrow> nat"
and listWords :: "schema \<Rightarrow> TypeDescriptor \<Rightarrow> js_value list \<Rightarrow> nat"
where
  "structWords env desc value =
     fieldWords env (resolveActiveDiscriminant desc (asRecord value)) (ds_fields desc) (asRecord value)"
| "fieldWords env activeDiscriminant [] props = 0"
| "fieldWords env activeDiscriminant (f # fs) props =
     (let value = getProp props (fd_name f)
      in if inactive activeDiscriminant f \<or> value = JUndefined then 0
         else case f of
           Group name n d \<Rightarrow> structWords env (env n) value
         | Slot name offs type msk d \<Rightarrow> if isDataType type then 0 else pointerWords env type value)
     + fieldWords env activeDiscriminant fs props"
| "pointerWords env type value =
     (if value = JUndefined \<or> value = JNull then 0
      else case type of
        TText \<Rightarrow> nat (ceilDiv (int (length (textEncode (asString value))) + 1) 8)
      | TData \<Rightarrow> nat (ceilDiv (int (length (asUint8Array value))) 8)
      | TStruct n \<Rightarrow> structSize (env n) + structWords env (env n) value
      | TList element \<Rightarrow>
          (let len = length (asArray value)
           in case element of
                TStruct n \<Rightarrow> 1 + structSize (env n) * len
              | _ \<Rightarrow> if isDataType element then nat (ceilDiv (int (dataWidth element * len)) 64) else len)
          + listWords env element (asArray value)
      | _ \<Rightarrow> 0)"
| "listWords env type [] = 0"
| "listWords env type (v # vs) =
     (case type of
        TStruct n \<Rightarrow> structWords env (env n) v
      | _ \<Rightarrow> if isDataType type then 0 else pointerWords env type v) + listWords env type vs"
  by pat_completeness auto
termination
  by (relation "measures [\<lambda>x. case x of
      Inl (Inl (e, d, v)) \<Rightarrow> size v
    | Inl (Inr (e, a, fs, props)) \<Rightarrow> size_list (size_prod (\<lambda>_. 0) size) props
    | Inr (Inl (e, t, v)) \<Rightarrow> size v
    | Inr (Inr (e, t, vs)) \<Rightarrow> size_list size vs,
  \<lambda>x. case x of Inl (Inl _) \<Rightarrow> 1 | Inl (Inr _) \<Rightarrow> 0 | Inr (Inl _) \<Rightarrow> 2 | Inr (Inr _) \<Rightarrow> 0,
  \<lambda>x. case x of Inl (Inr (e, a, fs, props)) \<Rightarrow> length fs | _ \<Rightarrow> 0]")
    (auto dest: getProp_size intro: le_neq_implies_less asRecord_size asArray_size)

declare structWords.simps [simp del] fieldWords.simps [simp del] pointerWords.simps [simp del]
  listWords.simps [simp del]

definition messageWords :: "schema \<Rightarrow> StructDescriptor \<Rightarrow> js_value \<Rightarrow> nat" where
  "messageWords env desc value = 1 + structSize desc + structWords env desc value"

section \<open>Layouts\<close>

text \<open>The places of a struct: bits of its data section and slots of its pointer section.\<close>

datatype place = DataBit nat | PtrSlot nat

inductive occupies :: "schema \<Rightarrow> FieldDescriptor \<Rightarrow> place \<Rightarrow> bool" for env where
  data: "isDataType type \<Longrightarrow> dataStart type offs \<le> b \<Longrightarrow> b < dataStart type offs + dataWidth type \<Longrightarrow>
    occupies env (Slot name offs type msk d) (DataBit b)"
| pointer: "\<not> isDataType type \<Longrightarrow> occupies env (Slot name offs type msk d) (PtrSlot (nat offs))"
| tag: "ds_union (env n) = Some un \<Longrightarrow> 16 * nat (un_discriminantOffset un) \<le> b \<Longrightarrow>
    b < 16 * nat (un_discriminantOffset un) + 16 \<Longrightarrow> occupies env (Group name n d) (DataBit b)"
| member: "f \<in> set (ds_fields (env n)) \<Longrightarrow> occupies env f l \<Longrightarrow> occupies env (Group name n d) l"

inductive_simps occupies_slot: "occupies env (Slot name offs type msk d) l"
inductive_simps occupies_group: "occupies env (Group name n d) l"

text \<open>Two fields may share a place only when they are never active together.\<close>

definition apart :: "schema \<Rightarrow> FieldDescriptor \<Rightarrow> FieldDescriptor \<Rightarrow> bool" where
  "apart env f g \<longleftrightarrow>
     (\<exists>d e. fd_discriminantValue f = Some d \<and> fd_discriminantValue g = Some e \<and> d \<noteq> e) \<or>
     (\<forall>l. \<not> (occupies env f l \<and> occupies env g l))"

fun pairwiseApart :: "schema \<Rightarrow> FieldDescriptor list \<Rightarrow> bool" where
  "pairwiseApart env [] \<longleftrightarrow> True"
| "pairwiseApart env (f # fs) \<longleftrightarrow> (\<forall>g \<in> set fs. apart env f g) \<and> pairwiseApart env fs"

fun fieldFits :: "schema \<Rightarrow> StructDescriptor \<Rightarrow> FieldDescriptor \<Rightarrow> bool" where
  "fieldFits env desc (Slot name offs type msk d) \<longleftrightarrow>
     0 \<le> offs \<and>
     (if isDataType type
      then dataStart type offs + dataWidth type \<le> 64 * nat (ds_dataWordCount desc) \<and>
           0 \<le> maskOf msk \<and> maskOf msk < 2 ^ dataWidth type
      else offs < ds_pointerCount desc)"
| "fieldFits env desc (Group name n d) \<longleftrightarrow>
     ds_dataWordCount (env n) = ds_dataWordCount desc \<and> ds_pointerCount (env n) = ds_pointerCount desc"

text \<open>The discriminant has a place of its own, and every value it can take fits in 16 bits.\<close>

definition unionFits :: "schema \<Rightarrow> StructDescriptor \<Rightarrow> StructUnionDescriptor \<Rightarrow> bool" where
  "unionFits env desc un \<longleftrightarrow>
     0 \<le> un_discriminantOffset un \<and> 16 * un_discriminantOffset un + 16 \<le> 64 * ds_dataWordCount desc \<and>
     (\<forall>f \<in> set (ds_fields desc). \<forall>b. occupies env f (DataBit b) \<longrightarrow>
        \<not> (16 * nat (un_discriminantOffset un) \<le> b \<and> b < 16 * nat (un_discriminantOffset un) + 16)) \<and>
     (\<forall>d \<in> insert (un_defaultDiscriminant un) (snd ` set (un_byName un)) \<union>
        {d. \<exists>f \<in> set (ds_fields desc). fd_discriminantValue f = Some d}. 0 \<le> d \<and> d < 2 ^ 16)"

definition layoutOk :: "schema \<Rightarrow> StructDescriptor \<Rightarrow> bool" where
  "layoutOk env desc \<longleftrightarrow>
     0 \<le> ds_dataWordCount desc \<and> ds_dataWordCount desc < 2 ^ 16 \<and>
     0 \<le> ds_pointerCount desc \<and> ds_pointerCount desc < 2 ^ 16 \<and>
     (\<forall>f \<in> set (ds_fields desc). fieldFits env desc f) \<and> pairwiseApart env (ds_fields desc) \<and>
     (case ds_union desc of
        None \<Rightarrow> \<forall>f \<in> set (ds_fields desc). fd_discriminantValue f = None
      | Some un \<Rightarrow> unionFits env desc un)"

definition schemaOk :: "schema \<Rightarrow> bool" where
  "schemaOk env \<longleftrightarrow> (\<forall>n. layoutOk env (env n))"

end
