(* ===== verification/Codec_Decode.thy ===== *)
theory Codec_Decode
  imports Codec_Encode
begin

unbundle bit_operations_syntax

text \<open>
  The decoder of \<open>src/encoding/runtime_codec.ts\<close>: a struct of a message becomes an object with
  the defaults of its descriptor and the fields the message holds. The decoder has no depth limit:
  on a cyclic message it recurses until the stack overflows. \<open>fuel\<close> bounds the recursion and
  \<open>Diverges\<close> is the value when it runs out; a result other than \<open>Diverges\<close> stays the same with
  more fuel.
\<close>

section \<open>Data fields\<close>

definition readScalarBits :: "int \<Rightarrow> MessageReader \<Rightarrow> StructRef \<Rightarrow> int \<Rightarrow> TypeDescriptor \<Rightarrow> int result" where
  "readScalarBits width r ref place type =
     (if width = 1 then readUint8InStruct r ref place
      else if width = 2 then readUint16InStruct r ref place
      else if width = 4 then readUint32InStruct r ref place
      else if width = 8 then readBigUint64InStruct r ref place
      else Inl (ProtocolError (''invalid scalar default type: '' @ typeKind type) []))"

text \<open>\<open>type.kind.startsWith("int")\<close>; \<open>interface\<close> is the other kind that does.\<close>

fun isSigned :: "TypeDescriptor \<Rightarrow> bool" where
  "isSigned TInt8 = True"
| "isSigned TInt16 = True"
| "isSigned TInt32 = True"
| "isSigned TInt64 = True"
| "isSigned TInterface = True"
| "isSigned _ = False"

definition scalarFromBits :: "TypeDescriptor \<Rightarrow> int \<Rightarrow> int \<Rightarrow> js_value" where
  "scalarFromBits type width bits =
     (case type of
        TEnum byOrdinal toOrdinal \<Rightarrow> JString (enumValue byOrdinal bits)
      | TFloat32 \<Rightarrow> JNumber (bitsFloat 8 23 (bits mod 2 ^ 32))
      | TFloat64 \<Rightarrow> JNumber (bitsFloat 11 52 (bits mod 2 ^ 64))
      | _ \<Rightarrow>
          let v = (if isSigned type then asIntN (nat (width * 8)) bits else bits)
          in if width = 8 then JBigInt v else JNumber (jint v))"

definition decodeDataWithDefault ::
  "MessageReader \<Rightarrow> StructRef \<Rightarrow> int \<Rightarrow> TypeDescriptor \<Rightarrow> int \<Rightarrow> js_value result" where
  "decodeDataWithDefault r ref offs type msk =
     (if type = TBool then bindE (readBool r ref offs) (\<lambda>b. Inr (JBool (b \<noteq> (msk \<noteq> 0))))
      else let width = dataByteOffset type 1; place = dataByteOffset type offs
           in bindE (readScalarBits width r ref place type) (\<lambda>raw.
              Inr (scalarFromBits type width (raw XOR msk))))"

definition jnum :: "int result \<Rightarrow> js_value result" where
  "jnum m = bindE m (\<lambda>v. Inr (JNumber (jint v)))"

definition jbig :: "int result \<Rightarrow> js_value result" where
  "jbig m = bindE m (\<lambda>v. Inr (JBigInt v))"

definition jfloat :: "number result \<Rightarrow> js_value result" where
  "jfloat m = bindE m (\<lambda>v. Inr (JNumber v))"

fun readScalarInStruct :: "TypeDescriptor \<Rightarrow> MessageReader \<Rightarrow> StructRef \<Rightarrow> int \<Rightarrow> js_value result" where
  "readScalarInStruct TInt8 r ref place = jnum (readInt8InStruct r ref place)"
| "readScalarInStruct TInt16 r ref place = jnum (readInt16InStruct r ref place)"
| "readScalarInStruct TInt32 r ref place = jnum (readInt32InStruct r ref place)"
| "readScalarInStruct TInt64 r ref place = jbig (readBigInt64InStruct r ref place)"
| "readScalarInStruct TUint8 r ref place = jnum (readUint8InStruct r ref place)"
| "readScalarInStruct TUint16 r ref place = jnum (readUint16InStruct r ref place)"
| "readScalarInStruct TUint32 r ref place = jnum (readUint32InStruct r ref place)"
| "readScalarInStruct TUint64 r ref place = jbig (readBigUint64InStruct r ref place)"
| "readScalarInStruct TFloat32 r ref place = jfloat (readFloat32InStruct r ref place)"
| "readScalarInStruct TFloat64 r ref place = jfloat (readFloat64InStruct r ref place)"
| "readScalarInStruct (TEnum byOrdinal toOrdinal) r ref place =
     bindE (readUint16InStruct r ref place) (\<lambda>ordinal. Inr (JString (enumValue byOrdinal ordinal)))"
| "readScalarInStruct type r ref place =
     Inl (PlainError (''unexpected pointer type in data field: '' @ typeKind type) [])"

definition decodeDataField ::
  "MessageReader \<Rightarrow> StructRef \<Rightarrow> int \<Rightarrow> TypeDescriptor \<Rightarrow> int \<Rightarrow> js_value result" where
  "decodeDataField r ref offs type defaultMask =
     (if defaultMask \<noteq> 0 then decodeDataWithDefault r ref offs type defaultMask
      else if type = TVoid then Inr JUndefined
      else if type = TBool then bindE (readBool r ref offs) (\<lambda>b. Inr (JBool b))
      else readScalarInStruct type r ref (dataByteOffset type offs))"

text \<open>Whether the data section of the message holds the slot.\<close>

definition dataFieldPresent :: "StructRef \<Rightarrow> int \<Rightarrow> TypeDescriptor \<Rightarrow> bool" where
  "dataFieldPresent ref offs type =
     (let byteOffset = (if type = TBool then offs div 8 else dataByteOffset type offs);
          byteWidth = (if type = TVoid then 0 else dataByteOffset type 1)
      in \<not> byteOffset + byteWidth > sr_dataWordCount ref * WORD_BYTES)"

section \<open>Lists of scalars\<close>

fun readScalarElement :: "TypeDescriptor \<Rightarrow> MessageReader \<Rightarrow> int \<Rightarrow> int \<Rightarrow> js_value result" where
  "readScalarElement TInt8 r g off = jnum (readInt8At r g off MAX_SAFE_INTEGER ''decode int8 list'')"
| "readScalarElement TUint8 r g off = jnum (readUint8At r g off MAX_SAFE_INTEGER ''decode uint8 list'')"
| "readScalarElement TInt16 r g off = jnum (readInt16At r g off MAX_SAFE_INTEGER ''decode int16 list'')"
| "readScalarElement TUint16 r g off = jnum (readUint16At r g off MAX_SAFE_INTEGER ''decode uint16 list'')"
| "readScalarElement (TEnum byOrdinal toOrdinal) r g off =
     bindE (readUint16At r g off MAX_SAFE_INTEGER ''decode enum list'') (\<lambda>ordinal.
       Inr (JString (enumValue byOrdinal ordinal)))"
| "readScalarElement TInt32 r g off = jnum (readInt32At r g off MAX_SAFE_INTEGER ''decode int32 list'')"
| "readScalarElement TUint32 r g off = jnum (readUint32At r g off MAX_SAFE_INTEGER ''decode uint32 list'')"
| "readScalarElement TFloat32 r g off = jfloat (readFloat32At r g off MAX_SAFE_INTEGER ''decode float32 list'')"
| "readScalarElement TInt64 r g off = jbig (readBigInt64At r g off MAX_SAFE_INTEGER ''decode int64 list'')"
| "readScalarElement TUint64 r g off = jbig (readBigUint64At r g off MAX_SAFE_INTEGER ''decode uint64 list'')"
| "readScalarElement TFloat64 r g off = jfloat (readFloat64At r g off MAX_SAFE_INTEGER ''decode float64 list'')"
| "readScalarElement type r g off = Inl (PlainError ''unsupported list element size for decode: {}'' [typeElementSize type])"

definition readBoolElement :: "MessageReader \<Rightarrow> int \<Rightarrow> int \<Rightarrow> int \<Rightarrow> js_value result" where
  "readBoolElement r g baseByte i =
     bindE (readUint8At r g (baseByte + i div 8) MAX_SAFE_INTEGER ''decode bool list'') (\<lambda>byte.
       Inr (JBool (byte AND push_bit (nat (i mod 8)) 1 \<noteq> 0)))"

definition decodeScalarList ::
  "MessageReader \<Rightarrow> ListRef \<Rightarrow> TypeDescriptor \<Rightarrow> js_value list result" where
  "decodeScalarList r lst elementType =
     (let expectedSize = typeElementSize elementType in
      case lst of
        InlineComposite _ _ _ _ _ _ \<Rightarrow>
          Inl (PlainError ''list element size mismatch: expected={} actual={}'' [expectedSize, 7])
      | FlatList g startWord elementSize elementCount \<Rightarrow>
          if elementSize \<noteq> expectedSize
          then Inl (PlainError ''list element size mismatch: expected={} actual={}'' [expectedSize, elementSize])
          else let baseByte = startWord * WORD_BYTES
          in if expectedSize = 0 then Inr (replicate (nat elementCount) JUndefined)
             else if expectedSize = 1
             then collectE (\<lambda>i. readBoolElement r g baseByte i) [0..elementCount - 1]
             else collectE (\<lambda>i. readScalarElement elementType r g (baseByte + i * elementBytes expectedSize))
                    [0..elementCount - 1])"

section \<open>Structs and pointers\<close>

definition orElseValue :: "js_value \<Rightarrow> ('a \<Rightarrow> js_value) \<Rightarrow> 'a option \<Rightarrow> js_value" where
  "orElseValue d f v = (case v of None \<Rightarrow> d | Some x \<Rightarrow> f x)"

definition readDiscriminant :: "MessageReader \<Rightarrow> StructDescriptor \<Rightarrow> StructRef \<Rightarrow> int option result" where
  "readDiscriminant r desc ref =
     (case ds_union desc of
        None \<Rightarrow> Inr None
      | Some un \<Rightarrow>
          if un_discriminantOffset un * 2 + 2 > sr_dataWordCount ref * WORD_BYTES then Inr (Some 0)
          else bindE (readUint16InStruct r ref (un_discriminantOffset un * 2)) (\<lambda>d. Inr (Some d)))"

definition withTag :: "StructDescriptor \<Rightarrow> int option \<Rightarrow> js_record \<Rightarrow> js_record" where
  "withTag desc activeDiscriminant props =
     (case (ds_union desc, activeDiscriminant) of
        (Some un, Some d) \<Rightarrow>
          (case map_of (un_byDiscriminant un) d of
             Some tag \<Rightarrow> setProp props (lit ''which'') (JString tag)
           | None \<Rightarrow> props)
      | _ \<Rightarrow> props)"

function decodeStructAt ::
    "nat \<Rightarrow> schema \<Rightarrow> MessageReader \<Rightarrow> StructDescriptor \<Rightarrow> StructRef \<Rightarrow> js_record result"
and decodeFields ::
    "nat \<Rightarrow> schema \<Rightarrow> MessageReader \<Rightarrow> StructRef \<Rightarrow> int option \<Rightarrow> FieldDescriptor list \<Rightarrow> js_record \<Rightarrow> js_record result"
and decodePointerField ::
    "nat \<Rightarrow> schema \<Rightarrow> MessageReader \<Rightarrow> int \<Rightarrow> int \<Rightarrow> TypeDescriptor \<Rightarrow> js_value result"
and decodeListField ::
    "nat \<Rightarrow> schema \<Rightarrow> MessageReader \<Rightarrow> int \<Rightarrow> int \<Rightarrow> TypeDescriptor \<Rightarrow> js_value list result"
and decodeElements ::
    "nat \<Rightarrow> schema \<Rightarrow> MessageReader \<Rightarrow> StructDescriptor \<Rightarrow> StructRef \<Rightarrow> nat \<Rightarrow> js_value list result"
and decodeSlots ::
    "nat \<Rightarrow> schema \<Rightarrow> MessageReader \<Rightarrow> int \<Rightarrow> int \<Rightarrow> TypeDescriptor \<Rightarrow> nat \<Rightarrow> js_value list result"
where
  "decodeStructAt fuel env r desc ref =
     (case fuel of
        0 \<Rightarrow> Inl Diverges
      | Suc fuel \<Rightarrow>
          bindE (readDiscriminant r desc ref) (\<lambda>activeDiscriminant.
          decodeFields fuel env r ref activeDiscriminant (ds_fields desc)
            (withTag desc activeDiscriminant (ds_createDefault desc))))"
| "decodeFields fuel env r ref activeDiscriminant [] props = Inr props"
| "decodeFields fuel env r ref activeDiscriminant (f # fs) props =
     (if inactive activeDiscriminant f
      then decodeFields fuel env r ref activeDiscriminant fs props
      else bindE
        (case f of
           Group name n d \<Rightarrow> bindE (decodeStructAt fuel env r (env n) ref) (\<lambda>g. Inr (Some (JObject g)))
         | Slot name offs type msk d \<Rightarrow>
             if isDataType type
             then if \<not> dataFieldPresent ref offs type then Inr None
                  else bindE (decodeDataField r ref offs type (maskOf msk)) (\<lambda>v. Inr (Some v))
             else if offs \<ge> sr_pointerCount ref then Inr None
             else bindE (mrPointerWordIndex ref offs) (\<lambda>pointerWord.
                  bindE (readResolvedPointerWord r (sr_segmentId ref) pointerWord) (\<lambda>word.
                  if word = 0 then Inr None
                  else bindE (decodePointerField fuel env r (sr_segmentId ref) pointerWord type) (\<lambda>v. Inr (Some v)))))
        (\<lambda>v. decodeFields fuel env r ref activeDiscriminant fs
               (case v of None \<Rightarrow> props | Some v \<Rightarrow> setProp props (fd_name f) v)))"
| "decodePointerField fuel env r segmentId pointerWord type =
     (case fuel of
        0 \<Rightarrow> Inl Diverges
      | Suc fuel \<Rightarrow>
          (case type of
             TText \<Rightarrow> bindE (readTextPointer r segmentId pointerWord) (\<lambda>v. Inr (orElseValue (JString []) JString v))
           | TData \<Rightarrow> bindE (readDataPointer r segmentId pointerWord) (\<lambda>v. Inr (orElseValue (JBytes []) JBytes v))
           | TStruct n \<Rightarrow>
               bindE (readStructPointer r segmentId pointerWord) (\<lambda>ref.
               case ref of
                 None \<Rightarrow> Inr (JObject (ds_createDefault (env n)))
               | Some ref \<Rightarrow> bindE (decodeStructAt fuel env r (env n) ref) (\<lambda>props. Inr (JObject props)))
           | TList element \<Rightarrow>
               bindE (decodeListField fuel env r segmentId pointerWord element) (\<lambda>vs. Inr (JArray vs))
           | TInterface \<Rightarrow>
               bindE (readResolvedPointerWord r segmentId pointerWord) (\<lambda>word.
               if word = 0 then Inr JNull
               else bindE (decodeCapabilityPointerWord word) (\<lambda>i. Inr (capabilityValue i)))
           | TAnyPointer \<Rightarrow>
               bindE (readResolvedPointer r segmentId pointerWord) (\<lambda>resolved.
               if up_word resolved = 0 \<and> up_contentWord resolved = None
               then Inr (anyPointerObject ApNull)
               else if pointerKind (up_word resolved) = 3
               then bindE (decodeCapabilityPointerWord (up_word resolved)) (\<lambda>i.
                    Inr (anyPointerObject (ApInterface i)))
               else bindE (decodeAnyPointerMessageFromReader r segmentId pointerWord noCopyOptions) (\<lambda>message.
                    Inr (anyPointerObject (ApMessage message))))
           | _ \<Rightarrow> Inl (PlainError (''unexpected data type in pointer field: '' @ typeKind type) [])))"
| "decodeListField fuel env r segmentId pointerWord elementType =
     bindE (readListPointer r segmentId pointerWord) (\<lambda>lst.
       case lst of
         None \<Rightarrow> Inr []
       | Some lst \<Rightarrow>
           (case elementType of
              TStruct n \<Rightarrow>
                (case lst of
                   FlatList _ _ _ _ \<Rightarrow>
                     Inl (PlainError ''expected inline composite list for struct element type'' [])
                 | InlineComposite g tagWord elementCount dataWordCount pointerCount _ \<Rightarrow>
                     decodeElements fuel env r (env n)
                       \<lparr>sr_segmentId = g, sr_startWord = tagWord + 1,
                        sr_dataWordCount = dataWordCount, sr_pointerCount = pointerCount\<rparr> (nat elementCount))
            | _ \<Rightarrow>
                if isPointerType elementType
                then (case lst of
                        FlatList g startWord elementSize elementCount \<Rightarrow>
                          if elementSize \<noteq> 6
                          then Inl (PlainError ''expected pointer list for pointer element type'' [])
                          else decodeSlots fuel env r g startWord elementType (nat elementCount)
                      | InlineComposite _ _ _ _ _ _ \<Rightarrow>
                          Inl (PlainError ''expected pointer list for pointer element type'' []))
                else decodeScalarList r lst elementType))"
| "decodeElements fuel env r desc ref count =
     (case count of
        0 \<Rightarrow> Inr []
      | Suc count \<Rightarrow>
          bindE (decodeStructAt fuel env r desc ref) (\<lambda>props.
          bindE (decodeElements fuel env r desc
                   (ref\<lparr>sr_startWord := sr_startWord ref + (sr_dataWordCount ref + sr_pointerCount ref)\<rparr>) count)
            (\<lambda>vs. Inr (JObject props # vs))))"
| "decodeSlots fuel env r segmentId slotWord elementType count =
     (case count of
        0 \<Rightarrow> Inr []
      | Suc count \<Rightarrow>
          bindE (decodePointerField fuel env r segmentId slotWord elementType) (\<lambda>v.
          bindE (decodeSlots fuel env r segmentId (slotWord + 1) elementType count) (\<lambda>vs. Inr (v # vs))))"
  by pat_completeness auto
termination
  by (relation "measures [\<lambda>x. case x of
      Inl (Inl (fuel, _)) \<Rightarrow> fuel
    | Inl (Inr (Inl (fuel, _))) \<Rightarrow> fuel
    | Inl (Inr (Inr (fuel, _))) \<Rightarrow> fuel
    | Inr (Inl (fuel, _)) \<Rightarrow> fuel
    | Inr (Inr (Inl (fuel, _))) \<Rightarrow> fuel
    | Inr (Inr (Inr (fuel, _))) \<Rightarrow> fuel,
  \<lambda>x. case x of Inl (Inl _) \<Rightarrow> 0 | Inl (Inr (Inl _)) \<Rightarrow> 1 | Inl (Inr (Inr _)) \<Rightarrow> 0
    | Inr (Inl _) \<Rightarrow> 2 | Inr (Inr _) \<Rightarrow> 1,
  \<lambda>x. case x of Inl (Inr (Inl (fuel, env, r, ref, a, fs, props))) \<Rightarrow> length fs
    | Inr (Inr (Inl (fuel, env, r, desc, ref, count))) \<Rightarrow> count
    | Inr (Inr (Inr (fuel, env, r, g, w, t, count))) \<Rightarrow> count | _ \<Rightarrow> 0]") auto

declare decodeStructAt.simps [simp del] decodeFields.simps [simp del] decodePointerField.simps [simp del]
  decodeListField.simps [simp del] decodeElements.simps [simp del] decodeSlots.simps [simp del]

text \<open>The body of the loop over the fields.\<close>

definition decodeOne ::
  "nat \<Rightarrow> schema \<Rightarrow> MessageReader \<Rightarrow> StructRef \<Rightarrow> FieldDescriptor \<Rightarrow> js_value option result" where
  "decodeOne fuel env r ref f =
     (case f of
        Group name n d \<Rightarrow> bindE (decodeStructAt fuel env r (env n) ref) (\<lambda>g. Inr (Some (JObject g)))
      | Slot name offs type msk d \<Rightarrow>
          if isDataType type
          then if \<not> dataFieldPresent ref offs type then Inr None
               else bindE (decodeDataField r ref offs type (maskOf msk)) (\<lambda>v. Inr (Some v))
          else if offs \<ge> sr_pointerCount ref then Inr None
          else bindE (mrPointerWordIndex ref offs) (\<lambda>pointerWord.
               bindE (readResolvedPointerWord r (sr_segmentId ref) pointerWord) (\<lambda>word.
               if word = 0 then Inr None
               else bindE (decodePointerField fuel env r (sr_segmentId ref) pointerWord type) (\<lambda>v. Inr (Some v)))))"

definition setOne :: "js_record \<Rightarrow> js_string \<Rightarrow> js_value option \<Rightarrow> js_record" where
  "setOne out name v = (case v of None \<Rightarrow> out | Some x \<Rightarrow> setProp out name x)"

lemma decodeFields_Cons:
  "decodeFields fuel env r ref a (f # fs) props =
     (if inactive a f then decodeFields fuel env r ref a fs props
      else bindE (decodeOne fuel env r ref f) (\<lambda>v. decodeFields fuel env r ref a fs (setOne props (fd_name f) v)))"
  by (simp add: decodeFields.simps decodeOne_def setOne_def)

definition decodeStructMessage :: "nat \<Rightarrow> schema \<Rightarrow> StructDescriptor \<Rightarrow> bytes \<Rightarrow> js_record result" where
  "decodeStructMessage fuel env desc bs =
     bindE (newMessageReader bs) (\<lambda>r.
     bindE (readStructPointer r 0 0) (\<lambda>root.
     case root of
       None \<Rightarrow> Inr (ds_createDefault desc)
     | Some ref \<Rightarrow> decodeStructAt fuel env r desc ref))"

end
