(* ===== verification/Codec_Fields.thy ===== *)
theory Codec_Fields
  imports Codec_Spec Codec_Decode Runtime_Roundtrip
begin

unbundle bit_operations_syntax

text \<open>
  The data fields of the codec on the words of a segment: a scalar is a range of bits that lies
  in one word, the writer changes exactly these bits and the reader depends on exactly them.
\<close>

section \<open>Bit ranges\<close>

text \<open>Bit \<open>b\<close> after word \<open>B\<close>, the bits from \<open>s\<close> to \<open>s + n\<close> as a number, and putting a number there.\<close>

definition bitAt :: "64 word list \<Rightarrow> nat \<Rightarrow> nat \<Rightarrow> bool" where
  "bitAt ws B b \<longleftrightarrow> bit (ws ! (B + b div 64)) (b mod 64)"

definition bitsAt :: "64 word list \<Rightarrow> nat \<Rightarrow> nat \<Rightarrow> nat \<Rightarrow> int" where
  "bitsAt ws B s n = uint (take_bit n (drop_bit (s mod 64) (ws ! (B + s div 64))))"

definition spliceBits :: "nat \<Rightarrow> nat \<Rightarrow> 64 word \<Rightarrow> 64 word \<Rightarrow> 64 word" where
  "spliceBits s n v w = (w AND NOT (push_bit s (mask n))) OR push_bit s (take_bit n v)"

definition putBits :: "64 word list \<Rightarrow> nat \<Rightarrow> nat \<Rightarrow> nat \<Rightarrow> int \<Rightarrow> 64 word list" where
  "putBits ws B s n v = ws[B + s div 64 := spliceBits (s mod 64) n (word_of_int v) (ws ! (B + s div 64))]"

definition inWord :: "nat \<Rightarrow> nat \<Rightarrow> bool" where
  "inWord s n \<longleftrightarrow> s mod 64 + n \<le> 64"

lemma bit_spliceBits:
  "k < 64 \<Longrightarrow> bit (spliceBits s n v w) k \<longleftrightarrow> (if s \<le> k \<and> k < s + n then bit v (k - s) else bit w k)"
  by (auto simp: spliceBits_def bit_simps)

lemma inWord_div:
  assumes "inWord s n" "s \<le> b" "b < s + n"
  shows "b div 64 = s div 64" "b mod 64 = s mod 64 + (b - s)"
proof -
  have "64 * (s div 64) + s mod 64 = s" by simp
  moreover have "s mod 64 + (b - s) < 64" using assms by (simp add: inWord_def)
  ultimately have "b = 64 * (s div 64) + (s mod 64 + (b - s))" "s mod 64 + (b - s) < 64" using assms(2) by simp_all
  then show "b div 64 = s div 64" "b mod 64 = s mod 64 + (b - s)"
    by (metis div_mult_self4 div_less add.right_neutral numeral_neq_zero, metis mod_mult_self4 mod_less)
qed

lemma same_word:
  fixes s b :: nat
  assumes "b div 64 = s div 64"
  shows "s \<le> b \<and> b < s + n \<longleftrightarrow> s mod 64 \<le> b mod 64 \<and> b mod 64 < s mod 64 + n"
proof -
  have "64 * (s div 64) + s mod 64 = s" by simp
  moreover have "64 * (s div 64) + b mod 64 = b" by (metis assms mult_div_mod_eq)
  ultimately show ?thesis by linarith
qed

lemma bitAt_putBits:
  assumes "inWord s n" "B + s div 64 < length ws"
  shows "bitAt (putBits ws B s n v) B b \<longleftrightarrow>
    (if s \<le> b \<and> b < s + n then bit v (b - s) else bitAt ws B b)"
proof (cases "b div 64 = s div 64")
  case True
  have "b mod 64 < 64" by simp
  moreover have "b mod 64 - s mod 64 = b - s" if "s \<le> b" "b < s + n"
    using inWord_div [OF assms(1) that] by simp
  moreover have "b - s < 64" if "b < s + n" using that assms(1) by (simp add: inWord_def)
  ultimately show ?thesis
    using assms(2) True same_word [OF True, of n]
    by (auto simp: bitAt_def putBits_def bit_spliceBits bit_word_of_int_iff)
next
  case False
  then have "\<not> (s \<le> b \<and> b < s + n)" using inWord_div [OF assms(1)] by blast
  then show ?thesis using False by (auto simp: bitAt_def putBits_def)
qed

lemma length_putBits [simp]: "length (putBits ws B s n v) = length ws"
  by (simp add: putBits_def)

lemma nth_putBits: "k \<noteq> B + s div 64 \<Longrightarrow> putBits ws B s n v ! k = ws ! k"
  by (simp add: putBits_def)

lemma bit_bitsAt:
  assumes "inWord s n"
  shows "bit (bitsAt ws B s n) j \<longleftrightarrow> j < n \<and> bitAt ws B (s + j)"
proof (cases "j < n")
  case True
  then have "(s + j) div 64 = s div 64" "(s + j) mod 64 = s mod 64 + j"
    using inWord_div [OF assms, of "s + j"] by simp_all
  moreover have "s mod 64 + j < 64" using True assms by (simp add: inWord_def)
  ultimately show ?thesis using True by (simp add: bitsAt_def bitAt_def bit_simps)
next
  case False
  then show ?thesis by (auto simp: bitsAt_def bit_simps)
qed

lemma bitsAt_cong:
  assumes "inWord s n" "\<And>b. s \<le> b \<Longrightarrow> b < s + n \<Longrightarrow> bitAt ws B b = bitAt ws' B' b"
  shows "bitsAt ws B s n = bitsAt ws' B' s n"
  by (rule bit_eqI) (use assms in \<open>auto simp: bit_bitsAt\<close>)

lemma bitsAt_putBits:
  assumes "inWord s n" "B + s div 64 < length ws"
  shows "bitsAt (putBits ws B s n v) B s n = v mod 2 ^ n"
proof (rule bit_eqI)
  fix j
  show "bit (bitsAt (putBits ws B s n v) B s n) j \<longleftrightarrow> bit (v mod 2 ^ n) j"
    using assms by (auto simp: bit_bitsAt bitAt_putBits simp flip: take_bit_eq_mod simp: bit_simps)
qed

lemma bitsAt_zero:
  assumes "inWord s n" "\<And>b. s \<le> b \<Longrightarrow> b < s + n \<Longrightarrow> \<not> bitAt ws B b"
  shows "bitsAt ws B s n = 0"
  by (rule bit_eqI) (use assms in \<open>auto simp: bit_bitsAt\<close>)

lemma putBits_mod: "inWord s n \<Longrightarrow> putBits ws B s n (v mod 2 ^ n) = putBits ws B s n v"
proof -
  assume "inWord s n"
  then have "n \<le> 64" by (simp add: inWord_def)
  then have "take_bit n (word_of_int (v mod 2 ^ n) :: 64 word) = take_bit n (word_of_int v)"
    by (intro bit_word_eqI) (simp add: bit_simps flip: take_bit_eq_mod)
  then show ?thesis by (simp add: putBits_def spliceBits_def)
qed

section \<open>Scalars of whole bytes\<close>

text \<open>A byte offset \<open>off\<close> after word \<open>B\<close>.\<close>

definition byteFits :: "nat \<Rightarrow> nat \<Rightarrow> nat \<Rightarrow> 64 word list \<Rightarrow> bool" where
  "byteFits B off m ws \<longleftrightarrow> off mod 8 + m \<le> 8 \<and> B + off div 8 < length ws"

lemma bits_of_byte: "8 * off mod 64 = 8 * (off mod 8)" "8 * off div 64 = off div (8 :: nat)"
  by (simp_all add: mult_mod_right [of 8 off 8, simplified] div_mult2_eq [of "8 * off" 8 8, simplified])

lemma inWord_bytes: "byteFits B off m ws \<Longrightarrow> inWord (8 * off) (8 * m)"
  by (simp add: byteFits_def inWord_def bits_of_byte)

lemma byte_position: "int B * 8 + int off = 8 * int (B + off div 8) + int (off mod (8::nat))"
proof -
  have "off = 8 * (off div 8) + off mod 8" by simp
  then have "int off = 8 * int (off div 8) + int (off mod 8)" by (metis of_nat_add of_nat_mult of_nat_numeral)
  then show ?thesis by simp
qed

lemma byte_range:
  assumes "byteFits B off m ws"
  shows "int B * 8 + int off + int m \<le> 8 * int (length ws)"
proof -
  have "8 * x + y + m \<le> 8 * l" if "y + m \<le> 8" "x < l" for x y l :: nat using that by simp
  then have "8 * (B + off div 8) + off mod 8 + m \<le> 8 * length ws" using assms by (simp only: byteFits_def)
  then have "int (8 * (B + off div 8) + off mod 8 + m) \<le> int (8 * length ws)" by (simp only: of_nat_le_iff)
  then show ?thesis using byte_position [of B off] by simp
qed

lemma setLE_mb:
  assumes "byteFits B off m ws"
  shows "setLE m (heapOf ws) (int B * 8 + int off) (nat (v mod 2 ^ (8 * m))) =
    Inr (heapOf (putBits ws B (8 * off) (8 * m) v))"
proof -
  have "setLE m (heapOf ws) (int B * 8 + int off) (nat (v mod 2 ^ (8 * m))) =
      Inr (heapOf (ws[B + off div 8 := putField m (off mod 8) (word_of_nat (nat (v mod 2 ^ (8 * m)))) (ws ! (B + off div 8))]))"
    unfolding byte_position using assms by (intro heapOf_update) (simp_all add: byteFits_def)
  moreover have "putField m (off mod 8) (word_of_nat (nat (v mod 2 ^ (8 * m)))) w =
      spliceBits (8 * off mod 64) (8 * m) (word_of_int (v mod 2 ^ (8 * m))) w" for w
    by (simp add: putField_def spliceBits_def bits_of_byte)
  ultimately have "setLE m (heapOf ws) (int B * 8 + int off) (nat (v mod 2 ^ (8 * m))) =
      Inr (heapOf (putBits ws B (8 * off) (8 * m) (v mod 2 ^ (8 * m))))"
    by (simp add: putBits_def bits_of_byte)
  then show ?thesis by (simp only: putBits_mod [OF inWord_bytes [OF assms]])
qed

lemma writeScalar_at:
  assumes "byteFits B off m ws" "\<And>bs i. put bs i v = setLE m bs i (nat (x mod 2 ^ (8 * m)))"
  shows "mbWriteScalar put (int m) name (mb ws) (int B * 8 + int off) v =
    Inr (mb (putBits ws B (8 * off) (8 * m) x))"
  using assms byte_range [OF assms(1)] setLE_mb [OF assms(1), of x]
  by (simp add: mbWriteScalar_def mbRequireByteRange_def mb_def)

lemma getLE_mb:
  assumes "byteFits B off m ws"
  shows "getLE m (bytesOf ws @ rest) (int B * 8 + int off) = Inr (nat (bitsAt ws B (8 * off) (8 * m)))"
proof -
  have "getLE m (bytesOf ws @ rest) (int B * 8 + int off) = Inr (unat (getField m (off mod 8) (ws ! (B + off div 8))))"
    unfolding byte_position using assms by (intro getLE_bytesOf) (simp_all add: byteFits_def)
  then show ?thesis by (simp add: bitsAt_def getField_def bits_of_byte)
qed

lemma readScalar_at:
  assumes "byteFits B off m ws" "int (off mod 8) + int m \<le> mx" "\<And>bs i. get bs i = bindE (getLE m bs i) (\<lambda>v. Inr (dec (int v)))"
  shows "readScalarAt get (int m) (readerOf ws) 0 (int B * 8 + int off) mx ctx =
    Inr (dec (bitsAt ws B (8 * off) (8 * m)))"
proof -
  have "(8 * x + y) div 8 * 8 = 8 * x" if "0 \<le> y" "y < 8" for x y :: int
    using that by presburger
  from this [of "int (off mod 8)" "int (B + off div 8)"]
  have "(int B * 8 + int off) div 8 * 8 = int B * 8 + int off - int (off mod 8)"
    unfolding byte_position by simp
  then have "\<not> int B * 8 + int off + int m > (int B * 8 + int off) div 8 * 8 + mx" using assms(2) by simp
  moreover have "0 \<le> bitsAt ws B (8 * off) (8 * m)" by (simp add: bitsAt_def)
  ultimately show ?thesis
    using byte_range [OF assms(1)] assms(3) getLE_mb [OF assms(1), of "[]"]
    by (simp add: readScalarAt_def requireDataByteRange_def mrSegment_def readerOf_def)
qed

lemma byteFits_zero: "byteFits B off m ws \<Longrightarrow> B + 8 * off div 64 < length ws"
  by (simp add: byteFits_def bits_of_byte)

text \<open>The width of a scalar of whole bytes.\<close>

definition byteWidth :: "TypeDescriptor \<Rightarrow> nat" where
  "byteWidth type = nat (dataByteOffset type 1)"

lemma and_255: "(v AND 255) mod 256 = v mod (256::int)" "(v AND 65535) mod 65536 = v mod (65536::int)"
proof -
  have "v AND 255 = take_bit 8 v" "v AND 65535 = take_bit 16 v" by (simp_all add: take_bit_eq_mask mask_eq_exp_minus_1)
  then show "(v AND 255) mod 256 = v mod 256" "(v AND 65535) mod 65536 = v mod 65536"
    by (simp_all add: take_bit_eq_mod)
qed

lemma unat_of_int64: "unat (word_of_int v :: 64 word) = nat (v mod 2 ^ 64)"
  by (simp add: unat_eq_nat_uint uint_word_of_int)

lemma writeScalar_mb:
  assumes "isDataType type" "type \<noteq> TVoid" "type \<noteq> TBool" "byteFits B off (byteWidth type) ws"
  shows "writeScalar type (mb ws) (int B * 8 + int off) v =
    Inr (mb (putBits ws B (8 * off) (8 * byteWidth type) (plainBits type False v)))"
proof -
  note defs = mbWriteInt8_def mbWriteInt16_def mbWriteInt32_def mbWriteBigInt64_def mbWriteUint8_def mbWriteUint16_def
    mbWriteUint32_def mbWriteBigUint64_def mbWriteFloat32_def mbWriteFloat64_def
  note sets = setUint8_def setUint16_def setUint32_def setBigUint64_def setFloat32_def setFloat64_def
  have w: "byteFits B off m ws \<Longrightarrow> (\<And>bs i. put bs i x = setLE m bs i (nat (y mod 2 ^ (8 * m)))) \<Longrightarrow>
      mbWriteScalar put (int m) name (mb ws) (int B * 8 + int off) x = Inr (mb (putBits ws B (8 * off) (8 * m) y))"
    for m put name x y by (rule writeScalar_at)
  show ?thesis
    using assms
    by (cases type)
      (auto simp: byteWidth_def defs sets and_255 unat_of_int64
        intro!: w [of 1, simplified] w [of 2, simplified] w [of 4, simplified] w [of 8, simplified])
qed

lemma asIntN_mod: "asIntN n (v mod 2 ^ n) = asIntN n v"
  by (simp add: asIntN_def)

lemma bitsAt_range: "0 \<le> bitsAt ws B s n" "n \<le> 64 \<Longrightarrow> bitsAt ws B s n < 2 ^ n"
proof -
  show "0 \<le> bitsAt ws B s n" by (simp add: bitsAt_def)
  have "bitsAt ws B s n = take_bit n (bitsAt ws B s n)" by (simp add: bitsAt_def unsigned_take_bit_eq)
  then show "bitsAt ws B s n < 2 ^ n" by (metis take_bit_int_less_exp)
qed

text \<open>The accessors as functions of the little-endian value.\<close>

lemma uint_of_small: "v < 2 ^ 64 \<Longrightarrow> uint (word_of_nat v :: 64 word) = int v"
  by (simp add: unsigned_of_nat take_bit_nat_eq_self)

lemma getBigUint64_LE:
  "bindE (getBigUint64 bs i) (\<lambda>w. Inr (f (uint w))) = bindE (getLE 8 bs i) (\<lambda>v. Inr (f (int v)))"
proof (cases "getLE 8 bs i")
  case (Inr v)
  then have "v < 2 ^ 64" using getLE_bound [of 8 bs i v] by simp
  then show ?thesis using Inr by (simp add: getBigUint64_def uint_of_small)
qed (simp add: getBigUint64_def)

lemma getter_LE:
  "getUint8 bs i = bindE (getLE 1 bs i) (\<lambda>v. Inr (int v))"
  "getUint16 bs i = bindE (getLE 2 bs i) (\<lambda>v. Inr (int v))"
  "getUint32 bs i = bindE (getLE 4 bs i) (\<lambda>v. Inr (int v))"
  "getBig bs i = bindE (getLE 8 bs i) (\<lambda>v. Inr (int v))"
  "getSigned n getUint8 bs i = bindE (getLE 1 bs i) (\<lambda>v. Inr (asIntN n (int v)))"
  "getSigned n getUint16 bs i = bindE (getLE 2 bs i) (\<lambda>v. Inr (asIntN n (int v)))"
  "getSigned n getUint32 bs i = bindE (getLE 4 bs i) (\<lambda>v. Inr (asIntN n (int v)))"
  "getSigned n getBig bs i = bindE (getLE 8 bs i) (\<lambda>v. Inr (asIntN n (int v)))"
  "getFloat32 bs i = bindE (getLE 4 bs i) (\<lambda>v. Inr (bitsFloat 8 23 (int v)))"
  "getFloat64 bs i = bindE (getLE 8 bs i) (\<lambda>v. Inr (bitsFloat 11 52 (int v)))"
  using getBigUint64_LE [of bs i "\<lambda>v. v"] getBigUint64_LE [of bs i "asIntN n"] getBigUint64_LE [of bs i "bitsFloat 11 52"]
  by (simp_all add: getUint8_def getUint16_def getUint32_def getBig_def getSigned_def getFloat32_def getFloat64_def
      bindE_assoc)

lemmas reader_defs = readUint8At_def readInt8At_def readUint16At_def readInt16At_def readUint32At_def readInt32At_def
  readBigUint64At_def readBigInt64At_def readFloat32At_def readFloat64At_def

lemmas reads_1 = readScalar_at [where m = 1, simplified]
lemmas reads_2 = readScalar_at [where m = 2, simplified]
lemmas reads_4 = readScalar_at [where m = 4, simplified]
lemmas reads_8 = readScalar_at [where m = 8, simplified]

lemma readers_at:
  assumes "byteFits B off m ws" "int (off mod 8) + int m \<le> mx"
  shows "m = 1 \<Longrightarrow> readUint8At (readerOf ws) 0 (int B * 8 + int off) mx ctx = Inr (bitsAt ws B (8 * off) 8)"
    "m = 1 \<Longrightarrow> readInt8At (readerOf ws) 0 (int B * 8 + int off) mx ctx = Inr (asIntN 8 (bitsAt ws B (8 * off) 8))"
    "m = 2 \<Longrightarrow> readUint16At (readerOf ws) 0 (int B * 8 + int off) mx ctx = Inr (bitsAt ws B (8 * off) 16)"
    "m = 2 \<Longrightarrow> readInt16At (readerOf ws) 0 (int B * 8 + int off) mx ctx = Inr (asIntN 16 (bitsAt ws B (8 * off) 16))"
    "m = 4 \<Longrightarrow> readUint32At (readerOf ws) 0 (int B * 8 + int off) mx ctx = Inr (bitsAt ws B (8 * off) 32)"
    "m = 4 \<Longrightarrow> readInt32At (readerOf ws) 0 (int B * 8 + int off) mx ctx = Inr (asIntN 32 (bitsAt ws B (8 * off) 32))"
    "m = 4 \<Longrightarrow> readFloat32At (readerOf ws) 0 (int B * 8 + int off) mx ctx = Inr (bitsFloat 8 23 (bitsAt ws B (8 * off) 32))"
    "m = 8 \<Longrightarrow> readBigUint64At (readerOf ws) 0 (int B * 8 + int off) mx ctx = Inr (bitsAt ws B (8 * off) 64)"
    "m = 8 \<Longrightarrow> readBigInt64At (readerOf ws) 0 (int B * 8 + int off) mx ctx = Inr (asIntN 64 (bitsAt ws B (8 * off) 64))"
    "m = 8 \<Longrightarrow> readFloat64At (readerOf ws) 0 (int B * 8 + int off) mx ctx = Inr (bitsFloat 11 52 (bitsAt ws B (8 * off) 64))"
  using assms
  by (simp_all add: reader_defs getter_LE reads_1 [where dec = "\<lambda>v. v"] reads_1 [where dec = "asIntN 8"]
      reads_2 [where dec = "\<lambda>v. v"] reads_2 [where dec = "asIntN 16"]
      reads_4 [where dec = "\<lambda>v. v"] reads_4 [where dec = "asIntN 32"] reads_4 [where dec = "bitsFloat 8 23"]
      reads_8 [where dec = "\<lambda>v. v"] reads_8 [where dec = "asIntN 64"] reads_8 [where dec = "bitsFloat 11 52"])

section \<open>Fields of a struct\<close>

text \<open>A struct at word \<open>W\<close> with \<open>D\<close> data words and \<open>P\<close> pointers.\<close>

definition structRef :: "nat \<Rightarrow> nat \<Rightarrow> nat \<Rightarrow> StructRef" where
  "structRef W D P = \<lparr>sr_segmentId = 0, sr_startWord = int W, sr_dataWordCount = int D, sr_pointerCount = int P\<rparr>"

lemma structRef_simps [simp]:
  "sr_segmentId (structRef W D P) = 0" "sr_startWord (structRef W D P) = int W"
  "sr_dataWordCount (structRef W D P) = int D" "sr_pointerCount (structRef W D P) = int P"
  by (simp_all add: structRef_def)

lemmas in_struct_defs = readUint8InStruct_def readInt8InStruct_def readUint16InStruct_def readInt16InStruct_def
  readUint32InStruct_def readInt32InStruct_def readBigUint64InStruct_def readBigInt64InStruct_def
  readFloat32InStruct_def readFloat64InStruct_def inStruct_def

lemma byteWidth_cases:
  assumes "isDataType type" "type \<noteq> TVoid" "type \<noteq> TBool"
  shows "byteWidth type \<in> {1, 2, 4, 8}" "dataWidth type = 8 * byteWidth type"
    "dataStart type offs = 8 * nat (dataByteOffset type offs)"
    "0 \<le> offs \<Longrightarrow> dataByteOffset type offs = int (byteWidth type * nat offs)"
  using assms by (cases type; simp add: byteWidth_def dataWidth_def dataStart_def)+

lemma aligned_in_word:
  assumes "m \<in> {1, 2, 4, 8 :: nat}"
  shows "m * k mod 8 + m \<le> 8"
proof -
  have "2 * k mod 8 \<le> 6" "4 * k mod 8 \<le> 4" by presburger+
  then show ?thesis using assms by auto
qed

text \<open>The byte of a bit.\<close>

lemma byteFits_struct:
  assumes "off mod 8 + m \<le> 8" "8 * off + 8 * m \<le> 64 * D" "0 < m" "W + D \<le> length ws"
  shows "byteFits W off m ws"
proof -
  have "off < 8 * D" using assms(2,3) by simp
  then have "off div 8 < D" by (simp add: div_less_iff_less_mult mult.commute)
  then show ?thesis using assms(1,4) by (simp add: byteFits_def)
qed

lemma scalar_fits:
  assumes "isDataType type" "type \<noteq> TVoid" "type \<noteq> TBool" "0 \<le> offs"
    "dataStart type offs + dataWidth type \<le> 64 * D" "W + D \<le> length ws"
  obtains off where "dataByteOffset type offs = int off" "dataStart type offs = 8 * off"
    "byteFits W off (byteWidth type) ws" "off mod 8 + byteWidth type \<le> 8" "0 < D"
proof -
  note c = byteWidth_cases [OF assms(1-3)]
  let ?off = "byteWidth type * nat offs"
  have al: "?off mod 8 + byteWidth type \<le> 8" by (rule aligned_in_word [OF c(1)])
  have st: "dataStart type offs = 8 * ?off" using c(3,4) assms(4) by (simp add: nat_mult_distrib)
  have pos: "0 < byteWidth type" using c(1) by auto
  have le: "8 * ?off + 8 * byteWidth type \<le> 64 * D" using assms(5) st c(2) by simp
  then have "0 < D" using pos by (cases D) auto
  then show ?thesis
    using that [of ?off] c(4) [OF assms(4)] st al byteFits_struct [OF al le pos assms(6)] by blast
qed

lemma readScalarInStruct_at:
  assumes "isDataType type" "type \<noteq> TVoid" "type \<noteq> TBool" "byteFits W off (byteWidth type) ws"
    "off mod 8 + byteWidth type \<le> 8" "0 < D"
  shows "readScalarInStruct type (readerOf ws) (structRef W D P) (int off) =
    Inr (valueOfBits type (bitsAt ws W (8 * off) (8 * byteWidth type)))"
proof -
  have mx: "int (off mod 8) + int (byteWidth type) \<le> int D * 8" using assms(5,6) by linarith
  note r = readers_at [OF assms(4) mx]
  show ?thesis
    using assms(1-3) r by (cases type)
      (simp_all add: byteWidth_def in_struct_defs jnum_def jbig_def jfloat_def)
qed

lemma readScalarBits_at:
  assumes "isDataType type" "type \<noteq> TVoid" "type \<noteq> TBool" "byteFits W off (byteWidth type) ws"
    "off mod 8 + byteWidth type \<le> 8" "0 < D"
  shows "readScalarBits (int (byteWidth type)) (readerOf ws) (structRef W D P) (int off) type =
    Inr (bitsAt ws W (8 * off) (8 * byteWidth type))"
proof -
  have mx: "int (off mod 8) + int (byteWidth type) \<le> int D * 8" using assms(5,6) by linarith
  note r = readers_at [OF assms(4) mx]
  show ?thesis
    using assms(1-3) r by (cases type) (simp_all add: byteWidth_def in_struct_defs readScalarBits_def)
qed

section \<open>Booleans\<close>

lemma byte_of_bit:
  fixes s :: nat
  shows "8 * (s div 8) + s mod 8 = s" "8 * (s div 8) div 64 = s div 64" "8 * (s div 8) mod 64 + s mod 8 = s mod 64"
proof -
  show "8 * (s div 8) + s mod 8 = s" by simp
  have "s mod 64 = 8 * (s div 8 mod 8) + s mod 8" using mod_mult2_eq [of s 8 8] by simp
  then show "8 * (s div 8) mod 64 + s mod 8 = s mod 64" by (simp add: bits_of_byte)
  show "8 * (s div 8) div 64 = s div 64" by (simp add: bits_of_byte flip: div_mult2_eq)
qed

lemma bitsAt_1: "bitsAt ws B s 1 = of_bool (bitAt ws B s)"
proof (rule bit_eqI)
  fix j
  have "inWord s 1" using mod_less_divisor [of 64 s] by (simp add: inWord_def del: mod_less_divisor)
  then show "bit (bitsAt ws B s 1) j = bit (of_bool (bitAt ws B s) :: int) j"
    by (auto simp: bit_bitsAt bit_of_bool_iff)
qed

lemma byte_bit:
  assumes "byteFits B (s div 8) 1 ws"
  shows "bit (bitsAt ws B (8 * (s div 8)) 8) (s mod 8) = bitAt ws B s"
  using bit_bitsAt [OF inWord_bytes [OF assms], of ws B "s mod 8"] byte_of_bit(1) [of s] by simp

lemma nth_putBits_bit:
  assumes "B + s div 64 < length ws" "k < 64"
  shows "bit (putBits ws B s n v ! (B + s div 64)) k \<longleftrightarrow>
    (if s mod 64 \<le> k \<and> k < s mod 64 + n then bit v (k - s mod 64) else bit (ws ! (B + s div 64)) k)"
  using assms by (auto simp: putBits_def bit_spliceBits bit_word_of_int_iff)

lemma byte_word_bit:
  assumes "inWord t 8" "t mod 64 \<le> j" "j < t mod 64 + 8"
  shows "bit (bitsAt ws B t 8) (j - t mod 64) = bit (ws ! (B + t div 64)) j"
proof -
  obtain i where i: "j = t mod 64 + i" "i < 8" using assms(2,3) le_Suc_ex by auto
  have "(t + i) div 64 = t div 64" "(t + i) mod 64 = t mod 64 + i"
    using inWord_div [OF assms(1), of "t + i"] i(2) by simp_all
  then show ?thesis using bit_bitsAt [OF assms(1), of ws B i] i by (simp add: bitAt_def)
qed

lemma putBits_byte_bit:
  assumes f: "byteFits B (s div 8) 1 ws"
    and v: "\<And>i. i < 8 \<Longrightarrow> bit v i = (if i = s mod 8 then x else bit (bitsAt ws B (8 * (s div 8)) 8) i)"
  shows "putBits ws B (8 * (s div 8)) 8 v = putBits ws B s 1 (of_bool x)"
proof (rule nth_equalityI)
  fix k assume "k < length (putBits ws B (8 * (s div 8)) 8 v)"
  note bb = byte_of_bit [of s]
  have lt: "B + s div 64 < length ws" using f bb(2) by (simp add: byteFits_def bits_of_byte flip: div_mult2_eq)
  let ?t = "8 * (s div 8)"
  show "putBits ws B ?t 8 v ! k = putBits ws B s 1 (of_bool x) ! k"
  proof (cases "k = B + s div 64")
    case True
    have "bit (putBits ws B ?t 8 v ! (B + s div 64)) j = bit (putBits ws B s 1 (of_bool x) ! (B + s div 64)) j" if "j < 64" for j
    proof -
      have l: "bit (putBits ws B ?t 8 v ! (B + s div 64)) j =
          (if ?t mod 64 \<le> j \<and> j < ?t mod 64 + 8 then bit v (j - ?t mod 64) else bit (ws ! (B + s div 64)) j)"
        using nth_putBits_bit [of B ?t ws j 8 v] lt that bb(2) by simp
      have r: "bit (putBits ws B s 1 (of_bool x) ! (B + s div 64)) j =
          (if j = s mod 64 then x else bit (ws ! (B + s div 64)) j)"
        using nth_putBits_bit [OF lt that, of 1 "of_bool x"] by (auto simp: bit_of_bool_iff)
      show ?thesis
      proof (cases "?t mod 64 \<le> j \<and> j < ?t mod 64 + 8")
        case True
        let ?i = "j - ?t mod 64"
        have i: "?i < 8" using True by linarith
        have "bit (bitsAt ws B ?t 8) ?i = bit (ws ! (B + s div 64)) j"
          using byte_word_bit [OF inWord_bytes [OF f, simplified mult_1_right] True [THEN conjunct1] True [THEN conjunct2]]
          unfolding bb(2) .
        moreover have "?i = s mod 8 \<longleftrightarrow> j = s mod 64" using bb(3) True by linarith
        ultimately show ?thesis unfolding l r using v [OF i] True by presburger
      next
        case False
        have "s mod 8 < 8" by simp
        then have "j \<noteq> s mod 64" using False bb(3) by linarith
        then show ?thesis using l r False by simp
      qed
    qed
    from this show ?thesis unfolding True by (rule bit_word_eqI) simp
  next
    case False
    then show ?thesis using bb(2) by (simp add: nth_putBits)
  qed
qed simp

lemma mbSetBool_mb:
  assumes f: "byteFits B (s div 8) 1 ws"
  shows "mbSetBool (mb ws) (int B * 8 + int (s div 8)) (s mod 8) x = Inr (mb (putBits ws B s 1 (of_bool x)))"
proof -
  let ?o = "s div 8" and ?j = "s mod 8"
  let ?cur = "bitsAt ws B (8 * ?o) 8"
  let ?new = "if x then ?cur OR push_bit ?j 1 else ?cur AND NOT (push_bit ?j 1)"
  have get: "getUint8 (heapOf ws) (int B * 8 + int ?o) = Inr ?cur"
    using getLE_mb [OF f] bitsAt_range(1) by (simp add: getUint8_def heapOf_def)
  have "\<And>i. i < 8 \<Longrightarrow> bit ?new i = (if i = ?j then x else bit ?cur i)"
    by (auto simp: bit_simps)
  then have new: "putBits ws B (8 * ?o) 8 ?new = putBits ws B s 1 (of_bool x)" by (rule putBits_byte_bit [OF f])
  have rng: "mbRequireByteRange (mb ws) (int B * 8 + int ?o) 1 ctx = Inr ()" for ctx
    using byte_range [OF f] by (intro mbRequireByteRange_mb) simp_all
  have set: "setUint8 (heapOf ws) (int B * 8 + int ?o) v = Inr (heapOf (putBits ws B (8 * ?o) 8 v))" for v
    using setLE_mb [OF f, of v] by (simp add: setUint8_def)
  have upd: "mb ws\<lparr>mb_bytes := heapOf us\<rparr> = mb us" if "length us = length ws" for us
    using that by (simp add: mb_def)
  have "mb_bytes (mb ws) = heapOf ws" by (simp add: mb_def)
  then show ?thesis
    unfolding mbSetBool_def rng bindE_Inr Let_def by (simp only: get bindE_Inr set upd length_putBits new)
qed

lemma readBool_at:
  assumes "8 * (s div 8) + 8 \<le> 64 * D" "W + D \<le> length ws"
  shows "readBool (readerOf ws) (structRef W D P) (int s) = Inr (bitAt ws W s)"
proof -
  have f: "byteFits W (s div 8) 1 ws" by (rule byteFits_struct [where D = D]) (use assms in simp_all)
  have "0 < D" using assms(1) by (cases D) simp_all
  then have mx: "int (s div 8 mod 8) + int 1 \<le> int D * 8" by presburger
  have "readUint8At (readerOf ws) 0 (int W * 8 + int (s div 8)) (int D * 8) ctx = Inr (bitsAt ws W (8 * (s div 8)) 8)" for ctx
    using readers_at(1) [OF f mx refl] .
  then show ?thesis
    using byte_bit [OF f] by (simp add: readBool_def in_struct_defs bit_iff_and_push_bit_not_eq_0 zdiv_int nat_mod_distrib)
qed

lemma dataWidth_le: "isDataType type \<Longrightarrow> dataWidth type \<le> 64"
  by (cases type) (simp_all add: dataWidth_def)

lemma field_inWord:
  assumes "isDataType type" "0 \<le> offs"
  shows "inWord (dataStart type offs) (dataWidth type)"
proof (cases "type = TVoid \<or> type = TBool")
  case True
  then show ?thesis
    using mod_less_divisor [of 64 "dataStart type offs"] by (auto simp: inWord_def dataWidth_def simp del: mod_less_divisor)
next
  case False
  then have c: "type \<noteq> TVoid" "type \<noteq> TBool" by simp_all
  note b = byteWidth_cases [OF assms(1) c]
  have "byteWidth type * nat offs mod 8 + byteWidth type \<le> 8" by (rule aligned_in_word [OF b(1)])
  then show ?thesis
    using b(2,3,4) assms(2) by (simp add: inWord_def bits_of_byte nat_mult_distrib)
qed

lemma putBits_0 [simp]: "putBits ws B s 0 v = ws"
  by (simp add: putBits_def spliceBits_def)

text \<open>The bits a data field writes: the value's, with the default mixed in.\<close>

definition wireBits :: "TypeDescriptor \<Rightarrow> int \<Rightarrow> js_value \<Rightarrow> int" where
  "wireBits type msk v = bitsOfValue type (msk \<noteq> 0) v XOR msk"

lemma xor_range:
  assumes "0 \<le> a" "a < 2 ^ n" "0 \<le> b" "b < 2 ^ n"
  shows "0 \<le> a XOR b" "(a XOR b :: int) < 2 ^ n"
proof -
  show "0 \<le> a XOR b" using assms(1,3) by simp
  have "take_bit n a = a" "take_bit n b = b" using assms by (simp_all add: take_bit_int_eq_self)
  then have "take_bit n (a XOR b) = a XOR b" by (simp add: take_bit_xor)
  then show "a XOR b < 2 ^ n" by (metis take_bit_int_less_exp)
qed

lemma bitsOfValue_range: "0 \<le> bitsOfValue type masked v" "bitsOfValue type masked v < 2 ^ dataWidth type"
  by (simp_all add: bitsOfValue_def)

lemma wireBits_mod:
  assumes "0 \<le> msk" "msk < 2 ^ dataWidth type"
  shows "wireBits type msk v mod 2 ^ dataWidth type = wireBits type msk v"
  using xor_range(1,2) [OF bitsOfValue_range assms] by (simp add: wireBits_def)

lemma scalarBits_ok:
  assumes "isDataType type" "type \<noteq> TVoid" "type \<noteq> TBool" "sendableScalar type True v"
  shows "scalarBits type v = Inr (plainBits type True v)"
proof -
  have "truncNum x = toInt x" if "isInteger x" for x
    using that by (auto simp: isInteger_iff)
  then show ?thesis using assms by (cases type) (simp_all add: toBigInt_def sendableScalar_def)
qed

lemma writeWidth_mb:
  assumes "byteFits B off m ws"
  shows "m = 1 \<Longrightarrow> mbWriteUint8 (mb ws) (int B * 8 + int off) v = Inr (mb (putBits ws B (8 * off) 8 v))"
    "m = 2 \<Longrightarrow> mbWriteUint16 (mb ws) (int B * 8 + int off) v = Inr (mb (putBits ws B (8 * off) 16 v))"
    "m = 4 \<Longrightarrow> mbWriteUint32 (mb ws) (int B * 8 + int off) v = Inr (mb (putBits ws B (8 * off) 32 v))"
    "m = 8 \<Longrightarrow> mbWriteBigUint64 (mb ws) (int B * 8 + int off) v = Inr (mb (putBits ws B (8 * off) 64 v))"
  using assms
  by (auto simp: mbWriteUint8_def mbWriteUint16_def mbWriteUint32_def mbWriteBigUint64_def
      setUint8_def setUint16_def setUint32_def setBigUint64_def and_255 unat_of_int64
      intro!: writeScalar_at [where m = 1, simplified] writeScalar_at [where m = 2, simplified]
        writeScalar_at [where m = 4, simplified] writeScalar_at [where m = 8, simplified])

lemma byte_below:
  fixes s :: nat
  assumes "s < 64 * D"
  shows "8 * (s div 8) + 8 \<le> 64 * D"
proof -
  have "s div 8 < 8 * D" using assms by (simp add: div_less_iff_less_mult mult.commute)
  then show ?thesis by simp
qed

lemma bool_start: "dataStart TBool offs = nat offs" "dataWidth TBool = 1" "dataWidth TVoid = 0"
  by (simp_all add: dataStart_def dataWidth_def)

text \<open>Writing a data field puts its bits.\<close>

lemma encodeDataField_mb:
  assumes t: "isDataType type" and o: "0 \<le> offs" "dataStart type offs + dataWidth type \<le> 64 * D" "W + D \<le> length ws"
    and m: "0 \<le> msk" "msk < 2 ^ dataWidth type" and v: "sendableScalar type (msk \<noteq> 0) v"
  shows "encodeDataField (mb ws) (int W) offs type v msk =
    Inr (mb (putBits ws W (dataStart type offs) (dataWidth type) (wireBits type msk v)))"
proof (cases "type = TVoid \<or> type = TBool")
  case True
  show ?thesis
  proof (cases "type = TVoid")
    case True
    then show ?thesis using m by (simp add: encodeDataField_def bool_start)
  next
    case False
    with True have ty: "type = TBool" by simp
    let ?s = "nat offs"
    have "8 * (?s div 8) + 8 \<le> 64 * D"
    proof -
      have "?s < 64 * D" using o(2) by (simp add: ty bool_start)
      then show ?thesis by (rule byte_below)
    qed
    then have f: "byteFits W (?s div 8) 1 ws"
      by (intro byteFits_struct [where D = D]) (use o in simp_all)
    have "wireBits TBool msk v = of_bool (asBoolean v \<noteq> (msk \<noteq> 0))"
    proof -
      have "msk = 0 \<or> msk = 1" using m by (simp add: ty bool_start) linarith
      then show ?thesis by (cases "asBoolean v") (auto simp: wireBits_def bitsOfValue_def bool_start)
    qed
    moreover have "int W * 8 + offs div 8 = int W * 8 + int (?s div 8)" "nat (offs mod 8) = ?s mod 8"
      using o(1) by (simp_all add: zdiv_int nat_mod_distrib)
    ultimately show ?thesis
      using mbSetBool_mb [OF f] by (simp add: ty encodeDataField_def encodeDataWithDefault_def bool_start)
  qed
next
  case False
  then have c: "type \<noteq> TVoid" "type \<noteq> TBool" by simp_all
  note b = byteWidth_cases [OF t c]
  obtain off where off: "dataByteOffset type offs = int off" "dataStart type offs = 8 * off"
    "byteFits W off (byteWidth type) ws" using scalar_fits [OF t c o] by blast
  show ?thesis
  proof (cases "msk = 0")
    case True
    have "putBits ws W (8 * off) (8 * byteWidth type) (plainBits type False v) =
        putBits ws W (8 * off) (8 * byteWidth type) (wireBits type 0 v)"
      using putBits_mod [OF inWord_bytes [OF off(3)]] b(2) by (simp add: wireBits_def bitsOfValue_def)
    then show ?thesis
      using writeScalar_mb [OF t c off(3)] True c b(2) off by (simp add: encodeDataField_def)
  next
    case False
    have w: "dataByteOffset type 1 = int (byteWidth type)" using b(4) [of 1] by simp
    have "(plainBits type True v mod 2 ^ nat (int (byteWidth type) * 8)) XOR msk = wireBits type msk v"
      using False b(2) by (simp add: wireBits_def bitsOfValue_def nat_mult_distrib mult.commute)
    moreover have "scalarBits type v = Inr (plainBits type True v)" using scalarBits_ok [OF t c] v False by simp
    ultimately show ?thesis
      using False c b(1,2) off w writeWidth_mb [OF off(3)]
      by (auto simp: encodeDataField_def encodeDataWithDefault_def Let_def)
  qed
qed

lemma valueOfBits_from:
  assumes "isDataType type" "type \<noteq> TVoid" "type \<noteq> TBool" "0 \<le> bits" "bits < 2 ^ dataWidth type"
  shows "scalarFromBits type (int (byteWidth type)) bits = valueOfBits type bits"
  using assms by (cases type) (simp_all add: scalarFromBits_def byteWidth_def dataWidth_def)

text \<open>Reading it gives the value of the bits there.\<close>

lemma decodeDataField_readerOf:
  assumes t: "isDataType type" and o: "0 \<le> offs" "dataStart type offs + dataWidth type \<le> 64 * D" "W + D \<le> length ws"
    and m: "0 \<le> msk" "msk < 2 ^ dataWidth type"
  shows "decodeDataField (readerOf ws) (structRef W D P) offs type msk =
    Inr (valueOfBits type (bitsAt ws W (dataStart type offs) (dataWidth type) XOR msk))"
proof (cases "type = TVoid \<or> type = TBool")
  case True
  show ?thesis
  proof (cases "type = TVoid")
    case True
    then show ?thesis using m by (simp add: decodeDataField_def bool_start)
  next
    case False
    with True have ty: "type = TBool" by simp
    let ?s = "nat offs"
    have "?s < 64 * D" using o(2) by (simp add: ty bool_start)
    then have "8 * (?s div 8) + 8 \<le> 64 * D" by (rule byte_below)
    from readBool_at [OF this o(3), of P] have "readBool (readerOf ws) (structRef W D P) offs = Inr (bitAt ws W ?s)"
      using o(1) by simp
    moreover have "msk = 0 \<or> msk = 1" using m by (simp add: ty bool_start) linarith
    ultimately show ?thesis
      by (auto simp: ty decodeDataField_def decodeDataWithDefault_def bool_start bitsAt_1 [simplified])
  qed
next
  case False
  then have c: "type \<noteq> TVoid" "type \<noteq> TBool" by simp_all
  note b = byteWidth_cases [OF t c]
  obtain off where off: "dataByteOffset type offs = int off" "dataStart type offs = 8 * off"
    "byteFits W off (byteWidth type) ws" "off mod 8 + byteWidth type \<le> 8" "0 < D" using scalar_fits [OF t c o] by blast
  let ?bits = "bitsAt ws W (8 * off) (8 * byteWidth type)"
  have rng: "0 \<le> ?bits" "?bits < 2 ^ dataWidth type"
    using bitsAt_range dataWidth_le [OF t] b(2) by simp_all
  have w: "dataByteOffset type 1 = int (byteWidth type)" using b(4) [of 1] by simp
  show ?thesis
  proof (cases "msk = 0")
    case True
    then show ?thesis
      using readScalarInStruct_at [OF t c off(3-5)] c off b(2) by (simp add: decodeDataField_def)
  next
    case False
    have "scalarFromBits type (int (byteWidth type)) (?bits XOR msk) = valueOfBits type (?bits XOR msk)"
      by (rule valueOfBits_from [OF t c xor_range(1,2) [OF rng m]])
    then show ?thesis
      using readScalarBits_at [OF t c off(3-5)] c off b(2) w False
      by (simp add: decodeDataField_def decodeDataWithDefault_def Let_def)
  qed
qed

end
