(* ===== verification/Codec_Pointers.thy ===== *)
theory Codec_Pointers
  imports Codec_Fields
begin

unbundle bit_operations_syntax

text \<open>
  The pointers of the codec on the words of a segment: what the reader makes of a pointer word in
  any memory that holds its content, text and data, and the lists of scalars.
\<close>

section \<open>Reading pointers\<close>

lemma flatListWords_0: "flatListWords sz 0 = 0"
  by (simp add: flatListWords_def ceilDiv_def)

lemma pointer_at:
  assumes "i < length ws" "pointerKind (ws ! i) \<noteq> 2"
  shows "readResolvedPointer (readerOf ws) 0 (int i) =
    Inr \<lparr>up_segmentId = 0, up_pointerWord = int i, up_word = ws ! i, up_contentWord = None\<rparr>"
  using assms by (intro resolved_readerOf) (simp_all add: memOf_def)

lemma null_at:
  assumes "i < length ws" "ws ! i = 0"
  shows "readStructPointer (readerOf ws) 0 (int i) = Inr None" "readListPointer (readerOf ws) 0 (int i) = Inr None"
  using pointer_at [of i ws] assms by (simp_all add: readStructPointer_def readListPointer_def pointerKind_zero)

lemma word_at:
  "i < length ws \<Longrightarrow> pointerKind (ws ! i) \<noteq> 2 \<Longrightarrow> readResolvedPointerWord (readerOf ws) 0 (int i) = Inr (ws ! i)"
  using pointer_at [of i ws] by (simp add: readResolvedPointerWord_def)

lemma structPtr_nonzero:
  assumes "inOffsetRange off" "0 \<le> d" "d < 2 ^ 16" "0 \<le> p" "p < 2 ^ 16" "off = 0 \<Longrightarrow> d \<noteq> 0 \<or> p \<noteq> 0"
  shows "structPtr off d p \<noteq> 0"
proof
  assume z: "structPtr off d p = 0"
  note f = structPtr_fields [OF assms(1-5)]
  have "off = 0" "d = 0" "p = 0"
    using f unfolding z by (simp_all add: pointerOffset_def structDataWords_def structPointerCount_def signed30_def)
  then show False using assms(6) by simp
qed

lemma struct_at_word:
  assumes "i < length ws" "ws ! i = structPtr off (int D) (int P)" "inOffsetRange off" "D < 2 ^ 16" "P < 2 ^ 16"
    "off = 0 \<Longrightarrow> D \<noteq> 0 \<or> P \<noteq> 0" "int i + 1 + off = int W" "W + D + P \<le> length ws"
  shows "readStructPointer (readerOf ws) 0 (int i) = Inr (Some (structRef W D P))" "ws ! i \<noteq> 0" "pointerKind (ws ! i) = 0"
proof -
  have b: "(0::int) \<le> int D" "int D < 2 ^ 16" "(0::int) \<le> int P" "int P < 2 ^ 16" using assms(4,5) by simp_all
  note f = structPtr_fields [OF assms(3) b]
  show nz: "ws ! i \<noteq> 0" unfolding assms(2) by (rule structPtr_nonzero [OF assms(3) b]) (use assms(6) in simp)
  show k: "pointerKind (ws ! i) = 0" using f assms(2) by simp
  have "mrRequireWordRange (readerOf ws) 0 (int W) (int D + int P) ctx = Inr ()" for ctx
    using assms(8) by (intro mrRequireWordRange_readerOf) (simp_all add: fitsIn_def)
  then show "readStructPointer (readerOf ws) 0 (int i) = Inr (Some (structRef W D P))"
    using pointer_at [OF assms(1)] k nz f assms(2,7) by (simp add: readStructPointer_def structRef_def Let_def)
qed

lemma flat_at_word:
  assumes "i < length ws" "ws ! i = listPtr off sz n" "inOffsetRange off" "0 \<le> sz" "sz \<le> 6" "0 \<le> n" "n < 2 ^ 29"
    "int i + 1 + off = int B" "int B + flatListWords sz n \<le> int (length ws)"
  shows "readListPointer (readerOf ws) 0 (int i) = Inr (Some (FlatList 0 (int B) sz n))" "ws ! i \<noteq> 0"
    "pointerKind (ws ! i) = 1"
proof -
  have sz: "sz < 2 ^ 3" using assms(5) by simp
  note f = listPtr_fields [OF assms(3,4) sz assms(6,7)]
  show nz: "ws ! i \<noteq> 0" unfolding assms(2) by (rule listPtr_nonzero)
  show k: "pointerKind (ws ! i) = 1" using f assms(2) by simp
  have "mrRequireWordRange (readerOf ws) 0 (int B) (flatListWords sz n) ctx = Inr ()" for ctx
    using assms(6,9) flatListWords_nonneg by (intro mrRequireWordRange_readerOf) (simp_all add: fitsIn_def)
  then show "readListPointer (readerOf ws) 0 (int i) = Inr (Some (FlatList 0 (int B) sz n))"
    using pointer_at [OF assms(1)] k nz f assms(2,4,5,8) by (simp add: readListPointer_def mrFlatListWords_eq Let_def)
qed

lemma composite_at_word:
  assumes "i < length ws" "ws ! i = listPtr off 7 (int ((D + P) * n))" "inOffsetRange off" "(D + P) * n < 2 ^ 29" "n < 2 ^ 29"
    "int i + 1 + off = int B" "B + 1 + (D + P) * n \<le> length ws" "ws ! B = structPtr (int n) (int D) (int P)"
    "D < 2 ^ 16" "P < 2 ^ 16"
  shows "readListPointer (readerOf ws) 0 (int i) =
      Inr (Some (InlineComposite 0 (int B) (int n) (int D) (int P) (int ((D + P) * n))))"
    "ws ! i \<noteq> 0" "pointerKind (ws ! i) = 1"
proof -
  obtain M where M: "M = int ((D + P) * n)" by blast
  have "int ((D + P) * n) < int (2 ^ 29)" using assms(4) by (simp only: of_nat_less_iff)
  then have m: "0 \<le> M" "M < 2 ^ 29" unfolding M by simp_all
  have t: "(0::int) \<le> int n" "int n < 2 ^ 29" "(0::int) \<le> int D" "int D < 2 ^ 16" "(0::int) \<le> int P" "int P < 2 ^ 16"
    using assms(5,9,10) by simp_all
  note f = listPtr_fields [OF assms(3) _ _ m, of 7, simplified] and g = tagPtr_fields [OF t]
  note w = assms(2) [folded M]
  show nz: "ws ! i \<noteq> 0" unfolding w by (rule listPtr_nonzero)
  show k: "pointerKind (ws ! i) = 1" using f(1) w by simp
  have r1: "mrRequireWordRange (readerOf ws) 0 (int B) 1 ctx = Inr ()" for ctx
    using assms(7) by (intro mrRequireWordRange_readerOf) (simp_all add: fitsIn_def)
  have "int (B + 1 + (D + P) * n) \<le> int (length ws)" using assms(7) by (simp only: of_nat_le_iff)
  then have "int B + 1 + M \<le> int (length ws)" unfolding M by simp
  then have r2: "mrRequireWordRange (readerOf ws) 0 (int B + 1) M ctx = Inr ()" for ctx
    using m by (intro mrRequireWordRange_readerOf) (simp_all add: fitsIn_def)
  have rd: "mrReadWord (readerOf ws) 0 (int B) = Inr (ws ! B)"
    using assms(7) by (simp add: mrReadWord_readerOf memOf_def)
  have le: "\<not> M < (int D + int P) * int n" unfolding M by simp
  have k2: "pointerKind (ws ! i) \<noteq> 2" using k by simp
  show "readListPointer (readerOf ws) 0 (int i) =
      Inr (Some (InlineComposite 0 (int B) (int n) (int D) (int P) (int ((D + P) * n))))"
    unfolding readListPointer_def pointer_at [OF assms(1) k2] Let_def M [symmetric]
    using f assms(6,8) r1 r2 rd g le by (simp add: w listPtr_nonzero)
qed

section \<open>Text and data\<close>

text \<open>A memory that holds the words \<open>us\<close> from word \<open>B\<close> on.\<close>

definition holds :: "64 word list \<Rightarrow> nat \<Rightarrow> 64 word list \<Rightarrow> bool" where
  "holds ws B us \<longleftrightarrow> B + length us \<le> length ws \<and> (\<forall>k < length us. ws ! (B + k) = us ! k)"

lemma holds_split: "holds ws B us \<Longrightarrow> ws = take B ws @ us @ drop (B + length us) ws"
  by (rule nth_equalityI) (auto simp: holds_def nth_append min_def add.commute)

lemma holds_block:
  assumes "length (ws @ us) \<le> length ws2" "\<forall>k. length ws \<le> k \<and> k < length (ws @ us) \<longrightarrow> ws2 ! k = ws' ! k"
    "\<forall>k < length us. ws' ! (length ws + k) = us ! k"
  shows "holds ws2 (length ws) us"
  using assms by (auto simp: holds_def)

lemma readBytes_holds:
  assumes h: "holds ws B (padWords m bs)" and l: "length bs \<le> 8 * m" "n \<le> 8 * m"
  shows "readBytes (readerOf ws) 0 (int B * 8) (int n) = Inr (take n (bs @ replicate (8 * m - length bs) 0))"
proof -
  let ?us = "take B ws" and ?rest = "drop (B + m) ws"
  have w: "ws = ?us @ padWords m bs @ ?rest" using holds_split [OF h] by simp
  have B: "length ?us = B" using h by (simp add: holds_def)
  have s: "subarray (bytesOf ws) (int B * 8) (int B * 8 + int n) = take n (bs @ replicate (8 * m - length bs) 0)"
    using slice_words [OF l, of ?us ?rest] unfolding B w [symmetric] .
  have "8 * B + n \<le> length (bytesOf ws)" using h l(2) by (simp add: holds_def)
  then have "\<not> int B * 8 + int n > int (length (bytesOf ws))" by simp
  moreover have "mrSegment (readerOf ws) 0 = Inr (bytesOf ws)"
    by (simp add: mrSegment_def readerOf_def segmentAt_def)
  ultimately show ?thesis by (simp only: readBytes_def bindE_Inr s if_False) simp
qed

lemma byteWords_ge: "n \<le> 8 * nat (ceilDiv (int n) 8)"
proof -
  have "int n \<le> ceilDiv (int n) 8 * 8" by (rule ceilDiv_upper) simp
  then show ?thesis using ceilDiv_nonneg [of "int n" 8] by linarith
qed

lemma byte_list_at:
  assumes "i < length ws" "ws ! i = listPtr off 2 (int n)" "inOffsetRange off" "n < 2 ^ 29" "int i + 1 + off = int B"
    "holds ws B (padWords (nat (ceilDiv (int n) 8)) bs)"
  shows "readListPointer (readerOf ws) 0 (int i) = Inr (Some (FlatList 0 (int B) 2 (int n)))" "ws ! i \<noteq> 0"
    "pointerKind (ws ! i) = 1"
proof -
  have "flatListWords 2 (int n) = ceilDiv (int n) 8" by (simp add: flatListWords_def)
  then have le: "int B + flatListWords 2 (int n) \<le> int (length ws)"
    using assms(6) ceilDiv_nonneg [of "int n" 8] by (auto simp: holds_def)
  note f = flat_at_word [OF assms(1-3) _ _ _ _ assms(5) le]
  show "readListPointer (readerOf ws) 0 (int i) = Inr (Some (FlatList 0 (int B) 2 (int n)))" "ws ! i \<noteq> 0"
    "pointerKind (ws ! i) = 1"
    using f assms(4) by simp_all
qed

lemma text_at:
  assumes "i < length ws" "ws ! i = listPtr off 2 (int (length (textEncode s) + 1))" "inOffsetRange off"
    "length (textEncode s) + 1 < 2 ^ 29" "int i + 1 + off = int B" "wfString s"
    "holds ws B (padWords (nat (ceilDiv (int (length (textEncode s) + 1)) 8)) (textEncode s))"
  shows "readTextPointer (readerOf ws) 0 (int i) = Inr (Some s)"
proof -
  let ?bs = "textEncode s" and ?m = "nat (ceilDiv (int (length (textEncode s) + 1)) 8)"
  have l: "length ?bs + 1 \<le> 8 * ?m" by (rule byteWords_ge)
  have "8 * ?m - length ?bs = Suc (8 * ?m - length ?bs - 1)" using l by simp
  then have "replicate (8 * ?m - length ?bs) (0 :: byte) = 0 # replicate (8 * ?m - length ?bs - 1) 0"
    by (metis replicate_Suc)
  then have tk: "take (length ?bs + 1) (?bs @ replicate (8 * ?m - length ?bs) 0) = ?bs @ [0]" by simp
  have rd: "readBytes (readerOf ws) 0 (int B * 8) (int (length ?bs + 1)) = Inr (?bs @ [0])"
    unfolding tk [symmetric] by (rule readBytes_holds [OF assms(7) _ l]) (use l in simp)
  show ?thesis
    using byte_list_at(1) [OF assms(1-5) assms(7)] rd textDecodeStrict_textEncode [OF assms(6)]
    by (simp add: readTextPointer_def)
qed

lemma data_at:
  assumes "i < length ws" "ws ! i = listPtr off 2 (int (length bs))" "inOffsetRange off" "length bs < 2 ^ 29"
    "int i + 1 + off = int B" "holds ws B (padWords (nat (ceilDiv (int (length bs)) 8)) bs)"
  shows "readDataPointer (readerOf ws) 0 (int i) = Inr (Some bs)"
  using byte_list_at(1) [OF assms] readBytes_holds [OF assms(6) byteWords_ge byteWords_ge]
  by (simp add: readDataPointer_def)

section \<open>Lists of scalars\<close>

lemma element_width: "isDataType type \<Longrightarrow> type \<noteq> TVoid \<Longrightarrow> dataWidth type \<in> {1, 8, 16, 32, 64}"
  by (cases type) (simp_all add: dataWidth_def)

lemma element_inWord:
  assumes "n \<in> {1, 8, 16, 32, 64 :: nat}"
  shows "inWord (j * n) n"
proof -
  have "j mod 64 \<le> 63" "j * 8 mod 64 \<le> 56" "j * 16 mod 64 \<le> 48" "j * 32 mod 64 \<le> 32" "j * 64 mod 64 = 0"
    by presburger+
  then show ?thesis using assms by (auto simp: inWord_def)
qed

lemma element_below:
  assumes "n \<in> {1, 8, 16, 32, 64 :: nat}" "j < len"
  shows "j * n div 64 < nat (ceilDiv (int (n * len)) 64)"
proof -
  have "int (n * len) \<le> ceilDiv (int (n * len)) 64 * 64" by (rule ceilDiv_upper) simp
  then have "n * len \<le> 64 * nat (ceilDiv (int (n * len)) 64)"
    using ceilDiv_nonneg [of "int (n * len)" 64] by linarith
  moreover have "n * (j + 1) \<le> n * len" using assms(2) by (intro mult_le_mono2) simp
  ultimately have "j * n < 64 * nat (ceilDiv (int (n * len)) 64)" using assms(1) by (auto simp: mult.commute)
  then show ?thesis by (simp add: div_less_iff_less_mult mult.commute)
qed

text \<open>A loop that puts \<open>n\<close> bits per element, from element \<open>k\<close> on.\<close>

lemma writeEach_mb:
  assumes n: "n \<in> {1, 8, 16, 32, 64}"
    and put: "\<And>us j v. length us = L \<Longrightarrow> j < k + length vs \<Longrightarrow> v \<in> set vs \<Longrightarrow>
      put (mb us) (int j) v = Inr (mb (putBits us B (j * n) n (f v)))"
    and room: "\<And>j. j < k + length vs \<Longrightarrow> B + j * n div 64 < length us" and L: "length us = L"
  shows "\<exists>us'. writeEach put (mb us) (int k) vs = Inr (mb us') \<and> length us' = length us \<and>
    (\<forall>j < B. us' ! j = us ! j) \<and> (\<forall>j. j < k \<longrightarrow> bitsAt us' B (j * n) n = bitsAt us B (j * n) n) \<and>
    (\<forall>j < length vs. bitsAt us' B ((k + j) * n) n = f (vs ! j) mod 2 ^ n)"
  using put room L
proof (induction vs arbitrary: us k)
  case Nil
  then show ?case by (intro exI [of _ us]) simp
next
  case (Cons v vs)
  let ?us = "putBits us B (k * n) n (f v)"
  have rm: "B + k * n div 64 < length us" using Cons.prems(2) [of k] by simp
  have iw: "inWord (j * n) n" for j by (rule element_inWord [OF n])
  have one: "put (mb us) (int k) v = Inr (mb ?us)" using Cons.prems by simp
  have ex: "\<exists>us'. writeEach put (mb ?us) (int (Suc k)) vs = Inr (mb us') \<and> length us' = length ?us \<and>
    (\<forall>j < B. us' ! j = ?us ! j) \<and> (\<forall>j. j < Suc k \<longrightarrow> bitsAt us' B (j * n) n = bitsAt ?us B (j * n) n) \<and>
    (\<forall>j < length vs. bitsAt us' B ((Suc k + j) * n) n = f (vs ! j) mod 2 ^ n)"
  proof (rule Cons.IH)
    show "put (mb ws) (int j) w = Inr (mb (putBits ws B (j * n) n (f w)))"
      if "length ws = L" "j < Suc k + length vs" "w \<in> set vs" for ws j w
      using Cons.prems(1) that by simp
    show "B + j * n div 64 < length ?us" if "j < Suc k + length vs" for j using Cons.prems(2) that by simp
    show "length ?us = L" using Cons.prems(3) by simp
  qed
  then obtain us' where us': "writeEach put (mb ?us) (int (Suc k)) vs = Inr (mb us')" "length us' = length ?us"
    "\<forall>j < B. us' ! j = ?us ! j" "\<forall>j. j < Suc k \<longrightarrow> bitsAt us' B (j * n) n = bitsAt ?us B (j * n) n"
    "\<forall>j < length vs. bitsAt us' B ((Suc k + j) * n) n = f (vs ! j) mod 2 ^ n" by blast
  have here: "bitsAt ?us B (k * n) n = f v mod 2 ^ n" by (rule bitsAt_putBits [OF iw rm])
  have old: "bitsAt ?us B (j * n) n = bitsAt us B (j * n) n" if "j < k" for j
  proof (rule bitsAt_cong [OF iw])
    fix b assume "j * n \<le> b" "b < j * n + n"
    moreover have "j * n + n \<le> k * n" using that by (metis Suc_leI mult_Suc mult_le_mono1 add.commute)
    ultimately have "\<not> (k * n \<le> b \<and> b < k * n + n)" by linarith
    then show "bitAt ?us B b = bitAt us B b" using bitAt_putBits [OF iw rm, of "f v" b] by auto
  qed
  have low: "?us ! j = us ! j" if "j < B" for j using that by (intro nth_putBits) simp
  have "bitsAt us' B ((k + j) * n) n = f ((v # vs) ! j) mod 2 ^ n" if "j < length (v # vs)" for j
    using that here us'(4,5) by (cases j) auto
  moreover have "int k + 1 = int (Suc k)" by simp
  ultimately show ?case using one us' old low by (intro exI [of _ us']) (simp only: writeEach.simps bindE_Inr, auto)
qed

lemma elementBytes_width:
  assumes "isDataType type" "type \<noteq> TVoid" "type \<noteq> TBool"
  shows "elementBytes (typeElementSize type) = int (byteWidth type)" "2 \<le> typeElementSize type" "typeElementSize type \<le> 5"
  using assms by (cases type; simp add: elementBytes_def byteWidth_def)+

text \<open>The words of a list of scalars, as the pointer writer and the reader compute them.\<close>

lemma scalarListWords:
  assumes "isDataType type" "type \<noteq> TVoid"
  shows "typeElementSize type \<noteq> 1 \<Longrightarrow> bytesToWords (int len * elementBytes (typeElementSize type)) = ceilDiv (int (dataWidth type * len)) 64"
    "typeElementSize type = 1 \<Longrightarrow> ceilDiv (int len) 64 = ceilDiv (int (dataWidth type * len)) 64"
    "flatListWords (typeElementSize type) (int len) = ceilDiv (int (dataWidth type * len)) 64"
    "0 \<le> typeElementSize type" "typeElementSize type \<le> 5"
  using assms by (cases type; simp add: elementBytes_def bytesToWords_def flatListWords_def ceilDiv_def dataWidth_def)+

definition scalarListWords :: "TypeDescriptor \<Rightarrow> nat \<Rightarrow> nat" where
  "scalarListWords type len = nat (ceilDiv (int (dataWidth type * len)) 64)"

lemma putElement:
  assumes t: "isDataType type" "type \<noteq> TVoid" and fit: "B + j * dataWidth type div 64 < length us"
  shows "type = TBool \<Longrightarrow> mbSetBool (mb us) (int B * 8 + int j div 8) (nat (int j mod 8)) (asBoolean v) =
      Inr (mb (putBits us B (j * dataWidth type) (dataWidth type) (plainBits type False v)))"
    "type \<noteq> TBool \<Longrightarrow> writeScalar type (mb us) (int B * 8 + int j * int (byteWidth type)) v =
      Inr (mb (putBits us B (j * dataWidth type) (dataWidth type) (plainBits type False v)))"
proof -
  assume b: "type = TBool"
  have "byteFits B (j div 8) 1 us" using fit b by (simp add: byteFits_def dataWidth_def bits_of_byte flip: div_mult2_eq)
  from mbSetBool_mb [OF this] show "mbSetBool (mb us) (int B * 8 + int j div 8) (nat (int j mod 8)) (asBoolean v) =
      Inr (mb (putBits us B (j * dataWidth type) (dataWidth type) (plainBits type False v)))"
    by (simp add: b dataWidth_def zdiv_int nat_mod_distrib)
next
  assume b: "type \<noteq> TBool"
  note w = byteWidth_cases [OF t b]
  let ?o = "byteWidth type * j"
  have s: "j * dataWidth type = 8 * ?o" using w(2) by simp
  have f: "byteFits B ?o (byteWidth type) us"
    using fit aligned_in_word [OF w(1)] unfolding s by (simp add: byteFits_def bits_of_byte)
  show "writeScalar type (mb us) (int B * 8 + int j * int (byteWidth type)) v =
      Inr (mb (putBits us B (j * dataWidth type) (dataWidth type) (plainBits type False v)))"
    using writeScalar_mb [OF t b f] unfolding s by (simp add: w(2) mult.commute)
qed

lemma encodeScalarList_mb:
  assumes t: "isDataType type" "type \<noteq> TVoid" and i: "i < length ws" and len: "length vs < 2 ^ 29"
    and r: "inOffsetRange (int (length ws) - (int i + 1))"
  shows "\<exists>us. encodeScalarList (mb ws) (int i) type vs =
      Inr (mb (ws[i := listPtr (int (length ws) - (int i + 1)) (typeElementSize type) (int (length vs))] @ us)) \<and>
    length us = scalarListWords type (length vs) \<and>
    (\<forall>j < length vs. bitsAt us 0 (j * dataWidth type) (dataWidth type) = bitsOfValue type False (vs ! j))"
proof -
  let ?n = "scalarListWords type (length vs)" and ?B = "length ws" and ?w = "dataWidth type"
  let ?ws = "ws @ replicate ?n 0"
  note lw = scalarListWords(1-3) [OF t, of "length vs"] scalarListWords(4,5) [OF t]
  define put where "put = (\<lambda>b i v. if type = TBool
    then mbSetBool b (int ?B * 8 + i div 8) (nat (i mod 8)) (asBoolean v)
    else writeScalar type b (int ?B * 8 + i * int (byteWidth type)) v)"
  have al: "mbAllocWords (mb ws) (jint (ceilDiv (int (?w * length vs)) 64)) = Inr (int ?B, mb ?ws)"
    using mbAlloc_int [OF ceilDiv_nonneg] by (simp add: scalarListWords_def)
  have "\<exists>us'. writeEach put (mb ?ws) (int 0) vs = Inr (mb us') \<and> length us' = length ?ws \<and>
    (\<forall>j < ?B. us' ! j = ?ws ! j) \<and> (\<forall>j. j < 0 \<longrightarrow> bitsAt us' ?B (j * ?w) ?w = bitsAt ?ws ?B (j * ?w) ?w) \<and>
    (\<forall>j < length vs. bitsAt us' ?B ((0 + j) * ?w) ?w = plainBits type False (vs ! j) mod 2 ^ ?w)"
  proof (rule writeEach_mb [OF element_width [OF t]])
    show rm: "?B + j * ?w div 64 < length ?ws" if "j < 0 + length vs" for j
      using element_below [OF element_width [OF t], of j "length vs"] that by (simp add: scalarListWords_def)
    show "put (mb us) (int j) v = Inr (mb (putBits us ?B (j * ?w) ?w (plainBits type False v)))"
      if "length us = length ?ws" "j < 0 + length vs" "v \<in> set vs" for us j v
      using putElement [OF t, of ?B j us v] rm [OF that(2)] that(1) by (cases "type = TBool") (simp_all add: put_def)
  qed simp
  then obtain us' where us': "writeEach put (mb ?ws) 0 vs = Inr (mb us')" "length us' = length ?ws"
    "\<forall>j < ?B. us' ! j = ?ws ! j" "\<forall>j < length vs. bitsAt us' ?B (j * ?w) ?w = plainBits type False (vs ! j) mod 2 ^ ?w"
    by auto
  let ?p = "listPtr (int ?B - (int i + 1)) (typeElementSize type) (int (length vs))"
  define us where "us = drop ?B us'"
  have split: "us' = ws @ us" unfolding us_def using us'(2,3) by (intro nth_equalityI) (auto simp: nth_append)
  have sp: "mbSetListPointer (mb us') (int i) (int ?B) (typeElementSize type) (int (length vs)) = Inr (mb (ws[i := ?p] @ us))"
    using mbSetListPointer_mb [of i us' "int ?B" "typeElementSize type" "int (length vs)"] i r len lw(4,5)
    by (simp add: split list_update_append)
  have bits: "bitsAt us' ?B s n = bitsAt us 0 s n" for s n
    by (simp add: split bitsAt_def nth_append)
  have "encodeScalarList (mb ws) (int i) type vs = Inr (mb (ws[i := ?p] @ us))"
  proof (cases "type = TBool")
    case True
    then have "put = (\<lambda>b i v. mbSetBool b (int ?B * 8 + i div 8) (nat (i mod 8)) (asBoolean v))" by (simp add: put_def)
    then show ?thesis using True al lw(2) us'(1) sp by (simp add: encodeScalarList_def)
  next
    case False
    then have "put = (\<lambda>b i v. writeScalar type b (int ?B * 8 + i * int (byteWidth type)) v)" by (simp add: put_def)
    moreover have ne: "typeElementSize type \<noteq> 1" using elementBytes_width(2) [OF t False] by simp
    ultimately show ?thesis using False al lw(1) [OF ne] us'(1) sp elementBytes_width [OF t False]
      by (simp add: encodeScalarList_def)
  qed
  moreover have "length us = ?n" using us'(2) by (simp add: us_def)
  ultimately show ?thesis using us'(4) by (intro exI [of _ us]) (simp add: bits bitsOfValue_def)
qed

lemma readElement:
  assumes t: "isDataType type" "type \<noteq> TVoid" and fit: "B + j * dataWidth type div 64 < length ws"
  shows "type = TBool \<Longrightarrow> readBoolElement (readerOf ws) 0 (int B * 8) (int j) =
      Inr (valueOfBits type (bitsAt ws B (j * dataWidth type) (dataWidth type)))"
    "type \<noteq> TBool \<Longrightarrow> readScalarElement type (readerOf ws) 0 (int B * 8 + int j * int (byteWidth type)) =
      Inr (valueOfBits type (bitsAt ws B (j * dataWidth type) (dataWidth type)))"
proof -
  have mx: "int x + int m \<le> MAX_SAFE_INTEGER" if "x + m \<le> 8" for x m using that by (simp add: MAX_SAFE_INTEGER_def)
  assume b: "type = TBool"
  have f: "byteFits B (j div 8) 1 ws" using fit b by (simp add: byteFits_def dataWidth_def bits_of_byte flip: div_mult2_eq)
  then have "j div 8 mod 8 + 1 \<le> 8" by (simp add: byteFits_def)
  from readers_at(1) [OF f mx [OF this] refl]
  show "readBoolElement (readerOf ws) 0 (int B * 8) (int j) =
      Inr (valueOfBits type (bitsAt ws B (j * dataWidth type) (dataWidth type)))"
    using byte_bit [OF f] bitsAt_1 [of ws B j]
    by (simp add: b dataWidth_def readBoolElement_def zdiv_int bit_iff_and_push_bit_not_eq_0 nat_mod_distrib)
next
  have mx: "int x + int m \<le> MAX_SAFE_INTEGER" if "x + m \<le> 8" for x m using that by (simp add: MAX_SAFE_INTEGER_def)
  assume b: "type \<noteq> TBool"
  note w = byteWidth_cases [OF t b]
  let ?o = "byteWidth type * j"
  have s: "j * dataWidth type = 8 * ?o" using w(2) by simp
  have al: "?o mod 8 + byteWidth type \<le> 8" by (rule aligned_in_word [OF w(1)])
  then have f: "byteFits B ?o (byteWidth type) ws"
    using fit unfolding s by (simp add: byteFits_def bits_of_byte)
  have p: "int B * 8 + int j * int (byteWidth type) = int B * 8 + int ?o" by simp
  note r = readers_at [OF f mx [OF al]]
  show "readScalarElement type (readerOf ws) 0 (int B * 8 + int j * int (byteWidth type)) =
      Inr (valueOfBits type (bitsAt ws B (j * dataWidth type) (dataWidth type)))"
    unfolding p s using t b r w(2) by (cases type) (simp_all add: byteWidth_def jnum_def jbig_def jfloat_def)
qed

lemma collectE_values:
  assumes "\<And>j. j < length xs \<Longrightarrow> f (int j) = Inr (xs ! j)"
  shows "collectE f [0..int (length xs) - 1] = Inr xs"
proof -
  have "collectE (\<lambda>j. f (int j)) [k..<length xs] = Inr (drop k xs)" if "k \<le> length xs" for k
    using that
  proof (induction "length xs - k" arbitrary: k)
    case (Suc d)
    then have lt: "k < length xs" by simp
    have "collectE (\<lambda>j. f (int j)) [Suc k..<length xs] = Inr (drop (Suc k) xs)"
      using Suc lt by (intro Suc.hyps(1)) simp_all
    then show ?case using assms [OF lt] lt by (simp add: upt_conv_Cons Cons_nth_drop_Suc)
  qed simp
  from this [of 0] show ?thesis by (simp add: upto_map collectE_map)
qed

lemma decodeScalarList_at:
  assumes t: "isDataType type" and fit: "B + scalarListWords type (length bs) \<le> length ws"
    and b: "\<And>j. j < length bs \<Longrightarrow> bitsAt ws B (j * dataWidth type) (dataWidth type) = bs ! j"
  shows "decodeScalarList (readerOf ws) (FlatList 0 (int B) (typeElementSize type) (int (length bs))) type =
    Inr (map (valueOfBits type) bs)"
proof (cases "type = TVoid")
  case True
  moreover have "valueOfBits TVoid = (\<lambda>_. JUndefined)" by (rule ext) simp
  ultimately show ?thesis by (simp add: decodeScalarList_def map_replicate_const)
next
  case False
  have f: "B + j * dataWidth type div 64 < length ws" if "j < length bs" for j
    using element_below [OF element_width [OF t False] that] fit by (simp add: scalarListWords_def)
  note r = readElement [OF t False f]
  let ?xs = "map (valueOfBits type) bs"
  show ?thesis
  proof (cases "type = TBool")
    case True
    have "collectE (readBoolElement (readerOf ws) 0 (int B * 8)) [0..int (length ?xs) - 1] = Inr ?xs"
      by (rule collectE_values) (use r True b in auto)
    then show ?thesis by (simp add: decodeScalarList_def True)
  next
    case nb: False
    have "collectE (\<lambda>i. readScalarElement type (readerOf ws) 0 (int B * 8 + i * int (byteWidth type))) [0..int (length ?xs) - 1] = Inr ?xs"
      by (rule collectE_values) (use r nb b in auto)
    then show ?thesis using elementBytes_width [OF t False nb] by (simp add: decodeScalarList_def)
  qed
qed

end
