(* ===== verification/Codec_Roundtrip.thy ===== *)
theory Codec_Roundtrip
  imports Codec_Pointers
begin

text \<open>
  Decoding what the encoder wrote. Each encoding step changes only the places of its field and
  appends words; each decoding step depends only on these places and words. So the two are proved
  together, by induction on the value, for every memory that agrees with the result of the step on
  what the step wrote, and steps on disjoint places compose.
\<close>

section \<open>Places of a struct\<close>

fun inStructRange :: "nat \<Rightarrow> nat \<Rightarrow> place \<Rightarrow> bool" where
  "inStructRange D P (DataBit b) \<longleftrightarrow> b < 64 * D"
| "inStructRange D P (PtrSlot p) \<longleftrightarrow> p < P"

fun samePlace :: "nat \<Rightarrow> nat \<Rightarrow> 64 word list \<Rightarrow> 64 word list \<Rightarrow> place \<Rightarrow> bool" where
  "samePlace W D ws ws' (DataBit b) \<longleftrightarrow> bitAt ws W b = bitAt ws' W b"
| "samePlace W D ws ws' (PtrSlot p) \<longleftrightarrow> ws ! (W + D + p) = ws' ! (W + D + p)"

fun blank :: "nat \<Rightarrow> nat \<Rightarrow> 64 word list \<Rightarrow> place \<Rightarrow> bool" where
  "blank W D ws (DataBit b) \<longleftrightarrow> \<not> bitAt ws W b"
| "blank W D ws (PtrSlot p) \<longleftrightarrow> ws ! (W + D + p) = 0"

lemma samePlace_refl [simp]: "samePlace W D ws ws l"
  by (cases l) simp_all

lemma samePlace_sym: "samePlace W D ws ws' l \<Longrightarrow> samePlace W D ws' ws l"
  by (cases l) simp_all

lemma samePlace_trans: "samePlace W D ws ws1 l \<Longrightarrow> samePlace W D ws1 ws2 l \<Longrightarrow> samePlace W D ws ws2 l"
  by (cases l) simp_all

lemma blank_same: "blank W D ws l \<Longrightarrow> samePlace W D ws ws' l \<Longrightarrow> blank W D ws' l"
  by (cases l) simp_all

text \<open>
  \<open>writes L\<close>: a step on the struct at word \<open>W\<close> that touches at most the places in \<open>L\<close> of what was
  there. \<open>agrees L\<close>: a memory that has what the step wrote, there and in the words it appended.
\<close>

definition writes :: "(place \<Rightarrow> bool) \<Rightarrow> nat \<Rightarrow> nat \<Rightarrow> nat \<Rightarrow> 64 word list \<Rightarrow> 64 word list \<Rightarrow> bool" where
  "writes L W D P ws ws' \<longleftrightarrow> length ws \<le> length ws' \<and>
     (\<forall>k < length ws. k < W \<or> W + D + P \<le> k \<longrightarrow> ws' ! k = ws ! k) \<and>
     (\<forall>l. inStructRange D P l \<longrightarrow> \<not> L l \<longrightarrow> samePlace W D ws ws' l)"

definition agrees :: "(place \<Rightarrow> bool) \<Rightarrow> nat \<Rightarrow> nat \<Rightarrow> 64 word list \<Rightarrow> 64 word list \<Rightarrow> 64 word list \<Rightarrow> bool" where
  "agrees L W D ws ws' ws2 \<longleftrightarrow> length ws' \<le> length ws2 \<and> (\<forall>l. L l \<longrightarrow> samePlace W D ws' ws2 l) \<and>
     (\<forall>k. length ws \<le> k \<longrightarrow> k < length ws' \<longrightarrow> ws2 ! k = ws' ! k)"

lemma writes_refl: "writes L W D P ws ws"
  by (simp add: writes_def)

lemma writes_mono: "writes L W D P ws ws' \<Longrightarrow> (\<And>l. L l \<Longrightarrow> M l) \<Longrightarrow> writes M W D P ws ws'"
  by (auto simp: writes_def)

lemma writes_trans:
  assumes "writes L W D P ws ws1" "writes L W D P ws1 ws2"
  shows "writes L W D P ws ws2"
  using assms unfolding writes_def by (auto intro: samePlace_trans)

lemma writes_blank:
  assumes "writes L W D P ws ws1" "blank W D ws l" "\<not> L l" "inStructRange D P l"
  shows "blank W D ws1 l"
  using assms blank_same unfolding writes_def by blast

lemma agrees_mono: "agrees L W D ws ws' ws2 \<Longrightarrow> (\<And>l. M l \<Longrightarrow> L l) \<Longrightarrow> agrees M W D ws ws' ws2"
  by (simp add: agrees_def)

text \<open>The memory at the end agrees with both of two steps on disjoint places.\<close>

lemma agrees_first:
  assumes w: "writes M W D P ws1 ws'" and first: "writes L W D P ws ws1" and a: "agrees L W D ws ws' ws2"
    and dis: "\<And>l. L l \<Longrightarrow> \<not> M l" and rng: "\<And>l. L l \<Longrightarrow> inStructRange D P l" and fit: "W + D + P \<le> length ws"
  shows "agrees L W D ws ws1 ws2"
  unfolding agrees_def
proof (intro conjI allI impI)
  show "length ws1 \<le> length ws2" using w a by (simp add: writes_def agrees_def)
  fix l assume l: "L l"
  have "samePlace W D ws1 ws' l" using w l dis [OF l] rng [OF l] by (simp add: writes_def)
  moreover have "samePlace W D ws' ws2 l" using a l by (simp add: agrees_def)
  ultimately show "samePlace W D ws1 ws2 l" by (rule samePlace_trans)
next
  fix k assume k: "length ws \<le> k" "k < length ws1"
  then have "ws' ! k = ws1 ! k" "ws2 ! k = ws' ! k"
    using w a fit by (simp_all add: writes_def agrees_def)
  then show "ws2 ! k = ws1 ! k" by simp
qed

lemma agrees_second:
  assumes "agrees L W D ws ws' ws2" "length ws \<le> length ws1"
  shows "agrees L W D ws1 ws' ws2"
  using assms by (auto simp: agrees_def)

section \<open>The places of fields\<close>

definition structClaims :: "schema \<Rightarrow> StructDescriptor \<Rightarrow> place \<Rightarrow> bool" where
  "structClaims env desc l \<longleftrightarrow>
     (\<exists>un b. ds_union desc = Some un \<and> l = DataBit b \<and> 16 * nat (un_discriminantOffset un) \<le> b \<and>
        b < 16 * nat (un_discriminantOffset un) + 16) \<or>
     (\<exists>f \<in> set (ds_fields desc). occupies env f l)"

definition fieldClaims :: "schema \<Rightarrow> int option \<Rightarrow> FieldDescriptor list \<Rightarrow> place \<Rightarrow> bool" where
  "fieldClaims env activeDiscriminant fs l \<longleftrightarrow> (\<exists>f \<in> set fs. \<not> inactive activeDiscriminant f \<and> occupies env f l)"

lemma group_claims: "occupies env (Group name n d) = structClaims env (env n)"
  by (rule ext) (auto simp: occupies_group structClaims_def)

lemma occupies_range:
  assumes "occupies env f l" "schemaOk env" "fieldFits env desc f"
  shows "inStructRange (nat (ds_dataWordCount desc)) (nat (ds_pointerCount desc)) l"
  using assms(1,3)
proof (induction arbitrary: desc rule: occupies.induct)
  case (tag n un b name d)
  have "layoutOk env (env n)" using assms(2) by (simp add: schemaOk_def)
  then have "unionFits env (env n) un" using tag.hyps(1) by (simp add: layoutOk_def)
  then have "16 * nat (un_discriminantOffset un) + 16 \<le> 64 * nat (ds_dataWordCount (env n))"
    by (simp add: unionFits_def) linarith
  then show ?case using tag by simp
next
  case (member f n l name d)
  have "fieldFits env (env n) f" using assms(2) member.hyps(1) by (simp add: schemaOk_def layoutOk_def)
  from member.IH [OF this] show ?case using member.prems by simp
qed auto

lemma structClaims_range:
  assumes "schemaOk env" "layoutOk env desc" "structClaims env desc l"
  shows "inStructRange (nat (ds_dataWordCount desc)) (nat (ds_pointerCount desc)) l"
  using assms(3) unfolding structClaims_def
proof (elim disjE exE conjE bexE)
  fix un b
  assume u: "ds_union desc = Some un" "l = DataBit b" "b < 16 * nat (un_discriminantOffset un) + 16"
  then have "unionFits env desc un" using assms(2) by (simp add: layoutOk_def)
  then have "16 * nat (un_discriminantOffset un) + 16 \<le> 64 * nat (ds_dataWordCount desc)"
    by (simp add: unionFits_def) linarith
  then show ?thesis using u by simp
next
  fix f assume "f \<in> set (ds_fields desc)" "occupies env f l"
  then show ?thesis using occupies_range assms(1,2) by (simp add: layoutOk_def)
qed

definition discriminantsOk :: "int option \<Rightarrow> FieldDescriptor list \<Rightarrow> bool" where
  "discriminantsOk activeDiscriminant fs \<longleftrightarrow>
     (activeDiscriminant = None \<longrightarrow> (\<forall>f \<in> set fs. fd_discriminantValue f = None))"

lemma active_apart:
  assumes "apart env f g" "\<not> inactive a f" "\<not> inactive a g" "discriminantsOk a [f, g]" "occupies env f l"
  shows "\<not> occupies env g l"
  using assms by (cases a) (auto simp: apart_def inactive_def discriminantsOk_def split: option.splits)

lemma fields_apart:
  assumes "pairwiseApart env (f # fs)" "\<not> inactive a f" "discriminantsOk a (f # fs)" "occupies env f l"
  shows "\<not> fieldClaims env a fs l"
proof
  assume "fieldClaims env a fs l"
  then obtain g where g: "g \<in> set fs" "\<not> inactive a g" "occupies env g l" by (auto simp: fieldClaims_def)
  have "discriminantsOk a [f, g]" using assms(3) g(1) by (auto simp: discriminantsOk_def)
  then show False using active_apart [of env f g a l] assms g by auto
qed

section \<open>One field\<close>

text \<open>The bodies of the loops over the fields.\<close>

definition encodeOne ::
  "schema \<Rightarrow> MessageBuilder \<Rightarrow> StructDescriptor \<Rightarrow> int \<Rightarrow> FieldDescriptor \<Rightarrow> js_value \<Rightarrow> MessageBuilder result" where
  "encodeOne env b desc structWord f value =
     (if value = JUndefined then Inr b
      else case f of
        Group name n d \<Rightarrow> encodeStructAt env b (env n) structWord value
      | Slot name offs type msk d \<Rightarrow>
          if isDataType type then encodeDataField b structWord offs type value (maskOf msk)
          else encodePointerField env b (mbPointerWordIndex structWord (ds_dataWordCount desc) offs) type value)"

definition receivedOne :: "schema \<Rightarrow> FieldDescriptor \<Rightarrow> js_value \<Rightarrow> js_value option option" where
  "receivedOne env f value =
     (case f of
        Group name n d \<Rightarrow>
          if value = JUndefined then None
          else map_option (\<lambda>g. Some (JObject g)) (receivedStruct env (env n) value)
      | Slot name offs type msk d \<Rightarrow>
          if isDataType type
          then if sendableScalar type (maskOf msk \<noteq> 0) value
               then Some (Some (if value = JUndefined then valueOfBits type (maskOf msk)
                                else receivedScalar type (maskOf msk \<noteq> 0) value))
               else None
          else if value = JUndefined then Some None
          else receivedPointer env type value)"

definition oneWords :: "schema \<Rightarrow> FieldDescriptor \<Rightarrow> js_value \<Rightarrow> nat" where
  "oneWords env f value =
     (if value = JUndefined then 0
      else case f of
        Group name n d \<Rightarrow> structWords env (env n) value
      | Slot name offs type msk d \<Rightarrow> if isDataType type then 0 else pointerWords env type value)"

lemma encodeFields_Cons:
  "encodeFields env b desc structWord a (f # fs) props =
     (if inactive a f then encodeFields env b desc structWord a fs props
      else bindE (encodeOne env b desc structWord f (getProp props (fd_name f)))
             (\<lambda>b. encodeFields env b desc structWord a fs props))"
  by (simp add: encodeFields.simps encodeOne_def Let_def)

lemma receivedFields_Cons:
  "receivedFields env a (f # fs) props out =
     (if inactive a f then receivedFields env a fs props out
      else case receivedOne env f (getProp props (fd_name f)) of
             None \<Rightarrow> None
           | Some v \<Rightarrow> receivedFields env a fs props (setOne out (fd_name f) v))"
  by (auto simp: receivedFields.simps receivedOne_def setOne_def Let_def split: FieldDescriptor.split option.split)

lemma fieldWords_Cons:
  "fieldWords env a (f # fs) props =
     (if inactive a f then 0 else oneWords env f (getProp props (fd_name f))) + fieldWords env a fs props"
  by (simp add: fieldWords.simps oneWords_def Let_def)

section \<open>What is proved of each function\<close>

abbreviation dataWords :: "StructDescriptor \<Rightarrow> nat" where
  "dataWords desc \<equiv> nat (ds_dataWordCount desc)"

abbreviation pointerSlots :: "StructDescriptor \<Rightarrow> nat" where
  "pointerSlots desc \<equiv> nat (ds_pointerCount desc)"

definition structSpec :: "schema \<Rightarrow> StructDescriptor \<Rightarrow> js_value \<Rightarrow> bool" where
  "structSpec env desc v \<longleftrightarrow>
     (\<forall>ws W r. layoutOk env desc \<longrightarrow> W + structSize desc \<le> length ws \<longrightarrow>
        (\<forall>l. structClaims env desc l \<longrightarrow> blank W (dataWords desc) ws l) \<longrightarrow>
        receivedStruct env desc v = Some r \<longrightarrow> length ws + structWords env desc v < 2 ^ 29 \<longrightarrow>
        (\<exists>ws'. encodeStructAt env (mb ws) desc (int W) v = Inr (mb ws') \<and>
           length ws' = length ws + structWords env desc v \<and>
           writes (structClaims env desc) W (dataWords desc) (pointerSlots desc) ws ws' \<and>
           (\<forall>ws2 fuel. agrees (structClaims env desc) W (dataWords desc) ws ws' ws2 \<longrightarrow> 2 * size v + 1 \<le> fuel \<longrightarrow>
              decodeStructAt fuel env (readerOf ws2) desc (structRef W (dataWords desc) (pointerSlots desc)) = Inr r)))"

definition fieldsSpec ::
  "schema \<Rightarrow> int option \<Rightarrow> FieldDescriptor list \<Rightarrow> js_record \<Rightarrow> js_record \<Rightarrow> bool" where
  "fieldsSpec env a fs props out \<longleftrightarrow>
     (\<forall>desc ws W r. (\<forall>f \<in> set fs. fieldFits env desc f) \<longrightarrow> 0 \<le> ds_dataWordCount desc \<longrightarrow> 0 \<le> ds_pointerCount desc \<longrightarrow>
        pairwiseApart env fs \<longrightarrow> discriminantsOk a fs \<longrightarrow> W + structSize desc \<le> length ws \<longrightarrow>
        (\<forall>l. fieldClaims env a fs l \<longrightarrow> blank W (dataWords desc) ws l) \<longrightarrow>
        receivedFields env a fs props out = Some r \<longrightarrow> length ws + fieldWords env a fs props < 2 ^ 29 \<longrightarrow>
        (\<exists>ws'. encodeFields env (mb ws) desc (int W) a fs props = Inr (mb ws') \<and>
           length ws' = length ws + fieldWords env a fs props \<and>
           writes (fieldClaims env a fs) W (dataWords desc) (pointerSlots desc) ws ws' \<and>
           (\<forall>ws2 fuel. agrees (fieldClaims env a fs) W (dataWords desc) ws ws' ws2 \<longrightarrow>
              2 * size_list (size_prod (\<lambda>_. 0) size) props \<le> fuel \<longrightarrow>
              decodeFields fuel env (readerOf ws2) (structRef W (dataWords desc) (pointerSlots desc)) a fs out = Inr r)))"

text \<open>A pointer step: the slot and appended words.\<close>

definition slotWritten :: "nat \<Rightarrow> 64 word list \<Rightarrow> 64 word list \<Rightarrow> bool" where
  "slotWritten i ws ws' \<longleftrightarrow> length ws \<le> length ws' \<and> (\<forall>k < length ws. k \<noteq> i \<longrightarrow> ws' ! k = ws ! k)"

definition slotAgrees :: "nat \<Rightarrow> 64 word list \<Rightarrow> 64 word list \<Rightarrow> 64 word list \<Rightarrow> bool" where
  "slotAgrees i ws ws' ws2 \<longleftrightarrow> length ws' \<le> length ws2 \<and> ws2 ! i = ws' ! i \<and>
     (\<forall>k. length ws \<le> k \<longrightarrow> k < length ws' \<longrightarrow> ws2 ! k = ws' ! k)"

definition pointerSpec :: "schema \<Rightarrow> TypeDescriptor \<Rightarrow> js_value \<Rightarrow> bool" where
  "pointerSpec env type v \<longleftrightarrow>
     (\<forall>ws i r. \<not> isDataType type \<longrightarrow> i < length ws \<longrightarrow> receivedPointer env type v = Some r \<longrightarrow>
        length ws + pointerWords env type v < 2 ^ 29 \<longrightarrow>
        (\<exists>ws'. encodePointerField env (mb ws) (int i) type v = Inr (mb ws') \<and>
           length ws' = length ws + pointerWords env type v \<and> slotWritten i ws ws' \<and>
           pointerKind (ws' ! i) \<noteq> 2 \<and> (ws' ! i = 0 \<longleftrightarrow> r = None) \<and>
           (\<forall>ws2 fuel. slotAgrees i ws ws' ws2 \<longrightarrow> 2 * size v + 2 \<le> fuel \<longrightarrow>
              decodePointerField fuel env (readerOf ws2) 0 (int i) type =
                Inr (case r of None \<Rightarrow> nullValue env type | Some x \<Rightarrow> x))))"

section \<open>Fields\<close>

lemma dataFieldPresent_fits:
  assumes "isDataType type" "0 \<le> offs" "dataStart type offs + dataWidth type \<le> 64 * D"
  shows "dataFieldPresent (structRef W D P) offs type"
proof (cases "type = TBool")
  case True
  then have "nat offs < 64 * D" using assms(3) by (simp add: bool_start)
  then have "8 * (nat offs div 8) + 8 \<le> 64 * D" by (rule byte_below)
  then have "nat offs div 8 + 1 \<le> 8 * D" by simp
  then have "int (nat offs div 8) + 1 \<le> int (8 * D)" by linarith
  then show ?thesis using assms(2) True by (simp add: dataFieldPresent_def zdiv_int)
next
  case False
  then show ?thesis using assms by (cases type) (auto simp: dataFieldPresent_def dataStart_def dataWidth_def)
qed

lemma putBits_writes:
  assumes iw: "inWord s n" and le: "s + n \<le> 64 * D" and fit: "W + D \<le> length ws"
    and L: "\<And>l. L l \<longleftrightarrow> (\<exists>b. l = DataBit b \<and> s \<le> b \<and> b < s + n)"
  shows "writes L W D P ws (putBits ws W s n v)"
proof (cases "n = 0")
  case True
  then show ?thesis by (simp add: writes_refl)
next
  case False
  have lt: "s div 64 < D" using False le by (simp add: div_less_iff_less_mult mult.commute)
  then have w: "W + s div 64 < length ws" using fit by simp
  have "samePlace W D ws (putBits ws W s n v) l" if "inStructRange D P l" "\<not> L l" for l
    using that bitAt_putBits [OF iw w] lt by (cases l) (auto simp: L nth_putBits)
  moreover have "putBits ws W s n v ! k = ws ! k" if "k < W \<or> W + D + P \<le> k" for k
    using that lt by (intro nth_putBits) auto
  ultimately show ?thesis by (simp add: writes_def)
qed

lemma data_step:
  assumes t: "isDataType type" and f: "fieldFits env desc (Slot name offs type msk d)"
    and D: "0 \<le> ds_dataWordCount desc" and fit: "W + structSize desc \<le> length ws"
    and blank: "\<forall>l. occupies env (Slot name offs type msk d) l \<longrightarrow> blank W (dataWords desc) ws l"
    and v: "sendableScalar type (maskOf msk \<noteq> 0) v"
  shows "\<exists>ws'. encodeOne env (mb ws) desc (int W) (Slot name offs type msk d) v = Inr (mb ws') \<and>
    length ws' = length ws \<and> writes (occupies env (Slot name offs type msk d)) W (dataWords desc) (pointerSlots desc) ws ws' \<and>
    (\<forall>ws2 fuel. agrees (occupies env (Slot name offs type msk d)) W (dataWords desc) ws ws' ws2 \<longrightarrow>
       decodeOne fuel env (readerOf ws2) (structRef W (dataWords desc) (pointerSlots desc)) (Slot name offs type msk d) =
         Inr (Some (if v = JUndefined then valueOfBits type (maskOf msk) else receivedScalar type (maskOf msk \<noteq> 0) v)))"
proof -
  let ?D = "dataWords desc" and ?s = "dataStart type offs" and ?n = "dataWidth type" and ?m = "maskOf msk"
  let ?f = "Slot name offs type msk d"
  have o: "0 \<le> offs" "?s + ?n \<le> 64 * ?D" "0 \<le> ?m" "?m < 2 ^ ?n" using f t by simp_all
  have WD: "W + ?D \<le> length ws" using fit by (simp add: structSize_def)
  have iw: "inWord ?s ?n" by (rule field_inWord [OF t o(1)])
  have occ: "occupies env ?f l \<longleftrightarrow> (\<exists>b. l = DataBit b \<and> ?s \<le> b \<and> b < ?s + ?n)" for l
    using t by (auto simp: occupies_slot)
  have bits2: "bitsAt ws2 W ?s ?n = bitsAt ws' W ?s ?n" if "agrees (occupies env ?f) W ?D ws ws' ws2" for ws' ws2
    by (rule bitsAt_cong [OF iw]) (use that occ in \<open>fastforce simp: agrees_def\<close>)
  have dec: "decodeOne fuel env (readerOf ws2) (structRef W ?D (pointerSlots desc)) ?f =
      Inr (Some (valueOfBits type (bitsAt ws2 W ?s ?n XOR ?m)))" if "length ws \<le> length ws2" for ws2 fuel
    using dataFieldPresent_fits [OF t o(1,2)] decodeDataField_readerOf [OF t o(1,2) _ o(3,4), of W ws2] WD that t
    by (simp add: decodeOne_def)
  show ?thesis
  proof (cases "v = JUndefined")
    case True
    have "bitsAt ws W ?s ?n = 0" by (rule bitsAt_zero [OF iw]) (use blank occ in fastforce)
    then have "decodeOne fuel env (readerOf ws2) (structRef W ?D (pointerSlots desc)) ?f = Inr (Some (valueOfBits type ?m))"
      if "agrees (occupies env ?f) W ?D ws ws ws2" for ws2 fuel
      using dec bits2 [OF that] that by (simp add: agrees_def)
    then show ?thesis using True by (intro exI [of _ ws]) (simp add: encodeOne_def writes_refl)
  next
    case False
    let ?ws = "putBits ws W ?s ?n (wireBits type ?m v)"
    have enc: "encodeOne env (mb ws) desc (int W) ?f v = Inr (mb ?ws)"
      using encodeDataField_mb [OF t o(1,2) WD o(3,4) v] False t by (simp add: encodeOne_def)
    have wr: "writes (occupies env ?f) W ?D (pointerSlots desc) ws ?ws"
      by (rule putBits_writes [OF iw o(2) WD occ])
    have "bitsAt ?ws W ?s ?n XOR ?m = bitsOfValue type (?m \<noteq> 0) v"
    proof (cases "?n = 0")
      case True
      then show ?thesis using o by (simp add: bitsAt_def bitsOfValue_def)
    next
      case False
      then have "?s div 64 < ?D" using o(2) by (simp add: div_less_iff_less_mult mult.commute)
      then have w: "W + ?s div 64 < length ws" using WD by simp
      have "bitsAt ?ws W ?s ?n = wireBits type ?m v"
        using bitsAt_putBits [OF iw w] wireBits_mod [OF o(3,4)] by simp
      then show ?thesis by (simp add: wireBits_def xor.assoc)
    qed
    then have "decodeOne fuel env (readerOf ws2) (structRef W ?D (pointerSlots desc)) ?f = Inr (Some (receivedScalar type (?m \<noteq> 0) v))"
      if "agrees (occupies env ?f) W ?D ws ?ws ws2" for ws2 fuel
      using dec bits2 [OF that] that by (simp add: agrees_def receivedScalar_def)
    then show ?thesis using False enc wr by (intro exI [of _ ?ws]) simp
  qed
qed

lemma pointer_step:
  assumes t: "\<not> isDataType type" and f: "fieldFits env desc (Slot name offs type msk d)"
    and c: "0 \<le> ds_dataWordCount desc" "0 \<le> ds_pointerCount desc" and fit: "W + structSize desc \<le> length ws"
    and blank: "\<forall>l. occupies env (Slot name offs type msk d) l \<longrightarrow> blank W (dataWords desc) ws l"
    and IH: "v \<noteq> JUndefined \<Longrightarrow> pointerSpec env type v"
    and rv: "receivedOne env (Slot name offs type msk d) v = Some rv"
    and small: "length ws + oneWords env (Slot name offs type msk d) v < 2 ^ 29"
  shows "\<exists>ws'. encodeOne env (mb ws) desc (int W) (Slot name offs type msk d) v = Inr (mb ws') \<and>
    length ws' = length ws + oneWords env (Slot name offs type msk d) v \<and>
    writes (occupies env (Slot name offs type msk d)) W (dataWords desc) (pointerSlots desc) ws ws' \<and>
    (\<forall>ws2 fuel. agrees (occupies env (Slot name offs type msk d)) W (dataWords desc) ws ws' ws2 \<longrightarrow>
       (v \<noteq> JUndefined \<longrightarrow> 2 * size v + 2 \<le> fuel) \<longrightarrow>
       decodeOne fuel env (readerOf ws2) (structRef W (dataWords desc) (pointerSlots desc)) (Slot name offs type msk d) = Inr rv)"
proof -
  let ?D = "dataWords desc" and ?P = "pointerSlots desc" and ?f = "Slot name offs type msk d"
  let ?i = "W + ?D + nat offs"
  have o: "0 \<le> offs" "nat offs < ?P" using f t c by simp_all
  have i: "?i < length ws" using fit o(2) unfolding structSize_def by linarith
  have ii: "int W + ds_dataWordCount desc + offs = int ?i" using o(1) c(1) by simp
  have occ: "occupies env ?f l \<longleftrightarrow> l = PtrSlot (nat offs)" for l using t by (auto simp: occupies_slot)
  have dec: "decodeOne fuel env (readerOf ws2) (structRef W ?D ?P) ?f =
      (if ws2 ! ?i = 0 then Inr None
       else bindE (decodePointerField fuel env (readerOf ws2) 0 (int ?i) type) (\<lambda>v. Inr (Some v)))"
    if "?i < length ws2" "pointerKind (ws2 ! ?i) \<noteq> 2" for ws2 fuel
  proof -
    have lt: "\<not> offs \<ge> int ?P" using o by linarith
    have "mrPointerWordIndex (structRef W ?D ?P) offs = Inr (int ?i)"
      using o(1) lt by (simp add: mrPointerWordIndex_def structRef_def)
    then show ?thesis using t lt word_at [OF that] by (simp add: decodeOne_def structRef_def)
  qed
  show ?thesis
  proof (cases "v = JUndefined")
    case True
    have z: "ws ! ?i = 0" using blank occ by simp
    have rv': "rv = None" using rv True t by (simp add: receivedOne_def)
    have "decodeOne fuel env (readerOf ws2) (structRef W ?D ?P) ?f = Inr None"
      if "agrees (occupies env ?f) W ?D ws ws ws2" for ws2 fuel
    proof -
      have "ws2 ! ?i = 0" "?i < length ws2" using that occ z i by (simp_all add: agrees_def)
      then show ?thesis using dec [of ws2 fuel] by (simp add: pointerKind_zero)
    qed
    then show ?thesis using True rv'
      by (intro exI [of _ ws]) (simp add: encodeOne_def oneWords_def writes_refl)
  next
    case False
    have r: "receivedPointer env type v = Some rv" using rv False t by (simp add: receivedOne_def)
    have sm: "length ws + pointerWords env type v < 2 ^ 29" using small False t by (simp add: oneWords_def)
    obtain ws' where ws': "encodePointerField env (mb ws) (int ?i) type v = Inr (mb ws')"
      "length ws' = length ws + pointerWords env type v" "slotWritten ?i ws ws'" "pointerKind (ws' ! ?i) \<noteq> 2"
      "ws' ! ?i = 0 \<longleftrightarrow> rv = None"
      "\<And>ws2 fuel. slotAgrees ?i ws ws' ws2 \<Longrightarrow> 2 * size v + 2 \<le> fuel \<Longrightarrow>
        decodePointerField fuel env (readerOf ws2) 0 (int ?i) type = Inr (case rv of None \<Rightarrow> nullValue env type | Some x \<Rightarrow> x)"
      using IH [OF False, unfolded pointerSpec_def, rule_format, OF t i r sm] by blast
    have "writes (occupies env ?f) W ?D ?P ws ws'"
      unfolding writes_def
    proof (intro conjI allI impI)
      show "length ws \<le> length ws'" using ws'(2) by simp
      show "ws' ! k = ws ! k" if "k < length ws" "k < W \<or> W + ?D + ?P \<le> k" for k
      proof -
        have "k \<noteq> ?i" using that o(2) by auto
        then show ?thesis using ws'(3) that(1) by (simp add: slotWritten_def)
      qed
      show "samePlace W ?D ws ws' l" if l: "inStructRange ?D ?P l" "\<not> occupies env ?f l" for l
      proof (cases l)
        case (DataBit b)
        then have "b div 64 < ?D" using l(1) by (simp add: div_less_iff_less_mult mult.commute)
        then have "W + b div 64 < length ws" "W + b div 64 \<noteq> ?i" using fit by (simp_all add: structSize_def)
        then show ?thesis using ws'(3) DataBit by (simp add: bitAt_def slotWritten_def)
      next
        case (PtrSlot q)
        then have "W + ?D + q < length ws" "W + ?D + q \<noteq> ?i" using l fit occ by (simp_all add: structSize_def)
        then show ?thesis using ws'(3) PtrSlot by (simp add: slotWritten_def)
      qed
    qed
    moreover have "decodeOne fuel env (readerOf ws2) (structRef W ?D ?P) ?f = Inr rv"
      if a: "agrees (occupies env ?f) W ?D ws ws' ws2" and fu: "2 * size v + 2 \<le> fuel" for ws2 fuel
    proof -
      have same: "ws2 ! ?i = ws' ! ?i" using a occ by (simp add: agrees_def)
      have "slotAgrees ?i ws ws' ws2" using a same by (simp add: agrees_def slotAgrees_def)
      note d = ws'(6) [OF this fu]
      have "?i < length ws2" using i a ws'(2) by (simp add: agrees_def)
      then show ?thesis using dec [of ws2 fuel] same ws'(4,5) d by (cases rv) simp_all
    qed
    moreover have "encodeOne env (mb ws) desc (int W) ?f v = Inr (mb ws')"
      using ws'(1) False t by (simp add: encodeOne_def mbPointerWordIndex_def ii)
    ultimately show ?thesis using ws'(2) False t by (intro exI [of _ ws']) (simp add: oneWords_def)
  qed
qed

lemma group_step:
  assumes ok: "schemaOk env" and f: "fieldFits env desc (Group name n d)" and fit: "W + structSize desc \<le> length ws"
    and blank: "\<forall>l. occupies env (Group name n d) l \<longrightarrow> blank W (dataWords desc) ws l"
    and IH: "v \<noteq> JUndefined \<Longrightarrow> structSpec env (env n) v"
    and rv: "receivedOne env (Group name n d) v = Some rv"
    and small: "length ws + oneWords env (Group name n d) v < 2 ^ 29"
  shows "\<exists>ws'. encodeOne env (mb ws) desc (int W) (Group name n d) v = Inr (mb ws') \<and>
    length ws' = length ws + oneWords env (Group name n d) v \<and>
    writes (occupies env (Group name n d)) W (dataWords desc) (pointerSlots desc) ws ws' \<and>
    (\<forall>ws2 fuel. agrees (occupies env (Group name n d)) W (dataWords desc) ws ws' ws2 \<longrightarrow>
       (v \<noteq> JUndefined \<longrightarrow> 2 * size v + 2 \<le> fuel) \<longrightarrow>
       decodeOne fuel env (readerOf ws2) (structRef W (dataWords desc) (pointerSlots desc)) (Group name n d) = Inr rv)"
proof -
  have v: "v \<noteq> JUndefined" using rv by (auto simp: receivedOne_def)
  obtain g where g: "receivedStruct env (env n) v = Some g" "rv = Some (JObject g)"
    using rv v by (auto simp: receivedOne_def)
  have e: "ds_dataWordCount (env n) = ds_dataWordCount desc" "ds_pointerCount (env n) = ds_pointerCount desc"
    using f by simp_all
  have "layoutOk env (env n)" using ok by (simp add: schemaOk_def)
  moreover have "W + structSize (env n) \<le> length ws" using fit e by (simp add: structSize_def)
  moreover have "\<forall>l. structClaims env (env n) l \<longrightarrow> blank W (dataWords (env n)) ws l" using blank e by (simp add: group_claims)
  moreover have "length ws + structWords env (env n) v < 2 ^ 29" using small v by (simp add: oneWords_def)
  ultimately obtain ws' where ws': "encodeStructAt env (mb ws) (env n) (int W) v = Inr (mb ws')"
    "length ws' = length ws + structWords env (env n) v"
    "writes (structClaims env (env n)) W (dataWords desc) (pointerSlots desc) ws ws'"
    "\<And>ws2 fuel. agrees (structClaims env (env n)) W (dataWords desc) ws ws' ws2 \<Longrightarrow> 2 * size v + 1 \<le> fuel \<Longrightarrow>
       decodeStructAt fuel env (readerOf ws2) (env n) (structRef W (dataWords desc) (pointerSlots desc)) = Inr g"
    using IH [OF v, unfolded structSpec_def, rule_format] g(1) unfolding e by blast
  then show ?thesis using v g(2)
    by (intro exI [of _ ws']) (simp add: encodeOne_def decodeOne_def oneWords_def group_claims)
qed

lemma field_step:
  assumes ok: "schemaOk env" and f: "fieldFits env desc f"
    and c: "0 \<le> ds_dataWordCount desc" "0 \<le> ds_pointerCount desc" and fit: "W + structSize desc \<le> length ws"
    and blank: "\<forall>l. occupies env f l \<longrightarrow> blank W (dataWords desc) ws l"
    and slot: "\<And>name offs type msk d. f = Slot name offs type msk d \<Longrightarrow> \<not> isDataType type \<Longrightarrow> v \<noteq> JUndefined \<Longrightarrow> pointerSpec env type v"
    and grp: "\<And>name n d. f = Group name n d \<Longrightarrow> v \<noteq> JUndefined \<Longrightarrow> structSpec env (env n) v"
    and rv: "receivedOne env f v = Some rv" and small: "length ws + oneWords env f v < 2 ^ 29"
  shows "\<exists>ws'. encodeOne env (mb ws) desc (int W) f v = Inr (mb ws') \<and> length ws' = length ws + oneWords env f v \<and>
    writes (occupies env f) W (dataWords desc) (pointerSlots desc) ws ws' \<and>
    (\<forall>ws2 fuel. agrees (occupies env f) W (dataWords desc) ws ws' ws2 \<longrightarrow> (v \<noteq> JUndefined \<longrightarrow> 2 * size v + 2 \<le> fuel) \<longrightarrow>
       decodeOne fuel env (readerOf ws2) (structRef W (dataWords desc) (pointerSlots desc)) f = Inr rv)"
proof (cases f)
  case f': (Slot name offs type msk d)
  show ?thesis
  proof (cases "isDataType type")
    case True
    then have s: "sendableScalar type (maskOf msk \<noteq> 0) v"
      "rv = Some (if v = JUndefined then valueOfBits type (maskOf msk) else receivedScalar type (maskOf msk \<noteq> 0) v)"
      using rv by (auto simp: f' receivedOne_def split: if_splits)
    have "oneWords env (Slot name offs type msk d) v = 0" using True by (simp add: oneWords_def)
    then show ?thesis using data_step [OF True f [unfolded f'] c(1) fit blank [unfolded f'] s(1)]
      unfolding f' s(2) by (elim exE conjE) (intro exI conjI, assumption, simp, assumption, blast)
  next
    case False
    show ?thesis
      using pointer_step [OF False f [unfolded f'] c fit blank [unfolded f'] slot [OF f' False] rv [unfolded f'] small [unfolded f']]
      by (simp add: f')
  qed
next
  case f': (Group name n d)
  show ?thesis
    using group_step [OF ok f [unfolded f'] fit blank [unfolded f'] grp [OF f'] rv [unfolded f'] small [unfolded f']]
    by (simp add: f')
qed

section \<open>All fields of a struct\<close>

lemma fieldClaims_Cons:
  "fieldClaims env a (f # fs) l \<longleftrightarrow> \<not> inactive a f \<and> occupies env f l \<or> fieldClaims env a fs l"
  by (auto simp: fieldClaims_def)

lemma fieldsSpec_Nil: "fieldsSpec env a [] props out"
  by (auto simp: fieldsSpec_def encodeFields.simps decodeFields.simps receivedFields.simps fieldWords.simps writes_refl)

lemma fieldsSpec_inactive:
  assumes "inactive a f" "fieldsSpec env a fs props out"
  shows "fieldsSpec env a (f # fs) props out"
proof -
  have "fieldClaims env a (f # fs) = fieldClaims env a fs" using assms(1) by (intro ext) (simp add: fieldClaims_Cons)
  moreover have "discriminantsOk a (f # fs) \<Longrightarrow> discriminantsOk a fs" by (simp add: discriminantsOk_def)
  ultimately show ?thesis using assms
    by (simp add: fieldsSpec_def encodeFields_Cons decodeFields_Cons receivedFields_Cons fieldWords_Cons)
qed

lemma fieldsSpec_active:
  assumes ok: "schemaOk env" and act: "\<not> inactive a f"
    and slot: "\<And>name offs type msk d. f = Slot name offs type msk d \<Longrightarrow> \<not> isDataType type \<Longrightarrow>
      getProp props name \<noteq> JUndefined \<Longrightarrow> pointerSpec env type (getProp props name)"
    and grp: "\<And>name n d. f = Group name n d \<Longrightarrow> getProp props name \<noteq> JUndefined \<Longrightarrow>
      structSpec env (env n) (getProp props name)"
    and rest: "\<And>rv. receivedOne env f (getProp props (fd_name f)) = Some rv \<Longrightarrow>
      fieldsSpec env a fs props (setOne out (fd_name f) rv)"
  shows "fieldsSpec env a (f # fs) props out"
  unfolding fieldsSpec_def
proof (intro allI impI)
  fix desc ws W r
  let ?v = "getProp props (fd_name f)" and ?D = "dataWords desc" and ?P = "pointerSlots desc"
  let ?ref = "structRef W ?D ?P" and ?L = "fieldClaims env a (f # fs)"
  assume fits: "\<forall>f \<in> set (f # fs). fieldFits env desc f" and c: "0 \<le> ds_dataWordCount desc" "0 \<le> ds_pointerCount desc"
    and ap: "pairwiseApart env (f # fs)" "discriminantsOk a (f # fs)" and fit: "W + structSize desc \<le> length ws"
    and blank: "\<forall>l. ?L l \<longrightarrow> blank W ?D ws l" and rv: "receivedFields env a (f # fs) props out = Some r"
    and small: "length ws + fieldWords env a (f # fs) props < 2 ^ 29"
  obtain v where v: "receivedOne env f ?v = Some v" "receivedFields env a fs props (setOne out (fd_name f) v) = Some r"
    using rv act by (auto simp: receivedFields_Cons split: option.splits)
  have w: "fieldWords env a (f # fs) props = oneWords env f ?v + fieldWords env a fs props"
    using act by (simp add: fieldWords_Cons)
  have ff: "fieldFits env desc f" "\<forall>f \<in> set fs. fieldFits env desc f" using fits by simp_all
  have bl: "\<forall>l. occupies env f l \<longrightarrow> blank W ?D ws l" using blank act by (simp add: fieldClaims_Cons)
  have sm: "length ws + oneWords env f ?v < 2 ^ 29" using small w by simp
  obtain ws1 where ws1: "encodeOne env (mb ws) desc (int W) f ?v = Inr (mb ws1)"
    "length ws1 = length ws + oneWords env f ?v" "writes (occupies env f) W ?D ?P ws ws1"
    "\<And>ws2 fuel. agrees (occupies env f) W ?D ws ws1 ws2 \<Longrightarrow> (?v \<noteq> JUndefined \<longrightarrow> 2 * size ?v + 2 \<le> fuel) \<Longrightarrow>
      decodeOne fuel env (readerOf ws2) ?ref f = Inr v"
    using field_step [OF ok ff(1) c fit bl _ _ v(1) sm] slot grp by auto
  have dis: "\<not> fieldClaims env a fs l" if "occupies env f l" for l by (rule fields_apart [OF ap(1) act ap(2) that])
  have rng: "inStructRange ?D ?P l" if "fieldClaims env a (f # fs) l" for l
    using that occupies_range [OF _ ok] fits unfolding fieldClaims_def by blast
  have bl2: "\<forall>l. fieldClaims env a fs l \<longrightarrow> blank W ?D ws1 l"
  proof (intro allI impI)
    fix l assume l: "fieldClaims env a fs l"
    then have "?L l" by (simp add: fieldClaims_Cons)
    then show "blank W ?D ws1 l" using writes_blank [OF ws1(3)] blank rng dis l by blast
  qed
  have "discriminantsOk a fs" using ap(2) by (simp add: discriminantsOk_def)
  moreover have "W + structSize desc \<le> length ws1" "pairwiseApart env fs" using fit ws1(2) ap(1) by simp_all
  moreover have "length ws1 + fieldWords env a fs props < 2 ^ 29" using small w ws1(2) by simp
  ultimately obtain ws' where ws': "encodeFields env (mb ws1) desc (int W) a fs props = Inr (mb ws')"
    "length ws' = length ws1 + fieldWords env a fs props" "writes (fieldClaims env a fs) W ?D ?P ws1 ws'"
    "\<And>ws2 fuel. agrees (fieldClaims env a fs) W ?D ws1 ws' ws2 \<Longrightarrow> 2 * size_list (size_prod (\<lambda>_. 0) size) props \<le> fuel \<Longrightarrow>
      decodeFields fuel env (readerOf ws2) ?ref a fs (setOne out (fd_name f) v) = Inr r"
    using rest [OF v(1), unfolded fieldsSpec_def, rule_format] ff(2) c bl2 v(2) by blast
  have fitDP: "W + ?D + ?P \<le> length ws" using fit by (simp add: structSize_def)
  show "\<exists>ws'. encodeFields env (mb ws) desc (int W) a (f # fs) props = Inr (mb ws') \<and>
      length ws' = length ws + fieldWords env a (f # fs) props \<and> writes ?L W ?D ?P ws ws' \<and>
      (\<forall>ws2 fuel. agrees ?L W ?D ws ws' ws2 \<longrightarrow> 2 * size_list (size_prod (\<lambda>_. 0) size) props \<le> fuel \<longrightarrow>
         decodeFields fuel env (readerOf ws2) ?ref a (f # fs) out = Inr r)"
  proof (intro exI conjI allI impI)
    show "encodeFields env (mb ws) desc (int W) a (f # fs) props = Inr (mb ws')"
      using act ws1(1) ws'(1) by (simp add: encodeFields_Cons)
    show "length ws' = length ws + fieldWords env a (f # fs) props" using ws1(2) ws'(2) w by simp
    show "writes ?L W ?D ?P ws ws'"
      by (rule writes_trans [OF writes_mono [OF ws1(3)] writes_mono [OF ws'(3)]]) (use act in \<open>simp_all add: fieldClaims_Cons\<close>)
    fix ws2 fuel
    assume a2: "agrees ?L W ?D ws ws' ws2" and fu: "2 * size_list (size_prod (\<lambda>_. 0) size) props \<le> fuel"
    have "agrees (occupies env f) W ?D ws ws1 ws2"
    proof (rule agrees_first [OF ws'(3) ws1(3) _ dis _ fitDP])
      show "agrees (occupies env f) W ?D ws ws' ws2" by (rule agrees_mono [OF a2]) (use act in \<open>simp add: fieldClaims_Cons\<close>)
      show "inStructRange ?D ?P l" if "occupies env f l" for l using rng that act by (simp add: fieldClaims_Cons)
    qed
    moreover have "?v \<noteq> JUndefined \<longrightarrow> 2 * size ?v + 2 \<le> fuel" using getProp_size [of props "fd_name f"] fu by auto
    ultimately have d1: "decodeOne fuel env (readerOf ws2) ?ref f = Inr v" by (rule ws1(4))
    have "agrees (fieldClaims env a fs) W ?D ws1 ws' ws2"
      by (rule agrees_second [OF agrees_mono [OF a2]]) (use ws1(2) in \<open>simp_all add: fieldClaims_Cons\<close>)
    then show "decodeFields fuel env (readerOf ws2) ?ref a (f # fs) out = Inr r"
      using act d1 ws'(4) fu by (simp add: decodeFields_Cons)
  qed
qed

section \<open>The discriminant\<close>

lemma presentDiscriminant_field:
  "presentDiscriminant props fs = Some d \<Longrightarrow> \<exists>f \<in> set fs. fd_discriminantValue f = Some d"
  by (induction fs) (auto split: option.splits if_splits)

lemma activeDiscriminant_range:
  assumes "unionFits env desc un" "ds_union desc = Some un"
  obtains d where "resolveActiveDiscriminant desc props = Some d" "0 \<le> d" "d < 2 ^ 16"
proof -
  obtain d where d: "resolveActiveDiscriminant desc props = Some d"
    using assms(2) that
    by (cases "namedDiscriminant un props"; cases "presentDiscriminant props (ds_fields desc)")
      (simp_all add: resolveActiveDiscriminant_def)
  have "d \<in> insert (un_defaultDiscriminant un) (snd ` set (un_byName un)) \<union>
      {d. \<exists>f \<in> set (ds_fields desc). fd_discriminantValue f = Some d}"
    using d assms(2) presentDiscriminant_field [of props "ds_fields desc"]
    by (force simp: resolveActiveDiscriminant_def namedDiscriminant_def dest!: map_of_SomeD
        split: option.splits js_value.splits)
  then have "0 \<le> d \<and> d < 2 ^ 16" using assms(1) unfolding unionFits_def by blast
  then show thesis using that d by blast
qed

lemma tag_at:
  assumes "0 \<le> offs" "16 * nat offs + 16 \<le> 64 * D" "W + D \<le> length ws"
  shows "mbWriteUint16 (mb ws) (int W * 8 + offs * 2) d = Inr (mb (putBits ws W (16 * nat offs) 16 d))"
    "readUint16InStruct (readerOf ws) (structRef W D P) (offs * 2) = Inr (bitsAt ws W (16 * nat offs) 16)"
    "offs * 2 + 2 \<le> int D * 8"
proof -
  have "dataStart TUint16 offs + dataWidth TUint16 \<le> 64 * D" using assms(2) by (simp add: dataStart_def dataWidth_def nat_mult_distrib)
  from scalar_fits [OF _ _ _ assms(1) this assms(3)] obtain off where
    o: "dataByteOffset TUint16 offs = int off" "dataStart TUint16 offs = 8 * off"
    "byteFits W off (byteWidth TUint16) ws" "off mod 8 + byteWidth TUint16 \<le> 8" "0 < D" by auto
  have f: "byteFits W off 2 ws" "off mod 8 + 2 \<le> 8" using o(3,4) by (simp_all add: byteWidth_def)
  have e: "offs * 2 = int off" "16 * nat offs = 8 * off" using o(1) assms(1) by auto
  have mx: "int (off mod 8) + int 2 \<le> int D * 8" using f(2) o(5) by linarith
  show "mbWriteUint16 (mb ws) (int W * 8 + offs * 2) d = Inr (mb (putBits ws W (16 * nat offs) 16 d))"
    unfolding e by (rule writeWidth_mb(2) [OF f(1) refl])
  show "readUint16InStruct (readerOf ws) (structRef W D P) (offs * 2) = Inr (bitsAt ws W (16 * nat offs) 16)"
    unfolding e using readers_at(3) [OF f(1) mx refl] by (simp add: in_struct_defs)
  show "offs * 2 + 2 \<le> int D * 8" using assms(1,2) by linarith
qed

definition tagClaims :: "StructDescriptor \<Rightarrow> place \<Rightarrow> bool" where
  "tagClaims desc l \<longleftrightarrow> (\<exists>un b. ds_union desc = Some un \<and> l = DataBit b \<and> 16 * nat (un_discriminantOffset un) \<le> b \<and>
     b < 16 * nat (un_discriminantOffset un) + 16)"

lemma structClaims_iff: "structClaims env desc l \<longleftrightarrow> tagClaims desc l \<or> (\<exists>f \<in> set (ds_fields desc). occupies env f l)"
  by (auto simp: structClaims_def tagClaims_def)

definition writeTag :: "MessageBuilder \<Rightarrow> StructDescriptor \<Rightarrow> int \<Rightarrow> int option \<Rightarrow> MessageBuilder result" where
  "writeTag b desc structWord activeDiscriminant =
     (case (ds_union desc, activeDiscriminant) of
        (Some un, Some d) \<Rightarrow> mbWriteUint16 b (structWord * WORD_BYTES + un_discriminantOffset un * 2) d
      | _ \<Rightarrow> Inr b)"

lemma tag_step:
  assumes "layoutOk env desc" and fit: "W + dataWords desc \<le> length ws"
  shows "\<exists>ws'. writeTag (mb ws) desc (int W) (resolveActiveDiscriminant desc props) = Inr (mb ws') \<and> length ws' = length ws \<and>
    writes (tagClaims desc) W (dataWords desc) (pointerSlots desc) ws ws' \<and>
    (\<forall>ws2. agrees (tagClaims desc) W (dataWords desc) ws ws' ws2 \<longrightarrow>
       readDiscriminant (readerOf ws2) desc (structRef W (dataWords desc) (pointerSlots desc)) =
         Inr (resolveActiveDiscriminant desc props))"
proof (cases "ds_union desc")
  case None
  then show ?thesis
    by (intro exI [of _ ws]) (simp add: writeTag_def writes_refl readDiscriminant_def resolveActiveDiscriminant_def)
next
  case (Some un)
  let ?D = "dataWords desc" and ?s = "16 * nat (un_discriminantOffset un)"
  have u: "unionFits env desc un" using assms(1) Some by (simp add: layoutOk_def)
  obtain d where d: "resolveActiveDiscriminant desc props = Some d" "0 \<le> d" "d < 2 ^ 16"
    by (rule activeDiscriminant_range [OF u Some])
  have o: "0 \<le> un_discriminantOffset un" "?s + 16 \<le> 64 * ?D" using u by (simp_all add: unionFits_def) linarith+
  have iw: "inWord ?s 16" using element_inWord [of 16 "nat (un_discriminantOffset un)"] by (simp add: mult.commute)
  have L: "tagClaims desc l \<longleftrightarrow> (\<exists>b. l = DataBit b \<and> ?s \<le> b \<and> b < ?s + 16)" for l
    using Some by (auto simp: tagClaims_def)
  let ?ws = "putBits ws W ?s 16 d"
  have w: "W + ?s div 64 < length ws" using o(2) fit by (simp add: div_less_iff_less_mult mult.commute)
  have "bitsAt ws2 W ?s 16 = d" if "agrees (tagClaims desc) W ?D ws ?ws ws2" for ws2
  proof -
    have "bitsAt ws2 W ?s 16 = bitsAt ?ws W ?s 16"
      by (rule bitsAt_cong [OF iw]) (use that L in \<open>fastforce simp: agrees_def\<close>)
    then show ?thesis using bitsAt_putBits [OF iw w, of d] d(2,3) by simp
  qed
  then have "readDiscriminant (readerOf ws2) desc (structRef W ?D (pointerSlots desc)) = Inr (Some d)"
    if "agrees (tagClaims desc) W ?D ws ?ws ws2" for ws2
    using that tag_at(2,3) [OF o, of W ws2] fit Some by (simp add: readDiscriminant_def agrees_def)
  moreover have "writeTag (mb ws) desc (int W) (Some d) = Inr (mb ?ws)"
    using tag_at(1) [OF o fit] Some by (simp add: writeTag_def)
  moreover have "writes (tagClaims desc) W ?D (pointerSlots desc) ws ?ws" by (rule putBits_writes [OF iw o(2) fit L])
  ultimately show ?thesis unfolding d(1) by (intro exI [of _ ?ws]) simp
qed

section \<open>Structs\<close>

lemma encodeStructAt_tag:
  "encodeStructAt env b desc structWord v =
     bindE (writeTag b desc structWord (resolveActiveDiscriminant desc (asRecord v))) (\<lambda>b.
       encodeFields env b desc structWord (resolveActiveDiscriminant desc (asRecord v)) (ds_fields desc) (asRecord v))"
  by (simp add: encodeStructAt.simps writeTag_def Let_def)

lemma receivedStruct_tag:
  "receivedStruct env desc v =
     receivedFields env (resolveActiveDiscriminant desc (asRecord v)) (ds_fields desc) (asRecord v)
       (withTag desc (resolveActiveDiscriminant desc (asRecord v)) (ds_createDefault desc))"
  by (simp add: receivedStruct.simps withTag_def Let_def)

lemma structSpec_fields:
  assumes ok: "schemaOk env"
    and F: "fieldsSpec env (resolveActiveDiscriminant desc (asRecord v)) (ds_fields desc) (asRecord v)
      (withTag desc (resolveActiveDiscriminant desc (asRecord v)) (ds_createDefault desc))"
  shows "structSpec env desc v"
  unfolding structSpec_def
proof (intro allI impI)
  fix ws W r
  let ?a = "resolveActiveDiscriminant desc (asRecord v)" and ?D = "dataWords desc" and ?P = "pointerSlots desc"
  let ?fs = "ds_fields desc" and ?props = "asRecord v" and ?L = "structClaims env desc" and ?ref = "structRef W ?D ?P"
  assume lay: "layoutOk env desc" and fit: "W + structSize desc \<le> length ws"
    and blank: "\<forall>l. ?L l \<longrightarrow> blank W ?D ws l" and rv: "receivedStruct env desc v = Some r"
    and small: "length ws + structWords env desc v < 2 ^ 29"
  have fitDP: "W + ?D + ?P \<le> length ws" "W + ?D \<le> length ws" using fit by (simp_all add: structSize_def)
  obtain ws1 where ws1: "writeTag (mb ws) desc (int W) ?a = Inr (mb ws1)" "length ws1 = length ws"
    "writes (tagClaims desc) W ?D ?P ws ws1"
    "\<And>ws2. agrees (tagClaims desc) W ?D ws ws1 ws2 \<Longrightarrow> readDiscriminant (readerOf ws2) desc ?ref = Inr ?a"
    using tag_step [OF lay fitDP(2)] by blast
  have rng: "inStructRange ?D ?P l" if "?L l" for l by (rule structClaims_range [OF ok lay that])
  have dis: "\<not> fieldClaims env ?a ?fs l" if "tagClaims desc l" for l
    using that lay by (auto simp: tagClaims_def layoutOk_def unionFits_def fieldClaims_def)
  have sub: "?L l" if "fieldClaims env ?a ?fs l" for l using that by (auto simp: fieldClaims_def structClaims_iff)
  have bl: "\<forall>l. fieldClaims env ?a ?fs l \<longrightarrow> blank W ?D ws1 l"
    using writes_blank [OF ws1(3)] blank rng dis sub by blast
  have "discriminantsOk ?a ?fs"
    using lay by (auto simp: discriminantsOk_def layoutOk_def resolveActiveDiscriminant_def split: option.splits)
  moreover have "\<forall>f \<in> set ?fs. fieldFits env desc f" "0 \<le> ds_dataWordCount desc" "0 \<le> ds_pointerCount desc"
    "pairwiseApart env ?fs" using lay by (simp_all add: layoutOk_def)
  moreover have "length ws1 + fieldWords env ?a ?fs ?props < 2 ^ 29" using small ws1(2) by (simp add: structWords.simps)
  moreover have "W + structSize desc \<le> length ws1" using fit ws1(2) by simp
  ultimately obtain ws' where ws': "encodeFields env (mb ws1) desc (int W) ?a ?fs ?props = Inr (mb ws')"
    "length ws' = length ws1 + fieldWords env ?a ?fs ?props" "writes (fieldClaims env ?a ?fs) W ?D ?P ws1 ws'"
    "\<And>ws2 fuel. agrees (fieldClaims env ?a ?fs) W ?D ws1 ws' ws2 \<Longrightarrow> 2 * size_list (size_prod (\<lambda>_. 0) size) ?props \<le> fuel \<Longrightarrow>
      decodeFields fuel env (readerOf ws2) ?ref ?a ?fs (withTag desc ?a (ds_createDefault desc)) = Inr r"
    using F [unfolded fieldsSpec_def, rule_format] bl rv [unfolded receivedStruct_tag] by blast
  show "\<exists>ws'. encodeStructAt env (mb ws) desc (int W) v = Inr (mb ws') \<and> length ws' = length ws + structWords env desc v \<and>
      writes ?L W ?D ?P ws ws' \<and>
      (\<forall>ws2 fuel. agrees ?L W ?D ws ws' ws2 \<longrightarrow> 2 * size v + 1 \<le> fuel \<longrightarrow>
         decodeStructAt fuel env (readerOf ws2) desc ?ref = Inr r)"
  proof (intro exI conjI allI impI)
    show "encodeStructAt env (mb ws) desc (int W) v = Inr (mb ws')" using ws1(1) ws'(1) by (simp add: encodeStructAt_tag)
    show "length ws' = length ws + structWords env desc v" using ws1(2) ws'(2) by (simp add: structWords.simps)
    show "writes ?L W ?D ?P ws ws'"
      by (rule writes_trans [OF writes_mono [OF ws1(3)] writes_mono [OF ws'(3)]]) (simp_all add: sub, simp add: structClaims_iff)
    fix ws2 fuel
    assume a2: "agrees ?L W ?D ws ws' ws2" and fu: "2 * size v + 1 \<le> fuel"
    obtain fuel' where fuel': "fuel = Suc fuel'" "2 * size v \<le> fuel'" using fu by (cases fuel) auto
    have "agrees (tagClaims desc) W ?D ws ws1 ws2"
    proof (rule agrees_first [OF ws'(3) ws1(3) _ dis _ fitDP(1)])
      show "agrees (tagClaims desc) W ?D ws ws' ws2" by (rule agrees_mono [OF a2]) (simp add: structClaims_iff)
      show "inStructRange ?D ?P l" if "tagClaims desc l" for l using rng that by (simp add: structClaims_iff)
    qed
    then have t: "readDiscriminant (readerOf ws2) desc ?ref = Inr ?a" by (rule ws1(4))
    have "agrees (fieldClaims env ?a ?fs) W ?D ws1 ws' ws2"
      by (rule agrees_second [OF agrees_mono [OF a2]]) (simp_all add: sub ws1(2))
    moreover have "2 * size_list (size_prod (\<lambda>_. 0) size) ?props \<le> fuel'" using asRecord_size [of v] fuel'(2) by linarith
    ultimately show "decodeStructAt fuel env (readerOf ws2) desc ?ref = Inr r"
      using t ws'(4) by (simp add: decodeStructAt.simps fuel'(1))
  qed
qed

end
