(* ===== verification/Codec_Inverse.thy ===== *)
theory Codec_Inverse
  imports Codec_Roundtrip
begin

unbundle bit_operations_syntax

text \<open>
  Decoding what the encoder wrote, continued: the pointers, the lists, and the induction on the
  value that puts the steps together into the round trip of a message.
\<close>

section \<open>Blocks of words\<close>

text \<open>A step that touches at most \<open>S\<close> words from \<open>W\<close> on of what was there, and appends words.\<close>

definition rangeWritten :: "nat \<Rightarrow> nat \<Rightarrow> 64 word list \<Rightarrow> 64 word list \<Rightarrow> bool" where
  "rangeWritten W S ws ws' \<longleftrightarrow> length ws \<le> length ws' \<and>
     (\<forall>k < length ws. k < W \<or> W + S \<le> k \<longrightarrow> ws' ! k = ws ! k)"

definition rangeAgrees :: "nat \<Rightarrow> nat \<Rightarrow> 64 word list \<Rightarrow> 64 word list \<Rightarrow> 64 word list \<Rightarrow> bool" where
  "rangeAgrees W S ws ws' ws2 \<longleftrightarrow> length ws' \<le> length ws2 \<and>
     (\<forall>k. W \<le> k \<and> k < W + S \<or> length ws \<le> k \<and> k < length ws' \<longrightarrow> ws2 ! k = ws' ! k)"

lemma rangeWritten_append:
  "rangeWritten W S ws ws1 \<Longrightarrow> rangeWritten (W + S) T ws1 ws' \<Longrightarrow> rangeWritten W (S + T) ws ws'"
  by (auto simp: rangeWritten_def)

lemma rangeAgrees_first:
  assumes "rangeAgrees W (S + T) ws ws' ws2" "rangeWritten (W + S) T ws1 ws'" "length ws \<le> length ws1" "W + S + T \<le> length ws"
  shows "rangeAgrees W S ws ws1 ws2"
  using assms by (auto simp: rangeAgrees_def rangeWritten_def)

lemma rangeAgrees_second:
  "rangeAgrees W (S + T) ws ws' ws2 \<Longrightarrow> length ws \<le> length ws1 \<Longrightarrow> rangeAgrees (W + S) T ws1 ws' ws2"
  by (auto simp: rangeAgrees_def)

lemma slotWritten_range: "slotWritten i ws ws' \<longleftrightarrow> rangeWritten i 1 ws ws'"
  by (auto simp: slotWritten_def rangeWritten_def less_Suc_eq_le)

lemma slotAgrees_range: "slotAgrees i ws ws' ws2 \<longleftrightarrow> rangeAgrees i 1 ws ws' ws2"
  by (auto simp: slotAgrees_def rangeAgrees_def less_Suc_eq le_less)

lemma slotWritten_update: "slotWritten i ws (ws[i := w] @ us)"
  by (auto simp: slotWritten_def nth_append)

lemma offset_range: "(i::nat) < n \<Longrightarrow> n < 2 ^ 29 \<Longrightarrow> inOffsetRange (int n - (int i + 1))"
  unfolding inOffsetRange_def by (simp; linarith)

section \<open>Null pointers and leaves\<close>

lemma null_decode:
  assumes "i < length ws" "ws ! i = 0" "\<not> isDataType type" "0 < fuel"
  shows "decodePointerField fuel env (readerOf ws) 0 (int i) type = Inr (nullValue env type)"
proof -
  have k: "pointerKind (ws ! i) \<noteq> 2" using assms(2) by (simp add: pointerKind_zero)
  obtain n where n: "fuel = Suc n" using assms(4) by (cases fuel) auto
  show ?thesis using assms(2,3) null_at [OF assms(1,2)] word_at [OF assms(1) k] pointer_at [OF assms(1) k]
    by (cases type) (simp_all add: n decodePointerField.simps decodeListField.simps readTextPointer_def readDataPointer_def orElseValue_def)
qed

definition nullPointer :: "schema \<Rightarrow> TypeDescriptor \<Rightarrow> js_value \<Rightarrow> bool" where
  "nullPointer env type v \<longleftrightarrow> pointerWords env type v = 0 \<and>
     (\<forall>b w. encodePointerField env b w type v = mbWriteWord b w 0)"

lemma pointerSpec_null:
  assumes "receivedPointer env type v = Some None" "nullPointer env type v"
  shows "pointerSpec env type v"
  unfolding pointerSpec_def
proof (intro allI impI)
  fix ws :: "64 word list" and i r
  assume t: "\<not> isDataType type" and i: "i < length ws" and r: "receivedPointer env type v = Some r"
  have r': "r = None" using r assms(1) by simp
  have "decodePointerField fuel env (readerOf ws2) 0 (int i) type = Inr (nullValue env type)"
    if "slotAgrees i ws (ws[i := 0]) ws2" "2 * size v + 2 \<le> fuel" for ws2 fuel
    using that i by (intro null_decode [OF _ _ t]) (auto simp: slotAgrees_def)
  then show "\<exists>ws'. encodePointerField env (mb ws) (int i) type v = Inr (mb ws') \<and>
    length ws' = length ws + pointerWords env type v \<and> slotWritten i ws ws' \<and>
    pointerKind (ws' ! i) \<noteq> 2 \<and> (ws' ! i = 0 \<longleftrightarrow> r = None) \<and>
    (\<forall>ws2 fuel. slotAgrees i ws ws' ws2 \<longrightarrow> 2 * size v + 2 \<le> fuel \<longrightarrow>
      decodePointerField fuel env (readerOf ws2) 0 (int i) type =
        Inr (case r of None \<Rightarrow> nullValue env type | Some x \<Rightarrow> x))"
    using i assms(2) r' slotWritten_update [of i ws 0 "[]"]
    by (intro exI [of _ "ws[i := 0]"]) (simp add: nullPointer_def pointerKind_zero)
qed

text \<open>A pointer whose content the step appends.\<close>

lemma pointerSpec_some:
  assumes "receivedPointer env type v = Some (Some x)"
    and step: "\<And>ws i. i < length ws \<Longrightarrow> length ws + pointerWords env type v < 2 ^ 29 \<Longrightarrow>
      inOffsetRange (int (length ws) - (int i + 1)) \<Longrightarrow>
      \<exists>p us. encodePointerField env (mb ws) (int i) type v = Inr (mb (ws[i := p] @ us)) \<and>
        length us = pointerWords env type v \<and> pointerKind p \<noteq> 2 \<and> p \<noteq> 0 \<and>
        (\<forall>ws2 fuel. i < length ws2 \<longrightarrow> ws2 ! i = p \<longrightarrow> holds ws2 (length ws) us \<longrightarrow> 2 * size v + 1 \<le> fuel \<longrightarrow>
          decodePointerField (Suc fuel) env (readerOf ws2) 0 (int i) type = Inr x)"
  shows "pointerSpec env type v"
  unfolding pointerSpec_def
proof (intro allI impI)
  fix ws :: "64 word list" and i r
  assume t: "\<not> isDataType type" and i: "i < length ws" and r: "receivedPointer env type v = Some r"
    and small: "length ws + pointerWords env type v < 2 ^ 29"
  have r': "r = Some x" using r assms(1) by simp
  have o: "inOffsetRange (int (length ws) - (int i + 1))" using offset_range [OF i] small by simp
  obtain p us where pu: "encodePointerField env (mb ws) (int i) type v = Inr (mb (ws[i := p] @ us))"
    "length us = pointerWords env type v" "pointerKind p \<noteq> 2" "p \<noteq> 0"
    "\<And>ws2 fuel. i < length ws2 \<Longrightarrow> ws2 ! i = p \<Longrightarrow> holds ws2 (length ws) us \<Longrightarrow> 2 * size v + 1 \<le> fuel \<Longrightarrow>
      decodePointerField (Suc fuel) env (readerOf ws2) 0 (int i) type = Inr x"
    using step [OF i small o] by blast
  have "decodePointerField fuel env (readerOf ws2) 0 (int i) type = Inr x"
    if a: "slotAgrees i ws (ws[i := p] @ us) ws2" and fu: "2 * size v + 2 \<le> fuel" for ws2 fuel
  proof -
    obtain fuel' where f: "fuel = Suc fuel'" "2 * size v + 1 \<le> fuel'" using fu by (cases fuel) auto
    have "holds ws2 (length ws) us" using a i by (auto simp: slotAgrees_def holds_def nth_append)
    then show ?thesis unfolding f(1) using a i by (intro pu(5)) (use f(2) in \<open>auto simp: slotAgrees_def nth_append\<close>)
  qed
  then show "\<exists>ws'. encodePointerField env (mb ws) (int i) type v = Inr (mb ws') \<and>
    length ws' = length ws + pointerWords env type v \<and> slotWritten i ws ws' \<and>
    pointerKind (ws' ! i) \<noteq> 2 \<and> (ws' ! i = 0 \<longleftrightarrow> r = None) \<and>
    (\<forall>ws2 fuel. slotAgrees i ws ws' ws2 \<longrightarrow> 2 * size v + 2 \<le> fuel \<longrightarrow>
      decodePointerField fuel env (readerOf ws2) 0 (int i) type =
        Inr (case r of None \<Rightarrow> nullValue env type | Some x \<Rightarrow> x))"
    using i pu(1-4) r' slotWritten_update [of i ws p us]
    by (intro exI [of _ "ws[i := p] @ us"]) (simp add: nth_append)
qed

lemma pointerSpec_text:
  assumes v: "v \<noteq> JUndefined" "v \<noteq> JNull"
  shows "pointerSpec env TText v"
proof (cases "receivedPointer env TText v")
  case None
  then show ?thesis by (simp add: pointerSpec_def)
next
  case (Some r)
  let ?s = "asString v"
  have s: "wfString ?s" "length (textEncode ?s) + 1 < 2 ^ 29" and r: "r = Some (JString ?s)"
    using Some v by (auto simp: receivedPointer.simps receivedLeaf_def Let_def split: if_splits)
  show ?thesis
  proof (rule pointerSpec_some)
    show "receivedPointer env TText v = Some (Some (JString ?s))" using Some r by simp
    fix ws :: "64 word list" and i
    assume i: "i < length ws" and o: "inOffsetRange (int (length ws) - (int i + 1))"
    let ?n = "int (length (textEncode ?s)) + 1"
    note b = bytePointerWords_simps(3) [OF i, of "textEncode ?s" ?n]
    have n: "?n < 2 ^ 29" using s(2) by simp
    have enc: "encodePointerField env (mb ws) (int i) TText v =
        Inr (mb (ws[i := listPtr (int (length ws) - (int i + 1)) 2 ?n] @ padWords (nat (ceilDiv ?n 8)) (textEncode ?s)))"
      using mbWriteTextPointer_mb [OF i o n] v by (simp add: encodePointerField.simps b)
    have dec: "readTextPointer (readerOf ws2) 0 (int i) = Inr (Some ?s)"
      if "i < length ws2" "ws2 ! i = listPtr (int (length ws) - (int i + 1)) 2 ?n"
        "holds ws2 (length ws) (padWords (nat (ceilDiv ?n 8)) (textEncode ?s))" for ws2
      by (rule text_at [unfolded of_nat_add of_nat_1, OF that(1,2) o s(2) _ s(1) that(3)]) simp
    show "\<exists>p us. encodePointerField env (mb ws) (int i) TText v = Inr (mb (ws[i := p] @ us)) \<and>
        length us = pointerWords env TText v \<and> pointerKind p \<noteq> 2 \<and> p \<noteq> 0 \<and>
        (\<forall>ws2 fuel. i < length ws2 \<longrightarrow> ws2 ! i = p \<longrightarrow> holds ws2 (length ws) us \<longrightarrow> 2 * size v + 1 \<le> fuel \<longrightarrow>
          decodePointerField (Suc fuel) env (readerOf ws2) 0 (int i) TText = Inr (JString ?s))"
      by (intro exI conjI, rule enc)
        (use dec v listPtr_fields(1) [OF o, of 2 ?n] n in \<open>simp_all add: pointerWords.simps listPtr_nonzero decodePointerField.simps orElseValue_def\<close>)
  qed
qed

lemma pointerSpec_data:
  assumes v: "v \<noteq> JUndefined" "v \<noteq> JNull"
  shows "pointerSpec env TData v"
proof (cases "receivedPointer env TData v")
  case None
  then show ?thesis by (simp add: pointerSpec_def)
next
  case (Some r)
  let ?bs = "asUint8Array v"
  have s: "length ?bs < 2 ^ 29" and r: "r = Some (JBytes ?bs)"
    using Some v by (auto simp: receivedPointer.simps receivedLeaf_def Let_def split: if_splits)
  show ?thesis
  proof (rule pointerSpec_some)
    show "receivedPointer env TData v = Some (Some (JBytes ?bs))" using Some r by simp
    fix ws :: "64 word list" and i
    assume i: "i < length ws" and o: "inOffsetRange (int (length ws) - (int i + 1))"
    let ?n = "int (length ?bs)"
    note b = bytePointerWords_simps(3) [OF i, of ?bs ?n]
    have n: "?n < 2 ^ 29" using s by simp
    have enc: "encodePointerField env (mb ws) (int i) TData v =
        Inr (mb (ws[i := listPtr (int (length ws) - (int i + 1)) 2 ?n] @ padWords (nat (ceilDiv ?n 8)) ?bs))"
      using mbWriteDataPointer_mb [OF i o n] v by (simp add: encodePointerField.simps b)
    have dec: "readDataPointer (readerOf ws2) 0 (int i) = Inr (Some ?bs)"
      if "i < length ws2" "ws2 ! i = listPtr (int (length ws) - (int i + 1)) 2 ?n"
        "holds ws2 (length ws) (padWords (nat (ceilDiv ?n 8)) ?bs)" for ws2
      by (rule data_at [OF that(1,2) o s _ that(3)]) simp
    show "\<exists>p us. encodePointerField env (mb ws) (int i) TData v = Inr (mb (ws[i := p] @ us)) \<and>
        length us = pointerWords env TData v \<and> pointerKind p \<noteq> 2 \<and> p \<noteq> 0 \<and>
        (\<forall>ws2 fuel. i < length ws2 \<longrightarrow> ws2 ! i = p \<longrightarrow> holds ws2 (length ws) us \<longrightarrow> 2 * size v + 1 \<le> fuel \<longrightarrow>
          decodePointerField (Suc fuel) env (readerOf ws2) 0 (int i) TData = Inr (JBytes ?bs))"
      by (intro exI conjI, rule enc)
        (use dec v listPtr_fields(1) [OF o, of 2 ?n] n in \<open>simp_all add: pointerWords.simps listPtr_nonzero decodePointerField.simps orElseValue_def\<close>)
  qed
qed

text \<open>Capability words, of interfaces and of any-pointers.\<close>

lemma capability_word:
  assumes "0 \<le> i" "i < 2 ^ 32"
  shows "encodeCapabilityPointerWord i = Inr (3 OR push_bit 32 (word_of_int i))"
    "pointerKind (3 OR push_bit 32 (word_of_int i)) = 3" "(3 OR push_bit 32 (word_of_int i) :: 64 word) \<noteq> 0"
    "decodeCapabilityPointerWord (3 OR push_bit 32 (word_of_int i)) = Inr i"
proof -
  let ?w = "3 OR push_bit 32 (word_of_int i) :: 64 word"
  show "encodeCapabilityPointerWord i = Inr ?w" using assms by (simp add: encodeCapabilityPointerWord_def)
  have "?w AND 3 = 3" by (rule bit_word_eqI) (auto simp: bit_simps numeral_3_eq_3)
  then show k: "pointerKind ?w = 3" by (simp add: pointerKind_def)
  then show "?w \<noteq> 0" by (auto simp: pointerKind_zero)
  have "take_bit 32 i = i" using assms by (simp add: take_bit_int_eq_self)
  then have b: "bit i k \<Longrightarrow> k < 32" for k by (metis bit_take_bit_iff)
  have "drop_bit 32 ?w AND mask 32 = word_of_int i"
    by (rule bit_word_eqI) (auto simp: bit_simps numeral_3_eq_3 dest: b)
  then have "uint (drop_bit 32 ?w AND 0xffffffff) = i"
    using uint_word_of_int_small [OF assms] by (simp add: mask_eq_exp_minus_1)
  then show "decodeCapabilityPointerWord ?w = Inr i" using k by (simp add: decodeCapabilityPointerWord_def)
qed

lemma pointerSpec_capability:
  assumes "receivedPointer env type v = Some (Some x)" "0 \<le> c" "c < 2 ^ 32" "pointerWords env type v = 0"
    and enc: "\<And>b w. encodePointerField env b w type v = mbWriteWord b w (3 OR push_bit 32 (word_of_int c))"
    and dec: "\<And>ws i fuel. i < length ws \<Longrightarrow> ws ! i = 3 OR push_bit 32 (word_of_int c) \<Longrightarrow>
      decodePointerField (Suc fuel) env (readerOf ws) 0 (int i) type = Inr x"
  shows "pointerSpec env type v"
proof (rule pointerSpec_some [OF assms(1)])
  fix ws :: "64 word list" and i
  assume i: "i < length ws"
  show "\<exists>p us. encodePointerField env (mb ws) (int i) type v = Inr (mb (ws[i := p] @ us)) \<and>
      length us = pointerWords env type v \<and> pointerKind p \<noteq> 2 \<and> p \<noteq> 0 \<and>
      (\<forall>ws2 fuel. i < length ws2 \<longrightarrow> ws2 ! i = p \<longrightarrow> holds ws2 (length ws) us \<longrightarrow> 2 * size v + 1 \<le> fuel \<longrightarrow>
        decodePointerField (Suc fuel) env (readerOf ws2) 0 (int i) type = Inr x)"
    using i capability_word [OF assms(2,3)] assms(4) dec
    by (intro exI [of _ "3 OR push_bit 32 (word_of_int c)"] exI [of _ "[]"]) (simp add: enc)
qed

lemma pointerSpec_interface:
  assumes v: "v \<noteq> JUndefined" "v \<noteq> JNull"
  shows "pointerSpec env TInterface v"
proof (cases "receivedPointer env TInterface v")
  case None
  then show ?thesis by (simp add: pointerSpec_def)
next
  case (Some r)
  have w: "pointerWords env TInterface v = 0" by (simp add: pointerWords.simps)
  obtain c where c: "capabilityIndexFrom v = Inr c"
    using Some v by (cases "capabilityIndexFrom v") (auto simp: receivedPointer.simps receivedLeaf_def)
  show ?thesis
  proof (cases c)
    case None
    then have "nullPointer env TInterface v" using c v w by (simp add: nullPointer_def encodePointerField.simps)
    moreover have "receivedPointer env TInterface v = Some None" using c None v by (simp add: receivedPointer.simps receivedLeaf_def)
    ultimately show ?thesis by (intro pointerSpec_null)
  next
    case c': (Some k)
    have k: "0 \<le> k" using capabilityIndexFrom_nonneg c c' by simp
    have k2: "k < 2 ^ 32" and r: "receivedPointer env TInterface v = Some (Some (capabilityValue k))"
      using Some c c' v by (auto simp: receivedPointer.simps receivedLeaf_def split: if_splits)
    note cw = capability_word [OF k k2]
    show ?thesis
    proof (rule pointerSpec_capability [OF r k k2 w])
      show "encodePointerField env b w TInterface v = mbWriteWord b w (3 OR push_bit 32 (word_of_int k))" for b w
        using v c c' cw(1) by (simp add: encodePointerField.simps)
      show "decodePointerField (Suc fuel) env (readerOf ws) 0 (int i) TInterface = Inr (capabilityValue k)"
        if "i < length ws" "ws ! i = 3 OR push_bit 32 (word_of_int k)" for ws i fuel
        using that cw word_at [of i ws] by (simp add: decodePointerField.simps)
    qed
  qed
qed

lemma pointerSpec_any:
  assumes v: "v \<noteq> JUndefined" "v \<noteq> JNull"
  shows "pointerSpec env TAnyPointer v"
proof (cases "receivedPointer env TAnyPointer v")
  case None
  then show ?thesis by (simp add: pointerSpec_def)
next
  case (Some r)
  have w: "pointerWords env TAnyPointer v = 0" by (simp add: pointerWords.simps)
  obtain c where c: "asAnyPointerValue v = Inr c"
    using Some v by (cases "asAnyPointerValue v") (auto simp: receivedPointer.simps receivedLeaf_def)
  show ?thesis
  proof (cases c)
    case ApNull
    then have "nullPointer env TAnyPointer v" using c v w by (simp add: nullPointer_def encodePointerField.simps)
    moreover have "receivedPointer env TAnyPointer v = Some None" using c ApNull v by (simp add: receivedPointer.simps receivedLeaf_def)
    ultimately show ?thesis by (intro pointerSpec_null)
  next
    case (ApMessage m)
    then show ?thesis using Some c v by (simp add: receivedPointer.simps receivedLeaf_def)
  next
    case c': (ApInterface k)
    have k: "0 \<le> k" using asAnyPointerValue_nonneg c c' by simp
    have k2: "k < 2 ^ 32" and r: "receivedPointer env TAnyPointer v = Some (Some (anyPointerObject (ApInterface k)))"
      using Some c c' v by (auto simp: receivedPointer.simps receivedLeaf_def split: if_splits)
    note cw = capability_word [OF k k2]
    show ?thesis
    proof (rule pointerSpec_capability [OF r k k2 w])
      show "encodePointerField env b w TAnyPointer v = mbWriteWord b w (3 OR push_bit 32 (word_of_int k))" for b w
        using v c c' cw(1) by (simp add: encodePointerField.simps)
      show "decodePointerField (Suc fuel) env (readerOf ws) 0 (int i) TAnyPointer = Inr (anyPointerObject (ApInterface k))"
        if "i < length ws" "ws ! i = 3 OR push_bit 32 (word_of_int k)" for ws i fuel
        using that cw pointer_at [of i ws] by (simp add: decodePointerField.simps)
    qed
  qed
qed

section \<open>Struct pointers\<close>

text \<open>A struct without words is encoded anywhere: nothing is written.\<close>

lemma empty_field:
  assumes "fieldFits env desc f" "structSize desc = 0" "0 \<le> ds_pointerCount desc"
    and grp: "\<And>name n d. f = Group name n d \<Longrightarrow> v \<noteq> JUndefined \<Longrightarrow> structSize (env n) = 0 \<Longrightarrow>
      encodeStructAt env b (env n) w v = Inr b"
  shows "encodeOne env b desc w f v = Inr b"
proof (cases f)
  case (Slot name offs type msk d)
  have D: "nat (ds_dataWordCount desc) = 0" "ds_pointerCount desc = 0" using assms(2,3) by (simp_all add: structSize_def)
  have t: "isDataType type" using assms(1) D(2) by (auto simp: Slot split: if_splits)
  then have "dataWidth type = 0" using assms(1) D(1) by (simp add: Slot)
  then have "type = TVoid" using element_width [OF t] by auto
  then show ?thesis using assms(1) by (simp add: Slot encodeOne_def encodeDataField_def bool_start)
next
  case (Group name n d)
  have "structSize (env n) = 0" using assms(1,2) by (simp add: Group structSize_def)
  then show ?thesis using grp [OF Group] by (simp add: Group encodeOne_def)
qed

lemma empty_struct_encode:
  assumes ok: "schemaOk env"
  shows "layoutOk env desc \<Longrightarrow> structSize desc = 0 \<Longrightarrow> encodeStructAt env b desc w v = Inr b"
proof (induction v arbitrary: desc w rule: measure_induct_rule [of size])
  case (less v)
  let ?a = "resolveActiveDiscriminant desc (asRecord v)"
  have "ds_union desc = None"
    using less.prems by (auto simp: layoutOk_def unionFits_def structSize_def split: option.splits)
  then have tag: "writeTag b desc w ?a = Inr b" by (simp add: writeTag_def)
  have p: "0 \<le> ds_pointerCount desc" and fits: "\<forall>f \<in> set (ds_fields desc). fieldFits env desc f"
    using less.prems(1) by (simp_all add: layoutOk_def)
  have "encodeFields env b desc w ?a fs (asRecord v) = Inr b" if "set fs \<subseteq> set (ds_fields desc)" for fs
    using that
  proof (induction fs)
    case Nil
    then show ?case by (simp add: encodeFields.simps)
  next
    case (Cons f fs)
    let ?v = "getProp (asRecord v) (fd_name f)"
    have "encodeOne env b desc w f ?v = Inr b"
    proof (rule empty_field [OF _ less.prems(2) p])
      show "fieldFits env desc f" using fits Cons.prems by simp
      show "encodeStructAt env b (env n) w ?v = Inr b"
        if "f = Group name n d" "?v \<noteq> JUndefined" "structSize (env n) = 0" for name n d
      proof (rule less.IH)
        show "size ?v < size v" using getProp_size [OF that(2)] asRecord_size [of v] by linarith
        show "layoutOk env (env n)" using ok by (simp add: schemaOk_def)
      qed (rule that(3))
    qed
    then show ?case using Cons by (simp add: encodeFields_Cons)
  qed
  then show ?case using tag by (simp add: encodeStructAt_tag)
qed

lemma agrees_block:
  assumes a: "rangeAgrees W (D + P) ws ws' ws2" and rng: "\<And>l. L l \<Longrightarrow> inStructRange D P l"
  shows "agrees L W D ws ws' ws2"
  unfolding agrees_def
proof (intro conjI allI impI)
  show "length ws' \<le> length ws2" using a by (simp add: rangeAgrees_def)
  fix l assume l: "L l"
  show "samePlace W D ws' ws2 l"
  proof (cases l)
    case (DataBit b)
    then have "b div 64 < D" using rng [OF l] by (simp add: div_less_iff_less_mult mult.commute)
    then show ?thesis using a by (simp add: DataBit bitAt_def rangeAgrees_def)
  next
    case (PtrSlot p)
    then show ?thesis using a rng [OF l] by (simp add: rangeAgrees_def)
  qed
qed (use a in \<open>simp add: rangeAgrees_def\<close>)

lemma blank_zeros:
  assumes "inStructRange D P l" "\<forall>k. W \<le> k \<and> k < W + (D + P) \<longrightarrow> ws ! k = 0"
  shows "blank W D ws l"
proof (cases l)
  case (DataBit b)
  then have "b div 64 < D" using assms(1) by (simp add: div_less_iff_less_mult mult.commute)
  then show ?thesis using assms(2) by (simp add: DataBit bitAt_def)
next
  case (PtrSlot p)
  then show ?thesis using assms by simp
qed

text \<open>A struct as a block of words.\<close>

lemma structSpec_block:
  assumes ok: "schemaOk env" and lay: "layoutOk env desc" and S: "structSpec env desc v"
    and fit: "W + structSize desc \<le> length ws" and zero: "\<forall>k. W \<le> k \<and> k < W + structSize desc \<longrightarrow> ws ! k = 0"
    and r: "receivedStruct env desc v = Some r" and small: "length ws + structWords env desc v < 2 ^ 29"
  shows "\<exists>ws'. encodeStructAt env (mb ws) desc (int W) v = Inr (mb ws') \<and>
    length ws' = length ws + structWords env desc v \<and> rangeWritten W (structSize desc) ws ws' \<and>
    (\<forall>ws2 fuel. rangeAgrees W (structSize desc) ws ws' ws2 \<longrightarrow> 2 * size v + 1 \<le> fuel \<longrightarrow>
       decodeStructAt fuel env (readerOf ws2) desc (structRef W (dataWords desc) (pointerSlots desc)) = Inr r)"
proof -
  have rng: "inStructRange (dataWords desc) (pointerSlots desc) l" if "structClaims env desc l" for l
    by (rule structClaims_range [OF ok lay that])
  have "\<forall>l. structClaims env desc l \<longrightarrow> blank W (dataWords desc) ws l"
    using blank_zeros rng zero unfolding structSize_def by blast
  then obtain ws' where ws': "encodeStructAt env (mb ws) desc (int W) v = Inr (mb ws')"
    "length ws' = length ws + structWords env desc v" "writes (structClaims env desc) W (dataWords desc) (pointerSlots desc) ws ws'"
    "\<And>ws2 fuel. agrees (structClaims env desc) W (dataWords desc) ws ws' ws2 \<Longrightarrow> 2 * size v + 1 \<le> fuel \<Longrightarrow>
      decodeStructAt fuel env (readerOf ws2) desc (structRef W (dataWords desc) (pointerSlots desc)) = Inr r"
    using S [unfolded structSpec_def, rule_format, OF lay fit _ r small] by blast
  moreover have "rangeWritten W (structSize desc) ws ws'"
    using ws'(3) by (simp add: writes_def rangeWritten_def structSize_def add.assoc)
  moreover have "agrees (structClaims env desc) W (dataWords desc) ws ws' ws2"
    if "rangeAgrees W (structSize desc) ws ws' ws2" for ws2
    using agrees_block [OF that [unfolded structSize_def] rng] .
  ultimately show ?thesis by blast
qed

lemma alloc_struct:
  assumes "layoutOk env desc"
  shows "mbAllocWords (mb ws) (jint (ds_dataWordCount desc + ds_pointerCount desc)) =
    Inr (int (length ws), mb (ws @ replicate (structSize desc) 0))"
    "ds_dataWordCount desc = int (dataWords desc)" "ds_pointerCount desc = int (pointerSlots desc)"
    "dataWords desc < 2 ^ 16" "pointerSlots desc < 2 ^ 16"
proof -
  have c: "0 \<le> ds_dataWordCount desc" "ds_dataWordCount desc < 2 ^ 16" "0 \<le> ds_pointerCount desc" "ds_pointerCount desc < 2 ^ 16"
    using assms by (simp_all add: layoutOk_def)
  show "mbAllocWords (mb ws) (jint (ds_dataWordCount desc + ds_pointerCount desc)) =
      Inr (int (length ws), mb (ws @ replicate (structSize desc) 0))"
    using mbAlloc_int [of "ds_dataWordCount desc + ds_pointerCount desc" ws] c by (simp add: structSize_def nat_add_distrib)
  show "ds_dataWordCount desc = int (dataWords desc)" "ds_pointerCount desc = int (pointerSlots desc)"
    "dataWords desc < 2 ^ 16" "pointerSlots desc < 2 ^ 16" using c by simp_all
qed

lemma structOffset_target:
  "int i + 1 + structOffset (int i) (int L) (int D) (int P) = int (if D + P = 0 then i else L)"
  by (simp add: structOffset_def)

lemma pointerSpec_struct:
  assumes ok: "schemaOk env" and v: "v \<noteq> JUndefined" "v \<noteq> JNull" and S: "structSpec env (env n) v"
  shows "pointerSpec env (TStruct n) v"
  unfolding pointerSpec_def
proof (intro allI impI)
  fix ws :: "64 word list" and i r
  let ?desc = "env n" and ?L = "length ws"
  let ?D = "dataWords ?desc" and ?P = "pointerSlots ?desc" and ?s = "structSize ?desc"
  assume i: "i < ?L" and r: "receivedPointer env (TStruct n) v = Some r"
    and small: "?L + pointerWords env (TStruct n) v < 2 ^ 29"
  have lay: "layoutOk env ?desc" using ok by (simp add: schemaOk_def)
  note al = alloc_struct [OF lay]
  obtain props where props: "receivedStruct env ?desc v = Some props" "r = Some (JObject props)"
    using r v by (auto simp: receivedPointer.simps)
  have pw: "pointerWords env (TStruct n) v = ?s + structWords env ?desc v" using v by (simp add: pointerWords.simps)
  define off where "off = structOffset (int i) (int ?L) (int ?D) (int ?P)"
  define W where "W = (if ?s = 0 then i else ?L)"
  have offW: "int i + 1 + off = int W" by (simp only: off_def W_def structSize_def structOffset_target)
  have off0: "off = 0 \<Longrightarrow> ?D \<noteq> 0 \<or> ?P \<noteq> 0" by (auto simp: off_def structOffset_def split: if_splits)
  have o: "inOffsetRange off"
    using offset_range [OF i] small by (auto simp: off_def structOffset_def inOffsetRange_def)
  define p where "p = structPtr off (int ?D) (int ?P)"
  let ?ws0 = "ws @ replicate ?s 0"
  let ?ws1 = "?ws0[i := p]"
  have bounds: "(0::int) \<le> int ?D" "int ?D < 2 ^ 16" "(0::int) \<le> int ?P" "int ?P < 2 ^ 16"
    using lay by (simp_all add: layoutOk_def)
  have sp: "mbSetStructPointer (mb ?ws0) (int i) (int ?L) (int ?D) (int ?P) = Inr (mb ?ws1)"
    unfolding p_def off_def by (rule mbSetStructPointer_mb [OF _ o [unfolded off_def] bounds]) (use i in simp)
  have fit: "W + ?s \<le> length ?ws1" using i by (simp add: W_def)
  have zero: "\<forall>k. W \<le> k \<and> k < W + ?s \<longrightarrow> ?ws1 ! k = 0" using i by (auto simp: W_def nth_append nth_list_update)
  have sm: "length ?ws1 + structWords env ?desc v < 2 ^ 29" using small pw by simp
  obtain ws' where ws': "encodeStructAt env (mb ?ws1) ?desc (int W) v = Inr (mb ws')"
    "length ws' = length ?ws1 + structWords env ?desc v" "rangeWritten W ?s ?ws1 ws'"
    "\<And>ws2 fuel. rangeAgrees W ?s ?ws1 ws' ws2 \<Longrightarrow> 2 * size v + 1 \<le> fuel \<Longrightarrow>
      decodeStructAt fuel env (readerOf ws2) ?desc (structRef W ?D ?P) = Inr props"
    using structSpec_block [OF ok lay S fit zero props(1) sm] by blast
  have es: "encodeStructAt env (mb ?ws1) ?desc (int ?L) v = Inr (mb ws')"
    using ws'(1) empty_struct_encode [OF ok lay, where v = v] by (cases "?s = 0") (simp_all add: W_def)
  have enc: "encodePointerField env (mb ws) (int i) (TStruct n) v = Inr (mb ws')"
    using v al(1) sp [folded al(2,3)] es [folded al(2,3)] by (simp add: encodePointerField.simps)
  have old: "ws' ! k = ?ws1 ! k" if k: "k < length ws" for k
  proof -
    have "k < W \<or> W + ?s \<le> k" using k i by (auto simp: W_def)
    moreover have "k < length ?ws1" using k by simp
    ultimately show ?thesis using ws'(3) unfolding rangeWritten_def by blast
  qed
  have pi: "ws' ! i = p" using old [OF i] i by (simp add: nth_list_update nth_append)
  have sw: "slotWritten i ws ws'" using old ws'(2) i by (auto simp: slotWritten_def nth_append)
  have nz: "p \<noteq> 0" unfolding p_def by (rule structPtr_nonzero [OF o bounds], unfold of_nat_eq_0_iff, erule off0)
  have dec: "decodePointerField fuel env (readerOf ws2) 0 (int i) (TStruct n) = Inr (JObject props)"
    if a: "slotAgrees i ws ws' ws2" and fu: "2 * size v + 2 \<le> fuel" for ws2 fuel
  proof -
    obtain fuel' where f: "fuel = Suc fuel'" "2 * size v + 1 \<le> fuel'" using fu by (cases fuel) auto
    have i2: "i < length ws2" and fit2: "W + ?D + ?P \<le> length ws2" and p2: "ws2 ! i = p"
      using a i pi fit ws'(2) by (simp_all add: slotAgrees_def structSize_def W_def split: if_splits)
    note rd = struct_at_word(1) [OF i2 p2 [unfolded p_def] o al(4,5) off0 offW fit2]
    have "rangeAgrees W ?s ?ws1 ws' ws2" using a ws'(2) by (auto simp: rangeAgrees_def slotAgrees_def W_def split: if_splits)
    then show ?thesis using rd ws'(4) f(2) by (simp add: f(1) decodePointerField.simps)
  qed
  show "\<exists>ws'. encodePointerField env (mb ws) (int i) (TStruct n) v = Inr (mb ws') \<and>
    length ws' = ?L + pointerWords env (TStruct n) v \<and> slotWritten i ws ws' \<and>
    pointerKind (ws' ! i) \<noteq> 2 \<and> (ws' ! i = 0 \<longleftrightarrow> r = None) \<and>
    (\<forall>ws2 fuel. slotAgrees i ws ws' ws2 \<longrightarrow> 2 * size v + 2 \<le> fuel \<longrightarrow>
      decodePointerField fuel env (readerOf ws2) 0 (int i) (TStruct n) =
        Inr (case r of None \<Rightarrow> nullValue env (TStruct n) | Some x \<Rightarrow> x))"
    using enc sw pi nz structPtr_fields(1) [OF o bounds, folded p_def] dec ws'(2) pw props(2) by (intro exI [of _ ws']) simp
qed

section \<open>Lists of structs and of pointers\<close>

definition elementsSpec :: "schema \<Rightarrow> nat \<Rightarrow> js_value list \<Rightarrow> bool" where
  "elementsSpec env n vs \<longleftrightarrow>
     (\<forall>ws W rs. W + structSize (env n) * length vs \<le> length ws \<longrightarrow>
        (\<forall>k. W \<le> k \<and> k < W + structSize (env n) * length vs \<longrightarrow> ws ! k = 0) \<longrightarrow>
        receivedList env (TStruct n) vs = Some rs \<longrightarrow> length ws + listWords env (TStruct n) vs < 2 ^ 29 \<longrightarrow>
        (\<exists>ws'. encodeElements env (mb ws) (env n) (int W) vs = Inr (mb ws') \<and>
           length ws' = length ws + listWords env (TStruct n) vs \<and>
           rangeWritten W (structSize (env n) * length vs) ws ws' \<and>
           (\<forall>ws2 fuel. rangeAgrees W (structSize (env n) * length vs) ws ws' ws2 \<longrightarrow> 2 * size_list size vs \<le> fuel \<longrightarrow>
              decodeElements fuel env (readerOf ws2) (env n)
                (structRef W (dataWords (env n)) (pointerSlots (env n))) (length vs) = Inr rs)))"

definition slotsSpec :: "schema \<Rightarrow> TypeDescriptor \<Rightarrow> js_value list \<Rightarrow> bool" where
  "slotsSpec env type vs \<longleftrightarrow>
     (\<forall>ws W rs. W + length vs \<le> length ws \<longrightarrow> receivedList env type vs = Some rs \<longrightarrow>
        length ws + listWords env type vs < 2 ^ 29 \<longrightarrow>
        (\<exists>ws'. encodeSlots env (mb ws) (int W) type vs = Inr (mb ws') \<and>
           length ws' = length ws + listWords env type vs \<and> rangeWritten W (length vs) ws ws' \<and>
           (\<forall>ws2 fuel. rangeAgrees W (length vs) ws ws' ws2 \<longrightarrow> 2 * size_list size vs \<le> fuel \<longrightarrow>
              decodeSlots fuel env (readerOf ws2) 0 (int W) type (length vs) = Inr rs)))"

lemma slotsSpec_Nil: "slotsSpec env type []"
  by (auto simp: slotsSpec_def encodeSlots.simps decodeSlots.simps receivedList.simps listWords.simps rangeWritten_def)

lemma elementsSpec_Nil: "elementsSpec env n []"
  by (auto simp: elementsSpec_def encodeElements.simps decodeElements.simps receivedList.simps listWords.simps rangeWritten_def)

lemma received_element:
  assumes "receivedList env (TStruct n) (v # vs) = Some rs"
  obtains p xs where "receivedStruct env (env n) v = Some p" "receivedList env (TStruct n) vs = Some xs" "rs = JObject p # xs"
  using assms by (auto simp: receivedList.simps split: option.splits)

lemma received_slot:
  assumes "receivedList env type (v # vs) = Some rs" "\<not> isDataType type" "\<not> (\<exists>n. type = TStruct n)"
  obtains r xs where "receivedPointer env type v = Some r" "receivedList env type vs = Some xs"
    "rs = (case r of None \<Rightarrow> nullValue env type | Some x \<Rightarrow> x) # xs"
proof -
  have "receivedList env type (v # vs) =
      (case map_option (\<lambda>r. case r of None \<Rightarrow> nullValue env type | Some x \<Rightarrow> x) (receivedPointer env type v) of
         None \<Rightarrow> None | Some x \<Rightarrow> map_option (\<lambda>xs. x # xs) (receivedList env type vs))"
    using assms(2,3) by (cases type) (auto simp: receivedList.simps split: option.splits)
  then show thesis using assms(1) that
    by (cases "receivedPointer env type v"; cases "receivedList env type vs") auto
qed

lemma listWords_element:
  "listWords env (TStruct n) (v # vs) = structWords env (env n) v + listWords env (TStruct n) vs"
  by (simp add: listWords.simps)

lemma listWords_slot:
  "\<not> isDataType type \<Longrightarrow> \<not> (\<exists>n. type = TStruct n) \<Longrightarrow>
    listWords env type (v # vs) = pointerWords env type v + listWords env type vs"
  by (cases type) (auto simp: listWords.simps)

lemma decodeElements_Suc:
  "decodeElements fuel env r desc ref (Suc count) =
     bindE (decodeStructAt fuel env r desc ref) (\<lambda>props.
     bindE (decodeElements fuel env r desc
              (ref\<lparr>sr_startWord := sr_startWord ref + (sr_dataWordCount ref + sr_pointerCount ref)\<rparr>) count)
       (\<lambda>vs. Inr (JObject props # vs)))"
  by (subst decodeElements.simps) simp

lemma decodeSlots_Suc:
  "decodeSlots fuel env r segmentId slotWord type (Suc count) =
     bindE (decodePointerField fuel env r segmentId slotWord type) (\<lambda>v.
     bindE (decodeSlots fuel env r segmentId (slotWord + 1) type count) (\<lambda>vs. Inr (v # vs)))"
  by (subst decodeSlots.simps) simp

lemma elementsSpec_Cons:
  assumes ok: "schemaOk env" and S: "structSpec env (env n) v" and rest: "elementsSpec env n vs"
  shows "elementsSpec env n (v # vs)"
  unfolding elementsSpec_def
proof (intro allI impI)
  fix ws :: "64 word list" and W rs
  let ?s = "structSize (env n)" and ?T = "structSize (env n) * length vs"
  let ?D = "dataWords (env n)" and ?P = "pointerSlots (env n)"
  have T: "?s * length (v # vs) = ?s + ?T" by simp
  assume "W + ?s * length (v # vs) \<le> length ws"
    and z: "\<forall>k. W \<le> k \<and> k < W + ?s * length (v # vs) \<longrightarrow> ws ! k = 0"
    and rs: "receivedList env (TStruct n) (v # vs) = Some rs"
    and small: "length ws + listWords env (TStruct n) (v # vs) < 2 ^ 29"
  then have fit: "W + (?s + ?T) \<le> length ws" and zero: "\<forall>k. W \<le> k \<and> k < W + (?s + ?T) \<longrightarrow> ws ! k = 0"
    unfolding T by blast+
  obtain p xs where p: "receivedStruct env (env n) v = Some p" "receivedList env (TStruct n) vs = Some xs" "rs = JObject p # xs"
    by (rule received_element [OF rs])
  have lay: "layoutOk env (env n)" using ok by (simp add: schemaOk_def)
  have f1: "W + ?s \<le> length ws" "\<forall>k. W \<le> k \<and> k < W + ?s \<longrightarrow> ws ! k = 0" using fit zero by simp_all
  have sm: "length ws + structWords env (env n) v < 2 ^ 29" using small by (simp add: listWords_element)
  obtain ws1 where ws1: "encodeStructAt env (mb ws) (env n) (int W) v = Inr (mb ws1)"
    "length ws1 = length ws + structWords env (env n) v" "rangeWritten W ?s ws ws1"
    "\<And>ws2 fuel. rangeAgrees W ?s ws ws1 ws2 \<Longrightarrow> 2 * size v + 1 \<le> fuel \<Longrightarrow>
      decodeStructAt fuel env (readerOf ws2) (env n) (structRef W ?D ?P) = Inr p"
    using structSpec_block [OF ok lay S f1 p(1) sm] by blast
  have f2: "W + ?s + ?T \<le> length ws1" using fit ws1(2) by simp
  have z2: "\<forall>k. W + ?s \<le> k \<and> k < W + ?s + ?T \<longrightarrow> ws1 ! k = 0"
    using zero fit ws1(3) by (simp add: rangeWritten_def)
  have sm2: "length ws1 + listWords env (TStruct n) vs < 2 ^ 29" using small ws1(2) by (simp add: listWords_element)
  obtain ws' where ws': "encodeElements env (mb ws1) (env n) (int (W + ?s)) vs = Inr (mb ws')"
    "length ws' = length ws1 + listWords env (TStruct n) vs" "rangeWritten (W + ?s) ?T ws1 ws'"
    "\<And>ws2 fuel. rangeAgrees (W + ?s) ?T ws1 ws' ws2 \<Longrightarrow> 2 * size_list size vs \<le> fuel \<Longrightarrow>
      decodeElements fuel env (readerOf ws2) (env n) (structRef (W + ?s) ?D ?P) (length vs) = Inr xs"
    using rest [unfolded elementsSpec_def, rule_format, OF f2 _ p(2) sm2] z2 by blast
  have st: "int W + (ds_dataWordCount (env n) + ds_pointerCount (env n)) = int (W + ?s)"
    using lay by (simp add: structSize_def layoutOk_def)
  have enc: "encodeElements env (mb ws) (env n) (int W) (v # vs) = Inr (mb ws')"
    using ws1(1) ws'(1) by (simp add: encodeElements.simps st del: of_nat_add)
  have dec: "decodeElements fuel env (readerOf ws2) (env n) (structRef W ?D ?P) (length (v # vs)) = Inr rs"
    if a: "rangeAgrees W (?s + ?T) ws ws' ws2" and fu: "2 * size_list size (v # vs) \<le> fuel" for ws2 fuel
  proof -
    have "rangeAgrees W ?s ws ws1 ws2" by (rule rangeAgrees_first [OF a ws'(3)]) (use ws1(2) fit in simp_all)
    then have d1: "decodeStructAt fuel env (readerOf ws2) (env n) (structRef W ?D ?P) = Inr p"
      using ws1(4) fu by simp
    have "rangeAgrees (W + ?s) ?T ws1 ws' ws2" by (rule rangeAgrees_second [OF a]) (use ws1(2) in simp)
    then have d2: "decodeElements fuel env (readerOf ws2) (env n) (structRef (W + ?s) ?D ?P) (length vs) = Inr xs"
      using ws'(4) fu by simp
    have "(structRef W ?D ?P)\<lparr>sr_startWord := int W + (int ?D + int ?P)\<rparr> = structRef (W + ?s) ?D ?P"
      unfolding structSize_def by (simp add: structRef_def)
    then show ?thesis using d1 d2 p(3) by (simp add: decodeElements_Suc del: int_nat_eq)
  qed
  show "\<exists>ws'. encodeElements env (mb ws) (env n) (int W) (v # vs) = Inr (mb ws') \<and>
    length ws' = length ws + listWords env (TStruct n) (v # vs) \<and>
    rangeWritten W (?s * length (v # vs)) ws ws' \<and>
    (\<forall>ws2 fuel. rangeAgrees W (?s * length (v # vs)) ws ws' ws2 \<longrightarrow> 2 * size_list size (v # vs) \<le> fuel \<longrightarrow>
       decodeElements fuel env (readerOf ws2) (env n) (structRef W ?D ?P) (length (v # vs)) = Inr rs)"
    unfolding T using enc dec rangeWritten_append [OF ws1(3) ws'(3)] ws1(2) ws'(2)
    by (intro exI [of _ ws']) (simp add: listWords_element)
qed

lemma slotsSpec_Cons:
  assumes t: "\<not> isDataType type" "\<not> (\<exists>n. type = TStruct n)"
    and S: "pointerSpec env type v" and rest: "slotsSpec env type vs"
  shows "slotsSpec env type (v # vs)"
  unfolding slotsSpec_def
proof (intro allI impI)
  fix ws :: "64 word list" and W rs
  assume fit: "W + length (v # vs) \<le> length ws" and rs: "receivedList env type (v # vs) = Some rs"
    and small: "length ws + listWords env type (v # vs) < 2 ^ 29"
  obtain r xs where r: "receivedPointer env type v = Some r" "receivedList env type vs = Some xs"
    "rs = (case r of None \<Rightarrow> nullValue env type | Some x \<Rightarrow> x) # xs"
    by (rule received_slot [OF rs t])
  have f1: "W < length ws" using fit by simp
  have sm: "length ws + pointerWords env type v < 2 ^ 29" using small by (simp add: listWords_slot [OF t])
  obtain ws1 where ws1: "encodePointerField env (mb ws) (int W) type v = Inr (mb ws1)"
    "length ws1 = length ws + pointerWords env type v" "rangeWritten W 1 ws ws1"
    "\<And>ws2 fuel. rangeAgrees W 1 ws ws1 ws2 \<Longrightarrow> 2 * size v + 2 \<le> fuel \<Longrightarrow>
      decodePointerField fuel env (readerOf ws2) 0 (int W) type = Inr (case r of None \<Rightarrow> nullValue env type | Some x \<Rightarrow> x)"
    using S [unfolded pointerSpec_def slotWritten_range slotAgrees_range, rule_format, OF t(1) f1 r(1) sm] by blast
  have f2: "W + 1 + length vs \<le> length ws1" using fit ws1(2) by simp
  have sm2: "length ws1 + listWords env type vs < 2 ^ 29" using small ws1(2) by (simp add: listWords_slot [OF t])
  obtain ws' where ws': "encodeSlots env (mb ws1) (int (W + 1)) type vs = Inr (mb ws')"
    "length ws' = length ws1 + listWords env type vs" "rangeWritten (W + 1) (length vs) ws1 ws'"
    "\<And>ws2 fuel. rangeAgrees (W + 1) (length vs) ws1 ws' ws2 \<Longrightarrow> 2 * size_list size vs \<le> fuel \<Longrightarrow>
      decodeSlots fuel env (readerOf ws2) 0 (int (W + 1)) type (length vs) = Inr xs"
    using rest [unfolded slotsSpec_def, rule_format, OF f2 r(2) sm2] by blast
  have n: "int W + 1 = int (W + 1)" "length (v # vs) = 1 + length vs" by simp_all
  have enc: "encodeSlots env (mb ws) (int W) type (v # vs) = Inr (mb ws')"
    using ws1(1) ws'(1) by (simp add: encodeSlots.simps n(1) del: of_nat_add)
  have dec: "decodeSlots fuel env (readerOf ws2) 0 (int W) type (length (v # vs)) = Inr rs"
    if a: "rangeAgrees W (1 + length vs) ws ws' ws2" and fu: "2 * size_list size (v # vs) \<le> fuel" for ws2 fuel
  proof -
    have "rangeAgrees W 1 ws ws1 ws2" by (rule rangeAgrees_first [OF a ws'(3)]) (use ws1(2) fit in simp_all)
    then have d1: "decodePointerField fuel env (readerOf ws2) 0 (int W) type = Inr (case r of None \<Rightarrow> nullValue env type | Some x \<Rightarrow> x)"
      using ws1(4) fu by simp
    have "rangeAgrees (W + 1) (length vs) ws1 ws' ws2" by (rule rangeAgrees_second [OF a]) (use ws1(2) in simp)
    then have "decodeSlots fuel env (readerOf ws2) 0 (int (W + 1)) type (length vs) = Inr xs"
      using ws'(4) fu by simp
    then show ?thesis using d1 r(3) by (simp add: decodeSlots_Suc n(1) del: of_nat_add)
  qed
  show "\<exists>ws'. encodeSlots env (mb ws) (int W) type (v # vs) = Inr (mb ws') \<and>
    length ws' = length ws + listWords env type (v # vs) \<and> rangeWritten W (length (v # vs)) ws ws' \<and>
    (\<forall>ws2 fuel. rangeAgrees W (length (v # vs)) ws ws' ws2 \<longrightarrow> 2 * size_list size (v # vs) \<le> fuel \<longrightarrow>
       decodeSlots fuel env (readerOf ws2) 0 (int W) type (length (v # vs)) = Inr rs)"
    using enc dec rangeWritten_append [OF ws1(3) ws'(3)] ws1(2) ws'(2)
    by (intro exI [of _ ws']) (simp add: listWords_slot [OF t])
qed

section \<open>List pointers\<close>

lemma received_scalars:
  assumes "isDataType type"
  shows "receivedList env type vs = Some (map (receivedScalar type False) vs)" "listWords env type vs = 0"
proof -
  show "receivedList env type vs = Some (map (receivedScalar type False) vs)"
    using assms by (induction vs; cases type) (simp_all add: receivedList.simps)
  show "listWords env type vs = 0" using assms by (induction vs; cases type) (simp_all add: listWords.simps)
qed

lemma received_list:
  assumes "receivedPointer env (TList e) v = Some r" "v \<noteq> JUndefined" "v \<noteq> JNull"
  obtains rs where "receivedList env e (asArray v) = Some rs" "r = Some (JArray rs)" "length (asArray v) < 2 ^ 29"
  using assms by (auto simp: receivedPointer.simps fitsList_def split: if_splits)

lemma bitsAt_holds:
  assumes "holds ws B us" "s div 64 < length us"
  shows "bitsAt ws B s n = bitsAt us 0 s n"
  using assms by (simp add: bitsAt_def holds_def)

lemma scalar_sizes:
  assumes "isDataType e"
  shows "0 \<le> typeElementSize e" "typeElementSize e \<le> 5"
    "flatListWords (typeElementSize e) (int n) = int (scalarListWords e n)"
proof -
  show "0 \<le> typeElementSize e" "typeElementSize e \<le> 5" using assms by (cases e; simp)+
  show "flatListWords (typeElementSize e) (int n) = int (scalarListWords e n)"
  proof (cases "e = TVoid")
    case True
    then show ?thesis by (simp add: scalarListWords_def flatListWords_def bool_start ceilDiv_def)
  next
    case False
    then show ?thesis using scalarListWords(3) [OF assms False, of n] ceilDiv_nonneg [of "int (dataWidth e * n)" 64]
      by (simp add: scalarListWords_def)
  qed
qed

lemma decode_scalars:
  assumes t: "isDataType e" and i: "i < length ws" "ws ! i = listPtr off (typeElementSize e) (int (length vs))"
    and o: "inOffsetRange off" "int i + 1 + off = int B" and len: "length vs < 2 ^ 29"
    and fit: "B + scalarListWords e (length vs) \<le> length ws"
    and bits: "\<And>j. j < length vs \<Longrightarrow> bitsAt ws B (j * dataWidth e) (dataWidth e) = bitsOfValue e False (vs ! j)"
  shows "decodePointerField (Suc fuel) env (readerOf ws) 0 (int i) (TList e) =
    Inr (JArray (map (receivedScalar e False) vs))"
proof -
  note sz = scalar_sizes [OF t]
  have "int B + flatListWords (typeElementSize e) (int (length vs)) \<le> int (length ws)" unfolding sz(3) using fit by linarith
  from flat_at_word(1) [OF i o(1) sz(1) _ _ _ o(2) this] sz(2) len
  have rd: "readListPointer (readerOf ws) 0 (int i) = Inr (Some (FlatList 0 (int B) (typeElementSize e) (int (length vs))))"
    by simp
  have "decodeScalarList (readerOf ws) (FlatList 0 (int B) (typeElementSize e) (int (length (map (bitsOfValue e False) vs)))) e =
      Inr (map (valueOfBits e) (map (bitsOfValue e False) vs))"
    by (rule decodeScalarList_at [OF t]) (use fit bits in simp_all)
  then have "decodeScalarList (readerOf ws) (FlatList 0 (int B) (typeElementSize e) (int (length vs))) e =
      Inr (map (receivedScalar e False) vs)" by (simp add: receivedScalar_def comp_def)
  then show ?thesis using rd t
    by (cases e) (simp_all add: decodePointerField.simps decodeListField.simps isPointerType_def)
qed

lemma pointerSpec_scalars:
  assumes v: "v \<noteq> JUndefined" "v \<noteq> JNull" and t: "isDataType e"
  shows "pointerSpec env (TList e) v"
proof (cases "receivedPointer env (TList e) v")
  case None
  then show ?thesis by (simp add: pointerSpec_def)
next
  case (Some r)
  let ?vs = "asArray v" and ?n = "scalarListWords e (length (asArray v))"
  have len: "length ?vs < 2 ^ 29" and r: "r = Some (JArray (map (receivedScalar e False) ?vs))"
    using received_list [OF Some v] received_scalars(1) [OF t, of env ?vs] by auto
  have pw: "pointerWords env (TList e) v = ?n"
    using v t received_scalars(2) [OF t, of env ?vs] by (cases e) (simp_all add: pointerWords.simps scalarListWords_def Let_def)
  note sz = scalar_sizes [OF t]
  show ?thesis
  proof (rule pointerSpec_some)
    show "receivedPointer env (TList e) v = Some (Some (JArray (map (receivedScalar e False) ?vs)))" using Some r by simp
    fix ws :: "64 word list" and i
    assume i: "i < length ws" and o: "inOffsetRange (int (length ws) - (int i + 1))"
    have "\<exists>off B us. encodePointerField env (mb ws) (int i) (TList e) v =
        Inr (mb (ws[i := listPtr off (typeElementSize e) (int (length ?vs))] @ us)) \<and>
      inOffsetRange off \<and> int i + 1 + off = int B \<and> length us = ?n \<and>
      (\<forall>ws2. i < length ws2 \<longrightarrow> holds ws2 (length ws) us \<longrightarrow> B + ?n \<le> length ws2 \<and>
        (\<forall>j < length ?vs. bitsAt ws2 B (j * dataWidth e) (dataWidth e) = bitsOfValue e False (?vs ! j)))"
    proof (cases "e = TVoid")
      case True
      have "mbSetListPointer (mb ws) (int i) (int i + 1) 0 (int (length ?vs)) = Inr (mb (ws[i := listPtr 0 0 (int (length ?vs))]))"
        using mbSetListPointer_mb [of i ws "int i + 1" 0 "int (length ?vs)"] i len by (simp add: inOffsetRange_def)
      then show ?thesis using True v
        by (intro exI [of _ 0] exI [of _ "i + 1"] exI [of _ "[]"])
          (simp add: encodePointerField.simps encodeListField.simps inOffsetRange_def scalarListWords_def bool_start ceilDiv_def
            bitsAt_def bitsOfValue_def Suc_le_eq)
    next
      case False
      obtain us where us: "encodeScalarList (mb ws) (int i) e ?vs =
          Inr (mb (ws[i := listPtr (int (length ws) - (int i + 1)) (typeElementSize e) (int (length ?vs))] @ us))"
        "length us = ?n" "\<forall>j < length ?vs. bitsAt us 0 (j * dataWidth e) (dataWidth e) = bitsOfValue e False (?vs ! j)"
        using encodeScalarList_mb [OF t False i len o] by blast
      have "j * dataWidth e div 64 < length us" if "j < length ?vs" for j
        using element_below [OF element_width [OF t False] that] us(2) by (simp add: scalarListWords_def)
      then have "bitsAt ws2 (length ws) (j * dataWidth e) (dataWidth e) = bitsOfValue e False (?vs ! j)"
        if "holds ws2 (length ws) us" "j < length ?vs" for ws2 j
        using that us(3) bitsAt_holds by simp
      moreover have "encodePointerField env (mb ws) (int i) (TList e) v = encodeScalarList (mb ws) (int i) e ?vs"
        using v t False by (cases e) (simp_all add: encodePointerField.simps encodeListField.simps isPointerType_def)
      ultimately show ?thesis using us(1,2) o
        by (intro exI [of _ "int (length ws) - (int i + 1)"] exI [of _ "length ws"] exI [of _ us]) (simp add: holds_def)
    qed
    then obtain off B us where *: "encodePointerField env (mb ws) (int i) (TList e) v =
        Inr (mb (ws[i := listPtr off (typeElementSize e) (int (length ?vs))] @ us))"
      "inOffsetRange off" "int i + 1 + off = int B" "length us = ?n"
      "\<And>ws2. i < length ws2 \<Longrightarrow> holds ws2 (length ws) us \<Longrightarrow> B + ?n \<le> length ws2 \<and>
        (\<forall>j < length ?vs. bitsAt ws2 B (j * dataWidth e) (dataWidth e) = bitsOfValue e False (?vs ! j))" by blast
    have k: "pointerKind (listPtr off (typeElementSize e) (int (length ?vs))) = 1"
      using listPtr_fields(1) [OF *(2) sz(1)] sz(2) len by simp
    have dec: "decodePointerField (Suc fuel) env (readerOf ws2) 0 (int i) (TList e) = Inr (JArray (map (receivedScalar e False) ?vs))"
      if "i < length ws2" "ws2 ! i = listPtr off (typeElementSize e) (int (length ?vs))" "holds ws2 (length ws) us" for ws2 fuel
      using *(5) [OF that(1,3)] by (intro decode_scalars [OF t that(1,2) *(2,3) len]) simp_all
    show "\<exists>p us. encodePointerField env (mb ws) (int i) (TList e) v = Inr (mb (ws[i := p] @ us)) \<and>
        length us = pointerWords env (TList e) v \<and> pointerKind p \<noteq> 2 \<and> p \<noteq> 0 \<and>
        (\<forall>ws2 fuel. i < length ws2 \<longrightarrow> ws2 ! i = p \<longrightarrow> holds ws2 (length ws) us \<longrightarrow> 2 * size v + 1 \<le> fuel \<longrightarrow>
          decodePointerField (Suc fuel) env (readerOf ws2) 0 (int i) (TList e) = Inr (JArray (map (receivedScalar e False) ?vs)))"
      by (intro exI conjI, rule *(1)) (use dec in \<open>simp_all add: *(4) pw k listPtr_nonzero\<close>)
  qed
qed

lemma holds_nth: "holds ws B us \<Longrightarrow> B \<le> k \<Longrightarrow> k < B + length us \<Longrightarrow> ws ! k = us ! (k - B)"
  by (metis add_diff_inverse_nat holds_def less_diff_conv2 not_less add.commute)

lemma grown:
  assumes "rangeWritten W S (ws @ us0) ws'" "length ws \<le> W"
  obtains us where "ws' = ws @ us"
proof
  show "ws' = ws @ drop (length ws) ws'"
    using assms by (intro nth_equalityI) (auto simp: rangeWritten_def nth_append)
qed

lemma pointerSpec_slots:
  assumes v: "v \<noteq> JUndefined" "v \<noteq> JNull" and t: "\<not> isDataType e" "\<not> (\<exists>n. e = TStruct n)"
    and S: "slotsSpec env e (asArray v)"
  shows "pointerSpec env (TList e) v"
proof (cases "receivedPointer env (TList e) v")
  case None
  then show ?thesis by (simp add: pointerSpec_def)
next
  case (Some r)
  let ?vs = "asArray v"
  obtain rs where rs: "receivedList env e ?vs = Some rs" and r: "r = Some (JArray rs)" and len: "length ?vs < 2 ^ 29"
    by (rule received_list [OF Some v])
  have pw: "pointerWords env (TList e) v = length ?vs + listWords env e ?vs"
    using v t by (cases e) (auto simp: pointerWords.simps Let_def)
  have ef: "encodePointerField env b w (TList e) v = encodeListField env b w e ?vs" for b w
    using v by (simp add: encodePointerField.simps)
  have el: "encodeListField env b w e ?vs =
      bindE (mbAllocWords b (jint (int (length ?vs)))) (\<lambda>(startWord, b).
      bindE (encodeSlots env b startWord e ?vs) (\<lambda>b.
      mbSetListPointer b w startWord 6 (int (length ?vs))))" for b w
    using t by (cases e) (auto simp: encodeListField.simps isPointerType_def)
  have dl: "decodeListField fuel env rd g w e = decodeSlots fuel env rd 0 start e (length ?vs)"
    if "readListPointer rd g w = Inr (Some (FlatList 0 start 6 (int (length ?vs))))" for fuel rd g w start
    using t that by (cases e) (auto simp: decodeListField.simps isPointerType_def)
  show ?thesis
  proof (rule pointerSpec_some)
    show "receivedPointer env (TList e) v = Some (Some (JArray rs))" using Some r by simp
    fix ws :: "64 word list" and i
    assume i: "i < length ws" and o: "inOffsetRange (int (length ws) - (int i + 1))"
      and small: "length ws + pointerWords env (TList e) v < 2 ^ 29"
    let ?L = "length ws" and ?ws0 = "ws @ replicate (length ?vs) 0"
    have al: "mbAllocWords (mb ws) (jint (int (length ?vs))) = Inr (int ?L, mb ?ws0)"
      using mbAlloc_int [of "int (length ?vs)" ws] by simp
    have f: "?L + length ?vs \<le> length ?ws0" "length ?ws0 + listWords env e ?vs < 2 ^ 29" using small pw by simp_all
    obtain ws1 where ws1: "encodeSlots env (mb ?ws0) (int ?L) e ?vs = Inr (mb ws1)"
      "length ws1 = length ?ws0 + listWords env e ?vs" "rangeWritten ?L (length ?vs) ?ws0 ws1"
      "\<And>ws2 fuel. rangeAgrees ?L (length ?vs) ?ws0 ws1 ws2 \<Longrightarrow> 2 * size_list size ?vs \<le> fuel \<Longrightarrow>
        decodeSlots fuel env (readerOf ws2) 0 (int ?L) e (length ?vs) = Inr rs"
      using S [unfolded slotsSpec_def, rule_format, OF f(1) rs f(2)] by blast
    obtain us where us: "ws1 = ws @ us" by (rule grown [OF ws1(3) order_refl])
    have lus: "length us = length ?vs + listWords env e ?vs" using ws1(2) us by simp
    define p where "p = listPtr (int ?L - (int i + 1)) 6 (int (length ?vs))"
    have "mbSetListPointer (mb ws1) (int i) (int ?L) 6 (int (length ?vs)) = Inr (mb (ws[i := p] @ us))"
      using mbSetListPointer_mb [of i ws1 "int ?L" 6 "int (length ?vs)"] i o len
      by (simp add: p_def us list_update_append)
    then have enc: "encodePointerField env (mb ws) (int i) (TList e) v = Inr (mb (ws[i := p] @ us))"
      using al ws1(1) by (simp add: ef el)
    have k: "pointerKind p = 1" unfolding p_def using listPtr_fields(1) [OF o, of 6 "int (length ?vs)"] len by simp
    have dec: "decodePointerField (Suc fuel) env (readerOf ws2) 0 (int i) (TList e) = Inr (JArray rs)"
      if a: "i < length ws2" "ws2 ! i = p" "holds ws2 ?L us" and fu: "2 * size v + 1 \<le> fuel" for ws2 fuel
    proof -
      have "int ?L + flatListWords 6 (int (length ?vs)) \<le> int (length ws2)"
        using a(3) lus by (simp add: holds_def flatListWords_def)
      from flat_at_word(1) [OF a(1,2) [unfolded p_def] o _ _ _ _ _ this] len
      have rd: "readListPointer (readerOf ws2) 0 (int i) = Inr (Some (FlatList 0 (int ?L) 6 (int (length ?vs))))" by simp
      have "rangeAgrees ?L (length ?vs) ?ws0 ws1 ws2"
        using a(3) lus holds_nth [OF a(3)] by (auto simp: rangeAgrees_def holds_def us nth_append)
      then have "decodeSlots fuel env (readerOf ws2) 0 (int ?L) e (length ?vs) = Inr rs"
        using ws1(4) fu asArray_size [of v] by simp
      then show ?thesis by (simp add: decodePointerField.simps dl [OF rd])
    qed
    show "\<exists>p us. encodePointerField env (mb ws) (int i) (TList e) v = Inr (mb (ws[i := p] @ us)) \<and>
        length us = pointerWords env (TList e) v \<and> pointerKind p \<noteq> 2 \<and> p \<noteq> 0 \<and>
        (\<forall>ws2 fuel. i < length ws2 \<longrightarrow> ws2 ! i = p \<longrightarrow> holds ws2 ?L us \<longrightarrow> 2 * size v + 1 \<le> fuel \<longrightarrow>
          decodePointerField (Suc fuel) env (readerOf ws2) 0 (int i) (TList e) = Inr (JArray rs))"
      by (intro exI conjI, rule enc) (use dec in \<open>simp_all add: lus pw k, simp add: p_def listPtr_nonzero\<close>)
  qed
qed

lemma compositeTagWord_ptr:
  "0 \<le> n \<Longrightarrow> n < 2 ^ 30 \<Longrightarrow> compositeTagWord n desc = structPtr n (ds_dataWordCount desc) (ds_pointerCount desc)"
  by (simp add: compositeTagWord_def structPtr_def structPointerWord_def)

lemma pointerSpec_structs:
  assumes ok: "schemaOk env" and v: "v \<noteq> JUndefined" "v \<noteq> JNull" and S: "elementsSpec env n (asArray v)"
  shows "pointerSpec env (TList (TStruct n)) v"
proof (cases "receivedPointer env (TList (TStruct n)) v")
  case None
  then show ?thesis by (simp add: pointerSpec_def)
next
  case (Some r)
  let ?vs = "asArray v" and ?desc = "env n" and ?t = "TList (TStruct n)"
  let ?D = "dataWords ?desc" and ?P = "pointerSlots ?desc"
  let ?M = "structSize ?desc * length ?vs"
  have lay: "layoutOk env ?desc" using ok by (simp add: schemaOk_def)
  obtain rs where rs: "receivedList env (TStruct n) ?vs = Some rs" and r: "r = Some (JArray rs)" and len: "length ?vs < 2 ^ 29"
    by (rule received_list [OF Some v])
  have pw: "pointerWords env ?t v = 1 + ?M + listWords env (TStruct n) ?vs"
    using v by (simp add: pointerWords.simps Let_def)
  have stride: "ds_dataWordCount ?desc + ds_pointerCount ?desc = int (structSize ?desc)"
    and DP: "?D < 2 ^ 16" "?P < 2 ^ 16" and cnt: "int ?D = ds_dataWordCount ?desc" "int ?P = ds_pointerCount ?desc"
    using lay alloc_struct(4,5) [OF lay] by (simp_all add: layoutOk_def structSize_def)
  have M: "int (structSize ?desc) * int (length ?vs) = int ?M" by simp
  show ?thesis
  proof (rule pointerSpec_some)
    show "receivedPointer env ?t v = Some (Some (JArray rs))" using Some r by simp
    fix ws :: "64 word list" and i
    assume i: "i < length ws" and o: "inOffsetRange (int (length ws) - (int i + 1))"
      and small: "length ws + pointerWords env ?t v < 2 ^ 29"
    let ?L = "length ws" and ?tag = "structPtr (int (length ?vs)) (int ?D) (int ?P)"
    let ?ws0 = "ws @ ?tag # replicate ?M 0"
    have Ms: "?M < 2 ^ 29" using small pw by linarith
    have "mbAllocWords (mb ws) (jint (1 + int ?M)) = Inr (int ?L, mb (ws @ replicate (Suc ?M) 0))"
      using mbAlloc_int [of "1 + int ?M" ws] by (simp add: nat_add_distrib del: of_nat_mult)
    moreover have "mbWriteWord (mb (ws @ replicate (Suc ?M) 0)) (int ?L) ?tag = Inr (mb ?ws0)"
      by (subst mbWriteWord_mb) (simp_all add: list_update_append)
    moreover have "compositeTagWord (int (length ?vs)) ?desc = ?tag"
      using len by (simp only: cnt) (rule compositeTagWord_ptr, simp_all)
    ultimately have pre: "encodePointerField env (mb ws) (int i) ?t v =
        bindE (encodeElements env (mb ?ws0) ?desc (int (?L + 1)) ?vs) (\<lambda>b. mbSetListPointer b (int i) (int ?L) 7 (int ?M))"
      using v by (simp add: encodePointerField.simps encodeListField.simps stride M Let_def add.commute del: of_nat_mult)
    have f: "?L + 1 + ?M \<le> length ?ws0" "length ?ws0 + listWords env (TStruct n) ?vs < 2 ^ 29" using small pw by simp_all
    have z: "?ws0 ! k = 0" if "?L + 1 \<le> k" "k < ?L + 1 + ?M" for k
      using that by (simp add: nth_append nth_Cons' del: replicate_Suc)
    obtain ws1 where ws1: "encodeElements env (mb ?ws0) ?desc (int (?L + 1)) ?vs = Inr (mb ws1)"
      "length ws1 = length ?ws0 + listWords env (TStruct n) ?vs" "rangeWritten (?L + 1) ?M ?ws0 ws1"
      "\<And>ws2 fuel. rangeAgrees (?L + 1) ?M ?ws0 ws1 ws2 \<Longrightarrow> 2 * size_list size ?vs \<le> fuel \<Longrightarrow>
        decodeElements fuel env (readerOf ws2) ?desc (structRef (?L + 1) ?D ?P) (length ?vs) = Inr rs"
      using S [unfolded elementsSpec_def, rule_format, OF f(1) _ rs f(2)] z by blast
    have "?L \<le> ?L + 1" by simp
    from grown [OF ws1(3) this] obtain us where us: "ws1 = ws @ us" .
    have lus: "length us = 1 + ?M + listWords env (TStruct n) ?vs" using ws1(2) us by simp
    have "ws1 ! ?L = ?ws0 ! ?L" using ws1(3) by (simp add: rangeWritten_def)
    then have us0: "us ! 0 = ?tag" using us lus by (simp add: nth_append)
    define p where "p = listPtr (int ?L - (int i + 1)) 7 (int ?M)"
    have "mbSetListPointer (mb ws1) (int i) (int ?L) 7 (int ?M) = Inr (mb (ws[i := p] @ us))"
      using mbSetListPointer_mb [of i ws1 "int ?L" 7 "int ?M"] i o Ms
      by (simp add: p_def us list_update_append del: of_nat_mult)
    then have enc: "encodePointerField env (mb ws) (int i) ?t v = Inr (mb (ws[i := p] @ us))"
      using ws1(1) by (simp add: pre)
    have k: "pointerKind p = 1" unfolding p_def using listPtr_fields(1) [OF o, of 7 "int ?M"] Ms by (simp del: of_nat_mult)
    have dec: "decodePointerField (Suc fuel) env (readerOf ws2) 0 (int i) ?t = Inr (JArray rs)"
      if a: "i < length ws2" "ws2 ! i = p" "holds ws2 ?L us" and fu: "2 * size v + 1 \<le> fuel" for ws2 fuel
    proof -
      have M2: "(?D + ?P) * length ?vs = ?M" by (simp add: structSize_def)
      have "?L + 1 + (?D + ?P) * length ?vs \<le> length ws2" using a(3) lus by (simp add: holds_def M2)
      moreover have "ws2 ! ?L = ?tag" using holds_nth [OF a(3), of ?L] lus us0 by simp
      ultimately have rd: "readListPointer (readerOf ws2) 0 (int i) =
          Inr (Some (InlineComposite 0 (int ?L) (int (length ?vs)) (int ?D) (int ?P) (int ((?D + ?P) * length ?vs))))"
        by (intro composite_at_word(1) [OF a(1) a(2) [unfolded p_def M2 [symmetric]] o Ms [folded M2] len _ _ _ DP]) simp_all
      have "rangeAgrees (?L + 1) ?M ?ws0 ws1 ws2"
        using a(3) lus holds_nth [OF a(3)] by (auto simp: rangeAgrees_def holds_def us nth_append)
      then have "decodeElements fuel env (readerOf ws2) ?desc (structRef (?L + 1) ?D ?P) (length ?vs) = Inr rs"
        using ws1(4) fu asArray_size [of v] by simp
      then show ?thesis by (simp add: decodePointerField.simps decodeListField.simps rd structRef_def add.commute del: int_nat_eq)
    qed
    show "\<exists>p us. encodePointerField env (mb ws) (int i) ?t v = Inr (mb (ws[i := p] @ us)) \<and>
        length us = pointerWords env ?t v \<and> pointerKind p \<noteq> 2 \<and> p \<noteq> 0 \<and>
        (\<forall>ws2 fuel. i < length ws2 \<longrightarrow> ws2 ! i = p \<longrightarrow> holds ws2 ?L us \<longrightarrow> 2 * size v + 1 \<le> fuel \<longrightarrow>
          decodePointerField (Suc fuel) env (readerOf ws2) 0 (int i) ?t = Inr (JArray rs))"
      by (intro exI conjI, rule enc) (use dec in \<open>simp_all add: lus pw k, simp add: p_def listPtr_nonzero\<close>)
  qed
qed

section \<open>The round trip\<close>

definition listSpec :: "schema \<Rightarrow> TypeDescriptor \<Rightarrow> js_value list \<Rightarrow> bool" where
  "listSpec env e vs \<longleftrightarrow>
     (case e of TStruct n \<Rightarrow> elementsSpec env n vs | _ \<Rightarrow> isDataType e \<or> slotsSpec env e vs)"

lemma pointerSpec_cases:
  assumes ok: "schemaOk env"
    and S: "\<And>n. v \<noteq> JUndefined \<Longrightarrow> v \<noteq> JNull \<Longrightarrow> type = TStruct n \<Longrightarrow> structSpec env (env n) v"
    and L: "\<And>e. v \<noteq> JUndefined \<Longrightarrow> v \<noteq> JNull \<Longrightarrow> type = TList e \<Longrightarrow> listSpec env e (asArray v)"
  shows "pointerSpec env type v"
proof (cases "v = JUndefined \<or> v = JNull")
  case True
  then show ?thesis
    by (intro pointerSpec_null) (auto simp: receivedPointer.simps nullPointer_def pointerWords.simps encodePointerField.simps)
next
  case False
  then have v: "v \<noteq> JUndefined" "v \<noteq> JNull" by simp_all
  have list: "pointerSpec env (TList e) v" if "listSpec env e (asArray v)" for e
  proof (cases "isDataType e")
    case True
    then show ?thesis by (rule pointerSpec_scalars [OF v])
  next
    case False
    show ?thesis
    proof (cases "\<exists>n. e = TStruct n")
      case True
      then obtain n where n: "e = TStruct n" by blast
      then have "elementsSpec env n (asArray v)" using that by (simp add: listSpec_def)
      then show ?thesis unfolding n by (rule pointerSpec_structs [OF ok v])
    next
      case ns: False
      then have "slotsSpec env e (asArray v)" using that False by (cases e) (simp_all add: listSpec_def)
      then show ?thesis by (rule pointerSpec_slots [OF v False ns])
    qed
  qed
  show ?thesis
  proof (cases type)
    case (TStruct n)
    then show ?thesis using pointerSpec_struct [OF ok v S [OF v TStruct]] by simp
  next
    case (TList e)
    then show ?thesis using list [OF L [OF v TList]] by simp
  next
    case TText
    then show ?thesis using pointerSpec_text [OF v] by simp
  next
    case TData
    then show ?thesis using pointerSpec_data [OF v] by simp
  next
    case TInterface
    then show ?thesis using pointerSpec_interface [OF v] by simp
  next
    case TAnyPointer
    then show ?thesis using pointerSpec_any [OF v] by simp
  qed (simp_all add: pointerSpec_def)
qed

lemma listSpec_Nil: "listSpec env e []"
  by (cases e) (simp_all add: listSpec_def elementsSpec_Nil slotsSpec_Nil)

lemma listSpec_Cons:
  assumes ok: "schemaOk env" and S: "\<And>n. e = TStruct n \<Longrightarrow> structSpec env (env n) v"
    and P: "\<not> (\<exists>n. e = TStruct n) \<Longrightarrow> \<not> isDataType e \<Longrightarrow> pointerSpec env e v" and rest: "listSpec env e vs"
  shows "listSpec env e (v # vs)"
proof (cases "\<exists>n. e = TStruct n")
  case True
  then show ?thesis using elementsSpec_Cons [OF ok S] rest by (auto simp: listSpec_def)
next
  case False
  then show ?thesis using slotsSpec_Cons [OF _ False P] rest by (cases e) (auto simp: listSpec_def)
qed

lemma specs:
  shows "schemaOk env \<Longrightarrow> structSpec env desc v"
    and "schemaOk env \<Longrightarrow> \<forall>out. fieldsSpec env a fs props out"
    and "schemaOk env \<Longrightarrow> pointerSpec env type v"
    and "schemaOk env \<Longrightarrow> listSpec env e vs"
proof (induction env desc v and env a fs props and env type v and env e vs
    rule: structWords_fieldWords_pointerWords_listWords.induct)
  case (1 env desc v)
  then show ?case using structSpec_fields by blast
next
  case (2 env a props)
  then show ?case by (simp add: fieldsSpec_Nil)
next
  case (3 env a f fs props)
  note tail = 3(3) [OF 3(4)]
  show ?case
  proof
    fix out
    show "fieldsSpec env a (f # fs) props out"
    proof (cases "inactive a f")
      case True
      then show ?thesis using tail by (intro fieldsSpec_inactive) blast+
    next
      case False
      show ?thesis
      proof (rule fieldsSpec_active [OF 3(4) False])
        fix name offs type msk d
        assume f: "f = Slot name offs type msk d" and t: "\<not> isDataType type" and v: "getProp props name \<noteq> JUndefined"
        show "pointerSpec env type (getProp props name)" using 3(1) [OF refl _ f t 3(4)] False f v by simp
      next
        fix name n d
        assume f: "f = Group name n d" and v: "getProp props name \<noteq> JUndefined"
        show "structSpec env (env n) (getProp props name)" using 3(2) [OF refl _ f 3(4)] False f v by simp
      qed (use tail in blast)
    qed
  qed
next
  case (4 env type v)
  then show ?case by (intro pointerSpec_cases) auto
next
  case (5 env e)
  then show ?case by (simp add: listSpec_Nil)
next
  case (6 env e v vs)
  show ?case
  proof (rule listSpec_Cons)
    show "pointerSpec env e v" if "\<not> (\<exists>n. e = TStruct n)" "\<not> isDataType e"
      using that 6 by (cases e) simp_all
  qed (use 6 in auto)
qed

lemma newMessageBuilder_words: "newMessageBuilder = mb [0]"
  by (rule newMessageBuilder_mb)

theorem message_words:
  assumes ok: "schemaOk env" and lay: "layoutOk env desc" and r: "receivedStruct env desc v = Some r"
    and small: "messageWords env desc v < 2 ^ 29"
  shows "\<exists>ws. encodeStructMessage env desc v = Inr (frameOf [bytesOf ws]) \<and> length ws = messageWords env desc v \<and>
    (\<forall>fuel. 2 * size v + 1 \<le> fuel \<longrightarrow> decodeStructMessage fuel env desc (frameOf [bytesOf ws]) = Inr r)"
proof -
  let ?D = "dataWords desc" and ?P = "pointerSlots desc" and ?s = "structSize desc"
  note al = alloc_struct [OF lay]
  define off where "off = structOffset (int 0) (int 1) (int ?D) (int ?P)"
  define W where "W = (if ?s = 0 then 0 else 1 :: nat)"
  define p where "p = structPtr off (int ?D) (int ?P)"
  have offW: "int 0 + 1 + off = int W"
    by (simp only: off_def W_def structSize_def structOffset_target)
  have o: "inOffsetRange off" by (simp add: off_def structOffset_def inOffsetRange_def)
  have off0: "off = 0 \<Longrightarrow> ?D \<noteq> 0 \<or> ?P \<noteq> 0" by (auto simp: off_def structOffset_def split: if_splits)
  have bounds: "(0::int) \<le> int ?D" "int ?D < 2 ^ 16" "(0::int) \<le> int ?P" "int ?P < 2 ^ 16"
    using lay by (simp_all add: layoutOk_def)
  let ?ws0 = "[0] @ replicate ?s 0"
  let ?ws1 = "?ws0[0 := p]"
  have sp: "mbSetStructPointer (mb ?ws0) (int 0) (int (length [0 :: 64 word])) (int ?D) (int ?P) = Inr (mb ?ws1)"
    using mbSetStructPointer_mb [of 0 ?ws0 1 "int ?D" "int ?P"] o bounds by (simp add: off_def p_def del: int_nat_eq)
  have fit: "W + ?s \<le> length ?ws1" by (simp add: W_def)
  have zero: "\<forall>k. W \<le> k \<and> k < W + ?s \<longrightarrow> ?ws1 ! k = 0" by (auto simp: W_def nth_Cons')
  have sm: "length ?ws1 + structWords env desc v < 2 ^ 29" using small by (simp add: messageWords_def)
  have S: "structSpec env desc v" by (rule specs(1) [OF ok])
  obtain ws' where ws': "encodeStructAt env (mb ?ws1) desc (int W) v = Inr (mb ws')"
    "length ws' = length ?ws1 + structWords env desc v" "rangeWritten W ?s ?ws1 ws'"
    "\<And>ws2 fuel. rangeAgrees W ?s ?ws1 ws' ws2 \<Longrightarrow> 2 * size v + 1 \<le> fuel \<Longrightarrow>
      decodeStructAt fuel env (readerOf ws2) desc (structRef W ?D ?P) = Inr r"
    using structSpec_block [OF ok lay S fit zero r sm] by blast
  have es: "encodeStructAt env (mb ?ws1) desc (int (length [0 :: 64 word])) v = Inr (mb ws')"
    using ws'(1) empty_struct_encode [OF ok lay, where v = v] by (cases "?s = 0") (simp_all add: W_def)
  have len: "length ws' = messageWords env desc v" using ws'(2) by (simp add: messageWords_def)
  have lim: "length ws' < 2 ^ 32" using small len by simp
  have enc: "encodeStructMessage env desc v = Inr (frameOf [bytesOf ws'])"
    using al(1) [of "[0]"] sp [folded al(2,3)] es [folded al(2,3)] mbToMessageBytes_mb [OF lim]
    by (simp add: encodeStructMessage_def newMessageBuilder_words)
  have "0 < W \<or> W + ?s \<le> 0" by (simp add: W_def)
  moreover have "0 < length ?ws1" by simp
  ultimately have "ws' ! 0 = ?ws1 ! 0" using ws'(3) unfolding rangeWritten_def by blast
  then have p0: "ws' ! 0 = p" by simp
  have l0: "0 < length ws'" and fit2: "W + ?D + ?P \<le> length ws'"
    using ws'(2) fit by (simp_all add: structSize_def add.assoc)
  have "readStructPointer (readerOf ws') 0 (int 0) = Inr (Some (structRef W ?D ?P))"
    by (rule struct_at_word(1) [OF l0 p0 [unfolded p_def] o al(4,5) off0 offW fit2])
  moreover have "rangeAgrees W ?s ?ws1 ws' ws'" by (simp add: rangeAgrees_def)
  ultimately have "decodeStructMessage fuel env desc (frameOf [bytesOf ws']) = Inr r" if "2 * size v + 1 \<le> fuel" for fuel
    using ws'(4) that lim by (simp add: decodeStructMessage_def newMessageReader_bytesOf flip: readerOf_def)
  then show ?thesis using enc len by blast
qed

end
