(* ===== verification/Codec_Typing.thy ===== *)
theory Codec_Typing
  imports Codec_Fields
begin

unbundle bit_operations_syntax

text \<open>
  The types of what the decoder returns: a value of a field has the JavaScript type and the range of
  its descriptor, whatever the bytes of the message, valid or not.
\<close>

section \<open>Values of a type\<close>

fun intWithin :: "int \<Rightarrow> int \<Rightarrow> js_value \<Rightarrow> bool" where
  "intWithin lo hi (JNumber x) \<longleftrightarrow> isInteger x \<and> lo \<le> toInt x \<and> toInt x < hi"
| "intWithin lo hi _ \<longleftrightarrow> False"

fun bigWithin :: "int \<Rightarrow> int \<Rightarrow> js_value \<Rightarrow> bool" where
  "bigWithin lo hi (JBigInt i) \<longleftrightarrow> lo \<le> i \<and> i < hi"
| "bigWithin lo hi _ \<longleftrightarrow> False"

fun hasScalar :: "TypeDescriptor \<Rightarrow> js_value \<Rightarrow> bool" where
  "hasScalar TVoid v \<longleftrightarrow> v = JUndefined"
| "hasScalar TBool v \<longleftrightarrow> (case v of JBool b \<Rightarrow> True | _ \<Rightarrow> False)"
| "hasScalar TInt8 v \<longleftrightarrow> intWithin (- (2 ^ 7)) (2 ^ 7) v"
| "hasScalar TInt16 v \<longleftrightarrow> intWithin (- (2 ^ 15)) (2 ^ 15) v"
| "hasScalar TInt32 v \<longleftrightarrow> intWithin (- (2 ^ 31)) (2 ^ 31) v"
| "hasScalar TInt64 v \<longleftrightarrow> bigWithin (- (2 ^ 63)) (2 ^ 63) v"
| "hasScalar TUint8 v \<longleftrightarrow> intWithin 0 (2 ^ 8) v"
| "hasScalar TUint16 v \<longleftrightarrow> intWithin 0 (2 ^ 16) v"
| "hasScalar TUint32 v \<longleftrightarrow> intWithin 0 (2 ^ 32) v"
| "hasScalar TUint64 v \<longleftrightarrow> bigWithin 0 (2 ^ 64) v"
| "hasScalar TFloat32 v \<longleftrightarrow> (case v of JNumber x \<Rightarrow> True | _ \<Rightarrow> False)"
| "hasScalar TFloat64 v \<longleftrightarrow> (case v of JNumber x \<Rightarrow> True | _ \<Rightarrow> False)"
| "hasScalar (TEnum byOrdinal toOrdinal) v \<longleftrightarrow>
     (case v of JString s \<Rightarrow> s \<in> set byOrdinal \<or> byOrdinal = [] | _ \<Rightarrow> False)"
| "hasScalar _ v \<longleftrightarrow> False"

fun fieldType :: "FieldDescriptor \<Rightarrow> TypeDescriptor" where
  "fieldType (Slot name offs type msk d) = type"
| "fieldType (Group name n d) = TStruct n"

text \<open>A field may be absent, where neither the message nor the default of its struct has it.\<close>

inductive hasType :: "schema \<Rightarrow> TypeDescriptor \<Rightarrow> js_value \<Rightarrow> bool" for env where
  scalar: "hasScalar type v \<Longrightarrow> hasType env type v"
| string: "hasType env TText (JString s)"
| binary: "hasType env TData (JBytes bs)"
| object: "(\<And>f. f \<in> set (ds_fields (env n)) \<Longrightarrow> getProp props (fd_name f) \<noteq> JUndefined \<Longrightarrow>
      hasType env (fieldType f) (getProp props (fd_name f))) \<Longrightarrow> hasType env (TStruct n) (JObject props)"
| array: "(\<And>v. v \<in> set vs \<Longrightarrow> hasType env type v) \<Longrightarrow> hasType env (TList type) (JArray vs)"
| noCapability: "hasType env TInterface JNull"
| capability: "0 \<le> i \<Longrightarrow> i < 2 ^ 32 \<Longrightarrow> hasType env TInterface (capabilityValue i)"
| anyPointer: "hasType env TAnyPointer (anyPointerObject p)"

definition typedProps :: "schema \<Rightarrow> FieldDescriptor list \<Rightarrow> js_record \<Rightarrow> bool" where
  "typedProps env fs props \<longleftrightarrow>
     (\<forall>f \<in> set fs. getProp props (fd_name f) \<noteq> JUndefined \<longrightarrow> hasType env (fieldType f) (getProp props (fd_name f)))"

fun maskFits :: "FieldDescriptor \<Rightarrow> bool" where
  "maskFits (Slot name offs type msk d) \<longleftrightarrow> isDataType type \<longrightarrow> 0 \<le> maskOf msk \<and> maskOf msk < 2 ^ dataWidth type"
| "maskFits (Group name n d) \<longleftrightarrow> True"

definition descTyped :: "schema \<Rightarrow> StructDescriptor \<Rightarrow> bool" where
  "descTyped env desc \<longleftrightarrow> distinct (map fd_name (ds_fields desc)) \<and> lit ''which'' \<notin> fd_name ` set (ds_fields desc) \<and>
     (\<forall>f \<in> set (ds_fields desc). maskFits f) \<and> typedProps env (ds_fields desc) (ds_createDefault desc)"

definition schemaTyped :: "schema \<Rightarrow> bool" where
  "schemaTyped env \<longleftrightarrow> (\<forall>n. descTyped env (env n))"

section \<open>Scalars\<close>

lemma readScalarAt_get: "readScalarAt get m r g off mx ctx = Inr v \<Longrightarrow> \<exists>seg. get seg off = Inr v"
  by (auto simp: readScalarAt_def bindE_eq_Inr)

lemma asIntN_range: "0 < n \<Longrightarrow> - (2 ^ (n - 1)) \<le> asIntN n v \<and> asIntN n v < 2 ^ (n - 1)"
proof -
  assume n: "0 < n"
  define m :: int where "m = 2 ^ (n - 1)"
  have p: "(2::int) ^ n = 2 * m" using n unfolding m_def by (metis power_minus_mult mult.commute)
  define u where "u = v mod (2 * m)"
  have "0 < m" by (simp add: m_def)
  moreover from this have "0 \<le> u" "u < 2 * m" by (simp_all add: u_def)
  ultimately show ?thesis unfolding asIntN_def Let_def p m_def [symmetric] u_def [symmetric] by auto
qed

lemma unsigned_range:
  "readUint8At r g off mx ctx = Inr v \<Longrightarrow> 0 \<le> v \<and> v < 2 ^ 8"
  "readUint16At r g off mx ctx = Inr v \<Longrightarrow> 0 \<le> v \<and> v < 2 ^ 16"
  "readUint32At r g off mx ctx = Inr v \<Longrightarrow> 0 \<le> v \<and> v < 2 ^ 32"
  "readBigUint64At r g off mx ctx = Inr v \<Longrightarrow> 0 \<le> v \<and> v < 2 ^ 64"
  using getLE_bound
  by (fastforce simp: reader_defs getter_LE bindE_eq_Inr dest!: readScalarAt_get)+

lemma signed_range:
  "readInt8At r g off mx ctx = Inr v \<Longrightarrow> - (2 ^ 7) \<le> v \<and> v < 2 ^ 7"
  "readInt16At r g off mx ctx = Inr v \<Longrightarrow> - (2 ^ 15) \<le> v \<and> v < 2 ^ 15"
  "readInt32At r g off mx ctx = Inr v \<Longrightarrow> - (2 ^ 31) \<le> v \<and> v < 2 ^ 31"
  "readBigInt64At r g off mx ctx = Inr v \<Longrightarrow> - (2 ^ 63) \<le> v \<and> v < 2 ^ 63"
  using asIntN_range [of 8] asIntN_range [of 16] asIntN_range [of 32] asIntN_range [of 64]
  by (fastforce simp: reader_defs getSigned_def bindE_eq_Inr dest!: readScalarAt_get)+

lemma enumValue_in: "enumValue byOrdinal i \<in> set byOrdinal \<or> byOrdinal = []"
proof -
  have "byOrdinal ! nat i \<in> set byOrdinal" if "0 \<le> i" "i < int (length byOrdinal)"
    using that by (intro nth_mem) (simp add: nat_less_iff)
  then show ?thesis by (cases byOrdinal) (auto simp: enumValue_def)
qed

lemma intWithin_jint [simp]: "intWithin lo hi (JNumber (jint i)) \<longleftrightarrow> lo \<le> i \<and> i < hi"
  by simp

lemma readScalarInStruct_typed:
  "readScalarInStruct type r ref place = Inr v \<Longrightarrow> hasScalar type v"
  using signed_range unsigned_range enumValue_in
  by (cases type) (fastforce simp: in_struct_defs jnum_def jbig_def jfloat_def bindE_eq_Inr)+

lemma readScalarElement_typed:
  "readScalarElement type r g off = Inr v \<Longrightarrow> hasScalar type v"
  using signed_range unsigned_range enumValue_in
  by (cases type) (fastforce simp: jnum_def jbig_def jfloat_def bindE_eq_Inr)+

lemma scalarFromBits_typed:
  assumes "isDataType type" "type \<noteq> TVoid" "type \<noteq> TBool" "0 \<le> bits" "bits < 2 ^ dataWidth type"
  shows "hasScalar type (scalarFromBits type (dataByteOffset type 1) bits)"
  using assms asIntN_range [of 8 bits] asIntN_range [of 16 bits] asIntN_range [of 32 bits] asIntN_range [of 64 bits]
    enumValue_in
  by (cases type) (simp_all add: scalarFromBits_def dataWidth_def)

lemma readScalarBits_range:
  assumes "isDataType type" "type \<noteq> TVoid" "type \<noteq> TBool"
    "readScalarBits (dataByteOffset type 1) r ref place type = Inr v"
  shows "0 \<le> v \<and> v < 2 ^ dataWidth type"
  using assms unsigned_range
  by (cases type) (fastforce simp: readScalarBits_def in_struct_defs dataWidth_def)+

lemma decodeDataField_typed:
  assumes "isDataType type" "0 \<le> msk" "msk < 2 ^ dataWidth type" "decodeDataField r ref offs type msk = Inr v"
  shows "hasScalar type v"
proof (cases "type = TVoid \<or> type = TBool")
  case True
  then show ?thesis using assms by (auto simp: decodeDataField_def decodeDataWithDefault_def bool_start bindE_eq_Inr split: if_splits)
next
  case False
  then have t: "type \<noteq> TVoid" "type \<noteq> TBool" by simp_all
  show ?thesis
  proof (cases "msk = 0")
    case True
    then show ?thesis using assms(4) t readScalarInStruct_typed by (simp add: decodeDataField_def)
  next
    case m: False
    then obtain raw where raw: "readScalarBits (dataByteOffset type 1) r ref (dataByteOffset type offs) type = Inr raw"
      "v = scalarFromBits type (dataByteOffset type 1) (raw XOR msk)"
      using assms(4) t by (auto simp: decodeDataField_def decodeDataWithDefault_def Let_def bindE_eq_Inr)
    have "0 \<le> raw" "raw < 2 ^ dataWidth type" using readScalarBits_range [OF assms(1) t raw(1)] by simp_all
    then show ?thesis unfolding raw(2)
      using xor_range [of raw "dataWidth type" msk] assms(2,3) by (intro scalarFromBits_typed [OF assms(1) t]) simp_all
  qed
qed

lemma collectE_all: "collectE f xs = Inr vs \<Longrightarrow> (\<And>x v. f x = Inr v \<Longrightarrow> P v) \<Longrightarrow> v \<in> set vs \<Longrightarrow> P v"
  by (induction xs arbitrary: vs) (auto simp: bindE_eq_Inr)

lemma decodeScalarList_typed:
  assumes "isDataType type" "decodeScalarList r lst type = Inr vs" "v \<in> set vs"
  shows "hasScalar type v"
proof (cases lst)
  case (FlatList g start elementSize count)
  let ?m = "typeElementSize type" and ?xs = "[0..count - 1]"
  consider "type = TVoid" "vs = replicate (nat count) JUndefined"
    | "type = TBool" "collectE (readBoolElement r g (start * 8)) ?xs = Inr vs"
    | "collectE (\<lambda>i. readScalarElement type r g (start * 8 + i * elementBytes ?m)) ?xs = Inr vs"
    using assms(1,2) by (cases type) (auto simp: FlatList decodeScalarList_def split: if_splits)
  then show ?thesis
  proof cases
    case 1
    then show ?thesis using assms(3) by simp
  next
    case 2
    from 2(2) show ?thesis
      by (rule collectE_all [OF _ _ assms(3)]) (auto simp: 2(1) readBoolElement_def bindE_eq_Inr)
  next
    case 3
    then show ?thesis by (rule collectE_all [OF _ readScalarElement_typed assms(3)])
  qed
qed (use assms(2) in \<open>simp add: decodeScalarList_def\<close>)

section \<open>Structs and pointers\<close>

lemma typedProps_set:
  assumes "typedProps env fs props" "distinct (map fd_name fs)" "f \<in> set fs" "hasType env (fieldType f) v"
  shows "typedProps env fs (setProp props (fd_name f) v)"
proof -
  have "g = f" if "g \<in> set fs" "fd_name g = fd_name f" for g
    using that assms(2,3) by (auto simp: distinct_map inj_on_def)
  then show ?thesis using assms(1,4) by (auto simp: typedProps_def getProp_setProp)
qed

lemma typedProps_tag:
  assumes "descTyped env desc"
  shows "typedProps env (ds_fields desc) (withTag desc a (ds_createDefault desc))"
proof -
  have "typedProps env (ds_fields desc) (setProp (ds_createDefault desc) (lit ''which'') v)" for v
    using assms by (fastforce simp: descTyped_def typedProps_def getProp_setProp image_iff)
  then show ?thesis using assms by (auto simp: withTag_def descTyped_def split: option.splits)
qed

lemma hasType_struct: "typedProps env (ds_fields (env n)) props \<Longrightarrow> hasType env (TStruct n) (JObject props)"
  by (rule hasType.object) (simp add: typedProps_def)

lemma decodeCapability_typed: "decodeCapabilityPointerWord w = Inr i \<Longrightarrow> 0 \<le> i \<and> i < 2 ^ 32"
proof -
  have "uint (v AND mask 32) < 2 ^ 32" for v :: "64 word"
    by (simp only: take_bit_eq_mask [symmetric] unsigned_take_bit_eq take_bit_int_less_exp)
  then show "decodeCapabilityPointerWord w = Inr i \<Longrightarrow> 0 \<le> i \<and> i < 2 ^ 32"
    by (auto simp: decodeCapabilityPointerWord_def mask_eq_exp_minus_1 split: if_splits)
qed

text \<open>What a step of the recursion may assume: the decoders with the fuel that is left.\<close>

definition structsTyped :: "schema \<Rightarrow> MessageReader \<Rightarrow> nat \<Rightarrow> bool" where
  "structsTyped env r fuel \<longleftrightarrow> (\<forall>desc ref out. descTyped env desc \<longrightarrow> decodeStructAt fuel env r desc ref = Inr out \<longrightarrow>
     typedProps env (ds_fields desc) out)"

definition pointersTyped :: "schema \<Rightarrow> MessageReader \<Rightarrow> nat \<Rightarrow> bool" where
  "pointersTyped env r fuel \<longleftrightarrow> (\<forall>g w type v. decodePointerField fuel env r g w type = Inr v \<longrightarrow> hasType env type v)"

lemma structsTyped_at:
  "schemaTyped env \<Longrightarrow> structsTyped env r fuel \<Longrightarrow> decodeStructAt fuel env r (env n) ref = Inr out \<Longrightarrow>
    hasType env (TStruct n) (JObject out)"
  by (intro hasType_struct) (simp add: structsTyped_def schemaTyped_def)

lemma decodeOne_typed:
  assumes ok: "schemaTyped env" and S: "structsTyped env r fuel" and P: "pointersTyped env r fuel" and m: "maskFits f"
    and d: "decodeOne fuel env r ref f = Inr (Some v)"
  shows "hasType env (fieldType f) v"
proof (cases f)
  case (Slot name offs type msk dv)
  show ?thesis
  proof (cases "isDataType type")
    case True
    then have "decodeDataField r ref offs type (maskOf msk) = Inr v"
      using d by (auto simp: Slot decodeOne_def bindE_eq_Inr split: if_splits)
    then show ?thesis using decodeDataField_typed [OF True] m True by (auto simp: Slot intro: hasType.scalar)
  next
    case False
    then obtain w where "decodePointerField fuel env r (sr_segmentId ref) w type = Inr v"
      using d by (auto simp: Slot decodeOne_def bindE_eq_Inr split: if_splits)
    then show ?thesis using P by (simp add: Slot pointersTyped_def)
  qed
next
  case (Group name n dv)
  then show ?thesis using d structsTyped_at [OF ok S] by (auto simp: decodeOne_def bindE_eq_Inr)
qed

lemma decodeFields_typed:
  assumes ok: "schemaTyped env" and S: "structsTyped env r fuel" and P: "pointersTyped env r fuel"
    and d: "distinct (map fd_name all)" "\<forall>f \<in> set all. maskFits f"
  shows "set fs \<subseteq> set all \<Longrightarrow> typedProps env all props \<Longrightarrow> decodeFields fuel env r ref a fs props = Inr out \<Longrightarrow>
    typedProps env all out"
proof (induction fs arbitrary: props)
  case Nil
  then show ?case by (simp add: decodeFields.simps)
next
  case (Cons f fs)
  have f: "f \<in> set all" "maskFits f" using Cons.prems(1) d(2) by simp_all
  show ?case
  proof (cases "inactive a f")
    case True
    then show ?thesis using Cons by (simp add: decodeFields_Cons)
  next
    case False
    then obtain v where v: "decodeOne fuel env r ref f = Inr v"
      "decodeFields fuel env r ref a fs (setOne props (fd_name f) v) = Inr out"
      using Cons.prems(3) by (auto simp: decodeFields_Cons bindE_eq_Inr)
    have "typedProps env all (setOne props (fd_name f) v)"
      using decodeOne_typed [OF ok S P f(2)] v(1) typedProps_set [OF Cons.prems(2) d(1) f(1)] Cons.prems(2)
      by (auto simp: setOne_def split: option.split)
    then show ?thesis using Cons.IH [OF _ _ v(2)] Cons.prems(1) by simp
  qed
qed

lemma decodeElements_typed:
  assumes ok: "schemaTyped env" and S: "structsTyped env r fuel"
  shows "decodeElements fuel env r (env n) ref count = Inr vs \<Longrightarrow> v \<in> set vs \<Longrightarrow> hasType env (TStruct n) v"
proof (induction count arbitrary: ref vs)
  case 0
  then show ?case by (simp add: decodeElements.simps)
next
  case (Suc count)
  show ?case using Suc.prems Suc.IH structsTyped_at [OF ok S]
    by (subst (asm) decodeElements.simps) (auto simp: bindE_eq_Inr)
qed

lemma decodeSlots_typed:
  assumes P: "pointersTyped env r fuel"
  shows "decodeSlots fuel env r g w type count = Inr vs \<Longrightarrow> v \<in> set vs \<Longrightarrow> hasType env type v"
proof (induction count arbitrary: w vs)
  case 0
  then show ?case by (simp add: decodeSlots.simps)
next
  case (Suc count)
  show ?case using Suc.prems Suc.IH P unfolding pointersTyped_def
    by (subst (asm) decodeSlots.simps) (auto simp: bindE_eq_Inr)
qed

lemma decodeListField_typed:
  assumes ok: "schemaTyped env" and S: "structsTyped env r fuel" and P: "pointersTyped env r fuel"
    and d: "decodeListField fuel env r g w e = Inr vs" and v: "v \<in> set vs"
  shows "hasType env e v"
proof -
  obtain lst where "readListPointer r g w = Inr lst" using d by (auto simp: decodeListField.simps bindE_eq_Inr)
  then obtain l where l: "readListPointer r g w = Inr (Some l)"
    using d v by (cases lst) (auto simp: decodeListField.simps)
  consider n where "e = TStruct n" | "isDataType e" | "\<not> isDataType e" "\<not> (\<exists>n. e = TStruct n)" by blast
  then show ?thesis
  proof cases
    case 1
    then obtain ref count where "decodeElements fuel env r (env n) ref count = Inr vs"
      using d l by (auto simp: decodeListField.simps split: ListRef.splits)
    then show ?thesis using decodeElements_typed [OF ok S _ v] 1 by simp
  next
    case 2
    then have "decodeScalarList r l e = Inr vs"
      using d l by (cases e) (simp_all add: decodeListField.simps isPointerType_def)
    then show ?thesis using decodeScalarList_typed [OF 2 _ v] by (auto intro: hasType.scalar)
  next
    case 3
    then obtain g' w' count where "decodeSlots fuel env r g' w' e count = Inr vs"
      using d l by (cases e; cases l) (auto simp: decodeListField.simps isPointerType_def split: if_splits)
    then show ?thesis by (rule decodeSlots_typed [OF P _ v])
  qed
qed

lemma decodePointerField_typed:
  assumes ok: "schemaTyped env" and S: "structsTyped env r fuel" and P: "pointersTyped env r fuel"
    and d: "decodePointerField (Suc fuel) env r g w type = Inr v"
  shows "hasType env type v"
proof (cases type)
  case (TStruct n)
  have df: "hasType env (TStruct n) (JObject (ds_createDefault (env n)))"
    using ok by (intro hasType_struct) (simp add: schemaTyped_def descTyped_def)
  show ?thesis using d df structsTyped_at [OF ok S]
    by (auto simp: TStruct decodePointerField.simps bindE_eq_Inr split: option.splits)
next
  case (TList e)
  then show ?thesis using d decodeListField_typed [OF ok S P]
    by (auto simp: decodePointerField.simps bindE_eq_Inr intro: hasType.array)
next
  case TText
  then show ?thesis using d by (auto simp: decodePointerField.simps bindE_eq_Inr orElseValue_def intro: hasType.string split: option.splits)
next
  case TData
  then show ?thesis using d by (auto simp: decodePointerField.simps bindE_eq_Inr orElseValue_def intro: hasType.binary split: option.splits)
next
  case TInterface
  then show ?thesis using d decodeCapability_typed
    by (auto simp: decodePointerField.simps bindE_eq_Inr intro: hasType.noCapability hasType.capability split: if_splits)
next
  case TAnyPointer
  then obtain p where "v = anyPointerObject p"
    using d by (auto simp: decodePointerField.simps bindE_eq_Inr simp del: anyPointerObject.simps split: if_splits)
  then show ?thesis using TAnyPointer by (simp only: hasType.anyPointer)
qed (use d in \<open>simp_all add: decodePointerField.simps\<close>)

lemma decoders_typed:
  assumes ok: "schemaTyped env"
  shows "structsTyped env r fuel \<and> pointersTyped env r fuel"
proof (induction fuel)
  case 0
  then show ?case by (simp add: structsTyped_def pointersTyped_def decodeStructAt.simps decodePointerField.simps)
next
  case (Suc fuel)
  have "typedProps env (ds_fields desc) out"
    if d: "descTyped env desc" "decodeStructAt (Suc fuel) env r desc ref = Inr out" for desc ref out
  proof -
    obtain a where a: "decodeFields fuel env r ref a (ds_fields desc) (withTag desc a (ds_createDefault desc)) = Inr out"
      using d(2) by (auto simp: decodeStructAt.simps bindE_eq_Inr)
    have "distinct (map fd_name (ds_fields desc))" "\<forall>f \<in> set (ds_fields desc). maskFits f"
      using d(1) by (simp_all add: descTyped_def)
    from decodeFields_typed [OF ok _ _ this order_refl typedProps_tag [OF d(1)] a] Suc show ?thesis by blast
  qed
  moreover have "hasType env type v" if "decodePointerField (Suc fuel) env r g w type = Inr v" for g w type v
    using decodePointerField_typed [OF ok _ _ that] Suc by blast
  ultimately show ?case by (auto simp: structsTyped_def pointersTyped_def)
qed

end
