(* ===== verification/Codec_Caps.thy ===== *)
theory Codec_Caps
  imports Codec_Decode
begin

text \<open>
  The capability tables of \<open>src/encoding/runtime_caps.ts\<close>: collecting the capabilities of a struct
  value, renumbering them to positions of a table, and resolving decoded positions to the ids of a
  table. The three walks follow the descriptor and call themselves for a struct field even when the
  value has none, so on a type that contains itself they recurse until the stack overflows: \<open>fuel\<close>
  bounds the recursion and \<open>Diverges\<close> is the value when it runs out.
\<close>

section \<open>Tables\<close>

record PreambleCapDescriptor =
  pc_tag :: int
  pc_id :: int

record CollectedCapability =
  cc_fieldPath :: js_string
  cc_capabilityIndex :: int

definition PREAMBLE_TAG_SENDER_HOSTED :: int where
  "PREAMBLE_TAG_SENDER_HOSTED = 1"

text \<open>The decimal string of a number that is interpolated.\<close>

fun decimal :: "nat \<Rightarrow> js_string" where
  "decimal n = (if n < 10 then [48 + n] else decimal (n div 10) @ [48 + n mod 10])"

declare decimal.simps [simp del]

definition indexed :: "js_string \<Rightarrow> nat \<Rightarrow> js_string" where
  "indexed path i = path @ lit ''['' @ decimal i @ lit '']''"

definition subPath :: "js_string \<Rightarrow> js_string \<Rightarrow> js_string" where
  "subPath prefix name = (if prefix \<noteq> [] then prefix @ lit ''.'' @ name else name)"

section \<open>Collecting\<close>

definition found :: "js_string \<Rightarrow> int option \<Rightarrow> CollectedCapability list" where
  "found path index = (case index of None \<Rightarrow> [] | Some i \<Rightarrow> [\<lparr>cc_fieldPath = path, cc_capabilityIndex = i\<rparr>])"

text \<open>The index of an any-pointer that is a capability.\<close>

fun interfaceIndex :: "AnyPointerValue \<Rightarrow> int option" where
  "interfaceIndex (ApInterface i) = Some i"
| "interfaceIndex _ = None"

definition anyPointerIndex :: "js_value \<Rightarrow> int option result" where
  "anyPointerIndex value = bindE (asAnyPointerValue value) (\<lambda>pointer. Inr (interfaceIndex pointer))"

definition collectItems ::
  "(js_value \<Rightarrow> js_string \<Rightarrow> CollectedCapability list result) \<Rightarrow> js_string \<Rightarrow> js_value list
    \<Rightarrow> CollectedCapability list result" where
  "collectItems get path items =
     bindE (collectE (\<lambda>(i, item). get item (indexed path i)) (enumerate 0 items)) (\<lambda>css. Inr (concat css))"

text \<open>One field: \<open>walk\<close> is the recursive call.\<close>

definition collectField ::
  "(StructDescriptor \<Rightarrow> js_value \<Rightarrow> js_string \<Rightarrow> CollectedCapability list result) \<Rightarrow> schema \<Rightarrow>
    FieldDescriptor \<Rightarrow> js_value \<Rightarrow> js_string \<Rightarrow> CollectedCapability list result" where
  "collectField walk env f fieldValue path =
     (case f of
        Group name n d \<Rightarrow> walk (env n) (JObject (asRecord fieldValue)) path
      | Slot name offs type msk d \<Rightarrow>
          (case type of
             TInterface \<Rightarrow> bindE (capabilityIndexFrom fieldValue) (\<lambda>index. Inr (found path index))
           | TAnyPointer \<Rightarrow> bindE (anyPointerIndex fieldValue) (\<lambda>index. Inr (found path index))
           | TList TInterface \<Rightarrow>
               collectItems (\<lambda>item p. bindE (capabilityIndexFrom item) (\<lambda>index. Inr (found p index)))
                 path (asArray fieldValue)
           | TList TAnyPointer \<Rightarrow>
               collectItems (\<lambda>item p. bindE (anyPointerIndex item) (\<lambda>index. Inr (found p index)))
                 path (asArray fieldValue)
           | TList (TStruct n) \<Rightarrow>
               collectItems (\<lambda>item p. walk (env n) (JObject (asRecord item)) p) path (asArray fieldValue)
           | TStruct n \<Rightarrow> walk (env n) (JObject (asRecord fieldValue)) path
           | _ \<Rightarrow> Inr []))"

definition activeFields :: "StructDescriptor \<Rightarrow> js_record \<Rightarrow> FieldDescriptor list" where
  "activeFields desc props = filter (\<lambda>f. \<not> inactive (resolveActiveDiscriminant desc props) f) (ds_fields desc)"

fun collectCapabilityPointersFromStruct ::
  "nat \<Rightarrow> schema \<Rightarrow> StructDescriptor \<Rightarrow> js_value \<Rightarrow> js_string \<Rightarrow> CollectedCapability list result" where
  "collectCapabilityPointersFromStruct 0 env desc value prefix = Inl Diverges"
| "collectCapabilityPointersFromStruct (Suc fuel) env desc value prefix =
     (let props = asRecord value
      in bindE (collectE (\<lambda>f. collectField (collectCapabilityPointersFromStruct fuel env) env f
                  (getProp props (fd_name f)) (subPath prefix (fd_name f))) (activeFields desc props))
           (\<lambda>css. Inr (concat css)))"

section \<open>Renumbering\<close>

type_synonym renaming = "(int \<times> int) list"

definition remapIndex :: "renaming \<Rightarrow> int option \<Rightarrow> int option" where
  "remapIndex mapping index = (case index of None \<Rightarrow> None | Some i \<Rightarrow> map_of mapping i)"

text \<open>The new value of a capability or any-pointer; \<open>None\<close> leaves the old one.\<close>

definition remapCapability :: "renaming \<Rightarrow> js_value \<Rightarrow> js_value option result" where
  "remapCapability mapping value =
     bindE (capabilityIndexFrom value) (\<lambda>index. Inr (map_option capabilityValue (remapIndex mapping index)))"

definition remapAnyPointer :: "renaming \<Rightarrow> js_value \<Rightarrow> js_value option result" where
  "remapAnyPointer mapping value =
     bindE (anyPointerIndex value) (\<lambda>index.
       Inr (map_option (\<lambda>i. anyPointerObject (ApInterface i)) (remapIndex mapping index)))"

definition orOld :: "js_value \<Rightarrow> js_value option \<Rightarrow> js_value" where
  "orOld old new = (case new of None \<Rightarrow> old | Some v \<Rightarrow> v)"

definition mapItems :: "(js_value \<Rightarrow> js_value option result) \<Rightarrow> js_value list \<Rightarrow> js_value option result" where
  "mapItems f items = bindE (collectE (\<lambda>item. bindE (f item) (\<lambda>v. Inr (orOld item v))) items) (\<lambda>vs. Inr (Some (JArray vs)))"

definition objectOf :: "js_record result \<Rightarrow> js_value option result" where
  "objectOf m = bindE m (\<lambda>props. Inr (Some (JObject props)))"

text \<open>
  One field, for both walks that renumber: \<open>capability\<close> and \<open>anyPointer\<close> renumber one value and
  \<open>anyItem\<close> an element of a list of any-pointers. \<open>None\<close> when the field is left alone.
\<close>

definition renumberField ::
  "(StructDescriptor \<Rightarrow> js_value \<Rightarrow> js_record result) \<Rightarrow> schema \<Rightarrow> (js_value \<Rightarrow> js_value option result) \<Rightarrow>
    (js_value \<Rightarrow> js_value option result) \<Rightarrow> FieldDescriptor \<Rightarrow> js_value \<Rightarrow> js_value option result" where
  "renumberField walk env capability anyPointer f fieldValue =
     (case f of
        Group name n d \<Rightarrow> objectOf (walk (env n) (JObject (asRecord fieldValue)))
      | Slot name offs type msk d \<Rightarrow>
          (case type of
             TInterface \<Rightarrow> capability fieldValue
           | TAnyPointer \<Rightarrow> anyPointer fieldValue
           | TList TInterface \<Rightarrow> mapItems capability (asArray fieldValue)
           | TList TAnyPointer \<Rightarrow> mapItems anyPointer (asArray fieldValue)
           | TList (TStruct n) \<Rightarrow> mapItems (\<lambda>item. objectOf (walk (env n) (JObject (asRecord item)))) (asArray fieldValue)
           | TStruct n \<Rightarrow> objectOf (walk (env n) (JObject (asRecord fieldValue)))
           | _ \<Rightarrow> Inr None))"

text \<open>The loop over the active fields, which reads the old object and writes the copy.\<close>

fun renumberFields ::
  "(FieldDescriptor \<Rightarrow> js_value \<Rightarrow> js_value option result) \<Rightarrow> FieldDescriptor list \<Rightarrow> js_record \<Rightarrow> js_record
    \<Rightarrow> js_record result" where
  "renumberFields one [] props out = Inr out"
| "renumberFields one (f # fs) props out =
     bindE (one f (getProp props (fd_name f))) (\<lambda>v.
     renumberFields one fs props (setOne out (fd_name f) v))"

fun remapCapabilityIndices ::
  "nat \<Rightarrow> schema \<Rightarrow> StructDescriptor \<Rightarrow> js_value \<Rightarrow> renaming \<Rightarrow> js_record result" where
  "remapCapabilityIndices 0 env desc value mapping = Inl Diverges"
| "remapCapabilityIndices (Suc fuel) env desc value mapping =
     (let props = asRecord value
      in renumberFields
           (renumberField (\<lambda>d v. remapCapabilityIndices fuel env d v mapping) env
              (remapCapability mapping) (remapAnyPointer mapping))
           (activeFields desc props) props props)"

section \<open>Resolving\<close>

text \<open>\<open>(value as CapabilityPointer).capabilityIndex\<close>, looked up in a map of numbers.\<close>

definition resolveCapability :: "renaming \<Rightarrow> js_value \<Rightarrow> js_value option result" where
  "resolveCapability mapping value =
     Inr (if value = JNull \<or> value = JUndefined then None
          else case getProp (asRecord value) (lit ''capabilityIndex'') of
                 JNumber x \<Rightarrow> if isInteger x then map_option capabilityValue (map_of mapping (toInt x)) else None
               | _ \<Rightarrow> None)"

fun resolveDecodedCapabilities ::
  "nat \<Rightarrow> schema \<Rightarrow> StructDescriptor \<Rightarrow> js_value \<Rightarrow> renaming \<Rightarrow> js_record result" where
  "resolveDecodedCapabilities 0 env desc value mapping = Inl Diverges"
| "resolveDecodedCapabilities (Suc fuel) env desc value mapping =
     (let props = asRecord value
      in renumberFields
           (renumberField (\<lambda>d v. resolveDecodedCapabilities fuel env d v mapping) env
              (resolveCapability mapping) (remapAnyPointer mapping))
           (activeFields desc props) props props)"

section \<open>Messages\<close>

text \<open>The loop over the collected entries: the map from ids to positions and the table.\<close>

fun buildTable ::
  "CollectedCapability list \<Rightarrow> renaming \<Rightarrow> PreambleCapDescriptor list \<Rightarrow> renaming \<times> PreambleCapDescriptor list" where
  "buildTable [] capTableMap capTable = (capTableMap, capTable)"
| "buildTable (entry # entries) capTableMap capTable =
     (if map_of capTableMap (cc_capabilityIndex entry) \<noteq> None then buildTable entries capTableMap capTable
      else buildTable entries (capTableMap @ [(cc_capabilityIndex entry, int (length capTable))])
             (capTable @ [\<lparr>pc_tag = PREAMBLE_TAG_SENDER_HOSTED, pc_id = cc_capabilityIndex entry\<rparr>]))"

definition encodeStructMessageWithCaps ::
  "nat \<Rightarrow> schema \<Rightarrow> StructDescriptor \<Rightarrow> js_value \<Rightarrow> (bytes \<times> PreambleCapDescriptor list) result" where
  "encodeStructMessageWithCaps fuel env desc value =
     bindE (collectCapabilityPointersFromStruct fuel env desc value []) (\<lambda>collected.
     let (capTableMap, capTable) = buildTable collected [] []
     in if capTable = []
        then bindE (encodeStructMessage env desc value) (\<lambda>content. Inr (content, []))
        else bindE (remapCapabilityIndices fuel env desc value capTableMap) (\<lambda>remapped.
             bindE (encodeStructMessage env desc (JObject remapped)) (\<lambda>content. Inr (content, capTable))))"

definition tableIds :: "PreambleCapDescriptor list \<Rightarrow> renaming" where
  "tableIds capTable = map (\<lambda>(i, entry). (int i, pc_id entry)) (enumerate 0 capTable)"

definition decodeStructMessageWithCaps ::
  "nat \<Rightarrow> schema \<Rightarrow> StructDescriptor \<Rightarrow> bytes \<Rightarrow> PreambleCapDescriptor list \<Rightarrow> js_record result" where
  "decodeStructMessageWithCaps fuel env desc bs capTable =
     bindE (decodeStructMessage fuel env desc bs) (\<lambda>decoded.
     if capTable = [] then Inr decoded
     else resolveDecodedCapabilities fuel env desc (JObject decoded) (tableIds capTable))"

end
