(* ===== verification/Codec_Caps_Walk.thy ===== *)
theory Codec_Caps_Walk
  imports Codec_Caps
begin

text \<open>
  What the capability walks do to the capabilities of a value: renumbering changes exactly the
  indices that collecting finds, keeps the field every other walk takes, and resolving a
  renumbered value renames again.
\<close>

section \<open>Collected entries\<close>

definition renamed :: "renaming \<Rightarrow> CollectedCapability list \<Rightarrow> CollectedCapability list" where
  "renamed m cs = map (\<lambda>c. c\<lparr>cc_capabilityIndex := the (map_of m (cc_capabilityIndex c))\<rparr>) cs"

definition covers :: "renaming \<Rightarrow> CollectedCapability list \<Rightarrow> bool" where
  "covers m cs \<longleftrightarrow> (\<forall>c \<in> set cs. \<exists>j. map_of m (cc_capabilityIndex c) = Some j \<and> 0 \<le> j)"

lemma covers_concat: "covers m (concat css) \<longleftrightarrow> (\<forall>cs \<in> set css. covers m cs)"
  by (auto simp: covers_def)

lemma renamed_concat: "renamed m (concat css) = concat (map (renamed m) css)"
  by (simp add: renamed_def [abs_def] map_concat)

lemma collectE_Inr: "collectE f xs = Inr ys \<longleftrightarrow> list_all2 (\<lambda>x y. f x = Inr y) xs ys"
  by (induction xs arbitrary: ys) (auto simp: bindE_eq_Inr list_all2_Cons1)

section \<open>One value\<close>

text \<open>\<open>get\<close> collects from a value, \<open>ren1\<close> and \<open>ren2\<close> renumber it by \<open>m\<close> and then by \<open>m'\<close>.\<close>

definition renames ::
  "renaming \<Rightarrow> renaming \<Rightarrow> (js_value \<Rightarrow> js_string \<Rightarrow> CollectedCapability list result) \<Rightarrow>
    (js_value \<Rightarrow> js_value option result) \<Rightarrow> (js_value \<Rightarrow> js_value option result) \<Rightarrow> js_value \<Rightarrow> bool" where
  "renames m m' get ren1 ren2 v \<longleftrightarrow>
     (\<forall>path cs. get v path = Inr cs \<longrightarrow> covers m cs \<longrightarrow>
        (\<exists>o1. ren1 v = Inr o1 \<and> o1 \<noteq> Some JUndefined \<and> get (orOld v o1) path = Inr (renamed m cs) \<and>
           (covers m' (renamed m cs) \<longrightarrow>
              (\<exists>o2. ren2 (orOld v o1) = Inr o2 \<and> o2 \<noteq> Some JUndefined \<and>
                 get (orOld (orOld v o1) o2) path = Inr (renamed m' (renamed m cs))))))"

lemma capabilityIndexFrom_value: "0 \<le> j \<Longrightarrow> capabilityIndexFrom (capabilityValue j) = Inr (Some j)"
  by (simp add: capabilityIndexFrom_def capabilityValue_def getProp_def)

lemma lit_distinct: "lit ''kind'' \<noteq> lit ''capabilityIndex''" "lit ''interface'' \<noteq> lit ''null''"
  by (simp_all add: lit_def)

lemma anyPointerIndex_value: "0 \<le> j \<Longrightarrow> anyPointerIndex (anyPointerObject (ApInterface j)) = Inr (Some j)"
  using lit_distinct
  by (simp add: anyPointerIndex_def asAnyPointerValue_def indexPointer_def capabilityIndexFrom_def getProp_def Let_def)

lemma found_simps:
  "covers m (found path None)" "covers m (found path (Some i)) \<longleftrightarrow> (\<exists>j. map_of m i = Some j \<and> 0 \<le> j)"
  "renamed m (found path None) = found path None" "renamed m (found path (Some i)) = found path (Some (the (map_of m i)))"
  by (simp_all add: covers_def renamed_def found_def)

lemma renames_capability:
  "renames m m' (\<lambda>v p. bindE (capabilityIndexFrom v) (\<lambda>index. Inr (found p index))) (remapCapability m) (resolveCapability m') v"
  unfolding renames_def
proof (intro allI impI)
  fix path cs
  assume "bindE (capabilityIndexFrom v) (\<lambda>index. Inr (found path index)) = Inr cs" and cov: "covers m cs"
  then obtain index where index: "capabilityIndexFrom v = Inr index" "cs = found path index" by (auto simp: bindE_eq_Inr)
  show "\<exists>o1. remapCapability m v = Inr o1 \<and> o1 \<noteq> Some JUndefined \<and>
    bindE (capabilityIndexFrom (orOld v o1)) (\<lambda>index. Inr (found path index)) = Inr (renamed m cs) \<and>
    (covers m' (renamed m cs) \<longrightarrow> (\<exists>o2. resolveCapability m' (orOld v o1) = Inr o2 \<and> o2 \<noteq> Some JUndefined \<and>
      bindE (capabilityIndexFrom (orOld (orOld v o1) o2)) (\<lambda>index. Inr (found path index)) = Inr (renamed m' (renamed m cs))))"
  proof (cases index)
    case None
    then have "v = JNull \<or> v = JUndefined" using index(1) by (auto simp: capabilityIndexFrom_def Let_def split: if_splits)
    then show ?thesis using None index
      by (intro exI [of _ None]) (simp add: remapCapability_def remapIndex_def resolveCapability_def orOld_def found_simps)
  next
    case (Some i)
    then obtain j where j: "map_of m i = Some j" "0 \<le> j" using cov index(2) by (auto simp: found_simps)
    have nu: "capabilityValue k \<noteq> JUndefined" for k by (simp add: capabilityValue_def)
    have r: "resolveCapability m' (capabilityValue j) = Inr (map_option capabilityValue (map_of m' j))"
      by (simp add: resolveCapability_def capabilityValue_def getProp_def)
    show ?thesis using index j Some nu r
      by (intro exI [of _ "Some (capabilityValue j)"])
        (auto simp: remapCapability_def remapIndex_def orOld_def found_simps capabilityIndexFrom_value)
  qed
qed

lemma renames_anyPointer:
  "renames m m' (\<lambda>v p. bindE (anyPointerIndex v) (\<lambda>index. Inr (found p index))) (remapAnyPointer m) (remapAnyPointer m') v"
  unfolding renames_def
proof (intro allI impI)
  fix path cs
  assume "bindE (anyPointerIndex v) (\<lambda>index. Inr (found path index)) = Inr cs" and cov: "covers m cs"
  then obtain index where index: "anyPointerIndex v = Inr index" "cs = found path index" by (auto simp: bindE_eq_Inr)
  show "\<exists>o1. remapAnyPointer m v = Inr o1 \<and> o1 \<noteq> Some JUndefined \<and>
    bindE (anyPointerIndex (orOld v o1)) (\<lambda>index. Inr (found path index)) = Inr (renamed m cs) \<and>
    (covers m' (renamed m cs) \<longrightarrow> (\<exists>o2. remapAnyPointer m' (orOld v o1) = Inr o2 \<and> o2 \<noteq> Some JUndefined \<and>
      bindE (anyPointerIndex (orOld (orOld v o1) o2)) (\<lambda>index. Inr (found path index)) = Inr (renamed m' (renamed m cs))))"
  proof (cases index)
    case None
    then show ?thesis using index
      by (intro exI [of _ None]) (simp add: remapAnyPointer_def remapIndex_def orOld_def found_simps)
  next
    case (Some i)
    then obtain j where j: "map_of m i = Some j" "0 \<le> j" using cov index(2) by (auto simp: found_simps)
    show ?thesis using index j Some
      by (intro exI [of _ "Some (anyPointerObject (ApInterface j))"])
        (auto simp: remapAnyPointer_def remapIndex_def orOld_def found_simps anyPointerIndex_value simp del: anyPointerObject.simps,
         simp_all)
  qed
qed

section \<open>Lists\<close>

lemma mapItems_nth:
  assumes "\<And>i. i < length vs \<Longrightarrow> ren (vs ! i) = Inr (out i)"
  shows "mapItems ren vs = Inr (Some (JArray (map (\<lambda>i. orOld (vs ! i) (out i)) [0..<length vs])))"
proof -
  have "collectE (\<lambda>item. bindE (ren item) (\<lambda>v. Inr (orOld item v))) vs = Inr (map (\<lambda>i. orOld (vs ! i) (out i)) [0..<length vs])"
    using assms by (auto simp: collectE_Inr list_all2_conv_all_nth)
  then show ?thesis by (simp add: mapItems_def)
qed

lemma renames_items:
  assumes "\<And>item. item \<in> set (asArray v) \<Longrightarrow> renames m m' get ren1 ren2 item"
  shows "renames m m' (\<lambda>v p. collectItems get p (asArray v)) (\<lambda>v. mapItems ren1 (asArray v)) (\<lambda>v. mapItems ren2 (asArray v)) v"
  unfolding renames_def
proof (intro allI impI)
  fix path cs
  let ?vs = "asArray v"
  let ?get = "\<lambda>vs. collectE (\<lambda>(i, item). get item (indexed path i)) (enumerate 0 vs)"
  assume "collectItems get path ?vs = Inr cs" and cov: "covers m cs"
  then obtain css where css: "?get ?vs = Inr css" "cs = concat css" by (auto simp: collectItems_def bindE_eq_Inr)
  have len: "length css = length ?vs" and
    each: "\<And>i. i < length ?vs \<Longrightarrow> get (?vs ! i) (indexed path i) = Inr (css ! i)"
    using css(1) by (auto simp: collectE_Inr list_all2_conv_all_nth nth_enumerate_eq)
  have "\<exists>o1. ren1 (?vs ! i) = Inr o1 \<and> get (orOld (?vs ! i) o1) (indexed path i) = Inr (renamed m (css ! i)) \<and>
      (covers m' (renamed m (css ! i)) \<longrightarrow> (\<exists>o2. ren2 (orOld (?vs ! i) o1) = Inr o2 \<and>
        get (orOld (orOld (?vs ! i) o1) o2) (indexed path i) = Inr (renamed m' (renamed m (css ! i)))))" if "i < length ?vs" for i
  proof -
    have "covers m (css ! i)" using cov css(2) len that by (simp add: covers_concat)
    then show ?thesis using assms [of "?vs ! i"] each [OF that] that unfolding renames_def by fastforce
  qed
  then obtain o1 where o1: "\<And>i. i < length ?vs \<Longrightarrow> ren1 (?vs ! i) = Inr (o1 i) \<and>
      get (orOld (?vs ! i) (o1 i)) (indexed path i) = Inr (renamed m (css ! i)) \<and>
      (covers m' (renamed m (css ! i)) \<longrightarrow> (\<exists>o2. ren2 (orOld (?vs ! i) (o1 i)) = Inr o2 \<and>
        get (orOld (orOld (?vs ! i) (o1 i)) o2) (indexed path i) = Inr (renamed m' (renamed m (css ! i)))))" by metis
  define vs1 where "vs1 = map (\<lambda>i. orOld (?vs ! i) (o1 i)) [0..<length ?vs]"
  have vs1: "length vs1 = length ?vs" "\<And>i. i < length ?vs \<Longrightarrow> vs1 ! i = orOld (?vs ! i) (o1 i)" by (simp_all add: vs1_def)
  have m1: "mapItems ren1 ?vs = Inr (Some (JArray vs1))"
    unfolding vs1_def by (rule mapItems_nth) (use o1 in blast)
  have g1: "collectItems get path vs1 = Inr (renamed m cs)"
  proof -
    have "?get vs1 = Inr (map (renamed m) css)"
      using o1 vs1 len by (auto simp: collectE_Inr list_all2_conv_all_nth nth_enumerate_eq)
    then show ?thesis by (simp add: collectItems_def css(2) renamed_concat)
  qed
  have "\<exists>vs2. mapItems ren2 vs1 = Inr (Some (JArray vs2)) \<and> collectItems get path vs2 = Inr (renamed m' (renamed m cs))"
    if c2: "covers m' (renamed m cs)"
  proof -
    have "covers m' (renamed m (css ! i))" if "i < length ?vs" for i
      using c2 css(2) len that by (simp add: renamed_concat covers_concat)
    then have "\<exists>o2. ren2 (vs1 ! i) = Inr o2 \<and> get (orOld (vs1 ! i) o2) (indexed path i) = Inr (renamed m' (renamed m (css ! i)))"
      if "i < length ?vs" for i using o1 vs1 that by simp
    then obtain o2 where o2: "\<And>i. i < length ?vs \<Longrightarrow> ren2 (vs1 ! i) = Inr (o2 i) \<and>
        get (orOld (vs1 ! i) (o2 i)) (indexed path i) = Inr (renamed m' (renamed m (css ! i)))" by metis
    define vs2 where "vs2 = map (\<lambda>i. orOld (vs1 ! i) (o2 i)) [0..<length ?vs]"
    have vs2: "length vs2 = length ?vs" "\<And>i. i < length ?vs \<Longrightarrow> vs2 ! i = orOld (vs1 ! i) (o2 i)" by (simp_all add: vs2_def)
    have "mapItems ren2 vs1 = Inr (Some (JArray vs2))"
      unfolding vs2_def vs1(1) [symmetric] by (rule mapItems_nth) (use o2 vs1(1) in simp)
    moreover have "?get vs2 = Inr (map (\<lambda>cs. renamed m' (renamed m cs)) css)"
      using o2 vs2 len by (auto simp: collectE_Inr list_all2_conv_all_nth nth_enumerate_eq)
    ultimately show ?thesis
      by (intro exI [of _ vs2]) (simp add: collectItems_def css(2) renamed_concat comp_def)
  qed
  then show "\<exists>o1. mapItems ren1 (asArray v) = Inr o1 \<and> o1 \<noteq> Some JUndefined \<and>
    collectItems get path (asArray (orOld v o1)) = Inr (renamed m cs) \<and>
    (covers m' (renamed m cs) \<longrightarrow> (\<exists>o2. mapItems ren2 (asArray (orOld v o1)) = Inr o2 \<and> o2 \<noteq> Some JUndefined \<and>
      collectItems get path (asArray (orOld (orOld v o1) o2)) = Inr (renamed m' (renamed m cs))))"
    using m1 g1 by (intro exI [of _ "Some (JArray vs1)"]) (auto simp: orOld_def)
qed

section \<open>Fields\<close>

lemma renames_struct_value:
  assumes "renames m m' (\<lambda>v p. collect v p) (\<lambda>v. objectOf (walk1 v)) (\<lambda>v. objectOf (walk2 v)) (JObject (asRecord v))"
  shows "renames m m' (\<lambda>v p. collect (JObject (asRecord v)) p) (\<lambda>v. objectOf (walk1 (JObject (asRecord v))))
    (\<lambda>v. objectOf (walk2 (JObject (asRecord v)))) v"
  unfolding renames_def
proof (intro allI impI)
  fix path cs
  assume "collect (JObject (asRecord v)) path = Inr cs" "covers m cs"
  then obtain o1 where o1: "objectOf (walk1 (JObject (asRecord v))) = Inr o1"
    "collect (orOld (JObject (asRecord v)) o1) path = Inr (renamed m cs)"
    "covers m' (renamed m cs) \<longrightarrow> (\<exists>o2. objectOf (walk2 (orOld (JObject (asRecord v)) o1)) = Inr o2 \<and>
       collect (orOld (orOld (JObject (asRecord v)) o1) o2) path = Inr (renamed m' (renamed m cs)))"
    using assms unfolding renames_def by blast
  then obtain p1 where p1: "o1 = Some (JObject p1)" by (auto simp: objectOf_def bindE_eq_Inr)
  show "\<exists>o1. objectOf (walk1 (JObject (asRecord v))) = Inr o1 \<and> o1 \<noteq> Some JUndefined \<and>
    collect (JObject (asRecord (orOld v o1))) path = Inr (renamed m cs) \<and>
    (covers m' (renamed m cs) \<longrightarrow> (\<exists>o2. objectOf (walk2 (JObject (asRecord (orOld v o1)))) = Inr o2 \<and> o2 \<noteq> Some JUndefined \<and>
      collect (JObject (asRecord (orOld (orOld v o1) o2))) path = Inr (renamed m' (renamed m cs))))"
    using o1 p1 by (intro exI [of _ o1]) (fastforce simp: orOld_def objectOf_def bindE_eq_Inr)
qed

lemma renames_nothing:
  "renames m m' (\<lambda>v p. Inr []) (\<lambda>v. Inr None) (\<lambda>v. Inr None) v"
  by (simp add: renames_def renamed_def orOld_def)

lemma renames_field:
  assumes W: "\<And>n props. renames m m' (walk (env n)) (\<lambda>v. objectOf (walk1 (env n) v)) (\<lambda>v. objectOf (walk2 (env n) v)) (JObject props)"
  shows "renames m m' (\<lambda>v p. collectField walk env f v p)
    (renumberField walk1 env (remapCapability m) (remapAnyPointer m) f)
    (renumberField walk2 env (resolveCapability m') (remapAnyPointer m') f) v"
proof -
  have S: "renames m m' (\<lambda>v p. walk (env n) (JObject (asRecord v)) p) (\<lambda>v. objectOf (walk1 (env n) (JObject (asRecord v))))
    (\<lambda>v. objectOf (walk2 (env n) (JObject (asRecord v)))) v" for n v
    by (rule renames_struct_value) (rule W)
  show ?thesis
  proof (cases f)
    case (Group name n d)
    then show ?thesis using S [of n v] by (simp add: collectField_def [abs_def] renumberField_def [abs_def])
  next
    case (Slot name offs type msk d)
    note defs = Slot collectField_def [abs_def] renumberField_def [abs_def]
    show ?thesis
    proof (cases type)
      case (TStruct n)
      then show ?thesis using S [of n v] by (simp add: defs)
    next
      case TInterface
      then show ?thesis using renames_capability [of m m' v] by (simp add: defs)
    next
      case TAnyPointer
      then show ?thesis using renames_anyPointer [of m m' v] by (simp add: defs)
    next
      case (TList e)
      show ?thesis
      proof (cases e)
        case (TStruct n)
        then show ?thesis using renames_items [where v = v, OF S [of n]] TList by (simp add: defs)
      next
        case TInterface
        then show ?thesis using renames_items [where v = v, OF renames_capability, of m m'] TList by (simp add: defs)
      next
        case TAnyPointer
        then show ?thesis using renames_items [where v = v, OF renames_anyPointer, of m m'] TList by (simp add: defs)
      qed (use TList renames_nothing in \<open>simp_all add: defs\<close>)
    qed (use renames_nothing in \<open>simp_all add: defs\<close>)
  qed
qed

section \<open>Structs\<close>

text \<open>The names of a struct: distinct, and none that of the tag.\<close>

definition namesOk :: "StructDescriptor \<Rightarrow> bool" where
  "namesOk desc \<longleftrightarrow> distinct (map fd_name (ds_fields desc)) \<and> lit ''which'' \<notin> fd_name ` set (ds_fields desc)"

lemma renumberFields_ok:
  assumes "distinct (map fd_name fs)" "\<And>f. f \<in> set fs \<Longrightarrow> one f (getProp props (fd_name f)) = Inr (new f)"
  shows "\<exists>out'. renumberFields one fs props out = Inr out' \<and>
    (\<forall>f \<in> set fs. getProp out' (fd_name f) = orOld (getProp out (fd_name f)) (new f)) \<and>
    (\<forall>n. n \<notin> fd_name ` set fs \<longrightarrow> getProp out' n = getProp out n)"
  using assms
proof (induction fs arbitrary: out)
  case (Cons f fs)
  have d: "distinct (map fd_name fs)" "fd_name f \<notin> fd_name ` set fs" using Cons.prems(1) by simp_all
  obtain out' where out': "renumberFields one fs props (setOne out (fd_name f) (new f)) = Inr out'"
    "\<forall>g \<in> set fs. getProp out' (fd_name g) = orOld (getProp (setOne out (fd_name f) (new f)) (fd_name g)) (new g)"
    "\<forall>n. n \<notin> fd_name ` set fs \<longrightarrow> getProp out' n = getProp (setOne out (fd_name f) (new f)) n"
    using Cons.IH [OF d(1)] Cons.prems(2) by force
  have s: "getProp (setOne out (fd_name f) (new f)) n = (if n = fd_name f then orOld (getProp out n) (new f) else getProp out n)" for n
    by (cases "new f") (simp_all add: setOne_def orOld_def getProp_setProp)
  have "fd_name g \<noteq> fd_name f" if "g \<in> set fs" for g using that d(2) by (metis imageI)
  then show ?case using out' d(2) Cons.prems(2) [of f] by (intro exI [of _ out']) (auto simp: s)
qed simp

lemma presentDiscriminant_same:
  assumes "\<And>f e. f \<in> set fs \<Longrightarrow> fd_discriminantValue f = Some e \<Longrightarrow> e \<noteq> d \<Longrightarrow>
      isPresentField out (fd_name f) = isPresentField props (fd_name f)"
    and "\<And>f. f \<in> set fs \<Longrightarrow> fd_discriminantValue f = Some d \<Longrightarrow>
      isPresentField props (fd_name f) \<Longrightarrow> isPresentField out (fd_name f)"
  shows "presentDiscriminant props fs = Some d \<Longrightarrow> presentDiscriminant out fs = Some d"
    "presentDiscriminant props fs = None \<Longrightarrow> presentDiscriminant out fs \<in> {None, Some d}"
  using assms by (induction fs) (fastforce split: option.splits if_splits)+

lemma activeFields_same:
  assumes n: "namesOk desc"
    and act: "\<And>f. f \<in> set (activeFields desc props) \<Longrightarrow> getProp out (fd_name f) = orOld (getProp props (fd_name f)) (new f) \<and> new f \<noteq> Some JUndefined"
    and rest: "\<And>n. n \<notin> fd_name ` set (activeFields desc props) \<Longrightarrow> getProp out n = getProp props n"
  shows "activeFields desc out = activeFields desc props"
proof (cases "ds_union desc")
  case None
  then show ?thesis by (simp add: activeFields_def resolveActiveDiscriminant_def)
next
  case (Some un)
  have sub: "set (activeFields desc props) \<subseteq> set (ds_fields desc)" by (auto simp: activeFields_def)
  have "lit ''which'' \<notin> fd_name ` set (activeFields desc props)" using n sub by (auto simp: namesOk_def)
  then have w: "namedDiscriminant un out = namedDiscriminant un props" using rest by (simp add: namedDiscriminant_def)
  have "resolveActiveDiscriminant desc out = resolveActiveDiscriminant desc props"
  proof (cases "namedDiscriminant un props")
    case None
    define d where "d = (case presentDiscriminant props (ds_fields desc) of Some d \<Rightarrow> d | None \<Rightarrow> un_defaultDiscriminant un)"
    have a: "resolveActiveDiscriminant desc props = Some d"
      using Some None by (simp add: resolveActiveDiscriminant_def d_def split: option.splits)
    have same: "isPresentField out (fd_name f) = isPresentField props (fd_name f)"
      if f: "f \<in> set (ds_fields desc)" "fd_discriminantValue f = Some e" "e \<noteq> d" for f e
    proof -
      have "f \<notin> set (activeFields desc props)" using f by (simp add: activeFields_def a inactive_def)
      moreover have "g = f" if "g \<in> set (ds_fields desc)" "fd_name g = fd_name f" for g
        using that f(1) n by (auto simp: namesOk_def distinct_map inj_on_def)
      ultimately have "fd_name f \<notin> fd_name ` set (activeFields desc props)" using sub by (auto simp: image_iff)
      then show ?thesis using rest by (simp add: isPresentField_def)
    qed
    have grow: "isPresentField out (fd_name f)"
      if f: "f \<in> set (ds_fields desc)" "fd_discriminantValue f = Some d" "isPresentField props (fd_name f)" for f
    proof -
      have "f \<in> set (activeFields desc props)" using f by (simp add: activeFields_def a inactive_def)
      from act [OF this] show ?thesis using f(3) by (auto simp: isPresentField_def orOld_def split: option.split)
    qed
    have p: "presentDiscriminant props (ds_fields desc) = Some d \<Longrightarrow> presentDiscriminant out (ds_fields desc) = Some d"
      "presentDiscriminant props (ds_fields desc) = None \<Longrightarrow> presentDiscriminant out (ds_fields desc) \<in> {None, Some d}"
      using presentDiscriminant_same [of "ds_fields desc" d out props] same grow by blast+
    show ?thesis
    proof (cases "presentDiscriminant props (ds_fields desc)")
      case none: None
      then have "d = un_defaultDiscriminant un" by (simp add: d_def)
      then show ?thesis using p(2) [OF none] a Some None w by (auto simp: resolveActiveDiscriminant_def)
    next
      case (Some e)
      then have "e = d" by (simp add: d_def)
      then show ?thesis using p(1) Some a None w \<open>ds_union desc = Some un\<close> by (simp add: resolveActiveDiscriminant_def)
    qed
  qed (use Some w in \<open>simp add: resolveActiveDiscriminant_def\<close>)
  then show ?thesis by (simp add: activeFields_def)
qed

text \<open>One pass over the fields of a struct.\<close>

lemma renumber_pass:
  assumes n: "namesOk desc"
    and one: "\<And>f. f \<in> set (activeFields desc props) \<Longrightarrow> one f (getProp props (fd_name f)) = Inr (new f) \<and> new f \<noteq> Some JUndefined"
  obtains out where "renumberFields one (activeFields desc props) props props = Inr out"
    "activeFields desc out = activeFields desc props"
    "\<And>f. f \<in> set (activeFields desc props) \<Longrightarrow> getProp out (fd_name f) = orOld (getProp props (fd_name f)) (new f)"
proof -
  have "distinct (map fd_name (activeFields desc props))"
    using n by (simp add: namesOk_def activeFields_def distinct_map_filter)
  from renumberFields_ok [OF this, of one props new props] one
  obtain out where out: "renumberFields one (activeFields desc props) props props = Inr out"
    "\<forall>f \<in> set (activeFields desc props). getProp out (fd_name f) = orOld (getProp props (fd_name f)) (new f)"
    "\<forall>n. n \<notin> fd_name ` set (activeFields desc props) \<longrightarrow> getProp out n = getProp props n" by blast
  then have "activeFields desc out = activeFields desc props"
    using one by (intro activeFields_same [OF n, where new = new]) blast+
  then show thesis using that out(1,2) by blast
qed

definition namesOfSchema :: "schema \<Rightarrow> bool" where
  "namesOfSchema env \<longleftrightarrow> (\<forall>n. namesOk (env n))"

lemma collect_fields:
  "collectE (\<lambda>f. collectField walk env f (getProp props (fd_name f)) (subPath prefix (fd_name f))) fs = Inr css \<longleftrightarrow>
     length css = length fs \<and>
     (\<forall>i < length fs. collectField walk env (fs ! i) (getProp props (fd_name (fs ! i))) (subPath prefix (fd_name (fs ! i))) =
       Inr (css ! i))"
  by (auto simp: collectE_Inr list_all2_conv_all_nth)

lemma renames_struct:
  assumes n: "namesOk desc"
    and F: "\<And>f v. renames m m' (\<lambda>v p. collectField walk env f v p)
      (renumberField walk1 env (remapCapability m) (remapAnyPointer m) f)
      (renumberField walk2 env (resolveCapability m') (remapAnyPointer m') f) v"
    and c: "collectE (\<lambda>f. collectField walk env f (getProp props (fd_name f)) (subPath prefix (fd_name f)))
      (activeFields desc props) = Inr css" and cov: "\<forall>cs \<in> set css. covers m cs"
  shows "\<exists>p1. renumberFields (renumberField walk1 env (remapCapability m) (remapAnyPointer m)) (activeFields desc props) props props = Inr p1 \<and>
    collectE (\<lambda>f. collectField walk env f (getProp p1 (fd_name f)) (subPath prefix (fd_name f))) (activeFields desc p1) =
      Inr (map (renamed m) css) \<and>
    ((\<forall>cs \<in> set css. covers m' (renamed m cs)) \<longrightarrow>
      (\<exists>p2. renumberFields (renumberField walk2 env (resolveCapability m') (remapAnyPointer m')) (activeFields desc p1) p1 p1 = Inr p2 \<and>
        collectE (\<lambda>f. collectField walk env f (getProp p2 (fd_name f)) (subPath prefix (fd_name f))) (activeFields desc p2) =
          Inr (map (\<lambda>cs. renamed m' (renamed m cs)) css)))"
proof -
  let ?fs = "activeFields desc props" and ?v = "\<lambda>f. getProp props (fd_name f)" and ?p = "\<lambda>f. subPath prefix (fd_name f)"
  let ?one1 = "renumberField walk1 env (remapCapability m) (remapAnyPointer m)"
  let ?one2 = "renumberField walk2 env (resolveCapability m') (remapAnyPointer m')"
  have c': "length css = length ?fs" "\<And>i. i < length ?fs \<Longrightarrow> collectField walk env (?fs ! i) (?v (?fs ! i)) (?p (?fs ! i)) = Inr (css ! i)"
    using c unfolding collect_fields by simp_all
  have ex: "\<exists>o1. ?one1 f (?v f) = Inr o1 \<and> o1 \<noteq> Some JUndefined \<and>
      (\<forall>i < length ?fs. ?fs ! i = f \<longrightarrow> collectField walk env f (orOld (?v f) o1) (?p f) = Inr (renamed m (css ! i)) \<and>
        (covers m' (renamed m (css ! i)) \<longrightarrow> (\<exists>o2. ?one2 f (orOld (?v f) o1) = Inr o2 \<and> o2 \<noteq> Some JUndefined \<and>
          collectField walk env f (orOld (orOld (?v f) o1) o2) (?p f) = Inr (renamed m' (renamed m (css ! i))))))"
    if f: "f \<in> set ?fs" for f
  proof -
    obtain k where k: "k < length ?fs" "?fs ! k = f" using f by (auto simp: in_set_conv_nth)
    have same: "css ! i = css ! k" if "i < length ?fs" "?fs ! i = f" for i using c'(2) [OF that(1)] c'(2) [OF k(1)] that(2) k(2) by simp
    have "covers m (css ! k)" using cov c'(1) k(1) by simp
    then obtain o1 where "?one1 f (?v f) = Inr o1" "o1 \<noteq> Some JUndefined"
      "collectField walk env f (orOld (?v f) o1) (?p f) = Inr (renamed m (css ! k))"
      "covers m' (renamed m (css ! k)) \<longrightarrow> (\<exists>o2. ?one2 f (orOld (?v f) o1) = Inr o2 \<and> o2 \<noteq> Some JUndefined \<and>
         collectField walk env f (orOld (orOld (?v f) o1) o2) (?p f) = Inr (renamed m' (renamed m (css ! k))))"
      using F [of f "?v f", unfolded renames_def, rule_format, of "?p f" "css ! k"] c'(2) [OF k(1)] k(2) by blast
    then show ?thesis using same by (intro exI [of _ o1]) auto
  qed
  obtain new where new: "\<And>f. f \<in> set ?fs \<Longrightarrow> ?one1 f (?v f) = Inr (new f) \<and> new f \<noteq> Some JUndefined \<and>
      (\<forall>i < length ?fs. ?fs ! i = f \<longrightarrow> collectField walk env f (orOld (?v f) (new f)) (?p f) = Inr (renamed m (css ! i)) \<and>
        (covers m' (renamed m (css ! i)) \<longrightarrow> (\<exists>o2. ?one2 f (orOld (?v f) (new f)) = Inr o2 \<and> o2 \<noteq> Some JUndefined \<and>
          collectField walk env f (orOld (orOld (?v f) (new f)) o2) (?p f) = Inr (renamed m' (renamed m (css ! i))))))"
    using ex by metis
  obtain p1 where p1: "renumberFields ?one1 ?fs props props = Inr p1" "activeFields desc p1 = ?fs"
    "\<And>f. f \<in> set ?fs \<Longrightarrow> getProp p1 (fd_name f) = orOld (?v f) (new f)"
    by (rule renumber_pass [OF n, of props ?one1 new]) (use new in blast)+
  have g1: "collectE (\<lambda>f. collectField walk env f (getProp p1 (fd_name f)) (?p f)) (activeFields desc p1) = Inr (map (renamed m) css)"
    unfolding collect_fields using new p1(2,3) c'(1) by simp
  have "\<exists>p2. renumberFields ?one2 (activeFields desc p1) p1 p1 = Inr p2 \<and>
      collectE (\<lambda>f. collectField walk env f (getProp p2 (fd_name f)) (?p f)) (activeFields desc p2) =
        Inr (map (\<lambda>cs. renamed m' (renamed m cs)) css)" if cov2: "\<forall>cs \<in> set css. covers m' (renamed m cs)"
  proof -
    have "\<exists>o2. ?one2 f (getProp p1 (fd_name f)) = Inr o2 \<and> o2 \<noteq> Some JUndefined \<and>
        (\<forall>i < length ?fs. ?fs ! i = f \<longrightarrow>
          collectField walk env f (orOld (getProp p1 (fd_name f)) o2) (?p f) = Inr (renamed m' (renamed m (css ! i))))"
      if f: "f \<in> set ?fs" for f
    proof -
      obtain k where k: "k < length ?fs" "?fs ! k = f" using f by (auto simp: in_set_conv_nth)
      have same: "css ! i = css ! k" if "i < length ?fs" "?fs ! i = f" for i using c'(2) [OF that(1)] c'(2) [OF k(1)] that(2) k(2) by simp
      have "covers m' (renamed m (css ! k))" using cov2 c'(1) k(1) by simp
      then obtain o2 where "?one2 f (getProp p1 (fd_name f)) = Inr o2" "o2 \<noteq> Some JUndefined"
        "collectField walk env f (orOld (getProp p1 (fd_name f)) o2) (?p f) = Inr (renamed m' (renamed m (css ! k)))"
        using new [OF f] k p1(3) [OF f] by fastforce
      then show ?thesis using same by (intro exI [of _ o2]) auto
    qed
    then obtain new2 where new2: "\<And>f. f \<in> set ?fs \<Longrightarrow> ?one2 f (getProp p1 (fd_name f)) = Inr (new2 f) \<and> new2 f \<noteq> Some JUndefined \<and>
        (\<forall>i < length ?fs. ?fs ! i = f \<longrightarrow>
          collectField walk env f (orOld (getProp p1 (fd_name f)) (new2 f)) (?p f) = Inr (renamed m' (renamed m (css ! i))))" by metis
    obtain p2 where p2: "renumberFields ?one2 (activeFields desc p1) p1 p1 = Inr p2" "activeFields desc p2 = activeFields desc p1"
      "\<And>f. f \<in> set (activeFields desc p1) \<Longrightarrow> getProp p2 (fd_name f) = orOld (getProp p1 (fd_name f)) (new2 f)"
      by (rule renumber_pass [OF n, of p1 ?one2 new2]) (use new2 p1(2) in auto)
    have "collectE (\<lambda>f. collectField walk env f (getProp p2 (fd_name f)) (?p f)) (activeFields desc p2) =
        Inr (map (\<lambda>cs. renamed m' (renamed m cs)) css)"
      unfolding collect_fields using new2 p2(2,3) p1(2) c'(1) by simp
    then show ?thesis using p2(1) by blast
  qed
  then show ?thesis using p1(1) g1 by blast
qed

lemma walks_rename:
  assumes ok: "namesOfSchema env"
  shows "namesOk desc \<Longrightarrow> renames m m' (\<lambda>v p. collectCapabilityPointersFromStruct fuel env desc v p)
    (\<lambda>v. objectOf (remapCapabilityIndices fuel env desc v m)) (\<lambda>v. objectOf (resolveDecodedCapabilities fuel env desc v m')) (JObject props)"
proof (induction fuel arbitrary: desc props)
  case 0
  then show ?case by (simp add: renames_def)
next
  case (Suc fuel)
  let ?walk = "collectCapabilityPointersFromStruct fuel env"
  let ?walk1 = "\<lambda>d v. remapCapabilityIndices fuel env d v m" and ?walk2 = "\<lambda>d v. resolveDecodedCapabilities fuel env d v m'"
  have F: "renames m m' (\<lambda>v p. collectField ?walk env f v p)
      (renumberField ?walk1 env (remapCapability m) (remapAnyPointer m) f)
      (renumberField ?walk2 env (resolveCapability m') (remapAnyPointer m') f) v" for f v
    by (rule renames_field) (use Suc.IH ok in \<open>simp add: namesOfSchema_def\<close>)
  show ?case
    unfolding renames_def
  proof (intro allI impI)
    fix prefix cs
    assume c: "collectCapabilityPointersFromStruct (Suc fuel) env desc (JObject props) prefix = Inr cs" and cov: "covers m cs"
    obtain css where css: "collectE (\<lambda>f. collectField ?walk env f (getProp props (fd_name f)) (subPath prefix (fd_name f)))
        (activeFields desc props) = Inr css" "cs = concat css" using c by (auto simp: bindE_eq_Inr)
    have cov': "\<forall>cs \<in> set css. covers m cs" using cov css(2) by (simp add: covers_concat)
    from renames_struct [OF Suc.prems F css(1) cov']
    obtain p1 where p1: "renumberFields (renumberField ?walk1 env (remapCapability m) (remapAnyPointer m)) (activeFields desc props) props props = Inr p1"
      "collectE (\<lambda>f. collectField ?walk env f (getProp p1 (fd_name f)) (subPath prefix (fd_name f))) (activeFields desc p1) =
        Inr (map (renamed m) css)"
      "(\<forall>cs \<in> set css. covers m' (renamed m cs)) \<longrightarrow>
        (\<exists>p2. renumberFields (renumberField ?walk2 env (resolveCapability m') (remapAnyPointer m')) (activeFields desc p1) p1 p1 = Inr p2 \<and>
          collectE (\<lambda>f. collectField ?walk env f (getProp p2 (fd_name f)) (subPath prefix (fd_name f))) (activeFields desc p2) =
            Inr (map (\<lambda>cs. renamed m' (renamed m cs)) css))" by blast
    have r1: "objectOf (remapCapabilityIndices (Suc fuel) env desc (JObject props) m) = Inr (Some (JObject p1))"
      using p1(1) by (simp add: objectOf_def)
    have g1: "collectCapabilityPointersFromStruct (Suc fuel) env desc (JObject p1) prefix = Inr (renamed m cs)"
      using p1(2) css(2) by (simp add: renamed_concat)
    have "\<exists>p2. objectOf (resolveDecodedCapabilities (Suc fuel) env desc (JObject p1) m') = Inr (Some (JObject p2)) \<and>
        collectCapabilityPointersFromStruct (Suc fuel) env desc (JObject p2) prefix = Inr (renamed m' (renamed m cs))"
      if "covers m' (renamed m cs)"
    proof -
      have "\<forall>cs \<in> set css. covers m' (renamed m cs)" using that css(2) by (simp add: renamed_concat covers_concat)
      then obtain p2 where "renumberFields (renumberField ?walk2 env (resolveCapability m') (remapAnyPointer m')) (activeFields desc p1) p1 p1 = Inr p2"
        "collectE (\<lambda>f. collectField ?walk env f (getProp p2 (fd_name f)) (subPath prefix (fd_name f))) (activeFields desc p2) =
          Inr (map (\<lambda>cs. renamed m' (renamed m cs)) css)" using p1(3) by blast
      then show ?thesis using css(2) by (intro exI [of _ p2]) (simp add: objectOf_def renamed_concat comp_def)
    qed
    then show "\<exists>o1. objectOf (remapCapabilityIndices (Suc fuel) env desc (JObject props) m) = Inr o1 \<and> o1 \<noteq> Some JUndefined \<and>
      collectCapabilityPointersFromStruct (Suc fuel) env desc (orOld (JObject props) o1) prefix = Inr (renamed m cs) \<and>
      (covers m' (renamed m cs) \<longrightarrow> (\<exists>o2. objectOf (resolveDecodedCapabilities (Suc fuel) env desc (orOld (JObject props) o1) m') = Inr o2 \<and>
        o2 \<noteq> Some JUndefined \<and>
        collectCapabilityPointersFromStruct (Suc fuel) env desc (orOld (orOld (JObject props) o1) o2) prefix = Inr (renamed m' (renamed m cs))))"
      using r1 g1 by (intro exI [of _ "Some (JObject p1)"])
        (auto simp: orOld_def simp del: collectCapabilityPointersFromStruct.simps remapCapabilityIndices.simps resolveDecodedCapabilities.simps)
  qed
qed

section \<open>Indices are natural\<close>

definition naturals :: "CollectedCapability list \<Rightarrow> bool" where
  "naturals cs \<longleftrightarrow> (\<forall>c \<in> set cs. 0 \<le> cc_capabilityIndex c)"

lemma found_naturals:
  "capabilityIndexFrom v = Inr index \<Longrightarrow> naturals (found path index)"
  "anyPointerIndex v = Inr index \<Longrightarrow> naturals (found path index)"
proof -
  show "capabilityIndexFrom v = Inr index \<Longrightarrow> naturals (found path index)"
    using capabilityIndexFrom_nonneg by (cases index) (auto simp: found_def naturals_def)
  have "0 \<le> i" if "interfaceIndex p = Some i" "asAnyPointerValue v = Inr p" for p i
    using that asAnyPointerValue_nonneg by (cases p) auto
  then show "anyPointerIndex v = Inr index \<Longrightarrow> naturals (found path index)"
    by (cases index) (auto simp: found_def naturals_def anyPointerIndex_def bindE_eq_Inr)
qed

lemma naturals_concat: "(\<And>cs. cs \<in> set css \<Longrightarrow> naturals cs) \<Longrightarrow> naturals (concat css)"
  by (auto simp: naturals_def)

lemma collectE_each: "collectE f xs = Inr ys \<Longrightarrow> y \<in> set ys \<Longrightarrow> \<exists>x \<in> set xs. f x = Inr y"
  by (induction xs arbitrary: ys) (auto simp: bindE_eq_Inr)

lemma collectItems_naturals:
  assumes "collectItems get path items = Inr cs" "\<And>item p cs. get item p = Inr cs \<Longrightarrow> naturals cs"
  shows "naturals cs"
proof -
  obtain css where css: "collectE (\<lambda>(i, item). get item (indexed path i)) (enumerate 0 items) = Inr css" "cs = concat css"
    using assms(1) by (auto simp: collectItems_def bindE_eq_Inr)
  have "naturals c" if "c \<in> set css" for c using collectE_each [OF css(1) that] assms(2) by auto
  then show ?thesis unfolding css(2) by (rule naturals_concat)
qed

lemma collectField_naturals:
  assumes W: "\<And>d v p cs. walk d v p = Inr cs \<Longrightarrow> naturals cs" and c: "collectField walk env f v path = Inr cs"
  shows "naturals cs"
proof (cases f)
  case (Group name n d)
  then show ?thesis using c W by (simp add: collectField_def)
next
  case (Slot name offs type msk d)
  have empty: "naturals []" by (simp add: naturals_def)
  show ?thesis
  proof (cases type)
    case (TList e)
    show ?thesis
    proof (cases e)
      case (TStruct n)
      then have "collectItems (\<lambda>item p. walk (env n) (JObject (asRecord item)) p) path (asArray v) = Inr cs"
        using c by (simp add: Slot TList collectField_def)
      then show ?thesis by (rule collectItems_naturals) (rule W)
    next
      case TInterface
      then have "collectItems (\<lambda>item p. bindE (capabilityIndexFrom item) (\<lambda>index. Inr (found p index))) path (asArray v) = Inr cs"
        using c by (simp add: Slot TList collectField_def)
      then show ?thesis by (rule collectItems_naturals) (auto simp: bindE_eq_Inr dest: found_naturals(1))
    next
      case TAnyPointer
      then have "collectItems (\<lambda>item p. bindE (anyPointerIndex item) (\<lambda>index. Inr (found p index))) path (asArray v) = Inr cs"
        using c by (simp add: Slot TList collectField_def)
      then show ?thesis by (rule collectItems_naturals) (auto simp: bindE_eq_Inr dest: found_naturals(2))
    qed (use c empty in \<open>simp_all add: Slot TList collectField_def\<close>)
  qed (use c W found_naturals empty in \<open>auto simp: Slot collectField_def bindE_eq_Inr\<close>)
qed

lemma collected_naturals: "collectCapabilityPointersFromStruct fuel env desc v p = Inr cs \<Longrightarrow> naturals cs"
proof (induction fuel arbitrary: desc v p cs)
  case (Suc fuel)
  let ?walk = "collectCapabilityPointersFromStruct fuel env"
  obtain css where css: "collectE (\<lambda>f. collectField ?walk env f (getProp (asRecord v) (fd_name f)) (subPath p (fd_name f)))
      (activeFields desc (asRecord v)) = Inr css" "cs = concat css"
    using Suc.prems by (auto simp: bindE_eq_Inr Let_def)
  have "naturals c" if c: "c \<in> set css" for c
  proof -
    obtain f where "collectField ?walk env f (getProp (asRecord v) (fd_name f)) (subPath p (fd_name f)) = Inr c"
      using collectE_each [OF css(1) c] by blast
    then show ?thesis by (rule collectField_naturals [rotated]) (rule Suc.IH)
  qed
  then show ?case unfolding css(2) by (rule naturals_concat)
qed simp

section \<open>Tables\<close>

text \<open>The table under construction: position \<open>j\<close> of the map is the entry with that id.\<close>

definition tableOk :: "renaming \<Rightarrow> PreambleCapDescriptor list \<Rightarrow> bool" where
  "tableOk m tbl \<longleftrightarrow> distinct (map pc_id tbl) \<and> fst ` set m = pc_id ` set tbl \<and>
     (\<forall>i j. map_of m i = Some j \<longrightarrow> 0 \<le> j \<and> nat j < length tbl \<and> pc_id (tbl ! nat j) = i)"

lemma tableOk_add:
  assumes "tableOk m tbl" "map_of m i = None"
  shows "tableOk (m @ [(i, int (length tbl))]) (tbl @ [\<lparr>pc_tag = t, pc_id = i\<rparr>])"
proof -
  have "i \<notin> fst ` set m" using assms(2) by (simp add: map_of_eq_None_iff)
  then have "i \<notin> pc_id ` set tbl" using assms(1) by (simp add: tableOk_def)
  moreover have "map_of (m @ [(i, int (length tbl))]) k = (if k = i then Some (int (length tbl)) else map_of m k)" for k
    using assms(2) by (simp add: map_add_def split: option.split)
  moreover have "0 \<le> j \<and> nat j < length tbl \<and> pc_id (tbl ! nat j) = k" if "map_of m k = Some j" for k j
    using assms(1) that by (auto simp: tableOk_def)
  ultimately show ?thesis using assms(1) by (auto simp: tableOk_def nth_append less_Suc_eq split: if_splits)
qed

lemma buildTable_ok:
  assumes "tableOk m tbl" "buildTable cs m tbl = (m', tbl')"
  shows "tableOk m' tbl' \<and> pc_id ` set tbl' = pc_id ` set tbl \<union> cc_capabilityIndex ` set cs"
  using assms
proof (induction cs m tbl arbitrary: m' tbl' rule: buildTable.induct)
  case (2 c cs m tbl)
  show ?case
  proof (cases "map_of m (cc_capabilityIndex c)")
    case None
    then show ?thesis using 2(2) [OF _ tableOk_add [OF 2(3) None]] 2(4) by auto
  next
    case (Some j)
    then have "cc_capabilityIndex c \<in> fst ` set m" by (auto dest: map_of_SomeD intro: rev_image_eqI)
    then have "cc_capabilityIndex c \<in> pc_id ` set tbl" using 2(3) by (simp add: tableOk_def)
    then show ?thesis using 2(1) 2(3,4) Some by auto
  qed
qed simp

lemma tableIds_nth: "map_of (tableIds tbl) j = (if 0 \<le> j \<and> nat j < length tbl then Some (pc_id (tbl ! nat j)) else None)"
proof -
  have "map_of (map (\<lambda>(i, entry). (int i, pc_id entry)) (enumerate n tbl)) j =
      (if int n \<le> j \<and> nat j < n + length tbl then Some (pc_id (tbl ! (nat j - n))) else None)" for n
  proof (induction tbl arbitrary: n)
    case (Cons e tbl)
    consider "j = int n" | "j < int n" | "int n < j" by linarith
    then show ?case
    proof cases
      case 3
      then have "nat j - n = Suc (nat j - Suc n)" by linarith
      then show ?thesis using 3 Cons.IH [of "Suc n"] by auto
    qed (use Cons.IH [of "Suc n"] in auto)
  qed (simp, linarith)
  from this [of 0] show ?thesis by (simp add: tableIds_def)
qed

lemma table_covers:
  assumes "tableOk m tbl" "cc_capabilityIndex ` set cs \<subseteq> pc_id ` set tbl"
  shows "covers m cs" "renamed (tableIds tbl) (renamed m cs) = cs"
    "c \<in> set (renamed m cs) \<Longrightarrow> 0 \<le> cc_capabilityIndex c \<and> nat (cc_capabilityIndex c) < length tbl"
proof -
  have ex: "\<exists>j. map_of m (cc_capabilityIndex c) = Some j" if "c \<in> set cs" for c
  proof -
    have "cc_capabilityIndex c \<in> fst ` set m" using assms that by (auto simp: tableOk_def)
    then show ?thesis by (metis map_of_eq_None_iff not_None_eq)
  qed
  have pos: "\<exists>j. map_of m (cc_capabilityIndex c) = Some j \<and> 0 \<le> j \<and> nat j < length tbl \<and> pc_id (tbl ! nat j) = cc_capabilityIndex c"
    if "c \<in> set cs" for c using ex [OF that] assms(1) by (auto simp: tableOk_def)
  then show "covers m cs" unfolding covers_def by blast
  show "renamed (tableIds tbl) (renamed m cs) = cs"
    unfolding renamed_def map_map by (rule map_idI) (use pos in \<open>fastforce simp: tableIds_nth\<close>)
  show "c \<in> set (renamed m cs) \<Longrightarrow> 0 \<le> cc_capabilityIndex c \<and> nat (cc_capabilityIndex c) < length tbl"
    using pos by (fastforce simp: renamed_def)
qed

end
