(* ===== verification/Codec_Properties.thy ===== *)
theory Codec_Properties
  imports Codec_Inverse Codec_Typing Codec_Caps_Walk
begin

text \<open>
  The properties of the struct codec: the round trip of messages, the types of what is decoded, the
  capability tables, and where decoding or collecting does not return.
\<close>

section \<open>A schema\<close>

text \<open>
  A node has a number, a flag with default true, a text, a list of nodes, a group and a union of a
  number and nothing.
\<close>

definition leafDesc :: StructDescriptor where
  "leafDesc = \<lparr>ds_name = [76], ds_dataWordCount = 2, ds_pointerCount = 2,
     ds_fields = [Slot [120] 3 TInt32 None None], ds_createDefault = [], ds_union = None\<rparr>"

definition nodeDesc :: StructDescriptor where
  "nodeDesc = \<lparr>ds_name = [78], ds_dataWordCount = 2, ds_pointerCount = 2,
     ds_fields =
       [Slot [105] 0 TUint32 None None, Slot [98] 32 TBool (Some 1) None, Slot [110] 0 TText None None,
        Slot [107] 1 (TList (TStruct 0)) None None, Group [103] 1 None,
        Slot [97] 4 TUint16 None (Some 0), Slot [122] 0 TVoid None (Some 1)],
     ds_createDefault = [([98], JBool True)],
     ds_union = Some \<lparr>un_discriminantOffset = 5, un_defaultDiscriminant = 0, un_byName = [([97], 0), ([122], 1)],
       un_byDiscriminant = [(0, [97]), (1, [122])]\<rparr>\<rparr>"

definition sampleSchema :: schema where
  "sampleSchema n = (if n = 0 then nodeDesc else leafDesc)"

lemma sampleSchema_ok: "schemaOk sampleSchema"
  by (auto simp: schemaOk_def sampleSchema_def layoutOk_def nodeDesc_def leafDesc_def dataStart_def dataWidth_def maskOf_def
      unionFits_def apart_def occupies_slot occupies_group)

text \<open>A value with a character of two bytes, and a number too large for its field in the list.\<close>

definition sampleNode :: js_value where
  "sampleNode = JObject [([105], JNumber (jint 7)), ([98], JBool False), ([110], JString [65, 0xE9]),
     ([103], JObject [([120], JNumber (jint (-3)))]), ([107], JArray [JObject [([103], JObject []), ([97], JNumber (jint 70000))]])]"

definition receivedNode :: js_record where
  "receivedNode =
    [([98], JBool False), (lit ''which'', JString [97]), ([105], JNumber (jint 7)), ([110], JString [65, 233]),
     ([107], JArray [JObject [([98], JBool True), (lit ''which'', JString [97]), ([105], JNumber (jint 0)),
         ([103], JObject [([120], JNumber (jint 0))]), ([97], JNumber (jint 4464))]]),
     ([103], JObject [([120], JNumber (jint (-3)))]), ([97], JNumber (jint 0))]"

lemma which_units: "lit ''which'' = [119, 104, 105, 99, 104]"
  by (simp add: lit_def)

lemmas sample_defs = sampleNode_def nodeDesc_def leafDesc_def sampleSchema_def resolveActiveDiscriminant_def
  namedDiscriminant_def getProp_def inactive_def isPresentField_def Let_def which_units textEncode_def utf8_char_def
  isHigh_def isLow_def

lemma sampleNode_received: "receivedStruct sampleSchema nodeDesc sampleNode = Some receivedNode"
  by (simp add: sample_defs receivedStruct.simps receivedFields.simps receivedPointer.simps receivedList.simps
      sendableScalar_def receivedScalar_def bitsOfValue_def dataWidth_def asIntN_def receivedLeaf_def fitsList_def
      maskOf_def receivedNode_def scalar_def)

lemma sampleNode_words: "messageWords sampleSchema nodeDesc sampleNode = 11"
  by (simp add: sample_defs messageWords_def structSize_def structWords.simps fieldWords.simps pointerWords.simps
      listWords.simps ceilDiv_def)

lemma sampleNode_size: "size sampleNode \<le> 1000"
  by (simp add: sampleNode_def)

section \<open>Messages\<close>

text \<open>C2: A struct value that follows a well laid out descriptor is encoded, and decoding the message gives
  exactly the value the descriptor promises: every scalar cut to its width, texts, data, lists,
  groups and capabilities as they were, the tag of the active member, and the defaults of the
  descriptor where the value had nothing. The decoder's recursion stays below twice the size of the
  value.
\<close>

theorem struct_message_roundtrip:
  assumes "schemaOk env" "layoutOk env desc" "receivedStruct env desc v = Some r" "messageWords env desc v < 2 ^ 29"
    and "2 * size v + 1 \<le> fuel"
  shows "bindE (encodeStructMessage env desc v) (decodeStructMessage fuel env desc) = Inr r"
  using message_words [OF assms(1-4)] assms(5) by auto

lemma nodeDesc_ok: "layoutOk sampleSchema nodeDesc"
  using sampleSchema_ok by (metis schemaOk_def sampleSchema_def)

theorem struct_message_roundtrip_witness:
  "bindE (encodeStructMessage sampleSchema nodeDesc sampleNode) (decodeStructMessage 2001 sampleSchema nodeDesc) = Inr receivedNode"
  by (rule struct_message_roundtrip [OF sampleSchema_ok nodeDesc_ok sampleNode_received])
    (use sampleNode_words sampleNode_size in simp_all)

text \<open>C8: Whatever bytes decodeStructMessage is given, when it returns an object, every field of the object
  that is there has the JavaScript type and the range its descriptor says, at any depth, provided
  the defaults of the descriptors do.
\<close>

theorem decoded_message_typed:
  assumes "schemaTyped env" "descTyped env desc" "decodeStructMessage fuel env desc bs = Inr props"
  shows "typedProps env (ds_fields desc) props"
proof -
  have d: "typedProps env (ds_fields desc) (ds_createDefault desc)" using assms(2) by (simp add: descTyped_def)
  have "structsTyped env r fuel" for r using decoders_typed [OF assms(1)] by blast
  then show ?thesis
    using assms(2,3) d by (auto simp: decodeStructMessage_def bindE_eq_Inr structsTyped_def split: option.splits)
qed

lemma sampleSchema_typed: "schemaTyped sampleSchema" "descTyped sampleSchema nodeDesc"
proof -
  have "hasType sampleSchema TBool (JBool True)" by (rule hasType.scalar) simp
  then show "descTyped sampleSchema nodeDesc"
    by (simp add: descTyped_def typedProps_def nodeDesc_def getProp_def which_units maskOf_def dataWidth_def)
  then show "schemaTyped sampleSchema"
    by (simp add: schemaTyped_def sampleSchema_def)
      (simp add: descTyped_def typedProps_def leafDesc_def getProp_def which_units maskOf_def)
qed

theorem decoded_message_typed_witness: "typedProps sampleSchema (ds_fields nodeDesc) receivedNode"
proof -
  obtain ws where "\<forall>fuel. 2 * size sampleNode + 1 \<le> fuel \<longrightarrow>
      decodeStructMessage fuel sampleSchema nodeDesc (frameOf [bytesOf ws]) = Inr receivedNode"
    using message_words [OF sampleSchema_ok nodeDesc_ok sampleNode_received] sampleNode_words by auto
  then have "decodeStructMessage (2 * size sampleNode + 1) sampleSchema nodeDesc (frameOf [bytesOf ws]) = Inr receivedNode" by blast
  then show ?thesis by (rule decoded_message_typed [OF sampleSchema_typed])
qed

section \<open>Capability tables\<close>

text \<open>C7: For every value whose capabilities can be collected, the table of encodeStructMessageWithCaps has
  each id once and no others, renumbering puts a position of the table in the place of every
  capability, and resolving the renumbered value through the table gives back the original ids in
  the original places.
\<close>

theorem capability_ids_survive:
  assumes "namesOfSchema env" "namesOk desc"
    and "collectCapabilityPointersFromStruct fuel env desc (JObject props) [] = Inr collected"
    and "buildTable collected [] [] = (capTableMap, capTable)"
  shows "distinct (map pc_id capTable) \<and> pc_id ` set capTable = cc_capabilityIndex ` set collected \<and>
    (\<exists>remapped positions resolved.
       remapCapabilityIndices fuel env desc (JObject props) capTableMap = Inr remapped \<and>
       collectCapabilityPointersFromStruct fuel env desc (JObject remapped) [] = Inr positions \<and>
       (\<forall>c \<in> set positions. 0 \<le> cc_capabilityIndex c \<and> nat (cc_capabilityIndex c) < length capTable) \<and>
       resolveDecodedCapabilities fuel env desc (JObject remapped) (tableIds capTable) = Inr resolved \<and>
       collectCapabilityPointersFromStruct fuel env desc (JObject resolved) [] = Inr collected)"
proof -
  have "tableOk [] []" by (simp add: tableOk_def)
  from buildTable_ok [OF this assms(4)]
  have tbl: "tableOk capTableMap capTable" "pc_id ` set capTable = cc_capabilityIndex ` set collected" by simp_all
  then have sub: "cc_capabilityIndex ` set collected \<subseteq> pc_id ` set capTable" by simp
  note cov = table_covers [OF tbl(1) sub]
  have "0 \<le> pc_id e" if "e \<in> set capTable" for e
  proof -
    have "pc_id e \<in> cc_capabilityIndex ` set collected" unfolding tbl(2) [symmetric] using that by blast
    then show ?thesis using collected_naturals [OF assms(3)] by (auto simp: naturals_def)
  qed
  then have cov2: "covers (tableIds capTable) (renamed capTableMap collected)"
    using cov(3) unfolding covers_def by (simp add: tableIds_nth)
  from walks_rename [OF assms(1,2), of capTableMap "tableIds capTable" fuel props, unfolded renames_def, rule_format, OF assms(3) cov(1)]
  obtain o1 where o1: "objectOf (remapCapabilityIndices fuel env desc (JObject props) capTableMap) = Inr o1"
    "collectCapabilityPointersFromStruct fuel env desc (orOld (JObject props) o1) [] = Inr (renamed capTableMap collected)"
    "\<exists>o2. objectOf (resolveDecodedCapabilities fuel env desc (orOld (JObject props) o1) (tableIds capTable)) = Inr o2 \<and>
      collectCapabilityPointersFromStruct fuel env desc (orOld (orOld (JObject props) o1) o2) [] =
        Inr (renamed (tableIds capTable) (renamed capTableMap collected))"
    using cov2 by blast
  then obtain remapped where r: "remapCapabilityIndices fuel env desc (JObject props) capTableMap = Inr remapped" "o1 = Some (JObject remapped)"
    by (auto simp: objectOf_def bindE_eq_Inr)
  obtain resolved where s: "resolveDecodedCapabilities fuel env desc (JObject remapped) (tableIds capTable) = Inr resolved"
    "collectCapabilityPointersFromStruct fuel env desc (JObject resolved) [] = Inr collected"
    using o1(3) cov(2) r(2) by (auto simp: objectOf_def bindE_eq_Inr orOld_def)
  have "distinct (map pc_id capTable)" using tbl(1) by (simp add: tableOk_def)
  moreover have "collectCapabilityPointersFromStruct fuel env desc (JObject remapped) [] = Inr (renamed capTableMap collected)"
    using o1(2) r(2) by (simp add: orOld_def)
  ultimately show ?thesis using tbl(2) r(1) s cov(3) by blast
qed

definition capsDesc :: StructDescriptor where
  "capsDesc = \<lparr>ds_name = [67], ds_dataWordCount = 0, ds_pointerCount = 2,
     ds_fields = [Slot [99] 0 TInterface None None, Slot [108] 1 (TList TInterface) None None],
     ds_createDefault = [], ds_union = None\<rparr>"

definition capsProps :: js_record where
  "capsProps = [([99], capabilityValue 9), ([108], JArray [JNumber (jint 5), JNull, capabilityValue 9])]"

definition capsCollected :: "CollectedCapability list" where
  "capsCollected = [\<lparr>cc_fieldPath = [99], cc_capabilityIndex = 9\<rparr>, \<lparr>cc_fieldPath = [108, 91, 48, 93], cc_capabilityIndex = 5\<rparr>,
     \<lparr>cc_fieldPath = [108, 91, 50, 93], cc_capabilityIndex = 9\<rparr>]"

lemma capsProps_collected:
  "collectCapabilityPointersFromStruct (Suc 0) (\<lambda>n. capsDesc) capsDesc (JObject capsProps) [] = Inr capsCollected"
  by (simp add: capsDesc_def capsProps_def capsCollected_def activeFields_def resolveActiveDiscriminant_def inactive_def
      collectField_def getProp_def collectItems_def found_def subPath_def indexed_def decimal.simps capabilityIndexFrom_value
      capabilityIndexFrom_def [of "JNumber x" for x] capabilityIndexFrom_def [of JNull] lit_def)

theorem capability_ids_survive_witness:
  "\<exists>remapped resolved.
     remapCapabilityIndices (Suc 0) (\<lambda>n. capsDesc) capsDesc (JObject capsProps) [(9, 0), (5, 1)] = Inr remapped \<and>
     resolveDecodedCapabilities (Suc 0) (\<lambda>n. capsDesc) capsDesc (JObject remapped) [(0, 9), (1, 5)] = Inr resolved \<and>
     collectCapabilityPointersFromStruct (Suc 0) (\<lambda>n. capsDesc) capsDesc (JObject resolved) [] = Inr capsCollected"
proof -
  have n: "namesOk capsDesc" by (simp add: namesOk_def capsDesc_def which_units)
  have b: "buildTable capsCollected [] [] = ([(9, 0), (5, 1)],
      [\<lparr>pc_tag = 1, pc_id = 9\<rparr>, \<lparr>pc_tag = 1, pc_id = 5\<rparr>])"
    by (simp add: capsCollected_def PREAMBLE_TAG_SENDER_HOSTED_def)
  have "namesOfSchema (\<lambda>n. capsDesc)" using n by (simp add: namesOfSchema_def)
  from capability_ids_survive [OF this n capsProps_collected b] show ?thesis by (auto simp: tableIds_def)
qed

fun walksPast :: "FieldDescriptor \<Rightarrow> bool" where
  "walksPast (Slot name offs type msk d) \<longleftrightarrow> isDataType type \<or> type = TText \<or> type = TData"
| "walksPast (Group name n d) \<longleftrightarrow> False"

lemma collectField_past: "walksPast f \<Longrightarrow> collectField walk env f v p = Inr []"
  by (cases f) (auto simp: collectField_def split: TypeDescriptor.splits)

lemma collectE_diverges:
  "(\<And>x. x \<in> set xs \<Longrightarrow> \<exists>y. f x = Inr y) \<Longrightarrow> f z = Inl e \<Longrightarrow> collectE f (xs @ z # zs) = Inl e"
  by (induction xs) force+

text \<open>C34: On a struct type that has itself as the type of a plain field after scalar, text and data
  fields, encodeStructMessageWithCaps does not return, whatever the value: the walk follows the
  type even where the value has no such field. Each amount of fuel runs out.
\<close>

theorem recursive_type_diverges:
  assumes "ds_fields (env n) = fs @ Slot name offs (TStruct n) msk None # gs" "\<forall>f \<in> set fs. walksPast f"
  shows "encodeStructMessageWithCaps fuel env (env n) v = Inl Diverges"
proof -
  have "collectCapabilityPointersFromStruct fuel env (env n) v p = Inl Diverges" for v p
  proof (induction fuel arbitrary: v p)
    case (Suc fuel)
    let ?get = "\<lambda>f. collectField (collectCapabilityPointersFromStruct fuel env) env f (getProp (asRecord v) (fd_name f)) (subPath p (fd_name f))"
    let ?a = "resolveActiveDiscriminant (env n) (asRecord v)"
    have "activeFields (env n) (asRecord v) = filter (\<lambda>f. \<not> inactive ?a f) fs @ Slot name offs (TStruct n) msk None #
        filter (\<lambda>f. \<not> inactive ?a f) gs"
      by (simp add: activeFields_def assms(1) inactive_def)
    moreover have "?get (Slot name offs (TStruct n) msk None) = Inl Diverges" using Suc.IH by (simp add: collectField_def)
    moreover have "\<exists>y. ?get f = Inr y" if "f \<in> set (filter (\<lambda>f. \<not> inactive ?a f) fs)" for f
      using collectField_past that assms(2) by fastforce
    ultimately have "collectE ?get (activeFields (env n) (asRecord v)) = Inl Diverges"
      using collectE_diverges [of "filter (\<lambda>f. \<not> inactive ?a f) fs" ?get] by simp
    then show ?case by (simp add: Let_def)
  qed simp
  then show ?thesis by (simp add: encodeStructMessageWithCaps_def)
qed

definition chainDesc :: StructDescriptor where
  "chainDesc = \<lparr>ds_name = [76], ds_dataWordCount = 1, ds_pointerCount = 1,
     ds_fields = [Slot [105] 0 TUint32 None None, Slot [110] 0 (TStruct 0) None None],
     ds_createDefault = [], ds_union = None\<rparr>"

theorem recursive_type_diverges_witness:
  "encodeStructMessageWithCaps 1000 (\<lambda>n. chainDesc) chainDesc (JObject []) = Inl Diverges"
  by (rule recursive_type_diverges [where env = "\<lambda>n. chainDesc" and n = 0 and fs = "[Slot [105] 0 TUint32 None None]"])
    (simp_all add: chainDesc_def)

section \<open>Messages that point to themselves\<close>

definition selfDesc :: StructDescriptor where
  "selfDesc = \<lparr>ds_name = [76], ds_dataWordCount = 0, ds_pointerCount = 1,
     ds_fields = [Slot [110] 0 (TStruct 0) None None], ds_createDefault = [], ds_union = None\<rparr>"

lemma decodeStructMessage_words:
  "length ws < 2 ^ 32 \<Longrightarrow> decodeStructMessage fuel env desc (frameOf [bytesOf ws]) =
     bindE (readStructPointer (readerOf ws) 0 0) (\<lambda>root.
     case root of None \<Rightarrow> Inr (ds_createDefault desc) | Some ref \<Rightarrow> decodeStructAt fuel env (readerOf ws) desc ref)"
  by (simp add: decodeStructMessage_def newMessageReader_bytesOf flip: readerOf_def)

text \<open>C35: The decoder has no limit on depth: on a message of two words whose struct is its own next node,
  decodeStructMessage does not return.
\<close>

theorem cyclic_message_diverges:
  "decodeStructMessage fuel (\<lambda>n. selfDesc) selfDesc (frameOf [bytesOf [structPtr 0 0 1, structPtr (-1) 0 1]]) = Inl Diverges"
proof -
  let ?ws = "[structPtr 0 0 1, structPtr (-1) 0 1]" and ?env = "\<lambda>n :: nat. selfDesc"
  have r0: "readStructPointer (readerOf ?ws) 0 (int 0) = Inr (Some (structRef 1 0 1))"
    by (rule struct_at_word(1) [where off = 0]) (simp_all add: inOffsetRange_def)
  have "1 < length ?ws" "?ws ! 1 = structPtr (- 1) (int 0) (int 1)" "inOffsetRange (- 1)" "(0::nat) < 2 ^ 16" "(1::nat) < 2 ^ 16"
    "(- 1 :: int) = 0 \<Longrightarrow> (0::nat) \<noteq> 0 \<or> (1::nat) \<noteq> 0" "int 1 + 1 + - 1 = int 1" "1 + 0 + 1 \<le> length ?ws"
    by (simp_all add: inOffsetRange_def)
  note r1 = struct_at_word [OF this]
  have w: "readResolvedPointerWord (readerOf ?ws) 0 (int 1) = Inr (?ws ! 1)" by (rule word_at) (use r1(3) in simp_all)
  have ix: "mrPointerWordIndex (structRef 1 0 1) 0 = Inr (int 1)" by (simp add: mrPointerWordIndex_def)
  have "decodeStructAt fuel ?env (readerOf ?ws) selfDesc (structRef 1 0 1) = Inl Diverges"
  proof (induction fuel rule: less_induct)
    case (less fuel)
    show ?case
    proof (cases fuel)
      case 0
      then show ?thesis by (simp add: decodeStructAt.simps)
    next
      case (Suc n)
      have "decodePointerField n ?env (readerOf ?ws) 0 (int 1) (TStruct 0) = Inl Diverges"
      proof (cases n)
        case 0
        then show ?thesis by (simp add: decodePointerField.simps)
      next
        case (Suc k)
        then show ?thesis using less [of k] r1(1) \<open>fuel = Suc n\<close> by (simp add: decodePointerField.simps)
      qed
      then show ?thesis using r1 w ix
        by (simp add: Suc decodeStructAt.simps readDiscriminant_def decodeFields_Cons decodeOne_def inactive_def selfDesc_def)
    qed
  qed
  then show ?thesis using r0 by (subst decodeStructMessage_words) simp_all
qed

section \<open>Values that do not survive\<close>

text \<open>
  Two float fields, the second with the default 1. An infinity in the first is sent as 0, the same
  value in the second arrives.
\<close>

definition floatDesc :: StructDescriptor where
  "floatDesc = \<lparr>ds_name = [70], ds_dataWordCount = 2, ds_pointerCount = 0,
     ds_fields = [Slot [102] 0 TFloat64 None None, Slot [103] 1 TFloat64 (Some 0x3FF0000000000000) None],
     ds_createDefault = [], ds_union = None\<rparr>"

definition infinities :: js_value where
  "infinities = JObject [([102], JNumber Infinity), ([103], JNumber Infinity)]"

lemma floatDesc_ok: "layoutOk (\<lambda>n. floatDesc) floatDesc" "schemaOk (\<lambda>n. floatDesc)"
  by (auto simp: schemaOk_def layoutOk_def floatDesc_def dataStart_def dataWidth_def maskOf_def apart_def occupies_slot)

lemma infinities_received:
  "receivedStruct (\<lambda>n. floatDesc) floatDesc infinities = Some [([102], JNumber (jint 0)), ([103], JNumber Infinity)]"
proof -
  have "bitsFloat 11 52 0 = jint 0" by (simp add: bitsFloat_def jint_def)
  moreover have "magnitudeBits 11 52 0 = 0" by (simp add: magnitudeBits_def)
  ultimately show ?thesis
    by (simp add: receivedStruct.simps receivedFields.simps floatDesc_def infinities_def resolveActiveDiscriminant_def
        inactive_def getProp_def sendableScalar_def receivedScalar_def bitsOfValue_def dataWidth_def maskOf_def bitsFloat_def Let_def jint_def)
qed

text \<open>An infinite number in a float field without a default arrives as 0, and in a float field with a
  default it arrives as it is.
\<close>

theorem infinity_sent_as_zero:
  "bindE (encodeStructMessage (\<lambda>n. floatDesc) floatDesc infinities) (decodeStructMessage 1000 (\<lambda>n. floatDesc) floatDesc) =
     Inr [([102], JNumber (jint 0)), ([103], JNumber Infinity)]"
proof -
  have "messageWords (\<lambda>n. floatDesc) floatDesc infinities < 2 ^ 29"
    by (simp add: messageWords_def structSize_def structWords.simps fieldWords.simps floatDesc_def infinities_def
        resolveActiveDiscriminant_def inactive_def getProp_def Let_def)
  from message_words [OF floatDesc_ok(2,1) infinities_received this] show ?thesis by (auto simp: infinities_def)
qed

definition nestedDesc :: StructDescriptor where
  "nestedDesc = \<lparr>ds_name = [78], ds_dataWordCount = 0, ds_pointerCount = 1,
     ds_fields = [Slot [108] 0 (TList (TList TInterface)) None None], ds_createDefault = [], ds_union = None\<rparr>"

definition nestedValue :: js_value where
  "nestedValue = JObject [([108], JArray [JArray [capabilityValue 7]])]"

lemma nestedDesc_ok: "layoutOk (\<lambda>n. nestedDesc) nestedDesc" "schemaOk (\<lambda>n. nestedDesc)"
  by (auto simp: schemaOk_def layoutOk_def nestedDesc_def)

lemma capabilityValue_some: "capabilityValue i \<noteq> JUndefined" "capabilityValue i \<noteq> JNull"
  by (simp_all add: capabilityValue_def)

lemma nestedValue_received: "receivedStruct (\<lambda>n. nestedDesc) nestedDesc nestedValue = Some [([108], JArray [JArray [capabilityValue 7]])]"
  by (simp add: receivedStruct.simps receivedFields.simps receivedPointer.simps receivedList.simps nestedDesc_def nestedValue_def
      resolveActiveDiscriminant_def inactive_def getProp_def fitsList_def receivedLeaf_def capabilityIndexFrom_value capabilityValue_some Let_def)

text \<open>A capability in a list of lists is not collected: the message carries its own index, the table
  is empty, and decoding with the table returns the bare index.
\<close>

theorem nested_list_capability_untabled:
  "bindE (encodeStructMessageWithCaps 1000 (\<lambda>n. nestedDesc) nestedDesc nestedValue) (\<lambda>(content, capTable).
     bindE (decodeStructMessageWithCaps 1000 (\<lambda>n. nestedDesc) nestedDesc content capTable) (\<lambda>out. Inr (capTable, out))) =
   Inr ([], [([108], JArray [JArray [capabilityValue 7]])])"
proof -
  have "messageWords (\<lambda>n. nestedDesc) nestedDesc nestedValue < 2 ^ 29"
    by (simp add: messageWords_def structSize_def structWords.simps fieldWords.simps pointerWords.simps listWords.simps nestedDesc_def
        nestedValue_def resolveActiveDiscriminant_def inactive_def getProp_def Let_def)
  from message_words [OF nestedDesc_ok(2,1) nestedValue_received this]
  obtain ws where ws: "encodeStructMessage (\<lambda>n. nestedDesc) nestedDesc nestedValue = Inr (frameOf [bytesOf ws])"
    "decodeStructMessage 1000 (\<lambda>n. nestedDesc) nestedDesc (frameOf [bytesOf ws]) = Inr [([108], JArray [JArray [capabilityValue 7]])]"
    by (auto simp: nestedValue_def capabilityValue_def lit_def)
  have "collectCapabilityPointersFromStruct (Suc 999) (\<lambda>n. nestedDesc) nestedDesc nestedValue [] = Inr []"
    by (simp only: collectCapabilityPointersFromStruct.simps)
      (simp add: nestedDesc_def nestedValue_def activeFields_def resolveActiveDiscriminant_def inactive_def collectField_def)
  then show ?thesis using ws by (simp add: encodeStructMessageWithCaps_def decodeStructMessageWithCaps_def)
qed

end
