(* ===== verification/Client_Types.thy ===== *)
theory Client_Types
  imports Server_Host
begin

text \<open>
  What the two RPC clients share: the options of a call (\<open>src/rpc/session/client.ts\<close>), the results
  they give (\<open>src/rpc/call_result.ts\<close>), the record of the references a call grants on local exports,
  and the annotation of errors (\<open>src/errors.ts\<close>). A timeout is an integer number of milliseconds.
\<close>

section \<open>Options\<close>

record RpcFinishOptions =
  fo_releaseResultCaps :: "bool option"
  fo_requireEarlyCancellation :: "bool option"

definition noFinishOptions :: RpcFinishOptions where
  "noFinishOptions = \<lparr>fo_releaseResultCaps = None, fo_requireEarlyCancellation = None\<rparr>"

text \<open>
  An abort signal is whether it is aborted when the code looks at it. The callback \<open>onQuestionId\<close> is
  the caller's code; it is taken to return without calling the client.
\<close>

record RpcClientCallOptions =
  co_signal :: "bool option"
  co_timeoutMs :: "int option"
  co_autoFinish :: "bool option"
  co_finish :: "RpcFinishOptions option"
  co_interfaceId :: "int option"
  co_paramsCapTable :: "number RpcCapDescriptor list option"
  co_target :: "number RpcCallTarget option"

definition noCallOptions :: RpcClientCallOptions where
  "noCallOptions = \<lparr>co_signal = None, co_timeoutMs = None, co_autoFinish = None, co_finish = None,
     co_interfaceId = None, co_paramsCapTable = None, co_target = None\<rparr>"

section \<open>Results\<close>

record RpcClientCallResult =
  cs_answerId :: int
  cs_contentBytes :: bytes
  cs_capTable :: "int RpcCapDescriptor list"
  cs_releaseParamCaps :: bool
  cs_noFinishNeeded :: bool

definition copyRpcCapDescriptor :: "int RpcCapDescriptor \<Rightarrow> int RpcCapDescriptor" where
  "copyRpcCapDescriptor entry = \<lparr>cd_tag = cd_tag entry, cd_id = cd_id entry, cd_vineId = None, cd_contact = None\<rparr>"

definition callFailed :: "js_string \<Rightarrow> error" where
  "callFailed reason = ProtocolError ''rpc call failed: {reason}'' (map int reason)"

text \<open>\<open>requireRpcReturnResults\<close> and \<open>toRpcCallResult\<close> on the message they accept.\<close>

fun toRpcCallResult :: "RpcReturnMessage \<Rightarrow> RpcClientCallResult result" where
  "toRpcCallResult (ReturnResults a content capTable flags) =
     Inr \<lparr>cs_answerId = a, cs_contentBytes = content, cs_capTable = map copyRpcCapDescriptor capTable,
          cs_releaseParamCaps = fl_releaseParamCaps flags, cs_noFinishNeeded = fl_noFinishNeeded flags\<rparr>"
| "toRpcCallResult (ReturnException _ reason _) = Inl (callFailed reason)"
| "toRpcCallResult (ReturnCanceled _ _) = Inl (callFailed canceledReason)"

text \<open>The capability table a message has: only results have one.\<close>

fun returnCapTable :: "RpcReturnMessage \<Rightarrow> int RpcCapDescriptor list" where
  "returnCapTable (ReturnResults _ _ capTable _) = capTable"
| "returnCapTable _ = []"

section \<open>Grants of parameter capabilities\<close>

type_synonym grants = "(int \<times> int) list"

definition senderHosted :: "number RpcCapDescriptor \<Rightarrow> bool" where
  "senderHosted d \<longleftrightarrow> cd_tag d = jint CAP_DESCRIPTOR_TAG_SENDER_HOSTED"

fun recordGrants :: "number RpcCapDescriptor list \<Rightarrow> grants \<Rightarrow> grants" where
  "recordGrants [] grants = grants"
| "recordGrants (d # ds) grants =
     (if \<not> senderHosted d then recordGrants ds grants
      else recordGrants ds (AList.update (toInt (cd_id d)) (orElse (map_of grants (toInt (cd_id d))) 0 + 1) grants))"

text \<open>\<open>#recordParamCapGrants\<close> on the map of the questions.\<close>

definition recordParamCapGrants ::
  "(int \<times> grants) list \<Rightarrow> int \<Rightarrow> number RpcCapDescriptor list option \<Rightarrow> (int \<times> grants) list" where
  "recordParamCapGrants questions questionId capTable =
     (let grants = recordGrants (orElse capTable []) []
      in if grants = [] then questions else AList.update questionId grants questions)"

text \<open>The loop of \<open>#settleParamCapGrants\<close>: an error of a release is reported and skipped.\<close>

definition settleGrant :: "int \<times> int \<Rightarrow> 'h registry \<Rightarrow> 'h registry" where
  "settleGrant = (\<lambda>(capabilityIndex, referenceCount) reg.
     case releaseCapability reg capabilityIndex (jint referenceCount) of Inl e \<Rightarrow> reg | Inr (_, reg') \<Rightarrow> reg')"

definition settleGrants :: "grants \<Rightarrow> 'h RpcServerBridge \<Rightarrow> 'h RpcServerBridge" where
  "settleGrants grants b = b\<lparr>sb_dispatchByCapability := fold settleGrant grants (sb_dispatchByCapability b)\<rparr>"

section \<open>Errors\<close>

text \<open>An empty context is no context.\<close>

definition composeErrorMessage :: "string \<Rightarrow> string \<Rightarrow> string" where
  "composeErrorMessage context detail = (if context = [] then detail else context @ '': '' @ detail)"

text \<open>The text of a \<open>RangeError\<close> is the engine's; its name stands for it.\<close>

fun annotateCapnpError :: "string \<Rightarrow> error \<Rightarrow> error" where
  "annotateCapnpError context (ProtocolError s xs) = ProtocolError (composeErrorMessage context s) xs"
| "annotateCapnpError context (SessionError s xs) = SessionError (composeErrorMessage context s) xs"
| "annotateCapnpError context (TransportError s xs) = TransportError (composeErrorMessage context s) xs"
| "annotateCapnpError context (PlainError s xs) = SessionError (composeErrorMessage context s) xs"
| "annotateCapnpError context RangeError = SessionError (composeErrorMessage context ''RangeError'') []"
| "annotateCapnpError context Diverges = Diverges"

fun normalizeSessionError :: "string \<Rightarrow> error \<Rightarrow> error" where
  "normalizeSessionError context (PlainError s xs) = SessionError (composeErrorMessage context s) xs"
| "normalizeSessionError context RangeError = SessionError (composeErrorMessage context ''RangeError'') []"
| "normalizeSessionError context e = e"

section \<open>The references of grants\<close>

text \<open>How often a table grants the peer a reference on an export.\<close>

definition hostedCount :: "number RpcCapDescriptor list \<Rightarrow> int \<Rightarrow> int" where
  "hostedCount ds i = int (length (filter (\<lambda>d. senderHosted d \<and> toInt (cd_id d) = i) ds))"

definition refsOn :: "'h registry \<Rightarrow> int \<Rightarrow> int" where
  "refsOn reg i = (case map_of reg i of None \<Rightarrow> 0 | Some rd \<Rightarrow> rd_refCount rd)"

lemma hostedCount_simps [simp]:
  "hostedCount [] i = 0"
  "hostedCount (d # ds) i = (if senderHosted d \<and> toInt (cd_id d) = i then 1 else 0) + hostedCount ds i"
  by (simp_all add: hostedCount_def)

lemma hostedCount_nonneg [simp]: "0 \<le> hostedCount ds i"
  by (simp add: hostedCount_def)

lemma recordGrants_distinct: "distinct (map fst g) \<Longrightarrow> distinct (map fst (recordGrants ds g))"
  by (induction ds arbitrary: g) (simp_all add: distinct_update)

lemma recordGrants_count:
  "orElse (map_of (recordGrants ds g) i) 0 = orElse (map_of g i) 0 + hostedCount ds i"
  by (induction ds arbitrary: g) (auto simp: update_conv')

lemma recordGrants_positive:
  "(\<And>i n. map_of g i = Some n \<Longrightarrow> 0 < n) \<Longrightarrow> map_of (recordGrants ds g) i = Some n \<Longrightarrow> 0 < n"
proof (induction ds arbitrary: g)
  case (Cons d ds)
  let ?g = "AList.update (toInt (cd_id d)) (orElse (map_of g (toInt (cd_id d))) 0 + 1) g"
  have "0 < n" if "map_of ?g i = Some n" for i n
    using that Cons.prems(1) by (cases "map_of g (toInt (cd_id d))") (fastforce simp: update_conv' split: if_splits)+
  then show ?case using Cons.IH [of g] Cons.IH [of ?g] Cons.prems by (auto split: if_splits)
qed simp

lemma settleGrant_refs:
  assumes "0 < n" "n \<le> refsOn reg i \<or> map_of reg i = None"
  shows "refsOn (settleGrant (i, n) reg) j = refsOn reg j - (if j = i \<and> map_of reg i \<noteq> None then n else 0)"
    and "j \<noteq> i \<Longrightarrow> map_of (settleGrant (i, n) reg) j = map_of reg j"
proof -
  show "j \<noteq> i \<Longrightarrow> map_of (settleGrant (i, n) reg) j = map_of reg j"
    by (auto simp: settleGrant_def releaseCapability_def Let_def update_conv' delete_conv' split: option.splits)
  show "refsOn (settleGrant (i, n) reg) j = refsOn reg j - (if j = i \<and> map_of reg i \<noteq> None then n else 0)"
    using assms by (auto simp: settleGrant_def releaseCapability_def refsOn_def Let_def update_conv' delete_conv' split: option.splits)
qed

lemma settleGrants_refs:
  assumes "distinct (map fst g)" "\<And>i n. (i, n) \<in> set g \<Longrightarrow> 0 < n \<and> (n \<le> refsOn reg i \<or> map_of reg i = None)"
  shows "refsOn (fold settleGrant g reg) j = refsOn reg j - (if map_of reg j \<noteq> None then orElse (map_of g j) 0 else 0)"
  using assms
proof (induction g arbitrary: reg)
  case (Cons p g)
  obtain i n where p: "p = (i, n)" by fastforce
  have first: "0 < n" "n \<le> refsOn reg i \<or> map_of reg i = None" using Cons.prems(2) [of i n] by (auto simp: p)
  have out: "i \<noteq> k" if "(k, m) \<in> set g" for k m using Cons.prems(1) that by (auto simp: p image_iff)
  note r = settleGrant_refs [OF first]
  have same: "refsOn (settleGrant (i, n) reg) k = refsOn reg k" "map_of (settleGrant (i, n) reg) k = map_of reg k"
    if "k \<noteq> i" for k using r [of k] that by auto
  have ih: "refsOn (fold settleGrant g (settleGrant (i, n) reg)) j = refsOn (settleGrant (i, n) reg) j -
      (if map_of (settleGrant (i, n) reg) j \<noteq> None then orElse (map_of g j) 0 else 0)"
  proof (rule Cons.IH)
    show "distinct (map fst g)" using Cons.prems(1) by simp
    show "0 < m \<and> (m \<le> refsOn (settleGrant (i, n) reg) k \<or> map_of (settleGrant (i, n) reg) k = None)" if "(k, m) \<in> set g" for k m
      using Cons.prems(2) [of k m] that out [OF that] same [of k] by auto
  qed
  have "map_of g i = None" using Cons.prems(1) by (simp add: p map_of_eq_None_iff)
  then show ?case using ih r(1) [of j] same [of j] by (auto simp: p)
qed simp

end
