(* ===== verification/Wire_Client.thy ===== *)
theory Wire_Client
  imports Client_Types
begin

text \<open>
  \<open>RpcWireClient\<close> of \<open>src/rpc/rpc_wire_client.ts\<close> as a state machine. A question is a coroutine: it
  hands its frame to the transport in a microtask, waits for the transport to take it, waits for its
  Return, and may send a Finish before its promise settles. Between two awaits it is a pending
  request with a stage under its question id, which the client never uses twice; an event is one run
  of code between awaits. Operations that wait for the transport to start are events of the time
  after it. The transport, the timers and the signals are the environment: they say when a
  frame has been sent, when a wait ends, and which frames arrive.
\<close>

section \<open>State\<close>

record Waiter =
  wt_timeoutMs :: "int option"
  wt_signal :: bool

datatype RpcClientAnswer =
    Bootstrapped int
  | CallResult RpcClientCallResult

datatype RequestStage =
    HandingOff bytes
  | Sending
  | Waiting
  | FinishReady RpcFinishOptions bool "RpcClientAnswer result"
  | Finishing bool "RpcClientAnswer result"

text \<open>\<open>wr_wait\<close> is the promise of the Return: \<open>None\<close> while it is pending.\<close>

record WireRequest =
  wr_bootstrap :: bool
  wr_options :: RpcClientCallOptions
  wr_stage :: RequestStage
  wr_wait :: "RpcReturnMessage result option"

record 'h RpcWireClient =
  wc_interfaceId :: "int option"
  wc_nextQuestionId :: number
  wc_defaultTimeoutMs :: "int option"
  wc_maxOutstandingParamCapQuestions :: int
  wc_closed :: bool
  wc_startSettled :: bool
  wc_startError :: "error option"
  wc_pendingReturns :: "(int \<times> Waiter) list"
  wc_localBridge :: "'h RpcServerBridge option"
  wc_questionsWithResultCaps :: "int list"
  wc_questionParamCapGrants :: "(int \<times> grants) list"
  wc_requests :: "(int \<times> WireRequest) list"
  wc_replies :: nat

record RpcWireClientOptions =
  wo_interfaceId :: "int option"
  wo_nextQuestionId :: "number option"
  wo_defaultTimeoutMs :: "int option"
  wo_maxOutstandingParamCapQuestions :: "number option"

definition clientClosed :: error where
  "clientClosed = SessionError ''rpc wire client is closed'' []"

definition validateParamCapQuestionLimit :: "number option \<Rightarrow> int result" where
  "validateParamCapQuestionLimit value =
     (let limit = orElse value (jint 4096)
      in if \<not> isSafeInteger limit \<or> toInt limit \<le> 0
         then Inl (SessionError ''maxOutstandingParamCapQuestions must be a positive safe integer'' [])
         else Inr (toInt limit))"

text \<open>The transport may be closed already, or throw from \<open>start\<close>.\<close>

definition newRpcWireClient :: "RpcWireClientOptions \<Rightarrow> bool \<Rightarrow> error option \<Rightarrow> 'h RpcWireClient result" where
  "newRpcWireClient options transportClosed startThrows =
     bindE (validateParamCapQuestionLimit (wo_maxOutstandingParamCapQuestions options)) (\<lambda>limit.
     let s = \<lparr>wc_interfaceId = wo_interfaceId options, wc_nextQuestionId = orElse (wo_nextQuestionId options) (jint 1),
              wc_defaultTimeoutMs = wo_defaultTimeoutMs options, wc_maxOutstandingParamCapQuestions = limit,
              wc_closed = transportClosed, wc_startSettled = transportClosed, wc_startError = None,
              wc_pendingReturns = [], wc_localBridge = None, wc_questionsWithResultCaps = [],
              wc_questionParamCapGrants = [], wc_requests = [], wc_replies = 0\<rparr>
     in if transportClosed then Inr s else case startThrows of Some e \<Rightarrow> Inl e | None \<Rightarrow> Inr s)"

datatype client_action =
    SendFrame bytes
  | UnexpectedFrame bytes int
  | Asked int
  | Answered int "RpcClientAnswer result"
  | Refused error
  | ExportedLocal int
  | ReleasedLocal

section \<open>Waiters\<close>

definition setRequest :: "int \<Rightarrow> (WireRequest \<Rightarrow> WireRequest) \<Rightarrow> 'h RpcWireClient \<Rightarrow> 'h RpcWireClient" where
  "setRequest q f s =
     (case map_of (wc_requests s) q of
        None \<Rightarrow> s
      | Some r \<Rightarrow> s\<lparr>wc_requests := AList.update q (f r) (wc_requests s)\<rparr>)"

text \<open>\<open>#settleWaiter\<close>: settled waiters are no longer in the map.\<close>

definition settleWaiter :: "int \<Rightarrow> RpcReturnMessage result \<Rightarrow> 'h RpcWireClient \<Rightarrow> 'h RpcWireClient" where
  "settleWaiter q outcome s =
     (if map_of (wc_pendingReturns s) q = None then s
      else setRequest q (wr_wait_update (\<lambda>_. Some outcome))
             (s\<lparr>wc_pendingReturns := AList.delete q (wc_pendingReturns s)\<rparr>))"

definition rejectAllPending :: "error \<Rightarrow> 'h RpcWireClient \<Rightarrow> 'h RpcWireClient" where
  "rejectAllPending e s = fold (\<lambda>q. settleWaiter q (Inl e)) (map fst (wc_pendingReturns s)) s"

text \<open>
  \<open>#markClosed\<close>. The bridge of the local exports is closed and dropped; the calls that run on it find
  their answers gone and reply nothing.
\<close>

definition markClosed :: "'h RpcWireClient \<Rightarrow> 'h RpcWireClient" where
  "markClosed s =
     (if wc_closed s then s
      else (rejectAllPending clientClosed (s\<lparr>wc_closed := True, wc_startSettled := True\<rparr>))
             \<lparr>wc_questionsWithResultCaps := [], wc_questionParamCapGrants := [], wc_localBridge := None\<rparr>)"

section \<open>Questions\<close>

text \<open>\<open>#ensureReady\<close> after its await: the error it throws.\<close>

definition notReady :: "'h RpcWireClient \<Rightarrow> error option" where
  "notReady s =
     (if wc_closed s then Some clientClosed
      else if wc_startError s \<noteq> None then Some (SessionError ''rpc wire client failed to start'' [])
      else None)"

definition allocQuestionId :: "'h RpcWireClient \<Rightarrow> int result \<times> 'h RpcWireClient" where
  "allocQuestionId s =
     (let questionId = wc_nextQuestionId s; q = toInt questionId
      in if \<not> isInteger questionId \<or> q \<le> 0 \<or> q > 0xffffffff
         then (Inl (SessionError ''questionId must be within 1..4294967295, got {}'' [q]), s)
         else if map_of (wc_pendingReturns s) q \<noteq> None \<or> map_of (wc_questionParamCapGrants s) q \<noteq> None
         then (Inl (SessionError ''questionId {} is still awaiting a terminal Return'' [q]), s)
         else (Inr q, s\<lparr>wc_nextQuestionId := jint (q + 1)\<rparr>))"

definition paramCapsFull :: "'h RpcWireClient \<Rightarrow> error option" where
  "paramCapsFull s =
     (if int (length (wc_questionParamCapGrants s)) \<ge> wc_maxOutstandingParamCapQuestions s
      then Some (SessionError ''outstanding param-cap question limit of {} reached'' [wc_maxOutstandingParamCapQuestions s])
      else None)"

text \<open>The new request with its waiter, which an aborted signal rejects at once.\<close>

definition waitForReturn ::
  "'h RpcWireClient \<Rightarrow> int \<Rightarrow> bool \<Rightarrow> bytes \<Rightarrow> RpcClientCallOptions \<Rightarrow> 'h RpcWireClient" where
  "waitForReturn s q bootstrap frame options =
     (let request = \<lparr>wr_bootstrap = bootstrap, wr_options = options, wr_stage = HandingOff frame, wr_wait = None\<rparr>
      in if co_signal options = Some True
         then s\<lparr>wc_requests := AList.update q (request\<lparr>wr_wait := Some (Inl (SessionError ''rpc wait aborted'' []))\<rparr>) (wc_requests s)\<rparr>
         else s\<lparr>wc_requests := AList.update q request (wc_requests s),
                wc_pendingReturns := AList.update q
                  \<lparr>wt_timeoutMs = (case co_timeoutMs options of None \<Rightarrow> wc_defaultTimeoutMs s | Some ms \<Rightarrow> Some ms),
                   wt_signal = (co_signal options \<noteq> None)\<rparr> (wc_pendingReturns s)\<rparr>)"

text \<open>\<open>#requestReturn\<close> up to its first await.\<close>

definition requestReturn ::
  "'h RpcWireClient \<Rightarrow> int \<Rightarrow> bool \<Rightarrow> bytes \<Rightarrow> RpcClientCallOptions \<Rightarrow> client_action list \<times> 'h RpcWireClient" where
  "requestReturn s q bootstrap frame options =
     (if wc_closed s
      then ([Answered q (Inl clientClosed)],
            s\<lparr>wc_questionParamCapGrants := AList.delete q (wc_questionParamCapGrants s)\<rparr>)
      else if map_of (wc_pendingReturns s) q \<noteq> None
      then ([Answered q (Inl (SessionError ''duplicate pending questionId {}'' [q]))], s)
      else ([], waitForReturn s q bootstrap frame options))"

definition startBootstrap :: "'h RpcWireClient \<Rightarrow> RpcClientCallOptions \<Rightarrow> client_action list \<times> 'h RpcWireClient" where
  "startBootstrap s options =
     (case notReady s of
        Some e \<Rightarrow> ([Refused e], s)
      | None \<Rightarrow>
          (case allocQuestionId s of
             (Inl e, s) \<Rightarrow> ([Refused e], s)
           | (Inr q, s) \<Rightarrow>
               (case encodeBootstrapRequestFrame \<lparr>bq_questionId = jint q\<rparr> of
                  Inl e \<Rightarrow> ([Asked q, Answered q (Inl e)], s)
                | Inr frame \<Rightarrow> apfst ((#) (Asked q)) (requestReturn s q True frame options))))"

definition callRequestOf ::
  "int \<Rightarrow> int \<Rightarrow> number \<Rightarrow> number \<Rightarrow> bytes \<Rightarrow> RpcClientCallOptions \<Rightarrow> RpcCallFrameRequest" where
  "callRequestOf q interfaceId capability methodId params options =
     \<lparr>cf_questionId = jint q, cf_interfaceId = interfaceId, cf_methodId = methodId, cf_targetImportedCap = None,
      cf_target = Some (orElse (co_target options) (ImportedCap capability)),
      cf_paramsContent = Some params, cf_paramsCapTable = co_paramsCapTable options\<rparr>"

definition startCall ::
  "'h RpcWireClient \<Rightarrow> number \<Rightarrow> number \<Rightarrow> bytes \<Rightarrow> RpcClientCallOptions \<Rightarrow> client_action list \<times> 'h RpcWireClient" where
  "startCall s capability methodId params options =
     (case notReady s of
        Some e \<Rightarrow> ([Refused e], s)
      | None \<Rightarrow>
          (case (case co_interfaceId options of None \<Rightarrow> wc_interfaceId s | Some i \<Rightarrow> Some i) of
             None \<Rightarrow> ([Refused (ProtocolError ''interfaceId is required for rpc wire client calls when no default interfaceId is configured'' [])], s)
           | Some interfaceId \<Rightarrow>
               (case (if list_ex senderHosted (orElse (co_paramsCapTable options) []) then paramCapsFull s else None) of
                  Some e \<Rightarrow> ([Refused e], s)
                | None \<Rightarrow>
                    (case allocQuestionId s of
                       (Inl e, s) \<Rightarrow> ([Refused e], s)
                     | (Inr q, s) \<Rightarrow>
                         (case encodeCallRequestFrame (callRequestOf q interfaceId capability methodId params options) of
                            Inl e \<Rightarrow> ([Asked q, Answered q (Inl e)], s)
                          | Inr frame \<Rightarrow>
                              let s = s\<lparr>wc_questionParamCapGrants :=
                                    recordParamCapGrants (wc_questionParamCapGrants s) q (co_paramsCapTable options)\<rparr>
                              in apfst ((#) (Asked q)) (requestReturn s q False frame options))))))"

section \<open>The stages of a question\<close>

definition dropRequest :: "int \<Rightarrow> 'h RpcWireClient \<Rightarrow> 'h RpcWireClient" where
  "dropRequest q s = s\<lparr>wc_requests := AList.delete q (wc_requests s)\<rparr>"

definition answer :: "int \<Rightarrow> RpcClientAnswer result \<Rightarrow> 'h RpcWireClient \<Rightarrow> client_action list \<times> 'h RpcWireClient" where
  "answer q result s = ([Answered q result], dropRequest q s)"

definition setRequestStage :: "int \<Rightarrow> RequestStage \<Rightarrow> 'h RpcWireClient \<Rightarrow> 'h RpcWireClient" where
  "setRequestStage q stage = setRequest q (wr_stage_update (\<lambda>_. stage))"

text \<open>The handler of a failed send; it waits for nothing, the waiter being settled.\<close>

definition sendFailed ::
  "int \<Rightarrow> bool \<Rightarrow> error \<Rightarrow> 'h RpcWireClient \<Rightarrow> client_action list \<times> 'h RpcWireClient" where
  "sendFailed q handoffStarted e s =
     (let s = (if handoffStarted then s
               else s\<lparr>wc_questionParamCapGrants := AList.delete q (wc_questionParamCapGrants s)\<rparr>);
          s = settleWaiter q (Inl e) s
      in answer q (Inl (annotateCapnpError ''rpc wire client send failed'' e)) s)"

definition handOff :: "int \<Rightarrow> bytes \<Rightarrow> 'h RpcWireClient \<Rightarrow> client_action list \<times> 'h RpcWireClient" where
  "handOff q frame s =
     (if wc_closed s then sendFailed q False clientClosed s
      else ([SendFrame frame], setRequestStage q Sending s))"

text \<open>The race of the send with the closing of the client.\<close>

definition sendSettled :: "int \<Rightarrow> error option \<Rightarrow> 'h RpcWireClient \<Rightarrow> client_action list \<times> 'h RpcWireClient" where
  "sendSettled q failure s =
     (if wc_closed s then sendFailed q True clientClosed s
      else case failure of
        Some e \<Rightarrow> sendFailed q True e s
      | None \<Rightarrow> ([], setRequestStage q Waiting s))"

definition bootstrapAnswer :: "RpcReturnMessage \<Rightarrow> RpcClientAnswer result" where
  "bootstrapAnswer message = bindE (extractBootstrapCapabilityIndex message) (\<lambda>i. Inr (Bootstrapped i))"

fun isResults :: "RpcReturnMessage \<Rightarrow> bool" where
  "isResults (ReturnResults _ _ _ _) = True"
| "isResults _ = False"

text \<open>The question goes on with the value of its Return or the error of its wait.\<close>

definition waitSettled ::
  "int \<Rightarrow> WireRequest \<Rightarrow> RpcReturnMessage result \<Rightarrow> 'h RpcWireClient \<Rightarrow> client_action list \<times> 'h RpcWireClient" where
  "waitSettled q request outcome s =
     (let options = wr_options request; finish = orElse (co_finish options) noFinishOptions;
          autoFinish = orElse (co_autoFinish options) True
      in case outcome of
           Inl e \<Rightarrow>
             let failure = Inl (annotateCapnpError [] e)
             in if autoFinish
                then ([], setRequestStage q (FinishReady (finish\<lparr>fo_requireEarlyCancellation :=
                       Some (orElse (fo_requireEarlyCancellation finish) True)\<rparr>) True failure) s)
                else answer q failure s
         | Inr message \<Rightarrow>
             if \<not> wr_bootstrap request then answer q (bindE (toRpcCallResult message) (\<lambda>r. Inr (CallResult r))) s
             else if isResults message \<and> autoFinish \<and> \<not> fl_noFinishNeeded (flagsOf message)
             then ([], setRequestStage q (FinishReady (finish\<lparr>fo_releaseResultCaps :=
                       Some (orElse (fo_releaseResultCaps finish) False)\<rparr>) False (bootstrapAnswer message)) s)
             else answer q (bootstrapAnswer message) s)"

text \<open>\<open>finish\<close> once the client is ready: the frame it sends, or the error it throws.\<close>

definition finishQuestion ::
  "number \<Rightarrow> RpcFinishOptions \<Rightarrow> 'h RpcWireClient \<Rightarrow> bytes result \<times> 'h RpcWireClient" where
  "finishQuestion questionId options s =
     (case notReady s of
        Some e \<Rightarrow> (Inl e, s)
      | None \<Rightarrow>
          let returnedCaps = (isInteger questionId \<and> toInt questionId \<in> set (wc_questionsWithResultCaps s));
              s = (if returnedCaps
                   then s\<lparr>wc_questionsWithResultCaps := removeAll (toInt questionId) (wc_questionsWithResultCaps s)\<rparr> else s)
          in (encodeFinishFrame \<lparr>ff_questionId = questionId,
                ff_releaseResultCaps = Some (orElse (fo_releaseResultCaps options) (\<not> returnedCaps)),
                ff_requireEarlyCancellation = Some (orElse (fo_requireEarlyCancellation options) False)\<rparr>, s))"

text \<open>The end of a Finish: one sent after a failed wait keeps its own error to itself.\<close>

definition finishEnded ::
  "int \<Rightarrow> bool \<Rightarrow> RpcClientAnswer result \<Rightarrow> error option \<Rightarrow> 'h RpcWireClient \<Rightarrow> client_action list \<times> 'h RpcWireClient" where
  "finishEnded q bestEffort result failure s =
     (case failure of
        Some e \<Rightarrow> if bestEffort then answer q result s else answer q (Inl e) s
      | None \<Rightarrow> answer q result s)"

definition finishReady ::
  "int \<Rightarrow> RpcFinishOptions \<Rightarrow> bool \<Rightarrow> RpcClientAnswer result \<Rightarrow> 'h RpcWireClient \<Rightarrow> client_action list \<times> 'h RpcWireClient" where
  "finishReady q options bestEffort result s =
     (case finishQuestion (jint q) options s of
        (Inl e, s) \<Rightarrow> finishEnded q bestEffort result (Some e) s
      | (Inr frame, s) \<Rightarrow> ([SendFrame frame], setRequestStage q (Finishing bestEffort result) s))"

section \<open>Frames\<close>

definition settleParamCapGrants :: "int \<Rightarrow> bool \<Rightarrow> 'h RpcWireClient \<Rightarrow> 'h RpcWireClient" where
  "settleParamCapGrants q release s0 =
     (let grants = map_of (wc_questionParamCapGrants s0) q;
          s = s0\<lparr>wc_questionParamCapGrants := AList.delete q (wc_questionParamCapGrants s0)\<rparr>
      in case (grants, wc_localBridge s) of
           (Some g, Some b) \<Rightarrow> if release then s\<lparr>wc_localBridge := Some (settleGrants g b)\<rparr> else s
         | _ \<Rightarrow> s)"

definition returnArrives :: "RpcReturnMessage \<Rightarrow> 'h RpcWireClient \<Rightarrow> 'h RpcWireClient" where
  "returnArrives message s =
     (let q = answerIdOf message; s = settleParamCapGrants q (fl_releaseParamCaps (flagsOf message)) s
      in if map_of (wc_pendingReturns s) q = None then s
         else settleWaiter q (Inr message)
                (if returnCapTable message \<noteq> [] \<and> q \<notin> set (wc_questionsWithResultCaps s)
                 then s\<lparr>wc_questionsWithResultCaps := wc_questionsWithResultCaps s @ [q]\<rparr> else s))"

text \<open>What the local bridge gives for a frame, now or when a call on it ends.\<close>

definition callbackFailed :: "'h RpcWireClient \<Rightarrow> 'h RpcWireClient" where
  "callbackFailed s = rejectAllPending (ProtocolError ''failed to handle inbound callback frame'' []) s"

definition bridgeReplied :: "bridge_output \<Rightarrow> 'h RpcWireClient \<Rightarrow> client_action list \<times> 'h RpcWireClient" where
  "bridgeReplied out s =
     (case out of
        Replied (Inl e) \<Rightarrow> ([], callbackFailed s)
      | Replied (Inr (Some response)) \<Rightarrow> ([SendFrame response], s\<lparr>wc_replies := wc_replies s + 1\<rparr>)
      | _ \<Rightarrow> ([], s))"

definition onFrame :: "bytes \<Rightarrow> 'h RpcWireClient \<Rightarrow> client_action list \<times> 'h RpcWireClient" where
  "onFrame frame s =
     (case decodeRpcMessageTag frame of
        Inl e \<Rightarrow> ([], s)
      | Inr tag \<Rightarrow>
          if tag \<noteq> RPC_MESSAGE_TAG_RETURN
          then (case (if tag = RPC_MESSAGE_TAG_CALL \<or> tag = RPC_MESSAGE_TAG_RELEASE \<or> tag = RPC_MESSAGE_TAG_FINISH
                      then wc_localBridge s else None) of
                  Some b \<Rightarrow> (case handleFrame b frame of (out, b) \<Rightarrow> bridgeReplied out (s\<lparr>wc_localBridge := Some b\<rparr>))
                | None \<Rightarrow> ([UnexpectedFrame frame tag], s))
          else case decodeReturnFrame frame of
              Inl e \<Rightarrow> ([], rejectAllPending (ProtocolError ''failed to decode inbound return frame'' []) s)
            | Inr message \<Rightarrow> ([], returnArrives message s))"

section \<open>Local exports\<close>

definition localBridgeOptions :: RpcServerBridgeOptions where
  "localBridgeOptions = \<lparr>bo_maxRetainedInputFrameBytes = None, bo_nextCapabilityIndex = None,
     bo_maxAnswerTableSize = None, bo_answerEvictionTimeoutMs = None, bo_maxEvictionRetries = None,
     bo_onBootstrap = False, bo_middleware = []\<rparr>"

definition exportLocal ::
  "'h RpcServerDispatch \<Rightarrow> int option \<Rightarrow> number option \<Rightarrow> 'h RpcWireClient \<Rightarrow> client_action list \<times> 'h RpcWireClient" where
  "exportLocal dispatch index referenceCount s =
     (if wc_closed s then ([Refused clientClosed], s)
      else case paramCapsFull s of
        Some e \<Rightarrow> ([Refused e], s)
      | None \<Rightarrow>
          (case (case wc_localBridge s of Some b \<Rightarrow> Inr b | None \<Rightarrow> newRpcServerBridge localBridgeOptions) of
             Inl e \<Rightarrow> ([Refused e], s)
           | Inr b \<Rightarrow>
               (case exportCapability b dispatch index referenceCount of
                  (Inl e, b) \<Rightarrow> ([Refused e], s\<lparr>wc_localBridge := Some b\<rparr>)
                | (Inr i, b) \<Rightarrow> ([ExportedLocal i], s\<lparr>wc_localBridge := Some b\<rparr>))))"

definition releaseExportedCapability ::
  "int \<Rightarrow> number \<Rightarrow> 'h RpcWireClient \<Rightarrow> client_action list \<times> 'h RpcWireClient" where
  "releaseExportedCapability capability referenceCount s =
     (case wc_localBridge s of
        None \<Rightarrow> ([ReleasedLocal], s)
      | Some b \<Rightarrow>
          (case onRegistry b (releaseCapability (sb_dispatchByCapability b) capability referenceCount) of
             (Inl e, b) \<Rightarrow> ([Refused e], s)
           | (Inr _, b) \<Rightarrow> ([ReleasedLocal], s\<lparr>wc_localBridge := Some b\<rparr>)))"

section \<open>Statistics\<close>

record RpcWireClientStats =
  ws_closed :: bool
  ws_pendingReturns :: int
  ws_exportedCapabilities :: int
  ws_nextQuestionId :: number
  ws_defaultTimeoutMs :: "int option"

definition wireClientStats :: "'h RpcWireClient \<Rightarrow> RpcWireClientStats" where
  "wireClientStats s =
     \<lparr>ws_closed = wc_closed s, ws_pendingReturns = int (length (wc_pendingReturns s)),
      ws_exportedCapabilities = (case wc_localBridge s of None \<Rightarrow> 0 | Some b \<Rightarrow> int (length (sb_dispatchByCapability b))),
      ws_nextQuestionId = wc_nextQuestionId s, ws_defaultTimeoutMs = wc_defaultTimeoutMs s\<rparr>"

section \<open>Steps\<close>

datatype 'h client_event =
    TransportStarted "error option"
  | DoBootstrap RpcClientCallOptions
  | DoCall number number bytes RpcClientCallOptions
  | DoFinish number RpcFinishOptions
  | DoRelease number number
  | DoExport "'h RpcServerDispatch" "int option" "number option"
  | DoReleaseExported int number
  | FrameArrives bytes
  | Continue int
  | SendSettled int "error option"
  | FinishSettled int "error option"
  | WaitTimeout int
  | WaitAborted int
  | BridgeRuns "'h bridge_event"
  | ReplySettled "error option"
  | CloseClient

definition sendOr :: "bytes result \<Rightarrow> 'h RpcWireClient \<Rightarrow> client_action list \<times> 'h RpcWireClient" where
  "sendOr r s = (case r of Inl e \<Rightarrow> ([Refused e], s) | Inr frame \<Rightarrow> ([SendFrame frame], s))"

definition releaseFrame :: "number \<Rightarrow> number \<Rightarrow> 'h RpcWireClient \<Rightarrow> bytes result" where
  "releaseFrame capability referenceCount s =
     (case notReady s of Some e \<Rightarrow> Inl e | None \<Rightarrow> encodeReleaseFrame \<lparr>rq_id = capability, rq_referenceCount = referenceCount\<rparr>)"

text \<open>The continuation of a question where the client itself decides when to run it.\<close>

definition continueRequest :: "int \<Rightarrow> WireRequest \<Rightarrow> 'h RpcWireClient \<Rightarrow> (client_action list \<times> 'h RpcWireClient) option" where
  "continueRequest q request s =
     (case wr_stage request of
        HandingOff frame \<Rightarrow> Some (handOff q frame s)
      | Sending \<Rightarrow> if wc_closed s then Some (sendFailed q True clientClosed s) else None
      | Waiting \<Rightarrow> map_option (\<lambda>outcome. waitSettled q request outcome s) (wr_wait request)
      | FinishReady options bestEffort result \<Rightarrow> Some (finishReady q options bestEffort result s)
      | Finishing _ _ \<Rightarrow> None)"

text \<open>The events of calls on the local bridge that end without a frame or a method of the client.\<close>

fun runsByItself :: "'h bridge_event \<Rightarrow> bool" where
  "runsByItself (TargetSettled _) = True"
| "runsByItself (HandlerSettled _ _ _) = True"
| "runsByItself (OutcomeSettled _) = True"
| "runsByItself (EvictionTimer _) = True"
| "runsByItself _ = False"

definition whenStarted :: "'h RpcWireClient \<Rightarrow> 'a \<Rightarrow> 'a option" where
  "whenStarted s x = (if wc_startSettled s then Some x else None)"

fun clientStep :: "'h RpcWireClient \<Rightarrow> 'h client_event \<Rightarrow> (client_action list \<times> 'h RpcWireClient) option" where
  "clientStep s (TransportStarted failure) =
     (if wc_startSettled s then None
      else Some ([], case failure of
          None \<Rightarrow> s\<lparr>wc_startSettled := True\<rparr>
        | Some e \<Rightarrow> rejectAllPending (SessionError ''rpc wire client failed to start'' [])
            (s\<lparr>wc_startSettled := True, wc_startError := Some e\<rparr>)))"
| "clientStep s (DoBootstrap options) = whenStarted s (startBootstrap s options)"
| "clientStep s (DoCall capability methodId params options) = whenStarted s (startCall s capability methodId params options)"
| "clientStep s (DoFinish questionId options) =
     whenStarted s (case finishQuestion questionId options s of (r, s) \<Rightarrow> sendOr r s)"
| "clientStep s (DoRelease capability referenceCount) =
     whenStarted s (sendOr (releaseFrame capability referenceCount s) s)"
| "clientStep s (DoExport dispatch index n) = Some (exportLocal dispatch index n s)"
| "clientStep s (DoReleaseExported i n) = Some (releaseExportedCapability i n s)"
| "clientStep s (FrameArrives frame) = Some (onFrame frame s)"
| "clientStep s (Continue q) =
     (case map_of (wc_requests s) q of None \<Rightarrow> None | Some request \<Rightarrow> continueRequest q request s)"
| "clientStep s (SendSettled q failure) =
     (case map_of (wc_requests s) q of
        Some request \<Rightarrow> if wr_stage request = Sending then Some (sendSettled q failure s) else None
      | None \<Rightarrow> None)"
| "clientStep s (FinishSettled q failure) =
     (case map_of (wc_requests s) q of
        Some request \<Rightarrow>
          (case wr_stage request of
             Finishing bestEffort result \<Rightarrow> Some (finishEnded q bestEffort result failure s)
           | _ \<Rightarrow> None)
      | None \<Rightarrow> None)"
| "clientStep s (WaitTimeout q) =
     (case map_of (wc_pendingReturns s) q of
        Some waiter \<Rightarrow> map_option (\<lambda>ms. ([], settleWaiter q (Inl (SessionError ''rpc wait timed out after {}ms'' [ms])) s))
          (wt_timeoutMs waiter)
      | None \<Rightarrow> None)"
| "clientStep s (WaitAborted q) =
     (case map_of (wc_pendingReturns s) q of
        Some waiter \<Rightarrow> if wt_signal waiter then Some ([], settleWaiter q (Inl (SessionError ''rpc wait aborted'' [])) s) else None
      | None \<Rightarrow> None)"
| "clientStep s (BridgeRuns event) =
     (case wc_localBridge s of
        None \<Rightarrow> None
      | Some b \<Rightarrow> if \<not> runsByItself event then None
          else map_option (\<lambda>(out, b). bridgeReplied out (s\<lparr>wc_localBridge := Some b\<rparr>)) (bridgeStep b event))"
| "clientStep s (ReplySettled failure) =
     (if wc_replies s = 0 then None
      else let s = s\<lparr>wc_replies := wc_replies s - 1\<rparr>
           in Some ([], if failure = None then s else callbackFailed s))"
| "clientStep s CloseClient = Some ([], markClosed s)"

inductive clientReachable :: "RpcWireClientOptions \<Rightarrow> 'h RpcWireClient \<Rightarrow> bool" for options where
  created: "newRpcWireClient options transportClosed startThrows = Inr s \<Longrightarrow> clientReachable options s"
| stepped: "clientReachable options s \<Longrightarrow> clientStep s event = Some (actions, s') \<Longrightarrow> clientReachable options s'"

fun clientRun :: "'h RpcWireClient \<Rightarrow> 'h client_event list \<Rightarrow> (client_action list \<times> 'h RpcWireClient) option" where
  "clientRun s [] = Some ([], s)"
| "clientRun s (event # events) =
     (case clientStep s event of
        None \<Rightarrow> None
      | Some (actions, s') \<Rightarrow> map_option (apfst ((@) actions)) (clientRun s' events))"

lemma clientRun_reachable:
  "clientReachable options s \<Longrightarrow> clientRun s events = Some (actions, s') \<Longrightarrow> clientReachable options s'"
  by (induction events arbitrary: s actions) (auto split: option.splits dest: stepped)

lemma clientRun_append:
  "clientRun s events = Some (actions, s') \<Longrightarrow> clientRun s' events' = Some (actions', s'') \<Longrightarrow>
    clientRun s (events @ events') = Some (actions @ actions', s'')"
  by (induction events arbitrary: s actions) (auto split: option.splits)

end
