(* ===== verification/Wire_Client_State.thy ===== *)
theory Wire_Client_State
  imports Wire_Client
begin

text \<open>
  The invariant of the wire client and its proof operation by operation: which ids are in use, that a
  waiter is in the map exactly while its wait is pending, that a Return settles the wait of its own
  question, that a closed client has let go of everything, and the limit on the grants.
\<close>

section \<open>The operations on waiters\<close>

definition endWait :: "RpcReturnMessage result \<Rightarrow> WireRequest \<Rightarrow> WireRequest" where
  "endWait outcome r = r\<lparr>wr_wait := Some outcome\<rparr>"

lemma endWait_parts [simp]:
  "wr_wait (endWait outcome r) = Some outcome" "wr_stage (endWait outcome r) = wr_stage r"
  "wr_bootstrap (endWait outcome r) = wr_bootstrap r" "wr_options (endWait outcome r) = wr_options r"
  by (simp_all add: endWait_def)

lemma setRequest_requests [simp]:
  "map_of (wc_requests (setRequest q f s)) = (map_of (wc_requests s))(q := map_option f (map_of (wc_requests s) q))"
  by (auto simp: setRequest_def update_conv split: option.splits)

lemma setRequest_fields [simp]:
  "wc_interfaceId (setRequest q f s) = wc_interfaceId s"
  "wc_nextQuestionId (setRequest q f s) = wc_nextQuestionId s"
  "wc_maxOutstandingParamCapQuestions (setRequest q f s) = wc_maxOutstandingParamCapQuestions s"
  "wc_closed (setRequest q f s) = wc_closed s"
  "wc_startSettled (setRequest q f s) = wc_startSettled s"
  "wc_startError (setRequest q f s) = wc_startError s"
  "wc_pendingReturns (setRequest q f s) = wc_pendingReturns s"
  "wc_localBridge (setRequest q f s) = wc_localBridge s"
  "wc_questionsWithResultCaps (setRequest q f s) = wc_questionsWithResultCaps s"
  "wc_questionParamCapGrants (setRequest q f s) = wc_questionParamCapGrants s"
  by (simp_all add: setRequest_def split: option.splits)

lemma settleWaiter_fields [simp]:
  "wc_interfaceId (settleWaiter q r s) = wc_interfaceId s"
  "wc_nextQuestionId (settleWaiter q r s) = wc_nextQuestionId s"
  "wc_maxOutstandingParamCapQuestions (settleWaiter q r s) = wc_maxOutstandingParamCapQuestions s"
  "wc_closed (settleWaiter q r s) = wc_closed s"
  "wc_startSettled (settleWaiter q r s) = wc_startSettled s"
  "wc_startError (settleWaiter q r s) = wc_startError s"
  "wc_localBridge (settleWaiter q r s) = wc_localBridge s"
  "wc_questionsWithResultCaps (settleWaiter q r s) = wc_questionsWithResultCaps s"
  "wc_questionParamCapGrants (settleWaiter q r s) = wc_questionParamCapGrants s"
  by (simp_all add: settleWaiter_def)

lemma settleWaiter_pending [simp]: "map_of (wc_pendingReturns (settleWaiter q r s)) = (map_of (wc_pendingReturns s))(q := None)"
  by (auto simp: settleWaiter_def delete_conv' fun_eq_iff)

lemma settleWaiter_requests [simp]:
  "map_of (wc_requests (settleWaiter q r s)) =
     (if map_of (wc_pendingReturns s) q = None then map_of (wc_requests s)
      else (map_of (wc_requests s))(q := map_option (endWait r) (map_of (wc_requests s) q)))"
  by (simp add: settleWaiter_def endWait_def [abs_def])

lemma settle_fold:
  "map_of (wc_pendingReturns (fold (\<lambda>q. settleWaiter q r) qs s)) q =
     (if q \<in> set qs then None else map_of (wc_pendingReturns s) q)"
  "map_of (wc_requests (fold (\<lambda>q. settleWaiter q r) qs s)) q =
     (if q \<in> set qs \<and> map_of (wc_pendingReturns s) q \<noteq> None then map_option (endWait r) (map_of (wc_requests s) q)
      else map_of (wc_requests s) q)"
  by (induction qs arbitrary: s) auto

lemma settle_fold_fields [simp]:
  "wc_interfaceId (fold (\<lambda>q. settleWaiter q r) qs s) = wc_interfaceId s"
  "wc_nextQuestionId (fold (\<lambda>q. settleWaiter q r) qs s) = wc_nextQuestionId s"
  "wc_maxOutstandingParamCapQuestions (fold (\<lambda>q. settleWaiter q r) qs s) = wc_maxOutstandingParamCapQuestions s"
  "wc_closed (fold (\<lambda>q. settleWaiter q r) qs s) = wc_closed s"
  "wc_startSettled (fold (\<lambda>q. settleWaiter q r) qs s) = wc_startSettled s"
  "wc_startError (fold (\<lambda>q. settleWaiter q r) qs s) = wc_startError s"
  "wc_localBridge (fold (\<lambda>q. settleWaiter q r) qs s) = wc_localBridge s"
  "wc_questionsWithResultCaps (fold (\<lambda>q. settleWaiter q r) qs s) = wc_questionsWithResultCaps s"
  "wc_questionParamCapGrants (fold (\<lambda>q. settleWaiter q r) qs s) = wc_questionParamCapGrants s"
  by (induction qs arbitrary: s) auto

lemma rejectAll_fields [simp]:
  "wc_interfaceId (rejectAllPending e s) = wc_interfaceId s"
  "wc_nextQuestionId (rejectAllPending e s) = wc_nextQuestionId s"
  "wc_maxOutstandingParamCapQuestions (rejectAllPending e s) = wc_maxOutstandingParamCapQuestions s"
  "wc_closed (rejectAllPending e s) = wc_closed s"
  "wc_startSettled (rejectAllPending e s) = wc_startSettled s"
  "wc_startError (rejectAllPending e s) = wc_startError s"
  "wc_localBridge (rejectAllPending e s) = wc_localBridge s"
  "wc_questionsWithResultCaps (rejectAllPending e s) = wc_questionsWithResultCaps s"
  "wc_questionParamCapGrants (rejectAllPending e s) = wc_questionParamCapGrants s"
  by (simp_all add: rejectAllPending_def)

lemma rejectAll_pending [simp]: "wc_pendingReturns (rejectAllPending e s) = []"
proof -
  have "map_of (wc_pendingReturns (rejectAllPending e s)) q = None" for q
    by (simp add: rejectAllPending_def settle_fold) (simp add: map_of_eq_None_iff)
  then have "map_of (wc_pendingReturns (rejectAllPending e s)) = Map.empty" by (simp add: fun_eq_iff)
  then show ?thesis by simp
qed

lemma rejectAll_requests [simp]:
  "map_of (wc_requests (rejectAllPending e s)) q =
     (if map_of (wc_pendingReturns s) q = None then map_of (wc_requests s) q
      else map_option (endWait (Inl e)) (map_of (wc_requests s) q))"
proof -
  have "q \<in> fst ` set (wc_pendingReturns s) \<longleftrightarrow> map_of (wc_pendingReturns s) q \<noteq> None"
    by (simp add: map_of_eq_None_iff)
  then show ?thesis by (simp add: rejectAllPending_def settle_fold)
qed

section \<open>The invariant\<close>

text \<open>The ids the client knows something about.\<close>

definition knownIds :: "'h RpcWireClient \<Rightarrow> int set" where
  "knownIds s = dom (map_of (wc_requests s)) \<union> dom (map_of (wc_questionParamCapGrants s))
     \<union> set (wc_questionsWithResultCaps s)"

definition idsOk :: "'h RpcWireClient \<Rightarrow> bool" where
  "idsOk s \<longleftrightarrow> (\<forall>q \<in> knownIds s. 0 < q \<and> isInteger (wc_nextQuestionId s) \<and> q < toInt (wc_nextQuestionId s))"

text \<open>The question has a request whose wait is pending.\<close>

definition waitsIn :: "(int \<rightharpoonup> WireRequest) \<Rightarrow> int \<Rightarrow> bool" where
  "waitsIn requests q = (case requests q of None \<Rightarrow> False | Some r \<Rightarrow> wr_wait r = None)"

definition waitersOk :: "'h RpcWireClient \<Rightarrow> bool" where
  "waitersOk s \<longleftrightarrow> (\<forall>q. map_of (wc_pendingReturns s) q = None \<longleftrightarrow> \<not> waitsIn (map_of (wc_requests s)) q)"

lemma waitsIn_upd [simp]:
  "waitsIn (m(q := v)) p = (if p = q then (case v of None \<Rightarrow> False | Some r \<Rightarrow> wr_wait r = None) else waitsIn m p)"
  by (simp add: waitsIn_def)

lemma waitsIn_empty [simp]: "\<not> waitsIn Map.empty q"
  by (simp add: waitsIn_def)

fun lateResult :: "RequestStage \<Rightarrow> RpcClientAnswer result option" where
  "lateResult (FinishReady _ _ result) = Some result"
| "lateResult (Finishing _ result) = Some result"
| "lateResult _ = None"

definition requestOk :: "int \<Rightarrow> WireRequest \<Rightarrow> bool" where
  "requestOk q r \<longleftrightarrow> (\<forall>m. wr_wait r = Some (Inr m) \<longrightarrow> answerIdOf m = q) \<and>
     (\<forall>result. lateResult (wr_stage r) = Some result \<longrightarrow> wr_wait r \<noteq> None \<and> (\<forall>c. result \<noteq> Inr (CallResult c)))"

definition requestsOk :: "'h RpcWireClient \<Rightarrow> bool" where
  "requestsOk s \<longleftrightarrow> (\<forall>q r. map_of (wc_requests s) q = Some r \<longrightarrow> requestOk q r)"

definition shutOk :: "'h RpcWireClient \<Rightarrow> bool" where
  "shutOk s \<longleftrightarrow> (wc_closed s \<longrightarrow> wc_startSettled s \<and> wc_pendingReturns s = [] \<and> wc_questionParamCapGrants s = [] \<and>
     wc_questionsWithResultCaps s = [] \<and> wc_localBridge s = None)"

definition grantsOk :: "'h RpcWireClient \<Rightarrow> bool" where
  "grantsOk s \<longleftrightarrow> int (length (wc_questionParamCapGrants s)) \<le> wc_maxOutstandingParamCapQuestions s"

definition localOk :: "'h RpcWireClient \<Rightarrow> bool" where
  "localOk s \<longleftrightarrow> (\<forall>b. wc_localBridge s = Some b \<longrightarrow> bridgeReachable localBridgeOptions b)"

definition clientOk :: "'h RpcWireClient \<Rightarrow> bool" where
  "clientOk s \<longleftrightarrow> idsOk s \<and> waitersOk s \<and> requestsOk s \<and> shutOk s \<and> grantsOk s \<and> localOk s"

lemmas client_defs = clientOk_def idsOk_def knownIds_def waitersOk_def requestsOk_def shutOk_def grantsOk_def localOk_def

lemma pending_request: "clientOk s \<Longrightarrow> map_of (wc_pendingReturns s) q = Some w \<Longrightarrow>
    \<exists>r. map_of (wc_requests s) q = Some r \<and> wr_wait r = None"
proof -
  assume a: "clientOk s" "map_of (wc_pendingReturns s) q = Some w"
  then have "waitsIn (map_of (wc_requests s)) q"
    unfolding clientOk_def waitersOk_def by (metis option.distinct(1))
  then show ?thesis by (simp add: waitsIn_def split: option.splits)
qed

lemma created_ok: "newRpcWireClient options closedFirst throws = Inr s \<Longrightarrow> clientOk s"
  by (auto simp: newRpcWireClient_def validateParamCapQuestionLimit_def client_defs Let_def split: if_splits option.splits)

section \<open>Operations\<close>

lemma settle_idsOk [intro]: "idsOk s \<Longrightarrow> idsOk (settleWaiter q r s)"
  by (auto simp: idsOk_def knownIds_def split: if_splits)

lemma requestOk_endWait: "requestOk q r \<Longrightarrow> (\<And>m. outcome = Inr m \<Longrightarrow> answerIdOf m = q) \<Longrightarrow> requestOk q (endWait outcome r)"
  by (auto simp: requestOk_def)

lemma settle_ok:
  assumes "clientOk s" "\<And>m. outcome = Inr m \<Longrightarrow> answerIdOf m = q"
  shows "clientOk (settleWaiter q outcome s)"
proof -
  have "waitersOk (settleWaiter q outcome s)"
    using assms(1) by (auto simp: clientOk_def waitersOk_def split: option.splits)
  moreover have "requestsOk (settleWaiter q outcome s)"
    using assms requestOk_endWait by (fastforce simp: clientOk_def requestsOk_def split: if_splits)
  moreover have "shutOk (settleWaiter q outcome s)"
    using assms(1) by (auto simp: clientOk_def shutOk_def settleWaiter_def)
  ultimately show ?thesis using assms(1) settle_idsOk by (auto simp: clientOk_def grantsOk_def localOk_def)
qed

lemma rejectAll_ok:
  assumes "clientOk s"
  shows "clientOk (rejectAllPending e s)"
proof -
  have dom: "dom (map_of (wc_requests (rejectAllPending e s))) = dom (map_of (wc_requests s))"
    by (auto split: if_splits)
  then have "idsOk (rejectAllPending e s)" using assms by (simp add: clientOk_def idsOk_def knownIds_def)
  moreover have "waitersOk (rejectAllPending e s)"
    using assms by (auto simp: clientOk_def waitersOk_def waitsIn_def split: option.splits)
  moreover have "requestsOk (rejectAllPending e s)"
    using assms requestOk_endWait by (fastforce simp: clientOk_def requestsOk_def split: if_splits)
  ultimately show ?thesis using assms by (auto simp: clientOk_def grantsOk_def localOk_def shutOk_def)
qed

lemma markClosed_fields [simp]:
  "wc_nextQuestionId (markClosed s) = wc_nextQuestionId s"
  "wc_maxOutstandingParamCapQuestions (markClosed s) = wc_maxOutstandingParamCapQuestions s"
  "wc_closed (markClosed s)"
  by (simp_all add: markClosed_def)

lemma markClosed_open:
  assumes "\<not> wc_closed s"
  shows "wc_startSettled (markClosed s)" "wc_pendingReturns (markClosed s) = []" "wc_questionParamCapGrants (markClosed s) = []"
    "wc_questionsWithResultCaps (markClosed s) = []" "wc_localBridge (markClosed s) = None"
    "map_of (wc_requests (markClosed s)) q = map_of (wc_requests (rejectAllPending clientClosed s)) q"
  using assms by (simp_all add: markClosed_def)

lemma markClosed_ok:
  assumes "clientOk s"
  shows "clientOk (markClosed s)"
proof (cases "wc_closed s")
  case True
  then show ?thesis using assms by (simp add: markClosed_def)
next
  case False
  have r: "clientOk (rejectAllPending clientClosed s)" using assms by (rule rejectAll_ok)
  have req: "map_of (wc_requests (markClosed s)) = map_of (wc_requests (rejectAllPending clientClosed s))"
    using markClosed_open(6) [OF False] by blast
  have "0 \<le> wc_maxOutstandingParamCapQuestions s" using assms by (simp add: clientOk_def grantsOk_def)
  then show ?thesis using r markClosed_open(1-5) [OF False] req
    by (auto simp: clientOk_def idsOk_def knownIds_def waitersOk_def requestsOk_def shutOk_def grantsOk_def localOk_def)
qed

lemma dropRequest_fields [simp]:
  "wc_nextQuestionId (dropRequest q s) = wc_nextQuestionId s"
  "wc_maxOutstandingParamCapQuestions (dropRequest q s) = wc_maxOutstandingParamCapQuestions s"
  "wc_closed (dropRequest q s) = wc_closed s"
  "wc_startSettled (dropRequest q s) = wc_startSettled s"
  "wc_pendingReturns (dropRequest q s) = wc_pendingReturns s"
  "wc_localBridge (dropRequest q s) = wc_localBridge s"
  "wc_questionsWithResultCaps (dropRequest q s) = wc_questionsWithResultCaps s"
  "wc_questionParamCapGrants (dropRequest q s) = wc_questionParamCapGrants s"
  "map_of (wc_requests (dropRequest q s)) = (map_of (wc_requests s))(q := None)"
  by (simp_all add: dropRequest_def delete_conv')

lemma dropRequest_ok: "clientOk s \<Longrightarrow> map_of (wc_pendingReturns s) q = None \<Longrightarrow> clientOk (dropRequest q s)"
  by (auto simp: client_defs split: if_splits)

lemma answer_ok: "clientOk s \<Longrightarrow> map_of (wc_pendingReturns s) q = None \<Longrightarrow> clientOk (snd (answer q result s))"
  by (simp add: answer_def dropRequest_ok)

lemma setRequestStage_ok:
  assumes "clientOk s" "\<And>result. lateResult stage = Some result \<Longrightarrow> map_of (wc_pendingReturns s) q = None \<and> (\<forall>c. result \<noteq> Inr (CallResult c))"
  shows "clientOk (setRequestStage q stage s)"
proof -
  have w: "waitersOk s" using assms(1) by (simp add: clientOk_def)
  have "requestOk p r" if at: "map_of (wc_requests (setRequestStage q stage s)) p = Some r" for p r
  proof (cases "p = q")
    case True
    then obtain r' where r': "map_of (wc_requests s) q = Some r'" "r = r'\<lparr>wr_stage := stage\<rparr>"
      using at by (auto simp: setRequestStage_def)
    then have "requestOk q r'" using assms(1) by (simp add: clientOk_def requestsOk_def)
    moreover have "wr_wait r' \<noteq> None" if "map_of (wc_pendingReturns s) q = None"
      using w that r'(1) by (auto simp: waitersOk_def waitsIn_def split: option.splits)
    ultimately show ?thesis using assms(2) r'(2) True by (auto simp: requestOk_def)
  next
    case False
    then show ?thesis using at assms(1) by (auto simp: setRequestStage_def clientOk_def requestsOk_def)
  qed
  moreover have "idsOk (setRequestStage q stage s)"
    using assms(1) by (auto simp: setRequestStage_def clientOk_def idsOk_def knownIds_def)
  moreover have "waitersOk (setRequestStage q stage s)"
    using assms(1) by (auto simp: setRequestStage_def clientOk_def waitersOk_def waitsIn_def split: option.splits)
  ultimately show ?thesis using assms(1)
    by (auto simp: setRequestStage_def clientOk_def requestsOk_def shutOk_def grantsOk_def localOk_def)
qed

lemma alloc_fields:
  assumes "allocQuestionId s = (Inr q, s')"
  shows "s' = s\<lparr>wc_nextQuestionId := jint (q + 1)\<rparr>" "wc_nextQuestionId s = jint q" "0 < q" "q \<le> 0xffffffff"
    "map_of (wc_questionParamCapGrants s) q = None" "map_of (wc_pendingReturns s) q = None"
  using assms by (auto simp: allocQuestionId_def Let_def isInteger_iff split: if_splits)

lemma alloc_error: "allocQuestionId s = (Inl e, s') \<Longrightarrow> s' = s"
  by (auto simp: allocQuestionId_def Let_def split: if_splits)

lemma alloc_fresh: "clientOk s \<Longrightarrow> allocQuestionId s = (Inr q, s') \<Longrightarrow> q \<notin> knownIds s"
  using alloc_fields(2) [of s q s'] by (fastforce simp: clientOk_def idsOk_def)

lemma alloc_ok:
  assumes "clientOk s" "allocQuestionId s = (Inr q, s')"
  shows "clientOk s'"
proof -
  note a = alloc_fields [OF assms(2)]
  have "knownIds s' = knownIds s" "wc_nextQuestionId s' = jint (q + 1)" by (simp_all add: a(1) knownIds_def)
  moreover have "0 < p \<and> p < q" if "p \<in> knownIds s" for p
    using assms(1) a(2) that by (auto simp: clientOk_def idsOk_def)
  ultimately have "idsOk s'" by (fastforce simp: idsOk_def)
  then show ?thesis using assms(1) a(1)
    by (simp add: clientOk_def waitersOk_def requestsOk_def shutOk_def grantsOk_def localOk_def)
qed

lemma recordGrants_none: "\<not> list_ex senderHosted ds \<Longrightarrow> recordGrants ds g = g"
  by (induction ds) auto

lemma length_fresh: "map_of al k = None \<Longrightarrow> length (AList.update k v al) = Suc (length al)"
  by (induction al) auto

lemma length_delete_less: "length (AList.delete k al) \<le> length al"
  by (simp add: AList.delete_eq)

lemma record_ok:
  assumes "clientOk s" "allocQuestionId s = (Inr q, s')"
    and "list_ex senderHosted (orElse caps []) \<Longrightarrow> paramCapsFull s = None" "\<not> wc_closed s"
  shows "clientOk (s'\<lparr>wc_questionParamCapGrants := recordParamCapGrants (wc_questionParamCapGrants s') q caps\<rparr>)"
proof (cases "recordGrants (orElse caps []) [] = []")
  case True
  then show ?thesis using alloc_ok [OF assms(1,2)] by (simp add: recordParamCapGrants_def)
next
  case False
  then have "list_ex senderHosted (orElse caps [])" using recordGrants_none by blast
  then have "int (length (wc_questionParamCapGrants s)) < wc_maxOutstandingParamCapQuestions s"
    using assms(3) by (simp add: paramCapsFull_def split: if_splits)
  moreover note a = alloc_fields [OF assms(2)]
  ultimately have "grantsOk (s'\<lparr>wc_questionParamCapGrants := recordParamCapGrants (wc_questionParamCapGrants s') q caps\<rparr>)"
    using False by (simp add: grantsOk_def recordParamCapGrants_def length_fresh)
  moreover have "idsOk (s'\<lparr>wc_questionParamCapGrants := recordParamCapGrants (wc_questionParamCapGrants s') q caps\<rparr>)"
    using alloc_ok [OF assms(1,2)] a(1,3) False
    by (auto simp: clientOk_def idsOk_def knownIds_def recordParamCapGrants_def update_conv)
  ultimately show ?thesis using alloc_ok [OF assms(1,2)] assms(4) a(1)
    by (auto simp: clientOk_def waitersOk_def requestsOk_def shutOk_def localOk_def)
qed

lemma waitForReturn_ok:
  assumes "clientOk s" "q < toInt (wc_nextQuestionId s)" "0 < q" "isInteger (wc_nextQuestionId s)" "\<not> wc_closed s"
    "map_of (wc_pendingReturns s) q = None"
  shows "clientOk (waitForReturn s q bootstrap frame options)"
  using assms by (auto simp: waitForReturn_def client_defs Let_def update_conv' requestOk_def split: if_splits)

lemma requestReturn_ok:
  assumes "clientOk s" "q < toInt (wc_nextQuestionId s)" "0 < q" "isInteger (wc_nextQuestionId s)" "\<not> wc_closed s"
  shows "clientOk (snd (requestReturn s q bootstrap frame options))"
  using assms waitForReturn_ok by (auto simp: requestReturn_def)

lemma notReady_open: "notReady s = None \<Longrightarrow> \<not> wc_closed s"
  by (auto simp: notReady_def split: if_splits)

lemma startBootstrap_ok:
  assumes "clientOk s"
  shows "clientOk (snd (startBootstrap s options))"
proof (cases "allocQuestionId s")
  case (Pair r s')
  show ?thesis
  proof (cases r)
    case (Inr q)
    note a = alloc_fields [OF Pair [unfolded Inr]]
    show ?thesis using requestReturn_ok [of s' q] alloc_ok [OF assms Pair [unfolded Inr]] a notReady_open [of s]
      by (auto simp: startBootstrap_def assms Pair Inr split: option.splits sum.splits)
  qed (use assms alloc_error [of s] Pair in \<open>auto simp: startBootstrap_def split: option.splits\<close>)
qed

lemma startCall_ok:
  assumes "clientOk s"
  shows "clientOk (snd (startCall s capability methodId params options))"
proof (cases "allocQuestionId s")
  case (Pair r s')
  show ?thesis
  proof (cases r)
    case (Inr q)
    note a = alloc_fields [OF Pair [unfolded Inr]]
    let ?s = "s'\<lparr>wc_questionParamCapGrants := recordParamCapGrants (wc_questionParamCapGrants s') q (co_paramsCapTable options)\<rparr>"
    have "clientOk (snd (requestReturn ?s q False frame options))"
      if "notReady s = None" "(if list_ex senderHosted (orElse (co_paramsCapTable options) []) then paramCapsFull s else None) = None" for frame
      using record_ok [OF assms Pair [unfolded Inr], of "co_paramsCapTable options"] notReady_open [OF that(1)] that(2) a
      by (intro requestReturn_ok) (auto split: if_splits)
    then show ?thesis using alloc_ok [OF assms Pair [unfolded Inr]]
      by (auto simp: startCall_def assms Pair Inr Let_def simp del: if_split split: option.splits sum.splits)
  qed (use assms alloc_error [of s] Pair in \<open>auto simp: startCall_def split: option.splits\<close>)
qed

lemma delete_grants_ok: "clientOk s \<Longrightarrow>
    clientOk (s\<lparr>wc_questionParamCapGrants := AList.delete q (wc_questionParamCapGrants s)\<rparr>)"
  using length_delete_less [of q "wc_questionParamCapGrants s"] by (auto simp: client_defs delete_conv' split: if_splits)

lemma sendFailed_ok: "clientOk s \<Longrightarrow> clientOk (snd (sendFailed q handoffStarted e s))"
  unfolding sendFailed_def Let_def by (intro answer_ok settle_ok) (auto simp: delete_grants_ok)

lemma handOff_ok: "clientOk s \<Longrightarrow> clientOk (snd (handOff q frame s))"
  by (auto simp: handOff_def sendFailed_ok intro: setRequestStage_ok)

lemma sendSettled_ok: "clientOk s \<Longrightarrow> clientOk (snd (sendSettled q failure s))"
  by (auto simp: sendSettled_def sendFailed_ok intro: setRequestStage_ok split: option.splits)

lemma settled_not_pending:
  "clientOk s \<Longrightarrow> map_of (wc_requests s) q = Some r \<Longrightarrow> wr_wait r \<noteq> None \<Longrightarrow> map_of (wc_pendingReturns s) q = None"
  using pending_request [of s q] by (cases "map_of (wc_pendingReturns s) q") auto

lemma bootstrapAnswer_kind: "bootstrapAnswer m \<noteq> Inr (CallResult c)"
  by (cases "extractBootstrapCapabilityIndex m") (simp_all add: bootstrapAnswer_def)

lemma waitSettled_ok:
  assumes "clientOk s" "map_of (wc_pendingReturns s) q = None"
  shows "clientOk (snd (waitSettled q request outcome s))"
  using assms bootstrapAnswer_kind
  by (auto simp: waitSettled_def Let_def intro!: setRequestStage_ok answer_ok split: sum.splits)

lemma finishQuestion_ok: "clientOk s \<Longrightarrow> clientOk (snd (finishQuestion q options s))"
  by (auto simp: finishQuestion_def client_defs Let_def split: option.splits)

lemma finishQuestion_fields [simp]:
  "wc_pendingReturns (snd (finishQuestion q options s)) = wc_pendingReturns s"
  "wc_requests (snd (finishQuestion q options s)) = wc_requests s"
  by (auto simp: finishQuestion_def Let_def split: option.splits)

lemma finishEnded_ok:
  "clientOk s \<Longrightarrow> map_of (wc_pendingReturns s) q = None \<Longrightarrow> clientOk (snd (finishEnded q bestEffort result failure s))"
  by (auto simp: finishEnded_def answer_ok split: option.splits)

lemma finishReady_ok:
  assumes "clientOk s" "map_of (wc_pendingReturns s) q = None" "\<forall>c. result \<noteq> Inr (CallResult c)"
  shows "clientOk (snd (finishReady q options bestEffort result s))"
proof -
  obtain r s' where f: "finishQuestion (jint q) options s = (r, s')" by fastforce
  then have "clientOk s'" "map_of (wc_pendingReturns s') q = None"
    using finishQuestion_ok [OF assms(1), of "jint q" options] finishQuestion_fields(1) [of "jint q" options s] assms(2) by simp_all
  then show ?thesis using assms(3) by (auto simp: finishReady_def f intro!: finishEnded_ok setRequestStage_ok split: sum.splits)
qed

section \<open>The local bridge\<close>

lemma onRegistry_Inl: "onRegistry b (Inl e) = (Inl e, b)"
  by (simp add: onRegistry_def)

lemma settleGrant_reachable:
  assumes "bridgeReachable options b"
  shows "bridgeReachable options (b\<lparr>sb_dispatchByCapability := settleGrant g (sb_dispatchByCapability b)\<rparr>)"
proof (cases g)
  case (Pair i n)
  show ?thesis
  proof (cases "releaseCapability (sb_dispatchByCapability b) i (jint n)")
    case (Inr r)
    then have "bridgeStep b (ReleaseCapability i (jint n)) =
        Some (Released (Inr (fst r)), b\<lparr>sb_dispatchByCapability := snd r\<rparr>)"
      by (cases r) (simp add: onRegistry_def)
    then have "bridgeReachable options (b\<lparr>sb_dispatchByCapability := snd r\<rparr>)"
      using bridgeReachable.stepped [OF assms] by blast
    then show ?thesis using Pair Inr by (cases r) (simp add: settleGrant_def)
  qed (use assms Pair in \<open>simp add: settleGrant_def\<close>)
qed

lemma settleGrants_reachable: "bridgeReachable options b \<Longrightarrow> bridgeReachable options (settleGrants grants b)"
proof (induction grants arbitrary: b)
  case (Cons g gs)
  show ?case using Cons.IH [OF settleGrant_reachable [OF Cons.prems, of g]] by (simp add: settleGrants_def)
qed (simp add: settleGrants_def)

lemma handleFrame_reachable: "bridgeReachable options b \<Longrightarrow> handleFrame b frame = (out, b') \<Longrightarrow> bridgeReachable options b'"
  using bridgeReachable.stepped [of options b "HandleFrame frame" out b'] by simp

lemma local_reachable: "clientOk s \<Longrightarrow> wc_localBridge s = Some b \<Longrightarrow> bridgeReachable localBridgeOptions b"
  by (simp add: clientOk_def localOk_def)

lemma setBridge_ok:
  "clientOk s \<Longrightarrow> wc_localBridge s = Some b0 \<Longrightarrow> bridgeReachable localBridgeOptions b \<Longrightarrow>
    clientOk (s\<lparr>wc_localBridge := Some b\<rparr>)"
  by (auto simp: client_defs)

lemma newBridge_ok:
  "clientOk s \<Longrightarrow> \<not> wc_closed s \<Longrightarrow> bridgeReachable localBridgeOptions b \<Longrightarrow> clientOk (s\<lparr>wc_localBridge := Some b\<rparr>)"
  by (auto simp: client_defs)

lemma replies_ok: "clientOk s \<Longrightarrow> clientOk (s\<lparr>wc_replies := n\<rparr>)"
  by (auto simp: client_defs)

lemma callbackFailed_ok: "clientOk s \<Longrightarrow> clientOk (callbackFailed s)"
  by (simp add: callbackFailed_def rejectAll_ok)

lemma bridgeReplied_ok: "clientOk s \<Longrightarrow> clientOk (snd (bridgeReplied out s))"
  by (auto simp: bridgeReplied_def callbackFailed_ok replies_ok split: bridge_output.splits sum.splits option.splits)

lemma settleParamCapGrants_ok:
  assumes "clientOk s"
  shows "clientOk (settleParamCapGrants q release s)"
proof -
  let ?s = "s\<lparr>wc_questionParamCapGrants := AList.delete q (wc_questionParamCapGrants s)\<rparr>"
  have ok: "clientOk ?s" using assms by (rule delete_grants_ok)
  show ?thesis
  proof (cases "wc_localBridge s")
    case (Some b)
    then have "bridgeReachable localBridgeOptions (settleGrants g b)" for g
      by (intro settleGrants_reachable local_reachable [OF assms])
    then show ?thesis using ok setBridge_ok [OF ok, of b] Some
      by (auto simp: settleParamCapGrants_def Let_def split: option.splits)
  qed (use ok in \<open>auto simp: settleParamCapGrants_def Let_def split: option.splits\<close>)
qed

lemma settleParamCapGrants_fields [simp]:
  "wc_nextQuestionId (settleParamCapGrants q release s) = wc_nextQuestionId s"
  "wc_pendingReturns (settleParamCapGrants q release s) = wc_pendingReturns s"
  "wc_requests (settleParamCapGrants q release s) = wc_requests s"
  "wc_closed (settleParamCapGrants q release s) = wc_closed s"
  "wc_startSettled (settleParamCapGrants q release s) = wc_startSettled s"
  "wc_startError (settleParamCapGrants q release s) = wc_startError s"
  "wc_questionsWithResultCaps (settleParamCapGrants q release s) = wc_questionsWithResultCaps s"
  "wc_questionParamCapGrants (settleParamCapGrants q release s) = AList.delete q (wc_questionParamCapGrants s)"
  by (auto simp: settleParamCapGrants_def Let_def split: option.splits)

lemma resultCaps_ok:
  "clientOk s \<Longrightarrow> map_of (wc_pendingReturns s) q \<noteq> None \<Longrightarrow>
    clientOk (s\<lparr>wc_questionsWithResultCaps := wc_questionsWithResultCaps s @ [q]\<rparr>)"
proof -
  assume a: "clientOk s" "map_of (wc_pendingReturns s) q \<noteq> None"
  then obtain r where "map_of (wc_requests s) q = Some r" using pending_request by blast
  then have "q \<in> knownIds s" by (auto simp: knownIds_def)
  then have "idsOk (s\<lparr>wc_questionsWithResultCaps := wc_questionsWithResultCaps s @ [q]\<rparr>)"
    using a(1) by (auto simp: clientOk_def idsOk_def knownIds_def)
  then show ?thesis using a by (auto simp: clientOk_def waitersOk_def requestsOk_def shutOk_def grantsOk_def localOk_def)
qed

lemma returnArrives_ok:
  assumes "clientOk s"
  shows "clientOk (returnArrives m s)"
  using settleParamCapGrants_ok [OF assms] resultCaps_ok [OF settleParamCapGrants_ok [OF assms]]
  by (auto simp: returnArrives_def Let_def intro!: settle_ok)

lemma onFrame_ok:
  assumes "clientOk s"
  shows "clientOk (snd (onFrame frame s))"
proof -
  have "clientOk (snd (bridgeReplied out (s\<lparr>wc_localBridge := Some b'\<rparr>)))"
    if "wc_localBridge s = Some b" "handleFrame b frame = (out, b')" for b b' out
    using handleFrame_reachable [OF local_reachable [OF assms that(1)] that(2)]
    by (intro bridgeReplied_ok setBridge_ok [OF assms that(1)])
  then show ?thesis using assms
    by (auto simp: onFrame_def returnArrives_ok rejectAll_ok split: sum.splits option.splits prod.splits if_splits)
qed

lemma exportLocal_ok:
  assumes "clientOk s"
  shows "clientOk (snd (exportLocal dispatch index n s))"
proof (cases "wc_closed s \<or> paramCapsFull s \<noteq> None")
  case True
  then show ?thesis using assms by (auto simp: exportLocal_def)
next
  case False
  let ?r = "case wc_localBridge s of Some b \<Rightarrow> Inr b | None \<Rightarrow> newRpcServerBridge localBridgeOptions"
  show ?thesis
  proof (cases ?r)
    case (Inr b)
    then have b: "bridgeReachable localBridgeOptions b"
      using assms bridgeReachable.created by (auto simp: clientOk_def localOk_def split: option.splits)
    obtain r b' where e: "exportCapability b dispatch index n = (r, b')" by fastforce
    then have "bridgeStep b (ExportCapability dispatch index n) = Some (Exported r, b')" by simp
    then have "bridgeReachable localBridgeOptions b'" using bridgeReachable.stepped [OF b] by blast
    then show ?thesis using False Inr e newBridge_ok [OF assms] by (auto simp: exportLocal_def split: sum.splits)
  qed (use False assms in \<open>auto simp: exportLocal_def\<close>)
qed

lemma releaseExported_ok:
  assumes "clientOk s"
  shows "clientOk (snd (releaseExportedCapability i n s))"
proof (cases "wc_localBridge s")
  case (Some b)
  obtain r b' where e: "onRegistry b (releaseCapability (sb_dispatchByCapability b) i n) = (r, b')" by fastforce
  then have "bridgeStep b (ReleaseCapability i n) = Some (Released r, b')" by simp
  then have "bridgeReachable localBridgeOptions b'"
    using bridgeReachable.stepped [OF local_reachable [OF assms Some]] by blast
  then show ?thesis using e Some assms setBridge_ok [OF assms Some]
    by (auto simp: releaseExportedCapability_def split: sum.splits)
qed (use assms in \<open>simp add: releaseExportedCapability_def\<close>)

section \<open>Steps\<close>

lemma continue_ok:
  assumes "clientOk s" "map_of (wc_requests s) q = Some r" "continueRequest q r s = Some (actions, s')"
  shows "clientOk s'"
proof -
  have rq: "requestOk q r" using assms(1,2) by (simp add: clientOk_def requestsOk_def)
  have np: "map_of (wc_pendingReturns s) q = None" if "wr_wait r \<noteq> None"
    using settled_not_pending [OF assms(1,2) that] .
  show ?thesis
  proof (cases "wr_stage r")
    case (HandingOff frame)
    then show ?thesis using assms(3) handOff_ok [OF assms(1), of q frame] by (simp add: continueRequest_def)
  next
    case Sending
    then show ?thesis using assms(3) sendFailed_ok [OF assms(1), of q True clientClosed]
      by (simp add: continueRequest_def split: if_splits)
  next
    case Waiting
    then obtain outcome where o: "wr_wait r = Some outcome" "waitSettled q r outcome s = (actions, s')"
      using assms(3) by (auto simp: continueRequest_def)
    then show ?thesis using waitSettled_ok [OF assms(1) np, of r outcome] by simp
  next
    case (FinishReady options best result)
    then have "wr_wait r \<noteq> None" "\<forall>c. result \<noteq> Inr (CallResult c)" using rq by (auto simp: requestOk_def)
    then show ?thesis using finishReady_ok [OF assms(1) np, of result options best] FinishReady assms(3)
      by (simp add: continueRequest_def)
  qed (use assms(3) in \<open>simp add: continueRequest_def\<close>)
qed

lemma finishSettled_ok:
  assumes "clientOk s" "map_of (wc_requests s) q = Some r" "wr_stage r = Finishing best result"
  shows "clientOk (snd (finishEnded q best result failure s))"
proof -
  have "requestOk q r" using assms(1,2) by (simp add: clientOk_def requestsOk_def)
  then have "wr_wait r \<noteq> None" using assms(3) by (auto simp: requestOk_def)
  then show ?thesis using finishEnded_ok [OF assms(1) settled_not_pending [OF assms(1,2)]] by blast
qed

lemma started_ok: "clientOk s \<Longrightarrow> clientOk (s\<lparr>wc_startSettled := True, wc_startError := e\<rparr>)"
  "clientOk s \<Longrightarrow> clientOk (s\<lparr>wc_startSettled := True\<rparr>)"
  by (auto simp: client_defs)

lemma sendOr_state [simp]: "snd (sendOr r s) = s"
  by (simp add: sendOr_def split: sum.splits)

lemma step_ok:
  assumes "clientOk s" "clientStep s event = Some (actions, s')"
  shows "clientOk s'"
proof (cases event)
  case (TransportStarted failure)
  then show ?thesis using assms started_ok [OF assms(1)] by (auto intro!: rejectAll_ok split: option.splits if_splits)
next
  case (DoBootstrap options)
  then show ?thesis using assms(2) startBootstrap_ok [OF assms(1), of options] by (auto simp: whenStarted_def split: if_splits)
next
  case (DoCall c m p options)
  then show ?thesis using assms(2) startCall_ok [OF assms(1), of c m p options] by (auto simp: whenStarted_def split: if_splits)
next
  case (DoFinish q options)
  obtain r s1 where f: "finishQuestion q options s = (r, s1)" by fastforce
  then have "clientOk s1" using finishQuestion_ok [OF assms(1), of q options] by simp
  moreover have "s' = s1" using assms(2) DoFinish f by (auto simp: whenStarted_def sendOr_def split: if_splits sum.splits)
  ultimately show ?thesis by simp
next
  case (DoRelease c n)
  then have "s' = s" using assms(2) by (auto simp: whenStarted_def sendOr_def split: if_splits sum.splits)
  then show ?thesis using assms(1) by simp
next
  case (DoExport d i n)
  then show ?thesis using assms(2) exportLocal_ok [OF assms(1), of d i n] by simp
next
  case (DoReleaseExported i n)
  then show ?thesis using assms(2) releaseExported_ok [OF assms(1), of i n] by simp
next
  case (FrameArrives frame)
  then show ?thesis using assms(2) onFrame_ok [OF assms(1), of frame] by simp
next
  case (Continue q)
  then show ?thesis using assms continue_ok by (auto split: option.splits)
next
  case (SendSettled q failure)
  then show ?thesis using assms sendSettled_ok [OF assms(1), of q failure] by (auto split: option.splits if_splits)
next
  case (FinishSettled q failure)
  then obtain r best result where "map_of (wc_requests s) q = Some r" "wr_stage r = Finishing best result"
      "s' = snd (finishEnded q best result failure s)"
    using assms(2) by (auto split: option.splits RequestStage.splits)
  then show ?thesis using finishSettled_ok [OF assms(1)] by simp
next
  case (WaitTimeout q)
  then show ?thesis using assms by (auto intro!: settle_ok split: option.splits)
next
  case (WaitAborted q)
  then show ?thesis using assms by (auto intro!: settle_ok split: option.splits if_splits)
next
  case (BridgeRuns e)
  then obtain b out b' where b: "wc_localBridge s = Some b" "bridgeStep b e = Some (out, b')"
      "s' = snd (bridgeReplied out (s\<lparr>wc_localBridge := Some b'\<rparr>))"
    using assms(2) by (auto split: option.splits if_splits)
  then have "bridgeReachable localBridgeOptions b'"
    using bridgeReachable.stepped [OF local_reachable [OF assms(1) b(1)]] by blast
  then show ?thesis using b(3) bridgeReplied_ok [OF setBridge_ok [OF assms(1) b(1)], of b' out] by simp
next
  case (ReplySettled failure)
  then show ?thesis using assms replies_ok callbackFailed_ok by (auto simp: Let_def split: if_splits)
next
  case CloseClient
  then show ?thesis using assms(2) markClosed_ok [OF assms(1)] by auto
qed

lemma reachable_client_ok: "clientReachable options s \<Longrightarrow> clientOk s"
  by (induction rule: clientReachable.induct) (auto intro: created_ok step_ok)

end
