(* ===== verification/Wire_Client_Runs.thy ===== *)
theory Wire_Client_Runs
  imports Wire_Client_State
begin

text \<open>
  What a step of the wire client does to its questions: which it asks, which it answers, and where the
  Return of an answer comes from; and the runs made of such steps.
\<close>

section \<open>Asked and answered\<close>

fun asked :: "client_action list \<Rightarrow> int list" where
  "asked [] = []"
| "asked (Asked q # actions) = q # asked actions"
| "asked (_ # actions) = asked actions"

fun answered :: "client_action list \<Rightarrow> int list" where
  "answered [] = []"
| "answered (Answered q _ # actions) = q # answered actions"
| "answered (_ # actions) = answered actions"

lemma asked_append [simp]: "asked (xs @ ys) = asked xs @ asked ys"
  by (induction xs rule: asked.induct) auto

lemma answered_append [simp]: "answered (xs @ ys) = answered xs @ answered ys"
  by (induction xs rule: answered.induct) auto

text \<open>The Returns that have settled a wait.\<close>

definition heard :: "'h RpcWireClient \<Rightarrow> (int \<times> RpcReturnMessage) set" where
  "heard s = {(q, m). \<exists>r. map_of (wc_requests s) q = Some r \<and> wr_wait r = Some (Inr m)}"

definition questions :: "'h RpcWireClient \<Rightarrow> int set" where
  "questions s = dom (map_of (wc_requests s))"

named_theorems question_view "the questions and Returns after an operation"

lemma heard_requests: "wc_requests s' = wc_requests s \<Longrightarrow> heard s' = heard s \<and> questions s' = questions s"
  by (simp add: heard_def questions_def)

lemma settle_view [question_view]:
  "heard (settleWaiter q (Inl e) s) \<subseteq> heard s"
  "heard (settleWaiter q (Inr m) s) \<subseteq> insert (q, m) (heard s)"
  "questions (settleWaiter q outcome s) = questions s"
  by (auto simp: heard_def questions_def split: if_splits)

lemma rejectAll_view [question_view]:
  "heard (rejectAllPending e s) \<subseteq> heard s" "questions (rejectAllPending e s) = questions s"
  by (auto simp: heard_def questions_def split: if_splits)

lemma drop_view [question_view]:
  "heard (dropRequest q s) \<subseteq> heard s" "questions (dropRequest q s) = questions s - {q}"
  by (auto simp: heard_def questions_def split: if_splits)

lemma stage_view [question_view]:
  "heard (setRequestStage q stage s) = heard s" "questions (setRequestStage q stage s) = questions s"
  by (auto simp: heard_def questions_def setRequestStage_def split: if_splits)

lemma wait_view [question_view]:
  "heard (waitForReturn s q bootstrap frame options) \<subseteq> heard s"
  "questions (waitForReturn s q bootstrap frame options) = insert q (questions s)"
  by (auto simp: heard_def questions_def waitForReturn_def Let_def update_conv' split: if_splits)

lemma stage_next [simp]: "wc_nextQuestionId (setRequestStage q stage s) = wc_nextQuestionId s"
  by (simp add: setRequestStage_def)

lemma wait_next [simp]: "wc_nextQuestionId (waitForReturn s q bootstrap frame options) = wc_nextQuestionId s"
  by (simp add: waitForReturn_def Let_def)

section \<open>Steps\<close>

text \<open>The messages \<open>M\<close> are those of Returns that arrive in the step.\<close>

definition advances ::
  "(int \<times> RpcReturnMessage) set \<Rightarrow> 'h RpcWireClient \<Rightarrow> client_action list \<Rightarrow> 'h RpcWireClient \<Rightarrow> bool" where
  "advances M s actions s' \<longleftrightarrow> heard s' \<subseteq> heard s \<union> M \<and>
     (asked actions = [] \<and> wc_nextQuestionId s' = wc_nextQuestionId s \<and> questions s' \<subseteq> questions s \<or>
      (\<exists>q. asked actions = [q] \<and> wc_nextQuestionId s = jint q \<and> wc_nextQuestionId s' = jint (q + 1)
         \<and> questions s' \<subseteq> insert q (questions s))) \<and>
     (answered actions = [] \<or>
      (\<exists>q. answered actions = [q] \<and> q \<in> questions s \<union> set (asked actions) \<and> q \<notin> questions s')) \<and>
     (\<forall>q r. Answered q (Inr (CallResult r)) \<in> set actions \<longrightarrow> (\<exists>m. (q, m) \<in> heard s \<and> toRpcCallResult m = Inr r))"

text \<open>A step that neither asks nor answers.\<close>

lemma advances_quiet:
  "heard s' \<subseteq> heard s \<union> M \<Longrightarrow> questions s' \<subseteq> questions s \<Longrightarrow> wc_nextQuestionId s' = wc_nextQuestionId s \<Longrightarrow>
    asked actions = [] \<Longrightarrow> answered actions = [] \<Longrightarrow> (\<And>q r. Answered q r \<notin> set actions) \<Longrightarrow> advances M s actions s'"
  by (simp add: advances_def)

lemma advances_answer:
  assumes "q \<in> questions s" "heard s1 \<subseteq> heard s" "questions s1 \<subseteq> questions s" "wc_nextQuestionId s1 = wc_nextQuestionId s"
    and "\<And>c. result = Inr (CallResult c) \<Longrightarrow> \<exists>m. (q, m) \<in> heard s \<and> toRpcCallResult m = Inr c"
  shows "advances M s [Answered q result] (dropRequest q s1)"
proof -
  have "heard (dropRequest q s1) \<subseteq> heard s" using assms(2) drop_view(1) [of q s1] by blast
  then show ?thesis using assms by (auto simp: advances_def question_view)
qed

lemma advances_start:
  assumes "clientOk s" "allocQuestionId s = (Inr q, s1)" "wc_requests s2 = wc_requests s1" "wc_nextQuestionId s2 = wc_nextQuestionId s1"
  shows "advances M s (Asked q # fst (requestReturn s2 q bootstrap frame options)) (snd (requestReturn s2 q bootstrap frame options))"
    and "advances M s [Asked q, Answered q (Inl e)] s1"
proof -
  note a = alloc_fields [OF assms(2)]
  have same: "heard s1 = heard s" "questions s1 = questions s" "heard s2 = heard s" "questions s2 = questions s"
    using assms(3) a(1) by (auto simp: heard_def questions_def)
  have fresh: "q \<notin> questions s" using alloc_fresh [OF assms(1,2)] by (auto simp: knownIds_def questions_def)
  show "advances M s [Asked q, Answered q (Inl e)] s1"
    using same fresh a(1,2) by (auto simp: advances_def)
  have "heard (s2\<lparr>wc_questionParamCapGrants := g\<rparr>) = heard s2" "questions (s2\<lparr>wc_questionParamCapGrants := g\<rparr>) = questions s2" for g
    by (simp_all add: heard_def questions_def)
  then show "advances M s (Asked q # fst (requestReturn s2 q bootstrap frame options)) (snd (requestReturn s2 q bootstrap frame options))"
    using same fresh a(1,2) assms(4) wait_view [of s2 q bootstrap frame options]
    by (auto simp: requestReturn_def advances_def)
qed

lemma sendFailed_advances:
  assumes "q \<in> questions s"
  shows "advances M s (fst (sendFailed q handoff e s)) (snd (sendFailed q handoff e s))"
proof -
  let ?s = "if handoff then s else s\<lparr>wc_questionParamCapGrants := AList.delete q (wc_questionParamCapGrants s)\<rparr>"
  have "heard ?s = heard s" "questions ?s = questions s" by (simp_all add: heard_def questions_def)
  then show ?thesis using assms settle_view(1) [of q e ?s] settle_view(3) [of q "Inl e" ?s]
    unfolding sendFailed_def Let_def answer_def by (auto intro!: advances_answer split: if_splits)
qed

lemma continue_advances:
  assumes "clientOk s" "map_of (wc_requests s) q = Some r" "continueRequest q r s = Some (actions, s')"
  shows "advances M s actions s'"
proof -
  have q: "q \<in> questions s" using assms(2) by (auto simp: questions_def)
  have rq: "requestOk q r" using assms(1,2) by (simp add: clientOk_def requestsOk_def)
  show ?thesis
  proof (cases "wr_stage r")
    case (HandingOff frame)
    then show ?thesis using assms(3) sendFailed_advances [OF q, of M False clientClosed]
      by (auto simp: continueRequest_def handOff_def question_view intro!: advances_quiet split: if_splits)
  next
    case Sending
    then show ?thesis using assms(3) sendFailed_advances [OF q, of M True clientClosed]
      by (auto simp: continueRequest_def split: if_splits)
  next
    case Waiting
    then obtain outcome where o: "wr_wait r = Some outcome" "waitSettled q r outcome s = (actions, s')"
      using assms(3) by (auto simp: continueRequest_def)
    then have "\<exists>m'. (q, m') \<in> heard s \<and> toRpcCallResult m' = Inr c"
      if "outcome = Inr m" "bindE (toRpcCallResult m) (\<lambda>r. Inr (CallResult r)) = Inr (CallResult c)" for m c
      using that assms(2) by (auto simp: heard_def bindE_eq_Inr)
    then show ?thesis using o(2) q bootstrapAnswer_kind
      by (auto simp: waitSettled_def Let_def answer_def question_view intro!: advances_quiet advances_answer split: sum.splits if_splits)
  next
    case (FinishReady options best result)
    obtain r1 s1 where f: "finishQuestion (jint q) options s = (r1, s1)" by fastforce
    have "wc_requests s1 = wc_requests s" "wc_nextQuestionId s1 = wc_nextQuestionId s"
      using f by (auto simp: finishQuestion_def Let_def split: option.splits)
    moreover have "\<forall>c. result \<noteq> Inr (CallResult c)" using rq FinishReady by (auto simp: requestOk_def)
    ultimately show ?thesis using FinishReady assms(3) q heard_requests [of s1 s]
      by (auto simp: continueRequest_def finishReady_def f finishEnded_def answer_def question_view
          intro!: advances_quiet advances_answer split: sum.splits if_splits)
  qed (use assms(3) in \<open>simp add: continueRequest_def\<close>)
qed

lemma finishEnded_advances:
  assumes "clientOk s" "map_of (wc_requests s) q = Some r" "wr_stage r = Finishing best result"
  shows "advances M s (fst (finishEnded q best result failure s)) (snd (finishEnded q best result failure s))"
proof -
  have "requestOk q r" using assms(1,2) by (simp add: clientOk_def requestsOk_def)
  then have "\<forall>c. result \<noteq> Inr (CallResult c)" using assms(3) by (auto simp: requestOk_def)
  moreover have "q \<in> questions s" using assms(2) by (auto simp: questions_def)
  ultimately show ?thesis by (auto simp: finishEnded_def answer_def intro!: advances_answer split: option.splits)
qed

lemma returnArrives_view:
  "heard (returnArrives m s) \<subseteq> insert (answerIdOf m, m) (heard s)" "questions (returnArrives m s) = questions s"
  "wc_nextQuestionId (returnArrives m s) = wc_nextQuestionId s"
proof -
  have keep: "heard (s'\<lparr>wc_questionsWithResultCaps := l\<rparr>) = heard s'" "questions (s'\<lparr>wc_questionsWithResultCaps := l\<rparr>) = questions s'"
    for s' :: "'a RpcWireClient" and l by (simp_all add: heard_def questions_def)
  have settle: "heard (settleParamCapGrants q release s) = heard s" "questions (settleParamCapGrants q release s) = questions s"
    for q release by (simp_all add: heard_def questions_def)
  show "heard (returnArrives m s) \<subseteq> insert (answerIdOf m, m) (heard s)" "questions (returnArrives m s) = questions s"
    "wc_nextQuestionId (returnArrives m s) = wc_nextQuestionId s"
    by (auto simp: returnArrives_def Let_def keep settle settle_view(3) dest: settle_view(2) [THEN subsetD] split: if_splits)
qed

lemma bridgeReplied_advances: "advances M s (fst (bridgeReplied out s)) (snd (bridgeReplied out s))"
proof -
  have "heard (s\<lparr>wc_replies := n\<rparr>) = heard s" "questions (s\<lparr>wc_replies := n\<rparr>) = questions s" for n
    by (simp_all add: heard_def questions_def)
  then show ?thesis
    by (auto simp: bridgeReplied_def callbackFailed_def rejectAll_view(2) intro!: advances_quiet
        dest: rejectAll_view(1) [THEN subsetD] split: bridge_output.splits sum.splits option.splits)
qed

lemma advances_local: "advances M (s\<lparr>wc_localBridge := b\<rparr>) actions s' = advances M s actions s'"
  by (simp add: advances_def heard_def questions_def)

text \<open>The Returns of an event.\<close>

fun returnsOf :: "'h client_event \<Rightarrow> (int \<times> RpcReturnMessage) set" where
  "returnsOf (FrameArrives frame) = {(answerIdOf m, m) |m. decodeReturnFrame frame = Inr m}"
| "returnsOf _ = {}"

lemma onFrame_advances:
  "advances {(answerIdOf m, m) |m. decodeReturnFrame frame = Inr m} s (fst (onFrame frame s)) (snd (onFrame frame s))"
proof -
  have "advances {(answerIdOf m, m) |m. decodeReturnFrame frame = Inr m} s [] (returnArrives m s)"
    if "decodeReturnFrame frame = Inr m" for m
    using returnArrives_view [of m s] that by (auto intro!: advances_quiet)
  moreover have "advances M s [] (rejectAllPending e s)" for M e
    using rejectAll_view [of e s] by (auto intro!: advances_quiet)
  moreover have "advances M s [] s" "advances M s [UnexpectedFrame frame tag] s" for M tag
    by (auto intro!: advances_quiet)
  moreover have "advances M s (fst (bridgeReplied out (s\<lparr>wc_localBridge := b\<rparr>))) (snd (bridgeReplied out (s\<lparr>wc_localBridge := b\<rparr>)))"
    for M out b using bridgeReplied_advances [of M "s\<lparr>wc_localBridge := b\<rparr>" out] by (simp add: advances_local)
  ultimately show ?thesis by (auto simp: onFrame_def split: sum.splits option.splits prod.splits if_splits)
qed

lemma start_advances:
  assumes "clientOk s"
  shows "advances M s (fst (startBootstrap s options)) (snd (startBootstrap s options))"
    and "advances M s (fst (startCall s capability methodId params options)) (snd (startCall s capability methodId params options))"
proof -
  have refused: "advances M s [Refused e] s" for e by (auto intro!: advances_quiet)
  obtain r s1 where alloc: "allocQuestionId s = (r, s1)" by fastforce
  have "advances M s (fst (startBootstrap s options)) (snd (startBootstrap s options)) \<and>
    advances M s (fst (startCall s capability methodId params options)) (snd (startCall s capability methodId params options))"
  proof (cases r)
    case (Inl e)
    then show ?thesis using refused alloc alloc_error [of s e s1]
      by (auto simp: startBootstrap_def startCall_def split: option.splits)
  next
    case (Inr q)
    note st = advances_start [OF assms alloc [unfolded Inr]]
    show ?thesis using refused alloc Inr st(1) [OF refl refl] st(2)
      by (auto simp: startBootstrap_def startCall_def Let_def intro!: st(1) split: option.splits sum.splits)
  qed
  then show "advances M s (fst (startBootstrap s options)) (snd (startBootstrap s options))"
    "advances M s (fst (startCall s capability methodId params options)) (snd (startCall s capability methodId params options))" by auto
qed

lemma sendOr_advances: "wc_requests s' = wc_requests s \<Longrightarrow> wc_nextQuestionId s' = wc_nextQuestionId s \<Longrightarrow>
    advances M s (fst (sendOr r s')) (snd (sendOr r s'))"
  using heard_requests [of s' s] by (auto simp: sendOr_def intro!: advances_quiet split: sum.splits)

lemma sendSettled_advances: "q \<in> questions s \<Longrightarrow> advances M s (fst (sendSettled q failure s)) (snd (sendSettled q failure s))"
  using sendFailed_advances [of q s M True] by (auto simp: sendSettled_def question_view intro!: advances_quiet split: option.splits)

lemma exports_quiet:
  "advances M s (fst (exportLocal dispatch index n s)) (snd (exportLocal dispatch index n s))"
  "advances M s (fst (releaseExportedCapability i n' s)) (snd (releaseExportedCapability i n' s))"
proof -
  have "heard (s\<lparr>wc_localBridge := b\<rparr>) = heard s" "questions (s\<lparr>wc_localBridge := b\<rparr>) = questions s" for b
    by (simp_all add: heard_def questions_def)
  then show "advances M s (fst (exportLocal dispatch index n s)) (snd (exportLocal dispatch index n s))"
    "advances M s (fst (releaseExportedCapability i n' s)) (snd (releaseExportedCapability i n' s))"
    by (auto simp: exportLocal_def releaseExportedCapability_def intro!: advances_quiet split: option.splits sum.splits prod.splits)
qed

lemma markClosed_view: "heard (markClosed s) \<subseteq> heard s" "questions (markClosed s) = questions s"
  by (auto simp: markClosed_def heard_def questions_def split: if_splits)

lemma step_advances:
  assumes "clientOk s" "clientStep s event = Some (actions, s')"
  shows "advances (returnsOf event) s actions s'"
proof (cases event)
  case (TransportStarted failure)
  have "heard (s\<lparr>wc_startSettled := True, wc_startError := e\<rparr>) = heard s" "heard (s\<lparr>wc_startSettled := True\<rparr>) = heard s"
      "questions (s\<lparr>wc_startSettled := True, wc_startError := e\<rparr>) = questions s" "questions (s\<lparr>wc_startSettled := True\<rparr>) = questions s" for e
    by (simp_all add: heard_def questions_def)
  then show ?thesis using assms(2) TransportStarted
    by (auto simp: rejectAll_view(2) intro!: advances_quiet dest!: rejectAll_view(1) [THEN subsetD] split: option.splits if_splits)
next
  case (DoBootstrap options)
  then show ?thesis using assms(2) start_advances(1) [OF assms(1), of "{}" options] by (auto simp: whenStarted_def split: if_splits)
next
  case (DoCall c m p options)
  then show ?thesis using assms(2) start_advances(2) [OF assms(1), of "{}" c m p options] by (auto simp: whenStarted_def split: if_splits)
next
  case (DoFinish q options)
  obtain r s1 where f: "finishQuestion q options s = (r, s1)" by fastforce
  then have "wc_requests s1 = wc_requests s" "wc_nextQuestionId s1 = wc_nextQuestionId s"
    by (auto simp: finishQuestion_def Let_def split: option.splits)
  from sendOr_advances [OF this, of "{}" r] have "advances {} s (fst (sendOr r s1)) (snd (sendOr r s1))" .
  moreover have "sendOr r s1 = (actions, s')" using assms(2) DoFinish f by (auto simp: whenStarted_def split: if_splits)
  ultimately show ?thesis using DoFinish by (simp del: sendOr_state)
next
  case (DoRelease c n)
  then have "sendOr (releaseFrame c n s) s = (actions, s')" using assms(2) by (simp add: whenStarted_def split: if_splits)
  then show ?thesis using sendOr_advances [of s s "{}" "releaseFrame c n s"] DoRelease by (simp del: sendOr_state)
next
  case (DoExport d i n)
  then show ?thesis using assms(2) exports_quiet(1) [of "{}" s d i n] by auto
next
  case (DoReleaseExported i n)
  then show ?thesis using assms(2) exports_quiet(2) [of "{}" s i n] by auto
next
  case (FrameArrives frame)
  then show ?thesis using assms(2) onFrame_advances [of frame s] by auto
next
  case (Continue q)
  then show ?thesis using assms continue_advances by (auto split: option.splits)
next
  case (SendSettled q failure)
  then have "q \<in> questions s" using assms(2) by (auto simp: questions_def split: option.splits)
  then show ?thesis using assms SendSettled sendSettled_advances [of q s "{}" failure] by (auto split: option.splits if_splits)
next
  case (FinishSettled q failure)
  then obtain r best result where "map_of (wc_requests s) q = Some r" "wr_stage r = Finishing best result"
      "(actions, s') = finishEnded q best result failure s"
    using assms(2) by (auto split: option.splits RequestStage.splits)
  then show ?thesis using finishEnded_advances [OF assms(1), of q r best result "{}" failure] FinishSettled by (metis fst_conv snd_conv returnsOf.simps(11))
next
  case (WaitTimeout q)
  then show ?thesis using assms
    by (auto simp: settle_view(3) intro!: advances_quiet dest!: settle_view(1) [THEN subsetD] split: option.splits)
next
  case (WaitAborted q)
  then show ?thesis using assms
    by (auto simp: settle_view(3) intro!: advances_quiet dest!: settle_view(1) [THEN subsetD] split: option.splits if_splits)
next
  case (BridgeRuns e)
  then obtain out b' where "bridgeReplied out (s\<lparr>wc_localBridge := Some b'\<rparr>) = (actions, s')"
    using assms(2) by (auto split: option.splits if_splits)
  then show ?thesis using bridgeReplied_advances [of "{}" "s\<lparr>wc_localBridge := Some b'\<rparr>" out] BridgeRuns
    by (simp add: advances_local)
next
  case (ReplySettled failure)
  have "heard (s\<lparr>wc_replies := n\<rparr>) = heard s" "questions (s\<lparr>wc_replies := n\<rparr>) = questions s" for n
    by (simp_all add: heard_def questions_def)
  then show ?thesis using assms(2) ReplySettled
    by (auto simp: callbackFailed_def Let_def rejectAll_view(2) intro!: advances_quiet
        dest!: rejectAll_view(1) [THEN subsetD] split: if_splits)
next
  case CloseClient
  then show ?thesis using assms(2) markClosed_view [of s] by (auto intro!: advances_quiet)
qed

section \<open>Runs\<close>

definition notAsked :: "'h RpcWireClient \<Rightarrow> int \<Rightarrow> bool" where
  "notAsked s q \<longleftrightarrow> (\<exists>n. wc_nextQuestionId s = jint n \<and> n \<le> q)"

text \<open>What a run does: it asks new ids, and answers each of its questions at most once.\<close>

lemma run_questions:
  assumes "clientOk s" "clientRun s events = Some (actions, s')"
  shows "(\<forall>q \<in> set (asked actions). notAsked s q) \<and> distinct (asked actions) \<and>
    (\<forall>q \<in> set (answered actions). q \<in> questions s \<or> q \<in> set (asked actions)) \<and> distinct (answered actions)"
  using assms
proof (induction events arbitrary: s actions)
  case (Cons event events)
  obtain acts s1 rest where st: "clientStep s event = Some (acts, s1)" "clientRun s1 events = Some (rest, s')" "actions = acts @ rest"
    using Cons.prems(2) by (auto split: option.splits)
  have adv: "advances (returnsOf event) s acts s1" using step_advances [OF Cons.prems(1) st(1)] .
  have ok1: "clientOk s1" using step_ok [OF Cons.prems(1) st(1)] .
  from Cons.IH [OF ok1 st(2)]
  have ih: "\<And>q. q \<in> set (asked rest) \<Longrightarrow> notAsked s1 q" "distinct (asked rest)"
      "\<And>q. q \<in> set (answered rest) \<Longrightarrow> q \<in> questions s1 \<or> q \<in> set (asked rest)" "distinct (answered rest)" by blast+
  have known: "\<not> notAsked s q" if "q \<in> questions s" for q
  proof -
    have "q \<in> knownIds s" using that by (auto simp: knownIds_def questions_def)
    then have "q < toInt (wc_nextQuestionId s)" using Cons.prems(1) by (simp add: clientOk_def idsOk_def)
    then show ?thesis by (auto simp: notAsked_def)
  qed
  have grow: "notAsked s q" "q \<notin> set (asked acts)" if "notAsked s1 q" for q
    using adv that by (auto simp: advances_def notAsked_def)
  have new: "notAsked s q" "\<not> notAsked s1 q" if "q \<in> set (asked acts)" for q
    using adv that by (auto simp: advances_def notAsked_def)
  have "distinct (answered acts)" using adv by (auto simp: advances_def)
  moreover have "q \<notin> set (answered rest)" "q \<in> questions s \<or> q \<in> set (asked acts)" if "q \<in> set (answered acts)" for q
  proof -
    have q: "q \<in> questions s \<union> set (asked acts)" "q \<notin> questions s1"
      using adv that by (auto simp: advances_def)
    then have "\<not> notAsked s1 q" using known new(2) grow(1) by blast
    then show "q \<notin> set (answered rest)" using ih(1,3) q(2) by blast
    show "q \<in> questions s \<or> q \<in> set (asked acts)" using q(1) by blast
  qed
  moreover have "questions s1 \<subseteq> questions s \<union> set (asked acts)" using adv by (auto simp: advances_def)
  moreover have "distinct (asked acts)" using adv by (auto simp: advances_def)
  ultimately show ?case using ih st(3) grow new known by auto blast+
qed simp

text \<open>The Return an answer comes from has arrived in the run, for the question it answers.\<close>

lemma run_results:
  assumes "clientOk s" "clientRun s events = Some (actions, s')" "Answered q (Inr (CallResult r)) \<in> set actions"
  shows "\<exists>m. toRpcCallResult m = Inr r \<and> answerIdOf m = q \<and>
    ((q, m) \<in> heard s \<or> (\<exists>frame. FrameArrives frame \<in> set events \<and> decodeReturnFrame frame = Inr m))"
  using assms
proof (induction events arbitrary: s actions)
  case (Cons event events)
  obtain acts s1 rest where st: "clientStep s event = Some (acts, s1)" "clientRun s1 events = Some (rest, s')" "actions = acts @ rest"
    using Cons.prems(2) by (auto split: option.splits)
  have adv: "advances (returnsOf event) s acts s1" using step_advances [OF Cons.prems(1) st(1)] .
  have ok1: "clientOk s1" using step_ok [OF Cons.prems(1) st(1)] .
  show ?case
  proof (cases "Answered q (Inr (CallResult r)) \<in> set acts")
    case True
    then obtain m where m: "(q, m) \<in> heard s" "toRpcCallResult m = Inr r" using adv unfolding advances_def by blast
    then have "answerIdOf m = q"
      using Cons.prems(1) by (auto simp: heard_def clientOk_def requestsOk_def requestOk_def)
    then show ?thesis using m by blast
  next
    case False
    then have "Answered q (Inr (CallResult r)) \<in> set rest" using Cons.prems(3) st(3) by auto
    from Cons.IH [OF ok1 st(2) this] obtain m where m: "toRpcCallResult m = Inr r" "answerIdOf m = q"
        "(q, m) \<in> heard s1 \<or> (\<exists>frame. FrameArrives frame \<in> set events \<and> decodeReturnFrame frame = Inr m)" by blast
    have "heard s1 \<subseteq> heard s \<union> returnsOf event" using adv by (simp add: advances_def)
    then have "(q, m) \<in> heard s \<or> (\<exists>frame. FrameArrives frame \<in> set (event # events) \<and> decodeReturnFrame frame = Inr m)"
      using m(3) by (cases event) auto
    then show ?thesis using m by blast
  qed
qed simp

end
