(* ===== verification/Client_Properties.thy ===== *)
theory Client_Properties
  imports Wire_Client_Runs Server_Path Server_Samples Value_Samples
begin

text \<open>
  Properties of the wire client, and of a client and a server bridge together.
\<close>

section \<open>A call from end to end\<close>

text \<open>The client can ask: what \<open>callRaw\<close> checks before it sends.\<close>

definition canAsk :: "'h RpcWireClient \<Rightarrow> RpcClientCallOptions \<Rightarrow> bool" where
  "canAsk c options \<longleftrightarrow> wc_startSettled c \<and> notReady c = None \<and>
     (list_ex senderHosted (orElse (co_paramsCapTable options) []) \<longrightarrow> paramCapsFull c = None) \<and>
     co_signal options \<noteq> Some True"

lemma startCall_asks:
  assumes "canAsk c options" "allocQuestionId c = (Inr q, c1)"
    and "(case co_interfaceId options of None \<Rightarrow> wc_interfaceId c | Some i \<Rightarrow> Some i) = Some interfaceId"
    and "encodeCallRequestFrame (callRequestOf q interfaceId capability methodId params options) = Inr frame"
  shows "clientRun c [DoCall capability methodId params options, Continue q] =
    Some ([Asked q, SendFrame frame], setRequestStage q Sending (waitForReturn
      (c1\<lparr>wc_questionParamCapGrants := recordParamCapGrants (wc_questionParamCapGrants c1) q (co_paramsCapTable options)\<rparr>)
      q False frame options))"
proof -
  note a = alloc_fields [OF assms(2)]
  have o: "\<not> wc_closed c" using assms(1) notReady_open by (auto simp: canAsk_def)
  define w where "w = waitForReturn
    (c1\<lparr>wc_questionParamCapGrants := recordParamCapGrants (wc_questionParamCapGrants c1) q (co_paramsCapTable options)\<rparr>) q False frame options"
  have "\<not> wc_closed w" "map_of (wc_requests w) q =
      Some \<lparr>wr_bootstrap = False, wr_options = options, wr_stage = HandingOff frame, wr_wait = None\<rparr>"
    using assms(1) o a(1) by (simp_all add: w_def waitForReturn_def canAsk_def update_conv')
  then have "clientStep w (Continue q) = Some ([SendFrame frame], setRequestStage q Sending w)"
    by (simp add: continueRequest_def handOff_def)
  moreover have "clientStep c (DoCall capability methodId params options) = Some ([Asked q], w)"
    using assms a(1,6) o by (simp add: canAsk_def whenStarted_def startCall_def requestReturn_def Let_def w_def)
  ultimately show ?thesis by (simp add: w_def [symmetric] del: clientStep.simps)
qed

text \<open>The Return of a waiting question is its answer.\<close>

lemma return_answers:
  assumes "map_of (wc_requests c) q = Some r" "wr_stage r = Sending" "wr_wait r = None" "\<not> wr_bootstrap r"
    and "map_of (wc_pendingReturns c) q \<noteq> None" "\<not> wc_closed c"
    and "decodeReturnFrame reply = Inr m" "answerIdOf m = q"
  shows "\<exists>c'. clientRun c [SendSettled q None, FrameArrives reply, Continue q] =
    Some ([Answered q (bindE (toRpcCallResult m) (\<lambda>x. Inr (CallResult x)))], c')"
proof -
  let ?c = "setRequestStage q Waiting c"
  have "onFrame reply ?c = ([], returnArrives m ?c)"
    using assms(7) by (simp add: onFrame_def decoder_tags)
  moreover obtain w where "map_of (wc_pendingReturns c) q = Some w" using assms(5) by blast
  then have "map_of (wc_requests (returnArrives m ?c)) q = Some (endWait (Inr m) (r\<lparr>wr_stage := Waiting\<rparr>))"
    using assms(1,8) by (simp add: returnArrives_def Let_def setRequestStage_def)
  moreover have "wr_stage (endWait (Inr m) (r\<lparr>wr_stage := Waiting\<rparr>)) = Waiting" by simp
  ultimately show ?thesis
    using assms(1-6) by (simp add: sendSettled_def continueRequest_def waitSettled_def Let_def answer_def)
qed

text \<open>C1: A call goes from the caller to the handler and its response back. A client that can ask and a
  bridge that has room for the question and exports the capability: \<open>callRaw\<close> sends a frame, the
  bridge starts the handler of the capability on parameters that read the value the caller sent,
  and when the handler settles, the frame the bridge replies with settles the caller's promise with
  the capabilities and flags of the response and a content that reads the value the handler gave.\<close>

theorem call_end_to_end:
  assumes "canAsk client options" "allocQuestionId client = (Inr q, client1)" "co_target options = None"
    and "(case co_interfaceId options of None \<Rightarrow> wc_interfaceId client | Some j \<Rightarrow> Some j) = Some interfaceId"
    and "validRequest (callRequestOf q interfaceId (jint i) methodId params options) v"
    and "map_of (sb_dispatchByCapability server) i = Some rd" "accepts (rd_dispatch rd) interfaceId" "sb_middleware server = []"
    and "\<And>frame. encodeCallRequestFrame (callRequestOf q interfaceId (jint i) methodId params options) = Inr frame \<Longrightarrow>
      admits server q (int (length frame))"
    and "contactsFit (orElse (rs_capTable response) [])" "length (capTableWords 0 (orElse (rs_capTable response) [])) < 2 ^ 26"
    and "contentFits (rs_content response) w"
  shows "\<exists>frame client2 server2 call args r1 reply server3 client3 content r2.
    clientRun client [DoCall (jint i) methodId params options, Continue q] = Some ([Asked q, SendFrame frame], client2) \<and>
    handleFrame server frame = (Suspended, server2) \<and>
    map_of (sb_pending server2) (sb_nextEntry server) = Some (AwaitHandler call i (sd_handler (rd_dispatch rd)) args None) \<and>
    newMessageReader args = Inr r1 \<and> reads r1 0 0 v \<and>
    bridgeStep server2 (HandlerSettled (sb_nextEntry server) (Inr response) retain) = Some (Replied (Inr (Some reply)), server3) \<and>
    clientRun client2 [SendSettled q None, FrameArrives reply, Continue q] =
      Some ([Answered q (Inr (CallResult \<lparr>cs_answerId = q, cs_contentBytes = content,
          cs_capTable = map (copyRpcCapDescriptor \<circ> decodedCap) (orElse (rs_capTable response) []),
          cs_releaseParamCaps = orElse (rs_releaseParamCaps response) (\<not> retain),
          cs_noFinishNeeded = orElse (rs_noFinishNeeded response) False\<rparr>))], client3) \<and>
    newMessageReader content = Inr r2 \<and> reads r2 0 0 w"
proof -
  let ?request = "callRequestOf q interfaceId (jint i) methodId params options"
  have parts: "toInt (cf_questionId ?request) = q" "cf_interfaceId ?request = interfaceId"
      "requestTarget ?request = ImportedCap (jint i)"
    using assms(3) by (simp_all add: callRequestOf_def requestTarget_def)
  obtain frame server2 args r1 where sent: "encodeCallRequestFrame ?request = Inr frame" "handleFrame server frame = (Suspended, server2)"
      "map_of (sb_answerTable server2) q = Some (sb_nextEntry server)"
      "map_of (sb_pending server2) (sb_nextEntry server) =
        Some (AwaitHandler (decodedCall ?request args) i (sd_handler (rd_dispatch rd)) args None)"
      "newMessageReader args = Inr r1" "reads r1 0 0 v" "sb_middleware server2 = []" "\<not> ae_finished (sb_entries server2 (sb_nextEntry server))"
    using call_started [OF assms(5) parts(3) assms(6)] assms(7-9) parts(1,2) by auto
  note a = alloc_fields [OF assms(2)]
  have id: "cr_questionId (decodedCall ?request args) = q" by (simp add: decodedCall_def parts(1))
  obtain reply server3 content r2 where gave: "bridgeStep server2 (HandlerSettled (sb_nextEntry server) (Inr response) retain) =
        Some (Replied (Inr (Some reply)), server3)"
      "decodeReturnFrame reply = Inr (ReturnResults q content (map decodedCap (orElse (rs_capTable response) []))
        \<lparr>fl_releaseParamCaps = orElse (rs_releaseParamCaps response) (\<not> retain),
         fl_noFinishNeeded = orElse (rs_noFinishNeeded response) False\<rparr>)"
      "newMessageReader content = Inr r2" "reads r2 0 0 w"
    using handler_settled [OF sent(4), unfolded id, OF sent(3,8,7) _ _ assms(10-12), of retain] a(3,4) by auto
  let ?c1 = "client1\<lparr>wc_questionParamCapGrants := recordParamCapGrants (wc_questionParamCapGrants client1) q (co_paramsCapTable options)\<rparr>"
  let ?c2 = "setRequestStage q Sending (waitForReturn ?c1 q False frame options)"
  have asks: "clientRun client [DoCall (jint i) methodId params options, Continue q] = Some ([Asked q, SendFrame frame], ?c2)"
    using startCall_asks [OF assms(1,2,4) sent(1)] .
  let ?r = "\<lparr>wr_bootstrap = False, wr_options = options, wr_stage = Sending, wr_wait = None\<rparr>"
  have r: "map_of (wc_requests ?c2) q = Some ?r" "map_of (wc_pendingReturns ?c2) q \<noteq> None" "\<not> wc_closed ?c2"
    using assms(1) a(1) notReady_open
    by (auto simp: setRequestStage_def waitForReturn_def canAsk_def update_conv')
  obtain client3 where "clientRun ?c2 [SendSettled q None, FrameArrives reply, Continue q] = Some ([Answered q (Inr (CallResult
      \<lparr>cs_answerId = q, cs_contentBytes = content, cs_capTable = map (copyRpcCapDescriptor \<circ> decodedCap) (orElse (rs_capTable response) []),
       cs_releaseParamCaps = orElse (rs_releaseParamCaps response) (\<not> retain),
       cs_noFinishNeeded = orElse (rs_noFinishNeeded response) False\<rparr>))], client3)"
    using return_answers [OF r(1) _ _ _ r(2,3) gave(2)] by auto
  then show ?thesis using asks sent gave by blast
qed

definition sampleClientOptions :: RpcWireClientOptions where
  "sampleClientOptions = \<lparr>wo_interfaceId = Some 9, wo_nextQuestionId = None, wo_defaultTimeoutMs = Some 1000,
     wo_maxOutstandingParamCapQuestions = None\<rparr>"

definition sampleClient :: "nat RpcWireClient" where
  "sampleClient =
     \<lparr>wc_interfaceId = Some 9, wc_nextQuestionId = jint 1, wc_defaultTimeoutMs = Some 1000,
      wc_maxOutstandingParamCapQuestions = 4096, wc_closed = False, wc_startSettled = True, wc_startError = None,
      wc_pendingReturns = [], wc_localBridge = None, wc_questionsWithResultCaps = [], wc_questionParamCapGrants = [],
      wc_requests = [], wc_replies = 0\<rparr>"

lemma sampleClient_reachable: "clientReachable sampleClientOptions sampleClient"
proof -
  let ?s = "sampleClient\<lparr>wc_startSettled := False\<rparr>"
  have "newRpcWireClient sampleClientOptions False None = Inr ?s"
    by (simp add: newRpcWireClient_def sampleClientOptions_def sampleClient_def validateParamCapQuestionLimit_def MAX_SAFE_INTEGER_def)
  then have "clientReachable sampleClientOptions ?s" by (rule clientReachable.created)
  moreover have "clientStep ?s (TransportStarted None) = Some ([], sampleClient)" by (simp add: sampleClient_def)
  ultimately show ?thesis by (rule clientReachable.stepped)
qed

abbreviation (input) "sampleParams \<equiv> frameOf [bytesOf sampleWords]"

lemma sampleAsk_valid: "validRequest (callRequestOf 1 9 (jint 7) (jint 0) sampleParams noCallOptions) sampleValue"
proof -
  let ?r = "callRequestOf 1 9 (jint 7) (jint 0) sampleParams noCallOptions"
  have "normalizeCallTarget ?r = Inr (ImportedCap (jint 7))"
    by (simp add: normalizeCallTarget_def callRequestOf_def noCallOptions_def ensureU32_def)
  moreover have "requestFits ?r"
    by (simp add: requestFits_def callRequestOf_def noCallOptions_def requestTarget_def contactsFit_def capTableWords_def thirdBlock_def)
  ultimately show ?thesis
    using sampleContent by (simp add: validRequest_def callRequestOf_def isU_def)
qed

theorem call_end_to_end_witness:
  "\<exists>frame client2 server2 call args r1 reply server3 client3 content r2.
    clientRun sampleClient [DoCall (jint 7) (jint 0) sampleParams noCallOptions, Continue 1] = Some ([Asked 1, SendFrame frame], client2) \<and>
    handleFrame (sampleBridge [] [] (\<lambda>_. newEntry 0)) frame = (Suspended, server2) \<and>
    map_of (sb_pending server2) 4 = Some (AwaitHandler call 7 5 args None) \<and>
    newMessageReader args = Inr r1 \<and> reads r1 0 0 sampleValue \<and>
    bridgeStep server2 (HandlerSettled 4 (Inr (sampleResponse\<lparr>rs_content := Some sampleParams\<rparr>)) False) =
      Some (Replied (Inr (Some reply)), server3) \<and>
    clientRun client2 [SendSettled 1 None, FrameArrives reply, Continue 1] =
      Some ([Answered 1 (Inr (CallResult \<lparr>cs_answerId = 1, cs_contentBytes = content,
          cs_capTable = [\<lparr>cd_tag = 1, cd_id = 7, cd_vineId = None, cd_contact = None\<rparr>],
          cs_releaseParamCaps = True, cs_noFinishNeeded = True\<rparr>))], client3) \<and>
    newMessageReader content = Inr r2 \<and> reads r2 0 0 sampleValue"
proof -
  let ?response = "sampleResponse\<lparr>rs_content := Some sampleParams\<rparr>" and ?server = "sampleBridge [] [] (\<lambda>_. newEntry 0)"
  have ask: "canAsk sampleClient noCallOptions" "allocQuestionId sampleClient = (Inr 1, sampleClient\<lparr>wc_nextQuestionId := jint 2\<rparr>)"
    by (simp_all add: canAsk_def notReady_def sampleClient_def noCallOptions_def allocQuestionId_def)
  have iface: "co_target noCallOptions = None"
      "(case co_interfaceId noCallOptions of None \<Rightarrow> wc_interfaceId sampleClient | Some j \<Rightarrow> Some j) = Some 9"
    by (simp_all add: noCallOptions_def sampleClient_def)
  have server: "map_of (sb_dispatchByCapability ?server) 7 = Some sampleExport" "accepts (rd_dispatch sampleExport) 9"
      "sb_middleware ?server = []" "\<And>n. admits ?server 1 n" "sb_nextEntry ?server = 4" "sd_handler (rd_dispatch sampleExport) = 5"
    by (simp_all add: sampleBridge_def sampleExport_def sampleDispatch_def accepts_def admits_def)
  have response: "contactsFit (orElse (rs_capTable ?response) [])" "length (capTableWords 0 (orElse (rs_capTable ?response) [])) < 2 ^ 26"
      "contentFits (rs_content ?response) sampleValue"
    using sampleResponse_fits sampleContent by simp_all
  have flags: "map (copyRpcCapDescriptor \<circ> decodedCap) (orElse (rs_capTable ?response) []) =
        [\<lparr>cd_tag = 1, cd_id = 7, cd_vineId = None, cd_contact = None\<rparr>]"
      "orElse (rs_releaseParamCaps ?response) (\<not> False) = True" "orElse (rs_noFinishNeeded ?response) False = True"
    by (simp_all add: sampleResponse_def copyRpcCapDescriptor_def decodedCap_def)
  from call_end_to_end [OF ask iface sampleAsk_valid server(1-4) response, of False]
  show ?thesis unfolding flags server(5,6) by (elim exE conjE) blast
qed

section \<open>Histories of a client\<close>

text \<open>C3: In every history of a client, whatever frames arrive, sends fail, waits end and signals fire in
  between: a question id is never asked twice, a question is answered at most once, only questions
  that were asked are answered, and the result a call gets is that of a Return for its own question
  that has arrived.\<close>

theorem questions_answered_once:
  assumes "newRpcWireClient options transportClosed startThrows = Inr client" "clientRun client events = Some (actions, client')"
  shows "distinct (asked actions) \<and> distinct (answered actions) \<and> set (answered actions) \<subseteq> set (asked actions) \<and>
    (\<forall>q r. Answered q (Inr (CallResult r)) \<in> set actions \<longrightarrow>
      (\<exists>frame m. FrameArrives frame \<in> set events \<and> decodeReturnFrame frame = Inr m \<and> answerIdOf m = q \<and> toRpcCallResult m = Inr r))"
proof -
  have "wc_requests client = []"
    using assms(1) by (auto simp: newRpcWireClient_def bindE_eq_Inr Let_def split: if_splits option.splits)
  then have none: "questions client = {}" "heard client = {}" by (simp_all add: questions_def heard_def)
  note ok = created_ok [OF assms(1)]
  show ?thesis using run_questions [OF ok assms(2)] run_results [OF ok assms(2)] none by fastforce
qed

text \<open>A history: a call is asked and sent, a Return arrives, and the call is answered.\<close>

lemma sampleAsk:
  "canAsk sampleClient noCallOptions" "allocQuestionId sampleClient = (Inr 1, sampleClient\<lparr>wc_nextQuestionId := jint 2\<rparr>)"
  "co_target noCallOptions = None"
  "(case co_interfaceId noCallOptions of None \<Rightarrow> wc_interfaceId sampleClient | Some j \<Rightarrow> Some j) = Some 9"
  by (simp_all add: canAsk_def notReady_def sampleClient_def noCallOptions_def allocQuestionId_def)

definition sampleAsked :: "bytes \<Rightarrow> nat RpcWireClient" where
  "sampleAsked frame = setRequestStage 1 Sending (waitForReturn (sampleClient\<lparr>wc_nextQuestionId := jint 2,
      wc_questionParamCapGrants := recordParamCapGrants [] 1 None\<rparr>) 1 False frame noCallOptions)"

lemma sampleAsked_run:
  "\<exists>frame. clientRun sampleClient [DoCall (jint 7) (jint 0) sampleParams noCallOptions, Continue 1] =
    Some ([Asked 1, SendFrame frame], sampleAsked frame)"
proof -
  obtain frame where frame: "encodeCallRequestFrame (callRequestOf 1 9 (jint 7) (jint 0) sampleParams noCallOptions) = Inr frame"
    using call_roundtrip [OF sampleAsk_valid] by blast
  show ?thesis using startCall_asks [OF sampleAsk(1,2,4) frame]
    by (intro exI [of _ frame]) (simp add: sampleAsked_def sampleClient_def noCallOptions_def)
qed

lemma sampleAsked_request:
  "map_of (wc_requests (sampleAsked frame)) 1 =
    Some \<lparr>wr_bootstrap = False, wr_options = noCallOptions, wr_stage = Sending, wr_wait = None\<rparr>"
  "map_of (wc_pendingReturns (sampleAsked frame)) 1 \<noteq> None" "\<not> wc_closed (sampleAsked frame)"
  by (simp_all add: sampleAsked_def setRequestStage_def waitForReturn_def sampleClient_def noCallOptions_def)

lemma sampleReply:
  "\<exists>reply content. decodeReturnFrame reply =
    Inr (ReturnResults 1 content [] \<lparr>fl_releaseParamCaps = True, fl_noFinishNeeded = False\<rparr>)"
proof -
  have small: "contactsFit (orElse None [])" "length (capTableWords 0 (orElse None [])) < 2 ^ 26"
    by (simp_all add: contactsFit_def capTableWords_def thirdBlock_def)
  show ?thesis using results_roundtrip [of 1, OF _ _ small sampleContent, of None None] by auto
qed

lemma sampleHistory_client:
  "\<exists>frame reply content client'. clientRun sampleClient
      [DoCall (jint 7) (jint 0) sampleParams noCallOptions, Continue 1, SendSettled 1 None, FrameArrives reply, Continue 1] =
      Some ([Asked 1, SendFrame frame, Answered 1 (Inr (CallResult \<lparr>cs_answerId = 1, cs_contentBytes = content,
        cs_capTable = [], cs_releaseParamCaps = True, cs_noFinishNeeded = False\<rparr>))], client')"
proof -
  obtain frame where asks: "clientRun sampleClient [DoCall (jint 7) (jint 0) sampleParams noCallOptions, Continue 1] =
      Some ([Asked 1, SendFrame frame], sampleAsked frame)" using sampleAsked_run by blast
  obtain reply content where reply: "decodeReturnFrame reply =
      Inr (ReturnResults 1 content [] \<lparr>fl_releaseParamCaps = True, fl_noFinishNeeded = False\<rparr>)"
    using sampleReply by blast
  obtain client' where "clientRun (sampleAsked frame) [SendSettled 1 None, FrameArrives reply, Continue 1] =
      Some ([Answered 1 (Inr (CallResult \<lparr>cs_answerId = 1, cs_contentBytes = content,
        cs_capTable = [], cs_releaseParamCaps = True, cs_noFinishNeeded = False\<rparr>))], client')"
    using return_answers [OF sampleAsked_request(1) _ _ _ sampleAsked_request(2,3) reply] by auto
  from clientRun_append [OF asks this] show ?thesis by (intro exI) simp
qed

lemma sampleClient_new:
  "newRpcWireClient sampleClientOptions False None = Inr (sampleClient\<lparr>wc_startSettled := False\<rparr>)"
  by (simp add: newRpcWireClient_def sampleClientOptions_def sampleClient_def validateParamCapQuestionLimit_def MAX_SAFE_INTEGER_def)

lemma sampleClient_starts: "clientRun (sampleClient\<lparr>wc_startSettled := False\<rparr>) [TransportStarted None] = Some ([], sampleClient)"
  by (simp add: sampleClient_def)

theorem questions_answered_once_witness:
  "\<exists>frame reply r. decodeReturnFrame reply = Inr r \<and> answerIdOf r = 1 \<and>
    (\<exists>actions client'. clientRun (sampleClient\<lparr>wc_startSettled := False\<rparr>)
      ([TransportStarted None] @ [DoCall (jint 7) (jint 0) sampleParams noCallOptions, Continue 1, SendSettled 1 None,
        FrameArrives reply, Continue 1]) = Some (actions, client') \<and> asked actions = [1] \<and> answered actions = [1])"
proof -
  obtain frame reply content client' where run: "clientRun sampleClient
      [DoCall (jint 7) (jint 0) sampleParams noCallOptions, Continue 1, SendSettled 1 None, FrameArrives reply, Continue 1] =
      Some ([Asked 1, SendFrame frame, Answered 1 (Inr (CallResult \<lparr>cs_answerId = 1, cs_contentBytes = content,
        cs_capTable = [], cs_releaseParamCaps = True, cs_noFinishNeeded = False\<rparr>))], client')"
    using sampleHistory_client by blast
  note whole = clientRun_append [OF sampleClient_starts run]
  obtain m where "decodeReturnFrame reply = Inr m" "answerIdOf m = 1"
    using questions_answered_once [OF sampleClient_new whole] by auto
  then show ?thesis using whole by (intro exI conjI) (assumption | simp)+
qed

section \<open>Closing\<close>

text \<open>C12: Closing a client leaves no caller waiting. In every history, once the client is closed (by its owner
  or because the transport ended), each outstanding question is answered after at most two runs of
  the client's own continuations, whatever the transport does with the frame of the question; only a
  Finish that is being sent is waited for, and its end, good or bad, answers the question.\<close>

theorem close_answers_all:
  assumes "clientReachable options s" "wc_closed s" "map_of (wc_requests s) q = Some r"
  shows "(\<exists>n result s'. n \<le> 2 \<and> clientRun s (replicate n (Continue q)) = Some ([Answered q result], s')) \<or>
    (\<forall>failure. \<exists>result s'. clientStep s (FinishSettled q failure) = Some ([Answered q result], s'))"
proof -
  note ok = reachable_client_ok [OF assms(1)]
  have pend: "wc_pendingReturns s = []" using ok assms(2) by (simp add: clientOk_def shutOk_def)
  have late: "finishQuestion (jint q) options' s' = (Inl clientClosed, s')" if "wc_closed s'" for options' and s' :: "'a RpcWireClient"
    using that by (simp add: finishQuestion_def notReady_def)
  show ?thesis
  proof (cases "wr_stage r")
    case (HandingOff frame)
    then show ?thesis using assms(2,3)
      by (intro disjI1 exI [of _ 1]) (simp add: continueRequest_def handOff_def sendFailed_def answer_def Let_def)
  next
    case Sending
    then show ?thesis using assms(2,3)
      by (intro disjI1 exI [of _ 1]) (simp add: continueRequest_def sendFailed_def answer_def Let_def)
  next
    case Waiting
    obtain outcome where o: "wr_wait r = Some outcome"
      using ok assms(3) pend by (cases "wr_wait r") (auto simp: clientOk_def waitersOk_def waitsIn_def dest: spec [of _ q])
    obtain actions s1 where w: "waitSettled q r outcome s = (actions, s1)" by fastforce
    then have step: "clientStep s (Continue q) = Some (actions, s1)" using assms(3) Waiting o by (simp add: continueRequest_def)
    consider result where "actions = [Answered q result]" | options' best result where "actions = []" "s1 = setRequestStage q (FinishReady options' best result) s"
      using w by (auto simp: waitSettled_def answer_def Let_def split: sum.splits if_splits)
    then show ?thesis
    proof cases
      case 1
      then show ?thesis using step by (intro disjI1 exI [of _ 1]) (simp del: clientStep.simps)
    next
      case 2
      have "wc_closed s1" "map_of (wc_requests s1) q = Some (r\<lparr>wr_stage := FinishReady options' best result\<rparr>)"
        using assms(2,3) 2(2) by (simp_all add: setRequestStage_def)
      then obtain result' s2 where "clientStep s1 (Continue q) = Some ([Answered q result'], s2)"
        using late [of s1] by (cases best) (simp_all add: continueRequest_def finishReady_def finishEnded_def answer_def)
      then show ?thesis using step 2(1)
        by (intro disjI1 exI [of _ 2]) (simp add: numeral_2_eq_2 del: clientStep.simps)
    qed
  next
    case (FinishReady options' best result)
    then show ?thesis using assms(2,3) late [OF assms(2)]
      by (intro disjI1 exI [of _ 1]) (simp add: continueRequest_def finishReady_def finishEnded_def answer_def)
  next
    case (Finishing best result)
    then show ?thesis using assms(3) by (auto simp: finishEnded_def answer_def split: option.splits)
  qed
qed

theorem close_answers_all_witness:
  "\<exists>(s :: nat RpcWireClient) n result s'. clientReachable sampleClientOptions s \<and> wc_closed s \<and> n \<le> 2 \<and>
    clientRun s (replicate n (Continue 1)) = Some ([Answered 1 result], s')"
proof -
  obtain frame where asks: "clientRun sampleClient [DoCall (jint 7) (jint 0) sampleParams noCallOptions, Continue 1] =
      Some ([Asked 1, SendFrame frame], sampleAsked frame)" using sampleAsked_run by blast
  have reach: "clientReachable sampleClientOptions (sampleAsked frame)"
    using clientRun_reachable [OF sampleClient_reachable asks] .
  let ?s = "markClosed (sampleAsked frame)"
  have s: "clientReachable sampleClientOptions ?s" "wc_closed ?s"
    by (rule clientReachable.stepped [OF reach, of CloseClient "[]"]) simp_all
  obtain r where r: "map_of (wc_requests ?s) 1 = Some r" "wr_stage r = Sending"
    using sampleAsked_request [of frame] by (auto simp: markClosed_open(6))
  have "clientStep ?s (FinishSettled 1 None) = None" using r by simp
  then show ?thesis using close_answers_all [OF s r(1)] s by (metis option.distinct(1))
qed

section \<open>Returns\<close>

text \<open>A Return has its effect once. A second Return for the same question, be it a replay or another one,
  changes nothing: no waiter, no reference count, no record of the client.\<close>

theorem replayed_return_ignored:
  assumes "decodeReturnFrame frame = Inr m" "decodeReturnFrame replay = Inr m'" "answerIdOf m' = answerIdOf m"
  shows "onFrame replay (snd (onFrame frame s)) = ([], snd (onFrame frame s))"
proof -
  let ?q = "answerIdOf m" and ?s = "returnArrives m s"
  have gone: "map_of (wc_pendingReturns ?s) ?q = None" "AList.delete ?q (wc_questionParamCapGrants ?s) = wc_questionParamCapGrants ?s"
      "map_of (wc_questionParamCapGrants ?s) ?q = None"
    by (auto simp: returnArrives_def Let_def delete_conv' delete_idem)
  then have "settleParamCapGrants ?q release ?s = ?s" for release
    by (simp add: settleParamCapGrants_def)
  then have "returnArrives m' ?s = ?s" using gone(1) assms(3) by (simp add: returnArrives_def [of m'])
  then show ?thesis using assms(1,2) by (simp add: onFrame_def decoder_tags)
qed

theorem replayed_return_ignored_witness:
  "\<exists>reply m. decodeReturnFrame reply = Inr m \<and>
    onFrame reply (snd (onFrame reply sampleClient)) = ([], snd (onFrame reply sampleClient))"
proof -
  obtain reply content where "decodeReturnFrame reply =
      Inr (ReturnResults 1 content [] \<lparr>fl_releaseParamCaps = True, fl_noFinishNeeded = False\<rparr>)"
    using sampleReply by blast
  then show ?thesis using replayed_return_ignored [of reply _ reply _ sampleClient] by blast
qed

text \<open>C11: The references a call grants are settled exactly once. When the Return of a question arrives, each
  local export loses the references the capability table of the call granted on it if the Return
  releases the parameter capabilities, and none if the callee keeps them; in both cases the question
  has no grants left.\<close>

theorem param_caps_settled:
  assumes "wc_localBridge s = Some b" "map_of (wc_questionParamCapGrants s) q = Some (recordGrants caps [])"
    and "decodeReturnFrame frame = Inr m" "answerIdOf m = q"
    and "\<And>i. map_of (sb_dispatchByCapability b) i \<noteq> None \<Longrightarrow> hostedCount caps i \<le> refsOn (sb_dispatchByCapability b) i"
  shows "\<exists>b'. wc_localBridge (snd (onFrame frame s)) = Some b' \<and> map_of (wc_questionParamCapGrants (snd (onFrame frame s))) q = None \<and>
    (\<forall>i. refsOn (sb_dispatchByCapability b') i = refsOn (sb_dispatchByCapability b) i -
      (if fl_releaseParamCaps (flagsOf m) \<and> map_of (sb_dispatchByCapability b) i \<noteq> None then hostedCount caps i else 0))"
proof -
  let ?g = "recordGrants caps []" and ?release = "fl_releaseParamCaps (flagsOf m)"
  let ?b = "if ?release then settleGrants ?g b else b"
  have dist: "distinct (map fst ?g)" by (rule recordGrants_distinct) simp
  have g: "orElse (map_of ?g i) 0 = hostedCount caps i" for i using recordGrants_count [of caps "[]" i] by simp
  have pos: "0 < n" if "map_of ?g i = Some n" for i n by (rule recordGrants_positive [OF _ that]) simp
  have grants: "0 < n \<and> (n \<le> refsOn (sb_dispatchByCapability b) i \<or> map_of (sb_dispatchByCapability b) i = None)" if "(i, n) \<in> set ?g" for i n
  proof -
    have "map_of ?g i = Some n" using that dist by simp
    then show ?thesis using pos [of i n] g [of i] assms(5) [of i] by auto
  qed
  have "onFrame frame s = ([], returnArrives m s)" using assms(3) by (simp add: onFrame_def decoder_tags)
  moreover have "wc_localBridge (returnArrives m s) = Some ?b" "map_of (wc_questionParamCapGrants (returnArrives m s)) q = None"
    using assms(1,2,4) by (auto simp: returnArrives_def settleParamCapGrants_def Let_def delete_conv')
  moreover have "refsOn (sb_dispatchByCapability ?b) i = refsOn (sb_dispatchByCapability b) i -
      (if ?release \<and> map_of (sb_dispatchByCapability b) i \<noteq> None then hostedCount caps i else 0)" for i
    using settleGrants_refs [OF dist grants, of i] g [of i] by (simp add: settleGrants_def)
  ultimately show ?thesis by auto
qed

definition sampleGranting :: "nat RpcWireClient" where
  "sampleGranting = sampleClient\<lparr>wc_localBridge := Some (sampleBridge [] [] (\<lambda>_. newEntry 0)),
     wc_questionParamCapGrants := [(1, recordGrants [\<lparr>cd_tag = jint 1, cd_id = jint 7, cd_vineId = None, cd_contact = None\<rparr>] [])]\<rparr>"

theorem param_caps_settled_witness:
  "\<exists>reply b'. wc_localBridge (snd (onFrame reply sampleGranting)) = Some b' \<and>
    map_of (wc_questionParamCapGrants (snd (onFrame reply sampleGranting))) 1 = None \<and>
    refsOn (sb_dispatchByCapability b') 7 = 0"
proof -
  obtain reply content where reply: "decodeReturnFrame reply =
      Inr (ReturnResults 1 content [] \<lparr>fl_releaseParamCaps = True, fl_noFinishNeeded = False\<rparr>)"
    using sampleReply by blast
  let ?b = "sampleBridge [] [] (\<lambda>_. newEntry 0)" and ?caps = "[\<lparr>cd_tag = jint 1, cd_id = jint 7, cd_vineId = None, cd_contact = None\<rparr>]"
  have "wc_localBridge sampleGranting = Some ?b" "map_of (wc_questionParamCapGrants sampleGranting) 1 = Some (recordGrants ?caps [])"
    by (simp_all add: sampleGranting_def)
  moreover have "hostedCount ?caps i \<le> refsOn (sb_dispatchByCapability ?b) i" if "map_of (sb_dispatchByCapability ?b) i \<noteq> None" for i
    using that by (simp add: sampleBridge_def sampleExport_def refsOn_def senderHosted_def split: if_splits)
  moreover have "refsOn (sb_dispatchByCapability ?b) 7 = 1" "map_of (sb_dispatchByCapability ?b) 7 \<noteq> None" "hostedCount ?caps 7 = 1"
    by (simp_all add: sampleBridge_def sampleExport_def refsOn_def senderHosted_def)
  ultimately show ?thesis using param_caps_settled [of sampleGranting ?b 1 ?caps, OF _ _ reply]
    by (intro exI [of _ reply]) auto
qed

end
