(* ===== verification/Js_Validation.thy ===== *)
theory Js_Validation
  imports Rpc_Messages "HOL-Library.AList"
begin

text \<open>
  The checks of \<open>src/validation.ts\<close> on the numbers a program passes as options, and the reading of
  an option that has passed one. A message keeps the name of the option; the rejected value, which
  may be any number, is left out of it.
\<close>

definition assertPositiveInteger :: "number \<Rightarrow> string \<Rightarrow> unit result" where
  "assertPositiveInteger value name =
     (if \<not> isInteger value \<or> numLess value (jint 1)
      then Inl (PlainError (name @ '' must be a positive integer'') []) else Inr ())"

definition assertNonNegativeInt :: "number \<Rightarrow> string \<Rightarrow> unit result" where
  "assertNonNegativeInt value name =
     (if \<not> isInteger value \<or> numLess value (jint 0)
      then Inl (PlainError (name @ '' must be a non-negative integer'') []) else Inr ())"

definition assertNonNegativeFinite :: "number \<Rightarrow> string \<Rightarrow> unit result" where
  "assertNonNegativeFinite value name =
     (if \<not> isFinite value \<or> numLess value (jint 0)
      then Inl (PlainError (name @ '' must be a non-negative finite number'') []) else Inr ())"

definition assertPositiveFinite :: "number \<Rightarrow> string \<Rightarrow> unit result" where
  "assertPositiveFinite value name =
     (if \<not> isFinite value \<or> \<not> numLess (jint 0) value
      then Inl (PlainError (name @ '' must be a positive finite number'') []) else Inr ())"

text \<open>The value of a finite number.\<close>

fun finiteValue :: "number \<Rightarrow> rat" where
  "finiteValue (Num q) = q"
| "finiteValue _ = 0"

lemma finiteValue_jint [simp]: "finiteValue (jint i) = of_int i"
  by (simp add: jint_def)

lemma assertPositiveInteger_Inr:
  "assertPositiveInteger v name = Inr u \<longleftrightarrow> (\<exists>i. v = jint i \<and> 1 \<le> i)"
  by (auto simp: assertPositiveInteger_def isInteger_iff)

lemma assertNonNegativeInt_Inr:
  "assertNonNegativeInt v name = Inr u \<longleftrightarrow> (\<exists>i. v = jint i \<and> 0 \<le> i)"
  by (auto simp: assertNonNegativeInt_def isInteger_iff)

lemma assertNonNegativeFinite_Inr:
  "assertNonNegativeFinite v name = Inr u \<longleftrightarrow> (\<exists>q. v = Num q \<and> 0 \<le> q)"
  by (cases v) (auto simp: assertNonNegativeFinite_def jint_def)

lemma assertPositiveFinite_Inr:
  "assertPositiveFinite v name = Inr u \<longleftrightarrow> (\<exists>q. v = Num q \<and> 0 < q)"
  by (cases v) (auto simp: assertPositiveFinite_def jint_def)

text \<open>The keys that stay in a map.\<close>

lemma fst_delete: "map fst (AList.delete k al) = filter ((\<noteq>) k) (map fst al)"
  by (induction al) auto

end
