(* ===== verification/Circuit_Breaker.thy ===== *)
theory Circuit_Breaker
  imports Js_Validation
begin

text \<open>
  \<open>CircuitBreaker\<close> of \<open>src/rpc/transports/resilience/circuit_breaker.ts\<close> as a state machine. A call
  is the code before its \<open>await factory()\<close> and the code after it: an event is one of the two, or a
  \<open>reset\<close>. The running factories are kept in the state, each with its local \<open>halfOpenProbe\<close>. The
  clock, an integer number of milliseconds, is read once per event. The observers of state changes
  are the caller's code and are taken not to call the breaker; what they throw is swallowed.
\<close>

section \<open>State\<close>

datatype CircuitBreakerState = CLOSED | OPEN | HALF_OPEN

record CircuitBreakerOptions =
  bo_maxConsecutiveFailures :: "number option"
  bo_cooldownMs :: "number option"

record CircuitBreaker =
  cb_maxConsecutiveFailures :: int
  cb_cooldownMs :: rat
  cb_state :: CircuitBreakerState
  cb_consecutiveFailures :: int
  cb_openedAtMs :: "int option"
  cb_halfOpenProbeInFlight :: bool
  cb_running :: "(nat \<times> bool) list"
  cb_started :: nat

definition newCircuitBreaker :: "CircuitBreakerOptions \<Rightarrow> CircuitBreaker result" where
  "newCircuitBreaker options =
     (let maxFailures = orElse (bo_maxConsecutiveFailures options) (jint 5);
          cooldown = orElse (bo_cooldownMs options) (jint 30000)
      in bindE (assertPositiveInteger maxFailures ''maxConsecutiveFailures'') (\<lambda>_.
         bindE (assertPositiveFinite cooldown ''cooldownMs'') (\<lambda>_.
         Inr \<lparr>cb_maxConsecutiveFailures = toInt maxFailures, cb_cooldownMs = finiteValue cooldown,
              cb_state = CLOSED, cb_consecutiveFailures = 0, cb_openedAtMs = None,
              cb_halfOpenProbeInFlight = False, cb_running = [], cb_started = 0\<rparr>)))"

datatype breaker_action =
    StateChange CircuitBreakerState CircuitBreakerState
  | StartFactory nat
  | RejectCall error

record CircuitBreakerStats =
  bs_state :: CircuitBreakerState
  bs_consecutiveFailures :: int
  bs_maxConsecutiveFailures :: int
  bs_cooldownMs :: rat
  bs_cooldownRemainingMs :: rat
  bs_openedAtMs :: "int option"
  bs_halfOpenProbeInFlight :: bool

definition breakerStats :: "int \<Rightarrow> CircuitBreaker \<Rightarrow> CircuitBreakerStats" where
  "breakerStats now s =
     \<lparr>bs_state = cb_state s, bs_consecutiveFailures = cb_consecutiveFailures s,
      bs_maxConsecutiveFailures = cb_maxConsecutiveFailures s, bs_cooldownMs = cb_cooldownMs s,
      bs_cooldownRemainingMs =
        (case cb_openedAtMs s of
           Some openedAtMs \<Rightarrow>
             if cb_state s = OPEN then max 0 (cb_cooldownMs s - of_int (now - openedAtMs)) else 0
         | None \<Rightarrow> 0),
      bs_openedAtMs = cb_openedAtMs s, bs_halfOpenProbeInFlight = cb_halfOpenProbeInFlight s\<rparr>"

section \<open>Operations\<close>

definition transitionTo :: "CircuitBreakerState \<Rightarrow> CircuitBreaker \<Rightarrow> breaker_action list \<times> CircuitBreaker" where
  "transitionTo newState s =
     (if cb_state s = newState then ([], s)
      else ([StateChange (cb_state s) newState], s\<lparr>cb_state := newState\<rparr>))"

definition onSuccess :: "CircuitBreaker \<Rightarrow> breaker_action list \<times> CircuitBreaker" where
  "onSuccess s = transitionTo CLOSED (s\<lparr>cb_consecutiveFailures := 0, cb_openedAtMs := None\<rparr>)"

definition onFailure :: "int \<Rightarrow> CircuitBreaker \<Rightarrow> breaker_action list \<times> CircuitBreaker" where
  "onFailure now s =
     (let s = s\<lparr>cb_consecutiveFailures := cb_consecutiveFailures s + 1\<rparr>
      in if cb_state s = HALF_OPEN then transitionTo OPEN (s\<lparr>cb_openedAtMs := Some now\<rparr>)
         else if cb_state s = CLOSED \<and> cb_consecutiveFailures s \<ge> cb_maxConsecutiveFailures s
         then transitionTo OPEN (s\<lparr>cb_openedAtMs := Some now\<rparr>)
         else ([], s))"

definition resetBreaker :: "CircuitBreaker \<Rightarrow> breaker_action list \<times> CircuitBreaker" where
  "resetBreaker s =
     transitionTo CLOSED
       (s\<lparr>cb_halfOpenProbeInFlight := False, cb_consecutiveFailures := 0, cb_openedAtMs := None\<rparr>)"

text \<open>The message of the cooldown error has the remaining milliseconds as a fraction.\<close>

definition stillOpen :: "rat \<Rightarrow> error" where
  "stillOpen remaining =
     TransportError ''circuit breaker is open; {}/{}ms remaining in cooldown''
       [fst (quotient_of remaining), snd (quotient_of remaining)]"

definition probeInProgress :: error where
  "probeInProgress = TransportError ''circuit breaker half-open probe already in progress'' []"

text \<open>\<open>call\<close> up to the start of the factory.\<close>

definition startFactory :: "CircuitBreaker \<Rightarrow> breaker_action list \<times> CircuitBreaker" where
  "startFactory s =
     (if cb_state s = HALF_OPEN \<and> cb_halfOpenProbeInFlight s then ([RejectCall probeInProgress], s)
      else let halfOpenProbe = (cb_state s = HALF_OPEN); call = cb_started s
           in ([StartFactory call],
               s\<lparr>cb_halfOpenProbeInFlight := cb_halfOpenProbeInFlight s \<or> halfOpenProbe,
                 cb_running := (call, halfOpenProbe) # cb_running s, cb_started := call + 1\<rparr>))"

definition callFactory :: "int \<Rightarrow> CircuitBreaker \<Rightarrow> breaker_action list \<times> CircuitBreaker" where
  "callFactory now s =
     (if cb_state s = OPEN then
        let elapsed = now - orElse (cb_openedAtMs s) now
        in if of_int elapsed < cb_cooldownMs s
           then ([RejectCall (stillOpen (cb_cooldownMs s - of_int elapsed))], s)
           else let (changes, s) = transitionTo HALF_OPEN s; (actions, s) = startFactory s
                in (changes @ actions, s)
      else startFactory s)"

text \<open>\<open>call\<close> after its factory has settled: the branch of the outcome, then the \<open>finally\<close> block.\<close>

definition factorySettled :: "nat \<Rightarrow> bool \<Rightarrow> int \<Rightarrow> CircuitBreaker \<Rightarrow> breaker_action list \<times> CircuitBreaker" where
  "factorySettled call succeeded now s =
     (let halfOpenProbe = orElse (map_of (cb_running s) call) False;
          (actions, s) = (if succeeded then onSuccess s else onFailure now s)
      in (actions,
          s\<lparr>cb_halfOpenProbeInFlight := cb_halfOpenProbeInFlight s \<and> \<not> halfOpenProbe,
            cb_running := AList.delete call (cb_running s)\<rparr>))"

section \<open>Histories\<close>

datatype breaker_event =
    CallFactory int
  | FactorySettled nat bool int
  | ResetBreaker

fun breakerStep :: "CircuitBreaker \<Rightarrow> breaker_event \<Rightarrow> (breaker_action list \<times> CircuitBreaker) option" where
  "breakerStep s (CallFactory now) = Some (callFactory now s)"
| "breakerStep s (FactorySettled call succeeded now) =
     (if map_of (cb_running s) call = None then None else Some (factorySettled call succeeded now s))"
| "breakerStep s ResetBreaker = Some (resetBreaker s)"

text \<open>A history of a breaker, its newest event first.\<close>

inductive breakerRun :: "CircuitBreakerOptions \<Rightarrow> breaker_event list \<Rightarrow> CircuitBreaker \<Rightarrow> bool"
  for options where
  created: "newCircuitBreaker options = Inr s \<Longrightarrow> breakerRun options [] s"
| stepped: "breakerRun options events s \<Longrightarrow> breakerStep s event = Some (actions, s') \<Longrightarrow>
    breakerRun options (event # events) s'"

fun breakerEvents :: "CircuitBreaker \<Rightarrow> breaker_event list \<Rightarrow> (breaker_action list \<times> CircuitBreaker) option" where
  "breakerEvents s [] = Some ([], s)"
| "breakerEvents s (event # events) =
     (case breakerStep s event of
        None \<Rightarrow> None
      | Some (actions, s') \<Rightarrow> map_option (apfst ((@) actions)) (breakerEvents s' events))"

lemma breakerEvents_run:
  "breakerRun options past s \<Longrightarrow> breakerEvents s events = Some (actions, s') \<Longrightarrow>
    breakerRun options (rev events @ past) s'"
proof (induction events arbitrary: s past actions)
  case (Cons event events)
  then obtain b t where st: "breakerStep s event = Some (b, t)"
    by (auto split: option.splits)
  then obtain c where "breakerEvents t events = Some (c, s')"
    using Cons.prems(2) by auto
  then show ?case
    using Cons.IH [OF stepped [OF Cons.prems(1) st]] by simp
qed simp

text \<open>The failures since the last success or reset.\<close>

fun failuresInARow :: "breaker_event list \<Rightarrow> nat" where
  "failuresInARow [] = 0"
| "failuresInARow (CallFactory _ # events) = failuresInARow events"
| "failuresInARow (FactorySettled _ succeeded _ # events) = (if succeeded then 0 else failuresInARow events + 1)"
| "failuresInARow (ResetBreaker # events) = 0"

text \<open>The half-open probes that are running.\<close>

definition probes :: "CircuitBreaker \<Rightarrow> nat list" where
  "probes s = map fst (filter snd (cb_running s))"

section \<open>Invariants\<close>

definition freshCalls :: "CircuitBreaker \<Rightarrow> bool" where
  "freshCalls s \<longleftrightarrow> distinct (map fst (cb_running s)) \<and> (\<forall>(c, probe)\<in>set (cb_running s). c < cb_started s)"

definition breakerOk :: "breaker_event list \<Rightarrow> CircuitBreaker \<Rightarrow> bool" where
  "breakerOk events s \<longleftrightarrow> 1 \<le> cb_maxConsecutiveFailures s \<and> 0 < cb_cooldownMs s \<and>
     cb_consecutiveFailures s = int (failuresInARow events) \<and>
     (cb_state s = CLOSED \<longleftrightarrow> cb_consecutiveFailures s < cb_maxConsecutiveFailures s) \<and>
     (cb_state s = CLOSED \<longleftrightarrow> cb_openedAtMs s = None) \<and>
     (cb_state s = HALF_OPEN \<longrightarrow> cb_halfOpenProbeInFlight s) \<and>
     (cb_halfOpenProbeInFlight s \<longrightarrow> probes s \<noteq> []) \<and> freshCalls s"

lemmas breaker_ops = callFactory_def startFactory_def factorySettled_def onSuccess_def onFailure_def
  resetBreaker_def transitionTo_def

lemma filter_delete:
  "map fst (filter P (AList.delete c calls)) = filter ((\<noteq>) c) (map fst (filter P calls))"
  by (induction calls) auto

lemma freshCalls_start:
  "freshCalls s \<Longrightarrow> freshCalls (t\<lparr>cb_running := (cb_started s, b) # cb_running s, cb_started := Suc (cb_started s)\<rparr>)"
  by (force simp: freshCalls_def)

lemma freshCalls_end:
  "freshCalls s \<Longrightarrow> cb_running t = AList.delete c (cb_running s) \<Longrightarrow> cb_started t = cb_started s \<Longrightarrow> freshCalls t"
  by (auto simp: freshCalls_def fst_delete) (auto simp: AList.delete_eq)

lemma freshCalls_same:
  "freshCalls s \<Longrightarrow> cb_running t = cb_running s \<Longrightarrow> cb_started t = cb_started s \<Longrightarrow> freshCalls t"
  by (simp add: freshCalls_def)

lemma breakerOk_new: "newCircuitBreaker options = Inr s \<Longrightarrow> breakerOk [] s"
  by (auto simp: newCircuitBreaker_def breakerOk_def freshCalls_def Let_def bindE_eq_Inr assertPositiveInteger_Inr
      assertPositiveFinite_Inr)

lemma freshCalls_call: "freshCalls s \<Longrightarrow> callFactory now s = (actions, s') \<Longrightarrow> freshCalls s'"
  by (force simp: freshCalls_def breaker_ops Let_def split: if_splits)

lemma breakerOk_call:
  assumes "breakerOk events s" "callFactory now s = (actions, s')"
  shows "breakerOk (CallFactory now # events) s'"
proof -
  have "freshCalls s'" using assms freshCalls_call by (auto simp: breakerOk_def)
  then show ?thesis
    using assms by (auto simp: breakerOk_def breaker_ops Let_def probes_def split: if_splits option.splits)
qed

lemma breakerOk_reset:
  assumes "breakerOk events s" "resetBreaker s = (actions, s')"
  shows "breakerOk (ResetBreaker # events) s'"
proof -
  have "freshCalls s'" using assms by (auto simp: breakerOk_def breaker_ops freshCalls_def split: if_splits)
  then show ?thesis
    using assms by (auto simp: breakerOk_def breaker_ops split: if_splits)
qed

lemma probes_left:
  assumes "\<not> orElse (map_of calls c) False" "distinct (map fst calls)" "filter snd calls \<noteq> []"
  shows "filter snd (AList.delete c calls) \<noteq> []"
proof -
  obtain d where d: "(d, True) \<in> set calls" using assms(3) by (auto simp: filter_empty_conv)
  moreover have "d \<noteq> c" using assms(1,2) d by (auto simp: orElse_def)
  ultimately have "(d, True) \<in> set (filter snd (AList.delete c calls))" by (auto simp: AList.delete_eq)
  then show ?thesis by (metis empty_iff list.set(1))
qed

text \<open>What the end of a factory leaves of the running calls and the probe flag.\<close>

lemma settled_running:
  assumes "factorySettled call succeeded now s = (actions, s')"
  shows "cb_running s' = AList.delete call (cb_running s)" "cb_started s' = cb_started s"
    "cb_halfOpenProbeInFlight s' \<longleftrightarrow> cb_halfOpenProbeInFlight s \<and> \<not> orElse (map_of (cb_running s) call) False"
  using assms by (auto simp: breaker_ops Let_def split: if_splits)

lemma breakerOk_settled:
  assumes ok: "breakerOk events s" and f: "factorySettled call succeeded now s = (actions, s')"
  shows "breakerOk (FactorySettled call succeeded now # events) s'"
proof -
  have d: "freshCalls s" using ok by (simp add: breakerOk_def)
  have "probes s' \<noteq> []" if "cb_halfOpenProbeInFlight s'"
    using that ok d probes_left [of "cb_running s" call] settled_running [OF f]
    by (simp add: breakerOk_def probes_def freshCalls_def)
  moreover have "freshCalls s'" using freshCalls_end [OF d] settled_running [OF f] by blast
  ultimately show ?thesis
    using ok f by (auto simp: breakerOk_def breaker_ops Let_def split: if_splits)
qed

lemma breakerOk_step:
  "breakerOk events s \<Longrightarrow> breakerStep s event = Some (actions, s') \<Longrightarrow> breakerOk (event # events) s'"
  by (cases event) (auto simp: breakerOk_call breakerOk_reset breakerOk_settled split: if_splits)

theorem breakerRun_ok: "breakerRun options events s \<Longrightarrow> breakerOk events s"
  by (induction rule: breakerRun.induct) (auto simp: breakerOk_new breakerOk_step)

text \<open>
  Without a reset the flag is exactly whether a probe runs, and at most one does.
\<close>

definition noReset :: "breaker_event list \<Rightarrow> bool" where
  "noReset events \<longleftrightarrow> ResetBreaker \<notin> set events"

definition oneProbe :: "CircuitBreaker \<Rightarrow> bool" where
  "oneProbe s \<longleftrightarrow> probes s = [] \<and> \<not> cb_halfOpenProbeInFlight s \<or> length (probes s) = 1 \<and> cb_halfOpenProbeInFlight s"

lemma oneProbe_step:
  assumes "oneProbe s" "breakerOk events s" "breakerStep s event = Some (actions, s')" "event \<noteq> ResetBreaker"
  shows "oneProbe s'"
proof (cases event)
  case (CallFactory now)
  then show ?thesis
    using assms(1,3) by (auto simp: oneProbe_def breaker_ops probes_def Let_def split: if_splits option.splits)
next
  case (FactorySettled call succeeded now)
  have d: "distinct (map fst (cb_running s))" using assms(2) by (simp add: breakerOk_def freshCalls_def)
  have f: "factorySettled call succeeded now s = (actions, s')"
    using assms(3) FactorySettled by (auto split: if_splits)
  note run = settled_running(1) [OF f] and flag = settled_running(3) [OF f]
  have p: "probes s' = filter ((\<noteq>) call) (probes s)" by (simp add: probes_def run filter_delete)
  have "call \<in> set (probes s) \<longleftrightarrow> (call, True) \<in> set (cb_running s)"
    by (force simp: probes_def)
  also have "\<dots> \<longleftrightarrow> map_of (cb_running s) call = Some True"
    using d by (simp add: map_of_eq_Some_iff)
  finally have m: "call \<in> set (probes s) \<longleftrightarrow> orElse (map_of (cb_running s) call) False"
    by (cases "map_of (cb_running s) call") (auto simp: orElse_def)
  show ?thesis
    using assms(1) p m flag by (cases "probes s") (auto simp: oneProbe_def)
qed (use assms in simp)

lemma oneProbe_run: "breakerRun options events s \<Longrightarrow> noReset events \<Longrightarrow> oneProbe s"
proof (induction rule: breakerRun.induct)
  case (created s)
  then show ?case
    by (auto simp: newCircuitBreaker_def oneProbe_def probes_def Let_def bindE_eq_Inr)
next
  case (stepped events s event actions s')
  then show ?case
    using oneProbe_step breakerRun_ok by (fastforce simp: noReset_def)
qed

end
