(* ===== verification/Reconnect.thy ===== *)
theory Reconnect
  imports Js_Validation
begin

text \<open>
  \<open>connectWithReconnect\<close> and the exponential backoff policy of
  \<open>src/rpc/transports/resilience/reconnect.ts\<close>. The loop has no bound of its own: it is a partial
  function, whose value is \<open>None\<close> when it does not return. What happens outside of it is a record of
  functions of the number of failed attempts so far: what \<open>connect\<close> and \<open>sleep\<close> give, the clock and
  the abort signal. The observers of retries are the caller's code; what they throw is swallowed.
  A policy is always given, as the type of the options asks for (the check for a missing one is left out).
  The arithmetic of the delays is that of the rational numbers: the rounding of doubles is left out.
\<close>

section \<open>Policies\<close>

record ReconnectPolicyContext =
  rc_attempt :: int
  rc_elapsedMs :: int
  rc_error :: error

record ReconnectPolicy =
  rp_shouldRetry :: "ReconnectPolicyContext \<Rightarrow> bool result"
  rp_nextDelayMs :: "ReconnectPolicyContext \<Rightarrow> number result"

record BackoffOptions =
  po_maxAttempts :: "number option"
  po_initialDelayMs :: "number option"
  po_maxDelayMs :: "number option"
  po_factor :: "number option"
  po_jitterRatio :: "number option"
  po_maxElapsedMs :: "number option"

text \<open>The options after the checks of \<open>createExponentialBackoffReconnectPolicy\<close>.\<close>

record Backoff =
  bk_maxAttempts :: int
  bk_initialDelayMs :: rat
  bk_maxDelayMs :: rat
  bk_factor :: rat
  bk_jitterRatio :: rat
  bk_maxElapsedMs :: "int option"

definition backoffOf :: "BackoffOptions \<Rightarrow> Backoff result" where
  "backoffOf options =
     (let maxAttempts = orElse (po_maxAttempts options) (jint 5);
          initialDelayMs = orElse (po_initialDelayMs options) (jint 100);
          maxDelayMs = orElse (po_maxDelayMs options) (jint 5000);
          factor = orElse (po_factor options) (jint 2);
          jitterRatio = orElse (po_jitterRatio options) (Num (1 / 5))
      in bindE (assertNonNegativeInt maxAttempts ''maxAttempts'') (\<lambda>_.
         bindE (assertNonNegativeFinite initialDelayMs ''initialDelayMs'') (\<lambda>_.
         bindE (assertPositiveFinite maxDelayMs ''maxDelayMs'') (\<lambda>_.
         bindE (assertPositiveFinite factor ''factor'') (\<lambda>_.
         if numLess factor (jint 1) then Inl (TransportError ''factor must be >= 1'' [])
         else
         bindE (assertNonNegativeFinite jitterRatio ''jitterRatio'') (\<lambda>_.
         if numLess (jint 1) jitterRatio then Inl (TransportError ''jitterRatio must be <= 1'' [])
         else if numLess maxDelayMs initialDelayMs
         then Inl (TransportError ''initialDelayMs exceeds maxDelayMs'' [])
         else
         bindE (case po_maxElapsedMs options of None \<Rightarrow> Inr () | Some m \<Rightarrow> assertNonNegativeInt m ''maxElapsedMs'') (\<lambda>_.
         Inr \<lparr>bk_maxAttempts = toInt maxAttempts, bk_initialDelayMs = finiteValue initialDelayMs,
              bk_maxDelayMs = finiteValue maxDelayMs, bk_factor = finiteValue factor,
              bk_jitterRatio = finiteValue jitterRatio,
              bk_maxElapsedMs = map_option toInt (po_maxElapsedMs options)\<rparr>)))))))"

definition backoffShouldRetry :: "Backoff \<Rightarrow> ReconnectPolicyContext \<Rightarrow> bool result" where
  "backoffShouldRetry b context =
     bindE (assertNonNegativeInt (jint (rc_attempt context)) ''context.attempt'') (\<lambda>_.
     bindE (assertNonNegativeInt (jint (rc_elapsedMs context)) ''context.elapsedMs'') (\<lambda>_.
     if rc_attempt context > bk_maxAttempts b then Inr False
     else case bk_maxElapsedMs b of
       Some m \<Rightarrow> Inr (rc_elapsedMs context \<le> m)
     | None \<Rightarrow> Inr True))"

text \<open>\<open>Math.round\<close>: halves are rounded up.\<close>

definition roundMs :: "rat \<Rightarrow> int" where
  "roundMs q = \<lfloor>q + 1 / 2\<rfloor>"

definition cappedDelay :: "Backoff \<Rightarrow> int \<Rightarrow> rat" where
  "cappedDelay b attempt = min (bk_initialDelayMs b * bk_factor b ^ nat (attempt - 1)) (bk_maxDelayMs b)"

text \<open>\<open>random\<close> is what the random number generator returns at the attempt.\<close>

definition backoffNextDelayMs :: "Backoff \<Rightarrow> (int \<Rightarrow> number) \<Rightarrow> ReconnectPolicyContext \<Rightarrow> number result" where
  "backoffNextDelayMs b random context =
     bindE (assertNonNegativeInt (jint (rc_attempt context)) ''context.attempt'') (\<lambda>_.
     let delay = cappedDelay b (rc_attempt context); randomValue = random (rc_attempt context)
     in if bk_jitterRatio b = 0 \<or> delay = 0 then Inr (jint (roundMs delay))
        else if \<not> isFinite randomValue \<or> numLess randomValue (jint 0) \<or> \<not> numLess randomValue (jint 1)
        then Inl (TransportError ''random() must return a value in [0, 1)'' [])
        else let jitter = delay * bk_jitterRatio b; minDelay = delay - jitter; maxDelay = delay + jitter
             in Inr (jint (max 0 (roundMs (minDelay + (maxDelay - minDelay) * finiteValue randomValue)))))"

definition backoffPolicy :: "(int \<Rightarrow> number) \<Rightarrow> Backoff \<Rightarrow> ReconnectPolicy" where
  "backoffPolicy random b = \<lparr>rp_shouldRetry = backoffShouldRetry b, rp_nextDelayMs = backoffNextDelayMs b random\<rparr>"

definition createExponentialBackoffReconnectPolicy ::
  "(int \<Rightarrow> number) \<Rightarrow> BackoffOptions \<Rightarrow> ReconnectPolicy result" where
  "createExponentialBackoffReconnectPolicy random options =
     bindE (backoffOf options) (\<lambda>b. Inr (backoffPolicy random b))"

section \<open>The loop\<close>

record 'c ReconnectWorld =
  rw_startedAt :: int
  rw_aborted :: "nat \<Rightarrow> bool"
  rw_connect :: "nat \<Rightarrow> 'c result"
  rw_now :: "nat \<Rightarrow> int"
  rw_abortedBeforeSleep :: "nat \<Rightarrow> bool"
  rw_sleep :: "nat \<Rightarrow> unit result"

datatype reconnect_action =
    Connect
  | OnRetry ReconnectPolicyContext int
  | Sleep int

definition reconnectAborted :: error where
  "reconnectAborted = TransportError ''reconnect aborted'' []"

text \<open>\<open>normalizeTransportError\<close>: the text of a \<open>RangeError\<close> is the engine's; its name stands for it.\<close>

fun normalizeTransportError :: "string \<Rightarrow> error \<Rightarrow> error" where
  "normalizeTransportError context (PlainError s xs) = TransportError (context @ '': '' @ s) xs"
| "normalizeTransportError context RangeError = TransportError (context @ '': RangeError'') []"
| "normalizeTransportError context e = e"

definition connectFailed :: "error \<Rightarrow> error" where
  "connectFailed = normalizeTransportError ''reconnect connect attempt failed''"

definition retryContext :: "'c ReconnectWorld \<Rightarrow> nat \<Rightarrow> error \<Rightarrow> ReconnectPolicyContext" where
  "retryContext w failed e =
     \<lparr>rc_attempt = int failed + 1, rc_elapsedMs = max 0 (rw_now w failed - rw_startedAt w), rc_error = connectFailed e\<rparr>"

text \<open>
  The catch block of an iteration up to the sleep: the error that ends the loop, or the delay.
\<close>

definition retryDelay :: "ReconnectPolicy \<Rightarrow> ReconnectPolicyContext \<Rightarrow> int result" where
  "retryDelay policy context =
     (case rp_shouldRetry policy context of
        Inl e \<Rightarrow> Inl (normalizeTransportError ''reconnect policy shouldRetry failed'' e)
      | Inr False \<Rightarrow> Inl (rc_error context)
      | Inr True \<Rightarrow>
          (case rp_nextDelayMs policy context of
             Inl e \<Rightarrow> Inl (normalizeTransportError ''reconnect policy nextDelayMs failed'' e)
           | Inr rawDelayMs \<Rightarrow>
               bindE (assertNonNegativeFinite rawDelayMs ''reconnect delay'') (\<lambda>_.
               Inr (roundMs (finiteValue rawDelayMs)))))"

partial_function (option) reconnectLoop ::
  "ReconnectPolicy \<Rightarrow> 'c ReconnectWorld \<Rightarrow> nat \<Rightarrow> reconnect_action list \<Rightarrow> ('c result \<times> reconnect_action list) option"
where
  "reconnectLoop policy w failed actions =
     (if rw_aborted w failed then Some (Inl reconnectAborted, actions)
      else case rw_connect w failed of
        Inr c \<Rightarrow> Some (Inr c, actions @ [Connect])
      | Inl e \<Rightarrow>
          let context = retryContext w failed e
          in (case retryDelay policy context of
                Inl e' \<Rightarrow> Some (Inl e', actions @ [Connect])
              | Inr delayMs \<Rightarrow>
                  if rw_abortedBeforeSleep w failed
                  then Some (Inl reconnectAborted, actions @ [Connect, OnRetry context delayMs])
                  else case rw_sleep w failed of
                    Inl e' \<Rightarrow> Some (Inl (normalizeTransportError ''reconnect sleep failed'' e'),
                                   actions @ [Connect, OnRetry context delayMs, Sleep delayMs])
                  | Inr _ \<Rightarrow> reconnectLoop policy w (failed + 1)
                               (actions @ [Connect, OnRetry context delayMs, Sleep delayMs])))"

definition connectWithReconnect ::
  "ReconnectPolicy \<Rightarrow> 'c ReconnectWorld \<Rightarrow> ('c result \<times> reconnect_action list) option" where
  "connectWithReconnect policy w = reconnectLoop policy w 0 []"

section \<open>Policies that give up\<close>

definition connects :: "reconnect_action list \<Rightarrow> nat" where
  "connects actions = length (filter ((=) Connect) actions)"

lemma connects_append [simp]: "connects (xs @ ys) = connects xs + connects ys"
  by (simp add: connects_def)

lemma connects_simps [simp]:
  "connects [] = 0" "connects (Connect # xs) = Suc (connects xs)"
  "connects (OnRetry c d # xs) = connects xs" "connects (Sleep d # xs) = connects xs"
  by (simp_all add: connects_def)

text \<open>The contract under which the loop ends: from some attempt on the policy does not retry.\<close>

locale bounded_policy =
  fixes policy :: ReconnectPolicy and limit :: int
  assumes gives_up: "rc_attempt ctx > limit \<Longrightarrow> rp_shouldRetry policy ctx \<noteq> Inr True"
begin

lemma no_delay: "rc_attempt ctx > limit \<Longrightarrow> retryDelay policy ctx \<noteq> Inr d"
  using gives_up [of ctx] by (auto simp: retryDelay_def split: sum.splits bool.splits)

text \<open>The loop returns after at most one attempt more than the limit.\<close>

lemma loop_returns:
  "\<exists>r log. reconnectLoop policy w failed actions = Some (r, log) \<and>
     connects log \<le> connects actions + nat (limit - int failed) + 1"
proof (induction "nat (limit + 1 - int failed)" arbitrary: failed actions rule: less_induct)
  case less
  let ?e = "projl (rw_connect w failed)"
  let ?c = "retryContext w failed ?e"
  show ?case
  proof (cases "\<not> rw_aborted w failed \<and> isl (rw_connect w failed) \<and> (\<exists>d. retryDelay policy ?c = Inr d)
      \<and> \<not> rw_abortedBeforeSleep w failed \<and> \<not> isl (rw_sleep w failed)")
    case True
    then obtain d where d: "retryDelay policy ?c = Inr d" by blast
    then have le: "int failed + 1 \<le> limit"
      using no_delay [of ?c d] by (force simp: retryContext_def)
    let ?as = "actions @ [Connect, OnRetry ?c d, Sleep d]"
    obtain r log where "reconnectLoop policy w (failed + 1) ?as = Some (r, log)"
      "connects log \<le> connects ?as + nat (limit - int (failed + 1)) + 1"
      using less [of "failed + 1" ?as] le by auto
    moreover have "reconnectLoop policy w failed actions = reconnectLoop policy w (failed + 1) ?as"
      using True d by (subst reconnectLoop.simps) (auto simp: Let_def split: sum.splits)
    ultimately show ?thesis using le by (auto simp: nat_diff_distrib')
  next
    case False
    then show ?thesis
      by (subst (1) reconnectLoop.simps) (auto simp: Let_def split: sum.splits)
  qed
qed

end

interpretation backoff: bounded_policy "backoffPolicy random b" "bk_maxAttempts b" for random b
  by unfold_locales (auto simp: backoffPolicy_def backoffShouldRetry_def bindE_def split: sum.splits option.splits)

section \<open>What a run of the loop shows\<close>

text \<open>The attempts before the one numbered \<open>n\<close> have failed and were retried.\<close>

definition retried :: "ReconnectPolicy \<Rightarrow> 'c ReconnectWorld \<Rightarrow> nat \<Rightarrow> bool" where
  "retried policy w k \<longleftrightarrow> \<not> rw_aborted w k \<and>
     (\<exists>e d. rw_connect w k = Inl e \<and> retryDelay policy (retryContext w k e) = Inr d \<and>
        \<not> rw_abortedBeforeSleep w k \<and> rw_sleep w k = Inr ())"

lemma loop_retries:
  "(\<And>k. failed \<le> k \<Longrightarrow> k < failed + n \<Longrightarrow> retried policy w k) \<Longrightarrow>
    \<exists>log. reconnectLoop policy w failed actions = reconnectLoop policy w (failed + n) log \<and>
      connects log = connects actions + n"
proof (induction n arbitrary: failed actions)
  case (Suc n)
  obtain e d where e: "\<not> rw_aborted w failed" "rw_connect w failed = Inl e"
    "retryDelay policy (retryContext w failed e) = Inr d" "\<not> rw_abortedBeforeSleep w failed" "rw_sleep w failed = Inr ()"
    using Suc.prems [of failed] by (auto simp: retried_def)
  let ?as = "actions @ [Connect, OnRetry (retryContext w failed e) d, Sleep d]"
  have "reconnectLoop policy w failed actions = reconnectLoop policy w (failed + 1) ?as"
    using e by (subst reconnectLoop.simps) (simp add: Let_def)
  moreover obtain log where "reconnectLoop policy w (failed + 1) ?as = reconnectLoop policy w (failed + 1 + n) log"
    "connects log = connects ?as + n"
    using Suc.IH [of "failed + 1" ?as] Suc.prems by auto
  ultimately show ?case by (auto simp: add.commute)
qed auto


lemma loop_some: "reconnectLoop policy w failed actions = Some y \<Longrightarrow> \<exists>n\<ge>failed. \<not> retried policy w n"
proof (induction rule: reconnectLoop.raw_induct [rotated, consumes 1])
  case (1 loop policy w failed actions y)
  show ?case
  proof (cases "retried policy w failed")
    case True
    then obtain e d where "\<not> rw_aborted w failed" "rw_connect w failed = Inl e"
      "retryDelay policy (retryContext w failed e) = Inr d" "\<not> rw_abortedBeforeSleep w failed" "rw_sleep w failed = Inr ()"
      by (auto simp: retried_def)
    then have "loop policy w (failed + 1)
        (actions @ [Connect, OnRetry (retryContext w failed e) d, Sleep d]) = Some y"
      using 1(2) by (simp add: Let_def)
    from 1(1) [OF this] obtain n where "failed + 1 \<le> n" "\<not> retried policy w n" by blast
    then show ?thesis by (intro exI [of _ n]) simp
  qed blast
qed

text \<open>The result of the iteration that is not followed by another.\<close>

definition lastResult :: "ReconnectPolicy \<Rightarrow> 'c ReconnectWorld \<Rightarrow> nat \<Rightarrow> 'c result" where
  "lastResult policy w n =
     (if rw_aborted w n then Inl reconnectAborted
      else case rw_connect w n of
        Inr c \<Rightarrow> Inr c
      | Inl e \<Rightarrow>
          (case retryDelay policy (retryContext w n e) of
             Inl e' \<Rightarrow> Inl e'
           | Inr _ \<Rightarrow>
               if rw_abortedBeforeSleep w n then Inl reconnectAborted
               else Inl (case rw_sleep w n of Inl e' \<Rightarrow> normalizeTransportError ''reconnect sleep failed'' e'
                         | Inr _ \<Rightarrow> Diverges)))"

lemma loop_last:
  "\<not> retried policy w n \<Longrightarrow> \<exists>log. reconnectLoop policy w n actions = Some (lastResult policy w n, log) \<and>
     connects log = connects actions + (if rw_aborted w n then 0 else 1)"
  by (subst reconnectLoop.simps) (auto simp: lastResult_def retried_def Let_def split: sum.splits)

lemma loop_result:
  assumes "\<And>k. k < n \<Longrightarrow> retried policy w k" "\<not> retried policy w n"
  shows "\<exists>log. connectWithReconnect policy w = Some (lastResult policy w n, log) \<and>
    connects log = n + (if rw_aborted w n then 0 else 1)"
proof -
  obtain log where "connectWithReconnect policy w = reconnectLoop policy w n log" "connects log = n"
    using loop_retries [of 0 n policy w "[]"] assms(1) by (auto simp: connectWithReconnect_def)
  then show ?thesis using loop_last [OF assms(2), of log] by auto
qed

lemma first_retried_or_last:
  "(\<forall>k. retried policy w k) \<or>
   (\<exists>n log. (\<forall>k<n. retried policy w k) \<and> \<not> retried policy w n \<and>
      connectWithReconnect policy w = Some (lastResult policy w n, log))"
proof (cases "\<forall>k. retried policy w k")
  case False
  then obtain n where "\<forall>k<n. retried policy w k" "\<not> retried policy w n"
    using exists_least_iff [of "\<lambda>n. \<not> retried policy w n"] by blast
  then show ?thesis using loop_result [of n policy w] by blast
qed blast

lemma first_not_retried:
  assumes "connectWithReconnect policy w = Some y"
  obtains n where "\<And>k. k < n \<Longrightarrow> retried policy w k" "\<not> retried policy w n"
  using assms first_retried_or_last [of policy w] loop_some [of policy w 0 "[]" y]
  by (auto simp: connectWithReconnect_def)

lemma lastResult_Inr:
  "lastResult policy w n = Inr c \<longleftrightarrow> \<not> rw_aborted w n \<and> rw_connect w n = Inr c"
  by (auto simp: lastResult_def split: sum.splits)

section \<open>The delays of the backoff\<close>

definition backoffOk :: "Backoff \<Rightarrow> bool" where
  "backoffOk b \<longleftrightarrow> 0 \<le> bk_maxAttempts b \<and> 0 \<le> bk_initialDelayMs b \<and> bk_initialDelayMs b \<le> bk_maxDelayMs b \<and>
     0 < bk_maxDelayMs b \<and> 1 \<le> bk_factor b \<and> 0 \<le> bk_jitterRatio b \<and> bk_jitterRatio b \<le> 1"

lemma backoffOf_ok: "backoffOf options = Inr b \<Longrightarrow> backoffOk b"
  by (auto simp: backoffOf_def backoffOk_def Let_def bindE_eq_Inr assertNonNegativeInt_Inr
      assertNonNegativeFinite_Inr assertPositiveFinite_Inr jint_def split: if_splits)

lemma roundMs_mono: "p \<le> q \<Longrightarrow> roundMs p \<le> roundMs q"
  by (simp add: roundMs_def floor_mono)

lemma roundMs_of_int [simp]: "roundMs (of_int i) = i"
  by (simp add: roundMs_def floor_unique)

lemma roundMs_numeral [simp]: "roundMs (numeral n) = numeral n"
  using roundMs_of_int [of "numeral n"] by simp

lemma roundMs_nonneg: "0 \<le> q \<Longrightarrow> 0 \<le> roundMs q"
  by (simp add: roundMs_def)

lemma cappedDelay_bounds:
  assumes "backoffOk b"
  shows "bk_initialDelayMs b \<le> cappedDelay b attempt \<and> cappedDelay b attempt \<le> bk_maxDelayMs b"
proof -
  have "1 \<le> bk_factor b ^ nat (attempt - 1)" using assms by (simp add: backoffOk_def one_le_power)
  then have "bk_initialDelayMs b * 1 \<le> bk_initialDelayMs b * bk_factor b ^ nat (attempt - 1)"
    using assms by (intro mult_left_mono) (auto simp: backoffOk_def)
  then show ?thesis using assms by (auto simp: cappedDelay_def backoffOk_def)
qed

lemma cappedDelay_mono:
  assumes "backoffOk b" "i \<le> j"
  shows "cappedDelay b i \<le> cappedDelay b j"
proof -
  have "bk_factor b ^ nat (i - 1) \<le> bk_factor b ^ nat (j - 1)"
    using assms by (intro power_increasing) (auto simp: backoffOk_def)
  then have "bk_initialDelayMs b * bk_factor b ^ nat (i - 1) \<le> bk_initialDelayMs b * bk_factor b ^ nat (j - 1)"
    using assms by (intro mult_left_mono) (auto simp: backoffOk_def)
  then show ?thesis by (auto simp: cappedDelay_def)
qed

text \<open>The spread of the jitter around a delay.\<close>

lemma jitter_between:
  assumes "0 \<le> d" "0 \<le> j" "j \<le> (1 :: rat)" "0 \<le> r" "r < 1"
  shows "d * (1 - j) \<le> d - d * j + (d + d * j - (d - d * j)) * r"
    and "d - d * j + (d + d * j - (d - d * j)) * r \<le> d * (1 + j)"
proof -
  have *: "0 \<le> d * j" using assms by simp
  have "d * j * r \<le> d * j * 1" using assms * by (intro mult_left_mono) auto
  then show "d - d * j + (d + d * j - (d - d * j)) * r \<le> d * (1 + j)"
    by (simp add: algebra_simps)
  have "0 \<le> d * j * r" using assms * by simp
  then show "d * (1 - j) \<le> d - d * j + (d + d * j - (d - d * j)) * r"
    by (simp add: algebra_simps)
qed

lemma nextDelay_bounds:
  assumes b: "backoffOk b" and d: "backoffNextDelayMs b random ctx = Inr raw"
  shows "\<exists>ms. raw = jint ms \<and>
    roundMs (cappedDelay b (rc_attempt ctx) * (1 - bk_jitterRatio b)) \<le> ms \<and>
    ms \<le> roundMs (cappedDelay b (rc_attempt ctx) * (1 + bk_jitterRatio b)) \<and> 0 \<le> ms"
proof -
  let ?d = "cappedDelay b (rc_attempt ctx)" and ?j = "bk_jitterRatio b"
  have d0: "0 \<le> ?d" using cappedDelay_bounds [OF b, of "rc_attempt ctx"] b by (auto simp: backoffOk_def)
  have j: "0 \<le> ?j" "?j \<le> 1" using b by (auto simp: backoffOk_def)
  show ?thesis
  proof (cases "?j = 0 \<or> ?d = 0")
    case True
    then have "raw = jint (roundMs ?d)"
      using d by (auto simp: backoffNextDelayMs_def Let_def bindE_eq_Inr)
    then show ?thesis using True d0 by (auto simp: roundMs_nonneg)
  next
    case False
    then obtain r where r: "0 \<le> r" "r < 1" "random (rc_attempt ctx) = Num r"
      using d by (cases "random (rc_attempt ctx)")
        (auto simp: backoffNextDelayMs_def Let_def bindE_eq_Inr jint_def split: if_splits)
    have raw: "raw = jint (max 0 (roundMs (?d - ?d * ?j + (?d + ?d * ?j - (?d - ?d * ?j)) * r)))"
      using d False r by (auto simp: backoffNextDelayMs_def Let_def bindE_eq_Inr mult.commute mult.left_commute split: if_splits)
    note jb = jitter_between [OF d0 j r(1,2)]
    have "0 \<le> ?d * (1 - ?j)" using d0 j by simp
    then show ?thesis
      using roundMs_mono [OF jb(1)] roundMs_mono [OF jb(2)] raw roundMs_nonneg by force
  qed
qed

end
