(* ===== verification/Connection_Pool.thy ===== *)
theory Connection_Pool
  imports Js_Validation "HOL-Library.Multiset"
begin

text \<open>
  \<open>RpcConnectionPool\<close> of \<open>src/rpc/transports/resilience/connection_pool.ts\<close> as a state machine. An
  event is one run of the code between two awaits: a call of \<open>acquire\<close> up to its first await, the
  end of a health check, the two ends of a connection attempt (the \<open>finally\<close> block that gives its
  slot back, then the code that awaited it), a timer, a signal, \<open>release\<close>, the steps of \<open>close\<close>.
  The \<open>Map\<close> of the idle connections and the \<open>Set\<close> of the active ones are lists in insertion order.
  The factory, the health check, the timers and the signals are the environment. Closing a connection
  is an action whose errors are swallowed and whose end nothing in the pool waits for but the answer
  that follows it. The second call of \<open>schedulePendingCreateDrain\<close> for an attempt that fails while the
  signal of its acquire is already aborted, some microtasks after the first, is left out.
\<close>

section \<open>State\<close>

type_synonym conn = nat

record RpcConnectionPoolOptions =
  op_minConnections :: "number option"
  op_maxConnections :: "number option"
  op_idleTimeoutMs :: "number option"
  op_acquireTimeoutMs :: "number option"
  op_healthCheck :: bool
  op_healthCheckIdleMs :: "number option"
  op_closeWarmupSettleMs :: "number option"

record PendingAcquire =
  pa_acquire :: nat
  pa_signal :: bool
  pa_settled :: bool

text \<open>Who waits for a connection attempt.\<close>

datatype AttemptUser =
    ForAcquire nat bool
  | Detached
  | ForDrain
  | ForWarmUp
  | ForNobody

text \<open>
  \<open>Settled\<close>: the slot is given back and the code that waits has not run yet; \<open>Scheduling\<close>: a
  warm-up that has only its \<open>finally\<close> block left.
\<close>

datatype AttemptStage =
    Connecting
  | Settled "conn result"
  | Scheduling

datatype DrainState = NoDrain | Draining | DrainEnding

record RpcConnectionPool =
  cp_minConnections :: int
  cp_maxConnections :: int
  cp_healthCheck :: bool
  cp_healthCheckIdleMs :: rat
  cp_idle :: "(conn \<times> int) list"
  cp_active :: "conn list"
  cp_pending :: "PendingAcquire list"
  cp_pendingSettled :: int
  cp_closed :: bool
  cp_closeDone :: bool
  cp_connecting :: int
  cp_drain :: DrainState
  cp_warmupSucceeded :: int
  cp_warmupFailed :: int
  cp_checks :: "(nat \<times> conn \<times> bool) list"
  cp_attempts :: "(nat \<times> AttemptUser \<times> AttemptStage) list"
  cp_nextAcquire :: nat
  cp_nextAttempt :: nat

datatype pool_action =
    OpenConnection nat
  | CheckHealth conn
  | ConnectionOpened conn
  | CloseConnection conn
  | AnswerAcquire nat "conn result"

text \<open>One run of code after another, their actions in order.\<close>

definition andThen :: "'a list \<times> 's \<Rightarrow> ('s \<Rightarrow> 'a list \<times> 's) \<Rightarrow> 'a list \<times> 's" where
  "andThen r f = (let (as, s) = r; (bs, t) = f s in (as @ bs, t))"

definition poolClosed :: error where
  "poolClosed = SessionError ''connection pool is closed'' []"

definition acquireAborted :: error where
  "acquireAborted = SessionError ''connection pool acquire aborted'' []"

definition acquireTimedOut :: error where
  "acquireTimedOut = SessionError ''connection pool acquire timed out'' []"

definition normalizeConnectionCreateError :: "error \<Rightarrow> error" where
  "normalizeConnectionCreateError e =
     (case e of SessionError s xs \<Rightarrow> e | _ \<Rightarrow> SessionError ''connection pool: failed to create connection'' [])"

section \<open>Waiters\<close>

definition hasPendingAcquires :: "RpcConnectionPool \<Rightarrow> bool" where
  "hasPendingAcquires s \<longleftrightarrow> int (length (cp_pending s)) > cp_pendingSettled s"

definition canCreateConnection :: "RpcConnectionPool \<Rightarrow> bool" where
  "canCreateConnection s \<longleftrightarrow>
     int (length (cp_idle s)) + int (length (cp_active s)) + cp_connecting s < cp_maxConnections s"

definition compactPending :: "RpcConnectionPool \<Rightarrow> RpcConnectionPool" where
  "compactPending s =
     (if cp_pendingSettled s < 16 then s
      else s\<lparr>cp_pending := filter (\<lambda>w. \<not> pa_settled w) (cp_pending s), cp_pendingSettled := 0\<rparr>)"

fun takeWaiter :: "PendingAcquire list \<Rightarrow> int \<Rightarrow> PendingAcquire option \<times> PendingAcquire list \<times> int" where
  "takeWaiter [] settled = (None, [], settled)"
| "takeWaiter (w # ws) settled =
     (if pa_settled w then takeWaiter ws (settled - 1) else (Some w, ws, settled))"

definition takeNextPendingAcquire :: "RpcConnectionPool \<Rightarrow> nat option \<times> RpcConnectionPool" where
  "takeNextPendingAcquire s =
     (case takeWaiter (cp_pending s) (cp_pendingSettled s) of
        (None, ws, n) \<Rightarrow> (None, s\<lparr>cp_pending := ws, cp_pendingSettled := n\<rparr>)
      | (Some w, ws, n) \<Rightarrow> (Some (pa_acquire w), compactPending (s\<lparr>cp_pending := ws, cp_pendingSettled := n\<rparr>)))"

text \<open>\<open>#rejectPendingAcquire\<close> on a waiter that is in the queue.\<close>

definition rejectPendingAcquire :: "nat \<Rightarrow> error \<Rightarrow> RpcConnectionPool \<Rightarrow> pool_action list \<times> RpcConnectionPool" where
  "rejectPendingAcquire a e s =
     (if \<exists>w\<in>set (cp_pending s). pa_acquire w = a \<and> \<not> pa_settled w
      then ([AnswerAcquire a (Inl e)],
            compactPending
              (s\<lparr>cp_pending := map (\<lambda>w. if pa_acquire w = a then w\<lparr>pa_settled := True\<rparr> else w) (cp_pending s),
                 cp_pendingSettled := cp_pendingSettled s + 1\<rparr>))
      else ([], s))"

section \<open>Connections\<close>

definition addActive :: "conn \<Rightarrow> RpcConnectionPool \<Rightarrow> RpcConnectionPool" where
  "addActive c s = (if c \<in> set (cp_active s) then s else s\<lparr>cp_active := cp_active s @ [c]\<rparr>)"

definition parkIdleConnection :: "conn \<Rightarrow> int \<Rightarrow> RpcConnectionPool \<Rightarrow> RpcConnectionPool" where
  "parkIdleConnection c lastUsedAt s = s\<lparr>cp_idle := AList.update c lastUsedAt (cp_idle s)\<rparr>"

text \<open>\<open>#handoffPendingAcquire\<close>, with what its caller does when there is no waiter.\<close>

definition handoffElse ::
  "conn \<Rightarrow> (RpcConnectionPool \<Rightarrow> pool_action list \<times> RpcConnectionPool) \<Rightarrow> RpcConnectionPool \<Rightarrow> pool_action list \<times> RpcConnectionPool"
where
  "handoffElse c f s =
     (case takeNextPendingAcquire s of
        (None, s) \<Rightarrow> f s
      | (Some a, s) \<Rightarrow> ([AnswerAcquire a (Inr c)], addActive c s))"

definition handoffOrPark :: "conn \<Rightarrow> int \<Rightarrow> RpcConnectionPool \<Rightarrow> pool_action list \<times> RpcConnectionPool" where
  "handoffOrPark c now = handoffElse c (\<lambda>s. ([], parkIdleConnection c now s))"

text \<open>\<open>#beginConnectAttempt\<close>; its callers have seen that there is room.\<close>

definition beginConnectAttempt :: "AttemptUser \<Rightarrow> RpcConnectionPool \<Rightarrow> pool_action list \<times> RpcConnectionPool" where
  "beginConnectAttempt user s =
     ([OpenConnection (cp_nextAttempt s)],
      s\<lparr>cp_connecting := cp_connecting s + 1,
        cp_attempts := (cp_nextAttempt s, user, Connecting) # cp_attempts s,
        cp_nextAttempt := cp_nextAttempt s + 1\<rparr>)"

text \<open>An iteration of the loop of \<open>#drainPendingAcquires\<close> up to its await, or the end of the loop.\<close>

definition drainPendingAcquires :: "RpcConnectionPool \<Rightarrow> pool_action list \<times> RpcConnectionPool" where
  "drainPendingAcquires s =
     (if \<not> cp_closed s \<and> hasPendingAcquires s \<and> canCreateConnection s
      then beginConnectAttempt ForDrain (s\<lparr>cp_drain := Draining\<rparr>)
      else ([], s\<lparr>cp_drain := DrainEnding\<rparr>))"

definition schedulePendingCreateDrain :: "RpcConnectionPool \<Rightarrow> pool_action list \<times> RpcConnectionPool" where
  "schedulePendingCreateDrain s =
     (if cp_drain s \<noteq> NoDrain \<or> cp_closed s \<or> \<not> hasPendingAcquires s \<or> \<not> canCreateConnection s then ([], s)
      else drainPendingAcquires s)"

section \<open>Acquiring\<close>

text \<open>
  \<open>acquire\<close> from the head of its loop to the next await or to its answer. The signal was looked at
  in the same run of code, so \<open>aborted\<close> is its value throughout.
\<close>

definition lend :: "nat \<Rightarrow> conn \<Rightarrow> bool \<Rightarrow> int \<Rightarrow> RpcConnectionPool \<Rightarrow> pool_action list \<times> RpcConnectionPool" where
  "lend a c aborted now s =
     (if aborted then
        andThen (if cp_closed s then ([CloseConnection c], s) else handoffOrPark c now s)
          (\<lambda>s. ([AnswerAcquire a (Inl acquireAborted)], s))
      else ([AnswerAcquire a (Inr c)], addActive c s))"

definition acquireTurn :: "nat \<Rightarrow> bool \<Rightarrow> bool \<Rightarrow> int \<Rightarrow> RpcConnectionPool \<Rightarrow> pool_action list \<times> RpcConnectionPool" where
  "acquireTurn a signal aborted now s =
     (case cp_idle s of
        (c, lastUsedAt) # idle \<Rightarrow>
          let s = s\<lparr>cp_idle := idle\<rparr>
          in if cp_healthCheck s \<and> cp_healthCheckIdleMs s \<le> of_int (now - lastUsedAt)
             then ([CheckHealth c], s\<lparr>cp_checks := (a, c, signal) # cp_checks s\<rparr>)
             else lend a c aborted now s
      | [] \<Rightarrow>
          if aborted then ([AnswerAcquire a (Inl acquireAborted)], s)
          else if canCreateConnection s then beginConnectAttempt (ForAcquire a signal) s
          else ([], s\<lparr>cp_pending := cp_pending s @ [\<lparr>pa_acquire = a, pa_signal = signal, pa_settled = False\<rparr>]\<rparr>))"

text \<open>\<open>signal\<close> is \<open>None\<close> without a signal, else whether it is aborted.\<close>

definition acquire ::
  "bool option \<Rightarrow> number option \<Rightarrow> int \<Rightarrow> RpcConnectionPool \<Rightarrow> pool_action list \<times> RpcConnectionPool" where
  "acquire signal timeoutMs now s =
     (let a = cp_nextAcquire s; s = s\<lparr>cp_nextAcquire := a + 1\<rparr>
      in case (case timeoutMs of None \<Rightarrow> Inr () | Some t \<Rightarrow> assertNonNegativeFinite t ''timeoutMs'') of
           Inl e \<Rightarrow> ([AnswerAcquire a (Inl e)], s)
         | Inr _ \<Rightarrow>
             if signal = Some True then ([AnswerAcquire a (Inl acquireAborted)], s)
             else if cp_closed s then ([AnswerAcquire a (Inl poolClosed)], s)
             else acquireTurn a (signal \<noteq> None) False now s)"

definition healthChecked ::
  "nat \<Rightarrow> bool \<Rightarrow> bool \<Rightarrow> int \<Rightarrow> RpcConnectionPool \<Rightarrow> pool_action list \<times> RpcConnectionPool" where
  "healthChecked a healthy aborted now s =
     (case map_of (cp_checks s) a of
        None \<Rightarrow> ([], s)
      | Some (c, signal) \<Rightarrow>
          let s = s\<lparr>cp_checks := AList.delete a (cp_checks s)\<rparr>
          in if healthy then lend a c (signal \<and> aborted) now s
             else andThen ([CloseConnection c], s) (acquireTurn a signal (signal \<and> aborted) now))"

section \<open>Connection attempts\<close>

definition connectSettled :: "nat \<Rightarrow> conn result \<Rightarrow> RpcConnectionPool \<Rightarrow> pool_action list \<times> RpcConnectionPool" where
  "connectSettled t outcome s =
     (case map_of (cp_attempts s) t of
        Some (user, Connecting) \<Rightarrow>
          (case outcome of Inr c \<Rightarrow> [ConnectionOpened c] | Inl _ \<Rightarrow> [],
           s\<lparr>cp_connecting := max 0 (cp_connecting s - 1),
                cp_attempts := AList.update t (user, Settled outcome) (cp_attempts s)\<rparr>)
      | _ \<Rightarrow> ([], s))"

text \<open>The code after the await of an attempt, for each of those who wait for one.\<close>

definition createdForAcquire :: "nat \<Rightarrow> conn result \<Rightarrow> RpcConnectionPool \<Rightarrow> pool_action list \<times> RpcConnectionPool" where
  "createdForAcquire a outcome s =
     (case outcome of
        Inr c \<Rightarrow>
          if cp_closed s
          then andThen ([CloseConnection c], s) (\<lambda>s.
               andThen (schedulePendingCreateDrain s) (\<lambda>s. ([AnswerAcquire a (Inl poolClosed)], s)))
          else ([AnswerAcquire a (Inr c)], addActive c s)
      | Inl e \<Rightarrow>
          andThen (schedulePendingCreateDrain s) (\<lambda>s. ([AnswerAcquire a (Inl (normalizeConnectionCreateError e))], s)))"

definition createdDetached :: "conn result \<Rightarrow> RpcConnectionPool \<Rightarrow> pool_action list \<times> RpcConnectionPool" where
  "createdDetached outcome s =
     andThen
       (case outcome of
          Inr c \<Rightarrow> if cp_closed s then ([CloseConnection c], s) else handoffElse c (\<lambda>s. ([CloseConnection c], s)) s
        | Inl e \<Rightarrow> ([], s))
       schedulePendingCreateDrain"

definition createdForDrain :: "conn result \<Rightarrow> int \<Rightarrow> RpcConnectionPool \<Rightarrow> pool_action list \<times> RpcConnectionPool" where
  "createdForDrain outcome now s =
     (case outcome of
        Inr c \<Rightarrow>
          if cp_closed s then ([CloseConnection c], s\<lparr>cp_drain := DrainEnding\<rparr>)
          else (case takeNextPendingAcquire s of
                  (Some a, s) \<Rightarrow> andThen ([AnswerAcquire a (Inr c)], addActive c s) drainPendingAcquires
                | (None, s) \<Rightarrow> ([], (parkIdleConnection c now s)\<lparr>cp_drain := DrainEnding\<rparr>))
      | Inl e \<Rightarrow>
          (case takeNextPendingAcquire s of
             (Some a, s) \<Rightarrow> andThen ([AnswerAcquire a (Inl (normalizeConnectionCreateError e))], s) drainPendingAcquires
           | (None, s) \<Rightarrow> drainPendingAcquires s))"

definition createdForWarmUp :: "conn result \<Rightarrow> int \<Rightarrow> RpcConnectionPool \<Rightarrow> pool_action list \<times> RpcConnectionPool" where
  "createdForWarmUp outcome now s =
     (case outcome of
        Inl e \<Rightarrow> ([], s\<lparr>cp_warmupFailed := cp_warmupFailed s + 1\<rparr>)
      | Inr c \<Rightarrow>
          let s = s\<lparr>cp_warmupSucceeded := cp_warmupSucceeded s + 1\<rparr>
          in if cp_closed s then ([CloseConnection c], s) else handoffOrPark c now s)"

definition attemptContinues :: "nat \<Rightarrow> int \<Rightarrow> RpcConnectionPool \<Rightarrow> pool_action list \<times> RpcConnectionPool" where
  "attemptContinues t now s =
     (let gone = s\<lparr>cp_attempts := AList.delete t (cp_attempts s)\<rparr>
      in case map_of (cp_attempts s) t of
           Some (user, Settled outcome) \<Rightarrow>
             (case user of
                ForAcquire a _ \<Rightarrow> createdForAcquire a outcome gone
              | Detached \<Rightarrow> createdDetached outcome gone
              | ForDrain \<Rightarrow> createdForDrain outcome now gone
              | ForWarmUp \<Rightarrow>
                  createdForWarmUp outcome now (s\<lparr>cp_attempts := AList.update t (ForWarmUp, Scheduling) (cp_attempts s)\<rparr>)
              | ForNobody \<Rightarrow> (case outcome of Inr c \<Rightarrow> ([CloseConnection c], gone) | Inl _ \<Rightarrow> ([], gone)))
         | Some (ForWarmUp, Scheduling) \<Rightarrow> schedulePendingCreateDrain gone
         | _ \<Rightarrow> ([], s))"

definition drainFinished :: "RpcConnectionPool \<Rightarrow> pool_action list \<times> RpcConnectionPool" where
  "drainFinished s =
     (if cp_drain s = DrainEnding then schedulePendingCreateDrain (s\<lparr>cp_drain := NoDrain\<rparr>) else ([], s))"

section \<open>Signals and timers\<close>

text \<open>An abort rejects a waiter, or wins the race with the attempt its acquire waits for.\<close>

definition acquireSignalAborts :: "nat \<Rightarrow> RpcConnectionPool \<Rightarrow> pool_action list \<times> RpcConnectionPool" where
  "acquireSignalAborts a s =
     (if \<exists>w\<in>set (cp_pending s). pa_acquire w = a \<and> pa_signal w then rejectPendingAcquire a acquireAborted s
      else case filter (\<lambda>(t, user, stage). user = ForAcquire a True) (cp_attempts s) of
             [] \<Rightarrow> ([], s)
           | (t, user, stage) # _ \<Rightarrow>
               andThen (schedulePendingCreateDrain
                          (s\<lparr>cp_attempts := AList.update t (Detached, stage) (cp_attempts s)\<rparr>))
                 (\<lambda>s. ([AnswerAcquire a (Inl acquireAborted)], s)))"

definition evictIdle :: "conn \<Rightarrow> RpcConnectionPool \<Rightarrow> pool_action list \<times> RpcConnectionPool" where
  "evictIdle c s =
     (case map_of (cp_idle s) c of
        None \<Rightarrow> ([], s)
      | Some lastUsedAt \<Rightarrow>
          let s = s\<lparr>cp_idle := AList.delete c (cp_idle s)\<rparr>
          in if int (length (cp_idle s)) + int (length (cp_active s)) \<ge> cp_minConnections s
             then ([CloseConnection c], s)
             else ([], parkIdleConnection c lastUsedAt s))"

section \<open>Releasing and closing\<close>

definition releaseConnection :: "conn \<Rightarrow> int \<Rightarrow> RpcConnectionPool \<Rightarrow> pool_action list \<times> RpcConnectionPool" where
  "releaseConnection c now s =
     (if c \<notin> set (cp_active s) then ([], s)
      else let s = s\<lparr>cp_active := remove1 c (cp_active s)\<rparr>
           in if cp_closed s then ([CloseConnection c], s) else handoffOrPark c now s)"

definition closePool :: "RpcConnectionPool \<Rightarrow> pool_action list \<times> RpcConnectionPool" where
  "closePool s = ([], s\<lparr>cp_closed := True\<rparr>)"

text \<open>The close signal wins the race of a warm-up.\<close>

definition warmUpOvertaken :: "nat \<Rightarrow> RpcConnectionPool \<Rightarrow> pool_action list \<times> RpcConnectionPool" where
  "warmUpOvertaken t s =
     (case map_of (cp_attempts s) t of
        Some (ForWarmUp, Scheduling) \<Rightarrow> ([], s)
      | Some (ForWarmUp, stage) \<Rightarrow>
          ([], if cp_closed s then s\<lparr>cp_attempts := AList.update t (ForNobody, stage) (cp_attempts s)\<rparr> else s)
      | _ \<Rightarrow> ([], s))"

text \<open>\<open>#doClose\<close> after it has waited for the warm-ups.\<close>

definition finishClose :: "RpcConnectionPool \<Rightarrow> pool_action list \<times> RpcConnectionPool" where
  "finishClose s =
     (if \<not> cp_closed s \<or> cp_closeDone s \<or> (\<exists>(t, user, stage)\<in>set (cp_attempts s). user = ForWarmUp) then ([], s)
      else (map (\<lambda>w. AnswerAcquire (pa_acquire w) (Inl poolClosed)) (filter (\<lambda>w. \<not> pa_settled w) (cp_pending s)) @
            map CloseConnection (map fst (cp_idle s)) @ map CloseConnection (cp_active s),
            s\<lparr>cp_pending := [], cp_pendingSettled := 0, cp_idle := [], cp_active := [], cp_closeDone := True\<rparr>))"

section \<open>Histories\<close>

fun warmUp :: "nat \<Rightarrow> RpcConnectionPool \<Rightarrow> pool_action list \<times> RpcConnectionPool" where
  "warmUp 0 s = ([], s)"
| "warmUp (Suc n) s =
     andThen (if canCreateConnection s then beginConnectAttempt ForWarmUp s
              else ([], s\<lparr>cp_warmupFailed := cp_warmupFailed s + 1\<rparr>)) (warmUp n)"

definition newRpcConnectionPool :: "RpcConnectionPoolOptions \<Rightarrow> (pool_action list \<times> RpcConnectionPool) result" where
  "newRpcConnectionPool options =
     (let minConnections = orElse (op_minConnections options) (jint 0);
          maxConnections = orElse (op_maxConnections options) (jint 8);
          healthCheckIdleMs = orElse (op_healthCheckIdleMs options) (jint 10000)
      in bindE (assertNonNegativeInt minConnections ''minConnections'') (\<lambda>_.
         bindE (assertPositiveInteger maxConnections ''maxConnections'') (\<lambda>_.
         bindE (assertNonNegativeFinite (orElse (op_idleTimeoutMs options) (jint 30000)) ''idleTimeoutMs'') (\<lambda>_.
         bindE (assertNonNegativeFinite (orElse (op_acquireTimeoutMs options) (jint 5000)) ''acquireTimeoutMs'') (\<lambda>_.
         bindE (assertNonNegativeFinite healthCheckIdleMs ''healthCheckIdleMs'') (\<lambda>_.
         bindE (assertNonNegativeFinite (orElse (op_closeWarmupSettleMs options) (jint 25)) ''closeWarmupSettleMs'') (\<lambda>_.
         if numLess maxConnections minConnections
         then Inl (SessionError ''minConnections must not exceed maxConnections'' [])
         else Inr (warmUp (nat (toInt minConnections))
           \<lparr>cp_minConnections = toInt minConnections, cp_maxConnections = toInt maxConnections,
            cp_healthCheck = op_healthCheck options, cp_healthCheckIdleMs = finiteValue healthCheckIdleMs,
            cp_idle = [], cp_active = [], cp_pending = [], cp_pendingSettled = 0, cp_closed = False,
            cp_closeDone = False, cp_connecting = 0, cp_drain = NoDrain, cp_warmupSucceeded = 0,
            cp_warmupFailed = 0, cp_checks = [], cp_attempts = [], cp_nextAcquire = 0, cp_nextAttempt = 0\<rparr>))))))))"

datatype pool_event =
    Acquire "bool option" "number option" int
  | HealthChecked nat bool bool int
  | ConnectSettled nat "conn result"
  | AttemptContinues nat int
  | DrainFinished
  | AcquireSignalAborts nat
  | AcquireTimesOut nat
  | IdleTimeout conn
  | Release conn int
  | Close
  | WarmUpOvertaken nat
  | FinishClose

fun poolStep :: "RpcConnectionPool \<Rightarrow> pool_event \<Rightarrow> pool_action list \<times> RpcConnectionPool" where
  "poolStep s (Acquire signal timeoutMs now) = acquire signal timeoutMs now s"
| "poolStep s (HealthChecked a healthy aborted now) = healthChecked a healthy aborted now s"
| "poolStep s (ConnectSettled t outcome) = connectSettled t outcome s"
| "poolStep s (AttemptContinues t now) = attemptContinues t now s"
| "poolStep s DrainFinished = drainFinished s"
| "poolStep s (AcquireSignalAborts a) = acquireSignalAborts a s"
| "poolStep s (AcquireTimesOut a) = rejectPendingAcquire a acquireTimedOut s"
| "poolStep s (IdleTimeout c) = evictIdle c s"
| "poolStep s (Release c now) = releaseConnection c now s"
| "poolStep s Close = closePool s"
| "poolStep s (WarmUpOvertaken t) = warmUpOvertaken t s"
| "poolStep s FinishClose = finishClose s"

text \<open>What the actions of a history say of connections and acquires.\<close>

fun opened :: "pool_action list \<Rightarrow> conn list" where
  "opened [] = []"
| "opened (ConnectionOpened c # as) = c # opened as"
| "opened (_ # as) = opened as"

fun closedConns :: "pool_action list \<Rightarrow> conn list" where
  "closedConns [] = []"
| "closedConns (CloseConnection c # as) = c # closedConns as"
| "closedConns (_ # as) = closedConns as"

fun answeredAcquires :: "pool_action list \<Rightarrow> nat list" where
  "answeredAcquires [] = []"
| "answeredAcquires (AnswerAcquire a _ # as) = a # answeredAcquires as"
| "answeredAcquires (_ # as) = answeredAcquires as"

fun lent :: "pool_action list \<Rightarrow> conn list" where
  "lent [] = []"
| "lent (AnswerAcquire _ (Inr c) # as) = c # lent as"
| "lent (_ # as) = lent as"

text \<open>The lent connections that an event takes back.\<close>

definition takenBack :: "pool_event \<Rightarrow> RpcConnectionPool \<Rightarrow> conn multiset" where
  "takenBack event s =
     (case event of
        Release c _ \<Rightarrow> if c \<in> set (cp_active s) then {#c#} else {#}
      | FinishClose \<Rightarrow> if cp_closeDone (snd (finishClose s)) \<and> \<not> cp_closeDone s then mset (cp_active s) else {#}
      | _ \<Rightarrow> {#})"

text \<open>
  The histories of a pool, with all actions so far. The factory gives a new connection each time.
\<close>

inductive poolRun :: "RpcConnectionPoolOptions \<Rightarrow> pool_action list \<Rightarrow> RpcConnectionPool \<Rightarrow> bool"
  for options where
  created: "newRpcConnectionPool options = Inr (actions, s) \<Longrightarrow> poolRun options actions s"
| stepped: "poolRun options past s \<Longrightarrow> poolStep s event = (actions, s') \<Longrightarrow> distinct (opened (past @ actions)) \<Longrightarrow>
    poolRun options (past @ actions) s'"

fun poolEvents :: "RpcConnectionPool \<Rightarrow> pool_event list \<Rightarrow> pool_action list \<times> RpcConnectionPool" where
  "poolEvents s [] = ([], s)"
| "poolEvents s (event # events) = andThen (poolStep s event) (\<lambda>s. poolEvents s events)"

section \<open>Statistics\<close>

record RpcConnectionPoolStats =
  ps_closed :: bool
  ps_total :: int
  ps_connecting :: int
  ps_idle :: int
  ps_active :: int
  ps_pending :: int
  ps_minConnections :: int
  ps_maxConnections :: int

definition poolStats :: "RpcConnectionPool \<Rightarrow> RpcConnectionPoolStats" where
  "poolStats s =
     \<lparr>ps_closed = cp_closed s, ps_total = int (length (cp_idle s)) + int (length (cp_active s)),
      ps_connecting = cp_connecting s, ps_idle = int (length (cp_idle s)), ps_active = int (length (cp_active s)),
      ps_pending = int (length (cp_pending s)) - cp_pendingSettled s,
      ps_minConnections = cp_minConnections s, ps_maxConnections = cp_maxConnections s\<rparr>"

text \<open>\<open>warmupStats\<close>: the connections requested, connected and failed.\<close>

definition poolWarmupStats :: "RpcConnectionPool \<Rightarrow> int \<times> int \<times> int" where
  "poolWarmupStats s = (max 0 (cp_minConnections s), cp_warmupSucceeded s, cp_warmupFailed s)"

end
