(* ===== verification/Connection_Pool_State.thy ===== *)
theory Connection_Pool_State
  imports Connection_Pool
begin

text \<open>
  The invariant of the connection pool: where each open connection is, who waits for an answer, how
  many attempts hold a slot, and why a waiter is not left behind.
\<close>

section \<open>Places\<close>

definition inTransit :: "nat \<times> AttemptUser \<times> AttemptStage \<Rightarrow> conn multiset" where
  "inTransit = (\<lambda>(t, user, stage). case stage of Settled (Inr c) \<Rightarrow> {#c#} | _ \<Rightarrow> {#})"

definition acquirer :: "nat \<times> AttemptUser \<times> AttemptStage \<Rightarrow> nat multiset" where
  "acquirer = (\<lambda>(t, user, stage). case user of ForAcquire a _ \<Rightarrow> {#a#} | _ \<Rightarrow> {#})"

definition places :: "RpcConnectionPool \<Rightarrow> conn multiset" where
  "places s = mset (map fst (cp_idle s)) + mset (cp_active s) +
     image_mset (\<lambda>(a, c, signal). c) (mset (cp_checks s)) + (\<Sum>p\<in>#mset (cp_attempts s). inTransit p)"

definition unsettled :: "RpcConnectionPool \<Rightarrow> nat list" where
  "unsettled s = map pa_acquire (filter (\<lambda>w. \<not> pa_settled w) (cp_pending s))"

definition waiting :: "RpcConnectionPool \<Rightarrow> nat multiset" where
  "waiting s = mset (unsettled s) + image_mset fst (mset (cp_checks s)) + (\<Sum>p\<in>#mset (cp_attempts s). acquirer p)"

definition connectingCount :: "RpcConnectionPool \<Rightarrow> int" where
  "connectingCount s = (\<Sum>(t, user, stage)\<in>#mset (cp_attempts s). if stage = Connecting then 1 else 0)"

text \<open>The attempts that have given their slot back and whose code has not run to its end.\<close>

definition limbo :: "RpcConnectionPool \<Rightarrow> int" where
  "limbo s = (\<Sum>(t, user, stage)\<in>#mset (cp_attempts s). if stage = Connecting then 0 else 1)"

definition slots :: "RpcConnectionPool \<Rightarrow> int" where
  "slots s = int (length (cp_idle s)) + int (length (cp_active s)) + cp_connecting s + limbo s"

definition countsOk :: "RpcConnectionPool \<Rightarrow> bool" where
  "countsOk s \<longleftrightarrow> cp_pendingSettled s = int (length (filter pa_settled (cp_pending s))) \<and>
     distinct (map fst (cp_attempts s)) \<and> (\<forall>t\<in>fst ` set (cp_attempts s). t < cp_nextAttempt s) \<and>
     cp_connecting s = connectingCount s"

text \<open>A waiter is in the queue only when nothing is idle and every slot is taken.\<close>

definition served :: "RpcConnectionPool \<Rightarrow> bool" where
  "served s \<longleftrightarrow> (unsettled s \<noteq> [] \<longrightarrow> cp_idle s = [] \<and>
     (cp_closed s \<or> cp_drain s \<noteq> NoDrain \<or> cp_maxConnections s \<le> slots s))"

definition single :: "'a multiset \<Rightarrow> bool" where
  "single M \<longleftrightarrow> (\<forall>x. count M x \<le> 1)"

lemma single_mset [simp]: "single (mset xs) \<longleftrightarrow> distinct xs"
  by (simp add: single_def distinct_count_atmost_1 flip: count_greater_zero_iff) (auto simp: le_Suc_eq count_eq_zero_iff)

lemma single_plus_left: "single (M + N) \<Longrightarrow> single M"
  by (metis add_leD1 count_union single_def)

lemma distinct_unsettled: "single (waiting s) \<Longrightarrow> distinct (unsettled s)"
  unfolding waiting_def add.assoc by (drule single_plus_left) (simp only: single_mset)

lemma distinct_idle: "single (places s) \<Longrightarrow> distinct (map fst (cp_idle s))"
  unfolding places_def add.assoc by (drule single_plus_left) (simp only: single_mset)

section \<open>Association lists\<close>

lemma delete_absent: "k \<notin> fst ` set al \<Longrightarrow> AList.delete k al = al"
  by (induction al) auto

lemma mset_delete:
  "distinct (map fst al) \<Longrightarrow> map_of al k = Some v \<Longrightarrow> mset al = add_mset (k, v) (mset (AList.delete k al))"
  by (induction al) (auto simp: delete_absent split: if_splits)

lemma mset_update:
  "distinct (map fst al) \<Longrightarrow> mset (AList.update k v al) = add_mset (k, v) (mset (AList.delete k al))"
  by (induction al) (auto simp: delete_absent)

section \<open>Waiters\<close>

lemma unsettled_update [simp]:
  "unsettled (s\<lparr>cp_idle := i\<rparr>) = unsettled s" "unsettled (s\<lparr>cp_active := ac\<rparr>) = unsettled s"
  "unsettled (s\<lparr>cp_checks := ch\<rparr>) = unsettled s" "unsettled (s\<lparr>cp_attempts := ats\<rparr>) = unsettled s"
  "unsettled (s\<lparr>cp_connecting := n\<rparr>) = unsettled s" "unsettled (s\<lparr>cp_drain := d\<rparr>) = unsettled s"
  "unsettled (s\<lparr>cp_nextAttempt := k\<rparr>) = unsettled s" "unsettled (s\<lparr>cp_pendingSettled := z\<rparr>) = unsettled s"
  "unsettled (s\<lparr>cp_nextAcquire := k\<rparr>) = unsettled s"
  by (simp_all add: unsettled_def)

lemma hasPending_iff: "countsOk s \<Longrightarrow> hasPendingAcquires s \<longleftrightarrow> unsettled s \<noteq> []"
proof -
  have "length (cp_pending s) = length (filter pa_settled (cp_pending s)) + length (unsettled s)"
    using sum_length_filter_compl [of pa_settled "cp_pending s"] by (simp add: unsettled_def)
  then show "countsOk s \<Longrightarrow> ?thesis" by (simp add: hasPendingAcquires_def countsOk_def)
qed

lemma compactPending_ok:
  "cp_pendingSettled s = int (length (filter pa_settled (cp_pending s))) \<Longrightarrow>
    cp_pendingSettled (compactPending s) = int (length (filter pa_settled (cp_pending (compactPending s)))) \<and>
    unsettled (compactPending s) = unsettled s \<and>
    compactPending s = s\<lparr>cp_pending := cp_pending (compactPending s), cp_pendingSettled := cp_pendingSettled (compactPending s)\<rparr>"
  by (simp add: compactPending_def unsettled_def filter_empty_conv)

lemma takeWaiter_ok:
  "takeWaiter ws n = (r, ws', n') \<Longrightarrow> n = int (length (filter pa_settled ws)) \<Longrightarrow>
    n' = int (length (filter pa_settled ws')) \<and>
    filter (\<lambda>w. \<not> pa_settled w) ws = (case r of None \<Rightarrow> [] | Some w \<Rightarrow> w # filter (\<lambda>w. \<not> pa_settled w) ws') \<and>
    (r = None \<longrightarrow> ws' = [])"
  by (induction ws n rule: takeWaiter.induct) (auto split: if_splits)

lemma takeNext:
  assumes t: "takeNextPendingAcquire s = (r, s')" and ok: "countsOk s"
  shows "\<exists>ws n. s' = s\<lparr>cp_pending := ws, cp_pendingSettled := n\<rparr> \<and> n = int (length (filter pa_settled ws)) \<and>
    unsettled s = (case r of None \<Rightarrow> [] | Some a \<Rightarrow> a # unsettled s') \<and> (r = None \<longrightarrow> unsettled s' = [])"
proof -
  obtain r' ws n where w: "takeWaiter (cp_pending s) (cp_pendingSettled s) = (r', ws, n)"
    by (cases "takeWaiter (cp_pending s) (cp_pendingSettled s)") auto
  note * = takeWaiter_ok [OF w] ok
  show ?thesis
  proof (cases r')
    case None
    then show ?thesis using t w * by (intro exI [of _ "[]"] exI [of _ 0]) (auto simp: takeNextPendingAcquire_def countsOk_def unsettled_def)
  next
    case (Some v)
    let ?t = "s\<lparr>cp_pending := ws, cp_pendingSettled := n\<rparr>"
    have s': "s' = compactPending ?t" "r = Some (pa_acquire v)" using t w Some by (auto simp: takeNextPendingAcquire_def)
    have n: "n = int (length (filter pa_settled ws))"
      and u: "unsettled s = pa_acquire v # unsettled ?t"
      using * Some by (auto simp: countsOk_def unsettled_def)
    note c = compactPending_ok [of ?t]
    show ?thesis
      using c n u s' by (intro exI [of _ "cp_pending s'"] exI [of _ "cp_pendingSettled s'"]) auto
  qed
qed

section \<open>What the operations keep\<close>

text \<open>
  An operation that has the connections \<open>C\<close> and the acquires \<open>A\<close> in hand puts each of them in a
  place, or closes or answers it.
\<close>

definition keeps ::
  "conn multiset \<Rightarrow> nat multiset \<Rightarrow> RpcConnectionPool \<Rightarrow> pool_action list \<times> RpcConnectionPool \<Rightarrow> bool" where
  "keeps C A s r \<longleftrightarrow> (countsOk s \<and> single (places s + C) \<and> single (waiting s + A) \<longrightarrow>
     (case r of (actions, s') \<Rightarrow> countsOk s' \<and> places s' + mset (closedConns actions) = places s + C \<and>
        waiting s' + mset (answeredAcquires actions) = waiting s + A \<and> opened actions = [] \<and>
        cp_nextAcquire s' = cp_nextAcquire s \<and> mset (cp_active s') = mset (cp_active s) + mset (lent actions)))"

lemma actions_append [simp]:
  "opened (as @ bs) = opened as @ opened bs"
  "closedConns (as @ bs) = closedConns as @ closedConns bs"
  "answeredAcquires (as @ bs) = answeredAcquires as @ answeredAcquires bs"
  "lent (as @ bs) = lent as @ lent bs"
  by (induction as rule: lent.induct, simp_all)

lemma keepsI:
  "(countsOk s \<Longrightarrow> single (places s + C) \<Longrightarrow> single (waiting s + A) \<Longrightarrow>
     countsOk s' \<and> places s' + mset (closedConns actions) = places s + C \<and>
     waiting s' + mset (answeredAcquires actions) = waiting s + A \<and> opened actions = [] \<and>
     cp_nextAcquire s' = cp_nextAcquire s \<and> mset (cp_active s') = mset (cp_active s) + mset (lent actions)) \<Longrightarrow>
   keeps C A s (actions, s')"
  by (simp add: keeps_def)

lemma mset_chain: "t + y = b + d \<Longrightarrow> b + x = a + c \<Longrightarrow> t + (x + y) = a + (c + d)"
  for a :: "'a multiset"
proof -
  assume "t + y = b + d" "b + x = a + c"
  have "t + (x + y) = (t + y) + x" by (simp only: ac_simps)
  also have "\<dots> = (b + x) + d" unfolding \<open>t + y = b + d\<close> by (simp only: ac_simps)
  also have "\<dots> = a + (c + d)" unfolding \<open>b + x = a + c\<close> by (simp only: ac_simps)
  finally show ?thesis .
qed

lemma keeps_andThen:
  assumes "keeps C A s r" "\<And>s'. keeps C' A' s' (f s')"
  shows "keeps (C + C') (A + A') s (andThen r f)"
proof -
  obtain as s' where r: "r = (as, s')" by (cases r)
  obtain bs t where f: "f s' = (bs, t)" by (cases "f s'")
  show ?thesis
  proof (unfold r andThen_def f Let_def prod.case, rule keepsI)
    assume pre: "countsOk s" "single (places s + (C + C'))" "single (waiting s + (A + A'))"
    then have "single (places s + C)" "single (waiting s + A)"
      using single_plus_left by (metis add.assoc)+
    then have 1: "countsOk s'" "places s' + mset (closedConns as) = places s + C"
      "waiting s' + mset (answeredAcquires as) = waiting s + A" "opened as = []" "cp_nextAcquire s' = cp_nextAcquire s"
      "mset (cp_active s') = mset (cp_active s) + mset (lent as)"
      using assms(1) pre by (auto simp: keeps_def r)
    have "places s + (C + C') = places s' + C' + mset (closedConns as)"
      "waiting s + (A + A') = waiting s' + A' + mset (answeredAcquires as)"
      unfolding add.assoc [symmetric] 1(2,3) [symmetric] by (simp_all only: ac_simps)
    then have "single (places s' + C')" "single (waiting s' + A')"
      using pre single_plus_left by metis+
    then have 2: "countsOk t" "places t + mset (closedConns bs) = places s' + C'"
      "waiting t + mset (answeredAcquires bs) = waiting s' + A'" "opened bs = []" "cp_nextAcquire t = cp_nextAcquire s'"
      "mset (cp_active t) = mset (cp_active s') + mset (lent bs)"
      using assms(2) [of s'] 1(1) by (auto simp: keeps_def f)
    show "countsOk t \<and> places t + mset (closedConns (as @ bs)) = places s + (C + C') \<and>
      waiting t + mset (answeredAcquires (as @ bs)) = waiting s + (A + A') \<and> opened (as @ bs) = [] \<and>
      cp_nextAcquire t = cp_nextAcquire s \<and> mset (cp_active t) = mset (cp_active s) + mset (lent (as @ bs))"
      using 1 2 mset_chain [OF 2(2) 1(2)] mset_chain [OF 2(3) 1(3)] by simp
  qed
qed

lemmas pool_counts = places_def waiting_def connectingCount_def

lemma keeps_none: "keeps C A s r \<Longrightarrow> C = {#} \<Longrightarrow> A = {#} \<Longrightarrow> keeps {#} {#} s r"
  by simp

lemma keeps_close: "keeps {#c#} {#} s ([CloseConnection c], s)"
  by (rule keepsI) simp

lemma keeps_answer: "keeps {#} {#a#} s ([AnswerAcquire a (Inl e)], s)"
  by (rule keepsI) simp

lemma keeps_skip: "keeps {#} {#} s ([], s)"
  by (rule keepsI) simp

lemma single_not_in: "single (places s + {#c#}) \<Longrightarrow> c \<notin> set (cp_active s) \<and> c \<notin> fst ` set (cp_idle s)"
proof -
  have "c \<notin># places s" if "single (places s + {#c#})"
    using that by (auto simp: single_def count_eq_zero_iff dest: spec [of _ c])
  then show "single (places s + {#c#}) \<Longrightarrow> ?thesis" by (auto simp: places_def)
qed

lemma active_addActive:
  "single (places s + {#c#}) \<Longrightarrow> mset (cp_active (addActive c s)) = mset (cp_active s) + {#c#}"
  using single_not_in [of s c] by (simp add: addActive_def)

lemma places_addActive: "single (places s + {#c#}) \<Longrightarrow> places (addActive c s) = places s + {#c#}"
  using single_not_in [of s c] by (simp add: addActive_def places_def)

lemma addActive_same [simp]:
  "unsettled (addActive c s) = unsettled s" "waiting (addActive c s) = waiting s" "countsOk (addActive c s) = countsOk s"
  "cp_nextAcquire (addActive c s) = cp_nextAcquire s" "cp_idle (addActive c s) = cp_idle s"
  by (simp_all add: addActive_def unsettled_def pool_counts countsOk_def)

lemma keeps_lent: "keeps {#c#} {#a#} s ([AnswerAcquire a (Inr c)], addActive c s)"
  by (rule keepsI) (simp add: places_addActive active_addActive)

lemma update_absent: "k \<notin> fst ` set al \<Longrightarrow> AList.update k v al = al @ [(k, v)]"
  by (induction al) auto

lemma places_park: "single (places s + {#c#}) \<Longrightarrow> places (parkIdleConnection c u s) = places s + {#c#}"
  using single_not_in [of s c] by (simp add: parkIdleConnection_def places_def update_absent)

lemma park_same [simp]:
  "unsettled (parkIdleConnection c u s) = unsettled s" "waiting (parkIdleConnection c u s) = waiting s"
  "countsOk (parkIdleConnection c u s) = countsOk s" "cp_nextAcquire (parkIdleConnection c u s) = cp_nextAcquire s"
  "cp_active (parkIdleConnection c u s) = cp_active s"
  by (simp_all add: parkIdleConnection_def unsettled_def pool_counts countsOk_def)

lemma keeps_park: "keeps {#c#} {#} s ([], parkIdleConnection c u s)"
  by (rule keepsI) (simp add: places_park)

text \<open>Taking a waiter off the queue puts its acquire in the hand.\<close>

lemma takeNext_same:
  assumes "takeNextPendingAcquire s = (r, s')" "countsOk s"
  shows "countsOk s'" "places s' = places s" "cp_nextAcquire s' = cp_nextAcquire s" "cp_active s' = cp_active s"
    "waiting s = waiting s' + (case r of None \<Rightarrow> {#} | Some a \<Rightarrow> {#a#})"
proof -
  obtain ws n where s': "s' = s\<lparr>cp_pending := ws, cp_pendingSettled := n\<rparr>" "n = int (length (filter pa_settled ws))"
    and u: "unsettled s = (case r of None \<Rightarrow> [] | Some a \<Rightarrow> a # unsettled s')" "r = None \<longrightarrow> unsettled s' = []"
    using takeNext [OF assms] by blast
  show "countsOk s'" "places s' = places s" "cp_nextAcquire s' = cp_nextAcquire s" "cp_active s' = cp_active s"
    using assms(2) s' by (simp_all add: countsOk_def pool_counts)
  show "waiting s = waiting s' + (case r of None \<Rightarrow> {#} | Some a \<Rightarrow> {#a#})"
    using s'(1) u by (simp add: waiting_def split: option.splits)
qed

lemma keeps_handoffElse:
  assumes f: "\<And>s'. keeps {#c#} {#} s' (f s')"
  shows "keeps {#c#} {#} s (handoffElse c f s)"
proof -
  obtain r s' where t: "takeNextPendingAcquire s = (r, s')" by (cases "takeNextPendingAcquire s")
  show ?thesis
  proof (cases r)
    case None
    show ?thesis
      using f [of s'] takeNext_same [OF t] None by (auto simp: keeps_def handoffElse_def t)
  next
    case (Some a)
    show ?thesis
      using keeps_lent [of c a s'] takeNext_same [OF t] Some by (auto simp: keeps_def handoffElse_def t)
  qed
qed

lemma keeps_handoffOrPark: "keeps {#c#} {#} s (handoffOrPark c now s)"
  unfolding handoffOrPark_def by (rule keeps_handoffElse) (rule keeps_park)

lemma keeps_begin:
  "keeps {#} (acquirer (t, user, Connecting)) s (beginConnectAttempt user s)"
  by (auto simp: keeps_def beginConnectAttempt_def countsOk_def pool_counts inTransit_def acquirer_def less_Suc_eq
      unsettled_def split: AttemptUser.splits)

lemma keeps_drain: "keeps {#} {#} s (drainPendingAcquires s)"
proof -
  have "keeps {#} {#} (s\<lparr>cp_drain := d\<rparr>) r = keeps {#} {#} s r" for d r
    by (simp add: keeps_def countsOk_def pool_counts)
  note this [of Draining "beginConnectAttempt ForDrain (s\<lparr>cp_drain := Draining\<rparr>)"]
  moreover have "keeps {#} {#} s ([], s\<lparr>cp_drain := DrainEnding\<rparr>)"
    by (rule keepsI) (simp add: countsOk_def pool_counts)
  ultimately show ?thesis
    using keeps_begin [of _ ForDrain "s\<lparr>cp_drain := Draining\<rparr>"]
    by (simp add: drainPendingAcquires_def acquirer_def)
qed

lemma keeps_schedule: "keeps {#} {#} s (schedulePendingCreateDrain s)"
  by (simp add: schedulePendingCreateDrain_def keeps_skip keeps_drain)

lemma keeps_lend: "keeps {#c#} {#a#} s (lend a c aborted now s)"
proof (cases aborted)
  case True
  have "keeps {#c#} {#} s (if cp_closed s then ([CloseConnection c], s) else handoffOrPark c now s)"
    by (simp add: keeps_close keeps_handoffOrPark)
  from keeps_andThen [OF this keeps_answer] show ?thesis using True by (simp add: lend_def)
qed (simp add: lend_def keeps_lent)

lemma keeps_acquireTurn: "keeps {#} {#a#} s (acquireTurn a signal aborted now s)"
proof (cases "cp_idle s")
  case Nil
  have "keeps {#} {#a#} s ([], s\<lparr>cp_pending := cp_pending s @ [\<lparr>pa_acquire = a, pa_signal = signal, pa_settled = False\<rparr>]\<rparr>)"
    by (rule keepsI) (simp add: countsOk_def pool_counts unsettled_def)
  then show ?thesis
    using keeps_begin [of _ "ForAcquire a signal"] Nil by (simp add: acquireTurn_def keeps_answer acquirer_def)
next
  case (Cons p idle)
  obtain c u where p: "p = (c, u)" by (cases p)
  let ?s = "s\<lparr>cp_idle := idle\<rparr>"
  have e: "countsOk ?s = countsOk s" "places s = places ?s + {#c#}" "waiting ?s = waiting s"
    "cp_nextAcquire ?s = cp_nextAcquire s"
    using Cons p by (simp_all add: countsOk_def pool_counts)
  have "keeps {#} {#a#} s ([CheckHealth c], ?s\<lparr>cp_checks := (a, c, signal) # cp_checks s\<rparr>)"
    using Cons p by (intro keepsI) (simp add: countsOk_def pool_counts)
  moreover have "keeps {#} {#a#} s (lend a c aborted now ?s)"
    using keeps_lend [of c a ?s aborted now] e by (simp add: keeps_def)
  ultimately show ?thesis using Cons p by (simp add: acquireTurn_def Let_def)
qed

section \<open>The events keep connections and acquires\<close>

text \<open>An event of a history, as a change of the state alone.\<close>

definition stepKeeps :: "conn multiset \<Rightarrow> RpcConnectionPool \<Rightarrow> pool_action list \<times> RpcConnectionPool \<Rightarrow> bool" where
  "stepKeeps R s r \<longleftrightarrow> (countsOk s \<and> single (places s + mset (opened (fst r))) \<and> single (waiting s + {#cp_nextAcquire s#}) \<longrightarrow>
     (case r of (actions, s') \<Rightarrow> countsOk s' \<and>
        places s' + mset (closedConns actions) = places s + mset (opened actions) \<and>
        cp_nextAcquire s \<le> cp_nextAcquire s' \<and>
        waiting s' + mset (answeredAcquires actions) = waiting s + mset [cp_nextAcquire s..<cp_nextAcquire s'] \<and>
        mset (cp_active s') + R = mset (cp_active s) + mset (lent actions)))"

text \<open>One event answers at most the acquire it starts and those that wait.\<close>

definition eventKeeps :: "conn multiset \<Rightarrow> RpcConnectionPool \<Rightarrow> pool_action list \<Rightarrow> RpcConnectionPool \<Rightarrow> bool" where
  "eventKeeps R s actions s' \<longleftrightarrow> countsOk s' \<and> places s' + mset (closedConns actions) = places s \<and> opened actions = [] \<and>
     (cp_nextAcquire s' = cp_nextAcquire s \<and> waiting s' + mset (answeredAcquires actions) = waiting s \<or>
      cp_nextAcquire s' = cp_nextAcquire s + 1 \<and> waiting s' + mset (answeredAcquires actions) = waiting s + {#cp_nextAcquire s#}) \<and>
     mset (cp_active s') + R = mset (cp_active s) + mset (lent actions)"

lemma stepKeepsI:
  assumes "countsOk s \<Longrightarrow> single (places s) \<Longrightarrow> single (waiting s + {#cp_nextAcquire s#}) \<Longrightarrow> eventKeeps R s actions s'"
  shows "stepKeeps R s (actions, s')"
proof (unfold stepKeeps_def prod.case fst_conv, rule impI, elim conjE)
  assume pre: "countsOk s" "single (places s + mset (opened actions))" "single (waiting s + {#cp_nextAcquire s#})"
  show "countsOk s' \<and> places s' + mset (closedConns actions) = places s + mset (opened actions) \<and>
      cp_nextAcquire s \<le> cp_nextAcquire s' \<and>
      waiting s' + mset (answeredAcquires actions) = waiting s + mset [cp_nextAcquire s..<cp_nextAcquire s'] \<and>
      mset (cp_active s') + R = mset (cp_active s) + mset (lent actions)"
    using assms [OF pre(1) single_plus_left [OF pre(2)] pre(3)] by (auto simp: eventKeeps_def)
qed

lemma stepKeeps_keeps: "keeps {#} {#} s r \<Longrightarrow> stepKeeps {#} s r"
proof -
  assume k: "keeps {#} {#} s r"
  obtain as s' where r: "r = (as, s')" by (cases r)
  show ?thesis
    unfolding r
  proof (rule stepKeepsI)
    assume pre: "countsOk s" "single (places s)" "single (waiting s + {#cp_nextAcquire s#})"
    have "single (waiting s + {#})" using single_plus_left [OF pre(3)] by simp
    then show "eventKeeps {#} s as s'"
      using k pre by (simp add: keeps_def eventKeeps_def r)
  qed
qed

lemma stepKeeps_acquire: "stepKeeps {#} s (acquire signal timeoutMs now s)"
proof -
  let ?a = "cp_nextAcquire s" and ?s = "s\<lparr>cp_nextAcquire := cp_nextAcquire s + 1\<rparr>"
  have same: "countsOk ?s = countsOk s" "places ?s = places s" "waiting ?s = waiting s"
    by (simp_all add: countsOk_def pool_counts)
  have step: "stepKeeps {#} s r" if k: "keeps {#} {#?a#} ?s r" for r
  proof -
    obtain as s' where r: "r = (as, s')" by (cases r)
    show ?thesis
      unfolding r using k same by (intro stepKeepsI) (simp add: keeps_def eventKeeps_def r)
  qed
  show ?thesis
    by (auto simp: acquire_def Let_def intro!: step keeps_answer keeps_acquireTurn split: sum.splits)
qed

text \<open>What leaves the list of the attempts, and what is written into it.\<close>

lemma attempts_delete:
  assumes "countsOk s" "map_of (cp_attempts s) t = Some (user, stage)"
  shows "(\<Sum>p\<in>#mset (cp_attempts s). f p) = f (t, user, stage) + (\<Sum>p\<in>#mset (AList.delete t (cp_attempts s)). (f p :: 'b :: comm_monoid_add))"
  using mset_delete [of "cp_attempts s" t] assms by (simp add: countsOk_def)

lemma attempts_update:
  assumes "countsOk s"
  shows "(\<Sum>p\<in>#mset (AList.update t v (cp_attempts s)). f p) = f (t, v) + (\<Sum>p\<in>#mset (AList.delete t (cp_attempts s)). (f p :: 'b :: comm_monoid_add))"
  using mset_update [of "cp_attempts s" t] assms by (simp add: countsOk_def)

lemma countsOk_delete:
  assumes "countsOk s" "map_of (cp_attempts s) t = Some (user, stage)" "stage \<noteq> Connecting"
  shows "countsOk (s\<lparr>cp_attempts := AList.delete t (cp_attempts s)\<rparr>)"
  using assms attempts_delete [OF assms(1,2), of "\<lambda>(t, user, stage). if stage = Connecting then 1 else 0 :: int"]
  by (auto simp: countsOk_def fst_delete connectingCount_def) (auto simp: AList.delete_eq)

lemma places_gone:
  assumes "countsOk s" "map_of (cp_attempts s) t = Some (user, stage)"
  shows "places s = places (s\<lparr>cp_attempts := AList.delete t (cp_attempts s)\<rparr>) + inTransit (t, user, stage)"
    "waiting s = waiting (s\<lparr>cp_attempts := AList.delete t (cp_attempts s)\<rparr>) + acquirer (t, user, stage)"
  using attempts_delete [OF assms] by (simp_all add: pool_counts add.commute)

lemma countsOk_update:
  assumes "countsOk s" "map_of (cp_attempts s) t = Some (user, stage)" "(stage' = Connecting) = (stage = Connecting)"
  shows "countsOk (s\<lparr>cp_attempts := AList.update t (user', stage') (cp_attempts s)\<rparr>)"
proof -
  let ?f = "\<lambda>(t, user, stage). if stage = Connecting then 1 else 0 :: int"
  have "(t, user, stage) \<in> set (cp_attempts s)" using assms(2) by (rule map_of_SomeD)
  then have "t \<in> fst ` set (cp_attempts s)" by force
  then have "fst ` set (AList.update t (user', stage') (cp_attempts s)) = fst ` set (cp_attempts s)"
    using AList.dom_update [of t "(user', stage')" "cp_attempts s"] by (auto simp: insert_absorb)
  then show ?thesis
    using assms attempts_update [OF assms(1), of ?f t "(user', stage')"] attempts_delete [OF assms(1,2), of ?f]
    by (simp add: countsOk_def connectingCount_def distinct_update)
qed

lemma places_changed:
  assumes "countsOk s" "map_of (cp_attempts s) t = Some (user, stage)"
  shows "places (s\<lparr>cp_attempts := AList.update t (user', stage') (cp_attempts s)\<rparr>) + inTransit (t, user, stage) =
      places s + inTransit (t, user', stage')"
    "waiting (s\<lparr>cp_attempts := AList.update t (user', stage') (cp_attempts s)\<rparr>) + acquirer (t, user, stage) =
      waiting s + acquirer (t, user', stage')"
  using attempts_delete [OF assms, of inTransit] attempts_update [OF assms(1), of inTransit t "(user', stage')"]
    attempts_delete [OF assms, of acquirer] attempts_update [OF assms(1), of acquirer t "(user', stage')"]
  by (simp_all add: pool_counts ac_simps)

lemma stepKeeps_healthChecked: "stepKeeps {#} s (healthChecked a healthy aborted now s)"
proof (cases "map_of (cp_checks s) a")
  case None
  then show ?thesis by (simp add: healthChecked_def stepKeeps_keeps keeps_skip)
next
  case (Some p)
  obtain c signal where p: "p = (c, signal)" by (cases p)
  let ?s = "s\<lparr>cp_checks := AList.delete a (cp_checks s)\<rparr>"
  have step: "stepKeeps {#} s r" if k: "keeps {#c#} {#a#} ?s r" for r
  proof -
    obtain as s' where r: "r = (as, s')" by (cases r)
    show ?thesis
      unfolding r
    proof (rule stepKeepsI)
      assume pre: "countsOk s" "single (places s)" "single (waiting s + {#cp_nextAcquire s#})"
      have "image_mset fst (mset (cp_checks s)) \<subseteq># waiting s + {#cp_nextAcquire s#}" by (simp add: waiting_def)
      then have "distinct (map fst (cp_checks s))"
        using pre(3) by (metis mset_map single_mset single_plus_left subset_mset.le_iff_add)
      then have m: "mset (cp_checks s) = add_mset (a, c, signal) (mset (AList.delete a (cp_checks s)))"
        using mset_delete [of "cp_checks s" a "(c, signal)"] Some p by simp
      have e: "places s = places ?s + {#c#}" "waiting s = waiting ?s + {#a#}" "countsOk ?s"
        using pre(1) by (simp_all add: pool_counts m countsOk_def)
      have "single (waiting ?s + {#a#})" using single_plus_left [OF pre(3)] e(2) by simp
      then show "eventKeeps {#} s as s'"
        using k pre(2) e by (simp add: keeps_def eventKeeps_def r)
    qed
  qed
  have "keeps {#c#} {#a#} ?s (andThen ([CloseConnection c], ?s) (acquireTurn a signal (signal \<and> aborted) now))"
    using keeps_andThen [OF keeps_close keeps_acquireTurn] by force
  then show ?thesis
    using Some p by (simp add: healthChecked_def Let_def step keeps_lend)
qed

lemma stepKeeps_connectSettled: "stepKeeps {#} s (connectSettled t outcome s)"
proof (cases "\<exists>user. map_of (cp_attempts s) t = Some (user, Connecting)")
  case True
  then obtain user where u: "map_of (cp_attempts s) t = Some (user, Connecting)" by blast
  let ?s = "s\<lparr>cp_connecting := max 0 (cp_connecting s - 1), cp_attempts := AList.update t (user, Settled outcome) (cp_attempts s)\<rparr>"
  let ?c = "\<lambda>(t, user, stage). if stage = Connecting then 1 else 0 :: int"
  have "countsOk ?s" if ok: "countsOk s"
  proof -
    have "(t, user, Connecting) \<in> set (cp_attempts s)" using u by (rule map_of_SomeD)
    then have "t \<in> fst ` set (cp_attempts s)" by force
    then have keys: "fst ` set (AList.update t (user, Settled outcome) (cp_attempts s)) = fst ` set (cp_attempts s)"
      using AList.dom_update [of t "(user, Settled outcome)" "cp_attempts s"] by (auto simp: insert_absorb)
    have "0 \<le> (\<Sum>p\<in>#M. ?c p)" for M by (induction M) auto
    note this [of "mset (AList.delete t (cp_attempts s))"]
    with ok keys show ?thesis
      using attempts_delete [OF ok u, of ?c] attempts_update [OF ok, of ?c t "(user, Settled outcome)"]
      by (simp add: countsOk_def connectingCount_def distinct_update)
  qed
  moreover have "places ?s = places s + mset (case outcome of Inr c \<Rightarrow> [c] | Inl _ \<Rightarrow> [])" "waiting ?s = waiting s"
    if ok: "countsOk s"
    using places_changed [OF ok u, of user "Settled outcome"]
    by (simp_all add: pool_counts inTransit_def acquirer_def split: sum.splits)
  ultimately show ?thesis
    using u by (cases outcome) (auto simp: connectSettled_def stepKeeps_def)
next
  case False
  then have "connectSettled t outcome s = ([], s)"
    by (auto simp: connectSettled_def split: option.splits AttemptStage.splits)
  then show ?thesis by (simp add: stepKeeps_keeps keeps_skip)
qed

lemma stepKeeps_hand:
  assumes "countsOk s \<Longrightarrow> countsOk g \<and> places s = places g + C \<and> waiting s = waiting g + A \<and> cp_nextAcquire g = cp_nextAcquire s \<and>
      mset (cp_active s) = mset (cp_active g) + R"
    and k: "keeps C A g r"
  shows "stepKeeps R s r"
proof -
  obtain as s' where r: "r = (as, s')" by (cases r)
  show ?thesis
    unfolding r
  proof (rule stepKeepsI)
    assume pre: "countsOk s" "single (places s)" "single (waiting s + {#cp_nextAcquire s#})"
    note e = assms(1) [OF pre(1)]
    have "single (waiting s)" using single_plus_left [OF pre(3)] .
    then show "eventKeeps R s as s'"
      using k pre(2) e by (simp add: keeps_def eventKeeps_def r)
  qed
qed

fun handed :: "conn result \<Rightarrow> conn multiset" where
  "handed (Inr c) = {#c#}"
| "handed (Inl e) = {#}"

lemma keeps_take:
  assumes "\<And>a s'. keeps C {#a#} s' (f a s')" "\<And>s'. keeps C {#} s' (g s')"
  shows "keeps C {#} s (case takeNextPendingAcquire s of (None, s) \<Rightarrow> g s | (Some a, s) \<Rightarrow> f a s)"
proof -
  obtain r s' where t: "takeNextPendingAcquire s = (r, s')" by (cases "takeNextPendingAcquire s")
  show ?thesis
  proof (cases r)
    case None
    then show ?thesis using assms(2) [of s'] takeNext_same [OF t] by (auto simp: keeps_def t)
  next
    case (Some a)
    then show ?thesis using assms(1) [of a s'] takeNext_same [OF t] by (auto simp: keeps_def t)
  qed
qed

lemma keeps_then_answer: "keeps C {#} s r \<Longrightarrow> keeps C {#a#} s (andThen r (\<lambda>s. ([AnswerAcquire a (Inl e)], s)))"
  using keeps_andThen [of C "{#}" s r "{#}" "{#a#}" "\<lambda>s. ([AnswerAcquire a (Inl e)], s)"] keeps_answer by simp

lemma keeps_createdForAcquire: "keeps (handed outcome) {#a#} s (createdForAcquire a outcome s)"
proof (cases outcome)
  case (Inl e)
  then show ?thesis by (simp add: createdForAcquire_def keeps_then_answer keeps_schedule)
next
  case (Inr c)
  have "keeps {#c#} {#a#} s (andThen ([CloseConnection c], s) (\<lambda>s.
      andThen (schedulePendingCreateDrain s) (\<lambda>s. ([AnswerAcquire a (Inl poolClosed)], s))))"
    using keeps_andThen [OF keeps_close keeps_then_answer [OF keeps_schedule]] by force
  then show ?thesis using Inr by (simp add: createdForAcquire_def keeps_lent)
qed

lemma keeps_createdDetached: "keeps (handed outcome) {#} s (createdDetached outcome s)"
proof -
  have "keeps (handed outcome) {#} s
     (case outcome of
        Inr c \<Rightarrow> if cp_closed s then ([CloseConnection c], s) else handoffElse c (\<lambda>s. ([CloseConnection c], s)) s
      | Inl e \<Rightarrow> ([], s))"
    by (cases outcome) (simp_all add: keeps_skip keeps_close keeps_handoffElse)
  from keeps_andThen [OF this keeps_schedule] show ?thesis by (simp add: createdDetached_def)
qed

lemma keeps_drain_state: "keeps C A s (as, s') \<Longrightarrow> keeps C A s (as, s'\<lparr>cp_drain := d\<rparr>)"
proof -
  have "countsOk (s'\<lparr>cp_drain := d\<rparr>) = countsOk s'" "places (s'\<lparr>cp_drain := d\<rparr>) = places s'"
    "waiting (s'\<lparr>cp_drain := d\<rparr>) = waiting s'"
    by (simp_all add: countsOk_def pool_counts)
  then show "keeps C A s (as, s') \<Longrightarrow> ?thesis" by (simp add: keeps_def)
qed

lemma keeps_createdForDrain: "keeps (handed outcome) {#} s (createdForDrain outcome now s)"
proof (cases outcome)
  case (Inl e)
  have "keeps {#} {#a#} s (andThen ([AnswerAcquire a (Inl e)], s) drainPendingAcquires)" for a e s
    using keeps_andThen [OF keeps_answer keeps_drain] by force
  then show ?thesis using Inl by (simp add: createdForDrain_def keeps_take keeps_drain)
next
  case (Inr c)
  have "keeps {#c#} {#a#} s (andThen ([AnswerAcquire a (Inr c)], addActive c s) drainPendingAcquires)" for a s
    using keeps_andThen [OF keeps_lent keeps_drain] by force
  then show ?thesis
    using Inr by (simp add: createdForDrain_def keeps_take keeps_drain_state keeps_park keeps_close)
qed

lemma keeps_createdForWarmUp: "keeps (handed outcome) {#} s (createdForWarmUp outcome now s)"
proof -
  have e: "countsOk (s\<lparr>cp_warmupSucceeded := n\<rparr>) = countsOk s" "places (s\<lparr>cp_warmupSucceeded := n\<rparr>) = places s"
    "waiting (s\<lparr>cp_warmupSucceeded := n\<rparr>) = waiting s" "countsOk (s\<lparr>cp_warmupFailed := n\<rparr>) = countsOk s"
    "places (s\<lparr>cp_warmupFailed := n\<rparr>) = places s" "waiting (s\<lparr>cp_warmupFailed := n\<rparr>) = waiting s" for n
    by (simp_all add: countsOk_def pool_counts unsettled_def)
  show ?thesis
  proof (cases outcome)
    case (Inl x)
    then show ?thesis by (simp add: createdForWarmUp_def keeps_def e)
  next
    case (Inr c)
    let ?s = "s\<lparr>cp_warmupSucceeded := cp_warmupSucceeded s + 1\<rparr>"
    have "keeps {#c#} {#} s r = keeps {#c#} {#} ?s r" for r by (simp add: keeps_def e)
    then show ?thesis using Inr by (simp add: createdForWarmUp_def Let_def keeps_close keeps_handoffOrPark)
  qed
qed

lemma stepKeeps_gone:
  assumes m: "map_of (cp_attempts s) t = Some (user, stage)" "stage \<noteq> Connecting"
    and k: "keeps (inTransit (t, user, stage)) (acquirer (t, user, stage)) (s\<lparr>cp_attempts := AList.delete t (cp_attempts s)\<rparr>) r"
  shows "stepKeeps {#} s r"
  by (rule stepKeeps_hand [OF _ k]) (simp add: countsOk_delete [OF _ m] places_gone [OF _ m(1), symmetric])

lemma stepKeeps_attemptContinues: "stepKeeps {#} s (attemptContinues t now s)"
proof -
  let ?gone = "s\<lparr>cp_attempts := AList.delete t (cp_attempts s)\<rparr>"
  have transit: "inTransit (t, user, Settled outcome) = handed outcome" for user outcome
    by (cases outcome) (simp_all add: inTransit_def)
  have gone: "stepKeeps {#} s r"
    if "map_of (cp_attempts s) t = Some (user, Settled outcome)" "keeps (handed outcome) (acquirer (t, user, Settled outcome)) ?gone r"
    for user outcome r
    using stepKeeps_gone [of s t user "Settled outcome" r] that by (simp add: transit)
  have warm: "stepKeeps {#} s (createdForWarmUp outcome now (s\<lparr>cp_attempts := AList.update t (ForWarmUp, Scheduling) (cp_attempts s)\<rparr>))"
    if m: "map_of (cp_attempts s) t = Some (ForWarmUp, Settled outcome)" for outcome
  proof (rule stepKeeps_hand [OF _ keeps_createdForWarmUp])
    assume ok: "countsOk s"
    let ?g = "s\<lparr>cp_attempts := AList.update t (ForWarmUp, Scheduling) (cp_attempts s)\<rparr>"
    show "countsOk ?g \<and> places s = places ?g + handed outcome \<and> waiting s = waiting ?g + {#} \<and> cp_nextAcquire ?g = cp_nextAcquire s \<and>
        mset (cp_active s) = mset (cp_active ?g) + {#}"
      using countsOk_update [OF ok m, of Scheduling ForWarmUp] places_changed [OF ok m, of ForWarmUp Scheduling] transit [of ForWarmUp outcome]
      by (simp add: acquirer_def) (simp add: inTransit_def)
  qed
  have nobody: "keeps (handed outcome) {#} ?gone (case outcome of Inr c \<Rightarrow> ([CloseConnection c], ?gone) | Inl _ \<Rightarrow> ([], ?gone))" for outcome
    by (cases outcome) (simp_all add: keeps_close keeps_skip)
  show ?thesis
  proof (cases "map_of (cp_attempts s) t")
    case None
    then show ?thesis by (simp add: attemptContinues_def stepKeeps_keeps keeps_skip)
  next
    case (Some p)
    obtain user stage where p: "p = (user, stage)" by (cases p)
    show ?thesis
    proof (cases stage)
      case Connecting
      then show ?thesis using Some p by (cases user) (simp_all add: attemptContinues_def Let_def stepKeeps_keeps keeps_skip)
    next
      case (Settled outcome)
      note m = Some [unfolded p Settled]
      show ?thesis
        using m warm [of outcome] gone [OF m]
        by (cases user) (simp_all add: attemptContinues_def Let_def acquirer_def keeps_createdForAcquire keeps_createdDetached
            keeps_createdForDrain nobody)
    next
      case Scheduling
      show ?thesis
      proof (cases "user = ForWarmUp")
        case True
        have "keeps (inTransit (t, user, Scheduling)) (acquirer (t, user, Scheduling)) ?gone (schedulePendingCreateDrain ?gone)"
          using True by (simp add: inTransit_def acquirer_def keeps_schedule)
        then show ?thesis
          using stepKeeps_gone [of s t user Scheduling] Some p Scheduling True by (simp add: attemptContinues_def Let_def)
      next
        case False
        then show ?thesis
          using Some p Scheduling by (cases user) (simp_all add: attemptContinues_def Let_def stepKeeps_keeps keeps_skip)
      qed
    qed
  qed
qed

lemma stepKeeps_drainFinished: "stepKeeps {#} s (drainFinished s)"
proof -
  have "keeps {#} {#} (s\<lparr>cp_drain := d\<rparr>) r = keeps {#} {#} s r" for d r
    by (simp add: keeps_def countsOk_def pool_counts)
  then have "keeps {#} {#} s (schedulePendingCreateDrain (s\<lparr>cp_drain := NoDrain\<rparr>))"
    using keeps_schedule by blast
  then show ?thesis by (simp add: drainFinished_def stepKeeps_keeps keeps_skip)
qed

lemma reject_one:
  assumes "distinct (map pa_acquire (filter (\<lambda>w. \<not> pa_settled w) ws))" "\<exists>w\<in>set ws. pa_acquire w = a \<and> \<not> pa_settled w"
  defines "ws' \<equiv> map (\<lambda>w. if pa_acquire w = a then w\<lparr>pa_settled := True\<rparr> else w) ws"
  shows "mset (map pa_acquire (filter (\<lambda>w. \<not> pa_settled w) ws)) = add_mset a (mset (map pa_acquire (filter (\<lambda>w. \<not> pa_settled w) ws'))) \<and>
    length (filter pa_settled ws') = length (filter pa_settled ws) + 1"
proof -
  have none: "map (\<lambda>w. if pa_acquire w = a then w\<lparr>pa_settled := True\<rparr> else w) vs = vs"
    if "\<forall>w\<in>set vs. pa_acquire w = a \<longrightarrow> pa_settled w" for vs
    using that by (intro map_idI) auto
  show ?thesis
    unfolding ws'_def using assms(1,2)
  proof (induction ws)
    case (Cons w ws)
    show ?case
    proof (cases "pa_acquire w = a \<and> \<not> pa_settled w")
      case True
      then have "\<forall>v\<in>set ws. pa_acquire v = a \<longrightarrow> pa_settled v" using Cons.prems(1) by (auto simp: image_iff)
      then have same: "map (\<lambda>w. if pa_acquire w = a then w\<lparr>pa_settled := True\<rparr> else w) ws = ws" by (rule none)
      show ?thesis unfolding list.map(2) same using True by simp
    next
      case False
      have "distinct (map pa_acquire (filter (\<lambda>w. \<not> pa_settled w) ws))"
        using Cons.prems(1) by (simp split: if_splits)
      moreover have "\<exists>w\<in>set ws. pa_acquire w = a \<and> \<not> pa_settled w"
        using Cons.prems(2) False by auto
      moreover note Cons.IH
      ultimately show ?thesis
        using False by (cases "pa_acquire w = a"; cases "pa_settled w") simp_all
    qed
  qed simp
qed

lemma rejectPendingAcquire_same:
  assumes "rejectPendingAcquire a e s = (as, s')" "countsOk s" "distinct (unsettled s)"
  shows "countsOk s' \<and> places s' = places s \<and> waiting s' + mset (answeredAcquires as) = waiting s \<and>
    closedConns as = [] \<and> opened as = [] \<and> cp_nextAcquire s' = cp_nextAcquire s \<and>
    cp_active s' = cp_active s \<and> lent as = []"
proof (cases "\<exists>w\<in>set (cp_pending s). pa_acquire w = a \<and> \<not> pa_settled w")
  case True
  let ?ws = "map (\<lambda>w. if pa_acquire w = a then w\<lparr>pa_settled := True\<rparr> else w) (cp_pending s)"
  let ?t = "s\<lparr>cp_pending := ?ws, cp_pendingSettled := cp_pendingSettled s + 1\<rparr>"
  note one = reject_one [OF _ True] assms(3) [unfolded unsettled_def]
  have st: "cp_pendingSettled ?t = int (length (filter pa_settled (cp_pending ?t)))"
    using one assms(2) by (simp add: countsOk_def)
  note c = compactPending_ok [OF st]
  have s': "s' = compactPending ?t" "as = [AnswerAcquire a (Inl e)]"
    using assms(1) True by (auto simp: rejectPendingAcquire_def)
  define ws n where "ws = cp_pending (compactPending ?t)" and "n = cp_pendingSettled (compactPending ?t)"
  then have u: "s' = ?t\<lparr>cp_pending := ws, cp_pendingSettled := n\<rparr>" "n = int (length (filter pa_settled ws))"
    unfolding s'(1) using c by blast+
  have "unsettled s' = unsettled ?t" using c s' by simp
  moreover have "mset (unsettled s) = add_mset a (mset (unsettled ?t))"
    using one by (simp add: unsettled_def)
  ultimately show ?thesis
    unfolding u(1) s'(2) using u(2) assms(2) by (simp add: countsOk_def pool_counts)
next
  case False
  then have "rejectPendingAcquire a e s = ([], s)" unfolding rejectPendingAcquire_def by (rule if_not_P)
  then show ?thesis using assms(1,2) by simp
qed

lemma stepKeeps_reject: "stepKeeps {#} s (rejectPendingAcquire a e s)"
proof -
  obtain as s' where r: "rejectPendingAcquire a e s = (as, s')" by (cases "rejectPendingAcquire a e s")
  have "distinct (unsettled s)" if "single (waiting s + {#cp_nextAcquire s#})"
    using distinct_unsettled [OF single_plus_left [OF that]] .
  then show ?thesis
    unfolding r by (intro stepKeepsI) (use rejectPendingAcquire_same [OF r] in \<open>auto simp: eventKeeps_def\<close>)
qed

lemma stepKeeps_aborts: "stepKeeps {#} s (acquireSignalAborts a s)"
proof (cases "\<exists>w\<in>set (cp_pending s). pa_acquire w = a \<and> pa_signal w")
  case True
  then show ?thesis by (simp add: acquireSignalAborts_def stepKeeps_reject)
next
  case no: False
  show ?thesis
  proof (cases "filter (\<lambda>(t, user, stage). user = ForAcquire a True) (cp_attempts s)")
    case Nil
    then show ?thesis unfolding acquireSignalAborts_def if_not_P [OF no] by (simp add: stepKeeps_keeps keeps_skip)
  next
    case (Cons p rest)
    obtain t stage where p: "p = (t, ForAcquire a True, stage)" "p \<in> set (cp_attempts s)"
    proof -
      have "p \<in> set (filter (\<lambda>(t, user, stage). user = ForAcquire a True) (cp_attempts s))" using Cons by simp
      then show ?thesis using that by auto
    qed
    let ?g = "s\<lparr>cp_attempts := AList.update t (Detached, stage) (cp_attempts s)\<rparr>"
    have "stepKeeps {#} s (andThen (schedulePendingCreateDrain ?g) (\<lambda>s. ([AnswerAcquire a (Inl acquireAborted)], s)))"
    proof (rule stepKeeps_hand [OF _ keeps_then_answer [OF keeps_schedule]])
      assume ok: "countsOk s"
      then have m: "map_of (cp_attempts s) t = Some (ForAcquire a True, stage)"
        using p by (simp add: countsOk_def map_of_eq_Some_iff)
      show "countsOk ?g \<and> places s = places ?g + {#} \<and> waiting s = waiting ?g + {#a#} \<and> cp_nextAcquire ?g = cp_nextAcquire s \<and>
        mset (cp_active s) = mset (cp_active ?g) + {#}"
        using countsOk_update [OF ok m, of stage Detached] places_changed [OF ok m, of Detached stage]
        by (simp add: acquirer_def) (simp add: inTransit_def)
    qed
    then show ?thesis unfolding acquireSignalAborts_def if_not_P [OF no] using Cons p by simp
  qed
qed

lemma mset_fst_delete:
  "distinct (map fst al) \<Longrightarrow> map_of al k = Some v \<Longrightarrow> mset (map fst al) = add_mset k (mset (map fst (AList.delete k al)))"
  using mset_delete [of al k v] by simp

lemma stepKeeps_evict: "stepKeeps {#} s (evictIdle c s)"
proof (cases "map_of (cp_idle s) c")
  case None
  then show ?thesis by (simp add: evictIdle_def stepKeeps_keeps keeps_skip)
next
  case (Some u)
  let ?s = "s\<lparr>cp_idle := AList.delete c (cp_idle s)\<rparr>"
  have step: "stepKeeps {#} s r" if k: "keeps {#c#} {#} ?s r" for r
  proof -
    obtain as s' where r: "r = (as, s')" by (cases r)
    show ?thesis
      unfolding r
    proof (rule stepKeepsI)
      assume pre: "countsOk s" "single (places s)" "single (waiting s + {#cp_nextAcquire s#})"
      have "distinct (map fst (cp_idle s))" using distinct_idle [OF pre(2)] .
      then have e: "places s = places ?s + {#c#}" "waiting ?s = waiting s" "countsOk ?s"
        using pre(1) mset_fst_delete [of "cp_idle s", OF _ Some] by (simp_all add: pool_counts countsOk_def)
      have "single (waiting s)" using single_plus_left [OF pre(3)] .
      then show "eventKeeps {#} s as s'"
        using k pre(2) e by (simp add: keeps_def eventKeeps_def r)
    qed
  qed
  show ?thesis using Some by (simp add: evictIdle_def Let_def step keeps_close keeps_park)
qed

lemma stepKeeps_release:
  "stepKeeps (if c \<in> set (cp_active s) then {#c#} else {#}) s (releaseConnection c now s)"
proof (cases "c \<in> set (cp_active s)")
  case True
  let ?s = "s\<lparr>cp_active := remove1 c (cp_active s)\<rparr>"
  have "stepKeeps {#c#} s r" if k: "keeps {#c#} {#} ?s r" for r
    using True by (intro stepKeeps_hand [OF _ k]) (simp add: pool_counts countsOk_def)
  then show ?thesis using True by (simp add: releaseConnection_def Let_def keeps_close keeps_handoffOrPark)
qed (simp add: releaseConnection_def stepKeeps_keeps keeps_skip)

lemma answer_actions:
  "closedConns (map (\<lambda>w. AnswerAcquire (f w) (Inl e)) ws) = [] \<and>
   answeredAcquires (map (\<lambda>w. AnswerAcquire (f w) (Inl e)) ws) = map f ws \<and>
   opened (map (\<lambda>w. AnswerAcquire (f w) (Inl e)) ws) = [] \<and> lent (map (\<lambda>w. AnswerAcquire (f w) (Inl e)) ws) = []"
  by (induction ws) simp_all

lemma close_actions:
  "closedConns (map (CloseConnection \<circ> f) al) = map f al \<and>
   answeredAcquires (map (CloseConnection \<circ> f) al) = [] \<and> opened (map (CloseConnection \<circ> f) al) = [] \<and>
   lent (map (CloseConnection \<circ> f) al) = []"
  by (induction al) simp_all

lemma stepKeeps_finishClose: "stepKeeps (takenBack FinishClose s) s (finishClose s)"
proof (cases "\<not> cp_closed s \<or> cp_closeDone s \<or> (\<exists>(t, user, stage)\<in>set (cp_attempts s). user = ForWarmUp)")
  case False
  have "takenBack FinishClose s = mset (cp_active s)"
    unfolding takenBack_def finishClose_def if_not_P [OF False] using False by simp
  then show ?thesis
    unfolding finishClose_def if_not_P [OF False]
    by (intro stepKeepsI) (simp add: eventKeeps_def answer_actions close_actions close_actions [of id, simplified]
        countsOk_def pool_counts unsettled_def)
next
  case True
  then have "finishClose s = ([], s)" unfolding finishClose_def by (rule if_P)
  then show ?thesis by (simp add: takenBack_def stepKeeps_keeps keeps_skip)
qed

lemma stepKeeps_warmUpOvertaken: "stepKeeps {#} s (warmUpOvertaken t s)"
proof -
  have "keeps {#} {#} s ([], s\<lparr>cp_attempts := AList.update t (ForNobody, stage) (cp_attempts s)\<rparr>)"
    if m: "map_of (cp_attempts s) t = Some (ForWarmUp, stage)" for stage
  proof (rule keepsI)
    assume ok: "countsOk s"
    let ?g = "s\<lparr>cp_attempts := AList.update t (ForNobody, stage) (cp_attempts s)\<rparr>"
    have "places ?g = places s" "waiting ?g = waiting s"
      using places_changed [OF ok m, of ForNobody stage] by (simp_all add: acquirer_def) (simp add: inTransit_def)
    then show "countsOk ?g \<and> places ?g + mset (closedConns []) = places s + {#} \<and>
        waiting ?g + mset (answeredAcquires []) = waiting s + {#} \<and> opened [] = [] \<and> cp_nextAcquire ?g = cp_nextAcquire s \<and>
        mset (cp_active ?g) = mset (cp_active s) + mset (lent [])"
      using countsOk_update [OF ok m, of stage ForNobody] by simp
  qed
  then show ?thesis
    by (auto simp: warmUpOvertaken_def stepKeeps_keeps keeps_skip split: option.splits AttemptUser.splits AttemptStage.splits)
qed

lemma stepKeeps_step: "stepKeeps (takenBack event s) s (poolStep s event)"
proof (cases event)
  case Close
  have "keeps {#} {#} s (closePool s)" unfolding closePool_def by (rule keepsI) (simp add: countsOk_def pool_counts unsettled_def)
  then show ?thesis using Close by (simp add: stepKeeps_keeps takenBack_def)
next
  case FinishClose
  then show ?thesis by (simp add: stepKeeps_finishClose)
qed (simp_all add: takenBack_def stepKeeps_acquire stepKeeps_healthChecked stepKeeps_connectSettled stepKeeps_attemptContinues
    stepKeeps_drainFinished stepKeeps_reject stepKeeps_aborts stepKeeps_evict stepKeeps_release
    stepKeeps_warmUpOvertaken)

section \<open>Waiters are served\<close>

text \<open>\<open>servedWith n\<close>: the operation has \<open>n\<close> slots in hand.\<close>

definition servedWith :: "int \<Rightarrow> RpcConnectionPool \<Rightarrow> bool" where
  "servedWith n s \<longleftrightarrow> (unsettled s \<noteq> [] \<longrightarrow> cp_idle s = [] \<and>
     (cp_closed s \<or> cp_drain s \<noteq> NoDrain \<or> cp_maxConnections s \<le> slots s + n))"

lemma served_iff: "served s \<longleftrightarrow> servedWith 0 s"
  by (simp add: served_def servedWith_def)

lemma served_mono: "servedWith m s \<Longrightarrow> m \<le> n \<Longrightarrow> servedWith n s"
  by (auto simp: servedWith_def)

lemma limbo_nonneg: "0 \<le> limbo s"
proof -
  have "0 \<le> (\<Sum>(t, user, stage)\<in>#M. if stage = Connecting then 0 else (1 :: int))" for M :: "(nat \<times> AttemptUser \<times> AttemptStage) multiset"
    by (induction M) auto
  then show ?thesis by (simp add: limbo_def)
qed

lemma slots_update [simp]:
  "slots (s\<lparr>cp_pending := ws\<rparr>) = slots s" "slots (s\<lparr>cp_pendingSettled := n\<rparr>) = slots s"
  "slots (s\<lparr>cp_drain := d\<rparr>) = slots s" "slots (s\<lparr>cp_checks := ch\<rparr>) = slots s"
  "slots (s\<lparr>cp_nextAcquire := k\<rparr>) = slots s" "slots (s\<lparr>cp_closed := b\<rparr>) = slots s"
  "slots (s\<lparr>cp_warmupFailed := n\<rparr>) = slots s" "slots (s\<lparr>cp_warmupSucceeded := n\<rparr>) = slots s"
  by (simp_all add: slots_def limbo_def)

text \<open>When the drain is not scheduled, nobody waits or there is no slot.\<close>

lemma served_drain: "servedWith n s \<Longrightarrow> served (snd (drainPendingAcquires s))"
  by (auto simp: drainPendingAcquires_def served_def servedWith_def beginConnectAttempt_def)

lemma served_schedule: "servedWith n s \<Longrightarrow> countsOk s \<Longrightarrow> served (snd (schedulePendingCreateDrain s))"
  using limbo_nonneg [of s] hasPending_iff [of s] served_drain [of n s]
  by (auto simp: schedulePendingCreateDrain_def served_def servedWith_def canCreateConnection_def slots_def)

lemma snd_andThen: "snd (andThen r f) = snd (f (snd r))"
  by (simp add: andThen_def split: prod.splits)

lemma slots_addActive: "c \<notin> set (cp_active s) \<Longrightarrow> slots (addActive c s) = slots s + 1"
  by (simp add: addActive_def slots_def limbo_def)

lemma addActive_frame [simp]:
  "cp_closed (addActive c s) = cp_closed s" "cp_drain (addActive c s) = cp_drain s"
  "cp_maxConnections (addActive c s) = cp_maxConnections s"
  by (simp_all add: addActive_def)

lemma served_addActive: "servedWith n s \<Longrightarrow> c \<notin> set (cp_active s) \<Longrightarrow> n \<le> 1 \<Longrightarrow> served (addActive c s)"
  by (auto simp: served_def servedWith_def slots_addActive)

lemma served_take:
  assumes s: "servedWith n s" "countsOk s" "n \<le> 1" "c \<notin> set (cp_active s)"
    and t: "takeNextPendingAcquire s = (r, s')"
  shows "case r of None \<Rightarrow> unsettled s' = [] | Some a \<Rightarrow> served (addActive c s')"
proof -
  obtain ws k where s': "s' = s\<lparr>cp_pending := ws, cp_pendingSettled := k\<rparr>"
    and u: "unsettled s = (case r of None \<Rightarrow> [] | Some a \<Rightarrow> a # unsettled s')" "r = None \<longrightarrow> unsettled s' = []"
    using takeNext [OF t s(2)] by blast
  show ?thesis
    using s u by (auto simp: s' servedWith_def intro!: served_addActive [of n] split: option.splits)
qed

lemma served_empty: "unsettled s = [] \<Longrightarrow> served s"
  by (simp add: served_def)

lemma served_handoffElse:
  assumes "servedWith n s" "countsOk s" "n \<le> 1" "c \<notin> set (cp_active s)"
    and "\<And>s'. unsettled s' = [] \<Longrightarrow> served (snd (f s'))"
  shows "served (snd (handoffElse c f s))"
proof -
  obtain r s' where t: "takeNextPendingAcquire s = (r, s')" by (cases "takeNextPendingAcquire s")
  show ?thesis
    using served_take [OF assms(1-4) t] assms(5) by (simp add: handoffElse_def t split: option.splits)
qed

lemma served_handoffOrPark:
  "servedWith n s \<Longrightarrow> countsOk s \<Longrightarrow> n \<le> 1 \<Longrightarrow> c \<notin> set (cp_active s) \<Longrightarrow> served (snd (handoffOrPark c now s))"
  unfolding handoffOrPark_def by (erule (3) served_handoffElse) (simp add: served_empty)

lemma served_begin: "servedWith n s \<Longrightarrow> n \<le> 1 \<Longrightarrow> served (snd (beginConnectAttempt user s))"
  by (auto simp: beginConnectAttempt_def served_def servedWith_def slots_def limbo_def)

lemma served_lend:
  "served s \<Longrightarrow> countsOk s \<Longrightarrow> c \<notin> set (cp_active s) \<Longrightarrow> served (snd (lend a c aborted now s))"
  using served_handoffOrPark [of 0 s c now] served_addActive [of 0 s c] by (simp add: lend_def snd_andThen served_iff)

lemma served_acquireTurn:
  assumes "served s" "countsOk s" "single (places s)"
  shows "served (snd (acquireTurn a signal aborted now s))"
proof (cases "cp_idle s")
  case Nil
  have "served (s\<lparr>cp_pending := cp_pending s @ [\<lparr>pa_acquire = a, pa_signal = signal, pa_settled = False\<rparr>]\<rparr>)"
    if "\<not> canCreateConnection s"
    using that Nil limbo_nonneg [of s] by (simp add: served_def canCreateConnection_def slots_def limbo_def)
  then show ?thesis
    using Nil assms(1) served_begin [of 0 s] by (simp add: acquireTurn_def served_iff)
next
  case (Cons p idle)
  obtain c u where p: "p = (c, u)" by (cases p)
  have e: "unsettled s = []" using assms(1) Cons by (auto simp: served_def)
  have "single (places (s\<lparr>cp_idle := idle\<rparr>) + {#c#})" using assms(3) Cons p by (simp add: places_def)
  from single_not_in [OF this] have "c \<notin> set (cp_active s)" by simp
  then show ?thesis
    using Cons p e assms(2) served_lend [of "s\<lparr>cp_idle := idle\<rparr>" c a aborted now]
    by (simp add: acquireTurn_def Let_def served_empty countsOk_def connectingCount_def)
qed

lemma served_acquire:
  assumes "served s" "countsOk s" "single (places s)"
  shows "served (snd (acquire signal timeoutMs now s))"
proof -
  let ?s = "s\<lparr>cp_nextAcquire := cp_nextAcquire s + 1\<rparr>"
  have "served ?s" "countsOk ?s" "places ?s = places s"
    using assms by (simp_all add: served_def countsOk_def pool_counts)
  then show ?thesis
    using served_acquireTurn [of ?s "cp_nextAcquire s" "signal \<noteq> None" False now] assms(3)
    by (simp add: acquire_def Let_def split: sum.splits)
qed

lemma single_check:
  assumes "single (places s)" "map_of (cp_checks s) a = Some (c, signal)"
  shows "c \<notin> set (cp_active s)"
proof
  assume "c \<in> set (cp_active s)"
  moreover have "(a, c, signal) \<in> set (cp_checks s)" using assms(2) by (rule map_of_SomeD)
  then obtain M where "mset (cp_checks s) = add_mset (a, c, signal) M" by (metis mset_add set_mset_mset)
  ultimately have "1 < count (places s) c"
    by (simp add: places_def)
  then show False using assms(1) by (auto simp: single_def dest: spec [of _ c])
qed

lemma served_healthChecked:
  assumes "served s" "countsOk s" "single (places s)"
  shows "served (snd (healthChecked a healthy aborted now s))"
proof (cases "map_of (cp_checks s) a")
  case (Some p)
  obtain c signal where p: "p = (c, signal)" by (cases p)
  let ?s = "s\<lparr>cp_checks := AList.delete a (cp_checks s)\<rparr>"
  have ok: "served ?s" "countsOk ?s" using assms by (simp_all add: served_def countsOk_def connectingCount_def)
  have "places ?s \<subseteq># places s"
    by (simp add: places_def AList.delete_eq image_mset_subseteq_mono)
  then have "single (places ?s)" using assms(3) by (metis single_plus_left subset_mset.le_iff_add)
  then show ?thesis
    using Some p ok single_check [OF assms(3)] served_lend [of ?s c] served_acquireTurn [of ?s]
    by (simp add: healthChecked_def Let_def snd_andThen)
qed (use assms in \<open>simp add: healthChecked_def\<close>)

lemma served_connectSettled:
  assumes "served s" "countsOk s"
  shows "served (snd (connectSettled t outcome s))"
proof (cases "\<exists>user. map_of (cp_attempts s) t = Some (user, Connecting)")
  case True
  then obtain user where u: "map_of (cp_attempts s) t = Some (user, Connecting)" by blast
  let ?s = "s\<lparr>cp_connecting := max 0 (cp_connecting s - 1), cp_attempts := AList.update t (user, Settled outcome) (cp_attempts s)\<rparr>"
  let ?c = "\<lambda>(t, user, stage). if stage = Connecting then 1 else 0 :: int"
  let ?l = "\<lambda>(t, user, stage). if stage = Connecting then 0 else 1 :: int"
  have "0 \<le> (\<Sum>p\<in>#M. ?c p)" for M by (induction M) auto
  note this [of "mset (AList.delete t (cp_attempts s))"]
  then have "slots ?s = slots s"
    using assms(2) attempts_delete [OF assms(2) u, of ?c] attempts_delete [OF assms(2) u, of ?l]
      attempts_update [OF assms(2), of ?l t "(user, Settled outcome)"]
    by (simp add: slots_def limbo_def countsOk_def connectingCount_def)
  then show ?thesis using assms(1) u by (simp add: connectSettled_def served_def)
next
  case False
  then have "connectSettled t outcome s = ([], s)"
    by (auto simp: connectSettled_def split: option.splits AttemptStage.splits)
  then show ?thesis using assms(1) by simp
qed

text \<open>Attempts whose user has been overtaken by the close of the pool exist only in a closed pool.\<close>

definition users :: "RpcConnectionPool \<Rightarrow> AttemptUser set" where
  "users s = (fst \<circ> snd) ` set (cp_attempts s)"

definition nobodyClosed :: "RpcConnectionPool \<Rightarrow> bool" where
  "nobodyClosed s \<longleftrightarrow> (ForNobody \<in> users s \<longrightarrow> cp_closed s)"

lemma served_gone:
  assumes "served s" "countsOk s" "map_of (cp_attempts s) t = Some (user, stage)" "stage \<noteq> Connecting"
  shows "servedWith 1 (s\<lparr>cp_attempts := AList.delete t (cp_attempts s)\<rparr>)"
  using assms(1,4) attempts_delete [OF assms(2,3), of "\<lambda>(t, user, stage). if stage = Connecting then 0 else 1 :: int"]
  by (auto simp: served_def servedWith_def slots_def limbo_def)

lemma served_createdForAcquire:
  assumes "servedWith 1 s" "countsOk s" "single (places s + handed outcome)"
  shows "served (snd (createdForAcquire a outcome s))"
proof (cases outcome)
  case (Inl e)
  then show ?thesis using served_schedule [OF assms(1,2)] by (simp add: createdForAcquire_def snd_andThen)
next
  case (Inr c)
  then have "c \<notin> set (cp_active s)" using assms(3) single_not_in by auto
  then show ?thesis
    using Inr served_schedule [OF assms(1,2)] served_addActive [OF assms(1)] by (simp add: createdForAcquire_def snd_andThen)
qed

lemma served_createdDetached:
  assumes "servedWith 1 s" "countsOk s" "single (places s + handed outcome)" "single (waiting s)"
  shows "served (snd (createdDetached outcome s))"
proof -
  let ?r = "case outcome of
      Inr c \<Rightarrow> if cp_closed s then ([CloseConnection c], s) else handoffElse c (\<lambda>s. ([CloseConnection c], s)) s
    | Inl e \<Rightarrow> ([], s)"
  have "servedWith 1 (snd ?r) \<and> countsOk (snd ?r)"
  proof (cases outcome)
    case (Inr c)
    have "c \<notin> set (cp_active s)" using assms(3) Inr single_not_in by auto
    then have "served (snd (handoffElse c (\<lambda>s. ([CloseConnection c], s)) s))"
      by (intro served_handoffElse [OF assms(1,2)]) (auto simp: served_empty)
    moreover have "countsOk (snd (handoffElse c (\<lambda>s. ([CloseConnection c], s)) s))"
      using keeps_handoffElse [OF keeps_close, of c s] assms Inr by (auto simp: keeps_def)
    ultimately show ?thesis using Inr assms(1,2) by (auto simp: served_iff intro: served_mono)
  qed (use assms in simp)
  then show ?thesis unfolding createdDetached_def snd_andThen using served_schedule by blast
qed

lemma served_createdForDrain:
  assumes "servedWith 1 s" "countsOk s" "single (places s + handed outcome)"
  shows "served (snd (createdForDrain outcome now s))"
proof -
  obtain r s' where t: "takeNextPendingAcquire s = (r, s')" by (cases "takeNextPendingAcquire s")
  obtain ws k where s': "s' = s\<lparr>cp_pending := ws, cp_pendingSettled := k\<rparr>"
    and u: "unsettled s = (case r of None \<Rightarrow> [] | Some a \<Rightarrow> a # unsettled s')" "r = None \<longrightarrow> unsettled s' = []"
    using takeNext [OF t assms(2)] by blast
  show ?thesis
  proof (cases outcome)
    case (Inl e)
    have "servedWith 1 s'" using assms(1) u by (auto simp: servedWith_def s' split: option.splits)
    then show ?thesis using Inl t served_drain by (auto simp: createdForDrain_def snd_andThen split: option.splits)
  next
    case (Inr c)
    have "c \<notin> set (cp_active s)" using assms(3) Inr single_not_in by auto
    note tk = served_take [OF assms(1,2) _ this t]
    have ended: "served (s\<lparr>cp_drain := DrainEnding\<rparr>)" using assms(1) by (auto simp: served_def servedWith_def)
    show ?thesis
    proof (cases r)
      case None
      then show ?thesis
        using Inr t u ended by (simp add: createdForDrain_def served_empty)
    next
      case (Some a)
      then show ?thesis
        using Inr t tk ended served_drain [of 0 "addActive c s'"] by (simp add: createdForDrain_def snd_andThen served_iff)
    qed
  qed
qed

lemma served_createdForWarmUp:
  assumes "served s" "countsOk s" "single (places s + handed outcome)"
  shows "served (snd (createdForWarmUp outcome now s))"
proof (cases outcome)
  case (Inl e)
  then show ?thesis using assms(1) by (simp add: createdForWarmUp_def served_def unsettled_def)
next
  case (Inr c)
  let ?s = "s\<lparr>cp_warmupSucceeded := cp_warmupSucceeded s + 1\<rparr>"
  have "c \<notin> set (cp_active ?s)" using assms(3) Inr single_not_in by auto
  moreover have "served ?s" "countsOk ?s"
    using assms(1,2) by (simp_all add: served_def unsettled_def countsOk_def connectingCount_def)
  ultimately show ?thesis
    using Inr served_handoffOrPark [of 0 ?s c now] by (simp add: createdForWarmUp_def Let_def served_iff)
qed

lemma served_attemptContinues:
  assumes s: "served s" "countsOk s" "single (places s)" "single (waiting s)" "nobodyClosed s"
  shows "served (snd (attemptContinues t now s))"
proof (cases "map_of (cp_attempts s) t")
  case (Some p)
  obtain user stage where p: "p = (user, stage)" by (cases p)
  let ?gone = "s\<lparr>cp_attempts := AList.delete t (cp_attempts s)\<rparr>"
  note m = Some [unfolded p]
  show ?thesis
  proof (cases stage)
    case Connecting
    then show ?thesis using m s(1) by (cases user) (simp_all add: attemptContinues_def Let_def)
  next
    case Scheduling
    then have "served (snd (schedulePendingCreateDrain ?gone))"
      using served_schedule [OF served_gone [OF s(1,2) m] countsOk_delete [OF s(2) m]] by simp
    then show ?thesis using m Scheduling s(1) by (cases user) (simp_all add: attemptContinues_def Let_def)
  next
    case (Settled outcome)
    note m = m [unfolded Settled]
    have g: "servedWith 1 ?gone" "countsOk ?gone"
      using served_gone [OF s(1,2) m] countsOk_delete [OF s(2) m] by simp_all
    have hand: "inTransit (t, user, Settled outcome) = handed outcome" by (cases outcome) (simp_all add: inTransit_def)
    have pl: "single (places ?gone + handed outcome)" using places_gone(1) [OF s(2) m] s(3) by (simp add: hand)
    have wt: "single (waiting ?gone)" using places_gone(2) [OF s(2) m] s(4) by (metis single_plus_left)
    show ?thesis
    proof (cases user)
      case ForWarmUp
      let ?g = "s\<lparr>cp_attempts := AList.update t (ForWarmUp, Scheduling) (cp_attempts s)\<rparr>"
      let ?l = "\<lambda>(t, user, stage). if stage = Connecting then 0 else 1 :: int"
      have "countsOk ?g" using countsOk_update [OF s(2) m] by simp
      moreover have "slots ?g = slots s"
        using attempts_delete [OF s(2) m, of ?l] attempts_update [OF s(2), of ?l t "(ForWarmUp, Scheduling)"]
        by (simp add: slots_def limbo_def)
      then have "served ?g" using s(1) by (simp add: served_def)
      moreover have "places ?g + handed outcome = places s"
        using places_changed(1) [OF s(2) m, of ForWarmUp Scheduling] hand by (simp add: inTransit_def)
      ultimately show ?thesis
        using m ForWarmUp served_createdForWarmUp [of ?g outcome now] s(3) by (simp add: attemptContinues_def Let_def)
    next
      case ForNobody
      have "(t, ForNobody, Settled outcome) \<in> set (cp_attempts s)" using m ForNobody by (simp add: map_of_SomeD)
      then have "cp_closed s" using s(5) by (force simp: nobodyClosed_def users_def)
      then have "served ?gone" using g(1) by (simp add: served_def servedWith_def)
      then show ?thesis using m ForNobody by (cases outcome) (simp_all add: attemptContinues_def Let_def)
    qed (use m served_createdForAcquire [OF g pl] served_createdDetached [OF g pl wt] served_createdForDrain [OF g pl]
        in \<open>simp_all add: attemptContinues_def Let_def\<close>)
  qed
qed (use assms in \<open>simp add: attemptContinues_def\<close>)

lemma served_drainFinished: "served s \<Longrightarrow> countsOk s \<Longrightarrow> served (snd (drainFinished s))"
proof -
  assume s: "served s" "countsOk s"
  have k: "countsOk (s\<lparr>cp_drain := NoDrain\<rparr>)" using s(2) by (simp add: countsOk_def connectingCount_def)
  let ?s = "s\<lparr>cp_drain := NoDrain\<rparr>"
  have "served (snd (schedulePendingCreateDrain ?s))"
    using s(1) k limbo_nonneg [of s] hasPending_iff [OF k]
    by (cases "cp_closed s \<or> \<not> hasPendingAcquires ?s \<or> \<not> canCreateConnection ?s")
      (auto simp: schedulePendingCreateDrain_def drainPendingAcquires_def beginConnectAttempt_def served_def
        canCreateConnection_def slots_def limbo_def)
  then show ?thesis using s(1) by (simp add: drainFinished_def)
qed

lemma served_compact: "served (compactPending s) \<longleftrightarrow> served s"
proof -
  have "unsettled (compactPending s) = unsettled s" by (simp add: compactPending_def unsettled_def)
  then show ?thesis by (simp add: served_def) (simp add: compactPending_def)
qed

lemma served_reject:
  assumes "served s" "countsOk s"
  shows "served (snd (rejectPendingAcquire a e s))"
proof (cases "\<exists>w\<in>set (cp_pending s). pa_acquire w = a \<and> \<not> pa_settled w")
  case True
  let ?t = "s\<lparr>cp_pending := map (\<lambda>w. if pa_acquire w = a then w\<lparr>pa_settled := True\<rparr> else w) (cp_pending s),
     cp_pendingSettled := cp_pendingSettled s + 1\<rparr>"
  have u: "unsettled s \<noteq> []" using True by (auto simp: unsettled_def filter_empty_conv)
  have "served ?t" using assms(1) u by (simp add: served_def)
  then have "served (compactPending ?t)" by (simp add: served_compact)
  then show ?thesis using True by (simp add: rejectPendingAcquire_def)
next
  case False
  then have "rejectPendingAcquire a e s = ([], s)" unfolding rejectPendingAcquire_def by (rule if_not_P)
  then show ?thesis using assms(1) by simp
qed

lemma served_aborts:
  assumes "served s" "countsOk s"
  shows "served (snd (acquireSignalAborts a s))"
proof (cases "\<exists>w\<in>set (cp_pending s). pa_acquire w = a \<and> pa_signal w")
  case True
  then show ?thesis using served_reject [OF assms] by (simp add: acquireSignalAborts_def)
next
  case no: False
  show ?thesis
  proof (cases "filter (\<lambda>(t, user, stage). user = ForAcquire a True) (cp_attempts s)")
    case Nil
    then show ?thesis unfolding acquireSignalAborts_def if_not_P [OF no] using assms by simp
  next
    case (Cons p rest)
    have "p \<in> set (filter (\<lambda>(t, user, stage). user = ForAcquire a True) (cp_attempts s))" using Cons by simp
    then obtain t stage where p: "p = (t, ForAcquire a True, stage)" "p \<in> set (cp_attempts s)" by auto
    let ?g = "s\<lparr>cp_attempts := AList.update t (Detached, stage) (cp_attempts s)\<rparr>"
    have m: "map_of (cp_attempts s) t = Some (ForAcquire a True, stage)"
      using p assms(2) by (simp add: countsOk_def map_of_eq_Some_iff)
    let ?l = "\<lambda>(t, user, stage). if stage = Connecting then 0 else 1 :: int"
    have "slots ?g = slots s"
      using attempts_delete [OF assms(2) m, of ?l] attempts_update [OF assms(2), of ?l t "(Detached, stage)"]
      by (simp add: slots_def limbo_def)
    then have "servedWith 0 ?g" using assms(1) by (simp add: served_def servedWith_def)
    from served_schedule [OF this countsOk_update [OF assms(2) m]]
    show ?thesis
      unfolding acquireSignalAborts_def if_not_P [OF no] using Cons p by (simp add: snd_andThen)
  qed
qed

lemma served_evict: "served s \<Longrightarrow> served (snd (evictIdle c s))"
proof -
  assume s: "served s"
  have "unsettled s = []" if "map_of (cp_idle s) c = Some u" for u
    using s that by (auto simp: served_def)
  then show ?thesis
    using s by (auto simp: evictIdle_def Let_def intro!: served_empty split: option.splits)
qed

lemma served_release:
  assumes "served s" "countsOk s" "single (places s)"
  shows "served (snd (releaseConnection c now s))"
proof (cases "c \<in> set (cp_active s)")
  case True
  let ?s = "s\<lparr>cp_active := remove1 c (cp_active s)\<rparr>"
  obtain n where "length (cp_active s) = Suc n" using True by (cases "cp_active s") auto
  then have "slots s = slots ?s + 1" using True by (simp add: slots_def limbo_def length_remove1)
  then have sw: "servedWith 1 ?s" using assms(1) by (simp add: served_def servedWith_def)
  have "single (places ?s + {#c#})" using assms(3) True by (simp add: places_def)
  from single_not_in [OF this] have n: "c \<notin> set (cp_active ?s)" by blast
  have k: "countsOk ?s" using assms(2) by (simp add: countsOk_def connectingCount_def)
  have "served ?s" if "cp_closed s" using sw that by (simp add: served_def servedWith_def)
  then show ?thesis
    using True served_handoffOrPark [OF sw k _ n] by (simp add: releaseConnection_def Let_def)
qed (use assms in \<open>simp add: releaseConnection_def\<close>)

lemma served_finishClose: "served s \<Longrightarrow> served (snd (finishClose s))"
  by (auto simp: finishClose_def served_def unsettled_def)

lemma served_warmUpOvertaken:
  assumes "served s" "countsOk s"
  shows "served (snd (warmUpOvertaken t s))"
proof -
  have "served (s\<lparr>cp_attempts := AList.update t (ForNobody, stage) (cp_attempts s)\<rparr>)" if "cp_closed s" for stage
    using assms(1) that by (simp add: served_def)
  then show ?thesis
    using assms(1) by (auto simp: warmUpOvertaken_def split: option.splits AttemptUser.splits AttemptStage.splits)
qed

lemma served_step:
  assumes "served s" "countsOk s" "single (places s)" "single (waiting s)" "nobodyClosed s"
  shows "served (snd (poolStep s event))"
proof (cases event)
  case Close
  then show ?thesis using assms(1) by (auto simp: closePool_def served_def unsettled_def)
qed (simp_all add: assms served_acquire served_healthChecked served_connectSettled served_attemptContinues
    served_drainFinished served_reject served_aborts served_evict served_release served_finishClose served_warmUpOvertaken)

section \<open>Who is overtaken\<close>

text \<open>No operation but the close signal turns an attempt over to nobody, and none opens a closed pool.\<close>

definition keepsNobody :: "RpcConnectionPool \<Rightarrow> RpcConnectionPool \<Rightarrow> bool" where
  "keepsNobody s s' \<longleftrightarrow> (cp_closed s \<longrightarrow> cp_closed s') \<and> (ForNobody \<in> users s' \<longrightarrow> ForNobody \<in> users s \<or> cp_closed s')"

lemma keepsNobody_trans: "keepsNobody s t \<Longrightarrow> keepsNobody t u \<Longrightarrow> keepsNobody s u"
  by (auto simp: keepsNobody_def)

lemma keepsNobody_same: "cp_closed s' = cp_closed s \<Longrightarrow> cp_attempts s' = cp_attempts s \<Longrightarrow> keepsNobody s s'"
  by (simp add: keepsNobody_def users_def)

lemma keepsNobody_update:
  "user \<noteq> ForNobody \<or> cp_closed s \<Longrightarrow> keepsNobody s (s\<lparr>cp_attempts := AList.update t (user, stage) (cp_attempts s)\<rparr>)"
proof -
  have "users (s\<lparr>cp_attempts := AList.update t (user, stage) al\<rparr>) \<subseteq> insert user ((fst \<circ> snd) ` set al)" for al
    by (induction al) (auto simp: users_def)
  then show "user \<noteq> ForNobody \<or> cp_closed s \<Longrightarrow> ?thesis" by (fastforce simp: keepsNobody_def users_def)
qed

lemma keepsNobody_delete: "keepsNobody s (s\<lparr>cp_attempts := AList.delete t (cp_attempts s)\<rparr>)"
  by (force simp: keepsNobody_def users_def AList.delete_eq)

lemma takeNext_frame: "takeNextPendingAcquire s = (r, s') \<Longrightarrow> cp_closed s' = cp_closed s \<and> cp_attempts s' = cp_attempts s"
  by (auto simp: takeNextPendingAcquire_def compactPending_def split: option.splits prod.splits if_splits)

lemma keepsNobody_begin: "user \<noteq> ForNobody \<Longrightarrow> keepsNobody s (snd (beginConnectAttempt user s))"
  by (auto simp: beginConnectAttempt_def keepsNobody_def users_def)

lemma addActive_attempts [simp]: "cp_attempts (addActive c s) = cp_attempts s"
  by (simp add: addActive_def)

lemma keepsNobody_drain: "keepsNobody s (snd (drainPendingAcquires s))"
proof -
  have "keepsNobody s (s\<lparr>cp_drain := Draining\<rparr>)" by (rule keepsNobody_same) simp_all
  from keepsNobody_trans [OF this keepsNobody_begin]
  show ?thesis by (simp add: drainPendingAcquires_def keepsNobody_same)
qed

lemma keepsNobody_schedule: "keepsNobody s (snd (schedulePendingCreateDrain s))"
  by (simp add: schedulePendingCreateDrain_def keepsNobody_drain keepsNobody_same)

lemma keepsNobody_handoffElse:
  assumes "\<And>s'. keepsNobody s' (snd (f s'))"
  shows "keepsNobody s (snd (handoffElse c f s))"
proof -
  obtain r s' where t: "takeNextPendingAcquire s = (r, s')" by (cases "takeNextPendingAcquire s")
  have "keepsNobody s s'" using takeNext_frame [OF t] by (simp add: keepsNobody_same)
  then show ?thesis
    using keepsNobody_trans [OF _ assms] keepsNobody_trans [OF _ keepsNobody_same]
    by (simp add: handoffElse_def t split: option.splits)
qed

lemma keepsNobody_handoffOrPark: "keepsNobody s (snd (handoffOrPark c now s))"
  unfolding handoffOrPark_def
  by (rule keepsNobody_handoffElse) (simp add: parkIdleConnection_def keepsNobody_same)

lemma keepsNobody_lend: "keepsNobody s (snd (lend a c aborted now s))"
  by (simp add: lend_def snd_andThen keepsNobody_handoffOrPark keepsNobody_same)

lemma keepsNobody_acquireTurn: "keepsNobody s (snd (acquireTurn a signal aborted now s))"
proof (cases "cp_idle s")
  case (Cons p idle)
  have "keepsNobody s (s\<lparr>cp_idle := idle\<rparr>)" by (rule keepsNobody_same) simp_all
  from keepsNobody_trans [OF this keepsNobody_lend] show ?thesis
    using Cons by (simp add: acquireTurn_def Let_def keepsNobody_same split: prod.splits)
qed (simp add: acquireTurn_def keepsNobody_begin keepsNobody_same)

lemma keepsNobody_created:
  "keepsNobody s (snd (createdForAcquire a outcome s))" "keepsNobody s (snd (createdDetached outcome s))"
  "keepsNobody s (snd (createdForDrain outcome now s))" "keepsNobody s (snd (createdForWarmUp outcome now s))"
proof -
  show "keepsNobody s (snd (createdForAcquire a outcome s))"
    by (cases outcome) (simp_all add: createdForAcquire_def snd_andThen keepsNobody_schedule keepsNobody_same)
  have "keepsNobody s (snd (case outcome of
      Inr c \<Rightarrow> if cp_closed s then ([CloseConnection c], s) else handoffElse c (\<lambda>s. ([CloseConnection c], s)) s
    | Inl e \<Rightarrow> ([], s)))"
    by (cases outcome) (simp_all add: keepsNobody_same keepsNobody_handoffElse)
  then show "keepsNobody s (snd (createdDetached outcome s))"
    unfolding createdDetached_def snd_andThen using keepsNobody_trans keepsNobody_schedule by blast
  obtain r s' where t: "takeNextPendingAcquire s = (r, s')" by (cases "takeNextPendingAcquire s")
  have "keepsNobody s s'" "keepsNobody s (addActive c s')" for c
    using takeNext_frame [OF t] by (simp_all add: keepsNobody_same)
  then show "keepsNobody s (snd (createdForDrain outcome now s))"
    using keepsNobody_trans [OF _ keepsNobody_drain] takeNext_frame [OF t]
    by (auto simp: createdForDrain_def t snd_andThen parkIdleConnection_def keepsNobody_same split: sum.splits option.splits)
  have "keepsNobody s (s\<lparr>cp_warmupSucceeded := n\<rparr>)" for n by (rule keepsNobody_same) simp_all
  from keepsNobody_trans [OF this keepsNobody_handoffOrPark]
  show "keepsNobody s (snd (createdForWarmUp outcome now s))"
    by (simp add: createdForWarmUp_def Let_def keepsNobody_same split: sum.splits)
qed

lemma keepsNobody_attemptContinues: "keepsNobody s (snd (attemptContinues t now s))"
proof -
  let ?gone = "s\<lparr>cp_attempts := AList.delete t (cp_attempts s)\<rparr>"
  have gone: "keepsNobody s u" if "keepsNobody ?gone u" for u
    using keepsNobody_trans [OF keepsNobody_delete that] .
  have warm: "keepsNobody s u" if "keepsNobody (s\<lparr>cp_attempts := AList.update t (ForWarmUp, Scheduling) (cp_attempts s)\<rparr>) u" for u
    using keepsNobody_trans [OF keepsNobody_update that] by simp
  have nobody: "snd (case outcome of Inr c \<Rightarrow> ([CloseConnection c], ?gone) | Inl _ \<Rightarrow> ([], ?gone)) = ?gone" for outcome
    by (cases outcome) simp_all
  show ?thesis
    by (auto simp: attemptContinues_def Let_def nobody keepsNobody_delete keepsNobody_same
        intro: gone warm keepsNobody_created keepsNobody_schedule
        split: option.splits AttemptUser.splits AttemptStage.splits)
qed

lemma keepsNobody_rejectPendingAcquire: "keepsNobody s (snd (rejectPendingAcquire a e s))"
  by (rule keepsNobody_same) (simp_all add: rejectPendingAcquire_def compactPending_def)

lemma keepsNobody_aborts: "keepsNobody s (snd (acquireSignalAborts a s))"
proof -
  have "keepsNobody s (snd (schedulePendingCreateDrain (s\<lparr>cp_attempts := AList.update t (Detached, stage) (cp_attempts s)\<rparr>)))" for t stage
    using keepsNobody_trans [OF keepsNobody_update keepsNobody_schedule] by simp
  then show ?thesis
    by (simp add: acquireSignalAborts_def snd_andThen keepsNobody_rejectPendingAcquire keepsNobody_same split: list.splits prod.splits)
qed

lemma keepsNobody_step: "keepsNobody s (snd (poolStep s event))"
proof (cases event)
  case (Acquire signal timeoutMs now)
  have "keepsNobody s (s\<lparr>cp_nextAcquire := n\<rparr>)" for n by (rule keepsNobody_same) simp_all
  from keepsNobody_trans [OF this keepsNobody_acquireTurn]
  show ?thesis using Acquire by (simp add: acquire_def Let_def keepsNobody_same split: sum.splits)
next
  case (HealthChecked a healthy aborted now)
  have "keepsNobody s (s\<lparr>cp_checks := ch\<rparr>)" for ch by (rule keepsNobody_same) simp_all
  from keepsNobody_trans [OF this keepsNobody_acquireTurn] keepsNobody_trans [OF this keepsNobody_lend]
  show ?thesis
    using HealthChecked by (simp add: healthChecked_def Let_def snd_andThen keepsNobody_same split: option.splits)
next
  case (ConnectSettled t outcome)
  have "keepsNobody s (s\<lparr>cp_connecting := n, cp_attempts := AList.update t (user, Settled outcome) (cp_attempts s)\<rparr>)"
    if "map_of (cp_attempts s) t = Some (user, Connecting)" for n user
  proof -
    have "(t, user, Connecting) \<in> set (cp_attempts s)" using that by (rule map_of_SomeD)
    then have "user \<in> users s" by (force simp: users_def)
    moreover have "users (s\<lparr>cp_connecting := n, cp_attempts := AList.update t (user, Settled outcome) al\<rparr>) \<subseteq> insert user ((fst \<circ> snd) ` set al)" for al
      by (induction al) (auto simp: users_def)
    note this [of "cp_attempts s"]
    ultimately show ?thesis by (auto simp: keepsNobody_def users_def)
  qed
  then show ?thesis
    using ConnectSettled by (auto simp: connectSettled_def keepsNobody_same split: option.splits AttemptStage.splits)
next
  case (AttemptContinues t now)
  then show ?thesis by (simp add: keepsNobody_attemptContinues)
next
  case DrainFinished
  have "keepsNobody s (s\<lparr>cp_drain := NoDrain\<rparr>)" by (rule keepsNobody_same) simp_all
  from keepsNobody_trans [OF this keepsNobody_schedule]
  show ?thesis using DrainFinished by (simp add: drainFinished_def keepsNobody_same)
next
  case (Release c now)
  have "keepsNobody s (s\<lparr>cp_active := al\<rparr>)" for al by (rule keepsNobody_same) simp_all
  from this keepsNobody_trans [OF this keepsNobody_handoffOrPark]
  show ?thesis using Release by (simp add: releaseConnection_def Let_def keepsNobody_same)
next
  case (WarmUpOvertaken t)
  then show ?thesis
    by (auto simp: warmUpOvertaken_def keepsNobody_update keepsNobody_same split: option.splits AttemptUser.splits AttemptStage.splits)
next
  case (IdleTimeout c)
  then show ?thesis
    by (auto simp: evictIdle_def Let_def parkIdleConnection_def intro!: keepsNobody_same split: option.splits)
next
  case (AcquireSignalAborts a)
  then show ?thesis by (simp add: keepsNobody_aborts)
next
  case (AcquireTimesOut a)
  then show ?thesis by (simp add: keepsNobody_rejectPendingAcquire)
qed (auto simp: closePool_def finishClose_def keepsNobody_def users_def)

section \<open>The invariant\<close>

definition poolOk :: "pool_action list \<Rightarrow> RpcConnectionPool \<Rightarrow> bool" where
  "poolOk past s \<longleftrightarrow> countsOk s \<and> served s \<and> nobodyClosed s \<and> distinct (opened past) \<and>
     places s + mset (closedConns past) = mset (opened past) \<and>
     waiting s + mset (answeredAcquires past) = mset [0..<cp_nextAcquire s]"

lemma poolOk_single:
  assumes "poolOk past s"
  shows "single (places s)" "single (waiting s)" "single (waiting s + {#cp_nextAcquire s#})"
proof -
  have "single (places s + mset (closedConns past))"
    using assms by (simp add: poolOk_def)
  then show "single (places s)" by (rule single_plus_left)
  have "waiting s + {#cp_nextAcquire s#} + mset (answeredAcquires past) = mset [0..<cp_nextAcquire s + 1]"
    using assms by (simp add: poolOk_def)
  then have "single (waiting s + {#cp_nextAcquire s#} + mset (answeredAcquires past))"
    by (simp only: single_mset) simp
  then show w: "single (waiting s + {#cp_nextAcquire s#})" by (rule single_plus_left)
  then show "single (waiting s)" by (rule single_plus_left)
qed

lemma poolOk_step:
  assumes ok: "poolOk past s" and st: "poolStep s event = (actions, s')" and d: "distinct (opened (past @ actions))"
  shows "poolOk (past @ actions) s'" "mset (cp_active s') + takenBack event s = mset (cp_active s) + mset (lent actions)"
proof -
  note sg = poolOk_single [OF ok]
  have k: "countsOk s" "served s" "nobodyClosed s"
    and pl: "places s + mset (closedConns past) = mset (opened past)"
    and wt: "waiting s + mset (answeredAcquires past) = mset [0..<cp_nextAcquire s]"
    using ok by (simp_all add: poolOk_def)
  have "places s + mset (opened actions) + mset (closedConns past) = mset (opened (past @ actions))"
    using pl by (simp add: ac_simps)
  then have "single (places s + mset (opened actions) + mset (closedConns past))" using d by (simp only: single_mset)
  then have "single (places s + mset (opened actions))" by (rule single_plus_left)
  then have n: "countsOk s'" "places s' + mset (closedConns actions) = places s + mset (opened actions)"
    "cp_nextAcquire s \<le> cp_nextAcquire s'"
    "waiting s' + mset (answeredAcquires actions) = waiting s + mset [cp_nextAcquire s..<cp_nextAcquire s']"
    and a: "mset (cp_active s') + takenBack event s = mset (cp_active s) + mset (lent actions)"
    using stepKeeps_step [of event s] k(1) sg(3) by (simp_all add: stepKeeps_def st)
  have "served s'" using served_step [OF k(2,1) sg(1,2) k(3), of event] st by simp
  moreover have "nobodyClosed s'" using keepsNobody_step [of s event] k(3) st by (auto simp: keepsNobody_def nobodyClosed_def)
  moreover have "places s' + mset (closedConns (past @ actions)) = mset (opened (past @ actions))"
    using mset_chain [OF n(2), of "mset (closedConns past)" "mset (opened past)" "{#}"] pl by simp
  moreover have "waiting s' + mset (answeredAcquires (past @ actions)) = mset [0..<cp_nextAcquire s']"
    using mset_chain [OF n(4), of "mset (answeredAcquires past)" "mset [0..<cp_nextAcquire s]" "{#}"] wt
      upt_add_eq_append [of 0 "cp_nextAcquire s" "cp_nextAcquire s' - cp_nextAcquire s"] n(3) by simp
  ultimately show "poolOk (past @ actions) s'" using n(1) d by (simp add: poolOk_def)
  show "mset (cp_active s') + takenBack event s = mset (cp_active s) + mset (lent actions)" by (rule a)
qed

lemma warmUp_keeps: "keeps {#} {#} s (warmUp n s) \<and> (unsettled s = [] \<longrightarrow> unsettled (snd (warmUp n s)) = []) \<and>
    (ForNobody \<notin> users s \<longrightarrow> ForNobody \<notin> users (snd (warmUp n s)))"
proof (induction n arbitrary: s)
  case (Suc n)
  let ?r = "if canCreateConnection s then beginConnectAttempt ForWarmUp s
     else ([], s\<lparr>cp_warmupFailed := cp_warmupFailed s + 1\<rparr>)"
  have "keeps {#} {#} s ([], s\<lparr>cp_warmupFailed := cp_warmupFailed s + 1\<rparr>)"
    by (rule keepsI) (simp add: countsOk_def pool_counts unsettled_def)
  then have "keeps {#} {#} s ?r" using keeps_begin [of _ ForWarmUp s] by (simp add: acquirer_def)
  from keeps_andThen [OF this, of "{#}" "{#}" "warmUp n"] Suc
  have "keeps {#} {#} s (warmUp (Suc n) s)" by simp
  moreover have "unsettled (snd ?r) = unsettled s" "ForNobody \<in> users (snd ?r) \<longleftrightarrow> ForNobody \<in> users s"
    by (auto simp: beginConnectAttempt_def unsettled_def users_def)
  ultimately show ?case using Suc [of "snd ?r"] by (simp only: warmUp.simps snd_andThen) blast
qed (simp add: keeps_skip)

lemma poolOk_new:
  assumes "newRpcConnectionPool options = Inr (actions, s)"
  shows "poolOk actions s"
proof -
  obtain s0 n where s0: "warmUp n s0 = (actions, s)" "cp_idle s0 = []" "cp_active s0 = []" "cp_pending s0 = []"
    "cp_pendingSettled s0 = 0" "cp_connecting s0 = 0" "cp_checks s0 = []" "cp_attempts s0 = []" "cp_nextAcquire s0 = 0"
    using assms by (auto simp: newRpcConnectionPool_def Let_def bindE_eq_Inr split: if_splits)
  then have e: "countsOk s0" "places s0 = {#}" "waiting s0 = {#}" "unsettled s0 = []" "ForNobody \<notin> users s0"
    by (simp_all add: countsOk_def pool_counts unsettled_def users_def)
  have "single ({#} :: nat multiset)" by (simp add: single_def)
  then have "countsOk s \<and> places s + mset (closedConns actions) = {#} \<and> waiting s + mset (answeredAcquires actions) = {#} \<and>
      opened actions = [] \<and> cp_nextAcquire s = 0"
    using warmUp_keeps [of s0 n] e s0 by (simp add: keeps_def)
  moreover have "unsettled s = []" "ForNobody \<notin> users s" using warmUp_keeps [of s0 n] e s0(1) by simp_all
  ultimately show ?thesis by (simp add: poolOk_def served_def nobodyClosed_def)
qed

theorem poolRun_ok: "poolRun options past s \<Longrightarrow> poolOk past s"
  by (induction rule: poolRun.induct) (simp_all add: poolOk_new poolOk_step)

lemma poolEvents_run:
  "poolRun options past s \<Longrightarrow> poolEvents s events = (actions, s') \<Longrightarrow> distinct (opened (past @ actions)) \<Longrightarrow>
    poolRun options (past @ actions) s'"
proof (induction events arbitrary: s past actions)
  case (Cons event events)
  obtain as t where st: "poolStep s event = (as, t)" by (cases "poolStep s event")
  obtain bs u where ev: "poolEvents t events = (bs, u)" by (cases "poolEvents t events")
  have r: "actions = as @ bs" "s' = u" using Cons.prems(2) by (simp_all add: andThen_def st ev)
  have "poolRun options (past @ as) t"
    using poolRun.stepped [OF Cons.prems(1) st] Cons.prems(3) r by auto
  then show ?case using Cons.IH [of "past @ as" t bs] ev Cons.prems(3) r by simp
qed simp

end
