(* ===== verification/Resilience_Properties.thy ===== *)
theory Resilience_Properties
  imports Circuit_Breaker Reconnect Connection_Pool_State
begin

text \<open>
  The properties of the connection wrappers of \<open>src/rpc/transports/resilience\<close>, each with a witness.
\<close>

section \<open>The circuit breaker\<close>

definition twoFailures :: CircuitBreakerOptions where
  "twoFailures = \<lparr>bo_maxConsecutiveFailures = Some (jint 2), bo_cooldownMs = Some (jint 10)\<rparr>"

lemma breaker_events_run:
  "newCircuitBreaker options = Inr s \<Longrightarrow> breakerEvents s events = Some (actions, s') \<Longrightarrow>
    breakerRun options (rev events) s'"
  using breakerEvents_run [OF breakerRun.created] by fastforce

text \<open>C27: In every history of a circuit breaker its counter is the number of failures since the last
  success or reset, it is closed exactly while that number is below the threshold, an opening time
  is recorded exactly while it is not closed, and whenever it is half open a probe is running, so it
  is never stuck there.\<close>

theorem breaker_counts:
  assumes "breakerRun options events s"
  shows "cb_consecutiveFailures s = int (failuresInARow events) \<and>
    (cb_state s = CLOSED \<longleftrightarrow> int (failuresInARow events) < cb_maxConsecutiveFailures s) \<and>
    (cb_state s = CLOSED \<longleftrightarrow> cb_openedAtMs s = None) \<and>
    (cb_state s = HALF_OPEN \<longrightarrow> probes s \<noteq> [])"
  using breakerRun_ok [OF assms] by (auto simp: breakerOk_def)

definition newTwoFailures :: CircuitBreaker where
  "newTwoFailures = \<lparr>cb_maxConsecutiveFailures = 2, cb_cooldownMs = 10, cb_state = CLOSED,
     cb_consecutiveFailures = 0, cb_openedAtMs = None, cb_halfOpenProbeInFlight = False,
     cb_running = [], cb_started = 0\<rparr>"

definition trippingEvents :: "breaker_event list" where
  "trippingEvents = [CallFactory 0, CallFactory 1, FactorySettled 0 False 2, FactorySettled 1 False 3]"

definition tripped :: CircuitBreaker where
  "tripped = \<lparr>cb_maxConsecutiveFailures = 2, cb_cooldownMs = 10, cb_state = OPEN,
     cb_consecutiveFailures = 2, cb_openedAtMs = Some 3, cb_halfOpenProbeInFlight = False,
     cb_running = [], cb_started = 2\<rparr>"

lemma new_two_failures: "newCircuitBreaker twoFailures = Inr newTwoFailures"
  by (simp add: newCircuitBreaker_def twoFailures_def assertPositiveInteger_def assertPositiveFinite_def
      orElse_def newTwoFailures_def)

lemma tripping: "breakerEvents newTwoFailures trippingEvents =
    Some ([StartFactory 0, StartFactory 1, StateChange CLOSED OPEN], tripped)"
  by (simp add: newTwoFailures_def trippingEvents_def tripped_def breaker_ops orElse_def)

lemmas tripping_run = breaker_events_run [OF new_two_failures tripping]

theorem breaker_counts_witness: "cb_state tripped = OPEN \<and> failuresInARow (rev trippingEvents) = 2"
proof -
  have "cb_consecutiveFailures tripped = 2" "cb_state tripped = OPEN" by (simp_all add: tripped_def)
  then show ?thesis using breaker_counts [OF tripping_run] by simp
qed

text \<open>C28: In every history a call starts its factory exactly when the breaker is closed, or open with
  the cooldown over and no probe running by its flag; otherwise it is rejected. If the breaker was
  never reset, at most one probe runs at any time.\<close>

theorem breaker_admits:
  assumes "breakerRun options events s" "callFactory now s = (actions, s')"
  shows "((\<exists>call. StartFactory call \<in> set actions) \<longleftrightarrow>
      cb_state s = CLOSED \<or>
      (\<exists>openedAtMs. cb_state s = OPEN \<and> cb_openedAtMs s = Some openedAtMs \<and>
        cb_cooldownMs s \<le> of_int (now - openedAtMs) \<and> \<not> cb_halfOpenProbeInFlight s)) \<and>
    ((\<exists>call. StartFactory call \<in> set actions) \<longleftrightarrow> (\<forall>e. RejectCall e \<notin> set actions)) \<and>
    (noReset events \<longrightarrow> length (probes s') \<le> 1)"
proof -
  have "breakerRun options (CallFactory now # events) s'"
    using breakerRun.stepped [OF assms(1)] assms(2) by simp
  then have "noReset events \<Longrightarrow> length (probes s') \<le> 1"
    using oneProbe_run by (fastforce simp: noReset_def oneProbe_def)
  then show ?thesis
    using breakerRun_ok [OF assms(1)] assms(2)
    by (cases "cb_state s") (auto simp: breakerOk_def breaker_ops Let_def split: if_splits)
qed

theorem breaker_admits_witness:
  "\<not> (\<exists>call. StartFactory call \<in> set (fst (callFactory 12 tripped))) \<and>
   (\<exists>call. StartFactory call \<in> set (fst (callFactory 13 tripped)))"
proof -
  have "cb_state tripped = OPEN" "cb_openedAtMs tripped = Some 3" "cb_cooldownMs tripped = 10"
    "\<not> cb_halfOpenProbeInFlight tripped"
    by (simp_all add: tripped_def)
  then show ?thesis
    using breaker_admits [OF tripping_run prod.collapse [symmetric], of 12]
      breaker_admits [OF tripping_run prod.collapse [symmetric], of 13] by simp
qed

definition resetEvents :: "breaker_event list" where
  "resetEvents = trippingEvents @ [CallFactory 13, ResetBreaker, CallFactory 14, CallFactory 14,
     FactorySettled 3 False 15, FactorySettled 4 False 16, CallFactory 26, FactorySettled 2 False 27, CallFactory 37]"

lemma reset_events: "map_option (probes \<circ> snd) (breakerEvents newTwoFailures resetEvents) = Some [6, 5]"
  by code_simp

text \<open>The bound on the probes is lost by a reset: in a history with one reset the probe that was
  running at the reset clears, when it ends, the flag of the probe started after the breaker had
  opened again, and a second probe runs beside it.\<close>

theorem reset_admits_two_probes:
  "\<exists>events s. breakerRun twoFailures events s \<and> length (probes s) = 2"
proof -
  obtain actions s where s: "breakerEvents newTwoFailures resetEvents = Some (actions, s)" "probes s = [6, 5]"
    using reset_events by auto
  show ?thesis using breaker_events_run [OF new_two_failures s(1)] s(2) by fastforce
qed

section \<open>Reconnection\<close>

definition steadyBackoff :: Backoff where
  "steadyBackoff = \<lparr>bk_maxAttempts = 3, bk_initialDelayMs = 100, bk_maxDelayMs = 250, bk_factor = 2,
     bk_jitterRatio = 0, bk_maxElapsedMs = None\<rparr>"

text \<open>A server that answers the third attempt.\<close>

definition thirdTime :: "nat ReconnectWorld" where
  "thirdTime = \<lparr>rw_startedAt = 0, rw_aborted = (\<lambda>_. False),
     rw_connect = (\<lambda>k. if k < 2 then Inl (PlainError ''refused'' []) else Inr k), rw_now = (\<lambda>k. 10 * int k),
     rw_abortedBeforeSleep = (\<lambda>_. False), rw_sleep = (\<lambda>_. Inr ())\<rparr>"

text \<open>C39: Under an exponential backoff policy connectWithReconnect returns in every environment, after at
  most one call of connect more than the policy's maximum of retries.\<close>

theorem backoff_returns:
  assumes "backoffOf options = Inr b"
  shows "\<exists>r log. connectWithReconnect (backoffPolicy random b) w = Some (r, log) \<and>
    int (connects log) \<le> bk_maxAttempts b + 1"
  using backoff.loop_returns [of random b w 0 "[]"] backoffOf_ok [OF assms]
  by (fastforce simp: connectWithReconnect_def backoffOk_def)

definition steadyOptions :: BackoffOptions where
  "steadyOptions = \<lparr>po_maxAttempts = Some (jint 3), po_initialDelayMs = None, po_maxDelayMs = Some (jint 250),
     po_factor = None, po_jitterRatio = Some (jint 0), po_maxElapsedMs = None\<rparr>"

lemma steady_options: "backoffOf steadyOptions = Inr steadyBackoff"
  by (simp add: backoffOf_def steadyOptions_def steadyBackoff_def orElse_def assertNonNegativeInt_def
      assertNonNegativeFinite_def assertPositiveFinite_def)

theorem backoff_returns_witness:
  "\<exists>r log. connectWithReconnect (backoffPolicy (\<lambda>_. NaN) steadyBackoff) thirdTime = Some (r, log) \<and>
    int (connects log) \<le> 4"
  using backoff_returns [OF steady_options] by (simp add: steadyBackoff_def)

text \<open>C29: Whatever the policy, connectWithReconnect gives a connection exactly when an attempt gives it
  that is not aborted and all attempts before were retried by the policy and slept through; it has
  then connected once per attempt. It does not return exactly when every attempt is retried.\<close>

theorem reconnect_result:
  "((\<exists>log. connectWithReconnect policy w = Some (Inr c, log)) \<longleftrightarrow>
      (\<exists>n. (\<forall>k. k < n \<longrightarrow> retried policy w k) \<and> \<not> rw_aborted w n \<and> rw_connect w n = Inr c)) \<and>
   (connectWithReconnect policy w = None \<longleftrightarrow> (\<forall>k. retried policy w k))"
proof -
  have stop: "\<not> retried policy w n" if "rw_connect w n = Inr c" for n
    using that by (simp add: retried_def)
  have none: "connectWithReconnect policy w = None \<longleftrightarrow> (\<forall>k. retried policy w k)"
  proof
    show "\<forall>k. retried policy w k" if "connectWithReconnect policy w = None"
      using that first_retried_or_last [of policy w] by fastforce
    show "connectWithReconnect policy w = None" if "\<forall>k. retried policy w k"
      using that loop_some [of policy w 0 "[]"] by (cases "connectWithReconnect policy w") (auto simp: connectWithReconnect_def)
  qed
  have gives: "\<exists>log. connectWithReconnect policy w = Some (Inr c, log)"
    if "\<forall>k<n. retried policy w k" "\<not> rw_aborted w n" "rw_connect w n = Inr c" for n
    using loop_result [of n policy w] that stop [OF that(3)] lastResult_Inr [of policy w n c] by auto
  have given: "\<exists>n. (\<forall>k<n. retried policy w k) \<and> \<not> rw_aborted w n \<and> rw_connect w n = Inr c"
    if c: "connectWithReconnect policy w = Some (Inr c, log)" for log
  proof -
    obtain n where n: "\<And>k. k < n \<Longrightarrow> retried policy w k" "\<not> retried policy w n"
      using first_not_retried [of policy w] c by blast
    then have "lastResult policy w n = Inr c" using loop_result [of n policy w] c by auto
    then show ?thesis using n lastResult_Inr [of policy w n c] by blast
  qed
  show ?thesis using none gives given by blast
qed

theorem reconnect_result_witness:
  "\<exists>log. connectWithReconnect (backoffPolicy (\<lambda>_. NaN) steadyBackoff) thirdTime = Some (Inr 2, log)"
proof -
  let ?p = "backoffPolicy (\<lambda>_. NaN) steadyBackoff"
  have "retried ?p thirdTime k" if "k < 2" for k
    using that by (auto simp: retried_def thirdTime_def retryDelay_def backoffPolicy_def backoffShouldRetry_def
        backoffNextDelayMs_def assertNonNegativeInt_def assertNonNegativeFinite_def steadyBackoff_def cappedDelay_def
        retryContext_def min_def less_2_cases_iff split: sum.splits)
  then show ?thesis
    using reconnect_result [of ?p thirdTime "2"] by (auto simp: thirdTime_def intro!: exI [of _ 2])
qed

text \<open>The delay of a backoff policy lies within the jitter around the capped exponential delay, which
  starts at the initial delay, never decreases from one attempt to the next and never exceeds the
  maximum; without jitter the delay itself has these bounds.\<close>

theorem backoff_delay:
  assumes "backoffOf options = Inr b" "backoffNextDelayMs b random ctx = Inr raw" "rc_attempt ctx \<le> later"
  shows "\<exists>ms. raw = jint ms \<and> 0 \<le> ms \<and>
    roundMs (cappedDelay b (rc_attempt ctx) * (1 - bk_jitterRatio b)) \<le> ms \<and>
    ms \<le> roundMs (cappedDelay b (rc_attempt ctx) * (1 + bk_jitterRatio b)) \<and>
    cappedDelay b (rc_attempt ctx) \<le> cappedDelay b later \<and>
    bk_initialDelayMs b \<le> cappedDelay b (rc_attempt ctx) \<and> cappedDelay b later \<le> bk_maxDelayMs b"
  using nextDelay_bounds [OF backoffOf_ok assms(2)] cappedDelay_mono [OF backoffOf_ok assms(3)]
    cappedDelay_bounds [OF backoffOf_ok] assms(1) by meson

theorem backoff_delay_witness:
  "\<exists>ms. backoffNextDelayMs steadyBackoff (\<lambda>_. NaN) \<lparr>rc_attempt = 3, rc_elapsedMs = 0, rc_error = RangeError\<rparr> =
     Inr (jint ms) \<and> ms \<le> 250 \<and> 100 \<le> ms"
proof -
  let ?ctx = "\<lparr>rc_attempt = 3, rc_elapsedMs = 0, rc_error = RangeError\<rparr>"
  have d: "backoffNextDelayMs steadyBackoff (\<lambda>_. NaN) ?ctx = Inr (jint 250)"
    by (simp add: backoffNextDelayMs_def steadyBackoff_def cappedDelay_def assertNonNegativeInt_def)
  show ?thesis
    using backoff_delay [OF steady_options d, of 3] d
    by (auto simp: steadyBackoff_def cappedDelay_def)
qed

section \<open>The connection pool\<close>

definition onePlace :: RpcConnectionPoolOptions where
  "onePlace = \<lparr>op_minConnections = None, op_maxConnections = Some (jint 1), op_idleTimeoutMs = None,
     op_acquireTimeoutMs = None, op_healthCheck = True, op_healthCheckIdleMs = Some (jint 10), op_closeWarmupSettleMs = None\<rparr>"

definition emptyPool :: RpcConnectionPool where
  "emptyPool = \<lparr>cp_minConnections = 0, cp_maxConnections = 1, cp_healthCheck = True, cp_healthCheckIdleMs = 10,
     cp_idle = [], cp_active = [], cp_pending = [], cp_pendingSettled = 0, cp_closed = False, cp_closeDone = False,
     cp_connecting = 0, cp_drain = NoDrain, cp_warmupSucceeded = 0, cp_warmupFailed = 0, cp_checks = [],
     cp_attempts = [], cp_nextAcquire = 0, cp_nextAttempt = 0\<rparr>"

lemma new_one_place: "newRpcConnectionPool onePlace = Inr ([], emptyPool)"
  by (simp add: newRpcConnectionPool_def onePlace_def emptyPool_def orElse_def assertNonNegativeInt_def
      assertPositiveInteger_def assertNonNegativeFinite_def)

lemma one_place_run:
  "poolEvents emptyPool events = (actions, s) \<Longrightarrow> distinct (opened actions) \<Longrightarrow> poolRun onePlace actions s"
  using poolEvents_run [OF poolRun.created [OF new_one_place]] by simp

text \<open>An acquire opens a connection, which is lent; a second one waits and gets it at the release.\<close>

definition lendingEvents :: "pool_event list" where
  "lendingEvents = [Acquire None None 0, Acquire None None 0, ConnectSettled 0 (Inr 7), AttemptContinues 0 1]"

definition lendingPool :: RpcConnectionPool where
  "lendingPool = emptyPool\<lparr>cp_active := [7], cp_pending := [\<lparr>pa_acquire = 1, pa_signal = False, pa_settled = False\<rparr>],
     cp_nextAcquire := 2, cp_nextAttempt := 1\<rparr>"

lemmas pool_eval = emptyPool_def acquire_def acquireTurn_def canCreateConnection_def beginConnectAttempt_def
  connectSettled_def attemptContinues_def createdForAcquire_def addActive_def andThen_def Let_def

lemma lending: "poolEvents emptyPool lendingEvents =
    ([OpenConnection 0, ConnectionOpened 7, AnswerAcquire 0 (Inr 7)], lendingPool)"
  by (simp add: lendingEvents_def lendingPool_def pool_eval)

lemma lending_run: "poolRun onePlace [OpenConnection 0, ConnectionOpened 7, AnswerAcquire 0 (Inr 7)] lendingPool"
  by (rule one_place_run [OF lending]) simp

text \<open>C6: In every history of a pool each connection it has opened is in exactly one place (idle, lent,
  under a health check, or on its way to whoever waits for it) or has been closed, once; and each
  acquire is waiting in exactly one place (the queue, a health check, a connection attempt) or has
  been answered, once.\<close>

theorem pool_conserves:
  assumes "poolRun options past s"
  shows "distinct (opened past) \<and> places s + mset (closedConns past) = mset (opened past) \<and>
    waiting s + mset (answeredAcquires past) = mset [0..<cp_nextAcquire s]"
  using poolRun_ok [OF assms] by (simp add: poolOk_def)

theorem pool_conserves_witness: "places lendingPool = {#7#} \<and> waiting lendingPool + {#0#} = mset [0..<2]"
proof -
  have "cp_nextAcquire lendingPool = 2" by (simp add: lendingPool_def)
  then show ?thesis using pool_conserves [OF lending_run] by simp
qed

text \<open>C13: A pool never hands a connection to two holders: in every history a connection an event gives to
  an acquire was not lent before the event, or the event takes it back, and it is lent afterwards;
  only a release or the close of the pool takes connections back.\<close>

theorem pool_lends_once:
  assumes "poolRun options past s" "poolStep s event = (actions, s')" "distinct (opened (past @ actions))"
  shows "distinct (cp_active s') \<and> mset (cp_active s') + takenBack event s = mset (cp_active s) + mset (lent actions) \<and>
    (\<forall>c\<in>set (lent actions). c \<in> set (cp_active s') \<and> (c \<in> set (cp_active s) \<longrightarrow> c \<in># takenBack event s))"
proof -
  note ok = poolOk_step [OF poolRun_ok [OF assms(1)] assms(2,3)]
  have "mset (cp_active s') \<subseteq># places s'" by (simp add: places_def)
  then have d: "distinct (cp_active s')"
    using poolOk_single(1) [OF ok(1)] by (metis single_mset single_plus_left subset_mset.le_iff_add)
  have "c \<in> set (cp_active s') \<and> (c \<in> set (cp_active s) \<longrightarrow> c \<in># takenBack event s)" if c: "c \<in> set (lent actions)" for c
  proof -
    have count: "count (mset (cp_active s')) c + count (takenBack event s) c =
        count (mset (cp_active s)) c + count (mset (lent actions)) c"
      using ok(2) by (metis count_union)
    have "0 < count (mset (lent actions)) c" using c by simp
    moreover have "count (mset (cp_active s')) c \<le> 1" using d by (simp add: distinct_count_atmost_1)
    moreover have "count (takenBack event s) c \<le> count (mset (cp_active s)) c"
      by (auto simp: takenBack_def Suc_le_eq split: pool_event.splits)
    ultimately show ?thesis
      using count by (auto simp: Suc_le_eq simp flip: count_greater_zero_iff set_mset_mset)
  qed
  then show ?thesis using d ok(2) by blast
qed

theorem pool_lends_once_witness:
  "lent (fst (poolStep lendingPool (Release 7 5))) = [7] \<and> cp_active (snd (poolStep lendingPool (Release 7 5))) = [7] \<and>
   7 \<in># takenBack (Release 7 5) lendingPool"
proof -
  obtain actions s' where st: "poolStep lendingPool (Release 7 5) = (actions, s')" by fastforce
  have st': "actions = [AnswerAcquire 1 (Inr 7)]" "cp_active s' = [7]"
    using st by (auto simp: lendingPool_def pool_eval releaseConnection_def handoffOrPark_def handoffElse_def
        takeNextPendingAcquire_def compactPending_def)
  have "distinct (opened ([OpenConnection 0, ConnectionOpened 7, AnswerAcquire 0 (Inr 7)] @ actions))" by (simp add: st'(1))
  from pool_lends_once [OF lending_run st this] show ?thesis using st st' by (simp add: lendingPool_def)
qed

text \<open>C14: In every history of a pool an acquire waits in the queue only while no connection is idle, and,
  in an open pool with no connection attempt outstanding and no drain running, only while the lent
  connections fill the pool, so that a release answers it; the statistics count exactly the acquires
  that wait and the attempts that connect.\<close>

theorem pool_waiters_served:
  assumes "poolRun options past s"
  shows "(unsettled s \<noteq> [] \<longrightarrow> cp_idle s = [] \<and>
      (\<not> cp_closed s \<and> cp_attempts s = [] \<and> cp_drain s = NoDrain \<longrightarrow>
        cp_maxConnections s \<le> int (length (cp_active s)))) \<and>
    ps_pending (poolStats s) = int (length (unsettled s)) \<and> ps_connecting (poolStats s) = connectingCount s"
proof -
  have ok: "countsOk s" "served s" using poolRun_ok [OF assms] by (simp_all add: poolOk_def)
  have "length (cp_pending s) = length (filter pa_settled (cp_pending s)) + length (unsettled s)"
    using sum_length_filter_compl [of pa_settled "cp_pending s"] by (simp add: unsettled_def)
  then show ?thesis
    using ok by (auto simp: served_def slots_def limbo_def countsOk_def connectingCount_def poolStats_def)
qed

theorem pool_waiters_served_witness: "unsettled lendingPool = [1] \<and> 1 \<le> int (length (cp_active lendingPool))"
proof -
  have "unsettled lendingPool = [1]" "\<not> cp_closed lendingPool" "cp_attempts lendingPool = []"
    "cp_drain lendingPool = NoDrain" "cp_maxConnections lendingPool = 1"
    by (simp_all add: lendingPool_def emptyPool_def unsettled_def)
  then show ?thesis using pool_waiters_served [OF lending_run] by simp
qed

definition checkEvents :: "pool_event list" where
  "checkEvents = [Acquire None None 0, ConnectSettled 0 (Inr 7), AttemptContinues 0 1, Release 7 2, Acquire None None 20]"

lemma during_check:
  "poolEvents emptyPool (checkEvents @ [Acquire None None 21, ConnectSettled 1 (Inr 8), AttemptContinues 1 22,
     HealthChecked 1 True False 23]) =
   ([OpenConnection 0, ConnectionOpened 7, AnswerAcquire 0 (Inr 7), CheckHealth 7, OpenConnection 1, ConnectionOpened 8,
     AnswerAcquire 2 (Inr 8), AnswerAcquire 1 (Inr 7)],
    emptyPool\<lparr>cp_active := [8, 7], cp_nextAcquire := 3, cp_nextAttempt := 2\<rparr>)"
  by (simp add: checkEvents_def pool_eval releaseConnection_def handoffOrPark_def handoffElse_def
      takeNextPendingAcquire_def parkIdleConnection_def healthChecked_def lend_def)

lemma closed_during_check:
  "poolEvents emptyPool (checkEvents @ [Close, FinishClose, HealthChecked 1 True False 23]) =
   ([OpenConnection 0, ConnectionOpened 7, AnswerAcquire 0 (Inr 7), CheckHealth 7, AnswerAcquire 1 (Inr 7)],
    emptyPool\<lparr>cp_active := [7], cp_closed := True, cp_closeDone := True, cp_nextAcquire := 2, cp_nextAttempt := 1\<rparr>)"
  by (simp add: checkEvents_def pool_eval releaseConnection_def handoffOrPark_def handoffElse_def
      takeNextPendingAcquire_def parkIdleConnection_def healthChecked_def lend_def closePool_def finishClose_def)

text \<open>Two histories of a pool with room for one connection, each with a health check: a connection under
  a check is counted neither as idle nor as lent, so an acquire made meanwhile opens another, and
  both are lent; a pool closed during the check lends the connection after its close has ended.\<close>

lemma health_check_escapes_pool:
  "(\<exists>past s. poolRun onePlace past s \<and> cp_maxConnections s = 1 \<and> length (cp_active s) = 2) \<and>
   (\<exists>past s. poolRun onePlace past s \<and> cp_closeDone s \<and> cp_active s \<noteq> [] \<and> closedConns past = [])"
proof
  show "\<exists>past s. poolRun onePlace past s \<and> cp_maxConnections s = 1 \<and> length (cp_active s) = 2"
    by (rule exI, rule exI, rule conjI, rule one_place_run [OF during_check]) (simp_all add: emptyPool_def)
  show "\<exists>past s. poolRun onePlace past s \<and> cp_closeDone s \<and> cp_active s \<noteq> [] \<and> closedConns past = []"
    by (rule exI, rule exI, rule conjI, rule one_place_run [OF closed_during_check]) simp_all
qed

end
