(* ===== verification/Stream_Sender.thy ===== *)
theory Stream_Sender
  imports Js_Validation
begin

text \<open>
  \<open>createStreamSender\<close> of \<open>src/rpc/session/streaming.ts\<close> for byte array parameters, as a state machine. A
  coroutine is a running \<open>send\<close>, \<open>waitForCapacity\<close>, \<open>flush\<close> or \<open>cancel\<close>; its stage is the await it is in.
  An event is one run of code between two awaits. The call function and the error callback are called
  synchronously: while one of them runs, only the operations it calls itself happen, so the coroutines
  inside of one are a stack. The drain lock is the queue of the coroutines that wait for it, the one
  that holds it in front. The continuations of \<open>drainOne\<close> after the lock run in the order in which the
  lock was released, which is the order in which promise jobs are queued: they are a queue too. The
  call function, the callbacks and the signals are the environment. The reservation of bytes by call
  functions with other parameters (\<open>prepare\<close>, \<open>reserveBytes\<close>) is left out.
\<close>

section \<open>State\<close>

record 'r StreamCall =
  sc_index :: nat
  sc_byteLength :: int
  sc_settled :: "'r result option"

record StreamSenderOptions =
  so_maxInFlight :: "number option"
  so_maxInFlightBytes :: "number option"
  so_onResponse :: bool
  so_onError :: bool

text \<open>Who runs: a capacity wait knows what aborted its own signal, a flush its first error, and the
  last part of a \<open>send\<close> only delivers responses.\<close>

datatype StreamOwner =
    SendOwner "byte list"
  | AdmittedOwner
  | CapacityOwner int "error option"
  | FlushOwner "error option"
  | CancelOwner "error option"

datatype WaitSignal = Sleeping | Woken | Rejected

datatype StreamStage =
    LockWait
  | HeadWait nat WaitSignal
  | LeavesLock
  | LeftLock
  | Delivering
  | InOnResponse
  | InOnError
  | DrainEnds "unit result"
  | InCallFn nat
  | AwaitsAdmission

record 'r StreamSender =
  ss_maxInFlight :: int
  ss_maxInFlightBytes :: "int option"
  ss_onResponse :: bool
  ss_onError :: bool
  ss_inFlightCalls :: "'r StreamCall list"
  ss_readyResponses :: "'r StreamCall list"
  ss_inFlightBytes :: int
  ss_nextIndex :: nat
  ss_totalReceived :: nat
  ss_firstError :: "error option"
  ss_canceled :: "error option"
  ss_signalAborted :: bool
  ss_drainLock :: "nat list"
  ss_drained :: "(nat \<times> 'r StreamCall option result) list"
  ss_stack :: "nat list"
  ss_running :: "(nat \<times> StreamOwner \<times> StreamStage) list"
  ss_nextCoroutine :: nat

datatype 'r stream_action =
    CallFn nat "byte list"
  | AbortCall nat
  | OnResponse nat 'r
  | OnError nat error
  | Finished nat "unit result"

type_synonym 'r stream_run = "'r stream_action list \<times> 'r StreamSender"

definition createStreamSender :: "StreamSenderOptions \<Rightarrow> 'r StreamSender result" where
  "createStreamSender options =
     (let maxInFlight = orElse (so_maxInFlight options) (jint 8)
      in if numLess maxInFlight (jint 1) \<or> \<not> isInteger maxInFlight
         then Inl (SessionError ''maxInFlight must be a positive integer'' [])
         else if (case so_maxInFlightBytes options of
                    None \<Rightarrow> False | Some n \<Rightarrow> \<not> isSafeInteger n \<or> numLess n (jint 1))
         then Inl (SessionError ''maxInFlightBytes must be a positive safe integer'' [])
         else Inr \<lparr>ss_maxInFlight = toInt maxInFlight,
                   ss_maxInFlightBytes = map_option toInt (so_maxInFlightBytes options),
                   ss_onResponse = so_onResponse options, ss_onError = so_onError options,
                   ss_inFlightCalls = [], ss_readyResponses = [], ss_inFlightBytes = 0,
                   ss_nextIndex = 0, ss_totalReceived = 0, ss_firstError = None, ss_canceled = None,
                   ss_signalAborted = False, ss_drainLock = [], ss_drained = [], ss_stack = [],
                   ss_running = [], ss_nextCoroutine = 0\<rparr>)"

section \<open>Checks\<close>

definition validateByteLength :: "'r StreamSender \<Rightarrow> number \<Rightarrow> unit result" where
  "validateByteLength s n =
     (if \<not> isSafeInteger n \<or> numLess n (jint 0)
      then Inl (SessionError ''encoded byte length must be a non-negative safe integer'' [])
      else case ss_maxInFlightBytes s of
        Some limit \<Rightarrow>
          if toInt n > limit
          then Inl (SessionError ''encoded stream item ({} bytes) exceeds maxInFlightBytes ({})'' [toInt n, limit])
          else Inr ()
      | None \<Rightarrow> Inr ())"

definition hasByteCapacity :: "'r StreamSender \<Rightarrow> int \<Rightarrow> bool" where
  "hasByteCapacity s byteLength \<longleftrightarrow>
     (case ss_maxInFlightBytes s of None \<Rightarrow> True | Some limit \<Rightarrow> byteLength \<le> limit - ss_inFlightBytes s)"

definition windowFull :: "'r StreamSender \<Rightarrow> int \<Rightarrow> bool" where
  "windowFull s byteLength \<longleftrightarrow>
     int (length (ss_inFlightCalls s)) \<ge> ss_maxInFlight s \<or> \<not> hasByteCapacity s byteLength"

definition checkAborted :: "'r StreamSender \<Rightarrow> unit result" where
  "checkAborted s =
     (if ss_signalAborted s then Inl (SessionError ''stream aborted'' [])
      else case ss_canceled s of
        Some (SessionError m xs) \<Rightarrow> Inl (SessionError m xs)
      | Some _ \<Rightarrow> Inl (SessionError ''stream canceled'' [])
      | None \<Rightarrow> Inr ())"

definition checkError :: "'r StreamSender \<Rightarrow> unit result" where
  "checkError s = (case ss_firstError s of Some e \<Rightarrow> Inl e | None \<Rightarrow> Inr ())"

definition checkOpen :: "'r StreamSender \<Rightarrow> unit result" where
  "checkOpen s = bindE (checkAborted s) (\<lambda>_. checkError s)"

datatype StreamSenderState = StreamOpen | StreamDraining | StreamCanceling | StreamCanceled | StreamFailed

definition inDrain :: "StreamStage \<Rightarrow> bool" where
  "inDrain stage \<longleftrightarrow> (case stage of HeadWait i w \<Rightarrow> True | LeavesLock \<Rightarrow> True | _ \<Rightarrow> False)"

definition currentState :: "'r StreamSender \<Rightarrow> StreamSenderState" where
  "currentState s =
     (if ss_canceled s \<noteq> None \<or> ss_signalAborted s
      then if ss_inFlightCalls s \<noteq> [] then StreamCanceling else StreamCanceled
      else if ss_firstError s \<noteq> None then StreamFailed
      else if list_ex (\<lambda>(c, owner, stage). inDrain stage) (ss_running s) then StreamDraining else StreamOpen)"

section \<open>Coroutines\<close>

definition wake :: "StreamStage \<Rightarrow> StreamStage" where
  "wake stage = (case stage of HeadWait i Sleeping \<Rightarrow> HeadWait i Woken | _ \<Rightarrow> stage)"

definition notifyStateChange :: "'r StreamSender \<Rightarrow> 'r StreamSender" where
  "notifyStateChange s = s\<lparr>ss_running := map (\<lambda>(c, owner, stage). (c, owner, wake stage)) (ss_running s)\<rparr>"

definition rememberError :: "error \<Rightarrow> 'r StreamSender \<Rightarrow> 'r StreamSender" where
  "rememberError e s =
     (if ss_firstError s = None then notifyStateChange (s\<lparr>ss_firstError := Some e\<rparr>) else s)"

definition enterStage :: "nat \<Rightarrow> StreamOwner \<Rightarrow> StreamStage \<Rightarrow> 'r StreamSender \<Rightarrow> 'r StreamSender" where
  "enterStage c owner stage s = s\<lparr>ss_running := AList.update c (owner, stage) (ss_running s)\<rparr>"

definition finishCoroutine :: "nat \<Rightarrow> unit result \<Rightarrow> 'r StreamSender \<Rightarrow> 'r stream_run" where
  "finishCoroutine c r s = ([Finished c r], s\<lparr>ss_running := AList.delete c (ss_running s)\<rparr>)"

text \<open>\<open>withDrainLock\<close>: a coroutine queues for the lock; it holds the lock when it is in front.\<close>

definition queueForLock :: "nat \<Rightarrow> StreamOwner \<Rightarrow> 'r StreamSender \<Rightarrow> 'r StreamSender" where
  "queueForLock c owner s = enterStage c owner LockWait (s\<lparr>ss_drainLock := ss_drainLock s @ [c]\<rparr>)"

text \<open>\<open>deliverReadyResponses\<close> at the head of its loop, through \<open>deliverSettled\<close> up to its await. Calls are
  ready only when they have settled.\<close>

definition deliverTurn :: "nat \<Rightarrow> StreamOwner \<Rightarrow> 'r StreamSender \<Rightarrow> 'r stream_run" where
  "deliverTurn c owner s =
     (case ss_readyResponses s of
        [] \<Rightarrow> ([], enterStage c owner (DrainEnds (Inr ())) s)
      | call # rest \<Rightarrow>
          let s = s\<lparr>ss_readyResponses := rest\<rparr>
          in case sc_settled call of
               None \<Rightarrow> ([], enterStage c owner Delivering s)
             | Some (Inr v) \<Rightarrow>
                 if ss_onResponse s then ([OnResponse (sc_index call) v], enterStage c owner InOnResponse s)
                 else ([], enterStage c owner Delivering s)
             | Some (Inl e) \<Rightarrow>
                 if ss_onError s
                 then ([OnError (sc_index call) e],
                       enterStage c owner InOnError (s\<lparr>ss_stack := c # ss_stack s\<rparr>))
                 else ([], enterStage c owner (DrainEnds (Inl e)) (rememberError e s)))"

text \<open>The end of \<open>send\<close> once the window has room: the call enters the window and is made.\<close>

definition admitCall :: "nat \<Rightarrow> byte list \<Rightarrow> 'r StreamSender \<Rightarrow> 'r stream_run" where
  "admitCall c params s =
     (let index = ss_nextIndex s; n = int (length params)
      in ([CallFn index params],
          enterStage c (SendOwner params) (InCallFn index)
            (s\<lparr>ss_nextIndex := index + 1,
               ss_inFlightCalls := ss_inFlightCalls s @ [\<lparr>sc_index = index, sc_byteLength = n, sc_settled = None\<rparr>],
               ss_stack := c # ss_stack s,
               ss_inFlightBytes := ss_inFlightBytes s + n\<rparr>)))"

text \<open>The operations at the heads of their loops, and after a drain.\<close>

fun ownerTurn :: "nat \<Rightarrow> StreamOwner \<Rightarrow> 'r StreamSender \<Rightarrow> 'r stream_run" where
  "ownerTurn c (SendOwner params) s =
     (case checkOpen s of
        Inl e \<Rightarrow> finishCoroutine c (Inl e) s
      | Inr _ \<Rightarrow> if windowFull s (int (length params)) then ([], queueForLock c (SendOwner params) s)
                else admitCall c params s)"
| "ownerTurn c AdmittedOwner s = finishCoroutine c (Inr ()) s"
| "ownerTurn c (CapacityOwner n aborted) s =
     (case checkOpen s of
        Inl e \<Rightarrow> finishCoroutine c (Inl e) s
      | Inr _ \<Rightarrow> if windowFull s n then ([], queueForLock c (CapacityOwner n aborted) s)
                else finishCoroutine c (Inr ()) s)"
| "ownerTurn c (FlushOwner first) s =
     (if ss_readyResponses s \<noteq> [] then deliverTurn c (FlushOwner first) s
      else if ss_inFlightCalls s \<noteq> [] then ([], queueForLock c (FlushOwner first) s)
      else finishCoroutine c (case first of Some e \<Rightarrow> Inl e | None \<Rightarrow> checkError s) s)"
| "ownerTurn c (CancelOwner first) s =
     (if ss_readyResponses s \<noteq> [] then deliverTurn c (CancelOwner first) s
      else if ss_inFlightCalls s \<noteq> [] then ([], queueForLock c (CancelOwner first) s)
      else finishCoroutine c
             (if ss_onError s then Inr () else case first of Some e \<Rightarrow> Inl e | None \<Rightarrow> checkError s) s)"

text \<open>An error of a drain ends a \<open>send\<close> or a capacity wait; a flush keeps the first one and goes on.\<close>

fun ownerThrows :: "nat \<Rightarrow> StreamOwner \<Rightarrow> error \<Rightarrow> 'r StreamSender \<Rightarrow> 'r stream_run" where
  "ownerThrows c (FlushOwner first) e s =
     ownerTurn c (FlushOwner (case first of None \<Rightarrow> Some e | Some _ \<Rightarrow> first)) s"
| "ownerThrows c (CancelOwner first) e s =
     ownerTurn c (CancelOwner (case first of None \<Rightarrow> Some e | Some _ \<Rightarrow> first)) s"
| "ownerThrows c _ e s = finishCoroutine c (Inl e) s"

section \<open>The drain\<close>

fun allowClosed :: "StreamOwner \<Rightarrow> bool" where
  "allowClosed (FlushOwner first) = True"
| "allowClosed (CancelOwner first) = True"
| "allowClosed _ = False"

fun waitAborted :: "StreamOwner \<Rightarrow> error option" where
  "waitAborted (CapacityOwner n aborted) = aborted"
| "waitAborted _ = None"

text \<open>What \<open>takeSettledHead\<close> returns waits for the end of the lock.\<close>

definition leaveLock ::
    "nat \<Rightarrow> StreamOwner \<Rightarrow> 'r StreamCall option result \<Rightarrow> 'r StreamSender \<Rightarrow> 'r StreamSender" where
  "leaveLock c owner r s = enterStage c owner LeavesLock (s\<lparr>ss_drained := ss_drained s @ [(c, r)]\<rparr>)"

definition inFlightCall :: "nat \<Rightarrow> 'r StreamSender \<Rightarrow> 'r StreamCall option" where
  "inFlightCall i s = find (\<lambda>call. sc_index call = i) (ss_inFlightCalls s)"

definition dropCall :: "'r StreamCall \<Rightarrow> 'r StreamSender \<Rightarrow> 'r StreamSender" where
  "dropCall call s =
     s\<lparr>ss_inFlightCalls := filter (\<lambda>other. sc_index other \<noteq> sc_index call) (ss_inFlightCalls s),
       ss_inFlightBytes := ss_inFlightBytes s - sc_byteLength call\<rparr>"

text \<open>\<open>takeSettledHead\<close> at the head of its loop, with \<open>oldest\<close> the call it has looked up.\<close>

definition headTurn :: "nat \<Rightarrow> StreamOwner \<Rightarrow> 'r StreamCall \<Rightarrow> 'r StreamSender \<Rightarrow> 'r StreamSender" where
  "headTurn c owner oldest s =
     (if sc_settled oldest \<noteq> None
      then leaveLock c owner (Inr (Some oldest))
             (notifyStateChange (dropCall oldest (s\<lparr>ss_totalReceived := ss_totalReceived s + 1\<rparr>)))
      else case (if allowClosed owner then Inr () else checkOpen s) of
        Inl e \<Rightarrow> leaveLock c owner (Inl e) s
      | Inr _ \<Rightarrow> enterStage c owner
                   (HeadWait (sc_index oldest) (if waitAborted owner = None then Sleeping else Rejected)) s)"

definition lockTurn :: "nat \<Rightarrow> StreamOwner \<Rightarrow> 'r StreamSender \<Rightarrow> 'r StreamSender" where
  "lockTurn c owner s =
     (case ss_inFlightCalls s of
        [] \<Rightarrow> leaveLock c owner (Inr None) s
      | oldest # rest \<Rightarrow> headTurn c owner oldest s)"

section \<open>Events\<close>

datatype 'r stream_event =
    Send "byte list"
  | WaitForCapacity "number option" "error option"
  | Flush
  | Cancel "error option"
  | SignalAborts
  | WaitSignalAborts nat error
  | LockGranted nat
  | Wakes nat
  | Releases nat
  | Drains
  | Delivers nat
  | OnResponseEnds nat "unit result"
  | OnErrorEnds nat "unit result"
  | Continues nat
  | CallFnReturns nat
  | CallFnThrows nat error
  | CallSettled nat "'r result"
  | AdmissionPasses nat

definition newCoroutine :: "'r StreamSender \<Rightarrow> 'r StreamSender" where
  "newCoroutine s = s\<lparr>ss_nextCoroutine := ss_nextCoroutine s + 1\<rparr>"

definition capacityNeed :: "'r StreamSender \<Rightarrow> number option \<Rightarrow> number" where
  "capacityNeed s byteLength = orElse byteLength (jint (if ss_maxInFlightBytes s = None then 0 else 1))"

definition abortCalls :: "'r StreamSender \<Rightarrow> 'r stream_action list" where
  "abortCalls s = (if ss_signalAborted s \<or> ss_canceled s \<noteq> None then []
                   else map (\<lambda>call. AbortCall (sc_index call)) (ss_inFlightCalls s))"

definition startChecked :: "nat \<Rightarrow> StreamOwner \<Rightarrow> number \<Rightarrow> 'r StreamSender \<Rightarrow> 'r stream_run" where
  "startChecked c owner n s =
     (case bindE (checkOpen s) (\<lambda>_. validateByteLength s n) of
        Inl e \<Rightarrow> finishCoroutine c (Inl e) s
      | Inr _ \<Rightarrow> ownerTurn c owner s)"

text \<open>\<open>cancel\<close>: the calls are aborted once, by the first of the stream's two signals.\<close>

definition cancelStream :: "error option \<Rightarrow> 'r StreamSender \<Rightarrow> 'r stream_run" where
  "cancelStream reason s =
     (if ss_canceled s \<noteq> None then ([], s)
      else (abortCalls s,
            notifyStateChange (s\<lparr>ss_canceled := Some (orElse reason (SessionError ''stream canceled'' []))\<rparr>)))"

definition settleCall :: "nat \<Rightarrow> 'r result \<Rightarrow> 'r StreamSender \<Rightarrow> 'r StreamSender" where
  "settleCall i r s =
     notifyStateChange (s\<lparr>ss_inFlightCalls :=
       map (\<lambda>call. if sc_index call = i then call\<lparr>sc_settled := Some r\<rparr> else call) (ss_inFlightCalls s)\<rparr>)"

text \<open>The \<open>.then\<close> handlers and the continuations of the coroutines, which run on an empty stack.\<close>

definition jobStep :: "'r stream_event \<Rightarrow> 'r StreamSender \<Rightarrow> 'r stream_run option" where
  "jobStep event s =
     (case event of
        LockGranted c \<Rightarrow>
          (case (ss_drainLock s, map_of (ss_running s) c) of
             (holder # rest, Some (owner, LockWait)) \<Rightarrow>
               if holder = c then Some ([], lockTurn c owner (notifyStateChange s)) else None
           | _ \<Rightarrow> None)
      | Wakes c \<Rightarrow>
          (case map_of (ss_running s) c of
             Some (owner, HeadWait i Woken) \<Rightarrow>
               map_option (\<lambda>oldest. ([], headTurn c owner oldest s)) (inFlightCall i s)
           | Some (owner, HeadWait i Rejected) \<Rightarrow>
               map_option (\<lambda>e. ([], leaveLock c owner (Inl e) s)) (waitAborted owner)
           | _ \<Rightarrow> None)
      | Releases c \<Rightarrow>
          (case map_of (ss_running s) c of
             Some (owner, LeavesLock) \<Rightarrow>
               Some ([], notifyStateChange (enterStage c owner LeftLock (s\<lparr>ss_drainLock := tl (ss_drainLock s)\<rparr>)))
           | _ \<Rightarrow> None)
      | Drains \<Rightarrow>
          (case ss_drained s of
             [] \<Rightarrow> None
           | (c, r) # rest \<Rightarrow>
               (case map_of (ss_running s) c of
                  Some (owner, LeftLock) \<Rightarrow>
                    let s = s\<lparr>ss_drained := rest\<rparr>
                    in Some (case r of
                         Inl e \<Rightarrow> ([], enterStage c owner (DrainEnds (Inl e)) s)
                       | Inr None \<Rightarrow> deliverTurn c owner s
                       | Inr (Some call) \<Rightarrow>
                           deliverTurn c owner (s\<lparr>ss_readyResponses := ss_readyResponses s @ [call]\<rparr>))
                | _ \<Rightarrow> None))
      | Delivers c \<Rightarrow>
          (case map_of (ss_running s) c of
             Some (owner, Delivering) \<Rightarrow> Some (deliverTurn c owner s)
           | _ \<Rightarrow> None)
      | OnResponseEnds c r \<Rightarrow>
          (case map_of (ss_running s) c of
             Some (owner, InOnResponse) \<Rightarrow>
               Some ([], case r of
                 Inr _ \<Rightarrow> enterStage c owner Delivering s
               | Inl e \<Rightarrow> enterStage c owner (DrainEnds (Inl e)) (rememberError e s))
           | _ \<Rightarrow> None)
      | Continues c \<Rightarrow>
          (case map_of (ss_running s) c of
             Some (owner, DrainEnds (Inr _)) \<Rightarrow> Some (ownerTurn c owner s)
           | Some (owner, DrainEnds (Inl e)) \<Rightarrow> Some (ownerThrows c owner e s)
           | _ \<Rightarrow> None)
      | CallSettled i r \<Rightarrow>
          (case inFlightCall i s of
             Some call \<Rightarrow> if sc_settled call = None then Some ([], settleCall i r s) else None
           | None \<Rightarrow> None)
      | AdmissionPasses c \<Rightarrow>
          (case map_of (ss_running s) c of
             Some (owner, AwaitsAdmission) \<Rightarrow> Some (deliverTurn c AdmittedOwner s)
           | _ \<Rightarrow> None)
      | _ \<Rightarrow> None)"

text \<open>The returns of the call function and of the error callback of the coroutine on top of the stack.\<close>

definition returnStep :: "'r stream_event \<Rightarrow> 'r StreamSender \<Rightarrow> 'r stream_run option" where
  "returnStep event s =
     (case ss_stack s of
        [] \<Rightarrow> None
      | c # stack \<Rightarrow>
          let s' = s\<lparr>ss_stack := stack\<rparr>
          in case (event, map_of (ss_running s) c) of
            (CallFnReturns i, Some (owner, InCallFn j)) \<Rightarrow>
              if i \<noteq> j then None
              else Some (if ss_maxInFlightBytes s = None then finishCoroutine c (Inr ()) (notifyStateChange s')
                         else ([], enterStage c owner AwaitsAdmission (notifyStateChange s')))
          | (CallFnThrows i e, Some (owner, InCallFn j)) \<Rightarrow>
              if i \<noteq> j then None
              else map_option (\<lambda>call. finishCoroutine c (Inl e)
                     (notifyStateChange (rememberError e (dropCall call (notifyStateChange s'))))) (inFlightCall i s)
          | (OnErrorEnds d r, Some (owner, InOnError)) \<Rightarrow>
              if d \<noteq> c then None
              else Some ([], case r of
                Inr _ \<Rightarrow> enterStage c owner Delivering s'
              | Inl e \<Rightarrow> enterStage c owner (DrainEnds (Inl e)) (rememberError e s'))
          | _ \<Rightarrow> None)"

definition streamStep :: "'r stream_event \<Rightarrow> 'r StreamSender \<Rightarrow> 'r stream_run option" where
  "streamStep event s =
     (let c = ss_nextCoroutine s
      in case event of
        Send params \<Rightarrow>
          Some (startChecked c (SendOwner params) (jint (int (length params))) (newCoroutine s))
      | WaitForCapacity byteLength aborted \<Rightarrow>
          (let n = capacityNeed s byteLength
           in Some (startChecked c (CapacityOwner (toInt n) aborted) n (newCoroutine s)))
      | Flush \<Rightarrow> Some (ownerTurn c (FlushOwner None) (newCoroutine s))
      | Cancel reason \<Rightarrow>
          (case cancelStream reason s of
             (aborts, s) \<Rightarrow> Some (apfst ((@) aborts) (ownerTurn c (CancelOwner None) (newCoroutine s))))
      | SignalAborts \<Rightarrow>
          if ss_signalAborted s then None
          else Some (abortCalls s, notifyStateChange (s\<lparr>ss_signalAborted := True\<rparr>))
      | WaitSignalAborts c e \<Rightarrow>
          (case map_of (ss_running s) c of
             Some (CapacityOwner n None, stage) \<Rightarrow>
               Some ([], enterStage c (CapacityOwner n (Some e))
                           (case stage of HeadWait i Sleeping \<Rightarrow> HeadWait i Rejected | _ \<Rightarrow> stage) s)
           | _ \<Rightarrow> None)
      | CallFnReturns i \<Rightarrow> returnStep event s
      | CallFnThrows i e \<Rightarrow> returnStep event s
      | OnErrorEnds c r \<Rightarrow> returnStep event s
      | _ \<Rightarrow> if ss_stack s = [] then jobStep event s else None)"

inductive streamRun :: "StreamSenderOptions \<Rightarrow> 'r stream_event list \<Rightarrow> 'r stream_action list \<Rightarrow> 'r StreamSender \<Rightarrow> bool"
  for options where
  created: "createStreamSender options = Inr s \<Longrightarrow> streamRun options [] [] s"
| happens: "streamRun options events actions s \<Longrightarrow> streamStep event s = Some (now, s') \<Longrightarrow>
    streamRun options (event # events) (actions @ now) s'"

end
