(* ===== verification/Stream_Sender_State.thy ===== *)
theory Stream_Sender_State
  imports Stream_Sender
begin

text \<open>
  The invariant of the stream sender: who holds the drain lock, whose drained call is on its way, which
  coroutines are inside of a synchronous callback, and what the head of the window is to a coroutine
  that sleeps on it.
\<close>

section \<open>Coroutines and their stages\<close>

type_synonym coroutines = "nat \<Rightarrow> (StreamOwner \<times> StreamStage) option"

fun lockStage :: "StreamStage \<Rightarrow> bool" where
  "lockStage LockWait = True"
| "lockStage (HeadWait i w) = True"
| "lockStage LeavesLock = True"
| "lockStage _ = False"

fun drainStage :: "StreamStage \<Rightarrow> bool" where
  "drainStage LeavesLock = True"
| "drainStage LeftLock = True"
| "drainStage _ = False"

fun callStage :: "StreamStage \<Rightarrow> bool" where
  "callStage (InCallFn i) = True"
| "callStage InOnError = True"
| "callStage _ = False"

definition neutral :: "StreamStage \<Rightarrow> bool" where
  "neutral stage \<longleftrightarrow> \<not> lockStage stage \<and> \<not> drainStage stage \<and> \<not> callStage stage"

lemma neutral_simps [simp]:
  "neutral Delivering" "neutral InOnResponse" "neutral (DrainEnds r)" "neutral AwaitsAdmission"
  by (simp_all add: neutral_def)

definition inStage :: "(StreamStage \<Rightarrow> bool) \<Rightarrow> coroutines \<Rightarrow> nat \<Rightarrow> bool" where
  "inStage P m c \<longleftrightarrow> (case m c of None \<Rightarrow> False | Some (owner, stage) \<Rightarrow> P stage)"

definition wakeAll :: "coroutines \<Rightarrow> coroutines" where
  "wakeAll m = (\<lambda>c. map_option (apsnd wake) (m c))"

lemma wake_stage [simp]:
  "lockStage (wake stage) = lockStage stage" "drainStage (wake stage) = drainStage stage"
  "callStage (wake stage) = callStage stage" "(LockWait = wake stage) = (LockWait = stage)"
  "(wake stage = InCallFn i) = (stage = InCallFn i)"
  by (cases stage; simp add: wake_def split: WaitSignal.splits)+

lemma inStage_upd [simp]:
  "inStage P (m(c := None)) d \<longleftrightarrow> d \<noteq> c \<and> inStage P m d"
  "inStage P (m(c \<mapsto> (owner, stage))) d \<longleftrightarrow> d = c \<and> P stage \<or> d \<noteq> c \<and> inStage P m d"
  by (auto simp: inStage_def)

lemma inStage_wakeAll [simp]: "inStage P (wakeAll m) c = inStage (P \<circ> wake) m c"
  by (auto simp: inStage_def wakeAll_def split: option.splits)

lemma stages_wake [simp]:
  "lockStage \<circ> wake = lockStage" "drainStage \<circ> wake = drainStage" "callStage \<circ> wake = callStage"
  "(=) LockWait \<circ> wake = (=) LockWait"
  by (auto simp: fun_eq_iff)

lemma running_notify [simp]: "map_of (ss_running (notifyStateChange s)) = wakeAll (map_of (ss_running s))"
proof -
  have "map_of (map (\<lambda>(c, owner, stage). (c, owner, wake stage)) xs) = wakeAll (map_of xs)" for xs
    by (induction xs) (auto simp: wakeAll_def fun_eq_iff)
  then show ?thesis by (simp add: notifyStateChange_def)
qed

lemma running_enter [simp]:
  "map_of (ss_running (enterStage c owner stage s)) = (map_of (ss_running s))(c \<mapsto> (owner, stage))"
  by (simp add: enterStage_def update_conv')

lemma running_finish [simp]:
  "map_of (ss_running (snd (finishCoroutine c r s))) = (map_of (ss_running s))(c := None)"
  by (simp add: finishCoroutine_def delete_conv')

section \<open>The invariant\<close>

definition indices :: "'r StreamSender \<Rightarrow> nat list" where
  "indices s = map sc_index (ss_inFlightCalls s)"

text \<open>A coroutine in the drain waits for the head of the window. It sleeps only while the head has not
  settled and neither the stream nor its own signal ends the wait.\<close>

definition headOk :: "StreamOwner \<Rightarrow> nat \<Rightarrow> WaitSignal \<Rightarrow> 'r StreamSender \<Rightarrow> bool" where
  "headOk owner i w s \<longleftrightarrow>
     (ss_inFlightCalls s \<noteq> [] \<and> sc_index (hd (ss_inFlightCalls s)) = i \<and>
      (w = Rejected \<longrightarrow> waitAborted owner \<noteq> None) \<and>
      (w = Sleeping \<longrightarrow> sc_settled (hd (ss_inFlightCalls s)) = None \<and> waitAborted owner = None \<and>
         (allowClosed owner \<or> checkOpen s = Inr ())))"

definition lockOk :: "coroutines \<Rightarrow> 'r StreamSender \<Rightarrow> bool" where
  "lockOk m s \<longleftrightarrow> distinct (ss_drainLock s) \<and> (\<forall>c. c \<in> set (ss_drainLock s) \<longleftrightarrow> inStage lockStage m c) \<and>
     (\<forall>c\<in>set (tl (ss_drainLock s)). inStage ((=) LockWait) m c)"

definition drainOk :: "coroutines \<Rightarrow> 'r StreamSender \<Rightarrow> bool" where
  "drainOk m s \<longleftrightarrow> distinct (map fst (ss_drained s)) \<and>
     (\<forall>c. c \<in> fst ` set (ss_drained s) \<longleftrightarrow> inStage drainStage m c)"

definition stackOk :: "coroutines \<Rightarrow> 'r StreamSender \<Rightarrow> bool" where
  "stackOk m s \<longleftrightarrow> distinct (ss_stack s) \<and> (\<forall>c. c \<in> set (ss_stack s) \<longleftrightarrow> inStage callStage m c)"

definition callsOk :: "coroutines \<Rightarrow> 'r StreamSender \<Rightarrow> bool" where
  "callsOk m s \<longleftrightarrow> sorted_wrt (<) (indices s) \<and> (\<forall>i\<in>set (indices s). i < ss_nextIndex s) \<and>
     (\<forall>c owner j. m c = Some (owner, InCallFn j) \<longrightarrow> j \<in> set (indices s) \<and>
        (\<forall>d owner' w. m d \<noteq> Some (owner', HeadWait j w)) \<and>
        (\<forall>d owner'. m d = Some (owner', InCallFn j) \<longrightarrow> d = c))"

definition headsOk :: "coroutines \<Rightarrow> 'r StreamSender \<Rightarrow> bool" where
  "headsOk m s \<longleftrightarrow> (\<forall>c owner i w. m c = Some (owner, HeadWait i w) \<longrightarrow> headOk owner i w s)"

definition knownCoroutines :: "coroutines \<Rightarrow> 'r StreamSender \<Rightarrow> bool" where
  "knownCoroutines m s \<longleftrightarrow> (\<forall>c. ss_nextCoroutine s \<le> c \<longrightarrow> m c = None)"

definition senderOk :: "coroutines \<Rightarrow> 'r StreamSender \<Rightarrow> bool" where
  "senderOk m s \<longleftrightarrow> knownCoroutines m s \<and> lockOk m s \<and> drainOk m s \<and> stackOk m s \<and> callsOk m s \<and> headsOk m s"

lemmas sender_defs = knownCoroutines_def lockOk_def drainOk_def stackOk_def callsOk_def headsOk_def

abbreviation "senderInv s \<equiv> senderOk (map_of (ss_running s)) s"

abbreviation "senderInvBut c s \<equiv> senderOk ((map_of (ss_running s))(c := None)) s \<and> c < ss_nextCoroutine s"

lemma checkOpen_fields [simp]:
  "checkOpen (s\<lparr>ss_running := r\<rparr>) = checkOpen s" "checkOpen (s\<lparr>ss_readyResponses := x\<rparr>) = checkOpen s"
  "checkOpen (s\<lparr>ss_inFlightBytes := y\<rparr>) = checkOpen s" "checkOpen (s\<lparr>ss_totalReceived := z\<rparr>) = checkOpen s"
  "checkOpen (s\<lparr>ss_drainLock := l\<rparr>) = checkOpen s" "checkOpen (s\<lparr>ss_drained := d\<rparr>) = checkOpen s"
  "checkOpen (s\<lparr>ss_stack := st\<rparr>) = checkOpen s" "checkOpen (s\<lparr>ss_inFlightCalls := w\<rparr>) = checkOpen s"
  "checkOpen (s\<lparr>ss_nextIndex := n\<rparr>) = checkOpen s" "checkOpen (s\<lparr>ss_nextCoroutine := k\<rparr>) = checkOpen s"
  by (simp_all add: checkOpen_def checkAborted_def checkError_def)

lemma headOk_fields [simp]:
  "headOk owner i w (s\<lparr>ss_running := r\<rparr>) = headOk owner i w s"
  "headOk owner i w (s\<lparr>ss_readyResponses := x\<rparr>) = headOk owner i w s"
  "headOk owner i w (s\<lparr>ss_inFlightBytes := y\<rparr>) = headOk owner i w s"
  "headOk owner i w (s\<lparr>ss_totalReceived := z\<rparr>) = headOk owner i w s"
  "headOk owner i w (s\<lparr>ss_drainLock := l\<rparr>) = headOk owner i w s"
  "headOk owner i w (s\<lparr>ss_drained := d\<rparr>) = headOk owner i w s"
  "headOk owner i w (s\<lparr>ss_stack := st\<rparr>) = headOk owner i w s"
  "headOk owner i w (s\<lparr>ss_nextIndex := n\<rparr>) = headOk owner i w s"
  "headOk owner i w (s\<lparr>ss_nextCoroutine := k\<rparr>) = headOk owner i w s"
  by (simp_all add: headOk_def)

lemma indices_fields [simp]:
  "indices (s\<lparr>ss_running := r\<rparr>) = indices s" "indices (s\<lparr>ss_readyResponses := x\<rparr>) = indices s"
  "indices (s\<lparr>ss_inFlightBytes := y\<rparr>) = indices s" "indices (s\<lparr>ss_totalReceived := z\<rparr>) = indices s"
  "indices (s\<lparr>ss_drainLock := l\<rparr>) = indices s" "indices (s\<lparr>ss_drained := d\<rparr>) = indices s"
  "indices (s\<lparr>ss_stack := st\<rparr>) = indices s" "indices (s\<lparr>ss_nextIndex := n\<rparr>) = indices s"
  "indices (s\<lparr>ss_nextCoroutine := k\<rparr>) = indices s" "indices (s\<lparr>ss_firstError := e\<rparr>) = indices s"
  "indices (s\<lparr>ss_canceled := cd\<rparr>) = indices s" "indices (s\<lparr>ss_signalAborted := b\<rparr>) = indices s"
  by (simp_all add: indices_def)

lemma known_fields [simp]:
  "knownCoroutines m (s\<lparr>ss_running := r\<rparr>) = knownCoroutines m s" "knownCoroutines m (s\<lparr>ss_readyResponses := x\<rparr>) = knownCoroutines m s"
  "knownCoroutines m (s\<lparr>ss_inFlightBytes := y\<rparr>) = knownCoroutines m s" "knownCoroutines m (s\<lparr>ss_totalReceived := z\<rparr>) = knownCoroutines m s"
  "knownCoroutines m (s\<lparr>ss_drainLock := l\<rparr>) = knownCoroutines m s" "knownCoroutines m (s\<lparr>ss_drained := d\<rparr>) = knownCoroutines m s"
  "knownCoroutines m (s\<lparr>ss_stack := st\<rparr>) = knownCoroutines m s" "knownCoroutines m (s\<lparr>ss_inFlightCalls := w\<rparr>) = knownCoroutines m s"
  "knownCoroutines m (s\<lparr>ss_nextIndex := n\<rparr>) = knownCoroutines m s" "knownCoroutines m (s\<lparr>ss_firstError := e\<rparr>) = knownCoroutines m s"
  "knownCoroutines m (s\<lparr>ss_canceled := cd\<rparr>) = knownCoroutines m s" "knownCoroutines m (s\<lparr>ss_signalAborted := b\<rparr>) = knownCoroutines m s"
  by (simp_all add: knownCoroutines_def)

lemma lockOk_fields [simp]:
  "lockOk m (s\<lparr>ss_running := r\<rparr>) = lockOk m s" "lockOk m (s\<lparr>ss_readyResponses := x\<rparr>) = lockOk m s"
  "lockOk m (s\<lparr>ss_inFlightBytes := y\<rparr>) = lockOk m s" "lockOk m (s\<lparr>ss_totalReceived := z\<rparr>) = lockOk m s"
  "lockOk m (s\<lparr>ss_drained := d\<rparr>) = lockOk m s" "lockOk m (s\<lparr>ss_stack := st\<rparr>) = lockOk m s"
  "lockOk m (s\<lparr>ss_inFlightCalls := w\<rparr>) = lockOk m s" "lockOk m (s\<lparr>ss_nextIndex := n\<rparr>) = lockOk m s"
  "lockOk m (s\<lparr>ss_firstError := e\<rparr>) = lockOk m s" "lockOk m (s\<lparr>ss_canceled := cd\<rparr>) = lockOk m s"
  "lockOk m (s\<lparr>ss_signalAborted := b\<rparr>) = lockOk m s" "lockOk m (s\<lparr>ss_nextCoroutine := k\<rparr>) = lockOk m s"
  by (simp_all add: lockOk_def)

lemma drainOk_fields [simp]:
  "drainOk m (s\<lparr>ss_running := r\<rparr>) = drainOk m s" "drainOk m (s\<lparr>ss_readyResponses := x\<rparr>) = drainOk m s"
  "drainOk m (s\<lparr>ss_inFlightBytes := y\<rparr>) = drainOk m s" "drainOk m (s\<lparr>ss_totalReceived := z\<rparr>) = drainOk m s"
  "drainOk m (s\<lparr>ss_drainLock := l\<rparr>) = drainOk m s" "drainOk m (s\<lparr>ss_stack := st\<rparr>) = drainOk m s"
  "drainOk m (s\<lparr>ss_inFlightCalls := w\<rparr>) = drainOk m s" "drainOk m (s\<lparr>ss_nextIndex := n\<rparr>) = drainOk m s"
  "drainOk m (s\<lparr>ss_firstError := e\<rparr>) = drainOk m s" "drainOk m (s\<lparr>ss_canceled := cd\<rparr>) = drainOk m s"
  "drainOk m (s\<lparr>ss_signalAborted := b\<rparr>) = drainOk m s" "drainOk m (s\<lparr>ss_nextCoroutine := k\<rparr>) = drainOk m s"
  by (simp_all add: drainOk_def)

lemma stackOk_fields [simp]:
  "stackOk m (s\<lparr>ss_running := r\<rparr>) = stackOk m s" "stackOk m (s\<lparr>ss_readyResponses := x\<rparr>) = stackOk m s"
  "stackOk m (s\<lparr>ss_inFlightBytes := y\<rparr>) = stackOk m s" "stackOk m (s\<lparr>ss_totalReceived := z\<rparr>) = stackOk m s"
  "stackOk m (s\<lparr>ss_drainLock := l\<rparr>) = stackOk m s" "stackOk m (s\<lparr>ss_drained := d\<rparr>) = stackOk m s"
  "stackOk m (s\<lparr>ss_inFlightCalls := w\<rparr>) = stackOk m s" "stackOk m (s\<lparr>ss_nextIndex := n\<rparr>) = stackOk m s"
  "stackOk m (s\<lparr>ss_firstError := e\<rparr>) = stackOk m s" "stackOk m (s\<lparr>ss_canceled := cd\<rparr>) = stackOk m s"
  "stackOk m (s\<lparr>ss_signalAborted := b\<rparr>) = stackOk m s" "stackOk m (s\<lparr>ss_nextCoroutine := k\<rparr>) = stackOk m s"
  by (simp_all add: stackOk_def)

lemma callsOk_fields [simp]:
  "callsOk m (s\<lparr>ss_running := r\<rparr>) = callsOk m s" "callsOk m (s\<lparr>ss_readyResponses := x\<rparr>) = callsOk m s"
  "callsOk m (s\<lparr>ss_inFlightBytes := y\<rparr>) = callsOk m s" "callsOk m (s\<lparr>ss_totalReceived := z\<rparr>) = callsOk m s"
  "callsOk m (s\<lparr>ss_drainLock := l\<rparr>) = callsOk m s" "callsOk m (s\<lparr>ss_drained := d\<rparr>) = callsOk m s"
  "callsOk m (s\<lparr>ss_stack := st\<rparr>) = callsOk m s" "callsOk m (s\<lparr>ss_firstError := e\<rparr>) = callsOk m s"
  "callsOk m (s\<lparr>ss_canceled := cd\<rparr>) = callsOk m s" "callsOk m (s\<lparr>ss_signalAborted := b\<rparr>) = callsOk m s"
  "callsOk m (s\<lparr>ss_nextCoroutine := k\<rparr>) = callsOk m s"
  by (simp_all add: callsOk_def)

lemma headsOk_fields [simp]:
  "headsOk m (s\<lparr>ss_running := r\<rparr>) = headsOk m s" "headsOk m (s\<lparr>ss_readyResponses := x\<rparr>) = headsOk m s"
  "headsOk m (s\<lparr>ss_inFlightBytes := y\<rparr>) = headsOk m s" "headsOk m (s\<lparr>ss_totalReceived := z\<rparr>) = headsOk m s"
  "headsOk m (s\<lparr>ss_drainLock := l\<rparr>) = headsOk m s" "headsOk m (s\<lparr>ss_drained := d\<rparr>) = headsOk m s"
  "headsOk m (s\<lparr>ss_stack := st\<rparr>) = headsOk m s" "headsOk m (s\<lparr>ss_nextIndex := n\<rparr>) = headsOk m s"
  "headsOk m (s\<lparr>ss_nextCoroutine := k\<rparr>) = headsOk m s"
  by (simp_all add: headsOk_def)

lemma senderOk_fields [simp]:
  "senderOk m (s\<lparr>ss_running := r\<rparr>) = senderOk m s" "senderOk m (s\<lparr>ss_readyResponses := x\<rparr>) = senderOk m s"
  "senderOk m (s\<lparr>ss_inFlightBytes := y\<rparr>) = senderOk m s" "senderOk m (s\<lparr>ss_totalReceived := z\<rparr>) = senderOk m s"
  by (simp_all add: senderOk_def)

lemma senderOk_enter [simp]: "senderOk m (enterStage c owner stage s) = senderOk m s"
  by (simp add: enterStage_def)

lemma senderOk_finish [simp]: "senderOk m (snd (finishCoroutine c r s)) = senderOk m s"
  by (simp add: finishCoroutine_def)

lemma senderOk_notify [simp]: "senderOk m (notifyStateChange s) = senderOk m s"
  by (simp add: notifyStateChange_def)

section \<open>Steps of one coroutine\<close>

lemma known_less: "senderOk m s \<Longrightarrow> m c = Some x \<Longrightarrow> c < ss_nextCoroutine s"
  unfolding senderOk_def knownCoroutines_def by (metis linorder_not_le option.distinct(1))

text \<open>A stage outside of the part of the state that a predicate is about is as good as none to it.\<close>

lemma known_other: "c < ss_nextCoroutine s \<Longrightarrow> knownCoroutines (m(c \<mapsto> x)) s \<longleftrightarrow> knownCoroutines (m(c := None)) s"
  by (auto simp: knownCoroutines_def)

lemma lockOk_other:
  assumes "\<not> lockStage stage"
  shows "lockOk (m(c \<mapsto> (owner, stage))) s \<longleftrightarrow> lockOk (m(c := None)) s"
proof -
  have "LockWait \<noteq> stage" using assms by auto
  then show ?thesis using assms by (simp add: lockOk_def)
qed

lemma drainOk_other:
  "\<not> drainStage stage \<Longrightarrow> drainOk (m(c \<mapsto> (owner, stage))) s \<longleftrightarrow> drainOk (m(c := None)) s"
  by (simp add: drainOk_def)

lemma stackOk_other:
  "\<not> callStage stage \<Longrightarrow> stackOk (m(c \<mapsto> (owner, stage))) s \<longleftrightarrow> stackOk (m(c := None)) s"
  by (simp add: stackOk_def)

lemma callsOk_other:
  "\<forall>i w. stage \<noteq> HeadWait i w \<Longrightarrow> \<forall>i. stage \<noteq> InCallFn i \<Longrightarrow>
    callsOk (m(c \<mapsto> (owner, stage))) s \<longleftrightarrow> callsOk (m(c := None)) s"
  by (simp add: callsOk_def)

lemma headsOk_other:
  "\<forall>i w. stage \<noteq> HeadWait i w \<Longrightarrow> headsOk (m(c \<mapsto> (owner, stage))) s \<longleftrightarrow> headsOk (m(c := None)) s"
  by (simp add: headsOk_def)

lemmas other_stages = known_other lockOk_other drainOk_other stackOk_other callsOk_other headsOk_other

lemma neutral_iff:
  assumes "neutral stage" "c < ss_nextCoroutine s"
  shows "senderOk (m(c \<mapsto> (owner, stage))) s \<longleftrightarrow> senderOk (m(c := None)) s"
proof -
  note n = assms(1) [unfolded neutral_def]
  have *: "\<forall>i w. stage \<noteq> HeadWait i w" "\<forall>i. stage \<noteq> InCallFn i" using n by auto
  show ?thesis using n * assms(2) unfolding senderOk_def by (simp add: other_stages)
qed

lemma aside_ok:
  assumes ok: "senderOk m s" and m: "m c = Some (owner, stage)" and n: "neutral stage"
  shows "senderOk (m(c := None)) s"
proof -
  have "m(c \<mapsto> (owner, stage)) = m" using m by auto
  then show ?thesis using neutral_iff [OF n known_less [OF ok m], of m owner] ok by simp
qed

lemma queue_ok:
  assumes ok: "senderOk (m(c := None)) s" and c: "c < ss_nextCoroutine s"
  shows "senderOk (m(c \<mapsto> (owner, LockWait))) (s\<lparr>ss_drainLock := ss_drainLock s @ [c]\<rparr>)"
proof -
  have l: "lockOk (m(c := None)) s" using ok by (simp add: senderOk_def)
  have "\<forall>d\<in>set (tl (ss_drainLock s @ [c])). d = c \<or> d \<in> set (tl (ss_drainLock s))" by (cases "ss_drainLock s") auto
  moreover have "c \<notin> set (ss_drainLock s)" using l by (simp add: lockOk_def)
  ultimately have "lockOk (m(c \<mapsto> (owner, LockWait))) (s\<lparr>ss_drainLock := ss_drainLock s @ [c]\<rparr>)"
    using l by (auto simp: lockOk_def)
  then show ?thesis using ok c unfolding senderOk_def by (simp add: other_stages)
qed

lemma callback_ok:
  assumes ok: "senderOk (m(c := None)) s" and c: "c < ss_nextCoroutine s"
  shows "senderOk (m(c \<mapsto> (owner, InOnError))) (s\<lparr>ss_stack := c # ss_stack s\<rparr>)"
proof -
  have "stackOk (m(c := None)) s" using ok by (simp add: senderOk_def)
  then have "stackOk (m(c \<mapsto> (owner, InOnError))) (s\<lparr>ss_stack := c # ss_stack s\<rparr>)" by (auto simp: stackOk_def)
  then show ?thesis using ok c unfolding senderOk_def by (simp add: other_stages)
qed

lemma admit_ok:
  assumes ok: "senderOk (m(c := None)) s" and c: "c < ss_nextCoroutine s"
    and call: "sc_index call = ss_nextIndex s"
  shows "senderOk (m(c \<mapsto> (owner, InCallFn (ss_nextIndex s))))
    (s\<lparr>ss_nextIndex := ss_nextIndex s + 1, ss_inFlightCalls := ss_inFlightCalls s @ [call], ss_stack := c # ss_stack s\<rparr>)"
    (is "senderOk ?m ?s")
proof -
  let ?n = "ss_nextIndex s"
  have H: "headsOk (m(c := None)) s" and callsOk: "callsOk (m(c := None)) s" using ok by (simp_all add: senderOk_def)
  have heads: "\<And>d owner i w. d \<noteq> c \<Longrightarrow> m d = Some (owner, HeadWait i w) \<Longrightarrow> headOk owner i w s"
    using H unfolding headsOk_def by (metis fun_upd_other)
  have calls: "\<And>d owner j. d \<noteq> c \<Longrightarrow> m d = Some (owner, InCallFn j) \<Longrightarrow> j \<in> set (indices s)"
    and less: "\<forall>i\<in>set (indices s). i < ?n"
    using callsOk unfolding callsOk_def by (metis fun_upd_other, blast)
  have i: "indices ?s = indices s @ [?n]" using call by (simp add: indices_def)
  have h: "d \<noteq> c \<Longrightarrow> m d = Some (owner, HeadWait i w) \<Longrightarrow> headOk owner i w ?s \<and> i \<in> set (indices s)" for d owner i w
    using heads [of d owner i w] by (auto simp: headOk_def indices_def)
  have "callsOk ?m ?s"
    using callsOk h calls less unfolding callsOk_def i
    by (auto simp: sorted_wrt_append split: if_splits) (blast | fastforce)+
  moreover have "headsOk ?m ?s" using h by (auto simp: headsOk_def split: if_splits)
  moreover have "stackOk (m(c := None)) s" "lockOk (m(c := None)) s" using ok by (simp_all add: senderOk_def)
  then have "stackOk ?m ?s" "lockOk ?m ?s" by (auto simp: stackOk_def lockOk_def)
  moreover have "knownCoroutines ?m ?s" "drainOk ?m ?s" using ok c unfolding senderOk_def by (simp_all add: other_stages)
  ultimately show ?thesis unfolding senderOk_def by blast
qed


text \<open>A change that a coroutine may wait for is announced: whoever sleeps is woken.\<close>

lemma wakeAll_upd [simp]: "(wakeAll m)(c := None) = wakeAll (m(c := None))"
  by (auto simp: wakeAll_def)

lemma wakeAll_Some:
  "wakeAll m c = Some (owner, HeadWait i w) \<Longrightarrow> \<exists>w'. m c = Some (owner, HeadWait i w') \<and> w = (if w' = Sleeping then Woken else w')"
proof -
  assume "wakeAll m c = Some (owner, HeadWait i w)"
  then obtain stage where m: "m c = Some (owner, stage)" "wake stage = HeadWait i w" by (auto simp: wakeAll_def)
  then show ?thesis by (cases stage) (auto simp: wake_def split: WaitSignal.splits)
qed

lemma wakeAll_InCallFn: "wakeAll m c = Some (owner, InCallFn i) \<longleftrightarrow> m c = Some (owner, InCallFn i)"
  by (cases "m c") (auto simp: wakeAll_def apsnd_def map_prod_def)

lemma headOk_awake:
  assumes "headOk owner i w s" "indices s' = indices s"
  shows "headOk owner i (if w = Sleeping then Woken else w) s'"
proof -
  have "ss_inFlightCalls s' \<noteq> [] \<longleftrightarrow> ss_inFlightCalls s \<noteq> []"
    and "ss_inFlightCalls s \<noteq> [] \<Longrightarrow> sc_index (hd (ss_inFlightCalls s')) = sc_index (hd (ss_inFlightCalls s))"
    using assms(2) unfolding indices_def by (metis map_is_Nil_conv, metis list.map_sel(1) map_is_Nil_conv)
  then show ?thesis using assms(1) by (auto simp: headOk_def)
qed

lemma awake_ok:
  assumes ok: "senderOk m s" and same: "knownCoroutines m s'" "lockOk m s'" "drainOk m s'" "stackOk m s'"
    and i: "indices s' = indices s" "ss_nextIndex s' = ss_nextIndex s"
  shows "senderOk (wakeAll m) s'"
proof -
  have H: "headsOk m s" and C: "callsOk m s" using ok by (simp_all add: senderOk_def)
  have h: "headOk owner j (if w = Sleeping then Woken else w) s'" if "m c = Some (owner, HeadWait j w)" for c owner j w
    using H that headOk_awake [OF _ i(1)] unfolding headsOk_def by blast
  have "headsOk (wakeAll m) s'" unfolding headsOk_def by (auto dest!: wakeAll_Some simp: h)
  moreover have "callsOk (wakeAll m) s'"
    using C unfolding callsOk_def i wakeAll_InCallFn by (auto dest!: wakeAll_Some)
  moreover have "knownCoroutines (wakeAll m) s'" using same(1) by (simp add: knownCoroutines_def wakeAll_def)
  moreover have "lockOk (wakeAll m) s'" "drainOk (wakeAll m) s'" "stackOk (wakeAll m) s'"
    using same by (simp_all add: lockOk_def drainOk_def stackOk_def)
  ultimately show ?thesis by (simp add: senderOk_def)
qed

lemma notify_fields [simp]:
  "ss_nextCoroutine (notifyStateChange s) = ss_nextCoroutine s" "ss_drainLock (notifyStateChange s) = ss_drainLock s"
  "ss_drained (notifyStateChange s) = ss_drained s" "ss_stack (notifyStateChange s) = ss_stack s"
  "ss_inFlightCalls (notifyStateChange s) = ss_inFlightCalls s" "ss_readyResponses (notifyStateChange s) = ss_readyResponses s"
  "ss_nextIndex (notifyStateChange s) = ss_nextIndex s" "ss_inFlightBytes (notifyStateChange s) = ss_inFlightBytes s"
  "checkOpen (notifyStateChange s) = checkOpen s" "indices (notifyStateChange s) = indices s"
  by (simp_all add: notifyStateChange_def)

lemma announced_ok:
  assumes "senderOk m s"
  shows "senderOk (wakeAll m) s" "senderOk (wakeAll m) (s\<lparr>ss_firstError := e\<rparr>)"
    "senderOk (wakeAll m) (s\<lparr>ss_canceled := e\<rparr>)" "senderOk (wakeAll m) (s\<lparr>ss_signalAborted := b\<rparr>)"
proof -
  have *: "knownCoroutines m s" "lockOk m s" "drainOk m s" "stackOk m s" using assms by (simp_all add: senderOk_def)
  show "senderOk (wakeAll m) s" "senderOk (wakeAll m) (s\<lparr>ss_firstError := e\<rparr>)"
    "senderOk (wakeAll m) (s\<lparr>ss_canceled := e\<rparr>)" "senderOk (wakeAll m) (s\<lparr>ss_signalAborted := b\<rparr>)"
    by (rule awake_ok [OF assms]; simp add: *)+
qed

lemma notify_ok: "senderInv s \<Longrightarrow> senderInv (notifyStateChange s)"
  by (simp add: announced_ok)

lemma notify_but: "senderInvBut c s \<Longrightarrow> senderInvBut c (notifyStateChange s)"
  by (simp add: announced_ok)

lemma rememberError_but: "senderInvBut c s \<Longrightarrow> senderInvBut c (rememberError e s)"
  by (simp add: announced_ok rememberError_def)

lemma enter_ok: "senderInvBut c s \<Longrightarrow> neutral stage \<Longrightarrow> senderInv (enterStage c owner stage s)"
  by (simp add: neutral_iff)

lemma finish_ok: "senderInvBut c s \<Longrightarrow> senderInv (snd (finishCoroutine c r s))"
  by simp

lemma aside: "senderInv s \<Longrightarrow> map_of (ss_running s) c = Some (owner, stage) \<Longrightarrow> neutral stage \<Longrightarrow> senderInvBut c s"
  using aside_ok known_less by blast

lemma deliverTurn_ok:
  assumes "senderInvBut c s"
  shows "senderInv (snd (deliverTurn c owner s))"
proof (cases "ss_readyResponses s")
  case Nil
  then show ?thesis using assms by (simp add: deliverTurn_def neutral_iff)
next
  case (Cons call rest)
  let ?s = "s\<lparr>ss_readyResponses := rest\<rparr>"
  have but: "senderInvBut c ?s" using assms by simp
  have throw: "senderInv (enterStage c owner (DrainEnds (Inl e)) (rememberError e ?s))" for e
    using enter_ok [OF rememberError_but [OF but]] by simp
  have "senderInv (enterStage c owner InOnError (?s\<lparr>ss_stack := c # ss_stack ?s\<rparr>))"
    using callback_ok [of "map_of (ss_running s)" c ?s owner] but by simp
  then show ?thesis using throw enter_ok [OF but] Cons
    by (auto simp: deliverTurn_def Let_def split: option.split sum.split)
qed

lemma admitCall_ok:
  assumes "senderInvBut c s"
  shows "senderInv (snd (admitCall c params s))"
  using admit_ok [of "map_of (ss_running s)" c s "\<lparr>sc_index = ss_nextIndex s, sc_byteLength = int (length params), sc_settled = None\<rparr>"] assms
  by (simp add: admitCall_def Let_def)

lemma queueForLock_ok: "senderInvBut c s \<Longrightarrow> senderInv (queueForLock c owner s)"
  using queue_ok [of "map_of (ss_running s)" c s owner] by (simp add: queueForLock_def)

lemma ownerTurn_ok:
  assumes "senderInvBut c s"
  shows "senderInv (snd (ownerTurn c owner s))"
  by (cases owner) (auto simp: finish_ok [OF assms] queueForLock_ok [OF assms] admitCall_ok [OF assms]
      deliverTurn_ok [OF assms] simp del: running_finish senderOk_finish split: sum.split)

lemma ownerThrows_ok:
  assumes "senderInvBut c s"
  shows "senderInv (snd (ownerThrows c owner e s))"
  by (cases owner) (simp_all add: finish_ok [OF assms] ownerTurn_ok [OF assms] del: ownerTurn.simps running_finish senderOk_finish)


section \<open>Steps of the drain\<close>

lemma holder_heads:
  assumes "senderOk m s" "ss_drainLock s = c # rest" "m d = Some (owner, HeadWait i w)"
  shows "d = c"
proof -
  have "lockOk m s" using assms(1) by (simp add: senderOk_def)
  then have "d \<in> set (ss_drainLock s)" "d \<in> set (tl (ss_drainLock s)) \<Longrightarrow> False"
    using assms(3) by (auto simp: lockOk_def inStage_def)
  then show ?thesis using assms(2) by auto
qed

lemma no_callFn:
  assumes "senderOk m s" "ss_stack s = []"
  shows "m d \<noteq> Some (owner, InCallFn j)"
proof
  assume "m d = Some (owner, InCallFn j)"
  then have "inStage callStage m d" by (simp add: inStage_def)
  then show False using assms by (simp add: senderOk_def stackOk_def)
qed

lemma holder_stays:
  assumes ok: "senderOk m s" and l: "ss_drainLock s = c # rest" and m: "m c = Some (owner, stage)"
    and st: "lockStage stage" "lockStage stage'"
  shows "lockOk (m(c \<mapsto> (owner', stage'))) s"
proof -
  have L: "lockOk m s" using ok by (simp add: senderOk_def)
  then have "c \<notin> set rest" using l by (auto simp: lockOk_def)
  then show ?thesis using L l m st by (auto simp: lockOk_def inStage_def)
qed

text \<open>A holder of the lock that has taken its call, or has failed to, goes on to the end of the lock.\<close>

lemma leave_ok:
  assumes ok: "senderOk m s" and l: "ss_drainLock s = c # rest" and st: "ss_stack s = []"
    and m: "m c = Some (owner, stage)" and stage: "lockStage stage" "\<not> drainStage stage"
    and sorted: "sorted_wrt (<) (map sc_index calls)" "set calls \<subseteq> set (ss_inFlightCalls s)"
  shows "senderOk (m(c \<mapsto> (owner, LeavesLock)))
    (s\<lparr>ss_inFlightCalls := calls, ss_drained := ss_drained s @ [(c, r)]\<rparr>)"
    (is "senderOk ?m ?s")
proof -
  have D: "drainOk m s" and C: "callsOk m s" and K: "knownCoroutines m s" using ok by (simp_all add: senderOk_def)
  have "c \<notin> fst ` set (ss_drained s)" using D m stage by (simp add: drainOk_def inStage_def)
  then have "drainOk ?m ?s" using D by (auto simp: drainOk_def)
  moreover have "lockOk ?m ?s" using holder_stays [OF ok l m stage(1)] by simp
  moreover have "stackOk (m(c := None)) s" using ok st by (simp add: senderOk_def stackOk_def)
  then have "stackOk ?m ?s" using st by (simp add: stackOk_def)
  moreover have "callsOk ?m ?s"
    using C sorted no_callFn [OF ok st] by (auto simp: callsOk_def indices_def)
  moreover have "headsOk ?m ?s" using holder_heads [OF ok l] by (auto simp: headsOk_def)
  moreover have "knownCoroutines ?m ?s" using K m by (auto simp: knownCoroutines_def)
  ultimately show ?thesis by (simp add: senderOk_def)
qed

lemma leaveLock_ok:
  assumes ok: "senderInv s" and l: "ss_drainLock s = c # rest" and st: "ss_stack s = []"
    and m: "map_of (ss_running s) c = Some (owner, stage)" and stage: "lockStage stage" "\<not> drainStage stage"
  shows "senderInv (leaveLock c owner r s)"
proof -
  have "sorted_wrt (<) (map sc_index (ss_inFlightCalls s))" using ok by (simp add: senderOk_def callsOk_def indices_def)
  from leave_ok [OF ok l st m stage this subset_refl] show ?thesis by (simp add: leaveLock_def)
qed

lemma takeHead_ok:
  assumes ok: "senderInv s" and l: "ss_drainLock s = c # rest" and st: "ss_stack s = []"
    and m: "map_of (ss_running s) c = Some (owner, stage)" and stage: "lockStage stage" "\<not> drainStage stage"
  shows "senderInv (leaveLock c owner r (notifyStateChange (dropCall oldest (s\<lparr>ss_totalReceived := n\<rparr>))))"
proof -
  let ?calls = "filter (\<lambda>other. sc_index other \<noteq> sc_index oldest) (ss_inFlightCalls s)"
  have "sorted_wrt (<) (map sc_index (ss_inFlightCalls s))" using ok by (simp add: senderOk_def callsOk_def indices_def)
  then have "sorted_wrt (<) (map sc_index ?calls)" by (simp add: sorted_wrt_map sorted_wrt_filter)
  moreover let ?t = "s\<lparr>ss_totalReceived := n, ss_inFlightBytes := ss_inFlightBytes s - sc_byteLength oldest\<rparr>"
  have "senderOk (map_of (ss_running s)) ?t" using ok by simp
  ultimately have t: "senderOk ((map_of (ss_running s))(c \<mapsto> (owner, LeavesLock)))
      (?t\<lparr>ss_inFlightCalls := ?calls, ss_drained := ss_drained s @ [(c, r)]\<rparr>)" (is "senderOk _ ?u")
    using leave_ok [of "map_of (ss_running s)" ?t c rest owner stage ?calls r] l st m stage by auto
  have eq: "leaveLock c owner r (notifyStateChange (dropCall oldest (s\<lparr>ss_totalReceived := n\<rparr>))) =
      enterStage c owner LeavesLock (notifyStateChange ?u)"
    by (simp add: leaveLock_def dropCall_def notifyStateChange_def enterStage_def)
  have "wakeAll ((map_of (ss_running s))(c \<mapsto> (owner, LeavesLock))) = (wakeAll (map_of (ss_running s)))(c \<mapsto> (owner, LeavesLock))"
    by (auto simp: wakeAll_def wake_def)
  then show ?thesis using announced_ok(1) [OF t] unfolding eq by simp
qed

lemma wait_ok:
  assumes ok: "senderInv s" and l: "ss_drainLock s = c # rest" and st: "ss_stack s = []"
    and m: "map_of (ss_running s) c = Some (owner, stage)" and stage: "lockStage stage" "\<not> drainStage stage"
    and h: "headOk owner' i w s"
  shows "senderInv (enterStage c owner' (HeadWait i w) s)"
proof -
  let ?m = "(map_of (ss_running s))(c \<mapsto> (owner', HeadWait i w))"
  have D: "drainOk (map_of (ss_running s)) s" and C: "callsOk (map_of (ss_running s)) s"
    and K: "knownCoroutines (map_of (ss_running s)) s" and S: "stackOk (map_of (ss_running s)) s"
    using ok by (simp_all add: senderOk_def)
  have "drainOk ?m s" using D m stage by (auto simp: drainOk_def inStage_def)
  moreover have "lockOk ?m s" using holder_stays [OF ok l m stage(1)] by simp
  moreover have "stackOk ?m s" using S st by (simp add: stackOk_def)
  moreover have "callsOk ?m s" using C no_callFn [OF ok st] by (simp add: callsOk_def)
  moreover have "headsOk ?m s" using holder_heads [OF ok l] h by (auto simp: headsOk_def)
  moreover have "knownCoroutines ?m s" using K m by (auto simp: knownCoroutines_def)
  ultimately have "senderOk ?m s" by (simp add: senderOk_def)
  then show ?thesis by simp
qed

lemma headTurn_ok:
  assumes ok: "senderInv s" and l: "ss_drainLock s = c # rest" and st: "ss_stack s = []"
    and m: "map_of (ss_running s) c = Some (owner, stage)" and stage: "lockStage stage" "\<not> drainStage stage"
    and h: "ss_inFlightCalls s = oldest # calls"
  shows "senderInv (headTurn c owner oldest s)"
proof -
  note A = ok l st m stage
  let ?w = "if waitAborted owner = None then Sleeping else Rejected"
  have "senderInv (enterStage c owner (HeadWait (sc_index oldest) ?w) s)"
    if "sc_settled oldest = None" "(if allowClosed owner then Inr () else checkOpen s) = Inr u" for u
    using that h by (intro wait_ok [OF A]) (auto simp: headOk_def split: if_splits)
  then show ?thesis using takeHead_ok [OF A] leaveLock_ok [OF A]
    unfolding headTurn_def by (cases "if allowClosed owner then Inr () else checkOpen s") auto
qed


lemma lockTurn_ok:
  assumes ok: "senderInv s" and l: "ss_drainLock s = c # rest" and st: "ss_stack s = []"
    and m: "map_of (ss_running s) c = Some (owner, LockWait)"
  shows "senderInv (lockTurn c owner s)"
  using leaveLock_ok [OF ok l st m] headTurn_ok [OF ok l st m]
  by (cases "ss_inFlightCalls s") (simp_all add: lockTurn_def)

lemma holder_front:
  assumes "senderOk m s" "m c = Some (owner, stage)" "lockStage stage" "stage \<noteq> LockWait"
  obtains rest where "ss_drainLock s = c # rest"
proof -
  have "c \<in> set (ss_drainLock s)" "c \<notin> set (tl (ss_drainLock s))"
    using assms by (auto simp: senderOk_def lockOk_def inStage_def)
  then show ?thesis using that by (cases "ss_drainLock s") auto
qed

lemma releaseLock_ok:
  assumes ok: "senderInv s" and m: "map_of (ss_running s) c = Some (owner, LeavesLock)"
  shows "senderInv (enterStage c owner LeftLock (s\<lparr>ss_drainLock := tl (ss_drainLock s)\<rparr>))"
proof -
  let ?m = "map_of (ss_running s)" and ?s = "s\<lparr>ss_drainLock := tl (ss_drainLock s)\<rparr>"
  let ?m' = "?m(c \<mapsto> (owner, LeftLock))"
  obtain rest where l: "ss_drainLock s = c # rest" using holder_front [OF ok m] by auto
  have L: "lockOk ?m s" and D: "drainOk ?m s" and S: "stackOk ?m s" and C: "callsOk ?m s" and H: "headsOk ?m s"
    and K: "knownCoroutines ?m s" using ok by (simp_all add: senderOk_def)
  have t: "\<forall>d\<in>set (tl rest). d \<in> set rest" by (cases rest) auto
  have "lockOk ?m' ?s" using L l t m by (auto simp: lockOk_def inStage_def)
  moreover have "drainOk ?m' ?s" using D m by (auto simp: drainOk_def inStage_def)
  moreover have "stackOk ?m' ?s" using S m by (auto simp: stackOk_def inStage_def)
  moreover have "callsOk ?m' ?s" using C by (simp add: callsOk_def)
  moreover have "headsOk ?m' ?s" using H by (simp add: headsOk_def)
  moreover have "knownCoroutines ?m' ?s" using K m by (auto simp: knownCoroutines_def)
  ultimately have "senderOk ?m' ?s" by (simp add: senderOk_def)
  then show ?thesis by (simp add: enterStage_def update_conv')
qed

lemma drained_ok:
  assumes ok: "senderInv s" and d: "ss_drained s = (c, r) # rest"
    and m: "map_of (ss_running s) c = Some (owner, LeftLock)"
  shows "senderInvBut c (s\<lparr>ss_drained := rest\<rparr>)"
proof -
  let ?m = "map_of (ss_running s)" and ?s = "s\<lparr>ss_drained := rest\<rparr>"
  let ?m' = "?m(c := None)"
  have L: "lockOk ?m s" and D: "drainOk ?m s" and S: "stackOk ?m s" and C: "callsOk ?m s" and H: "headsOk ?m s"
    and K: "knownCoroutines ?m s" using ok by (simp_all add: senderOk_def)
  have "lockOk ?m' ?s" using L m by (auto simp: lockOk_def inStage_def)
  moreover have "drainOk ?m' ?s" using D d m by (auto simp: drainOk_def inStage_def image_iff)
  moreover have "stackOk ?m' ?s" using S m by (auto simp: stackOk_def inStage_def)
  moreover have "callsOk ?m' ?s" using C by (simp add: callsOk_def)
  moreover have "headsOk ?m' ?s" using H by (simp add: headsOk_def)
  moreover have "knownCoroutines ?m' ?s" using K by (simp add: knownCoroutines_def)
  ultimately have "senderOk ?m' ?s" by (simp add: senderOk_def)
  then show ?thesis using known_less [OF ok m] by simp
qed

section \<open>Callbacks, calls and signals\<close>

lemma returned_ok:
  assumes ok: "senderInv s" and st: "ss_stack s = c # stack"
    and m: "map_of (ss_running s) c = Some (owner, stage)"
    and calls: "calls = ss_inFlightCalls s \<or> stage = InCallFn j \<and> calls = filter (\<lambda>call. sc_index call \<noteq> j) (ss_inFlightCalls s)"
  shows "senderInvBut c (s\<lparr>ss_stack := stack, ss_inFlightCalls := calls\<rparr>)"
proof -
  let ?m = "map_of (ss_running s)" and ?s = "s\<lparr>ss_stack := stack, ss_inFlightCalls := calls\<rparr>"
  let ?m' = "?m(c := None)"
  have L: "lockOk ?m s" and D: "drainOk ?m s" and S: "stackOk ?m s" and C: "callsOk ?m s" and H: "headsOk ?m s"
    and K: "knownCoroutines ?m s" using ok by (simp_all add: senderOk_def)
  have "inStage callStage ?m c" using S st unfolding stackOk_def by (metis list.set_intros(1))
  then have stage: "callStage stage" using m by (simp add: inStage_def)
  then have "\<not> lockStage stage" "\<not> drainStage stage" "LockWait \<noteq> stage" by (cases stage; simp)+
  then have "lockOk ?m' ?s" "drainOk ?m' ?s" using L D m by (auto simp: lockOk_def drainOk_def inStage_def)
  moreover have "stackOk ?m' ?s" using S m st by (auto simp: stackOk_def inStage_def)
  moreover have "callsOk ?m' ?s" "headsOk ?m' ?s"
  proof -
    have sub: "set (map sc_index calls) \<subseteq> set (indices s)" "sorted_wrt (<) (map sc_index calls)"
      using C calls by (auto simp: callsOk_def indices_def sorted_wrt_map sorted_wrt_filter)
    have j: "i \<in> set (map sc_index calls)" if "i \<in> set (indices s)" "stage = InCallFn j \<Longrightarrow> i \<noteq> j" for i
      using calls that by (auto simp: indices_def)
    have "d \<noteq> c \<Longrightarrow> ?m d = Some (owner', InCallFn i) \<Longrightarrow> i \<in> set (map sc_index calls)" for d owner' i
      using C m by (intro j) (auto simp: callsOk_def)
    then show "callsOk ?m' ?s" using C sub by (auto simp: callsOk_def indices_def)
    have "headOk owner' i w ?s" if h: "?m d = Some (owner', HeadWait i w)" for d owner' i w
    proof -
      have "headOk owner' i w s" using H h by (simp add: headsOk_def)
      moreover have "stage = InCallFn j \<Longrightarrow> i \<noteq> j" using C m h unfolding callsOk_def by blast
      ultimately have "calls \<noteq> [] \<and> hd calls = hd (ss_inFlightCalls s)"
        using calls by (cases "ss_inFlightCalls s") (auto simp: headOk_def)
      moreover note \<open>headOk owner' i w s\<close>
      ultimately show ?thesis by (simp add: headOk_def)
    qed
    then show "headsOk ?m' ?s" by (simp add: headsOk_def)
  qed
  moreover have "knownCoroutines ?m' ?s" using K by (simp add: knownCoroutines_def)
  ultimately have "senderOk ?m' ?s" by (simp add: senderOk_def)
  then show ?thesis using known_less [OF ok m] by simp
qed

lemma settleCall_ok: "senderInv s \<Longrightarrow> senderInv (settleCall i r s)"
proof -
  assume ok: "senderInv s"
  let ?calls = "map (\<lambda>call. if sc_index call = i then call\<lparr>sc_settled := Some r\<rparr> else call) (ss_inFlightCalls s)"
  have i: "indices (s\<lparr>ss_inFlightCalls := ?calls\<rparr>) = indices s" by (simp add: indices_def)
  have "senderOk (wakeAll (map_of (ss_running s))) (s\<lparr>ss_inFlightCalls := ?calls\<rparr>)"
    using ok by (intro awake_ok [OF ok _ _ _ _ i]) (simp_all add: senderOk_def)
  then show ?thesis by (simp add: settleCall_def)
qed

lemma waitAborts_ok:
  assumes ok: "senderInv s" and m: "map_of (ss_running s) c = Some (CapacityOwner n None, stage)"
  shows "senderInv (enterStage c (CapacityOwner n (Some e)) (case stage of HeadWait i Sleeping \<Rightarrow> HeadWait i Rejected | _ \<Rightarrow> stage) s)"
    (is "senderInv (enterStage c ?owner ?stage s)")
proof -
  let ?m = "map_of (ss_running s)" 
  let ?m' = "?m(c \<mapsto> (?owner, ?stage))"
  have L: "lockOk ?m s" and D: "drainOk ?m s" and S: "stackOk ?m s" and C: "callsOk ?m s" and H: "headsOk ?m s"
    and K: "knownCoroutines ?m s" using ok by (simp_all add: senderOk_def)
  have st: "lockStage ?stage = lockStage stage" "drainStage ?stage = drainStage stage" "callStage ?stage = callStage stage"
    "(LockWait = ?stage) = (LockWait = stage)" "\<And>i. (?stage = InCallFn i) = (stage = InCallFn i)"
    "\<And>i w. ?stage = HeadWait i w \<Longrightarrow> \<exists>w'. stage = HeadWait i w' \<and> w \<noteq> Sleeping"
    by (auto split: StreamStage.splits WaitSignal.splits)
  have "lockOk ?m' s" "drainOk ?m' s" "stackOk ?m' s"
    using L D S m st(1-4) by (auto simp: lockOk_def drainOk_def stackOk_def inStage_def)
  moreover have "callsOk ?m' s"
    using C m st(5,6) unfolding callsOk_def by (smt (verit) fun_upd_apply option.inject prod.inject)
  moreover have "headsOk ?m' s" using H m st(6) by (fastforce simp: headsOk_def headOk_def split: if_splits)
  moreover have "knownCoroutines ?m' s" using K m by (auto simp: knownCoroutines_def)
  ultimately have "senderOk ?m' s" by (simp add: senderOk_def)
  then show ?thesis by simp
qed

lemma newCoroutine_ok:
  assumes "senderInv s"
  shows "senderInvBut (ss_nextCoroutine s) (newCoroutine s)"
proof -
  have K: "knownCoroutines (map_of (ss_running s)) s" using assms by (simp add: senderOk_def)
  then have "(map_of (ss_running s))(ss_nextCoroutine s := None) = map_of (ss_running s)" by (auto simp: knownCoroutines_def)
  moreover have "knownCoroutines (map_of (ss_running s)) (newCoroutine s)" using K by (simp add: knownCoroutines_def newCoroutine_def)
  ultimately show ?thesis using assms by (simp add: senderOk_def newCoroutine_def)
qed


section \<open>Every event\<close>

lemma find_head: "ss_inFlightCalls s \<noteq> [] \<Longrightarrow> sc_index (hd (ss_inFlightCalls s)) = i \<Longrightarrow>
    inFlightCall i s = Some (hd (ss_inFlightCalls s))"
  by (cases "ss_inFlightCalls s") (auto simp: inFlightCall_def)

lemma jobStep_ok:
  assumes ok: "senderInv s" and step: "jobStep event s = Some (actions, s')" and st: "ss_stack s = []"
  shows "senderInv s'"
proof (cases event)
  case (LockGranted c)
  then obtain rest owner where l: "ss_drainLock s = c # rest" and m: "map_of (ss_running s) c = Some (owner, LockWait)"
    and s': "s' = lockTurn c owner (notifyStateChange s)"
    using step by (auto simp: jobStep_def split: list.splits option.splits prod.splits StreamStage.splits if_splits)
  have "map_of (ss_running (notifyStateChange s)) c = Some (owner, LockWait)" using m by (simp add: wakeAll_def wake_def)
  then show ?thesis unfolding s' using lockTurn_ok [OF notify_ok [OF ok]] l st by simp
next
  case (Wakes c)
  then obtain owner i w where m: "map_of (ss_running s) c = Some (owner, HeadWait i w)"
    and s': "w = Woken \<and> (\<exists>oldest. inFlightCall i s = Some oldest \<and> s' = headTurn c owner oldest s) \<or>
      (\<exists>e. s' = leaveLock c owner (Inl e) s)"
    using step by (auto simp: jobStep_def split: option.splits prod.splits StreamStage.splits WaitSignal.splits)
  obtain rest where l: "ss_drainLock s = c # rest" using holder_front [OF ok m] by auto
  have "headOk owner i w s" using ok m by (simp add: senderOk_def headsOk_def)
  then have w: "ss_inFlightCalls s = hd (ss_inFlightCalls s) # tl (ss_inFlightCalls s)"
    and i: "inFlightCall i s = Some (hd (ss_inFlightCalls s))" by (auto simp: headOk_def find_head)
  show ?thesis using s' i headTurn_ok [OF ok l st m _ _ w] leaveLock_ok [OF ok l st m] by auto
next
  case (Releases c)
  then obtain owner where m: "map_of (ss_running s) c = Some (owner, LeavesLock)"
    and s': "s' = notifyStateChange (enterStage c owner LeftLock (s\<lparr>ss_drainLock := tl (ss_drainLock s)\<rparr>))"
    using step by (auto simp: jobStep_def split: option.splits prod.splits StreamStage.splits)
  show ?thesis unfolding s' by (rule notify_ok [OF releaseLock_ok [OF ok m]])
next
  case Drains
  then obtain c r rest owner where d: "ss_drained s = (c, r) # rest"
    and m: "map_of (ss_running s) c = Some (owner, LeftLock)"
    and s': "s' = (case r of Inl e \<Rightarrow> enterStage c owner (DrainEnds (Inl e)) (s\<lparr>ss_drained := rest\<rparr>)
      | Inr None \<Rightarrow> snd (deliverTurn c owner (s\<lparr>ss_drained := rest\<rparr>))
      | Inr (Some call) \<Rightarrow> snd (deliverTurn c owner (s\<lparr>ss_drained := rest, ss_readyResponses := ss_readyResponses s @ [call]\<rparr>)))"
    using step by (auto simp: jobStep_def Let_def split: list.splits option.splits prod.splits sum.splits StreamStage.splits)
  note but = drained_ok [OF ok d m]
  have but': "senderInvBut c (s\<lparr>ss_drained := rest, ss_readyResponses := x\<rparr>)" for x using but by simp
  show ?thesis unfolding s'
    using enter_ok [OF but] deliverTurn_ok [OF but] deliverTurn_ok [OF but'] by (auto split: sum.split option.split)
next
  case (Delivers c)
  then obtain owner where m: "map_of (ss_running s) c = Some (owner, Delivering)"
    and s': "s' = snd (deliverTurn c owner s)"
    using step by (auto simp: jobStep_def split: option.splits prod.splits StreamStage.splits)
  show ?thesis unfolding s' by (rule deliverTurn_ok [OF aside [OF ok m]]) simp
next
  case (OnResponseEnds c r)
  then obtain owner where m: "map_of (ss_running s) c = Some (owner, InOnResponse)"
    and s': "s' = enterStage c owner Delivering s \<or> (\<exists>e. s' = enterStage c owner (DrainEnds (Inl e)) (rememberError e s))"
    using step by (auto simp: jobStep_def split: option.splits prod.splits StreamStage.splits sum.splits)
  have but: "senderInvBut c s" using aside [OF ok m] by simp
  show ?thesis using s' enter_ok [OF but] enter_ok [OF rememberError_but [OF but]] by auto
next
  case (Continues c)
  then obtain owner r where m: "map_of (ss_running s) c = Some (owner, DrainEnds r)"
    and s': "s' = snd (ownerTurn c owner s) \<or> (\<exists>e. s' = snd (ownerThrows c owner e s))"
    using step by (auto simp: jobStep_def split: option.splits prod.splits StreamStage.splits sum.splits)
      (metis snd_conv)
  have but: "senderInvBut c s" using aside [OF ok m] by simp
  show ?thesis using s' ownerTurn_ok [OF but] ownerThrows_ok [OF but] by auto
next
  case (CallSettled i r)
  then show ?thesis using step settleCall_ok [OF ok]
    by (auto simp: jobStep_def split: option.splits if_splits)
next
  case (AdmissionPasses c)
  then obtain owner where m: "map_of (ss_running s) c = Some (owner, AwaitsAdmission)"
    and s': "s' = snd (deliverTurn c AdmittedOwner s)"
    using step by (auto simp: jobStep_def split: option.splits prod.splits StreamStage.splits)
  show ?thesis unfolding s' by (rule deliverTurn_ok [OF aside [OF ok m]]) simp
qed (use step in \<open>simp_all add: jobStep_def\<close>)

lemma returnStep_ok:
  assumes ok: "senderInv s" and step: "returnStep event s = Some (actions, s')"
  shows "senderInv s'"
proof -
  obtain c stack where st: "ss_stack s = c # stack" using step by (auto simp: returnStep_def split: list.splits)
  obtain owner stage where m: "map_of (ss_running s) c = Some (owner, stage)"
    using step st by (cases "map_of (ss_running s) c"; cases event) (auto simp: returnStep_def)
  note ret = returned_ok [OF ok st m]
  have but: "senderInvBut c (s\<lparr>ss_stack := stack\<rparr>)" using ret [of "ss_inFlightCalls s"] by simp
  have drop: "senderInvBut c (dropCall call (notifyStateChange (s\<lparr>ss_stack := stack\<rparr>)))"
    if "stage = InCallFn (sc_index call)" for call
  proof -
    have "senderInvBut c (notifyStateChange (s\<lparr>ss_stack := stack, ss_inFlightCalls :=
        filter (\<lambda>other. sc_index other \<noteq> sc_index call) (ss_inFlightCalls s), ss_inFlightBytes := x\<rparr>))" for x
      by (rule notify_but) (use ret [OF disjI2, OF conjI, OF that refl] in simp)
    moreover have "dropCall call (notifyStateChange (s\<lparr>ss_stack := stack\<rparr>)) = notifyStateChange (s\<lparr>ss_stack := stack, ss_inFlightCalls :=
        filter (\<lambda>other. sc_index other \<noteq> sc_index call) (ss_inFlightCalls s), ss_inFlightBytes := ss_inFlightBytes s - sc_byteLength call\<rparr>)"
      by (simp add: dropCall_def notifyStateChange_def)
    ultimately show ?thesis by simp
  qed
  have call: "inFlightCall j s = Some call \<Longrightarrow> sc_index call = j" for j call
    by (auto simp: inFlightCall_def find_Some_iff)
  let ?s = "s\<lparr>ss_stack := stack\<rparr>"
  show ?thesis
  proof (cases event)
    case (CallFnReturns i)
    then have "s' = snd (finishCoroutine c (Inr ()) (notifyStateChange ?s)) \<or> s' = enterStage c owner AwaitsAdmission (notifyStateChange ?s)"
      using step st m by (auto simp: returnStep_def Let_def split: StreamStage.splits if_splits)
    then show ?thesis using finish_ok [OF notify_but [OF but]] enter_ok [OF notify_but [OF but]] by auto
  next
    case (CallFnThrows i e)
    then obtain call where "stage = InCallFn i" "inFlightCall i s = Some call"
      and s': "s' = snd (finishCoroutine c (Inl e) (notifyStateChange (rememberError e (dropCall call (notifyStateChange ?s)))))"
      using step st m by (auto simp: returnStep_def Let_def split: StreamStage.splits if_splits)
    then show ?thesis unfolding s' by (intro finish_ok notify_but rememberError_but drop) (simp add: call)
  next
    case (OnErrorEnds d r)
    then have "s' = enterStage c owner Delivering ?s \<or> (\<exists>e. s' = enterStage c owner (DrainEnds (Inl e)) (rememberError e ?s))"
      using step st m by (auto simp: returnStep_def Let_def split: StreamStage.splits if_splits sum.splits)
    then show ?thesis using enter_ok [OF but] enter_ok [OF rememberError_but [OF but]] by auto
  qed (use step st in \<open>simp_all add: returnStep_def\<close>)
qed

lemma startChecked_ok: "senderInvBut c s \<Longrightarrow> senderInv (snd (startChecked c owner n s))"
  using ownerTurn_ok [where s = s and c = c and owner = owner] by (auto simp: startChecked_def split: sum.split)

lemma streamStep_ok:
  assumes ok: "senderInv s" and step: "streamStep event s = Some (actions, s')"
  shows "senderInv s'"
proof -
  note new = newCoroutine_ok [OF ok]
  have cancel: "senderInv (snd (cancelStream reason s))" "ss_nextCoroutine (snd (cancelStream reason s)) = ss_nextCoroutine s" for reason
    using ok by (auto simp: cancelStream_def announced_ok)
  have cancelled: "senderInv (snd (ownerTurn (ss_nextCoroutine s) owner (newCoroutine (snd (cancelStream reason s)))))" for reason owner
    using ownerTurn_ok [OF newCoroutine_ok [OF cancel(1)]] cancel(2) by metis
  show ?thesis
  proof (cases event)
    case (Cancel reason)
    then show ?thesis using step cancelled [where reason = reason and owner = "CancelOwner None"]
      by (auto simp: streamStep_def Let_def split: prod.splits) (metis snd_apfst snd_conv)
  next
    case SignalAborts
    then show ?thesis using step ok by (auto simp: streamStep_def announced_ok split: if_splits)
  next
    case (WaitSignalAborts c e)
    then show ?thesis using step waitAborts_ok [OF ok]
      by (auto simp: streamStep_def split: option.splits prod.splits StreamOwner.splits)
  next
    case (Send params)
    have "s' = snd (startChecked (ss_nextCoroutine s) (SendOwner params) (jint (int (length params))) (newCoroutine s))"
      using step Send by (simp add: streamStep_def Let_def)
    then show ?thesis using startChecked_ok [OF new] by simp
  next
    case (WaitForCapacity byteLength aborted)
    let ?n = "capacityNeed s byteLength"
    have "s' = snd (startChecked (ss_nextCoroutine s) (CapacityOwner (toInt ?n) aborted) ?n (newCoroutine s))"
      using step WaitForCapacity by (simp add: streamStep_def Let_def)
    then show ?thesis using startChecked_ok [OF new] by simp
  next
    case Flush
    have "s' = snd (ownerTurn (ss_nextCoroutine s) (FlushOwner None) (newCoroutine s))"
      using step Flush by (simp add: streamStep_def Let_def del: ownerTurn.simps)
    then show ?thesis by (simp only: ownerTurn_ok [OF new])
  qed (use step jobStep_ok [OF ok] returnStep_ok [OF ok] in \<open>auto simp: streamStep_def Let_def split: if_splits\<close>)
qed

lemma streamRun_ok: "streamRun options events actions s \<Longrightarrow> senderInv s"
proof (induction rule: streamRun.induct)
  case (created s)
  then have "ss_running s = []" "ss_drainLock s = []" "ss_drained s = []" "ss_stack s = []" "indices s = []"
    by (auto simp: createStreamSender_def Let_def indices_def split: if_splits)
  then show ?case by (simp add: senderOk_def sender_defs inStage_def)
qed (rule streamStep_ok)


section \<open>Quiescence\<close>

text \<open>A coroutine of each stage has a continuation that can run, unless something else has to happen first.\<close>

lemma stage_ready:
  assumes m: "map_of (ss_running s) c = Some (owner, stage)" and st: "ss_stack s = []"
  shows "stage = LockWait \<Longrightarrow> ss_drainLock s = c # rest \<Longrightarrow> streamStep (LockGranted c) s \<noteq> None"
    and "stage = LeavesLock \<Longrightarrow> streamStep (Releases c) s \<noteq> None"
    and "stage = LeftLock \<Longrightarrow> ss_drained s = (c, r) # waiting \<Longrightarrow> streamStep Drains s \<noteq> None"
    and "stage = Delivering \<Longrightarrow> streamStep (Delivers c) s \<noteq> None"
    and "stage = DrainEnds result \<Longrightarrow> streamStep (Continues c) s \<noteq> None"
    and "stage = AwaitsAdmission \<Longrightarrow> streamStep (AdmissionPasses c) s \<noteq> None"
  using m st by (auto simp: streamStep_def jobStep_def Let_def split: sum.split)

lemma head_ready:
  assumes ok: "senderInv s" and m: "map_of (ss_running s) c = Some (owner, HeadWait i w)" and st: "ss_stack s = []"
    and w: "w \<noteq> Sleeping"
  shows "streamStep (Wakes c) s \<noteq> None"
proof -
  have h: "headOk owner i w s" using ok m by (simp add: senderOk_def headsOk_def)
  then have "inFlightCall i s = Some (hd (ss_inFlightCalls s))" by (simp add: headOk_def find_head)
  then show ?thesis using h m st w by (cases w) (auto simp: headOk_def streamStep_def jobStep_def)
qed

lemma quiescent:
  assumes ok: "senderInv s" and st: "ss_stack s = []"
    and none: "\<And>d. streamStep (LockGranted d) s = None \<and> streamStep (Wakes d) s = None \<and> streamStep (Releases d) s = None \<and>
      streamStep (Delivers d) s = None \<and> streamStep (Continues d) s = None \<and> streamStep (AdmissionPasses d) s = None \<and>
      streamStep Drains s = None"
    and m: "map_of (ss_running s) c = Some (owner, stage)"
  shows "stage = InOnResponse \<or>
    (\<exists>oldest rest holder queue howner. ss_inFlightCalls s = oldest # rest \<and> sc_settled oldest = None \<and>
       ss_drainLock s = holder # queue \<and>
       map_of (ss_running s) holder = Some (howner, HeadWait (sc_index oldest) Sleeping) \<and>
       waitAborted howner = None \<and> (allowClosed howner \<or> checkOpen s = Inr ()) \<and>
       (c = holder \<or> c \<in> set queue \<and> stage = LockWait))"
proof -
  have L: "lockOk (map_of (ss_running s)) s" and D: "drainOk (map_of (ss_running s)) s" and S: "stackOk (map_of (ss_running s)) s"
    using ok by (simp_all add: senderOk_def)
  have no_leave: "map_of (ss_running s) d \<noteq> Some (o', LeavesLock)" for d o'
    using stage_ready(2) [of s d o' LeavesLock] st none [of d] by auto
  have no_left: "map_of (ss_running s) d \<noteq> Some (o', LeftLock)" for d o'
  proof
    assume "map_of (ss_running s) d = Some (o', LeftLock)"
    then have "d \<in> fst ` set (ss_drained s)" using D by (simp add: drainOk_def inStage_def)
    then obtain e r waiting where dr: "ss_drained s = (e, r) # waiting" by (cases "ss_drained s") auto
    then have "inStage drainStage (map_of (ss_running s)) e" using D unfolding drainOk_def by force
    then obtain o'' stage' where "map_of (ss_running s) e = Some (o'', stage')" "drainStage stage'"
      by (auto simp: inStage_def split: option.splits)
    then have "map_of (ss_running s) e = Some (o'', LeftLock)" using no_leave by (cases stage') auto
    from stage_ready(3) [OF this st refl dr] show False using none by simp
  qed
  show ?thesis
  proof (cases "lockStage stage")
    case True
    then have c: "c \<in> set (ss_drainLock s)" using L m by (simp add: lockOk_def inStage_def)
    then obtain holder queue where l: "ss_drainLock s = holder # queue" by (cases "ss_drainLock s") auto
    then have "inStage lockStage (map_of (ss_running s)) holder" using L unfolding lockOk_def by (metis list.set_intros(1))
    then obtain howner hstage where h: "map_of (ss_running s) holder = Some (howner, hstage)" "lockStage hstage"
      by (auto simp: inStage_def split: option.splits)
    obtain i w where hw: "hstage = HeadWait i w"
      using h no_leave stage_ready(1) [OF h(1) st _ l] none [of holder] by (cases hstage) auto
    have w: "w = Sleeping" using head_ready [OF ok _ st, of holder howner i w] h(1) hw none by auto
    have "headOk howner i w s" using ok h(1) hw by (simp add: senderOk_def headsOk_def)
    then obtain oldest rest where f: "ss_inFlightCalls s = oldest # rest" "sc_index oldest = i" "sc_settled oldest = None"
      "waitAborted howner = None" "allowClosed howner \<or> checkOpen s = Inr ()"
      using w by (cases "ss_inFlightCalls s") (auto simp: headOk_def)
    have "c = holder \<or> c \<in> set queue \<and> stage = LockWait"
    proof (cases "c = holder")
      case False
      then have "c \<in> set queue" using c l by simp
      moreover from this have "inStage ((=) LockWait) (map_of (ss_running s)) c" using L l by (simp add: lockOk_def)
      ultimately show ?thesis using m by (simp add: inStage_def)
    qed simp
    then show ?thesis using f l h(1) hw w by blast
  next
    case False
    have "\<not> inStage callStage (map_of (ss_running s)) c" using S st by (simp add: stackOk_def)
    then have "\<not> callStage stage" using m by (simp add: inStage_def)
    then show ?thesis
      using False no_left [of c owner] m none [of c] stage_ready(4-6) [OF m st]
      by (cases stage) auto
  qed
qed

end
