(* ===== verification/Stream_Window.thy ===== *)
theory Stream_Window
  imports Stream_Sender_State
begin

text \<open>
  What the stream sender promises, as a window of calls and nothing else: calls enter a bounded window
  in order, settle in any order, leave the window in order and are delivered in order. The events of
  \<open>Stream_Sender\<close> refine the moves of the window.
\<close>

section \<open>The window\<close>

record 'r StreamWindow =
  sw_inFlight :: "'r StreamCall list"
  sw_received :: "'r StreamCall list"
  sw_next :: nat
  sw_total :: nat

record StreamConfig =
  sf_maxInFlight :: int
  sf_maxInFlightBytes :: "int option"
  sf_onResponse :: bool
  sf_onError :: bool

definition callBytes :: "'r StreamCall list \<Rightarrow> int" where
  "callBytes calls = sum_list (map sc_byteLength calls)"

definition windowAdmits :: "StreamConfig \<Rightarrow> 'r StreamCall list \<Rightarrow> int \<Rightarrow> bool" where
  "windowAdmits cfg calls n \<longleftrightarrow> int (length calls) < sf_maxInFlight cfg \<and>
     (case sf_maxInFlightBytes cfg of None \<Rightarrow> True | Some limit \<Rightarrow> callBytes calls + n \<le> limit)"

text \<open>The callback for a settled call, with what it is told.\<close>

definition callbackFor :: "StreamConfig \<Rightarrow> nat \<Rightarrow> 'r result option \<Rightarrow> (nat \<times> 'r result) list" where
  "callbackFor cfg i settled =
     (case settled of
        None \<Rightarrow> []
      | Some (Inr v) \<Rightarrow> if sf_onResponse cfg then [(i, Inr v)] else []
      | Some (Inl e) \<Rightarrow> if sf_onError cfg then [(i, Inl e)] else [])"

fun settling :: "'r stream_event \<Rightarrow> bool" where
  "settling (CallSettled i r) = True"
| "settling (CallFnThrows i e) = True"
| "settling _ = False"

text \<open>A move with the callbacks it makes and the calls it makes.\<close>

inductive windowMove ::
    "StreamConfig \<Rightarrow> 'r stream_event \<Rightarrow> 'r StreamWindow \<Rightarrow> (nat \<times> 'r result) list \<Rightarrow> nat list \<Rightarrow> 'r StreamWindow \<Rightarrow> bool"
  for cfg where
  quiet: "\<not> settling event \<Longrightarrow> windowMove cfg event w [] [] w"
| admit: "\<not> settling event \<Longrightarrow> windowAdmits cfg (sw_inFlight w) n \<Longrightarrow> 0 \<le> n \<Longrightarrow>
    windowMove cfg event w [] [sw_next w]
      (w\<lparr>sw_inFlight := sw_inFlight w @ [\<lparr>sc_index = sw_next w, sc_byteLength = n, sc_settled = None\<rparr>],
         sw_next := sw_next w + 1\<rparr>)"
| settle: "call \<in> set (sw_inFlight w) \<Longrightarrow> sc_index call = i \<Longrightarrow> sc_settled call = None \<Longrightarrow>
    windowMove cfg (CallSettled i r) w [] []
      (w\<lparr>sw_inFlight := map (\<lambda>call. if sc_index call = i then call\<lparr>sc_settled := Some r\<rparr> else call) (sw_inFlight w)\<rparr>)"
| drop: "call \<in> set (sw_inFlight w) \<Longrightarrow> sc_index call = i \<Longrightarrow>
    windowMove cfg (CallFnThrows i e) w [] []
      (w\<lparr>sw_inFlight := filter (\<lambda>call. sc_index call \<noteq> i) (sw_inFlight w)\<rparr>)"
| take: "\<not> settling event \<Longrightarrow> sw_inFlight w = call # rest \<Longrightarrow> sc_settled call \<noteq> None \<Longrightarrow>
    windowMove cfg event w [] []
      (w\<lparr>sw_inFlight := rest, sw_received := sw_received w @ [call], sw_total := sw_total w + 1\<rparr>)"
| deliver: "\<not> settling event \<Longrightarrow> sw_received w = call # rest \<Longrightarrow>
    windowMove cfg event w (callbackFor cfg (sc_index call) (sc_settled call)) [] (w\<lparr>sw_received := rest\<rparr>)"

inductive windowRun ::
    "StreamConfig \<Rightarrow> 'r stream_event list \<Rightarrow> (nat \<times> 'r result) list \<Rightarrow> nat list \<Rightarrow> 'r StreamWindow \<Rightarrow> bool"
  for cfg where
  empty: "windowRun cfg [] [] [] \<lparr>sw_inFlight = [], sw_received = [], sw_next = 0, sw_total = 0\<rparr>"
| move: "windowRun cfg events told made w \<Longrightarrow> windowMove cfg event w told' made' w' \<Longrightarrow>
    windowRun cfg (event # events) (told @ told') (made @ made') w'"

section \<open>Bounds of the window\<close>

definition withinWindow :: "StreamConfig \<Rightarrow> 'r StreamWindow \<Rightarrow> bool" where
  "withinWindow cfg w \<longleftrightarrow> int (length (sw_inFlight w)) \<le> sf_maxInFlight cfg \<and>
     (\<forall>call\<in>set (sw_inFlight w). 0 \<le> sc_byteLength call) \<and>
     (\<forall>limit. sf_maxInFlightBytes cfg = Some limit \<longrightarrow> callBytes (sw_inFlight w) \<le> limit)"

lemma callBytes_simps [simp]:
  "callBytes [] = 0" "callBytes (call # calls) = sc_byteLength call + callBytes calls"
  "callBytes (xs @ ys) = callBytes xs + callBytes ys"
  by (simp_all add: callBytes_def)

lemma callBytes_settle [simp]:
  "callBytes (map (\<lambda>call. if sc_index call = i then call\<lparr>sc_settled := r\<rparr> else call) calls) = callBytes calls"
  by (induction calls) auto

lemma callBytes_filter: "\<forall>call\<in>set calls. 0 \<le> sc_byteLength call \<Longrightarrow> callBytes (filter P calls) \<le> callBytes calls"
  by (induction calls) auto

lemma windowMove_within: "windowMove cfg event w told made w' \<Longrightarrow> withinWindow cfg w \<Longrightarrow> withinWindow cfg w'"
proof (induction rule: windowMove.induct)
  case (drop call w i e)
  then have "int (length (filter (\<lambda>call. sc_index call \<noteq> i) (sw_inFlight w))) \<le> sf_maxInFlight cfg"
    using length_filter_le [of "\<lambda>call. sc_index call \<noteq> i" "sw_inFlight w"] by (simp add: withinWindow_def del: length_filter_le)
  moreover have "callBytes (filter (\<lambda>call. sc_index call \<noteq> i) (sw_inFlight w)) \<le> callBytes (sw_inFlight w)"
    using drop callBytes_filter by (auto simp: withinWindow_def)
  ultimately show ?case using drop by (auto simp: withinWindow_def intro: order_trans)
qed (fastforce simp: withinWindow_def windowAdmits_def split: option.splits)+

section \<open>Order of the calls\<close>

definition settlement :: "'r stream_event list \<Rightarrow> nat \<Rightarrow> 'r result option" where
  "settlement events i = map_of (concat (map (\<lambda>event. case event of CallSettled i r \<Rightarrow> [(i, r)] | _ \<Rightarrow> []) events)) i"

definition thrown :: "'r stream_event list \<Rightarrow> nat \<Rightarrow> bool" where
  "thrown events i \<longleftrightarrow> list_ex (\<lambda>event. case event of CallFnThrows j e \<Rightarrow> j = i | _ \<Rightarrow> False) events"

text \<open>The calls that were made and whose call function returned, or still runs.\<close>

definition accepted :: "'r stream_event list \<Rightarrow> nat \<Rightarrow> nat list" where
  "accepted events n = filter (\<lambda>i. \<not> thrown events i) [0..<n]"

lemma history_simps [simp]:
  "settlement [] i = None" "\<not> thrown [] i"
  "settlement (CallSettled j r # events) i = (if i = j then Some r else settlement events i)"
  "settlement (CallFnThrows j e # events) i = settlement events i"
  "thrown (CallFnThrows j e # events) i \<longleftrightarrow> j = i \<or> thrown events i"
  "thrown (CallSettled j r # events) i \<longleftrightarrow> thrown events i"
  "\<not> settling event \<Longrightarrow> settlement (event # events) i = settlement events i"
  "\<not> settling event \<Longrightarrow> thrown (event # events) i = thrown events i"
  by (simp_all add: settlement_def thrown_def) (cases event; simp)+

text \<open>Where the accepted calls are: delivered, received, in the window, in the order of their indices.\<close>

definition accounts ::
    "StreamConfig \<Rightarrow> 'r stream_event list \<Rightarrow> (nat \<times> 'r result) list \<Rightarrow> nat list \<Rightarrow> 'r StreamWindow \<Rightarrow> nat list \<Rightarrow> bool" where
  "accounts cfg events told made w delivered \<longleftrightarrow>
     delivered @ map sc_index (sw_received w @ sw_inFlight w) = accepted events (sw_next w) \<and>
     told = concat (map (\<lambda>i. callbackFor cfg i (settlement events i)) delivered) \<and>
     made = [0..<sw_next w] \<and>
     sw_total w = length delivered + length (sw_received w) \<and>
     (\<forall>call\<in>set (sw_received w @ sw_inFlight w). sc_settled call = settlement events (sc_index call)) \<and>
     (\<forall>call\<in>set (sw_received w). sc_settled call \<noteq> None) \<and>
     (\<forall>i. settlement events i \<noteq> None \<or> thrown events i \<longrightarrow> i < sw_next w)"

lemma accepted_distinct [simp]: "distinct (accepted events n)"
  by (simp add: accepted_def)


lemma accepted_quiet [simp]: "\<not> settling event \<Longrightarrow> accepted (event # events) n = accepted events n"
  by (simp add: accepted_def)

lemma accepted_settled [simp]: "accepted (CallSettled i r # events) n = accepted events n"
  by (simp add: accepted_def)

lemma accepted_thrown: "accepted (CallFnThrows i e # events) n = filter (\<lambda>j. j \<noteq> i) (accepted events n)"
  by (auto simp: accepted_def intro: filter_cong)

lemma accounts_quiet: "\<not> settling event \<Longrightarrow> accounts cfg (event # events) told made w ds = accounts cfg events told made w ds"
  by (simp add: accounts_def)

lemma accounts_distinct:
  assumes "accounts cfg events told made w ds"
  shows "distinct (ds @ map sc_index (sw_received w @ sw_inFlight w))"
proof -
  have "ds @ map sc_index (sw_received w @ sw_inFlight w) = accepted events (sw_next w)"
    using assms by (simp add: accounts_def)
  then show ?thesis by (simp only: accepted_distinct)
qed

lemma accounts_settle:
  assumes a: "accounts cfg events told made w ds" and c: "call \<in> set (sw_inFlight w)"
  shows "accounts cfg (CallSettled (sc_index call) r # events) told made
    (w\<lparr>sw_inFlight := map (\<lambda>c. if sc_index c = sc_index call then c\<lparr>sc_settled := Some r\<rparr> else c) (sw_inFlight w)\<rparr>) ds"
    (is "accounts cfg ?events told made (w\<lparr>sw_inFlight := map ?f _\<rparr>) ds")
proof -
  let ?i = "sc_index call"
  have "?i \<in> sc_index ` set (sw_inFlight w)" using c by simp
  then have i: "?i \<notin> set ds" "?i \<notin> sc_index ` set (sw_received w)"
    using accounts_distinct [OF a] by (auto simp: distinct_append)
  have f: "map sc_index (map ?f (sw_inFlight w)) = map sc_index (sw_inFlight w)" by simp
  have eq: "ds @ map sc_index (sw_received w @ sw_inFlight w) = accepted events (sw_next w)"
    using a by (simp add: accounts_def)
  have acc: "?i \<in> set (accepted events (sw_next w))" using c unfolding eq [symmetric] by auto
  have told: "map (\<lambda>i. callbackFor cfg i (settlement ?events i)) ds = map (\<lambda>i. callbackFor cfg i (settlement events i)) ds"
    using i by auto
  have "\<forall>c\<in>set (sw_received w). sc_index c \<noteq> ?i" using i(2) by (auto simp: image_iff)
  moreover have "\<forall>c\<in>set (sw_received w @ sw_inFlight w). sc_settled c = settlement events (sc_index c)"
    using a by (simp add: accounts_def)
  ultimately have settled: "\<forall>c\<in>set (sw_received w @ map ?f (sw_inFlight w)). sc_settled c = settlement ?events (sc_index c)"
    by auto
  have f': "ds @ map sc_index (sw_received w @ map ?f (sw_inFlight w)) = accepted ?events (sw_next w)"
    using eq f by (simp only: map_append accepted_settled)
  have rest: "made = [0..<sw_next w]" "sw_total w = length ds + length (sw_received w)"
    "told = concat (map (\<lambda>i. callbackFor cfg i (settlement events i)) ds)"
    "\<forall>call\<in>set (sw_received w). sc_settled call \<noteq> None"
    "\<forall>j. settlement events j \<noteq> None \<or> thrown events j \<longrightarrow> j < sw_next w"
    using a unfolding accounts_def by blast+
  have "?i < sw_next w" using acc by (simp add: accepted_def)
  then have "\<forall>j. settlement ?events j \<noteq> None \<or> thrown ?events j \<longrightarrow> j < sw_next w" using rest(5) by simp
  note less = this
  show ?thesis unfolding accounts_def told
  proof (intro conjI, goal_cases)
    case 1 show ?case using f' by simp
    case 2 show ?case by (rule rest(3))
    case 3 show ?case using rest(1) by simp
    case 4 show ?case using rest(2) by simp
    case 5
    have "sw_received (w\<lparr>sw_inFlight := x\<rparr>) @ sw_inFlight (w\<lparr>sw_inFlight := x\<rparr>) = sw_received w @ x" for x by simp
    then show ?case using settled by (simp only:)
    case 6 show ?case using rest(4) by simp
    case 7 show ?case using less by simp
  qed
qed

lemma accounts_throw:
  assumes a: "accounts cfg events told made w ds" and c: "call \<in> set (sw_inFlight w)"
  shows "accounts cfg (CallFnThrows (sc_index call) e # events) told made
    (w\<lparr>sw_inFlight := filter (\<lambda>c. sc_index c \<noteq> sc_index call) (sw_inFlight w)\<rparr>) ds"
proof -
  let ?i = "sc_index call"
  have "?i \<in> sc_index ` set (sw_inFlight w)" using c by simp
  then have i: "?i \<notin> set ds" "?i \<notin> sc_index ` set (sw_received w)"
    using accounts_distinct [OF a] by (auto simp: distinct_append)
  have eq: "ds @ map sc_index (sw_received w @ sw_inFlight w) = accepted events (sw_next w)"
    using a by (simp add: accounts_def)
  have acc: "?i \<in> set (accepted events (sw_next w))" using c unfolding eq [symmetric] by auto
  have "filter (\<lambda>j. j \<noteq> ?i) ds = ds" "filter (\<lambda>j. j \<noteq> ?i) (map sc_index (sw_received w)) = map sc_index (sw_received w)"
    using i by (auto simp: filter_id_conv image_iff)
  then have "ds @ map sc_index (sw_received w @ filter (\<lambda>c. sc_index c \<noteq> ?i) (sw_inFlight w)) =
      accepted (CallFnThrows ?i e # events) (sw_next w)"
    unfolding accepted_thrown eq [symmetric] by (simp add: filter_map o_def)
  then show ?thesis using a acc unfolding accounts_def by (auto simp: accepted_def)
qed

lemma windowRun_accounts: "windowRun cfg events told made w \<Longrightarrow> \<exists>ds. accounts cfg events told made w ds"
proof (induction rule: windowRun.induct)
  case empty
  show ?case by (rule exI [of _ "[]"]) (simp add: accounts_def accepted_def)
next
  case (move events told made w event told' made' w')
  then obtain ds where a: "accounts cfg events told made w ds" by blast
  from move(2) show ?case
  proof cases
    case quiet
    then show ?thesis using a by (auto simp: accounts_quiet)
  next
    case (admit n)
    have "settlement events (sw_next w) = None" "\<not> thrown events (sw_next w)"
      using a unfolding accounts_def by (metis less_irrefl)+
    then have "accounts cfg events told (made @ made') w' ds"
      using a admit by (auto simp: accounts_def accepted_def)
    then show ?thesis using admit by (auto simp: accounts_quiet)
  next
    case (settle call i r)
    then show ?thesis using accounts_settle [OF a, of call] by auto
  next
    case (drop call i e)
    then show ?thesis using accounts_throw [OF a, of call] by auto
  next
    case (take call rest)
    then have "accounts cfg events told made w' ds" using a by (auto simp: accounts_def)
    then show ?thesis using take by (auto simp: accounts_quiet)
  next
    case (deliver call rest)
    then have "accounts cfg events (told @ told') made w' (ds @ [sc_index call])"
      using a by (auto simp: accounts_def)
    then show ?thesis using deliver by (auto simp: accounts_quiet)
  qed
qed

lemma windowRun_within:
  assumes "windowRun cfg events told made w" "0 \<le> sf_maxInFlight cfg"
    and "\<And>limit. sf_maxInFlightBytes cfg = Some limit \<Longrightarrow> 0 \<le> limit"
  shows "withinWindow cfg w"
  using assms(1)
proof (induction rule: windowRun.induct)
  case empty
  then show ?case using assms(2,3) by (simp add: withinWindow_def)
qed (rule windowMove_within)


section \<open>The sender refines the window\<close>

definition drainedCalls :: "(nat \<times> 'r StreamCall option result) list \<Rightarrow> 'r StreamCall list" where
  "drainedCalls drained = concat (map (\<lambda>(c, r). case r of Inr (Some call) \<Rightarrow> [call] | _ \<Rightarrow> []) drained)"

definition windowOf :: "'r StreamSender \<Rightarrow> 'r StreamWindow" where
  "windowOf s = \<lparr>sw_inFlight = ss_inFlightCalls s, sw_received = ss_readyResponses s @ drainedCalls (ss_drained s),
     sw_next = ss_nextIndex s, sw_total = ss_totalReceived s\<rparr>"

definition configOf :: "'r StreamSender \<Rightarrow> StreamConfig" where
  "configOf s = \<lparr>sf_maxInFlight = ss_maxInFlight s, sf_maxInFlightBytes = ss_maxInFlightBytes s,
     sf_onResponse = ss_onResponse s, sf_onError = ss_onError s\<rparr>"

definition windowBytesOk :: "'r StreamSender \<Rightarrow> bool" where
  "windowBytesOk s \<longleftrightarrow> ss_inFlightBytes s = callBytes (ss_inFlightCalls s)"

definition callbacks :: "'r stream_action list \<Rightarrow> (nat \<times> 'r result) list" where
  "callbacks actions = concat (map (\<lambda>action. case action of
     OnResponse i v \<Rightarrow> [(i, Inr v)] | OnError i e \<Rightarrow> [(i, Inl e)] | _ \<Rightarrow> []) actions)"

definition callsMade :: "'r stream_action list \<Rightarrow> nat list" where
  "callsMade actions = concat (map (\<lambda>action. case action of CallFn i params \<Rightarrow> [i] | _ \<Rightarrow> []) actions)"

lemma trace_simps [simp]:
  "callbacks [] = []" "callbacks (xs @ ys) = callbacks xs @ callbacks ys"
  "callbacks (OnResponse i v # xs) = (i, Inr v) # callbacks xs" "callbacks (OnError i e # xs) = (i, Inl e) # callbacks xs"
  "callbacks (CallFn i p # xs) = callbacks xs" "callbacks (AbortCall i # xs) = callbacks xs"
  "callbacks (Finished c r # xs) = callbacks xs"
  "callsMade [] = []" "callsMade (xs @ ys) = callsMade xs @ callsMade ys"
  "callsMade (OnResponse i v # xs) = callsMade xs" "callsMade (OnError i e # xs) = callsMade xs"
  "callsMade (CallFn i p # xs) = i # callsMade xs" "callsMade (AbortCall i # xs) = callsMade xs"
  "callsMade (Finished c r # xs) = callsMade xs"
  by (simp_all add: callbacks_def callsMade_def)

lemma aborts_silent [simp]: "callbacks (abortCalls s) = []" "callsMade (abortCalls s) = []"
  by (simp_all add: callbacks_def callsMade_def abortCalls_def o_def)

definition view :: "'r StreamSender \<Rightarrow> 'r StreamWindow \<times> StreamConfig \<times> int" where
  "view s = (windowOf s, configOf s, ss_inFlightBytes s)"

lemma view_fields [simp]:
  "view (s\<lparr>ss_running := r\<rparr>) = view s" "view (s\<lparr>ss_drainLock := l\<rparr>) = view s" "view (s\<lparr>ss_stack := st\<rparr>) = view s"
  "view (s\<lparr>ss_firstError := e\<rparr>) = view s" "view (s\<lparr>ss_canceled := cd\<rparr>) = view s"
  "view (s\<lparr>ss_signalAborted := b\<rparr>) = view s" "view (s\<lparr>ss_nextCoroutine := k\<rparr>) = view s"
  by (simp_all add: view_def windowOf_def configOf_def)

lemma view_steps [simp]:
  "view (enterStage c owner stage s) = view s" "view (snd (finishCoroutine c r s)) = view s"
  "view (notifyStateChange s) = view s" "view (rememberError e s) = view s" "view (queueForLock c owner s) = view s"
  "view (newCoroutine s) = view s"
  by (simp_all add: enterStage_def finishCoroutine_def notifyStateChange_def rememberError_def queueForLock_def newCoroutine_def)

definition refines :: "'r StreamSender \<Rightarrow> 'r stream_event \<Rightarrow> 'r stream_action list \<Rightarrow> 'r StreamSender \<Rightarrow> bool" where
  "refines s event actions s' \<longleftrightarrow> (windowBytesOk s \<longrightarrow> windowBytesOk s' \<and> configOf s' = configOf s \<and>
     windowMove (configOf s) event (windowOf s) (callbacks actions) (callsMade actions) (windowOf s'))"

lemma bytesOk_view: "windowBytesOk s \<longleftrightarrow> (case view s of (w, cfg, n) \<Rightarrow> n = callBytes (sw_inFlight w))"
  by (simp add: windowBytesOk_def view_def windowOf_def)

lemma refines_view:
  "view s = view t \<Longrightarrow> view s' = view t' \<Longrightarrow> callbacks actions = callbacks actions' \<Longrightarrow>
    callsMade actions = callsMade actions' \<Longrightarrow> refines t event actions' t' \<Longrightarrow> refines s event actions s'"
  by (auto simp: refines_def bytesOk_view view_def)

lemma refines_quiet:
  "\<not> settling event \<Longrightarrow> view s' = view s \<Longrightarrow> callbacks actions = [] \<Longrightarrow> callsMade actions = [] \<Longrightarrow>
    refines s event actions s'"
  by (auto simp: refines_def bytesOk_view view_def intro: quiet)

lemma finish_refines: "\<not> settling event \<Longrightarrow> refines s event (fst (finishCoroutine c r s)) (snd (finishCoroutine c r s))"
  by (rule refines_quiet) (simp_all, simp_all add: finishCoroutine_def)

lemma deliverTurn_refines:
  assumes "\<not> settling event"
  shows "refines s event (fst (deliverTurn c owner s)) (snd (deliverTurn c owner s))"
proof (cases "ss_readyResponses s")
  case Nil
  then show ?thesis by (intro refines_quiet assms) (simp_all add: deliverTurn_def)
next
  case (Cons call rest)
  let ?s = "s\<lparr>ss_readyResponses := rest\<rparr>"
  have w: "windowOf ?s = windowOf s\<lparr>sw_received := rest @ drainedCalls (ss_drained s)\<rparr>" by (simp add: windowOf_def)
  have "windowMove (configOf s) event (windowOf s) (callbackFor (configOf s) (sc_index call) (sc_settled call)) [] (windowOf ?s)"
    unfolding w by (rule deliver [OF assms]) (simp add: windowOf_def Cons)
  then have "refines s event actions ?s"
    if "callbacks actions = callbackFor (configOf s) (sc_index call) (sc_settled call)" "callsMade actions = []" for actions
    using that by (simp add: refines_def windowBytesOk_def configOf_def)
  then have *: "refines s event actions s'"
    if "view s' = view ?s" "callbacks actions = callbackFor (configOf s) (sc_index call) (sc_settled call)" "callsMade actions = []"
    for actions s' using that refines_view [OF refl that(1) refl refl] by simp
  show ?thesis
    by (rule *) (auto simp: deliverTurn_def Let_def Cons callbackFor_def configOf_def split: option.split sum.split)
qed

lemma admitCall_refines:
  assumes "\<not> settling event" "\<not> windowFull s (int (length params))"
  shows "refines s event (fst (admitCall c params s)) (snd (admitCall c params s))"
proof -
  let ?n = "int (length params)"
  let ?t = "s\<lparr>ss_nextIndex := ss_nextIndex s + 1,
     ss_inFlightCalls := ss_inFlightCalls s @ [\<lparr>sc_index = ss_nextIndex s, sc_byteLength = ?n, sc_settled = None\<rparr>],
     ss_inFlightBytes := ss_inFlightBytes s + ?n\<rparr>"
  have "refines s event [CallFn (ss_nextIndex s) params] ?t"
    unfolding refines_def
  proof (intro impI conjI)
    assume b: "windowBytesOk s"
    then show "windowBytesOk ?t" by (simp add: windowBytesOk_def)
    show "configOf ?t = configOf s" by (simp add: configOf_def)
    have a: "windowAdmits (configOf s) (sw_inFlight (windowOf s)) ?n"
      using assms(2) b by (auto simp: windowAdmits_def windowFull_def hasByteCapacity_def configOf_def windowOf_def windowBytesOk_def split: option.splits)
    have w: "windowOf ?t = windowOf s\<lparr>sw_inFlight := sw_inFlight (windowOf s) @ [\<lparr>sc_index = sw_next (windowOf s), sc_byteLength = ?n, sc_settled = None\<rparr>],
        sw_next := sw_next (windowOf s) + 1\<rparr>" by (simp add: windowOf_def)
    show "windowMove (configOf s) event (windowOf s) (callbacks [CallFn (ss_nextIndex s) params]) (callsMade [CallFn (ss_nextIndex s) params]) (windowOf ?t)"
      unfolding w using admit [OF assms(1) a] by (simp add: windowOf_def)
  qed
  then show ?thesis
    by (rule refines_view [rotated 4]) (simp_all add: admitCall_def Let_def, simp add: view_def windowOf_def configOf_def)
qed

lemma ownerTurn_refines:
  assumes "\<not> settling event"
  shows "refines s event (fst (ownerTurn c owner s)) (snd (ownerTurn c owner s))"
proof -
  note * = finish_refines [OF assms] deliverTurn_refines [OF assms] admitCall_refines [OF assms] 
  have q: "refines s event [] (queueForLock c owner s)" by (rule refines_quiet [OF assms]) simp_all
  show ?thesis using q by (cases owner) (auto simp: * split: sum.split)
qed


lemma ownerThrows_refines:
  assumes "\<not> settling event"
  shows "refines s event (fst (ownerThrows c owner e s)) (snd (ownerThrows c owner e s))"
  by (cases owner) (simp_all add: finish_refines [OF assms] ownerTurn_refines [OF assms] del: ownerTurn.simps)

lemma startChecked_refines:
  assumes "\<not> settling event"
  shows "refines s event (fst (startChecked c owner n s)) (snd (startChecked c owner n s))"
  using ownerTurn_refines [OF assms] finish_refines [OF assms]
  by (simp add: startChecked_def split: sum.split)

lemma callBytes_without:
  "distinct (map sc_index calls) \<Longrightarrow> call \<in> set calls \<Longrightarrow>
    callBytes (filter (\<lambda>other. sc_index other \<noteq> sc_index call) calls) = callBytes calls - sc_byteLength call"
proof (induction calls)
  case (Cons first calls)
  show ?case
  proof (cases "call = first")
    case True
    then have "filter (\<lambda>other. sc_index other \<noteq> sc_index call) calls = calls"
      using Cons.prems by (auto simp: filter_id_conv image_iff)
    then show ?thesis using True by simp
  qed (use Cons in auto)
qed simp

lemma dropCall_bytes:
  "windowBytesOk s \<Longrightarrow> distinct (indices s) \<Longrightarrow> call \<in> set (ss_inFlightCalls s) \<Longrightarrow> windowBytesOk (dropCall call s)"
  by (simp add: windowBytesOk_def dropCall_def indices_def callBytes_without)

lemma indices_distinct: "senderOk m s \<Longrightarrow> distinct (indices s)"
  by (simp add: senderOk_def callsOk_def strict_sorted_iff)

lemma drainedCalls_simps [simp]:
  "drainedCalls [] = []" "drainedCalls (xs @ ys) = drainedCalls xs @ drainedCalls ys"
  "drainedCalls ((c, Inr (Some call)) # ds) = call # drainedCalls ds"
  "drainedCalls ((c, Inr None) # ds) = drainedCalls ds" "drainedCalls ((c, Inl e) # ds) = drainedCalls ds"
  by (simp_all add: drainedCalls_def)

lemma leaveLock_refines:
  assumes "\<not> settling event" "\<And>call. r \<noteq> Inr (Some call)"
  shows "refines s event [] (leaveLock c owner r s)"
proof -
  have "drainedCalls [(c, r)] = []"
  proof (cases r)
    case (Inr taken)
    then show ?thesis using assms(2) by (cases taken) simp_all
  qed simp
  then have "view (s\<lparr>ss_drained := ss_drained s @ [(c, r)]\<rparr>) = view s" by (simp add: view_def windowOf_def configOf_def)
  then have "view (leaveLock c owner r s) = view s" by (simp add: leaveLock_def)
  then show ?thesis by (intro refines_quiet assms(1)) simp_all
qed

lemma headTurn_refines:
  assumes e: "\<not> settling event" and ok: "distinct (indices s)" and h: "ss_inFlightCalls s = oldest # rest"
  shows "refines s event [] (headTurn c owner oldest s)"
proof (cases "sc_settled oldest")
  case None
  have "refines s event [] (enterStage c owner stage s)" for stage by (rule refines_quiet [OF e]) simp_all
  then show ?thesis using leaveLock_refines [OF e] None
    by (auto simp: headTurn_def split: sum.split)
next
  case (Some r)
  let ?t = "notifyStateChange (dropCall oldest (s\<lparr>ss_totalReceived := ss_totalReceived s + 1\<rparr>))"
  have rest: "filter (\<lambda>other. sc_index other \<noteq> sc_index oldest) (ss_inFlightCalls s) = rest"
    using ok by (auto simp: indices_def h filter_id_conv image_iff)
  have w: "windowOf (leaveLock c owner (Inr (Some oldest)) ?t) =
      windowOf s\<lparr>sw_inFlight := rest, sw_received := sw_received (windowOf s) @ [oldest], sw_total := sw_total (windowOf s) + 1\<rparr>"
    by (simp add: windowOf_def leaveLock_def enterStage_def notifyStateChange_def dropCall_def rest)
  have "windowBytesOk s \<Longrightarrow> windowBytesOk (leaveLock c owner (Inr (Some oldest)) ?t)"
    using rest by (simp add: windowBytesOk_def leaveLock_def enterStage_def notifyStateChange_def dropCall_def h)
  moreover have "configOf (leaveLock c owner (Inr (Some oldest)) ?t) = configOf s"
    by (simp add: configOf_def leaveLock_def enterStage_def notifyStateChange_def dropCall_def)
  moreover have "windowMove (configOf s) event (windowOf s) [] [] (windowOf (leaveLock c owner (Inr (Some oldest)) ?t))"
    unfolding w by (rule take [OF e]) (simp_all add: windowOf_def h Some)
  ultimately show ?thesis using Some by (simp add: headTurn_def refines_def)
qed

lemma lockTurn_refines:
  assumes "\<not> settling event" "distinct (indices s)"
  shows "refines s event [] (lockTurn c owner s)"
  using leaveLock_refines [OF assms(1), of "Inr None"] headTurn_refines [OF assms]
  by (simp add: lockTurn_def split: list.split)

lemma settleCall_refines:
  assumes "inFlightCall i s = Some call" "sc_settled call = None"
  shows "refines s (CallSettled i r) [] (settleCall i r s)"
proof -
  let ?calls = "map (\<lambda>call. if sc_index call = i then call\<lparr>sc_settled := Some r\<rparr> else call) (ss_inFlightCalls s)"
  have c: "call \<in> set (sw_inFlight (windowOf s))" "sc_index call = i"
    using assms(1) by (auto simp: inFlightCall_def find_Some_iff windowOf_def)
  have w: "windowOf (s\<lparr>ss_inFlightCalls := ?calls\<rparr>) = windowOf s\<lparr>sw_inFlight :=
      map (\<lambda>call. if sc_index call = i then call\<lparr>sc_settled := Some r\<rparr> else call) (sw_inFlight (windowOf s))\<rparr>"
    by (simp add: windowOf_def)
  have "refines s (CallSettled i r) [] (s\<lparr>ss_inFlightCalls := ?calls\<rparr>)"
    unfolding refines_def w using settle [OF c assms(2)] by (simp add: windowBytesOk_def configOf_def)
  then show ?thesis by (rule refines_view [rotated 4]) (simp_all add: settleCall_def)
qed

lemma throw_refines:
  assumes c: "inFlightCall i s = Some call" and d: "distinct (indices s)" and v: "view s' = view (dropCall call s)"
  shows "refines s (CallFnThrows i e) [Finished c r] s'"
proof -
  have m: "call \<in> set (ss_inFlightCalls s)" "sc_index call = i" using c by (auto simp: inFlightCall_def find_Some_iff)
  have w: "windowOf (dropCall call s) = windowOf s\<lparr>sw_inFlight := filter (\<lambda>call. sc_index call \<noteq> i) (sw_inFlight (windowOf s))\<rparr>"
    by (simp add: windowOf_def dropCall_def m(2))
  have "refines s (CallFnThrows i e) [Finished c r] (dropCall call s)"
    unfolding refines_def w using drop [of call "windowOf s" i] m dropCall_bytes [OF _ d m(1)]
    by (simp add: configOf_def dropCall_def windowOf_def)
  then show ?thesis using refines_view [OF refl v refl refl] by simp
qed


lemma jobStep_refines:
  assumes ok: "senderInv s" and step: "jobStep event s = Some (actions, s')"
  shows "refines s event actions s'"
proof (cases event)
  case (LockGranted c)
  then obtain owner where s': "actions = []" "s' = lockTurn c owner (notifyStateChange s)"
    using step by (auto simp: jobStep_def split: list.splits option.splits prod.splits StreamStage.splits if_splits)
  have "refines (notifyStateChange s) event [] s'"
    unfolding s' by (rule lockTurn_refines) (simp_all add: LockGranted indices_distinct [OF ok])
  from refines_view [OF _ refl refl refl this, of s] show ?thesis by (simp add: s'(1))
next
  case (Wakes c)
  then obtain owner i w where m: "map_of (ss_running s) c = Some (owner, HeadWait i w)" and a: "actions = []"
    and s': "(\<exists>oldest. inFlightCall i s = Some oldest \<and> s' = headTurn c owner oldest s) \<or> (\<exists>e. s' = leaveLock c owner (Inl e) s)"
    using step by (auto simp: jobStep_def split: option.splits prod.splits StreamStage.splits WaitSignal.splits)
  have "headOk owner i w s" using ok m by (simp add: senderOk_def headsOk_def)
  then have w: "ss_inFlightCalls s = hd (ss_inFlightCalls s) # tl (ss_inFlightCalls s)"
    and i: "inFlightCall i s = Some (hd (ss_inFlightCalls s))" by (auto simp: headOk_def find_head)
  have e: "\<not> settling event" using Wakes by simp
  show ?thesis
    using s' i a headTurn_refines [OF e indices_distinct [OF ok] w] leaveLock_refines [OF e, of "Inl _"] by auto
next
  case (Releases c)
  then obtain owner where "actions = []"
    "s' = notifyStateChange (enterStage c owner LeftLock (s\<lparr>ss_drainLock := tl (ss_drainLock s)\<rparr>))"
    using step by (auto simp: jobStep_def split: option.splits prod.splits StreamStage.splits)
  then show ?thesis using Releases by (intro refines_quiet) simp_all
next
  case Drains
  then obtain c r rest owner where d: "ss_drained s = (c, r) # rest" and
    run: "(case r of Inl e \<Rightarrow> ([], enterStage c owner (DrainEnds (Inl e)) (s\<lparr>ss_drained := rest\<rparr>))
      | Inr None \<Rightarrow> deliverTurn c owner (s\<lparr>ss_drained := rest\<rparr>)
      | Inr (Some call) \<Rightarrow> deliverTurn c owner (s\<lparr>ss_drained := rest, ss_readyResponses := ss_readyResponses s @ [call]\<rparr>)) = (actions, s')"
    using step by (auto simp: jobStep_def Let_def split: list.splits option.splits prod.splits sum.splits StreamStage.splits)
  have e: "\<not> settling event" using Drains by simp
  let ?t = "case r of Inr (Some call) \<Rightarrow> s\<lparr>ss_drained := rest, ss_readyResponses := ss_readyResponses s @ [call]\<rparr>
    | _ \<Rightarrow> s\<lparr>ss_drained := rest\<rparr>"
  have t: "view ?t = view s"
    by (auto simp: view_def windowOf_def configOf_def d split: sum.split option.split)
  have "refines ?t event actions s'"
  proof (cases r)
    case (Inl x)
    then have "actions = []" "s' = enterStage c owner (DrainEnds (Inl x)) (s\<lparr>ss_drained := rest\<rparr>)" using run by auto
    then show ?thesis using Inl by (intro refines_quiet [OF e]) simp_all
  next
    case (Inr taken)
    then have "(actions, s') = deliverTurn c owner ?t" using run by (cases taken) simp_all
    then show ?thesis using deliverTurn_refines [OF e, of ?t c owner] by (metis fst_conv snd_conv)
  qed
  then show ?thesis by (rule refines_view [OF t [symmetric] refl refl refl])
next
  case (Delivers c)
  then obtain owner where "deliverTurn c owner s = (actions, s')"
    using step by (auto simp: jobStep_def split: option.splits prod.splits StreamStage.splits)
  then show ?thesis using deliverTurn_refines [of event s c owner] Delivers by (metis fst_conv snd_conv settling.simps)
next
  case (OnResponseEnds c r)
  then obtain owner where "actions = []"
    "s' = enterStage c owner Delivering s \<or> (\<exists>e. s' = enterStage c owner (DrainEnds (Inl e)) (rememberError e s))"
    using step by (auto simp: jobStep_def split: option.splits prod.splits StreamStage.splits sum.splits)
  then show ?thesis using OnResponseEnds by (intro refines_quiet) auto
next
  case (Continues c)
  then obtain owner e where "ownerTurn c owner s = (actions, s') \<or> ownerThrows c owner e s = (actions, s')"
    using step by (auto simp: jobStep_def split: option.splits prod.splits StreamStage.splits sum.splits)
  then show ?thesis using ownerTurn_refines [of event s c owner] ownerThrows_refines [of event s c owner e] Continues
    by (metis fst_conv snd_conv settling.simps)
next
  case (CallSettled i r)
  then obtain call where "inFlightCall i s = Some call" "sc_settled call = None" "actions = []" "s' = settleCall i r s"
    using step by (auto simp: jobStep_def split: option.splits if_splits)
  then show ?thesis using settleCall_refines CallSettled by blast
next
  case (AdmissionPasses c)
  then have "(actions, s') = deliverTurn c AdmittedOwner s"
    using step by (auto simp: jobStep_def split: option.splits prod.splits StreamStage.splits)
  then show ?thesis using deliverTurn_refines [of event s c AdmittedOwner] AdmissionPasses by (metis fst_conv snd_conv settling.simps)
qed (use step in \<open>simp_all add: jobStep_def\<close>)

lemma returnStep_refines:
  assumes ok: "senderInv s" and step: "returnStep event s = Some (actions, s')"
  shows "refines s event actions s'"
proof -
  obtain c stack where st: "ss_stack s = c # stack" using step by (auto simp: returnStep_def split: list.splits)
  obtain owner stage where m: "map_of (ss_running s) c = Some (owner, stage)"
    using step st by (cases "map_of (ss_running s) c"; cases event) (auto simp: returnStep_def)
  let ?s = "s\<lparr>ss_stack := stack\<rparr>"
  show ?thesis
  proof (cases event)
    case (CallFnReturns i)
    then have "actions = [Finished c (Inr ())] \<and> s' = snd (finishCoroutine c (Inr ()) (notifyStateChange ?s)) \<or>
        actions = [] \<and> s' = enterStage c owner AwaitsAdmission (notifyStateChange ?s)"
      using step st m by (auto simp: returnStep_def Let_def finishCoroutine_def split: StreamStage.splits if_splits)
    then show ?thesis using CallFnReturns by (intro refines_quiet) auto
  next
    case (CallFnThrows i e)
    then obtain call where c: "inFlightCall i s = Some call" and a: "actions = [Finished c (Inl e)]"
      and s': "s' = snd (finishCoroutine c (Inl e) (notifyStateChange (rememberError e (dropCall call (notifyStateChange ?s)))))"
      using step st m by (auto simp: returnStep_def Let_def finishCoroutine_def split: StreamStage.splits if_splits)
    have "view (dropCall call (notifyStateChange ?s)) = view (dropCall call s)"
      by (simp add: dropCall_def notifyStateChange_def view_def windowOf_def configOf_def)
    then show ?thesis unfolding a CallFnThrows
      by (intro throw_refines [OF c indices_distinct [OF ok]]) (simp add: s')
  next
    case (OnErrorEnds d r)
    then have "actions = [] \<and> (s' = enterStage c owner Delivering ?s \<or> (\<exists>e. s' = enterStage c owner (DrainEnds (Inl e)) (rememberError e ?s)))"
      using step st m by (auto simp: returnStep_def Let_def split: StreamStage.splits if_splits sum.splits)
    then show ?thesis using OnErrorEnds by (intro refines_quiet) auto
  qed (use step st in \<open>simp_all add: returnStep_def\<close>)
qed


lemma streamStep_refines:
  assumes ok: "senderInv s" and step: "streamStep event s = Some (actions, s')"
  shows "refines s event actions s'"
proof (cases event)
  case (Cancel reason)
  let ?c = "ss_nextCoroutine s"
  obtain aborts t where c: "cancelStream reason s = (aborts, t)" by (cases "cancelStream reason s")
  have t: "view t = view s" "callbacks aborts = []" "callsMade aborts = []"
    using c by (auto simp: cancelStream_def split: if_splits)
  have "(actions, s') = apfst ((@) aborts) (ownerTurn (ss_nextCoroutine s) (CancelOwner None) (newCoroutine t))"
    using step Cancel c by (simp add: streamStep_def Let_def del: ownerTurn.simps)
  then obtain more where a: "actions = aborts @ more" "(more, s') = ownerTurn (ss_nextCoroutine s) (CancelOwner None) (newCoroutine t)"
    by (metis apfst_conv prod.collapse prod.inject)
  have "refines (newCoroutine t) event more s'"
    using ownerTurn_refines [of event "newCoroutine t" "ss_nextCoroutine s" "CancelOwner None"] Cancel a(2)
    by (metis fst_conv snd_conv settling.simps)
  then show ?thesis by (rule refines_view [rotated 4]) (simp_all add: t a(1))
next
  case SignalAborts
  then show ?thesis using step by (intro refines_quiet) (auto simp: streamStep_def split: if_splits)
next
  case (WaitSignalAborts c e)
  then show ?thesis using step
    by (intro refines_quiet) (auto simp: streamStep_def split: option.splits prod.splits StreamOwner.splits)
next
  case (Send params)
  then have "(actions, s') = startChecked (ss_nextCoroutine s) (SendOwner params) (jint (int (length params))) (newCoroutine s)"
    using step by (simp add: streamStep_def Let_def)
  moreover have "\<not> settling event" using Send by simp
  ultimately have "refines (newCoroutine s) event actions s'" by (metis fst_conv snd_conv startChecked_refines)
  then show ?thesis by (rule refines_view [rotated 4]) simp_all
next
  case (WaitForCapacity byteLength aborted)
  let ?n = "capacityNeed s byteLength"
  have "(actions, s') = startChecked (ss_nextCoroutine s) (CapacityOwner (toInt ?n) aborted) ?n (newCoroutine s)"
    using step WaitForCapacity by (simp add: streamStep_def Let_def)
  moreover have "\<not> settling event" using WaitForCapacity by simp
  ultimately have "refines (newCoroutine s) event actions s'" by (metis fst_conv snd_conv startChecked_refines)
  then show ?thesis by (rule refines_view [rotated 4]) simp_all
next
  case Flush
  then have "(actions, s') = ownerTurn (ss_nextCoroutine s) (FlushOwner None) (newCoroutine s)"
    using step by (simp add: streamStep_def Let_def del: ownerTurn.simps)
  moreover have "\<not> settling event" using Flush by simp
  ultimately have "refines (newCoroutine s) event actions s'" by (metis fst_conv snd_conv ownerTurn_refines)
  then show ?thesis by (rule refines_view [rotated 4]) simp_all
qed (use step jobStep_refines [OF ok] returnStep_refines [OF ok] in \<open>auto simp: streamStep_def Let_def split: if_splits\<close>)

lemma streamRun_window:
  assumes "streamRun options events actions (s :: 'r StreamSender)"
  shows "windowRun (configOf s) events (callbacks actions) (callsMade actions) (windowOf s) \<and> windowBytesOk s \<and>
    (\<exists>s0 :: 'r StreamSender. createStreamSender options = Inr s0 \<and> configOf s = configOf s0)"
  using assms
proof (induction rule: streamRun.induct)
  case (created s)
  then have "ss_inFlightCalls s = []" "ss_readyResponses s = []" "ss_drained s = []" "ss_nextIndex s = 0"
    "ss_totalReceived s = 0" "ss_inFlightBytes s = 0"
    by (auto simp: createStreamSender_def Let_def split: if_splits)
  then show ?case using empty [of "configOf s"] created by (auto simp: windowOf_def windowBytesOk_def drainedCalls_def)
next
  case (happens events actions s event now s')
  then have "refines s event now s'" using streamStep_refines streamRun_ok by blast
  then have *: "windowMove (configOf s) event (windowOf s) (callbacks now) (callsMade now) (windowOf s')"
    "configOf s' = configOf s" "windowBytesOk s'" using happens.IH by (auto simp: refines_def)
  show ?case using move [OF conjunct1 [OF happens.IH] *(1)] * happens.IH by simp
qed


lemma created_limits:
  assumes "createStreamSender options = Inr s"
  shows "sf_maxInFlight (configOf s) = toInt (orElse (so_maxInFlight options) (jint 8))"
    "sf_maxInFlightBytes (configOf s) = map_option toInt (so_maxInFlightBytes options)"
    "0 \<le> sf_maxInFlight (configOf s)" "\<And>limit. sf_maxInFlightBytes (configOf s) = Some limit \<Longrightarrow> 0 \<le> limit"
proof -
  let ?n = "orElse (so_maxInFlight options) (jint 8)"
  have pos: "\<not> numLess n (jint 1) \<Longrightarrow> isInteger n \<Longrightarrow> 0 \<le> toInt n" for n
    by (cases n) (auto simp: jint_def elim!: Ints_cases)
  have safe: "isSafeInteger n \<Longrightarrow> isInteger n" for n by (cases n) auto
  have s: "sf_maxInFlight (configOf s) = toInt ?n" "sf_maxInFlightBytes (configOf s) = map_option toInt (so_maxInFlightBytes options)"
    and n: "\<not> numLess ?n (jint 1)" "isInteger ?n"
    and lim: "\<And>l. so_maxInFlightBytes options = Some l \<Longrightarrow> isSafeInteger l \<and> \<not> numLess l (jint 1)"
    using assms by (auto simp: createStreamSender_def Let_def configOf_def split: if_splits)
  show "sf_maxInFlight (configOf s) = toInt ?n" "sf_maxInFlightBytes (configOf s) = map_option toInt (so_maxInFlightBytes options)"
    "0 \<le> sf_maxInFlight (configOf s)" using s n pos by auto
  show "sf_maxInFlightBytes (configOf s) = Some limit \<Longrightarrow> 0 \<le> limit" for limit
    using s lim pos safe by (cases "so_maxInFlightBytes options") auto
qed

end
