(* ===== verification/Stream_Properties.thy ===== *)
theory Stream_Properties
  imports Stream_Window
begin

text \<open>
  The properties of the stream sender of \<open>src/rpc/session/streaming.ts\<close>, each with a witness.
\<close>

definition oneByOne :: StreamSenderOptions where
  "oneByOne = \<lparr>so_maxInFlight = Some (jint 1), so_maxInFlightBytes = Some (jint 4), so_onResponse = True, so_onError = True\<rparr>"

primrec streamSteps :: "'r stream_event list \<Rightarrow> 'r StreamSender \<Rightarrow> ('r stream_action list \<times> 'r StreamSender) option" where
  "streamSteps [] s = Some ([], s)"
| "streamSteps (event # events) s =
     (case streamStep event s of
        None \<Rightarrow> None
      | Some (now, s') \<Rightarrow> map_option (apfst ((@) now)) (streamSteps events s'))"

lemma streamSteps_run:
  "streamSteps events s = Some (later, s') \<Longrightarrow> streamRun options past actions s \<Longrightarrow>
    streamRun options (rev events @ past) (actions @ later) s'"
proof (induction events arbitrary: s past actions later)
  case (Cons event events)
  then obtain now s1 rest where step: "streamStep event s = Some (now, s1)"
    and rest: "streamSteps events s1 = Some (rest, s')" "later = now @ rest"
    by (auto split: option.splits)
  from Cons.IH [OF rest(1) streamRun.happens [OF Cons.prems(2) step]] show ?case by (simp add: rest(2))
qed simp

section \<open>Order and bounds\<close>

text \<open>C38: In every history of a stream sender, whatever order the calls settle in, its responses are
  delivered in the order of the calls, each once and with what its own call settled with: the calls that
  were accepted are, in the order of their indices, those delivered, those taken from the window, and
  the window; the callbacks made are those of the delivered calls. The window never exceeds
  maxInFlight calls and maxInFlightBytes bytes, and the counters of the sender are exact.\<close>

theorem stream_in_order:
  assumes "streamRun options events actions (s :: 'r StreamSender)"
  shows "\<exists>delivered. delivered @ map sc_index (ss_readyResponses s @ drainedCalls (ss_drained s) @ ss_inFlightCalls s) =
      accepted events (ss_nextIndex s) \<and>
    callbacks actions = concat (map (\<lambda>i. callbackFor (configOf s) i (settlement events i)) delivered) \<and>
    callsMade actions = [0..<ss_nextIndex s] \<and>
    ss_totalReceived s = length delivered + length (ss_readyResponses s) + length (drainedCalls (ss_drained s)) \<and>
    int (length (ss_inFlightCalls s)) \<le> toInt (orElse (so_maxInFlight options) (jint 8)) \<and>
    ss_inFlightBytes s = callBytes (ss_inFlightCalls s) \<and>
    (\<forall>limit. so_maxInFlightBytes options = Some limit \<longrightarrow> ss_inFlightBytes s \<le> toInt limit)"
proof -
  from streamRun_window [OF assms] obtain s0 :: "'r StreamSender" where run: "windowRun (configOf s) events (callbacks actions) (callsMade actions) (windowOf s)"
    and bytes: "windowBytesOk s" and s0: "createStreamSender options = Inr s0" "configOf s = configOf s0" by blast
  have cfg: "sf_maxInFlight (configOf s) = toInt (orElse (so_maxInFlight options) (jint 8))"
      "sf_maxInFlightBytes (configOf s) = map_option toInt (so_maxInFlightBytes options)"
    and pos: "0 \<le> sf_maxInFlight (configOf s)" "\<And>limit. sf_maxInFlightBytes (configOf s) = Some limit \<Longrightarrow> 0 \<le> limit"
    using created_limits [OF s0(1)] s0(2) by auto
  have "withinWindow (configOf s) (windowOf s)" by (rule windowRun_within [OF run pos])
  then have "int (length (ss_inFlightCalls s)) \<le> toInt (orElse (so_maxInFlight options) (jint 8))"
    and "\<forall>limit. so_maxInFlightBytes options = Some limit \<longrightarrow> ss_inFlightBytes s \<le> toInt limit"
    using cfg bytes by (auto simp: withinWindow_def windowOf_def windowBytesOk_def)
  moreover obtain ds where "accounts (configOf s) events (callbacks actions) (callsMade actions) (windowOf s) ds"
    using windowRun_accounts [OF run] by blast
  ultimately show ?thesis using bytes by (auto simp: accounts_def windowOf_def windowBytesOk_def)
qed

text \<open>A window of one: the second call waits until the first has been answered and delivered, then the
  second one fails.\<close>

definition twoCalls :: "nat stream_event list" where
  "twoCalls = [Send [1, 2], CallFnReturns 0, AdmissionPasses 0, Continues 0, Send [3], LockGranted 1, CallSettled 0 (Inr 7),
     Wakes 1, Releases 1, Drains, OnResponseEnds 1 (Inr ()), Delivers 1, Continues 1, CallFnReturns 1,
     CallSettled 1 (Inl (SessionError ''late'' []))]"

definition startedSender :: "'r StreamSender" where
  "startedSender = \<lparr>ss_maxInFlight = 1, ss_maxInFlightBytes = Some 4, ss_onResponse = True, ss_onError = True,
     ss_inFlightCalls = [], ss_readyResponses = [], ss_inFlightBytes = 0,
     ss_nextIndex = 0, ss_totalReceived = 0, ss_firstError = None, ss_canceled = None,
     ss_signalAborted = False, ss_drainLock = [], ss_drained = [], ss_stack = [],
     ss_running = [], ss_nextCoroutine = 0\<rparr>"

lemma started: "createStreamSender oneByOne = Inr startedSender"
  by (simp add: createStreamSender_def oneByOne_def orElse_def startedSender_def Let_def MAX_SAFE_INTEGER_def)

lemma twoCalls_steps:
  "map_option (\<lambda>(actions, s). (actions, map sc_index (ss_inFlightCalls s), ss_nextIndex s, ss_readyResponses s, ss_drained s, configOf s))
     (streamSteps twoCalls startedSender) =
   Some ([CallFn 0 [1, 2], Finished 0 (Inr ()), OnResponse 0 7, CallFn 1 [3]], [1], 2, [], [],
     \<lparr>sf_maxInFlight = 1, sf_maxInFlightBytes = Some 4, sf_onResponse = True, sf_onError = True\<rparr>)"
  by code_simp


text \<open>The first call is answered with 7 and delivered, the second is in the window with its error.\<close>

theorem stream_in_order_witness:
  "\<exists>s delivered. streamRun oneByOne (rev twoCalls) [CallFn 0 [1, 2], Finished 0 (Inr ()), OnResponse 0 7, CallFn 1 [3]] s \<and>
    delivered @ [1] = [0, 1] \<and> [(0, Inr 7)] = concat (map (\<lambda>i. callbackFor (configOf s) i (settlement (rev twoCalls) i)) delivered) \<and>
    ss_totalReceived s = 1 \<and> ss_inFlightBytes s \<le> 4"
proof -
  obtain s where steps: "streamSteps twoCalls startedSender =
        Some ([CallFn 0 [1, 2], Finished 0 (Inr ()), OnResponse 0 7, CallFn 1 [3]], s)"
    and s: "map sc_index (ss_inFlightCalls s) = [1]" "ss_nextIndex s = 2" "ss_readyResponses s = []" "ss_drained s = []"
    using twoCalls_steps by auto
  have run: "streamRun oneByOne (rev twoCalls) [CallFn 0 [1, 2], Finished 0 (Inr ()), OnResponse 0 7, CallFn 1 [3]] s"
    using streamSteps_run [OF steps streamRun.created [OF started]] by simp
  have acc: "accepted (rev twoCalls) 2 = [0, 1]" by code_simp
  from stream_in_order [OF run] obtain delivered where "delivered @ [1] = [0, 1]"
    "[(0, Inr 7)] = concat (map (\<lambda>i. callbackFor (configOf s) i (settlement (rev twoCalls) i)) delivered)"
    "ss_totalReceived s = length delivered" "ss_inFlightBytes s \<le> 4"
    by (auto simp: s acc oneByOne_def)
  then show ?thesis using run by fastforce
qed

section \<open>No coroutine is left behind\<close>

text \<open>The continuations that wait for nothing outside of the sender.\<close>

fun ownJob :: "'r stream_event \<Rightarrow> bool" where
  "ownJob (LockGranted c) = True"
| "ownJob (Wakes c) = True"
| "ownJob (Releases c) = True"
| "ownJob Drains = True"
| "ownJob (Delivers c) = True"
| "ownJob (Continues c) = True"
| "ownJob (AdmissionPasses c) = True"
| "ownJob _ = False"

text \<open>C36: A stream sender never gets stuck by itself: no wake-up is lost and the drain lock is not left
  held. When no callback is on the stack and no continuation of its own can run, then each send, capacity
  wait, flush or cancel that has not ended waits for its onResponse callback, or for the first call of
  the window: that call has not settled, the holder of the drain lock sleeps on it and is still entitled
  to (a flush or cancel, or the stream neither aborted nor failed and its own signal not aborted),
  and the others queue behind the holder.\<close>

theorem stream_never_stuck:
  assumes "streamRun options events actions s" "ss_stack s = []"
    and "\<And>event. ownJob event \<Longrightarrow> streamStep event s = None"
    and "map_of (ss_running s) c = Some (owner, stage)"
  shows "stage = InOnResponse \<or>
    (\<exists>oldest rest holder queue howner. ss_inFlightCalls s = oldest # rest \<and> sc_settled oldest = None \<and>
       ss_drainLock s = holder # queue \<and>
       map_of (ss_running s) holder = Some (howner, HeadWait (sc_index oldest) Sleeping) \<and>
       waitAborted howner = None \<and> (allowClosed howner \<or> checkOpen s = Inr ()) \<and>
       (c = holder \<or> c \<in> set queue \<and> stage = LockWait))"
  using quiescent [OF streamRun_ok [OF assms(1)] assms(2) _ assms(4)] assms(3) by fastforce


text \<open>A second send sleeps on the first call of a window of one, a flush queues behind it.\<close>

definition sleepingCalls :: "nat stream_event list" where
  "sleepingCalls = [Send [1, 2], CallFnReturns 0, AdmissionPasses 0, Continues 0, Send [3], LockGranted 1, Flush]"

lemma sleeping_steps:
  "map_option (\<lambda>(actions, s). (ss_running s, ss_drainLock s, ss_drained s, ss_stack s,
       map (\<lambda>call. (sc_index call, sc_settled call)) (ss_inFlightCalls s)))
     (streamSteps sleepingCalls startedSender) =
   Some ([(1, SendOwner [3], HeadWait 0 Sleeping), (2, FlushOwner None, LockWait)], [1, 2], [], [], [(0, None)])"
  by code_simp

theorem stream_never_stuck_witness:
  "\<exists>actions s oldest rest holder queue howner. streamRun oneByOne (rev sleepingCalls) actions s \<and>
    ss_inFlightCalls s = oldest # rest \<and> sc_settled oldest = None \<and> ss_drainLock s = holder # queue \<and>
    map_of (ss_running s) holder = Some (howner, HeadWait (sc_index oldest) Sleeping) \<and> 2 \<in> set queue"
proof -
  obtain actions s where steps: "streamSteps sleepingCalls startedSender = Some (actions, s)"
    and s: "ss_running s = [(1, SendOwner [3], HeadWait 0 Sleeping), (2, FlushOwner None, LockWait)]"
      "ss_drainLock s = [1, 2]" "ss_drained s = []" "ss_stack s = []"
    using sleeping_steps by auto
  have run: "streamRun oneByOne (rev sleepingCalls) actions s"
    using streamSteps_run [OF steps streamRun.created [OF started]] by simp
  have none: "streamStep event s = None" if "ownJob event" for event
    using that s by (cases event) (auto simp: streamStep_def jobStep_def)
  have "map_of (ss_running s) 2 = Some (FlushOwner None, LockWait)" by (simp add: s)
  from stream_never_stuck [OF run s(4) none this] obtain oldest rest where f: "ss_inFlightCalls s = oldest # rest"
    "sc_settled oldest = None" "map_of (ss_running s) 1 = Some (SendOwner [3], HeadWait (sc_index oldest) Sleeping)"
    by (auto simp: s)
  show ?thesis
    by (rule exI [of _ actions], rule exI [of _ s], rule exI [of _ oldest], rule exI [of _ rest], rule exI [of _ 1],
      rule exI [of _ "[2]"], rule exI [of _ "SendOwner [3]"]) (use run f s(2) in simp)
qed

end
