(* ===== verification/Spec2Isabelle.thy ===== *)
theory Spec2Isabelle
  imports
    Frame_Properties
    Framer_Properties
    Value_Properties
    Rpc_Properties
    Server_Properties
    Codec_Properties
    Client_Properties
    Resilience_Properties
    Stream_Properties
begin

text \<open>
  A model of capnp-deno, the Cap'n Proto runtime and RPC library for Deno, with the theorems that
  make it correct. The program encodes typed values into Cap'n Proto messages and back, frames them
  on byte streams, checks what comes from an untrusted peer, and runs the two-party RPC protocol
  over frames: a client asks questions, a server bridge dispatches them to handlers and returns
  their results, and both count the references on the capabilities they export. All paths below are
  under \<open>src/\<close> of the repository.

  \<^bold>\<open>Parts and theories.\<close> Every component is a group of definitions in the order of the source, in the
  theory named here; the theories that end in \<open>_Properties\<close> hold the properties.

  \<^item> \<open>Capnp_Prelude\<close>, \<open>Js_Bytes\<close>, \<open>Js_Text\<close>, \<open>Js_Value\<close>: the vocabulary. Errors are values (the message of
    the source as a template with the numbers interpolated into it), a fallible operation returns
    \<open>error + 'a\<close>, a number a caller supplies is a \<open>number\<close> (a rational, an infinity or NaN), a number the
    code computes is an \<open>int\<close>, a 64-bit bigint is a \<open>64 word\<close>, bytes are \<open>8 word list\<close>, strings are lists
    of UTF-16 code units with the platform's \<open>TextEncoder\<close> and \<open>TextDecoder\<close>, a \<open>Map\<close> is an association
    list in insertion order, an object is the list of its own properties.
  \<^item> \<open>Frame_Layout\<close> (the framing as a specification), \<open>Wire_Segments\<close> (\<open>rpc/wire/segments.ts\<close>, constants of
    \<open>types.ts\<close>), \<open>Pointer_Words\<close> and \<open>Pointer_Spec\<close> (the fields and the meaning of a pointer word),
    \<open>Wire_Pointers\<close> (\<open>rpc/wire/pointers.ts\<close>).
  \<^item> \<open>Frame_Limits\<close>, \<open>Frame_Walk\<close> (\<open>rpc/wire/frame_limits.ts\<close>): the parser with configured limits and the
    pointer walk that refuses deep, dangling and oversized messages.
  \<^item> \<open>Frame_Framer\<close> (\<open>rpc/wire/framer.ts\<close>): the incremental framer, its state a record, its specification
    the list of buffered bytes.
  \<^item> \<open>Word_Memory\<close>, \<open>Word_Builder\<close>, \<open>Word_Frame\<close>: a segment as a list of words, and the interface (a locale,
    interpreted on the two builders and on the memory of the codec) of a buffer that allocates words.
  \<^item> \<open>Runtime_Message\<close>, \<open>Runtime_Roundtrip\<close> (\<open>encoding/runtime_message.ts\<close>): \<open>MessageBuilder\<close> and
    \<open>MessageReader\<close>.
  \<^item> \<open>Wire_Values\<close>, \<open>Any_Pointer_Copy\<close>, \<open>Any_Pointer_Messages\<close>, \<open>Copy_Limits\<close>: the value a pointer reads as,
    and the budgeted deep copy of \<open>encoding/runtime_codec.ts\<close> with its soundness and its exact cost.
  \<^item> \<open>Codec_Types\<close> (\<open>encoding/runtime_model.ts\<close>), \<open>Codec_Encode\<close>, \<open>Codec_Decode\<close> (the struct codec of
    \<open>encoding/runtime_codec.ts\<close>), \<open>Codec_Spec\<close> (what the codec promises, without bytes), \<open>Codec_Fields\<close>,
    \<open>Codec_Pointers\<close>, \<open>Codec_Roundtrip\<close>, \<open>Codec_Inverse\<close> (the round trip), \<open>Codec_Typing\<close> (the types of what
    is decoded), \<open>Codec_Caps\<close>, \<open>Codec_Caps_Walk\<close> (\<open>encoding/runtime_caps.ts\<close>).
  \<^item> \<open>Rpc_Messages\<close> (\<open>rpc/wire/types.ts\<close>), \<open>Wire_Builder\<close> and \<open>Wire_Encode\<close> (\<open>rpc/wire/encode.ts\<close>),
    \<open>Wire_Decode\<close> (\<open>rpc/wire/decode.ts\<close>), \<open>Wire_Router\<close> (\<open>rpc/wire/router.ts\<close>), with \<open>Wire_Roundtrip\<close>,
    \<open>Cap_Tables\<close>, \<open>Payload_Roundtrip\<close>, \<open>Call_Roundtrip\<close>: what each encoder writes word by word and what the
    decoders read of it.
  \<^item> \<open>Server_Capabilities\<close>, \<open>Server_Bridge\<close>, \<open>Server_Calls\<close>, \<open>Server_Host\<close> (\<open>rpc/server/bridge.ts\<close>): the bridge
    as a state machine over events, with \<open>Server_References\<close> (capability accounting), \<open>Server_Load\<close> (limits
    and pipelines) and \<open>Server_Path\<close> (the path of one call).
  \<^item> \<open>Client_Types\<close> (options and results, \<open>rpc/session/client.ts\<close>, \<open>rpc/call_result.ts\<close>, \<open>errors.ts\<close>),
    \<open>Wire_Client\<close> (\<open>rpc/rpc_wire_client.ts\<close>), \<open>Wire_Client_State\<close> (its invariant), \<open>Wire_Client_Runs\<close> (its
    histories).
  \<^item> \<open>Js_Validation\<close> (\<open>validation.ts\<close>) and the wrappers of \<open>rpc/transports/resilience\<close>: \<open>Circuit_Breaker\<close>
    (\<open>circuit_breaker.ts\<close>), \<open>Reconnect\<close> (\<open>reconnect.ts\<close>: the backoff policy, an interpretation of the
    locale of bounded policies, and the loop), \<open>Connection_Pool\<close> (\<open>connection_pool.ts\<close>) with its invariant
    in \<open>Connection_Pool_State\<close>.
  \<^item> \<open>Stream_Sender\<close> (\<open>rpc/session/streaming.ts\<close>), \<open>Stream_Sender_State\<close> (its invariant), \<open>Stream_Window\<close> (what it
    promises, a bounded window of calls, and the refinement of it).

  \<^bold>\<open>Asynchronous code.\<close> The bridge, the client, the circuit breaker, the connection pool and the stream sender are written
  with promises. An event is one run of code
  between two awaits; what waits is part of the state, as a stage under the identity of the
  coroutine (an answer entry of the bridge, a question id of the client, an attempt of the pool, a
  running operation of the sender). The
  environment (handlers,
  transport, timers, signals, the peer's frames) chooses the events, so a theorem about reachable
  states or about runs holds for every interleaving of them.

  \<^bold>\<open>What the theorems show.\<close> Messages: an encoded value decodes to exactly what the descriptor promises;
  whatever is decoded has the types of its descriptor; embedded messages are copied with their
  value and within their budget; capability indices survive the renumbering into a table. Frames: the
  framer reassembles any chunking of a stream; far pointers resolve as the encoding specification
  says; an accepted frame has no pointer beyond its limits; the walk ends. RPC: every frame kind
  round trips and the router agrees with the decoders; a call goes from the caller's arguments to the
  handler and its response back to the caller; in every history hold counts are exact, limits
  are kept, pipelined answers are not evicted, a question is answered at most once and with its own
  Return, and a closed client leaves no caller waiting. Resilience: the breaker's counter is exact and
  it is never stuck half open; reconnection under the backoff policy returns, with the first success
  or the last error; a connection of the pool is in one place at a time, is lent to one caller, and
  no waiter is left behind while the pool could serve it.
  Streaming: the sender refines a window that keeps its limits and delivers in the order of the calls;
  no wake-up is lost and the drain lock is never left held.
  Where the code departs from what it means to do, a theorem shows the departure on the model: some
  of these are properties, some plain theorems beside them.

  \<^bold>\<open>Bounds and fuel.\<close> Far pointers are followed for 8 hops, as in the code. The pointer walk is a while
  loop whose visited set grows within the finite set of word positions. The builders' doubling loop is
  a while loop that ends since the capacity doubles. The copy recurses on the budget that every
  step uses up. The encoder recurses on the value. The decoder and the capability walks of the source
  have no bound of their own: they take fuel and return \<open>Diverges\<close> when it runs out. The round trip
  shows that twice the size of the value plus one is enough, and two properties show inputs for which
  no fuel is. \<open>reconnectLoop\<close> is a partial function whose value is \<open>None\<close> when it does not return; under
  the backoff policy the number of its rounds is bounded, so it has a value.

  \<^bold>\<open>What is not modelled, and why.\<close> A builder that an exception leaves half written is not visible
  afterwards, so it is dropped. The sign of a zero and the payload of a NaN are not kept. Error causes
  and metadata, and observability events, have no effect on the state. Handlers, hooks, the ABI of the
  WebAssembly module, transports and timers are parameters or events. The callback \<open>onQuestionId\<close> is taken to return
  without calling the client, the observers of the breaker without calling the breaker. The rounding of
  the delays of the backoff policy to doubles is left out. \<open>withConnection\<close>, the reconnecting client and
  the session client on top of the modelled layers compose them with further promises and are left
  out, as are the byte reservations of the stream sender's call functions (\<open>prepare\<close>, \<open>reserveBytes\<close>).
  A history of the bridge has no calls of a WASM peer (they are modelled as functions of its states),
  a history of the framer ends at the first call that throws, incoming hooks run without awaits of their
  own, and the callback \<open>onFinish\<close>, which gives nothing back to the bridge, is left out. The unbudgeted \<open>deepCopyPointer\<close> of \<open>pointers.ts\<close> is left out (it does
  not return on a cyclic message). The transports over platform sockets, the WASM host ABI, the code
  generator, generated schema modules, examples and benchmarks hold no protocol logic of their own.
\<close>

end
